(* ===== verification/Prelude.thy ===== *)
theory Prelude
  imports Complex_Main "HOL-Library.AList" "HOL-Library.Multiset"
begin

text \<open>
  Shared vocabulary of the development: how JavaScript's values appear in the model, the
  standard-library operations several components use, and the lemmas about them.

  Conventions.
  \<^item> A JavaScript number that carries a coordinate, a factor or a delay is a rational,
    computed exactly: rounding of doubles, \<open>NaN\<close> and the infinities are outside the model.
    A number that is a page number, a count or an array index is an \<open>int\<close> or a \<open>nat\<close>.
  \<^item> A string is a list of code units below 256 (the type \<open>string\<close>).
  \<^item> \<open>null\<close> and \<open>undefined\<close> are \<open>None\<close>.
  \<^item> A \<open>Map\<close> is an association list with distinct keys in insertion order; a \<open>Set\<close> is a
    list without repetitions in insertion order.
  \<^item> A \<open>throw\<close> is the left injection of a sum.
\<close>

named_theorems js_simps \<open>equations of the JavaScript array, map and set operations\<close>
named_theorems inv_intros \<open>an operation keeps the invariant of its component\<close>

type_synonym jsnum = rat
type_synonym uuid = string

section \<open>Arrays\<close>

text \<open>\<open>xs.findIndex(P)\<close>; the value -1 is \<open>None\<close>.\<close>

fun find_index :: "('a \<Rightarrow> bool) \<Rightarrow> 'a list \<Rightarrow> nat option" where
  "find_index P [] = None"
| "find_index P (x # xs) = (if P x then Some 0 else map_option Suc (find_index P xs))"

text \<open>\<open>xs.splice(i, 1)\<close> and \<open>xs.splice(i, 0, x)\<close> with an index in range.\<close>

definition splice_del :: "nat \<Rightarrow> 'a list \<Rightarrow> 'a list" where
  "splice_del i xs = take i xs @ drop (Suc i) xs"

definition splice_ins :: "nat \<Rightarrow> 'a \<Rightarrow> 'a list \<Rightarrow> 'a list" where
  "splice_ins i x xs = take i xs @ x # drop i xs"

text \<open>\<open>const e = xs.find(P)\<close> followed by assignments to \<open>e\<close>: the first match changes.\<close>

fun update_first :: "('a \<Rightarrow> bool) \<Rightarrow> ('a \<Rightarrow> 'a) \<Rightarrow> 'a list \<Rightarrow> 'a list" where
  "update_first P f [] = []"
| "update_first P f (x # xs) = (if P x then f x # xs else x # update_first P f xs)"

text \<open>\<open>xs.forEach((x, i) => ...)\<close> where the body only rewrites \<open>x\<close>.\<close>

definition map_index :: "(nat \<Rightarrow> 'a \<Rightarrow> 'b) \<Rightarrow> 'a list \<Rightarrow> 'b list" where
  "map_index f xs = map (\<lambda>(i, x). f i x) (zip [0..<length xs] xs)"

lemma find_index_None [js_simps]: "find_index P xs = None \<longleftrightarrow> (\<forall>x\<in>set xs. \<not> P x)"
  by (induction xs) auto

lemma find_index_Some:
  "find_index P xs = Some i \<longleftrightarrow> i < length xs \<and> P (xs ! i) \<and> (\<forall>j<i. \<not> P (xs ! j))"
proof (induction xs arbitrary: i)
  case Nil
  then show ?case by simp
next
  case (Cons x xs)
  show ?case
    by (cases i) (auto simp: Cons.IH All_less_Suc2)
qed

lemma find_index_less: "find_index P xs = Some i \<Longrightarrow> i < length xs"
  by (simp add: find_index_Some)

lemma length_splice_del [js_simps]: "i < length xs \<Longrightarrow> length (splice_del i xs) = length xs - 1"
  by (simp add: splice_del_def)

lemma length_splice_ins [js_simps]: "i \<le> length xs \<Longrightarrow> length (splice_ins i x xs) = Suc (length xs)"
  by (simp add: splice_ins_def)

lemma mset_splice_del: "i < length xs \<Longrightarrow> add_mset (xs ! i) (mset (splice_del i xs)) = mset xs"
  by (metis Cons_nth_drop_Suc add_mset_add_single append_take_drop_id mset.simps(2) mset_append
      splice_del_def union_mset_add_mset_right)

lemma mset_splice_ins: "i \<le> length xs \<Longrightarrow> mset (splice_ins i x xs) = add_mset x (mset xs)"
  by (metis append_take_drop_id mset.simps(2) mset_append splice_ins_def union_mset_add_mset_right)

lemma set_splice_ins: "set (splice_ins i x xs) = insert x (set xs)"
  by (metis (no_types, lifting) Un_insert_right append_take_drop_id list.simps(15) set_append
      splice_ins_def)

lemma set_splice_del: "set (splice_del i xs) \<subseteq> set xs"
  by (auto simp: splice_del_def dest: in_set_takeD in_set_dropD)

lemma nth_splice_ins:
  "i \<le> length xs \<Longrightarrow> j \<le> length xs \<Longrightarrow>
   splice_ins i x xs ! j = (if j < i then xs ! j else if j = i then x else xs ! (j - 1))"
  by (auto simp: splice_ins_def nth_append nth_Cons')

lemma splice_ins_del: "i < length xs \<Longrightarrow> splice_ins i (xs ! i) (splice_del i xs) = xs"
  by (simp add: splice_ins_def splice_del_def Cons_nth_drop_Suc)

lemma splice_del_ins: "i \<le> length xs \<Longrightarrow> splice_del i (splice_ins i x xs) = xs"
  by (simp add: splice_ins_def splice_del_def)

lemma length_update_first [js_simps]: "length (update_first P f xs) = length xs"
  by (induction xs) auto

lemma update_first_none: "(\<forall>x\<in>set xs. \<not> P x) \<Longrightarrow> update_first P f xs = xs"
  by (induction xs) auto

lemma map_update_first:
  "(\<And>x. g (f x) = g x) \<Longrightarrow> map g (update_first P f xs) = map g xs"
  by (induction xs) auto

lemma length_map_index [js_simps]: "length (map_index f xs) = length xs"
  by (simp add: map_index_def)

lemma nth_map_index [js_simps]: "i < length xs \<Longrightarrow> map_index f xs ! i = f i (xs ! i)"
  by (simp add: map_index_def)

lemma map_map_index: "(\<And>i x. g (f i x) = h x) \<Longrightarrow> map g (map_index f xs) = map h xs"
  by (rule nth_equalityI) (auto simp: js_simps)

text \<open>\<open>xs[i]\<close>: \<open>undefined\<close> below zero and past the end.\<close>

definition js_nth :: "'a list \<Rightarrow> int \<Rightarrow> 'a option" where
  "js_nth xs i = (if 0 \<le> i \<and> nat i < length xs then Some (xs ! nat i) else None)"

lemma js_nth_simps [simp]: "js_nth [] i = None" "js_nth (x # xs) 0 = Some x"
  by (simp_all add: js_nth_def)

lemma js_nth_Some: "js_nth xs i = Some x \<longleftrightarrow> 0 \<le> i \<and> nat i < length xs \<and> xs ! nat i = x"
  by (auto simp: js_nth_def)

lemma js_nth_in: "js_nth xs i = Some x \<Longrightarrow> x \<in> set xs"
  by (auto simp: js_nth_Some)

section \<open>Sets in insertion order\<close>

definition set_add :: "'a \<Rightarrow> 'a list \<Rightarrow> 'a list" where
  "set_add x xs = (if x \<in> set xs then xs else xs @ [x])"

definition set_delete :: "'a \<Rightarrow> 'a list \<Rightarrow> 'a list" where
  "set_delete x xs = filter (\<lambda>y. y \<noteq> x) xs"

text \<open>\<open>new Set(xs)\<close> keeps the first occurrence of every element.\<close>

definition set_of_list :: "'a list \<Rightarrow> 'a list" where
  "set_of_list xs = fold set_add xs []"

lemma set_set_add [js_simps]: "set (set_add x xs) = insert x (set xs)"
  by (auto simp: set_add_def)

lemma distinct_set_add [js_simps]: "distinct xs \<Longrightarrow> distinct (set_add x xs)"
  by (simp add: set_add_def)

lemma set_set_delete [js_simps]: "set (set_delete x xs) = set xs - {x}"
  by (auto simp: set_delete_def)

lemma distinct_set_delete [js_simps]: "distinct xs \<Longrightarrow> distinct (set_delete x xs)"
  by (simp add: set_delete_def)

lemma fold_set_add:
  "set (fold set_add xs acc) = set acc \<union> set xs \<and> (distinct acc \<longrightarrow> distinct (fold set_add xs acc))"
  by (induction xs arbitrary: acc) (auto simp: js_simps)

lemma set_set_of_list [js_simps]: "set (set_of_list xs) = set xs"
  by (simp add: set_of_list_def fold_set_add)

lemma distinct_set_of_list [js_simps]: "distinct (set_of_list xs)"
  by (simp add: set_of_list_def fold_set_add)

section \<open>Maps in insertion order\<close>

text \<open>
  \<open>m.set(k, v)\<close> overwrites in place or appends, which is \<open>AList.update\<close>; \<open>m.get\<close> is
  \<open>map_of\<close>; \<open>m.delete\<close> is \<open>AList.delete\<close>; \<open>m.values()\<close> is \<open>map snd\<close>.
\<close>

type_synonym ('k, 'v) jsmap = "('k \<times> 'v) list"

abbreviation map_get :: "('k, 'v) jsmap \<Rightarrow> 'k \<Rightarrow> 'v option" where
  "map_get m k \<equiv> map_of m k"

definition map_has :: "('k, 'v) jsmap \<Rightarrow> 'k \<Rightarrow> bool" where
  "map_has m k = (map_of m k \<noteq> None)"

definition wf_map :: "('k, 'v) jsmap \<Rightarrow> bool" where
  "wf_map m = distinct (map fst m)"

lemma map_get_set [js_simps]:
  "map_get (AList.update k v m) k' = (if k' = k then Some v else map_get m k')"
  by (simp add: update_conv')

lemma map_get_delete [js_simps]:
  "map_get (AList.delete k m) k' = (if k' = k then None else map_get m k')"
  by (simp add: delete_conv')

lemma wf_map_Nil [simp]: "wf_map []"
  by (simp add: wf_map_def)

lemma wf_map_set [js_simps]: "wf_map m \<Longrightarrow> wf_map (AList.update k v m)"
  by (simp add: wf_map_def distinct_update)

lemma wf_map_delete [js_simps]: "wf_map m \<Longrightarrow> wf_map (AList.delete k m)"
  by (simp add: wf_map_def distinct_delete)

text \<open>The laws a client of a keyed collection relies on, as an interface.\<close>

locale keyed_store =
  fixes empty_store :: 'm
    and store_get :: "'m \<Rightarrow> 'k \<Rightarrow> 'v option"
    and store_set :: "'k \<Rightarrow> 'v \<Rightarrow> 'm \<Rightarrow> 'm"
    and store_del :: "'k \<Rightarrow> 'm \<Rightarrow> 'm"
    and store_ok :: "'m \<Rightarrow> bool"
  assumes get_empty: "store_get empty_store k = None"
    and get_set: "store_get (store_set k v m) k' = (if k' = k then Some v else store_get m k')"
    and get_del: "store_get (store_del k m) k' = (if k' = k then None else store_get m k')"
    and ok_empty: "store_ok empty_store"
    and ok_set: "store_ok m \<Longrightarrow> store_ok (store_set k v m)"
    and ok_del: "store_ok m \<Longrightarrow> store_ok (store_del k m)"
begin

lemma get_del_all:
  "store_get (fold store_del ks m) k = (if k \<in> set ks then None else store_get m k)"
  by (induction ks arbitrary: m) (auto simp: get_del)

lemma ok_del_all: "store_ok m \<Longrightarrow> store_ok (fold store_del ks m)"
  by (induction ks arbitrary: m) (auto simp: ok_del)

lemma get_set_all:
  "distinct ks \<Longrightarrow> store_get (fold (\<lambda>k. store_set k (f k)) ks m) k
     = (if k \<in> set ks then Some (f k) else store_get m k)"
  by (induction ks arbitrary: m) (auto simp: get_set)

end

interpretation jsm: keyed_store "[]" map_of AList.update AList.delete wf_map
  by unfold_locales (auto simp: js_simps)

section \<open>Numbers\<close>

definition clamp :: "'a::linorder \<Rightarrow> 'a \<Rightarrow> 'a \<Rightarrow> 'a" where
  "clamp lo hi x = max lo (min hi x)"

lemma clamp_bounds: "lo \<le> hi \<Longrightarrow> lo \<le> clamp lo hi x \<and> clamp lo hi x \<le> hi"
  by (simp add: clamp_def)

lemma clamp_id: "lo \<le> x \<Longrightarrow> x \<le> hi \<Longrightarrow> clamp lo hi x = x"
  by (simp add: clamp_def max_def min_def)

text \<open>\<open>Math.round\<close>: halves go towards plus infinity.\<close>

definition js_round :: "jsnum \<Rightarrow> int" where
  "js_round x = \<lfloor>x + 1 / 2\<rfloor>"

text \<open>\<open>((deg % 360) + 360) % 360\<close>: the remainder takes the sign of the dividend, so two of
  them and an addition give the representative in \<open>[0, 360)\<close>.\<close>

definition js_rem :: "jsnum \<Rightarrow> jsnum \<Rightarrow> jsnum" where
  "js_rem a b = (let q = a / b in a - b * of_int (if q \<ge> 0 then \<lfloor>q\<rfloor> else \<lceil>q\<rceil>))"

definition norm_degrees :: "jsnum \<Rightarrow> jsnum" where
  "norm_degrees d = js_rem (js_rem d 360 + 360) 360"

text \<open>\<open>Math.min(...xs)\<close> and \<open>Math.max(...xs)\<close> on a non-empty array.\<close>

definition js_min :: "jsnum list \<Rightarrow> jsnum" where
  "js_min xs = fold min (tl xs) (hd xs)"

definition js_max :: "jsnum list \<Rightarrow> jsnum" where
  "js_max xs = fold max (tl xs) (hd xs)"

lemma js_min_le: "x \<in> set xs \<Longrightarrow> js_min xs \<le> x"
proof -
  have "fold min ys m \<le> m \<and> (\<forall>y\<in>set ys. fold min ys m \<le> y)" for ys and m :: jsnum
  proof (induction ys arbitrary: m)
    case (Cons y ys)
    show ?case using Cons.IH [of "min y m"] by auto
  qed simp
  then show "x \<in> set xs \<Longrightarrow> ?thesis" by (cases xs) (auto simp: js_min_def)
qed

lemma js_max_ge: "x \<in> set xs \<Longrightarrow> x \<le> js_max xs"
proof -
  have "m \<le> fold max ys m \<and> (\<forall>y\<in>set ys. y \<le> fold max ys m)" for ys and m :: jsnum
  proof (induction ys arbitrary: m)
    case (Cons y ys)
    show ?case using Cons.IH [of "max y m"] by auto
  qed simp
  then show "x \<in> set xs \<Longrightarrow> ?thesis" by (cases xs) (auto simp: js_max_def)
qed

text \<open>A sort by any comparator, to run examples with.\<close>

fun insert_by :: "('a \<Rightarrow> 'a \<Rightarrow> jsnum) \<Rightarrow> 'a \<Rightarrow> 'a list \<Rightarrow> 'a list" where
  "insert_by cmp x [] = [x]"
| "insert_by cmp x (y # ys) = (if cmp x y \<le> 0 then x # y # ys else y # insert_by cmp x ys)"

definition insertion_sort :: "('a \<Rightarrow> 'a \<Rightarrow> jsnum) \<Rightarrow> 'a list \<Rightarrow> 'a list" where
  "insertion_sort cmp xs = foldr (insert_by cmp) xs []"

lemma mset_insertion_sort: "mset (insertion_sort cmp xs) = mset xs"
proof -
  have "mset (insert_by cmp x ys) = add_mset x (mset ys)" for x ys
    by (induction cmp x ys rule: insert_by.induct) auto
  then show ?thesis by (induction xs) (auto simp: insertion_sort_def)
qed

end
