(* ===== verification/Elements.thy ===== *)
theory Elements
  imports Prelude
begin

text \<open>
  The scene-graph data of \<open>packages/types/src/models\<close>: bounds, text and shape styles, the
  element union, pages and layers. Coordinates are web coordinates (origin top left) in PDF
  points. Fields that no modelled operation reads travel unchanged in an opaque string
  (\<open>ts_optional\<close>, \<open>el_rest\<close>, \<open>pg_rest\<close>), so that copying an object copies all of it.
\<close>

section \<open>Geometry\<close>

record bounds =
  b_x :: jsnum
  b_y :: jsnum
  b_width :: jsnum
  b_height :: jsnum

record transform =
  t_rotation :: jsnum
  t_scaleX :: jsnum
  t_scaleY :: jsnum
  t_skewX :: jsnum
  t_skewY :: jsnum

section \<open>Styles\<close>

datatype font_weight = Normal_Weight | Bold_Weight
datatype font_slant = Normal_Slant | Italic_Slant
datatype text_align = Align_Left | Align_Center | Align_Right | Align_Justify

record text_style =
  ts_fontFamily :: string
  ts_fontSize :: jsnum
  ts_fontWeight :: font_weight
  ts_fontStyle :: font_slant
  ts_color :: string
  ts_opacity :: jsnum
  ts_textAlign :: text_align
  ts_lineHeight :: jsnum
  ts_letterSpacing :: jsnum
  ts_underline :: bool
  ts_strikethrough :: bool
  ts_originalFont :: "string option"
  ts_optional :: string

record shape_style =
  ss_fillColor :: "string option"
  ss_fillOpacity :: jsnum
  ss_strokeColor :: "string option"
  ss_strokeWidth :: jsnum
  ss_strokeOpacity :: jsnum
  ss_strokeDashArray :: "jsnum list"
  ss_optional :: string

datatype field_value = FText string | FBool bool | FList "string list"

section \<open>Elements\<close>

datatype element_body =
    Text_Body (tx_content: string) (tx_style: text_style)
  | Image_Body (im_dataUrl: string) (im_opacity: jsnum)
  | Shape_Body (sh_points: "(jsnum \<times> jsnum) list") (sh_style: shape_style)
  | Annotation_Body (an_type: string) (an_content: string)
  | Form_Body (ff_name: string) (ff_value: field_value)

datatype element_type = Ty_text | Ty_image | Ty_shape | Ty_annotation | Ty_form_field

fun body_type :: "element_body \<Rightarrow> element_type" where
  "body_type (Text_Body _ _) = Ty_text"
| "body_type (Image_Body _ _) = Ty_image"
| "body_type (Shape_Body _ _) = Ty_shape"
| "body_type (Annotation_Body _ _) = Ty_annotation"
| "body_type (Form_Body _ _) = Ty_form_field"

record element =
  el_id :: uuid
  el_bounds :: bounds
  el_transform :: transform
  el_layerId :: "uuid option"
  el_locked :: bool
  el_visible :: bool
  el_body :: element_body
  el_index :: "int option"
  el_rest :: string

section \<open>Pages and layers\<close>

datatype page_rotation = R0 | R90 | R180 | R270

record page_dims =
  pd_width :: jsnum
  pd_height :: jsnum
  pd_rotation :: page_rotation

record page =
  pg_id :: uuid
  pg_number :: int
  pg_dims :: page_dims
  pg_mediaBox :: bounds
  pg_elements :: "element list"
  pg_rest :: string

record layer =
  ly_id :: uuid
  ly_name :: string
  ly_visible :: bool
  ly_locked :: bool
  ly_opacity :: jsnum
  ly_print :: bool
  ly_order :: int
  ly_ocg :: "int option"

section \<open>Partial updates\<close>

text \<open>
  \<open>Partial<Element>\<close> and \<open>Partial<PageObject>\<close>: a present field replaces the old one as a
  whole (object spread and \<open>Object.assign\<close> are shallow), an absent one is kept.
\<close>

record element_patch =
  ep_bounds :: "bounds option"
  ep_layerId :: "uuid option option"
  ep_locked :: "bool option"
  ep_visible :: "bool option"
  ep_body :: "element_body option"

definition empty_element_patch :: element_patch where
  "empty_element_patch = \<lparr>ep_bounds = None, ep_layerId = None, ep_locked = None,
     ep_visible = None, ep_body = None\<rparr>"

definition or_keep :: "'a option \<Rightarrow> 'a \<Rightarrow> 'a" where
  "or_keep p old = (case p of None \<Rightarrow> old | Some new \<Rightarrow> new)"

definition patch_element :: "element_patch \<Rightarrow> element \<Rightarrow> element" where
  "patch_element p e = e\<lparr>el_bounds := or_keep (ep_bounds p) (el_bounds e),
     el_layerId := or_keep (ep_layerId p) (el_layerId e),
     el_locked := or_keep (ep_locked p) (el_locked e),
     el_visible := or_keep (ep_visible p) (el_visible e),
     el_body := or_keep (ep_body p) (el_body e)\<rparr>"

record page_patch =
  pp_dims :: "page_dims option"
  pp_mediaBox :: "bounds option"
  pp_elements :: "element list option"

definition empty_page_patch :: page_patch where
  "empty_page_patch = \<lparr>pp_dims = None, pp_mediaBox = None, pp_elements = None\<rparr>"

definition patch_page :: "page_patch \<Rightarrow> page \<Rightarrow> page" where
  "patch_page p g = g\<lparr>pg_dims := or_keep (pp_dims p) (pg_dims g),
     pg_mediaBox := or_keep (pp_mediaBox p) (pg_mediaBox g),
     pg_elements := or_keep (pp_elements p) (pg_elements g)\<rparr>"

lemma or_keep_simps [simp]: "or_keep None x = x" "or_keep (Some y) x = y"
  by (simp_all add: or_keep_def)

lemma patch_element_id [simp]: "el_id (patch_element p e) = el_id e"
  by (simp add: patch_element_def)

lemma patch_element_empty [simp]: "patch_element empty_element_patch e = e"
  by (simp add: patch_element_def empty_element_patch_def)

lemma patch_page_id [simp]: "pg_id (patch_page p g) = pg_id g"
  by (simp add: patch_page_def)

lemma patch_page_number [simp]: "pg_number (patch_page p g) = pg_number g"
  by (simp add: patch_page_def)

lemma patch_page_empty [simp]: "patch_page empty_page_patch g = g"
  by (simp add: patch_page_def empty_page_patch_def)

end
