(* ===== verification/History_Store.thy ===== *)
theory History_Store
  imports Elements
begin

text \<open>
  \<open>packages/editor/src/stores/history-store.ts\<close>: the undo and redo stacks. The last list
  element is the top of a stack, as with \<open>push\<close> and \<open>pop\<close>. The fresh id and the time stamp
  of a snapshot come from \<open>Date.now()\<close> and \<open>Math.random()\<close> and are arguments.
\<close>

record snapshot =
  sn_id :: string
  sn_timestamp :: int
  sn_version :: int
  sn_pages :: "page list"
  sn_description :: string

record history =
  h_undo :: "snapshot list"
  h_redo :: "snapshot list"
  h_max :: nat
  h_canUndo :: bool
  h_canRedo :: bool

definition MAX_STACK_SIZE :: nat where
  "MAX_STACK_SIZE = 50"

definition initial_history :: history where
  "initial_history = \<lparr>h_undo = [], h_redo = [], h_max = MAX_STACK_SIZE,
     h_canUndo = False, h_canRedo = False\<rparr>"

text \<open>\<open>stack.push(x)\<close>, then \<open>stack.shift()\<close> when the stack is longer than its limit.\<close>

definition push_limited :: "nat \<Rightarrow> 'a \<Rightarrow> 'a list \<Rightarrow> 'a list" where
  "push_limited n x xs = (let ys = xs @ [x] in if length ys > n then tl ys else ys)"

definition pushSnapshot ::
  "string \<Rightarrow> int \<Rightarrow> page list \<Rightarrow> int \<Rightarrow> string \<Rightarrow> history \<Rightarrow> history" where
  "pushSnapshot fresh now pages version description h =
     (let snap = \<lparr>sn_id = fresh, sn_timestamp = now, sn_version = version, sn_pages = pages,
                  sn_description = description\<rparr>;
          st = push_limited (h_max h) snap (h_undo h)
      in h\<lparr>h_undo := st, h_redo := [], h_canUndo := (length st > 0), h_canRedo := False\<rparr>)"

definition hist_undo :: "history \<Rightarrow> snapshot option \<times> history" where
  "hist_undo h =
     (if h_undo h = [] then (None, h)
      else let snap = last (h_undo h); u = butlast (h_undo h); r = h_redo h @ [snap]
           in (Some snap, h\<lparr>h_undo := u, h_redo := r,
                 h_canUndo := (length u > 0), h_canRedo := (length r > 0)\<rparr>))"

definition hist_redo :: "history \<Rightarrow> snapshot option \<times> history" where
  "hist_redo h =
     (if h_redo h = [] then (None, h)
      else let snap = last (h_redo h); r = butlast (h_redo h);
               u = push_limited (h_max h) snap (h_undo h)
           in (Some snap, h\<lparr>h_undo := u, h_redo := r,
                 h_canUndo := (length u > 0), h_canRedo := (length r > 0)\<rparr>))"

definition hist_clear :: "history \<Rightarrow> history" where
  "hist_clear h = h\<lparr>h_undo := [], h_redo := [], h_canUndo := False, h_canRedo := False\<rparr>"

definition hist_clearRedo :: "history \<Rightarrow> history" where
  "hist_clearRedo h = h\<lparr>h_redo := [], h_canRedo := False\<rparr>"

definition getUndoDescription :: "history \<Rightarrow> string option" where
  "getUndoDescription h =
     (if h_undo h = [] then None else Some (sn_description (last (h_undo h))))"

definition getRedoDescription :: "history \<Rightarrow> string option" where
  "getRedoDescription h =
     (if h_redo h = [] then None else Some (sn_description (last (h_redo h))))"

definition hist_reset :: "history \<Rightarrow> history" where
  "hist_reset h = initial_history"

section \<open>Invariant\<close>

text \<open>
  The undo stack never exceeds its limit, the two flags say whether the stacks are empty, and
  the two stacks together never hold more snapshots than the limit: a redo stack only grows by
  what the undo stack loses.
\<close>

definition hist_inv :: "history \<Rightarrow> bool" where
  "hist_inv h \<longleftrightarrow> 0 < h_max h \<and> length (h_undo h) + length (h_redo h) \<le> h_max h \<and>
     h_canUndo h = (h_undo h \<noteq> []) \<and> h_canRedo h = (h_redo h \<noteq> [])"

datatype hist_op =
    Op_push string int "page list" int string
  | Op_undo
  | Op_redo
  | Op_clear
  | Op_clearRedo
  | Op_reset

fun hist_step :: "hist_op \<Rightarrow> history \<Rightarrow> history" where
  "hist_step (Op_push i t ps v d) h = pushSnapshot i t ps v d h"
| "hist_step Op_undo h = snd (hist_undo h)"
| "hist_step Op_redo h = snd (hist_redo h)"
| "hist_step Op_clear h = hist_clear h"
| "hist_step Op_clearRedo h = hist_clearRedo h"
| "hist_step Op_reset h = hist_reset h"

lemma length_push_limited:
  "0 < n \<Longrightarrow> length xs \<le> n \<Longrightarrow> length (push_limited n x xs) = min n (Suc (length xs))"
  by (auto simp: push_limited_def Let_def)

lemma last_push_limited: "0 < n \<Longrightarrow> last (push_limited n x xs) = x"
  by (cases xs) (auto simp: push_limited_def Let_def)

lemma push_limited_nonempty: "0 < n \<Longrightarrow> push_limited n x xs \<noteq> []"
  by (cases xs) (auto simp: push_limited_def Let_def)

lemma push_limited_room: "length xs < n \<Longrightarrow> push_limited n x xs = xs @ [x]"
  by (simp add: push_limited_def Let_def)

lemma hist_inv_initial [inv_intros]: "hist_inv initial_history"
  by (simp add: hist_inv_def initial_history_def MAX_STACK_SIZE_def)

lemma hist_inv_push [inv_intros]: "hist_inv h \<Longrightarrow> hist_inv (pushSnapshot i t ps v d h)"
  by (auto simp: hist_inv_def pushSnapshot_def Let_def length_push_limited push_limited_nonempty)

lemma hist_inv_undo [inv_intros]: "hist_inv h \<Longrightarrow> hist_inv (snd (hist_undo h))"
  by (cases "h_undo h" rule: rev_cases) (auto simp: hist_inv_def hist_undo_def Let_def)

lemma hist_inv_redo [inv_intros]:
  assumes "hist_inv h"
  shows "hist_inv (snd (hist_redo h))"
proof (cases "h_redo h = []")
  case True
  with assms show ?thesis by (simp add: hist_redo_def)
next
  case False
  with assms have "length (h_undo h) < h_max h"
    by (auto simp: hist_inv_def neq_Nil_conv)
  with assms False show ?thesis
    by (auto simp: hist_inv_def hist_redo_def Let_def push_limited_room)
qed

lemma hist_inv_clear [inv_intros]:
  "hist_inv h \<Longrightarrow> hist_inv (hist_clear h)"
  "hist_inv h \<Longrightarrow> hist_inv (hist_clearRedo h)"
  "hist_inv (hist_reset h)"
  by (auto simp: hist_inv_def hist_clear_def hist_clearRedo_def hist_reset_def
      initial_history_def MAX_STACK_SIZE_def)

lemma hist_inv_step: "hist_inv h \<Longrightarrow> hist_inv (hist_step e h)"
  by (cases e) (simp_all add: inv_intros)

lemma hist_inv_run: "hist_inv h \<Longrightarrow> hist_inv (fold hist_step es h)"
  by (induction es arbitrary: h) (auto intro: hist_inv_step)

section \<open>What undo and redo return\<close>

lemma undo_returns_top:
  "h_undo h \<noteq> [] \<Longrightarrow> fst (hist_undo h) = Some (last (h_undo h))"
  by (simp add: hist_undo_def Let_def)

lemma push_undo:
  assumes "hist_inv h"
  shows "sn_pages (the (fst (hist_undo (pushSnapshot i t ps v d h)))) = ps"
    and "sn_version (the (fst (hist_undo (pushSnapshot i t ps v d h)))) = v"
  using assms
  by (simp_all add: hist_inv_def hist_undo_def pushSnapshot_def Let_def last_push_limited
      push_limited_nonempty)

text \<open>Undo followed by redo restores both stacks.\<close>

lemma redo_after_undo:
  assumes "hist_inv h" and "h_undo h \<noteq> []"
  shows "hist_redo (snd (hist_undo h)) = (Some (last (h_undo h)), h)"
proof -
  have "length (butlast (h_undo h)) < h_max h"
    using assms by (auto simp: hist_inv_def neq_Nil_conv)
  with assms show ?thesis
    by (simp add: hist_undo_def hist_redo_def Let_def push_limited_room hist_inv_def)
qed

end
