(* ===== verification/Document_Store.thy ===== *)
theory Document_Store
  imports Elements
begin

text \<open>
  \<open>packages/editor/src/stores/document-store.ts\<close>: pages, elements and user layers of the open
  document, one definition per action. A fresh layer id and the current time are arguments.
\<close>

record document_state =
  ds_documentId :: "uuid option"
  ds_title :: string
  ds_version :: int
  ds_pages :: "page list"
  ds_layers :: "layer list"
  ds_lastSaved :: "int option"
  ds_isDirty :: bool
  ds_isLoading :: bool
  ds_error :: "string option"

definition initial_document :: document_state where
  "initial_document = \<lparr>ds_documentId = None, ds_title = ''Untitled Document'', ds_version = 0,
     ds_pages = [], ds_layers = [], ds_lastSaved = None, ds_isDirty = False,
     ds_isLoading = False, ds_error = None\<rparr>"

section \<open>Document and pages\<close>

definition setDocument :: "uuid \<Rightarrow> string \<Rightarrow> page list \<Rightarrow> document_state \<Rightarrow> document_state" where
  "setDocument did title pages s = s\<lparr>ds_documentId := Some did, ds_title := title,
     ds_pages := pages, ds_layers := [], ds_version := 0, ds_isDirty := False, ds_error := None\<rparr>"

definition updateTitle :: "string \<Rightarrow> document_state \<Rightarrow> document_state" where
  "updateTitle title s = s\<lparr>ds_title := title, ds_isDirty := True\<rparr>"

definition setPages :: "page list \<Rightarrow> document_state \<Rightarrow> document_state" where
  "setPages pages s = s\<lparr>ds_pages := pages, ds_isDirty := True\<rparr>"

definition ds_addPage :: "page \<Rightarrow> int option \<Rightarrow> document_state \<Rightarrow> document_state" where
  "ds_addPage pg index s =
     s\<lparr>ds_pages := (case index of
           Some i \<Rightarrow> if 0 \<le> i \<and> i \<le> int (length (ds_pages s))
                      then splice_ins (nat i) pg (ds_pages s) else ds_pages s @ [pg]
         | None \<Rightarrow> ds_pages s @ [pg]),
       ds_isDirty := True\<rparr>"

text \<open>\<open>pages.forEach((p, idx) => p.pageNumber = idx + 1)\<close>\<close>

definition renumber :: "page list \<Rightarrow> page list" where
  "renumber ps = map_index (\<lambda>i p. p\<lparr>pg_number := int i + 1\<rparr>) ps"

definition ds_removePage :: "uuid \<Rightarrow> document_state \<Rightarrow> document_state" where
  "ds_removePage pid s =
     (case find_index (\<lambda>p. pg_id p = pid) (ds_pages s) of
        None \<Rightarrow> s
      | Some i \<Rightarrow> s\<lparr>ds_pages := renumber (splice_del i (ds_pages s)), ds_isDirty := True\<rparr>)"

definition updatePage :: "uuid \<Rightarrow> page_patch \<Rightarrow> document_state \<Rightarrow> document_state" where
  "updatePage pid upd s =
     (case find_index (\<lambda>p. pg_id p = pid) (ds_pages s) of
        None \<Rightarrow> s
      | Some i \<Rightarrow> s\<lparr>ds_pages := (ds_pages s)[i := patch_page upd (ds_pages s ! i)],
                     ds_isDirty := True\<rparr>)"

definition move_item :: "nat \<Rightarrow> nat \<Rightarrow> 'a list \<Rightarrow> 'a list" where
  "move_item from to xs = splice_ins to (xs ! from) (splice_del from xs)"

definition ds_reorderPages :: "int \<Rightarrow> int \<Rightarrow> document_state \<Rightarrow> document_state" where
  "ds_reorderPages from to s =
     (let n = int (length (ds_pages s))
      in if from < 0 \<or> from \<ge> n \<or> to < 0 \<or> to \<ge> n then s
         else s\<lparr>ds_pages := renumber (move_item (nat from) (nat to) (ds_pages s)),
                ds_isDirty := True\<rparr>)"

section \<open>Layers\<close>

definition setLayers :: "layer list \<Rightarrow> document_state \<Rightarrow> document_state" where
  "setLayers ls s = s\<lparr>ds_layers := ls\<rparr>"

definition max_order :: "layer list \<Rightarrow> int" where
  "max_order ls = foldl (\<lambda>m l. if ly_order l > m then ly_order l else m) (-1) ls"

definition createLayer :: "uuid \<Rightarrow> string \<Rightarrow> document_state \<Rightarrow> layer \<times> document_state" where
  "createLayer fresh name s =
     (let l = \<lparr>ly_id = fresh, ly_name = name, ly_visible = True, ly_locked = False,
               ly_opacity = 1, ly_print = True, ly_order = max_order (ds_layers s) + 1, ly_ocg = None\<rparr>
      in (l, s\<lparr>ds_layers := ds_layers s @ [l], ds_isDirty := True\<rparr>))"

text \<open>\<open>pages.forEach(page => page.elements.forEach(e => if (e.layerId === layerId) ...))\<close>\<close>

definition on_layer :: "uuid \<Rightarrow> (element \<Rightarrow> element) \<Rightarrow> page list \<Rightarrow> page list" where
  "on_layer lid f ps = map (\<lambda>p. p\<lparr>pg_elements :=
     map (\<lambda>e. if el_layerId e = Some lid then f e else e) (pg_elements p)\<rparr>) ps"

definition deleteLayer :: "uuid \<Rightarrow> document_state \<Rightarrow> document_state" where
  "deleteLayer lid s =
     (case find_index (\<lambda>l. ly_id l = lid) (ds_layers s) of
        None \<Rightarrow> s
      | Some i \<Rightarrow> s\<lparr>ds_layers := splice_del i (ds_layers s),
                     ds_pages := on_layer lid (\<lambda>e. e\<lparr>el_layerId := None\<rparr>) (ds_pages s),
                     ds_isDirty := True\<rparr>)"

definition has_layer :: "uuid \<Rightarrow> document_state \<Rightarrow> bool" where
  "has_layer lid s = list_ex (\<lambda>l. ly_id l = lid) (ds_layers s)"

definition renameLayer :: "uuid \<Rightarrow> string \<Rightarrow> document_state \<Rightarrow> document_state" where
  "renameLayer lid name s =
     (if has_layer lid s
      then s\<lparr>ds_layers := update_first (\<lambda>l. ly_id l = lid) (\<lambda>l. l\<lparr>ly_name := name\<rparr>) (ds_layers s),
             ds_isDirty := True\<rparr>
      else s)"

definition reorderLayer :: "uuid \<Rightarrow> int \<Rightarrow> document_state \<Rightarrow> document_state" where
  "reorderLayer lid ord s =
     (if has_layer lid s
      then s\<lparr>ds_layers := update_first (\<lambda>l. ly_id l = lid) (\<lambda>l. l\<lparr>ly_order := ord\<rparr>) (ds_layers s),
             ds_isDirty := True\<rparr>
      else s)"

definition setLayerVisible :: "uuid \<Rightarrow> bool \<Rightarrow> document_state \<Rightarrow> document_state" where
  "setLayerVisible lid v s =
     (if has_layer lid s
      then s\<lparr>ds_layers := update_first (\<lambda>l. ly_id l = lid) (\<lambda>l. l\<lparr>ly_visible := v\<rparr>) (ds_layers s),
             ds_pages := on_layer lid (\<lambda>e. e\<lparr>el_visible := v\<rparr>) (ds_pages s),
             ds_isDirty := True\<rparr>
      else s)"

definition setLayerLocked :: "uuid \<Rightarrow> bool \<Rightarrow> document_state \<Rightarrow> document_state" where
  "setLayerLocked lid v s =
     (if has_layer lid s
      then s\<lparr>ds_layers := update_first (\<lambda>l. ly_id l = lid) (\<lambda>l. l\<lparr>ly_locked := v\<rparr>) (ds_layers s),
             ds_pages := on_layer lid (\<lambda>e. e\<lparr>el_locked := v\<rparr>) (ds_pages s),
             ds_isDirty := True\<rparr>
      else s)"

section \<open>Flags\<close>

definition setVersion :: "int \<Rightarrow> document_state \<Rightarrow> document_state" where
  "setVersion v s = s\<lparr>ds_version := v\<rparr>"

definition setDirty :: "bool \<Rightarrow> document_state \<Rightarrow> document_state" where
  "setDirty d s = s\<lparr>ds_isDirty := d\<rparr>"

definition setLoading :: "bool \<Rightarrow> document_state \<Rightarrow> document_state" where
  "setLoading b s = s\<lparr>ds_isLoading := b\<rparr>"

definition setError :: "string option \<Rightarrow> document_state \<Rightarrow> document_state" where
  "setError e s = s\<lparr>ds_error := e\<rparr>"

definition markSaved :: "int \<Rightarrow> document_state \<Rightarrow> document_state" where
  "markSaved now s = s\<lparr>ds_lastSaved := Some now, ds_isDirty := False\<rparr>"

definition ds_reset :: "document_state \<Rightarrow> document_state" where
  "ds_reset s = initial_document"

section \<open>Page numbering\<close>

text \<open>The page numbers shown to the user are the 1-based positions.\<close>

definition numbered :: "page list \<Rightarrow> bool" where
  "numbered ps \<longleftrightarrow> map pg_number ps = map (\<lambda>i. int i + 1) [0..<length ps]"

lemma numbered_renumber [simp]: "numbered (renumber ps)"
  by (auto simp: numbered_def renumber_def js_simps intro!: nth_equalityI)

lemma map_id_renumber [simp]: "map pg_id (renumber ps) = map pg_id ps"
  unfolding renumber_def by (rule map_map_index) simp

lemma map_elements_renumber [simp]: "map pg_elements (renumber ps) = map pg_elements ps"
  unfolding renumber_def by (rule map_map_index) simp

lemma length_renumber [simp]: "length (renumber ps) = length ps"
  by (simp add: renumber_def js_simps)

lemma renumber_numbered: "numbered ps \<Longrightarrow> renumber ps = ps"
proof (rule nth_equalityI)
  fix i assume n: "numbered ps" and "i < length (renumber ps)"
  then have i: "i < length ps" by simp
  with n have "pg_number (ps ! i) = int i + 1"
    by (metis (no_types, lifting) add_cancel_right_left length_map length_upt minus_nat.diff_0 nth_map nth_upt
        numbered_def)
  with i show "renumber ps ! i = ps ! i"
    by (simp add: renumber_def js_simps)
qed simp

lemma map_splice_del: "map f (splice_del i xs) = splice_del i (map f xs)"
  by (simp add: splice_del_def take_map drop_map)

lemma map_splice_ins: "map f (splice_ins i x xs) = splice_ins i (f x) (map f xs)"
  by (simp add: splice_ins_def take_map drop_map)

lemma map_move_item: "i < length xs \<Longrightarrow> map f (move_item i j xs) = move_item i j (map f xs)"
  by (simp add: move_item_def map_splice_del map_splice_ins)

lemma mset_move_item:
  assumes "i < length xs" and "j < length xs"
  shows "mset (move_item i j xs) = mset xs"
  using assms mset_splice_del [OF assms(1)]
  by (simp add: move_item_def mset_splice_ins js_simps)

lemma nth_move_item:
  "i < length xs \<Longrightarrow> j < length xs \<Longrightarrow> move_item i j xs ! j = xs ! i"
  by (simp add: move_item_def nth_splice_ins js_simps)

lemma length_move_item:
  "i < length xs \<Longrightarrow> j < length xs \<Longrightarrow> length (move_item i j xs) = length xs"
  by (metis mset_move_item size_mset)

lemma move_item_back:
  assumes "i < length xs" and "j < length xs"
  shows "move_item j i (move_item i j xs) = xs"
  using assms
  by (simp add: move_item_def nth_splice_ins splice_del_ins splice_ins_del js_simps)

section \<open>Layer membership\<close>

text \<open>
  Well-formed layers: ids are pairwise distinct, orders are at least 0, and every element that
  names a layer names an existing one.
\<close>

definition layers_wf :: "document_state \<Rightarrow> bool" where
  "layers_wf s \<longleftrightarrow> distinct (map ly_id (ds_layers s)) \<and>
     (\<forall>p\<in>set (ds_pages s). \<forall>e\<in>set (pg_elements p). \<forall>l. el_layerId e = Some l \<longrightarrow>
        l \<in> ly_id ` set (ds_layers s))"

lemma has_layer_iff: "has_layer lid s \<longleftrightarrow> lid \<in> ly_id ` set (ds_layers s)"
  by (auto simp: has_layer_def list_ex_iff)

lemma find_layer_None:
  "find_index (\<lambda>l. ly_id l = lid) (ds_layers s) = None \<longleftrightarrow> \<not> has_layer lid s"
  by (auto simp: js_simps has_layer_iff)

lemma set_on_layer:
  "p \<in> set (on_layer lid f ps) \<longleftrightarrow>
     (\<exists>q\<in>set ps. p = q\<lparr>pg_elements :=
        map (\<lambda>e. if el_layerId e = Some lid then f e else e) (pg_elements q)\<rparr>)"
  by (auto simp: on_layer_def)

lemma max_order_aux:
  "m \<le> foldl (\<lambda>m l. if ly_order l > m then ly_order l else m) m ls \<and>
   (\<forall>l\<in>set ls. ly_order l \<le> foldl (\<lambda>m l. if ly_order l > m then ly_order l else m) m ls)"
proof (induction ls arbitrary: m)
  case Nil
  then show ?case by simp
next
  case (Cons a ls)
  have "m \<le> (if ly_order a > m then ly_order a else m)" by simp
  with Cons [of "if ly_order a > m then ly_order a else m"] show ?case
    by (auto split: if_splits)
qed

lemma max_order_ge: "l \<in> set ls \<Longrightarrow> ly_order l \<le> max_order ls"
  using max_order_aux [of "-1" ls] by (auto simp: max_order_def)

lemma max_order_ge_m1: "-1 \<le> max_order ls"
  using max_order_aux [of "-1" ls] by (auto simp: max_order_def)

lemma ly_ids_splice_del:
  assumes "distinct (map ly_id ls)" and "find_index (\<lambda>l. ly_id l = lid) ls = Some i"
  shows "ly_id ` set (splice_del i ls) = ly_id ` set ls - {lid}"
proof -
  from assms(2) have i: "i < length ls" "ly_id (ls ! i) = lid" by (auto simp: find_index_Some)
  let ?a = "take i ls" and ?b = "drop (Suc i) ls"
  have ls: "ls = ?a @ ls ! i # ?b" using i(1) by (rule id_take_nth_drop)
  with assms(1) have "distinct (map ly_id (?a @ ls ! i # ?b))" by simp
  then have "lid \<notin> ly_id ` set ?a" "lid \<notin> ly_id ` set ?b" using i(2) by auto
  moreover have "ly_id ` set ls = ly_id ` set ?a \<union> ly_id ` set ?b \<union> {lid}"
    using i(2) by (subst ls) auto
  ultimately show ?thesis by (auto simp: splice_del_def)
qed

end
