(* ===== verification/Selection_Store.thy ===== *)
theory Selection_Store
  imports Elements
begin

text \<open>
  \<open>packages/editor/src/stores/selection-store.ts\<close>: the selected element ids of one page, the
  multi-selection flag, the hovered element. The id set is a list without repetitions.
\<close>

record selection =
  sel_ids :: "uuid list"
  sel_page :: "uuid option"
  sel_multi :: bool
  sel_bounds :: "bounds option"
  sel_hovered :: "uuid option"

definition initial_selection :: selection where
  "initial_selection = \<lparr>sel_ids = [], sel_page = None, sel_multi = False, sel_bounds = None,
     sel_hovered = None\<rparr>"

definition selectElement :: "uuid \<Rightarrow> uuid \<Rightarrow> bool \<Rightarrow> selection \<Rightarrow> selection" where
  "selectElement eid pid add s =
     (if add \<and> sel_page s = Some pid
      then let ids = set_add eid (sel_ids s) in s\<lparr>sel_ids := ids, sel_multi := (length ids > 1)\<rparr>
      else s\<lparr>sel_ids := [eid], sel_page := Some pid, sel_multi := False\<rparr>)"

definition selectElements :: "uuid list \<Rightarrow> uuid \<Rightarrow> selection \<Rightarrow> selection" where
  "selectElements eids pid s =
     s\<lparr>sel_ids := set_of_list eids, sel_page := Some pid, sel_multi := (length eids > 1)\<rparr>"

definition deselectElement :: "uuid \<Rightarrow> selection \<Rightarrow> selection" where
  "deselectElement eid s =
     (let ids = set_delete eid (sel_ids s);
          s1 = s\<lparr>sel_ids := ids, sel_multi := (length ids > 1)\<rparr>
      in if length ids = 0 then s1\<lparr>sel_page := None, sel_bounds := None\<rparr> else s1)"

definition clearSelection :: "selection \<Rightarrow> selection" where
  "clearSelection s = s\<lparr>sel_ids := [], sel_page := None, sel_multi := False, sel_bounds := None\<rparr>"

definition toggleElement :: "uuid \<Rightarrow> uuid \<Rightarrow> selection \<Rightarrow> selection" where
  "toggleElement eid pid s =
     (let s1 =
        (if eid \<in> set (sel_ids s)
         then let s0 = s\<lparr>sel_ids := set_delete eid (sel_ids s)\<rparr>
              in if length (sel_ids s0) = 0 then s0\<lparr>sel_page := None, sel_bounds := None\<rparr> else s0
         else if sel_page s \<noteq> Some pid then s\<lparr>sel_ids := [eid], sel_page := Some pid\<rparr>
         else s\<lparr>sel_ids := set_add eid (sel_ids s)\<rparr>)
      in s1\<lparr>sel_multi := (length (sel_ids s1) > 1)\<rparr>)"

definition sel_selectAll :: "uuid list \<Rightarrow> uuid \<Rightarrow> selection \<Rightarrow> selection" where
  "sel_selectAll eids pid s =
     s\<lparr>sel_ids := set_of_list eids, sel_page := Some pid, sel_multi := (length eids > 1)\<rparr>"

definition setSelectionBounds :: "bounds option \<Rightarrow> selection \<Rightarrow> selection" where
  "setSelectionBounds b s = s\<lparr>sel_bounds := b\<rparr>"

definition setHoveredElement :: "uuid option \<Rightarrow> selection \<Rightarrow> selection" where
  "setHoveredElement e s = s\<lparr>sel_hovered := e\<rparr>"

definition isSelected :: "uuid \<Rightarrow> selection \<Rightarrow> bool" where
  "isSelected eid s = (eid \<in> set (sel_ids s))"

definition getSelectedCount :: "selection \<Rightarrow> nat" where
  "getSelectedCount s = length (sel_ids s)"

definition sel_reset :: "selection \<Rightarrow> selection" where
  "sel_reset s = initial_selection"

section \<open>Runs of selection operations\<close>

datatype sel_op =
    Select uuid uuid bool
  | Select_many "uuid list" uuid
  | Deselect uuid
  | Clear_selection
  | Toggle uuid uuid
  | Select_all "uuid list" uuid
  | Set_bounds "bounds option"
  | Hover "uuid option"
  | Reset_selection

fun sel_step :: "sel_op \<Rightarrow> selection \<Rightarrow> selection" where
  "sel_step (Select e p a) s = selectElement e p a s"
| "sel_step (Select_many es p) s = selectElements es p s"
| "sel_step (Deselect e) s = deselectElement e s"
| "sel_step Clear_selection s = clearSelection s"
| "sel_step (Toggle e p) s = toggleElement e p s"
| "sel_step (Select_all es p) s = sel_selectAll es p s"
| "sel_step (Set_bounds b) s = setSelectionBounds b s"
| "sel_step (Hover e) s = setHoveredElement e s"
| "sel_step Reset_selection s = sel_reset s"

text \<open>
  Invariant: the ids are pairwise distinct, and a selection without a page is empty. The
  multi-selection flag is exact except after \<open>selectElements\<close>, which counts its argument and
  not the set built from it; the strong invariant holds when that argument has no repetition.
\<close>

definition sel_inv :: "selection \<Rightarrow> bool" where
  "sel_inv s \<longleftrightarrow> distinct (sel_ids s) \<and> (sel_page s = None \<longrightarrow> sel_ids s = [])"

definition sel_multi_ok :: "selection \<Rightarrow> bool" where
  "sel_multi_ok s \<longleftrightarrow> sel_multi s = (length (sel_ids s) > 1)"

fun op_no_dups :: "sel_op \<Rightarrow> bool" where
  "op_no_dups (Select_many es p) = distinct es"
| "op_no_dups (Select_all es p) = distinct es"
| "op_no_dups _ = True"

lemmas sel_defs = selectElement_def selectElements_def deselectElement_def clearSelection_def
  toggleElement_def sel_selectAll_def setSelectionBounds_def setHoveredElement_def sel_reset_def
  initial_selection_def Let_def

lemma sel_inv_initial [inv_intros]: "sel_inv initial_selection"
  by (simp add: sel_inv_def initial_selection_def)

lemma sel_inv_step: "sel_inv s \<Longrightarrow> sel_inv (sel_step e s)"
  by (cases e) (auto simp: sel_inv_def sel_defs js_simps set_delete_def)

lemma length_set_of_list: "distinct es \<Longrightarrow> length (set_of_list es) = length es"
  by (metis distinct_card distinct_set_of_list set_set_of_list)

lemma sel_multi_step: "sel_multi_ok s \<Longrightarrow> op_no_dups e \<Longrightarrow> sel_multi_ok (sel_step e s)"
  by (cases e) (auto simp: sel_multi_ok_def sel_defs length_set_of_list)

lemma sel_run:
  "sel_inv s \<Longrightarrow> sel_inv (fold sel_step es s)"
  "sel_multi_ok s \<Longrightarrow> list_all op_no_dups es \<Longrightarrow> sel_multi_ok (fold sel_step es s)"
  by (induction es arbitrary: s) (auto intro: sel_inv_step sel_multi_step)

lemma toggle_twice:
  assumes "eid \<notin> set (sel_ids s)" and "sel_page s = Some pid"
  shows "sel_ids (toggleElement eid pid (toggleElement eid pid s)) = sel_ids s"
proof -
  have "set_delete eid (sel_ids s @ [eid]) = sel_ids s"
    using assms(1) by (auto simp: set_delete_def filter_id_conv)
  then show ?thesis
    using assms by (simp add: toggleElement_def Let_def set_add_def)
qed

end
