(* ===== verification/Canvas_Store.thy ===== *)
theory Canvas_Store
  imports Elements
begin

text \<open>
  \<open>packages/editor/src/stores/canvas-store.ts\<close>: zoom, pan, active tool, grid, current page and
  the tool options. Tool, shape and annotation names, which no operation inspects, are strings.
\<close>

datatype fit_mode = Fit_page | Fit_width
datatype view_mode = Single | Continuous
datatype ruler_unit = U_px | U_mm | U_cm | U_in | U_pt
datatype field_kind = K_text | K_multiline | K_date | K_checkbox | K_radio_group | K_dropdown
  | K_listbox
datatype field_type = F_text | F_checkbox | F_radio | F_dropdown | F_listbox | F_signature
  | F_button

fun fieldKindToFieldType :: "field_kind \<Rightarrow> field_type" where
  "fieldKindToFieldType K_checkbox = F_checkbox"
| "fieldKindToFieldType K_radio_group = F_radio"
| "fieldKindToFieldType K_dropdown = F_dropdown"
| "fieldKindToFieldType K_listbox = F_listbox"
| "fieldKindToFieldType K_text = F_text"
| "fieldKindToFieldType K_multiline = F_text"
| "fieldKindToFieldType K_date = F_text"

record canvas_state =
  cv_zoom :: jsnum
  cv_minZoom :: jsnum
  cv_maxZoom :: jsnum
  cv_fitMode :: "fit_mode option"
  cv_pan :: "jsnum \<times> jsnum"
  cv_tool :: string
  cv_subtype :: "string option"
  cv_viewport :: "jsnum \<times> jsnum"
  cv_gridEnabled :: bool
  cv_snapToGrid :: bool
  cv_gridSize :: jsnum
  cv_showRulers :: bool
  cv_viewMode :: view_mode
  cv_rulerUnit :: ruler_unit
  cv_page :: int
  cv_shapeType :: string
  cv_annotationType :: string
  cv_fieldType :: field_type
  cv_fieldKind :: field_kind
  cv_strokeColor :: string
  cv_fillColor :: string
  cv_strokeWidth :: jsnum

definition initial_canvas :: canvas_state where
  "initial_canvas = \<lparr>cv_zoom = 1, cv_minZoom = 1/10, cv_maxZoom = 8, cv_fitMode = Some Fit_width,
     cv_pan = (0, 0), cv_tool = ''select'', cv_subtype = None, cv_viewport = (800, 600),
     cv_gridEnabled = False, cv_snapToGrid = False, cv_gridSize = 10, cv_showRulers = False,
     cv_viewMode = Continuous, cv_rulerUnit = U_mm, cv_page = 0, cv_shapeType = ''rectangle'',
     cv_annotationType = ''highlight'', cv_fieldType = F_text, cv_fieldKind = K_text,
     cv_strokeColor = ''#000000'', cv_fillColor = ''transparent'', cv_strokeWidth = 2\<rparr>"

section \<open>Operations\<close>

definition setZoom :: "jsnum \<Rightarrow> canvas_state \<Rightarrow> canvas_state" where
  "setZoom z s = s\<lparr>cv_zoom := max (cv_minZoom s) (min (cv_maxZoom s) z)\<rparr>"

definition zoomIn :: "canvas_state \<Rightarrow> canvas_state" where
  "zoomIn s = (let newZoom = cv_zoom s * (12/10) in s\<lparr>cv_zoom := min (cv_maxZoom s) newZoom\<rparr>)"

definition zoomOut :: "canvas_state \<Rightarrow> canvas_state" where
  "zoomOut s = (let newZoom = cv_zoom s / (12/10) in s\<lparr>cv_zoom := max (cv_minZoom s) newZoom\<rparr>)"

definition zoomToFit :: "canvas_state \<Rightarrow> canvas_state" where
  "zoomToFit s = s\<lparr>cv_zoom := 1, cv_pan := (0, 0)\<rparr>"

definition resetZoom :: "canvas_state \<Rightarrow> canvas_state" where
  "resetZoom s = s\<lparr>cv_zoom := 1, cv_pan := (0, 0)\<rparr>"

definition setFitMode :: "fit_mode option \<Rightarrow> canvas_state \<Rightarrow> canvas_state" where
  "setFitMode m s = s\<lparr>cv_fitMode := m\<rparr>"

definition setPan :: "jsnum \<Rightarrow> jsnum \<Rightarrow> canvas_state \<Rightarrow> canvas_state" where
  "setPan x y s = s\<lparr>cv_pan := (x, y)\<rparr>"

definition panBy :: "jsnum \<Rightarrow> jsnum \<Rightarrow> canvas_state \<Rightarrow> canvas_state" where
  "panBy dx dy s = s\<lparr>cv_pan := (fst (cv_pan s) + dx, snd (cv_pan s) + dy)\<rparr>"

definition setActiveTool :: "string \<Rightarrow> string option \<Rightarrow> canvas_state \<Rightarrow> canvas_state" where
  "setActiveTool t sub s = s\<lparr>cv_tool := t, cv_subtype := sub\<rparr>"

definition cv_setViewport :: "jsnum \<times> jsnum \<Rightarrow> canvas_state \<Rightarrow> canvas_state" where
  "cv_setViewport d s = s\<lparr>cv_viewport := d\<rparr>"

definition cv_toggleGrid :: "canvas_state \<Rightarrow> canvas_state" where
  "cv_toggleGrid s = s\<lparr>cv_gridEnabled := \<not> cv_gridEnabled s\<rparr>"

definition setGridEnabled :: "bool \<Rightarrow> canvas_state \<Rightarrow> canvas_state" where
  "setGridEnabled b s = s\<lparr>cv_gridEnabled := b\<rparr>"

definition toggleSnapToGrid :: "canvas_state \<Rightarrow> canvas_state" where
  "toggleSnapToGrid s = s\<lparr>cv_snapToGrid := \<not> cv_snapToGrid s\<rparr>"

definition setSnapToGrid :: "bool \<Rightarrow> canvas_state \<Rightarrow> canvas_state" where
  "setSnapToGrid b s = s\<lparr>cv_snapToGrid := b\<rparr>"

definition setGridSize :: "jsnum \<Rightarrow> canvas_state \<Rightarrow> canvas_state" where
  "setGridSize z s = s\<lparr>cv_gridSize := max 1 z\<rparr>"

definition toggleRulers :: "canvas_state \<Rightarrow> canvas_state" where
  "toggleRulers s = s\<lparr>cv_showRulers := \<not> cv_showRulers s\<rparr>"

definition setShowRulers :: "bool \<Rightarrow> canvas_state \<Rightarrow> canvas_state" where
  "setShowRulers b s = s\<lparr>cv_showRulers := b\<rparr>"

definition setViewMode :: "view_mode \<Rightarrow> canvas_state \<Rightarrow> canvas_state" where
  "setViewMode m s = s\<lparr>cv_viewMode := m\<rparr>"

definition setRulerUnit :: "ruler_unit \<Rightarrow> canvas_state \<Rightarrow> canvas_state" where
  "setRulerUnit u s = s\<lparr>cv_rulerUnit := u\<rparr>"

definition setCurrentPage :: "int \<Rightarrow> canvas_state \<Rightarrow> canvas_state" where
  "setCurrentPage i s = s\<lparr>cv_page := max 0 i\<rparr>"

definition nextPage :: "canvas_state \<Rightarrow> canvas_state" where
  "nextPage s = s\<lparr>cv_page := cv_page s + 1\<rparr>"

definition previousPage :: "canvas_state \<Rightarrow> canvas_state" where
  "previousPage s = s\<lparr>cv_page := max 0 (cv_page s - 1)\<rparr>"

definition setShapeType :: "string \<Rightarrow> canvas_state \<Rightarrow> canvas_state" where
  "setShapeType t s = s\<lparr>cv_shapeType := t\<rparr>"

definition setAnnotationType :: "string \<Rightarrow> canvas_state \<Rightarrow> canvas_state" where
  "setAnnotationType t s = s\<lparr>cv_annotationType := t\<rparr>"

definition setFieldType :: "field_type \<Rightarrow> canvas_state \<Rightarrow> canvas_state" where
  "setFieldType t s = s\<lparr>cv_fieldType := t\<rparr>"

definition setFieldKind :: "field_kind \<Rightarrow> canvas_state \<Rightarrow> canvas_state" where
  "setFieldKind k s = s\<lparr>cv_fieldKind := k, cv_fieldType := fieldKindToFieldType k\<rparr>"

definition setStrokeColor :: "string \<Rightarrow> canvas_state \<Rightarrow> canvas_state" where
  "setStrokeColor c s = s\<lparr>cv_strokeColor := c\<rparr>"

definition setFillColor :: "string \<Rightarrow> canvas_state \<Rightarrow> canvas_state" where
  "setFillColor c s = s\<lparr>cv_fillColor := c\<rparr>"

definition setStrokeWidth :: "jsnum \<Rightarrow> canvas_state \<Rightarrow> canvas_state" where
  "setStrokeWidth w s = s\<lparr>cv_strokeWidth := max (1/2) w\<rparr>"

definition cv_reset :: "canvas_state \<Rightarrow> canvas_state" where
  "cv_reset s = initial_canvas"

section \<open>Runs and the invariant\<close>

datatype canvas_op =
    Set_zoom jsnum | Zoom_in | Zoom_out | Zoom_to_fit | Reset_zoom | Set_fit "fit_mode option"
  | Set_pan jsnum jsnum | Pan_by jsnum jsnum | Set_tool string "string option"
  | Set_viewport "jsnum \<times> jsnum" | Toggle_grid | Set_grid bool | Toggle_snap | Set_snap bool
  | Set_grid_size jsnum | Toggle_rulers | Set_rulers bool | Set_view_mode view_mode
  | Set_ruler_unit ruler_unit | Set_page int | Next_page | Previous_page | Set_shape_type string
  | Set_annotation_type string | Set_field_type field_type | Set_field_kind field_kind
  | Set_stroke_color string | Set_fill_color string | Set_stroke_width jsnum | Reset_canvas

fun canvas_step :: "canvas_op \<Rightarrow> canvas_state \<Rightarrow> canvas_state" where
  "canvas_step (Set_zoom z) s = setZoom z s"
| "canvas_step Zoom_in s = zoomIn s"
| "canvas_step Zoom_out s = zoomOut s"
| "canvas_step Zoom_to_fit s = zoomToFit s"
| "canvas_step Reset_zoom s = resetZoom s"
| "canvas_step (Set_fit m) s = setFitMode m s"
| "canvas_step (Set_pan x y) s = setPan x y s"
| "canvas_step (Pan_by x y) s = panBy x y s"
| "canvas_step (Set_tool t u) s = setActiveTool t u s"
| "canvas_step (Set_viewport d) s = cv_setViewport d s"
| "canvas_step Toggle_grid s = cv_toggleGrid s"
| "canvas_step (Set_grid b) s = setGridEnabled b s"
| "canvas_step Toggle_snap s = toggleSnapToGrid s"
| "canvas_step (Set_snap b) s = setSnapToGrid b s"
| "canvas_step (Set_grid_size z) s = setGridSize z s"
| "canvas_step Toggle_rulers s = toggleRulers s"
| "canvas_step (Set_rulers b) s = setShowRulers b s"
| "canvas_step (Set_view_mode m) s = setViewMode m s"
| "canvas_step (Set_ruler_unit u) s = setRulerUnit u s"
| "canvas_step (Set_page i) s = setCurrentPage i s"
| "canvas_step Next_page s = nextPage s"
| "canvas_step Previous_page s = previousPage s"
| "canvas_step (Set_shape_type t) s = setShapeType t s"
| "canvas_step (Set_annotation_type t) s = setAnnotationType t s"
| "canvas_step (Set_field_type t) s = setFieldType t s"
| "canvas_step (Set_field_kind k) s = setFieldKind k s"
| "canvas_step (Set_stroke_color c) s = setStrokeColor c s"
| "canvas_step (Set_fill_color c) s = setFillColor c s"
| "canvas_step (Set_stroke_width w) s = setStrokeWidth w s"
| "canvas_step Reset_canvas s = cv_reset s"

text \<open>
  What the rest of the editor relies on: the zoom factor stays between its bounds (and the
  bounds never change), the grid step and the stroke width stay positive, the page index does
  not go below zero.
\<close>

definition canvas_inv :: "canvas_state \<Rightarrow> bool" where
  "canvas_inv s \<longleftrightarrow> cv_minZoom s = 1/10 \<and> cv_maxZoom s = 8
     \<and> 1/10 \<le> cv_zoom s \<and> cv_zoom s \<le> 8
     \<and> 1 \<le> cv_gridSize s \<and> 1/2 \<le> cv_strokeWidth s \<and> 0 \<le> cv_page s"

lemma canvas_inv_initial [inv_intros]: "canvas_inv initial_canvas"
  by (simp add: canvas_inv_def initial_canvas_def)

lemma canvas_inv_zoom [inv_intros]:
  assumes "canvas_inv s"
  shows "canvas_inv (setZoom z s)" "canvas_inv (zoomIn s)" "canvas_inv (zoomOut s)"
    "canvas_inv (zoomToFit s)" "canvas_inv (resetZoom s)"
  using assms
  by (auto simp: canvas_inv_def setZoom_def zoomIn_def zoomOut_def zoomToFit_def resetZoom_def
      Let_def min_def max_def field_simps)

lemmas canvas_setter_defs = setFitMode_def setPan_def panBy_def setActiveTool_def
  cv_setViewport_def cv_toggleGrid_def setGridEnabled_def toggleSnapToGrid_def setSnapToGrid_def
  setGridSize_def toggleRulers_def setShowRulers_def setViewMode_def setRulerUnit_def
  setCurrentPage_def nextPage_def previousPage_def setShapeType_def setAnnotationType_def
  setFieldType_def setFieldKind_def setStrokeColor_def setFillColor_def setStrokeWidth_def
  cv_reset_def

lemma canvas_inv_step:
  assumes "canvas_inv s"
  shows "canvas_inv (canvas_step c s)"
proof (cases "c \<in> {Zoom_in, Zoom_out, Zoom_to_fit, Reset_zoom, Reset_canvas} \<or> (\<exists>z. c = Set_zoom z)")
  case True
  then show ?thesis
    using assms by (auto simp: cv_reset_def intro: inv_intros)
next
  case False
  then show ?thesis
    using assms by (cases c) (simp_all add: canvas_inv_def canvas_setter_defs)
qed

lemma canvas_inv_run: "canvas_inv s \<Longrightarrow> canvas_inv (fold canvas_step cs s)"
  by (induction cs arbitrary: s) (auto intro: canvas_inv_step)

text \<open>Zooming in and then out (or out and then in) restores the factor away from the bounds.\<close>

lemma zoom_in_out:
  assumes "canvas_inv s" and "cv_zoom s * (12/10) \<le> 8"
  shows "zoomOut (zoomIn s) = s"
  using assms by (simp add: canvas_inv_def zoomIn_def zoomOut_def Let_def min_def max_def)

text \<open>The base field type agrees with the palette kind as long as only the palette sets it.\<close>

definition field_synced :: "canvas_state \<Rightarrow> bool" where
  "field_synced s \<longleftrightarrow> cv_fieldType s = fieldKindToFieldType (cv_fieldKind s)"

lemma field_synced_step:
  "field_synced s \<Longrightarrow> (\<forall>t. c \<noteq> Set_field_type t) \<Longrightarrow> field_synced (canvas_step c s)"
  by (cases c) (simp_all add: field_synced_def canvas_setter_defs setZoom_def zoomIn_def
      zoomOut_def zoomToFit_def resetZoom_def initial_canvas_def Let_def)

end
