(* ===== verification/View_Store.thy ===== *)
theory View_Store
  imports Prelude
begin

text \<open>
  \<open>packages/editor/src/stores/view-store.ts\<close>: the viewport-derived state of the continuous
  view. The visible-page set is a list without repetitions in insertion order.
\<close>

record view_state =
  vw_visible :: "int list"
  vw_active :: int
  vw_current :: int
  vw_scrollTop :: jsnum
  vw_height :: jsnum
  vw_width :: jsnum
  vw_fast :: bool

definition initial_view :: view_state where
  "initial_view = \<lparr>vw_visible = [], vw_active = 0, vw_current = 0, vw_scrollTop = 0,
     vw_height = 0, vw_width = 0, vw_fast = False\<rparr>"

definition setVisiblePages :: "int list \<Rightarrow> view_state \<Rightarrow> view_state" where
  "setVisiblePages is s = s\<lparr>vw_visible := set_of_list is\<rparr>"

definition addVisiblePage :: "int \<Rightarrow> view_state \<Rightarrow> view_state" where
  "addVisiblePage i s = s\<lparr>vw_visible := set_add i (vw_visible s)\<rparr>"

definition removeVisiblePage :: "int \<Rightarrow> view_state \<Rightarrow> view_state" where
  "removeVisiblePage i s = s\<lparr>vw_visible := set_delete i (vw_visible s)\<rparr>"

definition setActivePageIndex :: "int \<Rightarrow> view_state \<Rightarrow> view_state" where
  "setActivePageIndex i s = s\<lparr>vw_active := max 0 i\<rparr>"

definition setCurrentPageIndex :: "int \<Rightarrow> view_state \<Rightarrow> view_state" where
  "setCurrentPageIndex i s = s\<lparr>vw_current := max 0 i\<rparr>"

definition vw_setViewport :: "jsnum \<Rightarrow> jsnum \<Rightarrow> view_state \<Rightarrow> view_state" where
  "vw_setViewport w h s = s\<lparr>vw_width := max 0 w, vw_height := max 0 h\<rparr>"

definition setScrollTop :: "jsnum \<Rightarrow> view_state \<Rightarrow> view_state" where
  "setScrollTop t s = s\<lparr>vw_scrollTop := max 0 t\<rparr>"

definition setFastScrolling :: "bool \<Rightarrow> view_state \<Rightarrow> view_state" where
  "setFastScrolling b s = s\<lparr>vw_fast := b\<rparr>"

definition vw_reset :: "view_state \<Rightarrow> view_state" where
  "vw_reset s = initial_view"

datatype view_op =
    Set_visible "int list" | Add_visible int | Remove_visible int | Set_active int
  | Set_current int | Resize jsnum jsnum | Scroll_to jsnum | Set_fast bool | Reset_view

fun view_step :: "view_op \<Rightarrow> view_state \<Rightarrow> view_state" where
  "view_step (Set_visible is) s = setVisiblePages is s"
| "view_step (Add_visible i) s = addVisiblePage i s"
| "view_step (Remove_visible i) s = removeVisiblePage i s"
| "view_step (Set_active i) s = setActivePageIndex i s"
| "view_step (Set_current i) s = setCurrentPageIndex i s"
| "view_step (Resize w h) s = vw_setViewport w h s"
| "view_step (Scroll_to t) s = setScrollTop t s"
| "view_step (Set_fast b) s = setFastScrolling b s"
| "view_step Reset_view s = vw_reset s"

definition view_inv :: "view_state \<Rightarrow> bool" where
  "view_inv s \<longleftrightarrow> distinct (vw_visible s) \<and> 0 \<le> vw_active s \<and> 0 \<le> vw_current s
     \<and> 0 \<le> vw_scrollTop s \<and> 0 \<le> vw_height s \<and> 0 \<le> vw_width s"

lemmas view_defs = setVisiblePages_def addVisiblePage_def removeVisiblePage_def
  setActivePageIndex_def setCurrentPageIndex_def vw_setViewport_def setScrollTop_def
  setFastScrolling_def vw_reset_def initial_view_def

lemma view_inv_step: "view_inv s \<Longrightarrow> view_inv (view_step c s)"
  by (cases c) (auto simp: view_inv_def view_defs js_simps)

lemma view_inv_run: "view_inv s \<Longrightarrow> view_inv (fold view_step cs s)"
  by (induction cs arbitrary: s) (auto intro: view_inv_step)

text \<open>Scrolling a page in and out of view leaves exactly the other visible pages.\<close>

lemma visible_after:
  "set (vw_visible (addVisiblePage i s)) = insert i (set (vw_visible s))"
  "set (vw_visible (removeVisiblePage i s)) = set (vw_visible s) - {i}"
  "set (vw_visible (setVisiblePages is s)) = set is"
  by (simp_all add: view_defs js_simps)

end
