(* ===== verification/Layout_Store.thy ===== *)
theory Layout_Store
  imports Elements
begin

text \<open>
  \<open>packages/editor/src/stores/layout-store.ts\<close>: sections with margins and header/footer bands,
  margin overrides per page, and the band being edited.
\<close>

record margins =
  mg_top :: jsnum
  mg_right :: jsnum
  mg_bottom :: jsnum
  mg_left :: jsnum

record band_content =
  hf_enabled :: bool
  hf_elements :: "element list"
  hf_height :: jsnum
  hf_showOnFirstPage :: bool

record section_layout =
  sl_margins :: margins
  sl_header :: band_content
  sl_footer :: band_content
  sl_from :: int
  sl_to :: int

datatype band = Header | Footer

record layout_state =
  lo_sections :: "section_layout list"
  lo_pageMargins :: "(uuid, margins) jsmap"
  lo_editing :: "(uuid \<times> band) option"

text \<open>\<open>Partial<HeaderFooterContent>\<close>.\<close>

record band_patch =
  bp_enabled :: "bool option"
  bp_elements :: "element list option"
  bp_height :: "jsnum option"
  bp_showOnFirstPage :: "bool option"

definition DEFAULT_MARGINS :: margins where
  "DEFAULT_MARGINS = \<lparr>mg_top = 72, mg_right = 72, mg_bottom = 72, mg_left = 72\<rparr>"

definition emptyBand :: band_content where
  "emptyBand = \<lparr>hf_enabled = False, hf_elements = [], hf_height = 36, hf_showOnFirstPage = True\<rparr>"

definition MAX_SAFE_INTEGER :: int where
  "MAX_SAFE_INTEGER = 9007199254740991"

definition defaultSection :: section_layout where
  "defaultSection = \<lparr>sl_margins = DEFAULT_MARGINS, sl_header = emptyBand, sl_footer = emptyBand,
     sl_from = 0, sl_to = MAX_SAFE_INTEGER\<rparr>"

definition initial_layout :: layout_state where
  "initial_layout = \<lparr>lo_sections = [defaultSection], lo_pageMargins = [], lo_editing = None\<rparr>"

definition sectionIndexForPage :: "section_layout list \<Rightarrow> int \<Rightarrow> int" where
  "sectionIndexForPage ss i =
     (case find_index (\<lambda>s. i \<ge> sl_from s \<and> i \<le> sl_to s) ss of None \<Rightarrow> -1 | Some n \<Rightarrow> int n)"

text \<open>\<open>const section = state.sections[i]; if (section) ...\<close>\<close>

definition on_section :: "int \<Rightarrow> (section_layout \<Rightarrow> section_layout) \<Rightarrow> layout_state \<Rightarrow> layout_state" where
  "on_section i f s = (case js_nth (lo_sections s) i of None \<Rightarrow> s
     | Some sec \<Rightarrow> s\<lparr>lo_sections := (lo_sections s)[nat i := f sec]\<rparr>)"

definition setSectionMargins :: "int \<Rightarrow> margins \<Rightarrow> layout_state \<Rightarrow> layout_state" where
  "setSectionMargins i m s = on_section i (\<lambda>sec. sec\<lparr>sl_margins := m\<rparr>) s"

definition setPageMargins :: "uuid \<Rightarrow> margins \<Rightarrow> layout_state \<Rightarrow> layout_state" where
  "setPageMargins pid m s = s\<lparr>lo_pageMargins := AList.update pid m (lo_pageMargins s)\<rparr>"

definition getEffectiveMargins :: "uuid \<Rightarrow> int \<Rightarrow> layout_state \<Rightarrow> margins" where
  "getEffectiveMargins pid i s = (case map_get (lo_pageMargins s) pid of Some m \<Rightarrow> m
     | None \<Rightarrow>
        (let idx = sectionIndexForPage (lo_sections s) i;
             sec = (if idx \<ge> 0 then js_nth (lo_sections s) idx else js_nth (lo_sections s) 0)
         in case sec of Some x \<Rightarrow> sl_margins x | None \<Rightarrow> DEFAULT_MARGINS))"

definition patch_band :: "band_patch \<Rightarrow> band_content \<Rightarrow> band_content" where
  "patch_band p b = \<lparr>hf_enabled = or_keep (bp_enabled p) (hf_enabled b),
     hf_elements = or_keep (bp_elements p) (hf_elements b),
     hf_height = or_keep (bp_height p) (hf_height b),
     hf_showOnFirstPage = or_keep (bp_showOnFirstPage p) (hf_showOnFirstPage b)\<rparr>"

definition setHeader :: "int \<Rightarrow> band_patch \<Rightarrow> layout_state \<Rightarrow> layout_state" where
  "setHeader i p s = on_section i (\<lambda>sec. sec\<lparr>sl_header := patch_band p (sl_header sec)\<rparr>) s"

definition setFooter :: "int \<Rightarrow> band_patch \<Rightarrow> layout_state \<Rightarrow> layout_state" where
  "setFooter i p s = on_section i (\<lambda>sec. sec\<lparr>sl_footer := patch_band p (sl_footer sec)\<rparr>) s"

definition upsert_band :: "element \<Rightarrow> band_content \<Rightarrow> band_content" where
  "upsert_band el b =
     b\<lparr>hf_enabled := True,
       hf_elements := (case find_index (\<lambda>e. el_id e = el_id el) (hf_elements b) of
          Some k \<Rightarrow> (hf_elements b)[k := el] | None \<Rightarrow> hf_elements b @ [el])\<rparr>"

definition upsertHeaderFooterElement :: "band \<Rightarrow> element \<Rightarrow> layout_state \<Rightarrow> layout_state" where
  "upsertHeaderFooterElement bd el s =
     (let idx = (case lo_editing s of
            Some (pid, b) \<Rightarrow> if b = bd then sectionIndexForPage (lo_sections s) 0 else 0
          | None \<Rightarrow> 0)
      in on_section (if idx \<ge> 0 then idx else 0)
           (\<lambda>sec. if bd = Header then sec\<lparr>sl_header := upsert_band el (sl_header sec)\<rparr>
                  else sec\<lparr>sl_footer := upsert_band el (sl_footer sec)\<rparr>) s)"

definition enterBandEdit :: "uuid \<Rightarrow> band \<Rightarrow> layout_state \<Rightarrow> layout_state" where
  "enterBandEdit pid b s = s\<lparr>lo_editing := Some (pid, b)\<rparr>"

definition exitBandEdit :: "layout_state \<Rightarrow> layout_state" where
  "exitBandEdit s = s\<lparr>lo_editing := None\<rparr>"

definition lo_reset :: "layout_state \<Rightarrow> layout_state" where
  "lo_reset s = initial_layout"

section \<open>Bands hold every element once\<close>

definition band_ok :: "band_content \<Rightarrow> bool" where
  "band_ok b \<longleftrightarrow> distinct (map el_id (hf_elements b))"

lemma upsert_band_ids:
  "map el_id (hf_elements (upsert_band el b)) =
     (if el_id el \<in> el_id ` set (hf_elements b) then map el_id (hf_elements b)
      else map el_id (hf_elements b) @ [el_id el])"
proof (cases "find_index (\<lambda>e. el_id e = el_id el) (hf_elements b)")
  case None
  moreover from None have "el_id el \<notin> el_id ` set (hf_elements b)"
    by (auto simp: find_index_None)
  ultimately show ?thesis
    by (simp add: upsert_band_def)
next
  case (Some k)
  then have "k < length (hf_elements b)" "el_id (hf_elements b ! k) = el_id el"
    by (auto simp: find_index_Some)
  moreover from this have "map el_id ((hf_elements b)[k := el]) = map el_id (hf_elements b)"
    by (metis list_update_id map_update)
  ultimately show ?thesis
    using Some by (auto simp: upsert_band_def) (metis image_eqI nth_mem)+
qed

lemma upsert_band_ok [inv_intros]: "band_ok b \<Longrightarrow> band_ok (upsert_band el b)"
  by (auto simp: band_ok_def upsert_band_ids)

lemma upsert_band_in: "el \<in> set (hf_elements (upsert_band el b)) \<and> hf_enabled (upsert_band el b)"
  by (auto simp: upsert_band_def find_index_Some set_update_memI split: option.splits)

lemma on_section_length: "length (lo_sections (on_section i f s)) = length (lo_sections s)"
  by (simp add: on_section_def split: option.splits)

text \<open>
  Margins resolve as documented: the override of the page, else the first section containing
  the index, else the first section, else the defaults.
\<close>

lemma margins_override:
  "getEffectiveMargins pid i (setPageMargins pid m s) = m"
  "pid \<noteq> pid' \<Longrightarrow> getEffectiveMargins pid i (setPageMargins pid' m s) = getEffectiveMargins pid i s"
  by (simp_all add: getEffectiveMargins_def setPageMargins_def js_simps Let_def split: option.split)

lemma margins_section:
  assumes "map_get (lo_pageMargins s) pid = None"
    and "find_index (\<lambda>sc. i \<ge> sl_from sc \<and> i \<le> sl_to sc) (lo_sections s) = Some n"
  shows "getEffectiveMargins pid i (setSectionMargins (int n) m s) = m"
proof -
  let ?P = "\<lambda>sc. i \<ge> sl_from sc \<and> i \<le> sl_to sc"
  let ?ss = "(lo_sections s)[n := (lo_sections s ! n)\<lparr>sl_margins := m\<rparr>]"
  have n: "n < length (lo_sections s)" and first: "?P (lo_sections s ! n)" "\<forall>j<n. \<not> ?P (lo_sections s ! j)"
    using assms(2) by (auto simp: find_index_Some)
  have "find_index ?P ?ss = Some n"
    using n first by (simp add: find_index_Some)
  then show ?thesis
    using n assms(1)
    by (simp add: getEffectiveMargins_def setSectionMargins_def on_section_def js_nth_def
        sectionIndexForPage_def)
qed

end
