(* ===== verification/Collaboration_Store.thy ===== *)
theory Collaboration_Store
  imports Prelude
begin

text \<open>
  \<open>packages/editor/src/stores/collaboration-store.ts\<close>: online users, cursors and element locks,
  each a map in insertion order. \<open>new Date()\<close> and \<open>Date.now()\<close> are the argument \<open>now\<close>
  (milliseconds); the socket is an opaque handle.
\<close>

datatype user_status = Active | Idle | Away

record online_user =
  ou_id :: uuid
  ou_name :: string
  ou_color :: string
  ou_status :: user_status
  ou_page :: "uuid option"
  ou_joinedAt :: int
  ou_lastSeenAt :: int

record user_cursor =
  uc_id :: uuid
  uc_name :: string
  uc_color :: string
  uc_page :: uuid
  uc_x :: jsnum
  uc_y :: jsnum
  uc_lastUpdate :: int

record lock_info =
  lk_element :: uuid
  lk_by :: uuid
  lk_byName :: string
  lk_at :: int

record collab_state =
  co_connected :: bool
  co_sessionId :: "uuid option"
  co_currentUserId :: "uuid option"
  co_users :: "(uuid, online_user) jsmap"
  co_cursors :: "(uuid, user_cursor) jsmap"
  co_locks :: "(uuid, lock_info) jsmap"
  co_socket :: "nat option"

definition initial_collab :: collab_state where
  "initial_collab = \<lparr>co_connected = False, co_sessionId = None, co_currentUserId = None,
     co_users = [], co_cursors = [], co_locks = [], co_socket = None\<rparr>"

section \<open>Operations\<close>

definition setSocket :: "nat option \<Rightarrow> collab_state \<Rightarrow> collab_state" where
  "setSocket k s = s\<lparr>co_socket := k\<rparr>"

definition setConnected :: "bool \<Rightarrow> collab_state \<Rightarrow> collab_state" where
  "setConnected c s =
     (let s1 = s\<lparr>co_connected := c\<rparr>
      in if \<not> c then s1\<lparr>co_users := [], co_cursors := [], co_locks := []\<rparr> else s1)"

definition setSessionId :: "uuid option \<Rightarrow> collab_state \<Rightarrow> collab_state" where
  "setSessionId i s = s\<lparr>co_sessionId := i\<rparr>"

definition setCurrentUserId :: "uuid option \<Rightarrow> collab_state \<Rightarrow> collab_state" where
  "setCurrentUserId i s = s\<lparr>co_currentUserId := i\<rparr>"

definition addUser :: "online_user \<Rightarrow> collab_state \<Rightarrow> collab_state" where
  "addUser u s = s\<lparr>co_users := AList.update (ou_id u) u (co_users s)\<rparr>"

definition removeUser :: "uuid \<Rightarrow> collab_state \<Rightarrow> collab_state" where
  "removeUser uid s =
     (let locksToRemove = map fst (filter (\<lambda>(eid, lock). lk_by lock = uid) (co_locks s))
      in s\<lparr>co_users := AList.delete uid (co_users s),
           co_cursors := AList.delete uid (co_cursors s),
           co_locks := fold AList.delete locksToRemove (co_locks s)\<rparr>)"

text \<open>\<open>Partial<OnlineUser>\<close> is the function that spreads it over the entry.\<close>

definition updateUser :: "uuid \<Rightarrow> (online_user \<Rightarrow> online_user) \<Rightarrow> collab_state \<Rightarrow> collab_state" where
  "updateUser uid f s = (case map_get (co_users s) uid of None \<Rightarrow> s
     | Some u \<Rightarrow> s\<lparr>co_users := AList.update uid (f u) (co_users s)\<rparr>)"

definition updateUserStatus ::
  "int \<Rightarrow> uuid \<Rightarrow> user_status \<Rightarrow> uuid option \<Rightarrow> collab_state \<Rightarrow> collab_state" where
  "updateUserStatus now uid st pg s = (case map_get (co_users s) uid of None \<Rightarrow> s
     | Some u \<Rightarrow> s\<lparr>co_users := AList.update uid
         (u\<lparr>ou_status := st, ou_page := (case pg of Some p \<Rightarrow> Some p | None \<Rightarrow> ou_page u),
            ou_lastSeenAt := now\<rparr>) (co_users s)\<rparr>)"

definition updateCursor :: "user_cursor \<Rightarrow> collab_state \<Rightarrow> collab_state" where
  "updateCursor c s = s\<lparr>co_cursors := AList.update (uc_id c) c (co_cursors s)\<rparr>"

definition removeCursor :: "uuid \<Rightarrow> collab_state \<Rightarrow> collab_state" where
  "removeCursor uid s = s\<lparr>co_cursors := AList.delete uid (co_cursors s)\<rparr>"

definition lockElement :: "int \<Rightarrow> uuid \<Rightarrow> uuid \<Rightarrow> string \<Rightarrow> collab_state \<Rightarrow> collab_state" where
  "lockElement now eid uid name s = s\<lparr>co_locks := AList.update eid
     \<lparr>lk_element = eid, lk_by = uid, lk_byName = name, lk_at = now\<rparr> (co_locks s)\<rparr>"

definition unlockElement :: "uuid \<Rightarrow> collab_state \<Rightarrow> collab_state" where
  "unlockElement eid s = s\<lparr>co_locks := AList.delete eid (co_locks s)\<rparr>"

definition isElementLocked :: "uuid \<Rightarrow> collab_state \<Rightarrow> bool" where
  "isElementLocked eid s = map_has (co_locks s) eid"

definition isElementLockedByOther :: "uuid \<Rightarrow> uuid \<Rightarrow> collab_state \<Rightarrow> bool" where
  "isElementLockedByOther eid me s =
     (case map_get (co_locks s) eid of None \<Rightarrow> False | Some lock \<Rightarrow> lk_by lock \<noteq> me)"

definition getElementLock :: "uuid \<Rightarrow> collab_state \<Rightarrow> lock_info option" where
  "getElementLock eid s = map_get (co_locks s) eid"

definition clearOldCursors :: "int \<Rightarrow> int \<Rightarrow> collab_state \<Rightarrow> collab_state" where
  "clearOldCursors now maxAgeMs s =
     (let cursorsToRemove =
        map fst (filter (\<lambda>(uid, c). now - uc_lastUpdate c > maxAgeMs) (co_cursors s))
      in s\<lparr>co_cursors := fold AList.delete cursorsToRemove (co_cursors s)\<rparr>)"

definition co_reset :: "collab_state \<Rightarrow> collab_state" where
  "co_reset s = initial_collab"

section \<open>Runs and the invariant\<close>

datatype collab_op =
    Set_socket "nat option" | Set_connected bool | Set_session "uuid option"
  | Set_me "uuid option" | Add_user online_user | Remove_user uuid
  | Update_status int uuid user_status "uuid option" | Update_cursor user_cursor
  | Remove_cursor uuid | Lock int uuid uuid string | Unlock uuid | Clear_old int int | Reset_collab

fun collab_step :: "collab_op \<Rightarrow> collab_state \<Rightarrow> collab_state" where
  "collab_step (Set_socket k) s = setSocket k s"
| "collab_step (Set_connected b) s = setConnected b s"
| "collab_step (Set_session i) s = setSessionId i s"
| "collab_step (Set_me i) s = setCurrentUserId i s"
| "collab_step (Add_user u) s = addUser u s"
| "collab_step (Remove_user u) s = removeUser u s"
| "collab_step (Update_status n u st p) s = updateUserStatus n u st p s"
| "collab_step (Update_cursor c) s = updateCursor c s"
| "collab_step (Remove_cursor u) s = removeCursor u s"
| "collab_step (Lock n e u nm) s = lockElement n e u nm s"
| "collab_step (Unlock e) s = unlockElement e s"
| "collab_step (Clear_old n m) s = clearOldCursors n m s"
| "collab_step Reset_collab s = co_reset s"

text \<open>Every entry is filed under the id it carries, and every key occurs once.\<close>

definition keyed_by :: "('v \<Rightarrow> 'k) \<Rightarrow> ('k, 'v) jsmap \<Rightarrow> bool" where
  "keyed_by f m \<longleftrightarrow> (\<forall>k v. map_get m k = Some v \<longrightarrow> f v = k)"

definition collab_inv :: "collab_state \<Rightarrow> bool" where
  "collab_inv s \<longleftrightarrow> wf_map (co_users s) \<and> wf_map (co_cursors s) \<and> wf_map (co_locks s)
     \<and> keyed_by ou_id (co_users s) \<and> keyed_by uc_id (co_cursors s) \<and> keyed_by lk_element (co_locks s)"

lemma keyed_by_map [inv_intros]:
  "keyed_by f []"
  "keyed_by f m \<Longrightarrow> f v = k \<Longrightarrow> keyed_by f (AList.update k v m)"
  "keyed_by f m \<Longrightarrow> keyed_by f (AList.delete k m)"
  "keyed_by f m \<Longrightarrow> keyed_by f (fold AList.delete ks m)"
  by (auto simp: keyed_by_def js_simps jsm.get_del_all)

lemmas collab_defs = setSocket_def setConnected_def setSessionId_def setCurrentUserId_def
  addUser_def removeUser_def updateUser_def updateUserStatus_def updateCursor_def
  removeCursor_def lockElement_def unlockElement_def clearOldCursors_def co_reset_def
  initial_collab_def Let_def

lemma collab_inv_step: "collab_inv s \<Longrightarrow> collab_inv (collab_step c s)"
  by (cases c) (auto simp: collab_inv_def collab_defs js_simps jsm.ok_del_all keyed_by_def
      jsm.get_del_all split: option.splits if_splits)

lemma collab_inv_run: "collab_inv s \<Longrightarrow> collab_inv (fold collab_step cs s)"
  by (induction cs arbitrary: s) (auto intro: collab_inv_step)

lemma filtered_key:
  assumes "wf_map m"
  shows "k \<in> set (map fst (filter (\<lambda>(k, v). Q v) m)) \<longleftrightarrow> (\<exists>v. map_get m k = Some v \<and> Q v)"
  using assms by (auto simp: wf_map_def image_iff Bex_def)

lemma removeUser_locks:
  assumes "collab_inv s"
  shows "map_get (co_locks (removeUser uid s)) eid =
    (case map_get (co_locks s) eid of None \<Rightarrow> None
     | Some l \<Rightarrow> if lk_by l = uid then None else Some l)"
  using assms filtered_key [of "co_locks s" eid "\<lambda>l. lk_by l = uid"]
  by (auto simp: removeUser_def Let_def jsm.get_del_all collab_inv_def split: option.splits)

lemma clearOldCursors_get:
  assumes "collab_inv s"
  shows "map_get (co_cursors (clearOldCursors now age s)) uid =
    (case map_get (co_cursors s) uid of None \<Rightarrow> None
     | Some c \<Rightarrow> if now - uc_lastUpdate c > age then None else Some c)"
  using assms filtered_key [of "co_cursors s" uid "\<lambda>c. now - uc_lastUpdate c > age"]
  by (auto simp: clearOldCursors_def Let_def jsm.get_del_all collab_inv_def split: option.splits)

text \<open>
  The store does not arbitrate: a second lock replaces the first, whoever holds it, so the
  exclusion has to come from the server.
\<close>

lemma lock_last_wins:
  "getElementLock eid (lockElement t2 eid v n2 (lockElement t1 eid u n1 s)) =
     Some \<lparr>lk_element = eid, lk_by = v, lk_byName = n2, lk_at = t2\<rparr>"
  by (simp add: getElementLock_def lockElement_def js_simps)

text \<open>A user who leaves takes everything along, and nothing else: after any session, removing a user
  leaves no presence, cursor or lock of that user, so no element stays locked by somebody gone; the
  presence, cursors and locks of everybody else are as before.\<close>

lemma leaving_user_releases_locks:
  "let s = fold collab_step cs initial_collab; s' = removeUser uid s in
     map_get (co_users s') u = (if u = uid then None else map_get (co_users s) u)
   \<and> map_get (co_cursors s') u = (if u = uid then None else map_get (co_cursors s) u)
   \<and> getElementLock eid s' = (case getElementLock eid s of None \<Rightarrow> None
        | Some l \<Rightarrow> if lk_by l = uid then None else Some l)
   \<and> isElementLockedByOther eid me s' = (isElementLocked eid s'
        \<and> lk_by (the (getElementLock eid s)) \<notin> {uid, me})"
proof -
  have "collab_inv initial_collab"
    by (simp add: collab_inv_def initial_collab_def keyed_by_def)
  then have inv: "collab_inv (fold collab_step cs initial_collab)"
    by (rule collab_inv_run)
  show ?thesis
    unfolding Let_def isElementLockedByOther_def isElementLocked_def getElementLock_def map_has_def
      removeUser_locks [OF inv]
    by (auto simp: removeUser_def Let_def js_simps split: option.splits)
qed

end
