(* ===== verification/Ui_Store.thy ===== *)
theory Ui_Store
  imports Prelude
begin

text \<open>
  \<open>packages/editor/src/stores/ui-store.ts\<close>: sidebar, modal, theme, guides, notifications, context
  menu and mode flags. The id and time stamp of a new notification are arguments; the timer
  that \<open>addNotification\<close> arms is the list \<open>ui_timers\<close> of ids waiting for
  their removal, and \<open>fire_timer\<close> is the callback.
\<close>

datatype panel = P_layers | P_pages | P_properties | P_comments | P_history | P_templates
datatype modal = M_export | M_share | M_settings | M_shortcuts | M_upload
datatype theme_mode = Light | Dark | System
datatype notification_kind = N_info | N_success | N_warning | N_error

record notification =
  nt_id :: string
  nt_kind :: notification_kind
  nt_title :: string
  nt_message :: string
  nt_timestamp :: int
  nt_autoClose :: bool
  nt_duration :: "nat option"

record ui_state =
  ui_sidebarOpen :: bool
  ui_sidebarWidth :: jsnum
  ui_activePanel :: panel
  ui_modal :: "modal option"
  ui_modalData :: "string option"
  ui_theme :: theme_mode
  ui_showGrid :: bool
  ui_showGuides :: bool
  ui_notifications :: "notification list"
  ui_contextMenu :: "(jsnum \<times> jsnum \<times> string list) option"
  ui_showFormsPanel :: bool
  ui_contentEdit :: bool
  ui_headersFooters :: bool
  ui_timers :: "(string \<times> nat) list"

definition initial_ui :: ui_state where
  "initial_ui = \<lparr>ui_sidebarOpen = True, ui_sidebarWidth = 280, ui_activePanel = P_pages,
     ui_modal = None, ui_modalData = None, ui_theme = System, ui_showGrid = False,
     ui_showGuides = True, ui_notifications = [], ui_contextMenu = None,
     ui_showFormsPanel = False, ui_contentEdit = False, ui_headersFooters = False,
     ui_timers = []\<rparr>"

section \<open>Operations\<close>

definition toggleSidebar :: "ui_state \<Rightarrow> ui_state" where
  "toggleSidebar s = s\<lparr>ui_sidebarOpen := \<not> ui_sidebarOpen s\<rparr>"

definition setSidebarOpen :: "bool \<Rightarrow> ui_state \<Rightarrow> ui_state" where
  "setSidebarOpen b s = s\<lparr>ui_sidebarOpen := b\<rparr>"

definition setSidebarWidth :: "jsnum \<Rightarrow> ui_state \<Rightarrow> ui_state" where
  "setSidebarWidth w s = s\<lparr>ui_sidebarWidth := max 200 (min 600 w)\<rparr>"

definition setActivePanel :: "panel \<Rightarrow> ui_state \<Rightarrow> ui_state" where
  "setActivePanel p s =
     (let s1 = s\<lparr>ui_activePanel := p\<rparr>
      in if \<not> ui_sidebarOpen s1 then s1\<lparr>ui_sidebarOpen := True\<rparr> else s1)"

definition openModal :: "modal option \<Rightarrow> string option \<Rightarrow> ui_state \<Rightarrow> ui_state" where
  "openModal m d s = s\<lparr>ui_modal := m, ui_modalData := d\<rparr>"

definition closeModal :: "ui_state \<Rightarrow> ui_state" where
  "closeModal s = s\<lparr>ui_modal := None, ui_modalData := None\<rparr>"

definition setTheme :: "theme_mode \<Rightarrow> ui_state \<Rightarrow> ui_state" where
  "setTheme t s = s\<lparr>ui_theme := t\<rparr>"

definition toggleTheme :: "ui_state \<Rightarrow> ui_state" where
  "toggleTheme s = (if ui_theme s = Light then s\<lparr>ui_theme := Dark\<rparr>
     else if ui_theme s = Dark then s\<lparr>ui_theme := System\<rparr> else s\<lparr>ui_theme := Light\<rparr>)"

definition ui_toggleGrid :: "ui_state \<Rightarrow> ui_state" where
  "ui_toggleGrid s = s\<lparr>ui_showGrid := \<not> ui_showGrid s\<rparr>"

definition setShowGrid :: "bool \<Rightarrow> ui_state \<Rightarrow> ui_state" where
  "setShowGrid b s = s\<lparr>ui_showGrid := b\<rparr>"

definition toggleGuides :: "ui_state \<Rightarrow> ui_state" where
  "toggleGuides s = s\<lparr>ui_showGuides := \<not> ui_showGuides s\<rparr>"

definition setShowGuides :: "bool \<Rightarrow> ui_state \<Rightarrow> ui_state" where
  "setShowGuides b s = s\<lparr>ui_showGuides := b\<rparr>"

text \<open>The timer is armed when \<open>autoClose\<close> holds and the duration is present and not zero.\<close>

definition addNotification ::
  "string \<Rightarrow> int \<Rightarrow> notification_kind \<times> string \<times> string \<times> bool \<times> nat option \<Rightarrow> ui_state \<Rightarrow> ui_state" where
  "addNotification nid now n s =
     (case n of (kind, ttl, msg, autoClose, duration) \<Rightarrow>
        let newNotification = \<lparr>nt_id = nid, nt_kind = kind, nt_title = ttl, nt_message = msg,
              nt_timestamp = now, nt_autoClose = autoClose, nt_duration = duration\<rparr>;
            s1 = s\<lparr>ui_notifications := ui_notifications s @ [newNotification]\<rparr>
        in case duration of
             Some d \<Rightarrow> if autoClose \<and> d \<noteq> 0 then s1\<lparr>ui_timers := ui_timers s1 @ [(nid, d)]\<rparr> else s1
           | None \<Rightarrow> s1)"

definition removeNotification :: "string \<Rightarrow> ui_state \<Rightarrow> ui_state" where
  "removeNotification nid s = (case find_index (\<lambda>n. nt_id n = nid) (ui_notifications s) of
       Some i \<Rightarrow> s\<lparr>ui_notifications := splice_del i (ui_notifications s)\<rparr>
     | None \<Rightarrow> s)"

definition clearNotifications :: "ui_state \<Rightarrow> ui_state" where
  "clearNotifications s = s\<lparr>ui_notifications := []\<rparr>"

definition openContextMenu :: "jsnum \<Rightarrow> jsnum \<Rightarrow> string list \<Rightarrow> ui_state \<Rightarrow> ui_state" where
  "openContextMenu x y items s = s\<lparr>ui_contextMenu := Some (x, y, items)\<rparr>"

definition closeContextMenu :: "ui_state \<Rightarrow> ui_state" where
  "closeContextMenu s = s\<lparr>ui_contextMenu := None\<rparr>"

definition toggleFormsPanel :: "ui_state \<Rightarrow> ui_state" where
  "toggleFormsPanel s = s\<lparr>ui_showFormsPanel := \<not> ui_showFormsPanel s\<rparr>"

definition setShowFormsPanel :: "bool \<Rightarrow> ui_state \<Rightarrow> ui_state" where
  "setShowFormsPanel b s = s\<lparr>ui_showFormsPanel := b\<rparr>"

definition toggleContentEdit :: "ui_state \<Rightarrow> ui_state" where
  "toggleContentEdit s = s\<lparr>ui_contentEdit := \<not> ui_contentEdit s\<rparr>"

definition setContentEditActive :: "bool \<Rightarrow> ui_state \<Rightarrow> ui_state" where
  "setContentEditActive b s = s\<lparr>ui_contentEdit := b\<rparr>"

definition toggleHeadersFooters :: "ui_state \<Rightarrow> ui_state" where
  "toggleHeadersFooters s = s\<lparr>ui_headersFooters := \<not> ui_headersFooters s\<rparr>"

definition setHeadersFootersEnabled :: "bool \<Rightarrow> ui_state \<Rightarrow> ui_state" where
  "setHeadersFootersEnabled b s = s\<lparr>ui_headersFooters := b\<rparr>"

text \<open>\<open>reset\<close> does not cancel the armed timers.\<close>

definition ui_reset :: "ui_state \<Rightarrow> ui_state" where
  "ui_reset s = initial_ui\<lparr>ui_timers := ui_timers s\<rparr>"

text \<open>The event loop runs the oldest armed callback.\<close>

definition fire_timer :: "ui_state \<Rightarrow> ui_state" where
  "fire_timer s = (case ui_timers s of [] \<Rightarrow> s
     | (nid, d) # ts \<Rightarrow> removeNotification nid (s\<lparr>ui_timers := ts\<rparr>))"

section \<open>Properties\<close>

text \<open>Three toggles visit the three themes and come back.\<close>

lemma toggleTheme_cycle: "toggleTheme (toggleTheme (toggleTheme s)) = s"
  by (cases "ui_theme s") (simp_all add: toggleTheme_def)

lemma sidebar_width_bounds:
  "200 \<le> ui_sidebarWidth (setSidebarWidth w s) \<and> ui_sidebarWidth (setSidebarWidth w s) \<le> 600"
  by (simp add: setSidebarWidth_def)

definition notes_ok :: "ui_state \<Rightarrow> bool" where
  "notes_ok s \<longleftrightarrow> distinct (map nt_id (ui_notifications s))"

lemma add_notes_ok:
  "notes_ok s \<Longrightarrow> nid \<notin> nt_id ` set (ui_notifications s) \<Longrightarrow> notes_ok (addNotification nid now n s)"
  by (auto simp: notes_ok_def addNotification_def Let_def split: prod.splits option.splits)

lemma splice_first_filter:
  assumes "distinct (map f xs)" "find_index (\<lambda>x. f x = k) xs = Some i"
  shows "splice_del i xs = filter (\<lambda>x. f x \<noteq> k) xs"
  using assms
proof (induction xs arbitrary: i)
  case Nil
  then show ?case by simp
next
  case (Cons x xs)
  show ?case
  proof (cases "f x = k")
    case True
    then have "\<forall>y\<in>set xs. f y \<noteq> k"
      using Cons.prems(1) by (metis image_eqI distinct.simps(2) list.set_map list.simps(9))
    then show ?thesis
      using True Cons.prems(2) by (auto simp: splice_del_def filter_id_conv)
  next
    case False
    then obtain j where "i = Suc j" "find_index (\<lambda>x. f x = k) xs = Some j"
      using Cons.prems(2) by auto
    then show ?thesis
      using Cons False by (simp add: splice_del_def)
  qed
qed

lemma remove_notes:
  assumes "notes_ok s"
  shows "ui_notifications (removeNotification nid s)
    = filter (\<lambda>n. nt_id n \<noteq> nid) (ui_notifications s)"
proof (cases "find_index (\<lambda>n. nt_id n = nid) (ui_notifications s)")
  case None
  moreover from None have "\<forall>n\<in>set (ui_notifications s). nt_id n \<noteq> nid"
    by (simp add: find_index_None)
  ultimately show ?thesis
    by (simp add: removeNotification_def)
next
  case (Some i)
  then show ?thesis
    using assms splice_first_filter [of nt_id] by (simp add: removeNotification_def notes_ok_def)
qed

text \<open>A notification that closes itself is gone once its timer has run, and no other is.\<close>

lemma auto_close:
  assumes "notes_ok s" "nid \<notin> nt_id ` set (ui_notifications s)" "ui_timers s = []" "d > 0"
  shows "ui_notifications (fire_timer (addNotification nid now (k, t, m, True, Some d) s))
    = ui_notifications s"
proof -
  let ?s1 = "addNotification nid now (k, t, m, True, Some d) s"
  have "notes_ok (?s1\<lparr>ui_timers := []\<rparr>)"
    using add_notes_ok [OF assms(1,2)] by (simp add: notes_ok_def)
  then have "ui_notifications (fire_timer ?s1) = filter (\<lambda>n. nt_id n \<noteq> nid) (ui_notifications ?s1)"
    using assms(3,4) by (simp add: fire_timer_def remove_notes addNotification_def Let_def)
  also have "\<dots> = ui_notifications s"
    using assms(2-4) by (auto simp: addNotification_def Let_def filter_id_conv)
  finally show ?thesis .
qed

end
