(* ===== verification/Operations_Store.thy ===== *)
theory Operations_Store
  imports Elements
begin

text \<open>
  \<open>packages/editor/src/stores/operations-store.ts\<close>: the queue of element operations that the
  save flow bakes into the PDF. An operation carries a full element, or for a delete the
  triple of id, bounds and engine index.
\<close>

datatype op_action = Op_add | Op_update | Op_delete | Op_reorder

datatype op_element =
    Full element
  | Stub (stub_id: uuid) (stub_bounds: bounds) (stub_index: "int option")

fun op_element_id :: "op_element \<Rightarrow> uuid" where
  "op_element_id (Full e) = el_id e"
| "op_element_id (Stub i b ix) = i"

record element_operation =
  eo_action :: op_action
  eo_page :: int
  eo_element :: op_element
  eo_oldBounds :: "bounds option"
  eo_toFront :: "bool option"

type_synonym op_queue = "element_operation list"

definition same_target :: "op_action \<Rightarrow> int \<Rightarrow> uuid \<Rightarrow> element_operation \<Rightarrow> bool" where
  "same_target a p i op \<longleftrightarrow> eo_action op = a \<and> eo_page op = p \<and> op_element_id (eo_element op) = i"

definition queueAdd :: "int \<Rightarrow> element \<Rightarrow> op_queue \<Rightarrow> op_queue" where
  "queueAdd p e ops = ops @ [\<lparr>eo_action = Op_add, eo_page = p, eo_element = Full e,
     eo_oldBounds = None, eo_toFront = None\<rparr>]"

definition queueUpdate :: "int \<Rightarrow> element \<Rightarrow> bounds \<Rightarrow> op_queue \<Rightarrow> op_queue" where
  "queueUpdate p e ob ops =
     (case find_index (same_target Op_update p (el_id e)) ops of
        Some _ \<Rightarrow> update_first (same_target Op_update p (el_id e)) (\<lambda>op. op\<lparr>eo_element := Full e\<rparr>) ops
      | None \<Rightarrow> ops @ [\<lparr>eo_action = Op_update, eo_page = p, eo_element = Full e,
          eo_oldBounds = Some ob, eo_toFront = None\<rparr>])"

definition queueDelete :: "int \<Rightarrow> uuid \<Rightarrow> bounds \<Rightarrow> int option \<Rightarrow> op_queue \<Rightarrow> op_queue" where
  "queueDelete p i b ix ops = ops @ [\<lparr>eo_action = Op_delete, eo_page = p,
     eo_element = Stub i b ix, eo_oldBounds = Some b, eo_toFront = None\<rparr>]"

definition queueReorder :: "int \<Rightarrow> element \<Rightarrow> bool \<Rightarrow> op_queue \<Rightarrow> op_queue" where
  "queueReorder p e f ops =
     (case find_index (same_target Op_reorder p (el_id e)) ops of
        Some _ \<Rightarrow> update_first (same_target Op_reorder p (el_id e))
          (\<lambda>op. op\<lparr>eo_element := Full e, eo_toFront := Some f\<rparr>) ops
      | None \<Rightarrow> ops @ [\<lparr>eo_action = Op_reorder, eo_page = p, eo_element = Full e,
          eo_oldBounds = None, eo_toFront = Some f\<rparr>])"

definition drain :: "op_queue \<Rightarrow> op_queue \<times> op_queue" where
  "drain ops = (ops, [])"

definition peek :: "op_queue \<Rightarrow> op_queue" where
  "peek ops = ops"

definition op_clear :: "op_queue \<Rightarrow> op_queue" where
  "op_clear ops = []"

definition op_prepend :: "op_queue \<Rightarrow> op_queue \<Rightarrow> op_queue" where
  "op_prepend xs ops = xs @ ops"

definition op_size :: "op_queue \<Rightarrow> nat" where
  "op_size ops = length ops"

section \<open>Coalescing\<close>

definition pending :: "op_action \<Rightarrow> int \<Rightarrow> uuid \<Rightarrow> op_queue \<Rightarrow> op_queue" where
  "pending a p i ops = filter (same_target a p i) ops"

definition coalesced :: "op_queue \<Rightarrow> bool" where
  "coalesced ops \<longleftrightarrow>
     (\<forall>a\<in>{Op_update, Op_reorder}. \<forall>p i. length (pending a p i ops) \<le> 1)"

lemma pending_update_first:
  assumes "\<And>op. same_target a p i op \<Longrightarrow> same_target a p i (f op)"
  shows "pending a p i (update_first (same_target a p i) f ops) =
    (case pending a p i ops of [] \<Rightarrow> [] | op # rest \<Rightarrow> f op # rest)"
  using assms by (induction ops) (simp_all add: pending_def)

lemma pending_update_first_other:
  assumes "\<And>op. P op \<Longrightarrow> \<not> same_target a p i op \<and> \<not> same_target a p i (f op)"
  shows "pending a p i (update_first P f ops) = pending a p i ops"
  using assms by (induction ops) (auto simp: pending_def)

lemma pending_Nil_iff: "pending a p i ops = [] \<longleftrightarrow> find_index (same_target a p i) ops = None"
  by (simp add: pending_def filter_empty_conv find_index_None)

text \<open>The operation an update or a reorder appends when none is pending.\<close>

lemma pending_queueUpdate:
  "pending Op_update p i (queueUpdate p' e b ops) =
    (if p' = p \<and> el_id e = i
     then (case pending Op_update p i ops of
            [] \<Rightarrow> [\<lparr>eo_action = Op_update, eo_page = p, eo_element = Full e, eo_oldBounds = Some b,
                    eo_toFront = None\<rparr>]
          | op # rest \<Rightarrow> op\<lparr>eo_element := Full e\<rparr> # rest)
     else pending Op_update p i ops)"
proof (cases "p' = p \<and> el_id e = i")
  case True
  show ?thesis
  proof (cases "pending Op_update p i ops")
    case Nil
    moreover from Nil have "find_index (same_target Op_update p i) ops = None"
      by (simp add: pending_Nil_iff)
    ultimately show ?thesis
      using True by (simp add: queueUpdate_def) (simp add: pending_def same_target_def)
  next
    case (Cons op rest)
    then obtain k where "find_index (same_target Op_update p i) ops = Some k"
      by (metis list.distinct(1) option.exhaust pending_Nil_iff)
    moreover have "pending Op_update p i (update_first (same_target Op_update p i)
        (\<lambda>op. op\<lparr>eo_element := Full e\<rparr>) ops) = op\<lparr>eo_element := Full e\<rparr> # rest"
      using True Cons by (subst pending_update_first) (auto simp: same_target_def)
    ultimately show ?thesis
      using True Cons by (simp add: queueUpdate_def)
  qed
next
  case False
  then show ?thesis
    by (auto simp: queueUpdate_def same_target_def pending_def split: option.split
        intro!: pending_update_first_other [unfolded pending_def])
qed

lemma pending_queueReorder:
  "pending Op_reorder p i (queueReorder p' e f ops) =
    (if p' = p \<and> el_id e = i
     then (case pending Op_reorder p i ops of
            [] \<Rightarrow> [\<lparr>eo_action = Op_reorder, eo_page = p, eo_element = Full e, eo_oldBounds = None,
                    eo_toFront = Some f\<rparr>]
          | op # rest \<Rightarrow> op\<lparr>eo_element := Full e, eo_toFront := Some f\<rparr> # rest)
     else pending Op_reorder p i ops)"
proof (cases "p' = p \<and> el_id e = i")
  case True
  show ?thesis
  proof (cases "pending Op_reorder p i ops")
    case Nil
    moreover from Nil have "find_index (same_target Op_reorder p i) ops = None"
      by (simp add: pending_Nil_iff)
    ultimately show ?thesis
      using True by (simp add: queueReorder_def) (simp add: pending_def same_target_def)
  next
    case (Cons op rest)
    then obtain k where "find_index (same_target Op_reorder p i) ops = Some k"
      by (metis list.distinct(1) option.exhaust pending_Nil_iff)
    moreover have "pending Op_reorder p i (update_first (same_target Op_reorder p i)
        (\<lambda>op. op\<lparr>eo_element := Full e, eo_toFront := Some f\<rparr>) ops)
        = op\<lparr>eo_element := Full e, eo_toFront := Some f\<rparr> # rest"
      using True Cons by (subst pending_update_first) (auto simp: same_target_def)
    ultimately show ?thesis
      using True Cons by (simp add: queueReorder_def)
  qed
next
  case False
  then show ?thesis
    by (auto simp: queueReorder_def same_target_def pending_def split: option.split
        intro!: pending_update_first_other [unfolded pending_def])
qed

lemma pending_other_action:
  "pending Op_update p i (queueReorder p' e f ops) = pending Op_update p i ops"
  "pending Op_reorder p i (queueUpdate p' e b ops) = pending Op_reorder p i ops"
  "a \<in> {Op_update, Op_reorder} \<Longrightarrow> pending a p i (queueAdd p' e ops) = pending a p i ops"
  "a \<in> {Op_update, Op_reorder} \<Longrightarrow> pending a p i (queueDelete p' j bb ix ops) = pending a p i ops"
proof -
  show "pending Op_update p i (queueReorder p' e f ops) = pending Op_update p i ops"
    by (auto simp: queueReorder_def same_target_def pending_def split: option.split
        intro!: pending_update_first_other [unfolded pending_def])
  show "pending Op_reorder p i (queueUpdate p' e b ops) = pending Op_reorder p i ops"
    by (auto simp: queueUpdate_def same_target_def pending_def split: option.split
        intro!: pending_update_first_other [unfolded pending_def])
qed (auto simp: pending_def same_target_def queueAdd_def queueDelete_def)

datatype queue_op =
    Q_add int element
  | Q_update int element bounds
  | Q_delete int uuid bounds "int option"
  | Q_reorder int element bool
  | Q_clear

fun queue_step :: "queue_op \<Rightarrow> op_queue \<Rightarrow> op_queue" where
  "queue_step (Q_add p e) ops = queueAdd p e ops"
| "queue_step (Q_update p e b) ops = queueUpdate p e b ops"
| "queue_step (Q_delete p i b ix) ops = queueDelete p i b ix ops"
| "queue_step (Q_reorder p e f) ops = queueReorder p e f ops"
| "queue_step Q_clear ops = op_clear ops"

lemma pending_clear: "pending a p i (op_clear ops) = []"
  by (simp add: pending_def op_clear_def)

lemma pending_length:
  "length (pending Op_update p i (queueUpdate p' e b ops)) \<le> max 1 (length (pending Op_update p i ops))"
  "length (pending Op_reorder p i (queueReorder p' e f ops)) \<le> max 1 (length (pending Op_reorder p i ops))"
  by (simp_all add: pending_queueUpdate pending_queueReorder split: list.split)

lemma coalesced_step:
  assumes "coalesced ops"
  shows "coalesced (queue_step q ops)"
proof -
  have "length (pending a p i (queue_step q ops)) \<le> 1" if a: "a \<in> {Op_update, Op_reorder}" for a p i
  proof -
    have "length (pending a p i (queue_step q ops)) \<le> max 1 (length (pending a p i ops))"
      using a pending_length by (cases q) (auto simp: pending_other_action pending_clear)
    moreover have "length (pending a p i ops) \<le> 1"
      using assms a by (auto simp: coalesced_def)
    ultimately show ?thesis by simp
  qed
  then show ?thesis
    by (simp add: coalesced_def)
qed

lemma coalesced_run: "coalesced ops \<Longrightarrow> coalesced (fold queue_step qs ops)"
  by (induction qs arbitrary: ops) (auto intro: coalesced_step)

text \<open>
  A burst of updates of one element leaves one operation: the bounds of the first edit (the
  region to clear) with the element of the last.
\<close>

definition updates_of :: "int \<Rightarrow> uuid \<Rightarrow> (int \<times> element \<times> bounds) list \<Rightarrow> (int \<times> element \<times> bounds) list" where
  "updates_of p i us = filter (\<lambda>u. fst u = p \<and> el_id (fst (snd u)) = i) us"

lemma pending_burst:
  "pending Op_update p i (fold (\<lambda>u. queueUpdate (fst u) (fst (snd u)) (snd (snd u))) us ops) =
    (case updates_of p i us of
       [] \<Rightarrow> pending Op_update p i ops
     | u # us2 \<Rightarrow> (case pending Op_update p i ops of
           [] \<Rightarrow> [\<lparr>eo_action = Op_update, eo_page = p, eo_element = Full (fst (snd (last (u # us2)))),
                  eo_oldBounds = Some (snd (snd u)), eo_toFront = None\<rparr>]
         | op # rest \<Rightarrow> op\<lparr>eo_element := Full (fst (snd (last (u # us2))))\<rparr> # rest))"
proof (induction us rule: rev_induct)
  case Nil
  then show ?case by (simp add: updates_of_def)
next
  case (snoc x us)
  then show ?case
    by (cases x) (auto simp: updates_of_def pending_queueUpdate split: list.split)
qed

end
