(* ===== verification/Editor_Actions.thy ===== *)
theory Editor_Actions
  imports Document_Store History_Store Selection_Store Canvas_Store
begin

text \<open>
  \<open>packages/editor/src/actions\<close>: the operations the user interface calls, composed from the
  document, history, selection and canvas stores. \<open>getState()\<close> returns an immutable snapshot:
  what an action reads from it after calling a store action is the state from before the call,
  and the definitions below read the arguments where the code reads that snapshot. A random
  id and the clock are the arguments \<open>fresh\<close>, \<open>sid\<close> (snapshot id) and \<open>now\<close>.
\<close>

record editor =
  ed_doc :: document_state
  ed_hist :: history
  ed_sel :: selection
  ed_canvas :: canvas_state

datatype editor_error =
    Page_not_found uuid
  | Element_not_found uuid
  | Cannot_remove_last_page
  | Invalid_page_indices

type_synonym 'a outcome = "editor_error + 'a"

definition find_page :: "uuid \<Rightarrow> editor \<Rightarrow> page option" where
  "find_page pid s = find (\<lambda>p. pg_id p = pid) (ds_pages (ed_doc s))"

definition snap :: "string \<Rightarrow> int \<Rightarrow> string \<Rightarrow> editor \<Rightarrow> editor" where
  "snap sid now d s = s\<lparr>ed_hist :=
     pushSnapshot sid now (ds_pages (ed_doc s)) (ds_version (ed_doc s)) d (ed_hist s)\<rparr>"

definition put_elements :: "uuid \<Rightarrow> element list \<Rightarrow> editor \<Rightarrow> editor" where
  "put_elements pid es s =
     s\<lparr>ed_doc := updatePage pid (empty_page_patch\<lparr>pp_elements := Some es\<rparr>) (ed_doc s)\<rparr>"

fun type_name :: "element_type \<Rightarrow> string" where
  "type_name Ty_text = ''text''"
| "type_name Ty_image = ''image''"
| "type_name Ty_shape = ''shape''"
| "type_name Ty_annotation = ''annotation''"
| "type_name Ty_form_field = ''form_field''"

section \<open>Element actions\<close>

definition createElement ::
  "uuid \<Rightarrow> string \<Rightarrow> int \<Rightarrow> uuid \<Rightarrow> element \<Rightarrow> editor \<Rightarrow> (uuid \<times> editor) outcome" where
  "createElement fresh sid now pid e s =
     (let newElement = e\<lparr>el_id := fresh\<rparr> in
      case find_page pid s of None \<Rightarrow> Inl (Page_not_found pid)
      | Some page \<Rightarrow>
          (let s1 = snap sid now (''Create '' @ type_name (body_type (el_body e)) @ '' element'') s
           in Inr (fresh, put_elements pid (pg_elements page @ [newElement]) s1)))"

definition updateElement ::
  "string \<Rightarrow> int \<Rightarrow> uuid \<Rightarrow> uuid \<Rightarrow> element_patch \<Rightarrow> editor \<Rightarrow> editor outcome" where
  "updateElement sid now pid eid upd s =
     (case find_page pid s of None \<Rightarrow> Inl (Page_not_found pid)
      | Some page \<Rightarrow>
          (case find_index (\<lambda>e. el_id e = eid) (pg_elements page) of
             None \<Rightarrow> Inl (Element_not_found eid)
           | Some i \<Rightarrow>
               (let s1 = snap sid now ''Update element'' s;
                    es = (pg_elements page)[i := patch_element upd (pg_elements page ! i)]
                in Inr (put_elements pid es s1))))"

definition deleteElement :: "string \<Rightarrow> int \<Rightarrow> uuid \<Rightarrow> uuid \<Rightarrow> editor \<Rightarrow> editor outcome" where
  "deleteElement sid now pid eid s =
     (case find_page pid s of None \<Rightarrow> Inl (Page_not_found pid)
      | Some page \<Rightarrow>
          (let s1 = snap sid now ''Delete element'' s;
               s2 = put_elements pid (filter (\<lambda>e. el_id e \<noteq> eid) (pg_elements page)) s1
           in Inr (if isSelected eid (ed_sel s)
                   then s2\<lparr>ed_sel := deselectElement eid (ed_sel s2)\<rparr> else s2)))"

text \<open>\<open>digits\<close> prints the count in the description of the snapshot.\<close>

definition deleteElements ::
  "(nat \<Rightarrow> string) \<Rightarrow> string \<Rightarrow> int \<Rightarrow> uuid \<Rightarrow> uuid list \<Rightarrow> editor \<Rightarrow> editor outcome" where
  "deleteElements digits sid now pid eids s =
     (case find_page pid s of None \<Rightarrow> Inl (Page_not_found pid)
      | Some page \<Rightarrow>
          (let s1 = snap sid now (''Delete '' @ digits (length eids) @ '' elements'') s;
               ids = set_of_list eids;
               s2 = put_elements pid (filter (\<lambda>e. \<not> List.member ids (el_id e)) (pg_elements page)) s1
           in Inr (s2\<lparr>ed_sel := clearSelection (ed_sel s2)\<rparr>)))"

definition moveElement ::
  "string \<Rightarrow> int \<Rightarrow> uuid \<Rightarrow> uuid \<Rightarrow> jsnum \<Rightarrow> jsnum \<Rightarrow> editor \<Rightarrow> editor outcome" where
  "moveElement sid now pid eid x y s =
     updateElement sid now pid eid (empty_element_patch\<lparr>ep_bounds :=
       Some \<lparr>b_x = x, b_y = y, b_width = 0, b_height = 0\<rparr>\<rparr>) s"

definition resizeElement ::
  "string \<Rightarrow> int \<Rightarrow> uuid \<Rightarrow> uuid \<Rightarrow> bounds \<Rightarrow> editor \<Rightarrow> editor outcome" where
  "resizeElement sid now pid eid b s =
     updateElement sid now pid eid (empty_element_patch\<lparr>ep_bounds := Some b\<rparr>) s"

definition duplicateElement ::
  "uuid \<Rightarrow> string \<Rightarrow> int \<Rightarrow> uuid \<Rightarrow> uuid \<Rightarrow> jsnum \<Rightarrow> jsnum \<Rightarrow> editor \<Rightarrow> (uuid \<times> editor) outcome" where
  "duplicateElement fresh sid now pid eid dx dy s =
     (case find_page pid s of None \<Rightarrow> Inl (Page_not_found pid)
      | Some page \<Rightarrow>
          (case find (\<lambda>e. el_id e = eid) (pg_elements page) of
             None \<Rightarrow> Inl (Element_not_found eid)
           | Some e \<Rightarrow>
               (let b = el_bounds e;
                    d = e\<lparr>el_bounds := b\<lparr>b_x := b_x b + dx, b_y := b_y b + dy\<rparr>\<rparr>
                in createElement fresh sid now pid d s)))"

definition assignElementToLayer ::
  "string \<Rightarrow> int \<Rightarrow> uuid \<Rightarrow> uuid \<Rightarrow> uuid option \<Rightarrow> editor \<Rightarrow> editor outcome" where
  "assignElementToLayer sid now pid eid lid s =
     updateElement sid now pid eid (empty_element_patch\<lparr>ep_layerId := Some lid\<rparr>) s"

definition bringToFront :: "string \<Rightarrow> int \<Rightarrow> uuid \<Rightarrow> uuid \<Rightarrow> editor \<Rightarrow> editor outcome" where
  "bringToFront sid now pid eid s =
     (case find_page pid s of None \<Rightarrow> Inl (Page_not_found pid)
      | Some page \<Rightarrow>
          (case find_index (\<lambda>e. el_id e = eid) (pg_elements page) of
             None \<Rightarrow> Inl (Element_not_found eid)
           | Some i \<Rightarrow>
               (let s1 = snap sid now ''Bring to front'' s;
                    es = splice_del i (pg_elements page) @ [pg_elements page ! i]
                in Inr (put_elements pid es s1))))"

definition sendToBack :: "string \<Rightarrow> int \<Rightarrow> uuid \<Rightarrow> uuid \<Rightarrow> editor \<Rightarrow> editor outcome" where
  "sendToBack sid now pid eid s =
     (case find_page pid s of None \<Rightarrow> Inl (Page_not_found pid)
      | Some page \<Rightarrow>
          (case find_index (\<lambda>e. el_id e = eid) (pg_elements page) of
             None \<Rightarrow> Inl (Element_not_found eid)
           | Some i \<Rightarrow>
               (let s1 = snap sid now ''Send to back'' s;
                    es = (pg_elements page ! i) # splice_del i (pg_elements page)
                in Inr (put_elements pid es s1))))"

section \<open>Page actions\<close>

text \<open>\<open>dimensions\<close> carries an optional rotation; \<open>w || 595\<close> replaces a zero width.\<close>

definition default_page :: "uuid \<Rightarrow> int \<Rightarrow> (jsnum \<times> jsnum \<times> page_rotation option) option \<Rightarrow> page" where
  "default_page fresh num dims =
     (let w = (case dims of None \<Rightarrow> 595 | Some (w, h, r) \<Rightarrow> w);
          h = (case dims of None \<Rightarrow> 842 | Some (w, h, r) \<Rightarrow> h);
          rot = (case dims of Some (_, _, Some r) \<Rightarrow> r | _ \<Rightarrow> R0)
      in \<lparr>pg_id = fresh, pg_number = num,
          pg_dims = \<lparr>pd_width = w, pd_height = h, pd_rotation = rot\<rparr>,
          pg_mediaBox = \<lparr>b_x = 0, b_y = 0, b_width = (if w = 0 then 595 else w),
            b_height = (if h = 0 then 842 else h)\<rparr>,
          pg_elements = [], pg_rest = []\<rparr>)"

definition act_addPage ::
  "uuid \<Rightarrow> string \<Rightarrow> int \<Rightarrow> int option \<Rightarrow> (jsnum \<times> jsnum \<times> page_rotation option) option \<Rightarrow>
   page option \<Rightarrow> editor \<Rightarrow> uuid \<times> editor" where
  "act_addPage fresh sid now index dims template s =
     (let s1 = snap sid now ''Add page'' s;
          num = (case index of Some i \<Rightarrow> i + 1 | None \<Rightarrow> int (length (ds_pages (ed_doc s))) + 1);
          newPage = (case template of
              Some t \<Rightarrow> t\<lparr>pg_id := fresh, pg_number := num\<rparr>
            | None \<Rightarrow> default_page fresh num dims)
      in (fresh, s1\<lparr>ed_doc := ds_addPage newPage index (ed_doc s1)\<rparr>))"

text \<open>The canvas correction compares with the page count from before the removal.\<close>

definition act_removePage :: "string \<Rightarrow> int \<Rightarrow> uuid \<Rightarrow> editor \<Rightarrow> editor outcome" where
  "act_removePage sid now pid s =
     (let pages = ds_pages (ed_doc s) in
      if length pages \<le> 1 then Inl Cannot_remove_last_page
      else case find_index (\<lambda>p. pg_id p = pid) pages of
        None \<Rightarrow> Inl (Page_not_found pid)
      | Some i \<Rightarrow>
          (let s1 = snap sid now ''Remove page'' s;
               s2 = s1\<lparr>ed_doc := ds_removePage pid (ed_doc s1)\<rparr>
           in Inr (if cv_page (ed_canvas s) \<ge> int (length pages)
                   then s2\<lparr>ed_canvas := setCurrentPage (max 0 (int (length pages) - 1)) (ed_canvas s2)\<rparr>
                   else s2)))"

definition act_reorderPages :: "string \<Rightarrow> int \<Rightarrow> int \<Rightarrow> int \<Rightarrow> editor \<Rightarrow> editor outcome" where
  "act_reorderPages sid now from to s =
     (let n = int (length (ds_pages (ed_doc s))) in
      if from = to then Inr s
      else if from < 0 \<or> from \<ge> n \<or> to < 0 \<or> to \<ge> n then Inl Invalid_page_indices
      else let s1 = snap sid now ''Reorder pages'' s
           in Inr (s1\<lparr>ed_doc := ds_reorderPages from to (ed_doc s1)\<rparr>))"

definition duplicatePage ::
  "uuid \<Rightarrow> string \<Rightarrow> int \<Rightarrow> uuid \<Rightarrow> bool \<Rightarrow> editor \<Rightarrow> (uuid \<times> editor) outcome" where
  "duplicatePage fresh sid now pid insertAfter s =
     (let pages = ds_pages (ed_doc s) in
      case find_index (\<lambda>p. pg_id p = pid) pages of
        None \<Rightarrow> Inl (Page_not_found pid)
      | Some i \<Rightarrow>
          (let insertIndex = (if insertAfter then int i + 1 else int i)
           in Inr (act_addPage fresh sid now (Some insertIndex) None (Some (pages ! i)) s)))"

definition updatePageDimensions ::
  "string \<Rightarrow> int \<Rightarrow> uuid \<Rightarrow> jsnum \<Rightarrow> jsnum \<Rightarrow> page_rotation option \<Rightarrow> editor \<Rightarrow> editor outcome" where
  "updatePageDimensions sid now pid w h r s =
     (case find_page pid s of None \<Rightarrow> Inl (Page_not_found pid)
      | Some page \<Rightarrow>
          (let s1 = snap sid now ''Update page dimensions'' s;
               dims = \<lparr>pd_width = w, pd_height = h, pd_rotation = or_keep r (pd_rotation (pg_dims page))\<rparr>;
               mb = (pg_mediaBox page)\<lparr>b_width := w, b_height := h\<rparr>
           in Inr (s1\<lparr>ed_doc := updatePage pid
                (empty_page_patch\<lparr>pp_dims := Some dims, pp_mediaBox := Some mb\<rparr>) (ed_doc s1)\<rparr>)))"

definition rotatePage :: "string \<Rightarrow> int \<Rightarrow> uuid \<Rightarrow> page_rotation \<Rightarrow> editor \<Rightarrow> editor outcome" where
  "rotatePage sid now pid r s =
     (case find_page pid s of None \<Rightarrow> Inl (Page_not_found pid)
      | Some page \<Rightarrow>
          (let s1 = snap sid now ''Rotate page'' s
           in Inr (s1\<lparr>ed_doc := updatePage pid
                (empty_page_patch\<lparr>pp_dims := Some ((pg_dims page)\<lparr>pd_rotation := r\<rparr>)\<rparr>) (ed_doc s1)\<rparr>)))"

definition clearPage :: "string \<Rightarrow> int \<Rightarrow> uuid \<Rightarrow> editor \<Rightarrow> editor outcome" where
  "clearPage sid now pid s =
     (case find_page pid s of None \<Rightarrow> Inl (Page_not_found pid)
      | Some page \<Rightarrow> Inr (put_elements pid [] (snap sid now ''Clear page'' s)))"

section \<open>History actions\<close>

definition act_restore :: "snapshot \<Rightarrow> editor \<Rightarrow> editor" where
  "act_restore sn s = s\<lparr>ed_doc := setVersion (sn_version sn) (setPages (sn_pages sn) (ed_doc s))\<rparr>"

definition act_undo :: "editor \<Rightarrow> bool \<times> editor" where
  "act_undo s =
     (if \<not> h_canUndo (ed_hist s) then (False, s)
      else case hist_undo (ed_hist s) of
        (None, h) \<Rightarrow> (False, s\<lparr>ed_hist := h\<rparr>)
      | (Some sn, h) \<Rightarrow> (True, act_restore sn (s\<lparr>ed_hist := h\<rparr>)))"

definition act_redo :: "editor \<Rightarrow> bool \<times> editor" where
  "act_redo s =
     (if \<not> h_canRedo (ed_hist s) then (False, s)
      else case hist_redo (ed_hist s) of
        (None, h) \<Rightarrow> (False, s\<lparr>ed_hist := h\<rparr>)
      | (Some sn, h) \<Rightarrow> (True, act_restore sn (s\<lparr>ed_hist := h\<rparr>)))"

definition saveSnapshot :: "string \<Rightarrow> int \<Rightarrow> string \<Rightarrow> editor \<Rightarrow> editor" where
  "saveSnapshot sid now d s = snap sid now d s"

definition clearHistory :: "editor \<Rightarrow> editor" where
  "clearHistory s = s\<lparr>ed_hist := hist_clear (ed_hist s)\<rparr>"

section \<open>Selection actions\<close>

definition selectAllOnPage :: "uuid \<Rightarrow> editor \<Rightarrow> editor outcome" where
  "selectAllOnPage pid s =
     (case find_page pid s of None \<Rightarrow> Inl (Page_not_found pid)
      | Some page \<Rightarrow> Inr (s\<lparr>ed_sel := sel_selectAll (map el_id (pg_elements page)) pid (ed_sel s)\<rparr>))"

definition intersects :: "bounds \<Rightarrow> bounds \<Rightarrow> bool" where
  "intersects a b \<longleftrightarrow> b_x a < b_x b + b_width b \<and> b_x a + b_width a > b_x b
     \<and> b_y a < b_y b + b_height b \<and> b_y a + b_height a > b_y b"

definition selectElementsInBounds :: "bounds \<Rightarrow> uuid \<Rightarrow> editor \<Rightarrow> editor outcome" where
  "selectElementsInBounds b pid s =
     (case find_page pid s of None \<Rightarrow> Inl (Page_not_found pid)
      | Some page \<Rightarrow>
          (let ids = map el_id (filter (\<lambda>e. intersects (el_bounds e) b) (pg_elements page))
           in Inr (s\<lparr>ed_sel := selectElements ids pid (ed_sel s)\<rparr>)))"

definition getSelectedElementIds :: "editor \<Rightarrow> uuid list" where
  "getSelectedElementIds s = sel_ids (ed_sel s)"

section \<open>Edits as one step function\<close>

datatype edit =
    E_create uuid uuid element
  | E_update uuid uuid element_patch
  | E_delete uuid uuid
  | E_delete_many "nat \<Rightarrow> string" uuid "uuid list"
  | E_move uuid uuid jsnum jsnum
  | E_resize uuid uuid bounds
  | E_duplicate uuid uuid uuid jsnum jsnum
  | E_assign_layer uuid uuid "uuid option"
  | E_front uuid uuid
  | E_back uuid uuid
  | E_add_page uuid "int option" "(jsnum \<times> jsnum \<times> page_rotation option) option" "page option"
  | E_remove_page uuid
  | E_reorder_pages int int
  | E_duplicate_page uuid uuid bool
  | E_page_dims uuid jsnum jsnum "page_rotation option"
  | E_rotate_page uuid page_rotation
  | E_clear_page uuid

fun edit_step :: "string \<Rightarrow> int \<Rightarrow> edit \<Rightarrow> editor \<Rightarrow> editor outcome" where
  "edit_step sid now (E_create fresh pid e) s = map_sum id snd (createElement fresh sid now pid e s)"
| "edit_step sid now (E_update pid eid u) s = updateElement sid now pid eid u s"
| "edit_step sid now (E_delete pid eid) s = deleteElement sid now pid eid s"
| "edit_step sid now (E_delete_many dg pid eids) s = deleteElements dg sid now pid eids s"
| "edit_step sid now (E_move pid eid x y) s = moveElement sid now pid eid x y s"
| "edit_step sid now (E_resize pid eid b) s = resizeElement sid now pid eid b s"
| "edit_step sid now (E_duplicate fresh pid eid dx dy) s =
     map_sum id snd (duplicateElement fresh sid now pid eid dx dy s)"
| "edit_step sid now (E_assign_layer pid eid l) s = assignElementToLayer sid now pid eid l s"
| "edit_step sid now (E_front pid eid) s = bringToFront sid now pid eid s"
| "edit_step sid now (E_back pid eid) s = sendToBack sid now pid eid s"
| "edit_step sid now (E_add_page fresh i d t) s = Inr (snd (act_addPage fresh sid now i d t s))"
| "edit_step sid now (E_remove_page pid) s = act_removePage sid now pid s"
| "edit_step sid now (E_reorder_pages f t) s = act_reorderPages sid now f t s"
| "edit_step sid now (E_duplicate_page fresh pid a) s =
     map_sum id snd (duplicatePage fresh sid now pid a s)"
| "edit_step sid now (E_page_dims pid w h r) s = updatePageDimensions sid now pid w h r s"
| "edit_step sid now (E_rotate_page pid r) s = rotatePage sid now pid r s"
| "edit_step sid now (E_clear_page pid) s = clearPage sid now pid s"

text \<open>Every edit but a reordering onto the same index takes a snapshot before it changes anything.\<close>

fun takes_snapshot :: "edit \<Rightarrow> bool" where
  "takes_snapshot (E_reorder_pages f t) = (f \<noteq> t)"
| "takes_snapshot _ = True"

lemma put_elements_fields [simp]:
  "ed_hist (put_elements pid es s) = ed_hist s" "ed_sel (put_elements pid es s) = ed_sel s"
  "ed_canvas (put_elements pid es s) = ed_canvas s"
  by (simp_all add: put_elements_def)

lemma snap_fields [simp]:
  "ed_doc (snap sid now d s) = ed_doc s" "ed_sel (snap sid now d s) = ed_sel s"
  "ed_canvas (snap sid now d s) = ed_canvas s"
  by (simp_all add: snap_def)

lemmas action_defs = createElement_def updateElement_def deleteElement_def deleteElements_def
  moveElement_def resizeElement_def duplicateElement_def assignElementToLayer_def
  bringToFront_def sendToBack_def act_addPage_def act_removePage_def act_reorderPages_def
  duplicatePage_def updatePageDimensions_def rotatePage_def clearPage_def

lemma edit_history:
  assumes "edit_step sid now ed s = Inr s'" and "takes_snapshot ed"
  shows "\<exists>d. ed_hist s' = ed_hist (snap sid now d s)"
  using assms
  by (cases ed) (auto simp: action_defs Let_def split: option.splits if_splits sum.splits)

lemma edit_error_or_step:
  "act_undo s = (b, s') \<Longrightarrow> ed_sel s' = ed_sel s \<and> ed_canvas s' = ed_canvas s"
  "act_redo s = (b, s') \<Longrightarrow> ed_sel s' = ed_sel s \<and> ed_canvas s' = ed_canvas s"
  by (auto simp: act_undo_def act_redo_def act_restore_def split: if_splits option.splits prod.splits)

section \<open>The invariant of the whole editor\<close>

definition pages_ok :: "page list \<Rightarrow> bool" where
  "pages_ok ps \<longleftrightarrow> ps \<noteq> [] \<and> distinct (map pg_id ps)"

definition snaps_ok :: "history \<Rightarrow> bool" where
  "snaps_ok h \<longleftrightarrow> (\<forall>sn\<in>set (h_undo h) \<union> set (h_redo h). pages_ok (sn_pages sn))"

definition editor_inv :: "editor \<Rightarrow> bool" where
  "editor_inv s \<longleftrightarrow> hist_inv (ed_hist s) \<and> snaps_ok (ed_hist s) \<and> sel_inv (ed_sel s)
     \<and> canvas_inv (ed_canvas s) \<and> pages_ok (ds_pages (ed_doc s))"

fun fresh_page :: "edit \<Rightarrow> editor \<Rightarrow> bool" where
  "fresh_page (E_add_page fresh i d t) s = (fresh \<notin> pg_id ` set (ds_pages (ed_doc s)))"
| "fresh_page (E_duplicate_page fresh pid a) s = (fresh \<notin> pg_id ` set (ds_pages (ed_doc s)))"
| "fresh_page _ s = True"

lemma updatePage_ids: "map pg_id (ds_pages (updatePage pid u d)) = map pg_id (ds_pages d)"
proof (cases "find_index (\<lambda>p. pg_id p = pid) (ds_pages d)")
  case (Some i)
  then have "i < length (ds_pages d)" by (simp add: find_index_less)
  then have "map pg_id ((ds_pages d)[i := patch_page u (ds_pages d ! i)]) = map pg_id (ds_pages d)"
    by (metis list_update_id map_update patch_page_id)
  then show ?thesis
    using Some by (simp add: updatePage_def)
qed (simp add: updatePage_def)

lemma pages_ok_cong: "map pg_id ps = map pg_id qs \<Longrightarrow> pages_ok ps = pages_ok qs"
  unfolding pages_ok_def by (metis map_is_Nil_conv)

lemma pages_ok_updatePage [inv_intros]:
  "pages_ok (ds_pages d) \<Longrightarrow> pages_ok (ds_pages (updatePage pid u d))"
  using pages_ok_cong [OF updatePage_ids] by blast

lemma pages_ok_put [inv_intros]:
  "pages_ok (ds_pages (ed_doc s)) \<Longrightarrow> pages_ok (ds_pages (ed_doc (put_elements pid es s)))"
  by (simp add: put_elements_def pages_ok_updatePage)

lemma distinct_splice_ins: "x \<notin> set xs \<Longrightarrow> distinct xs \<Longrightarrow> distinct (splice_ins i x xs)"
  by (auto simp: splice_ins_def set_take_disj_set_drop_if_distinct
      dest: in_set_takeD in_set_dropD)

lemma distinct_splice_del: "distinct xs \<Longrightarrow> distinct (splice_del i xs)"
  by (auto simp: splice_del_def set_take_disj_set_drop_if_distinct)

lemma pages_ok_addPage [inv_intros]:
  assumes "pages_ok (ds_pages d)" "pg_id g \<notin> pg_id ` set (ds_pages d)"
  shows "pages_ok (ds_pages (ds_addPage g i d))"
  using assms
  by (auto simp: pages_ok_def ds_addPage_def map_splice_ins distinct_splice_ins split: option.split)
    (auto simp: splice_ins_def)

lemma pages_ok_removePage [inv_intros]:
  assumes "pages_ok (ds_pages d)" "length (ds_pages d) > 1"
  shows "pages_ok (ds_pages (ds_removePage pid d))"
proof (cases "find_index (\<lambda>p. pg_id p = pid) (ds_pages d)")
  case (Some i)
  let ?ps = "splice_del i (ds_pages d)"
  have "length ?ps > 0"
    using assms(2) Some by (simp add: js_simps find_index_less)
  then have "renumber ?ps \<noteq> []"
    by (metis length_0_conv length_renumber less_irrefl)
  moreover have "distinct (map pg_id (renumber ?ps))"
    using assms(1) by (simp add: map_splice_del distinct_splice_del pages_ok_def)
  ultimately show ?thesis
    using Some by (simp add: ds_removePage_def pages_ok_def)
qed (use assms in \<open>simp add: ds_removePage_def\<close>)

lemma pages_ok_reorderPages [inv_intros]:
  assumes "pages_ok (ds_pages d)"
  shows "pages_ok (ds_pages (ds_reorderPages i j d))"
proof (cases "0 \<le> i \<and> 0 \<le> j \<and> nat i < length (ds_pages d) \<and> nat j < length (ds_pages d)")
  case True
  let ?ps = "move_item (nat i) (nat j) (ds_pages d)"
  have m: "mset ?ps = mset (ds_pages d)"
    using True by (simp add: mset_move_item)
  have "mset (map pg_id ?ps) = mset (map pg_id (ds_pages d))"
    by (simp add: m)
  then have "distinct (map pg_id (renumber ?ps))"
    using assms by (metis distinct_count_atmost_1 map_id_renumber pages_ok_def set_mset_mset)
  moreover have "renumber ?ps \<noteq> []"
    using m assms by (metis length_0_conv length_renumber mset_zero_iff pages_ok_def)
  moreover have "\<not> (i < 0 \<or> i \<ge> int (length (ds_pages d)) \<or> j < 0 \<or> j \<ge> int (length (ds_pages d)))"
    using True by linarith
  ultimately show ?thesis
    by (simp add: ds_reorderPages_def Let_def pages_ok_def)
qed (use assms in \<open>auto simp: ds_reorderPages_def Let_def\<close>)

lemma set_push_limited: "set (push_limited n x xs) \<subseteq> insert x (set xs)"
  by (cases xs) (auto simp: push_limited_def Let_def dest: list.set_sel(2) [rotated])

lemma snaps_ok_snap [inv_intros]:
  assumes "snaps_ok (ed_hist s)" "pages_ok (ds_pages (ed_doc s))"
  shows "snaps_ok (ed_hist (snap sid now d s))"
  using assms set_push_limited by (fastforce simp: snaps_ok_def snap_def pushSnapshot_def Let_def)

lemma hist_inv_snap [inv_intros]: "hist_inv (ed_hist s) \<Longrightarrow> hist_inv (ed_hist (snap sid now d s))"
  by (simp add: snap_def hist_inv_push)

lemma sel_inv_ops [inv_intros]:
  "sel_inv s \<Longrightarrow> sel_inv (deselectElement e s)" "sel_inv s \<Longrightarrow> sel_inv (clearSelection s)"
  using sel_inv_step [of s "Deselect e"] sel_inv_step [of s Clear_selection] by simp_all

lemma canvas_inv_setPage [inv_intros]: "canvas_inv s \<Longrightarrow> canvas_inv (setCurrentPage i s)"
  using canvas_inv_step [of s "Set_page i"] by simp

lemma editor_inv_edit:
  assumes "editor_inv s" and "edit_step sid now ed s = Inr s'" and "fresh_page ed s"
  shows "editor_inv s'"
proof -
  have h: "ed_hist s' = ed_hist s \<or> (\<exists>d. ed_hist s' = ed_hist (snap sid now d s))"
    using assms(2) edit_history [OF assms(2)]
    by (cases "takes_snapshot ed") (auto elim!: takes_snapshot.elims simp: act_reorderPages_def)
  then have "hist_inv (ed_hist s') \<and> snaps_ok (ed_hist s')"
    using assms(1) by (auto simp: editor_inv_def intro: inv_intros)
  moreover have "sel_inv (ed_sel s')"
    using assms(1,2) by (cases ed) (auto simp: editor_inv_def action_defs Let_def intro!: inv_intros
        split: option.splits if_splits sum.splits)
  moreover have "canvas_inv (ed_canvas s')"
    using assms(1,2) by (cases ed) (auto simp: editor_inv_def action_defs Let_def intro!: inv_intros
        split: option.splits if_splits sum.splits)
  moreover have "pages_ok (ds_pages (ed_doc s'))"
    using assms by (cases ed) (auto simp: editor_inv_def action_defs Let_def default_page_def
        intro!: inv_intros split: option.splits if_splits sum.splits)
  ultimately show ?thesis
    by (simp add: editor_inv_def)
qed

lemma editor_inv_restore:
  "editor_inv s \<Longrightarrow> pages_ok (sn_pages sn) \<Longrightarrow> editor_inv (act_restore sn s)"
  by (simp add: editor_inv_def act_restore_def setPages_def setVersion_def)

lemma editor_inv_undo:
  assumes "editor_inv s"
  shows "editor_inv (snd (act_undo s))"
proof (cases "h_undo (ed_hist s)" rule: rev_cases)
  case Nil
  then show ?thesis
    using assms by (simp add: act_undo_def hist_undo_def)
next
  case (snoc ys sn)
  let ?h = "snd (hist_undo (ed_hist s))"
  have "hist_inv ?h"
    using assms by (simp add: editor_inv_def hist_inv_undo)
  moreover have "snaps_ok ?h" "pages_ok (sn_pages sn)"
    using assms snoc by (auto simp: editor_inv_def snaps_ok_def hist_undo_def Let_def)
  ultimately have "editor_inv (act_restore sn (s\<lparr>ed_hist := ?h\<rparr>))"
    using assms by (intro editor_inv_restore) (simp_all add: editor_inv_def)
  then show ?thesis
    using assms snoc by (auto simp: act_undo_def hist_undo_def Let_def)
qed

lemma editor_inv_redo:
  assumes "editor_inv s"
  shows "editor_inv (snd (act_redo s))"
proof (cases "h_redo (ed_hist s)" rule: rev_cases)
  case Nil
  then show ?thesis
    using assms by (simp add: act_redo_def hist_redo_def)
next
  case (snoc ys sn)
  let ?h = "snd (hist_redo (ed_hist s))"
  have "hist_inv ?h"
    using assms by (simp add: editor_inv_def hist_inv_redo)
  moreover have "snaps_ok ?h" "pages_ok (sn_pages sn)"
    using assms snoc set_push_limited [of _ sn "h_undo (ed_hist s)"]
    by (auto simp: editor_inv_def snaps_ok_def hist_redo_def Let_def)
  ultimately have "editor_inv (act_restore sn (s\<lparr>ed_hist := ?h\<rparr>))"
    using assms by (intro editor_inv_restore) (simp_all add: editor_inv_def)
  then show ?thesis
    using assms snoc by (auto simp: act_redo_def hist_redo_def Let_def)
qed

section \<open>Sessions\<close>

text \<open>
  A user session: edits (a rejected edit changes nothing), undo and redo. The ids a session
  generates for new pages are fresh when each step's are.
\<close>

datatype user_action = Do string int edit | Undo | Redo

fun session_step :: "user_action \<Rightarrow> editor \<Rightarrow> editor" where
  "session_step (Do sid now ed) s = (case edit_step sid now ed s of Inl err \<Rightarrow> s | Inr s' \<Rightarrow> s')"
| "session_step Undo s = snd (act_undo s)"
| "session_step Redo s = snd (act_redo s)"

fun session_fresh :: "user_action list \<Rightarrow> editor \<Rightarrow> bool" where
  "session_fresh [] s = True"
| "session_fresh (Do sid now ed # as) s = (fresh_page ed s \<and> session_fresh as (session_step (Do sid now ed) s))"
| "session_fresh (a # as) s = session_fresh as (session_step a s)"

definition demo_element :: "uuid \<Rightarrow> element" where
  "demo_element i = \<lparr>el_id = i, el_bounds = \<lparr>b_x = 10, b_y = 20, b_width = 100, b_height = 50\<rparr>,
     el_transform = \<lparr>t_rotation = 0, t_scaleX = 1, t_scaleY = 1, t_skewX = 0, t_skewY = 0\<rparr>,
     el_layerId = None, el_locked = False, el_visible = True,
     el_body = Annotation_Body ''note'' ''x'', el_index = None, el_rest = []\<rparr>"

definition demo_editor :: editor where
  "demo_editor = \<lparr>ed_doc = setDocument ''d'' ''t''
       [(default_page ''p1'' 1 None)\<lparr>pg_elements := [demo_element ''e1'', demo_element ''e2'', demo_element ''e3'']\<rparr>,
        default_page ''p2'' 2 None] initial_document,
     ed_hist = initial_history, ed_sel = initial_selection, ed_canvas = initial_canvas\<rparr>"

lemma session_inv: "editor_inv s \<Longrightarrow> session_fresh as s \<Longrightarrow> editor_inv (fold session_step as s)"
proof (induction as arbitrary: s)
  case (Cons a as)
  show ?case
  proof (cases a)
    case (Do sid now ed)
    then have "editor_inv (session_step a s)"
      using Cons.prems editor_inv_edit by (auto split: sum.split)
    then show ?thesis
      using Cons Do by simp
  next
    case Undo
    then show ?thesis
      using Cons editor_inv_undo by auto
  next
    case Redo
    then show ?thesis
      using Cons editor_inv_redo by auto
  qed
qed simp

lemma demo_hist_inv: "hist_inv (ed_hist demo_editor)"
  by (simp add: demo_editor_def hist_inv_initial)

lemma demo_editor_inv: "editor_inv demo_editor"
  by (simp add: editor_inv_def demo_editor_def hist_inv_initial sel_inv_initial canvas_inv_initial
      snaps_ok_def setDocument_def pages_ok_def default_page_def)
    (simp add: initial_history_def)

definition demo_cleared :: editor where
  "demo_cleared = put_elements ''p1'' [] (snap ''x'' 0 ''Clear page'' demo_editor)"

lemma demo_clear: "edit_step ''x'' 0 (E_clear_page ''p1'') demo_editor = Inr demo_cleared"
  by (simp add: clearPage_def find_page_def demo_cleared_def)
    (simp add: demo_editor_def setDocument_def default_page_def)

lemma demo_cleared_pages: "ds_pages (ed_doc demo_cleared) \<noteq> ds_pages (ed_doc demo_editor)"
  by (simp add: demo_cleared_def put_elements_def updatePage_def)
    (simp add: demo_editor_def setDocument_def default_page_def patch_page_def empty_page_patch_def)

lemma undo_after_edit:
  assumes "hist_inv (ed_hist s)" and "edit_step sid now ed s = Inr s'" and "takes_snapshot ed"
  shows "fst (act_undo s') \<and> ds_pages (ed_doc (snd (act_undo s'))) = ds_pages (ed_doc s)
    \<and> ds_version (ed_doc (snd (act_undo s'))) = ds_version (ed_doc s)
    \<and> fst (act_redo (snd (act_undo s')))
    \<and> ds_pages (ed_doc (snd (act_redo (snd (act_undo s'))))) = ds_pages (ed_doc s)
    \<and> ed_hist (snd (act_redo (snd (act_undo s')))) = ed_hist s'"
proof -
  obtain d where h: "ed_hist s' = ed_hist (snap sid now d s)"
    using edit_history [OF assms(2,3)] by blast
  let ?h = "ed_hist s'"
  have inv: "hist_inv ?h" and ne: "h_undo ?h \<noteq> []"
    and top: "sn_pages (last (h_undo ?h)) = ds_pages (ed_doc s)"
      "sn_version (last (h_undo ?h)) = ds_version (ed_doc s)"
    using assms(1) by (auto simp: h snap_def pushSnapshot_def Let_def last_push_limited
        push_limited_nonempty hist_inv_def length_push_limited)
  define sn where "sn = last (h_undo ?h)"
  obtain h2 where u: "hist_undo ?h = (Some sn, h2)"
    using undo_returns_top [OF ne] by (cases "hist_undo ?h") (simp add: sn_def)
  have un: "act_undo s' = (True, act_restore sn (s'\<lparr>ed_hist := h2\<rparr>))"
    using inv ne u by (simp add: act_undo_def hist_inv_def)
  have r: "hist_redo h2 = (Some sn, ?h)"
    using redo_after_undo [OF inv ne] u by (simp add: sn_def)
  moreover have "h_canRedo h2"
    using ne u by (auto simp: hist_undo_def Let_def)
  ultimately show ?thesis
    using top by (simp add: un act_redo_def act_restore_def setPages_def setVersion_def sn_def)
qed

text \<open>C14: Every session of edits, undos and redos keeps the editor consistent: both history stacks
  within their limit with exact flags, every remembered page list and the current one non-empty
  with distinct page ids, the selection and the canvas within their own invariants.\<close>

theorem editor_session_invariant:
  assumes "editor_inv s" and "session_fresh as s"
  shows "editor_inv (fold session_step as s)"
  using assms by (rule session_inv)

lemma editor_session_invariant_witness:
  "editor_inv (fold session_step
     [Do ''s1'' 0 (E_remove_page ''p1''), Undo, Do ''s2'' 1 (E_duplicate_page ''p3'' ''p2'' True), Redo] demo_editor)"
proof (rule editor_session_invariant)
  show "session_fresh
     [Do ''s1'' 0 (E_remove_page ''p1''), Undo, Do ''s2'' 1 (E_duplicate_page ''p3'' ''p2'' True), Redo] demo_editor"
    by code_simp
qed (rule demo_editor_inv)

text \<open>Undoing an edit brings back the pages and the version from before it, for every action
  of the element and page modules that takes a snapshot.\<close>

lemma undo_reverts_edit:
  assumes "hist_inv (ed_hist s)" and "edit_step sid now ed s = Inr s'" and "takes_snapshot ed"
  shows "fst (act_undo s') \<and> ds_pages (ed_doc (snd (act_undo s'))) = ds_pages (ed_doc s)
    \<and> ds_version (ed_doc (snd (act_undo s'))) = ds_version (ed_doc s)"
  using undo_after_edit [OF assms] by blast

lemma undo_reverts_edit_witness:
  "\<exists>s'. edit_step ''x'' 0 (E_clear_page ''p1'') demo_editor = Inr s'
     \<and> ds_pages (ed_doc s') \<noteq> ds_pages (ed_doc demo_editor)
     \<and> ds_pages (ed_doc (snd (act_undo s'))) = ds_pages (ed_doc demo_editor)"
  using undo_reverts_edit [OF demo_hist_inv demo_clear] demo_clear demo_cleared_pages
  by auto

text \<open>Redo after undo does not bring the edit back: history holds the pages from before each
  edit only, and \<open>redo\<close> returns the very snapshot that \<open>undo\<close> has just restored, so the pages
  of the edit are lost. The undo and redo stacks themselves are restored exactly.\<close>

lemma redo_restores_old_pages:
  assumes "hist_inv (ed_hist s)" and "edit_step sid now ed s = Inr s'" and "takes_snapshot ed"
  shows "fst (act_redo (snd (act_undo s')))
    \<and> ds_pages (ed_doc (snd (act_redo (snd (act_undo s'))))) = ds_pages (ed_doc s)
    \<and> ed_hist (snd (act_redo (snd (act_undo s')))) = ed_hist s'"
  using undo_after_edit [OF assms] by blast

lemma redo_restores_old_pages_witness:
  "\<exists>s'. edit_step ''x'' 0 (E_clear_page ''p1'') demo_editor = Inr s'
     \<and> ds_pages (ed_doc (snd (act_redo (snd (act_undo s'))))) \<noteq> ds_pages (ed_doc s')"
  using redo_restores_old_pages [OF demo_hist_inv demo_clear] demo_clear demo_cleared_pages
  by auto

text \<open>
  The elements of a page after \<open>put_elements\<close>, and of every other page.
\<close>

lemma find_Some_index:
  "find P xs = Some x \<longleftrightarrow> (\<exists>i. find_index P xs = Some i \<and> xs ! i = x)"
  by (induction xs) auto

lemma find_list_update:
  assumes "find_index P xs = Some i" "P y"
  shows "find P (xs[i := y]) = Some y"
  using assms by (induction xs arbitrary: i) (auto split: if_splits nat.split)

lemma find_page_put:
  assumes "find_page pid s = Some g"
  shows "find_page pid (put_elements pid es s) = Some (g\<lparr>pg_elements := es\<rparr>)"
proof -
  obtain i where i: "find_index (\<lambda>p. pg_id p = pid) (ds_pages (ed_doc s)) = Some i"
    "ds_pages (ed_doc s) ! i = g"
    using assms by (auto simp: find_page_def find_Some_index)
  have "patch_page (empty_page_patch\<lparr>pp_elements := Some es\<rparr>) g = g\<lparr>pg_elements := es\<rparr>"
    by (simp add: patch_page_def empty_page_patch_def)
  moreover have "pg_id (g\<lparr>pg_elements := es\<rparr>) = pid"
    using i by (auto simp: find_index_Some)
  ultimately show ?thesis
    using i find_list_update [OF i(1), of "g\<lparr>pg_elements := es\<rparr>"]
    by (simp add: find_page_def put_elements_def updatePage_def)
qed

lemma find_page_snap [simp]: "find_page pid (snap sid now d s) = find_page pid s"
  by (simp add: find_page_def)

text \<open>Bringing an element to the front moves it behind every other element of its page and
  keeps the others in their order; sending it to the back does the same at the other end. No
  element is lost or copied.\<close>

lemma z_order_moves_one:
  assumes "find_page pid s = Some g" and "find_index (\<lambda>e. el_id e = eid) (pg_elements g) = Some i"
  shows "\<exists>sf sb gf gb. bringToFront sid now pid eid s = Inr sf \<and> sendToBack sid now pid eid s = Inr sb
    \<and> find_page pid sf = Some gf \<and> find_page pid sb = Some gb
    \<and> pg_elements gf = splice_del i (pg_elements g) @ [pg_elements g ! i]
    \<and> pg_elements gb = pg_elements g ! i # splice_del i (pg_elements g)
    \<and> mset (pg_elements gf) = mset (pg_elements g) \<and> mset (pg_elements gb) = mset (pg_elements g)"
  using assms mset_splice_del [of i "pg_elements g"]
  by (auto simp: bringToFront_def sendToBack_def Let_def find_page_put find_index_less)

lemma z_order_moves_one_witness:
  "\<exists>sf gf. bringToFront ''x'' 0 ''p1'' ''e1'' demo_editor = Inr sf \<and> find_page ''p1'' sf = Some gf
     \<and> map el_id (pg_elements gf) = [''e2'', ''e3'', ''e1'']"
proof -
  let ?g = "(default_page ''p1'' 1 None)\<lparr>pg_elements := [demo_element ''e1'', demo_element ''e2'', demo_element ''e3'']\<rparr>"
  have "find_page ''p1'' demo_editor = Some ?g"
    by (simp add: find_page_def demo_editor_def setDocument_def default_page_def)
  moreover have "find_index (\<lambda>e. el_id e = ''e1'') (pg_elements ?g) = Some 0"
    by (simp add: demo_element_def)
  ultimately show ?thesis
    using z_order_moves_one [of "''p1''" demo_editor ?g "''e1''" 0 "''x''" 0]
    by (auto simp: splice_del_def demo_element_def)
qed

text \<open>Removing a page while the canvas shows the last one leaves the canvas on an index past
  the end: the action compares with the number of pages from before the removal, so its
  correction never applies to an index that was valid.\<close>

lemma remove_page_leaves_index_out:
  assumes "editor_inv s" and "length (ds_pages (ed_doc s)) > 1"
    and "pid \<in> pg_id ` set (ds_pages (ed_doc s))"
    and "cv_page (ed_canvas s) = int (length (ds_pages (ed_doc s))) - 1"
  shows "\<exists>s'. act_removePage sid now pid s = Inr s'
    \<and> length (ds_pages (ed_doc s')) = length (ds_pages (ed_doc s)) - 1
    \<and> cv_page (ed_canvas s') = int (length (ds_pages (ed_doc s')))"
proof (cases "find_index (\<lambda>p. pg_id p = pid) (ds_pages (ed_doc s))")
  case None
  then show ?thesis
    using assms(3) by (auto simp: find_index_None)
next
  case (Some i)
  then have "i < length (ds_pages (ed_doc s))" by (rule find_index_less)
  then show ?thesis
    using assms Some by (simp add: act_removePage_def Let_def ds_removePage_def js_simps)
qed

lemma remove_page_leaves_index_out_witness:
  "\<exists>s'. act_removePage ''x'' 0 ''p1'' (demo_editor\<lparr>ed_canvas := setCurrentPage 1 initial_canvas\<rparr>) = Inr s'
     \<and> length (ds_pages (ed_doc s')) = 1 \<and> cv_page (ed_canvas s') = 1"
proof -
  let ?s = "demo_editor\<lparr>ed_canvas := setCurrentPage 1 initial_canvas\<rparr>"
  have inv: "editor_inv ?s"
    using demo_editor_inv by (simp add: editor_inv_def canvas_inv_setPage canvas_inv_initial)
  have "length (ds_pages (ed_doc ?s)) = 2"
    "''p1'' \<in> pg_id ` set (ds_pages (ed_doc ?s))" "cv_page (ed_canvas ?s) = 1"
    by (simp_all add: demo_editor_def setDocument_def default_page_def setCurrentPage_def)
  then show ?thesis
    using remove_page_leaves_index_out [OF inv, of "''p1''" "''x''" 0] by auto
qed

text \<open>Moving an element replaces its whole bounds, so the moved element has width and height
  zero: the fields the comment says are merged with the existing bounds are lost.\<close>

lemma move_collapses_element:
  assumes "find_page pid s = Some g" and "find_index (\<lambda>e. el_id e = eid) (pg_elements g) = Some i"
  shows "\<exists>s' g'. moveElement sid now pid eid x y s = Inr s' \<and> find_page pid s' = Some g'
    \<and> el_bounds (pg_elements g' ! i) = \<lparr>b_x = x, b_y = y, b_width = 0, b_height = 0\<rparr>
    \<and> (\<forall>j < length (pg_elements g). j \<noteq> i \<longrightarrow> pg_elements g' ! j = pg_elements g ! j)"
  using assms
  by (auto simp: moveElement_def updateElement_def Let_def find_page_put find_index_less
      patch_element_def empty_element_patch_def)

lemma move_collapses_element_witness:
  "\<exists>s' g'. moveElement ''x'' 0 ''p1'' ''e2'' 5 6 demo_editor = Inr s' \<and> find_page ''p1'' s' = Some g'
     \<and> b_width (el_bounds (pg_elements g' ! 1)) = 0"
proof -
  let ?g = "(default_page ''p1'' 1 None)\<lparr>pg_elements := [demo_element ''e1'', demo_element ''e2'', demo_element ''e3'']\<rparr>"
  have "find_page ''p1'' demo_editor = Some ?g"
    by (simp add: find_page_def demo_editor_def setDocument_def default_page_def)
  moreover have "find_index (\<lambda>e. el_id e = ''e2'') (pg_elements ?g) = Some 1"
    by (simp add: demo_element_def)
  ultimately show ?thesis
    using move_collapses_element [of "''p1''" demo_editor ?g "''e2''" 1 "''x''" 0 5 6] by fastforce
qed

end
