(* ===== verification/Js_Strings.thy ===== *)
theory Js_Strings
  imports Prelude
begin

text \<open>
  The string operations of the JavaScript standard library that the modelled code calls, on
  strings whose code units are below 256: \<open>trim\<close>, \<open>split\<close>, \<open>join\<close>, \<open>includes\<close>, \<open>replace\<close> of a
  first character, \<open>parseInt\<close> with radix 10 and 16, \<open>toString\<close> of a natural number,
  \<open>padStart\<close> and \<open>toLowerCase\<close>. \<open>NaN\<close> is \<open>None\<close>.
\<close>

definition code_unit :: "char \<Rightarrow> nat" where
  "code_unit c = of_char c"

text \<open>White space and line terminators of ECMA-262 below 256.\<close>

definition js_space :: "char \<Rightarrow> bool" where
  "js_space c \<longleftrightarrow> code_unit c \<in> {9, 10, 11, 12, 13, 32, 160}"

definition js_trim_start :: "string \<Rightarrow> string" where
  "js_trim_start s = dropWhile js_space s"

definition js_trim :: "string \<Rightarrow> string" where
  "js_trim s = rev (dropWhile js_space (rev (dropWhile js_space s)))"

fun js_split :: "char \<Rightarrow> string \<Rightarrow> string list" where
  "js_split c [] = [[]]"
| "js_split c (x # xs) =
     (if x = c then [] # js_split c xs
      else case js_split c xs of [] \<Rightarrow> [[x]] | y # ys \<Rightarrow> (x # y) # ys)"

fun js_join :: "string \<Rightarrow> string list \<Rightarrow> string" where
  "js_join sep [] = []"
| "js_join sep [s] = s"
| "js_join sep (s # t # ss) = s @ sep @ js_join sep (t # ss)"

fun remove_first :: "'a \<Rightarrow> 'a list \<Rightarrow> 'a list" where
  "remove_first c [] = []"
| "remove_first c (x # xs) = (if x = c then xs else x # remove_first c xs)"

text \<open>\<open>s.includes(needle)\<close>.\<close>

fun js_includes :: "string \<Rightarrow> string \<Rightarrow> bool" where
  "js_includes n [] = (n = [])"
| "js_includes n (x # xs) = (take (length n) (x # xs) = n \<or> js_includes n xs)"

text \<open>\<open>s.substring(i, j)\<close> with \<open>i \<le> j\<close>.\<close>

definition substring :: "nat \<Rightarrow> nat \<Rightarrow> string \<Rightarrow> string" where
  "substring i j s = take (j - i) (drop i s)"

definition js_lower_char :: "char \<Rightarrow> char" where
  "js_lower_char c = (let n = code_unit c in
     if (65 \<le> n \<and> n \<le> 90) \<or> (192 \<le> n \<and> n \<le> 222 \<and> n \<noteq> 215) then char_of (n + 32) else c)"

definition js_lower :: "string \<Rightarrow> string" where
  "js_lower s = map js_lower_char s"

section \<open>Numbers in text\<close>

definition digit_val :: "char \<Rightarrow> nat option" where
  "digit_val c = (let n = code_unit c in
     if 48 \<le> n \<and> n \<le> 57 then Some (n - 48)
     else if 97 \<le> n \<and> n \<le> 122 then Some (n - 87)
     else if 65 \<le> n \<and> n \<le> 90 then Some (n - 55) else None)"

definition is_digit :: "nat \<Rightarrow> char \<Rightarrow> bool" where
  "is_digit r c = (case digit_val c of None \<Rightarrow> False | Some d \<Rightarrow> d < r)"

definition digits_value :: "nat \<Rightarrow> string \<Rightarrow> nat" where
  "digits_value r s = foldl (\<lambda>a c. a * r + the (digit_val c)) 0 s"

text \<open>\<open>parseInt(s, radix)\<close>: leading space, a sign, \<open>0x\<close> for radix 16, then the longest run of digits.\<close>

definition strip_hex :: "nat \<Rightarrow> string \<Rightarrow> string" where
  "strip_hex r s = (if r = 16 then (case s of
       c # d # t \<Rightarrow> if c = CHR ''0'' \<and> (d = CHR ''x'' \<or> d = CHR ''X'') then t else s
     | _ \<Rightarrow> s) else s)"

definition parse_digits :: "nat \<Rightarrow> string \<Rightarrow> int option" where
  "parse_digits r s = (let ds = takeWhile (is_digit r) (strip_hex r s)
     in if ds = [] then None else Some (int (digits_value r ds)))"

definition js_parse_int :: "nat \<Rightarrow> string \<Rightarrow> int option" where
  "js_parse_int r s = (case js_trim_start s of
       [] \<Rightarrow> None
     | c # t \<Rightarrow> if c = CHR ''-'' then map_option uminus (parse_digits r t)
         else if c = CHR ''+'' then parse_digits r t else parse_digits r (c # t))"

definition digit_char :: "nat \<Rightarrow> char" where
  "digit_char d = (if d < 10 then char_of (d + 48) else char_of (d + 87))"

function nat_str :: "nat \<Rightarrow> nat \<Rightarrow> string" where
  "nat_str r n = (if r < 2 \<or> n < r then [digit_char n] else nat_str r (n div r) @ [digit_char (n mod r)])"
  by auto
termination
  by (relation "measure snd") auto

declare nat_str.simps [simp del]

definition int_str :: "int \<Rightarrow> string" where
  "int_str i = (if i < 0 then CHR ''-'' # nat_str 10 (nat (- i)) else nat_str 10 (nat i))"

definition pad_start :: "nat \<Rightarrow> char \<Rightarrow> string \<Rightarrow> string" where
  "pad_start n c s = replicate (n - length s) c @ s"

section \<open>Reading back what was printed\<close>

lemma code_unit_char_of: "n < 256 \<Longrightarrow> code_unit (char_of n) = n"
  by (simp add: code_unit_def)

lemma digit_val_char: "d < 36 \<Longrightarrow> digit_val (digit_char d) = Some d"
  by (auto simp: digit_val_def digit_char_def code_unit_char_of Let_def)

lemma is_digit_char: "d < r \<Longrightarrow> r \<le> 36 \<Longrightarrow> is_digit r (digit_char d)"
  by (simp add: is_digit_def digit_val_char)

lemma digits_value_append: "digits_value r (s @ [c]) = digits_value r s * r + the (digit_val c)"
  by (simp add: digits_value_def)

lemma nat_str_digits:
  assumes "2 \<le> r" "r \<le> 36"
  shows "nat_str r n \<noteq> [] \<and> list_all (is_digit r) (nat_str r n) \<and> digits_value r (nat_str r n) = n"
  using assms
proof (induction n rule: less_induct)
  case (less n)
  show ?case
  proof (cases "n < r")
    case True
    then show ?thesis
      using less.prems by (simp add: nat_str.simps [of r n] is_digit_char digits_value_def digit_val_char)
  next
    case False
    then have lt: "n div r < n"
      using less.prems by (simp add: div_less_dividend)
    have m: "n mod r < r"
      using less.prems by simp
    then have dv: "digit_val (digit_char (n mod r)) = Some (n mod r)"
      using less.prems by (intro digit_val_char) linarith
    show ?thesis
      using False less.IH [OF lt less.prems] less.prems m
      by (simp add: nat_str.simps [of r n] digits_value_append is_digit_char dv)
  qed
qed

lemma nat_str_inj: "nat_str 10 a = nat_str 10 b \<Longrightarrow> a = b"
proof -
  have dv: "digits_value 10 (nat_str 10 n) = n" for n
    using nat_str_digits [of 10 n] by simp
  show "nat_str 10 a = nat_str 10 b \<Longrightarrow> a = b"
    by (metis dv)
qed

lemma nat_str_chars: "c \<in> set (nat_str 10 n) \<Longrightarrow> is_digit 10 c"
  using nat_str_digits [of 10 n] by (auto simp: list_all_iff)

lemma nat_str_no_colon: "CHR '':'' \<notin> set (nat_str 10 a)"
proof
  assume "CHR '':'' \<in> set (nat_str 10 a)"
  from nat_str_chars [OF this] show False
    by (simp add: is_digit_def digit_val_def code_unit_def)
qed

lemma nat_str_no_newline: "CHR 0x0A \<notin> set (nat_str 10 a)"
proof
  assume "CHR 0x0A \<in> set (nat_str 10 a)"
  from nat_str_chars [OF this] show False
    by (simp add: is_digit_def digit_val_def code_unit_def)
qed

text \<open>Two texts split at the first occurrence of a character.\<close>

lemma split_at_colon:
  assumes "a @ c # b = a' @ c # b'" "c \<notin> set a" "c \<notin> set a'"
  shows "a = a' \<and> b = b'"
  using assms by (induction a arbitrary: a') (auto simp: Cons_eq_append_conv append_eq_Cons_conv)

lemma not_space_digit: "is_digit r c \<Longrightarrow> \<not> js_space c \<and> c \<noteq> CHR ''-'' \<and> c \<noteq> CHR ''+'' \<and> c \<noteq> CHR '',''"
  by (auto simp: is_digit_def digit_val_def js_space_def code_unit_def Let_def split: if_splits)

lemma takeWhile_digits:
  assumes "list_all P s" "t = [] \<or> \<not> P (hd t)"
  shows "takeWhile P (s @ t) = s"
  using assms by (induction s) (cases t; auto)+

text \<open>A printed number followed by anything that is not a digit reads back, in radix 10.\<close>

lemma parse_nat_str:
  assumes "t = [] \<or> \<not> is_digit 10 (hd t)"
  shows "js_parse_int 10 (nat_str 10 n @ t) = Some (int n)"
proof -
  have d: "nat_str 10 n \<noteq> []" "list_all (is_digit 10) (nat_str 10 n)" "digits_value 10 (nat_str 10 n) = n"
    using nat_str_digits [of 10 n] by simp_all
  then obtain c cs where c: "nat_str 10 n = c # cs" "is_digit 10 c"
    by (cases "nat_str 10 n") auto
  then have "js_trim_start (nat_str 10 n @ t) = nat_str 10 n @ t"
    using not_space_digit by (simp add: js_trim_start_def)
  moreover have "parse_digits 10 (nat_str 10 n @ t) = Some (int n)"
    using takeWhile_digits [OF d(2) assms] d by (simp add: parse_digits_def strip_hex_def Let_def)
  ultimately show ?thesis
    using c not_space_digit [OF c(2)] by (simp add: js_parse_int_def)
qed

lemma js_split_no: "c \<notin> set s \<Longrightarrow> js_split c s = [s]"
  by (induction s) auto

lemma js_split_nonempty [simp]: "js_split c s \<noteq> []"
  by (induction s) (auto split: list.split)

lemma js_split_append: "c \<notin> set s \<Longrightarrow> js_split c (s @ c # t) = s # js_split c t"
  by (induction s) auto

text \<open>\<open>split\<close> undoes \<open>join\<close> when the separator occurs in no piece.\<close>

lemma split_join:
  assumes "ss \<noteq> []" "\<forall>s\<in>set ss. c \<notin> set s"
  shows "js_split c (js_join [c] ss) = ss"
  using assms
proof (induction ss rule: induct_list012)
  case (2 s)
  then show ?case by (simp add: js_split_no)
next
  case (3 s t ss)
  then show ?case by (simp add: js_split_append)
qed simp

lemma js_trim_id:
  assumes "s = [] \<or> \<not> js_space (hd s) \<and> \<not> js_space (last s)"
  shows "js_trim s = s"
proof (cases s rule: rev_cases)
  case (snoc xs x)
  with assms have "dropWhile js_space s = s"
    by (metis append_is_Nil_conv dropWhile_eq_self_iff not_Cons_self2)
  moreover from snoc assms have "dropWhile js_space (rev s) = rev s"
    by simp
  ultimately show ?thesis by (simp add: js_trim_def)
qed (simp add: js_trim_def)

end
