(* ===== verification/Page_Range.thy ===== *)
theory Page_Range
  imports Js_Strings
begin

text \<open>
  \<open>packages/pdf-engine/src/utils/page-range.ts\<close> and the flattening of ranges in
  \<open>merge-split/merge.ts\<close>. The thrown error carries the offending part.
\<close>

record page_range =
  pr_start :: int
  pr_end :: int

datatype range_error = Invalid_range string int | Invalid_number string int

text \<open>One iteration of the loop over the comma-separated parts.\<close>

definition parse_part :: "int \<Rightarrow> string \<Rightarrow> range_error + page_range" where
  "parse_part pageCount part =
     (if CHR ''-'' \<in> set part then
        (let pieces = js_split CHR ''-'' part in
         case (js_parse_int 10 (pieces ! 0), js_parse_int 10 (pieces ! 1)) of
           (Some start, Some end) \<Rightarrow>
             if start < 1 \<or> end < start \<or> end > pageCount then Inl (Invalid_range part pageCount)
             else Inr \<lparr>pr_start = start, pr_end = end\<rparr>
         | _ \<Rightarrow> Inl (Invalid_range part pageCount))
      else (case js_parse_int 10 part of
           None \<Rightarrow> Inl (Invalid_number part pageCount)
         | Some page \<Rightarrow>
             if page < 1 \<or> page > pageCount then Inl (Invalid_number part pageCount)
             else Inr \<lparr>pr_start = page, pr_end = page\<rparr>))"

fun parse_parts :: "int \<Rightarrow> string list \<Rightarrow> range_error + page_range list" where
  "parse_parts n [] = Inr []"
| "parse_parts n (p # ps) =
     (case parse_part n p of Inl e \<Rightarrow> Inl e
      | Inr r \<Rightarrow> (case parse_parts n ps of Inl e \<Rightarrow> Inl e | Inr rs \<Rightarrow> Inr (r # rs)))"

definition parsePageRange :: "string \<Rightarrow> int \<Rightarrow> range_error + page_range list" where
  "parsePageRange rangeStr pageCount = parse_parts pageCount (map js_trim (js_split CHR '','' rangeStr))"

text \<open>\<open>for (let p = start; p <= end; p++) pages.push(p)\<close>\<close>

definition range_pages :: "page_range \<Rightarrow> int list" where
  "range_pages r = [pr_start r..pr_end r]"

definition rangesToPageNumbers :: "page_range list \<Rightarrow> int list" where
  "rangesToPageNumbers rs = concat (map range_pages rs)"

definition range_ok :: "int \<Rightarrow> page_range \<Rightarrow> bool" where
  "range_ok n r \<longleftrightarrow> 1 \<le> pr_start r \<and> pr_start r \<le> pr_end r \<and> pr_end r \<le> n"

section \<open>Accepted ranges are valid\<close>

lemma parse_part_ok: "parse_part n p = Inr r \<Longrightarrow> range_ok n r"
  by (auto simp: parse_part_def range_ok_def Let_def split: if_splits option.splits)

lemma parse_parts_ok: "parse_parts n ps = Inr rs \<Longrightarrow> length rs = length ps \<and> list_all (range_ok n) rs"
  by (induction ps arbitrary: rs) (auto split: sum.splits dest: parse_part_ok)

lemma range_pages_bounds: "list_all (range_ok n) rs \<Longrightarrow> p \<in> set (rangesToPageNumbers rs) \<Longrightarrow> 1 \<le> p \<and> p \<le> n"
  by (auto simp: rangesToPageNumbers_def range_pages_def range_ok_def list_all_iff)

lemma range_pages_count:
  "list_all (range_ok n) rs \<Longrightarrow>
    int (length (rangesToPageNumbers rs)) = sum_list (map (\<lambda>r. pr_end r - pr_start r + 1) rs)"
  by (induction rs) (auto simp: rangesToPageNumbers_def range_pages_def range_ok_def)

section \<open>Printing and reading back\<close>

definition show_int :: "int \<Rightarrow> string" where
  "show_int i = nat_str 10 (nat i)"

definition show_range :: "page_range \<Rightarrow> string" where
  "show_range r = (if pr_start r = pr_end r then show_int (pr_start r)
     else show_int (pr_start r) @ ''-'' @ show_int (pr_end r))"

definition show_ranges :: "page_range list \<Rightarrow> string" where
  "show_ranges rs = js_join '','' (map show_range rs)"

lemma show_int_digits: "list_all (is_digit 10) (show_int i)" "show_int i \<noteq> []"
  using nat_str_digits [of 10 "nat i"] by (simp_all add: show_int_def)

lemma show_int_no: "\<not> is_digit 10 c \<Longrightarrow> c \<notin> set (show_int i)"
  using show_int_digits(1) by (auto simp: list_all_iff)

lemma dash_comma: "\<not> is_digit 10 CHR ''-''" "\<not> is_digit 10 CHR '',''"
  using not_space_digit by blast+

lemma parse_show_int: "0 \<le> i \<Longrightarrow> t = [] \<or> \<not> is_digit 10 (hd t) \<Longrightarrow> js_parse_int 10 (show_int i @ t) = Some i"
  by (simp add: show_int_def parse_nat_str)

lemma parse_show_range:
  assumes "range_ok n r"
  shows "parse_part n (show_range r) = Inr r"
proof (cases "pr_start r = pr_end r")
  case True
  then show ?thesis
    using assms parse_show_int [of "pr_end r" "[]"] show_int_no [OF dash_comma(1)]
    by (simp add: parse_part_def show_range_def range_ok_def)
next
  case False
  have "js_split CHR ''-'' (show_int (pr_start r) @ CHR ''-'' # show_int (pr_end r))
      = [show_int (pr_start r), show_int (pr_end r)]"
    by (simp add: js_split_append js_split_no show_int_no dash_comma)
  then show ?thesis
    using False assms parse_show_int [of _ "[]"]
    by (simp add: parse_part_def show_range_def range_ok_def)
qed

lemma show_range_trim: "js_trim (show_range r) = show_range r"
proof (rule js_trim_id)
  have ns: "\<not> js_space c" if "c \<in> set (show_int i)" for c i
    using that show_int_digits(1) [of i] not_space_digit by (auto simp: list_all_iff)
  have "\<not> js_space (hd (show_int i))" "\<not> js_space (last (show_int i))" for i
    using ns [OF hd_in_set] ns [OF last_in_set] show_int_digits(2) by auto
  then show "show_range r = [] \<or> \<not> js_space (hd (show_range r)) \<and> \<not> js_space (last (show_range r))"
    using show_int_digits(2) by (simp add: show_range_def)
qed

lemma show_range_no_comma: "CHR '','' \<notin> set (show_range r)"
  using show_int_no [OF dash_comma(2)] by (simp add: show_range_def)

lemma parse_parts_show: "list_all (range_ok n) rs \<Longrightarrow> parse_parts n (map show_range rs) = Inr rs"
  by (induction rs) (auto simp: parse_show_range)

text \<open>A page-range string the parser accepts gives one range for every comma-separated part, each
  within the document and with its start not after its end; so the pages they flatten to all
  exist.\<close>

lemma page_range_sound:
  assumes "parsePageRange s n = Inr rs"
  shows "length rs = length (js_split CHR '','' s) \<and> list_all (range_ok n) rs
    \<and> (\<forall>p\<in>set (rangesToPageNumbers rs). 1 \<le> p \<and> p \<le> n)"
  using parse_parts_ok [OF assms [unfolded parsePageRange_def]] range_pages_bounds by auto

lemma page_range_sound_witness:
  "parsePageRange '' 1-3, 5 '' 9 = Inr [\<lparr>pr_start = 1, pr_end = 3\<rparr>, \<lparr>pr_start = 5, pr_end = 5\<rparr>]
   \<and> list_all (\<lambda>p. 1 \<le> p \<and> p \<le> 9) (rangesToPageNumbers [\<lparr>pr_start = 1, pr_end = 3\<rparr>, \<lparr>pr_start = 5, pr_end = 5\<rparr>])"
proof -
  have "parsePageRange '' 1-3, 5 '' 9 = Inr [\<lparr>pr_start = 1, pr_end = 3\<rparr>, \<lparr>pr_start = 5, pr_end = 5\<rparr>]"
    by code_simp
  with page_range_sound [OF this] show ?thesis by (simp add: list_all_iff)
qed

text \<open>Printing valid ranges in the documented format (\<open>a-b\<close>, or \<open>a\<close> for a single page, joined
  by commas) and parsing the string gives the same ranges back.\<close>

lemma page_range_roundtrip:
  assumes "rs \<noteq> []" and "list_all (range_ok n) rs"
  shows "parsePageRange (show_ranges rs) n = Inr rs"
proof -
  have "js_split CHR '','' (show_ranges rs) = map show_range rs"
    using assms(1) show_range_no_comma by (simp add: show_ranges_def split_join)
  then show ?thesis
    using parse_parts_show [OF assms(2)] by (simp add: parsePageRange_def show_range_trim o_def)
qed

lemma page_range_roundtrip_witness:
  "parsePageRange ''1-3,7,10-12'' 12 =
     Inr [\<lparr>pr_start = 1, pr_end = 3\<rparr>, \<lparr>pr_start = 7, pr_end = 7\<rparr>, \<lparr>pr_start = 10, pr_end = 12\<rparr>]"
proof -
  let ?rs = "[\<lparr>pr_start = 1, pr_end = 3\<rparr>, \<lparr>pr_start = 7, pr_end = 7\<rparr>, \<lparr>pr_start = 10, pr_end = 12\<rparr>] :: page_range list"
  have "show_ranges ?rs = ''1-3,7,10-12''"
    by code_simp
  then show ?thesis
    using page_range_roundtrip [of ?rs 12] by (simp add: range_ok_def)
qed

end
