(* ===== verification/Color.thy ===== *)
theory Color
  imports Js_Strings "HOL-Library.Word"
begin

text \<open>
  \<open>packages/pdf-engine/src/utils/color.ts\<close>: hex colours to packed 32-bit integers, to triples in
  \<open>0..1\<close>, and back. Bitwise operators work on 32-bit words, and \<open>>>> 0\<close> reads a word unsigned.
\<close>

unbundle bit_operations_syntax

definition clamp255 :: "jsnum option \<Rightarrow> int" where
  "clamp255 n = (case n of None \<Rightarrow> 0 | Some x \<Rightarrow>
     if x < 0 then 0 else if x > 255 then 255 else js_round x)"

text \<open>\<open>clean.length === 3 ? every digit doubled : clean\<close>\<close>

definition full_hex :: "string \<Rightarrow> string" where
  "full_hex hex = (let clean = remove_first CHR ''#'' hex
     in if length clean = 3 then concat (map (\<lambda>c. [c, c]) clean) else clean)"

definition hex_channel :: "nat \<Rightarrow> string \<Rightarrow> int" where
  "hex_channel i hex =
     clamp255 (map_option of_int (js_parse_int 16 (substring i (i + 2) (full_hex hex))))"

definition hexToPackedRgb :: "string \<Rightarrow> int" where
  "hexToPackedRgb hex =
     (let r = word_of_int (hex_channel 0 hex) :: 32 word;
          g = word_of_int (hex_channel 2 hex);
          b = word_of_int (hex_channel 4 hex)
      in uint (push_bit 16 r OR push_bit 8 g OR b))"

definition toHex :: "jsnum \<Rightarrow> string" where
  "toHex n = pad_start 2 CHR ''0'' (nat_str 16 (nat (clamp255 (Some (n * 255)))))"

definition rgbToHex :: "jsnum \<Rightarrow> jsnum \<Rightarrow> jsnum \<Rightarrow> string" where
  "rgbToHex r g b = ''#'' @ toHex r @ toHex g @ toHex b"

definition hexToRgb01 :: "string \<Rightarrow> jsnum \<times> jsnum \<times> jsnum" where
  "hexToRgb01 hex = (of_int (hex_channel 0 hex) / 255, of_int (hex_channel 2 hex) / 255,
     of_int (hex_channel 4 hex) / 255)"

section \<open>Channels\<close>

lemma js_round_mono: "x \<le> y \<Longrightarrow> js_round x \<le> js_round y"
  unfolding js_round_def by (rule floor_mono) simp

lemma js_round_int [simp]: "js_round (of_int i) = i"
proof -
  have "\<lfloor>of_int i + 1 / 2 :: rat\<rfloor> = i"
    by (rule floor_unique) simp_all
  then show ?thesis by (simp add: js_round_def)
qed

lemma clamp255_bounds: "0 \<le> clamp255 x \<and> clamp255 x \<le> 255"
proof (cases x)
  case (Some y)
  have "0 \<le> js_round y" if "0 \<le> y" using that js_round_mono [of 0 y] js_round_int [of 0] by simp
  moreover have "js_round y \<le> 255" if "y \<le> 255" using that js_round_mono [of y 255] js_round_int [of 255] by simp
  ultimately show ?thesis using Some by (auto simp: clamp255_def)
qed (simp add: clamp255_def)

lemma clamp255_byte: "0 \<le> i \<Longrightarrow> i \<le> 255 \<Longrightarrow> clamp255 (Some (of_int i)) = i"
  by (simp add: clamp255_def)

lemma hex_channel_bounds: "0 \<le> hex_channel k s \<and> hex_channel k s \<le> 255"
  unfolding hex_channel_def by (rule clamp255_bounds)

text \<open>The packed form keeps the three channels apart: no carry, no sign, 24 bits.\<close>

lemma packed_value:
  "hexToPackedRgb s = hex_channel 0 s * 65536 + hex_channel 2 s * 256 + hex_channel 4 s"
proof -
  define r g b where "r = hex_channel 0 s" and "g = hex_channel 2 s" and "b = hex_channel 4 s"
  have bnd: "0 \<le> r" "r < 2 ^ 8" "0 \<le> g" "g < 2 ^ 8" "0 \<le> b" "b < 2 ^ 8"
    using hex_channel_bounds [of 0 s] hex_channel_bounds [of 2 s] hex_channel_bounds [of 4 s]
    by (simp_all add: r_def g_def b_def)
  have or_add: "push_bit n x OR y = push_bit n x + y" if "0 \<le> y" "y < 2 ^ n" for x y :: int and n
  proof -
    have "push_bit n x AND y = 0"
    proof (rule bit_eqI)
      fix k
      have "\<not> bit y k" if "n \<le> k"
        using that \<open>0 \<le> y\<close> \<open>y < 2 ^ n\<close>
        by (metis bit_take_bit_iff linorder_not_less take_bit_int_eq_self_iff)
      then show "bit (push_bit n x AND y) k = bit 0 k"
        by (auto simp: bit_and_iff bit_push_bit_iff)
    qed
    then show ?thesis by (simp add: disjunctive_add_eq_or)
  qed
  have inner: "push_bit 8 g OR b = g * 256 + b"
    using bnd or_add [of b 8 g] by (simp add: push_bit_eq_mult)
  have "push_bit 16 r OR (push_bit 8 g OR b) = r * 65536 + (g * 256 + b)"
    unfolding inner using bnd or_add [of "g * 256 + b" 16 r] by (simp add: push_bit_eq_mult)
  then have all: "push_bit 16 r OR push_bit 8 g OR b = r * 65536 + g * 256 + b"
    by (simp only: or.assoc add.assoc)
  have w: "push_bit 16 (word_of_int r :: 32 word) OR push_bit 8 (word_of_int g) OR word_of_int b
      = word_of_int (push_bit 16 r OR push_bit 8 g OR b)"
    by (rule bit_word_eqI)
      (auto simp: bit_or_iff bit_push_bit_iff bit_word_of_int_iff)
  have "uint (word_of_int (r * 65536 + g * 256 + b) :: 32 word) = r * 65536 + g * 256 + b"
    by (subst uint_word_of_int) (rule mod_pos_pos_trivial, use bnd in simp_all)
  then show ?thesis
    by (simp add: hexToPackedRgb_def Let_def w all flip: r_def g_def b_def)
qed

section \<open>Round trips\<close>

lemma toHex_byte:
  assumes "k < 256"
  shows "toHex (of_nat k / 255) = [digit_char (k div 16), digit_char (k mod 16)]"
proof -
  have "clamp255 (Some (of_nat k / 255 * 255)) = int k"
    using clamp255_byte [of "int k"] assms by simp
  then have t: "toHex (of_nat k / 255) = pad_start 2 CHR ''0'' (nat_str 16 k)"
    by (simp add: toHex_def)
  show ?thesis
  proof (cases "k < 16")
    case True
    moreover have "digit_char 0 = CHR ''0''" by code_simp
    ultimately show ?thesis
      by (simp add: t nat_str.simps [of 16 k] pad_start_def)
  next
    case False
    moreover have "k div 16 < 16" using assms by linarith
    ultimately show ?thesis
      by (simp add: t nat_str.simps [of 16 k] nat_str.simps [of 16 "k div 16"] pad_start_def)
  qed
qed

lemma digit_char_not: "d < 16 \<Longrightarrow> digit_char d \<notin> {CHR ''#'', CHR ''x'', CHR ''X'', CHR ''-'', CHR ''+''}"
  by (auto simp: digit_char_def dest!: arg_cong [where f = "of_char :: char \<Rightarrow> nat"] split: if_splits)

lemma parse_hex_byte:
  assumes "k < 256"
  shows "js_parse_int 16 [digit_char (k div 16), digit_char (k mod 16)] = Some (int k)"
proof -
  have d: "k div 16 < 16" "k mod 16 < 16" using assms by auto
  then have dg: "is_digit 16 (digit_char (k div 16))" "is_digit 16 (digit_char (k mod 16))"
    by (simp_all add: is_digit_char)
  have v: "digits_value 16 [digit_char (k div 16), digit_char (k mod 16)] = k"
    using d by (simp add: digits_value_def digit_val_char)
  have "\<not> js_space (digit_char (k div 16))"
    using dg(1) by (auto simp: is_digit_def digit_val_def js_space_def Let_def split: if_splits)
  then show ?thesis
    using dg v digit_char_not [OF d(1)] digit_char_not [OF d(2)]
    by (simp add: js_parse_int_def js_trim_start_def parse_digits_def strip_hex_def)
qed

lemma channels_of_rgbToHex:
  assumes "r < 256" "g < 256" "b < 256"
  defines "s \<equiv> rgbToHex (of_nat r / 255) (of_nat g / 255) (of_nat b / 255)"
  shows "hex_channel 0 s = int r" "hex_channel 2 s = int g" "hex_channel 4 s = int b"
proof -
  let ?d = "\<lambda>k. [digit_char (k div 16), digit_char (k mod 16)]"
  have full: "full_hex s = ?d r @ ?d g @ ?d b"
    using assms by (simp add: full_hex_def rgbToHex_def toHex_byte)
  have sub: "substring 0 2 (full_hex s) = ?d r" "substring 2 4 (full_hex s) = ?d g"
    "substring 4 6 (full_hex s) = ?d b"
    by (simp_all add: full substring_def)
  show "hex_channel 0 s = int r" "hex_channel 2 s = int g" "hex_channel 4 s = int b"
    using sub assms(1-3) clamp255_byte [of "int r"] clamp255_byte [of "int g"] clamp255_byte [of "int b"]
    by (simp_all add: hex_channel_def parse_hex_byte numeral_2_eq_2 [symmetric])
qed

text \<open>A colour printed by \<open>rgbToHex\<close> from byte-valued channels reads back exactly, both packed
  into one integer with the channels in their bytes and as a triple in \<open>0..1\<close>.\<close>

lemma colour_roundtrip:
  assumes "r < 256" and "g < 256" and "b < 256"
  shows "hexToPackedRgb (rgbToHex (of_nat r / 255) (of_nat g / 255) (of_nat b / 255))
      = int r * 65536 + int g * 256 + int b
    \<and> hexToRgb01 (rgbToHex (of_nat r / 255) (of_nat g / 255) (of_nat b / 255))
      = (of_nat r / 255, of_nat g / 255, of_nat b / 255)"
  using channels_of_rgbToHex [OF assms] by (simp add: packed_value hexToRgb01_def)

lemma colour_roundtrip_witness:
  "hexToPackedRgb (rgbToHex (255 / 255) (128 / 255) (0 / 255)) = 16744448"
  using colour_roundtrip [of 255 128 0] by simp

text \<open>Whatever the input string, the packed colour is a 24-bit number and the triple lies in
  the unit cube: malformed channels become zero instead of failing.\<close>

lemma colour_bounds:
  "0 \<le> hexToPackedRgb s \<and> hexToPackedRgb s < 2 ^ 24
   \<and> (case hexToRgb01 s of (r, g, b) \<Rightarrow> 0 \<le> r \<and> r \<le> 1 \<and> 0 \<le> g \<and> g \<le> 1 \<and> 0 \<le> b \<and> b \<le> 1)"
  using hex_channel_bounds [of 0 s] hex_channel_bounds [of 2 s] hex_channel_bounds [of 4 s]
  by (simp add: packed_value hexToRgb01_def)

end
