(* ===== verification/Coordinates.thy ===== *)
theory Coordinates
  imports Elements
begin

text \<open>
  \<open>packages/pdf-engine/src/utils/coordinates.ts\<close>: rectangles between web space (origin top left,
  y down) and PDF space (origin bottom left, y up), scaling, and the 96/72 dpi conversions.
\<close>

definition webToPdf ::
  "jsnum \<Rightarrow> jsnum \<Rightarrow> jsnum \<Rightarrow> jsnum \<Rightarrow> jsnum \<Rightarrow> jsnum option \<Rightarrow> page_rotation option \<Rightarrow> bounds" where
  "webToPdf x y width height pageHeight pageWidth rotation =
     (let rot = (case rotation of None \<Rightarrow> R0 | Some r \<Rightarrow> r) in
      if rot = R90 \<or> rot = R270 then
        (let effectiveH = (case pageWidth of None \<Rightarrow> pageHeight | Some w \<Rightarrow> w)
         in \<lparr>b_x = x, b_y = effectiveH - y - height, b_width = width, b_height = height\<rparr>)
      else if rot = R180 then
        \<lparr>b_x = pageHeight - x - width, b_y = y, b_width = width, b_height = height\<rparr>
      else \<lparr>b_x = x, b_y = pageHeight - y - height, b_width = width, b_height = height\<rparr>)"

definition pdfToWeb :: "jsnum \<Rightarrow> jsnum \<Rightarrow> jsnum \<Rightarrow> jsnum \<Rightarrow> jsnum \<Rightarrow> bounds" where
  "pdfToWeb x y width height pageHeight =
     \<lparr>b_x = x, b_y = pageHeight - y - height, b_width = width, b_height = height\<rparr>"

definition scaleRect :: "bounds \<Rightarrow> jsnum \<Rightarrow> bounds" where
  "scaleRect b k = \<lparr>b_x = b_x b * k, b_y = b_y b * k, b_width = b_width b * k,
     b_height = b_height b * k\<rparr>"

definition webPixelsToPdfPoints :: "jsnum \<Rightarrow> jsnum \<Rightarrow> jsnum" where
  "webPixelsToPdfPoints pixels dpi = pixels * (72 / dpi)"

definition pdfPointsToWebPixels :: "jsnum \<Rightarrow> jsnum \<Rightarrow> jsnum" where
  "pdfPointsToWebPixels points dpi = points * (dpi / 72)"

text \<open>A rectangle lies on a page of the given width and height.\<close>

definition on_page :: "jsnum \<Rightarrow> jsnum \<Rightarrow> bounds \<Rightarrow> bool" where
  "on_page w h b \<longleftrightarrow> 0 \<le> b_x b \<and> 0 \<le> b_y b \<and> b_x b + b_width b \<le> w \<and> b_y b + b_height b \<le> h"

lemma dpi_roundtrip:
  "dpi \<noteq> 0 \<Longrightarrow> pdfPointsToWebPixels (webPixelsToPdfPoints p dpi) dpi = p"
  by (simp add: pdfPointsToWebPixels_def webPixelsToPdfPoints_def)

lemma scale_roundtrip: "k \<noteq> 0 \<Longrightarrow> scaleRect (scaleRect b k) (1 / k) = b"
  by (simp add: scaleRect_def)

text \<open>On a page without rotation the two conversions are inverse to each other, keep the size,
  and send a rectangle on the page to a rectangle on the page.\<close>

lemma web_pdf_inverse:
  fixes b :: bounds and W H :: jsnum
  defines "p \<equiv> webToPdf (b_x b) (b_y b) (b_width b) (b_height b) H (Some W) (Some R0)"
  shows "pdfToWeb (b_x p) (b_y p) (b_width p) (b_height p) H = b
    \<and> b_width p = b_width b \<and> b_height p = b_height b \<and> on_page W H p = on_page W H b"
  unfolding p_def by (auto simp: webToPdf_def pdfToWeb_def on_page_def Let_def)

text \<open>On a page rotated by 180 degrees the code mirrors x in the page HEIGHT: on a portrait page
  a rectangle on the page lands right of the position its mirror image in the page width has,
  by the difference of height and width; it lands off the page whenever its left edge is closer
  to the origin than that difference.\<close>

lemma rotated_180_off_by_difference:
  fixes b :: bounds and W H :: jsnum
  defines "p \<equiv> webToPdf (b_x b) (b_y b) (b_width b) (b_height b) H (Some W) (Some R180)"
  assumes "on_page W H b" and "W < H"
  shows "b_x p = (W - b_x b - b_width b) + (H - W) \<and> b_y p = b_y b
    \<and> (on_page W H p \<longleftrightarrow> H - W \<le> b_x b)"
  using assms(2,3) unfolding p_def by (auto simp: webToPdf_def on_page_def Let_def)

lemma rotated_180_off_by_difference_witness:
  "on_page 595 842 \<lparr>b_x = 10, b_y = 20, b_width = 100, b_height = 50\<rparr>
   \<and> \<not> on_page 595 842 (webToPdf 10 20 100 50 842 (Some 595) (Some R180))"
proof -
  let ?b = "\<lparr>b_x = 10, b_y = 20, b_width = 100, b_height = 50\<rparr>"
  have "on_page 595 842 ?b" by (simp add: on_page_def)
  moreover from rotated_180_off_by_difference [OF this]
  have "\<not> on_page 595 842 (webToPdf (b_x ?b) (b_y ?b) (b_width ?b) (b_height ?b) 842 (Some 595) (Some R180))"
    by simp
  ultimately show ?thesis by simp
qed

end
