(* ===== verification/Permissions.thy ===== *)
theory Permissions
  imports Prelude "HOL-Library.Word"
begin

text \<open>
  The permission bits of \<open>packages/pdf-engine/src/encrypt\<close>: \<open>computePermissionFlags\<close>
  (\<open>pdf-encrypt.ts\<close>) and \<open>parsePermissionFlags\<close> (\<open>permissions.ts\<close>). JavaScript's bitwise operators
  work on 32-bit two's complement integers, here \<open>32 word\<close>; the number a caller sees is \<open>sint\<close>.
\<close>

unbundle bit_operations_syntax

record permissions =
  pm_print :: bool
  pm_modify :: bool
  pm_copy :: bool
  pm_annotate :: bool
  pm_fillForms :: bool
  pm_extract :: bool
  pm_assemble :: bool
  pm_printHighQuality :: bool

text \<open>\<open>Partial<DocumentPermissions>\<close>.\<close>

record partial_permissions =
  pp_print :: "bool option"
  pp_modify :: "bool option"
  pp_copy :: "bool option"
  pp_annotate :: "bool option"
  pp_fillForms :: "bool option"
  pp_extract :: "bool option"
  pp_assemble :: "bool option"
  pp_printHighQuality :: "bool option"

definition ALL_PERMISSIONS_ALLOWED :: permissions where
  "ALL_PERMISSIONS_ALLOWED = \<lparr>pm_print = True, pm_modify = True, pm_copy = True,
     pm_annotate = True, pm_fillForms = True, pm_extract = True, pm_assemble = True,
     pm_printHighQuality = True\<rparr>"

text \<open>\<open>if (p !== false) flags |= bit\<close>\<close>

definition grant :: "bool option \<Rightarrow> 32 word \<Rightarrow> 32 word \<Rightarrow> 32 word" where
  "grant p b flags = (if p \<noteq> Some False then flags OR b else flags)"

definition permission_word :: "partial_permissions \<Rightarrow> 32 word" where
  "permission_word perms =
     (let flags = - 4096;
          flags = grant (pp_print perms) 0x4 flags;
          flags = grant (pp_modify perms) 0x8 flags;
          flags = grant (pp_copy perms) 0x10 flags;
          flags = grant (pp_annotate perms) 0x20 flags;
          flags = grant (pp_fillForms perms) 0x100 flags;
          flags = grant (pp_extract perms) 0x200 flags;
          flags = grant (pp_assemble perms) 0x400 flags;
          flags = grant (pp_printHighQuality perms) 0x800 flags
      in flags)"

definition computePermissionFlags :: "partial_permissions \<Rightarrow> int" where
  "computePermissionFlags perms = sint (permission_word perms)"

definition parsePermissionFlags :: "int \<Rightarrow> permissions" where
  "parsePermissionFlags n =
     (let flags = word_of_int n :: 32 word in
      \<lparr>pm_print = (flags AND 0x4 \<noteq> 0), pm_modify = (flags AND 0x8 \<noteq> 0),
       pm_copy = (flags AND 0x10 \<noteq> 0), pm_annotate = (flags AND 0x20 \<noteq> 0),
       pm_fillForms = (flags AND 0x100 \<noteq> 0), pm_extract = (flags AND 0x200 \<noteq> 0),
       pm_assemble = (flags AND 0x400 \<noteq> 0), pm_printHighQuality = (flags AND 0x800 \<noteq> 0)\<rparr>)"

section \<open>The bits\<close>

definition granted :: "bool option \<Rightarrow> bool" where
  "granted p = (p \<noteq> Some False)"

text \<open>What a partial request means: an absent permission is allowed.\<close>

definition effective :: "partial_permissions \<Rightarrow> permissions" where
  "effective p = \<lparr>pm_print = granted (pp_print p), pm_modify = granted (pp_modify p),
     pm_copy = granted (pp_copy p), pm_annotate = granted (pp_annotate p),
     pm_fillForms = granted (pp_fillForms p), pm_extract = granted (pp_extract p),
     pm_assemble = granted (pp_assemble p), pm_printHighQuality = granted (pp_printHighQuality p)\<rparr>"

definition base_word :: "32 word" where
  "base_word = - 4096"

text \<open>The word as a function of eight booleans, small enough to evaluate on all of them.\<close>

definition bits_word :: "bool \<Rightarrow> bool \<Rightarrow> bool \<Rightarrow> bool \<Rightarrow> bool \<Rightarrow> bool \<Rightarrow> bool \<Rightarrow> bool \<Rightarrow> 32 word" where
  "bits_word a b c d e f g h = base_word OR (if a then 0x4 else 0) OR (if b then 0x8 else 0)
     OR (if c then 0x10 else 0) OR (if d then 0x20 else 0) OR (if e then 0x100 else 0)
     OR (if f then 0x200 else 0) OR (if g then 0x400 else 0) OR (if h then 0x800 else 0)"

lemma permission_word_bits:
  "permission_word p = bits_word (granted (pp_print p)) (granted (pp_modify p)) (granted (pp_copy p))
     (granted (pp_annotate p)) (granted (pp_fillForms p)) (granted (pp_extract p))
     (granted (pp_assemble p)) (granted (pp_printHighQuality p))"
  by (simp add: permission_word_def bits_word_def grant_def granted_def base_word_def Let_def or.assoc)

lemma bits_word_masks:
  "(bits_word a b c d e f g h AND 0x4 \<noteq> 0) = a" "(bits_word a b c d e f g h AND 0x8 \<noteq> 0) = b"
  "(bits_word a b c d e f g h AND 0x10 \<noteq> 0) = c" "(bits_word a b c d e f g h AND 0x20 \<noteq> 0) = d"
  "(bits_word a b c d e f g h AND 0x100 \<noteq> 0) = e" "(bits_word a b c d e f g h AND 0x200 \<noteq> 0) = f"
  "(bits_word a b c d e f g h AND 0x400 \<noteq> 0) = g" "(bits_word a b c d e f g h AND 0x800 \<noteq> 0) = h"
  by (simp_all add: bits_word_def base_word_def bit.conj_disj_distrib2)

lemma bits_word_reserved:
  "bits_word a b c d e f g h AND 0xC3 = 0" "bits_word a b c d e f g h AND 0xFFFFF000 = 0xFFFFF000"
  by (simp_all add: bits_word_def base_word_def bit.conj_disj_distrib2)

lemma sint_word: "word_of_int (sint (w :: 32 word)) = w"
  by simp

lemma flags_roundtrip: "parsePermissionFlags (computePermissionFlags p) = effective p"
  unfolding parsePermissionFlags_def computePermissionFlags_def Let_def sint_word
    permission_word_bits bits_word_masks effective_def ..

text \<open>C15: Decoding the computed \<open>/P\<close> value gives the requested permissions, an absent one being
  allowed. The reserved bits are as the standard demands whatever the request: bits 1, 2, 7 and 8
  clear, bits 13 to 32 set; so the number is negative, and granting everything gives -196.\<close>

theorem permission_flags_roundtrip:
  "parsePermissionFlags (computePermissionFlags p) = effective p
   \<and> word_of_int (computePermissionFlags p) AND (0xC3 :: 32 word) = 0
   \<and> word_of_int (computePermissionFlags p) AND (0xFFFFF000 :: 32 word) = 0xFFFFF000
   \<and> (effective p = ALL_PERMISSIONS_ALLOWED \<longleftrightarrow> computePermissionFlags p = -196)"
proof (intro conjI)
  show rt: "parsePermissionFlags (computePermissionFlags p) = effective p"
    by (rule flags_roundtrip)
  show "word_of_int (computePermissionFlags p) AND (0xC3 :: 32 word) = 0"
    unfolding computePermissionFlags_def sint_word permission_word_bits by (rule bits_word_reserved)
  show "word_of_int (computePermissionFlags p) AND (0xFFFFF000 :: 32 word) = 0xFFFFF000"
    unfolding computePermissionFlags_def sint_word permission_word_bits by (rule bits_word_reserved)
  show "effective p = ALL_PERMISSIONS_ALLOWED \<longleftrightarrow> computePermissionFlags p = -196"
  proof
    assume "effective p = ALL_PERMISSIONS_ALLOWED"
    then have "permission_word p = bits_word True True True True True True True True"
      by (simp add: permission_word_bits effective_def ALL_PERMISSIONS_ALLOWED_def)
    also have "\<dots> = - 196"
      by (simp add: bits_word_def base_word_def)
    finally show "computePermissionFlags p = -196"
      by (simp add: computePermissionFlags_def)
  next
    assume "computePermissionFlags p = -196"
    then have "effective p = parsePermissionFlags (-196)"
      using rt by simp
    also have "\<dots> = ALL_PERMISSIONS_ALLOWED"
      by (simp add: parsePermissionFlags_def ALL_PERMISSIONS_ALLOWED_def)
    finally show "effective p = ALL_PERMISSIONS_ALLOWED" .
  qed
qed

end
