(* ===== verification/Engine.thy ===== *)
theory Engine
  imports Prelude
begin

text \<open>
  The interface of the WASM engine \<open>@qrcommunication/gigapdf-lib\<close>, whose code is not part of the
  repository: a record of functions, a parameter of every definition that uses it. A document
  handle is an index into a heap of live documents, so that use after free and a second
  \<open>close()\<close> (which traps the shared heap, says \<open>document-handle.ts\<close>) are visible. An effect
  maps a world to an error or a value and the next world; \<open>eff_finally\<close> is
  \<open>try ... finally\<close>. The laws at the end state what the callers rely on.
\<close>

datatype pdf_error =
    Parse_error string
  | Corrupted_error string
  | Encrypted_error
  | Invalid_password
  | Page_out_of_range int int
  | Engine_error string string
  | Plain_error string

record outline_entry =
  ol_level :: nat
  ol_title :: string
  ol_page :: "int option"

datatype crypt_algorithm = Aes128 | Aes256

record page_info =
  pi_width :: jsnum
  pi_height :: jsnum
  pi_rotation :: int

text \<open>A method that may throw returns the message on the left.\<close>

record ('b, 'd) engine =
  en_open :: "'b \<Rightarrow> string + 'd"
  en_openEncrypted :: "'b \<Rightarrow> string \<Rightarrow> string + 'd option"
  en_encryptionInfo :: "'b \<Rightarrow> string + bool \<times> int"
  en_pageCount :: "'d \<Rightarrow> int"
  en_pageInfo :: "int \<Rightarrow> 'd \<Rightarrow> page_info"
  en_extractPages :: "int list \<Rightarrow> 'd \<Rightarrow> string + 'b"
  en_appendPages :: "'b \<Rightarrow> 'd \<Rightarrow> string + 'd"
  en_outline :: "'d \<Rightarrow> outline_entry list"
  en_setOutline :: "outline_entry list \<Rightarrow> 'd \<Rightarrow> 'd"
  en_save :: "'d \<Rightarrow> string + 'b"
  en_saveCompressed :: "'d \<Rightarrow> string + 'b"
  en_saveEncrypted :: "string \<Rightarrow> string \<Rightarrow> crypt_algorithm \<Rightarrow> string option \<Rightarrow> int \<Rightarrow> 'd \<Rightarrow> string + 'b"
  en_addPage :: "jsnum \<Rightarrow> jsnum \<Rightarrow> int \<Rightarrow> 'd \<Rightarrow> 'd"
  en_deletePage :: "int \<Rightarrow> 'd \<Rightarrow> 'd"
  en_movePage :: "int \<Rightarrow> int \<Rightarrow> 'd \<Rightarrow> 'd"
  en_rotatePage :: "int \<Rightarrow> int \<Rightarrow> 'd \<Rightarrow> 'd"
  en_copyPage :: "int \<Rightarrow> 'd \<Rightarrow> 'd"
  en_resizePage :: "int \<Rightarrow> jsnum \<Rightarrow> jsnum \<Rightarrow> 'd \<Rightarrow> 'd"
  en_getMetadata :: "string \<Rightarrow> 'd \<Rightarrow> string option"
  en_setMetadata :: "string \<Rightarrow> string \<Rightarrow> 'd \<Rightarrow> 'd"

section \<open>Worlds and effects\<close>

record 'd world =
  wd_docs :: "(nat, 'd) jsmap"
  wd_next :: nat
  wd_trapped :: bool
  wd_dirty :: "(nat, bool) jsmap"
  wd_closed :: "nat list"

type_synonym ('d, 'a) eff = "'d world \<Rightarrow> (pdf_error + 'a) \<times> 'd world"

definition eff_return :: "'a \<Rightarrow> ('d, 'a) eff" where
  "eff_return a w = (Inr a, w)"

definition eff_throw :: "pdf_error \<Rightarrow> ('d, 'a) eff" where
  "eff_throw e w = (Inl e, w)"

definition eff_bind :: "('d, 'a) eff \<Rightarrow> ('a \<Rightarrow> ('d, 'c) eff) \<Rightarrow> ('d, 'c) eff" where
  "eff_bind m f w = (case m w of (Inl e, w1) \<Rightarrow> (Inl e, w1) | (Inr a, w1) \<Rightarrow> f a w1)"

definition eff_finally :: "('d, 'a) eff \<Rightarrow> ('d world \<Rightarrow> 'd world) \<Rightarrow> ('d, 'a) eff" where
  "eff_finally m fin w = (case m w of (r, w1) \<Rightarrow> (r, fin w1))"

definition eff_try :: "('d, 'a) eff \<Rightarrow> (pdf_error \<Rightarrow> ('d, 'a) eff) \<Rightarrow> ('d, 'a) eff" where
  "eff_try m h w = (case m w of (Inl e, w1) \<Rightarrow> h e w1 | r \<Rightarrow> r)"

definition eff_lift :: "(string \<Rightarrow> pdf_error) \<Rightarrow> string + 'a \<Rightarrow> ('d, 'a) eff" where
  "eff_lift wrap r w = (case r of Inl msg \<Rightarrow> (Inl (wrap msg), w) | Inr a \<Rightarrow> (Inr a, w))"

definition alloc_doc :: "'d \<Rightarrow> ('d, nat) eff" where
  "alloc_doc d w = (Inr (wd_next w),
     w\<lparr>wd_docs := AList.update (wd_next w) d (wd_docs w), wd_next := Suc (wd_next w)\<rparr>)"

definition open_doc :: "('b, 'd) engine \<Rightarrow> (string \<Rightarrow> pdf_error) \<Rightarrow> 'b \<Rightarrow> ('d, nat) eff" where
  "open_doc E wrap b = eff_bind (eff_lift wrap (en_open E b)) alloc_doc"

definition close_doc :: "nat \<Rightarrow> 'd world \<Rightarrow> 'd world" where
  "close_doc k w = (if map_has (wd_docs w) k then w\<lparr>wd_docs := AList.delete k (wd_docs w)\<rparr>
     else w\<lparr>wd_trapped := True\<rparr>)"

text \<open>A call on a freed handle traps.\<close>

definition trap :: "('d, 'a) eff" where
  "trap w = (Inl (Plain_error ''unreachable''), w\<lparr>wd_trapped := True\<rparr>)"

definition read_doc :: "nat \<Rightarrow> ('d \<Rightarrow> 'a) \<Rightarrow> ('d, 'a) eff" where
  "read_doc k f w = (case map_get (wd_docs w) k of None \<Rightarrow> trap w | Some d \<Rightarrow> (Inr (f d), w))"

definition call_doc :: "nat \<Rightarrow> ('d \<Rightarrow> string + 'a) \<Rightarrow> ('d, 'a) eff" where
  "call_doc k f w = (case map_get (wd_docs w) k of None \<Rightarrow> trap w
     | Some d \<Rightarrow> (case f d of Inl msg \<Rightarrow> (Inl (Plain_error msg), w) | Inr a \<Rightarrow> (Inr a, w)))"

definition mutate_doc :: "nat \<Rightarrow> ('d \<Rightarrow> string + 'd) \<Rightarrow> ('d, unit) eff" where
  "mutate_doc k f w = (case map_get (wd_docs w) k of None \<Rightarrow> trap w
     | Some d \<Rightarrow> (case f d of Inl msg \<Rightarrow> (Inl (Plain_error msg), w)
        | Inr d' \<Rightarrow> (Inr (), w\<lparr>wd_docs := AList.update k d' (wd_docs w)\<rparr>)))"

lemma eff_simps [simp]:
  "eff_bind (eff_return a) f = f a" "eff_bind (eff_throw e) f = eff_throw e"
  "eff_bind (eff_lift wr (Inl m)) f = eff_throw (wr m)"
  "eff_bind (eff_lift wr (Inr a)) f = f a"
  by (auto simp: fun_eq_iff eff_bind_def eff_return_def eff_throw_def eff_lift_def)

section \<open>No leak, no double free\<close>

text \<open>
  A world is well-formed when its handles are below the next one. An effect frames a set of
  handles when it touches no other, frees none of them and never traps while they are live.
\<close>

definition world_ok :: "'d world \<Rightarrow> bool" where
  "world_ok w \<longleftrightarrow> wf_map (wd_docs w) \<and> (\<forall>k. map_has (wd_docs w) k \<longrightarrow> k < wd_next w)"

definition uses_only :: "nat \<Rightarrow> ('d, 'a) eff \<Rightarrow> bool" where
  "uses_only k m \<longleftrightarrow> (\<forall>w. world_ok w \<longrightarrow> map_has (wd_docs w) k \<longrightarrow>
     (let w' = snd (m w) in world_ok w' \<and> map_has (wd_docs w') k \<and> wd_trapped w' = wd_trapped w
        \<and> AList.delete k (wd_docs w') = AList.delete k (wd_docs w)))"

definition balanced :: "('d, 'a) eff \<Rightarrow> bool" where
  "balanced m \<longleftrightarrow> (\<forall>w. world_ok w \<longrightarrow>
     (let w' = snd (m w) in world_ok w' \<and> wd_trapped w' = wd_trapped w \<and> wd_docs w' = wd_docs w))"

lemma delete_update_same: "AList.delete k (AList.update k v m) = AList.delete k m"
  by (induction m) auto

lemma delete_fresh: "\<not> map_has m k \<Longrightarrow> AList.delete k m = m"
  by (simp add: map_has_def delete_id map_of_eq_None_iff)

lemma uses_only_basic:
  "uses_only k (eff_return a)" "uses_only k (eff_throw e)" "uses_only k (eff_lift wr r)"
  "uses_only k (read_doc k f)" "uses_only k (call_doc k g)"
  by (auto simp: uses_only_def eff_return_def eff_throw_def eff_lift_def read_doc_def call_doc_def
      map_has_def Let_def split: sum.splits)

lemma uses_only_mutate: "uses_only k (mutate_doc k f)"
  by (auto simp: uses_only_def mutate_doc_def map_has_def Let_def world_ok_def js_simps
      delete_update_same split: sum.splits if_splits)

lemma uses_only_bind:
  fixes m :: "('d, 'a) eff" and f :: "'a \<Rightarrow> ('d, 'c) eff"
  assumes "uses_only k m" "\<And>a. uses_only k (f a)"
  shows "uses_only k (eff_bind m f)"
  unfolding uses_only_def Let_def
proof (intro allI impI)
  fix w :: "'d world" assume w: "world_ok w" "map_has (wd_docs w) k"
  obtain r w1 where m: "m w = (r, w1)" by fastforce
  then have 1: "world_ok w1" "map_has (wd_docs w1) k" "wd_trapped w1 = wd_trapped w"
    "AList.delete k (wd_docs w1) = AList.delete k (wd_docs w)"
    using assms(1) w by (auto simp: uses_only_def Let_def dest!: spec [of _ w])
  show "world_ok (snd (eff_bind m f w)) \<and> map_has (wd_docs (snd (eff_bind m f w))) k
    \<and> wd_trapped (snd (eff_bind m f w)) = wd_trapped w
    \<and> AList.delete k (wd_docs (snd (eff_bind m f w))) = AList.delete k (wd_docs w)"
  proof (cases r)
    case (Inl e)
    then show ?thesis using m 1 by (simp add: eff_bind_def)
  next
    case (Inr a)
    then show ?thesis
      using m 1 assms(2) [of a] by (auto simp: eff_bind_def uses_only_def Let_def dest!: spec [of _ w1])
  qed
qed

lemma balanced_basic: "balanced (eff_return a)" "balanced (eff_throw e)" "balanced (eff_lift wr r)"
  by (auto simp: balanced_def eff_return_def eff_throw_def eff_lift_def Let_def split: sum.split)

lemma balanced_bind:
  fixes m :: "('d, 'a) eff" and f :: "'a \<Rightarrow> ('d, 'c) eff"
  assumes "balanced m" "\<And>a. balanced (f a)"
  shows "balanced (eff_bind m f)"
  unfolding balanced_def Let_def
proof (intro allI impI)
  fix w :: "'d world" assume w: "world_ok w"
  obtain r w1 where m: "m w = (r, w1)" by fastforce
  then have 1: "world_ok w1" "wd_trapped w1 = wd_trapped w" "wd_docs w1 = wd_docs w"
    using assms(1) w by (auto simp: balanced_def Let_def dest!: spec [of _ w])
  show "world_ok (snd (eff_bind m f w)) \<and> wd_trapped (snd (eff_bind m f w)) = wd_trapped w
    \<and> wd_docs (snd (eff_bind m f w)) = wd_docs w"
    using m 1 assms(2) by (cases r) (auto simp: eff_bind_def balanced_def Let_def)
qed

lemma close_doc_live:
  assumes "world_ok w" "map_has (wd_docs w) k"
  shows "world_ok (close_doc k w)" "wd_docs (close_doc k w) = AList.delete k (wd_docs w)"
    "wd_trapped (close_doc k w) = wd_trapped w"
  using assms by (simp_all add: close_doc_def world_ok_def js_simps map_has_def split: if_splits)

text \<open>The shape of every engine client: open, use, close in a \<open>finally\<close>.\<close>

lemma balanced_alloc:
  fixes f :: "nat \<Rightarrow> ('d, 'a) eff"
  assumes "\<And>k. uses_only k (f k)"
  shows "balanced (eff_bind (alloc_doc d) (\<lambda>k. eff_finally (f k) (close_doc k)))"
  unfolding balanced_def Let_def
proof (intro allI impI)
  fix w :: "'d world" assume w: "world_ok w"
  let ?k = "wd_next w"
  let ?w1 = "w\<lparr>wd_docs := AList.update ?k d (wd_docs w), wd_next := Suc ?k\<rparr>"
  have fresh: "\<not> map_has (wd_docs w) ?k"
    using w by (auto simp: world_ok_def)
  have "world_ok ?w1" "map_has (wd_docs ?w1) ?k"
    using w by (auto simp: world_ok_def map_has_def js_simps less_SucI split: if_splits)
  then have 2: "world_ok (snd (f ?k ?w1))" "map_has (wd_docs (snd (f ?k ?w1))) ?k"
    "wd_trapped (snd (f ?k ?w1)) = wd_trapped w"
    "AList.delete ?k (wd_docs (snd (f ?k ?w1))) = wd_docs w"
    using assms [of ?k] delete_fresh [OF fresh]
    by (auto simp: uses_only_def Let_def delete_update_same dest!: spec [of _ ?w1])
  have "snd (eff_bind (alloc_doc d) (\<lambda>k. eff_finally (f k) (close_doc k)) w)
      = close_doc ?k (snd (f ?k ?w1))"
    by (simp add: eff_bind_def alloc_doc_def eff_finally_def split: prod.split)
  then show "world_ok (snd (eff_bind (alloc_doc d) (\<lambda>k. eff_finally (f k) (close_doc k)) w))
    \<and> wd_trapped (snd (eff_bind (alloc_doc d) (\<lambda>k. eff_finally (f k) (close_doc k)) w)) = wd_trapped w
    \<and> wd_docs (snd (eff_bind (alloc_doc d) (\<lambda>k. eff_finally (f k) (close_doc k)) w)) = wd_docs w"
    using 2 close_doc_live [OF 2(1,2)] by simp
qed

lemma balanced_open:
  fixes f :: "nat \<Rightarrow> ('d, 'a) eff"
  assumes "\<And>k. uses_only k (f k)"
  shows "balanced (eff_bind (open_doc E wr b) (\<lambda>k. eff_finally (f k) (close_doc k)))"
proof -
  have "eff_bind (open_doc E wr b) g = eff_bind (eff_lift wr (en_open E b)) (\<lambda>d. eff_bind (alloc_doc d) g)"
    for g :: "nat \<Rightarrow> ('d, 'a) eff"
    by (auto simp: fun_eq_iff eff_bind_def open_doc_def split: prod.split sum.split)
  then show ?thesis
    using assms by (simp add: balanced_bind balanced_basic balanced_alloc)
qed

section \<open>What the callers rely on\<close>

text \<open>
  \<open>dp\<close> and \<open>bp\<close> are the page sequences of an open document and of serialised bytes.
\<close>

definition engine_pages :: "('b, 'd) engine \<Rightarrow> ('d \<Rightarrow> 'p list) \<Rightarrow> ('b \<Rightarrow> 'p list) \<Rightarrow> bool" where
  "engine_pages E dp bp \<longleftrightarrow>
     (\<forall>b d. en_open E b = Inr d \<longrightarrow> dp d = bp b)
   \<and> (\<forall>d. en_pageCount E d = int (length (dp d)))
   \<and> (\<forall>ns d b. en_extractPages E ns d = Inr b \<longrightarrow>
        (\<forall>n\<in>set ns. 1 \<le> n \<and> n \<le> int (length (dp d))) \<and> bp b = map (\<lambda>n. dp d ! nat (n - 1)) ns)
   \<and> (\<forall>b d d'. en_appendPages E b d = Inr d' \<longrightarrow> dp d' = dp d @ bp b)
   \<and> (\<forall>ol d. dp (en_setOutline E ol d) = dp d)
   \<and> (\<forall>d b. en_save E d = Inr b \<longrightarrow> bp b = dp d)
   \<and> (\<forall>d b. en_saveCompressed E d = Inr b \<longrightarrow> bp b = dp d)"

text \<open>The page-tree mutators, on page numbers from 1.\<close>

definition engine_tree :: "('b, 'd) engine \<Rightarrow> ('d \<Rightarrow> 'p list) \<Rightarrow> (jsnum \<Rightarrow> jsnum \<Rightarrow> 'p) \<Rightarrow> bool" where
  "engine_tree E dp blank \<longleftrightarrow>
     (\<forall>w h k d. 0 \<le> k \<and> k \<le> int (length (dp d)) \<longrightarrow>
        dp (en_addPage E w h k d) = splice_ins (nat k) (blank w h) (dp d))
   \<and> (\<forall>n d. 1 \<le> n \<and> n \<le> int (length (dp d)) \<longrightarrow>
        dp (en_deletePage E n d) = splice_del (nat (n - 1)) (dp d))
   \<and> (\<forall>f t d. 1 \<le> f \<and> f \<le> int (length (dp d)) \<and> 1 \<le> t \<and> t \<le> int (length (dp d)) \<longrightarrow>
        dp (en_movePage E f t d) =
          splice_ins (nat (t - 1)) (dp d ! nat (f - 1)) (splice_del (nat (f - 1)) (dp d)))
   \<and> (\<forall>n d. 1 \<le> n \<and> n \<le> int (length (dp d)) \<longrightarrow>
        dp (en_copyPage E n d) = splice_ins (nat n) (dp d ! nat (n - 1)) (dp d))"

text \<open>Outlines: opening reads the serialised one, appending pages does not touch it.\<close>

definition engine_outline :: "('b, 'd) engine \<Rightarrow> ('b \<Rightarrow> outline_entry list) \<Rightarrow> bool" where
  "engine_outline E bol \<longleftrightarrow>
     (\<forall>b d. en_open E b = Inr d \<longrightarrow> en_outline E d = bol b)
   \<and> (\<forall>ol d. en_outline E (en_setOutline E ol d) = ol)
   \<and> (\<forall>d b. en_saveCompressed E d = Inr b \<longrightarrow> bol b = en_outline E d)"

section \<open>Results of the effects\<close>

lemma eff_bind_Inr:
  "eff_bind m f w = (Inr c, w') \<longleftrightarrow> (\<exists>a w1. m w = (Inr a, w1) \<and> f a w1 = (Inr c, w'))"
  by (auto simp: eff_bind_def split: prod.split sum.split)

lemma eff_return_Inr [simp]: "eff_return a w = (Inr c, w') \<longleftrightarrow> c = a \<and> w' = w"
  by (auto simp: eff_return_def)

lemma eff_throw_Inr [simp]: "\<not> eff_throw e w = (Inr c, w')"
  by (simp add: eff_throw_def)

text \<open>Reading off a computed success.\<close>

definition succeeds :: "(pdf_error + 'a) \<times> 'd world \<Rightarrow> ('a \<Rightarrow> 'd world \<Rightarrow> bool) \<Rightarrow> bool" where
  "succeeds r P = (case r of (Inl e, w) \<Rightarrow> False | (Inr a, w) \<Rightarrow> P a w)"

lemma succeedsD: "succeeds r P \<Longrightarrow> \<exists>a w. r = (Inr a, w) \<and> P a w"
  by (auto simp: succeeds_def split: prod.splits sum.splits)

lemma read_doc_live [simp]: "map_get (wd_docs w) k = Some d \<Longrightarrow> read_doc k f w = (Inr (f d), w)"
  by (simp add: read_doc_def)

lemma call_doc_live:
  "map_get (wd_docs w) k = Some d \<Longrightarrow> call_doc k f w = (Inr a, w') \<longleftrightarrow> f d = Inr a \<and> w' = w"
  by (auto simp: call_doc_def split: sum.split)

lemma mutate_doc_live:
  "map_get (wd_docs w) k = Some d \<Longrightarrow> mutate_doc k f w = (Inr u, w') \<longleftrightarrow>
     (\<exists>d'. f d = Inr d' \<and> w' = w\<lparr>wd_docs := AList.update k d' (wd_docs w)\<rparr>)"
  by (auto simp: mutate_doc_def split: sum.split)

lemma with_doc_Inr:
  assumes "eff_bind (open_doc E wr b) (\<lambda>k. eff_finally (f k) (close_doc k)) w = (Inr a, w')"
  shows "\<exists>k d w1 w2. en_open E b = Inr d \<and> map_get (wd_docs w1) k = Some d \<and> f k w1 = (Inr a, w2)"
proof -
  obtain k w1 where o: "open_doc E wr b w = (Inr k, w1)"
    and f: "eff_finally (f k) (close_doc k) w1 = (Inr a, w')"
    using assms by (auto simp: eff_bind_Inr)
  obtain d where d: "en_open E b = Inr d" "alloc_doc d w = (Inr k, w1)"
    using o by (auto simp: open_doc_def eff_bind_Inr eff_lift_def split: sum.splits)
  then have "map_get (wd_docs w1) k = Some d"
    by (auto simp: alloc_doc_def js_simps)
  moreover obtain w2 where "f k w1 = (Inr a, w2)"
    using f by (auto simp: eff_finally_def split: prod.splits)
  ultimately show ?thesis
    using d by blast
qed

section \<open>A list-backed engine\<close>

text \<open>
  An instance that satisfies the laws, for the examples: a document is its list of page labels
  with an outline and encryption data, and its bytes are the same value. An empty document does
  not open.
\<close>

record list_doc =
  ld_pages :: "nat list"
  ld_outline :: "outline_entry list"
  ld_crypt :: "(string \<times> string option \<times> int) option"
  ld_meta :: "(string, string) jsmap"

definition list_doc_of :: "nat list \<Rightarrow> outline_entry list \<Rightarrow> list_doc" where
  "list_doc_of ps ol = \<lparr>ld_pages = ps, ld_outline = ol, ld_crypt = None, ld_meta = []\<rparr>"

definition list_engine :: "(list_doc, list_doc) engine" where
  "list_engine = \<lparr>
     en_open = (\<lambda>b. if ld_pages b = [] then Inl ''empty''
        else if ld_crypt b \<noteq> None then Inl ''encrypted'' else Inr b),
     en_openEncrypted = (\<lambda>b pw. Inr (case ld_crypt b of None \<Rightarrow> Some b
        | Some (u, o1, p) \<Rightarrow> if pw = u \<or> Some pw = o1 then Some (b\<lparr>ld_crypt := None\<rparr>) else None)),
     en_encryptionInfo = (\<lambda>b. Inr (case ld_crypt b of None \<Rightarrow> (False, 0) | Some (u, o1, p) \<Rightarrow> (True, p))),
     en_pageCount = (\<lambda>d. int (length (ld_pages d))),
     en_pageInfo = (\<lambda>n d. \<lparr>pi_width = 595, pi_height = 842, pi_rotation = 0\<rparr>),
     en_extractPages = (\<lambda>ns d. if \<forall>n\<in>set ns. 1 \<le> n \<and> n \<le> int (length (ld_pages d))
        then Inr (d\<lparr>ld_pages := map (\<lambda>n. ld_pages d ! nat (n - 1)) ns, ld_outline := []\<rparr>)
        else Inl ''range''),
     en_appendPages = (\<lambda>b d. Inr (d\<lparr>ld_pages := ld_pages d @ ld_pages b\<rparr>)),
     en_outline = ld_outline,
     en_setOutline = (\<lambda>ol d. d\<lparr>ld_outline := ol\<rparr>),
     en_save = Inr,
     en_saveCompressed = Inr,
     en_saveEncrypted = (\<lambda>u fid alg o1 p d. Inr (d\<lparr>ld_crypt := Some (u, o1, p)\<rparr>)),
     en_addPage = (\<lambda>w h k d. d\<lparr>ld_pages := splice_ins (nat k) 0 (ld_pages d)\<rparr>),
     en_deletePage = (\<lambda>n d. d\<lparr>ld_pages := splice_del (nat (n - 1)) (ld_pages d)\<rparr>),
     en_movePage = (\<lambda>f t d. d\<lparr>ld_pages :=
        splice_ins (nat (t - 1)) (ld_pages d ! nat (f - 1)) (splice_del (nat (f - 1)) (ld_pages d))\<rparr>),
     en_rotatePage = (\<lambda>n a d. d),
     en_copyPage = (\<lambda>n d. d\<lparr>ld_pages := splice_ins (nat n) (ld_pages d ! nat (n - 1)) (ld_pages d)\<rparr>),
     en_resizePage = (\<lambda>n w h d. d),
     en_getMetadata = (\<lambda>key d. map_get (ld_meta d) key),
     en_setMetadata = (\<lambda>key v d. d\<lparr>ld_meta := AList.update key v (ld_meta d)\<rparr>)\<rparr>"

definition empty_world :: "'d world" where
  "empty_world = \<lparr>wd_docs = [], wd_next = 0, wd_trapped = False, wd_dirty = [], wd_closed = []\<rparr>"

lemma world_ok_empty: "world_ok empty_world"
  by (simp add: world_ok_def empty_world_def map_has_def)

lemma list_engine_pages: "engine_pages list_engine ld_pages ld_pages"
  by (auto simp: engine_pages_def list_engine_def split: if_splits)

lemma list_engine_tree: "engine_tree list_engine ld_pages (\<lambda>w h. 0)"
  by (simp add: engine_tree_def list_engine_def)

lemma list_engine_outline: "engine_outline list_engine ld_outline"
  by (auto simp: engine_outline_def list_engine_def split: if_splits)

end
