(* ===== verification/Merge_Split.thy ===== *)
theory Merge_Split
  imports Engine Page_Range
begin

text \<open>
  \<open>packages/pdf-engine/src/merge-split\<close>: \<open>mergePDFs\<close>, \<open>splitPDF\<close> and \<open>splitAt\<close>, each an effect
  over the engine's heap. Buffers are values of the type the engine serialises to.
\<close>

section \<open>split.ts\<close>

definition open_failed :: "string \<Rightarrow> pdf_error" where
  "open_failed msg = Parse_error (''Failed to parse PDF: '' @ msg)"

definition check_range :: "int \<Rightarrow> page_range \<Rightarrow> pdf_error option" where
  "check_range pageCount r =
     (if pr_start r < 1 then Some (Page_out_of_range (pr_start r) pageCount)
      else if pr_end r > pageCount then Some (Page_out_of_range (pr_end r) pageCount)
      else if pr_start r > pr_end r then Some (Parse_error (''Invalid range: start ('' @ int_str (pr_start r)
          @ '') must be less than or equal to end ('' @ int_str (pr_end r) @ '')''))
      else None)"

fun check_ranges :: "int \<Rightarrow> page_range list \<Rightarrow> ('d, unit) eff" where
  "check_ranges n [] = eff_return ()"
| "check_ranges n (r # rs) =
     (case check_range n r of Some e \<Rightarrow> eff_throw e | None \<Rightarrow> check_ranges n rs)"

fun extract_ranges :: "('b, 'd) engine \<Rightarrow> nat \<Rightarrow> page_range list \<Rightarrow> ('d, 'b list) eff" where
  "extract_ranges E k [] = eff_return []"
| "extract_ranges E k (r # rs) =
     eff_bind (call_doc k (en_extractPages E (range_pages r))) (\<lambda>b.
     eff_bind (extract_ranges E k rs) (\<lambda>bs. eff_return (b # bs)))"

definition splitPDF :: "('b, 'd) engine \<Rightarrow> 'b \<Rightarrow> page_range list \<Rightarrow> ('d, 'b list) eff" where
  "splitPDF E buffer ranges =
     eff_bind (open_doc E open_failed buffer) (\<lambda>k.
       eff_finally
         (eff_bind (read_doc k (en_pageCount E)) (\<lambda>pageCount.
          eff_bind (check_ranges pageCount ranges) (\<lambda>_.
          extract_ranges E k ranges)))
         (close_doc k))"

text \<open>\<open>[...new Set(points)].sort((a, b) => a - b)\<close>\<close>

definition sort_points :: "int list \<Rightarrow> int list" where
  "sort_points ps = sort (set_of_list ps)"

fun between_points :: "int list \<Rightarrow> page_range list" where
  "between_points (a # b # ps) = \<lparr>pr_start = a + 1, pr_end = b\<rparr> # between_points (b # ps)"
| "between_points _ = []"

definition split_ranges :: "int list \<Rightarrow> int \<Rightarrow> page_range list" where
  "split_ranges pts pageCount =
     (case pts of [] \<Rightarrow> [\<lparr>pr_start = 1, pr_end = pageCount\<rparr>]
      | p # ps \<Rightarrow> [\<lparr>pr_start = 1, pr_end = p\<rparr>] @ between_points pts
          @ [\<lparr>pr_start = last pts + 1, pr_end = pageCount\<rparr>])"

definition splitAt :: "('b, 'd) engine \<Rightarrow> 'b \<Rightarrow> int list \<Rightarrow> ('d, 'b list) eff" where
  "splitAt E buffer splitPoints =
     eff_bind
       (eff_bind (open_doc E open_failed buffer) (\<lambda>k.
          eff_finally (read_doc k (en_pageCount E)) (close_doc k)))
       (\<lambda>pageCount. splitPDF E buffer (split_ranges (sort_points splitPoints) pageCount))"

section \<open>merge.ts\<close>

text \<open>\<open>pageNumbers.forEach((p, idx) => { if (!map.has(p)) map.set(p, idx + 1); })\<close>\<close>

fun position_map :: "nat \<Rightarrow> int list \<Rightarrow> (int, int) jsmap \<Rightarrow> (int, int) jsmap" where
  "position_map i [] m = m"
| "position_map i (p # ps) m =
     position_map (Suc i) ps (if map_has m p then m else AList.update p (int i + 1) m)"

definition position_of :: "page_range list option \<Rightarrow> int \<Rightarrow> int option" where
  "position_of ranges srcPage = (case ranges of None \<Rightarrow> Some srcPage
     | Some rs \<Rightarrow> map_get (position_map 0 (rangesToPageNumbers rs) []) srcPage)"

definition remap_entry :: "page_range list option \<Rightarrow> int \<Rightarrow> outline_entry \<Rightarrow> outline_entry" where
  "remap_entry ranges pageOffset item = item\<lparr>ol_page := (case ol_page item of
       Some p \<Rightarrow> if p > 0 then map_option (\<lambda>pos. pos + pageOffset) (position_of ranges p) else None
     | None \<Rightarrow> None)\<rparr>"

text \<open>The body of the loop over the sources: the bytes of the part, its page count, its entries.\<close>

definition merge_part ::
  "('b, 'd) engine \<Rightarrow> nat \<Rightarrow> 'b \<Rightarrow> page_range list option \<Rightarrow> int \<Rightarrow> ('d, 'b \<times> int \<times> outline_entry list) eff" where
  "merge_part E k raw ranges pageOffset =
     eff_bind
       (case ranges of
          Some rs \<Rightarrow> eff_bind (call_doc k (en_extractPages E (rangesToPageNumbers rs)))
            (\<lambda>bytes. eff_return (bytes, int (length (rangesToPageNumbers rs))))
        | None \<Rightarrow> eff_bind (read_doc k (en_pageCount E)) (\<lambda>n. eff_return (raw, n)))
       (\<lambda>(bytes, partPageCount).
          eff_bind (read_doc k (en_outline E)) (\<lambda>items.
            eff_return (bytes, partPageCount, map (remap_entry ranges pageOffset) items)))"

text \<open>\<open>options?.pageRanges?.[i] ?? null\<close>\<close>

definition ranges_at :: "page_range list option list \<Rightarrow> nat \<Rightarrow> page_range list option" where
  "ranges_at rs i = (if i < length rs then rs ! i else None)"

fun merge_sources ::
  "('b, 'd) engine \<Rightarrow> page_range list option list \<Rightarrow> nat \<Rightarrow> int \<Rightarrow> 'b list \<Rightarrow>
   ('d, 'b list \<times> outline_entry list) eff" where
  "merge_sources E rs i pageOffset [] = eff_return ([], [])"
| "merge_sources E rs i pageOffset (raw # bufs) =
     eff_bind
       (eff_bind (open_doc E (\<lambda>msg. Parse_error (''Failed to parse PDF at index '' @ nat_str 10 i @ '': '' @ msg)) raw)
          (\<lambda>k. eff_finally (merge_part E k raw (ranges_at rs i) pageOffset) (close_doc k)))
       (\<lambda>(bytes, n, ol).
          eff_bind (merge_sources E rs (Suc i) (pageOffset + n) bufs)
            (\<lambda>(parts, ols). eff_return (bytes # parts, ol @ ols)))"

fun append_parts :: "('b, 'd) engine \<Rightarrow> nat \<Rightarrow> 'b list \<Rightarrow> ('d, unit) eff" where
  "append_parts E k [] = eff_return ()"
| "append_parts E k (b # bs) =
     eff_bind (mutate_doc k (en_appendPages E b)) (\<lambda>_. append_parts E k bs)"

definition assemble :: "('b, 'd) engine \<Rightarrow> 'b list \<Rightarrow> outline_entry list \<Rightarrow> ('d, 'b) eff" where
  "assemble E parts mergedOutline =
     eff_bind (open_doc E Plain_error (hd parts)) (\<lambda>k.
       eff_finally
         (eff_bind (append_parts E k (tl parts)) (\<lambda>_.
          eff_bind (if length mergedOutline > 0
                    then mutate_doc k (\<lambda>d. Inr (en_setOutline E mergedOutline d)) else eff_return ()) (\<lambda>_.
          call_doc k (en_saveCompressed E))))
         (close_doc k))"

definition mergePDFs ::
  "('b, 'd) engine \<Rightarrow> 'b list \<Rightarrow> page_range list option list \<Rightarrow> ('d, 'b) eff" where
  "mergePDFs E buffers pageRanges =
     (if length buffers < 2
      then eff_throw (Parse_error ''At least 2 PDF buffers are required to merge'')
      else eff_bind (merge_sources E pageRanges 0 0 buffers)
        (\<lambda>(parts, mergedOutline). assemble E parts mergedOutline))"

section \<open>Handles are closed\<close>

lemma uses_only_check: "uses_only k (check_ranges n rs)"
  by (induction rs) (auto simp: uses_only_basic split: option.split)

lemma uses_only_extract: "uses_only k (extract_ranges E k rs)"
  by (induction rs) (auto simp: uses_only_basic intro!: uses_only_bind)

lemma uses_only_append: "uses_only k (append_parts E k bs)"
  by (induction bs) (auto simp: uses_only_basic uses_only_mutate intro!: uses_only_bind)

lemma uses_only_part: "uses_only k (merge_part E k raw rs off)"
  by (auto simp: merge_part_def uses_only_basic intro!: uses_only_bind split: option.split)

lemma balanced_split: "balanced (splitPDF E b rs)"
  unfolding splitPDF_def
  by (intro balanced_open uses_only_bind uses_only_basic uses_only_check uses_only_extract)

lemma balanced_splitAt: "balanced (splitAt E b ps)"
  unfolding splitAt_def
  by (intro balanced_bind balanced_open uses_only_basic balanced_split)

lemma balanced_sources: "balanced (merge_sources E rs i off bufs)"
  by (induction bufs arbitrary: i off)
    (auto simp: balanced_basic intro!: balanced_bind balanced_open uses_only_part)

lemma balanced_assemble: "balanced (assemble E parts ol)"
  unfolding assemble_def
  by (intro balanced_open uses_only_bind uses_only_append)
    (auto simp: uses_only_basic uses_only_mutate)

lemma balanced_merge: "balanced (mergePDFs E bufs rs)"
  by (auto simp: mergePDFs_def balanced_basic balanced_sources balanced_assemble
      intro!: balanced_bind)

text \<open>C11: Merging, splitting by ranges and splitting at points close every document they open
  exactly once, on success and on every error (an unreadable source, an invalid range, an
  engine call that throws half way): the live documents afterwards are the ones from before
  and no freed handle was used or closed again.\<close>

theorem merge_split_no_leak:
  assumes "world_ok w"
  shows "wd_docs (snd (mergePDFs E bufs prs w)) = wd_docs w
    \<and> wd_docs (snd (splitPDF E buf rs w)) = wd_docs w
    \<and> wd_docs (snd (splitAt E buf ps w)) = wd_docs w
    \<and> wd_trapped (snd (mergePDFs E bufs prs w)) = wd_trapped w
    \<and> wd_trapped (snd (splitPDF E buf rs w)) = wd_trapped w
    \<and> wd_trapped (snd (splitAt E buf ps w)) = wd_trapped w"
  using assms balanced_merge [of E bufs prs] balanced_split [of E buf rs] balanced_splitAt [of E buf ps]
  by (auto simp: balanced_def Let_def)

theorem merge_split_no_leak_witness:
  "wd_docs (snd (mergePDFs list_engine [list_doc_of [1] [], list_doc_of [] []] [] empty_world)) = []"
  using merge_split_no_leak [OF world_ok_empty, of list_engine "[list_doc_of [1] [], list_doc_of [] []]" "[]"]
  by (simp add: empty_world_def)

section \<open>The pages of a split\<close>

definition pages_at :: "'p list \<Rightarrow> int list \<Rightarrow> 'p list" where
  "pages_at ps ns = map (\<lambda>n. ps ! nat (n - 1)) ns"

lemma check_ranges_Inr:
  "check_ranges n rs w = (Inr u, w') \<Longrightarrow> list_all (range_ok n) rs \<and> w' = w"
  by (induction rs) (auto simp: check_range_def range_ok_def split: option.splits if_splits)

lemma extract_ranges_Inr:
  assumes "engine_pages E dp bp" "map_get (wd_docs w) k = Some d"
    and "extract_ranges E k rs w = (Inr bs, w')"
  shows "map bp bs = map (\<lambda>r. pages_at (dp d) (range_pages r)) rs"
  using assms(3)
proof (induction rs arbitrary: bs w')
  case Nil
  then show ?case by simp
next
  case (Cons r rs)
  then obtain b bs1 where "en_extractPages E (range_pages r) d = Inr b"
    "extract_ranges E k rs w = (Inr bs1, w')" "bs = b # bs1"
    using assms(2) by (auto simp: eff_bind_Inr call_doc_live)
  then show ?case
    using Cons.IH assms(1) by (auto simp: engine_pages_def pages_at_def)
qed

lemma splitPDF_Inr:
  assumes "engine_pages E dp bp" and "splitPDF E buf rs w = (Inr bs, w')"
  shows "list_all (range_ok (int (length (bp buf)))) rs
    \<and> map bp bs = map (\<lambda>r. pages_at (bp buf) (range_pages r)) rs"
proof -
  obtain k d w1 w2 where d: "en_open E buf = Inr d" "map_get (wd_docs w1) k = Some d"
    and body: "eff_bind (read_doc k (en_pageCount E)) (\<lambda>pageCount.
          eff_bind (check_ranges pageCount rs) (\<lambda>_. extract_ranges E k rs)) w1 = (Inr bs, w2)"
    using with_doc_Inr [OF assms(2) [unfolded splitPDF_def]] by blast
  then have "dp d = bp buf" "en_pageCount E d = int (length (bp buf))"
    using assms(1) by (auto simp: engine_pages_def)
  with body d show ?thesis
    using extract_ranges_Inr [OF assms(1) d(2)]
    by (auto simp: eff_bind_Inr dest!: check_ranges_Inr)
qed

text \<open>Splitting by ranges succeeds only with ranges inside the document and gives, in order, one
  document per range that holds exactly the pages of the range.\<close>

lemma split_pages:
  assumes "engine_pages E dp bp" and "splitPDF E buf rs w = (Inr bs, w')"
  shows "length bs = length rs \<and> list_all (range_ok (int (length (bp buf)))) rs
    \<and> (\<forall>i < length rs. bp (bs ! i) = pages_at (bp buf) (range_pages (rs ! i)))"
proof -
  have m: "map bp bs = map (\<lambda>r. pages_at (bp buf) (range_pages r)) rs"
    using splitPDF_Inr [OF assms] by simp
  then have "length bs = length rs" by (metis length_map)
  moreover have "bp (bs ! i) = pages_at (bp buf) (range_pages (rs ! i))" if "i < length rs" for i
    using m that \<open>length bs = length rs\<close> by (metis (no_types, lifting) nth_map)
  ultimately show ?thesis
    using splitPDF_Inr [OF assms] by simp
qed

lemma split_pages_witness:
  "\<exists>bs w'. splitPDF list_engine (list_doc_of [7, 8, 9] []) [\<lparr>pr_start = 2, pr_end = 3\<rparr>] empty_world = (Inr bs, w')
     \<and> ld_pages (bs ! 0) = [8, 9]"
proof -
  obtain bs w' where s: "splitPDF list_engine (list_doc_of [7, 8, 9] []) [\<lparr>pr_start = 2, pr_end = 3\<rparr>] empty_world = (Inr bs, w')"
    by (simp add: splitPDF_def eff_bind_def open_doc_def eff_lift_def alloc_doc_def eff_finally_def
        read_doc_def call_doc_def list_engine_def list_doc_of_def check_range_def range_pages_def
        eff_return_def empty_world_def upto.simps)
  then show ?thesis
    using split_pages [OF list_engine_pages s]
    by (auto simp: list_doc_of_def pages_at_def range_pages_def upto.simps)
qed

section \<open>Splitting at points is a partition\<close>

lemma pages_at_all: "pages_at ps [1..int (length ps)] = ps"
proof (rule nth_equalityI)
  fix i assume "i < length (pages_at ps [1..int (length ps)])"
  then show "pages_at ps [1..int (length ps)] ! i = ps ! i"
    by (simp add: pages_at_def)
qed (simp add: pages_at_def)

lemma pages_at_concat: "concat (map (\<lambda>r. pages_at ps (range_pages r)) rs) = pages_at ps (rangesToPageNumbers rs)"
  by (induction rs) (auto simp: pages_at_def rangesToPageNumbers_def)

lemma upto_join: "i \<le> j + 1 \<Longrightarrow> j \<le> k \<Longrightarrow> [i..j] @ [j + 1..k] = [i..k]" for i j k :: int
proof (cases "i \<le> j")
  case False
  moreover assume "i \<le> j + 1"
  ultimately have "i = j + 1" by simp
  then show ?thesis by simp
qed (simp add: upto_split2 [of i j k])

lemma between_points_pages:
  assumes "list_all (range_ok n) (between_points (a # ps))" "0 \<le> a"
  shows "concat (map range_pages (between_points (a # ps))) = [a + 1..last (a # ps)] \<and> a \<le> last (a # ps)"
  using assms
proof (induction ps arbitrary: a)
  case (Cons b ps)
  then have r: "range_ok n \<lparr>pr_start = a + 1, pr_end = b\<rparr>" "list_all (range_ok n) (between_points (b # ps))"
    by simp_all
  then have ab: "a < b" "0 \<le> b" using Cons.prems(2)
    by (simp_all add: range_ok_def)
  with r Cons.IH [of b] have ih: "concat (map range_pages (between_points (b # ps))) = [b + 1..last (b # ps)]"
    "b \<le> last (b # ps)"
    by simp_all
  have "[a + 1..b] @ [b + 1..last (b # ps)] = [a + 1..last (b # ps)]"
    using ab ih(2) by (intro upto_join) auto
  moreover have "concat (map range_pages (between_points (a # b # ps)))
      = [a + 1..b] @ concat (map range_pages (between_points (b # ps)))"
    by (simp add: range_pages_def)
  moreover have "last (a # b # ps) = last (b # ps)" by simp
  ultimately show ?case
    unfolding ih(1) using ih(2) ab by (simp only: simp_thms)
qed simp

lemma split_ranges_pages:
  assumes "list_all (range_ok n) (split_ranges pts n)"
  shows "rangesToPageNumbers (split_ranges pts n) = [1..n]"
proof (cases pts)
  case Nil
  then show ?thesis by (simp add: split_ranges_def rangesToPageNumbers_def range_pages_def)
next
  case (Cons p ps)
  let ?l = "last (p # ps)"
  have ok: "1 \<le> p" "list_all (range_ok n) (between_points (p # ps))" "?l + 1 \<le> n"
    using assms by (auto simp: Cons split_ranges_def range_ok_def)
  have b: "concat (map range_pages (between_points (p # ps))) = [p + 1..?l]" "p \<le> ?l"
    using between_points_pages [OF ok(2)] ok(1) by simp_all
  have "rangesToPageNumbers (split_ranges pts n) = [1..p] @ [p + 1..?l] @ [?l + 1..n]"
    using b by (simp add: Cons split_ranges_def rangesToPageNumbers_def range_pages_def)
  also have "[p + 1..?l] @ [?l + 1..n] = [p + 1..n]"
    using b(2) ok(3) by (intro upto_join) auto
  also have "[1..p] @ [p + 1..n] = [1..n]"
    using ok b(2) by (intro upto_join) auto
  finally show ?thesis .
qed

text \<open>C12: Splitting at points is a partition: whatever the points (unsorted, repeated), when it
  succeeds the pages of the parts, concatenated in order, are the pages of the document.\<close>

theorem split_at_partition:
  assumes "engine_pages E dp bp" and "splitAt E buf pts w = (Inr bs, w')"
  shows "concat (map bp bs) = bp buf"
proof -
  obtain n w1 where c: "eff_bind (open_doc E open_failed buf)
        (\<lambda>k. eff_finally (read_doc k (en_pageCount E)) (close_doc k)) w = (Inr n, w1)"
    and s: "splitPDF E buf (split_ranges (sort_points pts) n) w1 = (Inr bs, w')"
    using assms(2) by (auto simp: splitAt_def eff_bind_Inr)
  have n: "n = int (length (bp buf))"
    using with_doc_Inr [OF c] assms(1) by (auto simp: engine_pages_def)
  let ?rs = "split_ranges (sort_points pts) n"
  have "list_all (range_ok n) ?rs" "map bp bs = map (\<lambda>r. pages_at (bp buf) (range_pages r)) ?rs"
    using splitPDF_Inr [OF assms(1) s] by (simp_all add: n)
  then show ?thesis
    by (simp only: pages_at_concat split_ranges_pages) (simp add: n pages_at_all)
qed

theorem split_at_partition_witness:
  "\<exists>bs w'. splitAt list_engine (list_doc_of [7, 8, 9] []) [2, 1, 2] empty_world = (Inr bs, w')
     \<and> length bs = 3 \<and> concat (map ld_pages bs) = [7, 8, 9]"
proof -
  have "case splitAt list_engine (list_doc_of [7, 8, 9] []) [2, 1, 2] empty_world of
      (Inr bs, w') \<Rightarrow> length bs = 3 | _ \<Rightarrow> False"
    by code_simp
  then obtain bs w' where s: "splitAt list_engine (list_doc_of [7, 8, 9] []) [2, 1, 2] empty_world = (Inr bs, w')"
    "length bs = 3"
    by (auto split: prod.splits sum.splits)
  then show ?thesis
    using split_at_partition [OF list_engine_pages s(1)] by (auto simp: list_doc_of_def)
qed

section \<open>The pages and the outline of a merge\<close>

definition part_pages :: "page_range list option \<Rightarrow> 'p list \<Rightarrow> 'p list" where
  "part_pages r ps = (case r of None \<Rightarrow> ps | Some rs \<Rightarrow> pages_at ps (rangesToPageNumbers rs))"

fun merged_pages :: "('b \<Rightarrow> 'p list) \<Rightarrow> page_range list option list \<Rightarrow> nat \<Rightarrow> 'b list \<Rightarrow> 'p list" where
  "merged_pages bp rs i [] = []"
| "merged_pages bp rs i (b # bs) = part_pages (ranges_at rs i) (bp b) @ merged_pages bp rs (Suc i) bs"

fun merged_outline ::
  "('b \<Rightarrow> 'p list) \<Rightarrow> ('b \<Rightarrow> outline_entry list) \<Rightarrow> page_range list option list \<Rightarrow> nat \<Rightarrow> int \<Rightarrow>
   'b list \<Rightarrow> outline_entry list" where
  "merged_outline bp bol rs i off [] = []"
| "merged_outline bp bol rs i off (b # bs) = map (remap_entry (ranges_at rs i) off) (bol b)
     @ merged_outline bp bol rs (Suc i) (off + int (length (part_pages (ranges_at rs i) (bp b)))) bs"

lemma merge_part_Inr:
  assumes "engine_pages E dp bp" "engine_outline E bol"
    and "en_open E raw = Inr d" "map_get (wd_docs w) k = Some d"
    and "merge_part E k raw rs off w = (Inr (bytes, n, ol), w')"
  shows "bp bytes = part_pages rs (bp raw) \<and> n = int (length (part_pages rs (bp raw)))
    \<and> ol = map (remap_entry rs off) (bol raw)"
proof (cases rs)
  case None
  then show ?thesis
    using assms by (auto simp: merge_part_def eff_bind_Inr part_pages_def engine_pages_def engine_outline_def)
next
  case (Some r)
  then show ?thesis
    using assms by (auto simp: merge_part_def eff_bind_Inr call_doc_live part_pages_def pages_at_def
        engine_pages_def engine_outline_def)
qed

lemma merge_sources_Inr:
  assumes "engine_pages E dp bp" "engine_outline E bol"
    and "merge_sources E rs i off bufs w = (Inr (parts, ols), w')"
  shows "concat (map bp parts) = merged_pages bp rs i bufs
    \<and> ols = merged_outline bp bol rs i off bufs \<and> length parts = length bufs"
  using assms(3)
proof (induction bufs arbitrary: i off parts ols w)
  case Nil
  then show ?case by simp
next
  case (Cons raw bufs)
  then obtain bytes n ol w1 parts1 ols1 where
    p: "eff_bind (open_doc E (\<lambda>msg. Parse_error (''Failed to parse PDF at index '' @ nat_str 10 i @ '': '' @ msg)) raw)
          (\<lambda>k. eff_finally (merge_part E k raw (ranges_at rs i) off) (close_doc k)) w = (Inr (bytes, n, ol), w1)"
    and r: "merge_sources E rs (Suc i) (off + n) bufs w1 = (Inr (parts1, ols1), w')"
    and eq: "parts = bytes # parts1" "ols = ol @ ols1"
    by (auto simp: eff_bind_Inr)
  obtain k d w2 w3 where "en_open E raw = Inr d" "map_get (wd_docs w2) k = Some d"
    "merge_part E k raw (ranges_at rs i) off w2 = (Inr (bytes, n, ol), w3)"
    using with_doc_Inr [OF p] by blast
  then show ?case
    using merge_part_Inr [OF assms(1,2)] Cons.IH [OF r] eq by simp
qed

lemma append_parts_Inr:
  assumes "engine_pages E dp bp" "map_get (wd_docs w) k = Some d" "append_parts E k bs w = (Inr u, w')"
  shows "\<exists>d'. map_get (wd_docs w') k = Some d' \<and> dp d' = dp d @ concat (map bp bs)"
  using assms(2,3)
proof (induction bs arbitrary: w d)
  case Nil
  then show ?case by simp
next
  case (Cons b bs)
  then obtain d1 where a: "en_appendPages E b d = Inr d1"
    and r: "append_parts E k bs (w\<lparr>wd_docs := AList.update k d1 (wd_docs w)\<rparr>) = (Inr u, w')"
    by (auto simp: eff_bind_Inr mutate_doc_live)
  have "dp d1 = dp d @ bp b"
    using a assms(1) by (auto simp: engine_pages_def)
  then show ?case
    using Cons.IH [OF _ r, of d1] by (auto simp: js_simps)
qed

lemma assemble_Inr:
  assumes "engine_pages E dp bp" "engine_outline E bol" "parts \<noteq> []"
    and "assemble E parts ol w = (Inr out, w')"
  shows "bp out = concat (map bp parts) \<and> (ol \<noteq> [] \<longrightarrow> bol out = ol)"
proof -
  obtain k d w1 w2 where d: "en_open E (hd parts) = Inr d" "map_get (wd_docs w1) k = Some d"
    and body: "eff_bind (append_parts E k (tl parts)) (\<lambda>_.
          eff_bind (if length ol > 0 then mutate_doc k (\<lambda>d. Inr (en_setOutline E ol d)) else eff_return ()) (\<lambda>_.
          call_doc k (en_saveCompressed E))) w1 = (Inr out, w2)"
    using with_doc_Inr [OF assms(4) [unfolded assemble_def]] by blast
  then obtain w3 where a: "append_parts E k (tl parts) w1 = (Inr (), w3)"
    and rest: "eff_bind (if length ol > 0 then mutate_doc k (\<lambda>d. Inr (en_setOutline E ol d)) else eff_return ()) (\<lambda>_.
          call_doc k (en_saveCompressed E)) w3 = (Inr out, w2)"
    by (auto simp: eff_bind_Inr)
  obtain d3 where d3: "map_get (wd_docs w3) k = Some d3" "dp d3 = bp (hd parts) @ concat (map bp (tl parts))"
    using append_parts_Inr [OF assms(1) d(2) a] d(1) assms(1) by (auto simp: engine_pages_def)
  moreover have "concat (map bp parts) = bp (hd parts) @ concat (map bp (tl parts))"
    using assms(3) by (cases parts) auto
  ultimately show ?thesis
    using rest assms(1,2)
    by (auto simp: eff_bind_Inr mutate_doc_live call_doc_live js_simps engine_pages_def
        engine_outline_def split: if_splits)
qed

lemma mergePDFs_Inr:
  assumes "engine_pages E dp bp" "engine_outline E bol" "mergePDFs E bufs rs w = (Inr out, w')"
  shows "bp out = merged_pages bp rs 0 bufs
    \<and> (merged_outline bp bol rs 0 0 bufs \<noteq> [] \<longrightarrow> bol out = merged_outline bp bol rs 0 0 bufs)"
proof -
  have two: "\<not> length bufs < 2" using assms(3) by (auto simp: mergePDFs_def)
  obtain parts ol w1 where s: "merge_sources E rs 0 0 bufs w = (Inr (parts, ol), w1)"
    and a: "assemble E parts ol w1 = (Inr out, w')"
    using assms(3) two by (auto simp: mergePDFs_def eff_bind_Inr)
  have "parts \<noteq> []"
    using merge_sources_Inr [OF assms(1,2) s] two by auto
  then show ?thesis
    using merge_sources_Inr [OF assms(1,2) s] assemble_Inr [OF assms(1,2) _ a] by simp
qed

text \<open>Where an outline entry points to, before and after the merge.\<close>

definition target :: "'p list \<Rightarrow> outline_entry \<Rightarrow> 'p option" where
  "target ps e = map_option (\<lambda>q. ps ! nat (q - 1)) (ol_page e)"

definition selected :: "page_range list option \<Rightarrow> int \<Rightarrow> bool" where
  "selected r p = (case r of None \<Rightarrow> True | Some rs \<Rightarrow> p \<in> set (rangesToPageNumbers rs))"

definition kept_target :: "page_range list option \<Rightarrow> 'p list \<Rightarrow> outline_entry \<Rightarrow> 'p option" where
  "kept_target r ps e = (case ol_page e of None \<Rightarrow> None
     | Some p \<Rightarrow> if p > 0 \<and> selected r p then Some (ps ! nat (p - 1)) else None)"

fun kept_targets ::
  "('b \<Rightarrow> 'p list) \<Rightarrow> ('b \<Rightarrow> outline_entry list) \<Rightarrow> page_range list option list \<Rightarrow> nat \<Rightarrow> 'b list \<Rightarrow>
   'p option list" where
  "kept_targets bp bol rs i [] = []"
| "kept_targets bp bol rs i (b # bs) =
     map (kept_target (ranges_at rs i) (bp b)) (bol b) @ kept_targets bp bol rs (Suc i) bs"

text \<open>No source outline points past the end of its own document.\<close>

definition outline_in_range :: "('b \<Rightarrow> 'p list) \<Rightarrow> ('b \<Rightarrow> outline_entry list) \<Rightarrow> 'b \<Rightarrow> bool" where
  "outline_in_range bp bol b \<longleftrightarrow>
     (\<forall>e\<in>set (bol b). \<forall>p. ol_page e = Some p \<longrightarrow> p \<le> int (length (bp b)))"

lemma position_map_get:
  "map_get (position_map i ns m) p =
    (case map_get m p of Some q \<Rightarrow> Some q
     | None \<Rightarrow> map_option (\<lambda>j. int i + int j + 1) (find_index (\<lambda>x. x = p) ns))"
proof (induction ns arbitrary: i m)
  case Nil
  then show ?case by (simp split: option.split)
next
  case (Cons n ns)
  then show ?case
    by (auto simp: map_has_def js_simps option.map_comp o_def split: option.split)
qed

lemma position_of_Some:
  "position_of r p = Some q \<Longrightarrow> (case r of None \<Rightarrow> q = p
     | Some rs \<Rightarrow> 1 \<le> q \<and> nat (q - 1) < length (rangesToPageNumbers rs) \<and> rangesToPageNumbers rs ! nat (q - 1) = p)"
  by (auto simp: position_of_def position_map_get find_index_Some split: option.splits)

lemma position_of_None: "position_of r p = None \<longleftrightarrow> \<not> selected r p"
  by (auto simp: position_of_def position_map_get selected_def find_index_None split: option.split)

lemma remap_target:
  assumes "\<forall>p. ol_page e = Some p \<longrightarrow> p \<le> int (length ps)"
  shows "target (pre @ part_pages r ps @ post) (remap_entry r (int (length pre)) e) = kept_target r ps e"
proof (cases "ol_page e")
  case None
  then show ?thesis by (simp add: target_def remap_entry_def kept_target_def)
next
  case (Some p)
  show ?thesis
  proof (cases "p > 0 \<and> selected r p")
    case False
    moreover have "position_of r p = None" if "p > 0" using False that position_of_None by blast
    ultimately show ?thesis
      using Some by (auto simp: target_def remap_entry_def kept_target_def)
  next
    case True
    then obtain q where q: "position_of r p = Some q"
      using position_of_None [of r p] by (cases "position_of r p") auto
    have len: "p \<le> int (length ps)" using assms Some by simp
    have n: "1 \<le> q" "nat (q - 1) < length (part_pages r ps)" "part_pages r ps ! nat (q - 1) = ps ! nat (p - 1)"
      using position_of_Some [OF q] True len
      by (auto simp: part_pages_def pages_at_def split: option.splits)
    have "nat (q + int (length pre) - 1) = length pre + nat (q - 1)"
      using n(1) by simp
    then have "(pre @ part_pages r ps @ post) ! nat (q + int (length pre) - 1) = ps ! nat (p - 1)"
      using n by (simp add: nth_append)
    then show ?thesis
      using Some True q by (simp add: target_def remap_entry_def kept_target_def)
  qed
qed

lemma merged_targets:
  assumes "\<forall>b\<in>set bufs. outline_in_range bp bol b"
  shows "map (target (pre @ merged_pages bp rs i bufs)) (merged_outline bp bol rs i (int (length pre)) bufs)
    = kept_targets bp bol rs i bufs"
  using assms
proof (induction bufs arbitrary: i pre)
  case Nil
  then show ?case by simp
next
  case (Cons b bufs)
  let ?part = "part_pages (ranges_at rs i) (bp b)"
  have "map (target ((pre @ ?part) @ merged_pages bp rs (Suc i) bufs))
      (merged_outline bp bol rs (Suc i) (int (length (pre @ ?part))) bufs) = kept_targets bp bol rs (Suc i) bufs"
    using Cons.prems by (intro Cons.IH) simp
  moreover have "map (target (pre @ ?part @ merged_pages bp rs (Suc i) bufs))
      (map (remap_entry (ranges_at rs i) (int (length pre))) (bol b)) = map (kept_target (ranges_at rs i) (bp b)) (bol b)"
    using Cons.prems by (auto simp: outline_in_range_def intro!: remap_target)
  ultimately show ?case by simp
qed

lemma merged_titles:
  "map (\<lambda>e. (ol_level e, ol_title e)) (merged_outline bp bol rs i off bufs)
    = concat (map (\<lambda>b. map (\<lambda>e. (ol_level e, ol_title e)) (bol b)) bufs)"
  by (induction bufs arbitrary: i off) (auto simp: remap_entry_def)

text \<open>C10: A merge that succeeds holds the selected pages of the sources in order, whether or not they have
  bookmarks. When some source has one, every source entry is there once, in order, with its level and
  title; and when the sources' entries point into their own documents, each points at the very page it
  pointed at in its source when that page was selected, at no page otherwise.\<close>

theorem merge_pages_and_bookmarks:
  assumes "engine_pages E dp bp" and "engine_outline E bol"
    and "mergePDFs E bufs rs w = (Inr out, w')"
  shows "bp out = merged_pages bp rs 0 bufs
    \<and> ((\<exists>b\<in>set bufs. bol b \<noteq> []) \<longrightarrow>
        map (\<lambda>e. (ol_level e, ol_title e)) (bol out)
          = concat (map (\<lambda>b. map (\<lambda>e. (ol_level e, ol_title e)) (bol b)) bufs)
      \<and> ((\<forall>b\<in>set bufs. outline_in_range bp bol b) \<longrightarrow> map (target (bp out)) (bol out) = kept_targets bp bol rs 0 bufs))"
proof -
  have "merged_outline bp bol rs 0 0 bufs \<noteq> []" if "\<exists>b\<in>set bufs. bol b \<noteq> []"
  proof
    assume "merged_outline bp bol rs 0 0 bufs = []"
    then have "concat (map (\<lambda>b. map (\<lambda>e. (ol_level e, ol_title e)) (bol b)) bufs) = []"
      using merged_titles [of bp bol rs 0 0 bufs] by simp
    then show False
      using that by simp
  qed
  then show ?thesis
    using mergePDFs_Inr [OF assms] merged_targets [of bufs bp bol "[]" rs 0] merged_titles [of bp bol rs 0 0 bufs]
    by auto
qed

lemma merge_pages_and_bookmarks_witness:
  "\<exists>out w'. mergePDFs list_engine
      [list_doc_of [1, 2] [\<lparr>ol_level = 0, ol_title = ''a'', ol_page = Some 2\<rparr>],
       list_doc_of [3, 4, 5] [\<lparr>ol_level = 0, ol_title = ''b'', ol_page = Some 3\<rparr>, \<lparr>ol_level = 1, ol_title = ''c'', ol_page = Some 1\<rparr>]]
      [None, Some [\<lparr>pr_start = 2, pr_end = 3\<rparr>]] empty_world = (Inr out, w')
     \<and> ld_pages out = [1, 2, 4, 5] \<and> map (target (ld_pages out)) (ld_outline out) = [Some 2, Some 5, None]"
proof -
  let ?bs = "[list_doc_of [1, 2] [\<lparr>ol_level = 0, ol_title = ''a'', ol_page = Some 2\<rparr>],
       list_doc_of [3, 4, 5] [\<lparr>ol_level = 0, ol_title = ''b'', ol_page = Some 3\<rparr>, \<lparr>ol_level = 1, ol_title = ''c'', ol_page = Some 1\<rparr>]]"
  let ?rs = "[None, Some [\<lparr>pr_start = 2, pr_end = 3\<rparr>]] :: page_range list option list"
  have "case mergePDFs list_engine ?bs ?rs empty_world of (Inr out, w') \<Rightarrow> True | _ \<Rightarrow> False"
    by code_simp
  then obtain out w' where m: "mergePDFs list_engine ?bs ?rs empty_world = (Inr out, w')"
    by (auto split: prod.splits sum.splits)
  have "\<forall>b\<in>set ?bs. outline_in_range ld_pages ld_outline b" "\<exists>b\<in>set ?bs. ld_outline b \<noteq> []"
    by (simp_all add: outline_in_range_def list_doc_of_def)
  with merge_pages_and_bookmarks [OF list_engine_pages list_engine_outline m]
  have "ld_pages out = merged_pages ld_pages ?rs 0 ?bs
    \<and> map (target (ld_pages out)) (ld_outline out) = kept_targets ld_pages ld_outline ?rs 0 ?bs" by blast
  moreover have "merged_pages ld_pages ?rs 0 ?bs = [1, 2, 4, 5]" "kept_targets ld_pages ld_outline ?rs 0 ?bs = [Some 2, Some 5, None]"
    by code_simp+
  ultimately show ?thesis
    using m by auto
qed

end
