(* ===== verification/Document_Handle.thy ===== *)
theory Document_Handle
  imports Engine Js_Strings
begin

text \<open>
  \<open>packages/pdf-engine/src/engine/document-handle.ts\<close>: open, save and close of a document
  handle, the dirty flags (a \<open>WeakMap\<close>) and the set of freed documents, page extraction and
  page dimensions. Reading a file by path is input/output and not modelled: the source is the
  buffer.
\<close>

record pdf_handle =
  ph_id :: uuid
  ph_wasEncrypted :: bool
  ph_doc :: nat

definition set_dirty :: "nat \<Rightarrow> bool \<Rightarrow> 'd world \<Rightarrow> 'd world" where
  "set_dirty k b w = w\<lparr>wd_dirty := AList.update k b (wd_dirty w)\<rparr>"

definition markDirty :: "nat \<Rightarrow> 'd world \<Rightarrow> 'd world" where
  "markDirty k w = set_dirty k True w"

definition is_dirty :: "pdf_handle \<Rightarrow> 'd world \<Rightarrow> bool" where
  "is_dirty h w = (case map_get (wd_dirty w) (ph_doc h) of None \<Rightarrow> False | Some b \<Rightarrow> b)"

text \<open>\<open>%\<close> on integers takes the sign of the dividend.\<close>

definition js_imod :: "int \<Rightarrow> int \<Rightarrow> int" where
  "js_imod a b = (if a < 0 then - ((- a) mod b) else a mod b)"

definition normalizeRotation :: "int \<Rightarrow> int" where
  "normalizeRotation angle =
     (let n = js_imod (js_imod angle 360 + 360) 360
      in if n = 90 \<or> n = 180 \<or> n = 270 then n else 0)"

text \<open>A password counts when it is present and not empty.\<close>

definition given :: "string option \<Rightarrow> bool" where
  "given p = (p \<noteq> None \<and> p \<noteq> Some [])"

definition open_error :: "string \<Rightarrow> pdf_error" where
  "open_error msg = (if js_includes ''encrypt'' (js_lower msg) then Encrypted_error
     else Parse_error (''Failed to open PDF: '' @ msg))"

definition detect_encrypted :: "('b, 'd) engine \<Rightarrow> 'b \<Rightarrow> bool" where
  "detect_encrypted E b = (case en_encryptionInfo E b of Inl msg \<Rightarrow> False | Inr (enc, p) \<Rightarrow> enc)"

definition openDocument ::
  "('b, 'd) engine \<Rightarrow> uuid \<Rightarrow> 'b \<Rightarrow> string option \<Rightarrow> ('d, pdf_handle) eff" where
  "openDocument E fresh data password =
     (let isEncrypted = detect_encrypted E data in
      if isEncrypted \<and> \<not> given password then eff_throw Encrypted_error
      else eff_bind
        (if isEncrypted \<and> given password
         then eff_bind (eff_lift open_error (en_openEncrypted E data (the password)))
           (\<lambda>opened. case opened of None \<Rightarrow> eff_throw Invalid_password | Some d \<Rightarrow> alloc_doc d)
         else open_doc E open_error data)
        (\<lambda>k w. (Inr \<lparr>ph_id = fresh, ph_wasEncrypted = isEncrypted, ph_doc = k\<rparr>, set_dirty k False w)))"

definition saveDocument ::
  "('b, 'd) engine \<Rightarrow> pdf_handle \<Rightarrow> bool option \<Rightarrow> ('d, 'b) eff" where
  "saveDocument E h useObjectStreams =
     eff_bind (call_doc (ph_doc h)
         (if useObjectStreams = Some False then en_save E else en_saveCompressed E))
       (\<lambda>bytes w. (Inr bytes, set_dirty (ph_doc h) False w))"

definition closeDocument :: "pdf_handle \<Rightarrow> 'd world \<Rightarrow> 'd world" where
  "closeDocument h w =
     (if ph_doc h \<in> set (wd_closed w) then w
      else close_doc (ph_doc h) (w\<lparr>wd_closed := set_add (ph_doc h) (wd_closed w),
             wd_dirty := AList.delete (ph_doc h) (wd_dirty w)\<rparr>))"

text \<open>The validation loop stops at the first page number out of range.\<close>

fun check_pages :: "int \<Rightarrow> int list \<Rightarrow> ('d, unit) eff" where
  "check_pages n [] = eff_return ()"
| "check_pages n (p # ps) = (if p < 1 \<or> p > n then eff_throw (Page_out_of_range p n) else check_pages n ps)"

definition extractPages ::
  "('b, 'd) engine \<Rightarrow> uuid \<Rightarrow> pdf_handle \<Rightarrow> int list \<Rightarrow> ('d, pdf_handle) eff" where
  "extractPages E fresh h pageNumbers =
     (if length pageNumbers = 0
      then eff_throw (Plain_error ''extractPages requires a non-empty array of page numbers.'')
      else eff_bind (read_doc (ph_doc h) (en_pageCount E)) (\<lambda>n.
        eff_bind (check_pages n pageNumbers) (\<lambda>_.
        eff_bind (call_doc (ph_doc h) (en_extractPages E pageNumbers)) (\<lambda>bytes.
        openDocument E fresh bytes None))))"

record metadata_update =
  mu_title :: "string option option"
  mu_author :: "string option option"
  mu_subject :: "string option option"
  mu_keywords :: "string list option"
  mu_creator :: "string option option"
  mu_producer :: "string option option"

text \<open>\<open>if (v !== undefined) doc.setMetadata(key, v ?? '')\<close>\<close>

definition put_meta :: "('b, 'd) engine \<Rightarrow> string \<Rightarrow> string option option \<Rightarrow> 'd \<Rightarrow> 'd" where
  "put_meta E key v d = (case v of None \<Rightarrow> d
     | Some x \<Rightarrow> en_setMetadata E key (case x of None \<Rightarrow> [] | Some t \<Rightarrow> t) d)"

definition setMetadata ::
  "('b, 'd) engine \<Rightarrow> pdf_handle \<Rightarrow> metadata_update \<Rightarrow> ('d, unit) eff" where
  "setMetadata E h m =
     eff_bind (mutate_doc (ph_doc h) (\<lambda>d.
       Inr (put_meta E ''Producer'' (mu_producer m)
           (put_meta E ''Creator'' (mu_creator m)
           (put_meta E ''Keywords'' (map_option (\<lambda>ks. Some (js_join '', '' ks)) (mu_keywords m))
           (put_meta E ''Subject'' (mu_subject m)
           (put_meta E ''Author'' (mu_author m)
           (put_meta E ''Title'' (mu_title m) d))))))))
       (\<lambda>u w. (Inr (), markDirty (ph_doc h) w))"

definition getPageDimensions ::
  "('b, 'd) engine \<Rightarrow> pdf_handle \<Rightarrow> int \<Rightarrow> ('d, jsnum \<times> jsnum \<times> int) eff" where
  "getPageDimensions E h pageNumber =
     eff_bind (read_doc (ph_doc h) (en_pageCount E)) (\<lambda>n.
       if pageNumber < 1 \<or> pageNumber > n then eff_throw (Page_out_of_range pageNumber n)
       else eff_bind (read_doc (ph_doc h) (en_pageInfo E pageNumber)) (\<lambda>info.
         eff_return (pi_width info, pi_height info, normalizeRotation (pi_rotation info))))"

section \<open>Properties\<close>

lemma normalizeRotation_range: "normalizeRotation a \<in> {0, 90, 180, 270}"
  by (simp add: normalizeRotation_def Let_def)

lemma js_imod_mod: "js_imod (js_imod a 360 + 360) 360 = a mod 360"
proof (cases "a < 0")
  case True
  have "(- ((- a) mod 360) + 360) mod 360 = a mod 360"
    by (simp add: zmod_zminus1_eq_if) (metis less_irrefl pos_mod_bound zero_less_numeral)
  moreover have "0 \<le> - ((- a) mod 360) + 360"
    using pos_mod_bound [of 360 "- a"] by simp
  ultimately show ?thesis
    using True by (simp add: js_imod_def)
next
  case False
  then show ?thesis by (simp add: js_imod_def)
qed

lemma normalizeRotation_mod: "a mod 90 = 0 \<Longrightarrow> normalizeRotation a = a mod 360"
proof -
  assume "a mod 90 = 0"
  then obtain c where "a = 90 * c" by (auto simp: mod_eq_0_iff_dvd elim: dvdE)
  then have "a mod 360 = 90 * (c mod 4)"
    using mult_mod_right [of 90 c 4] by simp
  moreover have "c mod 4 \<in> {0, 1, 2, 3}"
    using pos_mod_bound [of 4 c] pos_mod_sign [of 4 c] by auto
  ultimately show ?thesis
    by (auto simp: normalizeRotation_def js_imod_mod Let_def)
qed

text \<open>A freed document is not live, and its handle stays in the set of freed ones.\<close>

definition handles_ok :: "'d world \<Rightarrow> bool" where
  "handles_ok w \<longleftrightarrow> world_ok w
     \<and> (\<forall>k\<in>set (wd_closed w). k < wd_next w \<and> \<not> map_has (wd_docs w) k)"

definition handle_known :: "pdf_handle \<Rightarrow> 'd world \<Rightarrow> bool" where
  "handle_known h w \<longleftrightarrow> map_has (wd_docs w) (ph_doc h) \<or> ph_doc h \<in> set (wd_closed w)"

lemma closeDocument_ok:
  assumes "handles_ok w" "handle_known h w"
  shows "handles_ok (closeDocument h w)" "ph_doc h \<in> set (wd_closed (closeDocument h w))"
    "wd_trapped (closeDocument h w) = wd_trapped w"
    "\<not> map_has (wd_docs (closeDocument h w)) (ph_doc h)"
    "AList.delete (ph_doc h) (wd_docs (closeDocument h w)) = AList.delete (ph_doc h) (wd_docs w)"
  using assms
  by (auto simp: handles_ok_def handle_known_def closeDocument_def close_doc_def world_ok_def
      map_has_def js_simps delete_idem split: if_splits)

lemma close_again: "ph_doc h \<in> set (wd_closed w) \<Longrightarrow> (closeDocument h ^^ n) w = w"
  by (induction n) (auto simp: closeDocument_def)

text \<open>Closing a handle any number of times frees its document once: the engine never traps, the
  other documents stay as they are, and every close after the first changes nothing.\<close>

lemma close_is_idempotent:
  assumes "handles_ok w" and "handle_known h w"
  shows "(closeDocument h ^^ Suc n) w = closeDocument h w
    \<and> wd_trapped (closeDocument h w) = wd_trapped w
    \<and> \<not> map_has (wd_docs (closeDocument h w)) (ph_doc h)
    \<and> AList.delete (ph_doc h) (wd_docs (closeDocument h w)) = AList.delete (ph_doc h) (wd_docs w)"
  using closeDocument_ok [OF assms] close_again [of h "closeDocument h w" n]
  by (simp add: funpow_swap1 del: funpow.simps) (simp add: funpow_swap1)

lemma close_is_idempotent_witness:
  "(closeDocument \<lparr>ph_id = ''h'', ph_wasEncrypted = False, ph_doc = 0\<rparr> ^^ 3)
     \<lparr>wd_docs = [(0, list_doc_of [1] [])], wd_next = 1, wd_trapped = False, wd_dirty = [], wd_closed = []\<rparr>
   = \<lparr>wd_docs = [], wd_next = 1, wd_trapped = False, wd_dirty = [], wd_closed = [0]\<rparr>"
proof -
  let ?w = "\<lparr>wd_docs = [(0, list_doc_of [1] [])], wd_next = 1, wd_trapped = False, wd_dirty = [], wd_closed = []\<rparr>"
  let ?h = "\<lparr>ph_id = ''h'', ph_wasEncrypted = False, ph_doc = 0\<rparr>"
  have "handles_ok ?w" "handle_known ?h ?w"
    by (auto simp: handles_ok_def handle_known_def world_ok_def map_has_def wf_map_def split: if_splits)
  from close_is_idempotent [OF this, of 2] show ?thesis
    by (simp add: closeDocument_def close_doc_def map_has_def set_add_def numeral_3_eq_3 numeral_2_eq_2)
qed

end
