(* ===== verification/Page_Ops.thy ===== *)
theory Page_Ops
  imports Document_Handle Document_Store
begin

text \<open>
  \<open>packages/pdf-engine/src/engine/page-ops.ts\<close>: page operations on an open handle. Each
  validates its page number against the live page count, calls the engine and marks the
  document dirty. The refinement theorems read the document as its list of pages.
\<close>

definition DEFAULT_PAGE_WIDTH :: jsnum where "DEFAULT_PAGE_WIDTH = 612"
definition DEFAULT_PAGE_HEIGHT :: jsnum where "DEFAULT_PAGE_HEIGHT = 792"

definition validatePageNumber :: "int \<Rightarrow> int \<Rightarrow> ('d, unit) eff" where
  "validatePageNumber pageNumber pageCount =
     (if pageNumber < 1 \<or> pageNumber > pageCount
      then eff_throw (Page_out_of_range pageNumber pageCount) else eff_return ())"

text \<open>An engine call that does not throw, followed by \<open>markDirty\<close>.\<close>

definition change_doc :: "nat \<Rightarrow> ('d \<Rightarrow> 'd) \<Rightarrow> ('d, unit) eff" where
  "change_doc k f = mutate_doc k (\<lambda>d. Inr (f d))"

definition mark :: "nat \<Rightarrow> 'a \<Rightarrow> ('d, 'a) eff" where
  "mark k a w = (Inr a, markDirty k w)"

definition pdf_addPage ::
  "('b, 'd) engine \<Rightarrow> pdf_handle \<Rightarrow> int \<Rightarrow> jsnum option \<Rightarrow> jsnum option \<Rightarrow> ('d, int) eff" where
  "pdf_addPage E h position width height =
     eff_bind (read_doc (ph_doc h) (en_pageCount E)) (\<lambda>pageCount.
       let clampedPosition = max 1 (min position (pageCount + 1)) in
       eff_bind (change_doc (ph_doc h) (en_addPage E (or_keep width DEFAULT_PAGE_WIDTH)
           (or_keep height DEFAULT_PAGE_HEIGHT) (clampedPosition - 1)))
         (\<lambda>_. mark (ph_doc h) clampedPosition))"

definition pdf_deletePage :: "('b, 'd) engine \<Rightarrow> pdf_handle \<Rightarrow> int \<Rightarrow> ('d, unit) eff" where
  "pdf_deletePage E h pageNumber =
     eff_bind (read_doc (ph_doc h) (en_pageCount E)) (\<lambda>n.
     eff_bind (validatePageNumber pageNumber n) (\<lambda>_.
     eff_bind (change_doc (ph_doc h) (en_deletePage E pageNumber)) (\<lambda>_. mark (ph_doc h) ())))"

definition pdf_movePage :: "('b, 'd) engine \<Rightarrow> pdf_handle \<Rightarrow> int \<Rightarrow> int \<Rightarrow> ('d, unit) eff" where
  "pdf_movePage E h fromPage toPage =
     eff_bind (read_doc (ph_doc h) (en_pageCount E)) (\<lambda>n.
     eff_bind (validatePageNumber fromPage n) (\<lambda>_.
     eff_bind (validatePageNumber toPage n) (\<lambda>_.
       if fromPage = toPage then eff_return ()
       else eff_bind (change_doc (ph_doc h) (en_movePage E fromPage toPage)) (\<lambda>_. mark (ph_doc h) ()))))"

datatype rotate_mode = Rotate_set | Rotate_delta

definition pdf_rotatePage ::
  "('b, 'd) engine \<Rightarrow> pdf_handle \<Rightarrow> int \<Rightarrow> int \<Rightarrow> rotate_mode \<Rightarrow> ('d, unit) eff" where
  "pdf_rotatePage E h pageNumber angle mode =
     eff_bind (read_doc (ph_doc h) (en_pageCount E)) (\<lambda>n.
     eff_bind (validatePageNumber pageNumber n) (\<lambda>_.
     eff_bind (read_doc (ph_doc h) (\<lambda>d. pi_rotation (en_pageInfo E pageNumber d))) (\<lambda>current.
       let target = (if mode = Rotate_delta then current + angle else angle) in
       eff_bind (change_doc (ph_doc h) (en_rotatePage E pageNumber target)) (\<lambda>_. mark (ph_doc h) ()))))"

definition copy_target :: "int option \<Rightarrow> int \<Rightarrow> int" where
  "copy_target targetPosition pageCount =
     (case targetPosition of None \<Rightarrow> pageCount | Some p \<Rightarrow> max 1 (min p pageCount))"

definition copy_within ::
  "('b, 'd) engine \<Rightarrow> nat \<Rightarrow> int \<Rightarrow> int option \<Rightarrow> ('d, int) eff" where
  "copy_within E k sourcePageNumber targetPosition =
     eff_bind (change_doc k (en_copyPage E sourcePageNumber)) (\<lambda>_.
     let insertedAt = sourcePageNumber + 1 in
     eff_bind (read_doc k (en_pageCount E)) (\<lambda>pageCount.
     let target = copy_target targetPosition pageCount in
     eff_bind (if target \<noteq> insertedAt then change_doc k (en_movePage E insertedAt target)
               else eff_return ()) (\<lambda>_. mark k target)))"

definition copy_across ::
  "('b, 'd) engine \<Rightarrow> nat \<Rightarrow> nat \<Rightarrow> int \<Rightarrow> int option \<Rightarrow> ('d, int) eff" where
  "copy_across E src tgt sourcePageNumber targetPosition =
     eff_bind (call_doc src (en_extractPages E [sourcePageNumber])) (\<lambda>onePage.
     eff_bind (mutate_doc tgt (en_appendPages E onePage)) (\<lambda>_.
     eff_bind (read_doc tgt (en_pageCount E)) (\<lambda>appendedAt.
     eff_bind (read_doc tgt (en_pageCount E)) (\<lambda>pageCount.
     let insertAt = copy_target targetPosition pageCount in
     eff_bind (if insertAt \<noteq> appendedAt then change_doc tgt (en_movePage E appendedAt insertAt)
               else eff_return ()) (\<lambda>_. mark tgt insertAt)))))"

definition pdf_copyPage ::
  "('b, 'd) engine \<Rightarrow> pdf_handle \<Rightarrow> int \<Rightarrow> pdf_handle option \<Rightarrow> int option \<Rightarrow> ('d, int) eff" where
  "pdf_copyPage E h sourcePageNumber targetHandle targetPosition =
     eff_bind (read_doc (ph_doc h) (en_pageCount E)) (\<lambda>n.
     eff_bind (validatePageNumber sourcePageNumber n) (\<lambda>_.
       case targetHandle of
         None \<Rightarrow> copy_within E (ph_doc h) sourcePageNumber targetPosition
       | Some t \<Rightarrow> if t = h then copy_within E (ph_doc h) sourcePageNumber targetPosition
           else copy_across E (ph_doc h) (ph_doc t) sourcePageNumber targetPosition))"

definition pdf_resizePage ::
  "('b, 'd) engine \<Rightarrow> pdf_handle \<Rightarrow> int \<Rightarrow> jsnum \<Rightarrow> jsnum \<Rightarrow> ('d, unit) eff" where
  "pdf_resizePage E h pageNumber width height =
     eff_bind (read_doc (ph_doc h) (en_pageCount E)) (\<lambda>n.
     eff_bind (validatePageNumber pageNumber n) (\<lambda>_.
     eff_bind (change_doc (ph_doc h) (en_resizePage E pageNumber width height)) (\<lambda>_. mark (ph_doc h) ())))"

section \<open>The page list of a handle\<close>

definition pages_of :: "('d \<Rightarrow> 'p list) \<Rightarrow> pdf_handle \<Rightarrow> 'd world \<Rightarrow> 'p list option" where
  "pages_of dp h w = map_option dp (map_get (wd_docs w) (ph_doc h))"

lemma change_doc_live:
  "map_get (wd_docs w) k = Some d \<Longrightarrow>
   change_doc k f w = (Inr (), w\<lparr>wd_docs := AList.update k (f d) (wd_docs w)\<rparr>)"
  by (simp add: change_doc_def mutate_doc_def)

lemma eff_bind_step: "m w = (Inr a, w1) \<Longrightarrow> eff_bind m f w = f a w1"
  by (simp add: eff_bind_def)

lemma eff_bind_fail: "m w = (Inl e, w1) \<Longrightarrow> eff_bind m f w = (Inl e, w1)"
  by (simp add: eff_bind_def)

lemma read_bind: "map_get (wd_docs w) k = Some d \<Longrightarrow> eff_bind (read_doc k f) g w = g (f d) w"
  by (simp add: eff_bind_step)

lemma change_bind:
  "map_get (wd_docs w) k = Some d \<Longrightarrow> eff_bind (change_doc k f) m w
     = m () (w\<lparr>wd_docs := AList.update k (f d) (wd_docs w)\<rparr>)"
  by (simp add: eff_bind_step change_doc_live)

lemma validate_bind:
  "eff_bind (validatePageNumber p n) m =
    (if p < 1 \<or> p > n then eff_throw (Page_out_of_range p n) else m ())"
  by (simp add: validatePageNumber_def)

lemma pages_of_mark [simp]: "pages_of dp h (markDirty k w) = pages_of dp h w"
  by (simp add: pages_of_def markDirty_def set_dirty_def)

lemma pages_of_update [simp]:
  "pages_of dp h (w\<lparr>wd_docs := AList.update (ph_doc h) d (wd_docs w)\<rparr>) = Some (dp d)"
  by (simp add: pages_of_def js_simps)

lemmas page_op_simps = read_bind change_bind validate_bind mark_def Let_def engine_pages_def
  engine_tree_def

text \<open>Adding a page clamps the position to the document and inserts a blank page exactly there;
  deleting removes exactly the numbered page; a page number outside the document is rejected
  with the range error and leaves the world as it was.\<close>

lemma add_delete_page:
  fixes pos n :: int
  assumes "engine_pages E dp bp" and "engine_tree E dp blank" and "pages_of dp h w = Some ps"
  defines "p \<equiv> max 1 (min pos (int (length ps) + 1))"
  shows "fst (pdf_addPage E h pos wd ht w) = Inr p
    \<and> pages_of dp h (snd (pdf_addPage E h pos wd ht w)) =
        Some (splice_ins (nat (p - 1)) (blank (or_keep wd DEFAULT_PAGE_WIDTH) (or_keep ht DEFAULT_PAGE_HEIGHT)) ps)
    \<and> (if 1 \<le> n \<and> n \<le> int (length ps)
       then pages_of dp h (snd (pdf_deletePage E h n w)) = Some (splice_del (nat (n - 1)) ps)
       else pdf_deletePage E h n w = (Inl (Page_out_of_range n (int (length ps))), w))"
proof -
  obtain d where d: "map_get (wd_docs w) (ph_doc h) = Some d" "dp d = ps"
    using assms(3) by (auto simp: pages_of_def)
  have "en_pageCount E d = int (length ps)"
    using assms(1) d(2) by (simp add: engine_pages_def)
  moreover have "0 \<le> p - 1 \<and> p - 1 \<le> int (length ps)"
    by (auto simp: p_def max_def min_def)
  ultimately show ?thesis
    using assms(2) d by (auto simp: pdf_addPage_def pdf_deletePage_def read_bind change_bind
        validate_bind mark_def Let_def engine_tree_def eff_throw_def simp flip: p_def)
qed

definition demo_world :: "list_doc world" where
  "demo_world = \<lparr>wd_docs = [(0, list_doc_of [7, 8, 9] [])], wd_next = 1, wd_trapped = False,
     wd_dirty = [], wd_closed = []\<rparr>"

definition demo_handle :: pdf_handle where
  "demo_handle = \<lparr>ph_id = ''h'', ph_wasEncrypted = False, ph_doc = 0\<rparr>"

lemma demo_pages: "pages_of ld_pages demo_handle demo_world = Some [7, 8, 9]"
  by (simp add: pages_of_def demo_handle_def demo_world_def list_doc_of_def)

lemma add_delete_page_witness:
  "pages_of ld_pages demo_handle (snd (pdf_addPage list_engine demo_handle 99 None None demo_world)) = Some [7, 8, 9, 0]
   \<and> pages_of ld_pages demo_handle (snd (pdf_deletePage list_engine demo_handle 2 demo_world)) = Some [7, 9]"
  using add_delete_page [OF list_engine_pages list_engine_tree demo_pages, of 99 None None 2]
  by (simp add: splice_ins_def splice_del_def)

text \<open>Moving a page puts it at the target position and keeps the order of all others; moving it
  back restores the document.\<close>

lemma move_page_there_and_back:
  fixes w :: "'d world" and dp :: "'d \<Rightarrow> 'p list"
  assumes "engine_pages E dp bp" and "engine_tree E dp blank" and "pages_of dp h w = Some ps"
    and "1 \<le> f" and "f \<le> int (length ps)" and "1 \<le> t" and "t \<le> int (length ps)"
  shows "\<exists>w1 w2 qs. pdf_movePage E h f t w = (Inr (), w1) \<and> pages_of dp h w1 = Some qs
    \<and> qs ! nat (t - 1) = ps ! nat (f - 1) \<and> splice_del (nat (t - 1)) qs = splice_del (nat (f - 1)) ps
    \<and> pdf_movePage E h t f w1 = (Inr (), w2) \<and> pages_of dp h w2 = Some ps"
proof (cases "f = t")
  case True
  obtain d where d: "map_get (wd_docs w) (ph_doc h) = Some d" "dp d = ps"
    using assms(3) by (auto simp: pages_of_def)
  moreover have "en_pageCount E d = int (length ps)"
    using assms(1) d(2) by (simp add: engine_pages_def)
  ultimately have "pdf_movePage E h t t w = (Inr (), w)"
    using assms(6,7) by (simp add: pdf_movePage_def read_bind validate_bind)
  then show ?thesis
    using True assms(3) by simp
next
  case False
  let ?i = "nat (f - 1)" and ?j = "nat (t - 1)"
  let ?qs = "move_item ?i ?j ps"
  have ij: "?i < length ps" "?j < length ps"
    using assms(4-7) by auto
  have mv: "\<exists>v1. pdf_movePage E h a b v = (Inr (), v1) \<and> pages_of dp h v1 = Some (move_item (nat (a - 1)) (nat (b - 1)) xs)"
    if v: "pages_of dp h v = Some xs" "1 \<le> a" "a \<le> int (length xs)" "1 \<le> b" "b \<le> int (length xs)" "a \<noteq> b"
    for v :: "'d world" and xs :: "'p list" and a b
  proof -
    obtain d where d: "map_get (wd_docs v) (ph_doc h) = Some d" "dp d = xs"
      using v(1) by (auto simp: pages_of_def)
    moreover have "en_pageCount E d = int (length xs)"
      using assms(1) d(2) by (simp add: engine_pages_def)
    ultimately show ?thesis
      using assms(2) v by (auto simp: pdf_movePage_def read_bind change_bind validate_bind mark_def
          engine_tree_def move_item_def)
  qed
  obtain w1 where 1: "pdf_movePage E h f t w = (Inr (), w1)" "pages_of dp h w1 = Some ?qs"
    using mv [OF assms(3-7) False] by blast
  have "length ?qs = length ps"
    using ij by (rule length_move_item)
  then obtain w2 where 2: "pdf_movePage E h t f w1 = (Inr (), w2)" "pages_of dp h w2 = Some (move_item ?j ?i ?qs)"
    using mv [OF 1(2), of t f] assms(4-7) False by auto
  have "splice_del ?j ?qs = splice_del ?i ps"
    using ij by (simp add: move_item_def splice_del_ins js_simps)
  then show ?thesis
    using 1 2 ij by (auto simp: nth_move_item move_item_back)
qed

lemma move_page_there_and_back_witness:
  "\<exists>w1 qs. pdf_movePage list_engine demo_handle 1 3 demo_world = (Inr (), w1)
     \<and> pages_of ld_pages demo_handle w1 = Some qs \<and> qs ! 2 = 7"
  using move_page_there_and_back [OF list_engine_pages list_engine_tree demo_pages, of 1 3] by auto

text \<open>Copying a page within its document returns the position of the copy: there the copy equals
  the source page, and without it the document is the old one. Without a target position the
  copy is the last page; a target outside the document is clamped into it.\<close>

lemma copy_page_position:
  assumes "engine_pages E dp bp" and "engine_tree E dp blank" and "pages_of dp h w = Some ps"
    and "1 \<le> n" and "n \<le> int (length ps)"
  shows "\<exists>w1 qs p. pdf_copyPage E h n None tp w = (Inr p, w1) \<and> pages_of dp h w1 = Some qs
    \<and> p = (case tp of None \<Rightarrow> int (length ps) + 1 | Some q \<Rightarrow> max 1 (min q (int (length ps) + 1)))
    \<and> qs ! nat (p - 1) = ps ! nat (n - 1) \<and> splice_del (nat (p - 1)) qs = ps"
proof -
  obtain d where d: "map_get (wd_docs w) (ph_doc h) = Some d" "dp d = ps"
    using assms(3) by (auto simp: pages_of_def)
  have pc: "en_pageCount E x = int (length (dp x))" for x
    using assms(1) by (simp add: engine_pages_def)
  let ?qs = "splice_ins (nat n) (ps ! nat (n - 1)) ps"
  define d1 where "d1 = en_copyPage E n d"
  have d1: "dp d1 = ?qs" "length ?qs = length ps + 1"
    using assms(2,4,5) d(2) by (simp_all add: d1_def engine_tree_def js_simps)
  define p where "p = copy_target tp (1 + int (length ps))"
  have p: "1 \<le> p" "p \<le> int (length ps) + 1"
    by (auto simp: p_def copy_target_def split: option.split)
  define w1 where "w1 = w\<lparr>wd_docs := AList.update (ph_doc h) d1 (wd_docs w)\<rparr>"
  have l1: "map_get (wd_docs w1) (ph_doc h) = Some d1"
    by (simp add: w1_def js_simps)
  have run: "pdf_copyPage E h n None tp w = eff_bind (if p \<noteq> n + 1 then change_doc (ph_doc h) (en_movePage E (n + 1) p)
      else eff_return ()) (\<lambda>_. mark (ph_doc h) p) w1"
    using assms(4,5) d pc d1 l1
    by (simp add: pdf_copyPage_def copy_within_def read_bind change_bind validate_bind Let_def p_def
        flip: d1_def w1_def)
  have pe: "p = (case tp of None \<Rightarrow> int (length ps) + 1 | Some q \<Rightarrow> max 1 (min q (int (length ps) + 1)))"
    by (simp add: p_def copy_target_def add.commute split: option.split)
  have at: "?qs ! nat n = ps ! nat (n - 1)" "splice_del (nat n) ?qs = ps"
    using assms(4,5) by (simp_all add: nth_splice_ins splice_del_ins)
  show ?thesis
  proof (cases "p = n + 1")
    case True
    then have "pdf_copyPage E h n None tp w = (Inr p, markDirty (ph_doc h) w1)"
      by (simp add: run mark_def)
    moreover have "pages_of dp h (markDirty (ph_doc h) w1) = Some ?qs"
      by (simp add: w1_def d1)
    ultimately show ?thesis
      unfolding pe [symmetric] using at True by auto
  next
    case False
    let ?rs = "splice_ins (nat (p - 1)) (ps ! nat (n - 1)) ps"
    have "dp (en_movePage E (n + 1) p d1) = ?rs"
      using assms(2,4,5) p d1 at by (simp add: engine_tree_def)
    moreover have "pdf_copyPage E h n None tp w = (Inr p, markDirty (ph_doc h)
        (w1\<lparr>wd_docs := AList.update (ph_doc h) (en_movePage E (n + 1) p d1) (wd_docs w1)\<rparr>))"
      using False l1 by (simp add: run change_bind mark_def)
    moreover have "?rs ! nat (p - 1) = ps ! nat (n - 1)" "splice_del (nat (p - 1)) ?rs = ps"
      using p by (simp_all add: nth_splice_ins splice_del_ins)
    ultimately show ?thesis
      unfolding pe [symmetric] by auto
  qed
qed

lemma copy_page_position_witness:
  "\<exists>w1 qs. pdf_copyPage list_engine demo_handle 2 None (Some 1) demo_world = (Inr 1, w1)
     \<and> pages_of ld_pages demo_handle w1 = Some qs \<and> qs ! 0 = 8"
  using copy_page_position [OF list_engine_pages list_engine_tree demo_pages, of 2 "Some 1"] by auto

end
