(* ===== verification/Encryption.thy ===== *)
theory Encryption
  imports Engine Permissions Document_Handle
begin

text \<open>
  \<open>packages/pdf-engine/src/encrypt\<close>: \<open>encryptPDF\<close>, \<open>decryptPDF\<close>, \<open>getPermissions\<close> and
  \<open>setPermissions\<close>. The random file id is an argument; the search for the PDF header in the
  first bytes of a buffer is the argument \<open>has_header\<close>.
\<close>

record encrypt_options =
  eo_userPassword :: "string option"
  eo_ownerPassword :: "string option"
  eo_algorithm :: "crypt_algorithm option"
  eo_permissions :: "partial_permissions option"

definition no_permissions :: partial_permissions where
  "no_permissions = \<lparr>pp_print = None, pp_modify = None, pp_copy = None, pp_annotate = None,
     pp_fillForms = None, pp_extract = None, pp_assemble = None, pp_printHighQuality = None\<rparr>"

definition encryptPDF ::
  "('b, 'd) engine \<Rightarrow> string \<Rightarrow> 'b \<Rightarrow> encrypt_options \<Rightarrow> ('d, 'b) eff" where
  "encryptPDF E fileId buffer options =
     (if \<not> given (eo_userPassword options) \<and> \<not> given (eo_ownerPassword options)
      then eff_throw (Engine_error ''At least one password must be provided'' ''PDF_ENCRYPT_NO_PASSWORD'')
      else eff_bind
        (open_doc E (\<lambda>msg. Engine_error (''Failed to load PDF for encryption: '' @ msg)
            ''PDF_ENCRYPT_LOAD_FAILED'') buffer)
        (\<lambda>k. eff_finally
           (let algorithm = (if eo_algorithm options = Some Aes128 then Aes128 else Aes256);
                perms = computePermissionFlags
                  (case eo_permissions options of None \<Rightarrow> no_permissions | Some p \<Rightarrow> p);
                userPassword = (case eo_userPassword options of None \<Rightarrow> [] | Some p \<Rightarrow> p)
            in call_doc k (en_saveEncrypted E userPassword fileId algorithm (eo_ownerPassword options) perms))
           (close_doc k)))"

definition decryptPDF :: "('b, 'd) engine \<Rightarrow> 'b \<Rightarrow> string \<Rightarrow> ('d, 'b) eff" where
  "decryptPDF E buffer password =
     eff_bind (eff_lift Plain_error (en_openEncrypted E buffer password)) (\<lambda>opened.
       case opened of None \<Rightarrow> eff_throw Invalid_password
       | Some d \<Rightarrow> eff_bind (alloc_doc d) (\<lambda>k.
           eff_finally
             (\<lambda>w. case call_doc k (en_save E) w of
                (Inl (Plain_error msg), w1) \<Rightarrow>
                  (Inl (Engine_error (''Failed to re-save decrypted PDF: '' @ msg) ''PDF_DECRYPT_SAVE_FAILED''), w1)
              | r \<Rightarrow> r)
             (close_doc k)))"

definition getPermissions ::
  "('b, 'd) engine \<Rightarrow> ('b \<Rightarrow> bool) \<Rightarrow> 'b \<Rightarrow> pdf_error + bool \<times> permissions" where
  "getPermissions E has_header buffer =
     (if \<not> has_header buffer
      then Inl (Engine_error ''Not a valid PDF document'' ''PDF_PERMISSIONS_LOAD_FAILED'')
      else case en_encryptionInfo E buffer of
        Inl msg \<Rightarrow> Inl (Plain_error msg)
      | Inr (encrypted, flags) \<Rightarrow>
          if \<not> encrypted then Inr (False, ALL_PERMISSIONS_ALLOWED)
          else Inr (True, parsePermissionFlags flags))"

definition setPermissions ::
  "('b, 'd) engine \<Rightarrow> string \<Rightarrow> 'b \<Rightarrow> partial_permissions \<Rightarrow> string \<Rightarrow> ('d, 'b) eff" where
  "setPermissions E fileId buffer perms ownerPassword =
     encryptPDF E fileId buffer \<lparr>eo_userPassword = None, eo_ownerPassword = Some ownerPassword,
       eo_algorithm = None, eo_permissions = Some perms\<rparr>"

text \<open>The one documented behaviour of the engine's encryption used here: a file it writes carries the flags given.\<close>

definition engine_flags :: "('b, 'd) engine \<Rightarrow> bool" where
  "engine_flags E \<longleftrightarrow> (\<forall>u fid alg ow p d b. en_saveEncrypted E u fid alg ow p d = Inr b \<longrightarrow>
     en_encryptionInfo E b = Inr (True, p))"

lemma list_engine_flags: "engine_flags list_engine"
  by (auto simp: engine_flags_def list_engine_def)

lemma encrypt_Inr:
  assumes "encryptPDF E fid buf opts w = (Inr out, w')"
  shows "\<exists>d alg. en_open E buf = Inr d
    \<and> en_saveEncrypted E (case eo_userPassword opts of None \<Rightarrow> [] | Some p \<Rightarrow> p) fid alg (eo_ownerPassword opts)
        (computePermissionFlags (case eo_permissions opts of None \<Rightarrow> no_permissions | Some p \<Rightarrow> p)) d = Inr out"
proof -
  have "given (eo_userPassword opts) \<or> given (eo_ownerPassword opts)"
    using assms by (auto simp: encryptPDF_def split: if_splits)
  then obtain k d w1 w2 where "en_open E buf = Inr d" "map_get (wd_docs w1) k = Some d"
    "call_doc k (en_saveEncrypted E (case eo_userPassword opts of None \<Rightarrow> [] | Some p \<Rightarrow> p) fid
        (if eo_algorithm opts = Some Aes128 then Aes128 else Aes256) (eo_ownerPassword opts)
        (computePermissionFlags (case eo_permissions opts of None \<Rightarrow> no_permissions | Some p \<Rightarrow> p))) w1 = (Inr out, w2)"
    using assms by (auto simp: encryptPDF_def Let_def dest!: with_doc_Inr)
  then show ?thesis
    by (auto simp: call_doc_live)
qed

lemma decrypt_result:
  assumes "world_ok w"
  shows "en_openEncrypted E buf pw = Inr None \<Longrightarrow> fst (decryptPDF E buf pw w) = Inl Invalid_password"
    and "en_openEncrypted E buf pw = Inr (Some d) \<Longrightarrow> en_save E d = Inr b \<Longrightarrow>
      fst (decryptPDF E buf pw w) = Inr b"
  by (simp_all add: decryptPDF_def eff_throw_def eff_bind_def alloc_doc_def eff_finally_def
      call_doc_def js_simps)

text \<open>After a successful encryption the permissions read from the document are exactly the
  requested ones (an absent permission counts as allowed), whoever reads them.\<close>

lemma encrypt_then_read:
  assumes "engine_flags E" and "encryptPDF E fid buf opts w = (Inr out, w')" and "has_header out"
  shows "getPermissions E has_header out
      = Inr (True, effective (case eo_permissions opts of None \<Rightarrow> no_permissions | Some p \<Rightarrow> p))"
proof -
  let ?p = "case eo_permissions opts of None \<Rightarrow> no_permissions | Some p \<Rightarrow> p"
  have "en_encryptionInfo E out = Inr (True, computePermissionFlags ?p)"
    using assms(1) encrypt_Inr [OF assms(2)] unfolding engine_flags_def by blast
  then show ?thesis
    using assms(3) flags_roundtrip by (simp add: getPermissions_def)
qed

definition demo_options :: encrypt_options where
  "demo_options = \<lparr>eo_userPassword = None, eo_ownerPassword = Some ''secret'', eo_algorithm = None,
     eo_permissions = Some (no_permissions\<lparr>pp_print := Some False\<rparr>)\<rparr>"

lemma encrypt_then_read_witness:
  "\<exists>out w'. encryptPDF list_engine ''id'' (list_doc_of [1, 2] []) demo_options empty_world = (Inr out, w')
     \<and> getPermissions list_engine (\<lambda>b. True) out = Inr (True, ALL_PERMISSIONS_ALLOWED\<lparr>pm_print := False\<rparr>)"
proof -
  have "case encryptPDF list_engine ''id'' (list_doc_of [1, 2] []) demo_options empty_world of
      (Inr out, w') \<Rightarrow> True | _ \<Rightarrow> False"
    by (simp add: encryptPDF_def demo_options_def given_def eff_bind_def open_doc_def eff_lift_def
        alloc_doc_def eff_finally_def call_doc_def list_engine_def list_doc_of_def empty_world_def)
  then obtain out w' where e: "encryptPDF list_engine ''id'' (list_doc_of [1, 2] []) demo_options empty_world = (Inr out, w')"
    by (auto split: prod.splits sum.splits)
  show ?thesis
    using encrypt_then_read [OF list_engine_flags e, of "\<lambda>b. True"] e
    by (simp add: demo_options_def effective_def no_permissions_def granted_def ALL_PERMISSIONS_ALLOWED_def)
qed

end
