(* ===== verification/Form_Filler.thy ===== *)
theory Form_Filler
  imports Engine Elements Js_Strings
begin

text \<open>
  \<open>applyFieldValuesOnHandle\<close> of \<open>packages/pdf-engine/src/forms/filler.ts\<close>: one value per field
  name, dispatched on the kind the engine reports. The form setters of the engine are a record
  of functions that answer whether the value was accepted.
\<close>

datatype acro_kind = Fk_text | Fk_checkbox | Fk_radio | Fk_combo | Fk_list | Fk_pushbutton
  | Fk_signature | Fk_unknown

record 'd field_api =
  fa_fields :: "'d \<Rightarrow> (string \<times> acro_kind) list"
  fa_setText :: "string \<Rightarrow> string \<Rightarrow> 'd \<Rightarrow> bool \<times> 'd"
  fa_setCheckbox :: "string \<Rightarrow> bool \<Rightarrow> 'd \<Rightarrow> bool \<times> 'd"
  fa_setCheckboxState :: "(string \<Rightarrow> string \<Rightarrow> 'd \<Rightarrow> bool \<times> 'd) option"
  fa_setRadio :: "string \<Rightarrow> string \<Rightarrow> 'd \<Rightarrow> bool \<times> 'd"
  fa_setChoice :: "string \<Rightarrow> string list \<Rightarrow> 'd \<Rightarrow> bool \<times> 'd"

text \<open>\<open>String(value)\<close>.\<close>

fun value_string :: "field_value \<Rightarrow> string" where
  "value_string (FText s) = s"
| "value_string (FBool b) = (if b then ''true'' else ''false'')"
| "value_string (FList xs) = js_join '','' xs"

fun checkbox_state :: "field_value \<Rightarrow> string" where
  "checkbox_state (FList xs) = (case xs of [] \<Rightarrow> [] | x # _ \<Rightarrow> x)"
| "checkbox_state v = value_string v"

definition set_checkbox :: "'d field_api \<Rightarrow> string \<Rightarrow> field_value \<Rightarrow> 'd \<Rightarrow> bool \<times> 'd" where
  "set_checkbox A name v d = (case v of
       FBool b \<Rightarrow> fa_setCheckbox A name b d
     | _ \<Rightarrow>
        (let state = checkbox_state v in
         if state = [] \<or> js_lower state = ''off'' \<or> js_lower state = ''false''
         then (case fa_setCheckboxState A of Some f \<Rightarrow> f name ''Off'' d | None \<Rightarrow> fa_setCheckbox A name False d)
         else if js_lower state = ''true'' then fa_setCheckbox A name True d
         else (case fa_setCheckboxState A of Some f \<Rightarrow> f name state d | None \<Rightarrow> fa_setCheckbox A name True d)))"

datatype fill_error = Field_not_found | Kind_not_supported | Engine_rejected

definition dispatch :: "'d field_api \<Rightarrow> acro_kind \<Rightarrow> string \<Rightarrow> field_value \<Rightarrow> 'd \<Rightarrow> (fill_error option) \<times> 'd" where
  "dispatch A kind name v d =
     (let answer = (\<lambda>r. (if fst r then None else Some Engine_rejected, snd r)) in
      case kind of
        Fk_unknown \<Rightarrow> (Some Field_not_found, d)
      | Fk_text \<Rightarrow> answer (fa_setText A name (value_string v) d)
      | Fk_checkbox \<Rightarrow> answer (set_checkbox A name v d)
      | Fk_radio \<Rightarrow> if value_string v = [] then (None, d) else answer (fa_setRadio A name (value_string v) d)
      | Fk_combo \<Rightarrow> answer (fa_setChoice A name (case v of FList xs \<Rightarrow> xs | _ \<Rightarrow> [value_string v]) d)
      | Fk_list \<Rightarrow> answer (fa_setChoice A name (case v of FList xs \<Rightarrow> xs | _ \<Rightarrow> [value_string v]) d)
      | Fk_pushbutton \<Rightarrow> (Some Kind_not_supported, d)
      | Fk_signature \<Rightarrow> (Some Kind_not_supported, d))"

text \<open>The later of two fields with one name gives the kind, as \<open>kinds.set\<close> overwrites.\<close>

definition kind_map :: "(string \<times> acro_kind) list \<Rightarrow> (string, acro_kind) jsmap" where
  "kind_map fs = fold (\<lambda>(n, k) m. AList.update n k m) fs []"

fun fill_values ::
  "'d field_api \<Rightarrow> (string, acro_kind) jsmap \<Rightarrow> (string \<times> field_value) list \<Rightarrow> 'd \<Rightarrow>
   (string \<times> fill_error option) list \<times> 'd" where
  "fill_values A kinds [] d = ([], d)"
| "fill_values A kinds ((name, v) # vs) d =
     (let (r, d1) = (case map_get kinds name of None \<Rightarrow> (Some Field_not_found, d)
            | Some k \<Rightarrow> dispatch A k name v d);
          (rs, d2) = fill_values A kinds vs d1
      in ((name, r) # rs, d2))"

definition applyFieldValues ::
  "'d field_api \<Rightarrow> (string, field_value) jsmap \<Rightarrow> 'd \<Rightarrow> (string \<times> fill_error option) list \<times> 'd" where
  "applyFieldValues A values d = fill_values A (kind_map (fa_fields A d)) values d"

lemma fill_values_names: "map fst (fst (fill_values A kinds vs d)) = map fst vs"
  by (induction A kinds vs d rule: fill_values.induct) (auto simp: Let_def split: prod.splits)

text \<open>A field name the document does not have leaves the document as it is.\<close>

lemma fill_unknown:
  "map_get kinds name = None \<Longrightarrow>
   fill_values A kinds [(name, v)] d = ([(name, Some Field_not_found)], d)"
  by simp

end
