(* ===== verification/Apply_Classify.thy ===== *)
theory Apply_Classify
  imports Color Coordinates Js_Strings
begin

text \<open>
  The classification half of \<open>packages/pdf-engine/src/render/apply-operations.ts\<close>: which element
  operation is expressible in place and as what, which takes the redact-and-add fallback, which
  is a form-field fill, and which is dropped. The engine's page snapshots (text runs, images,
  vector paths, page geometry) are a record of functions of the page number.
\<close>

section \<open>Operations and snapshots\<close>

datatype action = A_add | A_update | A_delete | A_reorder

text \<open>
  The payload \<open>Record<string, unknown>\<close>: \<open>type\<close>, \<open>index\<close>, \<open>bounds\<close> and the fields the
  classification reads. A field that is absent or not of the expected type is \<open>None\<close>.
\<close>

record payload =
  pl_id :: "uuid option"
  pl_type :: "string option"
  pl_index :: "jsnum option"
  pl_bounds :: "bounds option"
  pl_rotation :: "jsnum option"
  pl_content :: "string option"
  pl_textStyle :: "text_style option"
  pl_shapeStyle :: "shape_style option"
  pl_imageOpacity :: "jsnum option"
  pl_fieldName :: "string option"
  pl_value :: field_value

record operation =
  op_action :: action
  op_page :: int
  op_payload :: payload
  op_oldBounds :: "bounds option"
  op_toFront :: "bool option"

type_synonym rgb = "jsnum \<times> jsnum \<times> jsnum"

record text_run =
  rn_index :: int
  rn_fontFamily :: string
  rn_baseFont :: "string option"
  rn_bold :: bool
  rn_italic :: bool
  rn_fontSize :: jsnum
  rn_color :: rgb

record image_info =
  ii_index :: int
  ii_rotation :: jsnum
  ii_opacity :: jsnum

record path_info =
  pa_index :: int
  pa_fill :: "rgb option"
  pa_stroke :: "rgb option"
  pa_strokeWidth :: jsnum
  pa_dash :: "jsnum list"
  pa_fillAlpha :: jsnum
  pa_strokeAlpha :: jsnum

record page_snapshot =
  sp_runs :: "int \<Rightarrow> text_run list"
  sp_images :: "int \<Rightarrow> image_info list"
  sp_paths :: "int \<Rightarrow> path_info list"
  sp_info :: "int \<Rightarrow> jsnum \<times> jsnum \<times> page_rotation"

section \<open>Tests on indices, rotations and styles\<close>

definition MAX_RUN_INDEX :: int where "MAX_RUN_INDEX = 2 ^ 31"
definition MOVE_TOLERANCE :: jsnum where "MOVE_TOLERANCE = 1 / 2"
definition ROTATION_TOLERANCE :: jsnum where "ROTATION_TOLERANCE = 1 / 2"
definition FORM_GEOMETRY_TOLERANCE :: jsnum where "FORM_GEOMETRY_TOLERANCE = 1 / 2"
definition STROKE_WIDTH_TOLERANCE :: jsnum where "STROKE_WIDTH_TOLERANCE = 1 / 100"
definition OPACITY_TOLERANCE :: jsnum where "OPACITY_TOLERANCE = 1 / 1000"

definition formGeometryUnchanged :: "bounds \<Rightarrow> bounds \<Rightarrow> bool" where
  "formGeometryUnchanged a b \<longleftrightarrow>
     \<bar>b_x a - b_x b\<bar> \<le> FORM_GEOMETRY_TOLERANCE \<and> \<bar>b_y a - b_y b\<bar> \<le> FORM_GEOMETRY_TOLERANCE
   \<and> \<bar>b_width a - b_width b\<bar> \<le> FORM_GEOMETRY_TOLERANCE \<and> \<bar>b_height a - b_height b\<bar> \<le> FORM_GEOMETRY_TOLERANCE"

definition rotationUnchanged :: "jsnum \<Rightarrow> jsnum \<Rightarrow> bool" where
  "rotationUnchanged a b =
     (let d = \<bar>norm_degrees a - norm_degrees b\<bar> in min d (360 - d) \<le> ROTATION_TOLERANCE)"

text \<open>\<open>isValidRunIndex\<close>: the index as an integer when it is one and in range.\<close>

definition valid_index :: "jsnum option \<Rightarrow> int option" where
  "valid_index i = (case i of None \<Rightarrow> None | Some q \<Rightarrow>
     if of_int \<lfloor>q\<rfloor> = q \<and> q \<ge> 0 \<and> \<lfloor>q\<rfloor> < MAX_RUN_INDEX then Some \<lfloor>q\<rfloor> else None)"

definition isValidRunIndex :: "jsnum option \<Rightarrow> bool" where
  "isValidRunIndex i = (valid_index i \<noteq> None)"

definition hex_of :: "rgb \<Rightarrow> string" where
  "hex_of c = (case c of (r, g, b) \<Rightarrow> js_lower (rgbToHex r g b))"

definition styleMatchesRun :: "text_style option \<Rightarrow> text_run \<Rightarrow> bool" where
  "styleMatchesRun sty run = (case sty of None \<Rightarrow> False | Some style \<Rightarrow>
     if \<bar>ts_fontSize style - rn_fontSize run\<bar> > 1 / 2 then False
     else if ts_fontWeight style \<noteq> (if rn_bold run then Bold_Weight else Normal_Weight) then False
     else if ts_fontStyle style \<noteq> (if rn_italic run then Italic_Slant else Normal_Slant) then False
     else if js_lower (ts_color style) \<noteq> hex_of (rn_color run) then False
     else
       (let runFamily = js_lower (rn_fontFamily run);
            runBaseFont = js_lower (case rn_baseFont run of None \<Rightarrow> [] | Some f \<Rightarrow> f);
            elementFamily = js_lower (case ts_originalFont style of Some f \<Rightarrow> f | None \<Rightarrow> ts_fontFamily style)
        in \<not> (elementFamily \<noteq> runFamily \<and> (runBaseFont = [] \<or> elementFamily \<noteq> runBaseFont))))"

section \<open>Shape restyling\<close>

record path_style =
  ps_fill :: "rgb option"
  ps_stroke :: "rgb option"
  ps_strokeWidth :: "jsnum option"
  ps_fillAlpha :: "jsnum option"
  ps_strokeAlpha :: "jsnum option"
  ps_dash :: "jsnum list option"

definition empty_style :: path_style where
  "empty_style = \<lparr>ps_fill = None, ps_stroke = None, ps_strokeWidth = None, ps_fillAlpha = None,
     ps_strokeAlpha = None, ps_dash = None\<rparr>"

definition dashArraysEqual :: "jsnum list \<Rightarrow> jsnum list \<Rightarrow> bool" where
  "dashArraysEqual a b = (length a = length b \<and> list_all (\<lambda>(x, y). \<not> \<bar>x - y\<bar> > 1 / 1000000) (zip a b))"

datatype style_change = No_change | Not_expressible | Expressible path_style

text \<open>\<open>style.fillColor ? style.fillColor.toLowerCase() : null\<close>\<close>

definition new_hex :: "string option \<Rightarrow> string option" where
  "new_hex c = (case c of None \<Rightarrow> None | Some s \<Rightarrow> if s = [] then None else Some (js_lower s))"

definition computeShapeStyleChange :: "shape_style option \<Rightarrow> path_info \<Rightarrow> style_change" where
  "computeShapeStyleChange sty path = (case sty of None \<Rightarrow> No_change | Some style \<Rightarrow>
     (let oldFillHex = map_option hex_of (pa_fill path);
          oldStrokeHex = map_option hex_of (pa_stroke path);
          newFillHex = new_hex (ss_fillColor style);
          newStrokeHex = new_hex (ss_strokeColor style)
      in if newFillHex \<noteq> oldFillHex \<and> (newFillHex = None \<or> oldFillHex = None) then Not_expressible
         else if newStrokeHex \<noteq> oldStrokeHex \<and> (newStrokeHex = None \<or> oldStrokeHex = None) then Not_expressible
         else
           (let fill = (if newFillHex \<noteq> oldFillHex then Some (hexToRgb01 (the newFillHex)) else None);
                stroke = (if newStrokeHex \<noteq> oldStrokeHex then Some (hexToRgb01 (the newStrokeHex)) else None);
                width = (if oldStrokeHex \<noteq> None \<and> \<bar>ss_strokeWidth style - pa_strokeWidth path\<bar> > STROKE_WIDTH_TOLERANCE
                         then Some (ss_strokeWidth style) else None);
                dash = (if \<not> dashArraysEqual (ss_strokeDashArray style) (pa_dash path)
                        then Some (ss_strokeDashArray style) else None)
            in if fill = None \<and> stroke = None \<and> width = None \<and> dash = None then No_change
               else Expressible (empty_style\<lparr>ps_fill := fill, ps_stroke := stroke,
                      ps_strokeWidth := width, ps_dash := dash\<rparr>))))"

definition clamp01 :: "jsnum \<Rightarrow> jsnum" where
  "clamp01 x = max 0 (min 1 x)"

definition computeShapeOpacityChange ::
  "shape_style option \<Rightarrow> path_info \<Rightarrow> jsnum option \<times> jsnum option" where
  "computeShapeOpacityChange sty path = (case sty of None \<Rightarrow> (None, None) | Some style \<Rightarrow>
     ((if pa_fill path \<noteq> None \<and> \<bar>ss_fillOpacity style - pa_fillAlpha path\<bar> > OPACITY_TOLERANCE
       then Some (clamp01 (ss_fillOpacity style)) else None),
      (if pa_stroke path \<noteq> None \<and> \<bar>ss_strokeOpacity style - pa_strokeAlpha path\<bar> > OPACITY_TOLERANCE
       then Some (clamp01 (ss_strokeOpacity style)) else None)))"

section \<open>Affine matrices\<close>

datatype geometry = G_image | G_shape

type_synonym matrix = "jsnum \<times> jsnum \<times> jsnum \<times> jsnum \<times> jsnum \<times> jsnum"

definition computeAffineMatrix :: "geometry \<Rightarrow> bounds \<Rightarrow> bounds \<Rightarrow> matrix option" where
  "computeAffineMatrix g oldPdf newPdf =
     (if b_width oldPdf \<le> 0 \<or> b_height oldPdf \<le> 0 then None
      else let sx = b_width newPdf / b_width oldPdf;
               sy = b_height newPdf / b_height oldPdf;
               (e, f) = (if g = G_image
                 then ((b_x newPdf - b_x oldPdf) / b_width oldPdf, (b_y newPdf - b_y oldPdf) / b_height oldPdf)
                 else (b_x newPdf - sx * b_x oldPdf, b_y newPdf - sy * b_y oldPdf));
               isIdentityScale = (\<bar>sx - 1\<bar> < 1 / 1000 \<and> \<bar>sy - 1\<bar> < 1 / 1000);
               pageDx = b_x newPdf - b_x oldPdf;
               pageDy = b_y newPdf - b_y oldPdf
           in if isIdentityScale \<and> \<bar>pageDx\<bar> \<le> MOVE_TOLERANCE \<and> \<bar>pageDy\<bar> \<le> MOVE_TOLERANCE
              then None else Some (sx, 0, 0, sy, e, f))"

section \<open>Routing\<close>

datatype in_place_kind =
    Replace string "(jsnum \<times> jsnum) option"
  | Transform matrix
  | Restyle path_style "matrix option"
  | Set_opacity jsnum "matrix option"
  | Reorder bool
  | Remove

record in_place =
  ip_page :: int
  ip_index :: int
  ip_kind :: in_place_kind
  ip_orig :: nat

record form_fill =
  fl_page :: int
  fl_payload :: payload
  fl_name :: string
  fl_value :: field_value
  fl_orig :: nat

datatype route = R_in_place in_place | R_fallback operation | R_fill form_fill | R_skip

definition toPdfBounds :: "(jsnum \<times> jsnum \<times> page_rotation) \<Rightarrow> bounds \<Rightarrow> bounds" where
  "toPdfBounds info b = (case info of (w, h, rot) \<Rightarrow>
     webToPdf (b_x b) (b_y b) (b_width b) (b_height b) h (Some w) (Some rot))"

definition classify_reorder :: "operation \<Rightarrow> nat \<Rightarrow> route" where
  "classify_reorder op i = (case (valid_index (pl_index (op_payload op)), op_toFront op) of
       (Some ix, Some f) \<Rightarrow> R_in_place \<lparr>ip_page = op_page op, ip_index = ix, ip_kind = Reorder f, ip_orig = i\<rparr>
     | _ \<Rightarrow> R_skip)"

definition classify_form :: "operation \<Rightarrow> nat \<Rightarrow> route" where
  "classify_form op i =
     (let el = op_payload op;
          fieldName = (case pl_fieldName el of None \<Rightarrow> [] | Some n \<Rightarrow> n);
          geometryUnchanged = (case (op_oldBounds op, pl_bounds el) of
              (Some a, Some b) \<Rightarrow> formGeometryUnchanged a b | _ \<Rightarrow> True)
      in if fieldName \<noteq> [] \<and> geometryUnchanged
         then R_fill \<lparr>fl_page = op_page op, fl_payload = el, fl_name = fieldName, fl_value = pl_value el, fl_orig = i\<rparr>
         else R_fallback op)"

definition geometry_matrix :: "page_snapshot \<Rightarrow> geometry \<Rightarrow> operation \<Rightarrow> matrix option" where
  "geometry_matrix sn g op = (case (op_oldBounds op, pl_bounds (op_payload op)) of
       (Some old, Some new) \<Rightarrow> computeAffineMatrix g (toPdfBounds (sp_info sn (op_page op)) old)
          (toPdfBounds (sp_info sn (op_page op)) new)
     | _ \<Rightarrow> None)"

text \<open>The tail of both geometry branches: only the matrix is left to decide.\<close>

definition route_geometry :: "operation \<Rightarrow> nat \<Rightarrow> int \<Rightarrow> matrix option \<Rightarrow> route" where
  "route_geometry op i ix matrix = (case matrix of
       Some m \<Rightarrow> R_in_place \<lparr>ip_page = op_page op, ip_index = ix, ip_kind = Transform m, ip_orig = i\<rparr>
     | None \<Rightarrow> if op_oldBounds op = None \<or> pl_bounds (op_payload op) = None then R_fallback op else R_skip)"

definition classify_image :: "page_snapshot \<Rightarrow> operation \<Rightarrow> nat \<Rightarrow> int \<Rightarrow> route" where
  "classify_image sn op i ix = (case find (\<lambda>e. ii_index e = ix) (sp_images sn (op_page op)) of
       None \<Rightarrow> R_fallback op
     | Some original \<Rightarrow>
         if op_action op = A_delete
         then R_in_place \<lparr>ip_page = op_page op, ip_index = ix, ip_kind = Remove, ip_orig = i\<rparr>
         else if \<not> rotationUnchanged (ii_rotation original) (or_keep (pl_rotation (op_payload op)) (ii_rotation original))
         then R_fallback op
         else
           (let newOpacity = or_keep (pl_imageOpacity (op_payload op)) 1;
                matrix = geometry_matrix sn G_image op
            in if \<bar>newOpacity - ii_opacity original\<bar> > OPACITY_TOLERANCE
               then R_in_place \<lparr>ip_page = op_page op, ip_index = ix,
                      ip_kind = Set_opacity (clamp01 newOpacity) matrix, ip_orig = i\<rparr>
               else route_geometry op i ix matrix))"

definition classify_shape :: "page_snapshot \<Rightarrow> operation \<Rightarrow> nat \<Rightarrow> int \<Rightarrow> route" where
  "classify_shape sn op i ix = (case find (\<lambda>e. pa_index e = ix) (sp_paths sn (op_page op)) of
       None \<Rightarrow> R_fallback op
     | Some path \<Rightarrow>
         if op_action op = A_delete
         then R_in_place \<lparr>ip_page = op_page op, ip_index = ix, ip_kind = Remove, ip_orig = i\<rparr>
         else if \<not> rotationUnchanged 0 (or_keep (pl_rotation (op_payload op)) 0)
         then R_fallback op
         else
           (let styleChange = computeShapeStyleChange (pl_shapeStyle (op_payload op)) path;
                (fa, sa) = computeShapeOpacityChange (pl_shapeStyle (op_payload op)) path;
                matrix = geometry_matrix sn G_shape op
            in if styleChange = Not_expressible then R_fallback op
               else if styleChange \<noteq> No_change \<or> fa \<noteq> None \<or> sa \<noteq> None
               then R_in_place \<lparr>ip_page = op_page op, ip_index = ix,
                      ip_kind = Restyle ((case styleChange of Expressible s \<Rightarrow> s | _ \<Rightarrow> empty_style)
                        \<lparr>ps_fillAlpha := fa, ps_strokeAlpha := sa\<rparr>) matrix, ip_orig = i\<rparr>
               else route_geometry op i ix matrix))"

definition text_move :: "page_snapshot \<Rightarrow> operation \<Rightarrow> (jsnum \<times> jsnum) option" where
  "text_move sn op = (case (op_oldBounds op, pl_bounds (op_payload op)) of
       (Some old, Some new) \<Rightarrow>
         (let pdfOld = toPdfBounds (sp_info sn (op_page op)) old;
              pdfNew = toPdfBounds (sp_info sn (op_page op)) new;
              dx = b_x pdfNew - b_x pdfOld; dy = b_y pdfNew - b_y pdfOld
          in if \<bar>dx\<bar> > MOVE_TOLERANCE \<or> \<bar>dy\<bar> > MOVE_TOLERANCE then Some (dx, dy) else None)
     | _ \<Rightarrow> None)"

definition classify_text :: "page_snapshot \<Rightarrow> operation \<Rightarrow> nat \<Rightarrow> int \<Rightarrow> route" where
  "classify_text sn op i ix =
     (let run = find (\<lambda>r. rn_index r = ix) (sp_runs sn (op_page op)) in
      if op_action op = A_delete then
        (case run of None \<Rightarrow> R_fallback op
         | Some r \<Rightarrow> R_in_place \<lparr>ip_page = op_page op, ip_index = ix, ip_kind = Remove, ip_orig = i\<rparr>)
      else case run of
        None \<Rightarrow> R_fallback op
      | Some r \<Rightarrow>
          if \<not> styleMatchesRun (pl_textStyle (op_payload op)) r then R_fallback op
          else R_in_place \<lparr>ip_page = op_page op, ip_index = ix,
            ip_kind = Replace (or_keep (pl_content (op_payload op)) []) (text_move sn op), ip_orig = i\<rparr>)"

text \<open>One iteration of the classification loop.\<close>

definition classify :: "page_snapshot \<Rightarrow> operation \<Rightarrow> nat \<Rightarrow> route" where
  "classify sn op i =
     (let elementType = pl_type (op_payload op); idx = valid_index (pl_index (op_payload op)) in
      if op_action op = A_reorder then classify_reorder op i
      else if op_action op \<noteq> A_update \<and> op_action op \<noteq> A_delete then R_fallback op
      else if op_action op = A_update \<and> elementType = Some ''form_field'' then classify_form op i
      else if elementType = Some ''image'' \<or> elementType = Some ''shape'' then
        (case idx of None \<Rightarrow> R_fallback op
         | Some ix \<Rightarrow> if elementType = Some ''image'' then classify_image sn op i ix
             else classify_shape sn op i ix)
      else if elementType \<noteq> Some ''text'' then R_fallback op
      else (case idx of None \<Rightarrow> R_fallback op | Some ix \<Rightarrow> classify_text sn op i ix))"

definition routes :: "page_snapshot \<Rightarrow> operation list \<Rightarrow> route list" where
  "routes sn ops = map_index (\<lambda>i op. classify sn op i) ops"

definition in_place_ops :: "route list \<Rightarrow> in_place list" where
  "in_place_ops rs = List.map_filter (\<lambda>r. case r of R_in_place x \<Rightarrow> Some x | _ \<Rightarrow> None) rs"

definition fallback_ops :: "route list \<Rightarrow> operation list" where
  "fallback_ops rs = List.map_filter (\<lambda>r. case r of R_fallback x \<Rightarrow> Some x | _ \<Rightarrow> None) rs"

definition form_fill_ops :: "route list \<Rightarrow> form_fill list" where
  "form_fill_ops rs = List.map_filter (\<lambda>r. case r of R_fill x \<Rightarrow> Some x | _ \<Rightarrow> None) rs"

section \<open>The matrices map the old box onto the new one\<close>

text \<open>\<open>[a, b, c, d, e, f]\<close> acts as in a PDF \<open>cm\<close>; an image is the unit square under its placement.\<close>

definition act :: "matrix \<Rightarrow> jsnum \<times> jsnum \<Rightarrow> jsnum \<times> jsnum" where
  "act m p = (case (m, p) of ((a, b, c, d, e, f), (x, y)) \<Rightarrow> (a * x + c * y + e, b * x + d * y + f))"

definition placement :: "bounds \<Rightarrow> matrix" where
  "placement b = (b_width b, 0, 0, b_height b, b_x b, b_y b)"

text \<open>The box a matrix gives an element: vector ops carry page coordinates, an image its placement.\<close>

definition moved_point :: "geometry \<Rightarrow> matrix \<Rightarrow> bounds \<Rightarrow> jsnum \<times> jsnum \<Rightarrow> jsnum \<times> jsnum" where
  "moved_point g m old u = (if g = G_image then act (placement old) (act m u)
     else act m (act (placement old) u))"

definition box_close :: "bounds \<Rightarrow> bounds \<Rightarrow> bool" where
  "box_close a b \<longleftrightarrow> \<bar>b_x b - b_x a\<bar> \<le> 1/2 \<and> \<bar>b_y b - b_y a\<bar> \<le> 1/2
     \<and> \<bar>b_width b - b_width a\<bar> < b_width a / 1000 \<and> \<bar>b_height b - b_height a\<bar> < b_height a / 1000"

lemma scale_close:
  fixes n :: rat
  assumes "0 < w" "\<bar>n / w - 1\<bar> < 1 / 1000"
  shows "\<bar>n - w\<bar> < w / 1000"
proof -
  have e: "n - w = w * (n / w - 1)"
    using assms(1) by (simp add: right_diff_distrib)
  have "\<bar>n - w\<bar> = w * \<bar>n / w - 1\<bar>"
    unfolding e abs_mult using assms(1) by simp
  also have "\<dots> < w * (1 / 1000)"
    using assms by (intro mult_strict_left_mono) auto
  finally show ?thesis by simp
qed

lemma affine_some:
  "computeAffineMatrix g old new = Some m \<Longrightarrow> moved_point g m old u = act (placement new) u"
  by (cases u; cases g)
    (auto simp: computeAffineMatrix_def moved_point_def act_def placement_def Let_def field_simps
      split: if_splits)

lemma affine_none:
  assumes "computeAffineMatrix g old new = None"
  shows "b_width old \<le> 0 \<or> b_height old \<le> 0 \<or> box_close old new"
proof -
  from assms have "\<not> (b_width old \<le> 0 \<or> b_height old \<le> 0) \<Longrightarrow>
      \<bar>b_width new / b_width old - 1\<bar> < 1 / 1000 \<and> \<bar>b_height new / b_height old - 1\<bar> < 1 / 1000
      \<and> \<bar>b_x new - b_x old\<bar> \<le> 1/2 \<and> \<bar>b_y new - b_y old\<bar> \<le> 1/2"
    unfolding computeAffineMatrix_def Let_def MOVE_TOLERANCE_def by (simp split: if_splits)
  then show ?thesis
    using scale_close [of "b_width old" "b_width new"] scale_close [of "b_height old" "b_height new"]
    unfolding box_close_def by force
qed

text \<open>C7: The affine matrix moves an element's box exactly onto the requested one: in page coordinates
  for a shape, in the unit square of its own placement for an image. No matrix is produced only
  when the old box is degenerate or the two boxes agree within the tolerances.\<close>

theorem affine_matrix_correct:
  "case computeAffineMatrix g old new of
     Some m \<Rightarrow> (\<forall>u. moved_point g m old u = act (placement new) u)
   | None \<Rightarrow> b_width old \<le> 0 \<or> b_height old \<le> 0 \<or> box_close old new"
  using affine_some affine_none by (cases "computeAffineMatrix g old new") auto

section \<open>Nothing is lost in the routing\<close>

lemma valid_index_Some: "valid_index i = Some ix \<Longrightarrow> 0 \<le> ix \<and> ix < 2 ^ 31"
  by (auto simp: valid_index_def MAX_RUN_INDEX_def split: option.splits if_splits)

text \<open>The element an operation addresses exists in the snapshot: an image, a path or a text run by its type.\<close>

definition resolves :: "page_snapshot \<Rightarrow> operation \<Rightarrow> int \<Rightarrow> bool" where
  "resolves sn op ix \<longleftrightarrow>
     pl_type (op_payload op) = Some ''image'' \<and> (\<exists>e\<in>set (sp_images sn (op_page op)). ii_index e = ix)
   \<or> pl_type (op_payload op) = Some ''shape'' \<and> (\<exists>e\<in>set (sp_paths sn (op_page op)). pa_index e = ix)
   \<or> pl_type (op_payload op) = Some ''text'' \<and> (\<exists>r\<in>set (sp_runs sn (op_page op)). rn_index r = ix)"

text \<open>An update leaves the box of its element where it is, up to the tolerances, or the element has no area.\<close>

definition box_kept :: "page_snapshot \<Rightarrow> operation \<Rightarrow> bool" where
  "box_kept sn op = (case (op_oldBounds op, pl_bounds (op_payload op)) of
       (Some old, Some new) \<Rightarrow>
         (let a = toPdfBounds (sp_info sn (op_page op)) old; b = toPdfBounds (sp_info sn (op_page op)) new
          in b_width a \<le> 0 \<or> b_height a \<le> 0 \<or> box_close a b)
     | _ \<Rightarrow> False)"

text \<open>An update keeps the rotation of an image, and its opacity; the rotation of a path, and its paint.\<close>

definition image_turned :: "operation \<Rightarrow> image_info \<Rightarrow> bool" where
  "image_turned op e = (\<not> rotationUnchanged (ii_rotation e) (or_keep (pl_rotation (op_payload op)) (ii_rotation e)))"

definition image_opacity_kept :: "operation \<Rightarrow> image_info \<Rightarrow> bool" where
  "image_opacity_kept op e \<longleftrightarrow> \<bar>or_keep (pl_imageOpacity (op_payload op)) 1 - ii_opacity e\<bar> \<le> 1 / 1000"

definition shape_turned :: "operation \<Rightarrow> bool" where
  "shape_turned op = (\<not> rotationUnchanged 0 (or_keep (pl_rotation (op_payload op)) 0))"

definition paint_kept :: "operation \<Rightarrow> path_info \<Rightarrow> bool" where
  "paint_kept op path = (case pl_shapeStyle (op_payload op) of None \<Rightarrow> True | Some style \<Rightarrow>
       new_hex (ss_fillColor style) = map_option hex_of (pa_fill path)
     \<and> new_hex (ss_strokeColor style) = map_option hex_of (pa_stroke path)
     \<and> (pa_stroke path = None \<or> \<bar>ss_strokeWidth style - pa_strokeWidth path\<bar> \<le> 1 / 100)
     \<and> dashArraysEqual (ss_strokeDashArray style) (pa_dash path)
     \<and> (pa_fill path = None \<or> \<bar>ss_fillOpacity style - pa_fillAlpha path\<bar> \<le> 1 / 1000)
     \<and> (pa_stroke path = None \<or> \<bar>ss_strokeOpacity style - pa_strokeAlpha path\<bar> \<le> 1 / 1000))"

text \<open>One paint of a restyled path: a new colour is the requested one, and none is set only when the path has
  the requested one already (or both have none).\<close>

definition colour_set :: "rgb option \<Rightarrow> string option \<Rightarrow> rgb option \<Rightarrow> bool" where
  "colour_set now wanted old = (case now of
       None \<Rightarrow> new_hex wanted = map_option hex_of old
     | Some c \<Rightarrow> old \<noteq> None \<and> (\<exists>h. new_hex wanted = Some h \<and> c = hexToRgb01 h))"

definition amount_set :: "jsnum option \<Rightarrow> jsnum \<Rightarrow> bool \<Rightarrow> jsnum \<Rightarrow> jsnum \<Rightarrow> bool" where
  "amount_set now wanted painted old tolerance = (case now of
       None \<Rightarrow> \<not> painted \<or> \<bar>wanted - old\<bar> \<le> tolerance
     | Some x \<Rightarrow> painted \<and> x = wanted)"

definition restyled_as_asked :: "operation \<Rightarrow> path_info \<Rightarrow> path_style \<Rightarrow> bool" where
  "restyled_as_asked op path st = (case pl_shapeStyle (op_payload op) of None \<Rightarrow> False | Some style \<Rightarrow>
       colour_set (ps_fill st) (ss_fillColor style) (pa_fill path)
     \<and> colour_set (ps_stroke st) (ss_strokeColor style) (pa_stroke path)
     \<and> amount_set (ps_strokeWidth st) (ss_strokeWidth style) (pa_stroke path \<noteq> None) (pa_strokeWidth path) (1 / 100)
     \<and> (case ps_dash st of None \<Rightarrow> dashArraysEqual (ss_strokeDashArray style) (pa_dash path)
        | Some d \<Rightarrow> d = ss_strokeDashArray style)
     \<and> (ps_fillAlpha st = None \<longrightarrow> pa_fill path = None \<or> \<bar>ss_fillOpacity style - pa_fillAlpha path\<bar> \<le> 1 / 1000)
     \<and> (ps_fillAlpha st \<noteq> None \<longrightarrow> ps_fillAlpha st = Some (clamp01 (ss_fillOpacity style)))
     \<and> (ps_strokeAlpha st = None \<longrightarrow> pa_stroke path = None \<or> \<bar>ss_strokeOpacity style - pa_strokeAlpha path\<bar> \<le> 1 / 1000)
     \<and> (ps_strokeAlpha st \<noteq> None \<longrightarrow> ps_strokeAlpha st = Some (clamp01 (ss_strokeOpacity style))))"

text \<open>What the operation asks of the image, path or run at an index, and what the in-place edit does to it.\<close>

definition kind_ok :: "page_snapshot \<Rightarrow> operation \<Rightarrow> int \<Rightarrow> in_place_kind \<Rightarrow> bool" where
  "kind_ok sn op ix kind = (case kind of
       Remove \<Rightarrow> op_action op = A_delete \<and> resolves sn op ix
     | Reorder f \<Rightarrow> op_action op = A_reorder \<and> op_toFront op = Some f
     | Replace content move \<Rightarrow> op_action op = A_update \<and> pl_type (op_payload op) = Some ''text''
         \<and> (\<exists>r\<in>set (sp_runs sn (op_page op)). rn_index r = ix \<and> styleMatchesRun (pl_textStyle (op_payload op)) r)
         \<and> content = or_keep (pl_content (op_payload op)) [] \<and> move = text_move sn op
     | Set_opacity x m \<Rightarrow> op_action op = A_update \<and> pl_type (op_payload op) = Some ''image''
         \<and> (\<exists>e\<in>set (sp_images sn (op_page op)). ii_index e = ix \<and> \<not> image_turned op e \<and> \<not> image_opacity_kept op e)
         \<and> x = clamp01 (or_keep (pl_imageOpacity (op_payload op)) 1) \<and> m = geometry_matrix sn G_image op
     | Restyle st m \<Rightarrow> op_action op = A_update \<and> pl_type (op_payload op) = Some ''shape'' \<and> \<not> shape_turned op
         \<and> (\<exists>q\<in>set (sp_paths sn (op_page op)). pa_index q = ix \<and> \<not> paint_kept op q \<and> restyled_as_asked op q st)
         \<and> m = geometry_matrix sn G_shape op
     | Transform m \<Rightarrow> op_action op = A_update
         \<and> (pl_type (op_payload op) = Some ''image'' \<and> geometry_matrix sn G_image op = Some m
              \<and> (\<exists>e\<in>set (sp_images sn (op_page op)). ii_index e = ix \<and> \<not> image_turned op e \<and> image_opacity_kept op e)
            \<or> pl_type (op_payload op) = Some ''shape'' \<and> geometry_matrix sn G_shape op = Some m \<and> \<not> shape_turned op
              \<and> (\<exists>q\<in>set (sp_paths sn (op_page op)). pa_index q = ix \<and> paint_kept op q)))"

definition nothing_to_do :: "page_snapshot \<Rightarrow> operation \<Rightarrow> int \<Rightarrow> bool" where
  "nothing_to_do sn op ix \<longleftrightarrow> op_action op = A_update \<and> box_kept sn op
     \<and> (pl_type (op_payload op) = Some ''image''
          \<and> (\<exists>e\<in>set (sp_images sn (op_page op)). ii_index e = ix \<and> \<not> image_turned op e \<and> image_opacity_kept op e)
        \<or> pl_type (op_payload op) = Some ''shape'' \<and> \<not> shape_turned op
          \<and> (\<exists>q\<in>set (sp_paths sn (op_page op)). pa_index q = ix \<and> paint_kept op q))"

definition route_ok :: "page_snapshot \<Rightarrow> operation \<Rightarrow> nat \<Rightarrow> route \<Rightarrow> bool" where
  "route_ok sn op i r = (case r of
       R_in_place ip \<Rightarrow> ip_page ip = op_page op \<and> ip_orig ip = i \<and> valid_index (pl_index (op_payload op)) = Some (ip_index ip)
         \<and> 0 \<le> ip_index ip \<and> ip_index ip < 2 ^ 31 \<and> kind_ok sn op (ip_index ip) (ip_kind ip)
     | R_fallback op' \<Rightarrow> op' = op \<and> op_action op \<noteq> A_reorder
     | R_fill f \<Rightarrow> op_action op = A_update \<and> fl_payload f = op_payload op \<and> fl_page f = op_page op
     | R_skip \<Rightarrow> (op_action op = A_reorder \<and> (op_toFront op = None \<or> \<not> isValidRunIndex (pl_index (op_payload op))))
         \<or> (\<exists>ix. valid_index (pl_index (op_payload op)) = Some ix \<and> nothing_to_do sn op ix))"

lemma no_matrix_box_kept:
  "geometry_matrix sn g op = None \<Longrightarrow> op_oldBounds op \<noteq> None \<Longrightarrow> pl_bounds (op_payload op) \<noteq> None \<Longrightarrow> box_kept sn op"
  using affine_none by (auto simp: geometry_matrix_def box_kept_def Let_def)

text \<open>The part of a restyle that comes from \<open>computeShapeStyleChange\<close>, and the part from the opacities.\<close>

definition line_as_asked :: "shape_style \<Rightarrow> path_info \<Rightarrow> path_style \<Rightarrow> bool" where
  "line_as_asked style path st \<longleftrightarrow>
     colour_set (ps_fill st) (ss_fillColor style) (pa_fill path)
   \<and> colour_set (ps_stroke st) (ss_strokeColor style) (pa_stroke path)
   \<and> amount_set (ps_strokeWidth st) (ss_strokeWidth style) (pa_stroke path \<noteq> None) (pa_strokeWidth path) (1 / 100)
   \<and> (case ps_dash st of None \<Rightarrow> dashArraysEqual (ss_strokeDashArray style) (pa_dash path)
      | Some d \<Rightarrow> d = ss_strokeDashArray style)"

definition line_kept :: "shape_style \<Rightarrow> path_info \<Rightarrow> bool" where
  "line_kept style path \<longleftrightarrow>
     new_hex (ss_fillColor style) = map_option hex_of (pa_fill path)
   \<and> new_hex (ss_strokeColor style) = map_option hex_of (pa_stroke path)
   \<and> (pa_stroke path = None \<or> \<bar>ss_strokeWidth style - pa_strokeWidth path\<bar> \<le> 1 / 100)
   \<and> dashArraysEqual (ss_strokeDashArray style) (pa_dash path)"

lemma line_as_asked_empty: "line_kept style q \<Longrightarrow> line_as_asked style q empty_style"
  by (auto simp: line_kept_def line_as_asked_def colour_set_def amount_set_def empty_style_def)

lemma line_change:
  "case computeShapeStyleChange (Some style) q of
     No_change \<Rightarrow> line_kept style q
   | Not_expressible \<Rightarrow> True
   | Expressible st \<Rightarrow> \<not> line_kept style q \<and> line_as_asked style q st"
proof -
  have new: "amount_set (if P \<and> \<bar>w - v\<bar> > t then Some w else None) w P v t" for P :: bool and w v t :: jsnum
    by (auto simp: amount_set_def)
  show ?thesis
    by (cases "pa_fill q"; cases "pa_stroke q"; cases "new_hex (ss_fillColor style)"; cases "new_hex (ss_strokeColor style)")
      (simp_all add: computeShapeStyleChange_def line_kept_def line_as_asked_def colour_set_def Let_def
        STROKE_WIDTH_TOLERANCE_def empty_style_def amount_set_def not_less del: split_paired_Ex split_paired_All)
qed

lemma opacity_change:
  "computeShapeOpacityChange (Some style) q = (fa, sa) \<Longrightarrow>
    (case fa of None \<Rightarrow> pa_fill q = None \<or> \<bar>ss_fillOpacity style - pa_fillAlpha q\<bar> \<le> 1 / 1000
       | Some x \<Rightarrow> x = clamp01 (ss_fillOpacity style) \<and> \<not> (pa_fill q = None \<or> \<bar>ss_fillOpacity style - pa_fillAlpha q\<bar> \<le> 1 / 1000))
  \<and> (case sa of None \<Rightarrow> pa_stroke q = None \<or> \<bar>ss_strokeOpacity style - pa_strokeAlpha q\<bar> \<le> 1 / 1000
       | Some x \<Rightarrow> x = clamp01 (ss_strokeOpacity style) \<and> \<not> (pa_stroke q = None \<or> \<bar>ss_strokeOpacity style - pa_strokeAlpha q\<bar> \<le> 1 / 1000))"
  by (cases "pa_fill q = None"; cases "pa_stroke q = None")
    (auto simp: computeShapeOpacityChange_def OPACITY_TOLERANCE_def not_less simp del: split_paired_Ex split_paired_All)

lemma paint_kept_line:
  "pl_shapeStyle (op_payload op) = Some style \<Longrightarrow> paint_kept op q \<longleftrightarrow> line_kept style q
     \<and> (pa_fill q = None \<or> \<bar>ss_fillOpacity style - pa_fillAlpha q\<bar> \<le> 1 / 1000)
     \<and> (pa_stroke q = None \<or> \<bar>ss_strokeOpacity style - pa_strokeAlpha q\<bar> \<le> 1 / 1000)"
  unfolding paint_kept_def line_kept_def by (simp only: option.case) blast

lemma no_style_change:
  assumes "computeShapeStyleChange (pl_shapeStyle (op_payload op)) q = No_change"
    and "computeShapeOpacityChange (pl_shapeStyle (op_payload op)) q = (None, None)"
  shows "paint_kept op q"
proof (cases "pl_shapeStyle (op_payload op)")
  case None
  then show ?thesis by (simp add: paint_kept_def)
next
  case (Some style)
  then show ?thesis
    using assms line_change [of style q] opacity_change [of style q None None]
    by (simp add: paint_kept_line)
qed

lemma style_change_asked:
  assumes sc: "computeShapeStyleChange (pl_shapeStyle (op_payload op)) q = sc"
    and o: "computeShapeOpacityChange (pl_shapeStyle (op_payload op)) q = (fa, sa)"
    and "sc \<noteq> Not_expressible" and some: "sc \<noteq> No_change \<or> fa \<noteq> None \<or> sa \<noteq> None"
  shows "restyled_as_asked op q ((case sc of Expressible s \<Rightarrow> s | _ \<Rightarrow> empty_style)\<lparr>ps_fillAlpha := fa, ps_strokeAlpha := sa\<rparr>)"
    and "\<not> paint_kept op q"
proof -
  obtain style where st: "pl_shapeStyle (op_payload op) = Some style"
    using assms by (cases "pl_shapeStyle (op_payload op)")
      (auto simp: computeShapeStyleChange_def computeShapeOpacityChange_def)
  let ?s = "case sc of Expressible s \<Rightarrow> s | _ \<Rightarrow> empty_style"
  have l: "case sc of No_change \<Rightarrow> line_kept style q | Not_expressible \<Rightarrow> True
      | Expressible s \<Rightarrow> \<not> line_kept style q \<and> line_as_asked style q s"
    using line_change [of style q] sc st by simp
  then have a: "line_as_asked style q ?s"
    using assms(3) line_as_asked_empty by (cases sc) auto
  note f = opacity_change [of style q fa sa, OF o [unfolded st]]
  show "restyled_as_asked op q (?s\<lparr>ps_fillAlpha := fa, ps_strokeAlpha := sa\<rparr>)"
    using a f st by (cases fa; cases sa) (simp_all add: restyled_as_asked_def line_as_asked_def)
  show "\<not> paint_kept op q"
    using l f some assms(3) by (cases sc; cases fa; cases sa) (simp_all add: paint_kept_line [OF st])
qed

lemma find_at:
  "find (\<lambda>x. f x = i) xs = Some y \<Longrightarrow> y \<in> set xs \<and> f y = i"
  by (auto simp: find_Some_iff)

lemma image_ok:
  assumes "op_action op = A_update \<or> op_action op = A_delete" "0 \<le> ix \<and> ix < 2 ^ 31"
    and "valid_index (pl_index (op_payload op)) = Some ix" "pl_type (op_payload op) = Some ''image''"
  shows "route_ok sn op i (classify_image sn op i ix)"
proof (cases "find (\<lambda>e. ii_index e = ix) (sp_images sn (op_page op))")
  case None
  then show ?thesis using assms(1) by (auto simp: classify_image_def route_ok_def)
next
  case (Some e)
  note e = find_at [OF Some]
  then have r: "resolves sn op ix" using assms(4) by (auto simp: resolves_def)
  show ?thesis
    using assms Some e r no_matrix_box_kept [of sn G_image op]
    by (auto simp: classify_image_def route_geometry_def route_ok_def kind_ok_def nothing_to_do_def image_turned_def
        image_opacity_kept_def OPACITY_TOLERANCE_def Let_def split: option.split)
qed

lemma shape_ok:
  assumes "op_action op = A_update \<or> op_action op = A_delete" "0 \<le> ix \<and> ix < 2 ^ 31"
    and "valid_index (pl_index (op_payload op)) = Some ix" "pl_type (op_payload op) = Some ''shape''"
  shows "route_ok sn op i (classify_shape sn op i ix)"
proof (cases "find (\<lambda>e. pa_index e = ix) (sp_paths sn (op_page op))")
  case None
  then show ?thesis using assms(1) by (auto simp: classify_shape_def route_ok_def)
next
  case (Some q)
  note q = find_at [OF Some]
  then have r: "resolves sn op ix" using assms(4) by (auto simp: resolves_def)
  obtain fa sa where o: "computeShapeOpacityChange (pl_shapeStyle (op_payload op)) q = (fa, sa)"
    by fastforce
  define sc where sc: "sc = computeShapeStyleChange (pl_shapeStyle (op_payload op)) q"
  have route: "classify_shape sn op i ix =
     (if op_action op = A_delete
      then R_in_place \<lparr>ip_page = op_page op, ip_index = ix, ip_kind = Remove, ip_orig = i\<rparr>
      else if shape_turned op then R_fallback op
      else if sc = Not_expressible then R_fallback op
      else if sc \<noteq> No_change \<or> fa \<noteq> None \<or> sa \<noteq> None
      then R_in_place \<lparr>ip_page = op_page op, ip_index = ix,
             ip_kind = Restyle ((case sc of Expressible s \<Rightarrow> s | _ \<Rightarrow> empty_style)
               \<lparr>ps_fillAlpha := fa, ps_strokeAlpha := sa\<rparr>) (geometry_matrix sn G_shape op), ip_orig = i\<rparr>
      else route_geometry op i ix (geometry_matrix sn G_shape op))"
    using Some o sc by (simp add: classify_shape_def shape_turned_def Let_def)
  consider "op_action op = A_delete" | "op_action op = A_update" "shape_turned op \<or> sc = Not_expressible"
    | "op_action op = A_update" "\<not> shape_turned op" "sc \<noteq> Not_expressible" "sc \<noteq> No_change \<or> fa \<noteq> None \<or> sa \<noteq> None"
    | "op_action op = A_update" "\<not> shape_turned op" "sc = No_change" "fa = None" "sa = None"
    using assms(1) by blast
  then show ?thesis
  proof cases
    case 1
    then show ?thesis using assms r unfolding route by (simp add: route_ok_def kind_ok_def)
  next
    case 2
    then show ?thesis unfolding route by (auto simp: route_ok_def)
  next
    case 3
    from style_change_asked [OF sc [symmetric] o 3(3,4)] 3 assms q show ?thesis
      unfolding route by (auto simp: route_ok_def kind_ok_def)
  next
    case 4
    then have k: "paint_kept op q" using no_style_change [of op q] o sc by simp
    show ?thesis
      using 4 k assms q no_matrix_box_kept [of sn G_shape op]
      unfolding route by (auto simp: route_geometry_def route_ok_def kind_ok_def nothing_to_do_def split: option.split)
  qed
qed

lemma text_ok:
  assumes "op_action op = A_update \<or> op_action op = A_delete" "0 \<le> ix \<and> ix < 2 ^ 31"
    and "valid_index (pl_index (op_payload op)) = Some ix" "pl_type (op_payload op) = Some ''text''"
  shows "route_ok sn op i (classify_text sn op i ix)"
proof (cases "find (\<lambda>r. rn_index r = ix) (sp_runs sn (op_page op))")
  case None
  then show ?thesis using assms(1) by (auto simp: classify_text_def route_ok_def)
next
  case (Some r)
  note r = find_at [OF Some]
  then have "resolves sn op ix" using assms(4) by (auto simp: resolves_def)
  with assms Some r show ?thesis
    by (auto simp: classify_text_def route_ok_def kind_ok_def)
qed

lemma classify_route_ok: "route_ok sn op i (classify sn op i)"
proof (cases "op_action op = A_update \<or> op_action op = A_delete")
  case True
  show ?thesis
  proof (cases "valid_index (pl_index (op_payload op))")
    case None
    then show ?thesis
      using True by (auto simp: classify_def Let_def route_ok_def classify_form_def)
  next
    case (Some ix)
    note ix = valid_index_Some [OF Some]
    have "op_action op = A_update \<Longrightarrow> route_ok sn op i (classify_form op i)"
      by (simp add: classify_form_def Let_def route_ok_def)
    moreover have "route_ok sn op i (R_fallback op)"
      using True by (auto simp: route_ok_def)
    ultimately show ?thesis
      using True Some image_ok [OF True ix Some] shape_ok [OF True ix Some] text_ok [OF True ix Some]
      unfolding classify_def Let_def by auto
  qed
next
  case False
  then show ?thesis
    by (auto simp: classify_def Let_def route_ok_def kind_ok_def classify_reorder_def isValidRunIndex_def
        split: option.split dest: valid_index_Some)
qed


text \<open>A fill-mode edit of a named form field (its widget moved by at most the tolerance, or without
  old bounds) never reaches the redact-and-add fallback, which would duplicate the field.\<close>

lemma form_fill_never_redacted:
  assumes "op_action op = A_update" and "pl_type (op_payload op) = Some ''form_field''"
    and "pl_fieldName (op_payload op) = Some name" and "name \<noteq> []"
    and "case (op_oldBounds op, pl_bounds (op_payload op)) of
      (Some a, Some b) \<Rightarrow> formGeometryUnchanged a b | _ \<Rightarrow> True"
  shows "\<exists>f. classify sn op i = R_fill f \<and> fl_name f = name \<and> fl_value f = pl_value (op_payload op)"
  using assms by (auto simp: classify_def classify_form_def Let_def split: option.split)

definition demo_payload :: payload where
  "demo_payload = \<lparr>pl_id = Some ''f1'', pl_type = Some ''form_field'', pl_index = None,
     pl_bounds = Some \<lparr>b_x = 10, b_y = 20, b_width = 100, b_height = 12\<rparr>, pl_rotation = None,
     pl_content = None, pl_textStyle = None, pl_shapeStyle = None, pl_imageOpacity = None,
     pl_fieldName = Some ''name'', pl_value = FText ''v''\<rparr>"

definition demo_fill :: operation where
  "demo_fill = \<lparr>op_action = A_update, op_page = 1, op_payload = demo_payload,
     op_oldBounds = Some \<lparr>b_x = 10, b_y = 20 + 1/4, b_width = 100, b_height = 12\<rparr>, op_toFront = None\<rparr>"

definition empty_snapshot :: page_snapshot where
  "empty_snapshot = \<lparr>sp_runs = (\<lambda>p. []), sp_images = (\<lambda>p. []), sp_paths = (\<lambda>p. []),
     sp_info = (\<lambda>p. (595, 842, R0))\<rparr>"

lemma form_fill_never_redacted_witness:
  "\<exists>f. classify empty_snapshot demo_fill 3 = R_fill f \<and> fl_value f = FText ''v''"
proof -
  have "op_action demo_fill = A_update" "pl_type (op_payload demo_fill) = Some ''form_field''"
    "pl_fieldName (op_payload demo_fill) = Some ''name''" "pl_value (op_payload demo_fill) = FText ''v''"
    "case (op_oldBounds demo_fill, pl_bounds (op_payload demo_fill)) of
      (Some a, Some b) \<Rightarrow> formGeometryUnchanged a b | _ \<Rightarrow> True"
    by (simp_all add: demo_fill_def demo_payload_def formGeometryUnchanged_def FORM_GEOMETRY_TOLERANCE_def)
  then show ?thesis
    using form_fill_never_redacted [of demo_fill "''name''" empty_snapshot 3] by auto
qed

end
