(* ===== verification/Apply_In_Place.thy ===== *)
theory Apply_In_Place
  imports Apply_Classify Engine Document_Store
begin

text \<open>
  The in-place pass of \<open>apply-operations.ts\<close>: grouping by page, the descending order of the
  index-stable edits and removals, then the reorders. The element mutators of the engine are a
  record of functions; each answers whether it changed the page, or throws.
\<close>

record 'd mutators =
  mu_remove :: "int \<Rightarrow> int \<Rightarrow> 'd \<Rightarrow> string + bool \<times> 'd"
  mu_transform :: "int \<Rightarrow> int \<Rightarrow> matrix \<Rightarrow> 'd \<Rightarrow> string + bool \<times> 'd"
  mu_setPathStyle :: "int \<Rightarrow> int \<Rightarrow> path_style \<Rightarrow> 'd \<Rightarrow> string + bool \<times> 'd"
  mu_setOpacity :: "int \<Rightarrow> int \<Rightarrow> jsnum \<Rightarrow> 'd \<Rightarrow> string + bool \<times> 'd"
  mu_replaceText :: "int \<Rightarrow> int \<Rightarrow> string \<Rightarrow> 'd \<Rightarrow> string + bool \<times> 'd"
  mu_move :: "int \<Rightarrow> int \<Rightarrow> jsnum \<Rightarrow> jsnum \<Rightarrow> 'd \<Rightarrow> string + bool \<times> 'd"
  mu_reorder :: "int \<Rightarrow> int \<Rightarrow> bool \<Rightarrow> 'd \<Rightarrow> string + bool \<times> 'd"

record counters =
  ct_replaced :: nat
  ct_moved :: nat
  ct_transformed :: nat
  ct_restyled :: nat
  ct_opacity :: nat
  ct_reordered :: nat
  ct_removed :: nat

definition no_counts :: counters where
  "no_counts = \<lparr>ct_replaced = 0, ct_moved = 0, ct_transformed = 0, ct_restyled = 0,
     ct_opacity = 0, ct_reordered = 0, ct_removed = 0\<rparr>"

type_synonym 'd stage = "'d \<times> counters"

text \<open>\<open>if (doc.op(...)) count++\<close>; a throw skips the rest of the \<open>try\<close> block but keeps what was done.\<close>

definition call_count :: "('d \<Rightarrow> string + bool \<times> 'd) \<Rightarrow> (counters \<Rightarrow> counters) \<Rightarrow> 'd stage \<Rightarrow> bool \<times> 'd stage" where
  "call_count f inc s = (case f (fst s) of
       Inl msg \<Rightarrow> (False, s)
     | Inr (ok, d) \<Rightarrow> (True, (d, if ok then inc (snd s) else snd s)))"

definition and_then :: "bool \<times> 'd stage \<Rightarrow> ('d stage \<Rightarrow> bool \<times> 'd stage) \<Rightarrow> bool \<times> 'd stage" where
  "and_then r f = (if fst r then f (snd r) else r)"

definition opt_transform :: "'d mutators \<Rightarrow> int \<Rightarrow> int \<Rightarrow> matrix option \<Rightarrow> 'd stage \<Rightarrow> bool \<times> 'd stage" where
  "opt_transform M page ix m s = (case m of None \<Rightarrow> (True, s)
     | Some mx \<Rightarrow> call_count (mu_transform M page ix mx) (\<lambda>c. c\<lparr>ct_transformed := Suc (ct_transformed c)\<rparr>) s)"

definition apply_one :: "'d mutators \<Rightarrow> int \<Rightarrow> in_place \<Rightarrow> 'd stage \<Rightarrow> 'd stage" where
  "apply_one M page ip s = snd (case ip_kind ip of
       Remove \<Rightarrow> call_count (mu_remove M page (ip_index ip)) (\<lambda>c. c\<lparr>ct_removed := Suc (ct_removed c)\<rparr>) s
     | Transform m \<Rightarrow> opt_transform M page (ip_index ip) (Some m) s
     | Restyle st m \<Rightarrow> and_then (opt_transform M page (ip_index ip) m s)
         (call_count (mu_setPathStyle M page (ip_index ip) st) (\<lambda>c. c\<lparr>ct_restyled := Suc (ct_restyled c)\<rparr>))
     | Set_opacity a m \<Rightarrow> and_then (opt_transform M page (ip_index ip) m s)
         (call_count (mu_setOpacity M page (ip_index ip) a) (\<lambda>c. c\<lparr>ct_opacity := Suc (ct_opacity c)\<rparr>))
     | Replace t mv \<Rightarrow> and_then
         (call_count (mu_replaceText M page (ip_index ip) t) (\<lambda>c. c\<lparr>ct_replaced := Suc (ct_replaced c)\<rparr>) s)
         (\<lambda>s1. case mv of None \<Rightarrow> (True, s1)
            | Some (dx, dy) \<Rightarrow> call_count (mu_move M page (ip_index ip) dx dy)
                (\<lambda>c. c\<lparr>ct_moved := Suc (ct_moved c)\<rparr>) s1)
     | Reorder f \<Rightarrow> call_count (mu_reorder M page (ip_index ip) f)
         (\<lambda>c. c\<lparr>ct_reordered := Suc (ct_reordered c)\<rparr>) s)"

definition is_reorder :: "in_place \<Rightarrow> bool" where
  "is_reorder ip = (case ip_kind ip of Reorder f \<Rightarrow> True | _ \<Rightarrow> False)"

text \<open>\<open>stableOps.sort((a, b) => b.index - a.index)\<close> is stable, as \<open>sort_key\<close> is.\<close>

definition descending :: "in_place list \<Rightarrow> in_place list" where
  "descending ops = sort_key (\<lambda>ip. - ip_index ip) (filter (\<lambda>ip. \<not> is_reorder ip) ops)"

definition queued_reorders :: "in_place list \<Rightarrow> in_place list" where
  "queued_reorders ops = sort_key ip_orig (filter is_reorder ops)"

definition apply_page :: "'d mutators \<Rightarrow> int \<times> in_place list \<Rightarrow> 'd stage \<Rightarrow> 'd stage" where
  "apply_page M pg s = (case pg of (page, ops) \<Rightarrow>
     fold (apply_one M page) (queued_reorders ops) (fold (apply_one M page) (descending ops) s))"

text \<open>\<open>byPage\<close>: a map from page to its operations, pages in order of first occurrence.\<close>

definition group_pages :: "in_place list \<Rightarrow> (int, in_place list) jsmap" where
  "group_pages ips = fold (\<lambda>ip m. AList.update (ip_page ip)
     (case map_get m (ip_page ip) of None \<Rightarrow> [ip] | Some b \<Rightarrow> b @ [ip]) m) ips []"

definition apply_in_place :: "'d mutators \<Rightarrow> in_place list \<Rightarrow> 'd \<Rightarrow> 'd \<times> counters" where
  "apply_in_place M ips d = fold (apply_page M) (group_pages ips) (d, no_counts)"

section \<open>The page as a list of elements\<close>

text \<open>
  What the code relies on: an element index is a position in the page's list of elements; a
  removal shifts the later ones, a reorder moves one element to an end, every other mutator
  changes one element in place. \<open>edit\<close> is what the in-place mutators do to one element.
\<close>

record 'e edits =
  ed_transform :: "matrix \<Rightarrow> 'e \<Rightarrow> 'e"
  ed_style :: "path_style \<Rightarrow> 'e \<Rightarrow> 'e"
  ed_opacity :: "jsnum \<Rightarrow> 'e \<Rightarrow> 'e"
  ed_text :: "string \<Rightarrow> 'e \<Rightarrow> 'e"
  ed_move :: "jsnum \<Rightarrow> jsnum \<Rightarrow> 'e \<Rightarrow> 'e"

definition to_end :: "bool \<Rightarrow> nat \<Rightarrow> 'e list \<Rightarrow> 'e list" where
  "to_end front i xs = (if front then splice_del i xs @ [xs ! i] else xs ! i # splice_del i xs)"

definition element_laws :: "'d mutators \<Rightarrow> ('d \<Rightarrow> int \<Rightarrow> 'e list) \<Rightarrow> 'e edits \<Rightarrow> bool" where
  "element_laws M els D \<longleftrightarrow> (\<forall>d p i. 0 \<le> i \<and> nat i < length (els d p) \<longrightarrow>
     (\<exists>d'. mu_remove M p i d = Inr (True, d') \<and> els d' = (els d)(p := splice_del (nat i) (els d p)))
   \<and> (\<forall>m. \<exists>d'. mu_transform M p i m d = Inr (True, d') \<and>
        els d' = (els d)(p := (els d p)[nat i := ed_transform D m (els d p ! nat i)]))
   \<and> (\<forall>st. \<exists>d'. mu_setPathStyle M p i st d = Inr (True, d') \<and>
        els d' = (els d)(p := (els d p)[nat i := ed_style D st (els d p ! nat i)]))
   \<and> (\<forall>a. \<exists>d'. mu_setOpacity M p i a d = Inr (True, d') \<and>
        els d' = (els d)(p := (els d p)[nat i := ed_opacity D a (els d p ! nat i)]))
   \<and> (\<forall>t. \<exists>d'. mu_replaceText M p i t d = Inr (True, d') \<and>
        els d' = (els d)(p := (els d p)[nat i := ed_text D t (els d p ! nat i)]))
   \<and> (\<forall>x y. \<exists>d'. mu_move M p i x y d = Inr (True, d') \<and>
        els d' = (els d)(p := (els d p)[nat i := ed_move D x y (els d p ! nat i)]))
   \<and> (\<forall>f. \<exists>d'. mu_reorder M p i f d = Inr (True, d') \<and>
        els d' = (els d)(p := to_end f (nat i) (els d p))))"

definition opt_edit :: "'e edits \<Rightarrow> matrix option \<Rightarrow> 'e \<Rightarrow> 'e" where
  "opt_edit D m e = (case m of None \<Rightarrow> e | Some mx \<Rightarrow> ed_transform D mx e)"

text \<open>The requested effect of a stable operation on its element: nothing is left of a removed one.\<close>

definition effect :: "'e edits \<Rightarrow> in_place_kind \<Rightarrow> 'e \<Rightarrow> 'e list" where
  "effect D k e = (case k of
       Remove \<Rightarrow> []
     | Transform m \<Rightarrow> [ed_transform D m e]
     | Restyle st m \<Rightarrow> [ed_style D st (opt_edit D m e)]
     | Set_opacity a m \<Rightarrow> [ed_opacity D a (opt_edit D m e)]
     | Replace t mv \<Rightarrow> [case mv of None \<Rightarrow> ed_text D t e | Some (x, y) \<Rightarrow> ed_move D x y (ed_text D t e)]
     | Reorder f \<Rightarrow> [e])"

text \<open>All effects at once, on the indices of the original page.\<close>

definition simultaneous :: "'e edits \<Rightarrow> in_place list \<Rightarrow> 'e list \<Rightarrow> 'e list" where
  "simultaneous D ops xs = concat (map_index (\<lambda>i e.
     case find (\<lambda>ip. ip_index ip = int i) ops of None \<Rightarrow> [e] | Some ip \<Rightarrow> effect D (ip_kind ip) e) xs)"

definition replace_at :: "nat \<Rightarrow> 'e list \<Rightarrow> 'e list \<Rightarrow> 'e list" where
  "replace_at i ys xs = take i xs @ ys @ drop (Suc i) xs"

lemma replace_at_single: "i < length xs \<Longrightarrow> replace_at i [y] xs = xs[i := y]"
  by (simp add: replace_at_def upd_conv_take_nth_drop)

lemma replace_at_nil: "replace_at i [] xs = splice_del i xs"
  by (simp add: replace_at_def splice_del_def)

lemma apply_one_stable:
  assumes laws: "element_laws M els D" and i: "0 \<le> ip_index ip" "nat (ip_index ip) < length (els d p)"
    and "\<not> is_reorder ip"
  shows "\<exists>d' c'. apply_one M p ip (d, c) = (d', c') \<and> els d' = (els d)(p :=
    replace_at (nat (ip_index ip)) (effect D (ip_kind ip) (els d p ! nat (ip_index ip))) (els d p))"
proof -
  let ?i = "ip_index ip" and ?n = "nat (ip_index ip)"
  have L: "\<exists>d'. mu_remove M p ?i e = Inr (True, d') \<and> els d' = (els e)(p := splice_del ?n (els e p))"
    "\<And>m. \<exists>d'. mu_transform M p ?i m e = Inr (True, d') \<and> els d' = (els e)(p := (els e p)[?n := ed_transform D m (els e p ! ?n)])"
    "\<And>st. \<exists>d'. mu_setPathStyle M p ?i st e = Inr (True, d') \<and> els d' = (els e)(p := (els e p)[?n := ed_style D st (els e p ! ?n)])"
    "\<And>a. \<exists>d'. mu_setOpacity M p ?i a e = Inr (True, d') \<and> els d' = (els e)(p := (els e p)[?n := ed_opacity D a (els e p ! ?n)])"
    "\<And>t. \<exists>d'. mu_replaceText M p ?i t e = Inr (True, d') \<and> els d' = (els e)(p := (els e p)[?n := ed_text D t (els e p ! ?n)])"
    "\<And>x y. \<exists>d'. mu_move M p ?i x y e = Inr (True, d') \<and> els d' = (els e)(p := (els e p)[?n := ed_move D x y (els e p ! ?n)])"
    if "?n < length (els e p)" for e
    using laws i(1) that unfolding element_laws_def by blast+
  have T: "\<exists>d' c'. opt_transform M p ?i m (d, c) = (True, d', c')
      \<and> els d' = (els d)(p := (els d p)[?n := opt_edit D m (els d p ! ?n)])" for m
  proof (cases m)
    case None
    then show ?thesis by (simp add: opt_transform_def opt_edit_def)
  next
    case (Some mx)
    obtain d1 where "mu_transform M p ?i mx d = Inr (True, d1)"
      "els d1 = (els d)(p := (els d p)[?n := ed_transform D mx (els d p ! ?n)])"
      using L(2) [OF i(2)] by blast
    then show ?thesis
      using Some by (simp add: opt_transform_def opt_edit_def call_count_def)
  qed
  show ?thesis
  proof (cases "ip_kind ip")
    case (Replace t mv)
    obtain d1 where d1: "mu_replaceText M p ?i t d = Inr (True, d1)"
      "els d1 = (els d)(p := (els d p)[?n := ed_text D t (els d p ! ?n)])"
      using L(5) [OF i(2)] by blast
    then have "?n < length (els d1 p)" using i(2) by simp
    show ?thesis
    proof (cases mv)
      case None
      then show ?thesis
        using d1 i(2) Replace
        by (simp add: apply_one_def and_then_def call_count_def effect_def replace_at_single)
    next
      case (Some xy)
      obtain x y where xy: "xy = (x, y)" by fastforce
      obtain d2 where "mu_move M p ?i x y d1 = Inr (True, d2)"
        "els d2 = (els d1)(p := (els d1 p)[?n := ed_move D x y (els d1 p ! ?n)])"
        using L(6) [OF \<open>?n < length (els d1 p)\<close>] by blast
      then show ?thesis
        using d1 i(2) Replace Some xy
        by (simp add: apply_one_def and_then_def call_count_def effect_def replace_at_single)
    qed
  next
    case (Transform m)
    then show ?thesis
      using T [of "Some m"] i(2) by (fastforce simp: apply_one_def effect_def replace_at_single opt_edit_def)
  next
    case (Restyle st m)
    obtain d1 c1 where d1: "opt_transform M p ?i m (d, c) = (True, d1, c1)"
      "els d1 = (els d)(p := (els d p)[?n := opt_edit D m (els d p ! ?n)])"
      using T by blast
    then have "?n < length (els d1 p)" using i(2) by simp
    then show ?thesis
      using d1 i(2) L(3) [of d1 st] Restyle
      by (fastforce simp: apply_one_def and_then_def call_count_def effect_def replace_at_single)
  next
    case (Set_opacity a m)
    obtain d1 c1 where d1: "opt_transform M p ?i m (d, c) = (True, d1, c1)"
      "els d1 = (els d)(p := (els d p)[?n := opt_edit D m (els d p ! ?n)])"
      using T by blast
    then have "?n < length (els d1 p)" using i(2) by simp
    then show ?thesis
      using d1 i(2) L(4) [of d1 a] Set_opacity
      by (fastforce simp: apply_one_def and_then_def call_count_def effect_def replace_at_single)
  next
    case (Reorder f)
    then show ?thesis using assms(4) by (simp add: is_reorder_def)
  next
    case Remove
    then show ?thesis
      using L(1) [OF i(2)] by (fastforce simp: apply_one_def call_count_def effect_def replace_at_nil)
  qed
qed

lemma map_index_append:
  "map_index f (as @ b # bs) = map_index f as @ f (length as) b # map_index (\<lambda>j. f (length as + 1 + j)) bs"
  by (rule nth_equalityI) (auto simp: js_simps nth_append nth_Cons' add.commute add.left_commute
      intro!: arg_cong2 [where f = f])

lemma map_index_cong:
  "(\<And>i. i < length xs \<Longrightarrow> f i (xs ! i) = g i (xs ! i)) \<Longrightarrow> map_index f xs = map_index g xs"
  by (rule nth_equalityI) (auto simp: js_simps)

lemma concat_singletons: "concat (map_index (\<lambda>i e. [e]) xs) = xs"
proof -
  have "map_index (\<lambda>i e. [e]) xs = map (\<lambda>e. [e]) xs"
    by (rule nth_equalityI) (auto simp: js_simps)
  then show ?thesis by simp
qed

lemma simultaneous_last:
  assumes "i < length xs" "ip_index ip = int i" "\<forall>q\<in>set os. 0 \<le> ip_index q \<and> ip_index q < int i"
  shows "simultaneous D (ip # os) xs
    = simultaneous D os (take i xs) @ effect D (ip_kind ip) (xs ! i) @ drop (Suc i) xs"
proof -
  let ?f = "\<lambda>ops j e. case find (\<lambda>ip. ip_index ip = int j) ops of None \<Rightarrow> [e] | Some ip \<Rightarrow> effect D (ip_kind ip) e"
  have xs: "xs = take i xs @ xs ! i # drop (Suc i) xs"
    using assms(1) by (simp add: id_take_nth_drop)
  have len: "length (take i xs) = i" using assms(1) by simp
  have none: "find (\<lambda>ip. ip_index ip = int (i + 1 + j)) (ip # os) = None" for j
    using assms(2,3) by (auto simp: find_None_iff)
  have "simultaneous D (ip # os) xs = concat (map_index (?f (ip # os)) (take i xs @ xs ! i # drop (Suc i) xs))"
    unfolding simultaneous_def by (subst xs) simp
  also have "\<dots> = concat (map_index (?f (ip # os)) (take i xs)) @ ?f (ip # os) i (xs ! i)
      @ concat (map_index (\<lambda>j. ?f (ip # os) (i + 1 + j)) (drop (Suc i) xs))"
    by (simp only: map_index_append len concat_append concat.simps)
  also have "map_index (?f (ip # os)) (take i xs) = map_index (?f os) (take i xs)"
    by (rule map_index_cong) (simp add: assms(2))
  also have "concat (map_index (\<lambda>j. ?f (ip # os) (i + 1 + j)) (drop (Suc i) xs)) = drop (Suc i) xs"
    unfolding none by (simp add: concat_singletons)
  finally show ?thesis
    by (simp add: simultaneous_def assms(2))
qed

lemma simultaneous_none: "simultaneous D [] xs = xs"
  by (simp add: simultaneous_def concat_singletons)

text \<open>Strictly descending indices: every edit finds its element where the snapshot had it.\<close>

lemma fold_descending:
  assumes laws: "element_laws M els D"
    and "sorted_wrt (\<lambda>a b. ip_index b < ip_index a) os"
    and "\<forall>q\<in>set os. \<not> is_reorder q \<and> 0 \<le> ip_index q \<and> ip_index q < int (length xs)"
    and "els d p = xs @ zs"
  shows "\<exists>d' c'. fold (apply_one M p) os (d, c) = (d', c') \<and> els d' = (els d)(p := simultaneous D os xs @ zs)"
  using assms(2-)
proof (induction os arbitrary: xs zs d c)
  case Nil
  then show ?case by (auto simp: simultaneous_none fun_eq_iff)
next
  case (Cons ip os)
  let ?i = "nat (ip_index ip)"
  have i: "0 \<le> ip_index ip" "?i < length xs" "\<not> is_reorder ip" "ip_index ip = int ?i"
    using Cons.prems(2) by auto
  have below: "\<forall>q\<in>set os. 0 \<le> ip_index q \<and> ip_index q < int ?i"
    using Cons.prems(1,2) by auto
  have "?i < length (els d p)" using i Cons.prems(3) by simp
  then obtain d1 c1 where 1: "apply_one M p ip (d, c) = (d1, c1)" "els d1 = (els d)(p :=
      replace_at ?i (effect D (ip_kind ip) (els d p ! ?i)) (els d p))"
    using apply_one_stable [OF laws i(1) _ i(3)] by blast
  have e1: "els d1 p = take ?i xs @ (effect D (ip_kind ip) (xs ! ?i) @ drop (Suc ?i) xs @ zs)"
    using i Cons.prems(3) by (simp add: 1 replace_at_def nth_append)
  have b1: "\<forall>q\<in>set os. \<not> is_reorder q \<and> 0 \<le> ip_index q \<and> ip_index q < int (length (take ?i xs))"
    using below i(2) Cons.prems(2) by auto
  have s1: "sorted_wrt (\<lambda>a b. ip_index b < ip_index a) os"
    using Cons.prems(1) by simp
  obtain d2 c2 where "fold (apply_one M p) os (d1, c1) = (d2, c2)"
    "els d2 = (els d1)(p := simultaneous D os (take ?i xs) @ effect D (ip_kind ip) (xs ! ?i) @ drop (Suc ?i) xs @ zs)"
    using Cons.IH [OF s1 b1 e1] by blast
  then show ?case
    using 1 simultaneous_last [OF i(2,4) below, of D] by (simp add: fun_eq_iff)
qed

lemma find_perm:
  assumes "distinct (map f xs)" "set ys = set xs"
  shows "find (\<lambda>x. f x = k) ys = find (\<lambda>x. f x = k) xs"
proof (cases "find (\<lambda>x. f x = k) xs")
  case None
  then have "find (\<lambda>x. f x = k) ys = None"
    using assms(2) by (simp add: find_None_iff)
  then show ?thesis using None by simp
next
  case (Some x)
  then have x: "x \<in> set xs" "f x = k" by (auto simp: find_Some_iff)
  obtain y where y: "find (\<lambda>x. f x = k) ys = Some y"
    using x assms(2) by (cases "find (\<lambda>x. f x = k) ys") (auto simp: find_None_iff)
  then have "y \<in> set xs" "f y = k" using assms(2) by (auto simp: find_Some_iff)
  then have "y = x" using assms(1) x by (auto simp: distinct_map inj_on_def)
  then show ?thesis using y Some by simp
qed

lemma simultaneous_perm:
  "distinct (map ip_index os) \<Longrightarrow> set ps = set os \<Longrightarrow> simultaneous D ps xs = simultaneous D os xs"
  unfolding simultaneous_def using find_perm [of ip_index os ps] by simp

lemma descending_strict:
  assumes "distinct (map ip_index (filter (\<lambda>ip. \<not> is_reorder ip) ops))"
  shows "sorted_wrt (\<lambda>a b. ip_index b < ip_index a) (descending ops)"
proof -
  let ?xs = "descending ops"
  have "mset ?xs = mset (filter (\<lambda>ip. \<not> is_reorder ip) ops)"
    by (simp add: descending_def)
  then have "distinct (map ip_index ?xs)"
    using assms by (metis mset_eq_imp_distinct_iff mset_map)
  moreover have "sorted (map (\<lambda>ip. - ip_index ip) ?xs)"
    by (simp add: descending_def)
  moreover have "distinct (map ip_index ys) \<Longrightarrow> sorted (map (\<lambda>ip. - ip_index ip) ys) \<Longrightarrow>
      sorted_wrt (\<lambda>a b. ip_index b < ip_index a) ys" for ys
    by (induction ys) (auto simp: image_iff less_le)
  ultimately show ?thesis by blast
qed

section \<open>Grouping by page\<close>

definition for_page :: "int \<Rightarrow> in_place list \<Rightarrow> in_place list" where
  "for_page p ips = filter (\<lambda>ip. ip_page ip = p) ips"

lemma group_pages_snoc:
  "group_pages (ips @ [ip]) = AList.update (ip_page ip)
     (case map_get (group_pages ips) (ip_page ip) of None \<Rightarrow> [ip] | Some b \<Rightarrow> b @ [ip]) (group_pages ips)"
  by (simp add: group_pages_def)

lemma group_pages_get:
  "wf_map (group_pages ips) \<and> map_get (group_pages ips) p = (if for_page p ips = [] then None else Some (for_page p ips))"
proof (induction ips rule: rev_induct)
  case Nil
  then show ?case by (simp add: group_pages_def for_page_def)
next
  case (snoc ip ips)
  then show ?case
    by (auto simp: group_pages_snoc js_simps for_page_def split: option.splits if_splits)
qed

definition in_bounds :: "('d \<Rightarrow> int \<Rightarrow> 'e list) \<Rightarrow> 'd \<Rightarrow> in_place \<Rightarrow> bool" where
  "in_bounds els d ip \<longleftrightarrow> 0 \<le> ip_index ip \<and> ip_index ip < int (length (els d (ip_page ip)))"

lemma apply_page_stable:
  assumes "element_laws M els D" and "\<forall>ip\<in>set ops. \<not> is_reorder ip \<and> ip_page ip = p \<and> in_bounds els d ip"
    and "distinct (map ip_index ops)"
  shows "\<exists>d' c'. apply_page M (p, ops) (d, c) = (d', c') \<and> els d' = (els d)(p := simultaneous D ops (els d p))"
proof -
  have f: "filter (\<lambda>ip. \<not> is_reorder ip) ops = ops" "filter is_reorder ops = []"
    using assms(2) by (auto simp: filter_id_conv filter_empty_conv)
  have s: "sorted_wrt (\<lambda>a b. ip_index b < ip_index a) (descending ops)" "set (descending ops) = set ops"
    using descending_strict [of ops] assms(3) f by (simp_all add: descending_def)
  have "\<forall>q\<in>set (descending ops). \<not> is_reorder q \<and> 0 \<le> ip_index q \<and> ip_index q < int (length (els d p))"
    using assms(2) s(2) by (metis in_bounds_def)
  then obtain d1 c1 where "fold (apply_one M p) (descending ops) (d, c) = (d1, c1)"
    "els d1 = (els d)(p := simultaneous D (descending ops) (els d p) @ [])"
    using fold_descending [OF assms(1) s(1), of "els d p" d p "[]" c] by auto
  then show ?thesis
    using simultaneous_perm [OF assms(3) s(2), of D "els d p"]
    by (simp add: apply_page_def queued_reorders_def f)
qed

lemma apply_pages_stable:
  assumes laws: "element_laws M els D" and "wf_map groups"
    and "\<forall>(p, ops)\<in>set groups. (\<forall>ip\<in>set ops. \<not> is_reorder ip \<and> ip_page ip = p \<and> in_bounds els d ip)
      \<and> distinct (map ip_index ops)"
  shows "\<exists>d' c'. fold (apply_page M) groups (d, c) = (d', c') \<and>
    (\<forall>p. els d' p = simultaneous D (case map_get groups p of None \<Rightarrow> [] | Some ops \<Rightarrow> ops) (els d p))"
  using assms(2-)
proof (induction groups arbitrary: d c)
  case Nil
  then show ?case by (simp add: simultaneous_none)
next
  case (Cons g groups)
  obtain p ops where g: "g = (p, ops)" by fastforce
  have new: "p \<notin> fst ` set groups" using Cons.prems(1) by (auto simp: wf_map_def g)
  obtain d1 c1 where 1: "apply_page M (p, ops) (d, c) = (d1, c1)" "els d1 = (els d)(p := simultaneous D ops (els d p))"
    using apply_page_stable [OF laws, of ops p d c] Cons.prems(2) by (auto simp: g)
  have ok: "\<forall>(q, os)\<in>set groups. (\<forall>ip\<in>set os. \<not> is_reorder ip \<and> ip_page ip = q \<and> in_bounds els d1 ip)
      \<and> distinct (map ip_index os)"
  proof -
    have "in_bounds els d1 ip = in_bounds els d ip" if "(q, os) \<in> set groups" "ip_page ip = q" for q os ip
      using that new by (force simp: in_bounds_def 1)
    then show ?thesis
      using Cons.prems(2) by fastforce
  qed
  then obtain d2 c2 where 2: "fold (apply_page M) groups (d1, c1) = (d2, c2)"
    "\<forall>q. els d2 q = simultaneous D (case map_get groups q of None \<Rightarrow> [] | Some os \<Rightarrow> os) (els d1 q)"
    using Cons.IH [of d1 c1] Cons.prems(1) by (auto simp: wf_map_def)
  have "map_get groups p = None"
    using new by (simp add: map_of_eq_None_iff)
  then show ?case
    using 1 2 by (auto simp: g simultaneous_none)
qed

text \<open>C1: A batch of in-place edits and removals, at most one per element, has on every page the effect
  of applying all of them at once to the page the user saw: a removal never makes another edit
  hit the wrong element, whatever the order in which the operations were queued, and pages the
  batch does not mention stay as they are.\<close>

theorem in_place_batch_simultaneous:
  assumes "element_laws M els D"
    and "\<forall>ip\<in>set ips. \<not> is_reorder ip \<and> in_bounds els d ip"
    and "distinct (map (\<lambda>ip. (ip_page ip, ip_index ip)) ips)"
  shows "els (fst (apply_in_place M ips d)) p = simultaneous D (for_page p ips) (els d p)"
proof -
  have wf: "wf_map (group_pages ips)" using group_pages_get [of ips] by blast
  have grp: "ops = for_page q ips" if "(q, ops) \<in> set (group_pages ips)" for q ops
    using that wf group_pages_get [of ips q] by (auto simp: wf_map_def split: if_splits)
  have "distinct (map ip_index (for_page q ips))" for q
  proof -
    have "distinct (map (\<lambda>ip. (ip_page ip, ip_index ip)) (for_page q ips))"
      using assms(3) by (simp add: for_page_def distinct_map inj_on_def)
    then show ?thesis
      by (auto simp: for_page_def distinct_map inj_on_def)
  qed
  then have ok: "\<forall>(q, ops)\<in>set (group_pages ips). (\<forall>ip\<in>set ops. \<not> is_reorder ip \<and> ip_page ip = q \<and> in_bounds els d ip)
      \<and> distinct (map ip_index ops)"
    using grp assms(2) by (fastforce simp: for_page_def)
  have "(case map_get (group_pages ips) p of None \<Rightarrow> [] | Some ops \<Rightarrow> ops) = for_page p ips"
    using group_pages_get [of ips p] by (simp split: if_splits)
  then show ?thesis
    using apply_pages_stable [OF assms(1) wf ok, of no_counts] by (auto simp: apply_in_place_def)
qed

section \<open>A list-backed instance\<close>

text \<open>Pages are functions from page numbers to lists of numbers; every edit adds a mark.\<close>

definition at_index :: "int \<Rightarrow> int \<Rightarrow> (nat \<Rightarrow> nat list \<Rightarrow> nat list) \<Rightarrow> (int \<Rightarrow> nat list) \<Rightarrow> string + bool \<times> (int \<Rightarrow> nat list)" where
  "at_index p i f d = Inr (if 0 \<le> i \<and> nat i < length (d p) then (True, d(p := f (nat i) (d p))) else (False, d))"

definition list_mutators :: "(int \<Rightarrow> nat list) mutators" where
  "list_mutators = \<lparr>mu_remove = (\<lambda>p i. at_index p i splice_del),
     mu_transform = (\<lambda>p i m. at_index p i (\<lambda>n xs. xs[n := xs ! n + 10])),
     mu_setPathStyle = (\<lambda>p i m. at_index p i (\<lambda>n xs. xs[n := xs ! n + 100])),
     mu_setOpacity = (\<lambda>p i m. at_index p i (\<lambda>n xs. xs[n := xs ! n + 100])),
     mu_replaceText = (\<lambda>p i m. at_index p i (\<lambda>n xs. xs[n := xs ! n + 1000])),
     mu_move = (\<lambda>p i x y. at_index p i (\<lambda>n xs. xs[n := xs ! n + 10])),
     mu_reorder = (\<lambda>p i f. at_index p i (to_end f))\<rparr>"

definition list_edits :: "nat edits" where
  "list_edits = \<lparr>ed_transform = (\<lambda>m x. x + 10), ed_style = (\<lambda>m x. x + 100), ed_opacity = (\<lambda>m x. x + 100),
     ed_text = (\<lambda>m x. x + 1000), ed_move = (\<lambda>a b x. x + 10)\<rparr>"

lemma list_laws: "element_laws list_mutators (\<lambda>d. d) list_edits"
  by (simp add: element_laws_def list_mutators_def list_edits_def at_index_def)

definition demo_in_place :: "int \<Rightarrow> in_place_kind \<Rightarrow> nat \<Rightarrow> in_place" where
  "demo_in_place i k n = \<lparr>ip_page = 1, ip_index = i, ip_kind = k, ip_orig = n\<rparr>"

lemma in_place_batch_simultaneous_witness:
  "fst (apply_in_place list_mutators
      [demo_in_place 0 Remove 0, demo_in_place 2 (Replace ''t'' None) 1, demo_in_place 1 Remove 2]
      (\<lambda>p. [1, 2, 3, 4])) 1 = [1003, 4]"
proof -
  let ?ips = "[demo_in_place 0 Remove 0, demo_in_place 2 (Replace ''t'' None) 1, demo_in_place 1 Remove 2]"
  have "\<forall>ip\<in>set ?ips. \<not> is_reorder ip \<and> in_bounds (\<lambda>d. d) (\<lambda>p. [1, 2, 3, 4 :: nat]) ip"
    "distinct (map (\<lambda>ip. (ip_page ip, ip_index ip)) ?ips)"
    by (simp_all add: demo_in_place_def is_reorder_def in_bounds_def)
  from in_place_batch_simultaneous [OF list_laws this, of 1] show ?thesis
    by (simp add: for_page_def demo_in_place_def simultaneous_def map_index_def effect_def list_edits_def)
qed

section \<open>Reorders use the indices from before\<close>

lemma reorder_law:
  assumes "element_laws M els D" "0 \<le> ip_index ip" "nat (ip_index ip) < length (els d p)" "ip_kind ip = Reorder f"
  shows "\<exists>d' c'. apply_one M p ip (d, c) = (d', c') \<and> els d' = (els d)(p := to_end f (nat (ip_index ip)) (els d p))"
proof -
  obtain d' where "mu_reorder M p (ip_index ip) f d = Inr (True, d')"
    "els d' = (els d)(p := to_end f (nat (ip_index ip)) (els d p))"
    using assms(1-3) unfolding element_laws_def by blast
  then show ?thesis
    using assms(4) by (simp add: apply_one_def call_count_def)
qed

lemma nth_after_del: "i < j \<Longrightarrow> Suc j < length xs \<Longrightarrow> (splice_del i xs @ ys) ! j = xs ! Suc j"
  by (auto simp: splice_del_def nth_append)

text \<open>A reorder that follows a removal, or an earlier bring-to-front, of an element below it on the
  same page brings the wrong element to the front: the index was captured before the first
  operation and the element above the requested one is moved instead.\<close>

lemma stale_reorder_moves_neighbour:
  assumes "element_laws M els D" and "i < j" and "Suc j < length (els d p)"
    and "k = Remove \<or> k = Reorder True"
  shows "last (els (fst (apply_page M (p, [\<lparr>ip_page = p, ip_index = int i, ip_kind = k, ip_orig = 0\<rparr>,
      \<lparr>ip_page = p, ip_index = int j, ip_kind = Reorder True, ip_orig = 1\<rparr>]) (d, c))) p) = els d p ! Suc j"
proof -
  let ?a = "\<lparr>ip_page = p, ip_index = int i, ip_kind = k, ip_orig = 0\<rparr>"
  let ?b = "\<lparr>ip_page = p, ip_index = int j, ip_kind = Reorder True, ip_orig = 1\<rparr>"
  have order: "apply_page M (p, [?a, ?b]) (d, c) = apply_one M p ?b (apply_one M p ?a (d, c))"
    using assms(4) by (auto simp: apply_page_def descending_def queued_reorders_def is_reorder_def)
  have "\<exists>d1 c1. apply_one M p ?a (d, c) = (d1, c1) \<and> els d1 p = splice_del i (els d p) @ (if k = Remove then [] else [els d p ! i])"
  proof (cases "k = Remove")
    case True
    then show ?thesis
      using apply_one_stable [OF assms(1), of ?a d p c] assms(2,3)
      by (auto simp: is_reorder_def effect_def replace_at_nil)
  next
    case False
    then have "k = Reorder True" using assms(4) by simp
    then show ?thesis
      using reorder_law [OF assms(1), of ?a d p True c] assms(2,3) by (auto simp: to_end_def)
  qed
  then obtain d1 c1 where 1: "apply_one M p ?a (d, c) = (d1, c1)"
    "els d1 p = splice_del i (els d p) @ (if k = Remove then [] else [els d p ! i])" by blast
  have "j < length (els d1 p)"
    using assms(2,3) by (simp add: 1 js_simps)
  then obtain d2 c2 where "apply_one M p ?b (d1, c1) = (d2, c2)" "els d2 = (els d1)(p := to_end True j (els d1 p))"
    using reorder_law [OF assms(1), of ?b d1 p True c1] by auto
  moreover have "els d1 p ! j = els d p ! Suc j"
    using nth_after_del [OF assms(2,3)] by (simp add: 1)
  ultimately show ?thesis
    unfolding order 1(1) by (simp add: to_end_def)
qed

lemma stale_reorder_moves_neighbour_witness:
  "last (fst (apply_page list_mutators (1, [\<lparr>ip_page = 1, ip_index = int 0, ip_kind = Reorder True, ip_orig = 0\<rparr>,
      \<lparr>ip_page = 1, ip_index = int 1, ip_kind = Reorder True, ip_orig = 1\<rparr>]) ((\<lambda>p. [11, 22, 33]), no_counts)) 1) = 33"
  using stale_reorder_moves_neighbour [OF list_laws, of 0 1 "\<lambda>p. [11, 22, 33]" 1 "Reorder True" no_counts]
  by simp

end
