(* ===== verification/Apply_Operations.thy ===== *)
theory Apply_Operations
  imports Apply_In_Place Document_Handle Form_Filler Operations_Store
begin

text \<open>
  The whole pipeline of \<open>apply-operations.ts\<close>: in-place pass on the input, save, redaction of the
  fallback regions (\<open>engine-redact.ts\<close>), the add pass, the form fills, the final save, with the
  handles it opens. The renderers, the redactor and the form setters are functions of the record.
\<close>

record ('b, 'd) backend =
  bk_engine :: "('b, 'd) engine"
  bk_snapshot :: "'d \<Rightarrow> page_snapshot"
  bk_mutators :: "'d mutators"
  bk_redact :: "int \<Rightarrow> bounds \<Rightarrow> 'd \<Rightarrow> string + int \<times> 'd"
  bk_add :: "string \<Rightarrow> int \<Rightarrow> payload \<Rightarrow> 'd \<Rightarrow> string + 'd"
  bk_hasImage :: "payload \<Rightarrow> bool"
  bk_fields :: "'d field_api"

record 'b apply_result =
  ar_bytes :: 'b
  ar_targets :: nat
  ar_redacted :: nat
  ar_redactionOk :: bool
  ar_adds :: nat
  ar_counts :: counters
  ar_filled :: nat

section \<open>The fallback operations\<close>

record redaction =
  rd_page :: int
  rd_bounds :: bounds

record add_op =
  ao_page :: int
  ao_payload :: payload
  ao_orig :: nat

definition missing_bounds :: "nat \<Rightarrow> operation \<Rightarrow> string" where
  "missing_bounds i op = ''applyOperations: oldBounds is required for update operations (op['' @ nat_str 10 i
     @ ''], element type: '' @ or_keep (pl_type (op_payload op)) ''unknown'' @ '').''"

fun classify_fallback ::
  "(int \<Rightarrow> jsnum \<times> jsnum \<times> page_rotation) \<Rightarrow> nat \<Rightarrow> operation list \<Rightarrow> string + redaction list \<times> add_op list" where
  "classify_fallback info i [] = Inr ([], [])"
| "classify_fallback info i (op # ops) =
     (let pdf = toPdfBounds (info (op_page op));
          add = \<lparr>ao_page = op_page op, ao_payload = op_payload op, ao_orig = i\<rparr>;
          here = (case op_action op of
              A_add \<Rightarrow> Inr ([], [add])
            | A_update \<Rightarrow> (case op_oldBounds op of
                 None \<Rightarrow> Inl (missing_bounds i op)
               | Some b \<Rightarrow> Inr ([\<lparr>rd_page = op_page op, rd_bounds = pdf b\<rparr>], [add]))
            | A_delete \<Rightarrow> (case (case pl_bounds (op_payload op) of Some b \<Rightarrow> Some b | None \<Rightarrow> op_oldBounds op) of
                 None \<Rightarrow> Inr ([], [])
               | Some b \<Rightarrow> Inr ([\<lparr>rd_page = op_page op, rd_bounds = pdf b\<rparr>], []))
            | A_reorder \<Rightarrow> Inr ([], []))
      in case here of Inl e \<Rightarrow> Inl e
         | Inr (ts, as) \<Rightarrow> (case classify_fallback info (Suc i) ops of Inl e \<Rightarrow> Inl e
            | Inr (ts2, as2) \<Rightarrow> Inr (ts @ ts2, as @ as2)))"

section \<open>Redaction\<close>

fun redact_all :: "('b, 'd) backend \<Rightarrow> int \<Rightarrow> redaction list \<Rightarrow> 'd \<Rightarrow> string + nat \<times> 'd" where
  "redact_all B n [] d = Inr (0, d)"
| "redact_all B n (t # ts) d =
     (if rd_page t < 1 \<or> rd_page t > n then redact_all B n ts d
      else case bk_redact B (rd_page t) (rd_bounds t) d of Inl msg \<Rightarrow> Inl msg
      | Inr (removed, d1) \<Rightarrow> (case redact_all B n ts d1 of Inl msg \<Rightarrow> Inl msg
         | Inr (k, d2) \<Rightarrow> Inr (if removed \<ge> 0 then Suc k else k, d2)))"

definition applyRedactions :: "('b, 'd) backend \<Rightarrow> 'b \<Rightarrow> redaction list \<Rightarrow> ('d, 'b \<times> nat) eff" where
  "applyRedactions B bytes targets =
     (if length targets = 0 then eff_return (bytes, 0)
      else eff_bind (open_doc (bk_engine B) Plain_error bytes) (\<lambda>k.
        eff_finally
          (eff_bind (read_doc k (en_pageCount (bk_engine B))) (\<lambda>n.
           eff_bind (call_doc k (redact_all B n targets)) (\<lambda>(applied, d1).
           eff_bind (mutate_doc k (\<lambda>d. Inr d1)) (\<lambda>_.
           eff_bind (call_doc k (en_saveCompressed (bk_engine B))) (\<lambda>b. eff_return (b, applied))))))
          (close_doc k)))"

section \<open>The add pass and the fills\<close>

definition known_type :: "string option \<Rightarrow> bool" where
  "known_type t \<longleftrightarrow> t \<in> {Some ''text'', Some ''image'', Some ''shape'', Some ''annotation'', Some ''form_field''}"

definition op_failed :: "add_op \<Rightarrow> string \<Rightarrow> pdf_error" where
  "op_failed a msg = Plain_error (''applyOperations: op['' @ nat_str 10 (ao_orig a) @ ''] failed (type=''
     @ or_keep (pl_type (ao_payload a)) ''unknown'' @ '', page='' @ int_str (ao_page a) @ '', elementId=''
     @ or_keep (pl_id (ao_payload a)) ''n/a'' @ ''): '' @ msg)"

text \<open>An image without data is counted although nothing is drawn, as in the code.\<close>

definition add_one :: "('b, 'd) backend \<Rightarrow> nat \<Rightarrow> add_op \<Rightarrow> ('d, nat) eff" where
  "add_one B k a w =
     (if \<not> known_type (pl_type (ao_payload a)) then (Inr 0, w)
      else if pl_type (ao_payload a) = Some ''image'' \<and> \<not> bk_hasImage B (ao_payload a) then (Inr 1, w)
      else case mutate_doc k (bk_add B (the (pl_type (ao_payload a))) (ao_page a) (ao_payload a)) w of
          (Inr u, w1) \<Rightarrow> (Inr 1, w1)
        | (Inl (Plain_error msg), w1) \<Rightarrow> (Inl (op_failed a msg), w1)
        | (Inl e, w1) \<Rightarrow> (Inl e, w1))"

fun add_all :: "('b, 'd) backend \<Rightarrow> nat \<Rightarrow> add_op list \<Rightarrow> ('d, nat) eff" where
  "add_all B k [] = eff_return 0"
| "add_all B k (a # as) = eff_bind (add_one B k a) (\<lambda>n. eff_bind (add_all B k as) (\<lambda>m. eff_return (n + m)))"

text \<open>The last queued value of a field name wins. Names are kept in the order of their first occurrence;
  JavaScript lists names that look like array indices first, which changes only the order of the
  results.\<close>

definition fill_map :: "form_fill list \<Rightarrow> (string, field_value) jsmap" where
  "fill_map fs = fold (\<lambda>f m. AList.update (fl_name f) (fl_value f) m) fs []"

text \<open>A field that could not be filled is added; a failing add is logged and skipped.\<close>

fun fill_failed ::
  "('b, 'd) backend \<Rightarrow> form_fill list \<Rightarrow> (string \<times> fill_error option) list \<Rightarrow> 'd \<Rightarrow> nat \<times> nat \<times> 'd" where
  "fill_failed B fs [] d = (0, 0, d)"
| "fill_failed B fs ((name, None) # rs) d =
     (case fill_failed B fs rs d of (ok, added, d1) \<Rightarrow> (Suc ok, added, d1))"
| "fill_failed B fs ((name, Some err) # rs) d =
     (case find (\<lambda>f. fl_name f = name) fs of
        None \<Rightarrow> fill_failed B fs rs d
      | Some f \<Rightarrow> (case bk_add B ''form_field'' (fl_page f) (fl_payload f) d of
            Inl msg \<Rightarrow> fill_failed B fs rs d
          | Inr d1 \<Rightarrow> (case fill_failed B fs rs d1 of (ok, added, d2) \<Rightarrow> (ok, Suc added, d2))))"

definition fill_forms :: "('b, 'd) backend \<Rightarrow> form_fill list \<Rightarrow> 'd \<Rightarrow> nat \<times> nat \<times> 'd" where
  "fill_forms B fs d =
     (if length fs = 0 then (0, 0, d)
      else case applyFieldValues (bk_fields B) (fill_map fs) d of (results, d1) \<Rightarrow> fill_failed B fs results d1)"

section \<open>The pipeline\<close>

text \<open>A total change of the document at \<open>k\<close> that also answers a value.\<close>

definition run_doc :: "nat \<Rightarrow> ('d \<Rightarrow> 'a \<times> 'd) \<Rightarrow> ('d, 'a) eff" where
  "run_doc k f w = (case map_get (wd_docs w) k of None \<Rightarrow> trap w
     | Some d \<Rightarrow> (case f d of (a, d1) \<Rightarrow> (Inr a, w\<lparr>wd_docs := AList.update k d1 (wd_docs w)\<rparr>)))"

definition eff_close :: "pdf_handle \<Rightarrow> ('d, unit) eff" where
  "eff_close h w = (Inr (), closeDocument h w)"

definition in_place_pass ::
  "('b, 'd) backend \<Rightarrow> uuid \<Rightarrow> 'b \<Rightarrow> operation list \<Rightarrow> ('d, route list \<times> counters \<times> 'b) eff" where
  "in_place_pass B fresh input ops =
     eff_bind (openDocument (bk_engine B) fresh input None) (\<lambda>h.
     eff_bind (read_doc (ph_doc h) (\<lambda>d. routes (bk_snapshot B d) ops)) (\<lambda>rs.
     let ips = in_place_ops rs in
     eff_bind (if length ips > 0
               then run_doc (ph_doc h) (\<lambda>d. case apply_in_place (bk_mutators B) ips d of (d1, c) \<Rightarrow> (c, d1))
               else eff_return no_counts) (\<lambda>counts.
     eff_bind (if length ips > 0 then saveDocument (bk_engine B) h None else eff_return input) (\<lambda>after.
     eff_bind (eff_close h) (\<lambda>_. eff_return (rs, counts, after))))))"

definition fallback_phase ::
  "('b, 'd) backend \<Rightarrow> uuid \<Rightarrow> 'b \<Rightarrow> operation list \<Rightarrow> ('d, redaction list \<times> add_op list) eff" where
  "fallback_phase B fresh after fallback =
     eff_bind (openDocument (bk_engine B) fresh after None) (\<lambda>m.
     eff_bind (read_doc (ph_doc m) (\<lambda>d. classify_fallback (sp_info (bk_snapshot B d)) 0 fallback)) (\<lambda>r.
       case r of Inl msg \<Rightarrow> eff_throw (Plain_error msg)
       | Inr (targets, adds) \<Rightarrow> eff_bind (eff_close m) (\<lambda>_. eff_return (targets, adds))))"

definition final_pass ::
  "('b, 'd) backend \<Rightarrow> uuid \<Rightarrow> 'b \<Rightarrow> add_op list \<Rightarrow> form_fill list \<Rightarrow> ('d, nat \<times> nat \<times> 'b) eff" where
  "final_pass B fresh working adds fills =
     eff_bind (openDocument (bk_engine B) fresh working None) (\<lambda>h.
     eff_bind (add_all B (ph_doc h) adds) (\<lambda>n.
     eff_bind (run_doc (ph_doc h) (\<lambda>d. case fill_forms B fills d of (ok, added, d1) \<Rightarrow> ((ok, added), d1))) (\<lambda>(ok, added).
     eff_bind (saveDocument (bk_engine B) h None) (\<lambda>final.
     eff_bind (eff_close h) (\<lambda>_. eff_return (n + added, ok, final))))))"

text \<open>A failing redaction is logged and the bytes go on as they were.\<close>

definition redaction_phase ::
  "('b, 'd) backend \<Rightarrow> 'b \<Rightarrow> redaction list \<Rightarrow> ('d, 'b \<times> nat \<times> bool) eff" where
  "redaction_phase B after targets = eff_try
     (if length targets > 0
      then eff_bind (applyRedactions B after targets) (\<lambda>(b, n). eff_return (b, n, True))
      else eff_return (after, 0, True))
     (\<lambda>e. eff_return (after, 0, False))"

definition applyOperations ::
  "('b, 'd) backend \<Rightarrow> uuid \<Rightarrow> 'b \<Rightarrow> operation list \<Rightarrow> ('d, 'b apply_result) eff" where
  "applyOperations B fresh input ops =
     eff_bind (in_place_pass B fresh input ops) (\<lambda>(rs, counts, after).
     eff_bind (fallback_phase B fresh after (fallback_ops rs)) (\<lambda>(targets, adds).
     eff_bind (redaction_phase B after targets) (\<lambda>(working, redacted, ok).
     eff_bind (final_pass B fresh working adds (form_fill_ops rs)) (\<lambda>(added, filled, final).
       eff_return \<lparr>ar_bytes = final, ar_targets = length targets, ar_redacted = redacted,
         ar_redactionOk = ok, ar_adds = added, ar_counts = counts, ar_filled = filled\<rparr>))))"

section \<open>The handles of the pipeline\<close>

text \<open>The world has one document more than \<open>base\<close>, at \<open>k\<close>, and has not trapped since \<open>t\<close>.\<close>

definition open_at :: "nat \<Rightarrow> (nat, 'd) jsmap \<Rightarrow> bool \<Rightarrow> 'd world \<Rightarrow> bool" where
  "open_at k base t w \<longleftrightarrow> handles_ok w \<and> \<not> map_has base k \<and> (\<exists>d. wd_docs w = AList.update k d base)
     \<and> wd_trapped w = t"

definition keeps_open :: "nat \<Rightarrow> ('d, 'a) eff \<Rightarrow> bool" where
  "keeps_open k m \<longleftrightarrow> (\<forall>base t w. open_at k base t w \<longrightarrow> open_at k base t (snd (m w)))"

definition settled :: "'d world \<Rightarrow> 'd world \<Rightarrow> bool" where
  "settled w w' \<longleftrightarrow> handles_ok w' \<and> wd_docs w' = wd_docs w \<and> wd_trapped w' = wd_trapped w"

lemma update_update: "AList.update k a (AList.update k b m) = AList.update k a m"
  by (induction m) auto

lemma handles_ok_update:
  assumes "handles_ok w" "map_has (wd_docs w) k"
  shows "handles_ok (w\<lparr>wd_docs := AList.update k d (wd_docs w)\<rparr>)"
  using assms by (auto simp: handles_ok_def world_ok_def map_has_def js_simps split: if_splits)

lemma open_at_live: "open_at k base t w \<Longrightarrow> \<exists>d. map_get (wd_docs w) k = Some d"
  by (auto simp: open_at_def js_simps)

lemma open_at_update:
  assumes "open_at k base t w"
  shows "open_at k base t (w\<lparr>wd_docs := AList.update k d (wd_docs w)\<rparr>)"
proof -
  have "handles_ok (w\<lparr>wd_docs := AList.update k d (wd_docs w)\<rparr>)"
    using assms open_at_live [OF assms] by (intro handles_ok_update) (auto simp: open_at_def map_has_def)
  then show ?thesis
    using assms by (auto simp: open_at_def update_update)
qed

lemma open_at_dirty: "open_at k base t (set_dirty j b w) = open_at k base t w"
  by (simp add: open_at_def set_dirty_def handles_ok_def world_ok_def)

lemma keeps_open_basic:
  "keeps_open k (eff_return a)" "keeps_open k (eff_throw e)" "keeps_open k (read_doc k f)"
  "keeps_open k (call_doc k g)" "keeps_open k (mutate_doc k h)" "keeps_open k (run_doc k r)"
proof -
  show "keeps_open k (eff_return a)" "keeps_open k (eff_throw e)"
    by (simp_all add: keeps_open_def eff_return_def eff_throw_def)
  show "keeps_open k (read_doc k f)" "keeps_open k (call_doc k g)"
    unfolding keeps_open_def
    by (auto simp: read_doc_def call_doc_def dest: open_at_live split: option.split sum.split)
  show "keeps_open k (mutate_doc k h)"
    unfolding keeps_open_def
    by (auto simp: mutate_doc_def open_at_update dest: open_at_live split: option.split sum.split)
  show "keeps_open k (run_doc k r)"
    unfolding keeps_open_def
    by (auto simp: run_doc_def open_at_update dest: open_at_live split: option.split prod.split)
qed

lemma keeps_open_bind:
  fixes m :: "('d, 'a) eff" and f :: "'a \<Rightarrow> ('d, 'c) eff"
  assumes "keeps_open k m" "\<And>a. keeps_open k (f a)"
  shows "keeps_open k (eff_bind m f)"
  unfolding keeps_open_def
proof (intro allI impI)
  fix base t and w :: "'d world" assume o: "open_at k base t w"
  obtain r w1 where m: "m w = (r, w1)" by fastforce
  have "open_at k base t (snd (m w))"
    using assms(1) o unfolding keeps_open_def by blast
  then have 1: "open_at k base t w1"
    by (simp add: m)
  show "open_at k base t (snd (eff_bind m f w))"
  proof (cases r)
    case (Inl e)
    then show ?thesis using m 1 by (simp add: eff_bind_def)
  next
    case (Inr a)
    have "open_at k base t (snd (f a w1))"
      using assms(2) [of a] 1 unfolding keeps_open_def by blast
    then show ?thesis using m Inr by (simp add: eff_bind_def)
  qed
qed

lemma keeps_open_save: "ph_doc h = k \<Longrightarrow> keeps_open k (saveDocument E h o1)"
  unfolding saveDocument_def
  by (intro keeps_open_bind) (auto simp: keeps_open_basic, auto simp: keeps_open_def open_at_dirty)

lemma keeps_open_snd: "keeps_open k m \<Longrightarrow> open_at k base t w \<Longrightarrow> m w = (r, w1) \<Longrightarrow> open_at k base t w1"
  unfolding keeps_open_def by (metis snd_conv)

lemma keeps_open_add_one: "keeps_open k (add_one B k a)"
  unfolding keeps_open_def add_one_def
  by (auto split: sum.split prod.split pdf_error.split dest: keeps_open_snd [OF keeps_open_basic(5)])

lemma keeps_open_adds: "keeps_open k (add_all B k as)"
  by (induction as) (auto simp: keeps_open_basic keeps_open_add_one intro!: keeps_open_bind)

lemma open_ok:
  assumes "handles_ok w" "openDocument E f b None w = (Inr h, w1)"
  shows "open_at (ph_doc h) (wd_docs w) (wd_trapped w) w1"
proof -
  obtain d where d: "w1 = set_dirty (wd_next w) False (w\<lparr>wd_docs := AList.update (wd_next w) d (wd_docs w),
      wd_next := Suc (wd_next w)\<rparr>)" "ph_doc h = wd_next w"
    using assms(2) by (auto simp: openDocument_def Let_def given_def eff_bind_Inr open_doc_def eff_lift_def
        alloc_doc_def split: if_splits sum.splits)
  have "\<not> map_has (wd_docs w) (wd_next w)"
    using assms(1) by (auto simp: handles_ok_def world_ok_def)
  moreover have "handles_ok (w\<lparr>wd_docs := AList.update (wd_next w) d (wd_docs w), wd_next := Suc (wd_next w)\<rparr>)"
    using assms(1) by (auto simp: handles_ok_def world_ok_def map_has_def js_simps less_SucI split: if_splits)
  ultimately show ?thesis
    unfolding d by (auto simp: open_at_dirty) (auto simp: open_at_def)
qed

lemma close_settles:
  assumes "open_at (ph_doc h) (wd_docs w) (wd_trapped w) w1"
  shows "settled w (closeDocument h w1)"
proof -
  have h: "handles_ok w1" "handle_known h w1"
    using assms open_at_live [OF assms] by (auto simp: open_at_def handle_known_def map_has_def)
  have n: "\<not> ph_doc h \<in> set (wd_closed w1)"
    using h(1) open_at_live [OF assms] by (auto simp: handles_ok_def map_has_def)
  obtain d where d: "wd_docs w1 = AList.update (ph_doc h) d (wd_docs w)" "\<not> map_has (wd_docs w) (ph_doc h)"
    using assms by (auto simp: open_at_def)
  have "wd_docs (closeDocument h w1) = wd_docs w"
    using n d by (simp add: closeDocument_def close_doc_def map_has_def js_simps delete_update_same
        delete_fresh [unfolded map_has_def])
  then show ?thesis
    using closeDocument_ok [OF h] assms by (simp add: settled_def open_at_def)
qed

text \<open>Open, work, close: when it succeeds the documents are the ones from before.\<close>

definition closes :: "pdf_handle \<Rightarrow> ('d, 'a) eff \<Rightarrow> bool" where
  "closes h m \<longleftrightarrow> (\<forall>w0 w r w'. open_at (ph_doc h) (wd_docs w0) (wd_trapped w0) w \<longrightarrow> m w = (Inr r, w')
     \<longrightarrow> settled w0 w')"

lemma closes_close: "closes h (eff_bind (eff_close h) (\<lambda>_. eff_return a))"
  by (auto simp: closes_def eff_bind_def eff_close_def eff_return_def close_settles)

lemma closes_throw: "closes h (eff_throw e)"
  by (simp add: closes_def)

lemma closes_bind:
  assumes "keeps_open (ph_doc h) m" "\<And>a. closes h (f a)"
  shows "closes h (eff_bind m f)"
  unfolding closes_def eff_bind_Inr
  using assms(2) keeps_open_snd [OF assms(1)] unfolding closes_def by blast

lemma session_settles:
  assumes "\<And>h. closes h (f h)" "handles_ok w"
    and "eff_bind (openDocument E fresh b None) f w = (Inr r, w')"
  shows "settled w w'"
proof -
  obtain h w1 where "openDocument E fresh b None w = (Inr h, w1)" "f h w1 = (Inr r, w')"
    using assms(3) by (auto simp: eff_bind_Inr)
  then show ?thesis
    using assms(1) [of h] open_ok [OF assms(2), of E fresh b h w1] by (simp add: closes_def)
qed

lemmas pass_rules = closes_bind closes_close closes_throw keeps_open_basic keeps_open_save keeps_open_adds

lemma in_place_pass_settles:
  assumes "handles_ok w" "in_place_pass B fresh input ops w = (Inr r, w')"
  shows "settled w w'"
  by (rule session_settles [OF _ assms(1) assms(2) [unfolded in_place_pass_def]])
    (auto simp: Let_def intro!: pass_rules)

lemma fallback_phase_settles:
  assumes "handles_ok w" "fallback_phase B fresh after ops w = (Inr r, w')"
  shows "settled w w'"
  by (rule session_settles [OF _ assms(1) assms(2) [unfolded fallback_phase_def]])
    (auto intro!: pass_rules split: sum.split)

lemma final_pass_settles:
  assumes "handles_ok w" "final_pass B fresh working adds fills w = (Inr r, w')"
  shows "settled w w'"
  by (rule session_settles [OF _ assms(1) assms(2) [unfolded final_pass_def]])
    (auto intro!: pass_rules split: prod.split)

lemma applyRedactions_balanced: "balanced (applyRedactions B bytes targets)"
  unfolding applyRedactions_def
  by (auto intro!: balanced_basic balanced_open uses_only_bind uses_only_basic uses_only_mutate split: prod.split)

text \<open>The redactor's own handle is outside the closed handles.\<close>

definition quiet :: "('d, 'a) eff \<Rightarrow> bool" where
  "quiet m \<longleftrightarrow> (\<forall>w. wd_closed (snd (m w)) = wd_closed w \<and> wd_next w \<le> wd_next (snd (m w)))"

lemma quiet_bind:
  assumes "quiet m" "\<And>a. quiet (f a)"
  shows "quiet (eff_bind m f)"
  unfolding quiet_def
proof (intro allI)
  fix w
  obtain r w1 where m: "m w = (r, w1)" by fastforce
  then have 1: "wd_closed w1 = wd_closed w" "wd_next w \<le> wd_next w1"
    using assms(1) unfolding quiet_def by (metis snd_conv)+
  show "wd_closed (snd (eff_bind m f w)) = wd_closed w \<and> wd_next w \<le> wd_next (snd (eff_bind m f w))"
  proof (cases r)
    case (Inr a)
    then show ?thesis
      using m 1 assms(2) [of a] unfolding quiet_def by (auto simp: eff_bind_def dest!: spec [of _ w1])
  qed (use m 1 in \<open>simp add: eff_bind_def\<close>)
qed

lemma quiet_basic:
  "quiet (eff_return a)" "quiet (eff_lift wr x)" "quiet (read_doc k f)" "quiet (call_doc k g)"
  "quiet (mutate_doc k h)" "quiet (alloc_doc d)"
  by (auto simp: quiet_def eff_return_def eff_lift_def read_doc_def call_doc_def mutate_doc_def trap_def
      alloc_doc_def split: option.split sum.split)

lemma quiet_finally: "quiet m \<Longrightarrow> quiet (eff_finally m (close_doc k))"
  by (auto simp: quiet_def eff_finally_def close_doc_def split: prod.split) (metis snd_conv)+

lemma applyRedactions_quiet: "quiet (applyRedactions B bytes targets)"
  unfolding applyRedactions_def open_doc_def
  by (auto intro!: quiet_basic quiet_bind quiet_finally split: prod.split)

lemma balanced_settles:
  assumes "handles_ok w" "balanced m" "quiet m"
  shows "settled w (snd (m w))"
proof -
  have "world_ok w" using assms(1) by (simp add: handles_ok_def)
  then have "world_ok (snd (m w))" "wd_trapped (snd (m w)) = wd_trapped w" "wd_docs (snd (m w)) = wd_docs w"
    using assms(2) by (simp_all add: balanced_def Let_def)
  moreover have "wd_closed (snd (m w)) = wd_closed w" "wd_next w \<le> wd_next (snd (m w))"
    using assms(3) by (simp_all add: quiet_def)
  ultimately show ?thesis
    using assms(1) by (auto simp: settled_def handles_ok_def intro: order_less_le_trans)
qed

lemma applyRedactions_settles:
  "handles_ok w \<Longrightarrow> settled w (snd (applyRedactions B bytes targets w))"
  by (rule balanced_settles [OF _ applyRedactions_balanced applyRedactions_quiet])

lemma redaction_phase_settles:
  assumes "handles_ok w" "redaction_phase B after targets w = (r, w')"
  shows "settled w w'"
proof (cases "length targets > 0")
  case True
  obtain x w1 where x: "applyRedactions B after targets w = (x, w1)" by fastforce
  have "settled w w1"
    using applyRedactions_settles [OF assms(1), of B after targets] by (simp add: x)
  moreover have "w' = w1"
    using assms(2) True x
    by (cases x) (auto simp: redaction_phase_def eff_try_def eff_bind_def eff_return_def split: prod.splits)
  ultimately show ?thesis by simp
next
  case False
  then show ?thesis
    using assms by (simp add: redaction_phase_def eff_try_def eff_return_def settled_def)
qed

lemma settled_trans: "settled w0 w1 \<Longrightarrow> settled w1 w2 \<Longrightarrow> settled w0 w2"
  by (simp add: settled_def)

lemma settled_handles: "settled w0 w1 \<Longrightarrow> handles_ok w1"
  by (simp add: settled_def)

text \<open>C5: A successful \<open>applyOperations\<close> returns every WASM document it opened: whatever the queue holds and
  whatever the renderers do, the live documents afterwards are those from before and the engine has
  not trapped (no use after free, no second free).\<close>

theorem apply_operations_leaves_no_document:
  assumes "handles_ok w" and "applyOperations B fresh input ops w = (Inr r, w')"
  shows "wd_docs w' = wd_docs w \<and> wd_trapped w' = wd_trapped w \<and> handles_ok w'"
proof -
  obtain rs counts after w1 targets adds w2 working n ok w3 x where
    1: "in_place_pass B fresh input ops w = (Inr (rs, counts, after), w1)" and
    2: "fallback_phase B fresh after (fallback_ops rs) w1 = (Inr (targets, adds), w2)" and
    3: "redaction_phase B after targets w2 = (Inr (working, n, ok), w3)" and
    4: "final_pass B fresh working adds (form_fill_ops rs) w3 = (Inr x, w')"
    using assms(2) by (auto simp: applyOperations_def eff_bind_Inr)
  note s1 = in_place_pass_settles [OF assms(1) 1]
  note s2 = fallback_phase_settles [OF settled_handles [OF s1] 2]
  note s3 = redaction_phase_settles [OF settled_handles [OF s2] 3]
  note s4 = final_pass_settles [OF settled_handles [OF s3] 4]
  show ?thesis
    using s1 s2 s3 s4 by (simp add: settled_def)
qed

section \<open>What the fallback does with each operation\<close>

text \<open>The region an operation clears, and what it draws.\<close>

definition cleared :: "(int \<Rightarrow> jsnum \<times> jsnum \<times> page_rotation) \<Rightarrow> operation \<Rightarrow> redaction option" where
  "cleared info op = map_option (\<lambda>b. \<lparr>rd_page = op_page op, rd_bounds = toPdfBounds (info (op_page op)) b\<rparr>)
     (case op_action op of
        A_update \<Rightarrow> op_oldBounds op
      | A_delete \<Rightarrow> (if pl_bounds (op_payload op) = None then op_oldBounds op else pl_bounds (op_payload op))
      | _ \<Rightarrow> None)"

definition drawn :: "nat \<times> operation \<Rightarrow> add_op option" where
  "drawn x = (if op_action (snd x) \<in> {A_add, A_update}
     then Some \<lparr>ao_page = op_page (snd x), ao_payload = op_payload (snd x), ao_orig = fst x\<rparr> else None)"

definition lacks_bounds :: "operation \<Rightarrow> bool" where
  "lacks_bounds op \<longleftrightarrow> op_action op = A_update \<and> op_oldBounds op = None"

lemma classify_fallback_error:
  "(\<exists>msg. classify_fallback info i ops = Inl msg) \<longleftrightarrow> (\<exists>op\<in>set ops. lacks_bounds op)"
proof (induction ops arbitrary: i)
  case (Cons op ops)
  show ?case
    using Cons [of "Suc i"]
    by (cases "op_action op") (auto simp: lacks_bounds_def Let_def split: option.splits sum.splits)
qed simp

text \<open>The fallback collects, in queue order, the old region of every update and the region of every delete
  that has one, and the added and the updated elements with their new payload; it is an error exactly when
  an update has no \<open>oldBounds\<close>.\<close>

lemma fallback_collects:
  "classify_fallback info i ops = Inr (ts, as) \<longleftrightarrow>
     \<not> (\<exists>op\<in>set ops. lacks_bounds op)
   \<and> ts = List.map_filter (cleared info) ops
   \<and> as = List.map_filter drawn (enumerate i ops)"
proof (induction ops arbitrary: i ts as)
  case (Cons op ops)
  show ?case
  proof (cases "classify_fallback info (Suc i) ops")
    case (Inl e)
    then have "\<exists>op\<in>set ops. lacks_bounds op"
      using classify_fallback_error [of info "Suc i" ops] by blast
    then show ?thesis
      using Inl by (auto simp: Let_def split: sum.split)
  next
    case (Inr x)
    obtain ts2 as2 where x: "x = (ts2, as2)" by (cases x)
    note IH = Cons [of "Suc i" ts2 as2]
    show ?thesis
      using IH Inr x
      by (cases "op_action op")
        (auto simp: Let_def lacks_bounds_def cleared_def drawn_def map_filter_simps split: option.splits)
  qed
qed (auto simp: map_filter_simps)

text \<open>An update without \<open>oldBounds\<close> that reaches the fallback is rejected with an error, and the error path
  leaks: the metadata handle opened for the conversion is never closed, so its document stays live
  in the engine.\<close>

lemma missing_bounds_leaks_handle:
  assumes "handles_ok w"
    and "in_place_pass B fresh input ops w = (Inr (rs, counts, after), w1)"
    and "\<exists>op\<in>set (fallback_ops rs). lacks_bounds op"
    and "openDocument (bk_engine B) fresh after None w1 = (Inr h, w2)"
  shows "\<exists>msg. applyOperations B fresh input ops w = (Inl (Plain_error msg), w2)
    \<and> map_has (wd_docs w2) (ph_doc h) \<and> \<not> map_has (wd_docs w) (ph_doc h)"
proof -
  have s: "settled w w1" by (rule in_place_pass_settles [OF assms(1,2)])
  have o: "open_at (ph_doc h) (wd_docs w1) (wd_trapped w1) w2"
    by (rule open_ok [OF settled_handles [OF s] assms(4)])
  obtain d where d: "map_get (wd_docs w2) (ph_doc h) = Some d"
    using open_at_live [OF o] by blast
  obtain msg where msg: "classify_fallback (sp_info (bk_snapshot B d)) 0 (fallback_ops rs) = Inl msg"
    using assms(3) classify_fallback_error [of "sp_info (bk_snapshot B d)" 0 "fallback_ops rs"] by blast
  have "fallback_phase B fresh after (fallback_ops rs) w1 = (Inl (Plain_error msg), w2)"
    by (simp add: fallback_phase_def eff_bind_def assms(4) read_doc_live [OF d] msg eff_throw_def)
  then have "applyOperations B fresh input ops w = (Inl (Plain_error msg), w2)"
    by (simp add: applyOperations_def eff_bind_def assms(2))
  then show ?thesis
    using d o s by (simp add: map_has_def open_at_def settled_def)
qed

section \<open>What a successful run has done\<close>

text \<open>The regions cleared one after the other, and the elements drawn; \<open>None\<close> when one of the calls throws.\<close>

fun clears :: "('b, 'd) backend \<Rightarrow> redaction list \<Rightarrow> 'd \<Rightarrow> 'd option" where
  "clears B [] d = Some d"
| "clears B (t # ts) d = (case bk_redact B (rd_page t) (rd_bounds t) d of
     Inl msg \<Rightarrow> None | Inr (removed, d1) \<Rightarrow> clears B ts d1)"

fun draws :: "('b, 'd) backend \<Rightarrow> add_op list \<Rightarrow> 'd \<Rightarrow> 'd option" where
  "draws B [] d = Some d"
| "draws B (a # as) d = (case bk_add B (the (pl_type (ao_payload a))) (ao_page a) (ao_payload a) d of
     Inl msg \<Rightarrow> None | Inr d1 \<Rightarrow> draws B as d1)"

definition rd_on_page :: "int \<Rightarrow> redaction \<Rightarrow> bool" where
  "rd_on_page n t \<longleftrightarrow> 1 \<le> rd_page t \<and> rd_page t \<le> n"

definition drawable :: "('b, 'd) backend \<Rightarrow> add_op \<Rightarrow> bool" where
  "drawable B a \<longleftrightarrow> known_type (pl_type (ao_payload a))
     \<and> (pl_type (ao_payload a) = Some ''image'' \<longrightarrow> bk_hasImage B (ao_payload a))"

lemma redact_all_clears: "redact_all B n ts d = Inr (k, d') \<Longrightarrow> clears B (filter (rd_on_page n) ts) d = Some d'"
  by (induction ts arbitrary: d k) (auto simp: rd_on_page_def split: if_splits sum.splits prod.splits)

lemma open_value:
  assumes "openDocument E fresh b None w = (Inr h, w1)"
  shows "\<exists>d. en_open E b = Inr d \<and> map_get (wd_docs w1) (ph_doc h) = Some d"
  using assms
  by (auto simp: openDocument_def given_def open_doc_def eff_bind_Inr eff_lift_def alloc_doc_def set_dirty_def js_simps Let_def
      split: if_splits sum.splits)

lemma save_value:
  assumes "saveDocument E h None w = (Inr b, w1)" "map_get (wd_docs w) (ph_doc h) = Some d"
  shows "en_saveCompressed E d = Inr b"
  using assms by (auto simp: saveDocument_def eff_bind_Inr call_doc_live)

lemma run_doc_value:
  assumes "run_doc k f w = (Inr a, w1)" "map_get (wd_docs w) k = Some d"
  shows "\<exists>d1. f d = (a, d1) \<and> map_get (wd_docs w1) k = Some d1"
  using assms by (auto simp: run_doc_def js_simps split: prod.splits)

lemma add_one_value:
  assumes "add_one B k a w = (Inr n, w1)" "map_get (wd_docs w) k = Some d"
  shows "\<exists>d1. map_get (wd_docs w1) k = Some d1 \<and> draws B (filter (drawable B) [a]) d = Some d1
    \<and> n = (if known_type (pl_type (ao_payload a)) then 1 else 0)"
proof (cases "drawable B a")
  case True
  then have k: "known_type (pl_type (ao_payload a))" "\<not> (pl_type (ao_payload a) = Some ''image'' \<and> \<not> bk_hasImage B (ao_payload a))"
    by (auto simp: drawable_def)
  obtain x w2 where x: "mutate_doc k (bk_add B (the (pl_type (ao_payload a))) (ao_page a) (ao_payload a)) w = (x, w2)"
    by fastforce
  show ?thesis
  proof (cases x)
    case (Inl e)
    then show ?thesis using assms(1) k x by (cases e) (simp_all add: add_one_def)
  next
    case (Inr u)
    then show ?thesis
      using assms k x True mutate_doc_live [OF assms(2)] by (auto simp: add_one_def js_simps)
  qed
next
  case False
  then show ?thesis
    using assms by (auto simp: add_one_def drawable_def split: if_splits)
qed

lemma add_all_value:
  "add_all B k as w = (Inr n, w1) \<Longrightarrow> map_get (wd_docs w) k = Some d \<Longrightarrow>
    \<exists>d1. map_get (wd_docs w1) k = Some d1 \<and> draws B (filter (drawable B) as) d = Some d1
      \<and> n = length (filter (\<lambda>a. known_type (pl_type (ao_payload a))) as)"
proof (induction as arbitrary: w n d)
  case (Cons a as)
  obtain n1 n2 w2 where 1: "add_one B k a w = (Inr n1, w2)" and 2: "add_all B k as w2 = (Inr n2, w1)" "n = n1 + n2"
    using Cons.prems(1) by (auto simp: eff_bind_Inr)
  obtain d2 where d2: "map_get (wd_docs w2) k = Some d2" "draws B (filter (drawable B) [a]) d = Some d2"
    "n1 = (if known_type (pl_type (ao_payload a)) then 1 else 0)"
    using add_one_value [OF 1 Cons.prems(2)] by blast
  obtain d1 where "map_get (wd_docs w1) k = Some d1" "draws B (filter (drawable B) as) d2 = Some d1"
    "n2 = length (filter (\<lambda>a. known_type (pl_type (ao_payload a))) as)"
    using Cons.IH [OF 2(1) d2(1)] by blast
  then show ?case
    using d2 2(2) by (cases "drawable B a") (auto split: sum.splits)
qed auto

definition in_place_result :: "('b, 'd) backend \<Rightarrow> 'd \<Rightarrow> 'b \<Rightarrow> in_place list \<Rightarrow> 'b \<Rightarrow> counters \<Rightarrow> bool" where
  "in_place_result B d input ips after counts = (if ips = [] then after = input \<and> counts = no_counts
     else case apply_in_place (bk_mutators B) ips d of (d1, c) \<Rightarrow>
       en_saveCompressed (bk_engine B) d1 = Inr after \<and> counts = c)"

definition redaction_result :: "('b, 'd) backend \<Rightarrow> 'b \<Rightarrow> redaction list \<Rightarrow> 'b \<Rightarrow> bool \<Rightarrow> bool" where
  "redaction_result B after ts working ok \<longleftrightarrow>
     (if ts = [] \<or> \<not> ok then working = after \<and> (ok \<longleftrightarrow> ts = [])
      else \<exists>d d1. en_open (bk_engine B) after = Inr d
        \<and> clears B (filter (rd_on_page (en_pageCount (bk_engine B) d)) ts) d = Some d1
        \<and> en_saveCompressed (bk_engine B) d1 = Inr working)"

lemma in_place_value:
  assumes "in_place_pass B fresh input ops w = (Inr (rs, counts, after), w1)"
  shows "\<exists>d. en_open (bk_engine B) input = Inr d \<and> rs = routes (bk_snapshot B d) ops
    \<and> in_place_result B d input (in_place_ops rs) after counts"
proof -
  obtain h w2 w3 w4 where o: "openDocument (bk_engine B) fresh input None w = (Inr h, w2)"
    and r: "read_doc (ph_doc h) (\<lambda>d. routes (bk_snapshot B d) ops) w2 = (Inr rs, w3)"
    and i: "(if length (in_place_ops rs) > 0
         then run_doc (ph_doc h) (\<lambda>d. case apply_in_place (bk_mutators B) (in_place_ops rs) d of (d1, c) \<Rightarrow> (c, d1))
         else eff_return no_counts) w3 = (Inr counts, w4)"
    and s: "\<exists>w5. (if length (in_place_ops rs) > 0 then saveDocument (bk_engine B) h None else eff_return input) w4 = (Inr after, w5)"
    using assms by (auto simp: in_place_pass_def eff_bind_Inr Let_def)
  obtain d where d: "en_open (bk_engine B) input = Inr d" "map_get (wd_docs w2) (ph_doc h) = Some d"
    using open_value [OF o] by blast
  have rs: "rs = routes (bk_snapshot B d) ops" "w3 = w2" using r d(2) by auto
  have "in_place_result B d input (in_place_ops rs) after counts"
  proof (cases "in_place_ops rs = []")
    case True
    then show ?thesis using i s by (auto simp: in_place_result_def)
  next
    case False
    then obtain d1 where d1: "(case apply_in_place (bk_mutators B) (in_place_ops rs) d of (d1, c) \<Rightarrow> (c, d1)) = (counts, d1)"
      "map_get (wd_docs w4) (ph_doc h) = Some d1"
      using run_doc_value [of "ph_doc h" _ w3 counts w4 d] i d(2) rs(2) by auto
    moreover have "en_saveCompressed (bk_engine B) d1 = Inr after"
      using False s save_value [OF _ d1(2)] by auto
    ultimately show ?thesis using False by (auto simp: in_place_result_def split: prod.splits)
  qed
  then show ?thesis using d(1) rs(1) by blast
qed

lemma fallback_phase_value:
  assumes "fallback_phase B fresh after ops w = (Inr (ts, as), w1)"
  shows "\<exists>d. en_open (bk_engine B) after = Inr d
    \<and> classify_fallback (sp_info (bk_snapshot B d)) 0 ops = Inr (ts, as)"
proof -
  obtain m w2 r w3 where o: "openDocument (bk_engine B) fresh after None w = (Inr m, w2)"
    and r: "read_doc (ph_doc m) (\<lambda>d. classify_fallback (sp_info (bk_snapshot B d)) 0 ops) w2 = (Inr r, w3)"
    and t: "(case r of Inl msg \<Rightarrow> eff_throw (Plain_error msg)
       | Inr (targets, adds) \<Rightarrow> eff_bind (eff_close m) (\<lambda>_. eff_return (targets, adds))) w3 = (Inr (ts, as), w1)"
    using assms by (auto simp: fallback_phase_def eff_bind_Inr)
  obtain d where d: "en_open (bk_engine B) after = Inr d" "map_get (wd_docs w2) (ph_doc m) = Some d"
    using open_value [OF o] by blast
  have "r = classify_fallback (sp_info (bk_snapshot B d)) 0 ops" using r d(2) by auto
  moreover have "r = Inr (ts, as)" using t by (auto simp: eff_bind_Inr split: sum.splits)
  ultimately show ?thesis using d(1) by auto
qed

lemma redaction_phase_value:
  assumes "redaction_phase B after ts w = (Inr (working, n, ok), w1)"
  shows "redaction_result B after ts working ok"
proof (cases "ts = []")
  case True
  then show ?thesis using assms by (auto simp: redaction_phase_def eff_try_def eff_return_def redaction_result_def)
next
  case False
  obtain x w2 where x: "applyRedactions B after ts w = (x, w2)" by fastforce
  show ?thesis
  proof (cases x)
    case (Inl e)
    then show ?thesis
      using assms False x by (auto simp: redaction_phase_def eff_try_def eff_bind_def eff_return_def redaction_result_def)
  next
    case (Inr bn)
    obtain b m where bn: "bn = (b, m)" by (cases bn)
    then have r: "working = b" "ok"
      using assms False x Inr by (auto simp: redaction_phase_def eff_try_def eff_bind_def eff_return_def)
    have e: "eff_bind (open_doc (bk_engine B) Plain_error after) (\<lambda>k. eff_finally
          (eff_bind (read_doc k (en_pageCount (bk_engine B))) (\<lambda>n.
           eff_bind (call_doc k (redact_all B n ts)) (\<lambda>(applied, d1).
           eff_bind (mutate_doc k (\<lambda>d. Inr d1)) (\<lambda>_.
           eff_bind (call_doc k (en_saveCompressed (bk_engine B))) (\<lambda>b. eff_return (b, applied))))))
          (close_doc k)) w = (Inr (b, m), w2)"
      using x Inr bn False by (simp add: applyRedactions_def)
    obtain k d w3 w4 where d: "en_open (bk_engine B) after = Inr d" "map_get (wd_docs w3) k = Some d"
      and f: "eff_bind (read_doc k (en_pageCount (bk_engine B))) (\<lambda>n.
           eff_bind (call_doc k (redact_all B n ts)) (\<lambda>(applied, d1).
           eff_bind (mutate_doc k (\<lambda>d. Inr d1)) (\<lambda>_.
           eff_bind (call_doc k (en_saveCompressed (bk_engine B))) (\<lambda>b. eff_return (b, applied))))) w3 = (Inr (b, m), w4)"
      using with_doc_Inr [OF e] by blast
    obtain d1 where "redact_all B (en_pageCount (bk_engine B) d) ts d = Inr (m, d1)"
      "en_saveCompressed (bk_engine B) d1 = Inr b"
      using f d(2) by (auto simp: eff_bind_Inr call_doc_live mutate_doc_live [OF d(2)] js_simps)
    then show ?thesis
      using d(1) r False redact_all_clears by (fastforce simp: redaction_result_def)
  qed
qed

lemma final_pass_value:
  assumes "final_pass B fresh working adds fills w = (Inr (n, filled, final), w1)"
  shows "\<exists>d d1 added d2. en_open (bk_engine B) working = Inr d \<and> draws B (filter (drawable B) adds) d = Some d1
    \<and> fill_forms B fills d1 = (filled, added, d2) \<and> en_saveCompressed (bk_engine B) d2 = Inr final
    \<and> n = length (filter (\<lambda>a. known_type (pl_type (ao_payload a))) adds) + added"
proof -
  obtain h w2 m w3 added w4 w5 where o: "openDocument (bk_engine B) fresh working None w = (Inr h, w2)"
    and a: "add_all B (ph_doc h) adds w2 = (Inr m, w3)"
    and f: "run_doc (ph_doc h) (\<lambda>d. case fill_forms B fills d of (ok, added, d1) \<Rightarrow> ((ok, added), d1)) w3
      = (Inr (filled, added), w4)"
    and s: "saveDocument (bk_engine B) h None w4 = (Inr final, w5)" and n: "n = m + added"
    using assms by (auto simp: final_pass_def eff_bind_Inr)
  obtain d where d: "en_open (bk_engine B) working = Inr d" "map_get (wd_docs w2) (ph_doc h) = Some d"
    using open_value [OF o] by blast
  obtain d1 where d1: "map_get (wd_docs w3) (ph_doc h) = Some d1" "draws B (filter (drawable B) adds) d = Some d1"
    "m = length (filter (\<lambda>a. known_type (pl_type (ao_payload a))) adds)"
    using add_all_value [OF a d(2)] by blast
  obtain d2 where d2: "(case fill_forms B fills d1 of (ok, added, d1) \<Rightarrow> ((ok, added), d1)) = ((filled, added), d2)"
    "map_get (wd_docs w4) (ph_doc h) = Some d2"
    using run_doc_value [OF f d1(1)] by blast
  then show ?thesis
    using d(1) d1(2,3) n save_value [OF s d2(2)] by (auto split: prod.splits)
qed

text \<open>C3: What a successful \<open>applyOperations\<close> has done to the bytes, read without handles. The operations are
  routed by the snapshot of the input; the in-place ones are applied and saved. No update that reached the
  fallback lacks \<open>oldBounds\<close>. The regions to clear are, in queue order, the old region of every fallback update
  and the region of every fallback delete that has one; unless the redaction failed (then the result
  says so and nothing is cleared) those on existing pages are cleared one by one and the document saved. Then
  exactly the fallback adds and updates are drawn in order with their new payload, except elements of an
  unknown type and images without data, which are skipped (a failing draw gives no result); then the fields
  are filled, and what is returned is the save of that document.\<close>

theorem apply_operations_result:
  assumes "applyOperations B fresh input ops w = (Inr r, w')"
  shows "\<exists>d0 rs after dm targets adds working dw da added df.
     en_open (bk_engine B) input = Inr d0 \<and> rs = routes (bk_snapshot B d0) ops
   \<and> in_place_result B d0 input (in_place_ops rs) after (ar_counts r)
   \<and> \<not> list_ex lacks_bounds (fallback_ops rs)
   \<and> en_open (bk_engine B) after = Inr dm
   \<and> targets = List.map_filter (cleared (sp_info (bk_snapshot B dm))) (fallback_ops rs) \<and> ar_targets r = length targets
   \<and> redaction_result B after targets working (ar_redactionOk r)
   \<and> adds = List.map_filter drawn (enumerate 0 (fallback_ops rs))
   \<and> en_open (bk_engine B) working = Inr dw \<and> draws B (filter (drawable B) adds) dw = Some da
   \<and> fill_forms B (form_fill_ops rs) da = (ar_filled r, added, df)
   \<and> ar_adds r = length (filter (\<lambda>a. known_type (pl_type (ao_payload a))) adds) + added
   \<and> en_saveCompressed (bk_engine B) df = Inr (ar_bytes r)"
proof -
  obtain rs counts after w1 targets adds w2 working n ok w3 added filled final where
    1: "in_place_pass B fresh input ops w = (Inr (rs, counts, after), w1)" and
    2: "fallback_phase B fresh after (fallback_ops rs) w1 = (Inr (targets, adds), w2)" and
    3: "redaction_phase B after targets w2 = (Inr (working, n, ok), w3)" and
    4: "final_pass B fresh working adds (form_fill_ops rs) w3 = (Inr (added, filled, final), w')" and
    r: "r = \<lparr>ar_bytes = final, ar_targets = length targets, ar_redacted = n,
         ar_redactionOk = ok, ar_adds = added, ar_counts = counts, ar_filled = filled\<rparr>"
    using assms by (auto simp: applyOperations_def eff_bind_Inr)
  obtain d0 where d0: "en_open (bk_engine B) input = Inr d0" "rs = routes (bk_snapshot B d0) ops"
    "in_place_result B d0 input (in_place_ops rs) after counts"
    using in_place_value [OF 1] by blast
  obtain dm where dm: "en_open (bk_engine B) after = Inr dm"
    "classify_fallback (sp_info (bk_snapshot B dm)) 0 (fallback_ops rs) = Inr (targets, adds)"
    using fallback_phase_value [OF 2] by blast
  have c: "\<not> list_ex lacks_bounds (fallback_ops rs)"
    "targets = List.map_filter (cleared (sp_info (bk_snapshot B dm))) (fallback_ops rs)"
    "adds = List.map_filter drawn (enumerate 0 (fallback_ops rs))"
    using dm(2) unfolding fallback_collects by (simp_all add: list_ex_iff)
  obtain dw da more_added df where dw: "en_open (bk_engine B) working = Inr dw"
    "draws B (filter (drawable B) adds) dw = Some da" "fill_forms B (form_fill_ops rs) da = (filled, more_added, df)"
    "en_saveCompressed (bk_engine B) df = Inr final"
    "added = length (filter (\<lambda>a. known_type (pl_type (ao_payload a))) adds) + more_added"
    using final_pass_value [OF 4] by blast
  show ?thesis
    using d0 dm(1) c redaction_phase_value [OF 3] dw unfolding r
    by (intro exI [of _ d0] exI [of _ rs] exI [of _ after] exI [of _ dm] exI [of _ targets] exI [of _ adds]
        exI [of _ working] exI [of _ dw] exI [of _ da] exI [of _ more_added] exI [of _ df]) simp
qed

section \<open>One value per form field\<close>

lemma fill_map_snoc: "fill_map (fs @ [f]) = AList.update (fl_name f) (fl_value f) (fill_map fs)"
  by (simp add: fill_map_def)

definition last_fill :: "form_fill list \<Rightarrow> string \<Rightarrow> field_value \<Rightarrow> bool" where
  "last_fill fs name v \<longleftrightarrow> (\<exists>pre f post. fs = pre @ f # post \<and> fl_name f = name \<and> fl_value f = v
     \<and> name \<notin> fl_name ` set post)"

lemma last_fill_Nil: "\<not> last_fill [] name v"
  by (simp add: last_fill_def)

lemma last_fill_snoc:
  "last_fill (fs @ [x]) name v \<longleftrightarrow> (if fl_name x = name then fl_value x = v else last_fill fs name v)"
proof (cases "fl_name x = name")
  case True
  have "last_fill (fs @ [x]) name (fl_value x)"
    unfolding last_fill_def using True by (intro exI [of _ fs] exI [of _ x] exI [of _ "[]"]) simp
  moreover have "fl_value x = v" if "last_fill (fs @ [x]) name v"
  proof -
    obtain pre f post where e: "fs @ [x] = pre @ f # post" "fl_value f = v" "name \<notin> fl_name ` set post"
      using \<open>last_fill (fs @ [x]) name v\<close> by (auto simp: last_fill_def)
    then show ?thesis
      using True by (cases post rule: rev_cases) auto
  qed
  ultimately show ?thesis using True by auto
next
  case False
  have "last_fill fs name v" if l: "last_fill (fs @ [x]) name v"
  proof -
    obtain pre f post where e: "fs @ [x] = pre @ f # post" "fl_name f = name" "fl_value f = v"
      "name \<notin> fl_name ` set post"
      using l by (auto simp: last_fill_def)
    then obtain post' where "post = post' @ [x]" "fs = pre @ f # post'"
      using False by (cases post rule: rev_cases) auto
    then show ?thesis
      using e unfolding last_fill_def by auto
  qed
  moreover have "last_fill (fs @ [x]) name v" if l: "last_fill fs name v"
  proof -
    obtain pre f post where e: "fs = pre @ f # post" "fl_name f = name" "fl_value f = v"
      "name \<notin> fl_name ` set post"
      using l by (auto simp: last_fill_def)
    then show ?thesis
      unfolding last_fill_def using False by (intro exI [of _ pre] exI [of _ f] exI [of _ "post @ [x]"]) auto
  qed
  ultimately show ?thesis using False by auto
qed

lemma keys_update: "fst ` set (AList.update k v m) = insert k (fst ` set m)"
  by (induction m) auto

lemma fill_map_get:
  "wf_map (fill_map fs) \<and> fst ` set (fill_map fs) = fl_name ` set fs
    \<and> (map_get (fill_map fs) name = Some v \<longleftrightarrow> last_fill fs name v)"
proof (induction fs rule: rev_induct)
  case Nil
  then show ?case by (simp add: fill_map_def last_fill_Nil)
next
  case (snoc x fs)
  then show ?case
    by (auto simp: fill_map_snoc js_simps last_fill_snoc keys_update)
qed

text \<open>When several widgets of one form field are queued, the engine is asked once per field name, and with
  the value queued last.\<close>

lemma last_fill_wins:
  "distinct (map fst (fst (applyFieldValues A (fill_map fs) d)))
   \<and> set (map fst (fst (applyFieldValues A (fill_map fs) d))) = fl_name ` set fs
   \<and> ((name, v) \<in> set (fill_map fs) \<longleftrightarrow>
        (\<exists>pre f post. fs = pre @ f # post \<and> fl_name f = name \<and> fl_value f = v
           \<and> name \<notin> fl_name ` set post))"
  using fill_map_get [of fs name v]
  by (auto simp: applyFieldValues_def fill_values_names wf_map_def last_fill_def map_of_eq_Some_iff)

section \<open>A concrete run\<close>

text \<open>Redaction adds 10 to every page label, drawing 1; the form setters accept nothing.\<close>

definition idle_mutators :: "'d mutators" where
  "idle_mutators = \<lparr>mu_remove = (\<lambda>p i d. Inr (False, d)), mu_transform = (\<lambda>p i m d. Inr (False, d)),
     mu_setPathStyle = (\<lambda>p i s d. Inr (False, d)), mu_setOpacity = (\<lambda>p i a d. Inr (False, d)),
     mu_replaceText = (\<lambda>p i t d. Inr (False, d)), mu_move = (\<lambda>p i x y d. Inr (False, d)),
     mu_reorder = (\<lambda>p i f d. Inr (False, d))\<rparr>"

definition no_fields :: "'d field_api" where
  "no_fields = \<lparr>fa_fields = (\<lambda>d. []), fa_setText = (\<lambda>n v d. (False, d)), fa_setCheckbox = (\<lambda>n v d. (False, d)),
     fa_setCheckboxState = None, fa_setRadio = (\<lambda>n v d. (False, d)), fa_setChoice = (\<lambda>n v d. (False, d))\<rparr>"

definition demo_backend :: "(list_doc, list_doc) backend" where
  "demo_backend = \<lparr>bk_engine = list_engine, bk_snapshot = (\<lambda>d. empty_snapshot), bk_mutators = idle_mutators,
     bk_redact = (\<lambda>p b d. Inr (1, d\<lparr>ld_pages := map (\<lambda>x. x + 10) (ld_pages d)\<rparr>)),
     bk_add = (\<lambda>ty p pl d. Inr (d\<lparr>ld_pages := map (\<lambda>x. x + 1) (ld_pages d)\<rparr>)),
     bk_hasImage = (\<lambda>pl. True), bk_fields = no_fields\<rparr>"

definition demo_update :: operation where
  "demo_update = demo_fill\<lparr>op_payload := demo_payload\<lparr>pl_type := Some ''text''\<rparr>\<rparr>"

lemma handles_ok_empty: "handles_ok empty_world"
  by (simp add: handles_ok_def empty_world_def world_ok_def map_has_def)

lemma apply_operations_leaves_no_document_witness:
  "\<exists>r w'. applyOperations demo_backend ''h'' (list_doc_of [5, 6] []) [demo_update, demo_fill] empty_world = (Inr r, w')
     \<and> ld_pages (ar_bytes r) = [17, 18] \<and> wd_docs w' = []"
proof -
  have "case applyOperations demo_backend ''h'' (list_doc_of [5, 6] []) [demo_update, demo_fill] empty_world of
      (Inr r, w') \<Rightarrow> ld_pages (ar_bytes r) = [17, 18] | _ \<Rightarrow> False"
    by code_simp
  then obtain r w' where r: "applyOperations demo_backend ''h'' (list_doc_of [5, 6] []) [demo_update, demo_fill] empty_world
      = (Inr r, w')" "ld_pages (ar_bytes r) = [17, 18]"
    by (auto split: prod.splits sum.splits)
  then show ?thesis
    using apply_operations_leaves_no_document [OF handles_ok_empty r(1)] by (simp add: empty_world_def)
qed

theorem apply_operations_result_witness:
  "\<exists>r w' d1 d2. applyOperations demo_backend ''h'' (list_doc_of [5, 6] []) [demo_update, demo_fill] empty_world = (Inr r, w')
     \<and> clears demo_backend [\<lparr>rd_page = 1, rd_bounds = toPdfBounds (595, 842, R0) (the (op_oldBounds demo_update))\<rparr>]
         (list_doc_of [5, 6] []) = Some d1
     \<and> draws demo_backend [\<lparr>ao_page = 1, ao_payload = op_payload demo_update, ao_orig = 0\<rparr>] d1 = Some d2
     \<and> ar_targets r = 1 \<and> ar_redactionOk r"
proof -
  have "case applyOperations demo_backend ''h'' (list_doc_of [5, 6] []) [demo_update, demo_fill] empty_world of
      (Inr r, w') \<Rightarrow> ar_redactionOk r | _ \<Rightarrow> False"
    by code_simp
  then obtain r w' where r: "applyOperations demo_backend ''h'' (list_doc_of [5, 6] []) [demo_update, demo_fill] empty_world
      = (Inr r, w')" "ar_redactionOk r"
    by (auto split: prod.splits sum.splits)
  have B: "bk_snapshot demo_backend d = empty_snapshot" "bk_engine demo_backend = list_engine" for d
    by (simp_all add: demo_backend_def)
  have rs: "in_place_ops (routes empty_snapshot [demo_update, demo_fill]) = []"
    "fallback_ops (routes empty_snapshot [demo_update, demo_fill]) = [demo_update]"
    by code_simp+
  let ?t = "\<lparr>rd_page = 1, rd_bounds = toPdfBounds (595, 842, R0) (the (op_oldBounds demo_update))\<rparr>"
  let ?a = "\<lparr>ao_page = 1, ao_payload = op_payload demo_update, ao_orig = 0\<rparr>"
  have f: "List.map_filter (cleared (sp_info empty_snapshot)) [demo_update] = [?t]"
    "filter (drawable demo_backend) (List.map_filter drawn (enumerate 0 [demo_update])) = [?a]"
    "filter (rd_on_page 2) [?t] = [?t]"
    by code_simp+
  have o: "en_open list_engine b = Inr d \<longleftrightarrow> d = b \<and> ld_pages b \<noteq> [] \<and> ld_crypt b = None"
    and n: "en_pageCount list_engine d = int (length (ld_pages d))" and sv: "en_saveCompressed list_engine d = Inr d" for b d
    by (cases "ld_crypt b"; auto simp: list_engine_def split: if_splits)+
  obtain after dm working dw da where
    "in_place_result demo_backend (list_doc_of [5, 6] []) (list_doc_of [5, 6] []) [] after (ar_counts r)"
    and t: "ar_targets r = length [?t]" and red: "redaction_result demo_backend after [?t] working (ar_redactionOk r)"
    and dr: "en_open list_engine working = Inr dw" "draws demo_backend [?a] dw = Some da"
    using apply_operations_result [OF r(1)] unfolding B o rs f by (metis (no_types, lifting) rs f)
  then have "after = list_doc_of [5, 6] []" by (simp add: in_place_result_def)
  then have "clears demo_backend [?t] (list_doc_of [5, 6] []) = Some working"
    using red r(2) unfolding redaction_result_def B o n sv by (auto simp: list_doc_of_def f(3) simp del: clears.simps filter.simps)
  then show ?thesis using dr r t unfolding o by auto
qed

lemma missing_bounds_leaks_handle_witness:
  "\<exists>msg w'. applyOperations demo_backend ''h'' (list_doc_of [5] []) [demo_update\<lparr>op_oldBounds := None\<rparr>] empty_world
     = (Inl (Plain_error msg), w') \<and> map_has (wd_docs w') 1"
proof -
  let ?op = "demo_update\<lparr>op_oldBounds := None\<rparr>"
  have "succeeds (in_place_pass demo_backend ''h'' (list_doc_of [5] []) [?op] empty_world) (\<lambda>(rs, c, after) w1.
      fallback_ops rs \<noteq> [] \<and> hd (fallback_ops rs) = ?op
      \<and> succeeds (openDocument (bk_engine demo_backend) ''h'' after None w1) (\<lambda>h w2. ph_doc h = 1))"
    by code_simp
  from succeedsD [OF this] obtain rs c after w1 where
    1: "in_place_pass demo_backend ''h'' (list_doc_of [5] []) [?op] empty_world = (Inr (rs, c, after), w1)" and
    2: "fallback_ops rs \<noteq> []" "hd (fallback_ops rs) = ?op" and
    "succeeds (openDocument (bk_engine demo_backend) ''h'' after None w1) (\<lambda>h w2. ph_doc h = 1)"
    by auto
  from succeedsD [OF this(4)] obtain h w2 where
    3: "openDocument (bk_engine demo_backend) ''h'' after None w1 = (Inr h, w2)" "ph_doc h = 1"
    by auto
  have "\<exists>op\<in>set (fallback_ops rs). lacks_bounds op"
    using 2 by (intro bexI [of _ ?op]) (auto simp: lacks_bounds_def demo_update_def demo_fill_def dest: hd_in_set)
  from missing_bounds_leaks_handle [OF handles_ok_empty 1 this 3(1)] 3(2) show ?thesis
    by auto
qed

end
