(* ===== verification/Save_Flow.thy ===== *)
theory Save_Flow
  imports Apply_Operations
begin

text \<open>
  From the editor's queue to the engine: \<open>operations-store.ts\<close> fills the queue, \<open>drain\<close> hands it
  over as JSON, \<open>api/pdf/apply-elements/route.ts\<close> parses it and calls \<open>applyOperations\<close>. The
  JSON objects are what the classification reads of them.
\<close>

section \<open>The queue as operations\<close>

fun action_of :: "op_action \<Rightarrow> action" where
  "action_of Op_add = A_add"
| "action_of Op_update = A_update"
| "action_of Op_delete = A_delete"
| "action_of Op_reorder = A_reorder"

fun elementTypeName :: "element_type \<Rightarrow> string" where
  "elementTypeName Ty_text = ''text''"
| "elementTypeName Ty_image = ''image''"
| "elementTypeName Ty_shape = ''shape''"
| "elementTypeName Ty_annotation = ''annotation''"
| "elementTypeName Ty_form_field = ''form_field''"

definition element_payload :: "element \<Rightarrow> payload" where
  "element_payload e = \<lparr>pl_id = Some (el_id e), pl_type = Some (elementTypeName (body_type (el_body e))),
     pl_index = map_option of_int (el_index e), pl_bounds = Some (el_bounds e),
     pl_rotation = Some (t_rotation (el_transform e)),
     pl_content = (case el_body e of Text_Body c _ \<Rightarrow> Some c | Annotation_Body _ c \<Rightarrow> Some c | _ \<Rightarrow> None),
     pl_textStyle = (case el_body e of Text_Body _ s \<Rightarrow> Some s | _ \<Rightarrow> None),
     pl_shapeStyle = (case el_body e of Shape_Body _ s \<Rightarrow> Some s | _ \<Rightarrow> None),
     pl_imageOpacity = (case el_body e of Image_Body _ a \<Rightarrow> Some a | _ \<Rightarrow> None),
     pl_fieldName = (case el_body e of Form_Body n _ \<Rightarrow> Some n | _ \<Rightarrow> None),
     pl_value = (case el_body e of Form_Body _ v \<Rightarrow> v | _ \<Rightarrow> FText [])\<rparr>"

fun to_payload :: "op_element \<Rightarrow> payload" where
  "to_payload (Full e) = element_payload e"
| "to_payload (Stub i b ix) = \<lparr>pl_id = Some i, pl_type = None, pl_index = map_option of_int ix,
     pl_bounds = Some b, pl_rotation = None, pl_content = None, pl_textStyle = None,
     pl_shapeStyle = None, pl_imageOpacity = None, pl_fieldName = None, pl_value = FText []\<rparr>"

definition to_operation :: "element_operation \<Rightarrow> operation" where
  "to_operation op = \<lparr>op_action = action_of (eo_action op), op_page = eo_page op,
     op_payload = to_payload (eo_element op), op_oldBounds = eo_oldBounds op, op_toFront = eo_toFront op\<rparr>"

definition to_operations :: "op_queue \<Rightarrow> operation list" where
  "to_operations ops = map to_operation ops"

section \<open>What the store puts into the queue\<close>

text \<open>Every update has the bounds to clear; every delete is a stub with bounds.\<close>

definition well_queued :: "element_operation \<Rightarrow> bool" where
  "well_queued op \<longleftrightarrow>
     (eo_action op = Op_update \<longrightarrow> eo_oldBounds op \<noteq> None)
   \<and> (eo_action op = Op_reorder \<longrightarrow> eo_toFront op \<noteq> None)
   \<and> (if eo_action op = Op_delete
      then (\<exists>i b ix. eo_element op = Stub i b ix \<and> eo_oldBounds op = Some b)
      else (\<exists>e. eo_element op = Full e))"

lemma set_update_first: "x \<in> set (update_first P f xs) \<Longrightarrow> x \<in> set xs \<or> (\<exists>y\<in>set xs. P y \<and> x = f y)"
  by (induction xs) (auto split: if_splits)

lemma well_queued_step:
  assumes "\<forall>op\<in>set ops. well_queued op"
  shows "\<forall>op\<in>set (queue_step q ops). well_queued op"
  using assms
  by (cases q)
    (auto simp: queueAdd_def queueUpdate_def queueDelete_def queueReorder_def op_clear_def well_queued_def
      same_target_def split: option.splits dest!: set_update_first)

lemma well_queued_run:
  "\<forall>op\<in>set ops. well_queued op \<Longrightarrow> \<forall>op\<in>set (fold queue_step qs ops). well_queued op"
  by (induction qs arbitrary: ops) (auto dest: well_queued_step)

lemma in_fallback: "op \<in> set (fallback_ops (routes sn ops)) \<Longrightarrow> op \<in> set ops"
proof -
  assume "op \<in> set (fallback_ops (routes sn ops))"
  then obtain i where i: "i < length ops" "classify sn (ops ! i) i = R_fallback op"
    by (auto simp: fallback_ops_def routes_def map_index_def List.map_filter_def set_zip split: route.splits)
  then have "ops ! i = op"
    using classify_route_ok [of sn "ops ! i" i] by (simp add: route_ok_def)
  then show ?thesis using i(1) nth_mem by blast
qed

lemma well_queued_fallback:
  assumes "\<forall>op\<in>set ops. well_queued op" "op \<in> set (fallback_ops (routes sn (to_operations ops)))"
  shows "\<not> lacks_bounds op"
proof -
  obtain q where q: "q \<in> set ops" "op = to_operation q"
    using in_fallback [OF assms(2)] by (auto simp: to_operations_def)
  then have "well_queued q" using assms(1) by blast
  then show ?thesis
    using q(2) by (cases "eo_action q") (auto simp: lacks_bounds_def to_operation_def well_queued_def)
qed

text \<open>C4: Whatever sequence of edits the user makes, the queue the store builds is never rejected by
  \<open>applyOperations\<close>: no update of it reaches the fallback without \<open>oldBounds\<close>, so the only error of
  the fallback classification (and the handle it leaks) cannot occur on the save path.\<close>

theorem store_queue_never_rejected:
  "\<exists>targets adds. classify_fallback (sp_info sn) 0
     (fallback_ops (routes sn (to_operations (fst (drain (fold queue_step qs [])))))) = Inr (targets, adds)"
proof -
  let ?ops = "fold queue_step qs []"
  have "\<forall>op\<in>set ?ops. well_queued op"
    by (rule well_queued_run) simp
  then have "\<not> (\<exists>msg. classify_fallback (sp_info sn) 0 (fallback_ops (routes sn (to_operations ?ops))) = Inl msg)"
    unfolding classify_fallback_error using well_queued_fallback by blast
  then show ?thesis
    by (cases "classify_fallback (sp_info sn) 0 (fallback_ops (routes sn (to_operations ?ops)))")
      (auto simp: drain_def)
qed

text \<open>An element added and then edited before the save is drawn twice: the update does not coalesce into the
  queued add, both reach the add pass, and the region of the update is cleared before either is drawn. In the
  same way an element added and then deleted before the save is drawn all the same.\<close>

lemma new_element_has_fallback:
  assumes "el_index e = None" and "body_type (el_body e) \<noteq> Ty_form_field"
    and "op_action op = A_update" and "op_payload op = element_payload e"
  shows "classify sn op k = R_fallback op"
  using assms by (cases "body_type (el_body e)")
    (simp_all add: classify_def element_payload_def valid_index_def)

lemma added_then_edited_drawn_twice:
  assumes "el_index e' = None" and "body_type (el_body e') \<noteq> Ty_form_field" and "el_id e' = el_id e"
  shows "\<exists>ts as. classify_fallback (sp_info sn) 0
       (fallback_ops (routes sn (to_operations (fst (drain (queueUpdate p e' b (queueAdd p e []))))))) = Inr (ts, as)
     \<and> map ao_payload as = [element_payload e, element_payload e']
     \<and> ts = [\<lparr>rd_page = p, rd_bounds = toPdfBounds (sp_info sn p) b\<rparr>]"
    and "\<exists>ts as. classify_fallback (sp_info sn) 0
       (fallback_ops (routes sn (to_operations (fst (drain (queueDelete p (el_id e) b None (queueAdd p e []))))))) = Inr (ts, as)
     \<and> map ao_payload as = [element_payload e]"
proof -
  let ?add = "to_operation \<lparr>eo_action = Op_add, eo_page = p, eo_element = Full e, eo_oldBounds = None, eo_toFront = None\<rparr>"
  let ?upd = "to_operation \<lparr>eo_action = Op_update, eo_page = p, eo_element = Full e', eo_oldBounds = Some b, eo_toFront = None\<rparr>"
  let ?del = "to_operation \<lparr>eo_action = Op_delete, eo_page = p, eo_element = Stub (el_id e) b None, eo_oldBounds = Some b, eo_toFront = None\<rparr>"
  have a: "classify sn ?add k = R_fallback ?add" and d: "classify sn ?del k = R_fallback ?del" for k
    by (simp_all add: classify_def to_operation_def valid_index_def)
  have u: "classify sn ?upd k = R_fallback ?upd" for k
    by (rule new_element_has_fallback [OF assms(1,2)]) (simp_all add: to_operation_def)
  have q: "queueUpdate p e' b (queueAdd p e []) = [\<lparr>eo_action = Op_add, eo_page = p, eo_element = Full e, eo_oldBounds = None, eo_toFront = None\<rparr>,
      \<lparr>eo_action = Op_update, eo_page = p, eo_element = Full e', eo_oldBounds = Some b, eo_toFront = None\<rparr>]"
    by (simp add: queueUpdate_def queueAdd_def same_target_def)
  have "fallback_ops (routes sn [?add, ?upd]) = [?add, ?upd]" "fallback_ops (routes sn [?add, ?del]) = [?add, ?del]"
    using a u d by (simp_all add: fallback_ops_def routes_def map_index_def map_filter_simps)
  moreover have "to_operations (fst (drain (queueUpdate p e' b (queueAdd p e [])))) = [?add, ?upd]"
    by (simp only: q drain_def to_operations_def fst_conv list.map)
  moreover have "to_operations (fst (drain (queueDelete p (el_id e) b None (queueAdd p e [])))) = [?add, ?del]"
    by (simp add: drain_def to_operations_def queueDelete_def queueAdd_def)
  moreover have "\<exists>ts as. classify_fallback (sp_info sn) 0 [?add, ?upd] = Inr (ts, as)
      \<and> map ao_payload as = [element_payload e, element_payload e']
      \<and> ts = [\<lparr>rd_page = p, rd_bounds = toPdfBounds (sp_info sn p) b\<rparr>]"
    "\<exists>ts as. classify_fallback (sp_info sn) 0 [?add, ?del] = Inr (ts, as) \<and> map ao_payload as = [element_payload e]"
    by (simp_all add: to_operation_def)
  ultimately show "\<exists>ts as. classify_fallback (sp_info sn) 0
       (fallback_ops (routes sn (to_operations (fst (drain (queueUpdate p e' b (queueAdd p e []))))))) = Inr (ts, as)
     \<and> map ao_payload as = [element_payload e, element_payload e']
     \<and> ts = [\<lparr>rd_page = p, rd_bounds = toPdfBounds (sp_info sn p) b\<rparr>]"
    "\<exists>ts as. classify_fallback (sp_info sn) 0
       (fallback_ops (routes sn (to_operations (fst (drain (queueDelete p (el_id e) b None (queueAdd p e []))))))) = Inr (ts, as)
     \<and> map ao_payload as = [element_payload e]"
    by (simp_all only:)
qed

text \<open>A deletion queued by the editor is never applied in place: the payload of \<open>queueDelete\<close> has no \<open>type\<close>,
  so it always takes the redaction fallback, although it carries a valid engine index that resolves
  to a text run. Had the payload named its type, the same operation would be the lossless
  \<open>removeElement\<close> that the store's documentation promises.\<close>

lemma queued_delete_never_in_place:
  assumes "0 \<le> ix" and "ix < 2 ^ 31" and "\<exists>r\<in>set (sp_runs sn p). rn_index r = ix"
  shows "\<exists>op. fst (drain (queueDelete p i b (Some ix) [])) = [op]
    \<and> (\<forall>k. classify sn (to_operation op) k = R_fallback (to_operation op))
    \<and> (\<forall>k. classify sn ((to_operation op)\<lparr>op_payload := (op_payload (to_operation op))\<lparr>pl_type := Some ''text''\<rparr>\<rparr>) k
         = R_in_place \<lparr>ip_page = p, ip_index = ix, ip_kind = Remove, ip_orig = k\<rparr>)"
proof -
  obtain r where "find (\<lambda>r. rn_index r = ix) (sp_runs sn p) = Some r"
    using assms(3) by (metis (mono_tags, lifting) find_None_iff not_Some_eq)
  then show ?thesis
    using assms(1,2)
    by (simp add: drain_def queueDelete_def to_operation_def classify_def classify_text_def valid_index_def
        MAX_RUN_INDEX_def)
qed

definition one_run :: page_snapshot where
  "one_run = empty_snapshot\<lparr>sp_runs := (\<lambda>p. [\<lparr>rn_index = 7, rn_fontFamily = ''Arial'', rn_baseFont = None,
     rn_bold = False, rn_italic = False, rn_fontSize = 12, rn_color = (0, 0, 0)\<rparr>])\<rparr>"

lemma queued_delete_never_in_place_witness:
  "\<exists>op. fst (drain (queueDelete 2 ''run'' \<lparr>b_x = 1, b_y = 2, b_width = 3, b_height = 4\<rparr> (Some 7) [])) = [op]
     \<and> classify one_run (to_operation op) 0 = R_fallback (to_operation op)"
proof -
  have "\<exists>r\<in>set (sp_runs one_run 2). rn_index r = 7"
    by (simp add: one_run_def)
  from queued_delete_never_in_place [OF _ _ this, of "''run''" "\<lparr>b_x = 1, b_y = 2, b_width = 3, b_height = 4\<rparr>"]
  show ?thesis
    by simp blast
qed

text \<open>A burst of updates of one element (a drag, typing) is saved as one operation: whatever else is
  updated in between, the queue holds for it the bounds of the first edit, which is the region to
  clear on the page as it is in the PDF, with the element of the last edit.\<close>

lemma burst_saved_once:
  assumes "filter (same_target Op_update p i) ops = []"
    and "filter (\<lambda>u. fst u = p \<and> el_id (fst (snd u)) = i) us = u # rest"
  shows "filter (same_target Op_update p i)
      (fold (\<lambda>u. queueUpdate (fst u) (fst (snd u)) (snd (snd u))) us ops)
    = [\<lparr>eo_action = Op_update, eo_page = p, eo_element = Full (fst (snd (last (u # rest)))),
        eo_oldBounds = Some (snd (snd u)), eo_toFront = None\<rparr>]"
  using pending_burst [of p i us ops] assms by (simp add: pending_def updates_of_def)

definition dragged :: "uuid \<Rightarrow> jsnum \<Rightarrow> element" where
  "dragged i x = \<lparr>el_id = i, el_bounds = \<lparr>b_x = x, b_y = 0, b_width = 10, b_height = 10\<rparr>,
     el_transform = \<lparr>t_rotation = 0, t_scaleX = 1, t_scaleY = 1, t_skewX = 0, t_skewY = 0\<rparr>,
     el_layerId = None, el_locked = False, el_visible = True, el_body = Annotation_Body ''note'' ''n'',
     el_index = None, el_rest = []\<rparr>"

lemma burst_saved_once_witness:
  "map eo_oldBounds (filter (same_target Op_update 1 ''a'')
      (fold (\<lambda>u. queueUpdate (fst u) (fst (snd u)) (snd (snd u)))
        [(1, dragged ''a'' 1, el_bounds (dragged ''a'' 0)), (1, dragged ''b'' 9, el_bounds (dragged ''b'' 8)),
         (1, dragged ''a'' 2, el_bounds (dragged ''a'' 1))] []))
    = [Some (el_bounds (dragged ''a'' 0))]"
  by (subst burst_saved_once [where u = "(1, dragged ''a'' 1, el_bounds (dragged ''a'' 0))"
        and rest = "[(1, dragged ''a'' 2, el_bounds (dragged ''a'' 1))]"])
    (simp_all add: dragged_def)

end
