(* ===== verification/Use_Document.thy ===== *)
theory Use_Document
  imports Document_Store Js_Strings
begin

text \<open>
  \<open>apps/web/src/hooks/use-document.ts\<close>, the scene graph of the web editor: loading (merge of the
  parsed PDF with the session's elements, title, progress bar), navigation, page and element
  edits, user layers. Each callback reads the state of the render it was created in, here the
  state it is applied to. Random ids are arguments; the parsed payload and the answers of
  \<open>api.getPageElements\<close> are arguments of the load.
\<close>

record web_document =
  wdoc_id :: uuid
  wdoc_title :: string
  wdoc_pageCount :: int
  wdoc_pages :: "page list"
  wdoc_rest :: string

record use_document =
  ud_document :: "web_document option"
  ud_name :: string
  ud_index :: int
  ud_dirty :: bool
  ud_layers :: "layer list"

definition initial_use_document :: use_document where
  "initial_use_document = \<lparr>ud_document = None, ud_name = [], ud_index = 0, ud_dirty = False, ud_layers = []\<rparr>"

section \<open>Merging at reload\<close>

definition DEDUP_BOUNDS_TOLERANCE_PX :: jsnum where "DEDUP_BOUNDS_TOLERANCE_PX = 2"

definition boundsApproxEqual :: "bounds \<Rightarrow> bounds \<Rightarrow> bool" where
  "boundsApproxEqual a b \<longleftrightarrow>
     \<bar>b_x a - b_x b\<bar> \<le> DEDUP_BOUNDS_TOLERANCE_PX \<and> \<bar>b_y a - b_y b\<bar> \<le> DEDUP_BOUNDS_TOLERANCE_PX
   \<and> \<bar>b_width a - b_width b\<bar> \<le> DEDUP_BOUNDS_TOLERANCE_PX
   \<and> \<bar>b_height a - b_height b\<bar> \<le> DEDUP_BOUNDS_TOLERANCE_PX"

definition elementContent :: "element \<Rightarrow> string" where
  "elementContent e = (case el_body e of Text_Body c s \<Rightarrow> c | Annotation_Body t c \<Rightarrow> c | _ \<Rightarrow> [])"

definition looks_baked :: "element \<Rightarrow> element \<Rightarrow> bool" where
  "looks_baked s e \<longleftrightarrow> body_type (el_body s) = body_type (el_body e)
     \<and> elementContent s = elementContent e \<and> boundsApproxEqual (el_bounds s) (el_bounds e)"

definition by_id :: "element list \<Rightarrow> (uuid, element) jsmap \<Rightarrow> (uuid, element) jsmap" where
  "by_id es m = fold (\<lambda>e. AList.update (el_id e) e) es m"

definition mergeBackendElements :: "element list \<Rightarrow> element list \<Rightarrow> element list" where
  "mergeBackendElements parsed backend =
     filter (\<lambda>e. list_ex (\<lambda>s. el_id s = el_id e) backend \<or> \<not> list_ex (\<lambda>s. looks_baked s e) backend)
       (map snd (by_id backend (by_id parsed [])))"

definition merge_page :: "(int \<Rightarrow> string + element list) \<Rightarrow> page \<Rightarrow> page" where
  "merge_page backend p = (case backend (pg_number p) of Inl err \<Rightarrow> p
     | Inr es \<Rightarrow> p\<lparr>pg_elements := mergeBackendElements (pg_elements p) es\<rparr>)"

section \<open>Loading\<close>

definition isPlaceholderMetadata :: "string option \<Rightarrow> bool" where
  "isPlaceholderMetadata v = (case v of None \<Rightarrow> True | Some s \<Rightarrow>
     (let t = js_trim s in t = [] \<or> js_lower t \<in> {''(anonymous)'', ''(unspecified)'', ''untitled''}))"

definition js_or :: "string \<Rightarrow> string \<Rightarrow> string" where
  "js_or a b = (if a = [] then b else a)"

definition load_title :: "string option \<Rightarrow> string \<Rightarrow> string" where
  "load_title rawTitle docName =
     js_or (js_or (if isPlaceholderMetadata rawTitle then [] else the rawTitle) docName) ''Sans titre''"

definition finish_load ::
  "uuid \<Rightarrow> string \<Rightarrow> string option \<Rightarrow> int \<Rightarrow> page list \<Rightarrow> string \<Rightarrow> (int \<Rightarrow> string + element list) \<Rightarrow>
   use_document \<Rightarrow> use_document" where
  "finish_load did docName rawTitle rawCount parsed rest backend s =
     (let pages = map (merge_page backend) parsed;
          title = load_title rawTitle docName
      in s\<lparr>ud_document := Some \<lparr>wdoc_id = did, wdoc_title = title,
             wdoc_pageCount = (if rawCount = 0 then int (length pages) else rawCount),
             wdoc_pages = pages, wdoc_rest = rest\<rparr>,
           ud_name := js_or docName title, ud_index := 0, ud_layers := []\<rparr>)"

section \<open>Pages\<close>

definition ud_pages :: "use_document \<Rightarrow> page list" where
  "ud_pages s = (case ud_document s of None \<Rightarrow> [] | Some d \<Rightarrow> wdoc_pages d)"

definition ud_currentPage :: "use_document \<Rightarrow> page option" where
  "ud_currentPage s = js_nth (ud_pages s) (ud_index s)"

definition on_doc :: "(page list \<Rightarrow> page list) \<Rightarrow> use_document \<Rightarrow> use_document" where
  "on_doc f s = s\<lparr>ud_document := map_option (\<lambda>d. d\<lparr>wdoc_pages := f (wdoc_pages d)\<rparr>) (ud_document s)\<rparr>"

text \<open>\<open>setDocument({...document, pages, metadata: {..., pageCount: pages.length}})\<close>\<close>

definition put_pages :: "page list \<Rightarrow> use_document \<Rightarrow> use_document" where
  "put_pages ps s = s\<lparr>ud_document := map_option
     (\<lambda>d. d\<lparr>wdoc_pages := ps, wdoc_pageCount := int (length ps)\<rparr>) (ud_document s)\<rparr>"

definition goToPage :: "int \<Rightarrow> use_document \<Rightarrow> use_document" where
  "goToPage i s = (if ud_document s \<noteq> None \<and> 0 \<le> i \<and> i < int (length (ud_pages s))
     then s\<lparr>ud_index := i\<rparr> else s)"

definition blank_page :: "uuid \<Rightarrow> int \<Rightarrow> page" where
  "blank_page fresh n = \<lparr>pg_id = fresh, pg_number = n,
     pg_dims = \<lparr>pd_width = 612, pd_height = 792, pd_rotation = R0\<rparr>,
     pg_mediaBox = \<lparr>b_x = 0, b_y = 0, b_width = 612, b_height = 792\<rparr>, pg_elements = [], pg_rest = []\<rparr>"

definition ud_addPage :: "uuid \<Rightarrow> use_document \<Rightarrow> use_document" where
  "ud_addPage fresh s = (if ud_document s = None then s
     else (let ps = ud_pages s @ [blank_page fresh (int (length (ud_pages s)) + 1)]
           in (put_pages ps s)\<lparr>ud_dirty := True, ud_index := int (length ps) - 1\<rparr>))"

definition ud_deletePage :: "int \<Rightarrow> use_document \<Rightarrow> use_document" where
  "ud_deletePage i s =
     (if ud_document s = None \<or> length (ud_pages s) \<le> 1 then s
      else if i < 0 \<or> i \<ge> int (length (ud_pages s)) then s
      else (let ps = renumber (splice_del (nat i) (ud_pages s))
            in (put_pages ps s)\<lparr>ud_dirty := True,
                 ud_index := (if ud_index s \<ge> int (length ps) then int (length ps) - 1
                   else if ud_index s > i then ud_index s - 1 else ud_index s)\<rparr>))"

definition ud_reorderPages :: "int \<Rightarrow> int \<Rightarrow> use_document \<Rightarrow> use_document" where
  "ud_reorderPages from to s =
     (let n = int (length (ud_pages s)) in
      if ud_document s = None then s
      else if from < 0 \<or> from \<ge> n \<or> to < 0 \<or> to \<ge> n then s
      else (on_doc (\<lambda>ps. renumber (move_item (nat from) (nat to) ps)) s)\<lparr>ud_dirty := True,
             ud_index := (if ud_index s = from then to
               else if from < ud_index s \<and> to \<ge> ud_index s then ud_index s - 1
               else if from > ud_index s \<and> to \<le> ud_index s then ud_index s + 1 else ud_index s)\<rparr>)"

definition ud_duplicatePage :: "uuid \<Rightarrow> (nat \<Rightarrow> uuid) \<Rightarrow> int \<Rightarrow> use_document \<Rightarrow> use_document" where
  "ud_duplicatePage fresh freshEl i s =
     (if ud_document s = None \<or> i < 0 \<or> i \<ge> int (length (ud_pages s)) then s
      else (let p = ud_pages s ! nat i;
                copy = p\<lparr>pg_id := fresh, pg_number := i + 2,
                  pg_elements := map_index (\<lambda>k e. e\<lparr>el_id := freshEl k\<rparr>) (pg_elements p)\<rparr>;
                ps = renumber (take (nat i + 1) (ud_pages s) @ [copy] @ drop (nat i + 1) (ud_pages s))
            in (put_pages ps s)\<lparr>ud_dirty := True, ud_index := i + 1\<rparr>))"

definition replacePages :: "page list \<Rightarrow> use_document \<Rightarrow> use_document" where
  "replacePages ps s = put_pages ps s"

section \<open>Elements\<close>

definition addElementToPage :: "int \<Rightarrow> element \<Rightarrow> use_document \<Rightarrow> use_document" where
  "addElementToPage i e s = on_doc (\<lambda>ps. if i < 0 \<or> i \<ge> int (length ps) then ps
     else map_index (\<lambda>k p. if int k = i then p\<lparr>pg_elements := pg_elements p @ [e]\<rparr> else p) ps) s"

definition updateElementInPage :: "uuid \<Rightarrow> element_patch \<Rightarrow> use_document \<Rightarrow> use_document" where
  "updateElementInPage eid p s = on_doc (map (\<lambda>g. g\<lparr>pg_elements :=
     update_first (\<lambda>e. el_id e = eid) (patch_element p) (pg_elements g)\<rparr>)) s"

definition removeElementFromPage :: "uuid \<Rightarrow> use_document \<Rightarrow> use_document" where
  "removeElementFromPage eid s = on_doc (map (\<lambda>g. g\<lparr>pg_elements :=
     filter (\<lambda>e. el_id e \<noteq> eid) (pg_elements g)\<rparr>)) s"

section \<open>User layers\<close>

definition map_layers :: "uuid \<Rightarrow> (layer \<Rightarrow> layer) \<Rightarrow> layer list \<Rightarrow> layer list" where
  "map_layers lid f ls = map (\<lambda>l. if ly_id l = lid then f l else l) ls"

text \<open>The layer that is returned keeps order 0; the stored one is on top of the stack.\<close>

definition ud_createLayer :: "uuid \<Rightarrow> string \<Rightarrow> use_document \<Rightarrow> layer \<times> use_document" where
  "ud_createLayer fresh name s =
     (let l = \<lparr>ly_id = fresh, ly_name = name, ly_visible = True, ly_locked = False, ly_opacity = 1,
               ly_print = True, ly_order = 0, ly_ocg = None\<rparr>
      in (l, s\<lparr>ud_layers := ud_layers s @ [l\<lparr>ly_order := max_order (ud_layers s) + 1\<rparr>], ud_dirty := True\<rparr>))"

definition ud_deleteLayer :: "uuid \<Rightarrow> use_document \<Rightarrow> use_document" where
  "ud_deleteLayer lid s = (on_doc (on_layer lid (\<lambda>e. e\<lparr>el_layerId := None\<rparr>)) s)\<lparr>
     ud_layers := filter (\<lambda>l. ly_id l \<noteq> lid) (ud_layers s), ud_dirty := True\<rparr>"

definition ud_renameLayer :: "uuid \<Rightarrow> string \<Rightarrow> use_document \<Rightarrow> use_document" where
  "ud_renameLayer lid name s = s\<lparr>ud_layers := map_layers lid (\<lambda>l. l\<lparr>ly_name := name\<rparr>) (ud_layers s), ud_dirty := True\<rparr>"

definition ud_reorderLayer :: "uuid \<Rightarrow> int \<Rightarrow> use_document \<Rightarrow> use_document" where
  "ud_reorderLayer lid n s = s\<lparr>ud_layers := map_layers lid (\<lambda>l. l\<lparr>ly_order := n\<rparr>) (ud_layers s), ud_dirty := True\<rparr>"

definition ud_setLayerVisible :: "uuid \<Rightarrow> bool \<Rightarrow> use_document \<Rightarrow> use_document" where
  "ud_setLayerVisible lid v s = (on_doc (on_layer lid (\<lambda>e. e\<lparr>el_visible := v\<rparr>)) s)\<lparr>
     ud_layers := map_layers lid (\<lambda>l. l\<lparr>ly_visible := v\<rparr>) (ud_layers s), ud_dirty := True\<rparr>"

definition ud_setLayerLocked :: "uuid \<Rightarrow> bool \<Rightarrow> use_document \<Rightarrow> use_document" where
  "ud_setLayerLocked lid v s = (on_doc (on_layer lid (\<lambda>e. e\<lparr>el_locked := v\<rparr>)) s)\<lparr>
     ud_layers := map_layers lid (\<lambda>l. l\<lparr>ly_locked := v\<rparr>) (ud_layers s), ud_dirty := True\<rparr>"

definition ud_assignElementToLayer :: "uuid \<Rightarrow> uuid option \<Rightarrow> use_document \<Rightarrow> use_document" where
  "ud_assignElementToLayer eid lid s =
     (updateElementInPage eid (empty_element_patch\<lparr>ep_layerId := Some lid\<rparr>) s)\<lparr>ud_dirty := True\<rparr>"

definition layer_by_id :: "layer list \<Rightarrow> (uuid, layer) jsmap" where
  "layer_by_id ls = fold (\<lambda>l. AList.update (ly_id l) l) ls []"

definition restore_element :: "layer list \<Rightarrow> (uuid, uuid) jsmap \<Rightarrow> element \<Rightarrow> element" where
  "restore_element ls membership e = (case map_get membership (el_id e) of None \<Rightarrow> e
     | Some lid \<Rightarrow> (case map_get (layer_by_id ls) lid of None \<Rightarrow> e
         | Some l \<Rightarrow> e\<lparr>el_layerId := Some lid, el_visible := ly_visible l, el_locked := ly_locked l\<rparr>))"

definition restoreLayers :: "layer list \<Rightarrow> (uuid, uuid) jsmap \<Rightarrow> use_document \<Rightarrow> use_document" where
  "restoreLayers ls membership s = (on_doc (map (\<lambda>p. p\<lparr>pg_elements :=
     map (restore_element ls membership) (pg_elements p)\<rparr>)) s)\<lparr>ud_layers := ls\<rparr>"

section \<open>The merge loses nothing\<close>

definition keyed_ok :: "(uuid, element) jsmap \<Rightarrow> bool" where
  "keyed_ok m \<longleftrightarrow> wf_map m \<and> (\<forall>(k, e)\<in>set m. el_id e = k)"

lemma keyed_ok_update: "keyed_ok m \<Longrightarrow> keyed_ok (AList.update (el_id e) e m)"
proof -
  assume m: "keyed_ok m"
  have "\<forall>(k, x)\<in>set (AList.update (el_id e) e m). el_id x = k" if "\<forall>(k, x)\<in>set m. el_id x = k"
    using that by (induction m) auto
  with m show ?thesis
    by (simp add: keyed_ok_def js_simps)
qed

lemma keyed_ok_by_id: "keyed_ok m \<Longrightarrow> keyed_ok (by_id es m)"
  by (induction es arbitrary: m) (auto simp: by_id_def keyed_ok_update)

lemma keyed_ok_values:
  assumes "keyed_ok m"
  shows "map el_id (map snd m) = map fst m" "e \<in> set (map snd m) \<longleftrightarrow> map_get m (el_id e) = Some e"
proof -
  show "map el_id (map snd m) = map fst m"
    using assms by (auto simp: keyed_ok_def)
  show "e \<in> set (map snd m) \<longleftrightarrow> map_get m (el_id e) = Some e"
  proof
    assume "e \<in> set (map snd m)"
    then obtain k where "(k, e) \<in> set m" by auto
    then show "map_get m (el_id e) = Some e"
      using assms by (auto simp: keyed_ok_def wf_map_def)
  next
    assume "map_get m (el_id e) = Some e"
    then show "e \<in> set (map snd m)"
      by (force dest: map_of_SomeD)
  qed
qed

lemma by_id_get:
  "distinct (map el_id es) \<Longrightarrow> map_get (by_id es m) k =
     (case find (\<lambda>e. el_id e = k) es of None \<Rightarrow> map_get m k | Some e \<Rightarrow> Some e)"
proof (induction es arbitrary: m)
  case (Cons a es)
  have "find (\<lambda>e. el_id e = el_id a) es = None"
    using Cons.prems by (auto simp: find_None_iff image_iff)
  then show ?case
    using Cons by (auto simp: by_id_def js_simps split: option.split)
qed (simp add: by_id_def)

lemma find_id: "distinct (map el_id es) \<Longrightarrow> find (\<lambda>e. el_id e = el_id x) es = Some x \<longleftrightarrow> x \<in> set es"
  by (induction es) (auto simp: find_None_iff split: if_splits)

lemma find_in: "find P xs = Some x \<Longrightarrow> x \<in> set xs \<and> P x"
  by (induction xs) (auto split: if_splits)

text \<open>C2: Reloading a document loses no unsaved element and shows none twice: the merge of the parsed PDF with
  the session's elements has pairwise distinct ids, contains every session element, and keeps a
  parsed element exactly when no session element has its id or looks like its baked copy (same
  type and content, bounds within two pixels).\<close>

theorem reload_merge_complete:
  assumes "distinct (map el_id parsed)" and "distinct (map el_id backend)"
  shows "distinct (map el_id (mergeBackendElements parsed backend))
    \<and> set (mergeBackendElements parsed backend) = set backend \<union>
        {e \<in> set parsed. \<not> (\<exists>s\<in>set backend. el_id s = el_id e \<or> looks_baked s e)}"
proof -
  let ?m = "by_id backend (by_id parsed [])"
  have ok: "keyed_ok ?m"
    by (intro keyed_ok_by_id) (simp add: keyed_ok_def)
  have get: "map_get ?m (el_id e) = Some e \<longleftrightarrow> e \<in> set backend \<or> (e \<in> set parsed \<and> (\<forall>s\<in>set backend. el_id s \<noteq> el_id e))"
    for e
    using find_id [OF assms(1), of e] find_id [OF assms(2), of e]
    by (auto simp: by_id_get [OF assms(1)] by_id_get [OF assms(2)] find_None_iff split: option.split dest: find_in)
  have "distinct (map el_id (map snd ?m))"
    using ok by (simp only: keyed_ok_values(1) [OF ok]) (simp add: keyed_ok_def wf_map_def)
  then have "distinct (map el_id (mergeBackendElements parsed backend))"
    unfolding mergeBackendElements_def by (rule distinct_map_filter)
  moreover have "set (mergeBackendElements parsed backend) = set backend \<union>
        {e \<in> set parsed. \<not> (\<exists>s\<in>set backend. el_id s = el_id e \<or> looks_baked s e)}"
    unfolding mergeBackendElements_def
    using keyed_ok_values(2) [OF ok] get by (auto simp: list_ex_iff)
  ultimately show ?thesis by blast
qed

section \<open>The current page\<close>

lemma nth_splice_del:
  "i < length xs \<Longrightarrow> k < length xs - 1 \<Longrightarrow> splice_del i xs ! k = (if k < i then xs ! k else xs ! Suc k)"
  by (auto simp: splice_del_def nth_append)

lemma nth_move_shift:
  assumes "i < length xs" "j < length xs" "k < length xs"
  shows "move_item i j xs ! (if k = i then j else if i < k \<and> j \<ge> k then k - 1
     else if i > k \<and> j \<le> k then k + 1 else k) = xs ! k"
  using assms by (auto simp: move_item_def nth_splice_ins nth_splice_del length_splice_del nth_Cons')

lemma ids_of_current:
  "map_option pg_id (ud_currentPage s) = js_nth (map pg_id (ud_pages s)) (ud_index s)"
  by (simp add: ud_currentPage_def js_nth_def)

text \<open>The editor stays on the page it shows: reordering any page, and deleting any other page, moves the
  current index with the page, so the current page is the same page afterwards.\<close>

lemma current_page_followed:
  assumes "0 \<le> ud_index s" and "ud_index s < int (length (ud_pages s))"
  shows "map_option pg_id (ud_currentPage (ud_reorderPages from to s)) = map_option pg_id (ud_currentPage s)
    \<and> (i = ud_index s \<or>
       map_option pg_id (ud_currentPage (ud_deletePage i s)) = map_option pg_id (ud_currentPage s))"
proof -
  obtain k where k: "ud_index s = int k" "k < length (ud_pages s)"
    using assms by (metis nonneg_int_cases of_nat_less_iff)
  let ?ids = "map pg_id (ud_pages s)"
  have "map_option pg_id (ud_currentPage (ud_reorderPages from to s)) = map_option pg_id (ud_currentPage s)"
  proof (cases "ud_document s = None \<or> from < 0 \<or> from \<ge> int (length ?ids) \<or> to < 0 \<or> to \<ge> int (length ?ids)")
    case False
    then obtain a b where ab: "from = int a" "to = int b" "a < length ?ids" "b < length ?ids"
      by (metis linorder_not_less nonneg_int_cases of_nat_less_iff)
    have "map pg_id (ud_pages (ud_reorderPages from to s)) = move_item a b ?ids"
      using False ab by (auto simp: ud_reorderPages_def ud_pages_def on_doc_def map_move_item)
    moreover have "ud_index (ud_reorderPages from to s) = int (if k = a then b else if a < k \<and> b \<ge> k then k - 1
        else if a > k \<and> b \<le> k then k + 1 else k)"
      using False ab k by (auto simp: ud_reorderPages_def)
    ultimately show ?thesis
      unfolding ids_of_current using nth_move_shift [OF ab(3,4), of k] k ab
      by (auto simp: js_nth_def length_move_item)
  next
    case True
    then have "ud_reorderPages from to s = s"
      by (simp only: ud_reorderPages_def Let_def length_map) auto
    then show ?thesis by simp
  qed
  moreover have "map_option pg_id (ud_currentPage (ud_deletePage i s)) = map_option pg_id (ud_currentPage s)"
    if i: "i \<noteq> ud_index s"
  proof (cases "ud_document s = None \<or> length ?ids \<le> 1 \<or> i < 0 \<or> i \<ge> int (length ?ids)")
    case False
    then obtain a where a: "i = int a" "a < length ?ids"
      by (metis linorder_not_less nonneg_int_cases of_nat_less_iff)
    have ids: "map pg_id (ud_pages (ud_deletePage i s)) = splice_del a ?ids"
      using False a by (auto simp: ud_deletePage_def ud_pages_def put_pages_def Let_def map_splice_del)
    moreover have "ud_index (ud_deletePage i s) = int (if a < k then k - 1 else k)"
      using False a k i by (auto simp: ud_deletePage_def Let_def js_simps)
    ultimately show ?thesis
      unfolding ids_of_current using k a i nth_splice_del [of a ?ids "if a < k then k - 1 else k"]
      by (auto simp: js_nth_def length_splice_del)
  next
    case True
    then have "ud_deletePage i s = s"
      by (simp only: ud_deletePage_def Let_def length_map) auto
    then show ?thesis by simp
  qed
  ultimately show ?thesis by blast
qed

section \<open>Sessions\<close>

datatype ud_op =
    U_goto int
  | U_addPage uuid
  | U_deletePage int
  | U_reorderPages int int
  | U_duplicatePage uuid "nat \<Rightarrow> uuid" int
  | U_replacePages "page list"
  | U_addElement int element
  | U_updateElement uuid element_patch
  | U_removeElement uuid
  | U_createLayer uuid string
  | U_deleteLayer uuid
  | U_renameLayer uuid string
  | U_reorderLayer uuid int
  | U_setVisible uuid bool
  | U_setLocked uuid bool
  | U_assign uuid "uuid option"
  | U_restore "layer list" "(uuid, uuid) jsmap"

fun ud_step :: "ud_op \<Rightarrow> use_document \<Rightarrow> use_document" where
  "ud_step (U_goto i) s = goToPage i s"
| "ud_step (U_addPage f) s = ud_addPage f s"
| "ud_step (U_deletePage i) s = ud_deletePage i s"
| "ud_step (U_reorderPages a b) s = ud_reorderPages a b s"
| "ud_step (U_duplicatePage f g i) s = ud_duplicatePage f g i s"
| "ud_step (U_replacePages ps) s = replacePages ps s"
| "ud_step (U_addElement i e) s = addElementToPage i e s"
| "ud_step (U_updateElement i p) s = updateElementInPage i p s"
| "ud_step (U_removeElement i) s = removeElementFromPage i s"
| "ud_step (U_createLayer f n) s = snd (ud_createLayer f n s)"
| "ud_step (U_deleteLayer l) s = ud_deleteLayer l s"
| "ud_step (U_renameLayer l n) s = ud_renameLayer l n s"
| "ud_step (U_reorderLayer l n) s = ud_reorderLayer l n s"
| "ud_step (U_setVisible l v) s = ud_setLayerVisible l v s"
| "ud_step (U_setLocked l v) s = ud_setLayerLocked l v s"
| "ud_step (U_assign e l) s = ud_assignElementToLayer e l s"
| "ud_step (U_restore ls m) s = restoreLayers ls m s"

text \<open>What the re-parse after a page operation hands over; the index is not clamped by the hook.\<close>

fun ud_allowed :: "ud_op \<Rightarrow> use_document \<Rightarrow> bool" where
  "ud_allowed (U_replacePages ps) s \<longleftrightarrow> numbered ps \<and> ud_index s < int (length ps)"
| "ud_allowed op s \<longleftrightarrow> True"

fun ud_run :: "ud_op list \<Rightarrow> use_document \<Rightarrow> use_document" where
  "ud_run [] s = s"
| "ud_run (op # ops) s = ud_run ops (if ud_allowed op s then ud_step op s else s)"

definition ud_inv :: "use_document \<Rightarrow> bool" where
  "ud_inv s \<longleftrightarrow> (case ud_document s of None \<Rightarrow> True
     | Some d \<Rightarrow> numbered (wdoc_pages d) \<and> wdoc_pageCount d = int (length (wdoc_pages d))
         \<and> 0 \<le> ud_index s \<and> ud_index s < int (length (wdoc_pages d)))"

lemma ud_inv_on_doc [inv_intros]:
  assumes "\<And>ps. map pg_number (f ps) = map pg_number ps" "ud_inv s"
  shows "ud_inv (on_doc f s)"
proof -
  have "length (f ps) = length ps" for ps
    using assms(1) [of ps] by (metis length_map)
  then show ?thesis
    using assms by (auto simp: ud_inv_def on_doc_def numbered_def split: option.splits)
qed

lemma ud_inv_same: "ud_document s' = ud_document s \<Longrightarrow> ud_index s' = ud_index s \<Longrightarrow> ud_inv s \<Longrightarrow> ud_inv s'"
  by (simp add: ud_inv_def split: option.splits)

lemma ud_inv_layers: "ud_inv s \<Longrightarrow> ud_inv (s\<lparr>ud_layers := ls\<rparr>)"
  by (rule ud_inv_same) simp_all

lemma on_doc_fields: "ud_index (on_doc f s) = ud_index s"
  by (simp add: on_doc_def)

lemma numbers_on_layer: "map pg_number (on_layer l f ps) = map pg_number ps"
  by (simp add: on_layer_def comp_def)

lemma ud_inv_put:
  "numbered ps \<Longrightarrow> 0 \<le> i \<Longrightarrow> i < int (length ps) \<Longrightarrow> ud_inv ((put_pages ps s)\<lparr>ud_dirty := b, ud_index := i\<rparr>)"
  by (auto simp: ud_inv_def put_pages_def split: option.splits)

lemma numbered_snoc: "numbered ps \<Longrightarrow> pg_number p = int (length ps) + 1 \<Longrightarrow> numbered (ps @ [p])"
  by (simp add: numbered_def)

lemma ud_inv_pages:
  assumes "ud_inv s"
  shows "ud_inv (goToPage i s)" "ud_inv (ud_addPage f s)" "ud_inv (ud_deletePage i s)"
    "ud_inv (ud_reorderPages a b s)" "ud_inv (ud_duplicatePage f g i s)"
    "numbered ps \<Longrightarrow> ud_index s < int (length ps) \<Longrightarrow> ud_inv (replacePages ps s)"
proof -
  show "ud_inv (goToPage i s)"
    using assms by (auto simp: goToPage_def ud_inv_def ud_pages_def)
  show "ud_inv (ud_addPage f s)"
    using assms
    by (auto simp: ud_addPage_def Let_def ud_inv_def ud_pages_def put_pages_def blank_page_def numbered_snoc)
  show "ud_inv (ud_deletePage i s)"
  proof (cases "ud_document s = None \<or> length (ud_pages s) \<le> 1 \<or> i < 0 \<or> i \<ge> int (length (ud_pages s))")
    case True
    then have "ud_deletePage i s = s"
      by (simp only: ud_deletePage_def Let_def) auto
    then show ?thesis using assms by simp
  next
    case False
    then have "length (splice_del (nat i) (ud_pages s)) = length (ud_pages s) - 1" "length (ud_pages s) \<ge> 2"
      by (auto simp: length_splice_del)
    moreover have "0 \<le> ud_index s" "ud_index s < int (length (ud_pages s))"
      using assms False by (auto simp: ud_inv_def ud_pages_def)
    ultimately show ?thesis
      using False unfolding ud_deletePage_def Let_def by (auto intro!: ud_inv_put)
  qed
  show "ud_inv (ud_reorderPages a b s)"
    using assms
    by (auto simp: ud_reorderPages_def Let_def ud_inv_def ud_pages_def on_doc_def length_move_item)
  show "ud_inv (ud_duplicatePage f g i s)"
    using assms
    by (auto simp: ud_duplicatePage_def Let_def ud_inv_def ud_pages_def put_pages_def)
  show "numbered ps \<Longrightarrow> ud_index s < int (length ps) \<Longrightarrow> ud_inv (replacePages ps s)"
    using assms by (auto simp: replacePages_def ud_inv_def put_pages_def split: option.splits)
qed

lemma ud_inv_elements:
  assumes "ud_inv s"
  shows "ud_inv (addElementToPage i e s)" "ud_inv (updateElementInPage eid p s)"
    "ud_inv (removeElementFromPage eid s)" "ud_inv (ud_deleteLayer l s)" "ud_inv (ud_setLayerVisible l v s)"
    "ud_inv (ud_setLayerLocked l v s)" "ud_inv (ud_assignElementToLayer eid lo s)"
    "ud_inv (restoreLayers ls m s)"
proof -
  have map_inv: "ud_inv (on_doc (map f) s)" if "\<And>p. pg_number (f p) = pg_number p" for f
    using that assms by (intro ud_inv_on_doc) auto
  have layer_inv: "ud_inv (on_doc (on_layer l f) s)" for f
    using assms by (intro ud_inv_on_doc numbers_on_layer)
  show "ud_inv (addElementToPage i e s)"
    unfolding addElementToPage_def using assms
    by (intro ud_inv_on_doc) (auto intro!: map_map_index)
  show 1: "ud_inv (updateElementInPage eid p s)" for p
    unfolding updateElementInPage_def by (rule map_inv) simp
  show "ud_inv (removeElementFromPage eid s)"
    unfolding removeElementFromPage_def by (rule map_inv) simp
  show "ud_inv (ud_deleteLayer l s)" "ud_inv (ud_setLayerVisible l v s)" "ud_inv (ud_setLayerLocked l v s)"
    unfolding ud_deleteLayer_def ud_setLayerVisible_def ud_setLayerLocked_def
    by (rule ud_inv_same [OF _ _ layer_inv]; simp)+
  show "ud_inv (ud_assignElementToLayer eid lo s)"
    unfolding ud_assignElementToLayer_def by (rule ud_inv_same [OF _ _ 1]) simp_all
  show "ud_inv (restoreLayers ls m s)"
    unfolding restoreLayers_def by (rule ud_inv_same [OF refl refl ud_inv_layers], rule map_inv) simp
qed

lemma ud_inv_step: "ud_inv s \<Longrightarrow> ud_allowed op s \<Longrightarrow> ud_inv (ud_step op s)"
proof (cases op)
  case (U_createLayer f n)
  then show "ud_inv s \<Longrightarrow> ud_allowed op s \<Longrightarrow> ud_inv (ud_step op s)"
    by (auto simp: ud_createLayer_def Let_def intro: ud_inv_same)
next
  case (U_renameLayer l n)
  then show "ud_inv s \<Longrightarrow> ud_allowed op s \<Longrightarrow> ud_inv (ud_step op s)"
    by (auto simp: ud_renameLayer_def intro: ud_inv_same)
next
  case (U_reorderLayer l n)
  then show "ud_inv s \<Longrightarrow> ud_allowed op s \<Longrightarrow> ud_inv (ud_step op s)"
    by (auto simp: ud_reorderLayer_def intro: ud_inv_same)
qed (auto simp: ud_inv_pages ud_inv_elements)

lemma ud_inv_run: "ud_inv s \<Longrightarrow> ud_inv (ud_run ops s)"
  by (induction ops arbitrary: s) (auto simp: ud_inv_step)

lemmas ud_simps = goToPage_def ud_addPage_def ud_deletePage_def ud_reorderPages_def ud_duplicatePage_def
  replacePages_def addElementToPage_def updateElementInPage_def removeElementFromPage_def ud_createLayer_def
  ud_deleteLayer_def ud_renameLayer_def ud_reorderLayer_def ud_setLayerVisible_def ud_setLayerLocked_def
  ud_assignElementToLayer_def restoreLayers_def on_doc_def put_pages_def Let_def

text \<open>C16: Through any editing session the scene graph stays consistent: the page numbers are the positions from
  1, the page count of the metadata is the number of pages, and the current index names a page. The
  one exception, excluded here, is \<open>replacePages\<close>, which does not clamp the index when the new
  document is shorter.\<close>

theorem editor_scene_graph_consistent:
  assumes "numbered parsed" and "parsed \<noteq> []" and "rawCount = 0 \<or> rawCount = int (length parsed)"
  shows "let s = ud_run ops (finish_load did docName rawTitle rawCount parsed rest backend s0) in
    \<exists>d. ud_document s = Some d \<and> numbered (wdoc_pages d) \<and> wdoc_pageCount d = int (length (wdoc_pages d))
      \<and> ud_currentPage s \<noteq> None"
proof -
  have "numbered (map (merge_page backend) parsed)"
  proof -
    have "pg_number (merge_page backend p) = pg_number p" for p
      by (simp add: merge_page_def split: sum.split)
    then show ?thesis
      using assms(1) by (simp add: numbered_def comp_def)
  qed
  then have "ud_inv (finish_load did docName rawTitle rawCount parsed rest backend s0)"
    using assms(2,3) by (auto simp: finish_load_def Let_def ud_inv_def)
  then have inv: "ud_inv (ud_run ops (finish_load did docName rawTitle rawCount parsed rest backend s0))"
    by (rule ud_inv_run)
  have "ud_document (ud_run ops s) \<noteq> None" if "ud_document s \<noteq> None" for s
    using that
  proof (induction ops arbitrary: s)
    case (Cons op ops)
    have "ud_document (ud_step op s) \<noteq> None"
      using Cons.prems by (cases op) (auto simp: ud_simps)
    then show ?case using Cons by simp
  qed simp
  from this [of "finish_load did docName rawTitle rawCount parsed rest backend s0"] inv show ?thesis
    by (auto simp: Let_def finish_load_def ud_inv_def ud_currentPage_def ud_pages_def js_nth_def)
qed

section \<open>Examples\<close>

definition note_at :: "uuid \<Rightarrow> jsnum \<Rightarrow> element" where
  "note_at i x = \<lparr>el_id = i, el_bounds = \<lparr>b_x = x, b_y = 0, b_width = 10, b_height = 10\<rparr>,
     el_transform = \<lparr>t_rotation = 0, t_scaleX = 1, t_scaleY = 1, t_skewX = 0, t_skewY = 0\<rparr>,
     el_layerId = None, el_locked = False, el_visible = True, el_body = Annotation_Body ''note'' ''n'',
     el_index = None, el_rest = []\<rparr>"

definition three_pages :: use_document where
  "three_pages = finish_load ''d'' ''file'' None 0 [blank_page ''p1'' 1, blank_page ''p2'' 2, blank_page ''p3'' 3] []
     (\<lambda>n. Inr [note_at ''n'' (of_int n)]) initial_use_document"

lemma reload_merge_complete_witness:
  "map el_id (mergeBackendElements [note_at ''a'' 0, note_at ''b'' 50] [note_at ''c'' 1]) = [''b'', ''c'']
   \<and> note_at ''c'' 1 \<in> set (mergeBackendElements [note_at ''a'' 0, note_at ''b'' 50] [note_at ''c'' 1])"
proof -
  have "distinct (map el_id [note_at ''a'' 0, note_at ''b'' 50])" "distinct (map el_id [note_at ''c'' 1])"
    by (simp_all add: note_at_def)
  from reload_merge_complete [OF this]
  have "note_at ''c'' 1 \<in> set (mergeBackendElements [note_at ''a'' 0, note_at ''b'' 50] [note_at ''c'' 1])"
    by simp
  moreover have "map el_id (mergeBackendElements [note_at ''a'' 0, note_at ''b'' 50] [note_at ''c'' 1]) = [''b'', ''c'']"
    by code_simp
  ultimately show ?thesis by blast
qed

lemma current_page_followed_witness:
  "map_option pg_id (ud_currentPage (ud_reorderPages 2 0 (goToPage 1 three_pages))) = Some ''p2''
   \<and> map_option pg_id (ud_currentPage (ud_deletePage 0 (goToPage 1 three_pages))) = Some ''p2''"
proof -
  have "0 \<le> ud_index (goToPage 1 three_pages)"
    "ud_index (goToPage 1 three_pages) < int (length (ud_pages (goToPage 1 three_pages)))"
    "ud_index (goToPage 1 three_pages) = 1"
    "map_option pg_id (ud_currentPage (goToPage 1 three_pages)) = Some ''p2''"
    by code_simp+
  with current_page_followed [of "goToPage 1 three_pages" 2 0 0] show ?thesis
    by simp
qed

lemma editor_scene_graph_consistent_witness:
  "ud_currentPage (ud_run [U_goto 1, U_deletePage 1, U_addPage ''p9'', U_reorderPages 1 0]
     (finish_load ''d'' ''file'' None 0 [blank_page ''p1'' 1, blank_page ''p2'' 2] [] (\<lambda>n. Inl ''down'')
       initial_use_document)) \<noteq> None"
proof -
  have "numbered [blank_page ''p1'' 1, blank_page ''p2'' 2]"
    by (simp add: numbered_def blank_page_def)
  from editor_scene_graph_consistent [OF this, of 0 "[U_goto 1, U_deletePage 1, U_addPage ''p9'', U_reorderPages 1 0]"
      "''d''" "''file''" None "[]" "\<lambda>n. Inl ''down''" initial_use_document]
  show ?thesis by (auto simp: Let_def)
qed

end
