(* ===== verification/Load_Progress.thy ===== *)
theory Load_Progress
  imports Prelude
begin

text \<open>
  The loading bar of \<open>use-document.ts\<close> (\<open>advanceProgress\<close>, \<open>startAnalyzingEstimator\<close> and the
  milestones of \<open>loadDocument\<close>) as a step relation: the load reaches its milestones in order, the
  estimator's timer may fire any number of times while it is armed, the page merges finish in any
  number, and an exception may end the load before it is ready.
\<close>

datatype load_phase = Ph_idle | Ph_connecting | Ph_analyzing | Ph_elements | Ph_building | Ph_error

text \<open>The phases in the order a load passes them, an error last.\<close>

fun phase_rank :: "load_phase \<Rightarrow> nat" where
  "phase_rank Ph_idle = 0"
| "phase_rank Ph_connecting = 1"
| "phase_rank Ph_analyzing = 2"
| "phase_rank Ph_elements = 3"
| "phase_rank Ph_building = 4"
| "phase_rank Ph_error = 5"

lemma phase_rank_inj: "phase_rank a = phase_rank b \<Longrightarrow> a = b"
  by (cases a; cases b) simp_all

instantiation load_phase :: linorder
begin

definition less_eq_load_phase :: "load_phase \<Rightarrow> load_phase \<Rightarrow> bool" where
  "less_eq_load_phase a b \<longleftrightarrow> phase_rank a \<le> phase_rank b"

definition less_load_phase :: "load_phase \<Rightarrow> load_phase \<Rightarrow> bool" where
  "less_load_phase a b \<longleftrightarrow> phase_rank a < phase_rank b"

instance
  by standard (auto simp: less_eq_load_phase_def less_load_phase_def phase_rank_inj)

end

record load_progress =
  lp_phase :: load_phase
  lp_value :: jsnum
  lp_parsed :: nat
  lp_total :: nat

record progress_patch =
  pt_phase :: "load_phase option"
  pt_value :: "jsnum option"
  pt_parsed :: "nat option"
  pt_total :: "nat option"

definition or_old :: "'a option \<Rightarrow> 'a \<Rightarrow> 'a" where
  "or_old x old = (case x of None \<Rightarrow> old | Some v \<Rightarrow> v)"

definition no_patch :: progress_patch where
  "no_patch = \<lparr>pt_phase = None, pt_value = None, pt_parsed = None, pt_total = None\<rparr>"

definition advanceProgress :: "progress_patch \<Rightarrow> load_progress \<Rightarrow> load_progress" where
  "advanceProgress pt prev =
     \<lparr>lp_phase = or_old (pt_phase pt) (lp_phase prev),
      lp_value = max (lp_value prev) (min 100 (or_old (pt_value pt) (lp_value prev))),
      lp_parsed = or_old (pt_parsed pt) (lp_parsed prev), lp_total = or_old (pt_total pt) (lp_total prev)\<rparr>"

definition estimator_tick :: "load_progress \<Rightarrow> load_progress" where
  "estimator_tick prev = (let ceil = 58 in if lp_value prev \<ge> ceil then prev
     else prev\<lparr>lp_value := max (lp_value prev) (lp_value prev + (ceil - lp_value prev) * (1 / 10))\<rparr>)"

definition start_progress :: load_progress where
  "start_progress = \<lparr>lp_phase = Ph_connecting, lp_value = 0, lp_parsed = 0, lp_total = 0\<rparr>"

definition page_value :: "nat \<Rightarrow> nat \<Rightarrow> jsnum" where
  "page_value k n = (if n > 0 then 60 + (of_nat k / of_nat n) * 32 else 92)"

datatype load_stage = St_start | St_session | St_analyzing | St_parsed | St_merging nat | St_building
  | St_ready | St_failed

record load_run =
  lr_progress :: load_progress
  lr_estimator :: bool
  lr_stage :: load_stage

definition load_start :: load_run where
  "load_start = \<lparr>lr_progress = start_progress, lr_estimator = False, lr_stage = St_start\<rparr>"

definition goto_stage :: "load_stage \<Rightarrow> bool \<Rightarrow> progress_patch \<Rightarrow> load_run \<Rightarrow> load_run" where
  "goto_stage st est pt r = \<lparr>lr_progress = advanceProgress pt (lr_progress r), lr_estimator = est, lr_stage = st\<rparr>"

inductive load_step :: "load_run \<Rightarrow> load_run \<Rightarrow> bool" where
  step_session: "lr_stage r = St_start \<Longrightarrow>
     load_step r (goto_stage St_session False (no_patch\<lparr>pt_value := Some 8\<rparr>) r)"
| step_analyze: "lr_stage r = St_session \<Longrightarrow>
     load_step r (goto_stage St_analyzing True (no_patch\<lparr>pt_phase := Some Ph_analyzing\<rparr>) r)"
| step_tick: "lr_estimator r \<Longrightarrow> load_step r (r\<lparr>lr_progress := estimator_tick (lr_progress r)\<rparr>)"
| step_parsed: "lr_stage r = St_analyzing \<Longrightarrow>
     load_step r (goto_stage St_parsed False (no_patch\<lparr>pt_value := Some 60\<rparr>) r)"
| step_elements: "lr_stage r = St_parsed \<Longrightarrow>
     load_step r (goto_stage (St_merging 0) False
       (no_patch\<lparr>pt_phase := Some Ph_elements, pt_total := Some n, pt_parsed := Some 0\<rparr>) r)"
| step_page: "lr_stage r = St_merging k \<Longrightarrow> k < lp_total (lr_progress r) \<Longrightarrow>
     load_step r (goto_stage (St_merging (Suc k)) False
       (no_patch\<lparr>pt_value := Some (page_value (Suc k) (lp_total (lr_progress r))), pt_parsed := Some (Suc k)\<rparr>) r)"
| step_build: "lr_stage r = St_merging (lp_total (lr_progress r)) \<Longrightarrow>
     load_step r (goto_stage St_building False (no_patch\<lparr>pt_phase := Some Ph_building, pt_value := Some 92\<rparr>) r)"
| step_ready: "lr_stage r = St_building \<Longrightarrow>
     load_step r (goto_stage St_ready False (no_patch\<lparr>pt_value := Some 100\<rparr>) r)"
| step_fail: "lr_stage r \<noteq> St_ready \<Longrightarrow> lr_stage r \<noteq> St_failed \<Longrightarrow>
     load_step r \<lparr>lr_progress = (lr_progress r)\<lparr>lp_phase := Ph_error\<rparr>, lr_estimator = False, lr_stage = St_failed\<rparr>"

inductive_cases load_stepE: "load_step r r'"

section \<open>The bar is honest\<close>

definition stage_ok :: "load_run \<Rightarrow> bool" where
  "stage_ok r \<longleftrightarrow> (let v = lp_value (lr_progress r); ph = lp_phase (lr_progress r) in
     (lr_estimator r \<longleftrightarrow> lr_stage r = St_analyzing) \<and>
     (case lr_stage r of
        St_start \<Rightarrow> v = 0 \<and> ph = Ph_connecting
      | St_session \<Rightarrow> v = 8 \<and> ph = Ph_connecting
      | St_analyzing \<Rightarrow> 8 \<le> v \<and> v \<le> 58 \<and> ph = Ph_analyzing
      | St_parsed \<Rightarrow> v = 60 \<and> ph = Ph_analyzing
      | St_merging k \<Rightarrow> k \<le> lp_total (lr_progress r) \<and> lp_parsed (lr_progress r) = k \<and> ph = Ph_elements
          \<and> v = (if lp_total (lr_progress r) = 0 then 60 else page_value k (lp_total (lr_progress r)))
      | St_building \<Rightarrow> v = 92 \<and> ph = Ph_building
      | St_ready \<Rightarrow> v = 100 \<and> ph = Ph_building
      | St_failed \<Rightarrow> 0 \<le> v \<and> v \<le> 92 \<and> ph = Ph_error))"

lemma page_value_bounds:
  assumes "k \<le> n" "n > 0"
  shows "60 \<le> page_value k n" "page_value k n \<le> 92" "page_value n n = 92"
  using assms by (auto simp: page_value_def divide_simps)

lemma page_value_mono: "k \<le> l \<Longrightarrow> n > 0 \<Longrightarrow> page_value k n \<le> page_value l n"
  by (simp add: page_value_def divide_right_mono)

lemmas progress_simps = advanceProgress_def goto_stage_def or_old_def no_patch_def

lemma tick_bounds: "8 \<le> lp_value p \<Longrightarrow> lp_value p \<le> 58 \<Longrightarrow>
  8 \<le> lp_value (estimator_tick p) \<and> lp_value (estimator_tick p) \<le> 58"
  by (auto simp: estimator_tick_def Let_def max_def field_simps)

lemma tick_fields: "lp_phase (estimator_tick p) = lp_phase p" "lp_value p \<le> lp_value (estimator_tick p)"
  by (simp_all add: estimator_tick_def Let_def)

lemma stage_ok_value:
  assumes "stage_ok r"
  shows "0 \<le> lp_value (lr_progress r)"
    "lr_stage r \<noteq> St_ready \<Longrightarrow> lp_value (lr_progress r) \<le> 92"
    "lr_stage r = St_ready \<Longrightarrow> lp_value (lr_progress r) = 100"
    "lr_stage r \<in> {St_start, St_session, St_analyzing} \<Longrightarrow> lp_value (lr_progress r) < 60"
  using assms page_value_bounds(1,2) [of "lp_parsed (lr_progress r)" "lp_total (lr_progress r)"]
  by (cases "lr_stage r"; force simp: stage_ok_def Let_def split: if_splits)+

lemma stage_ok_step:
  assumes "load_step r r'" "stage_ok r"
  shows "stage_ok r'"
  using assms
proof (induction rule: load_step.induct)
  case (step_tick r)
  then show ?case
    using tick_bounds [of "lr_progress r"]
    by (cases "lr_stage r") (auto simp: stage_ok_def Let_def tick_fields)
next
  case (step_page r k)
  let ?n = "lp_total (lr_progress r)"
  have "page_value k ?n \<le> page_value (Suc k) ?n" "page_value (Suc k) ?n \<le> 92"
    using step_page page_value_mono [of k "Suc k" ?n] page_value_bounds [of "Suc k" ?n] by auto
  then show ?case
    using step_page by (auto simp: stage_ok_def Let_def progress_simps)
next
  case (step_build r)
  let ?n = "lp_total (lr_progress r)"
  show ?case
    using step_build page_value_bounds [of ?n ?n]
    by (cases "?n = 0") (auto simp: stage_ok_def Let_def progress_simps)
next
  case (step_elements r n)
  then show ?case
    by (auto simp: stage_ok_def Let_def progress_simps page_value_def)
next
  case (step_fail r)
  then show ?case
    using stage_ok_value(1,2) [of r] by (auto simp: stage_ok_def Let_def)
qed (auto simp: stage_ok_def Let_def progress_simps)

lemma stage_ok_reach: "load_step\<^sup>*\<^sup>* load_start r \<Longrightarrow> stage_ok r"
proof (induction rule: rtranclp_induct)
  case base
  show ?case by (simp add: stage_ok_def load_start_def start_progress_def)
qed (rule stage_ok_step)

lemma value_mono: "load_step r r' \<Longrightarrow> lp_value (lr_progress r) \<le> lp_value (lr_progress r')"
  by (erule load_stepE) (auto simp: progress_simps tick_fields)

lemma value_mono_star: "load_step\<^sup>*\<^sup>* r r' \<Longrightarrow> lp_value (lr_progress r) \<le> lp_value (lr_progress r')"
  by (induction rule: rtranclp_induct) (auto dest: value_mono)

lemma phase_mono:
  "load_step r r' \<Longrightarrow> stage_ok r \<Longrightarrow> lp_phase (lr_progress r) \<le> lp_phase (lr_progress r')"
  by (erule load_stepE)
    (auto simp: progress_simps tick_fields stage_ok_def Let_def less_eq_load_phase_def split: load_stage.splits
      intro: phase_rank.elims)

lemma phase_mono_star:
  assumes "load_step\<^sup>*\<^sup>* load_start r" "load_step\<^sup>*\<^sup>* r r'"
  shows "lp_phase (lr_progress r) \<le> lp_phase (lr_progress r')"
  using assms(2)
proof (induction rule: rtranclp_induct)
  case (step y z)
  have "stage_ok y"
    using assms(1) step.hyps(1) by (intro stage_ok_reach) (rule rtranclp_trans)
  then show ?case
    using phase_mono [OF step.hyps(2)] step.IH by (blast intro: order_trans)
qed simp

text \<open>The loading bar keeps what its documentation promises: along every run of a load, however often the
  estimator ticks and wherever it fails, the value never goes back and stays within 0 and 100, it is
  below 60 until the parse has really finished, it shows 100 exactly when the load is complete, and
  the phases are passed in their order.\<close>

lemma load_bar_honest:
  assumes "load_step\<^sup>*\<^sup>* load_start r" and "load_step\<^sup>*\<^sup>* r r'"
  shows "lp_value (lr_progress r) \<le> lp_value (lr_progress r')
    \<and> 0 \<le> lp_value (lr_progress r) \<and> lp_value (lr_progress r) \<le> 100
    \<and> (lr_stage r \<in> {St_start, St_session, St_analyzing} \<longrightarrow> lp_value (lr_progress r) < 60)
    \<and> (lp_value (lr_progress r) = 100 \<longleftrightarrow> lr_stage r = St_ready)
    \<and> lp_phase (lr_progress r) \<le> lp_phase (lr_progress r')"
  using stage_ok_value [OF stage_ok_reach [OF assms(1)]] value_mono_star [OF assms(2)]
    phase_mono_star [OF assms]
  by (cases "lr_stage r = St_ready") auto

text \<open>A load of one page up to the merge, with one estimator tick.\<close>

lemma load_bar_honest_witness:
  "\<exists>r. load_step\<^sup>*\<^sup>* load_start r \<and> lr_stage r = St_parsed \<and> lp_value (lr_progress r) \<noteq> 100"
proof -
  let ?a = "goto_stage St_session False (no_patch\<lparr>pt_value := Some 8\<rparr>) load_start"
  let ?b = "goto_stage St_analyzing True (no_patch\<lparr>pt_phase := Some Ph_analyzing\<rparr>) ?a"
  let ?c = "?b\<lparr>lr_progress := estimator_tick (lr_progress ?b)\<rparr>"
  let ?d = "goto_stage St_parsed False (no_patch\<lparr>pt_value := Some 60\<rparr>) ?c"
  have "load_step load_start ?a" by (rule step_session) (simp add: load_start_def)
  moreover have "load_step ?a ?b" by (rule step_analyze) (simp add: goto_stage_def)
  moreover have "load_step ?b ?c" by (rule step_tick) (simp add: goto_stage_def)
  moreover have "load_step ?c ?d" by (rule step_parsed) (simp add: goto_stage_def)
  ultimately have r: "load_step\<^sup>*\<^sup>* load_start ?d"
    by (meson converse_rtranclp_into_rtranclp rtranclp.rtrancl_refl)
  have "lr_stage ?d = St_parsed" by (simp add: goto_stage_def)
  with r load_bar_honest [OF r rtranclp.rtrancl_refl] show ?thesis
    by (intro exI [of _ ?d]) simp
qed

end
