(* ===== verification/Offline_Queue.thy ===== *)
theory Offline_Queue
  imports Prelude
begin

text \<open>
  \<open>apps/web/src/lib/offline-queue.ts\<close>: operations that could not reach the server wait in an
  IndexedDB store, or in memory when the browser has none, and are replayed by \<open>flush\<close>. The
  store is its rows in key order with the next key; an index cursor visits them by time stamp. A
  write fails when the id exists or the browser's quota (an argument) is reached; failing reads
  are not modelled. Ids and the clock are arguments.
\<close>

datatype pending_type = Create_element | Update_element | Delete_element | Save_document

record pending_op =
  pq_id :: uuid
  pq_type :: pending_type
  pq_payload :: string
  pq_timestamp :: int
  pq_retries :: nat

record op_store =
  st_rows :: "(nat \<times> pending_op) list"
  st_next :: nat

record offline_queue =
  oq_db :: "op_store option"
  oq_memory :: "pending_op list"

definition MAX_QUEUE_SIZE :: nat where "MAX_QUEUE_SIZE = 100"
definition OP_MAX_AGE_MS :: int where "OP_MAX_AGE_MS = 24 * 60 * 60 * 1000"

section \<open>The store\<close>

definition cursor :: "op_store \<Rightarrow> (nat \<times> pending_op) list" where
  "cursor d = sort_key (\<lambda>r. pq_timestamp (snd r)) (st_rows d)"

definition delete_rows :: "nat list \<Rightarrow> op_store \<Rightarrow> op_store" where
  "delete_rows ks d = d\<lparr>st_rows := filter (\<lambda>r. fst r \<notin> set ks) (st_rows d)\<rparr>"

datatype add_result = Added op_store | Quota_exceeded | Add_failed

definition store_add :: "nat \<Rightarrow> pending_op \<Rightarrow> op_store \<Rightarrow> add_result" where
  "store_add quota op d =
     (if list_ex (\<lambda>r. pq_id (snd r) = pq_id op) (st_rows d) then Add_failed
      else if length (st_rows d) \<ge> quota then Quota_exceeded
      else Added \<lparr>st_rows = st_rows d @ [(st_next d, op)], st_next = Suc (st_next d)\<rparr>)"

definition evictOldest :: "nat \<Rightarrow> op_store \<Rightarrow> op_store" where
  "evictOldest n d = delete_rows (map fst (take n (cursor d))) d"

section \<open>The queue\<close>

definition idbEnqueueWithEviction :: "nat \<Rightarrow> pending_op \<Rightarrow> op_store \<Rightarrow> offline_queue \<Rightarrow> offline_queue" where
  "idbEnqueueWithEviction quota op d q =
     (case store_add quota op d of
        Added d1 \<Rightarrow> q\<lparr>oq_db := Some d1\<rparr>
      | Add_failed \<Rightarrow> q\<lparr>oq_memory := oq_memory q @ [op]\<rparr>
      | Quota_exceeded \<Rightarrow>
          (let d2 = evictOldest 10 d in case store_add quota op d2 of
             Added d3 \<Rightarrow> q\<lparr>oq_db := Some d3\<rparr>
           | _ \<Rightarrow> q\<lparr>oq_db := Some d2, oq_memory := oq_memory q @ [op]\<rparr>))"

definition enqueue :: "nat \<Rightarrow> uuid \<Rightarrow> int \<Rightarrow> pending_type \<Rightarrow> string \<Rightarrow> offline_queue \<Rightarrow> offline_queue" where
  "enqueue quota fresh now ty payload q =
     (let op = \<lparr>pq_id = fresh, pq_type = ty, pq_payload = payload, pq_timestamp = now, pq_retries = 0\<rparr> in
      case oq_db q of
        None \<Rightarrow> (let m = oq_memory q @ [op]
                 in q\<lparr>oq_memory := (if length m > MAX_QUEUE_SIZE then tl m else m)\<rparr>)
      | Some d \<Rightarrow> idbEnqueueWithEviction quota op d q)"

definition mem_front :: "pending_op list \<Rightarrow> pending_op option" where
  "mem_front m = (case m of [] \<Rightarrow> None | op # _ \<Rightarrow> Some op)"

definition idb_front :: "op_store \<Rightarrow> pending_op option" where
  "idb_front d = (case cursor d of [] \<Rightarrow> None | r # _ \<Rightarrow> Some (snd r))"

definition idb_pop :: "op_store \<Rightarrow> op_store" where
  "idb_pop d = (case cursor d of [] \<Rightarrow> d | r # _ \<Rightarrow> delete_rows [fst r] d)"

definition oq_peek :: "offline_queue \<Rightarrow> pending_op option" where
  "oq_peek q = (case oq_db q of None \<Rightarrow> mem_front (oq_memory q) | Some d \<Rightarrow> idb_front d)"

definition dequeue :: "offline_queue \<Rightarrow> pending_op option \<times> offline_queue" where
  "dequeue q = (case oq_db q of
       None \<Rightarrow> (mem_front (oq_memory q), q\<lparr>oq_memory := tl (oq_memory q)\<rparr>)
     | Some d \<Rightarrow> (idb_front d, q\<lparr>oq_db := Some (idb_pop d)\<rparr>))"

definition getAll :: "offline_queue \<Rightarrow> pending_op list" where
  "getAll q = (case oq_db q of None \<Rightarrow> oq_memory q | Some d \<Rightarrow> map snd (cursor d))"

definition oq_clear :: "offline_queue \<Rightarrow> offline_queue" where
  "oq_clear q = q\<lparr>oq_memory := [], oq_db := map_option (\<lambda>d. d\<lparr>st_rows := []\<rparr>) (oq_db q)\<rparr>"

definition oq_size :: "offline_queue \<Rightarrow> nat" where
  "oq_size q = (case oq_db q of None \<Rightarrow> length (oq_memory q) | Some d \<Rightarrow> length (st_rows d))"

text \<open>Putting a failed operation back, with the clock of that moment.\<close>

definition requeue :: "nat \<Rightarrow> int \<Rightarrow> pending_op \<Rightarrow> offline_queue \<Rightarrow> offline_queue" where
  "requeue quota later op q =
     (if pq_retries op < 3
      then (let op2 = op\<lparr>pq_retries := pq_retries op + 1, pq_timestamp := later\<rparr> in
        case oq_db q of None \<Rightarrow> q\<lparr>oq_memory := oq_memory q @ [op2]\<rparr>
        | Some d \<Rightarrow> idbEnqueueWithEviction quota op2 d q)
      else q)"

text \<open>The rows of a store have pairwise distinct keys below the next one.\<close>

definition store_wf :: "op_store \<Rightarrow> bool" where
  "store_wf d \<longleftrightarrow> distinct (map fst (st_rows d)) \<and> (\<forall>r\<in>set (st_rows d). fst r < st_next d)"

section \<open>Queues\<close>

text \<open>What \<open>flush\<close> relies on: a front and a removal of it, on a sequence of waiting operations.\<close>

locale waiting_queue =
  fixes wf_queue :: "'q \<Rightarrow> bool"
    and contents :: "'q \<Rightarrow> pending_op list"
    and front :: "'q \<Rightarrow> pending_op option"
    and pop :: "'q \<Rightarrow> 'q"
  assumes front_head: "front q = (case contents q of [] \<Rightarrow> None | op # _ \<Rightarrow> Some op)"
    and wf_pop: "wf_queue q \<Longrightarrow> wf_queue (pop q)"
    and pop_tail: "wf_queue q \<Longrightarrow> contents (pop q) = tl (contents q)"
begin

lemma front_None: "front q = None \<longleftrightarrow> contents q = []"
  by (simp add: front_head split: list.split)

lemma front_Some: "wf_queue q \<Longrightarrow> front q = Some op \<Longrightarrow> contents q = op # contents (pop q)"
  by (auto simp: front_head pop_tail split: list.splits)

lemma popped: "wf_queue q \<Longrightarrow> wf_queue ((pop ^^ n) q) \<and> contents ((pop ^^ n) q) = drop n (contents q)"
  by (induction n) (auto simp: wf_pop pop_tail drop_Suc simp flip: tl_drop)

end

interpretation mq: waiting_queue "\<lambda>m. True" "\<lambda>m. m" mem_front tl
  by unfold_locales (auto simp: mem_front_def)

lemma cursor_delete:
  assumes "store_wf d" "cursor d = r # rs"
  shows "cursor (delete_rows [fst r] d) = rs"
proof -
  have "distinct (map fst (cursor d))"
    using assms(1) by (simp add: store_wf_def cursor_def distinct_map inj_on_def)
  then have "filter (\<lambda>x. fst x \<notin> set [fst r]) (cursor d) = rs"
    using assms(2) by (auto intro!: filter_True) (metis fst_conv image_eqI)
  then show ?thesis
    by (simp add: cursor_def delete_rows_def filter_sort)
qed

lemma store_wf_delete: "store_wf d \<Longrightarrow> store_wf (delete_rows ks d)"
  by (auto simp: store_wf_def delete_rows_def distinct_map_filter)

interpretation iq: waiting_queue store_wf "\<lambda>d. map snd (cursor d)" idb_front idb_pop
proof
  show "idb_front q = (case map snd (cursor q) of [] \<Rightarrow> None | op # _ \<Rightarrow> Some op)" for q
    by (simp add: idb_front_def split: list.split)
  show "store_wf (idb_pop q)" if "store_wf q" for q
    using that by (simp add: idb_pop_def store_wf_delete split: list.split)
  show "map snd (cursor (idb_pop q)) = tl (map snd (cursor q))" if "store_wf q" for q
    using that by (auto simp: idb_pop_def cursor_delete split: list.split)
qed

definition queue_wf :: "offline_queue \<Rightarrow> bool" where
  "queue_wf q \<longleftrightarrow> (case oq_db q of None \<Rightarrow> True | Some d \<Rightarrow> store_wf d)"

interpretation oq: waiting_queue queue_wf getAll oq_peek "\<lambda>q. snd (dequeue q)"
proof
  show "oq_peek q = (case getAll q of [] \<Rightarrow> None | op # _ \<Rightarrow> Some op)" for q
    using mq.front_head [of "oq_memory q"] iq.front_head
    by (simp add: oq_peek_def getAll_def split: option.split)
  show "queue_wf (snd (dequeue q))" if "queue_wf q" for q
    using that by (auto simp: queue_wf_def dequeue_def iq.wf_pop split: option.splits)
  show "getAll (snd (dequeue q)) = tl (getAll q)" if "queue_wf q" for q
    using that by (auto simp: queue_wf_def getAll_def dequeue_def iq.pop_tail split: option.splits)
qed

section \<open>Flush\<close>

text \<open>The handler answers whether the replay succeeded, with the next state of the server.\<close>

type_synonym 's handler = "pending_op \<Rightarrow> 's \<Rightarrow> bool \<times> 's"

definition expired :: "int \<Rightarrow> pending_op \<Rightarrow> bool" where
  "expired now op \<longleftrightarrow> now - pq_timestamp op > OP_MAX_AGE_MS"

lemma peek_shrinks: "oq_peek q = Some op \<Longrightarrow> oq_size (snd (dequeue q)) < oq_size q"
proof (cases "oq_db q")
  case None
  then show "oq_peek q = Some op \<Longrightarrow> oq_size (snd (dequeue q)) < oq_size q"
    by (auto simp: oq_peek_def dequeue_def oq_size_def mem_front_def split: list.splits)
next
  case (Some d)
  assume "oq_peek q = Some op"
  with Some obtain r rs where r: "cursor d = r # rs"
    by (auto simp: oq_peek_def idb_front_def split: list.splits)
  then have "r \<in> set (st_rows d)"
    by (metis cursor_def list.set_intros(1) set_sort)
  then show ?thesis
    using Some r by (auto simp: dequeue_def oq_size_def idb_pop_def delete_rows_def intro!: length_filter_less)
qed

function flush_from :: "nat \<Rightarrow> 's handler \<Rightarrow> int \<Rightarrow> int \<Rightarrow> 's \<Rightarrow> offline_queue \<Rightarrow> nat \<Rightarrow> nat \<times> offline_queue \<times> 's" where
  "flush_from quota h now later s q n =
     (case oq_peek q of
        None \<Rightarrow> (n, q, s)
      | Some op \<Rightarrow>
          if expired now op then flush_from quota h now later s (snd (dequeue q)) n
          else (case h op s of
              (True, s1) \<Rightarrow> flush_from quota h now later s1 (snd (dequeue q)) (Suc n)
            | (False, s1) \<Rightarrow> (n, requeue quota later op (snd (dequeue q)), s1)))"
  by pat_completeness auto
termination
  by (relation "measure (\<lambda>(quota, h, now, later, s, q, n). oq_size q)") (auto dest: peek_shrinks)

declare flush_from.simps [simp del]

definition flush :: "nat \<Rightarrow> 's handler \<Rightarrow> int \<Rightarrow> int \<Rightarrow> 's \<Rightarrow> offline_queue \<Rightarrow> nat \<times> offline_queue \<times> 's" where
  "flush quota h now later s q = flush_from quota h now later s q 0"

text \<open>
  The specification: a replay of a list of operations, which gives those replayed with success, the
  one that failed, and those not tried.
\<close>

fun replay :: "'s handler \<Rightarrow> int \<Rightarrow> 's \<Rightarrow> pending_op list \<Rightarrow>
    pending_op list \<times> pending_op option \<times> pending_op list \<times> 's" where
  "replay h now s [] = ([], None, [], s)"
| "replay h now s (op # ops) =
     (if expired now op then replay h now s ops
      else (case h op s of
          (True, s1) \<Rightarrow> (case replay h now s1 ops of (ok, failed, rest, s2) \<Rightarrow> (op # ok, failed, rest, s2))
        | (False, s1) \<Rightarrow> ([], Some op, ops, s1)))"

lemma flush_replay:
  assumes "queue_wf q" "replay h now s (getAll q) = (ok, failed, rest, s2)"
  shows "\<exists>q1. queue_wf q1 \<and> getAll q1 = rest \<and> (oq_db q1 = None \<longleftrightarrow> oq_db q = None) \<and>
    flush_from quota h now later s q n =
      (n + length ok, (case failed of None \<Rightarrow> q1 | Some op \<Rightarrow> requeue quota later op q1), s2)"
  using assms
proof (induction "getAll q" arbitrary: q s n ok)
  case Nil
  then have "oq_peek q = None" by (simp add: oq.front_None)
  then show ?case
    using Nil by (subst flush_from.simps) auto
next
  case (Cons op ops)
  have p: "oq_peek q = Some op" "getAll (snd (dequeue q)) = ops" "queue_wf (snd (dequeue q))"
    using Cons.hyps(2) Cons.prems(1)
    by (auto simp: oq.front_head oq.pop_tail oq.wf_pop simp flip: Cons.hyps(2))
  have db: "oq_db (snd (dequeue q)) = None \<longleftrightarrow> oq_db q = None"
    by (auto simp: dequeue_def split: option.split)
  note IH = Cons.hyps(1) [OF p(2) [symmetric] p(3)]
  show ?case
  proof (cases "expired now op")
    case True
    then have "replay h now s (getAll (snd (dequeue q))) = (ok, failed, rest, s2)"
      using Cons.prems(2) p(2) by (simp flip: Cons.hyps(2))
    from IH [OF this, of n] show ?thesis
      using True p db by (subst flush_from.simps) simp
  next
    case False
    obtain b s1 where h: "h op s = (b, s1)" by fastforce
    show ?thesis
    proof (cases b)
      case True
      obtain ok1 where r: "replay h now s1 (getAll (snd (dequeue q))) = (ok1, failed, rest, s2)" "ok = op # ok1"
        using False True h Cons.prems(2) p(2) by (auto simp flip: Cons.hyps(2) split: prod.splits)
      from IH [OF r(1), of "Suc n"] show ?thesis
        using False True h p db r(2) by (subst flush_from.simps) simp
    next
      case b: False
      then have "ok = []" "failed = Some op" "rest = ops" "s2 = s1"
        using False h Cons.prems(2) by (auto simp flip: Cons.hyps(2))
      then show ?thesis
        using False b h p db by (subst flush_from.simps) auto
    qed
  qed
qed

section \<open>Nothing is lost\<close>

definition failed_ops :: "pending_op option \<Rightarrow> pending_op list" where
  "failed_ops failed = (case failed of None \<Rightarrow> [] | Some op \<Rightarrow> [op])"

text \<open>A replay divides the operations: replayed, failed, not tried, and expired ones that are dropped.\<close>

lemma replay_partition:
  "replay h now s ops = (ok, failed, rest, s2) \<Longrightarrow>
    \<exists>gone. mset ops = mset ok + mset (failed_ops failed) + mset rest + mset gone \<and> list_all (expired now) gone
      \<and> list_all (\<lambda>op. \<not> expired now op) (ok @ failed_ops failed)"
proof (induction h now s ops arbitrary: ok failed rest s2 rule: replay.induct)
  case (1 h now s)
  then show ?case by (auto simp: failed_ops_def)
next
  case (2 h now s op ops)
  show ?case
  proof (cases "expired now op")
    case True
    with 2 obtain gone where "mset ops = mset ok + mset (failed_ops failed) + mset rest + mset gone"
      "list_all (expired now) gone" "list_all (\<lambda>op. \<not> expired now op) (ok @ failed_ops failed)" by auto
    with True show ?thesis by (intro exI [of _ "op # gone"]) simp
  next
    case False
    obtain b s1 where h: "h op s = (b, s1)" by fastforce
    show ?thesis
    proof (cases b)
      case True
      then obtain ok1 where r: "replay h now s1 ops = (ok1, failed, rest, s2)" "ok = op # ok1"
        using False h 2(3) by (auto split: prod.splits)
      obtain gone where "mset ops = mset ok1 + mset (failed_ops failed) + mset rest + mset gone"
        "list_all (expired now) gone" "list_all (\<lambda>op. \<not> expired now op) (ok1 @ failed_ops failed)"
        using 2(2) [OF False h [symmetric] _ r(1)] True by blast
      with False r(2) show ?thesis by (intro exI [of _ gone]) simp
    next
      case b: False
      with False h 2(3) show ?thesis by (intro exI [of _ "[]"]) (auto simp: failed_ops_def)
    qed
  qed
qed

definition fits :: "nat \<Rightarrow> offline_queue \<Rightarrow> bool" where
  "fits quota q \<longleftrightarrow> oq_db q = None \<or> length (getAll q) < quota"

lemma requeue_contents:
  assumes "fits quota q" "pq_id op \<notin> pq_id ` set (getAll q)" "pq_retries op < 3"
  shows "mset (getAll (requeue quota later op q)) =
    add_mset (op\<lparr>pq_retries := pq_retries op + 1, pq_timestamp := later\<rparr>) (mset (getAll q))"
proof (cases "oq_db q")
  case None
  then show ?thesis
    using assms(3) by (simp add: requeue_def getAll_def)
next
  case (Some d)
  have "set (map snd (st_rows d)) = set (getAll q)" "length (st_rows d) = length (getAll q)"
    using Some by (simp_all add: getAll_def cursor_def)
  then have "\<not> list_ex (\<lambda>r. pq_id (snd r) = pq_id op) (st_rows d)" "length (st_rows d) < quota"
    using assms(1,2) Some by (auto simp: list_ex_iff fits_def) (metis image_eqI snd_conv)
  then show ?thesis
    using assms(3) Some
    by (simp add: requeue_def idbEnqueueWithEviction_def store_add_def getAll_def cursor_def)
qed

text \<open>What \<open>flush\<close> keeps of a failed operation: with one retry more and the time of the failure, up to three retries.\<close>

definition kept_failed :: "int \<Rightarrow> pending_op option \<Rightarrow> pending_op list" where
  "kept_failed later failed = (case failed of None \<Rightarrow> []
     | Some op \<Rightarrow> if pq_retries op < 3 then [op\<lparr>pq_retries := pq_retries op + 1, pq_timestamp := later\<rparr>] else [])"

text \<open>C13: A flush loses no pending operation and replays none twice, when the browser's quota admits the
  operations that are waiting. It calls the server in the order of the queue until the first failure. Every
  operation of the queue is then exactly one of: replayed with success, the one that failed, not tried,
  or expired and dropped; and the queue holds afterwards exactly those not tried and the failed one with
  one retry more and the time of the failure, unless it had its three retries already. No operation that
  was replayed is still queued.\<close>

theorem flush_loses_nothing:
  assumes "queue_wf q" and "distinct (map pq_id (getAll q))"
    and "oq_db q = None \<or> length (getAll q) \<le> quota"
    and "replay h now s (getAll q) = (ok, failed, rest, s2)"
  shows "\<exists>q' gone. flush quota h now later s q = (length ok, q', s2)
    \<and> mset (getAll q) = mset ok + mset (failed_ops failed) + mset rest + mset gone \<and> list_all (expired now) gone
    \<and> list_all (\<lambda>op. \<not> expired now op) (ok @ failed_ops failed)
    \<and> mset (getAll q') = mset rest + mset (kept_failed later failed)
    \<and> pq_id ` set ok \<inter> pq_id ` set (getAll q') = {}"
proof -
  obtain q1 where q1: "queue_wf q1" "getAll q1 = rest" "oq_db q1 = None \<longleftrightarrow> oq_db q = None" and
    fl: "flush quota h now later s q = (length ok, (case failed of None \<Rightarrow> q1 | Some op \<Rightarrow> requeue quota later op q1), s2)"
    using flush_replay [OF assms(1,4), of quota later 0] by (auto simp: flush_def)
  obtain gone where gone: "mset (getAll q) = mset ok + mset (failed_ops failed) + mset rest + mset gone"
    "list_all (expired now) gone" "list_all (\<lambda>op. \<not> expired now op) (ok @ failed_ops failed)"
    using replay_partition [OF assms(4)] by blast
  have "mset (map pq_id (ok @ failed_ops failed @ rest @ gone)) = mset (map pq_id (getAll q))"
    using gone(1) by (simp add: ac_simps)
  then have ids: "distinct (map pq_id (ok @ failed_ops failed @ rest @ gone))"
    using assms(2) mset_eq_imp_distinct_iff by blast
  have len: "length (getAll q) = length ok + length (failed_ops failed) + length rest + length gone"
    using arg_cong [OF gone(1), of size] by simp
  let ?q' = "case failed of None \<Rightarrow> q1 | Some op \<Rightarrow> requeue quota later op q1"
  have m: "mset (getAll ?q') = mset rest + mset (kept_failed later failed)"
  proof (cases "\<exists>op. failed = Some op \<and> pq_retries op < 3")
    case True
    then obtain op where op: "failed = Some op" "pq_retries op < 3" by blast
    have "fits quota q1"
      using assms(3) q1(2,3) len op by (auto simp: failed_ops_def fits_def)
    then show ?thesis
      using requeue_contents [of quota q1 op later] q1 ids op by (simp add: failed_ops_def kept_failed_def)
  next
    case False
    then show ?thesis
      using q1(2) by (auto simp: kept_failed_def requeue_def split: option.split)
  qed
  then have "set (getAll ?q') = set rest \<union> set (kept_failed later failed)"
    by (metis set_mset_mset set_mset_union)
  then have "pq_id ` set ok \<inter> pq_id ` set (getAll ?q') = {}"
    using ids by (cases failed) (auto simp: kept_failed_def failed_ops_def, metis image_eqI)
  with fl gone m show ?thesis by blast
qed

section \<open>The memory fallback of a full store\<close>

lemma requeue_memory:
  assumes "oq_db q \<noteq> None"
  shows "set (oq_memory q) \<subseteq> set (oq_memory (requeue quota later op q)) \<and> oq_db (requeue quota later op q) \<noteq> None"
  using assms
  by (auto simp: requeue_def idbEnqueueWithEviction_def Let_def split: option.splits add_result.splits)

lemma flush_memory:
  "oq_db q \<noteq> None \<Longrightarrow> set (oq_memory q) \<subseteq> set (oq_memory (fst (snd (flush_from quota h now later s q n))))"
proof (induction quota h now later s q n rule: flush_from.induct)
  case (1 quota h now later s q n)
  have d: "oq_db (snd (dequeue q)) \<noteq> None" "oq_memory (snd (dequeue q)) = oq_memory q"
    using 1(3) by (auto simp: dequeue_def split: option.splits)
  show ?case
  proof (cases "oq_peek q")
    case None
    then show ?thesis by (subst flush_from.simps) simp
  next
    case (Some op)
    obtain b s1 where h: "h op s = (b, s1)" by fastforce
    show ?thesis
      using Some h d 1(1) [OF Some] 1(2) [OF Some _ h [symmetric]] requeue_memory [OF d(1)]
      by (subst flush_from.simps) (cases b; auto)
  qed
qed

text \<open>An operation that IndexedDB refuses is lost in spite of the memory fallback: while a store is open,
  only the store is read, so the operation kept in memory is not reported as waiting, and a flush at
  any time and with any server leaves it in memory.\<close>

lemma memory_fallback_never_replayed:
  assumes "oq_db q \<noteq> None" and "fresh \<notin> pq_id ` set (getAll q)"
  shows "fresh \<in> pq_id ` set (oq_memory (enqueue 0 fresh t ty payload q))
    \<and> fresh \<notin> pq_id ` set (getAll (enqueue 0 fresh t ty payload q))
    \<and> fresh \<in> pq_id ` set (oq_memory (fst (snd (flush quota h now later s (enqueue 0 fresh t ty payload q)))))"
proof -
  obtain d where d: "oq_db q = Some d" using assms(1) by blast
  have ids: "set (map snd (st_rows (delete_rows ks d))) \<subseteq> set (getAll q)" for ks
    using d by (auto simp: getAll_def cursor_def delete_rows_def)
  have 1: "oq_db (enqueue 0 fresh t ty payload q) \<noteq> None"
    "fresh \<in> pq_id ` set (oq_memory (enqueue 0 fresh t ty payload q))"
    using d by (auto simp: enqueue_def idbEnqueueWithEviction_def store_add_def Let_def)
  have "set (getAll (enqueue 0 fresh t ty payload q)) \<subseteq> set (getAll q)"
    using d ids
    by (auto simp: enqueue_def idbEnqueueWithEviction_def store_add_def Let_def evictOldest_def getAll_def cursor_def
        delete_rows_def)
  then have "fresh \<notin> pq_id ` set (getAll (enqueue 0 fresh t ty payload q))"
    using assms(2) by blast
  moreover have "fresh \<in> pq_id ` set (oq_memory (fst (snd (flush quota h now later s (enqueue 0 fresh t ty payload q)))))"
    using flush_memory [OF 1(1), of quota h now later s 0] 1(2) unfolding flush_def by blast
  ultimately show ?thesis using 1 by blast
qed

section \<open>Examples\<close>

definition demo_pending :: "uuid \<Rightarrow> int \<Rightarrow> pending_op" where
  "demo_pending i t = \<lparr>pq_id = i, pq_type = Update_element, pq_payload = [], pq_timestamp = t, pq_retries = 0\<rparr>"

definition demo_queue :: offline_queue where
  "demo_queue = \<lparr>oq_db = Some \<lparr>st_rows = [(1, demo_pending ''b'' 20), (2, demo_pending ''a'' 10), (3, demo_pending ''c'' 30)],
     st_next = 4\<rparr>, oq_memory = []\<rparr>"

text \<open>The server takes one operation and then is gone.\<close>

definition one_call :: "nat handler" where
  "one_call op n = (n = 0, Suc n)"

lemma flush_loses_nothing_witness:
  "\<exists>q'. flush 10 one_call 40 50 0 demo_queue = (1, q', 2)
    \<and> mset (getAll q') = {#demo_pending ''c'' 30, (demo_pending ''b'' 20)\<lparr>pq_retries := 1, pq_timestamp := 50\<rparr>#}"
proof -
  have w: "queue_wf demo_queue" "distinct (map pq_id (getAll demo_queue))"
    "oq_db demo_queue = None \<or> length (getAll demo_queue) \<le> 10"
    by code_simp+
  have r: "replay one_call 40 0 (getAll demo_queue) =
      ([demo_pending ''a'' 10], Some (demo_pending ''b'' 20), [demo_pending ''c'' 30], 2)"
    by code_simp
  have "kept_failed 50 (Some (demo_pending ''b'' 20)) = [(demo_pending ''b'' 20)\<lparr>pq_retries := 1, pq_timestamp := 50\<rparr>]"
    by code_simp
  with flush_loses_nothing [OF w r, of 50] show ?thesis
    by (auto simp: add_mset_commute)
qed

lemma memory_fallback_never_replayed_witness:
  "''z'' \<in> pq_id ` set (oq_memory (fst (snd (flush 100 one_call 60 70 0
     (enqueue 0 ''z'' 50 Save_document [] demo_queue)))))"
proof -
  have "oq_db demo_queue \<noteq> None" "''z'' \<notin> pq_id ` set (getAll demo_queue)"
    by code_simp+
  from memory_fallback_never_replayed [OF this, of 50 Save_document "[]" 100 one_call 60 70 0] show ?thesis by blast
qed

end
