(* ===== verification/Document_Save.thy ===== *)
theory Document_Save
  imports Operations_Store Offline_Queue
begin

text \<open>
  The save hook \<open>apps/web/src/hooks/use-document-save.ts\<close> with the parts of the editor page
  (\<open>apps/web/src/app/(app)/editor/[id]/page.tsx\<close>) it calls: \<open>getPreparedBlob\<close>, which bakes the queued
  operations into the local file, and \<open>onSaved\<close>. A save waits up to three times (the bake, the
  download, the upload); each wait ends with an answer, an event of its own, so anything can happen
  in between. The flush of the offline queue waits once and then runs as one step. The options of
  the hook other than \<open>isDirty\<close> are constant; logging and the refresh of thumbnails and the search
  index are left out.
\<close>

section \<open>State\<close>

text \<open>A PDF file is an opaque text; a modification of the content layer has a page and a payload.\<close>

type_synonym blob = string
type_synonym content_mod = "int \<times> string"

record save_payload =
  spl_documentId :: string
  spl_storedId :: "string option"
  spl_name :: string
  spl_folderId :: "string option"
  spl_tags :: "string list"
  spl_forceNew :: bool

datatype upload =
    New_version string blob string
  | New_document blob string "string option" "string list"

datatype save_error =
    Unauthorized | Not_found string | Download_failed int | Other_failure string

text \<open>Where a save waits: for the bake of what it has read, for the download, for the upload.\<close>

datatype save_stage = Baking blob op_queue "content_mod list" | Downloading | Uploading blob

record save_hook =
  sv_documentId :: "string option"
  sv_storedId :: "string option"
  sv_name :: string
  sv_folderId :: "string option"
  sv_tags :: "string list"
  sv_dirty :: bool
  sv_saving :: bool
  sv_error :: "save_error option"
  sv_lastSaved :: "int option"
  sv_pending :: nat
  sv_offline :: bool
  sv_syncing :: bool
  sv_queueSize :: nat
  sv_timer :: bool
  sv_jobs :: "(save_payload \<times> save_stage) list"
  sv_queue :: offline_queue
  ed_pdf :: "blob option"
  ed_ops :: op_queue
  ed_mods :: "content_mod list"
  ed_flushIds :: "uuid list"
  ed_flushing :: "uuid list list"
  sv_uploads :: "upload list"

text \<open>
  Parameters: the quota of the browser's store, the structured clone of a payload into it and back,
  and the bake (the route \<open>api/pdf/apply-elements\<close>).
\<close>

record save_env =
  en_quota :: nat
  en_clone :: "save_payload \<Rightarrow> string"
  en_unclone :: "string \<Rightarrow> save_payload"
  en_bake :: "blob \<Rightarrow> op_queue \<Rightarrow> content_mod list \<Rightarrow> blob"

definition upload_of :: "save_payload \<Rightarrow> string \<Rightarrow> blob \<Rightarrow> upload" where
  "upload_of p comment b = (case spl_storedId p of
       None \<Rightarrow> New_document b (spl_name p) (spl_folderId p) (spl_tags p)
     | Some sid \<Rightarrow>
         if sid \<noteq> [] \<and> \<not> spl_forceNew p then New_version sid b comment
         else New_document b (spl_name p) (spl_folderId p) (spl_tags p))"

text \<open>\<open>x ?? y\<close>\<close>

definition or_else :: "'a option \<Rightarrow> 'a option \<Rightarrow> 'a option" where
  "or_else x y = (case x of None \<Rightarrow> y | Some _ \<Rightarrow> x)"

definition save_payload_of :: "save_hook \<Rightarrow> string \<Rightarrow> string \<Rightarrow> string option \<Rightarrow> bool \<Rightarrow> save_payload" where
  "save_payload_of s d name fld force = \<lparr>spl_documentId = d, spl_storedId = sv_storedId s, spl_name = name,
     spl_folderId = or_else fld (sv_folderId s), spl_tags = sv_tags s, spl_forceNew = force\<rparr>"

section \<open>The bake\<close>

datatype prepared = No_blob | Ready blob | To_bake blob op_queue "content_mod list"

definition getPreparedBlob :: "save_hook \<Rightarrow> prepared" where
  "getPreparedBlob s = (case ed_pdf s of
       None \<Rightarrow> No_blob
     | Some pdf \<Rightarrow>
         if ed_ops s = [] \<and> ed_mods s = [] then Ready pdf
         else To_bake pdf (peek (ed_ops s)) (ed_mods s))"

definition stage_of :: "prepared \<Rightarrow> save_stage" where
  "stage_of p = (case p of No_blob \<Rightarrow> Downloading | Ready b \<Rightarrow> Uploading b | To_bake b ops ms \<Rightarrow> Baking b ops ms)"

text \<open>What follows the answer of the bake: the queue is drained, not cut by what was baked.\<close>

definition bake_done :: "blob \<Rightarrow> op_queue \<Rightarrow> save_hook \<Rightarrow> save_hook" where
  "bake_done baked ops s = s\<lparr>ed_ops := snd (drain (ed_ops s)), ed_pdf := Some baked, ed_mods := [],
     ed_flushIds := ed_flushIds s @ filter (\<lambda>i. i \<noteq> []) (map (\<lambda>op. op_element_id (eo_element op)) ops)\<rparr>"

definition set_stage :: "nat \<Rightarrow> save_stage \<Rightarrow> save_hook \<Rightarrow> save_hook" where
  "set_stage j st s = s\<lparr>sv_jobs := (sv_jobs s)[j := (fst (sv_jobs s ! j), st)]\<rparr>"

definition bake_answer :: "save_env \<Rightarrow> nat \<Rightarrow> bool \<Rightarrow> save_hook \<Rightarrow> save_hook" where
  "bake_answer env j ok s = (if j < length (sv_jobs s) then (case snd (sv_jobs s ! j) of
       Baking pdf ops ms \<Rightarrow>
         if ok then (let baked = en_bake env pdf ops ms in set_stage j (Uploading baked) (bake_done baked ops s))
         else set_stage j (Uploading pdf) s
     | _ \<Rightarrow> s) else s)"

section \<open>A save\<close>

definition UPDATE_COMMENT :: string where
  "UPDATE_COMMENT = ''Mise '' @ [CHR 0xE0] @ '' jour automatique''"

definition refreshQueueSize :: "save_hook \<Rightarrow> save_hook" where
  "refreshQueueSize s = s\<lparr>sv_queueSize := oq_size (sv_queue s)\<rparr>"

text \<open>The id and the clock the queue needs are arguments.\<close>

definition enqueue_save :: "save_env \<Rightarrow> uuid \<times> int \<Rightarrow> save_payload \<Rightarrow> save_hook \<Rightarrow> save_hook" where
  "enqueue_save env st p s = refreshQueueSize (s\<lparr>sv_queue :=
     enqueue (en_quota env) (fst st) (snd st) Save_document (en_clone env p) (sv_queue s)\<rparr>)"

text \<open>The result is \<open>None\<close> while the save waits for an answer.\<close>

definition performSave :: "save_env \<Rightarrow> uuid \<times> int \<Rightarrow> string \<Rightarrow> string option \<Rightarrow> bool \<Rightarrow> save_hook
    \<Rightarrow> bool option \<times> save_hook" where
  "performSave env st name fld force s = (case sv_documentId s of
       None \<Rightarrow> (Some False, s)
     | Some d \<Rightarrow>
         if d = [] \<or> sv_saving s then (Some False, s)
         else (let p = save_payload_of s d name fld force in
           if sv_offline s then (Some True, enqueue_save env st p s)
           else (None, s\<lparr>sv_saving := True, sv_error := None,
                  sv_jobs := sv_jobs s @ [(p, stage_of (getPreparedBlob s))]\<rparr>)))"

text \<open>The \<open>finally\<close> block; the save leaves the list of waiting ones.\<close>

definition finish_job :: "nat \<Rightarrow> save_hook \<Rightarrow> save_hook" where
  "finish_job j s = s\<lparr>sv_saving := False, sv_jobs := take j (sv_jobs s) @ drop (Suc j) (sv_jobs s)\<rparr>"

definition save_failed :: "save_env \<Rightarrow> uuid \<times> int \<Rightarrow> nat \<Rightarrow> save_error \<Rightarrow> save_hook \<Rightarrow> save_hook" where
  "save_failed env st j e s = finish_job j (enqueue_save env st (fst (sv_jobs s ! j)) (s\<lparr>sv_error := Some e\<rparr>))"

text \<open>\<open>fetchPdfBlobForSave\<close> on the response: a status with the body, or a network failure.\<close>

datatype download = Response int blob | Network_error string

definition fetchPdfBlobForSave :: "string \<Rightarrow> download \<Rightarrow> save_error + blob" where
  "fetchPdfBlobForSave d r = (case r of
       Network_error m \<Rightarrow> Inl (Other_failure m)
     | Response n b \<Rightarrow>
         if 200 \<le> n \<and> n < 300 then Inr b
         else if n = 401 then Inl Unauthorized
         else if n = 404 then Inl (Not_found d) else Inl (Download_failed n))"

definition download_answer :: "save_env \<Rightarrow> uuid \<times> int \<Rightarrow> nat \<Rightarrow> download \<Rightarrow> save_hook \<Rightarrow> save_hook" where
  "download_answer env st j r s = (if j < length (sv_jobs s) \<and> snd (sv_jobs s ! j) = Downloading
     then (case fetchPdfBlobForSave (spl_documentId (fst (sv_jobs s ! j))) r of
         Inl e \<Rightarrow> save_failed env st j e s
       | Inr b \<Rightarrow> set_stage j (Uploading b) s)
     else s)"

text \<open>\<open>onSaved\<close> of the page: the request that deletes the baked elements from the session.\<close>

definition onSaved :: "save_hook \<Rightarrow> save_hook" where
  "onSaved s = (if ed_flushIds s = [] \<or> sv_documentId s = None \<or> sv_documentId s = Some [] then s
     else s\<lparr>ed_flushing := ed_flushing s @ [ed_flushIds s], ed_flushIds := []\<rparr>)"

definition mark_clean :: "int \<Rightarrow> save_hook \<Rightarrow> save_hook" where
  "mark_clean now s = s\<lparr>sv_lastSaved := Some now, sv_pending := 0, sv_dirty := False\<rparr>"

definition upload_answer :: "save_env \<Rightarrow> uuid \<times> int \<Rightarrow> nat \<Rightarrow> save_error option \<Rightarrow> save_hook \<Rightarrow> save_hook" where
  "upload_answer env st j r s = (if j < length (sv_jobs s) then (case snd (sv_jobs s ! j) of
       Uploading b \<Rightarrow> (case r of
           Some e \<Rightarrow> save_failed env st j e s
         | None \<Rightarrow> finish_job j (onSaved (mark_clean (snd st)
             (s\<lparr>sv_uploads := sv_uploads s @ [upload_of (fst (sv_jobs s ! j)) UPDATE_COMMENT b]\<rparr>))))
     | _ \<Rightarrow> s) else s)"

text \<open>The answer of the session to a deletion: on failure the ids wait for the next save.\<close>

definition session_answer :: "nat \<Rightarrow> bool \<Rightarrow> save_hook \<Rightarrow> save_hook" where
  "session_answer k ok s = (if k < length (ed_flushing s)
     then s\<lparr>ed_flushing := take k (ed_flushing s) @ drop (Suc k) (ed_flushing s),
            ed_flushIds := ed_flushIds s @ (if ok then [] else ed_flushing s ! k)\<rparr>
     else s)"

section \<open>The flush of the offline queue\<close>

text \<open>\<open>dl\<close> is what the session of a document answers now, \<open>ul\<close> whether an upload succeeds.\<close>

definition replayOperation :: "save_env \<Rightarrow> (string \<Rightarrow> download) \<Rightarrow> (upload \<Rightarrow> bool) \<Rightarrow> pending_op \<Rightarrow> save_hook
    \<Rightarrow> bool \<times> save_hook" where
  "replayOperation env dl ul op s =
     (if pq_type op \<noteq> Save_document then (True, s)
      else (let p = en_unclone env (pq_payload op) in
        case fetchPdfBlobForSave (spl_documentId p) (dl (spl_documentId p)) of
          Inl e \<Rightarrow> (False, s)
        | Inr b \<Rightarrow> (let u = upload_of p ''Synchronisation offline'' b in
            if ul u then (True, (case u of
                New_version sid b c \<Rightarrow> s\<lparr>sv_uploads := sv_uploads s @ [u]\<rparr>
              | New_document b n f t \<Rightarrow> onSaved (s\<lparr>sv_uploads := sv_uploads s @ [u]\<rparr>)))
            else (False, s))))"

text \<open>The start of \<open>flushOfflineQueue\<close>, and the rest from the call of \<open>flush\<close> on.\<close>

definition flush_begin :: "save_hook \<Rightarrow> save_hook" where
  "flush_begin s = (if oq_size (sv_queue s) = 0 \<or> sv_syncing s then s else s\<lparr>sv_syncing := True\<rparr>)"

definition flushOfflineQueue :: "save_env \<Rightarrow> (string \<Rightarrow> download) \<Rightarrow> (upload \<Rightarrow> bool) \<Rightarrow> int \<Rightarrow> int \<Rightarrow> save_hook
    \<Rightarrow> save_hook" where
  "flushOfflineQueue env dl ul now later s = (if \<not> sv_syncing s then s
     else (let (synced, q, s1) = flush (en_quota env) (replayOperation env dl ul) now later s (sv_queue s);
               s2 = s1\<lparr>sv_queue := q\<rparr>;
               s3 = (if synced > 0 then mark_clean later s2 else s2)
       in refreshQueueSize (s3\<lparr>sv_syncing := False\<rparr>)))"

section \<open>The public operations\<close>

definition clear_debounce :: "save_hook \<Rightarrow> save_hook" where
  "clear_debounce s = s\<lparr>sv_timer := False\<rparr>"

definition save_now :: "save_env \<Rightarrow> uuid \<times> int \<Rightarrow> save_hook \<Rightarrow> bool option \<times> save_hook" where
  "save_now env st s = performSave env st (sv_name s) None False (clear_debounce s)"

definition saveAs :: "save_env \<Rightarrow> uuid \<times> int \<Rightarrow> string \<Rightarrow> string option \<Rightarrow> save_hook \<Rightarrow> bool option \<times> save_hook" where
  "saveAs env st name fld s = performSave env st name fld True (clear_debounce s)"

datatype save_priority = Immediate | Debounced | Auto

definition saveWithPriority :: "save_env \<Rightarrow> uuid \<times> int \<Rightarrow> save_priority \<Rightarrow> save_hook \<Rightarrow> save_hook" where
  "saveWithPriority env st pr s = (let s1 = s\<lparr>sv_pending := sv_pending s + 1\<rparr> in
     case pr of
       Immediate \<Rightarrow> snd (save_now env st s1)
     | Debounced \<Rightarrow> s1\<lparr>sv_timer := True\<rparr>
     | Auto \<Rightarrow> s1)"

text \<open>A page operation or a paragraph bake produced a new file (\<open>adoptModifiedPdf\<close>; the re-parse is left out).\<close>

definition adoptModifiedPdf :: "save_env \<Rightarrow> uuid \<times> int \<Rightarrow> blob \<Rightarrow> save_hook \<Rightarrow> save_hook" where
  "adoptModifiedPdf env st b s = (case ed_pdf s of
       None \<Rightarrow> s
     | Some _ \<Rightarrow> saveWithPriority env st Immediate (s\<lparr>ed_pdf := Some b, sv_dirty := True\<rparr>))"

definition debounce_fires :: "save_env \<Rightarrow> uuid \<times> int \<Rightarrow> save_hook \<Rightarrow> save_hook" where
  "debounce_fires env st s = (if sv_timer s then (snd (save_now env st s))\<lparr>sv_timer := False\<rparr> else s)"

definition auto_save_tick :: "save_env \<Rightarrow> uuid \<times> int \<Rightarrow> save_hook \<Rightarrow> save_hook" where
  "auto_save_tick env st s =
     (if sv_documentId s \<noteq> None \<and> sv_documentId s \<noteq> Some [] \<and> sv_dirty s \<and> \<not> sv_saving s \<and> \<not> sv_timer s
      then snd (save_now env st s) else s)"

definition warns_before_unload :: "save_hook \<Rightarrow> bool" where
  "warns_before_unload s \<longleftrightarrow> (sv_dirty s \<or> sv_pending s > 0) \<or> sv_queueSize s > 0"

text \<open>An edit of the page: it queues an operation or a modification, and the document is dirty.\<close>

definition edited :: "op_queue \<Rightarrow> content_mod list \<Rightarrow> save_hook \<Rightarrow> save_hook" where
  "edited ops ms s = s\<lparr>ed_ops := ops, ed_mods := ms, sv_dirty := True\<rparr>"

section \<open>Events\<close>

datatype save_event =
    Edit op_queue "content_mod list" | File_loaded blob | Adopt "uuid \<times> int" blob
  | Save_clicked "uuid \<times> int" | Save_as_clicked "uuid \<times> int" string "string option"
  | Prioritised "uuid \<times> int" save_priority | Timer_fires "uuid \<times> int" | Tick "uuid \<times> int"
  | Cancelled | Bake_answered nat bool | Download_answered "uuid \<times> int" nat download
  | Upload_answered "uuid \<times> int" nat "save_error option" | Session_answered nat bool
  | Went_offline | Came_online | Flush_runs "string \<Rightarrow> download" "upload \<Rightarrow> bool" int int

fun hook_step :: "save_env \<Rightarrow> save_event \<Rightarrow> save_hook \<Rightarrow> save_hook" where
  "hook_step env (Edit ops ms) s = edited ops ms s"
| "hook_step env (File_loaded b) s = s\<lparr>ed_pdf := Some b\<rparr>"
| "hook_step env (Adopt st b) s = adoptModifiedPdf env st b s"
| "hook_step env (Save_clicked st) s = snd (save_now env st s)"
| "hook_step env (Save_as_clicked st n f) s = snd (saveAs env st n f s)"
| "hook_step env (Prioritised st pr) s = saveWithPriority env st pr s"
| "hook_step env (Timer_fires st) s = debounce_fires env st s"
| "hook_step env (Tick st) s = auto_save_tick env st s"
| "hook_step env Cancelled s = clear_debounce s"
| "hook_step env (Bake_answered j ok) s = bake_answer env j ok s"
| "hook_step env (Download_answered st j r) s = download_answer env st j r s"
| "hook_step env (Upload_answered st j r) s = upload_answer env st j r s"
| "hook_step env (Session_answered k ok) s = session_answer k ok s"
| "hook_step env Went_offline s = s\<lparr>sv_offline := True\<rparr>"
| "hook_step env Came_online s = flush_begin (s\<lparr>sv_offline := False\<rparr>)"
| "hook_step env (Flush_runs dl ul now later) s = flushOfflineQueue env dl ul now later s"

definition hook_run :: "save_env \<Rightarrow> save_event list \<Rightarrow> save_hook \<Rightarrow> save_hook" where
  "hook_run env evs s = fold (hook_step env) evs s"

lemma hook_run_simps [simp]:
  "hook_run env [] s = s"
  "hook_run env (e # evs) s = hook_run env evs (hook_step env e s)"
  "hook_run env (xs @ ys) s = hook_run env ys (hook_run env xs s)"
  by (simp_all add: hook_run_def)

text \<open>A hook just mounted.\<close>

definition new_hook :: "string option \<Rightarrow> string option \<Rightarrow> string \<Rightarrow> string option \<Rightarrow> string list \<Rightarrow> bool \<Rightarrow> offline_queue
    \<Rightarrow> save_hook" where
  "new_hook d sid name fld tags offline q = \<lparr>sv_documentId = d, sv_storedId = sid, sv_name = name,
     sv_folderId = fld, sv_tags = tags, sv_dirty = False, sv_saving = False, sv_error = None,
     sv_lastSaved = None, sv_pending = 0, sv_offline = offline, sv_syncing = False,
     sv_queueSize = oq_size q, sv_timer = False, sv_jobs = [], sv_queue = q, ed_pdf = None, ed_ops = [],
     ed_mods = [], ed_flushIds = [], ed_flushing = [], sv_uploads = []\<rparr>"

section \<open>One save at a time\<close>

definition save_inv :: "save_hook \<Rightarrow> bool" where
  "save_inv s \<longleftrightarrow> length (sv_jobs s) \<le> 1 \<and> (sv_saving s \<longleftrightarrow> sv_jobs s \<noteq> [])"

lemma save_inv_update [simp]:
  "save_inv (s\<lparr>sv_timer := b\<rparr>) = save_inv s" "save_inv (s\<lparr>sv_offline := b\<rparr>) = save_inv s"
  "save_inv (s\<lparr>sv_syncing := b\<rparr>) = save_inv s" "save_inv (s\<lparr>ed_pdf := pdf\<rparr>) = save_inv s"
  "save_inv (s\<lparr>ed_ops := ops\<rparr>) = save_inv s" "save_inv (s\<lparr>ed_mods := ms\<rparr>) = save_inv s"
  "save_inv (s\<lparr>sv_dirty := b\<rparr>) = save_inv s" "save_inv (s\<lparr>ed_flushing := f\<rparr>) = save_inv s"
  "save_inv (s\<lparr>ed_flushIds := is\<rparr>) = save_inv s" "save_inv (s\<lparr>sv_pending := n\<rparr>) = save_inv s"
  by (simp_all add: save_inv_def)

lemma enqueue_save_fields [simp]:
  "sv_jobs (enqueue_save env st p s) = sv_jobs s"
  "sv_saving (enqueue_save env st p s) = sv_saving s"
  "sv_uploads (enqueue_save env st p s) = sv_uploads s"
  "ed_pdf (enqueue_save env st p s) = ed_pdf s"
  "ed_ops (enqueue_save env st p s) = ed_ops s"
  "ed_mods (enqueue_save env st p s) = ed_mods s"
  "sv_documentId (enqueue_save env st p s) = sv_documentId s"
  "sv_storedId (enqueue_save env st p s) = sv_storedId s"
  "sv_dirty (enqueue_save env st p s) = sv_dirty s"
  "sv_timer (enqueue_save env st p s) = sv_timer s"
  "sv_offline (enqueue_save env st p s) = sv_offline s"
  "sv_syncing (enqueue_save env st p s) = sv_syncing s"
  "ed_flushIds (enqueue_save env st p s) = ed_flushIds s"
  "ed_flushing (enqueue_save env st p s) = ed_flushing s"
  "sv_pending (enqueue_save env st p s) = sv_pending s"
  "sv_error (enqueue_save env st p s) = sv_error s"
  by (simp_all add: enqueue_save_def refreshQueueSize_def)

lemma save_inv_perform: "save_inv s \<Longrightarrow> save_inv (snd (performSave env st n f force s))"
  by (auto simp: performSave_def save_inv_def Let_def split: option.split)

lemma save_inv_now: "save_inv s \<Longrightarrow> save_inv (snd (save_now env st s))"
  by (simp add: save_now_def clear_debounce_def save_inv_perform)

lemma save_inv_priority: "save_inv s \<Longrightarrow> save_inv (saveWithPriority env st pr s)"
  by (simp add: saveWithPriority_def Let_def save_inv_now split: save_priority.split)

lemma save_inv_stage: "save_inv s \<Longrightarrow> save_inv (set_stage j st s)"
  by (simp add: save_inv_def set_stage_def)

lemma save_inv_finish:
  assumes "j < length (sv_jobs s)" "save_inv s"
  shows "save_inv (finish_job j s)"
proof -
  have "length (sv_jobs s) = 1" "j = 0" using assms by (auto simp: save_inv_def)
  then show ?thesis by (simp add: save_inv_def finish_job_def)
qed

lemma onSaved_fields [simp]:
  "sv_jobs (onSaved s) = sv_jobs s" "sv_saving (onSaved s) = sv_saving s"
  "sv_uploads (onSaved s) = sv_uploads s" "ed_pdf (onSaved s) = ed_pdf s"
  "ed_ops (onSaved s) = ed_ops s" "ed_mods (onSaved s) = ed_mods s"
  "sv_dirty (onSaved s) = sv_dirty s" "sv_pending (onSaved s) = sv_pending s"
  "sv_queue (onSaved s) = sv_queue s" "sv_queueSize (onSaved s) = sv_queueSize s"
  "sv_documentId (onSaved s) = sv_documentId s" "sv_syncing (onSaved s) = sv_syncing s"
  "sv_offline (onSaved s) = sv_offline s" "sv_timer (onSaved s) = sv_timer s"
  "sv_error (onSaved s) = sv_error s"
  by (simp_all add: onSaved_def)

lemma replayOperation_fields [simp]:
  "sv_jobs (snd (replayOperation env dl ul op s)) = sv_jobs s"
  "sv_saving (snd (replayOperation env dl ul op s)) = sv_saving s"
  by (simp_all add: replayOperation_def Let_def split: sum.split upload.split)

lemma flush_from_keeps:
  assumes "\<And>op s. f (snd (h op s)) = f s"
  shows "f (snd (snd (flush_from quota h now later s q n))) = f s"
  using assms
proof (induction quota h now later s q n rule: flush_from.induct)
  case (1 quota h now later s q n)
  show ?case
  proof (cases "oq_peek q")
    case None
    then show ?thesis by (subst flush_from.simps) simp
  next
    case (Some op)
    obtain b s1 where h: "h op s = (b, s1)" by fastforce
    then have "f s1 = f s" using 1(3)[of op s] by simp
    then show ?thesis
      using Some h 1(1)[OF Some _ 1(3)] 1(2)[OF Some _ h[symmetric] _ 1(3)]
      by (subst flush_from.simps) (cases b; auto)
  qed
qed

lemma flush_keeps:
  assumes "\<And>op s. f (snd (h op s)) = f s"
  shows "f (snd (snd (flush quota h now later s q))) = f s"
  using flush_from_keeps[where f = f and h = h, OF assms] by (simp add: flush_def)

lemma save_inv_flush: "save_inv s \<Longrightarrow> save_inv (flushOfflineQueue env dl ul now later s)"
  using flush_keeps[of sv_jobs "replayOperation env dl ul" "en_quota env" now later s "sv_queue s"]
    flush_keeps[of sv_saving "replayOperation env dl ul" "en_quota env" now later s "sv_queue s"]
  by (auto simp: flushOfflineQueue_def save_inv_def mark_clean_def refreshQueueSize_def Let_def
      split: prod.splits)

lemma save_inv_failed:
  assumes "j < length (sv_jobs s)" "save_inv s"
  shows "save_inv (save_failed env st j e s)"
  unfolding save_failed_def by (rule save_inv_finish) (use assms in \<open>simp_all add: save_inv_def\<close>)

lemma mark_clean_fields [simp]:
  "sv_jobs (mark_clean now s) = sv_jobs s" "sv_saving (mark_clean now s) = sv_saving s"
  "sv_uploads (mark_clean now s) = sv_uploads s" "ed_pdf (mark_clean now s) = ed_pdf s"
  "ed_ops (mark_clean now s) = ed_ops s" "ed_mods (mark_clean now s) = ed_mods s"
  "sv_dirty (mark_clean now s) = False" "sv_pending (mark_clean now s) = 0"
  "sv_queue (mark_clean now s) = sv_queue s" "sv_queueSize (mark_clean now s) = sv_queueSize s"
  "sv_documentId (mark_clean now s) = sv_documentId s"
  "ed_flushIds (mark_clean now s) = ed_flushIds s" "ed_flushing (mark_clean now s) = ed_flushing s"
  by (simp_all add: mark_clean_def)

lemma save_inv_upload: "save_inv s \<Longrightarrow> save_inv (upload_answer env st j r s)"
proof (cases "j < length (sv_jobs s)")
  case True
  moreover assume "save_inv s"
  moreover have "save_inv t \<Longrightarrow> sv_jobs t = sv_jobs s \<Longrightarrow> save_inv (finish_job j t)" for t
    using save_inv_finish[of j t] True by simp
  moreover have "save_inv (onSaved (mark_clean n (s\<lparr>sv_uploads := us\<rparr>)))" for n us
    using \<open>save_inv s\<close> by (simp add: save_inv_def)
  ultimately show ?thesis
    by (simp add: upload_answer_def save_inv_failed split: save_stage.split option.split)
qed (simp add: upload_answer_def)

lemma save_inv_step: "save_inv s \<Longrightarrow> save_inv (hook_step env e s)"
proof (cases e)
  case (Bake_answered j ok)
  then show "save_inv s \<Longrightarrow> ?thesis"
    by (auto simp: bake_answer_def bake_done_def Let_def save_inv_def set_stage_def split: save_stage.split)
next
  case (Download_answered st j r)
  then show "save_inv s \<Longrightarrow> ?thesis"
    by (auto simp: download_answer_def save_inv_stage save_inv_failed split: sum.split)
next
  case (Adopt st b)
  then show "save_inv s \<Longrightarrow> ?thesis"
    by (auto simp: adoptModifiedPdf_def save_inv_priority split: option.split)
next
  case (Save_as_clicked st n f)
  then show "save_inv s \<Longrightarrow> ?thesis"
    by (simp add: saveAs_def clear_debounce_def save_inv_perform)
next
  case (Timer_fires st)
  then show "save_inv s \<Longrightarrow> ?thesis"
    by (auto simp: debounce_fires_def save_inv_now)
qed (auto simp: save_inv_now save_inv_priority save_inv_flush save_inv_upload edited_def auto_save_tick_def
    clear_debounce_def session_answer_def flush_begin_def)

lemma save_inv_run: "save_inv s \<Longrightarrow> save_inv (hook_run env evs s)"
  by (induction evs arbitrary: s) (simp_all add: save_inv_step)

text \<open>C20: whatever the user, the timers, the network and the server do and in whatever order, at most
  one save waits for an answer at any moment, and the flag that guards against a second one is up
  exactly while a save waits: it is never left up, which would end all saving.\<close>

theorem one_save_at_a_time:
  "let s = hook_run env evs (new_hook d sid name fld tags offline q)
   in length (sv_jobs s) \<le> 1 \<and> (sv_saving s \<longleftrightarrow> sv_jobs s \<noteq> [])"
  using save_inv_run[of "new_hook d sid name fld tags offline q" env evs]
  by (simp add: save_inv_def new_hook_def Let_def)

section \<open>A save from click to upload\<close>

text \<open>Idle and online, with the file loaded and something to bake.\<close>

definition ready_to_save :: "string \<Rightarrow> blob \<Rightarrow> save_hook \<Rightarrow> bool" where
  "ready_to_save d pdf s \<longleftrightarrow> sv_documentId s = Some d \<and> d \<noteq> [] \<and> \<not> sv_offline s \<and> \<not> sv_saving s
     \<and> sv_jobs s = [] \<and> ed_pdf s = Some pdf \<and> (ed_ops s \<noteq> [] \<or> ed_mods s \<noteq> [])"

definition to_save :: "save_hook \<Rightarrow> save_payload" where
  "to_save s = save_payload_of s (case sv_documentId s of None \<Rightarrow> [] | Some d \<Rightarrow> d) (sv_name s) None False"

definition baked_ids :: "op_queue \<Rightarrow> uuid list" where
  "baked_ids ops = filter (\<lambda>i. i \<noteq> []) (map (\<lambda>op. op_element_id (eo_element op)) ops)"

text \<open>What a save reads and what an upload changes; the error, the clock and the offline queue are left out.\<close>

definition save_view :: "save_hook \<Rightarrow> save_payload \<times> string option \<times> bool \<times> bool \<times> bool \<times>
    (save_payload \<times> save_stage) list \<times> blob option \<times> op_queue \<times> content_mod list \<times> uuid list \<times> uuid list list \<times> upload list" where
  "save_view s = (to_save s, sv_documentId s, sv_offline s, sv_saving s, sv_dirty s, sv_jobs s, ed_pdf s, ed_ops s,
     ed_mods s, ed_flushIds s, ed_flushing s, sv_uploads s)"

lemmas save_defs = save_now_def performSave_def clear_debounce_def getPreparedBlob_def stage_of_def peek_def
  bake_answer_def bake_done_def set_stage_def upload_answer_def save_failed_def finish_job_def Let_def

lemma enqueue_save_to_save [simp]: "to_save (enqueue_save env st p s) = to_save s"
  by (simp add: to_save_def save_payload_of_def enqueue_save_def refreshQueueSize_def)

lemma save_started:
  assumes "ready_to_save d pdf s"
  shows "hook_step env (Save_clicked st) s = s\<lparr>sv_timer := False, sv_saving := True, sv_error := None,
     sv_jobs := [(to_save s, Baking pdf (ed_ops s) (ed_mods s))]\<rparr>"
  using assms by (auto simp: ready_to_save_def save_defs to_save_def save_payload_of_def)

lemma bake_then_answer:
  assumes "sv_jobs s = [(p, Baking pdf ops ms)]"
  shows "sv_jobs (hook_step env (Bake_answered 0 True) s) = [(p, Uploading (en_bake env pdf ops ms))]"
    "save_view (hook_step env (Upload_answered st 0 (Some e)) (hook_step env (Bake_answered 0 True) s)) =
      (to_save s, sv_documentId s, sv_offline s, False, sv_dirty s, [], Some (en_bake env pdf ops ms), [], [],
       ed_flushIds s @ baked_ids ops, ed_flushing s, sv_uploads s)"
    "sv_queue (hook_step env (Upload_answered st 0 (Some e)) (hook_step env (Bake_answered 0 True) s)) =
      enqueue (en_quota env) (fst st) (snd st) Save_document (en_clone env p) (sv_queue s)"
    "sv_syncing (hook_step env (Upload_answered st 0 (Some e)) (hook_step env (Bake_answered 0 True) s)) = sv_syncing s"
  using assms
  by (simp_all add: save_defs drain_def baked_ids_def save_view_def enqueue_save_def refreshQueueSize_def
      to_save_def save_payload_of_def)

text \<open>The state after a successful upload of the only job.\<close>

lemma upload_done:
  assumes "sv_jobs s = [(p, Uploading b)]" "sv_documentId s = Some d" "d \<noteq> []"
  shows "save_view (hook_step env (Upload_answered st 0 None) s) =
      (to_save s, Some d, sv_offline s, False, False, [], ed_pdf s, ed_ops s, ed_mods s, [],
       ed_flushing s @ (if ed_flushIds s = [] then [] else [ed_flushIds s]),
       sv_uploads s @ [upload_of p UPDATE_COMMENT b])"
    "sv_pending (hook_step env (Upload_answered st 0 None) s) = 0"
    "sv_error (hook_step env (Upload_answered st 0 None) s) = sv_error s"
    "sv_queueSize (hook_step env (Upload_answered st 0 None) s) = sv_queueSize s"
  using assms
  by (auto simp: save_defs onSaved_def mark_clean_def save_view_def to_save_def save_payload_of_def)

text \<open>C19: A save that nothing interrupts uploads the local file with all queued edits baked in, as a new
  version of the stored document (or as a new document when it has not been stored), keeps that file
  as the local one, empties the queue, leaves the document clean without an error, and only then
  asks the session to delete exactly the elements it has baked (with those left from earlier saves).\<close>

theorem uninterrupted_save:
  assumes "ready_to_save d pdf s"
  shows "let baked = en_bake env pdf (ed_ops s) (ed_mods s);
       ids = ed_flushIds s @ baked_ids (ed_ops s);
       s' = hook_run env [Save_clicked st, Bake_answered 0 True, Upload_answered st' 0 None] s
     in sv_uploads s' = sv_uploads s @ [upload_of (to_save s) UPDATE_COMMENT baked]
      \<and> ed_pdf s' = Some baked \<and> ed_ops s' = [] \<and> ed_mods s' = []
      \<and> \<not> sv_dirty s' \<and> sv_pending s' = 0 \<and> \<not> sv_saving s' \<and> sv_jobs s' = [] \<and> sv_error s' = None
      \<and> ed_flushing s' = ed_flushing s @ (if ids = [] then [] else [ids]) \<and> ed_flushIds s' = []"
proof -
  let ?baked = "en_bake env pdf (ed_ops s) (ed_mods s)"
  let ?s2 = "hook_step env (Bake_answered 0 True) (hook_step env (Save_clicked st) s)"
  have d: "sv_documentId ?s2 = Some d" "d \<noteq> []" and j: "sv_jobs ?s2 = [(to_save s, Uploading ?baked)]"
    and f: "ed_pdf ?s2 = Some ?baked" "ed_ops ?s2 = []" "ed_mods ?s2 = []"
      "ed_flushIds ?s2 = ed_flushIds s @ baked_ids (ed_ops s)"
      "ed_flushing ?s2 = ed_flushing s" "sv_uploads ?s2 = sv_uploads s" "sv_error ?s2 = None"
    unfolding save_started[OF assms] using assms
    by (simp_all add: save_defs drain_def baked_ids_def ready_to_save_def)
  show ?thesis
    using upload_done[OF j d, of env st'] f by (simp add: save_view_def Let_def)
qed

section \<open>Edits while the bake runs\<close>

text \<open>What the user and the timers can do at any time.\<close>

fun local_event :: "save_event \<Rightarrow> bool" where
  "local_event (Edit ops ms) = True"
| "local_event (Adopt st b) = True"
| "local_event (Prioritised st pr) = True"
| "local_event (Save_clicked st) = True"
| "local_event (Timer_fires st) = True"
| "local_event (Tick st) = True"
| "local_event Cancelled = True"
| "local_event e = False"

definition job_view :: "save_hook \<Rightarrow> (save_payload \<times> save_stage) list \<times> bool \<times> string option \<times> nat \<times> upload list" where
  "job_view s = (sv_jobs s, sv_saving s, sv_documentId s, sv_queueSize s, sv_uploads s)"

lemma job_view_update [simp]:
  "job_view (s\<lparr>sv_timer := b\<rparr>) = job_view s" "job_view (s\<lparr>sv_dirty := b\<rparr>) = job_view s"
  "job_view (s\<lparr>ed_pdf := pdf\<rparr>) = job_view s" "job_view (s\<lparr>ed_ops := ops\<rparr>) = job_view s"
  "job_view (s\<lparr>ed_mods := ms\<rparr>) = job_view s" "job_view (s\<lparr>sv_pending := n\<rparr>) = job_view s"
  by (simp_all add: job_view_def)

lemma save_refused: "sv_saving s \<Longrightarrow> job_view (snd (performSave env st n f force s)) = job_view s"
  by (simp add: performSave_def split: option.split)

lemma now_refused: "sv_saving s \<Longrightarrow> job_view (snd (save_now env st s)) = job_view s"
  by (simp add: save_now_def clear_debounce_def save_refused)

lemma priority_refused: "sv_saving s \<Longrightarrow> job_view (saveWithPriority env st pr s) = job_view s"
  by (simp add: saveWithPriority_def Let_def now_refused split: save_priority.split)

lemma local_step: "local_event e \<Longrightarrow> sv_saving s \<Longrightarrow> job_view (hook_step env e s) = job_view s"
  by (cases e) (auto simp: now_refused priority_refused auto_save_tick_def edited_def clear_debounce_def
      adoptModifiedPdf_def debounce_fires_def split: option.split)

lemma local_run: "list_all local_event evs \<Longrightarrow> sv_saving s \<Longrightarrow> job_view (hook_run env evs s) = job_view s"
proof (induction evs arbitrary: s)
  case (Cons e evs)
  have *: "job_view (hook_step env e s) = job_view s" using local_step Cons.prems by simp
  then have "sv_saving (hook_step env e s)" using Cons.prems(2) by (simp add: job_view_def)
  then show ?case using Cons.IH Cons.prems(1) * by simp
qed simp

text \<open>What the user does while the bake of a save runs is lost: whatever is edited, and whatever page
  operations are adopted, between the click and the answer of the bake, after the save the queues
  are empty, the local file and the uploaded one hold only what was queued at the click, and the
  document counts as clean, so that neither the timers nor the warning before unload bring it back.
  (\<open>getPreparedBlob\<close> drains the whole queue and replaces the file, although its comment says that what
  is queued after the peek stays for the next save.)\<close>

lemma edits_during_bake_lost:
  assumes "ready_to_save d pdf s" and "list_all local_event evs" and "sv_queueSize s = 0"
  shows "let baked = en_bake env pdf (ed_ops s) (ed_mods s);
       s' = hook_run env ((Save_clicked st # evs) @ [Bake_answered 0 True, Upload_answered st' 0 None]) s
     in ed_ops s' = [] \<and> ed_mods s' = [] \<and> ed_pdf s' = Some baked
      \<and> sv_uploads s' = sv_uploads s @ [upload_of (to_save s) UPDATE_COMMENT baked]
      \<and> \<not> sv_dirty s' \<and> \<not> warns_before_unload s'"
proof -
  let ?baked = "en_bake env pdf (ed_ops s) (ed_mods s)"
  let ?s1 = "hook_step env (Save_clicked st) s"
  let ?s2 = "hook_run env evs ?s1"
  let ?s3 = "hook_step env (Bake_answered 0 True) ?s2"
  have "job_view ?s2 = job_view ?s1"
    by (rule local_run[OF assms(2)]) (simp add: save_started[OF assms(1)] del: hook_step.simps)
  then have 2: "sv_jobs ?s2 = [(to_save s, Baking pdf (ed_ops s) (ed_mods s))]" "sv_documentId ?s2 = Some d"
    "sv_queueSize ?s2 = 0" "sv_uploads ?s2 = sv_uploads s"
    using assms(1,3) by (simp_all add: save_started[OF assms(1)] job_view_def ready_to_save_def del: hook_step.simps)
  then have j: "sv_jobs ?s3 = [(to_save s, Uploading ?baked)]"
    and f: "sv_documentId ?s3 = Some d" "sv_queueSize ?s3 = 0" "sv_uploads ?s3 = sv_uploads s"
      "ed_pdf ?s3 = Some ?baked" "ed_ops ?s3 = []" "ed_mods ?s3 = []"
    by (simp_all add: save_defs drain_def)
  have "d \<noteq> []" using assms(1) by (simp add: ready_to_save_def)
  note u = upload_done[OF j f(1) this, of env st']
  show ?thesis
    using u f by (simp add: save_view_def Let_def warns_before_unload_def)
qed

section \<open>Uploads that fail\<close>

definition failing_saves :: "((uuid \<times> int) \<times> (uuid \<times> int) \<times> save_error) list \<Rightarrow> save_event list" where
  "failing_saves fs = concat (map (\<lambda>(st, st', e). [Save_clicked st, Upload_answered st' 0 (Some e)]) fs)"

lemma save_with_nothing_to_bake:
  assumes "save_view s = (p, Some d, False, False, dirty, [], Some b, [], [], ids, fl, us)" "d \<noteq> []"
  shows "hook_step env (Save_clicked st) s =
    s\<lparr>sv_timer := False, sv_saving := True, sv_error := None, sv_jobs := [(p, Uploading b)]\<rparr>"
  using assms by (auto simp: save_view_def save_defs to_save_def save_payload_of_def)

lemma failing_save_step:
  assumes "save_view s = (p, Some d, False, False, dirty, [], Some b, [], [], ids, fl, us)" "d \<noteq> []"
  shows "save_view (hook_run env [Save_clicked st, Upload_answered st' 0 (Some e)] s) = save_view s"
proof -
  let ?s1 = "s\<lparr>sv_timer := False, sv_saving := True, sv_error := None, sv_jobs := [(p, Uploading b)]\<rparr>"
  have "hook_run env [Save_clicked st, Upload_answered st' 0 (Some e)] s = hook_step env (Upload_answered st' 0 (Some e)) ?s1"
    using save_with_nothing_to_bake[OF assms] by (simp del: hook_step.simps)
  also have "save_view \<dots> = save_view s"
    using assms by (auto simp: save_view_def save_defs to_save_def save_payload_of_def enqueue_save_def refreshQueueSize_def)
  finally show ?thesis .
qed

lemma failing_saves_run:
  assumes "save_view s = (p, Some d, False, False, dirty, [], Some b, [], [], ids, fl, us)" "d \<noteq> []"
  shows "save_view (hook_run env (failing_saves fs) s) = save_view s"
  using assms
proof (induction fs arbitrary: s)
  case (Cons f fs)
  obtain st st' e where f: "f = (st, st', e)" by (cases f) auto
  note step = failing_save_step[OF Cons.prems, of env st st' e]
  then have "save_view (hook_run env (failing_saves fs) (hook_run env [Save_clicked st, Upload_answered st' 0 (Some e)] s))
      = save_view (hook_run env [Save_clicked st, Upload_answered st' 0 (Some e)] s)"
    using Cons.prems by (intro Cons.IH) simp_all
  then show ?case using step by (simp add: failing_saves_def f del: hook_step.simps)
qed (simp add: failing_saves_def)

text \<open>C18: an upload that fails loses nothing: however often the upload of a baked file fails, the edits stay in
  the local file, the document keeps its dirty flag, no element of the session is deleted, and
  the first save that gets through uploads the file with all of them and then deletes them.\<close>

theorem failed_upload_retried:
  assumes "ready_to_save d pdf s"
  shows "let baked = en_bake env pdf (ed_ops s) (ed_mods s);
       ids = ed_flushIds s @ baked_ids (ed_ops s);
       s1 = hook_run env ([Save_clicked st, Bake_answered 0 True, Upload_answered st' 0 (Some e)] @ failing_saves fs) s;
       s2 = hook_run env [Save_clicked st2, Upload_answered st3 0 None] s1
     in sv_uploads s1 = sv_uploads s \<and> ed_pdf s1 = Some baked \<and> sv_dirty s1 = sv_dirty s \<and> \<not> sv_saving s1
      \<and> ed_flushing s1 = ed_flushing s \<and> ed_flushIds s1 = ids
      \<and> sv_uploads s2 = sv_uploads s @ [upload_of (to_save s) UPDATE_COMMENT baked] \<and> \<not> sv_dirty s2
      \<and> ed_flushing s2 = ed_flushing s @ (if ids = [] then [] else [ids])"
proof -
  let ?baked = "en_bake env pdf (ed_ops s) (ed_mods s)"
  let ?s0 = "hook_run env [Save_clicked st, Bake_answered 0 True, Upload_answered st' 0 (Some e)] s"
  define s1 where "s1 = hook_run env (failing_saves fs) ?s0"
  define s2 where "s2 = hook_step env (Save_clicked st2) s1"
  have d: "d \<noteq> []" "sv_documentId s = Some d" using assms by (simp_all add: ready_to_save_def)
  have v0: "save_view ?s0 = (to_save s, Some d, False, False, sv_dirty s, [], Some ?baked, [], [],
      ed_flushIds s @ baked_ids (ed_ops s), ed_flushing s, sv_uploads s)"
    using bake_then_answer(2)[of "hook_step env (Save_clicked st) s"] assms d(2)
    by (simp add: save_started[OF assms] ready_to_save_def to_save_def save_payload_of_def del: hook_step.simps)
  have v1: "save_view s1 = (to_save s, Some d, False, False, sv_dirty s, [], Some ?baked, [], [],
      ed_flushIds s @ baked_ids (ed_ops s), ed_flushing s, sv_uploads s)"
    using failing_saves_run[OF v0 d(1)] v0 by (simp only: s1_def)
  have j: "sv_jobs s2 = [(to_save s, Uploading ?baked)]" "sv_documentId s2 = Some d"
    and f: "sv_uploads s2 = sv_uploads s" "ed_flushIds s2 = ed_flushIds s @ baked_ids (ed_ops s)"
      "ed_flushing s2 = ed_flushing s"
    unfolding s2_def save_with_nothing_to_bake[OF v1 d(1)] using v1 by (simp_all add: save_view_def)
  have 1: "hook_run env ([Save_clicked st, Bake_answered 0 True, Upload_answered st' 0 (Some e)] @ failing_saves fs) s = s1"
    by (simp only: s1_def hook_run_simps)
  have 2: "hook_run env [Save_clicked st2, Upload_answered st3 0 None] s1 = hook_step env (Upload_answered st3 0 None) s2"
    by (simp only: s2_def hook_run_simps)
  show ?thesis
    unfolding 1 Let_def 2 using v1 upload_done(1)[OF j d(1), of env st3] f
    by (simp add: save_view_def del: hook_step.simps)
qed

section \<open>The replay of a failed save\<close>

lemma oq_size_getAll: "oq_size q = length (getAll q)"
  by (simp add: oq_size_def getAll_def cursor_def split: option.split)

lemma enqueue_empty:
  assumes "queue_wf q" "getAll q = []" "0 < quota"
  shows "getAll (enqueue quota i t ty pl q) =
      [\<lparr>pq_id = i, pq_type = ty, pq_payload = pl, pq_timestamp = t, pq_retries = 0\<rparr>]"
    "queue_wf (enqueue quota i t ty pl q)"
proof (induct "oq_db q")
  case None
  { case 1 then show ?case using assms None by (simp add: enqueue_def getAll_def MAX_QUEUE_SIZE_def) }
  { case 2 then show ?case using None[symmetric] by (simp add: enqueue_def queue_wf_def Let_def) }
next
  case (Some db)
  then have d: "oq_db q = Some db" "st_rows db = []" "store_wf db"
    using assms(1,2) by (auto simp: getAll_def cursor_def queue_wf_def split: option.splits)
      (metis length_0_conv length_map length_sort)
  { case 1 then show ?case
      using d assms(3) by (simp add: enqueue_def idbEnqueueWithEviction_def store_add_def getAll_def cursor_def) }
  { case 2 then show ?case
      using d assms(3) by (simp add: enqueue_def idbEnqueueWithEviction_def store_add_def queue_wf_def store_wf_def) }
qed

text \<open>The flush of a queue with one operation, when the server answers and accepts.\<close>

lemma flush_one:
  assumes "queue_wf q" "getAll q = [op]" "\<not> expired now op" "h op s = (True, s1)"
  obtains q' where "flush quota h now later s q = (1, q', s1)" "getAll q' = []"
proof -
  have "replay h now s (getAll q) = ([op], None, [], s1)" using assms(2-4) by simp
  from flush_replay[OF assms(1) this, of quota later 0] show ?thesis
    using that by (auto simp: flush_def)
qed

text \<open>What a save that failed leaves, with the operation in the offline queue.\<close>

lemma failed_save_state:
  fixes st st' :: "uuid \<times> int" and e :: save_error
  assumes "ready_to_save d pdf s" "queue_wf (sv_queue s)" "getAll (sv_queue s) = []" "0 < en_quota env"
  defines "s1 \<equiv> hook_run env [Save_clicked st, Bake_answered 0 True, Upload_answered st' 0 (Some e)] s"
  shows "save_view s1 = (to_save s, Some d, False, False, sv_dirty s, [], Some (en_bake env pdf (ed_ops s) (ed_mods s)), [], [],
      ed_flushIds s @ baked_ids (ed_ops s), ed_flushing s, sv_uploads s)"
    "queue_wf (sv_queue s1)"
    "getAll (sv_queue s1) = [\<lparr>pq_id = fst st', pq_type = Save_document, pq_payload = en_clone env (to_save s),
       pq_timestamp = snd st', pq_retries = 0\<rparr>]"
    "sv_syncing s1 = sv_syncing s"
proof -
  have d: "sv_documentId s = Some d" using assms(1) by (simp add: ready_to_save_def)
  show "save_view s1 = (to_save s, Some d, False, False, sv_dirty s, [], Some (en_bake env pdf (ed_ops s) (ed_mods s)), [], [],
      ed_flushIds s @ baked_ids (ed_ops s), ed_flushing s, sv_uploads s)"
    using bake_then_answer(2)[of "hook_step env (Save_clicked st) s"] assms(1) d
    by (simp add: s1_def save_started[OF assms(1)] ready_to_save_def to_save_def save_payload_of_def del: hook_step.simps)
  have q: "sv_queue s1 = enqueue (en_quota env) (fst st') (snd st') Save_document (en_clone env (to_save s)) (sv_queue s)"
    "sv_syncing s1 = sv_syncing s"
    using bake_then_answer(3,4)[of "hook_step env (Save_clicked st) s"]
    by (simp_all add: s1_def save_started[OF assms(1)] del: hook_step.simps)
  then show "queue_wf (sv_queue s1)"
    "getAll (sv_queue s1) = [\<lparr>pq_id = fst st', pq_type = Save_document, pq_payload = en_clone env (to_save s),
       pq_timestamp = snd st', pq_retries = 0\<rparr>]" "sv_syncing s1 = sv_syncing s"
    using enqueue_empty[OF assms(2-4)] by simp_all
qed

text \<open>When the connection comes back after a failed save, the replay stores the bytes the session
  holds, not the baked ones, and marks the document clean: the edits are then only in the memory of
  the page, the automatic save does nothing any more, no warning appears before unload, and when
  the replay stores a new document the session is told to delete its copy of the edits as well.\<close>

lemma replay_marks_unsaved_clean:
  assumes "ready_to_save d pdf s" and "queue_wf (sv_queue s)" and "getAll (sv_queue s) = []"
    and "0 < en_quota env" and "en_unclone env (en_clone env (to_save s)) = to_save s"
    and "dl d = Response 200 session_bytes" and "\<not> sv_syncing s" and "now - snd st' \<le> OP_MAX_AGE_MS"
    and "baked_ids (ed_ops s) \<noteq> []"
  shows "let s' = hook_run env [Save_clicked st, Bake_answered 0 True, Upload_answered st' 0 (Some e), Went_offline,
         Came_online, Flush_runs dl (\<lambda>u. True) now later] s;
       u = upload_of (to_save s) ''Synchronisation offline'' session_bytes
     in sv_uploads s' = sv_uploads s @ [u]
      \<and> ed_pdf s' = Some (en_bake env pdf (ed_ops s) (ed_mods s))
      \<and> \<not> sv_dirty s' \<and> \<not> warns_before_unload s' \<and> hook_step env (Tick st2) s' = s'
      \<and> ed_flushing s' = ed_flushing s @ (case u of New_version sid b c \<Rightarrow> []
           | New_document b n f t \<Rightarrow> [ed_flushIds s @ baked_ids (ed_ops s)])"
proof -
  let ?u = "upload_of (to_save s) ''Synchronisation offline'' session_bytes"
  define s1 where "s1 = hook_run env [Save_clicked st, Bake_answered 0 True, Upload_answered st' 0 (Some e)] s"
  note f = failed_save_state[OF assms(1-4), where st=st and st'=st' and e=e, folded s1_def]
  define s2 where "s2 = s1\<lparr>sv_offline := False, sv_syncing := True\<rparr>"
  have 2: "hook_run env [Went_offline, Came_online] s1 = s2"
    using f(3,4) assms(7) by (simp add: s2_def flush_begin_def oq_size_getAll)
  let ?op = "\<lparr>pq_id = fst st', pq_type = Save_document, pq_payload = en_clone env (to_save s),
       pq_timestamp = snd st', pq_retries = 0\<rparr>"
  have doc: "spl_documentId (to_save s) = d" "d \<noteq> []"
    using assms(1) by (simp_all add: to_save_def save_payload_of_def ready_to_save_def)
  define s3 where "s3 = (case ?u of New_version sid b c \<Rightarrow> s2\<lparr>sv_uploads := sv_uploads s2 @ [?u]\<rparr>
      | New_document b n f t \<Rightarrow> onSaved (s2\<lparr>sv_uploads := sv_uploads s2 @ [?u]\<rparr>))"
  have h: "replayOperation env dl (\<lambda>u. True) ?op s2 = (True, s3)"
    using assms(5,6) doc(1) by (simp add: replayOperation_def fetchPdfBlobForSave_def s3_def Let_def)
  obtain q' where q': "flush (en_quota env) (replayOperation env dl (\<lambda>u. True)) now later s2 (sv_queue s2) = (1, q', s3)"
    "getAll q' = []"
    using flush_one[where q = "sv_queue s2" and op = ?op and now = now and h = "replayOperation env dl (\<lambda>u. True)"
        and s = s2 and ?s1.0 = s3, OF _ _ _ h] f(2,3) assms(8) by (auto simp: s2_def expired_def)
  have run: "hook_run env [Save_clicked st, Bake_answered 0 True, Upload_answered st' 0 (Some e), Went_offline,
         Came_online, Flush_runs dl (\<lambda>u. True) now later] s = flushOfflineQueue env dl (\<lambda>u. True) now later s2"
    by (simp only: 2[symmetric] s1_def hook_run_simps hook_step.simps)
  have s2: "sv_uploads s2 = sv_uploads s" "ed_pdf s2 = Some (en_bake env pdf (ed_ops s) (ed_mods s))"
    "ed_flushIds s2 = ed_flushIds s @ baked_ids (ed_ops s)" "ed_flushing s2 = ed_flushing s" "sv_documentId s2 = Some d"
    "sv_syncing s2"
    using f(1) by (simp_all add: s2_def save_view_def)
  have end_state: "flushOfflineQueue env dl (\<lambda>u. True) now later s2 =
      refreshQueueSize ((mark_clean later (s3\<lparr>sv_queue := q'\<rparr>))\<lparr>sv_syncing := False\<rparr>)"
    using q'(1) s2(6) by (simp add: flushOfflineQueue_def Let_def)
  have s3: "sv_uploads s3 = sv_uploads s @ [?u]" "ed_pdf s3 = ed_pdf s2"
    "ed_flushing s3 = ed_flushing s @ (case ?u of New_version sid b c \<Rightarrow> []
       | New_document b n f t \<Rightarrow> [ed_flushIds s @ baked_ids (ed_ops s)])"
    using s2 doc(2) assms(9) by (auto simp: s3_def onSaved_def split: upload.split)
  show ?thesis
    unfolding run end_state Let_def using s3 s2 q'(2)
    by (simp add: refreshQueueSize_def warns_before_unload_def oq_size_getAll auto_save_tick_def)
qed

section \<open>Automatic saves without a connection\<close>

lemma enqueue_contents:
  assumes "queue_wf q" "i \<notin> pq_id ` set (getAll q)" "length (getAll q) < quota" "length (getAll q) < MAX_QUEUE_SIZE"
  shows "queue_wf (enqueue quota i t ty pl q)"
    "mset (getAll (enqueue quota i t ty pl q)) = add_mset \<lparr>pq_id = i, pq_type = ty, pq_payload = pl,
       pq_timestamp = t, pq_retries = 0\<rparr> (mset (getAll q))"
proof (induct "oq_db q")
  case None
  { case 1 then show ?case using None[symmetric] by (simp add: enqueue_def queue_wf_def Let_def) }
  { case 2 then show ?case using None[symmetric] assms(4) by (simp add: enqueue_def getAll_def Let_def) }
next
  case (Some db)
  have "set (map snd (st_rows db)) = set (getAll q)" "length (st_rows db) = length (getAll q)" "store_wf db"
    using Some[symmetric] assms(1) by (simp_all add: getAll_def cursor_def queue_wf_def)
  then have "\<not> list_ex (\<lambda>r. pq_id (snd r) = i) (st_rows db)" "length (st_rows db) < quota" "store_wf db"
    using assms(2,3) by (auto simp: list_ex_iff)
  note d = this Some[symmetric]
  { case 1 then show ?case
      using d by (auto simp: enqueue_def idbEnqueueWithEviction_def store_add_def queue_wf_def store_wf_def
          less_Suc_eq) }
  { case 2 then show ?case
      using d by (simp add: enqueue_def idbEnqueueWithEviction_def store_add_def getAll_def cursor_def) }
qed

definition waits_offline :: "string \<Rightarrow> save_hook \<Rightarrow> bool" where
  "waits_offline d s \<longleftrightarrow> sv_documentId s = Some d \<and> d \<noteq> [] \<and> sv_offline s \<and> \<not> sv_saving s \<and> sv_dirty s \<and> \<not> sv_timer s"

lemma tick_offline:
  assumes "waits_offline d s"
  shows "hook_step env (Tick st) s = enqueue_save env st (to_save s) s"
proof -
  have clear: "clear_debounce s = s" using assms by (simp add: clear_debounce_def waits_offline_def)
  show ?thesis
    using assms by (auto simp: waits_offline_def auto_save_tick_def save_now_def clear performSave_def
        to_save_def Let_def)
qed

lemma waits_offline_enqueue: "waits_offline d s \<Longrightarrow> waits_offline d (enqueue_save env st p s)"
  by (simp add: waits_offline_def)

lemma ticks_offline:
  assumes "waits_offline d s" "queue_wf (sv_queue s)" "distinct (map fst sts)"
    "list_all (\<lambda>st. fst st \<notin> pq_id ` set (getAll (sv_queue s))) sts"
    "length (getAll (sv_queue s)) + length sts \<le> en_quota env"
    "length (getAll (sv_queue s)) + length sts \<le> MAX_QUEUE_SIZE"
  shows "waits_offline d (hook_run env (map Tick sts) s) \<and> queue_wf (sv_queue (hook_run env (map Tick sts) s))
    \<and> to_save (hook_run env (map Tick sts) s) = to_save s
    \<and> sv_uploads (hook_run env (map Tick sts) s) = sv_uploads s
    \<and> sv_syncing (hook_run env (map Tick sts) s) = sv_syncing s
    \<and> mset (getAll (sv_queue (hook_run env (map Tick sts) s))) = mset (getAll (sv_queue s)) +
        mset (map (\<lambda>st. \<lparr>pq_id = fst st, pq_type = Save_document, pq_payload = en_clone env (to_save s),
          pq_timestamp = snd st, pq_retries = 0\<rparr>) sts)"
  using assms
proof (induction sts arbitrary: s)
  case (Cons st sts)
  define s1 where "s1 = enqueue_save env st (to_save s) s"
  have q: "sv_queue s1 = enqueue (en_quota env) (fst st) (snd st) Save_document (en_clone env (to_save s)) (sv_queue s)"
    by (simp add: s1_def enqueue_save_def refreshQueueSize_def)
  have fresh: "fst st \<notin> pq_id ` set (getAll (sv_queue s))" using Cons.prems(4) by simp
  note e = enqueue_contents[OF Cons.prems(2) fresh, of "en_quota env", folded q]
  have m: "queue_wf (sv_queue s1)" "mset (getAll (sv_queue s1)) = add_mset \<lparr>pq_id = fst st, pq_type = Save_document,
      pq_payload = en_clone env (to_save s), pq_timestamp = snd st, pq_retries = 0\<rparr> (mset (getAll (sv_queue s)))"
    using e[of "snd st" Save_document "en_clone env (to_save s)", folded q] Cons.prems(5,6) by simp_all
  then have len: "length (getAll (sv_queue s1)) = Suc (length (getAll (sv_queue s)))"
    by (metis size_add_mset size_mset)
  have ids: "pq_id ` set (getAll (sv_queue s1)) = insert (fst st) (pq_id ` set (getAll (sv_queue s)))"
    using arg_cong[OF m(2), of "\<lambda>m. pq_id ` set_mset m"] by simp
  have "to_save s1 = to_save s" "waits_offline d s1" "sv_uploads s1 = sv_uploads s" "sv_syncing s1 = sv_syncing s"
    using Cons.prems(1) by (simp_all add: s1_def waits_offline_enqueue)
  moreover have "list_all (\<lambda>st. fst st \<notin> pq_id ` set (getAll (sv_queue s1))) sts"
    using Cons.prems(3,4) unfolding ids by (simp add: list_all_iff) (metis image_eqI)
  ultimately show ?case
    using Cons.IH[of s1] Cons.prems(3,5,6) m len
    by (simp add: tick_offline[OF Cons.prems(1)] s1_def[symmetric] del: hook_step.simps)
qed simp

lemma replay_copies:
  assumes "list_all (\<lambda>op. pq_type op = Save_document \<and> pq_payload op = en_clone env p \<and> \<not> expired now op) ops"
    "en_unclone env (en_clone env p) = p" "dl (spl_documentId p) = Response 200 b"
  shows "\<exists>s2. replay (replayOperation env dl (\<lambda>u. True)) now s ops = (ops, None, [], s2)
     \<and> sv_uploads s2 = sv_uploads s @ replicate (length ops) (upload_of p ''Synchronisation offline'' b)"
  using assms(1)
proof (induction ops arbitrary: s)
  case (Cons op ops)
  obtain s1 where s1: "replayOperation env dl (\<lambda>u. True) op s = (True, s1)"
    "sv_uploads s1 = sv_uploads s @ [upload_of p ''Synchronisation offline'' b]"
    using Cons.prems assms(2,3) by (simp add: replayOperation_def fetchPdfBlobForSave_def Let_def split: upload.split)
  have "\<not> expired now op" using Cons.prems by simp
  moreover obtain s2 where "replay (replayOperation env dl (\<lambda>u. True)) now s1 ops = (ops, None, [], s2)"
    "sv_uploads s2 = sv_uploads s1 @ replicate (length ops) (upload_of p ''Synchronisation offline'' b)"
    using Cons.IH[of s1] Cons.prems by auto
  ultimately show ?case using s1 by simp
qed simp

text \<open>Without a connection every tick of the automatic save queues the same document again, and the
  replay uploads each of them: a dirty document that has not been stored yet is stored as many times as the
  timer ticked while the browser was offline, each copy with the bytes of the session.\<close>

lemma offline_ticks_store_copies:
  assumes "waits_offline d s" and "sv_storedId s = None" and "queue_wf (sv_queue s)" and "getAll (sv_queue s) = []"
    and "distinct (map fst sts)" and "length sts \<le> min (en_quota env) MAX_QUEUE_SIZE" and "\<not> sv_syncing s"
    and "sts \<noteq> []" and "list_all (\<lambda>st. now - snd st \<le> OP_MAX_AGE_MS) sts"
    and "en_unclone env (en_clone env (to_save s)) = to_save s" and "dl d = Response 200 session_bytes"
  shows "sv_uploads (hook_run env (map Tick sts @ [Came_online, Flush_runs dl (\<lambda>u. True) now later]) s) =
    sv_uploads s @ replicate (length sts)
      (New_document session_bytes (sv_name s) (sv_folderId s) (sv_tags s))"
proof -
  define s1 where "s1 = hook_run env (map Tick sts) s"
  define s2 where "s2 = s1\<lparr>sv_offline := False, sv_syncing := True\<rparr>"
  have f: "queue_wf (sv_queue s1)" "sv_uploads s1 = sv_uploads s" "\<not> sv_syncing s1"
    and m: "mset (getAll (sv_queue s1)) = mset (map (\<lambda>st. \<lparr>pq_id = fst st, pq_type = Save_document,
       pq_payload = en_clone env (to_save s), pq_timestamp = snd st, pq_retries = 0\<rparr>) sts)"
    using ticks_offline[OF assms(1,3,5), of env] assms(4,6,7) by (simp_all add: s1_def list_all_iff)
  have len: "length (getAll (sv_queue s1)) = length sts" using arg_cong[OF m, of size] by simp
  then have 2: "hook_run env [Came_online] s1 = s2"
    using f(3) assms(8) by (simp add: s2_def flush_begin_def oq_size_getAll)
  have "list_all (\<lambda>op. pq_type op = Save_document \<and> pq_payload op = en_clone env (to_save s) \<and> \<not> expired now op)
      (getAll (sv_queue s2))"
    using arg_cong[OF m, of set_mset] assms(9) by (auto simp: s2_def list_all_iff expired_def)
  moreover have "spl_documentId (to_save s) = d"
    using assms(1) by (simp add: to_save_def save_payload_of_def waits_offline_def)
  ultimately obtain s3 where s3:
    "replay (replayOperation env dl (\<lambda>u. True)) now s2 (getAll (sv_queue s2)) = (getAll (sv_queue s2), None, [], s3)"
    "sv_uploads s3 = sv_uploads s2 @ replicate (length sts) (upload_of (to_save s) ''Synchronisation offline'' session_bytes)"
    using replay_copies[of env "to_save s" now "getAll (sv_queue s2)" dl session_bytes s2] assms(10,11) len
    by (auto simp: s2_def)
  have "queue_wf (sv_queue s2)" using f(1) by (simp add: s2_def)
  from flush_replay[OF this s3(1), of "en_quota env" later 0] obtain q where
    "flush (en_quota env) (replayOperation env dl (\<lambda>u. True)) now later s2 (sv_queue s2) = (length sts, q, s3)"
    using len by (auto simp: flush_def s2_def)
  then have "sv_uploads (flushOfflineQueue env dl (\<lambda>u. True) now later s2) = sv_uploads s3"
    by (simp add: flushOfflineQueue_def refreshQueueSize_def Let_def s2_def)
  moreover have "hook_run env (map Tick sts @ [Came_online, Flush_runs dl (\<lambda>u. True) now later]) s
      = flushOfflineQueue env dl (\<lambda>u. True) now later s2"
    by (simp only: 2[symmetric] s1_def hook_run_simps hook_step.simps)
  moreover have "upload_of (to_save s) ''Synchronisation offline'' session_bytes =
      New_document session_bytes (sv_name s) (sv_folderId s) (sv_tags s)"
    using assms(2) by (simp add: upload_of_def to_save_def save_payload_of_def or_else_def)
  ultimately show ?thesis using s3(2) f(2) by (simp add: s2_def)
qed

section \<open>Instances\<close>

definition save_demo :: save_hook where
  "save_demo = (new_hook (Some ''d'') None ''Report'' None [] False \<lparr>oq_db = None, oq_memory = []\<rparr>)
     \<lparr>ed_pdf := Some ''pdf'', ed_ops := queueDelete 1 ''e1'' \<lparr>b_x = 0, b_y = 0, b_width = 1, b_height = 1\<rparr> None [],
      sv_dirty := True\<rparr>"

definition save_demo_env :: save_env where
  "save_demo_env = \<lparr>en_quota = 10, en_clone = spl_name, en_unclone = (\<lambda>x. (to_save save_demo)\<lparr>spl_name := x\<rparr>),
     en_bake = (\<lambda>pdf ops ms. pdf @ ''+'' @ concat (baked_ids ops))\<rparr>"

lemma save_demo_ready: "ready_to_save ''d'' ''pdf'' save_demo"
  by (simp add: ready_to_save_def save_demo_def new_hook_def queueDelete_def)

lemmas save_demo_simps = save_demo_def save_demo_env_def new_hook_def queueDelete_def baked_ids_def to_save_def
  save_payload_of_def upload_of_def or_else_def

theorem uninterrupted_save_witness:
  "sv_uploads (hook_run save_demo_env [Save_clicked (''i'', 0), Bake_answered 0 True, Upload_answered (''i'', 5) 0 None] save_demo)
     = [New_document ''pdf+e1'' ''Report'' None []]"
  using uninterrupted_save[OF save_demo_ready, of save_demo_env "(''i'', 0)" "(''i'', 5)"]
  by (simp add: Let_def save_demo_simps del: hook_run_simps)

lemma edits_during_bake_lost_witness:
  "sv_uploads (hook_run save_demo_env ((Save_clicked (''i'', 0) # [Edit [] [(1, ''m'')], Adopt (''j'', 1) ''rotated''])
      @ [Bake_answered 0 True, Upload_answered (''i'', 5) 0 None]) save_demo)
     = [New_document ''pdf+e1'' ''Report'' None []]"
  using edits_during_bake_lost[OF save_demo_ready, of "[Edit [] [(1, ''m'')], Adopt (''j'', 1) ''rotated'']"
      save_demo_env "(''i'', 0)" "(''i'', 5)"]
  by (simp add: Let_def save_demo_simps oq_size_def del: hook_run_simps)

theorem failed_upload_retried_witness:
  "ed_pdf (hook_run save_demo_env ([Save_clicked (''i'', 0), Bake_answered 0 True,
      Upload_answered (''j'', 1) 0 (Some Unauthorized)] @ failing_saves []) save_demo) = Some ''pdf+e1''"
  using failed_upload_retried[OF save_demo_ready, of save_demo_env "(''i'', 0)" "(''j'', 1)" Unauthorized "[]"
      "(''k'', 2)" "(''k'', 3)"]
  by (simp add: Let_def save_demo_simps del: hook_run_simps)

theorem replay_marks_unsaved_clean_witness:
  "sv_uploads (hook_run save_demo_env [Save_clicked (''i'', 0), Bake_answered 0 True,
      Upload_answered (''j'', 1) 0 (Some (Other_failure ''lost'')), Went_offline, Came_online,
      Flush_runs (\<lambda>d. Response 200 ''session'') (\<lambda>u. True) 2 3] save_demo) = [New_document ''session'' ''Report'' None []]"
  using replay_marks_unsaved_clean[OF save_demo_ready, of save_demo_env "\<lambda>d. Response 200 ''session''" "''session''" 2
      "(''j'', 1)" "(''i'', 0)" "Other_failure ''lost''" 3 "(''k'', 4)"]
  by (simp add: Let_def save_demo_simps queue_wf_def getAll_def OP_MAX_AGE_MS_def del: hook_run_simps)

theorem offline_ticks_store_copies_witness:
  "sv_uploads (hook_run save_demo_env (map Tick [(''i'', 0), (''j'', 30000)]
      @ [Came_online, Flush_runs (\<lambda>d. Response 200 ''session'') (\<lambda>u. True) 60000 60000]) (save_demo\<lparr>sv_offline := True\<rparr>))
    = [New_document ''session'' ''Report'' None [], New_document ''session'' ''Report'' None []]"
  using offline_ticks_store_copies[of "''d''" "save_demo\<lparr>sv_offline := True\<rparr>" "[(''i'', 0), (''j'', 30000)]"
      save_demo_env 60000 "\<lambda>d. Response 200 ''session''" "''session''" 60000]
  by (simp add: waits_offline_def save_demo_simps queue_wf_def getAll_def OP_MAX_AGE_MS_def MAX_QUEUE_SIZE_def
      numeral_2_eq_2 del: hook_run_simps)

end
