(* ===== verification/Sync_Middleware.thy ===== *)
theory Sync_Middleware
  imports Document_Store
begin

text \<open>
  \<open>packages/editor/src/middleware/sync-middleware.ts\<close>: what the editor sends to the other editors of
  a document when its pages change, and what it does with their messages. The listeners read the
  pages and the user of the moment they were registered. The handlers of conflicts and of version
  changes are empty in the source.
\<close>

section \<open>Differences of elements\<close>

text \<open>The keys of an element with their values; \<open>index\<close> is a key only when it has a value.\<close>

datatype key_value =
    K_bounds bounds | K_transform transform | K_layerId "uuid option" | K_locked bool | K_visible bool
  | K_index int | K_rest string | K_content string | K_style text_style | K_dataUrl string | K_opacity jsnum
  | K_points "(jsnum \<times> jsnum) list" | K_shapeStyle shape_style | K_annotationType string
  | K_annotation string | K_fieldName string | K_value field_value

fun body_keys :: "element_body \<Rightarrow> key_value list" where
  "body_keys (Text_Body c st) = [K_content c, K_style st]"
| "body_keys (Image_Body u op) = [K_dataUrl u, K_opacity op]"
| "body_keys (Shape_Body ps st) = [K_points ps, K_shapeStyle st]"
| "body_keys (Annotation_Body ty c) = [K_annotationType ty, K_annotation c]"
| "body_keys (Form_Body n v) = [K_fieldName n, K_value v]"

definition element_keys :: "element \<Rightarrow> key_value list" where
  "element_keys e = [K_bounds (el_bounds e), K_transform (el_transform e), K_layerId (el_layerId e),
     K_locked (el_locked e), K_visible (el_visible e)]
   @ (case el_index e of None \<Rightarrow> [] | Some i \<Rightarrow> [K_index i]) @ [K_rest (el_rest e)] @ body_keys (el_body e)"

text \<open>A key of the new element is sent when the old one has another value there or none.\<close>

definition getElementDiff :: "element \<Rightarrow> element \<Rightarrow> key_value list" where
  "getElementDiff previous current = filter (\<lambda>kv. kv \<notin> set (element_keys previous)) (element_keys current)"

text \<open>One key of the object spread \<open>{...element, ...changes}\<close>; a key of another type of element is ignored.\<close>

fun set_body_key :: "key_value \<Rightarrow> element_body \<Rightarrow> element_body" where
  "set_body_key (K_content c) (Text_Body _ st) = Text_Body c st"
| "set_body_key (K_style st) (Text_Body c _) = Text_Body c st"
| "set_body_key (K_dataUrl u) (Image_Body _ op) = Image_Body u op"
| "set_body_key (K_opacity op) (Image_Body u _) = Image_Body u op"
| "set_body_key (K_points ps) (Shape_Body _ st) = Shape_Body ps st"
| "set_body_key (K_shapeStyle st) (Shape_Body ps _) = Shape_Body ps st"
| "set_body_key (K_annotationType ty) (Annotation_Body _ c) = Annotation_Body ty c"
| "set_body_key (K_annotation c) (Annotation_Body ty _) = Annotation_Body ty c"
| "set_body_key (K_fieldName n) (Form_Body _ v) = Form_Body n v"
| "set_body_key (K_value v) (Form_Body n _) = Form_Body n v"
| "set_body_key _ b = b"

fun set_key :: "key_value \<Rightarrow> element \<Rightarrow> element" where
  "set_key (K_bounds b) e = e\<lparr>el_bounds := b\<rparr>"
| "set_key (K_transform t) e = e\<lparr>el_transform := t\<rparr>"
| "set_key (K_layerId l) e = e\<lparr>el_layerId := l\<rparr>"
| "set_key (K_locked b) e = e\<lparr>el_locked := b\<rparr>"
| "set_key (K_visible b) e = e\<lparr>el_visible := b\<rparr>"
| "set_key (K_index i) e = e\<lparr>el_index := Some i\<rparr>"
| "set_key (K_rest r) e = e\<lparr>el_rest := r\<rparr>"
| "set_key kv e = e\<lparr>el_body := set_body_key kv (el_body e)\<rparr>"

definition merge_changes :: "key_value list \<Rightarrow> element \<Rightarrow> element" where
  "merge_changes kvs e = fold set_key kvs e"

section \<open>Detecting changes\<close>

datatype page_change =
    Page_added uuid int | Page_deleted uuid int
  | Created uuid element | Updated uuid uuid "key_value list" | Deleted uuid uuid

definition has_id :: "uuid \<Rightarrow> element \<Rightarrow> bool" where
  "has_id i e \<longleftrightarrow> el_id e = i"

definition detect_current :: "uuid \<Rightarrow> element list \<Rightarrow> element \<Rightarrow> page_change list" where
  "detect_current pid previous e = (case find (has_id (el_id e)) previous of
       None \<Rightarrow> [Created pid e]
     | Some p \<Rightarrow> if e \<noteq> p then [Updated pid (el_id e) (getElementDiff p e)] else [])"

definition detect_deleted :: "uuid \<Rightarrow> element list \<Rightarrow> element \<Rightarrow> page_change list" where
  "detect_deleted pid current p = (if list_ex (has_id (el_id p)) current then [] else [Deleted pid (el_id p)])"

definition detect_page :: "page \<Rightarrow> page \<Rightarrow> page_change list" where
  "detect_page c p = concat (map (detect_current (pg_id c) (pg_elements p)) (pg_elements c))
     @ concat (map (detect_deleted (pg_id c) (pg_elements c)) (pg_elements p))"

definition detectChanges :: "page list \<Rightarrow> page list \<Rightarrow> page_change list" where
  "detectChanges current previous =
     concat (map_index (\<lambda>i c. if i < length previous then detect_page c (previous ! i)
        else [Page_added (pg_id c) (pg_number c)]) current)
     @ concat (map_index (\<lambda>i p. if i < length current \<and> pg_id (current ! i) = pg_id p then []
        else [Page_deleted (pg_id p) (pg_number p)]) previous)"

section \<open>Sending\<close>

datatype socket_msg =
    Element_create uuid uuid element
  | Element_update uuid uuid uuid "key_value list" int
  | Element_delete uuid uuid uuid int

fun emit_change :: "uuid \<Rightarrow> int \<Rightarrow> page_change \<Rightarrow> socket_msg list" where
  "emit_change d v (Created pid e) = [Element_create d pid e]"
| "emit_change d v (Updated pid i kvs) = [Element_update d pid i kvs v]"
| "emit_change d v (Deleted pid i) = [Element_delete d pid i v]"
| "emit_change d v (Page_added pid n) = []"
| "emit_change d v (Page_deleted pid n) = []"

definition emitChanges :: "document_state \<Rightarrow> page_change list \<Rightarrow> socket_msg list" where
  "emitChanges doc changes = (case ds_documentId doc of
       None \<Rightarrow> []
     | Some d \<Rightarrow> if d = [] then [] else concat (map (emit_change d (ds_version doc)) changes))"

text \<open>The timer holds the pages its callback was created with: the current and the previous ones.\<close>

record sync_state =
  sy_doc :: document_state
  sy_timer :: "(page list \<times> page list) option"
  sy_enabled :: bool
  sy_connected :: bool
  sy_out :: "socket_msg list"
  sy_seen :: "page list"
  sy_user :: "uuid option"

definition initSyncMiddleware :: "document_state \<Rightarrow> uuid option \<Rightarrow> bool \<Rightarrow> sync_state" where
  "initSyncMiddleware doc user enabled = \<lparr>sy_doc = doc, sy_timer = None, sy_enabled = enabled, sy_connected = True,
     sy_out = [], sy_seen = ds_pages doc, sy_user = user\<rparr>"

definition handlePagesChanged :: "page list \<Rightarrow> page list \<Rightarrow> sync_state \<Rightarrow> sync_state" where
  "handlePagesChanged current previous s = s\<lparr>sy_timer := Some (current, previous)\<rparr>"

text \<open>An action of the store that replaces \<open>pages\<close>, with the subscription.\<close>

definition set_pages :: "document_state \<Rightarrow> sync_state \<Rightarrow> sync_state" where
  "set_pages doc s = (let s1 = s\<lparr>sy_doc := doc\<rparr> in
     if sy_enabled s \<and> sy_connected s then handlePagesChanged (ds_pages doc) (ds_pages (sy_doc s)) s1 else s1)"

definition timeout_fires :: "sync_state \<Rightarrow> sync_state" where
  "timeout_fires s = (case sy_timer s of
       None \<Rightarrow> s
     | Some (current, previous) \<Rightarrow>
         s\<lparr>sy_out := sy_out s @ emitChanges (sy_doc s) (detectChanges current previous), sy_timer := None\<rparr>)"

definition cleanupSyncMiddleware :: "sync_state \<Rightarrow> sync_state" where
  "cleanupSyncMiddleware s = s\<lparr>sy_timer := None\<rparr>"

section \<open>Receiving\<close>

datatype remote_event =
    Remote_created uuid element "uuid option"
  | Remote_updated uuid uuid "key_value list" "uuid option"
  | Remote_deleted uuid uuid "uuid option"
  | Remote_saved int int

definition set_elements :: "element list \<Rightarrow> page_patch" where
  "set_elements es = empty_page_patch\<lparr>pp_elements := Some es\<rparr>"

definition seen_page :: "page list \<Rightarrow> uuid \<Rightarrow> page option" where
  "seen_page ps pid = find (\<lambda>p. pg_id p = pid) ps"

text \<open>\<open>updatePage(pageId, {elements})\<close>, which replaces \<open>pages\<close> when the page exists.\<close>

definition update_elements :: "uuid \<Rightarrow> element list \<Rightarrow> sync_state \<Rightarrow> sync_state" where
  "update_elements pid es s = (case seen_page (ds_pages (sy_doc s)) pid of
       None \<Rightarrow> s
     | Some _ \<Rightarrow> set_pages (updatePage pid (set_elements es) (sy_doc s)) s)"

definition apply_created :: "uuid \<Rightarrow> element \<Rightarrow> sync_state \<Rightarrow> sync_state" where
  "apply_created pid e s = (case seen_page (sy_seen s) pid of
       None \<Rightarrow> s
     | Some p \<Rightarrow> update_elements pid (pg_elements p @ [e]) s)"

definition apply_updated :: "uuid \<Rightarrow> uuid \<Rightarrow> key_value list \<Rightarrow> sync_state \<Rightarrow> sync_state" where
  "apply_updated pid i kvs s = (case seen_page (sy_seen s) pid of
       None \<Rightarrow> s
     | Some p \<Rightarrow> (case find_index (has_id i) (pg_elements p) of
           None \<Rightarrow> s
         | Some k \<Rightarrow> update_elements pid ((pg_elements p)[k := merge_changes kvs (pg_elements p ! k)]) s))"

definition apply_deleted :: "uuid \<Rightarrow> uuid \<Rightarrow> sync_state \<Rightarrow> sync_state" where
  "apply_deleted pid i s = (case seen_page (sy_seen s) pid of
       None \<Rightarrow> s
     | Some p \<Rightarrow> update_elements pid (filter (\<lambda>e. \<not> has_id i e) (pg_elements p)) s)"

text \<open>The listeners, with the pages and the user of the time of \<open>setupSocketListeners\<close>.\<close>

fun on_remote :: "remote_event \<Rightarrow> sync_state \<Rightarrow> sync_state" where
  "on_remote (Remote_created pid e u) s = (if u = sy_user s then s else apply_created pid e s)"
| "on_remote (Remote_updated pid i kvs u) s = (if u = sy_user s then s else apply_updated pid i kvs s)"
| "on_remote (Remote_deleted pid i u) s = (if u = sy_user s then s else apply_deleted pid i s)"
| "on_remote (Remote_saved v now) s = s\<lparr>sy_doc := markSaved now (setVersion v (sy_doc s))\<rparr>"

section \<open>What the messages carry\<close>

text \<open>The message of another user as the server passes it on.\<close>

fun relayed :: "uuid option \<Rightarrow> socket_msg \<Rightarrow> remote_event" where
  "relayed u (Element_create d pid e) = Remote_created pid e u"
| "relayed u (Element_update d pid i kvs v) = Remote_updated pid i kvs u"
| "relayed u (Element_delete d pid i v) = Remote_deleted pid i u"

text \<open>A client whose listeners were registered once, when it had the pages \<open>sy_seen\<close>, receives messages in order.\<close>

definition receive_all :: "uuid option \<Rightarrow> socket_msg list \<Rightarrow> sync_state \<Rightarrow> sync_state" where
  "receive_all u msgs s = fold (\<lambda>m. on_remote (relayed u m)) msgs s"

definition on_page_of :: "uuid \<Rightarrow> (element list \<Rightarrow> element list) \<Rightarrow> page list \<Rightarrow> page list" where
  "on_page_of pid f ps = (case find_index (\<lambda>p. pg_id p = pid) ps of
       None \<Rightarrow> ps
     | Some i \<Rightarrow> ps[i := (ps ! i)\<lparr>pg_elements := f (pg_elements (ps ! i))\<rparr>])"

text \<open>What a listener makes of the elements it has seen, given a change.\<close>

fun received :: "page_change \<Rightarrow> element list \<Rightarrow> element list" where
  "received (Created pid e) es = es @ [e]"
| "received (Updated pid i kvs) es = update_first (has_id i) (merge_changes kvs) es"
| "received (Deleted pid i) es = filter (\<lambda>e. \<not> has_id i e) es"
| "received _ es = es"

fun change_page :: "page_change \<Rightarrow> uuid" where
  "change_page (Created pid e) = pid"
| "change_page (Updated pid i kvs) = pid"
| "change_page (Deleted pid i) = pid"
| "change_page (Page_added pid n) = pid"
| "change_page (Page_deleted pid n) = pid"

lemma find_by_index: "find P xs = map_option (nth xs) (find_index P xs)"
  by (induction xs) (auto simp: option.map_comp comp_def split: option.split)

lemma update_first_index:
  "update_first P f xs = (case find_index P xs of None \<Rightarrow> xs | Some k \<Rightarrow> xs[k := f (xs ! k)])"
  by (induction xs) (auto split: option.split)

lemma pages_set_pages [simp]: "sy_doc (set_pages doc s) = doc" "sy_user (set_pages doc s) = sy_user s"
  by (simp_all add: set_pages_def handlePagesChanged_def Let_def)

lemma updatePage_on_page: "ds_pages (updatePage pid (set_elements es) doc) = on_page_of pid (\<lambda>_. es) (ds_pages doc)"
  by (simp add: updatePage_def on_page_of_def set_elements_def empty_page_patch_def patch_page_def split: option.split)

lemma on_page_cong:
  "(\<And>i. find_index (\<lambda>p. pg_id p = pid) ps = Some i \<Longrightarrow> f (pg_elements (ps ! i)) = g (pg_elements (ps ! i))) \<Longrightarrow>
   on_page_of pid f ps = on_page_of pid g ps"
  by (simp add: on_page_of_def split: option.split)

lemma on_remote_user [simp]: "sy_user (on_remote ev s) = sy_user s" "sy_seen (on_remote ev s) = sy_seen s"
  by (cases ev; auto simp: apply_created_def apply_updated_def apply_deleted_def update_elements_def
      set_pages_def handlePagesChanged_def Let_def split: option.split)+

text \<open>A change the listeners can apply: it is sent, they have seen its page, and its element when it is an update.\<close>

fun sent :: "page_change \<Rightarrow> bool" where
  "sent (Page_added pid n) = False"
| "sent (Page_deleted pid n) = False"
| "sent c = True"

fun knows :: "page_change \<Rightarrow> element list \<Rightarrow> bool" where
  "knows (Updated pid i kvs) es = list_ex (has_id i) es"
| "knows c es = True"

definition applicable :: "page list \<Rightarrow> page_change \<Rightarrow> bool" where
  "applicable seen c \<longleftrightarrow> (case seen_page seen (change_page c) of None \<Rightarrow> False | Some p \<Rightarrow> knows c (pg_elements p))"

definition seen_elements :: "page list \<Rightarrow> uuid \<Rightarrow> element list" where
  "seen_elements seen pid = (case seen_page seen pid of None \<Rightarrow> [] | Some p \<Rightarrow> pg_elements p)"

definition stale_change :: "page list \<Rightarrow> page_change \<Rightarrow> page list \<Rightarrow> page list" where
  "stale_change seen c ps = (if sent c
     then on_page_of (change_page c) (\<lambda>_. received c (seen_elements seen (change_page c))) ps else ps)"

lemma emit_change_sent: "emit_change d v c = [] \<longleftrightarrow> \<not> sent c" "sent c \<Longrightarrow> \<exists>m. emit_change d v c = [m]"
  by (cases c; simp)+

lemma find_index_ex: "list_ex P xs \<longleftrightarrow> find_index P xs \<noteq> None"
  by (induction xs) auto

lemma update_elements_pages:
  "ds_pages (sy_doc (update_elements pid es s)) = on_page_of pid (\<lambda>_. es) (ds_pages (sy_doc s))"
  by (auto simp: update_elements_def updatePage_on_page seen_page_def find_by_index on_page_of_def split: option.split)

lemma on_remote_seen:
  assumes "u \<noteq> sy_user s" "emit_change d v c = [m]" "applicable (sy_seen s) c"
  shows "ds_pages (sy_doc (on_remote (relayed u m) s)) = stale_change (sy_seen s) c (ds_pages (sy_doc s))"
proof -
  obtain p where p: "seen_page (sy_seen s) (change_page c) = Some p" "knows c (pg_elements p)"
    using assms(3) by (auto simp: applicable_def split: option.splits)
  then show ?thesis
    using assms(1,2)
    by (cases c) (auto simp: apply_created_def apply_updated_def apply_deleted_def stale_change_def seen_elements_def
        update_elements_pages update_first_index find_index_ex split: option.split)
qed

lemma receive_changes:
  assumes "u \<noteq> sy_user s" "\<forall>c\<in>set cs. sent c \<longrightarrow> applicable (sy_seen s) c"
  shows "ds_pages (sy_doc (receive_all u (concat (map (emit_change d v) cs)) s))
    = fold (stale_change (sy_seen s)) cs (ds_pages (sy_doc s))"
  using assms
proof (induction cs arbitrary: s)
  case (Cons c cs)
  show ?case
  proof (cases "sent c")
    case False
    then have "emit_change d v c = []" by (simp add: emit_change_sent)
    then show ?thesis using Cons False by (simp add: receive_all_def stale_change_def)
  next
    case True
    then obtain m where m: "emit_change d v c = [m]" using emit_change_sent(2) by blast
    have "ds_pages (sy_doc (on_remote (relayed u m) s)) = stale_change (sy_seen s) c (ds_pages (sy_doc s))"
      using Cons.prems True m by (intro on_remote_seen) auto
    then show ?thesis using Cons.IH[of "on_remote (relayed u m) s"] Cons.prems m by (simp add: receive_all_def)
  qed
qed (simp add: receive_all_def)

section \<open>The round trip\<close>

text \<open>A difference says everything when the type stays and no index disappears (a key that is gone is not sent).\<close>

definition expressible :: "element \<Rightarrow> element \<Rightarrow> bool" where
  "expressible p c \<longleftrightarrow> body_type (el_body p) = body_type (el_body c) \<and> (el_index c = None \<longrightarrow> el_index p = None)"

fun key_name :: "key_value \<Rightarrow> nat" where
  "key_name (K_bounds _) = 0" | "key_name (K_transform _) = 1" | "key_name (K_layerId _) = 2"
| "key_name (K_locked _) = 3" | "key_name (K_visible _) = 4" | "key_name (K_index _) = 5"
| "key_name (K_rest _) = 6" | "key_name (K_content _) = 7" | "key_name (K_style _) = 8"
| "key_name (K_dataUrl _) = 9" | "key_name (K_opacity _) = 10" | "key_name (K_points _) = 11"
| "key_name (K_shapeStyle _) = 12" | "key_name (K_annotationType _) = 13" | "key_name (K_annotation _) = 14"
| "key_name (K_fieldName _) = 15" | "key_name (K_value _) = 16"

lemma distinct_keys: "distinct (map key_name (element_keys e))"
  by (cases "el_body e") (simp_all add: element_keys_def split: option.split)

lemma set_key_same: "kv \<in> set (element_keys e) \<Longrightarrow> set_key kv e = e"
  by (cases "el_body e") (auto simp: element_keys_def split: option.splits)

lemma set_key_other:
  "kv \<in> set (element_keys e) \<Longrightarrow> key_name kv \<noteq> key_name kv' \<Longrightarrow> kv \<in> set (element_keys (set_key kv' e))"
  by (cases kv'; cases "el_body e") (auto simp: element_keys_def split: option.splits)

text \<open>Leaving out the keys that already have their value changes nothing.\<close>

lemma fold_changed_keys:
  assumes "distinct (map key_name kvs)" "\<forall>kv\<in>set kvs. kv \<in> old \<longrightarrow> kv \<in> set (element_keys e)"
  shows "fold set_key (filter (\<lambda>kv. kv \<notin> old) kvs) e = fold set_key kvs e"
  using assms
proof (induction kvs arbitrary: e)
  case (Cons kv kvs)
  have "\<forall>k\<in>set kvs. k \<in> old \<longrightarrow> k \<in> set (element_keys (set_key kv e))"
    using Cons.prems by (auto intro!: set_key_other) (metis image_eqI)+
  then have "fold set_key (filter (\<lambda>kv. kv \<notin> old) kvs) (set_key kv e) = fold set_key kvs (set_key kv e)"
    using Cons.IH Cons.prems(1) by simp
  moreover have "set_key kv e = e" if "kv \<in> old" using Cons.prems(2) that by (simp add: set_key_same)
  ultimately show ?case by (cases "kv \<in> old") simp_all
qed simp

lemma fold_all_keys: "el_id p = el_id c \<Longrightarrow> expressible p c \<Longrightarrow> fold set_key (element_keys c) p = c"
  by (cases "el_body p"; cases "el_body c"; cases "el_index c"; cases p; cases c)
    (auto simp: element_keys_def expressible_def)

lemma merge_diff: "el_id p = el_id c \<Longrightarrow> expressible p c \<Longrightarrow> merge_changes (getElementDiff p c) p = c"
  by (simp add: merge_changes_def getElementDiff_def fold_changed_keys distinct_keys fold_all_keys)

section \<open>The elements of one page\<close>

definition same_ids :: "element list \<Rightarrow> bool" where
  "same_ids es \<longleftrightarrow> distinct (map el_id es)"

text \<open>The element that takes the place of an old one.\<close>

definition successor :: "element list \<Rightarrow> element \<Rightarrow> element" where
  "successor ys p = (case find (has_id (el_id p)) ys of None \<Rightarrow> p | Some c \<Rightarrow> c)"

lemma find_has_id: "find (has_id i) es = Some e \<Longrightarrow> e \<in> set es \<and> el_id e = i"
  by (induction es) (auto simp: has_id_def split: if_splits)

lemma find_has_id_None: "find (has_id i) es = None \<longleftrightarrow> i \<notin> el_id ` set es"
  by (induction es) (auto simp: has_id_def)

lemma find_has_id_in: "distinct (map el_id es) \<Longrightarrow> e \<in> set es \<Longrightarrow> find (has_id (el_id e)) es = Some e"
  by (induction es) (auto simp: has_id_def)

lemma successor_id [simp]: "el_id (successor ys p) = el_id p"
  by (auto simp: successor_def dest: find_has_id split: option.split)

lemma update_first_map:
  "distinct (map el_id ps) \<Longrightarrow> (\<And>p. el_id (g p) = el_id p) \<Longrightarrow>
   update_first (has_id i) f (map g ps) = map (\<lambda>p. if el_id p = i then f (g p) else g p) ps"
  by (induction ps) (auto simp: has_id_def intro: rev_image_eqI)

lemma update_first_append:
  "list_ex P xs \<Longrightarrow> update_first P f (xs @ ys) = update_first P f xs @ ys"
  by (induction xs) auto

lemma find_append: "find P (xs @ ys) = (case find P xs of None \<Rightarrow> find P ys | Some x \<Rightarrow> Some x)"
  by (induction xs) auto

definition new_in :: "element list \<Rightarrow> element list \<Rightarrow> element list" where
  "new_in prev ys = filter (\<lambda>e. el_id e \<notin> el_id ` set prev) ys"

lemma received_current:
  assumes "distinct (map el_id prev)" "distinct (map el_id ys)"
    "\<forall>p\<in>set prev. \<forall>c\<in>set ys. el_id p = el_id c \<longrightarrow> expressible p c"
  shows "fold received (concat (map (detect_current pid prev) ys)) prev = map (successor ys) prev @ new_in prev ys"
  using assms(2,3)
proof (induction ys rule: rev_induct)
  case Nil
  then show ?case by (simp add: successor_def new_in_def)
next
  case (snoc y ys)
  have IH: "fold received (concat (map (detect_current pid prev) ys)) prev = map (successor ys) prev @ new_in prev ys"
    using snoc by simp
  have y: "el_id y \<notin> el_id ` set ys" using snoc.prems(1) by auto
  have succ: "successor (ys @ [y]) p = (if el_id p = el_id y then y else successor ys p)" for p
    using y find_has_id_None[of "el_id y" ys] by (auto simp: successor_def find_append has_id_def split: option.split)
  show ?case
  proof (cases "find (has_id (el_id y)) prev")
    case None
    then have "el_id y \<notin> el_id ` set prev" by (simp add: find_has_id_None)
    moreover from this have "map (successor (ys @ [y])) prev = map (successor ys) prev"
      by (auto simp: succ intro: rev_image_eqI)
    moreover have "detect_current pid prev y = [Created pid y]" using None by (simp add: detect_current_def)
    ultimately show ?thesis using IH by (simp add: new_in_def del: map_eq_conv)
  next
    case (Some p)
    have p: "p \<in> set prev" "el_id p = el_id y" using find_has_id[OF Some] by simp_all
    have sp: "successor ys p = p" using y find_has_id_None[of "el_id y" ys] by (simp add: successor_def p(2))
    have only: "q = p" if "q \<in> set prev" "el_id q = el_id y" for q
      using that p assms(1) inj_onD[of el_id "set prev" q p] by (simp add: distinct_map)
    have "expressible p y" using snoc.prems(2) p by simp
    then have diff: "merge_changes (getElementDiff p y) p = y" using p(2) by (simp add: merge_diff)
    have ex: "list_ex (has_id (el_id y)) (map (successor ys) prev)"
      using p by (auto simp: list_ex_iff has_id_def intro!: bexI[of _ p])
    have upd: "update_first (has_id (el_id y)) (merge_changes (getElementDiff p y)) (map (successor ys) prev)
        = map (successor (ys @ [y])) prev"
      using only sp diff by (subst update_first_map[OF assms(1)]) (auto simp: succ)
    have same: "map (successor ys) prev = map (successor (ys @ [y])) prev" if "y = p"
      by (rule map_cong[OF refl], unfold succ) (use only sp that in auto)
    have "new_in prev (ys @ [y]) = new_in prev ys" using p by (auto simp: new_in_def intro: rev_image_eqI)
    moreover have "detect_current pid prev y = (if y \<noteq> p then [Updated pid (el_id y) (getElementDiff p y)] else [])"
      using Some by (simp add: detect_current_def)
    ultimately show ?thesis
      using IH upd same by (cases "y = p") (simp_all add: update_first_append[OF ex] del: map_eq_conv)
  qed
qed

lemma received_deleted:
  "fold received (concat (map (detect_deleted pid cur) prev)) xs
    = filter (\<lambda>e. el_id e \<in> el_id ` set prev \<longrightarrow> el_id e \<in> el_id ` set cur) xs"
proof (induction prev arbitrary: xs)
  case (Cons p prev)
  have "list_ex (has_id (el_id p)) cur \<longleftrightarrow> el_id p \<in> el_id ` set cur"
    by (auto simp: list_ex_iff has_id_def intro: rev_image_eqI)
  then show ?case
    using Cons by (auto simp: detect_deleted_def has_id_def intro!: filter_cong)
qed simp

lemma received_page:
  assumes "distinct (map el_id (pg_elements p))" "distinct (map el_id (pg_elements c))"
    "\<forall>x\<in>set (pg_elements p). \<forall>y\<in>set (pg_elements c). el_id x = el_id y \<longrightarrow> expressible x y"
  shows "mset (fold received (detect_page c p) (pg_elements p)) = mset (pg_elements c)"
proof -
  let ?prev = "pg_elements p" and ?cur = "pg_elements c"
  let ?res = "fold received (detect_page c p) ?prev"
  have res: "?res = filter (\<lambda>e. el_id e \<in> el_id ` set ?prev \<longrightarrow> el_id e \<in> el_id ` set ?cur)
      (map (successor ?cur) ?prev @ new_in ?prev ?cur)"
    by (simp add: detect_page_def received_current[OF assms] received_deleted)
  have "distinct (map el_id (map (successor ?cur) ?prev @ new_in ?prev ?cur))"
    using assms(1,2) by (simp add: new_in_def comp_def distinct_map_filter) (auto intro: rev_image_eqI)
  then have "distinct (map el_id ?res)" unfolding res by (rule distinct_map_filter)
  then have "distinct ?res" unfolding distinct_map by simp
  moreover have "set ?res = set ?cur"
  proof (intro equalityI subsetI)
    fix e assume e: "e \<in> set ?res"
    show "e \<in> set ?cur"
    proof (cases "e \<in> set (new_in ?prev ?cur)")
      case False
      then obtain q where q: "q \<in> set ?prev" "e = successor ?cur q" "el_id e \<in> el_id ` set ?cur"
        using e unfolding res by auto
      then have "find (has_id (el_id q)) ?cur \<noteq> None" by (simp add: find_has_id_None)
      then show ?thesis using q(2) by (auto simp: successor_def dest: find_has_id)
    qed (simp add: new_in_def)
  next
    fix e assume e: "e \<in> set ?cur"
    show "e \<in> set ?res"
    proof (cases "el_id e \<in> el_id ` set ?prev")
      case True
      then obtain q where q: "q \<in> set ?prev" "el_id e = el_id q" by blast
      then have "successor ?cur q = e" using find_has_id_in[OF assms(2) e] by (simp add: successor_def)
      then have "e \<in> successor ?cur ` set ?prev" using q(1) by blast
      then show ?thesis using e unfolding res by simp
    qed (use e in \<open>simp add: res new_in_def\<close>)
  qed
  ultimately show ?thesis using assms(2) set_eq_iff_mset_eq_distinct unfolding distinct_map by blast
qed

section \<open>The round trip over all pages\<close>

text \<open>An edit of elements: the pages stay, in their order, and every difference can be expressed.\<close>

definition element_edit :: "page \<Rightarrow> page \<Rightarrow> bool" where
  "element_edit p c \<longleftrightarrow> pg_id p = pg_id c \<and> distinct (map el_id (pg_elements p)) \<and> distinct (map el_id (pg_elements c))
     \<and> (\<forall>x\<in>set (pg_elements p). \<forall>y\<in>set (pg_elements c). el_id x = el_id y \<longrightarrow> expressible x y)"

definition same_elements :: "page \<Rightarrow> page \<Rightarrow> bool" where
  "same_elements q c \<longleftrightarrow> pg_id q = pg_id c \<and> mset (pg_elements q) = mset (pg_elements c)"

lemma detect_page_on: "ch \<in> set (detect_page c p) \<Longrightarrow> change_page ch = pg_id c"
  by (auto simp: detect_page_def detect_current_def detect_deleted_def split: option.splits if_splits)

lemma find_index_at: "\<forall>x\<in>set pre. \<not> P x \<Longrightarrow> P y \<Longrightarrow> find_index P (pre @ y # post) = Some (length pre)"
  by (induction pre) auto

text \<open>Of the changes of one page only the last has an effect, on the elements the listeners have seen.\<close>

definition last_change :: "page_change list \<Rightarrow> element list \<Rightarrow> element list \<Rightarrow> element list" where
  "last_change chs seen es = (if chs = [] then es else received (last chs) seen)"

lemma fold_stale_page:
  assumes "\<forall>ch\<in>set chs. change_page ch = pg_id p \<and> sent ch" "pg_id p \<notin> pg_id ` set pre"
    "seen_elements seen (pg_id p) = es"
  shows "fold (stale_change seen) chs (pre @ p # post) = pre @ p\<lparr>pg_elements := last_change chs es (pg_elements p)\<rparr> # post"
  using assms
proof (induction chs arbitrary: p)
  case (Cons ch chs)
  have "find_index (\<lambda>q. pg_id q = change_page ch) (pre @ p # post) = Some (length pre)"
    using Cons.prems by (intro find_index_at) (auto, metis image_eqI)
  then have "stale_change seen ch (pre @ p # post) = pre @ p\<lparr>pg_elements := received ch es\<rparr> # post"
    using Cons.prems by (simp add: stale_change_def on_page_of_def)
  then show ?case
    using Cons.IH[of "p\<lparr>pg_elements := received ch es\<rparr>"] Cons.prems by (simp add: last_change_def)
qed (simp add: last_change_def)

lemma detect_same_pages:
  "list_all2 (\<lambda>p c. pg_id p = pg_id c) previous current \<Longrightarrow>
   detectChanges current previous = concat (map2 detect_page current previous)"
proof -
  assume l: "list_all2 (\<lambda>p c. pg_id p = pg_id c) previous current"
  then have n: "length previous = length current" by (simp add: list_all2_lengthD)
  have "map_index (\<lambda>i p. if i < length current \<and> pg_id (current ! i) = pg_id p then []
        else [Page_deleted (pg_id p) (pg_number p)]) previous = map (\<lambda>_. []) previous"
    using l n by (auto intro!: nth_equalityI simp: js_simps list_all2_conv_all_nth)
  moreover have "map_index (\<lambda>i c. if i < length previous then detect_page c (previous ! i)
        else [Page_added (pg_id c) (pg_number c)]) current = map2 detect_page current previous"
    using n by (auto intro!: nth_equalityI simp: js_simps)
  ultimately show ?thesis by (simp add: detectChanges_def)
qed

lemma detect_page_sent: "ch \<in> set (detect_page c p) \<Longrightarrow> sent ch \<and> knows ch (pg_elements p)"
proof -
  assume "ch \<in> set (detect_page c p)"
  moreover have "sent ch \<and> knows ch es" if "ch \<in> set (detect_current pid es e)" for pid es e
  proof (cases "find (has_id (el_id e)) es")
    case (Some x)
    then have "list_ex (has_id (el_id e)) es" by (auto simp: find_Some_iff list_ex_iff)
    then show ?thesis using that Some by (auto simp: detect_current_def split: if_splits)
  qed (use that in \<open>auto simp: detect_current_def\<close>)
  moreover have "sent ch \<and> knows ch es" if "ch \<in> set (detect_deleted pid cur e)" for pid cur e es
    using that by (auto simp: detect_deleted_def split: if_splits)
  ultimately show "sent ch \<and> knows ch (pg_elements p)" by (auto simp: detect_page_def)
qed

definition last_page :: "page \<Rightarrow> page \<Rightarrow> page" where
  "last_page c p = p\<lparr>pg_elements := last_change (detect_page c p) (pg_elements p) (pg_elements p)\<rparr>"

lemma fold_all_pages:
  assumes "list_all2 (\<lambda>p c. pg_id p = pg_id c) previous current" "distinct (map pg_id (pre @ previous))"
    "\<forall>p\<in>set previous. seen_elements seen (pg_id p) = pg_elements p"
  shows "fold (stale_change seen) (concat (map2 detect_page current previous)) (pre @ previous)
     = pre @ map2 last_page current previous"
  using assms
proof (induction previous current arbitrary: pre rule: list_all2_induct)
  case (Cons p previous c current)
  have "\<forall>ch\<in>set (detect_page c p). change_page ch = pg_id p \<and> sent ch"
    using Cons.hyps(1) detect_page_on detect_page_sent by auto
  then have "fold (stale_change seen) (detect_page c p) (pre @ p # previous) = (pre @ [last_page c p]) @ previous"
    using fold_stale_page[of "detect_page c p" p pre seen "pg_elements p" previous] Cons.prems by (auto simp: last_page_def)
  moreover have "fold (stale_change seen) (concat (map2 detect_page current previous)) ((pre @ [last_page c p]) @ previous)
      = (pre @ [last_page c p]) @ map2 last_page current previous"
    using Cons.prems by (intro Cons.IH) (auto simp: last_page_def)
  ultimately show ?case by simp
qed simp

lemma last_page_single:
  assumes "element_edit p c" "length (detect_page c p) \<le> 1"
  shows "same_elements (last_page c p) c"
proof -
  have "last_change chs es es = fold received chs es" if "length chs \<le> 1" for chs es
    using that by (cases chs) (auto simp: last_change_def)
  then show ?thesis
    using assms received_page[of p c] by (simp add: same_elements_def last_page_def element_edit_def)
qed

lemma seen_page_distinct: "distinct (map pg_id ps) \<Longrightarrow> p \<in> set ps \<Longrightarrow> seen_page ps (pg_id p) = Some p"
  by (induction ps) (auto simp: seen_page_def)

text \<open>C29: The messages sent after an edit of elements (created, changed or deleted; the list of pages
  unchanged), received by an editor with the pages from before the edit and listeners registered with those
  pages: every page on which at most one element changed gets the sender's elements, but of several
  changes on one page only the last survives, applied to the elements from before the edit, since every
  listener starts from the pages of its registration. (Stacking order is not sent: created elements come last.)\<close>

theorem sync_last_change_only:
  assumes "list_all2 element_edit previous current" and "distinct (map pg_id previous)"
    and "ds_documentId doc = Some d" and "d \<noteq> []" and "u \<noteq> sy_user peer"
    and "ds_pages (sy_doc peer) = previous" and "sy_seen peer = previous"
    and "ds_pages (sy_doc (receive_all u (emitChanges doc (detectChanges current previous)) peer)) = qs"
  shows "qs = map2 last_page current previous
    \<and> (\<forall>i<length current. length (detect_page (current ! i) (previous ! i)) \<le> 1 \<longrightarrow> same_elements (qs ! i) (current ! i))"
proof -
  have ids: "list_all2 (\<lambda>p c. pg_id p = pg_id c) previous current"
    using assms(1) by (rule list_all2_mono) (simp add: element_edit_def)
  have len: "length previous = length current" using assms(1) by (rule list_all2_lengthD)
  have app: "applicable previous ch" if ch: "ch \<in> set (concat (map2 detect_page current previous))" for ch
  proof -
    obtain c p where cp: "(c, p) \<in> set (zip current previous)" "ch \<in> set (detect_page c p)"
      using ch by auto
    then have "p \<in> set previous" "pg_id p = pg_id c"
      using ids by (auto simp: set_zip list_all2_conv_all_nth)
    then show ?thesis
      using seen_page_distinct[OF assms(2)] detect_page_on[OF cp(2)] detect_page_sent[OF cp(2)]
      by (fastforce simp: applicable_def)
  qed
  have "emitChanges doc (detectChanges current previous) =
      concat (map (emit_change d (ds_version doc)) (concat (map2 detect_page current previous)))"
    using assms(3,4) ids by (simp add: emitChanges_def detect_same_pages)
  then have "qs = fold (stale_change previous) (concat (map2 detect_page current previous)) ([] @ previous)"
    using receive_changes[of u peer "concat (map2 detect_page current previous)" d "ds_version doc"] app assms(5-8) by auto
  moreover have "\<forall>p\<in>set previous. seen_elements previous (pg_id p) = pg_elements p"
    using seen_page_distinct[OF assms(2)] by (simp add: seen_elements_def)
  ultimately have qs: "qs = map2 last_page current previous"
    using fold_all_pages[OF ids, of "[]" previous] assms(2) by simp
  then show ?thesis
    using assms(1) len by (auto simp: list_all2_conv_all_nth intro!: last_page_single)
qed

section \<open>A burst of edits\<close>

fun msg_page :: "socket_msg \<Rightarrow> uuid" where
  "msg_page (Element_create d pid e) = pid"
| "msg_page (Element_update d pid i kvs v) = pid"
| "msg_page (Element_delete d pid i v) = pid"

lemma set_pages_fields:
  "sy_out (set_pages doc s) = sy_out s" "sy_enabled (set_pages doc s) = sy_enabled s"
  "sy_connected (set_pages doc s) = sy_connected s" "sy_seen (set_pages doc s) = sy_seen s"
  "sy_enabled s \<Longrightarrow> sy_connected s \<Longrightarrow> sy_timer (set_pages doc s) = Some (ds_pages doc, ds_pages (sy_doc s))"
  by (simp_all add: set_pages_def handlePagesChanged_def Let_def)

lemma fold_set_pages_fields:
  "sy_out (fold set_pages docs s) = sy_out s \<and> sy_enabled (fold set_pages docs s) = sy_enabled s
   \<and> sy_connected (fold set_pages docs s) = sy_connected s"
  by (induction docs arbitrary: s) (simp_all add: set_pages_fields)

lemma detect_page_same: "distinct (map el_id (pg_elements c)) \<Longrightarrow> detect_page c c = []"
  by (auto simp: detect_page_def detect_current_def detect_deleted_def find_has_id_in list_ex_iff has_id_def)

lemma emitted_page: "m \<in> set (emitChanges doc chs) \<Longrightarrow> \<exists>ch\<in>set chs. msg_page m = change_page ch"
proof -
  have "m \<in> set (emit_change d v ch) \<Longrightarrow> msg_page m = change_page ch" for d v ch by (cases ch) auto
  then show "m \<in> set (emitChanges doc chs) \<Longrightarrow> ?thesis"
    by (auto simp: emitChanges_def split: option.splits if_splits)
qed

text \<open>Of several edits within the debounce time only the last is sent: each edit replaces the timer, whose
  callback compares with the pages right before its own edit. A page the last edit did not touch
  gets no message, however much the edits before it in the burst changed it.\<close>

lemma burst_sends_last_change:
  assumes "sy_enabled s" and "sy_connected s"
    and "list_all2 (\<lambda>p c. pg_id p = pg_id c) (ds_pages doc1) (ds_pages doc2)" and "distinct (map pg_id (ds_pages doc2))"
    and "i < length (ds_pages doc2)" and "ds_pages doc1 ! i = ds_pages doc2 ! i"
    and "distinct (map el_id (pg_elements (ds_pages doc2 ! i)))"
  shows "let sent = emitChanges doc2 (detectChanges (ds_pages doc2) (ds_pages doc1));
       s' = timeout_fires (set_pages doc2 (set_pages doc1 (fold set_pages docs s)))
     in sy_out s' = sy_out s @ sent \<and> sy_timer s' = None
      \<and> list_all (\<lambda>m. msg_page m \<noteq> pg_id (ds_pages doc2 ! i)) sent"
proof -
  let ?ps = "ds_pages doc1" and ?cs = "ds_pages doc2"
  let ?sent = "emitChanges doc2 (detectChanges ?cs ?ps)"
  define s1 where "s1 = set_pages doc1 (fold set_pages docs s)"
  have 1: "sy_out s1 = sy_out s" "sy_enabled s1" "sy_connected s1" "ds_pages (sy_doc s1) = ?ps"
    using assms(1,2) fold_set_pages_fields[of docs s] by (simp_all add: s1_def set_pages_fields)
  have "msg_page m \<noteq> pg_id (?cs ! i)" if "m \<in> set ?sent" for m
  proof -
    note sent = emitted_page[OF that]
    obtain ch where ch: "ch \<in> set (concat (map2 detect_page ?cs ?ps))" "msg_page m = change_page ch"
      using sent unfolding detect_same_pages[OF assms(3)] by blast
    then obtain j where j: "j < length ?cs" "ch \<in> set (detect_page (?cs ! j) (?ps ! j))"
      by (auto simp: set_zip)
    then have "j \<noteq> i" using assms(6,7) by (auto simp: detect_page_same)
    then have "pg_id (?cs ! j) \<noteq> pg_id (?cs ! i)"
      using assms(4,5) j(1) by (simp add: distinct_conv_nth)
    then show ?thesis using ch(2) detect_page_on[OF j(2)] by simp
  qed
  then show ?thesis
    unfolding s1_def[symmetric] Let_def using 1
    by (simp add: timeout_fires_def set_pages_fields list_all_iff)
qed

section \<open>A remote change of a page edited here\<close>

lemma map_index_mem: "i < length xs \<Longrightarrow> f i (xs ! i) \<in> set (map_index f xs)"
  by (metis length_map_index nth_map_index nth_mem)

text \<open>The listeners start from the pages of the moment they were registered: an element another user
  creates on a page throws away every edit of that page made here since then (the page gets its
  old elements and the new one), and when the timer fires, this editor tells the others to delete
  the elements it lost that way.\<close>

lemma remote_change_reverts_page:
  assumes "seen_page (sy_seen s) pid = Some old" and "find_index (\<lambda>p. pg_id p = pid) (ds_pages (sy_doc s)) = Some i"
    and "u \<noteq> sy_user s" and "sy_enabled s" and "sy_connected s" and "ds_documentId (sy_doc s) = Some d" and "d \<noteq> []"
    and "x \<in> set (pg_elements (ds_pages (sy_doc s) ! i))" and "el_id x \<notin> el_id ` set (pg_elements old @ [e])"
  shows "let s' = on_remote (Remote_created pid e u) s
     in ds_pages (sy_doc s') =
          (ds_pages (sy_doc s))[i := (ds_pages (sy_doc s) ! i)\<lparr>pg_elements := pg_elements old @ [e]\<rparr>]
      \<and> Element_delete d pid (el_id x) (ds_version (sy_doc s)) \<in> set (sy_out (timeout_fires s'))"
proof -
  let ?ps = "ds_pages (sy_doc s)"
  let ?q = "(?ps ! i)\<lparr>pg_elements := pg_elements old @ [e]\<rparr>"
  have i: "i < length ?ps" "pg_id (?ps ! i) = pid"
    using assms(2) by (simp_all add: find_index_Some)
  define doc where "doc = updatePage pid (set_elements (pg_elements old @ [e])) (sy_doc s)"
  have "seen_page ?ps pid = Some (?ps ! i)" using assms(2) by (simp add: seen_page_def find_by_index)
  then have s': "on_remote (Remote_created pid e u) s = set_pages doc s"
    using assms(1,3) by (simp add: apply_created_def update_elements_def doc_def)
  have doc: "ds_pages doc = ?ps[i := ?q]" "ds_documentId doc = Some d" "ds_version doc = ds_version (sy_doc s)"
    using assms(2,6) by (simp_all add: doc_def updatePage_on_page on_page_of_def) (simp_all add: updatePage_def)
  have "\<not> list_ex (has_id (el_id x)) (pg_elements old @ [e])"
    using assms(9) by (auto simp: list_ex_iff has_id_def intro: rev_image_eqI)
  then have "detect_deleted pid (pg_elements old @ [e]) x = [Deleted pid (el_id x)]"
    by (simp add: detect_deleted_def)
  then have "Deleted pid (el_id x) \<in> set (concat (map (detect_deleted pid (pg_elements old @ [e])) (pg_elements (?ps ! i))))"
    using assms(8) by force
  then have "Deleted pid (el_id x) \<in> set (detect_page ?q (?ps ! i))"
    using i(2) by (simp add: detect_page_def)
  then have "Deleted pid (el_id x) \<in> set (detectChanges (ds_pages doc) ?ps)"
    using i(1) map_index_mem[of i "?ps[i := ?q]" "\<lambda>k c. if k < length ?ps then detect_page c (?ps ! k)
        else [Page_added (pg_id c) (pg_number c)]"]
    by (auto simp: detectChanges_def doc(1))
  then have "Element_delete d pid (el_id x) (ds_version (sy_doc s)) \<in> set (emitChanges doc (detectChanges (ds_pages doc) ?ps))"
    using assms(7) doc(2,3) by (force simp: emitChanges_def)
  then show ?thesis
    unfolding s' Let_def using assms(4,5) doc(1) by (simp add: timeout_fires_def set_pages_fields)
qed

section \<open>A page deleted\<close>

lemma detect_other_page:
  assumes "el_id ` set (pg_elements p) \<inter> el_id ` set (pg_elements q) = {}"
  shows "detect_page q p = map (Created (pg_id q)) (pg_elements q) @ map (\<lambda>e. Deleted (pg_id q) (el_id e)) (pg_elements p)"
proof -
  have "detect_current (pg_id q) (pg_elements p) e = [Created (pg_id q) e]" if "e \<in> set (pg_elements q)" for e
  proof -
    have "el_id e \<notin> el_id ` set (pg_elements p)" using assms that by blast
    then show ?thesis by (simp add: detect_current_def flip: find_has_id_None)
  qed
  moreover have "detect_deleted (pg_id q) (pg_elements q) e = [Deleted (pg_id q) (el_id e)]"
    if "e \<in> set (pg_elements p)" for e
  proof -
    have "\<not> list_ex (has_id (el_id e)) (pg_elements q)"
      using assms that by (auto simp: list_ex_iff has_id_def)
    then show ?thesis by (simp add: detect_deleted_def)
  qed
  ultimately have "map (detect_current (pg_id q) (pg_elements p)) (pg_elements q) = map (\<lambda>e. [Created (pg_id q) e]) (pg_elements q)"
    "map (detect_deleted (pg_id q) (pg_elements q)) (pg_elements p) = map (\<lambda>e. [Deleted (pg_id q) (el_id e)]) (pg_elements p)"
    by (simp_all cong: map_cong)
  then show ?thesis by (simp only: detect_page_def concat_map_singleton)
qed

text \<open>Pages are compared by position, so deleting the first of two pages is sent as an edit of the
  second: the other editors keep the deleted page, and when it had no elements, the last element of the second
  page is there twice afterwards (listeners registered with the pages from before).\<close>

lemma page_delete_not_sent:
  assumes "ds_documentId doc = Some d" and "d \<noteq> []" and "ds_pages (sy_doc peer) = [p, q]" and "sy_seen peer = [p, q]"
    and "u \<noteq> sy_user peer" and "pg_id p \<noteq> pg_id q" and "el_id ` set (pg_elements p) \<inter> el_id ` set (pg_elements q) = {}"
  shows "ds_pages (sy_doc (receive_all u (emitChanges doc (detectChanges [q] [p, q])) peer))
    = [p, q\<lparr>pg_elements := pg_elements q @ (if pg_elements p = [] \<and> pg_elements q \<noteq> [] then [last (pg_elements q)] else [])\<rparr>]"
proof -
  let ?chs = "detect_page q p"
  let ?gone = "[Page_deleted (pg_id p) (pg_number p), Page_deleted (pg_id q) (pg_number q)]"
  have chs: "detectChanges [q] [p, q] = ?chs @ ?gone"
    using assms(6) by (simp add: detectChanges_def map_index_def)
  have seen: "seen_page [p, q] (pg_id q) = Some q" using assms(6) by (simp add: seen_page_def)
  have on: "change_page ch = pg_id q \<and> sent ch \<and> applicable [p, q] ch" if "ch \<in> set ?chs" for ch
    using that unfolding detect_other_page[OF assms(7)] by (auto simp: applicable_def seen)
  have "ds_pages (sy_doc (receive_all u (emitChanges doc (detectChanges [q] [p, q])) peer))
      = fold (stale_change [p, q]) (?chs @ ?gone) [p, q]"
    unfolding chs emitChanges_def using assms(1-4) on
    by (simp add: receive_changes[OF assms(5)] del: map_append fold_append)
  also have "\<dots> = fold (stale_change [p, q]) ?chs ([p] @ q # [])"
    by (simp add: stale_change_def)
  also have "\<dots> = [p, q\<lparr>pg_elements := last_change ?chs (pg_elements q) (pg_elements q)\<rparr>]"
    using fold_stale_page[of ?chs q "[p]" "[p, q]" "pg_elements q" "[]"] on assms(6) by (simp add: seen_elements_def seen)
  also have "last_change ?chs (pg_elements q) (pg_elements q) =
      pg_elements q @ (if pg_elements p = [] \<and> pg_elements q \<noteq> [] then [last (pg_elements q)] else [])"
  proof (cases "pg_elements p = []")
    case True
    then show ?thesis unfolding detect_other_page[OF assms(7)] by (simp add: last_change_def last_map)
  next
    case False
    then have "last (pg_elements p) \<in> set (pg_elements p)" by simp
    then have "\<forall>e\<in>set (pg_elements q). el_id e \<noteq> el_id (last (pg_elements p))" using assms(7) by (metis IntI emptyE imageI)
    then have "filter (\<lambda>e. \<not> has_id (el_id (last (pg_elements p))) e) (pg_elements q) = pg_elements q"
      by (intro filter_True) (simp add: has_id_def)
    with False show ?thesis unfolding detect_other_page[OF assms(7)] by (simp add: last_change_def last_map)
  qed
  finally show ?thesis .
qed

section \<open>Instances\<close>

definition demo_text :: "uuid \<Rightarrow> string \<Rightarrow> element" where
  "demo_text i c = \<lparr>el_id = i, el_bounds = \<lparr>b_x = 0, b_y = 0, b_width = 10, b_height = 10\<rparr>,
     el_transform = \<lparr>t_rotation = 0, t_scaleX = 1, t_scaleY = 1, t_skewX = 0, t_skewY = 0\<rparr>, el_layerId = None,
     el_locked = False, el_visible = True, el_body = Annotation_Body ''note'' c, el_index = None, el_rest = []\<rparr>"

definition demo_page :: "uuid \<Rightarrow> element list \<Rightarrow> page" where
  "demo_page i es = \<lparr>pg_id = i, pg_number = 1, pg_dims = \<lparr>pd_width = 100, pd_height = 100, pd_rotation = R0\<rparr>,
     pg_mediaBox = \<lparr>b_x = 0, b_y = 0, b_width = 100, b_height = 100\<rparr>, pg_elements = es, pg_rest = []\<rparr>"

definition demo_doc :: "page list \<Rightarrow> document_state" where
  "demo_doc ps = initial_document\<lparr>ds_documentId := Some ''doc'', ds_pages := ps\<rparr>"

lemmas demo_sync_simps = demo_text_def demo_page_def demo_doc_def initSyncMiddleware_def

definition demo_before :: "page list" where
  "demo_before = [demo_page ''p'' [demo_text ''a'' ''old''], demo_page ''q'' []]"

definition demo_after :: "page list" where
  "demo_after = [demo_page ''p'' [demo_text ''a'' ''new''], demo_page ''q'' [demo_text ''b'' ''1'', demo_text ''c'' ''2'']]"

text \<open>One element changed on the first page, two created on the second: one of these is lost.\<close>

lemma sync_last_change_only_witness:
  "ds_pages (sy_doc (receive_all (Some ''ann'') (emitChanges (demo_doc []) (detectChanges demo_after demo_before))
      (initSyncMiddleware (demo_doc demo_before) (Some ''bob'') True)))
    = [demo_page ''p'' [demo_text ''a'' ''new''], demo_page ''q'' [demo_text ''c'' ''2'']]"
proof -
  have "ds_pages (sy_doc (receive_all (Some ''ann'') (emitChanges (demo_doc []) (detectChanges demo_after demo_before))
      (initSyncMiddleware (demo_doc demo_before) (Some ''bob'') True))) = map2 last_page demo_after demo_before"
    by (rule conjunct1[OF sync_last_change_only[where d = "''doc''"]])
      (simp_all add: demo_sync_simps demo_before_def demo_after_def element_edit_def expressible_def)
  also have "\<dots> = [demo_page ''p'' [demo_text ''a'' ''new''], demo_page ''q'' [demo_text ''c'' ''2'']]"
    by (simp add: demo_sync_simps demo_before_def demo_after_def last_page_def last_change_def detect_page_def
        detect_current_def detect_deleted_def has_id_def getElementDiff_def element_keys_def merge_changes_def)
  finally show ?thesis .
qed

theorem burst_sends_last_change_witness:
  "sy_out (timeout_fires (set_pages (demo_doc [demo_page ''p'' [demo_text ''a'' ''1''], demo_page ''q'' [demo_text ''b'' ''2'']])
     (set_pages (demo_doc [demo_page ''p'' [demo_text ''a'' ''1''], demo_page ''q'' []])
       (fold set_pages [] (initSyncMiddleware (demo_doc [demo_page ''p'' [], demo_page ''q'' []]) None True)))))
   = [Element_create ''doc'' ''q'' (demo_text ''b'' ''2'')]"
  using burst_sends_last_change[of "initSyncMiddleware (demo_doc [demo_page ''p'' [], demo_page ''q'' []]) None True"
      "demo_doc [demo_page ''p'' [demo_text ''a'' ''1''], demo_page ''q'' []]"
      "demo_doc [demo_page ''p'' [demo_text ''a'' ''1''], demo_page ''q'' [demo_text ''b'' ''2'']]" 0 "[]"]
  by (simp add: Let_def demo_sync_simps emitChanges_def detectChanges_def map_index_def detect_page_def
      detect_current_def detect_deleted_def has_id_def initial_document_def)

lemma remote_change_reverts_page_witness:
  "Element_delete ''doc'' ''p'' ''mine'' 0 \<in> set (sy_out (timeout_fires (on_remote (Remote_created ''p'' (demo_text ''theirs'' ''x'') (Some ''ann''))
     (set_pages (demo_doc [demo_page ''p'' [demo_text ''mine'' ''y'']]) (initSyncMiddleware (demo_doc [demo_page ''p'' []]) (Some ''bob'') True)))))"
  using remote_change_reverts_page[of "set_pages (demo_doc [demo_page ''p'' [demo_text ''mine'' ''y'']])
        (initSyncMiddleware (demo_doc [demo_page ''p'' []]) (Some ''bob'') True)" "''p''" "demo_page ''p'' []" 0 "Some ''ann''" "''doc''"
      "demo_text ''mine'' ''y''" "demo_text ''theirs'' ''x''"]
  by (simp add: Let_def demo_sync_simps set_pages_fields seen_page_def initial_document_def del: on_remote.simps)

theorem page_delete_not_sent_witness:
  "map (length \<circ> pg_elements) (ds_pages (sy_doc (receive_all (Some ''ann'') (emitChanges (demo_doc [])
      (detectChanges [demo_page ''q'' [demo_text ''b'' ''x'']] [demo_page ''p'' [], demo_page ''q'' [demo_text ''b'' ''x'']]))
      (initSyncMiddleware (demo_doc [demo_page ''p'' [], demo_page ''q'' [demo_text ''b'' ''x'']]) None True)))) = [0, 2]"
  using page_delete_not_sent[of "demo_doc []" "''doc''"
      "initSyncMiddleware (demo_doc [demo_page ''p'' [], demo_page ''q'' [demo_text ''b'' ''x'']]) None True"
      "demo_page ''p'' []" "demo_page ''q'' [demo_text ''b'' ''x'']" "Some ''ann''"]
  by (simp add: demo_sync_simps)

end
