(* ===== verification/Edit_Tools.thy ===== *)
theory Edit_Tools
  imports Elements Js_Strings
begin

text \<open>
  \<open>packages/editor/src/lib/edit-tools.ts\<close>: find and replace over the text elements, pasted copies
  and the format painter. The searches are loops over \<open>indexOf\<close>; they are compared with
  descriptions by position and by recursion on the text. \<open>toLowerCase\<close> is an argument \<open>low\<close> of the
  search and the replacement, since it may change the length of a text: U+0130 becomes two code units.
  It keeps the length of the texts of this alphabet (code units below 256), where it is \<open>js_lower\<close>.
\<close>

section \<open>Searching\<close>

record find_options =
  fd_caseSensitive :: bool
  fd_wholeWord :: bool

record find_occurrence =
  oc_pageIndex :: nat
  oc_pageNumber :: nat
  oc_elementId :: uuid
  oc_content :: string
  oc_start :: nat
  oc_end :: nat

text \<open>\<open>/[\p{L}\p{N}_]/u\<close> below 256.\<close>

definition word_char :: "char \<Rightarrow> bool" where
  "word_char c = (let n = code_unit c in (48 \<le> n \<and> n \<le> 57) \<or> (65 \<le> n \<and> n \<le> 90) \<or> n = 95 \<or> (97 \<le> n \<and> n \<le> 122)
     \<or> n \<in> {170, 178, 179, 181, 185, 186, 188, 189, 190} \<or> (192 \<le> n \<and> n \<noteq> 215 \<and> n \<noteq> 247))"

text \<open>The neighbour before position \<open>i\<close>, and the one at \<open>i\<close>; none is a boundary.\<close>

definition boundary_before :: "string \<Rightarrow> nat \<Rightarrow> bool" where
  "boundary_before s i \<longleftrightarrow> i = 0 \<or> length s < i \<or> \<not> word_char (s ! (i - 1))"

definition boundary_after :: "string \<Rightarrow> nat \<Rightarrow> bool" where
  "boundary_after s i \<longleftrightarrow> length s \<le> i \<or> \<not> word_char (s ! i)"

text \<open>\<open>s.indexOf(probe, from)\<close>; -1 is \<open>None\<close>.\<close>

fun index_of :: "string \<Rightarrow> string \<Rightarrow> nat option" where
  "index_of p [] = (if p = [] then Some 0 else None)"
| "index_of p (x # xs) = (if take (length p) (x # xs) = p then Some 0 else map_option Suc (index_of p xs))"

definition index_from :: "string \<Rightarrow> string \<Rightarrow> nat \<Rightarrow> nat option" where
  "index_from p s k = map_option ((+) k) (index_of p (drop k s))"

type_synonym lowering = "string \<Rightarrow> string"

definition haystack :: "lowering \<Rightarrow> find_options \<Rightarrow> string \<Rightarrow> string" where
  "haystack low opts s = (if fd_caseSensitive opts then s else low s)"

definition bounded_ok :: "find_options \<Rightarrow> string \<Rightarrow> nat \<Rightarrow> nat \<Rightarrow> bool" where
  "bounded_ok opts content start stop \<longleftrightarrow> \<not> fd_wholeWord opts \<or> boundary_before content start \<and> boundary_after content stop"

lemma index_of_Some:
  "index_of p s = Some i \<longleftrightarrow> i \<le> length s \<and> take (length p) (drop i s) = p
     \<and> (\<forall>j<i. take (length p) (drop j s) \<noteq> p)"
proof (induction s arbitrary: i)
  case (Cons x xs)
  show ?case
    by (cases i) (auto simp: Cons.IH All_less_Suc2)
qed auto

lemma index_of_None: "index_of p s = None \<Longrightarrow> j \<le> length s \<Longrightarrow> take (length p) (drop j s) \<noteq> p"
proof (induction s arbitrary: j)
  case (Cons x xs)
  then show ?case by (cases j) (auto split: if_splits)
qed (auto split: if_splits)

definition occurs_at :: "string \<Rightarrow> string \<Rightarrow> nat \<Rightarrow> bool" where
  "occurs_at p s i \<longleftrightarrow> take (length p) (drop i s) = p"

lemma occurs_end: "p \<noteq> [] \<Longrightarrow> occurs_at p s i \<Longrightarrow> i + length p \<le> length s"
proof -
  assume p: "p \<noteq> []" "occurs_at p s i"
  then have "min (length p) (length s - i) = length p"
    unfolding occurs_at_def by (metis length_drop length_take min.commute)
  then show ?thesis using p(1) by (cases "i \<le> length s") auto
qed

lemma index_from_Some:
  "p \<noteq> [] \<Longrightarrow> index_from p s k = Some i \<longleftrightarrow> k \<le> i \<and> occurs_at p s i \<and> (\<forall>j. k \<le> j \<and> j < i \<longrightarrow> \<not> occurs_at p s j)"
proof -
  assume p: "p \<noteq> []"
  show ?thesis
  proof
    assume "index_from p s k = Some i"
    then obtain m where m: "i = k + m" "index_of p (drop k s) = Some m"
      by (auto simp: index_from_def)
    have "\<not> occurs_at p s j" if "k \<le> j" "j < i" for j
    proof -
      have "j - k < m" using that m(1) by simp
      then have "take (length p) (drop (j - k) (drop k s)) \<noteq> p" using m(2) by (simp add: index_of_Some)
      then show ?thesis using that by (simp add: occurs_at_def)
    qed
    then show "k \<le> i \<and> occurs_at p s i \<and> (\<forall>j. k \<le> j \<and> j < i \<longrightarrow> \<not> occurs_at p s j)"
      using m by (simp add: index_of_Some occurs_at_def add.commute)
  next
    assume a: "k \<le> i \<and> occurs_at p s i \<and> (\<forall>j. k \<le> j \<and> j < i \<longrightarrow> \<not> occurs_at p s j)"
    have "i \<le> length s" using occurs_end[OF p] a by fastforce
    moreover have "take (length p) (drop j (drop k s)) \<noteq> p" if "j < i - k" for j
      using a that by (simp add: occurs_at_def add.commute less_diff_conv2)
    ultimately have "index_of p (drop k s) = Some (i - k)"
      using a by (auto simp: index_of_Some occurs_at_def)
    then show "index_from p s k = Some i" using a by (simp add: index_from_def)
  qed
qed

lemma index_from_None:
  assumes "p \<noteq> []" "index_from p s k = None" "k \<le> j"
  shows "\<not> occurs_at p s j"
proof
  assume o: "occurs_at p s j"
  have "j \<le> length s" using occurs_end[OF assms(1) o] by simp
  then have "take (length p) (drop (j - k) (drop k s)) \<noteq> p"
    using assms(2,3) by (intro index_of_None) (auto simp: index_from_def)
  then show False using o assms(3) by (simp add: occurs_at_def)
qed

text \<open>The loop of \<open>findOccurrences\<close> over one content: the next search starts one past the match.\<close>

function find_starts :: "string \<Rightarrow> string \<Rightarrow> nat \<Rightarrow> nat list" where
  "find_starts p s k = (if p = [] then []
     else (case index_from p s k of None \<Rightarrow> [] | Some i \<Rightarrow> i # find_starts p s (i + 1)))"
  by pat_completeness auto
termination
proof (relation "measure (\<lambda>(p, s, k). length s - k)", simp)
  fix p s k i assume p: "p \<noteq> []" "index_from p s k = Some i"
  then have "k \<le> i" "i + length p \<le> length s" using occurs_end[OF p(1)] by (auto simp: index_from_Some)
  then have "k \<le> i" "i < length s" using p(1) by (cases p; simp)+
  then show "((p, s, i + 1), (p, s, k)) \<in> measure (\<lambda>(p, s, k). length s - k)" by simp
qed

declare find_starts.simps [simp del]

definition find_in_content :: "lowering \<Rightarrow> find_options \<Rightarrow> string \<Rightarrow> string \<Rightarrow> (nat \<times> nat) list" where
  "find_in_content low opts needle content =
     (let probe = haystack low opts needle
      in filter (\<lambda>(start, stop). bounded_ok opts content start stop)
           (map (\<lambda>i. (i, i + length probe)) (find_starts probe (haystack low opts content) 0)))"

fun find_in_element :: "lowering \<Rightarrow> find_options \<Rightarrow> string \<Rightarrow> nat \<Rightarrow> element \<Rightarrow> find_occurrence list" where
  "find_in_element low opts needle pageIndex e = (case el_body e of
       Text_Body content st \<Rightarrow> map (\<lambda>(a, b). \<lparr>oc_pageIndex = pageIndex, oc_pageNumber = pageIndex + 1,
           oc_elementId = el_id e, oc_content = content, oc_start = a, oc_end = b\<rparr>)
         (find_in_content low opts needle content)
     | _ \<Rightarrow> [])"

definition findOccurrences :: "lowering \<Rightarrow> page list \<Rightarrow> string \<Rightarrow> find_options \<Rightarrow> find_occurrence list" where
  "findOccurrences low pages needle opts = (if needle = [] then []
     else concat (map_index (\<lambda>i p. concat (map (find_in_element low opts needle i) (pg_elements p))) pages))"

definition slice :: "nat \<Rightarrow> nat \<Rightarrow> string \<Rightarrow> string" where
  "slice a b s = take (b - a) (drop a s)"

definition replaceOccurrence :: "lowering \<Rightarrow> find_occurrence \<Rightarrow> string \<Rightarrow> string \<Rightarrow> find_options \<Rightarrow> string option" where
  "replaceOccurrence low oc needle replacement opts =
     (if haystack low opts (slice (oc_start oc) (oc_end oc) (oc_content oc)) = haystack low opts needle
      then Some (take (oc_start oc) (oc_content oc) @ replacement @ drop (oc_end oc) (oc_content oc))
      else None)"

section \<open>Replacing\<close>

text \<open>The loop of \<open>replaceAllInDocument\<close> over one content, with \<open>out\<close>, \<open>cursor\<close> and \<open>count\<close>.\<close>

function replace_loop :: "lowering \<Rightarrow> find_options \<Rightarrow> string \<Rightarrow> string \<Rightarrow> string \<Rightarrow> string \<Rightarrow> nat \<Rightarrow> nat \<Rightarrow> string \<times> nat \<times> nat" where
  "replace_loop low opts probe replacement content out cursor made = (if probe = [] then (out, cursor, made)
     else (case index_from probe (haystack low opts content) cursor of
         None \<Rightarrow> (out, cursor, made)
       | Some start \<Rightarrow> (let stop = start + length probe
           in if bounded_ok opts content start stop
              then replace_loop low opts probe replacement content (out @ slice cursor start content @ replacement) stop (made + 1)
              else replace_loop low opts probe replacement content (out @ slice cursor (start + 1) content) (start + 1) made)))"
  by pat_completeness auto
termination
proof (relation "measure (\<lambda>(low, opts, probe, r, content, out, cursor, made). length (haystack low opts content) - cursor)", simp)
  fix low opts probe r content out cursor made start stop
  assume a: "probe \<noteq> []" "index_from probe (haystack low opts content) cursor = Some start"
    "stop = start + length probe"
  then have b: "cursor \<le> start" "start + length probe \<le> length (haystack low opts content)"
    using occurs_end[OF a(1)] by (auto simp: index_from_Some)
  obtain n where n: "length probe = Suc n" using a(1) by (cases probe) auto
  show "((low, opts, probe, r, content, out @ slice cursor start content @ r, stop, made + 1),
      (low, opts, probe, r, content, out, cursor, made))
      \<in> measure (\<lambda>(low, opts, probe, r, content, out, cursor, made). length (haystack low opts content) - cursor)"
    "((low, opts, probe, r, content, out @ slice cursor (start + 1) content, start + 1, made),
      (low, opts, probe, r, content, out, cursor, made))
      \<in> measure (\<lambda>(low, opts, probe, r, content, out, cursor, made). length (haystack low opts content) - cursor)"
    using a(3) b n by auto
qed

declare replace_loop.simps [simp del]

definition replace_in_content :: "lowering \<Rightarrow> find_options \<Rightarrow> string \<Rightarrow> string \<Rightarrow> string \<Rightarrow> (string \<times> nat) option" where
  "replace_in_content low opts needle replacement content =
     (case replace_loop low opts (haystack low opts needle) replacement content [] 0 0 of
        (out, cursor, made) \<Rightarrow> if made > 0 then Some (out @ drop cursor content, made) else None)"

record replaced_content =
  rc_elementId :: uuid
  rc_pageIndex :: nat
  rc_pageNumber :: nat
  rc_content :: string
  rc_count :: nat

fun replace_in_element :: "lowering \<Rightarrow> find_options \<Rightarrow> string \<Rightarrow> string \<Rightarrow> nat \<Rightarrow> element \<Rightarrow> replaced_content list" where
  "replace_in_element low opts needle replacement pageIndex e = (case el_body e of
       Text_Body content st \<Rightarrow> (case replace_in_content low opts needle replacement content of
           None \<Rightarrow> []
         | Some (out, made) \<Rightarrow> [\<lparr>rc_elementId = el_id e, rc_pageIndex = pageIndex,
             rc_pageNumber = pageIndex + 1, rc_content = out, rc_count = made\<rparr>])
     | _ \<Rightarrow> [])"

definition replaceAllInDocument :: "lowering \<Rightarrow> page list \<Rightarrow> string \<Rightarrow> string \<Rightarrow> find_options \<Rightarrow> replaced_content list" where
  "replaceAllInDocument low pages needle replacement opts = (if needle = [] then []
     else concat (map_index (\<lambda>i p. concat (map (replace_in_element low opts needle replacement i) (pg_elements p))) pages))"

section \<open>The search by position\<close>

lemma find_starts_filter: "p \<noteq> [] \<Longrightarrow> find_starts p s k = filter (occurs_at p s) [k..<length s]"
proof (induction p s k rule: find_starts.induct)
  case (1 p s k)
  show ?case
  proof (cases "index_from p s k")
    case None
    then have "filter (occurs_at p s) [k..<length s] = []"
      using index_from_None[OF "1.prems" None] by (auto simp: filter_empty_conv)
    then show ?thesis using None "1.prems" by (simp add: find_starts.simps)
  next
    case (Some i)
    then have i: "k \<le> i" "occurs_at p s i" "\<forall>j. k \<le> j \<and> j < i \<longrightarrow> \<not> occurs_at p s j"
      using "1.prems" by (simp_all add: index_from_Some)
    have "i < length s" using occurs_end[OF "1.prems" i(2)] "1.prems" by (cases p; simp)
    then have "[k..<length s] = [k..<i] @ i # [i + 1..<length s]"
      using i(1) upt_add_eq_append[of k i "length s - i"] by (simp add: upt_conv_Cons)
    moreover have "filter (occurs_at p s) [k..<i] = []" using i(3) by (simp add: filter_empty_conv)
    ultimately show ?thesis
      using "1.IH"[OF "1.prems" Some "1.prems"] Some i(2) "1.prems" by (subst find_starts.simps) simp
  qed
qed

text \<open>Case is respected, or lower-casing keeps the length of the text.\<close>

definition aligned :: "lowering \<Rightarrow> find_options \<Rightarrow> string \<Rightarrow> bool" where
  "aligned low opts s \<longleftrightarrow> length (haystack low opts s) = length s"

lemma aligned_js_lower [simp]: "aligned js_lower opts s"
  by (simp add: aligned_def haystack_def js_lower_def)

lemma aligned_case: "fd_caseSensitive opts \<Longrightarrow> aligned low opts s"
  by (simp add: aligned_def haystack_def)

lemma aligned_length [simp]: "aligned low opts s \<Longrightarrow> length (haystack low opts s) = length s"
  by (simp add: aligned_def)

lemma aligned_empty: "aligned low opts s \<Longrightarrow> haystack low opts s = [] \<longleftrightarrow> s = []"
  by (metis aligned_def length_0_conv)

lemma haystack_parts [simp]:
  "haystack js_lower opts (take n s) = take n (haystack js_lower opts s)"
  "haystack js_lower opts (drop n s) = drop n (haystack js_lower opts s)"
  by (simp_all add: haystack_def js_lower_def take_map drop_map)

lemma haystack_slice: "haystack js_lower opts (slice a b s) = slice a b (haystack js_lower opts s)"
  by (simp add: slice_def)

text \<open>The positions at which the needle stands, bounded when whole words are asked for.\<close>

definition match_at :: "lowering \<Rightarrow> find_options \<Rightarrow> string \<Rightarrow> string \<Rightarrow> nat \<Rightarrow> bool" where
  "match_at low opts needle content i \<longleftrightarrow> occurs_at (haystack low opts needle) (haystack low opts content) i
     \<and> bounded_ok opts content i (i + length needle)"

lemma find_in_content_positions:
  "aligned low opts needle \<Longrightarrow> aligned low opts content \<Longrightarrow> needle \<noteq> [] \<Longrightarrow> find_in_content low opts needle content =
     map (\<lambda>i. (i, i + length needle)) (filter (match_at low opts needle content) [0..<length content])"
  by (simp add: aligned_empty find_in_content_def find_starts_filter filter_map comp_def match_at_def[abs_def]
      conj_commute[of "bounded_ok opts content _ _"] Let_def)

lemma occurrence_matches:
  "needle \<noteq> [] \<Longrightarrow> (a, b) \<in> set (find_in_content js_lower opts needle content) \<Longrightarrow>
     haystack js_lower opts (slice a b content) = haystack js_lower opts needle"
  by (auto simp: find_in_content_positions match_at_def haystack_slice slice_def occurs_at_def)

text \<open>The occurrences found are exactly the positions of the text elements
  at which the needle stands (overlapping ones included, bounded by non-word characters when whole
  words are asked for), and each of them can be replaced: the test that the content still matches
  reads the content stored in the occurrence, so it never fails, whatever became of the element.\<close>

lemma occurrences_exact:
  assumes "needle \<noteq> []"
  shows "(oc \<in> set (findOccurrences js_lower pages needle opts) \<longleftrightarrow>
     (\<exists>i e content st k. i < length pages \<and> e \<in> set (pg_elements (pages ! i)) \<and> el_body e = Text_Body content st
        \<and> k < length content \<and> match_at js_lower opts needle content k
        \<and> oc = \<lparr>oc_pageIndex = i, oc_pageNumber = i + 1, oc_elementId = el_id e, oc_content = content,
            oc_start = k, oc_end = k + length needle\<rparr>))
   \<and> (oc \<in> set (findOccurrences js_lower pages needle opts) \<longrightarrow>
      replaceOccurrence js_lower oc needle replacement opts
        = Some (take (oc_start oc) (oc_content oc) @ replacement @ drop (oc_end oc) (oc_content oc)))"
proof
  have mi: "set (map_index f ps) = (\<lambda>i. f i (ps ! i)) ` {..<length ps}" for f :: "nat \<Rightarrow> page \<Rightarrow> find_occurrence list" and ps
    by (auto simp: set_conv_nth js_simps) (metis nth_map_index)
  have pages: "x \<in> set (concat (map_index f ps)) \<longleftrightarrow> (\<exists>i<length ps. x \<in> set (f i (ps ! i)))" for x and f :: "nat \<Rightarrow> page \<Rightarrow> find_occurrence list" and ps
    by (auto simp: mi)
  have el: "oc \<in> set (find_in_element js_lower opts needle i e) \<longleftrightarrow> (\<exists>content st k. el_body e = Text_Body content st
        \<and> k < length content \<and> match_at js_lower opts needle content k
        \<and> oc = \<lparr>oc_pageIndex = i, oc_pageNumber = i + 1, oc_elementId = el_id e, oc_content = content,
            oc_start = k, oc_end = k + length needle\<rparr>)" for i e
    by (cases "el_body e") (auto simp: find_in_content_positions[OF aligned_js_lower aligned_js_lower assms])
  have "oc \<in> set (findOccurrences js_lower pages needle opts) \<longleftrightarrow>
      (\<exists>i<length pages. \<exists>e\<in>set (pg_elements (pages ! i)). oc \<in> set (find_in_element js_lower opts needle i e))"
    using assms by (simp only: findOccurrences_def if_False pages) (auto simp del: find_in_element.simps)
  then show ex: "oc \<in> set (findOccurrences js_lower pages needle opts) \<longleftrightarrow>
     (\<exists>i e content st k. i < length pages \<and> e \<in> set (pg_elements (pages ! i)) \<and> el_body e = Text_Body content st
        \<and> k < length content \<and> match_at js_lower opts needle content k
        \<and> oc = \<lparr>oc_pageIndex = i, oc_pageNumber = i + 1, oc_elementId = el_id e, oc_content = content,
            oc_start = k, oc_end = k + length needle\<rparr>)"
    unfolding el by blast
  show "oc \<in> set (findOccurrences js_lower pages needle opts) \<longrightarrow>
      replaceOccurrence js_lower oc needle replacement opts
        = Some (take (oc_start oc) (oc_content oc) @ replacement @ drop (oc_end oc) (oc_content oc))"
    unfolding ex
    by (auto simp: replaceOccurrence_def haystack_slice match_at_def slice_def occurs_at_def)
qed

section \<open>Replacing by recursion\<close>

text \<open>The reference: from left to right, a match becomes the replacement and is skipped, any other
  character stays.\<close>

function replace_ref :: "lowering \<Rightarrow> find_options \<Rightarrow> string \<Rightarrow> string \<Rightarrow> string \<Rightarrow> nat \<Rightarrow> string \<times> nat" where
  "replace_ref low opts needle r content k =
     (if length content \<le> k then ([], 0)
      else if needle \<noteq> [] \<and> match_at low opts needle content k
      then (let (t, n) = replace_ref low opts needle r content (k + length needle) in (r @ t, Suc n))
      else (let (t, n) = replace_ref low opts needle r content (k + 1) in (content ! k # t, n)))"
  by pat_completeness auto
termination
  by (relation "measure (\<lambda>(low, opts, needle, r, content, k). length content - k)") (auto simp: neq_Nil_conv)

declare replace_ref.simps [simp del]

lemma slice_step: "a < b \<Longrightarrow> a < length s \<Longrightarrow> slice a b s = s ! a # slice (a + 1) b s"
  by (cases b) (simp_all add: slice_def Cons_nth_drop_Suc[symmetric] Suc_diff_le)

lemma slice_snoc: "a \<le> b \<Longrightarrow> b < length s \<Longrightarrow> slice a (b + 1) s = slice a b s @ [s ! b]"
  by (simp add: slice_def Suc_diff_le take_Suc_conv_app_nth)

lemma replace_ref_skip:
  "(\<forall>j. k \<le> j \<and> j < m \<longrightarrow> \<not> match_at low opts needle content j) \<Longrightarrow> k \<le> m \<Longrightarrow> m \<le> length content \<Longrightarrow>
   replace_ref low opts needle r content k = (let (t, n) = replace_ref low opts needle r content m in (slice k m content @ t, n))"
proof (induction "m - k" arbitrary: k)
  case 0
  then show ?case by (simp add: slice_def)
next
  case (Suc d)
  then have k: "k < m" "\<not> match_at low opts needle content k" by auto
  have "replace_ref low opts needle r content (k + 1)
      = (let (t, n) = replace_ref low opts needle r content m in (slice (k + 1) m content @ t, n))"
    using Suc.prems Suc.hyps(2) by (intro Suc.hyps(1)) auto
  then show ?case
    using k Suc.prems(3) by (subst replace_ref.simps) (simp add: slice_step case_prod_beta)
qed

lemma replace_loop_ref:
  "probe = haystack low opts needle \<Longrightarrow> aligned low opts needle \<Longrightarrow> aligned low opts content \<Longrightarrow> needle \<noteq> [] \<Longrightarrow> cursor \<le> length content \<Longrightarrow>
   (case replace_loop low opts probe r content out cursor made of
      (out', cursor', made') \<Rightarrow> (out' @ drop cursor' content, made'))
   = (let (t, n) = replace_ref low opts needle r content cursor in (out @ t, made + n))"
proof (induction low opts probe r content out cursor made rule: replace_loop.induct)
  case (1 low opts probe r content out cursor made)
  have p: "probe \<noteq> []" "length probe = length needle" using "1.prems"(1,2,4) by (simp_all add: aligned_empty)
  show ?case
  proof (cases "index_from probe (haystack low opts content) cursor")
    case None
    have "\<not> match_at low opts needle content j" if "cursor \<le> j" for j
      using index_from_None[OF p(1) None that] "1.prems"(1) by (simp add: match_at_def)
    then have "replace_ref low opts needle r content cursor
        = (let (t, n) = replace_ref low opts needle r content (length content) in (slice cursor (length content) content @ t, n))"
      using "1.prems"(5) by (intro replace_ref_skip) auto
    then have "replace_ref low opts needle r content cursor = (drop cursor content, 0)"
      by (simp add: replace_ref.simps[of low opts needle r content "length content"] slice_def)
    then show ?thesis using None p(1) by (subst replace_loop.simps) simp
  next
    case (Some start)
    then have st: "cursor \<le> start" "occurs_at probe (haystack low opts content) start"
      "\<forall>j. cursor \<le> j \<and> j < start \<longrightarrow> \<not> occurs_at probe (haystack low opts content) j"
      using p(1) by (simp_all add: index_from_Some)
    have len: "start + length needle \<le> length content" using occurs_end[OF p(1) st(2)] p(2) "1.prems"(3) by simp
    then have lt: "start < length content" using "1.prems"(4) by (cases needle; simp)
    have skip: "replace_ref low opts needle r content cursor
        = (let (t, n) = replace_ref low opts needle r content start in (slice cursor start content @ t, n))"
      using st "1.prems"(1) lt by (intro replace_ref_skip) (auto simp: match_at_def)
    show ?thesis
    proof (cases "bounded_ok opts content start (start + length probe)")
      case True
      then have m: "match_at low opts needle content start" using st(2) p(2) "1.prems"(1) by (simp add: match_at_def)
      have "replace_loop low opts probe r content out cursor made
          = replace_loop low opts probe r content (out @ slice cursor start content @ r) (start + length probe) (made + 1)"
        using Some p(1) True by (subst replace_loop.simps) (simp add: Let_def)
      then show ?thesis
        using "1.IH"(1)[OF p(1) Some refl True "1.prems"(1-4)] len p(2) m lt "1.prems"(4)
          replace_ref.simps[of low opts needle r content start] skip
        by (simp add: case_prod_beta Let_def)
    next
      case False
      then have m: "\<not> match_at low opts needle content start" using p(2) by (simp add: match_at_def)
      have "replace_loop low opts probe r content out cursor made
          = replace_loop low opts probe r content (out @ slice cursor (start + 1) content) (start + 1) made"
        using Some p(1) False by (subst replace_loop.simps) (simp add: Let_def)
      then show ?thesis
        using "1.IH"(2)[OF p(1) Some refl False "1.prems"(1-4)] lt m st(1)
          replace_ref.simps[of low opts needle r content start] skip slice_snoc[OF st(1) lt]
        by (simp add: case_prod_beta Let_def)
    qed
  qed
qed

lemma replace_ref_made: "snd (replace_ref low opts needle r content k) = 0 \<longleftrightarrow>
    needle = [] \<or> (\<forall>j. k \<le> j \<and> j < length content \<longrightarrow> \<not> match_at low opts needle content j)"
proof (induction low opts needle r content k rule: replace_ref.induct)
  case (1 low opts needle r content k)
  show ?case
  proof (cases "length content \<le> k")
    case True
    then show ?thesis by (auto simp: replace_ref.simps)
  next
    case F: False
    show ?thesis
    proof (cases "needle \<noteq> [] \<and> match_at low opts needle content k")
      case True
      with F show ?thesis by (subst replace_ref.simps) (auto simp: case_prod_beta Let_def intro!: exI[of _ k])
    next
      case False
      have "(\<forall>j. k \<le> j \<and> j < length content \<longrightarrow> \<not> match_at low opts needle content j) \<longleftrightarrow>
          \<not> match_at low opts needle content k \<and> (\<forall>j. k + 1 \<le> j \<and> j < length content \<longrightarrow> \<not> match_at low opts needle content j)"
        using F by (metis Suc_eq_plus1 le_SucI not_less_eq_eq order_antisym_conv order_refl not_le)
      with 1(2)[OF F False] F False show ?thesis
        by (subst replace_ref.simps) (auto simp: case_prod_beta Let_def)
    qed
  qed
qed


text \<open>A first character \<open>c\<close> with two lower-case code units, as U+0130 has, shifts the match: replacing
  \<open>foo\<close> leaves its first letter, and the replacement stands for the rest.\<close>

lemma lowering_shifts_replacement:
  assumes "low (c # '' foo'') = a # b # '' foo''" and "low ''foo'' = ''foo''"
    and "a \<noteq> CHR ''f''" and "b \<noteq> CHR ''f''" and "\<not> fd_caseSensitive opts" and "\<not> fd_wholeWord opts"
  shows "replace_in_content low opts ''foo'' ''X'' (c # '' foo'') = Some (c # '' fX'', 1)"
proof -
  let ?hay = "a # b # '' foo''"
  have h: "haystack low opts (c # '' foo'') = ?hay" "haystack low opts ''foo'' = ''foo''"
    using assms by (simp_all add: haystack_def)
  have i: "index_from ''foo'' ?hay 0 = Some 3" "index_from ''foo'' ?hay 6 = None"
    using assms(3,4) by (simp_all add: index_from_def eval_nat_numeral)
  have "replace_loop low opts ''foo'' ''X'' (c # '' foo'') [] 0 0 = ((c # '' f'') @ ''X'', 6, 1)"
    using h i assms(6)
    by (subst replace_loop.simps) (subst replace_loop.simps, simp add: slice_def bounded_ok_def eval_nat_numeral)
  then show ?thesis by (simp add: replace_in_content_def h)
qed

text \<open>Replacing a text by itself, with case respected, changes nothing.\<close>

lemma replace_ref_self:
  "fd_caseSensitive opts \<Longrightarrow> r = needle \<Longrightarrow> fst (replace_ref low opts needle r content k) = drop k content"
proof (induction low opts needle r content k rule: replace_ref.induct)
  case (1 low opts needle r content k)
  show ?case
  proof (cases "length content \<le> k")
    case True
    then show ?thesis by (simp add: replace_ref.simps)
  next
    case F: False
    show ?thesis
    proof (cases "needle \<noteq> [] \<and> match_at low opts needle content k")
      case True
      then have "take (length needle) (drop k content) = needle"
        using "1.prems" by (simp add: match_at_def occurs_at_def haystack_def)
      then have "drop k content = needle @ drop (k + length needle) content"
        by (metis add.commute append_take_drop_id drop_drop)
      then show ?thesis using 1(1)[OF F True] True F "1.prems"
        by (subst replace_ref.simps) (simp add: case_prod_beta Let_def)
    next
      case False
      then show ?thesis using 1(2)[OF F False] F "1.prems"
        by (subst replace_ref.simps) (auto simp: case_prod_beta Let_def Cons_nth_drop_Suc)
    qed
  qed
qed

section \<open>Pasted copies and the format painter\<close>

definition PASTE_OFFSET :: jsnum where
  "PASTE_OFFSET = 12"

text \<open>The fresh id is an argument; the deep copy is the value itself.\<close>

definition clonePastedElement :: "uuid \<Rightarrow> jsnum \<Rightarrow> element \<Rightarrow> element" where
  "clonePastedElement fresh offset e = e\<lparr>el_id := fresh,
     el_bounds := (el_bounds e)\<lparr>b_x := max 0 (b_x (el_bounds e) + offset), b_y := max 0 (b_y (el_bounds e) + offset)\<rparr>,
     el_index := None\<rparr>"

definition clonePastedElements :: "uuid list \<Rightarrow> jsnum \<Rightarrow> element list \<Rightarrow> element list" where
  "clonePastedElements fresh offset es = map (\<lambda>(i, e). clonePastedElement i offset e) (zip fresh es)"

record paintable_style =
  ps_fontFamily :: string
  ps_fontSize :: jsnum
  ps_fontWeight :: font_weight
  ps_fontStyle :: font_slant
  ps_color :: string
  ps_textAlign :: text_align
  ps_lineHeight :: jsnum
  ps_underline :: bool
  ps_strikethrough :: bool

definition extractPaintableStyle :: "element \<Rightarrow> paintable_style option" where
  "extractPaintableStyle e = (case el_body e of
       Text_Body c s \<Rightarrow> Some \<lparr>ps_fontFamily = ts_fontFamily s, ps_fontSize = ts_fontSize s,
         ps_fontWeight = ts_fontWeight s, ps_fontStyle = ts_fontStyle s, ps_color = ts_color s,
         ps_textAlign = ts_textAlign s, ps_lineHeight = ts_lineHeight s, ps_underline = ts_underline s,
         ps_strikethrough = ts_strikethrough s\<rparr>
     | _ \<Rightarrow> None)"

definition applyPaintableStyle :: "element \<Rightarrow> paintable_style \<Rightarrow> text_style option" where
  "applyPaintableStyle target p = (case el_body target of
       Text_Body c s \<Rightarrow> Some (s\<lparr>ts_fontFamily := ps_fontFamily p, ts_fontSize := ps_fontSize p,
         ts_fontWeight := ps_fontWeight p, ts_fontStyle := ps_fontStyle p, ts_color := ps_color p,
         ts_textAlign := ps_textAlign p, ts_lineHeight := ps_lineHeight p, ts_underline := ps_underline p,
         ts_strikethrough := ps_strikethrough p\<rparr>)
     | _ \<Rightarrow> None)"

lemma paint_back:
  "extractPaintableStyle e = Some p \<Longrightarrow> applyPaintableStyle e p = Some (tx_style (el_body e))"
  by (cases "el_body e") (auto simp: extractPaintableStyle_def applyPaintableStyle_def)

section \<open>Sample texts\<close>

definition whole_words :: find_options where
  "whole_words = \<lparr>fd_caseSensitive = False, fd_wholeWord = True\<rparr>"

definition plain_style :: text_style where
  "plain_style = \<lparr>ts_fontFamily = ''Helvetica'', ts_fontSize = 12, ts_fontWeight = Normal_Weight,
     ts_fontStyle = Normal_Slant, ts_color = ''#000000'', ts_opacity = 1, ts_textAlign = Align_Left,
     ts_lineHeight = 1, ts_letterSpacing = 0, ts_underline = False, ts_strikethrough = False,
     ts_originalFont = None, ts_optional = []\<rparr>"

definition text_note :: element where
  "text_note = \<lparr>el_id = ''t'', el_bounds = \<lparr>b_x = 0, b_y = 0, b_width = 10, b_height = 10\<rparr>,
     el_transform = \<lparr>t_rotation = 0, t_scaleX = 1, t_scaleY = 1, t_skewX = 0, t_skewY = 0\<rparr>,
     el_layerId = None, el_locked = False, el_visible = True, el_body = Text_Body ''Ab cab'' plain_style,
     el_index = None, el_rest = []\<rparr>"

definition one_page :: "page list" where
  "one_page = [\<lparr>pg_id = ''p'', pg_number = 1, pg_dims = \<lparr>pd_width = 10, pd_height = 10, pd_rotation = R0\<rparr>,
     pg_mediaBox = \<lparr>b_x = 0, b_y = 0, b_width = 10, b_height = 10\<rparr>, pg_elements = [text_note], pg_rest = []\<rparr>]"

theorem occurrences_exact_witness:
  "replaceOccurrence js_lower \<lparr>oc_pageIndex = 0, oc_pageNumber = 1, oc_elementId = ''t'', oc_content = ''Ab cab'',
     oc_start = 0, oc_end = 2\<rparr> ''aB'' ''x'' whole_words = Some ''x cab''"
proof -
  let ?oc = "\<lparr>oc_pageIndex = 0, oc_pageNumber = 1, oc_elementId = ''t'', oc_content = ''Ab cab'', oc_start = 0, oc_end = 2\<rparr>"
  have "match_at js_lower whole_words ''aB'' ''Ab cab'' 0" by code_simp
  then have "?oc \<in> set (findOccurrences js_lower one_page ''aB'' whole_words)"
    using occurrences_exact[of "''aB''" ?oc one_page whole_words "''x''"]
    by (auto simp: one_page_def text_note_def)
  then show ?thesis
    using occurrences_exact[of "''aB''" ?oc one_page whole_words "''x''"] by simp
qed


end
