(* ===== verification/Js_Regex.thy ===== *)
theory Js_Regex
  imports Js_Strings
begin

text \<open>
  Regular expressions as the modelled code writes them: anchored at the start, without
  repetition. \<open>rests r s\<close> lists what is left of \<open>s\<close> after each way a prefix of it matches \<open>r\<close>;
  \<open>re.test(s)\<close> holds when there is one. The lemmas say how a pattern that cannot match a dot
  reads a dotted text field by field.
\<close>

datatype regex =
    Chars string \<comment> \<open>a literal\<close>
  | Class "char list" \<comment> \<open>\<open>[..]\<close>\<close>
  | Cat "regex list"
  | Alts "regex list" \<comment> \<open>\<open>(..|..)\<close>\<close>
  | End_of_input \<comment> \<open>\<open>$\<close>\<close>

text \<open>\<open>\<setminus>d\<close> is the class of the ten digits.\<close>

definition digit_class :: regex where
  "digit_class = Class ''0123456789''"

fun strip_prefix :: "string \<Rightarrow> string \<Rightarrow> string option" where
  "strip_prefix [] s = Some s"
| "strip_prefix (c # p) [] = None"
| "strip_prefix (c # p) (x # s) = (if c = x then strip_prefix p s else None)"

fun rests :: "regex \<Rightarrow> string \<Rightarrow> string list" and rests_seq :: "regex list \<Rightarrow> string \<Rightarrow> string list"
  and rests_alt :: "regex list \<Rightarrow> string \<Rightarrow> string list" where
  "rests (Chars p) s = (case strip_prefix p s of None \<Rightarrow> [] | Some t \<Rightarrow> [t])"
| "rests (Class cs) s = (case s of [] \<Rightarrow> [] | x # t \<Rightarrow> if x \<in> set cs then [t] else [])"
| "rests (Cat rs) s = rests_seq rs s"
| "rests (Alts rs) s = rests_alt rs s"
| "rests End_of_input s = (if s = [] then [[]] else [])"
| "rests_seq [] s = [s]"
| "rests_seq (r # rs) s = concat (map (rests_seq rs) (rests r s))"
| "rests_alt [] s = []"
| "rests_alt (r # rs) s = rests r s @ rests_alt rs s"

definition re_test :: "regex \<Rightarrow> string \<Rightarrow> bool" where
  "re_test r s = (rests r s \<noteq> [])"

text \<open>The \<open>i\<close> flag, for a pattern written in lower case.\<close>

definition re_test_i :: "regex \<Rightarrow> string \<Rightarrow> bool" where
  "re_test_i r s = re_test r (js_lower s)"

text \<open>A pattern none of whose characters is \<open>c\<close> and that does not look for the end.\<close>

fun avoids :: "char \<Rightarrow> regex \<Rightarrow> bool" where
  "avoids c (Chars p) = (c \<notin> set p)"
| "avoids c (Class cs) = (c \<notin> set cs)"
| "avoids c (Cat rs) = list_all (avoids c) rs"
| "avoids c (Alts rs) = list_all (avoids c) rs"
| "avoids c End_of_input = False"

lemma strip_prefix_avoids:
  "c \<notin> set p \<Longrightarrow> strip_prefix p (s @ c # t) = map_option (\<lambda>u. u @ c # t) (strip_prefix p s)"
  by (induction p s rule: strip_prefix.induct) auto

lemma rests_avoids:
  "avoids c r \<Longrightarrow> rests r (s @ c # t) = map (\<lambda>u. u @ c # t) (rests r s)"
  "list_all (avoids c) rs \<Longrightarrow> rests_seq rs (s @ c # t) = map (\<lambda>u. u @ c # t) (rests_seq rs s)"
  "list_all (avoids c) rs \<Longrightarrow> rests_alt rs (s @ c # t) = map (\<lambda>u. u @ c # t) (rests_alt rs s)"
proof (induction r s and rs s and rs s rule: rests_rests_seq_rests_alt.induct)
  case (1 p s)
  then show ?case by (simp add: strip_prefix_avoids split: option.splits)
next
  case (2 cs s)
  then show ?case by (cases s) auto
next
  case (7 r rs s)
  then show ?case by (simp add: map_concat comp_def cong: map_cong)
qed auto

text \<open>A field up to the next dot is read by itself.\<close>

definition matches_all :: "regex \<Rightarrow> string \<Rightarrow> bool" where
  "matches_all r s = ([] \<in> set (rests r s))"

lemma rests_suffix: "u \<in> set (rests r s) \<Longrightarrow> \<exists>v. s = v @ u"
  "u \<in> set (rests_seq rs s) \<Longrightarrow> \<exists>v. s = v @ u"
  "u \<in> set (rests_alt rs s) \<Longrightarrow> \<exists>v. s = v @ u"
proof (induction r s and rs s and rs s arbitrary: u and u and u rule: rests_rests_seq_rests_alt.induct)
  case (1 p s)
  have "strip_prefix p s = Some u \<Longrightarrow> s = p @ u"
    by (induction p s rule: strip_prefix.induct) (auto split: if_splits)
  then show ?case using 1 by (auto split: option.splits)
next
  case (2 cs s)
  then show ?case by (cases s) (auto split: if_splits)
next
  case (7 r rs s)
  then show ?case by fastforce
qed (auto split: if_splits)

text \<open>The rest of the text matters only when the pattern has read the whole field.\<close>

lemma rests_seq_field:
  assumes "avoids c r" "c \<notin> set s"
  shows "set (rests_seq (r # Chars [c] # rs) (s @ c # t))
    = (if matches_all r s then set (rests_seq rs t) else {})"
proof -
  have field: "set (rests_seq (Chars [c] # rs) (u @ c # t)) = (if u = [] then set (rests_seq rs t) else {})"
    if "u \<in> set (rests r s)" for u
  proof (cases u)
    case (Cons x xs)
    with rests_suffix(1)[OF that] assms(2) have "x \<noteq> c" by auto
    with Cons show ?thesis by auto
  qed simp
  have "set (rests_seq (r # Chars [c] # rs) (s @ c # t))
      = (\<Union>u\<in>set (rests r s). set (rests_seq (Chars [c] # rs) (u @ c # t)))"
    by (simp only: rests_seq.simps(2)[of r] rests_avoids(1)[OF assms(1)] set_concat set_map image_image)
  also have "\<dots> = (\<Union>u\<in>set (rests r s). if u = [] then set (rests_seq rs t) else {})"
    by (rule SUP_cong[OF refl]) (rule field)
  finally show ?thesis by (auto simp: matches_all_def split: if_splits)
qed

lemma re_test_field:
  assumes "avoids c r" "c \<notin> set s"
  shows "re_test (Cat (r # Chars [c] # rs)) (s @ c # t) \<longleftrightarrow> matches_all r s \<and> re_test (Cat rs) t"
proof -
  have "rests_seq (r # Chars [c] # rs) (s @ c # t) \<noteq> [] \<longleftrightarrow> matches_all r s \<and> rests_seq rs t \<noteq> []"
    using rests_seq_field[OF assms, of rs t] by (metis set_empty)
  then show ?thesis by (simp only: re_test_def rests.simps)
qed

lemma re_test_Cat_Nil [simp]: "re_test (Cat []) s"
  by (simp add: re_test_def)

text \<open>Without the end of input, a pattern matches finitely many texts.\<close>

fun lang :: "regex \<Rightarrow> string list" and lang_seq :: "regex list \<Rightarrow> string list"
  and lang_alt :: "regex list \<Rightarrow> string list" where
  "lang (Chars p) = [p]"
| "lang (Class cs) = map (\<lambda>c. [c]) cs"
| "lang (Cat rs) = lang_seq rs"
| "lang (Alts rs) = lang_alt rs"
| "lang End_of_input = []"
| "lang_seq [] = [[]]"
| "lang_seq (r # rs) = concat (map (\<lambda>u. map ((@) u) (lang_seq rs)) (lang r))"
| "lang_alt [] = []"
| "lang_alt (r # rs) = lang r @ lang_alt rs"

lemma strip_prefix_Some: "strip_prefix p s = Some u \<longleftrightarrow> s = p @ u"
  by (induction p s rule: strip_prefix.induct) auto

lemma rests_lang:
  "avoids c r \<Longrightarrow> u \<in> set (rests r s) \<longleftrightarrow> (\<exists>v\<in>set (lang r). s = v @ u)"
  "list_all (avoids c) rs \<Longrightarrow> u \<in> set (rests_seq rs s) \<longleftrightarrow> (\<exists>v\<in>set (lang_seq rs). s = v @ u)"
  "list_all (avoids c) rs \<Longrightarrow> u \<in> set (rests_alt rs s) \<longleftrightarrow> (\<exists>v\<in>set (lang_alt rs). s = v @ u)"
proof (induction r s and rs s and rs s arbitrary: u and u and u rule: rests_rests_seq_rests_alt.induct)
  case (1 p s)
  show ?case using strip_prefix_Some[of p s u] by (auto split: option.splits)
next
  case (2 cs s)
  then show ?case by (cases s) auto
next
  case (7 r rs s)
  have "u \<in> set (rests_seq (r # rs) s) \<longleftrightarrow> (\<exists>x\<in>set (rests r s). u \<in> set (rests_seq rs x))"
    by simp
  also have "\<dots> \<longleftrightarrow> (\<exists>x\<in>set (rests r s). \<exists>v\<in>set (lang_seq rs). x = v @ u)"
    using 7 by simp
  also have "\<dots> \<longleftrightarrow> (\<exists>v\<in>set (lang_seq rs). \<exists>w\<in>set (lang r). s = w @ v @ u)"
    using 7 by auto
  finally show ?case by auto
qed auto

lemma matches_lang: "avoids c r \<Longrightarrow> matches_all r s \<longleftrightarrow> s \<in> set (lang r)"
  by (simp add: matches_all_def rests_lang)

lemma matches_Chars: "matches_all (Chars p) s \<longleftrightarrow> s = p"
proof -
  have "[] \<in> set (case strip_prefix p s of None \<Rightarrow> [] | Some t \<Rightarrow> [t]) \<longleftrightarrow> strip_prefix p s = Some []"
    by (auto split: option.splits)
  then show ?thesis by (simp add: matches_all_def strip_prefix_Some)
qed

end
