(* ===== verification/Ssrf.thy ===== *)
theory Ssrf
  imports Js_Regex "HOL-Library.Word"
begin

text \<open>
  \<open>apps/web/src/lib/security/url-validation.ts\<close>: which addresses count as private, the domain
  allowlist, the check of a URL before the engine converts it to PDF, and the guard of every
  request the engine makes for it. The URL parser and the three DNS queries are parameters.
  An IPv4 address is a \<open>32 word\<close>, and its text the four octets in decimal: the patterns on the
  text are compared with prefixes of the word.
\<close>

section \<open>Private addresses\<close>

definition dot :: regex where
  "dot = Chars ''.''"

definition second_octet_172 :: regex where
  "second_octet_172 = Alts [Cat [Chars ''1'', Class ''6789''], Cat [Chars ''2'', digit_class],
     Cat [Chars ''3'', Class ''01'']]"

definition second_octet_100 :: regex where
  "second_octet_100 = Alts [Cat [Chars ''6'', Class ''456789''], Cat [Class ''789'', digit_class],
     Cat [Chars ''1'', Class ''01'', digit_class], Cat [Chars ''12'', Class ''01234567'']]"

definition PRIVATE_IPV4_PATTERNS :: "regex list" where
  "PRIVATE_IPV4_PATTERNS = [
     Cat [Chars ''127'', dot],
     Cat [Chars ''10'', dot],
     Cat [Chars ''172'', dot, second_octet_172, dot],
     Cat [Chars ''192'', dot, Chars ''168'', dot],
     Cat [Chars ''169'', dot, Chars ''254'', dot],
     Cat [Chars ''0'', dot],
     Cat [Chars ''100'', dot, second_octet_100, dot],
     Cat [Chars ''192'', dot, Chars ''0'', dot, Chars ''2'', dot],
     Cat [Chars ''198'', dot, Cat [Chars ''5'', Class ''12''], dot],
     Cat [Chars ''203'', dot, Chars ''0'', dot, Chars ''113'', dot],
     Cat [Chars ''224'', dot],
     Cat [Chars ''240'', dot],
     Cat [Chars ''255'', dot, Chars ''255'', dot, Chars ''255'', dot, Chars ''255'', End_of_input]]"

definition PRIVATE_IPV6_PATTERNS :: "regex list" where
  "PRIVATE_IPV6_PATTERNS = [
     Cat [Chars ''::1'', End_of_input],
     Chars ''fc'',
     Chars ''fd'',
     Chars ''fe80:'',
     Chars ''::ffff:'',
     Chars ''64:ff9b:'']"

definition strip_brackets :: "string \<Rightarrow> string" where
  "strip_brackets ip = (let s = (case ip of c # t \<Rightarrow> if c = CHR ''['' then t else ip | [] \<Rightarrow> [])
     in if s \<noteq> [] \<and> last s = CHR '']'' then butlast s else s)"

definition isPrivateIp :: "string \<Rightarrow> bool" where
  "isPrivateIp ip = (let cleaned = strip_brackets ip
     in if js_includes '':'' cleaned then list_ex (\<lambda>re. re_test_i re cleaned) PRIVATE_IPV6_PATTERNS
        else list_ex (\<lambda>re. re_test re cleaned) PRIVATE_IPV4_PATTERNS)"

section \<open>The address as a word\<close>

text \<open>Octet \<open>k\<close> counted from the least significant one.\<close>

definition octet :: "nat \<Rightarrow> 32 word \<Rightarrow> nat" where
  "octet k w = unat (take_bit 8 (drop_bit (8 * k) w))"

definition dotted :: "nat \<Rightarrow> nat \<Rightarrow> nat \<Rightarrow> nat \<Rightarrow> string" where
  "dotted a b c d = nat_str 10 a @ ''.'' @ nat_str 10 b @ ''.'' @ nat_str 10 c @ ''.'' @ nat_str 10 d"

definition dotted_quad :: "32 word \<Rightarrow> string" where
  "dotted_quad w = dotted (octet 3 w) (octet 2 w) (octet 1 w) (octet 0 w)"

text \<open>The block \<open>a.b.c.d/n\<close>: the first \<open>n\<close> bits of the address are those of the prefix.\<close>

definition ip4 :: "nat \<Rightarrow> nat \<Rightarrow> nat \<Rightarrow> nat \<Rightarrow> 32 word" where
  "ip4 a b c d = word_of_nat (((a * 256 + b) * 256 + c) * 256 + d)"

definition in_cidr :: "32 word \<Rightarrow> 32 word \<times> nat \<Rightarrow> bool" where
  "in_cidr w pn = (drop_bit (32 - snd pn) w = drop_bit (32 - snd pn) (fst pn))"

text \<open>The blocks the patterns test, and the blocks their comments name.\<close>

definition tested_blocks :: "(32 word \<times> nat) list" where
  "tested_blocks = [(ip4 127 0 0 0, 8), (ip4 10 0 0 0, 8), (ip4 172 16 0 0, 12), (ip4 192 168 0 0, 16),
     (ip4 169 254 0 0, 16), (ip4 0 0 0 0, 8), (ip4 100 64 0 0, 10), (ip4 192 0 2 0, 24),
     (ip4 198 51 0 0, 16), (ip4 198 52 0 0, 16), (ip4 203 0 113 0, 24), (ip4 224 0 0 0, 8),
     (ip4 240 0 0 0, 8), (ip4 255 255 255 255, 32)]"

definition documented_blocks :: "(32 word \<times> nat) list" where
  "documented_blocks = [(ip4 127 0 0 0, 8), (ip4 10 0 0 0, 8), (ip4 172 16 0 0, 12), (ip4 192 168 0 0, 16),
     (ip4 169 254 0 0, 16), (ip4 0 0 0 0, 8), (ip4 100 64 0 0, 10), (ip4 192 0 2 0, 24),
     (ip4 198 51 100 0, 24), (ip4 203 0 113 0, 24), (ip4 224 0 0 0, 4),
     (ip4 240 0 0 0, 4), (ip4 255 255 255 255, 32)]"

lemma octet_nat: "octet k w = unat w div 256 ^ k mod 256"
proof -
  have "(2::nat) ^ (8 * k) = 256 ^ k" by (simp add: power_mult)
  then show ?thesis
    by (simp only: octet_def unsigned_take_bit_eq unat_drop_bit_eq)
      (simp only: take_bit_eq_mod drop_bit_eq_div, simp)
qed

lemma octet_lt [simp]: "octet k w < 256"
  by (simp add: octet_nat)

lemma in_cidr_nat: "in_cidr w (p, n) \<longleftrightarrow> unat w div 2 ^ (32 - n) = unat p div 2 ^ (32 - n)"
  by (simp only: in_cidr_def word_unat_eq_iff unat_drop_bit_eq fst_conv snd_conv)
    (simp only: drop_bit_eq_div)

lemma two_digits: "(y::nat) < 256 \<Longrightarrow> y' < 256 \<Longrightarrow> x * 256 + y = x' * 256 + y' \<longleftrightarrow> x = x' \<and> y = y'"
  by (metis add_right_cancel div_less div_mult_self3 add.right_neutral add.commute zero_neq_numeral
      add_left_cancel)

lemma drop_digit: "(y::nat) < 256 \<Longrightarrow> (x * 256 + y) div (256 * m) = x div m"
  by (simp add: div_mult2_eq)

lemma split_div: "(y::nat) < 256 \<Longrightarrow> y' < 256 \<Longrightarrow> k * m = 256 \<Longrightarrow>
    (x * 256 + y) div k = (x' * 256 + y') div k \<longleftrightarrow> x = x' \<and> y div k = y' div k"
proof -
  assume b: "y < 256" "y' < 256" and k: "k * m = 256"
  then have k0: "k \<noteq> 0" by (cases k) auto
  have e: "(z * 256 + u) div k = z * m + u div k" for z u
    using k k0 by (metis div_mult_self3 mult.assoc mult.commute)
  have l: "u div k < m" if "u < 256" for u
    using that k k0 by (simp add: less_mult_imp_div_less mult.commute)
  have m: "m \<noteq> 0" using k by (cases m) auto
  show ?thesis unfolding e
    using l[OF b(1)] l[OF b(2)] m
    by (metis add.commute div_less div_mult_self3 add.right_neutral add_left_cancel)
qed

lemma word_octets:
  "unat w = ((octet 3 w * 256 + octet 2 w) * 256 + octet 1 w) * 256 + octet 0 w"
proof -
  have "unat w < 4294967296" using unsigned_less[of w] by simp
  then have "unat w div 256 ^ 3 < 256" by simp
  then have o3: "octet 3 w = unat w div 256 div 256 div 256"
    by (simp add: octet_nat div_mult2_eq[symmetric])
  have o2: "octet 2 w = unat w div 256 div 256 mod 256" and o1: "octet 1 w = unat w div 256 mod 256"
    and o0: "octet 0 w = unat w mod 256"
    by (simp_all add: octet_nat div_mult2_eq[symmetric])
  show ?thesis unfolding o3 o2 o1 o0 by (simp only: div_mult_mod_eq)
qed

lemma ip4_octets:
  assumes "a < 256" "b < 256" "c < 256" "d < 256"
  shows "unat (ip4 a b c d) = ((a * 256 + b) * 256 + c) * 256 + d"
proof -
  have "((a * 256 + b) * 256 + c) * 256 + d < 2 ^ 32" using assms by simp
  then show ?thesis by (simp only: ip4_def unsigned_of_nat take_bit_eq_mod) simp
qed

lemma dotted_ip4:
  assumes "a < 256" "b < 256" "c < 256" "d < 256"
  shows "dotted_quad (ip4 a b c d) = dotted a b c d"
proof -
  have "octet 3 (ip4 a b c d) = a" "octet 2 (ip4 a b c d) = b" "octet 1 (ip4 a b c d) = c"
    "octet 0 (ip4 a b c d) = d"
    using word_octets[of "ip4 a b c d"] by (simp_all only: ip4_octets[OF assms] two_digits octet_lt assms)
  then show ?thesis by (simp add: dotted_quad_def)
qed

text \<open>Membership in a block, by the length of its prefix.\<close>

lemma in_cidr_octets:
  assumes "a < 256" "b < 256" "c < 256" "d < 256"
  defines "p \<equiv> ip4 a b c d"
  shows "in_cidr w (p, 8) \<longleftrightarrow> octet 3 w = a"
    "in_cidr w (p, 16) \<longleftrightarrow> octet 3 w = a \<and> octet 2 w = b"
    "in_cidr w (p, 24) \<longleftrightarrow> octet 3 w = a \<and> octet 2 w = b \<and> octet 1 w = c"
    "in_cidr w (p, 32) \<longleftrightarrow> octet 3 w = a \<and> octet 2 w = b \<and> octet 1 w = c \<and> octet 0 w = d"
    "in_cidr w (p, 4) \<longleftrightarrow> octet 3 w div 16 = a div 16"
    "in_cidr w (p, 10) \<longleftrightarrow> octet 3 w = a \<and> octet 2 w div 64 = b div 64"
    "in_cidr w (p, 12) \<longleftrightarrow> octet 3 w = a \<and> octet 2 w div 16 = b div 16"
proof -
  have p: "(2::nat) ^ 24 = 256 * (256 * (256 * 1))" "(2::nat) ^ 16 = 256 * (256 * 1)" "(2::nat) ^ 8 = 256 * 1"
    "(2::nat) ^ 0 = 1" "(2::nat) ^ 28 = 256 * (256 * (256 * 16))" "(2::nat) ^ 22 = 256 * (256 * 64)"
    "(2::nat) ^ 20 = 256 * (256 * 16)"
    by simp_all
  have k: "64 * 4 = (256::nat)" "16 * 16 = (256::nat)" by simp_all
  note r = in_cidr_nat p_def ip4_octets[OF assms(1-4)] word_octets[of w]
  have d: "32 - 8 = (24::nat)" "32 - 16 = (16::nat)" "32 - 24 = (8::nat)" "32 - 32 = (0::nat)"
    "32 - 4 = (28::nat)" "32 - 10 = (22::nat)" "32 - 12 = (20::nat)" by simp_all
  note q = drop_digit[OF octet_lt] drop_digit[OF assms(2)] drop_digit[OF assms(3)] drop_digit[OF assms(4)]
    two_digits[OF octet_lt assms(2)] two_digits[OF octet_lt assms(3)] two_digits[OF octet_lt assms(4)]
    split_div[OF octet_lt assms(2) k(1)] split_div[OF octet_lt assms(2) k(2)]
  show "in_cidr w (p, 8) \<longleftrightarrow> octet 3 w = a"
    "in_cidr w (p, 16) \<longleftrightarrow> octet 3 w = a \<and> octet 2 w = b"
    "in_cidr w (p, 24) \<longleftrightarrow> octet 3 w = a \<and> octet 2 w = b \<and> octet 1 w = c"
    "in_cidr w (p, 32) \<longleftrightarrow> octet 3 w = a \<and> octet 2 w = b \<and> octet 1 w = c \<and> octet 0 w = d"
    "in_cidr w (p, 4) \<longleftrightarrow> octet 3 w div 16 = a div 16"
    "in_cidr w (p, 10) \<longleftrightarrow> octet 3 w = a \<and> octet 2 w div 64 = b div 64"
    "in_cidr w (p, 12) \<longleftrightarrow> octet 3 w = a \<and> octet 2 w div 16 = b div 16"
    by (simp_all only: r d p q div_by_1 conj_assoc)
qed

lemma nat_str_eq: "nat_str 10 m = nat_str 10 n \<longleftrightarrow> m = n"
  by (auto dest: nat_str_inj)

lemma lang_172: "lang second_octet_172 = map (nat_str 10) [16..<32]"
  by code_simp

lemma lang_100: "lang second_octet_100 = map (nat_str 10) [64..<128]"
  by code_simp

lemma lang_198: "lang (Cat [Chars ''5'', Class ''12'']) = map (nat_str 10) [51..<53]"
  by code_simp

lemma matches_octet:
  "matches_all second_octet_172 (nat_str 10 n) \<longleftrightarrow> 16 \<le> n \<and> n < 32"
  "matches_all second_octet_100 (nat_str 10 n) \<longleftrightarrow> 64 \<le> n \<and> n < 128"
  "matches_all (Cat [Chars ''5'', Class ''12'']) (nat_str 10 n) \<longleftrightarrow> n = 51 \<or> n = 52"
proof -
  have a: "avoids CHR ''.'' second_octet_172" "avoids CHR ''.'' second_octet_100"
    "avoids CHR ''.'' (Cat [Chars ''5'', Class ''12''])"
    by code_simp+
  show "matches_all second_octet_172 (nat_str 10 n) \<longleftrightarrow> 16 \<le> n \<and> n < 32"
    unfolding matches_lang[OF a(1)] lang_172 set_map set_upt image_iff by (auto simp: nat_str_eq)
  show "matches_all second_octet_100 (nat_str 10 n) \<longleftrightarrow> 64 \<le> n \<and> n < 128"
    unfolding matches_lang[OF a(2)] lang_100 set_map set_upt image_iff by (auto simp: nat_str_eq)
  show "matches_all (Cat [Chars ''5'', Class ''12'']) (nat_str 10 n) \<longleftrightarrow> n = 51 \<or> n = 52"
    unfolding matches_lang[OF a(3)] lang_198 set_map image_iff by (auto simp: nat_str_eq)
qed

text \<open>A literal octet is the number it spells.\<close>

lemma matches_number: "nat_str 10 k = p \<Longrightarrow> matches_all (Chars p) (nat_str 10 n) \<longleftrightarrow> n = k"
  using nat_str_eq[of n k] by (auto simp: matches_Chars)

lemma number_literals:
  "nat_str 10 127 = ''127''" "nat_str 10 10 = ''10''" "nat_str 10 172 = ''172''" "nat_str 10 192 = ''192''"
  "nat_str 10 168 = ''168''" "nat_str 10 169 = ''169''" "nat_str 10 254 = ''254''" "nat_str 10 0 = ''0''"
  "nat_str 10 100 = ''100''" "nat_str 10 2 = ''2''" "nat_str 10 198 = ''198''" "nat_str 10 203 = ''203''"
  "nat_str 10 113 = ''113''" "nat_str 10 224 = ''224''" "nat_str 10 240 = ''240''" "nat_str 10 255 = ''255''"
  by code_simp+

lemmas octet_matches = number_literals[THEN matches_number] matches_octet

lemma no_dot: "CHR ''.'' \<notin> set (nat_str 10 n)" "CHR '':'' \<notin> set (nat_str 10 n)"
proof -
  have "list_all (is_digit 10) (nat_str 10 n)" by (simp add: nat_str_digits)
  moreover have "\<not> is_digit 10 CHR ''.''" "\<not> is_digit 10 CHR '':''" by code_simp+
  ultimately show "CHR ''.'' \<notin> set (nat_str 10 n)" "CHR '':'' \<notin> set (nat_str 10 n)"
    by (auto simp: list_all_iff)
qed

lemma field_test:
  "avoids CHR ''.'' r \<Longrightarrow> re_test (Cat (r # dot # rs)) (nat_str 10 n @ ''.'' @ t)
     \<longleftrightarrow> matches_all r (nat_str 10 n) \<and> re_test (Cat rs) t"
  using re_test_field[of "CHR ''.''" r "nat_str 10 n" rs t] no_dot(1) by (simp add: dot_def)

lemma last_test: "re_test (Cat [Chars p, End_of_input]) s \<longleftrightarrow> matches_all (Chars p) s"
  by (cases "strip_prefix p s") (auto simp: re_test_def matches_all_def)

section \<open>The patterns as blocks\<close>

lemma js_includes_char: "js_includes [c] s \<longleftrightarrow> c \<in> set s"
  by (induction s) auto

lemma dotted_plain:
  "strip_brackets (dotted a b c d) = dotted a b c d" "\<not> js_includes '':'' (dotted a b c d)"
proof -
  have digit: "nat_str 10 n \<noteq> []" "\<forall>x\<in>set (nat_str 10 n). is_digit 10 x" for n
    using nat_str_digits[of 10 n] by (simp_all add: list_all_iff)
  have "\<not> is_digit 10 CHR ''[''" "\<not> is_digit 10 CHR '']''" by code_simp+
  then have "hd (nat_str 10 a) \<noteq> CHR ''[''" "last (nat_str 10 d) \<noteq> CHR '']''"
    using digit by (metis list.set_sel(1), metis last_in_set)
  with digit(1) show "strip_brackets (dotted a b c d) = dotted a b c d"
    by (cases "nat_str 10 a") (auto simp: strip_brackets_def dotted_def)
  show "\<not> js_includes '':'' (dotted a b c d)"
    using no_dot(2) by (simp add: js_includes_char dotted_def)
qed

definition private_octets :: "nat \<Rightarrow> nat \<Rightarrow> nat \<Rightarrow> nat \<Rightarrow> bool" where
  "private_octets a b c d \<longleftrightarrow> a = 127 \<or> a = 10 \<or> a = 172 \<and> 16 \<le> b \<and> b < 32 \<or> a = 192 \<and> b = 168
     \<or> a = 169 \<and> b = 254 \<or> a = 0 \<or> a = 100 \<and> 64 \<le> b \<and> b < 128 \<or> a = 192 \<and> b = 0 \<and> c = 2
     \<or> a = 198 \<and> (b = 51 \<or> b = 52) \<or> a = 203 \<and> b = 0 \<and> c = 113 \<or> a = 224 \<or> a = 240
     \<or> a = 255 \<and> b = 255 \<and> c = 255 \<and> d = 255"

lemma avoids_dot:
  "avoids CHR ''.'' second_octet_172" "avoids CHR ''.'' second_octet_100"
  "avoids CHR ''.'' (Cat [Chars ''5'', Class ''12''])"
  by code_simp+

lemma isPrivate_octets: "isPrivateIp (dotted a b c d) \<longleftrightarrow> private_octets a b c d"
  unfolding isPrivateIp_def Let_def dotted_plain(1) PRIVATE_IPV4_PATTERNS_def private_octets_def
  by (simp add: dotted_plain(2)[unfolded dotted_def] dotted_def field_test last_test avoids_dot
      octet_matches del: append_Cons rests.simps)

lemma div_block:
  "(x::nat) div 16 = 1 \<longleftrightarrow> 16 \<le> x \<and> x < 32" "x div 64 = 1 \<longleftrightarrow> 64 \<le> x \<and> x < 128"
  "x div 16 = 14 \<longleftrightarrow> 224 \<le> x \<and> x < 240" "x div 16 = 15 \<longleftrightarrow> 240 \<le> x \<and> x < 256"
  by auto

lemma tested_octets:
  "list_ex (in_cidr w) tested_blocks \<longleftrightarrow> private_octets (octet 3 w) (octet 2 w) (octet 1 w) (octet 0 w)"
  unfolding tested_blocks_def private_octets_def
  by (simp add: in_cidr_octets div_block conj_disj_distribL disj_assoc del: One_nat_def)

lemma documented_octets:
  "list_ex (in_cidr w) documented_blocks \<longleftrightarrow>
     (private_octets (octet 3 w) (octet 2 w) (octet 1 w) (octet 0 w)
        \<and> (octet 3 w = 198 \<longrightarrow> octet 2 w = 51 \<and> octet 1 w = 100)) \<or> 224 \<le> octet 3 w"
proof (cases "224 \<le> octet 3 w")
  case True
  moreover have "octet 3 w < 240 \<or> 240 \<le> octet 3 w \<and> octet 3 w < 256"
    using octet_lt[of 3 w] by linarith
  ultimately show ?thesis
    unfolding documented_blocks_def by (auto simp: in_cidr_octets div_block simp del: One_nat_def)
next
  case False
  then have "octet 3 w \<noteq> 224" "octet 3 w \<noteq> 240" "octet 3 w \<noteq> 255" "\<not> 240 \<le> octet 3 w" by auto
  with False show ?thesis
    unfolding documented_blocks_def private_octets_def
    by (cases "octet 3 w = 198")
      ((simp add: in_cidr_octets div_block del: One_nat_def, blast),
        simp add: in_cidr_octets div_block del: One_nat_def)
qed

lemma multicast_private:
  "224 \<le> a \<Longrightarrow> private_octets a b c d \<longleftrightarrow> a = 224 \<or> a = 240 \<or> a = 255 \<and> b = 255 \<and> c = 255 \<and> d = 255"
proof -
  assume "224 \<le> a"
  then have "a \<noteq> 127" "a \<noteq> 10" "a \<noteq> 172" "a \<noteq> 192" "a \<noteq> 169" "a \<noteq> 0" "a \<noteq> 100" "a \<noteq> 198" "a \<noteq> 203"
    by auto
  then show ?thesis by (simp add: private_octets_def)
qed

lemma private_198: "private_octets 198 b c d \<longleftrightarrow> b = 51 \<or> b = 52"
  by (simp add: private_octets_def)

lemma all_ones: "w = ip4 255 255 255 255 \<longleftrightarrow>
    octet 3 w = 255 \<and> octet 2 w = 255 \<and> octet 1 w = 255 \<and> octet 0 w = 255"
  using in_cidr_octets(4)[of 255 255 255 255 w] by (simp add: in_cidr_def)

text \<open>Against the blocks the comments name, the patterns let through every multicast address
  outside 224.0.0.0/8 and every reserved address outside 240.0.0.0/8 but the broadcast address
  (both comments say /4), and they refuse 198.52.0.0/16 and the part of 198.51.0.0/16 that is not
  TEST-NET-2.\<close>

lemma ipv4_blocks_against_comments:
  "(list_ex (in_cidr w) documented_blocks \<and> \<not> isPrivateIp (dotted_quad w) \<longleftrightarrow>
      (225 \<le> octet 3 w \<and> octet 3 w \<noteq> 240 \<and> w \<noteq> ip4 255 255 255 255)) \<and>
   (\<not> list_ex (in_cidr w) documented_blocks \<and> isPrivateIp (dotted_quad w) \<longleftrightarrow>
      octet 3 w = 198 \<and> (octet 2 w = 52 \<or> octet 2 w = 51 \<and> octet 1 w \<noteq> 100))"
proof (cases "224 \<le> octet 3 w")
  case True
  then have "octet 3 w \<noteq> 198" "octet 3 w = 224 \<or> 225 \<le> octet 3 w" by auto
  then show ?thesis
    unfolding dotted_quad_def isPrivate_octets documented_octets all_ones multicast_private[OF True]
    using True by auto
next
  case False
  then have "\<not> 225 \<le> octet 3 w" by simp
  with False show ?thesis
    unfolding dotted_quad_def isPrivate_octets documented_octets
    by (cases "octet 3 w = 198") (auto simp: private_198)
qed

text \<open>C27: The regular expressions that decide whether the text of an IPv4 address is private disagree with the
  blocks their comments name. They hold of an address exactly when its 32-bit word lies in one of
  127/8, 10/8, 172.16/12, 192.168/16, 169.254/16, 0/8, 100.64/10, 192.0.2/24, 198.51/16, 198.52/16, 203.0.113/24,
  224/8, 240/8 and 255.255.255.255. The comments name 198.51.100.0/24 instead of the two 198 blocks, and
  224.0.0.0/4 and 240.0.0.0/4 instead of the two /8 blocks: so of the documented addresses exactly those
  from 225.0.0.0 on, outside 240/8 and other than the broadcast address, count as public, and of the
  undocumented ones exactly 198.52/16 and 198.51/16 outside 198.51.100/24 count as private.\<close>

theorem ipv4_patterns_are_blocks:
  "(isPrivateIp (dotted_quad w) \<longleftrightarrow> list_ex (in_cidr w) tested_blocks)
   \<and> (list_ex (in_cidr w) documented_blocks \<and> \<not> isPrivateIp (dotted_quad w) \<longleftrightarrow>
        225 \<le> octet 3 w \<and> octet 3 w \<noteq> 240 \<and> w \<noteq> ip4 255 255 255 255)
   \<and> (\<not> list_ex (in_cidr w) documented_blocks \<and> isPrivateIp (dotted_quad w) \<longleftrightarrow>
        octet 3 w = 198 \<and> (octet 2 w = 52 \<or> octet 2 w = 51 \<and> octet 1 w \<noteq> 100))"
  using ipv4_blocks_against_comments[of w] by (simp add: dotted_quad_def isPrivate_octets tested_octets)

section \<open>The check before a conversion\<close>

text \<open>What \<open>new URL(raw)\<close> gives of a URL that parses. The parser is a parameter.\<close>

record url =
  url_protocol :: string
  url_host :: string
  url_hostname :: string
  url_pathname :: string

type_synonym url_parser = "string \<Rightarrow> url option"

text \<open>The three DNS queries; \<open>None\<close> is a rejected promise.\<close>

record dns =
  resolve4 :: "string \<Rightarrow> string list option"
  resolve6 :: "string \<Rightarrow> string list option"
  resolve_any :: "string \<Rightarrow> string list option"

datatype url_error =
    Malformed_url | Bad_protocol | Direct_private string | Not_in_allowlist string
  | Unresolvable string | Resolves_to_private string string

text \<open>Which of them are \<open>SsrfBlockedError\<close>, with the address it carries.\<close>

fun ssrf_blocked :: "url_error \<Rightarrow> string option option" where
  "ssrf_blocked (Direct_private h) = Some (Some h)"
| "ssrf_blocked (Not_in_allowlist h) = Some None"
| "ssrf_blocked (Resolves_to_private h ip) = Some (Some ip)"
| "ssrf_blocked e = None"

definition redactUrl :: "url_parser \<Rightarrow> string \<Rightarrow> string" where
  "redactUrl parse raw = (case parse raw of
       Some u \<Rightarrow> url_protocol u @ ''//'' @ url_host u @ url_pathname u
     | None \<Rightarrow> ''[unparseable-url]'')"

text \<open>\<open>process.env['URL_TO_PDF_DOMAIN_ALLOWLIST']\<close>, \<open>None\<close> when it is not set.\<close>

definition getAllowlistedDomains :: "string option \<Rightarrow> string list option" where
  "getAllowlistedDomains env = (case env of
       None \<Rightarrow> None
     | Some raw \<Rightarrow>
         if js_trim raw = [] then None
         else (let domains = filter (\<lambda>d. d \<noteq> []) (map (\<lambda>d. js_lower (js_trim d)) (js_split CHR '','' raw))
           in if domains = [] then None else Some (set_of_list domains)))"

definition ends_with :: "string \<Rightarrow> string \<Rightarrow> bool" where
  "ends_with t s \<longleftrightarrow> length t \<le> length s \<and> drop (length s - length t) s = t"

definition host_allowed :: "string \<Rightarrow> string \<Rightarrow> bool" where
  "host_allowed h d \<longleftrightarrow> h = d \<or> ends_with (CHR ''.'' # d) h"

definition allowlist_ok :: "string list option \<Rightarrow> string \<Rightarrow> bool" where
  "allowlist_ok al h = (case al of None \<Rightarrow> True | Some ds \<Rightarrow> list_ex (host_allowed h) ds)"

text \<open>\<open>if (r.status === 'fulfilled') addresses.push(...r.value)\<close>\<close>

definition fulfilled :: "string list option \<Rightarrow> string list" where
  "fulfilled r = (case r of None \<Rightarrow> [] | Some xs \<Rightarrow> xs)"

definition dns_addresses :: "dns \<Rightarrow> string \<Rightarrow> string list option" where
  "dns_addresses d h = (let addresses = fulfilled (resolve4 d h) @ fulfilled (resolve6 d h)
     in if addresses = [] then resolve_any d h else Some addresses)"

definition http_url :: "url \<Rightarrow> bool" where
  "http_url u \<longleftrightarrow> url_protocol u = ''http:'' \<or> url_protocol u = ''https:''"

text \<open>The message and the fields of each warning.\<close>

datatype warning =
    Warn_direct string string | Warn_allowlist string string | Warn_dns string string
  | Warn_resolves string string string

definition validateUrlForPdfConversion ::
    "url_parser \<Rightarrow> dns \<Rightarrow> string option \<Rightarrow> string \<Rightarrow> warning list \<times> (url_error + string list)" where
  "validateUrlForPdfConversion parse d env raw = (case parse raw of
       None \<Rightarrow> ([], Inl Malformed_url)
     | Some u \<Rightarrow>
         if \<not> http_url u then ([], Inl Bad_protocol)
         else (let h = js_lower (url_hostname u) in
           if isPrivateIp h then ([Warn_direct h (redactUrl parse raw)], Inl (Direct_private h))
           else if \<not> allowlist_ok (getAllowlistedDomains env) h
           then ([Warn_allowlist h (redactUrl parse raw)], Inl (Not_in_allowlist h))
           else (case dns_addresses d h of
               None \<Rightarrow> ([Warn_dns h (redactUrl parse raw)], Inl (Unresolvable h))
             | Some ips \<Rightarrow> (case find isPrivateIp ips of
                   Some ip \<Rightarrow> ([Warn_resolves h ip (redactUrl parse raw)], Inl (Resolves_to_private h ip))
                 | None \<Rightarrow> ([], Inr ips)))))"

definition shouldBlockFetchRequest :: "url_parser \<Rightarrow> string \<Rightarrow> bool" where
  "shouldBlockFetchRequest parse raw = (case parse raw of
       None \<Rightarrow> True
     | Some u \<Rightarrow> \<not> http_url u \<or> isPrivateIp (js_lower (url_hostname u)))"

lemma list_ex_find: "find P xs = None \<longleftrightarrow> list_all (\<lambda>x. \<not> P x) xs"
  by (induction xs) auto

lemma ends_with_dot: "ends_with (CHR ''.'' # d) h \<longleftrightarrow> (\<exists>sub. h = sub @ CHR ''.'' # d)"
proof
  assume "ends_with (CHR ''.'' # d) h"
  then have "h = take (length h - length (CHR ''.'' # d)) h @ CHR ''.'' # d"
    by (metis append_take_drop_id ends_with_def)
  then show "\<exists>sub. h = sub @ CHR ''.'' # d" by blast
qed (auto simp: ends_with_def)

text \<open>A URL is accepted for conversion exactly when it parses, its protocol is http or https,
  its host is not the text of a private address, the allowlist (when set) names the host or a
  parent domain of it, and the addresses the DNS gave, which are the ones returned, contain no
  private one.\<close>

lemma accepted_url:
  "snd (validateUrlForPdfConversion parse d env raw) = Inr ips \<longleftrightarrow>
    (\<exists>u h. parse raw = Some u \<and> url_protocol u \<in> {''http:'', ''https:''} \<and> h = js_lower (url_hostname u)
      \<and> \<not> isPrivateIp h
      \<and> (getAllowlistedDomains env = None \<or> (\<exists>ds dom. getAllowlistedDomains env = Some ds \<and> dom \<in> set ds
            \<and> (h = dom \<or> (\<exists>sub. h = sub @ CHR ''.'' # dom))))
      \<and> dns_addresses d h = Some ips \<and> list_all (\<lambda>ip. \<not> isPrivateIp ip) ips)"
proof -
  have al: "allowlist_ok al h \<longleftrightarrow> al = None \<or> (\<exists>ds dom. al = Some ds \<and> dom \<in> set ds
            \<and> (h = dom \<or> (\<exists>sub. h = sub @ CHR ''.'' # dom)))" for al h
    by (auto simp: allowlist_ok_def list_ex_iff host_allowed_def ends_with_dot split: option.splits)
  show ?thesis
    unfolding al[symmetric] list_ex_find[symmetric]
    by (auto simp: validateUrlForPdfConversion_def http_url_def Let_def split: option.splits)
qed

text \<open>The guard of the requests of a conversion stops exactly what the check refuses without
  asking the allowlist or the DNS: a host outside the allowlist, or one that resolves to a private
  address, passes it (the comments say that redirects to such hosts are blocked).\<close>

lemma guard_is_the_literal_part:
  "shouldBlockFetchRequest parse raw \<longleftrightarrow>
     (\<exists>h. snd (validateUrlForPdfConversion parse d env raw) \<in> {Inl Malformed_url, Inl Bad_protocol, Inl (Direct_private h)})"
  by (auto simp: shouldBlockFetchRequest_def validateUrlForPdfConversion_def Let_def split: option.splits)

end
