(* ===== verification/Http_Header.thy ===== *)
theory Http_Header
  imports Js_Strings
begin

text \<open>
  \<open>apps/web/src/lib/content-disposition.ts\<close>: the header that names a downloaded file. A file name is
  its UTF-16 code units, as JavaScript has it; \<open>encodeURIComponent\<close> reads them as code points, throws
  (\<open>None\<close>) when a surrogate stands alone, and writes UTF-8. The value cannot carry a line break or
  close its quoted string, and the encoded name reads back as the cleaned one.
\<close>

type_synonym utf16 = "nat list"

definition control_or_quote :: "nat \<Rightarrow> bool" where
  "control_or_quote u \<longleftrightarrow> u \<le> 31 \<or> u = 127 \<or> u = 34 \<or> u = 92"

definition clean_filename :: "utf16 \<Rightarrow> utf16" where
  "clean_filename name = map (\<lambda>u. if control_or_quote u then 95 else u) name"

definition ascii_fallback :: "utf16 \<Rightarrow> string" where
  "ascii_fallback cleaned = (let s = map (\<lambda>u. if 32 \<le> u \<and> u \<le> 126 then char_of u else CHR ''_'') cleaned
     in if s = [] then ''download'' else s)"

section \<open>\<open>encodeURIComponent\<close>\<close>

text \<open>Letters, digits and \<open>-_.!~*'()\<close> stay.\<close>

definition uri_unreserved :: "nat \<Rightarrow> bool" where
  "uri_unreserved n \<longleftrightarrow> 48 \<le> n \<and> n \<le> 57 \<or> 65 \<le> n \<and> n \<le> 90 \<or> 97 \<le> n \<and> n \<le> 122
     \<or> n \<in> {45, 95, 46, 33, 126, 42, 39, 40, 41}"

definition high_surrogate :: "nat \<Rightarrow> bool" where
  "high_surrogate u \<longleftrightarrow> 55296 \<le> u \<and> u < 56320"

definition low_surrogate :: "nat \<Rightarrow> bool" where
  "low_surrogate u \<longleftrightarrow> 56320 \<le> u \<and> u < 57344"

fun code_points :: "utf16 \<Rightarrow> nat list option" where
  "code_points [] = Some []"
| "code_points (u # us) =
     (if low_surrogate u then None
      else if high_surrogate u then
        (case us of [] \<Rightarrow> None
         | v # vs \<Rightarrow> if low_surrogate v
             then map_option ((#) (65536 + (u - 55296) * 1024 + (v - 56320))) (code_points vs) else None)
      else map_option ((#) u) (code_points us))"

definition utf8_bytes :: "nat \<Rightarrow> nat list" where
  "utf8_bytes n =
     (if n < 128 then [n]
      else if n < 2048 then [192 + n div 64, 128 + n mod 64]
      else if n < 65536 then [224 + n div 4096, 128 + n div 64 mod 64, 128 + n mod 64]
      else [240 + n div 262144, 128 + n div 4096 mod 64, 128 + n div 64 mod 64, 128 + n mod 64])"

definition upper_hex :: "nat \<Rightarrow> char" where
  "upper_hex d = (if d < 10 then char_of (d + 48) else char_of (d + 55))"

definition percent :: "nat \<Rightarrow> string" where
  "percent b = [CHR ''%'', upper_hex (b div 16), upper_hex (b mod 16)]"

definition encode_point :: "nat \<Rightarrow> string" where
  "encode_point n = (if uri_unreserved n then [char_of n] else concat (map percent (utf8_bytes n)))"

definition encodeURIComponent :: "utf16 \<Rightarrow> string option" where
  "encodeURIComponent us = map_option (\<lambda>ns. concat (map encode_point ns)) (code_points us)"

section \<open>The header\<close>

definition sanitizeContentDisposition :: "utf16 \<Rightarrow> string \<Rightarrow> string option" where
  "sanitizeContentDisposition filename disposition = (let cleaned = clean_filename filename
     in map_option (\<lambda>encoded. disposition @ ''; filename='' @ [CHR 0x22] @ ascii_fallback cleaned @ [CHR 0x22]
          @ ''; filename*=UTF-8'' @ [CHR 0x27, CHR 0x27] @ encoded)
        (encodeURIComponent cleaned))"

text \<open>The header for a name of this development's strings (code units below 256), which has no surrogate.\<close>

definition content_disposition :: "string \<Rightarrow> string \<Rightarrow> string" where
  "content_disposition filename disposition =
     (case sanitizeContentDisposition (map code_unit filename) disposition of Some h \<Rightarrow> h | None \<Rightarrow> [])"

section \<open>When the encoding throws\<close>

text \<open>Every high surrogate is followed by a low one, and every low one follows a high one.\<close>

definition surrogates_paired :: "utf16 \<Rightarrow> bool" where
  "surrogates_paired us \<longleftrightarrow> (\<forall>i<length us.
     (high_surrogate (us ! i) \<longrightarrow> i + 1 < length us \<and> low_surrogate (us ! (i + 1)))
   \<and> (low_surrogate (us ! i) \<longrightarrow> 0 < i \<and> high_surrogate (us ! (i - 1))))"

lemma not_both: "low_surrogate u \<Longrightarrow> \<not> high_surrogate u"
  by (simp add: low_surrogate_def high_surrogate_def)

lemma paired_other:
  "\<not> low_surrogate u \<Longrightarrow> \<not> high_surrogate u \<Longrightarrow> surrogates_paired (u # us) \<longleftrightarrow> surrogates_paired us"
  unfolding surrogates_paired_def
  by (cases us) (auto simp: All_less_Suc2 nth_Cons' split: if_splits)

lemma paired_pair:
  "high_surrogate u \<Longrightarrow> low_surrogate v \<Longrightarrow> surrogates_paired (u # v # us) \<longleftrightarrow> surrogates_paired us"
  unfolding surrogates_paired_def
  by (cases us) (auto simp: All_less_Suc2 nth_Cons' not_both split: if_splits)

lemma code_points_paired: "code_points us = None \<longleftrightarrow> \<not> surrogates_paired us"
proof (induction us rule: code_points.induct)
  case 1
  then show ?case by (simp add: surrogates_paired_def)
next
  case (2 u us)
  consider "low_surrogate u" | "high_surrogate u" "\<not> low_surrogate u" "us = []"
    | v vs where "high_surrogate u" "\<not> low_surrogate u" "us = v # vs" | "\<not> low_surrogate u" "\<not> high_surrogate u"
    by (cases us) auto
  then show ?case
  proof cases
    case 1
    then show ?thesis by (auto simp: surrogates_paired_def)
  next
    case 2
    then show ?thesis by (auto simp: surrogates_paired_def)
  next
    case (3 v vs)
    show ?thesis
    proof (cases "low_surrogate v")
      case True
      then show ?thesis using 3 "2.IH"(1)[OF 3(2,1,3) True] by (simp add: paired_pair)
    next
      case False
      then have "\<not> surrogates_paired (u # us)" using 3 by (auto simp: surrogates_paired_def)
      then show ?thesis using 3 False by simp
    qed
  next
    case 4
    then show ?thesis using "2.IH"(2) by (simp add: paired_other)
  qed
qed

lemma cleaned_surrogate:
  "high_surrogate (if control_or_quote u then 95 else u) = high_surrogate u"
  "low_surrogate (if control_or_quote u then 95 else u) = low_surrogate u"
  by (auto simp: control_or_quote_def high_surrogate_def low_surrogate_def)

lemma cleaned_paired: "surrogates_paired (clean_filename us) \<longleftrightarrow> surrogates_paired us"
proof -
  have "clean_filename us ! i = (if control_or_quote (us ! i) then 95 else us ! i)" if "i < length us" for i
    using that by (simp add: clean_filename_def)
  then show ?thesis
    unfolding surrogates_paired_def using cleaned_surrogate
    by (auto simp: clean_filename_def)
qed

section \<open>What the header can contain\<close>

lemma code_unit_lt [simp]: "code_unit c < 256"
  by (simp add: code_unit_def)

text \<open>Printable and not a double quote.\<close>

definition header_safe :: "char \<Rightarrow> bool" where
  "header_safe c \<longleftrightarrow> 32 \<le> code_unit c \<and> code_unit c \<le> 126 \<and> code_unit c \<noteq> 34"

lemma header_safe_char_of: "32 \<le> (n::nat) \<Longrightarrow> n \<le> 126 \<Longrightarrow> n \<noteq> 34 \<Longrightarrow> header_safe (char_of n)"
  by (simp add: header_safe_def code_unit_char_of)

lemma header_safe_hex: "d < 16 \<Longrightarrow> header_safe (upper_hex d)"
  by (simp add: header_safe_def upper_hex_def code_unit_char_of)

lemma header_safe_percent: "b < 256 \<Longrightarrow> list_all header_safe (percent b)"
proof -
  assume "b < 256"
  then have "b div 16 < 16" "b mod 16 < 16" by simp_all
  moreover have "header_safe CHR ''%''" by (simp add: header_safe_def code_unit_def)
  ultimately show ?thesis by (simp add: percent_def header_safe_hex)
qed

lemma utf8_lt: "n < 1114112 \<Longrightarrow> b \<in> set (utf8_bytes n) \<Longrightarrow> b < 256"
proof -
  assume n: "n < 1114112" and b: "b \<in> set (utf8_bytes n)"
  have m: "128 + x mod 64 < 256" for x :: nat
    using mod_less_divisor[of 64 x] by linarith
  have "n < 2048 \<Longrightarrow> n div 64 < 32" "n < 65536 \<Longrightarrow> n div 4096 < 16" "n div 262144 < 5"
    using n by (simp_all add: div_less_iff_less_mult)
  with b m[of n] m[of "n div 64"] m[of "n div 4096"] show "b < 256"
    by (simp add: utf8_bytes_def split: if_splits) linarith+
qed

lemma header_safe_unreserved: "uri_unreserved n \<Longrightarrow> header_safe (char_of n) \<and> n < 127 \<and> n \<noteq> 37"
  by (auto simp: uri_unreserved_def intro: header_safe_char_of)

lemma header_safe_point: "n < 1114112 \<Longrightarrow> list_all header_safe (encode_point n)"
  using header_safe_unreserved[of n] header_safe_percent utf8_lt[of n]
  by (auto simp: encode_point_def list_all_iff)

lemma fallback_chars: "list_all (\<lambda>c. header_safe c \<and> c \<noteq> CHR 0x5C) (ascii_fallback (clean_filename name))"
proof -
  have "header_safe CHR ''_''" "list_all (\<lambda>c. header_safe c \<and> c \<noteq> CHR 0x5C) ''download''"
    by (simp_all add: header_safe_def code_unit_def)
  moreover have "char_of u \<noteq> CHR 0x5C" if "u \<noteq> 92" "u \<le> 126" for u :: nat
  proof
    assume "char_of u = CHR 0x5C"
    then have "code_unit (char_of u) = code_unit CHR 0x5C" by simp
    then show False using that by (simp add: code_unit_char_of) (simp add: code_unit_def)
  qed
  ultimately show ?thesis
    by (auto simp: ascii_fallback_def clean_filename_def Let_def list_all_iff control_or_quote_def
        intro!: header_safe_char_of split: if_splits)
qed

section \<open>Reading the name back\<close>

text \<open>A reader of the extended value: undo the percent signs, decode UTF-8, and write UTF-16.\<close>

definition hex_val :: "char \<Rightarrow> nat" where
  "hex_val c = (let n = code_unit c in if n \<le> 57 then n - 48 else n - 55)"

fun percent_decode :: "string \<Rightarrow> nat list" where
  "percent_decode (c # h # l # s) =
     (if c = CHR ''%'' then (hex_val h * 16 + hex_val l) # percent_decode s
      else code_unit c # percent_decode (h # l # s))"
| "percent_decode (c # s) = code_unit c # percent_decode s"
| "percent_decode [] = []"

fun utf8_decode :: "nat list \<Rightarrow> nat list" where
  "utf8_decode [] = []"
| "utf8_decode (b # bs) =
     (if b < 128 then b # utf8_decode bs
      else if b < 224 then ((b - 192) * 64 + (bs ! 0 - 128)) # utf8_decode (drop 1 bs)
      else if b < 240 then ((b - 224) * 4096 + (bs ! 0 - 128) * 64 + (bs ! 1 - 128)) # utf8_decode (drop 2 bs)
      else ((b - 240) * 262144 + (bs ! 0 - 128) * 4096 + (bs ! 1 - 128) * 64 + (bs ! 2 - 128)) # utf8_decode (drop 3 bs))"

definition to_utf16 :: "nat \<Rightarrow> utf16" where
  "to_utf16 n = (if n < 65536 then [n] else [55296 + (n - 65536) div 1024, 56320 + (n - 65536) mod 1024])"

definition read_ext_value :: "string \<Rightarrow> utf16" where
  "read_ext_value s = concat (map to_utf16 (utf8_decode (percent_decode s)))"

lemma hex_val_upper: "d < 16 \<Longrightarrow> hex_val (upper_hex d) = d"
  by (simp add: hex_val_def upper_hex_def code_unit_char_of)

lemma percent_decode_percent: "b < 256 \<Longrightarrow> percent_decode (percent b @ s) = b # percent_decode s"
proof -
  assume "b < 256"
  then have "b div 16 < 16" "b mod 16 < 16" by simp_all
  then show ?thesis by (simp add: percent_def hex_val_upper)
qed

lemma percent_decode_plain: "c \<noteq> CHR ''%'' \<Longrightarrow> percent_decode (c # s) = code_unit c # percent_decode s"
  by (cases s rule: percent_decode.cases) auto

lemma percent_decode_point:
  assumes "n < 1114112"
  shows "percent_decode (encode_point n @ s) = utf8_bytes n @ percent_decode s"
proof (cases "uri_unreserved n")
  case True
  then have n: "n < 127" "n \<noteq> 37" by (simp_all add: header_safe_unreserved)
  have "char_of n \<noteq> CHR ''%''"
  proof
    assume "char_of n = CHR ''%''"
    then have "code_unit (char_of n) = code_unit CHR ''%''" by simp
    then show False using n by (simp add: code_unit_char_of) (simp add: code_unit_def)
  qed
  with True n show ?thesis
    by (simp add: encode_point_def utf8_bytes_def percent_decode_plain code_unit_char_of)
next
  case False
  have "percent_decode (concat (map percent bs) @ s) = bs @ percent_decode s" if "\<forall>b\<in>set bs. b < 256" for bs
    using that by (induction bs) (auto simp: percent_decode_percent)
  with False utf8_lt[OF assms] show ?thesis by (auto simp: encode_point_def)
qed

lemma base64_digits:
  "(n::nat) div 64 * 64 + n mod 64 = n"
  "n div 4096 * 4096 + n div 64 mod 64 * 64 + n mod 64 = n"
  "n div 262144 * 262144 + n div 4096 mod 64 * 4096 + n div 64 mod 64 * 64 + n mod 64 = n"
proof -
  show 1: "n div 64 * 64 + n mod 64 = n" for n :: nat by simp
  have 2: "n div 4096 = n div 64 div 64" "n div 262144 = n div 64 div 64 div 64" by (simp_all add: div_mult2_eq[symmetric])
  show b: "n div 4096 * 4096 + n div 64 mod 64 * 64 + n mod 64 = n"
    using 1[of n] 1[of "n div 64"] unfolding 2 by linarith
  show "n div 262144 * 262144 + n div 4096 mod 64 * 4096 + n div 64 mod 64 * 64 + n mod 64 = n"
    using 1[of n] 1[of "n div 64"] 1[of "n div 64 div 64"] unfolding 2 by linarith
qed

lemma utf8_decode_point:
  assumes "n < 1114112"
  shows "utf8_decode (utf8_bytes n @ bs) = n # utf8_decode bs"
proof -
  consider "n < 128" | "128 \<le> n" "n < 2048" | "2048 \<le> n" "n < 65536" | "65536 \<le> n" by linarith
  then show ?thesis
  proof cases
    case 2
    then have "n div 64 < 32" by (simp add: div_less_iff_less_mult)
    with 2 base64_digits(1)[of n] show ?thesis by (simp add: utf8_bytes_def)
  next
    case 3
    then have "n div 4096 < 16" by (simp add: div_less_iff_less_mult)
    with 3 base64_digits(2)[of n] show ?thesis by (simp add: utf8_bytes_def)
  next
    case 4
    with base64_digits(3)[of n] show ?thesis by (simp add: utf8_bytes_def)
  qed (simp add: utf8_bytes_def)
qed

lemma code_points_read:
  "code_points us = Some ns \<Longrightarrow> list_all (\<lambda>u. u < 65536) us \<Longrightarrow>
     concat (map to_utf16 ns) = us \<and> list_all (\<lambda>n. n < 1114112) ns"
proof (induction us arbitrary: ns rule: code_points.induct)
  case (2 u us)
  show ?case
  proof (cases "high_surrogate u")
    case True
    with 2(3) obtain v vs ms where v: "us = v # vs" "low_surrogate v" "code_points vs = Some ms" "\<not> low_surrogate u"
      "ns = (65536 + (u - 55296) * 1024 + (v - 56320)) # ms" by (auto split: if_splits list.splits)
    have b: "u - 55296 < 1024" "v - 56320 < 1024" "55296 \<le> u" "56320 \<le> v"
      using True v(2) by (auto simp: high_surrogate_def low_surrogate_def)
    have ms: "concat (map to_utf16 ms) = vs \<and> list_all (\<lambda>n. n < 1114112) ms"
      using "2.IH"(1)[OF v(4) True v(1,2,3)] 2(4) v(1) by simp
    define x y where "x = u - 55296" "y = v - 56320"
    have "65536 + x * 1024 + y < 1114112" using b(1,2) unfolding x_y_def by linarith
    moreover have "(x * 1024 + y) div 1024 = x" "(x * 1024 + y) mod 1024 = y"
      using b(2) by (simp_all add: x_y_def)
    ultimately have "to_utf16 (65536 + (u - 55296) * 1024 + (v - 56320)) = [u, v]"
      "65536 + (u - 55296) * 1024 + (v - 56320) < 1114112"
      using b(3,4) unfolding x_y_def[symmetric] by (simp_all add: to_utf16_def add.assoc) (simp_all add: x_y_def)
    with ms v(1,5) show ?thesis by simp
  next
    case False
    with 2(3) obtain ms where m: "\<not> low_surrogate u" "code_points us = Some ms" "ns = u # ms"
      by (auto split: if_splits)
    with "2.IH"(2)[OF m(1) False m(2)] 2(4) show ?thesis by (simp add: to_utf16_def)
  qed
qed simp

lemma encode_reads_back:
  assumes "encodeURIComponent us = Some e" "list_all (\<lambda>u. u < 65536) us"
  shows "list_all header_safe e \<and> read_ext_value e = us"
proof -
  obtain ns where ns: "code_points us = Some ns" "e = concat (map encode_point ns)"
    using assms(1) by (auto simp: encodeURIComponent_def)
  have r: "concat (map to_utf16 ns) = us" "list_all (\<lambda>n. n < 1114112) ns"
    using code_points_read[OF ns(1) assms(2)] by simp_all
  have "percent_decode (concat (map encode_point ns)) = concat (map utf8_bytes ns)"
    using r(2) by (induction ns) (auto simp: percent_decode_point)
  moreover have "utf8_decode (concat (map utf8_bytes ns)) = ns"
    using r(2) by (induction ns) (auto simp: utf8_decode_point)
  moreover have "list_all header_safe (concat (map encode_point ns))"
    using r(2) by (induction ns) (auto simp: header_safe_point)
  ultimately show ?thesis using ns(2) r(1) by (simp add: read_ext_value_def)
qed

lemma header_made: "surrogates_paired name \<Longrightarrow> sanitizeContentDisposition name disp \<noteq> None"
  using code_points_paired[of "clean_filename name"] cleaned_paired[of name]
  by (simp add: sanitizeContentDisposition_def encodeURIComponent_def Let_def)

text \<open>C28: Whatever the file name, as UTF-16 code units: no header is made exactly when a surrogate stands alone in the
  name (\<open>encodeURIComponent\<close> throws). Otherwise the header is the disposition, a quoted name and an extended
  value: the quoted name is not empty and has no double quote, backslash, control or non-ASCII character, the
  extended value is printable ASCII without a double quote, and undoing its percent signs and UTF-8 gives
  the name with its control characters, double quotes and backslashes replaced by underscores.
  (Apostrophes stay in both, which RFC 5987 does not allow in the extended value.)\<close>

theorem header_well_formed:
  assumes "list_all (\<lambda>u. u < 65536) name"
  shows "case sanitizeContentDisposition name disp of
      None \<Rightarrow> \<not> surrogates_paired name
    | Some h \<Rightarrow> surrogates_paired name \<and> (\<exists>n e.
        h = disp @ ''; filename='' @ [CHR 0x22] @ n @ [CHR 0x22] @ ''; filename*=UTF-8'' @ [CHR 0x27, CHR 0x27] @ e
        \<and> n \<noteq> [] \<and> list_all (\<lambda>c. header_safe c \<and> c \<noteq> CHR 0x5C) n
        \<and> list_all header_safe e \<and> read_ext_value e = clean_filename name)"
proof (cases "encodeURIComponent (clean_filename name)")
  case None
  then have "\<not> surrogates_paired name"
    by (simp add: encodeURIComponent_def code_points_paired cleaned_paired)
  then show ?thesis by (simp only: sanitizeContentDisposition_def Let_def None option.map option.case not_False_eq_True)
next
  case (Some e)
  have "list_all (\<lambda>u. u < 65536) (clean_filename name)"
    using assms by (auto simp: list_all_iff clean_filename_def)
  note e = encode_reads_back[OF Some this]
  have "surrogates_paired name"
    using Some code_points_paired[of "clean_filename name"] cleaned_paired[of name]
    by (auto simp: encodeURIComponent_def)
  moreover have "ascii_fallback (clean_filename name) \<noteq> []" by (simp add: ascii_fallback_def Let_def)
  ultimately show ?thesis
    unfolding sanitizeContentDisposition_def Let_def Some option.map option.case
    using e fallback_chars[of name] by blast
qed

text \<open>The name \<open>a"\<close> and U+1F600: four bytes of UTF-8.\<close>

theorem header_well_formed_witness:
  "\<exists>n e. sanitizeContentDisposition [97, 34, 55357, 56832] ''inline''
      = Some (''inline'' @ ''; filename='' @ [CHR 0x22] @ n @ [CHR 0x22] @ ''; filename*=UTF-8'' @ [CHR 0x27, CHR 0x27] @ e)
    \<and> read_ext_value e = [97, 95, 55357, 56832]"
proof -
  let ?name = "[97, 34, 55357, 56832] :: utf16"
  have "surrogates_paired ?name \<longleftrightarrow> code_points ?name \<noteq> None" by (simp only: code_points_paired not_not)
  then have "surrogates_paired ?name" by (simp add: low_surrogate_def high_surrogate_def)
  moreover have "clean_filename ?name = [97, 95, 55357, 56832]" by (simp add: clean_filename_def control_or_quote_def)
  ultimately show ?thesis
    using header_well_formed[of ?name "''inline''"] by (auto split: option.splits)
qed

text \<open>A name of code units below 256 always has a header.\<close>

lemma content_disposition_made:
  "sanitizeContentDisposition (map code_unit filename) disp = Some (content_disposition filename disp)"
proof -
  have "surrogates_paired (map code_unit filename)"
  proof -
    have "\<not> high_surrogate (code_unit c)" "\<not> low_surrogate (code_unit c)" for c
      using code_unit_lt[of c] by (simp_all add: high_surrogate_def low_surrogate_def del: code_unit_lt)
    then show ?thesis by (simp add: surrogates_paired_def)
  qed
  then have "sanitizeContentDisposition (map code_unit filename) disp \<noteq> None"
    using header_made[of "map code_unit filename" disp] by blast
  then show ?thesis by (auto simp: content_disposition_def)
qed

end
