(* ===== verification/Html_To_Pdf.thy ===== *)
theory Html_To_Pdf
  imports Ssrf Http_Header
begin

text \<open>
  The network side of the HTML and URL conversions
  (\<open>packages/pdf-engine/src/convert/html-to-pdf.ts\<close>, \<open>apps/web/src/app/api/pdf/convert/route.ts\<close>):
  the guard of every URL, the manual redirect loop, the resources of a page, the page geometry,
  and the route that checks a URL before it is converted. The URL parser, the resolution of a
  relative location, the network, the font download and the layout engine are parameters. Every
  operation that makes requests also returns the URLs it asked for, in the order of one job; the
  jobs of a page run concurrently and are listed one after the other.
\<close>

section \<open>The guard of the engine package\<close>

definition BASE_IPV4 :: "regex list" where
  "BASE_IPV4 = [
     Cat [Chars ''127'', dot],
     Cat [Chars ''10'', dot],
     Cat [Chars ''172'', dot, second_octet_172, dot],
     Cat [Chars ''192'', dot, Chars ''168'', dot],
     Cat [Chars ''169'', dot, Chars ''254'', dot],
     Cat [Chars ''0'', dot],
     Cat [Chars ''100'', dot, second_octet_100, dot],
     Cat [Chars ''224'', dot],
     Cat [Chars ''240'', dot],
     Cat [Chars ''255'', dot, Chars ''255'', dot, Chars ''255'', dot, Chars ''255'', End_of_input]]"

definition BASE_IPV6 :: "regex list" where
  "BASE_IPV6 = [Cat [Chars ''::1'', End_of_input], Chars ''fc'', Chars ''fd'', Chars ''fe80:'',
     Chars ''::ffff:'', Chars ''64:ff9b:'']"

text \<open>\<open>/^\d+\.\d+\.\d+\.\d+$/\<close>: four non-empty runs of digits between dots.\<close>

definition dotted_numbers :: "string \<Rightarrow> bool" where
  "dotted_numbers s = (let fs = js_split CHR ''.'' s
     in length fs = 4 \<and> list_all (\<lambda>f. f \<noteq> [] \<and> list_all (is_digit 10) f) fs)"

definition isBlockedFetchUrl :: "url_parser \<Rightarrow> string \<Rightarrow> bool" where
  "isBlockedFetchUrl parse raw = (case parse raw of
       None \<Rightarrow> True
     | Some u \<Rightarrow>
         if \<not> http_url u then True
         else (let host = strip_brackets (js_lower (url_hostname u)) in
           if js_includes '':'' host then list_ex (\<lambda>re. re_test_i re host) BASE_IPV6
           else if dotted_numbers host then list_ex (\<lambda>re. re_test re host) BASE_IPV4
           else False))"

section \<open>The redirect loop\<close>

type_synonym bytes = "nat list"

text \<open>\<open>res_body\<close> is \<open>None\<close> when reading the body fails (the connection breaks, or the timeout passes).\<close>

record response =
  res_status :: int
  res_location :: "string option"
  res_body :: "bytes option"

text \<open>The headers of a request: a record, or a value of another type, which \<open>fetch\<close> may refuse.\<close>

datatype headers_init = Header_record "(string \<times> string) list" | Other_headers string

text \<open>
  The network answers the \<open>n\<close>-th request of a job, or fails (an error or the timeout); it may
  answer the same URL differently each time. \<open>new URL(loc, base).toString()\<close> is \<open>join_url\<close>.
\<close>

record fetch_options =
  fo_timeout :: jsnum
  fo_headers :: "headers_init option"
  fo_block :: "(string \<Rightarrow> bool) option"

record web =
  web_parse :: url_parser
  web_join :: "string \<Rightarrow> string \<Rightarrow> string option"
  web_fetch :: "headers_init option \<Rightarrow> jsnum \<Rightarrow> nat \<Rightarrow> string \<Rightarrow> response option"

definition MAX_RESOURCE_BYTES :: nat where
  "MAX_RESOURCE_BYTES = 20 * 1024 * 1024"

definition MAX_REDIRECTS :: nat where
  "MAX_REDIRECTS = 5"

text \<open>
  \<open>shouldBlock\<close> is optional. The loop runs while \<open>hop \<le> MAX_REDIRECTS\<close>; the last argument is the
  number of rounds left, so \<open>hop\<close> is \<open>MAX_REDIRECTS + 1\<close> minus it.
\<close>

definition blocked_by :: "fetch_options \<Rightarrow> string \<Rightarrow> bool" where
  "blocked_by opts u = (case fo_block opts of None \<Rightarrow> False | Some f \<Rightarrow> f u)"

text \<open>The bytes, \<open>null\<close>, or a rejected promise: the body is read outside the \<open>try\<close>.\<close>

datatype fetched = Fetched bytes | No_bytes | Body_rejected

fun fetch_loop :: "web \<Rightarrow> fetch_options \<Rightarrow> nat \<Rightarrow> string \<Rightarrow> nat \<Rightarrow> string list \<times> fetched" where
  "fetch_loop w opts hop current 0 = ([], No_bytes)"
| "fetch_loop w opts hop current (Suc rounds) =
     (if isBlockedFetchUrl (web_parse w) current \<or> blocked_by opts current then ([], No_bytes)
      else (case web_fetch w (fo_headers opts) (fo_timeout opts) hop current of
          None \<Rightarrow> ([current], No_bytes)
        | Some res \<Rightarrow>
            if 300 \<le> res_status res \<and> res_status res < 400
            then (case res_location res of
                None \<Rightarrow> ([current], No_bytes)
              | Some loc \<Rightarrow>
                  if loc = [] then ([current], No_bytes)
                  else (case web_join w loc current of
                      None \<Rightarrow> ([current], No_bytes)
                    | Some next_url \<Rightarrow>
                        (let (asked, r) = fetch_loop w opts (Suc hop) next_url rounds in (current # asked, r))))
            else if \<not> (200 \<le> res_status res \<and> res_status res < 300) then ([current], No_bytes)
            else (case res_body res of
                None \<Rightarrow> ([current], Body_rejected)
              | Some body \<Rightarrow>
                  if body = [] \<or> length body > MAX_RESOURCE_BYTES then ([current], No_bytes)
                  else ([current], Fetched body))))"

definition safeFetchBytes :: "web \<Rightarrow> fetch_options \<Rightarrow> string \<Rightarrow> string list \<times> fetched" where
  "safeFetchBytes w opts url = fetch_loop w opts 0 url (MAX_REDIRECTS + 1)"

definition open_url :: "web \<Rightarrow> fetch_options \<Rightarrow> string \<Rightarrow> bool" where
  "open_url w opts u \<longleftrightarrow> \<not> isBlockedFetchUrl (web_parse w) u \<and> \<not> blocked_by opts u"

definition redirects_to :: "web \<Rightarrow> fetch_options \<Rightarrow> nat \<Rightarrow> string \<Rightarrow> string \<Rightarrow> bool" where
  "redirects_to w opts hop u v = (case web_fetch w (fo_headers opts) (fo_timeout opts) hop u of
       None \<Rightarrow> False
     | Some res \<Rightarrow> 300 \<le> res_status res \<and> res_status res < 400 \<and>
         (case res_location res of None \<Rightarrow> False | Some loc \<Rightarrow> loc \<noteq> [] \<and> web_join w loc u = Some v))"

text \<open>One round: refused, ended without or with bytes, or redirected.\<close>

lemma fetch_loop_round:
  assumes "fetch_loop w opts hop u (Suc n) = (asked, r)"
  obtains "asked = []" "r = No_bytes"
  | "open_url w opts u" "asked = [u]" "r = No_bytes \<or> r = Body_rejected"
  | b where "open_url w opts u" "asked = [u]" "r = Fetched b" "b \<noteq> []" "length b \<le> MAX_RESOURCE_BYTES"
  | v rest where "open_url w opts u" "redirects_to w opts hop u v" "asked = u # rest"
      "fetch_loop w opts (Suc hop) v n = (rest, r)"
  using assms
  by (auto simp: open_url_def redirects_to_def not_less split: if_splits option.splits prod.splits)

lemma fetch_loop_facts:
  "fetch_loop w opts hop u n = (asked, r) \<Longrightarrow>
   list_all (open_url w opts) asked \<and> length asked \<le> n
     \<and> (\<forall>b. r = Fetched b \<longrightarrow> b \<noteq> [] \<and> length b \<le> MAX_RESOURCE_BYTES)"
proof (induction n arbitrary: hop u asked r)
  case (Suc n)
  from Suc.prems show ?case
    by (cases rule: fetch_loop_round) (use Suc.IH in fastforce)+
qed simp

text \<open>A chain of redirects within the budget is followed to its end.\<close>

fun redirect_chain :: "web \<Rightarrow> fetch_options \<Rightarrow> nat \<Rightarrow> string list \<Rightarrow> bool" where
  "redirect_chain w opts hop (u # v # vs) = (redirects_to w opts hop u v \<and> redirect_chain w opts (Suc hop) (v # vs))"
| "redirect_chain w opts hop _ = True"

lemma fetch_loop_chain:
  "redirect_chain w opts hop (us @ [v]) \<Longrightarrow> list_all (open_url w opts) us \<Longrightarrow> length us \<le> n \<Longrightarrow>
   fetch_loop w opts hop (hd (us @ [v])) n =
     (let (asked, r) = fetch_loop w opts (hop + length us) v (n - length us) in (us @ asked, r))"
proof (induction us arbitrary: hop n)
  case Nil
  then show ?case by simp
next
  case (Cons u us)
  obtain v' vs where v': "us @ [v] = v' # vs" by (cases us) auto
  then have hd: "hd (us @ [v]) = v'" by simp
  have chain: "redirects_to w opts hop u v'" "redirect_chain w opts (Suc hop) (us @ [v])"
    using Cons.prems(1) v' by simp_all
  obtain m where n: "n = Suc m" "length us \<le> m" using Cons.prems(3) by (cases n) auto
  have "open_url w opts u" using Cons.prems(2) by simp
  with chain(1) have "fetch_loop w opts hop u n =
      (let (asked, r) = fetch_loop w opts (Suc hop) v' m in (u # asked, r))"
    unfolding n(1) redirects_to_def open_url_def by (auto split: option.splits)
  also have "\<dots> = (let (asked, r) = fetch_loop w opts (hop + length (u # us)) v (n - length (u # us))
      in ((u # us) @ asked, r))"
    using Cons.IH[OF chain(2) _ n(2)] Cons.prems(2) hd n(1) by (simp add: Let_def split: prod.splits)
  finally show ?case by simp
qed

lemma safeFetchBytes_chain:
  assumes "redirect_chain w opts 0 (us @ [v])" "list_all (open_url w opts) us" "length us \<le> 6"
  shows "safeFetchBytes w opts (hd (us @ [v])) =
     (let (asked, r) = fetch_loop w opts (length us) v (6 - length us) in (us @ asked, r))"
  using fetch_loop_chain[OF assms] by (simp add: safeFetchBytes_def MAX_REDIRECTS_def)

section \<open>CSS lengths and page geometry\<close>

text \<open>The number \<open>-?\d*\.?\d+\<close> at the start of a text, and what follows it.\<close>

definition css_number :: "string \<Rightarrow> (jsnum \<times> string) option" where
  "css_number s = (let (sign, t) = (case s of c # t \<Rightarrow> if c = CHR ''-'' then (-1, t) else (1, s) | [] \<Rightarrow> (1, s));
       whole = takeWhile (is_digit 10) t; r = dropWhile (is_digit 10) t;
       frac = (case r of c # u \<Rightarrow> if c = CHR ''.'' then takeWhile (is_digit 10) u else [] | [] \<Rightarrow> [])
     in if frac \<noteq> []
        then Some (sign * (of_nat (digits_value 10 whole) + of_nat (digits_value 10 frac) / 10 ^ length frac),
          drop (Suc (length frac)) r)
        else if whole \<noteq> [] then Some (sign * of_nat (digits_value 10 whole), r) else None)"

definition css_unit :: "string \<Rightarrow> jsnum option" where
  "css_unit s = (let u = js_lower s in
     if u = [] \<or> u = ''px'' then Some (3 / 4)
     else if u = ''in'' then Some 72
     else if u = ''cm'' then Some (283464567 / 10000000)
     else if u = ''mm'' then Some (283464567 / 100000000)
     else if u = ''pc'' then Some 12
     else if u = ''pt'' then Some 1 else None)"

definition cssLengthToPoints :: "string option \<Rightarrow> jsnum \<Rightarrow> jsnum" where
  "cssLengthToPoints v fallback = (case v of None \<Rightarrow> fallback
     | Some s \<Rightarrow> (case css_number (js_trim s) of None \<Rightarrow> fallback
         | Some (n, rest) \<Rightarrow> (case css_unit (js_trim_start rest) of None \<Rightarrow> fallback | Some k \<Rightarrow> n * k)))"

definition DEFAULT_MARGIN_PT :: jsnum where
  "DEFAULT_MARGIN_PT = cssLengthToPoints (Some ''20mm'') (567 / 10)"

datatype margin_option =
    Margin_unset | Margin_null | Margin_all string
  | Margin_sides "string option" "string option" "string option" "string option"

datatype page_margin = Uniform jsnum | Sides jsnum jsnum jsnum jsnum

text \<open>\<open>margin.top\<close> of \<open>null\<close> throws.\<close>

fun resolveMargins :: "margin_option \<Rightarrow> page_margin option" where
  "resolveMargins Margin_unset = Some (Uniform DEFAULT_MARGIN_PT)"
| "resolveMargins Margin_null = None"
| "resolveMargins (Margin_all s) = Some (Uniform (cssLengthToPoints (Some s) DEFAULT_MARGIN_PT))"
| "resolveMargins (Margin_sides t r b l) = Some (Sides (cssLengthToPoints t DEFAULT_MARGIN_PT)
     (cssLengthToPoints r DEFAULT_MARGIN_PT) (cssLengthToPoints b DEFAULT_MARGIN_PT)
     (cssLengthToPoints l DEFAULT_MARGIN_PT))"

text \<open>The fields of \<open>ConvertOptions\<close> the conversion reads.\<close>

record convert_options =
  cv_format :: "string option"
  cv_landscape :: bool
  cv_margin :: margin_option
  cv_width :: "string option"
  cv_height :: "string option"
  cv_timeout :: "jsnum option"
  cv_customCSS :: "string option"
  cv_headers :: "headers_init option"

definition DEFAULT_TIMEOUT_MS :: jsnum where
  "DEFAULT_TIMEOUT_MS = 30000"

definition timeout_of :: "convert_options \<Rightarrow> jsnum" where
  "timeout_of co = (case cv_timeout co of None \<Rightarrow> DEFAULT_TIMEOUT_MS | Some t \<Rightarrow> t)"

section \<open>Resources and rendering\<close>

datatype resource_need = Need_font string int bool | Need_image string

record html_font =
  hf_family :: string
  hf_weight :: int
  hf_italic :: bool
  hf_ttf :: bytes

record render_options =
  ro_pageWidth :: jsnum
  ro_pageHeight :: jsnum
  ro_margin :: page_margin
  ro_resources :: "(string \<times> bytes) list"

text \<open>
  The layout engine (a WebAssembly module), the text decoder, and the font download, which asks
  only for the pinned font host. \<open>le_render\<close> gives \<open>None\<close> when it throws.
\<close>

record layout_engine =
  le_needs :: "string \<Rightarrow> resource_need list"
  le_render :: "string \<Rightarrow> html_font list \<Rightarrow> render_options \<Rightarrow> bytes option"
  le_pageSize :: "string \<Rightarrow> (jsnum \<times> jsnum) option"
  le_decode :: "bytes \<Rightarrow> string"
  le_font :: "string \<Rightarrow> int \<Rightarrow> bool \<Rightarrow> bytes option"

fun font_job :: "layout_engine \<Rightarrow> resource_need \<Rightarrow> html_font option" where
  "font_job e (Need_font f wt it) = map_option (\<lambda>b. \<lparr>hf_family = f, hf_weight = wt, hf_italic = it, hf_ttf = b\<rparr>) (le_font e f wt it)"
| "font_job e (Need_image u) = None"

fun image_urls :: "resource_need list \<Rightarrow> string list" where
  "image_urls [] = []"
| "image_urls (Need_image u # ns) = u # image_urls ns"
| "image_urls (Need_font f wt it # ns) = image_urls ns"

text \<open>A job of an image: \<open>None\<close> when it rejects, otherwise the resource or \<open>null\<close>.\<close>

definition image_job :: "web \<Rightarrow> fetch_options \<Rightarrow> string \<Rightarrow> string list \<times> (string \<times> bytes) option option" where
  "image_job w opts u = (let (asked, r) = safeFetchBytes w opts u
     in (asked, case r of Fetched b \<Rightarrow> Some (Some (u, b)) | No_bytes \<Rightarrow> Some None | Body_rejected \<Rightarrow> None))"

text \<open>
  \<open>Promise.all\<close>: one rejected image job rejects the whole (\<open>None\<close>). The URLs listed are those of the image
  jobs; the font jobs, which never reject, ask the two hosts of Google Fonts, inside the parameter \<open>le_font\<close>,
  and those requests are not listed.
\<close>

definition fetchResources :: "web \<Rightarrow> layout_engine \<Rightarrow> convert_options \<Rightarrow> (string \<Rightarrow> bool) option
    \<Rightarrow> resource_need list \<Rightarrow> string list \<times> (html_font list \<times> (string \<times> bytes) list) option" where
  "fetchResources w e co sb needs =
     (let jobs = map (image_job w \<lparr>fo_timeout = timeout_of co, fo_headers = None, fo_block = sb\<rparr>) (image_urls needs)
      in (concat (map fst jobs),
          if list_ex (\<lambda>j. snd j = None) jobs then None
          else Some (List.map_filter (font_job e) needs, List.map_filter (\<lambda>j. case snd j of Some r \<Rightarrow> r | None \<Rightarrow> None) jobs)))"

definition buildRenderOptions :: "layout_engine \<Rightarrow> convert_options \<Rightarrow> (string \<times> bytes) list \<Rightarrow> render_options option" where
  "buildRenderOptions e co resources =
     (let given = (\<lambda>v. v \<noteq> None \<and> v \<noteq> Some []);
        (pw, ph) = (if given (cv_width co) \<and> given (cv_height co)
          then (cssLengthToPoints (cv_width co) 612, cssLengthToPoints (cv_height co) 792)
          else (case le_pageSize e (case cv_format co of None \<Rightarrow> ''A4'' | Some f \<Rightarrow> f) of
              Some wh \<Rightarrow> wh | None \<Rightarrow> (59528 / 100, 84189 / 100)));
        (pw', ph') = (if cv_landscape co \<and> pw < ph then (ph, pw) else (pw, ph))
      in map_option (\<lambda>m. \<lparr>ro_pageWidth = pw', ro_pageHeight = ph', ro_margin = m, ro_resources = resources\<rparr>)
           (resolveMargins (cv_margin co)))"

datatype convert_error = Url_type_error | Invalid_url_protocol string | Url_load_failed string
  | Body_unreadable | Margin_type_error | Engine_threw

definition renderHtml :: "web \<Rightarrow> layout_engine \<Rightarrow> string \<Rightarrow> convert_options \<Rightarrow> (string \<Rightarrow> bool) option
    \<Rightarrow> string list \<times> (convert_error + bytes)" where
  "renderHtml w e html co sb =
     (let doc = (case cv_customCSS co of None \<Rightarrow> html
          | Some css \<Rightarrow> if css = [] then html else html @ [CHR 0x0A] @ ''<style>'' @ css @ ''</style>'');
        (asked, got) = fetchResources w e co sb (le_needs e doc)
      in (asked, case got of
           None \<Rightarrow> Inl Body_unreadable
         | Some (fonts, resources) \<Rightarrow> (case buildRenderOptions e co resources of
               None \<Rightarrow> Inl Margin_type_error
             | Some ro \<Rightarrow> (case le_render e doc fonts ro of None \<Rightarrow> Inl Engine_threw | Some pdf \<Rightarrow> Inr pdf))))"

definition htmlToPDF :: "web \<Rightarrow> layout_engine \<Rightarrow> string \<Rightarrow> convert_options \<Rightarrow> string list \<times> (convert_error + bytes)" where
  "htmlToPDF w e html co = renderHtml w e html co None"

definition fetchAndRender :: "web \<Rightarrow> layout_engine \<Rightarrow> string \<Rightarrow> convert_options \<Rightarrow> (string \<Rightarrow> bool) option
    \<Rightarrow> string list \<times> (convert_error + bytes)" where
  "fetchAndRender w e url co sb = (case web_parse w url of
       None \<Rightarrow> ([], Inl Url_type_error)
     | Some u \<Rightarrow>
         if \<not> http_url u then ([], Inl (Invalid_url_protocol (url_protocol u)))
         else (let (asked, r) = safeFetchBytes w \<lparr>fo_timeout = timeout_of co, fo_headers = cv_headers co, fo_block = sb\<rparr> url
           in (case r of
               Body_rejected \<Rightarrow> (asked, Inl Body_unreadable)
             | No_bytes \<Rightarrow> (asked, Inl (Url_load_failed url))
             | Fetched b \<Rightarrow> (let (asked', res) = renderHtml w e (le_decode e b) co sb in (asked @ asked', res)))))"

definition urlToPDF :: "web \<Rightarrow> layout_engine \<Rightarrow> string \<Rightarrow> convert_options \<Rightarrow> string list \<times> (convert_error + bytes)" where
  "urlToPDF w e url co = fetchAndRender w e url co None"

definition urlToPDFSafe :: "web \<Rightarrow> layout_engine \<Rightarrow> string \<Rightarrow> convert_options \<Rightarrow> (string \<Rightarrow> bool) option
    \<Rightarrow> string list \<times> (convert_error + bytes)" where
  "urlToPDFSafe w e url co sb = fetchAndRender w e url co sb"

end
