(* ===== verification/Convert_Route.thy ===== *)
theory Convert_Route
  imports Html_To_Pdf
begin

text \<open>
  The route \<open>POST /api/pdf/convert\<close> (\<open>apps/web/src/app/api/pdf/convert/route.ts\<close>): it reads the
  body, checks a URL with the DNS, caps the timeout, converts with the per-request guard, and maps
  every failure to a status. The result lists the URLs the server asked for.
\<close>

definition URL_TO_PDF_TIMEOUT_MS :: jsnum where
  "URL_TO_PDF_TIMEOUT_MS = 15000"

text \<open>
  The JSON body. A field of another type than the one read is \<open>None\<close>, where the code tests the type or
  the value is then refused in the same way; the file name may be of another type (\<open>Some None\<close>), which is only
  noticed when the header is written; custom CSS of another type is its text, as the template makes it.
  A format of another type is not modelled.
\<close>

record convert_body =
  cb_source :: "string option"
  cb_html :: "string option"
  cb_url :: "string option"
  cb_outputFilename :: "utf16 option option"
  cb_format :: "string option"
  cb_landscape :: bool
  cb_margin :: margin_option
  cb_timeout :: "jsnum option"
  cb_customCSS :: "string option"
  cb_headers :: "headers_init option"

text \<open>The body \<open>null\<close> is valid JSON, and reading a field of it throws.\<close>

datatype json_body = Not_json | Null_body | Json_body convert_body

datatype reply_error =
    Invalid_json | Invalid_source | Html_required | Url_required | Not_permitted
  | Bad_url url_error | Convert_failed

datatype convert_reply =
    Unauthorised
  | Error_reply nat reply_error
  | Pdf_reply string nat bytes \<comment> \<open>\<open>Content-Disposition\<close>, \<open>Content-Length\<close>, body\<close>

definition body_options :: "convert_body \<Rightarrow> convert_options" where
  "body_options b = \<lparr>cv_format = Some (case cb_format b of None \<Rightarrow> ''A4'' | Some f \<Rightarrow> f),
     cv_landscape = cb_landscape b, cv_margin = cb_margin b, cv_width = None, cv_height = None,
     cv_timeout = Some (case cb_timeout b of None \<Rightarrow> 30000 | Some t \<Rightarrow> t),
     cv_customCSS = cb_customCSS b, cv_headers = cb_headers b\<rparr>"

definition safe_options :: "convert_options \<Rightarrow> convert_options" where
  "safe_options co = co\<lparr>cv_timeout := Some (min
     (case cv_timeout co of None \<Rightarrow> URL_TO_PDF_TIMEOUT_MS | Some t \<Rightarrow> t) URL_TO_PDF_TIMEOUT_MS)\<rparr>"

text \<open>The status of a URL the check refuses.\<close>

definition refusal :: "url_error \<Rightarrow> convert_reply" where
  "refusal err = (case ssrf_blocked err of
       Some _ \<Rightarrow> Error_reply 422 Not_permitted
     | None \<Rightarrow> Error_reply 400 (Bad_url err))"

text \<open>The header: \<open>None\<close> when the file name is not a string or \<open>encodeURIComponent\<close> throws.\<close>

definition file_header :: "convert_body \<Rightarrow> string option" where
  "file_header b = (case cb_outputFilename b of
       None \<Rightarrow> sanitizeContentDisposition (map code_unit ''converted.pdf'') ''attachment''
     | Some None \<Rightarrow> None
     | Some (Some f) \<Rightarrow> sanitizeContentDisposition f ''attachment'')"

definition pdf_response :: "convert_body \<Rightarrow> string list \<times> (convert_error + bytes) \<Rightarrow> string list \<times> convert_reply" where
  "pdf_response b out = (fst out, case snd out of
       Inl _ \<Rightarrow> Error_reply 500 Convert_failed
     | Inr pdf \<Rightarrow> (case file_header b of
           None \<Rightarrow> Error_reply 500 Convert_failed
         | Some h \<Rightarrow> Pdf_reply h (length pdf) pdf))"

definition convert_POST :: "bool \<Rightarrow> web \<Rightarrow> layout_engine \<Rightarrow> dns \<Rightarrow> string option
    \<Rightarrow> json_body \<Rightarrow> string list \<times> convert_reply" where
  "convert_POST session w e d env body =
     (if \<not> session then ([], Unauthorised)
      else (case body of
          Not_json \<Rightarrow> ([], Error_reply 400 Invalid_json)
        | Null_body \<Rightarrow> ([], Error_reply 500 Convert_failed)
        | Json_body b \<Rightarrow>
            if cb_source b = Some ''html''
            then (case cb_html b of
                None \<Rightarrow> ([], Error_reply 400 Html_required)
              | Some html \<Rightarrow>
                  if js_trim html = [] then ([], Error_reply 400 Html_required)
                  else pdf_response b (htmlToPDF w e html (body_options b)))
            else if cb_source b = Some ''url''
            then (case cb_url b of
                None \<Rightarrow> ([], Error_reply 400 Url_required)
              | Some u \<Rightarrow>
                  if u = [] then ([], Error_reply 400 Url_required)
                  else (case snd (validateUrlForPdfConversion (web_parse w) d env u) of
                      Inl err \<Rightarrow> ([], refusal err)
                    | Inr ips \<Rightarrow> pdf_response b (urlToPDFSafe w e u (safe_options (body_options b))
                        (Some (shouldBlockFetchRequest (web_parse w))))))
            else ([], Error_reply 400 Invalid_source)))"

section \<open>What the server asks for\<close>

lemma safeFetch_open:
  "list_all (open_url w opts) (fst (safeFetchBytes w opts u)) \<and> length (fst (safeFetchBytes w opts u)) \<le> 6"
  using fetch_loop_facts[of w opts 0 u "MAX_REDIRECTS + 1", OF prod.collapse[symmetric]]
  by (simp add: safeFetchBytes_def MAX_REDIRECTS_def)

text \<open>A URL that passed both guards.\<close>

definition may_ask :: "url_parser \<Rightarrow> (string \<Rightarrow> bool) option \<Rightarrow> string \<Rightarrow> bool" where
  "may_ask parse sb u \<longleftrightarrow> \<not> isBlockedFetchUrl parse u \<and> (case sb of None \<Rightarrow> True | Some f \<Rightarrow> \<not> f u)"

lemma open_may_ask: "open_url w opts u \<longleftrightarrow> may_ask (web_parse w) (fo_block opts) u"
  by (auto simp: open_url_def may_ask_def blocked_by_def split: option.splits)

lemma renderHtml_asks: "list_all (may_ask (web_parse w) sb) (fst (renderHtml w e html co sb))"
proof -
  have job: "list_all (may_ask (web_parse w) (fo_block opts)) (fst (image_job w opts u))" for opts u
    using safeFetch_open[of w opts u] by (simp add: image_job_def open_may_ask[abs_def] case_prod_beta)
  have "list_all (may_ask (web_parse w) sb) (fst (fetchResources w e co sb needs))" for needs
    using job[of "\<lparr>fo_timeout = timeout_of co, fo_headers = None, fo_block = sb\<rparr>"]
    by (auto simp: fetchResources_def Let_def list_all_iff)
  then show ?thesis by (simp add: renderHtml_def Let_def case_prod_beta)
qed

lemma fetchAndRender_asks: "list_all (may_ask (web_parse w) sb) (fst (fetchAndRender w e u co sb))"
proof -
  define opts where "opts = \<lparr>fo_timeout = timeout_of co, fo_headers = cv_headers co, fo_block = sb\<rparr>"
  have page: "list_all (may_ask (web_parse w) sb) (fst (safeFetchBytes w opts u))"
    using safeFetch_open[of w opts u] by (simp add: opts_def open_may_ask[abs_def])
  show ?thesis
    unfolding fetchAndRender_def opts_def[symmetric]
    using page renderHtml_asks[of w sb e _ co]
    by (simp add: case_prod_beta split: option.split fetched.split)
qed

text \<open>The guard the route injects stops whatever the package's own guard stops.\<close>

lemma baseline_weaker: "isBlockedFetchUrl parse u \<Longrightarrow> shouldBlockFetchRequest parse u"
proof -
  have v6: "list_ex P BASE_IPV6 \<Longrightarrow> list_ex P PRIVATE_IPV6_PATTERNS" for P
    by (auto simp: BASE_IPV6_def PRIVATE_IPV6_PATTERNS_def)
  have v4: "list_ex P BASE_IPV4 \<Longrightarrow> list_ex P PRIVATE_IPV4_PATTERNS" for P
    by (auto simp: BASE_IPV4_def PRIVATE_IPV4_PATTERNS_def)
  show "isBlockedFetchUrl parse u \<Longrightarrow> shouldBlockFetchRequest parse u"
    unfolding isBlockedFetchUrl_def shouldBlockFetchRequest_def isPrivateIp_def
    by (auto simp: Let_def dest: v6 v4 split: option.splits if_splits)
qed

lemma accepted_not_blocked:
  "snd (validateUrlForPdfConversion parse d env u) = Inr ips \<Longrightarrow> \<not> shouldBlockFetchRequest parse u"
  by (auto simp: validateUrlForPdfConversion_def shouldBlockFetchRequest_def Let_def
      split: option.splits if_splits)

lemma pdf_response_fst [simp]: "fst (pdf_response b out) = fst out"
  by (simp add: pdf_response_def)

text \<open>C21: in URL mode the server makes no request and sends no PDF unless there is a session and
  the URL of the body was accepted by the check, and every URL it asks for (the page, each redirect,
  each image) passed both guards.\<close>

theorem convert_POST_guarded:
  assumes "convert_POST session w e d env (Json_body b) = (asked, reply)"
    and "cb_source b = Some ''url''"
    and "asked \<noteq> [] \<or> reply = Pdf_reply disp n pdf"
  shows "\<exists>u ips. session \<and> cb_url b = Some u
    \<and> snd (validateUrlForPdfConversion (web_parse w) d env u) = Inr ips
    \<and> list_all (\<lambda>v. \<not> isBlockedFetchUrl (web_parse w) v \<and> \<not> shouldBlockFetchRequest (web_parse w) v) asked"
proof -
  let ?sb = "shouldBlockFetchRequest (web_parse w)"
  from assms obtain u ips where u: "session" "cb_url b = Some u"
    "snd (validateUrlForPdfConversion (web_parse w) d env u) = Inr ips"
    and out: "(asked, reply) = pdf_response b (urlToPDFSafe w e u (safe_options (body_options b)) (Some ?sb))"
    by (auto simp: convert_POST_def refusal_def split: if_splits option.splits sum.splits)
  have "list_all (may_ask (web_parse w) (Some ?sb)) asked"
    using fetchAndRender_asks[of w "Some ?sb" e u "safe_options (body_options b)"] out
    by (metis fst_conv pdf_response_fst urlToPDFSafe_def)
  with u show ?thesis by (auto simp: may_ask_def list_all_iff)
qed

text \<open>The allowlist and the DNS are asked about the first URL only: when the page of an accepted
  URL redirects to a URL that is not literally a private address, the server asks for it, whatever
  the allowlist says of its host and whatever address the host resolves to.\<close>

lemma redirect_host_unchecked:
  assumes "snd (validateUrlForPdfConversion (web_parse w) d env u) = Inr ips"
    and "cb_source b = Some ''url''" "cb_url b = Some u" "u \<noteq> []"
    and "redirects_to w \<lparr>fo_timeout = timeout_of (safe_options (body_options b)),
        fo_headers = cb_headers b, fo_block = Some (shouldBlockFetchRequest (web_parse w))\<rparr> 0 u v"
    and "\<not> shouldBlockFetchRequest (web_parse w) v"
  shows "v \<in> set (fst (convert_POST True w e d env (Json_body b)))"
proof -
  let ?sb = "shouldBlockFetchRequest (web_parse w)"
  define opts where "opts = \<lparr>fo_timeout = timeout_of (safe_options (body_options b)),
        fo_headers = cb_headers b, fo_block = Some ?sb\<rparr>"
  have h: "cv_headers (safe_options (body_options b)) = cb_headers b"
    by (simp add: safe_options_def body_options_def)
  have ok: "open_url w opts u" "open_url w opts v"
    using accepted_not_blocked[OF assms(1)] assms(6) baseline_weaker[of "web_parse w"]
    by (auto simp: open_url_def blocked_by_def opts_def)
  have "redirect_chain w opts 0 ([u] @ [v])" using assms(5) by (simp add: opts_def)
  from safeFetchBytes_chain[OF this] ok
  have "safeFetchBytes w opts u = (let (asked, r) = fetch_loop w opts 1 v 5 in (u # asked, r))" by simp
  moreover have "v \<in> set (fst (fetch_loop w opts 1 v (Suc 4)))"
    using ok(2) unfolding open_url_def fetch_loop.simps(2)
    by (auto simp: Let_def simp del: fetch_loop.simps split: option.splits prod.splits)
  ultimately have "v \<in> set (fst (safeFetchBytes w opts u))" by (auto simp: case_prod_beta)
  moreover obtain p where "web_parse w u = Some p" "http_url p"
    using assms(1) by (auto simp: Let_def validateUrlForPdfConversion_def split: option.splits if_splits)
  ultimately have "v \<in> set (fst (fetchAndRender w e u (safe_options (body_options b)) (Some ?sb)))"
    unfolding fetchAndRender_def h opts_def[symmetric]
    by (simp add: case_prod_beta split: fetched.split)
  then show ?thesis
    using assms by (simp add: convert_POST_def urlToPDFSafe_def)
qed

text \<open>C22: The redirect loop ends after at most six requests; a sixth redirect gives nothing, and
  bytes are returned only when there are some and at most 20 MB of them.\<close>

theorem redirects_bounded:
  "length (fst (safeFetchBytes w opts u)) \<le> 6 \<and>
   (redirect_chain w opts 0 (us @ [v]) \<and> list_all (open_url w opts) us \<and> length us = 6
      \<longrightarrow> safeFetchBytes w opts (hd (us @ [v])) = (us, No_bytes)) \<and>
   (\<forall>body. snd (safeFetchBytes w opts u) = Fetched body \<longrightarrow> body \<noteq> [] \<and> length body \<le> MAX_RESOURCE_BYTES)"
proof (intro conjI impI allI)
  show "length (fst (safeFetchBytes w opts u)) \<le> 6" using safeFetch_open by blast
next
  assume a: "redirect_chain w opts 0 (us @ [v]) \<and> list_all (open_url w opts) us \<and> length us = 6"
  then show "safeFetchBytes w opts (hd (us @ [v])) = (us, No_bytes)"
    using safeFetchBytes_chain[of w opts us v] by simp
next
  fix body assume "snd (safeFetchBytes w opts u) = Fetched body"
  then show "body \<noteq> []" "length body \<le> MAX_RESOURCE_BYTES"
    using fetch_loop_facts[of w opts 0 u "MAX_REDIRECTS + 1", OF prod.collapse[symmetric]]
    by (auto simp: safeFetchBytes_def)
qed

text \<open>A public page that redirects to an internal name.\<close>

definition demo_web :: web where
  "demo_web = \<lparr>
     web_parse = (\<lambda>s. if s = ''http://a.io/'' then Some \<lparr>url_protocol = ''http:'', url_host = ''a.io'', url_hostname = ''a.io'', url_pathname = ''/''\<rparr>
        else if s = ''http://db/'' then Some \<lparr>url_protocol = ''http:'', url_host = ''db'', url_hostname = ''db'', url_pathname = ''/''\<rparr> else None),
     web_join = (\<lambda>loc base. Some loc),
     web_fetch = (\<lambda>hs t n u. if u = ''http://a.io/'' then Some \<lparr>res_status = 302, res_location = Some ''http://db/'', res_body = Some []\<rparr>
        else Some \<lparr>res_status = 200, res_location = None, res_body = Some [65]\<rparr>)\<rparr>"

definition demo_dns :: dns where
  "demo_dns = \<lparr>resolve4 = (\<lambda>h. if h = ''a.io'' then Some [''8.8.8.8''] else Some [''10.0.0.5'']),
     resolve6 = (\<lambda>h. None), resolve_any = (\<lambda>h. None)\<rparr>"

definition demo_engine :: layout_engine where
  "demo_engine = \<lparr>le_needs = (\<lambda>s. []), le_render = (\<lambda>s fs ro. Some [37]), le_pageSize = (\<lambda>f. None),
     le_decode = (\<lambda>b. map char_of b), le_font = (\<lambda>f n i. None)\<rparr>"

definition demo_body :: convert_body where
  "demo_body = \<lparr>cb_source = Some ''url'', cb_html = None, cb_url = Some ''http://a.io/'',
     cb_outputFilename = None, cb_format = None, cb_landscape = False, cb_margin = Margin_unset,
     cb_timeout = None, cb_customCSS = None, cb_headers = None\<rparr>"

lemma demo_accepted: "snd (validateUrlForPdfConversion (web_parse demo_web) demo_dns None ''http://a.io/'') = Inr [''8.8.8.8'']"
  by code_simp

lemma demo_refused: "snd (validateUrlForPdfConversion (web_parse demo_web) demo_dns None ''http://db/'') = Inl (Resolves_to_private ''db'' ''10.0.0.5'')"
  by code_simp

definition down_web :: web where
  "down_web = demo_web\<lparr>web_fetch := (\<lambda>hs t n u. None)\<rparr>"

lemma down_run: "convert_POST True down_web demo_engine demo_dns None (Json_body demo_body)
    = ([''http://a.io/''], Error_reply 500 Convert_failed)"
  by code_simp

lemma demo_source: "cb_source demo_body = Some ''url''" "cb_url demo_body = Some ''http://a.io/''"
  by (simp_all add: demo_body_def)

theorem convert_POST_guarded_witness:
  "\<exists>u ips. True \<and> cb_url demo_body = Some u
    \<and> snd (validateUrlForPdfConversion (web_parse down_web) demo_dns None u) = Inr ips
    \<and> list_all (\<lambda>v. \<not> isBlockedFetchUrl (web_parse down_web) v \<and> \<not> shouldBlockFetchRequest (web_parse down_web) v)
        [''http://a.io/'']"
  by (rule convert_POST_guarded[OF down_run demo_source(1)]) simp

theorem redirect_host_unchecked_witness:
  "''http://db/'' \<in> set (fst (convert_POST True demo_web demo_engine demo_dns None (Json_body demo_body)))
   \<and> snd (validateUrlForPdfConversion (web_parse demo_web) demo_dns None ''http://db/'') = Inl (Resolves_to_private ''db'' ''10.0.0.5'')"
proof
  show "''http://db/'' \<in> set (fst (convert_POST True demo_web demo_engine demo_dns None (Json_body demo_body)))"
    by (rule redirect_host_unchecked[OF demo_accepted demo_source])
      (simp, simp add: redirects_to_def demo_web_def, code_simp)
qed (rule demo_refused)

theorem redirects_bounded_witness:
  "safeFetchBytes (demo_web\<lparr>web_fetch := (\<lambda>hs t n u. Some \<lparr>res_status = 302, res_location = Some u, res_body = Some []\<rparr>)\<rparr>)
      \<lparr>fo_timeout = 1, fo_headers = None, fo_block = None\<rparr> ''http://db/'' = (replicate 6 ''http://db/'', No_bytes)"
proof -
  let ?w = "demo_web\<lparr>web_fetch := (\<lambda>hs t n u. Some \<lparr>res_status = 302, res_location = Some u, res_body = Some []\<rparr>)\<rparr>"
  let ?o = "\<lparr>fo_timeout = 1, fo_headers = None, fo_block = None\<rparr>"
  have "redirects_to ?w ?o n ''http://db/'' ''http://db/''" for n
    by (simp add: redirects_to_def demo_web_def)
  moreover have "open_url ?w ?o ''http://db/''" by code_simp
  ultimately show ?thesis
    using redirects_bounded[of ?w ?o "''http://db/''" "replicate 6 ''http://db/''" "''http://db/''"]
    by (simp add: numeral_eq_Suc)
qed

end
