(* ===== verification/With_Retry.thy ===== *)
theory With_Retry
  imports Prelude
begin

text \<open>
  \<open>apps/web/src/lib/with-retry.ts\<close>: repeating an asynchronous operation with waits that triple.
  The operation is a function of the number of the attempt (it may behave differently each time);
  the result lists what happened on the way: a call of \<open>onAttemptFailed\<close> (taken not to throw itself)
  and a wait.
\<close>

text \<open>What \<open>isRetryable\<close> can tell of a thrown value: an abort, an error with a numeric \<open>status\<close>
  of its own, one whose \<open>response\<close> has a numeric status, and anything else.\<close>

datatype 'e thrown =
    Abort_error
  | With_status int 'e
  | With_response int 'e
  | Plain_error 'e

definition NON_RETRYABLE_STATUSES :: "int list" where
  "NON_RETRYABLE_STATUSES = [400, 401, 403, 404, 422]"

fun isRetryable :: "'e thrown \<Rightarrow> bool" where
  "isRetryable Abort_error = False"
| "isRetryable (With_status n e) = (n \<notin> set NON_RETRYABLE_STATUSES)"
| "isRetryable (With_response n e) = (n \<notin> set NON_RETRYABLE_STATUSES)"
| "isRetryable (Plain_error e) = True"

datatype 'e retry_event = Attempt_failed int "'e thrown" | Waited jsnum

text \<open>
  The loop from attempt number \<open>attempt\<close>; \<open>lastErr\<close> is \<open>None\<close> while it is \<open>undefined\<close>. The thrown
  value of the whole is \<open>lastErr\<close>.
\<close>

function retry_loop :: "(int \<Rightarrow> 'e thrown + 'a) \<Rightarrow> int \<Rightarrow> jsnum \<Rightarrow> int \<Rightarrow> 'e thrown option
    \<Rightarrow> 'e retry_event list \<times> ('e thrown option + 'a)" where
  "retry_loop op maxAttempts baseDelayMs attempt lastErr =
     (if attempt \<le> maxAttempts
      then (case op attempt of
          Inr x \<Rightarrow> ([], Inr x)
        | Inl err \<Rightarrow>
            if attempt = maxAttempts \<or> \<not> isRetryable err
            then ([Attempt_failed attempt err], Inl (Some err))
            else (let (evs, r) = retry_loop op maxAttempts baseDelayMs (attempt + 1) (Some err)
              in (Attempt_failed attempt err # Waited (baseDelayMs * 3 ^ nat (attempt - 1)) # evs, r)))
      else ([], Inl lastErr))"
  by pat_completeness auto
termination
  by (relation "measure (\<lambda>(op, maxAttempts, baseDelayMs, attempt, lastErr). nat (maxAttempts + 1 - attempt))") auto

declare retry_loop.simps [simp del]

text \<open>The options with their defaults.\<close>

definition withRetry :: "(int \<Rightarrow> 'e thrown + 'a) \<Rightarrow> int option \<Rightarrow> jsnum option
    \<Rightarrow> 'e retry_event list \<times> ('e thrown option + 'a)" where
  "withRetry op maxAttempts baseDelayMs = retry_loop op
     (case maxAttempts of None \<Rightarrow> 3 | Some m \<Rightarrow> m) (case baseDelayMs of None \<Rightarrow> 200 | Some b \<Rightarrow> b) 1 None"

section \<open>What a run does\<close>

definition fails_with :: "(int \<Rightarrow> 'e thrown + 'a) \<Rightarrow> int \<Rightarrow> 'e thrown \<Rightarrow> bool" where
  "fails_with op k e = (op k = Inl e)"

text \<open>The events of attempts \<open>k .. k + n - 1\<close> when each of them fails and is retried.\<close>

fun retried :: "(int \<Rightarrow> 'e thrown) \<Rightarrow> jsnum \<Rightarrow> int \<Rightarrow> nat \<Rightarrow> 'e retry_event list" where
  "retried err b k 0 = []"
| "retried err b k (Suc n) = Attempt_failed k (err k) # Waited (b * 3 ^ nat (k - 1)) # retried err b (k + 1) n"

lemma retry_loop_retried:
  assumes "\<And>i. k \<le> i \<Longrightarrow> i < k + int n \<Longrightarrow> op i = Inl (err i) \<and> isRetryable (err i)"
    and "k + int n \<le> m"
  shows "\<exists>l. retry_loop op m b k lst =
    (let (evs, r) = retry_loop op m b (k + int n) l in (retried err b k n @ evs, r))"
  using assms
proof (induction n arbitrary: k lst)
  case 0
  then show ?case by auto
next
  case (Suc n)
  have op: "op k = Inl (err k)" "isRetryable (err k)" using Suc.prems(1)[of k] by auto
  have "\<exists>l. retry_loop op m b (k + 1) (Some (err k)) =
    (let (evs, r) = retry_loop op m b (k + 1 + int n) l in (retried err b (k + 1) n @ evs, r))"
    using Suc.prems by (intro Suc.IH) auto
  then obtain l where "retry_loop op m b (k + 1) (Some (err k)) =
    (let (evs, r) = retry_loop op m b (k + int (Suc n)) l in (retried err b (k + 1) n @ evs, r))"
    by (auto simp: algebra_simps)
  moreover have "k \<noteq> m" "k \<le> m" using Suc.prems(2) by auto
  ultimately show ?case
    using op by (subst retry_loop.simps) (auto simp: case_prod_beta)
qed

definition wait_of :: "'e retry_event \<Rightarrow> jsnum" where
  "wait_of ev = (case ev of Waited d \<Rightarrow> d | Attempt_failed n e \<Rightarrow> 0)"

lemma retried_wait: "0 \<le> k \<Longrightarrow> sum_list (map wait_of (retried err b (k + 1) n)) = b * 3 ^ nat k * (3 ^ n - 1) / 2"
proof (induction n arbitrary: k)
  case (Suc n)
  have "nat (k + 1) = Suc (nat k)" using Suc.prems by simp
  with Suc.IH[of "k + 1"] Suc.prems show ?case
    by (simp add: wait_of_def algebra_simps)
qed simp

text \<open>An operation whose first attempts fail with retryable errors and which then succeeds,
  within the number of attempts allowed, gives its value; the caller saw exactly the failed
  attempts, and the waits add up to half of the delay times one less than the power of three.\<close>

lemma retry_succeeds:
  assumes "list_all (\<lambda>i. fails_with op (int i) (err (int i)) \<and> isRetryable (err (int i))) [1..<Suc n]"
    and "op (int n + 1) = Inr x" and "int n < m"
  shows "withRetry op (Some m) (Some b) = (retried err b 1 n, Inr x)
    \<and> sum_list (map wait_of (retried err b 1 n)) = b * (3 ^ n - 1) / 2"
proof -
  have f: "op i = Inl (err i) \<and> isRetryable (err i)" if "1 \<le> i" "i < 1 + int n" for i
  proof -
    have "nat i \<in> set [1..<Suc n]" "int (nat i) = i" using that by auto
    then show ?thesis using assms(1) by (metis fails_with_def list_all_iff)
  qed
  obtain l where "retry_loop op m b 1 None =
      (let (evs, r) = retry_loop op m b (1 + int n) l in (retried err b 1 n @ evs, r))"
    using retry_loop_retried[of 1 n op err m b None] f assms(3) by auto
  moreover have "retry_loop op m b (1 + int n) l = ([], Inr x)"
    using assms(2,3) by (subst retry_loop.simps) (simp add: add.commute)
  ultimately have "withRetry op (Some m) (Some b) = (retried err b 1 n, Inr x)"
    by (simp add: withRetry_def)
  with retried_wait[of 0 err b n] show ?thesis by simp
qed

theorem retry_succeeds_witness:
  "withRetry (\<lambda>i. if i < 3 then Inl (Plain_error ()) else Inr True) (Some 3) (Some 200)
     = ([Attempt_failed 1 (Plain_error ()), Waited 200, Attempt_failed 2 (Plain_error ()), Waited 600], Inr True)"
  using retry_succeeds[of "\<lambda>i. if i < 3 then Inl (Plain_error ()) else Inr True" "\<lambda>i. Plain_error ()" 2 True 3 200]
  by (simp add: fails_with_def numeral_eq_Suc)

text \<open>An attempt after which the loop goes round again, and what it threw.\<close>

definition retries :: "'e thrown + 'a \<Rightarrow> bool" where
  "retries r = (case r of Inl err \<Rightarrow> isRetryable err | Inr x \<Rightarrow> False)"

definition thrown_by :: "(int \<Rightarrow> 'e thrown + 'a) \<Rightarrow> int \<Rightarrow> 'e thrown" where
  "thrown_by op i = (case op i of Inl err \<Rightarrow> err | Inr x \<Rightarrow> Abort_error)"

lemma retry_loop_ends:
  "1 \<le> k \<Longrightarrow> k \<le> m \<Longrightarrow> \<exists>j. k \<le> j \<and> j \<le> m \<and> list_all (\<lambda>i. retries (op i)) [k..j - 1] \<and>
     (case op j of
        Inr x \<Rightarrow> retry_loop op m b k l = (retried (thrown_by op) b k (nat (j - k)), Inr x)
      | Inl err \<Rightarrow> (j = m \<or> \<not> isRetryable err)
          \<and> retry_loop op m b k l = (retried (thrown_by op) b k (nat (j - k)) @ [Attempt_failed j err], Inl (Some err)))"
proof (induction "nat (m - k)" arbitrary: k l)
  case 0
  then have "k = m" by simp
  then show ?case by (intro exI[of _ k]) (simp add: retry_loop.simps split: sum.splits)
next
  case (Suc n)
  show ?case
  proof (cases "retries (op k) \<and> k \<noteq> m")
    case True
    then obtain err where e: "op k = Inl err" "k \<noteq> m" "isRetryable err"
      by (auto simp: retries_def split: sum.splits)
    have n: "n = nat (m - (k + 1))" using Suc.hyps(2) by simp
    have k: "1 \<le> k + 1" "k + 1 \<le> m" using Suc.prems e(2) by simp_all
    obtain j where j: "k + 1 \<le> j" "j \<le> m" "list_all (\<lambda>i. retries (op i)) [k + 1..j - 1]"
      "case op j of
        Inr x \<Rightarrow> retry_loop op m b (k + 1) (Some err) = (retried (thrown_by op) b (k + 1) (nat (j - (k + 1))), Inr x)
      | Inl e \<Rightarrow> (j = m \<or> \<not> isRetryable e) \<and> retry_loop op m b (k + 1) (Some err)
          = (retried (thrown_by op) b (k + 1) (nat (j - (k + 1))) @ [Attempt_failed j e], Inl (Some e))"
      using Suc.hyps(1)[OF n] k by blast
    have "nat (j - k) = Suc (nat (j - (k + 1)))" using j(1) by simp
    moreover have "[k..j - 1] = k # [k + 1..j - 1]" using j(1) by (simp add: upto_rec1)
    moreover have "retry_loop op m b k l = (let (evs, r) = retry_loop op m b (k + 1) (Some err)
        in (Attempt_failed k err # Waited (b * 3 ^ nat (k - 1)) # evs, r))"
      using e Suc.prems by (subst retry_loop.simps) simp
    ultimately show ?thesis
      using j e True by (intro exI[of _ j]) (auto simp: thrown_by_def split: sum.splits)
  next
    case False
    then show ?thesis
      using Suc.prems by (intro exI[of _ k]) (auto simp: retry_loop.simps[of op m b k l] retries_def split: sum.splits)
  qed
qed

text \<open>C31: Whatever the operation does, a run with at least one attempt allowed stops at one attempt, its stopping
  point: all earlier attempts failed with errors that are retried; the attempt itself succeeded, failed with
  an error that is not retried, or was the last one allowed. The run gives exactly what that attempt gave,
  and the caller saw exactly the earlier failures, each followed by its wait, and the final one without a wait.\<close>

theorem retry_ends:
  assumes "1 \<le> m"
  shows "\<exists>j. 1 \<le> j \<and> j \<le> m \<and> list_all (\<lambda>i. retries (op i)) [1..j - 1] \<and>
     (case op j of
        Inr x \<Rightarrow> withRetry op (Some m) (Some b) = (retried (thrown_by op) b 1 (nat (j - 1)), Inr x)
      | Inl err \<Rightarrow> (j = m \<or> \<not> isRetryable err) \<and> withRetry op (Some m) (Some b)
          = (retried (thrown_by op) b 1 (nat (j - 1)) @ [Attempt_failed j err], Inl (Some err)))"
  unfolding withRetry_def option.case using assms by (intro retry_loop_ends) simp

definition flaky_op :: "int \<Rightarrow> unit thrown + bool" where
  "flaky_op i = Inl (With_status (if i = 1 then 503 else 404) ())"

theorem retry_ends_witness:
  "withRetry flaky_op (Some 5) (Some 200)
     = ([Attempt_failed 1 (With_status 503 ()), Waited 200, Attempt_failed 2 (With_status 404 ())],
        Inl (Some (With_status 404 ())))"
proof -
  obtain j where j: "1 \<le> j" "j \<le> 5" "list_all (\<lambda>i. retries (flaky_op i)) [1..j - 1]"
    "case flaky_op j of
        Inr x \<Rightarrow> withRetry flaky_op (Some 5) (Some 200) = (retried (thrown_by flaky_op) 200 1 (nat (j - 1)), Inr x)
      | Inl err \<Rightarrow> (j = 5 \<or> \<not> isRetryable err) \<and> withRetry flaky_op (Some 5) (Some 200)
          = (retried (thrown_by flaky_op) 200 1 (nat (j - 1)) @ [Attempt_failed j err], Inl (Some err))"
    using retry_ends[of 5 flaky_op 200] by auto
  have "j \<noteq> 1" using j(4) by (auto simp: flaky_op_def NON_RETRYABLE_STATUSES_def)
  moreover have "\<not> 2 < j"
  proof
    assume "2 < j"
    then have "2 \<in> set [1..j - 1]" by simp
    with j(3) have "retries (flaky_op 2)" by (metis list_all_iff)
    then show False by (simp add: retries_def flaky_op_def NON_RETRYABLE_STATUSES_def)
  qed
  ultimately have "j = 2" using j(1) by simp
  with j(4) show ?thesis by (simp add: flaky_op_def thrown_by_def numeral_eq_Suc)
qed

text \<open>The header comment names three client errors that are retried; the code retries all but five.\<close>

lemma client_errors_retried:
  "isRetryable (With_status 409 e) \<and> isRetryable (With_status 410 e) \<and> isRetryable (With_status 413 e)"
  by (simp add: NON_RETRYABLE_STATUSES_def)

end
