(* ===== verification/Render_Pool.thy ===== *)
theory Render_Pool
  imports Prelude
begin

text \<open>
  The canvases of \<open>apps/web/src/components/editor/lib/page-render-pool.ts\<close>: \<open>acquire\<close>, \<open>release\<close>,
  \<open>dispose\<close>, the eviction of the least recently used canvas and the free list. A canvas is the
  number under which it was created. \<open>acquire\<close> waits for the Fabric module between its look-up and
  its update, so it is two operations, and other calls can run between them; the step relation has
  all the interleavings. \<open>rl_dropped\<close> records the canvases on which \<open>dispose\<close> was called. Failures of
  \<open>clear\<close> are an argument; failures of \<open>dispose\<close> and of the rebinding are only logged.
\<close>

record pool_entry =
  pe_canvas :: nat
  pe_lastUsed :: nat

record render_pool =
  rl_maxLive :: nat
  rl_live :: "(nat, pool_entry) jsmap"
  rl_freeList :: "nat list"
  rl_tick :: nat
  rl_disposed :: bool
  rl_created :: nat
  rl_dropped :: "nat list"

definition DEFAULT_MAX_LIVE :: nat where
  "DEFAULT_MAX_LIVE = 12"

definition new_pool :: "nat option \<Rightarrow> render_pool" where
  "new_pool maxLive = \<lparr>rl_maxLive = max 1 (case maxLive of None \<Rightarrow> DEFAULT_MAX_LIVE | Some m \<Rightarrow> m),
     rl_live = [], rl_freeList = [], rl_tick = 0, rl_disposed = False, rl_created = 0, rl_dropped = []\<rparr>"

definition safeDispose :: "nat \<Rightarrow> render_pool \<Rightarrow> render_pool" where
  "safeDispose c p = p\<lparr>rl_dropped := rl_dropped p @ [c]\<rparr>"

text \<open>The scan of \<open>evictLeastRecentlyUsed\<close>: the smallest stamp, the first of equals.\<close>

fun lru_scan :: "(nat, pool_entry) jsmap \<Rightarrow> (nat \<times> nat) option \<Rightarrow> nat option" where
  "lru_scan [] best = map_option fst best"
| "lru_scan ((i, e) # m) best = lru_scan m
     (case best of None \<Rightarrow> Some (i, pe_lastUsed e)
      | Some (j, used) \<Rightarrow> if pe_lastUsed e < used then Some (i, pe_lastUsed e) else Some (j, used))"

definition evictLeastRecentlyUsed :: "render_pool \<Rightarrow> render_pool" where
  "evictLeastRecentlyUsed p = (case lru_scan (rl_live p) None of
       None \<Rightarrow> p
     | Some i \<Rightarrow> (let p' = p\<lparr>rl_live := AList.delete i (rl_live p)\<rparr>
         in case map_get (rl_live p) i of None \<Rightarrow> p' | Some victim \<Rightarrow> safeDispose (pe_canvas victim) p'))"

definition recycle :: "nat \<Rightarrow> bool \<Rightarrow> render_pool \<Rightarrow> render_pool" where
  "recycle c cleared p = (if cleared then p\<lparr>rl_freeList := rl_freeList p @ [c]\<rparr> else safeDispose c p)"

datatype pool_error = Acquire_after_dispose

text \<open>Up to the \<open>await\<close>: \<open>Some c\<close> when the page already has a canvas.\<close>

definition acquire_begin :: "nat \<Rightarrow> render_pool \<Rightarrow> pool_error + nat option \<times> render_pool" where
  "acquire_begin i p =
     (if rl_disposed p then Inl Acquire_after_dispose
      else (case map_get (rl_live p) i of
          Some e \<Rightarrow> Inr (Some (pe_canvas e), p\<lparr>rl_tick := Suc (rl_tick p),
              rl_live := AList.update i (e\<lparr>pe_lastUsed := Suc (rl_tick p)\<rparr>) (rl_live p)\<rparr>)
        | None \<Rightarrow> Inr (None, p)))"

text \<open>After it: make room, take a recycled canvas or create one, and enter it.\<close>

definition acquire_end :: "nat \<Rightarrow> render_pool \<Rightarrow> nat \<times> render_pool" where
  "acquire_end i p =
     (let p1 = (if length (rl_live p) \<ge> rl_maxLive p then evictLeastRecentlyUsed p else p);
          (c, p2) = (case rl_freeList p1 of
              r # rest \<Rightarrow> (r, p1\<lparr>rl_freeList := rest\<rparr>)
            | [] \<Rightarrow> (rl_created p1, p1\<lparr>rl_created := Suc (rl_created p1)\<rparr>));
          t = Suc (rl_tick p2)
      in (c, p2\<lparr>rl_tick := t, rl_live := AList.update i \<lparr>pe_canvas = c, pe_lastUsed = t\<rparr> (rl_live p2)\<rparr>))"

definition pool_release :: "nat \<Rightarrow> bool \<Rightarrow> render_pool \<Rightarrow> render_pool" where
  "pool_release i cleared p = (case map_get (rl_live p) i of
       None \<Rightarrow> p
     | Some e \<Rightarrow> recycle (pe_canvas e) cleared (p\<lparr>rl_live := AList.delete i (rl_live p)\<rparr>))"

definition pool_dispose :: "render_pool \<Rightarrow> render_pool" where
  "pool_dispose p = (if rl_disposed p then p
     else p\<lparr>rl_disposed := True,
        rl_dropped := rl_dropped p @ map (pe_canvas \<circ> snd) (rl_live p) @ rl_freeList p,
        rl_live := [], rl_freeList := []\<rparr>)"

section \<open>Interleavings\<close>

text \<open>The second component holds the pages whose \<open>acquire\<close> is waiting.\<close>

inductive pool_step :: "render_pool \<times> nat list \<Rightarrow> render_pool \<times> nat list \<Rightarrow> bool" where
  hit: "acquire_begin i p = Inr (Some c, p') \<Longrightarrow> pool_step (p, w) (p', w)"
| wait: "acquire_begin i p = Inr (None, p') \<Longrightarrow> pool_step (p, w) (p', i # w)"
| resume: "i \<in> set w \<Longrightarrow> acquire_end i p = (c, p') \<Longrightarrow> pool_step (p, w) (p', remove1 i w)"
| release: "pool_step (p, w) (pool_release i cleared p, w)"
| dispose: "pool_step (p, w) (pool_dispose p, w)"

inductive_cases pool_stepE: "pool_step (p, w) s'"

abbreviation pool_steps :: "render_pool \<times> nat list \<Rightarrow> render_pool \<times> nat list \<Rightarrow> bool" where
  "pool_steps \<equiv> pool_step\<^sup>*\<^sup>*"

definition live_canvases :: "render_pool \<Rightarrow> nat list" where
  "live_canvases p = map (pe_canvas \<circ> snd) (rl_live p)"

definition stamps :: "render_pool \<Rightarrow> nat list" where
  "stamps p = map (pe_lastUsed \<circ> snd) (rl_live p)"

text \<open>Every canvas is in one place at most, and the pool never holds more than its cap.\<close>

definition pool_inv :: "render_pool \<Rightarrow> bool" where
  "pool_inv p \<longleftrightarrow> 0 < rl_maxLive p \<and> wf_map (rl_live p)
     \<and> length (rl_live p) + length (rl_freeList p) \<le> rl_maxLive p
     \<and> distinct (live_canvases p @ rl_freeList p @ rl_dropped p)
     \<and> list_all (\<lambda>c. c < rl_created p) (live_canvases p @ rl_freeList p @ rl_dropped p)
     \<and> distinct (stamps p) \<and> list_all (\<lambda>t. t \<le> rl_tick p) (stamps p)"

text \<open>The entries of a map split around a key.\<close>

lemma map_split:
  assumes "wf_map m" "map_get m i = Some e"
  obtains xs ys where "m = xs @ (i, e) # ys" "AList.delete i m = xs @ ys"
    "\<And>e'. AList.update i e' m = xs @ (i, e') # ys"
proof -
  have "\<exists>xs ys. m = xs @ (i, e) # ys \<and> AList.delete i m = xs @ ys \<and> (\<forall>e'. AList.update i e' m = xs @ (i, e') # ys)"
    using assms
  proof (induction m)
    case (Cons a m)
    obtain j f where a: "a = (j, f)" by (cases a)
    show ?case
    proof (cases "j = i")
      case True
      then have "AList.delete i m = m" using Cons.prems(1) a
        by (intro delete_id) (auto simp: wf_map_def True)
      then show ?thesis using True Cons.prems a by (intro exI[of _ "[]"] exI[of _ m]) auto
    next
      case False
      then obtain xs ys where "m = xs @ (i, e) # ys" "AList.delete i m = xs @ ys"
        "\<forall>e'. AList.update i e' m = xs @ (i, e') # ys"
        using Cons a by (auto simp: wf_map_def)
      then show ?thesis using False a by (intro exI[of _ "a # xs"] exI[of _ ys]) auto
    qed
  qed simp
  then show thesis using that by blast
qed

lemma update_new: "map_get m i = None \<Longrightarrow> AList.update i e m = m @ [(i, e)]"
  by (induction m) (auto split: if_splits)

lemma delete_absent: "map_get m i = None \<Longrightarrow> AList.delete i m = m"
  by (rule delete_id) (simp add: map_of_eq_None_iff)

lemma lru_scan_best:
  "\<exists>i. lru_scan m (Some (j, u)) = Some i \<and>
     (i = j \<and> (\<forall>(k, e)\<in>set m. u \<le> pe_lastUsed e) \<or>
      (\<exists>e. (i, e) \<in> set m \<and> pe_lastUsed e < u \<and> (\<forall>(k, e')\<in>set m. pe_lastUsed e \<le> pe_lastUsed e')))"
proof (induction m arbitrary: j u)
  case (Cons a m)
  obtain k f where a: "a = (k, f)" by (cases a)
  show ?case
  proof (cases "pe_lastUsed f < u")
    case True
    with Cons.IH[of k "pe_lastUsed f"] show ?thesis unfolding a by fastforce
  next
    case False
    with Cons.IH[of j u] show ?thesis unfolding a by fastforce
  qed
qed simp

lemma lru_victim:
  assumes "m \<noteq> []"
  obtains i e where "lru_scan m None = Some i" "(i, e) \<in> set m" "\<forall>(k, e')\<in>set m. pe_lastUsed e \<le> pe_lastUsed e'"
proof -
  obtain k f m' where m: "m = (k, f) # m'" using assms by (cases m) auto
  from lru_scan_best[of m' k "pe_lastUsed f"] that show thesis unfolding m by fastforce
qed

text \<open>The pool after the entry of page \<open>i\<close> is taken out, and where its canvas went.\<close>

lemma inv_evict:
  assumes "pool_inv p" "rl_live p \<noteq> []"
  obtains i e xs ys where "rl_live p = xs @ (i, e) # ys"
    "\<forall>(k, e')\<in>set (rl_live p). pe_lastUsed e \<le> pe_lastUsed e'"
    "evictLeastRecentlyUsed p = p\<lparr>rl_live := xs @ ys, rl_dropped := rl_dropped p @ [pe_canvas e]\<rparr>"
proof -
  have wf: "wf_map (rl_live p)" using assms(1) by (simp add: pool_inv_def)
  obtain i e where v: "lru_scan (rl_live p) None = Some i" "(i, e) \<in> set (rl_live p)"
    "\<forall>(k, e')\<in>set (rl_live p). pe_lastUsed e \<le> pe_lastUsed e'"
    using lru_victim[OF assms(2)] by blast
  have g: "map_get (rl_live p) i = Some e" using wf v(2) by (simp add: wf_map_def)
  obtain xs ys where xy: "rl_live p = xs @ (i, e) # ys" "AList.delete i (rl_live p) = xs @ ys"
    using map_split[OF wf g] by metis
  have "evictLeastRecentlyUsed p = p\<lparr>rl_live := xs @ ys, rl_dropped := rl_dropped p @ [pe_canvas e]\<rparr>"
    unfolding evictLeastRecentlyUsed_def v(1) by (simp add: g xy(2) safeDispose_def Let_def)
  then show thesis by (rule that[OF xy(1) v(3)])
qed

lemmas pool_views = pool_inv_def live_canvases_def stamps_def wf_map_def

lemma inv_evicted:
  assumes "pool_inv p"
  shows "pool_inv (evictLeastRecentlyUsed p)"
proof (cases "rl_live p = []")
  case True
  then show ?thesis using assms by (simp add: evictLeastRecentlyUsed_def)
next
  case False
  show ?thesis
    by (rule inv_evict[OF assms False]) (use assms in \<open>auto simp: pool_views\<close>)
qed

lemma inv_acquire_begin:
  assumes "pool_inv p" "acquire_begin i p = Inr (r, p')"
  shows "pool_inv p'"
proof (cases "map_get (rl_live p) i")
  case None
  then show ?thesis using assms by (auto simp: acquire_begin_def split: if_splits)
next
  case (Some e)
  have wf: "wf_map (rl_live p)" using assms(1) by (simp add: pool_inv_def)
  obtain xs ys where xy: "rl_live p = xs @ (i, e) # ys"
    "\<And>e'. AList.update i e' (rl_live p) = xs @ (i, e') # ys"
    using map_split[OF wf Some] by metis
  have p': "p' = p\<lparr>rl_tick := Suc (rl_tick p), rl_live := xs @ (i, e\<lparr>pe_lastUsed := Suc (rl_tick p)\<rparr>) # ys\<rparr>"
    using assms(2) Some by (simp add: acquire_begin_def xy(2) split: if_splits)
  have le: "t \<le> rl_tick p" if "t \<in> set (stamps p)" for t
    using assms(1) that by (auto simp: pool_inv_def list_all_iff)
  moreover have "pe_lastUsed f \<in> set (stamps p)" if "(k, f) \<in> set xs \<union> set ys" for k f
    using that xy(1) by (force simp: stamps_def)
  ultimately have "pe_lastUsed f \<le> rl_tick p" if "(k, f) \<in> set xs \<union> set ys" for k f
    using that by blast
  then have "Suc (rl_tick p) \<notin> (pe_lastUsed \<circ> snd) ` (set xs \<union> set ys)"
    "\<forall>t\<in>(pe_lastUsed \<circ> snd) ` (set xs \<union> set ys). t \<le> Suc (rl_tick p)"
    by fastforce+
  then show ?thesis
    using assms(1) unfolding p' pool_views xy(1) by (auto simp: list_all_iff)
qed

lemma inv_release [inv_intros]:
  assumes "pool_inv p"
  shows "pool_inv (pool_release i cleared p)"
proof (cases "map_get (rl_live p) i")
  case None
  then show ?thesis using assms by (simp add: pool_release_def)
next
  case (Some e)
  have wf: "wf_map (rl_live p)" using assms(1) by (simp add: pool_inv_def)
  show ?thesis
    by (rule map_split[OF wf Some])
      (use assms Some in \<open>auto simp: pool_release_def recycle_def safeDispose_def pool_views\<close>)
qed

lemma inv_dispose [inv_intros]: "pool_inv p \<Longrightarrow> pool_inv (pool_dispose p)"
  by (auto simp: pool_dispose_def pool_views)

text \<open>
  \<open>acquire_end\<close> in two parts: the pool with room for one more canvas, and the entry of the canvas
  \<open>c\<close> that is in none of the places.
\<close>

definition make_room :: "render_pool \<Rightarrow> render_pool" where
  "make_room p = (if length (rl_live p) \<ge> rl_maxLive p then evictLeastRecentlyUsed p else p)"

definition take_canvas :: "render_pool \<Rightarrow> nat \<times> render_pool" where
  "take_canvas p = (case rl_freeList p of
     r # rest \<Rightarrow> (r, p\<lparr>rl_freeList := rest\<rparr>)
   | [] \<Rightarrow> (rl_created p, p\<lparr>rl_created := Suc (rl_created p)\<rparr>))"

definition enter_canvas :: "nat \<Rightarrow> nat \<Rightarrow> render_pool \<Rightarrow> render_pool" where
  "enter_canvas i c p = p\<lparr>rl_tick := Suc (rl_tick p),
     rl_live := AList.update i \<lparr>pe_canvas = c, pe_lastUsed = Suc (rl_tick p)\<rparr> (rl_live p)\<rparr>"

lemma acquire_end_parts:
  "acquire_end i p = (let (c, p') = take_canvas (make_room p) in (c, enter_canvas i c p'))"
  by (simp add: acquire_end_def make_room_def take_canvas_def enter_canvas_def Let_def split: list.split)

lemma make_room:
  assumes "pool_inv p"
  shows "pool_inv (make_room p) \<and> length (rl_live (make_room p)) < rl_maxLive (make_room p)"
proof (cases "rl_maxLive p \<le> length (rl_live p)")
  case False
  then show ?thesis using assms by (simp add: make_room_def)
next
  case True
  with assms have ne: "rl_live p \<noteq> []" by (auto simp: pool_inv_def)
  have "length (rl_live (evictLeastRecentlyUsed p)) < rl_maxLive (evictLeastRecentlyUsed p)"
    by (rule inv_evict[OF assms ne]) (use assms in \<open>auto simp: pool_inv_def\<close>)
  with True inv_evicted[OF assms] show ?thesis by (simp add: make_room_def)
qed

text \<open>A canvas that was taken: it is in no list, and there is room for it.\<close>

definition pool_holding :: "nat \<Rightarrow> render_pool \<Rightarrow> bool" where
  "pool_holding c p \<longleftrightarrow> pool_inv p \<and> length (rl_live p) + length (rl_freeList p) < rl_maxLive p
     \<and> c < rl_created p \<and> c \<notin> set (live_canvases p @ rl_freeList p @ rl_dropped p)"

lemma take_canvas_holding:
  assumes "pool_inv p" "length (rl_live p) < rl_maxLive p"
  shows "pool_holding (fst (take_canvas p)) (snd (take_canvas p))"
proof (cases "rl_freeList p")
  case Nil
  then show ?thesis using assms
    by (auto simp: take_canvas_def pool_holding_def pool_views list_all_iff less_Suc_eq)
next
  case (Cons r rest)
  then show ?thesis using assms
    by (auto simp: take_canvas_def pool_holding_def pool_views)
qed

lemma stamp_le: "pool_inv p \<Longrightarrow> t \<in> set (stamps p) \<Longrightarrow> t \<le> rl_tick p"
  by (simp add: pool_inv_def list_all_iff)

lemma inv_enter_canvas:
  assumes "pool_holding c p"
  shows "pool_inv (enter_canvas i c p)"
proof -
  let ?e = "\<lparr>pe_canvas = c, pe_lastUsed = Suc (rl_tick p)\<rparr>"
  have inv: "pool_inv p" using assms by (simp add: pool_holding_def)
  have new: "Suc (rl_tick p) \<notin> set (stamps p)" using stamp_le[OF inv] by fastforce
  have le: "\<forall>t\<in>set (stamps p). t \<le> Suc (rl_tick p)" using stamp_le[OF inv] le_SucI by blast
  have wf: "wf_map (rl_live p)" using inv by (simp add: pool_inv_def)
  show ?thesis
  proof (cases "map_get (rl_live p) i")
    case None
    then have "rl_live (enter_canvas i c p) = rl_live p @ [(i, ?e)]" by (simp add: enter_canvas_def update_new)
    moreover have "i \<notin> fst ` set (rl_live p)" using None by (simp add: map_of_eq_None_iff)
    ultimately show ?thesis using assms new le
      by (auto simp: pool_holding_def pool_views enter_canvas_def list_all_iff)
  next
    case (Some e)
    obtain xs ys where xy: "rl_live p = xs @ (i, e) # ys"
      "\<And>e'. AList.update i e' (rl_live p) = xs @ (i, e') # ys"
      using map_split[OF wf Some] by metis
    have eq: "enter_canvas i c p = p\<lparr>rl_tick := Suc (rl_tick p), rl_live := xs @ (i, ?e) # ys\<rparr>"
      by (simp add: enter_canvas_def xy(2))
    have c: "live_canvases p = map (pe_canvas \<circ> snd) xs @ pe_canvas e # map (pe_canvas \<circ> snd) ys"
      and t: "stamps p = map (pe_lastUsed \<circ> snd) xs @ pe_lastUsed e # map (pe_lastUsed \<circ> snd) ys"
      by (simp_all add: live_canvases_def stamps_def xy(1))
    show ?thesis using assms new le unfolding eq pool_holding_def pool_inv_def c t
      by (auto simp: xy(1) live_canvases_def stamps_def list_all_iff wf_map_def)
  qed
qed

lemma inv_acquire_end: "pool_inv p \<Longrightarrow> acquire_end i p = (c, p') \<Longrightarrow> pool_inv p'"
  using make_room[of p] take_canvas_holding[of "make_room p"] inv_enter_canvas
  by (auto simp: acquire_end_parts split: prod.splits)

lemma inv_new_pool: "pool_inv (new_pool m)"
  by (simp add: new_pool_def pool_views)

lemma inv_pool_steps: "pool_steps s s' \<Longrightarrow> pool_inv (fst s) \<Longrightarrow> pool_inv (fst s')"
proof (induction rule: rtranclp_induct)
  case (step t u)
  from step.hyps(2) step.IH[OF step.prems] show ?case
    by cases (auto intro: inv_acquire_begin inv_acquire_end inv_intros)
qed simp

section \<open>The cap, the victim, and lost canvases\<close>

text \<open>C32: in every interleaving of acquires (each split at its wait), releases and a dispose, the pool
  holds at most the allowed number of canvases, live and recycled together, and no canvas is in two
  places: bound to two pages, bound and recycled, or still held after it was disposed.\<close>

theorem pool_interleavings:
  assumes "pool_steps (new_pool m, []) (p, w)"
  shows "length (rl_live p) + length (rl_freeList p) \<le> max 1 (case m of None \<Rightarrow> 12 | Some n \<Rightarrow> n)
    \<and> distinct (live_canvases p @ rl_freeList p @ rl_dropped p)"
proof -
  have "pool_inv p" using inv_pool_steps[OF assms] by (simp add: inv_new_pool)
  moreover have "pool_steps s s' \<Longrightarrow> rl_maxLive (fst s') = rl_maxLive (fst s)" for s s'
  proof (induction rule: rtranclp_induct)
    case (step t u)
    have e: "rl_maxLive (evictLeastRecentlyUsed q) = rl_maxLive q" for q
      by (simp add: evictLeastRecentlyUsed_def safeDispose_def Let_def split: option.split)
    from step.hyps(2) have "rl_maxLive (fst u) = rl_maxLive (fst t)"
      by cases (auto simp: acquire_begin_def acquire_end_def pool_release_def recycle_def safeDispose_def
          pool_dispose_def Let_def e split: if_splits option.splits list.splits)
    with step.IH show ?case by simp
  qed simp
  from this[OF assms] have "rl_maxLive p = max 1 (case m of None \<Rightarrow> 12 | Some n \<Rightarrow> n)"
    by (cases m) (simp_all add: new_pool_def DEFAULT_MAX_LIVE_def)
  ultimately show ?thesis by (auto simp: pool_inv_def)
qed

text \<open>A page that needs a canvas when the cap is reached costs the page whose canvas was acquired
  least recently its canvas, which is disposed; every other page keeps its own.\<close>

lemma evicts_least_recent:
  assumes "pool_inv p" and "rl_live p \<noteq> []"
  shows "\<exists>i e xs ys. rl_live p = xs @ (i, e) # ys
    \<and> list_all (\<lambda>(k, f). pe_lastUsed e < pe_lastUsed f) (xs @ ys)
    \<and> evictLeastRecentlyUsed p = p\<lparr>rl_live := xs @ ys, rl_dropped := rl_dropped p @ [pe_canvas e]\<rparr>"
proof -
  obtain i e xs ys where x: "rl_live p = xs @ (i, e) # ys"
    "\<forall>(k, e')\<in>set (rl_live p). pe_lastUsed e \<le> pe_lastUsed e'"
    "evictLeastRecentlyUsed p = p\<lparr>rl_live := xs @ ys, rl_dropped := rl_dropped p @ [pe_canvas e]\<rparr>"
    using inv_evict[OF assms] by metis
  have "distinct (stamps p)" using assms(1) by (simp add: pool_inv_def)
  then have "pe_lastUsed e \<notin> (pe_lastUsed \<circ> snd) ` set (xs @ ys)"
    unfolding stamps_def x(1) by (simp add: image_Un)
  then have ne: "pe_lastUsed e \<noteq> pe_lastUsed f" if "(k, f) \<in> set (xs @ ys)" for k f
    using that by (metis comp_apply image_eqI snd_conv)
  have "pe_lastUsed e < pe_lastUsed f" if "(k, f) \<in> set (xs @ ys)" for k f
  proof -
    have "pe_lastUsed e \<le> pe_lastUsed f" using x(1,2) that by auto
    with ne[OF that] show ?thesis by simp
  qed
  then have "list_all (\<lambda>(k, f). pe_lastUsed e < pe_lastUsed f) (xs @ ys)"
    by (auto simp: list_all_iff)
  with x show ?thesis by blast
qed

text \<open>Every canvas ever created is bound, recycled or disposed.\<close>

definition accounted :: "render_pool \<Rightarrow> bool" where
  "accounted p \<longleftrightarrow> set (live_canvases p @ rl_freeList p @ rl_dropped p) = {..<rl_created p}"

lemma accounted_evict:
  assumes "pool_inv p" "accounted p"
  shows "accounted (evictLeastRecentlyUsed p)"
proof (cases "rl_live p = []")
  case True
  then show ?thesis using assms(2) by (simp add: evictLeastRecentlyUsed_def)
next
  case False
  show ?thesis
    by (rule inv_evict[OF assms(1) False]) (use assms(2) in \<open>auto simp: accounted_def live_canvases_def\<close>)
qed

lemma accounted_make_room: "pool_inv p \<Longrightarrow> accounted p \<Longrightarrow> accounted (make_room p)"
  by (simp add: make_room_def accounted_evict)

lemma accounted_take:
  assumes "accounted p"
  shows "set (fst (take_canvas p) # live_canvases p @ rl_freeList (snd (take_canvas p)) @ rl_dropped p)
     = {..<rl_created (snd (take_canvas p))}"
proof (cases "rl_freeList p")
  case Nil
  then show ?thesis using assms by (simp add: accounted_def take_canvas_def lessThan_Suc)
next
  case (Cons r rest)
  then show ?thesis using assms by (simp add: accounted_def take_canvas_def)
qed

lemma take_canvas_same [simp]:
  "rl_live (snd (take_canvas p)) = rl_live p" "rl_dropped (snd (take_canvas p)) = rl_dropped p"
  by (simp_all add: take_canvas_def split: list.split)

lemma live_take [simp]: "live_canvases (snd (take_canvas p)) = live_canvases p"
  by (simp add: live_canvases_def)

lemma accounted_enter:
  assumes "pool_holding c p" "set (c # live_canvases p @ rl_freeList p @ rl_dropped p) = {..<rl_created p}"
  shows "accounted (enter_canvas i c p) \<longleftrightarrow> map_get (rl_live p) i = None"
proof (cases "map_get (rl_live p) i")
  case None
  then have "live_canvases (enter_canvas i c p) = live_canvases p @ [c]"
    by (simp add: enter_canvas_def update_new live_canvases_def)
  then show ?thesis using assms(2) None by (auto simp: accounted_def enter_canvas_def)
next
  case (Some e)
  have wf: "wf_map (rl_live p)" using assms(1) by (simp add: pool_holding_def pool_inv_def)
  obtain xs ys where xy: "rl_live p = xs @ (i, e) # ys"
    "\<And>e'. AList.update i e' (rl_live p) = xs @ (i, e') # ys"
    using map_split[OF wf Some] by metis
  have "live_canvases (enter_canvas i c p) = map (pe_canvas \<circ> snd) xs @ c # map (pe_canvas \<circ> snd) ys"
    by (simp add: enter_canvas_def xy(2) live_canvases_def)
  moreover have l: "live_canvases p = map (pe_canvas \<circ> snd) xs @ pe_canvas e # map (pe_canvas \<circ> snd) ys"
    by (simp add: live_canvases_def xy(1))
  moreover have "pe_canvas e \<noteq> c" "pe_canvas e < rl_created p"
    using assms(1) l by (auto simp: pool_holding_def pool_inv_def)
  moreover have "distinct (live_canvases p @ rl_freeList p @ rl_dropped p)"
    using assms(1) by (simp add: pool_holding_def pool_inv_def)
  ultimately have "pe_canvas e \<notin> set (live_canvases (enter_canvas i c p) @ rl_freeList p @ rl_dropped p)"
    by auto
  then show ?thesis using Some \<open>pe_canvas e < rl_created p\<close> by (auto simp: accounted_def enter_canvas_def)
qed

lemma accounted_acquire_end:
  assumes "pool_inv p" "accounted p" "acquire_end i p = (c, p')"
  shows "accounted p' \<longleftrightarrow> map_get (rl_live (make_room p)) i = None"
proof -
  have m: "pool_inv (make_room p)" "length (rl_live (make_room p)) < rl_maxLive (make_room p)"
    using make_room[OF assms(1)] by simp_all
  have p': "p' = enter_canvas i (fst (take_canvas (make_room p))) (snd (take_canvas (make_room p)))"
    using assms(3) by (auto simp: acquire_end_parts case_prod_beta)
  show ?thesis
    unfolding p' using accounted_enter[OF take_canvas_holding[OF m]]
      accounted_take[OF accounted_make_room[OF assms(1,2)]] by simp
qed

text \<open>An \<open>acquire\<close> that nothing interrupts.\<close>

definition acquire :: "nat \<Rightarrow> render_pool \<Rightarrow> pool_error + nat \<times> render_pool" where
  "acquire i p = (case acquire_begin i p of
       Inl err \<Rightarrow> Inl err
     | Inr (Some c, p') \<Rightarrow> Inr (c, p')
     | Inr (None, p') \<Rightarrow> Inr (acquire_end i p'))"

datatype pool_op = Acquire nat | Release nat bool | Dispose

fun pool_call :: "render_pool \<Rightarrow> pool_op \<Rightarrow> render_pool" where
  "pool_call p (Acquire i) = (case acquire i p of Inl err \<Rightarrow> p | Inr (c, p') \<Rightarrow> p')"
| "pool_call p (Release i cleared) = pool_release i cleared p"
| "pool_call p Dispose = pool_dispose p"

lemma accounted_release: "pool_inv p \<Longrightarrow> accounted p \<Longrightarrow> accounted (pool_release i cleared p)"
proof (cases "map_get (rl_live p) i")
  case None
  then show "accounted p \<Longrightarrow> ?thesis" by (simp add: pool_release_def)
next
  case (Some e)
  assume a: "pool_inv p" "accounted p"
  then have wf: "wf_map (rl_live p)" by (simp add: pool_inv_def)
  obtain xs ys where xy: "rl_live p = xs @ (i, e) # ys" "AList.delete i (rl_live p) = xs @ ys"
    using map_split[OF wf Some] by metis
  have "accounted p \<Longrightarrow> set (live_canvases p) = insert (pe_canvas e) (set (map (pe_canvas \<circ> snd) (xs @ ys)))"
    by (auto simp: live_canvases_def xy(1))
  then show ?thesis using a(2) Some
    by (auto simp: pool_release_def recycle_def safeDispose_def accounted_def xy(2) live_canvases_def)
qed

lemma accounted_call: "pool_inv p \<and> accounted p \<Longrightarrow> pool_inv (pool_call p x) \<and> accounted (pool_call p x)"
proof (cases x)
  case (Acquire i)
  assume a: "pool_inv p \<and> accounted p"
  show ?thesis
  proof (cases "rl_disposed p")
    case True
    then show ?thesis using a Acquire by (simp add: acquire_def acquire_begin_def)
  next
    case False
    show ?thesis
    proof (cases "map_get (rl_live p) i")
      case None
      have "map_get (rl_live (make_room p)) i = None"
        using None by (auto simp: make_room_def evictLeastRecentlyUsed_def safeDispose_def Let_def js_simps
            split: option.splits)
      moreover obtain c p' where "acquire_end i p = (c, p')" by (cases "acquire_end i p")
      moreover have "pool_call p x = p'"
        using calculation(2) None False Acquire by (simp add: acquire_def acquire_begin_def)
      ultimately show ?thesis using a accounted_acquire_end inv_acquire_end by metis
    next
      case (Some e)
      have wf: "wf_map (rl_live p)" using a by (simp add: pool_inv_def)
      obtain xs ys where xy: "rl_live p = xs @ (i, e) # ys"
        "\<And>e'. AList.update i e' (rl_live p) = xs @ (i, e') # ys"
        using map_split[OF wf Some] by metis
      obtain p' where p': "acquire_begin i p = Inr (Some (pe_canvas e), p')"
        "live_canvases p' = live_canvases p" "rl_freeList p' = rl_freeList p"
        "rl_dropped p' = rl_dropped p" "rl_created p' = rl_created p"
        using Some False by (simp add: acquire_begin_def live_canvases_def xy(2)) (simp add: xy(1))
      then show ?thesis using a inv_acquire_begin[OF _ p'(1)] Acquire
        by (simp add: acquire_def accounted_def)
    qed
  qed
next
  case (Release i cleared)
  assume "pool_inv p \<and> accounted p"
  then show ?thesis using Release by (auto intro: inv_intros accounted_release)
next
  case Dispose
  assume "pool_inv p \<and> accounted p"
  moreover have "accounted p \<Longrightarrow> accounted (pool_dispose p)"
    by (simp add: accounted_def pool_dispose_def live_canvases_def Un_ac)
  ultimately show ?thesis using Dispose by (simp add: inv_dispose)
qed

lemma accounted_calls: "pool_inv (foldl pool_call (new_pool m) calls) \<and> accounted (foldl pool_call (new_pool m) calls)"
proof (induction calls rule: rev_induct)
  case Nil
  show ?case by (simp add: inv_new_pool) (simp add: accounted_def new_pool_def live_canvases_def)
next
  case (snoc x calls)
  then show ?case using accounted_call[of "foldl pool_call (new_pool m) calls" x] by simp
qed

text \<open>When no \<open>acquire\<close> is interrupted at its wait, every canvas ever created is bound to a page,
  recycled or disposed, after any sequence of calls.\<close>

lemma canvases_accounted: "accounted (foldl pool_call (new_pool m) calls)"
  using accounted_calls by blast

text \<open>An \<open>acquire\<close> interrupted at its wait loses a canvas exactly when its page has got one
  meanwhile and keeps it: the entry is overwritten and the canvas it named is neither bound, nor
  recycled, nor disposed.\<close>

lemma interrupted_acquire_loses:
  assumes "pool_steps (new_pool m, []) (p, w)" and "accounted p" and "acquire_end i p = (c, p')"
  shows "accounted p' \<longleftrightarrow> map_get (rl_live (make_room p)) i = None"
  using accounted_acquire_end[OF _ assms(2,3)] inv_pool_steps[OF assms(1)] by (simp add: inv_new_pool)

text \<open>Two acquires of page 0 that both wait before either finishes.\<close>

definition once_acquired :: render_pool where
  "once_acquired = snd (acquire_end 0 (new_pool None))"

lemma double_wait: "pool_steps (new_pool None, []) (once_acquired, [0])"
proof -
  have b: "acquire_begin 0 (new_pool None) = Inr (None, new_pool None)" by code_simp
  have e: "acquire_end 0 (new_pool None) = (0, once_acquired)" by code_simp
  have "pool_step (new_pool None, []) (new_pool None, [0])"
    and "pool_step (new_pool None, [0]) (new_pool None, [0, 0])"
    by (rule pool_step.wait[OF b])+
  moreover have "pool_step (new_pool None, [0, 0]) (once_acquired, [0])"
    using pool_step.resume[OF _ e, of "[0, 0]"] by simp
  ultimately show ?thesis by (meson converse_rtranclp_into_rtranclp rtranclp.rtrancl_refl)
qed

lemma once_acquired_ok: "accounted once_acquired"
  by code_simp

theorem pool_interleavings_witness:
  "length (rl_live once_acquired) + length (rl_freeList once_acquired) \<le> 12
    \<and> distinct (live_canvases once_acquired @ rl_freeList once_acquired @ rl_dropped once_acquired)"
  using pool_interleavings[OF double_wait] by simp

theorem interrupted_acquire_loses_witness: "\<not> accounted (snd (acquire_end 0 once_acquired))"
proof -
  have "map_get (rl_live (make_room once_acquired)) 0 \<noteq> None" by code_simp
  then show ?thesis
    using interrupted_acquire_loses[OF double_wait once_acquired_ok prod.collapse[symmetric], of 0] by simp
qed

theorem evicts_least_recent_witness:
  "\<exists>i e xs ys. rl_live once_acquired = xs @ (i, e) # ys
    \<and> list_all (\<lambda>(k, f). pe_lastUsed e < pe_lastUsed f) (xs @ ys)
    \<and> evictLeastRecentlyUsed once_acquired
        = once_acquired\<lparr>rl_live := xs @ ys, rl_dropped := rl_dropped once_acquired @ [pe_canvas e]\<rparr>"
proof -
  have "pool_inv once_acquired" "rl_live once_acquired \<noteq> []" by code_simp+
  then show ?thesis by (rule evicts_least_recent)
qed

end
