(* ===== verification/Background_Cache.thy ===== *)
theory Background_Cache
  imports Prelude
begin

text \<open>
  The page backgrounds of \<open>apps/web/src/components/editor/lib/page-render-pool.ts\<close>:
  \<open>renderBackground\<close>, \<open>ensureRenderer\<close>, \<open>replaceBytes\<close> and \<open>dispose\<close>, with the promises they start.
  Every call of \<open>replaceBytes\<close> installs a new version of the document; a renderer draws the version
  it was created for. A promise is a number with the stage it has reached, and its continuations
  are operations of their own that run in any order the runtime allows. Keys are pairs of a page
  and a bucket: the text \<open>index@bucket\<close> is only built and taken apart.
\<close>

definition scale_bucket :: "jsnum \<Rightarrow> jsnum" where
  "scale_bucket scale = of_int (js_round (scale * 100)) / 100"

type_synonym bg_key = "nat \<times> jsnum"

datatype load_state = Loading | Loaded | Load_failed

text \<open>What the promise of a background waits for; \<open>Fulfilled v\<close> is a bitmap of version \<open>v\<close>.\<close>

datatype bg_stage =
    Awaiting_load nat
  | Awaiting_rejected \<comment> \<open>\<open>ensureRenderer\<close> had no bytes\<close>
  | Rendering nat
  | Fulfilled nat
  | Rejected

text \<open>
  The fields of the pool, and the promises and renderers it has made: \<open>bg_version\<close> counts the
  versions, \<open>bg_changed\<close> has the version in which a page changed last.
\<close>

record bg_state =
  bg_hasBytes :: bool
  bg_renderer :: "nat option"
  bg_rendererLoad :: "nat option"
  bg_cache :: "(bg_key, nat) jsmap"
  bg_disposed :: bool
  bg_loads :: "load_state list"
  bg_rver :: "nat list"
  bg_stages :: "(bg_key \<times> bg_stage) list"
  bg_released :: "nat list"
  bg_version :: nat
  bg_changed :: "nat \<Rightarrow> nat"

definition bg_init :: "bool \<Rightarrow> bg_state" where
  "bg_init hasBytes = \<lparr>bg_hasBytes = hasBytes, bg_renderer = None, bg_rendererLoad = None, bg_cache = [],
     bg_disposed = False, bg_loads = [], bg_rver = [], bg_stages = [], bg_released = [],
     bg_version = 0, bg_changed = (\<lambda>_. 0)\<rparr>"

definition ensureRenderer :: "bg_state \<Rightarrow> bg_stage \<times> bg_state" where
  "ensureRenderer s = (case bg_rendererLoad s of
       Some l \<Rightarrow> (Awaiting_load l, s)
     | None \<Rightarrow>
         if \<not> bg_hasBytes s then (Awaiting_rejected, s)
         else (let r = length (bg_loads s)
           in (Awaiting_load r, s\<lparr>bg_renderer := Some r, bg_rendererLoad := Some r,
                bg_loads := bg_loads s @ [Loading], bg_rver := bg_rver s @ [bg_version s]\<rparr>)))"

datatype bg_error = Background_after_dispose

text \<open>The promise, by its number: the one in the cache, or a new one.\<close>

definition renderBackground :: "nat \<Rightarrow> jsnum \<Rightarrow> bg_state \<Rightarrow> (bg_error + nat) \<times> bg_state" where
  "renderBackground i scale s =
     (if bg_disposed s then (Inl Background_after_dispose, s)
      else (let key = (i, scale_bucket scale) in
        (case map_get (bg_cache s) key of
            Some q \<Rightarrow> (Inr q, s)
          | None \<Rightarrow> (let (stage, s1) = ensureRenderer s; q = length (bg_stages s1)
              in (Inr q, s1\<lparr>bg_stages := bg_stages s1 @ [(key, stage)],
                   bg_cache := AList.update key q (bg_cache s1)\<rparr>)))))"

text \<open>\<open>loadDocument\<close> settles; its failure resets the renderer, whichever that is by then.\<close>

definition load_succeeds :: "nat \<Rightarrow> bg_state \<Rightarrow> bg_state" where
  "load_succeeds r s = s\<lparr>bg_loads := (bg_loads s)[r := Loaded]\<rparr>"

definition load_fails :: "nat \<Rightarrow> bg_state \<Rightarrow> bg_state" where
  "load_fails r s = s\<lparr>bg_loads := (bg_loads s)[r := Load_failed], bg_renderer := None, bg_rendererLoad := None\<rparr>"

text \<open>The promise of a background fails: its key leaves the cache.\<close>

definition reject_background :: "nat \<Rightarrow> bg_state \<Rightarrow> bg_state" where
  "reject_background q s = (let key = fst (bg_stages s ! q)
     in s\<lparr>bg_stages := (bg_stages s)[q := (key, Rejected)], bg_cache := AList.delete key (bg_cache s)\<rparr>)"

text \<open>The continuation after the load.\<close>

definition after_load :: "nat \<Rightarrow> bg_state \<Rightarrow> bg_state" where
  "after_load q s = (case bg_renderer s of
       None \<Rightarrow> reject_background q s
     | Some r \<Rightarrow> s\<lparr>bg_stages := (bg_stages s)[q := (fst (bg_stages s ! q), Rendering r)]\<rparr>)"

definition page_drawn :: "nat \<Rightarrow> nat \<Rightarrow> bg_state \<Rightarrow> bg_state" where
  "page_drawn q r s = s\<lparr>bg_stages := (bg_stages s)[q := (fst (bg_stages s ! q), Fulfilled (bg_rver s ! r))]\<rparr>"

definition drop_renderer :: "bg_state \<Rightarrow> bg_state" where
  "drop_renderer s = s\<lparr>bg_released := bg_released s @ (case bg_renderer s of None \<Rightarrow> [] | Some r \<Rightarrow> [r]),
     bg_renderer := None, bg_rendererLoad := None\<rparr>"

text \<open>\<open>changedIndices\<close> is \<open>None\<close> when it is omitted.\<close>

definition replaceBytes :: "nat list option \<Rightarrow> bg_state \<Rightarrow> bg_state" where
  "replaceBytes changed s =
     (if bg_disposed s then s
      else (let s1 = drop_renderer (s\<lparr>bg_hasBytes := True, bg_version := Suc (bg_version s)\<rparr>);
                v = bg_version s1
        in (case changed of
            Some (i # is) \<Rightarrow> s1\<lparr>bg_cache := filter (\<lambda>(key, q). fst key \<notin> set (i # is)) (bg_cache s1),
                bg_changed := (\<lambda>j. if j \<in> set (i # is) then v else bg_changed s1 j)\<rparr>
          | _ \<Rightarrow> s1\<lparr>bg_cache := [], bg_changed := (\<lambda>j. v)\<rparr>)))"

definition bg_dispose :: "bg_state \<Rightarrow> bg_state" where
  "bg_dispose s = (if bg_disposed s then s else drop_renderer (s\<lparr>bg_disposed := True, bg_cache := []\<rparr>))"

section \<open>Every order of events\<close>

text \<open>A page is drawn by a renderer whose document is loaded; drawing can fail at any time.\<close>

inductive bg_step :: "bg_state \<Rightarrow> bg_state \<Rightarrow> bool" where
  request: "renderBackground i scale s = (res, s') \<Longrightarrow> bg_step s s'"
| loaded: "r < length (bg_loads s) \<Longrightarrow> bg_loads s ! r = Loading \<Longrightarrow> bg_step s (load_succeeds r s)"
| load_failed: "r < length (bg_loads s) \<Longrightarrow> bg_loads s ! r = Loading \<Longrightarrow> bg_step s (load_fails r s)"
| continue: "q < length (bg_stages s) \<Longrightarrow> snd (bg_stages s ! q) = Awaiting_load l \<Longrightarrow>
    bg_loads s ! l = Loaded \<Longrightarrow> bg_step s (after_load q s)"
| no_load: "q < length (bg_stages s) \<Longrightarrow> snd (bg_stages s ! q) = Awaiting_load l \<Longrightarrow>
    bg_loads s ! l = Load_failed \<Longrightarrow> bg_step s (reject_background q s)"
| no_bytes: "q < length (bg_stages s) \<Longrightarrow> snd (bg_stages s ! q) = Awaiting_rejected \<Longrightarrow>
    bg_step s (reject_background q s)"
| drawn: "q < length (bg_stages s) \<Longrightarrow> snd (bg_stages s ! q) = Rendering r \<Longrightarrow>
    bg_loads s ! r = Loaded \<Longrightarrow> bg_step s (page_drawn q r s)"
| draw_failed: "q < length (bg_stages s) \<Longrightarrow> snd (bg_stages s ! q) = Rendering r \<Longrightarrow>
    bg_step s (reject_background q s)"
| replace: "bg_step s (replaceBytes changed s)"
| disposed: "bg_step s (bg_dispose s)"

abbreviation bg_steps :: "bg_state \<Rightarrow> bg_state \<Rightarrow> bool" where
  "bg_steps \<equiv> bg_step\<^sup>*\<^sup>*"

text \<open>What a cached promise draws, or has drawn, is not older than the last change of its page.\<close>

definition stage_fresh :: "bg_state \<Rightarrow> nat \<Rightarrow> bg_stage \<Rightarrow> bool" where
  "stage_fresh s i st = (case st of
       Rendering r \<Rightarrow> r < length (bg_rver s) \<and> bg_changed s i \<le> bg_rver s ! r
     | Fulfilled v \<Rightarrow> bg_changed s i \<le> v
     | _ \<Rightarrow> True)"

definition bg_inv :: "bg_state \<Rightarrow> bool" where
  "bg_inv s \<longleftrightarrow> length (bg_rver s) = length (bg_loads s)
     \<and> (\<forall>r. bg_renderer s = Some r \<longrightarrow> r < length (bg_rver s) \<and> bg_rver s ! r = bg_version s)
     \<and> (\<forall>i. bg_changed s i \<le> bg_version s)
     \<and> (\<forall>(key, q)\<in>set (bg_cache s). q < length (bg_stages s) \<and> stage_fresh s (fst key) (snd (bg_stages s ! q)))"

lemma bg_inv_init: "bg_inv (bg_init b)"
  by (simp add: bg_inv_def bg_init_def)

lemma bg_inv_cache:
  "bg_inv s \<Longrightarrow> (key, q) \<in> set (bg_cache s) \<Longrightarrow> q < length (bg_stages s) \<and> stage_fresh s (fst key) (snd (bg_stages s ! q))"
  by (auto simp: bg_inv_def)

lemma set_update_subset: "set (AList.update k v m) \<subseteq> insert (k, v) (set m)"
  by (induction m) auto

text \<open>A stage of one promise changes to one that is fresh for every page.\<close>

lemma bg_inv_stage:
  assumes "bg_inv s" "q < length (bg_stages s)" "\<And>k. (k, q) \<in> set (bg_cache s) \<Longrightarrow> stage_fresh s (fst k) st" "set c \<subseteq> set (bg_cache s)"
  shows "bg_inv (s\<lparr>bg_stages := (bg_stages s)[q := (key, st)], bg_cache := c\<rparr>)"
proof -
  have "stage_fresh (s\<lparr>bg_stages := (bg_stages s)[q := (key, st)], bg_cache := c\<rparr>) i st' = stage_fresh s i st'" for i st'
    by (simp add: stage_fresh_def split: bg_stage.split)
  then show ?thesis
    using assms unfolding bg_inv_def by (auto simp: nth_list_update)
qed

lemma bg_inv_stage_only:
  assumes "bg_inv s" "q < length (bg_stages s)" "\<And>k. (k, q) \<in> set (bg_cache s) \<Longrightarrow> stage_fresh s (fst k) st"
  shows "bg_inv (s\<lparr>bg_stages := (bg_stages s)[q := (key, st)]\<rparr>)"
  using bg_inv_stage[OF assms subset_refl] by simp

lemma bg_inv_reject: "bg_inv s \<Longrightarrow> q < length (bg_stages s) \<Longrightarrow> bg_inv (reject_background q s)"
  unfolding reject_background_def Let_def
  by (rule bg_inv_stage) (auto simp: stage_fresh_def AList.delete_eq)

lemma bg_inv_after_load: "bg_inv s \<Longrightarrow> q < length (bg_stages s) \<Longrightarrow> bg_inv (after_load q s)"
proof (cases "bg_renderer s")
  case (Some r)
  assume "bg_inv s" "q < length (bg_stages s)"
  then show ?thesis
    unfolding after_load_def Some option.case
    by (intro bg_inv_stage_only) (auto simp: stage_fresh_def bg_inv_def Some)
qed (simp add: after_load_def bg_inv_reject)

lemma bg_inv_drawn:
  assumes "bg_inv s" "q < length (bg_stages s)" "snd (bg_stages s ! q) = Rendering r"
  shows "bg_inv (page_drawn q r s)"
proof -
  have "stage_fresh s (fst k) (Fulfilled (bg_rver s ! r))" if "(k, q) \<in> set (bg_cache s)" for k
    using bg_inv_cache[OF assms(1) that] assms(3) by (simp add: stage_fresh_def)
  then show ?thesis
    unfolding page_drawn_def by (intro bg_inv_stage_only) (use assms in auto)
qed

lemma bg_inv_drop_renderer: "bg_inv s \<Longrightarrow> bg_inv (drop_renderer s)"
  by (auto simp: bg_inv_def drop_renderer_def stage_fresh_def split: bg_stage.splits)

lemma bg_inv_load_fails: "bg_inv s \<Longrightarrow> bg_inv (load_fails r s)"
  by (auto simp: bg_inv_def load_fails_def stage_fresh_def split: bg_stage.splits)

lemma bg_inv_load_succeeds: "bg_inv s \<Longrightarrow> bg_inv (load_succeeds r s)"
  by (auto simp: bg_inv_def load_succeeds_def stage_fresh_def split: bg_stage.splits)

lemma bg_inv_dispose: "bg_inv s \<Longrightarrow> bg_inv (bg_dispose s)"
  unfolding bg_dispose_def
  by (auto intro!: bg_inv_drop_renderer) (auto simp: bg_inv_def stage_fresh_def split: bg_stage.splits)

lemma bg_inv_replace:
  assumes "bg_inv s"
  shows "bg_inv (replaceBytes changed s)"
proof (cases "bg_disposed s")
  case True
  then show ?thesis using assms by (simp add: replaceBytes_def)
next
  case False
  have le: "bg_changed s i \<le> Suc (bg_version s)" for i
    using assms by (auto simp: bg_inv_def intro: le_SucI)
  have base: "length (bg_rver s) = length (bg_loads s)" using assms by (simp add: bg_inv_def)
  show ?thesis
  proof (cases "changed = None \<or> changed = Some []")
    case True
    then show ?thesis using False base
      by (auto simp: replaceBytes_def drop_renderer_def bg_inv_def Let_def)
  next
    case F: False
    then obtain i js where ch: "changed = Some (i # js)" by (cases changed) (auto simp: neq_Nil_conv)
    let ?s = "replaceBytes changed s"
    have eq: "bg_cache ?s = filter (\<lambda>(key, q). fst key \<notin> set (i # js)) (bg_cache s)"
      "bg_stages ?s = bg_stages s" "bg_rver ?s = bg_rver s" "bg_loads ?s = bg_loads s"
      "bg_renderer ?s = None" "bg_version ?s = Suc (bg_version s)"
      "bg_changed ?s = (\<lambda>j. if j \<in> set (i # js) then Suc (bg_version s) else bg_changed s j)"
      using False by (simp_all add: replaceBytes_def drop_renderer_def ch Let_def fun_eq_iff)
    have "q < length (bg_stages s) \<and> stage_fresh ?s (fst key) (snd (bg_stages s ! q))"
      if "(key, q) \<in> set (bg_cache ?s)" for key q
    proof -
      have k: "(key, q) \<in> set (bg_cache s)" "fst key \<notin> set (i # js)" using that by (auto simp: eq)
      then have "bg_changed ?s (fst key) = bg_changed s (fst key)" by (simp add: eq)
      with bg_inv_cache[OF assms k(1)] show ?thesis
        by (simp add: stage_fresh_def eq(3) split: bg_stage.splits)
    qed
    then show ?thesis using base le unfolding bg_inv_def by (auto simp: eq(2-7))
  qed
qed

lemma bg_inv_request:
  assumes "bg_inv s" "renderBackground i scale s = (res, s')"
  shows "bg_inv s'"
proof -
  have ens: "bg_inv (snd (ensureRenderer s)) \<and> bg_stages (snd (ensureRenderer s)) = bg_stages s
      \<and> bg_cache (snd (ensureRenderer s)) = bg_cache s
      \<and> (\<forall>s' i. stage_fresh s' i (fst (ensureRenderer s)))"
    using assms(1)
    by (auto simp: ensureRenderer_def bg_inv_def stage_fresh_def nth_append Let_def
        split: option.splits bg_stage.splits)
  define s1 where "s1 = snd (ensureRenderer s)"
  define st where "st = fst (ensureRenderer s)"
  have ens1: "bg_inv s1" "bg_stages s1 = bg_stages s" "bg_cache s1 = bg_cache s"
    and fresh: "\<And>s' i. stage_fresh s' i st"
    using ens by (simp_all add: s1_def st_def)
  have add: "bg_inv (s1\<lparr>bg_stages := bg_stages s1 @ [(key, st)],
      bg_cache := AList.update key (length (bg_stages s1)) (bg_cache s1)\<rparr>)" (is "bg_inv ?s2") for key
  proof -
    have f: "stage_fresh ?s2 j x = stage_fresh s1 j x" for j x
      by (simp add: stage_fresh_def split: bg_stage.split)
    have "q < length (bg_stages ?s2) \<and> stage_fresh ?s2 (fst k) (snd (bg_stages ?s2 ! q))"
      if "(k, q) \<in> set (bg_cache ?s2)" for k q
    proof (cases "q = length (bg_stages s1)")
      case True
      then show ?thesis by (simp add: fresh)
    next
      case False
      then have "(k, q) \<in> set (bg_cache s1)" using that set_update_subset by fastforce
      then show ?thesis using bg_inv_cache[OF ens1(1), of k q] by (simp add: f nth_append)
    qed
    then show ?thesis using ens1(1) unfolding bg_inv_def by auto
  qed
  show ?thesis
    using assms add[of "(i, scale_bucket scale)"]
    by (auto simp: renderBackground_def Let_def case_prod_beta s1_def st_def split: if_splits option.splits)
qed

lemma bg_inv_steps: "bg_steps s s' \<Longrightarrow> bg_inv s \<Longrightarrow> bg_inv s'"
proof (induction rule: rtranclp_induct)
  case (step t u)
  from step.hyps(2) step.IH[OF step.prems] show ?case
    by cases (auto intro: bg_inv_request bg_inv_load_succeeds bg_inv_load_fails bg_inv_after_load
        bg_inv_reject bg_inv_drawn bg_inv_replace bg_inv_dispose)
qed simp

text \<open>C33: in every order of requests, loads, drawings, failures and replacements of the document, a
  bitmap that the cache holds for a page was drawn from the version of the last change of that page
  or from a later one.\<close>

theorem background_never_stale:
  assumes "bg_steps (bg_init b) s"
    and "map_get (bg_cache s) (i, bucket) = Some q"
    and "snd (bg_stages s ! q) = Fulfilled v"
  shows "bg_changed s i \<le> v"
  using bg_inv_cache[OF bg_inv_steps[OF assms(1) bg_inv_init] map_of_SomeD[OF assms(2)]] assms(3)
  by (simp add: stage_fresh_def)

text \<open>A request that was waiting for the document when \<open>replaceBytes\<close> ran fails when it goes on,
  whatever the load gave, unless another request has made a renderer first; its page leaves the
  cache even when it is not one of the changed pages.\<close>

lemma replacement_fails_waiting:
  assumes "\<not> bg_disposed s" and "q < length (bg_stages s)"
  shows "snd (bg_stages (after_load q (replaceBytes changed s)) ! q) = Rejected
    \<and> map_get (bg_cache (after_load q (replaceBytes changed s))) (fst (bg_stages s ! q)) = None"
proof -
  have "bg_renderer (replaceBytes changed s) = None" "bg_stages (replaceBytes changed s) = bg_stages s"
    using assms(1) by (auto simp: replaceBytes_def drop_renderer_def Let_def split: option.split list.split)
  then show ?thesis
    using assms(2) by (simp add: after_load_def reject_background_def Let_def js_simps)
qed

text \<open>One request, its load and its drawing.\<close>

definition bg_demo :: bg_state where
  "bg_demo = snd (renderBackground 3 1 (bg_init True))"

definition bg_demo_drawn :: bg_state where
  "bg_demo_drawn = page_drawn 0 0 (after_load 0 (load_succeeds 0 bg_demo))"

lemma bg_demo_steps: "bg_steps (bg_init True) bg_demo_drawn"
proof -
  have "bg_step (bg_init True) bg_demo"
    unfolding bg_demo_def by (rule bg_step.request[OF prod.collapse[symmetric]])
  moreover have "bg_step bg_demo (load_succeeds 0 bg_demo)"
    by (rule bg_step.loaded) code_simp+
  moreover have "bg_step (load_succeeds 0 bg_demo) (after_load 0 (load_succeeds 0 bg_demo))"
    by (rule bg_step.continue[where l = 0]) code_simp+
  moreover have "bg_step (after_load 0 (load_succeeds 0 bg_demo)) bg_demo_drawn"
    unfolding bg_demo_drawn_def by (rule bg_step.drawn) code_simp+
  ultimately show ?thesis by (meson converse_rtranclp_into_rtranclp rtranclp.rtrancl_refl)
qed

theorem background_never_stale_witness: "bg_changed bg_demo_drawn 3 \<le> 0"
proof -
  have "map_get (bg_cache bg_demo_drawn) (3, 1) = Some 0" "snd (bg_stages bg_demo_drawn ! 0) = Fulfilled 0"
    by code_simp+
  then show ?thesis by (rule background_never_stale[OF bg_demo_steps])
qed

theorem replacement_fails_waiting_witness:
  "snd (bg_stages (after_load 0 (replaceBytes (Some [7]) (load_succeeds 0 bg_demo))) ! 0) = Rejected
    \<and> map_get (bg_cache (after_load 0 (replaceBytes (Some [7]) (load_succeeds 0 bg_demo)))) (3, 1) = None"
proof -
  have "\<not> bg_disposed (load_succeeds 0 bg_demo)" "0 < length (bg_stages (load_succeeds 0 bg_demo))"
    "fst (bg_stages (load_succeeds 0 bg_demo) ! 0) = (3, 1)" by code_simp+
  then show ?thesis using replacement_fails_waiting[of "load_succeeds 0 bg_demo" 0 "Some [7]"] by simp
qed

end
