(* ===== verification/Model_Ops.thy ===== *)
theory Model_Ops
  imports Engine Js_Strings
begin

text \<open>
  \<open>packages/pdf-engine/src/model-ops/index.ts\<close>: the bridge from the flat run index the editor
  holds (\<open>source_index\<close>) to the positional block address \<open>[section, page, index]\<close> that the
  engine's structural edits take, the batch of paragraph and list edits, and the table edits
  keyed by \<open>(pageNumber, tableIndexOnPage)\<close>. The document model is the tree the engine's
  \<open>toModel()\<close> returns; a missing or malformed array of the tree is the empty list, a missing
  block is \<open>None\<close>. The values the library defines and this module only forwards (the fields of
  a paragraph patch, list markers, borders, colours, frames) are of the type \<open>'x\<close>.
\<close>

section \<open>The document model\<close>

text \<open>A run carries its index flat or under \<open>v\<close>; the engine emits both shapes.\<close>

datatype inline =
    Run_inline (run_flat: "int option") (run_wrapped: "int option")
  | Link_inline "inline list"
  | Other_inline

datatype 'x gblock = Gblock (gb_frame: "'x option") (gb_kind: "'x gkind")
and 'x gkind =
    Para_kind "inline list"
  | Heading_kind "inline list"
  | List_kind "'x gblock list list"
  | Table_kind "'x gcell list option list option" "jsnum list"
  | Other_kind
and 'x gcell = Gcell (gc_blocks: "'x gblock list") (gc_col_span: "int option") (gc_row_span: "int option")

type_synonym 'x gmodel = "'x gblock option list list list"

type_synonym block_addr = "nat \<times> nat \<times> nat"

definition block_at :: "'x gmodel \<Rightarrow> block_addr \<Rightarrow> 'x gblock option" where
  "block_at m a = (case a of (s, p, i) \<Rightarrow>
     if s < length m \<and> p < length (m ! s) \<and> i < length (m ! s ! p) then m ! s ! p ! i else None)"

section \<open>Source indices\<close>

fun runIndex :: "int option \<Rightarrow> int option \<Rightarrow> int option" where
  "runIndex (Some flat) wrapped = Some flat"
| "runIndex None wrapped = wrapped"

fun collectRunSourceIndices :: "inline list \<Rightarrow> int list" where
  "collectRunSourceIndices [] = []"
| "collectRunSourceIndices (Run_inline flat wrapped # rest) =
     (case runIndex flat wrapped of None \<Rightarrow> []
      | Some idx \<Rightarrow> if idx \<ge> 0 then [idx] else []) @ collectRunSourceIndices rest"
| "collectRunSourceIndices (Link_inline children # rest) =
     collectRunSourceIndices children @ collectRunSourceIndices rest"
| "collectRunSourceIndices (Other_inline # rest) = collectRunSourceIndices rest"

fun collectBlockSourceIndices :: "'x gblock \<Rightarrow> int list"
and collectKindSourceIndices :: "'x gkind \<Rightarrow> int list" where
  "collectBlockSourceIndices (Gblock f k) = collectKindSourceIndices k"
| "collectKindSourceIndices (Para_kind runs) = collectRunSourceIndices runs"
| "collectKindSourceIndices (Heading_kind runs) = collectRunSourceIndices runs"
| "collectKindSourceIndices (List_kind items) =
     concat (map (\<lambda>item. concat (map collectBlockSourceIndices item)) items)"
| "collectKindSourceIndices (Table_kind rows ws) = []"
| "collectKindSourceIndices Other_kind = []"

section \<open>The address maps\<close>

definition recordIndices ::
  "int list \<Rightarrow> block_addr \<Rightarrow> (int, block_addr) jsmap \<Rightarrow> (int, block_addr) jsmap" where
  "recordIndices indices addr m =
     fold (\<lambda>idx m. if map_has m idx then m else AList.update idx addr m) indices m"

definition indexBlock ::
  "'x gblock \<Rightarrow> block_addr \<Rightarrow> (int, block_addr) jsmap \<Rightarrow> (int, block_addr) jsmap" where
  "indexBlock b addr m = (case gb_kind b of
     Para_kind runs \<Rightarrow> recordIndices (collectRunSourceIndices runs) addr m
   | Heading_kind runs \<Rightarrow> recordIndices (collectRunSourceIndices runs) addr m
   | List_kind items \<Rightarrow> recordIndices (collectBlockSourceIndices b) addr m
   | _ \<Rightarrow> m)"

definition indexListBlock ::
  "'x gblock \<Rightarrow> block_addr \<Rightarrow> (int, block_addr) jsmap \<Rightarrow> (int, block_addr) jsmap" where
  "indexListBlock b addr m = (case gb_kind b of
     List_kind items \<Rightarrow> recordIndices (collectBlockSourceIndices b) addr m
   | _ \<Rightarrow> m)"

text \<open>The three nested loops over sections, pages and blocks, which skip a missing block.\<close>

definition page_blocks :: "nat \<Rightarrow> nat \<Rightarrow> 'x gblock option list \<Rightarrow> (block_addr \<times> 'x gblock) list" where
  "page_blocks s p blocks = concat (map_index (\<lambda>i b.
     case b of None \<Rightarrow> [] | Some b \<Rightarrow> [((s, p, i), b)]) blocks)"

definition blocks_in_order :: "'x gmodel \<Rightarrow> (block_addr \<times> 'x gblock) list" where
  "blocks_in_order m =
     concat (map_index (\<lambda>s pages. concat (map_index (\<lambda>p blocks. page_blocks s p blocks) pages)) m)"

definition buildSourceIndexAddrMap :: "'x gmodel \<Rightarrow> (int, block_addr) jsmap" where
  "buildSourceIndexAddrMap m = fold (\<lambda>(a, b). indexBlock b a) (blocks_in_order m) []"

definition buildListAddrMap :: "'x gmodel \<Rightarrow> (int, block_addr) jsmap" where
  "buildListAddrMap m = fold (\<lambda>(a, b). indexListBlock b a) (blocks_in_order m) []"

text \<open>The nested walk meets each present block once, at its own address.\<close>

lemma in_concat_map_index:
  "x \<in> set (concat (map_index f xs)) \<longleftrightarrow> (\<exists>i<length xs. x \<in> set (f i (xs ! i)))"
  by (force simp: map_index_def set_zip in_set_conv_nth)

lemma set_blocks_in_order: "(a, b) \<in> set (blocks_in_order m) \<longleftrightarrow> block_at m a = Some b"
  by (cases a) (auto simp: blocks_in_order_def page_blocks_def in_concat_map_index block_at_def
      split: option.splits simp del: set_concat)

definition is_list_block :: "'x gblock \<Rightarrow> bool" where
  "is_list_block b = (case gb_kind b of List_kind items \<Rightarrow> True | _ \<Rightarrow> False)"

text \<open>Both builders record every block's collected indices, the first block that has one wins.\<close>

lemma get_recordIndices:
  "map_get (recordIndices is a m) idx = (case map_get m idx of
     Some a' \<Rightarrow> Some a' | None \<Rightarrow> if idx \<in> set is then Some a else None)"
  unfolding recordIndices_def
proof (induction "is" arbitrary: m)
  case Nil
  then show ?case by (simp split: option.split)
next
  case (Cons i "is")
  have "map_has m i \<longleftrightarrow> (\<exists>v. map_get m i = Some v)"
    by (auto simp: map_has_def)
  then show ?case
    by (cases "map_has m i") (auto simp: Cons.IH js_simps split: option.split)
qed

lemma indexBlock_eq: "indexBlock b a m = recordIndices (collectBlockSourceIndices b) a m"
  by (cases b) (auto simp: indexBlock_def recordIndices_def split: gkind.split)

lemma indexListBlock_eq:
  "indexListBlock b a m = recordIndices (if is_list_block b then collectBlockSourceIndices b else []) a m"
  by (auto simp: indexListBlock_def is_list_block_def recordIndices_def split: gkind.split)

lemma get_fold_record:
  assumes "\<And>b a m. f b a m = recordIndices (g b) a m"
  shows "map_get (fold (\<lambda>(a, b). f b a) bs m) idx = (case map_get m idx of Some a' \<Rightarrow> Some a'
     | None \<Rightarrow> map_option fst (find (\<lambda>(a, b). idx \<in> set (g b)) bs))"
proof -
  have "f = (\<lambda>b a m. recordIndices (g b) a m)"
    by (intro ext) (rule assms)
  then show ?thesis
  proof (induction bs arbitrary: m)
    case Nil
    then show ?case by (simp split: option.split)
  next
    case (Cons x bs)
    then show ?case
      by (cases x) (simp add: get_recordIndices split: option.split)
  qed
qed

lemma get_addr_map:
  "map_get (buildSourceIndexAddrMap m) idx =
     map_option fst (find (\<lambda>(a, b). idx \<in> set (collectBlockSourceIndices b)) (blocks_in_order m))"
  unfolding buildSourceIndexAddrMap_def
  by (subst get_fold_record [where g = collectBlockSourceIndices]) (auto simp: indexBlock_eq)

lemma get_list_map:
  "map_get (buildListAddrMap m) idx =
     map_option fst (find (\<lambda>(a, b). idx \<in> set (if is_list_block b then collectBlockSourceIndices b else []))
       (blocks_in_order m))"
  unfolding buildListAddrMap_def
  by (subst get_fold_record [where g = "\<lambda>b. if is_list_block b then collectBlockSourceIndices b else []"])
    (auto simp: indexListBlock_eq)

lemma find_Some_in: "find P xs = Some x \<Longrightarrow> x \<in> set xs \<and> P x"
  by (induction xs) (auto split: if_splits)

lemma find_none_iff: "find P xs = None \<longleftrightarrow> (\<forall>x\<in>set xs. \<not> P x)"
  by (induction xs) auto

text \<open>No run index occurs in two blocks.\<close>

definition unique_indices :: "'x gmodel \<Rightarrow> bool" where
  "unique_indices m \<longleftrightarrow> (\<forall>(a, b) \<in> set (blocks_in_order m). \<forall>(a', b') \<in> set (blocks_in_order m).
     set (collectBlockSourceIndices b) \<inter> set (collectBlockSourceIndices b') \<noteq> {} \<longrightarrow> a = a')"

lemma addr_map_sound:
  assumes "map_get (buildSourceIndexAddrMap m) idx = Some a"
  shows "\<exists>b. block_at m a = Some b \<and> idx \<in> set (collectBlockSourceIndices b)"
  using assms unfolding get_addr_map
  by (auto simp: set_blocks_in_order dest!: find_Some_in)

lemma addr_map_complete:
  assumes "block_at m a = Some b" and "idx \<in> set (collectBlockSourceIndices b)"
  shows "\<exists>a'. map_get (buildSourceIndexAddrMap m) idx = Some a'"
proof -
  have "find (\<lambda>(a, b). idx \<in> set (collectBlockSourceIndices b)) (blocks_in_order m) \<noteq> None"
    unfolding find_none_iff using assms set_blocks_in_order [of a b m] by (metis (mono_tags, lifting) case_prod_conv)
  then show ?thesis
    by (auto simp: get_addr_map)
qed

lemma list_map_sound:
  assumes "map_get (buildListAddrMap m) idx = Some a"
  shows "\<exists>b. block_at m a = Some b \<and> is_list_block b \<and> idx \<in> set (collectBlockSourceIndices b)"
  using assms unfolding get_list_map
  by (auto simp: set_blocks_in_order dest!: find_Some_in split: if_splits)

lemma list_map_complete:
  assumes "block_at m a = Some b" "is_list_block b" and "idx \<in> set (collectBlockSourceIndices b)"
  shows "\<exists>a'. map_get (buildListAddrMap m) idx = Some a'"
proof -
  have "(a, b) \<in> set (blocks_in_order m)"
    using assms(1) by (simp add: set_blocks_in_order)
  then have "find (\<lambda>(a, b). idx \<in> set (if is_list_block b then collectBlockSourceIndices b else []))
      (blocks_in_order m) \<noteq> None"
    unfolding find_none_iff using assms(2,3) by fastforce
  then show ?thesis
    by (auto simp: get_list_map)
qed

section \<open>Edits and operations\<close>

text \<open>A paragraph patch is an object: its fields in insertion order.\<close>

type_synonym 'x para_patch = "(string, 'x) jsmap"

record 'x paragraph_style_edit =
  pe_sourceIndex :: int
  pe_patch :: "'x para_patch"

datatype 'x list_edit =
    List_level (le_sourceIndex: int) int
  | List_marker (le_sourceIndex: int) 'x
  | List_ordered (le_sourceIndex: int) bool

datatype 'x model_op =
    SetParagraphStyle block_addr "'x para_patch"
  | SetListLevel block_addr int
  | SetListMarker block_addr 'x
  | SetListOrdered block_addr bool
  | InsertTableRow block_addr int
  | DeleteTableRow block_addr int
  | InsertTableColumn block_addr int
  | DeleteTableColumn block_addr int
  | SetCellSpan block_addr int int int int
  | SetCellShading block_addr int int "'x option"
  | SetRowHeight block_addr int jsnum
  | SetColWidth block_addr int jsnum
  | SetTableBorder block_addr 'x

text \<open>The model side of the engine.\<close>

record ('d, 'b, 'x) model_api =
  ma_toModel :: "'d \<Rightarrow> string + 'x gmodel"
  ma_apply :: "'x gmodel \<Rightarrow> 'x model_op list \<Rightarrow> string + 'x gmodel"
  ma_toPdf :: "'x gmodel \<Rightarrow> string + 'b"

text \<open>\<open>{ ...prev, ...patch }\<close>\<close>

definition spread_patch :: "'x para_patch \<Rightarrow> 'x para_patch \<Rightarrow> 'x para_patch" where
  "spread_patch prev patch = fold (\<lambda>(k, v). AList.update k v) patch prev"

definition addrKey :: "block_addr \<Rightarrow> string" where
  "addrKey a = (case a of (s, p, i) \<Rightarrow> nat_str 10 s @ '':'' @ nat_str 10 p @ '':'' @ nat_str 10 i)"

definition paragraph_step ::
  "(int, block_addr) jsmap \<Rightarrow> 'x paragraph_style_edit
    \<Rightarrow> int list \<times> (string, block_addr \<times> 'x para_patch) jsmap
    \<Rightarrow> int list \<times> (string, block_addr \<times> 'x para_patch) jsmap" where
  "paragraph_step addrMap edit acc = (case acc of (unresolved, byBlock) \<Rightarrow>
     case map_get addrMap (pe_sourceIndex edit) of
       None \<Rightarrow> (unresolved @ [pe_sourceIndex edit], byBlock)
     | Some addr \<Rightarrow>
         (let key = addrKey addr in
          (unresolved, AList.update key
             (addr, case map_get byBlock key of None \<Rightarrow> pe_patch edit
                | Some prev \<Rightarrow> spread_patch (snd prev) (pe_patch edit)) byBlock)))"

fun listEditToOp :: "'x list_edit \<Rightarrow> block_addr \<Rightarrow> 'x model_op" where
  "listEditToOp (List_level src level) addr = SetListLevel addr level"
| "listEditToOp (List_marker src marker) addr = SetListMarker addr marker"
| "listEditToOp (List_ordered src ordered) addr = SetListOrdered addr ordered"

definition list_step ::
  "(int, block_addr) jsmap \<Rightarrow> 'x list_edit \<Rightarrow> int list \<times> 'x model_op list \<Rightarrow> int list \<times> 'x model_op list" where
  "list_step listAddrMap edit acc = (case acc of (unresolved, ops) \<Rightarrow>
     case map_get listAddrMap (le_sourceIndex edit) of
       None \<Rightarrow> (unresolved @ [le_sourceIndex edit], ops)
     | Some addr \<Rightarrow> (unresolved, ops @ [listEditToOp edit addr]))"

definition paragraph_batch ::
  "'x gmodel \<Rightarrow> 'x paragraph_style_edit list \<Rightarrow> 'x list_edit list \<Rightarrow> int list \<times> 'x model_op list" where
  "paragraph_batch model paragraphEdits listEdits =
     (let addrMap = buildSourceIndexAddrMap model;
          listAddrMap = (if listEdits \<noteq> [] then buildListAddrMap model else []);
          (unresolved, byBlock) = fold (paragraph_step addrMap) paragraphEdits ([], []);
          ops = map (\<lambda>(addr, patch). SetParagraphStyle addr patch) (map snd byBlock)
      in fold (list_step listAddrMap) listEdits (unresolved, ops))"

text \<open>The common end of the three bakes: apply a non-empty batch, then raise to bytes.\<close>

definition bake_ops ::
  "('d, 'b, 'x) model_api \<Rightarrow> 'x gmodel \<Rightarrow> 'x model_op list \<Rightarrow> ('d, 'b) eff" where
  "bake_ops M model ops =
     eff_bind (if length ops > 0 then eff_lift Plain_error (ma_apply M model ops) else eff_return model)
       (\<lambda>edited. eff_lift Plain_error (ma_toPdf M edited))"

definition applyModelOps ::
  "('b, 'd) engine \<Rightarrow> ('d, 'b, 'x) model_api \<Rightarrow> 'b \<Rightarrow> 'x model_op list \<Rightarrow> ('d, 'b) eff" where
  "applyModelOps E M bytes ops =
     eff_bind (open_doc E Plain_error bytes) (\<lambda>k. eff_finally
       (eff_bind (call_doc k (ma_toModel M)) (\<lambda>model. bake_ops M model ops))
       (close_doc k))"

record 'b paragraph_ops_result =
  po_bytes :: 'b
  po_resolved :: nat
  po_unresolved :: "int list"

definition applyParagraphOps ::
  "('b, 'd) engine \<Rightarrow> ('d, 'b, 'x) model_api \<Rightarrow> 'b \<Rightarrow> 'x paragraph_style_edit list option
    \<Rightarrow> 'x list_edit list option \<Rightarrow> ('d, 'b paragraph_ops_result) eff" where
  "applyParagraphOps E M bytes paragraph_edits list_edits =
     (let paragraphEdits = (case paragraph_edits of None \<Rightarrow> [] | Some es \<Rightarrow> es);
          listEdits = (case list_edits of None \<Rightarrow> [] | Some es \<Rightarrow> es) in
      eff_bind (open_doc E Plain_error bytes) (\<lambda>k. eff_finally
       (eff_bind (call_doc k (ma_toModel M)) (\<lambda>model.
          let (unresolved, ops) = paragraph_batch model paragraphEdits listEdits in
          eff_bind (bake_ops M model ops) (\<lambda>out.
            eff_return \<lparr>po_bytes = out, po_resolved = length ops, po_unresolved = unresolved\<rparr>)))
       (close_doc k)))"

text \<open>None of the bakes leaks or frees twice a document, whatever fails on the way.\<close>

lemma uses_only_bake_ops: "uses_only k (bake_ops M model ops)"
  by (auto simp: bake_ops_def intro!: uses_only_bind uses_only_basic)

lemma balanced_applyModelOps: "balanced (applyModelOps E M bytes ops)"
  unfolding applyModelOps_def
  by (intro balanced_open uses_only_bind uses_only_basic uses_only_bake_ops)

lemma balanced_applyParagraphOps: "balanced (applyParagraphOps E M bytes ps ls)"
  unfolding applyParagraphOps_def Let_def
  by (intro balanced_open uses_only_bind uses_only_basic)
    (auto split: prod.split intro!: uses_only_bind uses_only_basic uses_only_bake_ops)

section \<open>The paragraph batch\<close>

lemma inj_addrKey: "addrKey a = addrKey b \<longleftrightarrow> a = b"
proof
  assume eq: "addrKey a = addrKey b"
  obtain s p i where a: "a = (s, p, i)" by (cases a)
  obtain s' p' i' where b: "b = (s', p', i')" by (cases b)
  have 1: "nat_str 10 s = nat_str 10 s' \<and> nat_str 10 p @ '':'' @ nat_str 10 i = nat_str 10 p' @ '':'' @ nat_str 10 i'"
    using eq by (intro split_at_colon [of _ "CHR '':''"] nat_str_no_colon) (simp add: a b addrKey_def)
  then have "nat_str 10 p = nat_str 10 p' \<and> nat_str 10 i = nat_str 10 i'"
    by (intro split_at_colon [of _ "CHR '':''"] nat_str_no_colon) simp
  then show "a = b"
    using 1 by (simp add: a b nat_str_inj)
qed simp

text \<open>The reference: which patches go to which block, merged from left to right.\<close>

definition resolved_edits ::
  "(int, block_addr) jsmap \<Rightarrow> 'x paragraph_style_edit list \<Rightarrow> (block_addr \<times> 'x para_patch) list" where
  "resolved_edits addrMap es = concat (map (\<lambda>e. case map_get addrMap (pe_sourceIndex e) of
     None \<Rightarrow> [] | Some a \<Rightarrow> [(a, pe_patch e)]) es)"

definition patches_to :: "block_addr \<Rightarrow> (block_addr \<times> 'x para_patch) list \<Rightarrow> 'x para_patch list" where
  "patches_to a rs = map snd (filter (\<lambda>r. fst r = a) rs)"

definition merged_patch :: "'x para_patch list \<Rightarrow> 'x para_patch" where
  "merged_patch ps = foldl spread_patch (hd ps) (tl ps)"

lemma update_map_image:
  assumes "inj f"
  shows "AList.update (f a) v (map (\<lambda>b. (f b, g b)) xs) =
    (if a \<in> set xs then (if distinct xs then map (\<lambda>b. (f b, if b = a then v else g b)) xs
        else AList.update (f a) v (map (\<lambda>b. (f b, g b)) xs))
     else map (\<lambda>b. (f b, g b)) xs @ [(f a, v)])"
  using assms by (induction xs) (auto simp: inj_eq)

lemma get_map_image: "inj f \<Longrightarrow> map_get (map (\<lambda>b. (f b, g b)) xs) (f a) = (if a \<in> set xs then Some (g a) else None)"
  by (induction xs) (auto simp: inj_eq)

lemma set_of_list_snoc: "set_of_list (xs @ [x]) = (if x \<in> set xs then set_of_list xs else set_of_list xs @ [x])"
  by (simp add: set_of_list_def set_add_def fold_set_add)

lemma paragraph_fold:
  "fold (paragraph_step addrMap) es ([], []) =
    (filter (\<lambda>i. map_get addrMap i = None) (map pe_sourceIndex es),
     map (\<lambda>a. (addrKey a, (a, merged_patch (patches_to a (resolved_edits addrMap es)))))
       (set_of_list (map fst (resolved_edits addrMap es))))"
proof (induction es rule: rev_induct)
  case Nil
  then show ?case by (simp add: resolved_edits_def set_of_list_def)
next
  case (snoc e es)
  let ?rs = "resolved_edits addrMap es"
  have inj: "inj addrKey"
    by (simp add: inj_def inj_addrKey)
  show ?case
  proof (cases "map_get addrMap (pe_sourceIndex e)")
    case None
    moreover have "resolved_edits addrMap (es @ [e]) = ?rs"
      by (simp add: resolved_edits_def None)
    ultimately show ?thesis
      by (simp add: snoc.IH) (simp add: paragraph_step_def)
  next
    case (Some a)
    have rs: "resolved_edits addrMap (es @ [e]) = ?rs @ [(a, pe_patch e)]"
      by (simp add: resolved_edits_def Some)
    have pt: "patches_to b (?rs @ [(a, pe_patch e)]) = patches_to b ?rs @ (if b = a then [pe_patch e] else [])" for b
      by (simp add: patches_to_def)
    have ne: "patches_to a ?rs \<noteq> [] \<longleftrightarrow> a \<in> set (map fst ?rs)"
      by (force simp: patches_to_def filter_empty_conv)
    have mp: "merged_patch (ps @ [q]) = (if ps = [] then q else spread_patch (merged_patch ps) q)" for ps and q :: "'b para_patch"
      by (cases ps) (simp_all add: merged_patch_def)
    have d: "distinct (set_of_list (map fst ?rs))"
      by (simp add: js_simps)
    show ?thesis
    proof (cases "a \<in> set (map fst ?rs)")
      case True
      then have "patches_to a ?rs \<noteq> []"
        using ne by simp
      then show ?thesis
        unfolding fold_append fold.simps snoc.IH comp_apply id_apply rs
        using True by (simp add: paragraph_step_def Some get_map_image [OF inj] update_map_image [OF inj]
            Let_def d js_simps pt mp set_of_list_snoc)
    next
      case False
      then have "patches_to a ?rs = []"
        using ne by simp
      then show ?thesis
        unfolding fold_append fold.simps snoc.IH comp_apply id_apply rs
        using False by (simp add: paragraph_step_def Some get_map_image [OF inj] update_map_image [OF inj]
            Let_def d js_simps pt mp set_of_list_snoc) (force simp: merged_patch_def)
    qed
  qed
qed

definition list_edits_ops ::
  "(int, block_addr) jsmap \<Rightarrow> 'x list_edit list \<Rightarrow> 'x model_op list" where
  "list_edits_ops listMap es = concat (map (\<lambda>e. case map_get listMap (le_sourceIndex e) of
     None \<Rightarrow> [] | Some a \<Rightarrow> [listEditToOp e a]) es)"

lemma list_fold:
  "fold (list_step listMap) es (un, ops) =
    (un @ filter (\<lambda>i. map_get listMap i = None) (map le_sourceIndex es), ops @ list_edits_ops listMap es)"
  by (induction es arbitrary: un ops) (auto simp: list_step_def list_edits_ops_def split: option.split)

lemma paragraph_batch_eq:
  "paragraph_batch m ps ls =
    (filter (\<lambda>i. map_get (buildSourceIndexAddrMap m) i = None) (map pe_sourceIndex ps)
       @ filter (\<lambda>i. map_get (buildListAddrMap m) i = None) (map le_sourceIndex ls),
     (let rs = resolved_edits (buildSourceIndexAddrMap m) ps in
       map (\<lambda>a. SetParagraphStyle a (merged_patch (patches_to a rs))) (set_of_list (map fst rs)))
       @ list_edits_ops (buildListAddrMap m) ls)"
  by (cases "ls = []") (simp_all add: paragraph_batch_def paragraph_fold list_fold Let_def list_edits_ops_def comp_def)

text \<open>The value a field ends with when the patches are written one after the other.\<close>

definition last_write :: "string \<Rightarrow> 'x para_patch list \<Rightarrow> 'x option" where
  "last_write f ps = fold (\<lambda>p acc. case map_get p f of None \<Rightarrow> acc | Some v \<Rightarrow> Some v) ps None"

lemma get_spread:
  assumes "wf_map q"
  shows "map_get (spread_patch p q) f = (case map_get q f of None \<Rightarrow> map_get p f | Some v \<Rightarrow> Some v)"
  using assms unfolding spread_patch_def
proof (induction q arbitrary: p)
  case Nil
  then show ?case by simp
next
  case (Cons x q)
  then show ?case
    by (cases x) (auto simp: wf_map_def js_simps map_of_eq_None_iff split: option.split dest: map_of_SomeD
        intro: rev_image_eqI)
qed

lemma get_foldl_spread:
  "\<forall>q\<in>set qs. wf_map q \<Longrightarrow> map_get (foldl spread_patch p qs) f =
    fold (\<lambda>p acc. case map_get p f of None \<Rightarrow> acc | Some v \<Rightarrow> Some v) qs (map_get p f)"
  by (induction qs arbitrary: p) (simp_all add: get_spread)

lemma get_merged_patch:
  assumes "ps \<noteq> []" "\<forall>p\<in>set ps. wf_map p"
  shows "map_get (merged_patch ps) f = last_write f ps"
  using assms by (cases ps) (auto simp: merged_patch_def last_write_def get_foldl_spread split: option.split)

lemma patches_to_in: "p \<in> set (patches_to a (resolved_edits am es)) \<Longrightarrow> \<exists>e\<in>set es. p = pe_patch e"
  by (auto simp: patches_to_def resolved_edits_def split: option.splits)

lemma patches_to_nonempty: "a \<in> fst ` set rs \<Longrightarrow> patches_to a rs \<noteq> []"
  by (force simp: patches_to_def filter_empty_conv)

text \<open>The block an operation addresses.\<close>

fun op_addr :: "'x model_op \<Rightarrow> block_addr" where
  "op_addr (SetParagraphStyle a p) = a" | "op_addr (SetListLevel a l) = a"
| "op_addr (SetListMarker a x) = a" | "op_addr (SetListOrdered a b) = a"
| "op_addr (InsertTableRow a i) = a" | "op_addr (DeleteTableRow a i) = a"
| "op_addr (InsertTableColumn a i) = a" | "op_addr (DeleteTableColumn a i) = a"
| "op_addr (SetCellSpan a r c cs rs) = a" | "op_addr (SetCellShading a r c x) = a"
| "op_addr (SetRowHeight a r h) = a" | "op_addr (SetColWidth a c w) = a"
| "op_addr (SetTableBorder a x) = a"

fun is_para_op :: "'x model_op \<Rightarrow> bool" where
  "is_para_op (SetParagraphStyle a p) = True"
| "is_para_op op = False"

lemma list_ops_not_para: "op \<in> set (list_edits_ops lm ls) \<Longrightarrow> \<not> is_para_op op"
  by (auto simp: list_edits_ops_def split: option.splits) (metis is_para_op.simps(2-4) listEditToOp.elims)

lemma list_ops_target:
  assumes "op \<in> set (list_edits_ops (buildListAddrMap m) ls)"
  shows "\<exists>b. block_at m (op_addr op) = Some b \<and> is_list_block b"
proof -
  obtain e a where e: "map_get (buildListAddrMap m) (le_sourceIndex e) = Some a" "op = listEditToOp e a"
    using assms unfolding list_edits_ops_def by (auto split: option.splits) metis
  then show ?thesis
    using list_map_sound [OF e(1)] by (cases e) auto
qed

lemma resolved_edits_addr:
  "a \<in> fst ` set (resolved_edits am es) \<Longrightarrow> \<exists>e\<in>set es. map_get am (pe_sourceIndex e) = Some a"
  by (fastforce simp: resolved_edits_def split: option.splits)

lemma set_of_list_length: "length (set_of_list xs) \<le> length xs"
  by (induction xs rule: rev_induct) (auto simp: set_of_list_snoc, simp add: set_of_list_def)

lemma paragraph_op_iff:
  fixes ps :: "'x paragraph_style_edit list" and ls :: "'x list_edit list"
  assumes ops: "paragraph_batch m ps ls = (un, ops)" and wf: "\<forall>e\<in>set ps. wf_map (pe_patch e)"
    and op: "SetParagraphStyle a p \<in> set ops"
  defines "rs \<equiv> resolved_edits (buildSourceIndexAddrMap m) ps"
  shows "patches_to a rs \<noteq> [] \<and> map_get p f = last_write f (patches_to a rs)
    \<and> (\<exists>e\<in>set ps. \<exists>b. block_at m a = Some b \<and> pe_sourceIndex e \<in> set (collectBlockSourceIndices b))"
proof -
  have "SetParagraphStyle a p \<notin> set (list_edits_ops (buildListAddrMap m) ls)"
    using list_ops_not_para [of "SetParagraphStyle a p"] by auto
  then have a: "a \<in> fst ` set rs" "p = merged_patch (patches_to a rs)"
    using op ops by (auto simp: paragraph_batch_eq Let_def js_simps rs_def)
  have "\<forall>q\<in>set (patches_to a rs). wf_map q"
    using wf patches_to_in unfolding rs_def by blast
  then have "map_get p f = last_write f (patches_to a rs)"
    using get_merged_patch [OF patches_to_nonempty [OF a(1)]] a(2) by simp
  moreover obtain e where "e \<in> set ps" "map_get (buildSourceIndexAddrMap m) (pe_sourceIndex e) = Some a"
    using a(1) resolved_edits_addr unfolding rs_def by blast
  ultimately show ?thesis
    using a patches_to_nonempty addr_map_sound by blast
qed


text \<open>Two edits of one heading, one of an item of a list, one of a list level, one unknown run.\<close>

definition ops_model :: "string gmodel" where
  "ops_model = [[[None, Some (Gblock None (Heading_kind [Run_inline (Some 4) None, Other_inline]))],
     [Some (Gblock None (List_kind [[Gblock None (Para_kind [Link_inline [Run_inline None (Some 7)]])]]))]]]"


section \<open>Tables\<close>

definition tableBody :: "'x gblock \<Rightarrow> ('x gcell list option list \<times> jsnum list) option" where
  "tableBody b = (case gb_kind b of
     Table_kind (Some rows) col_widths \<Rightarrow> Some (rows, col_widths)
   | _ \<Rightarrow> None)"

definition cellSourceIndices :: "'x gblock list \<Rightarrow> int list" where
  "cellSourceIndices cellBlocks = concat (map (\<lambda>b. case gb_kind b of
     Para_kind runs \<Rightarrow> collectRunSourceIndices runs
   | Heading_kind runs \<Rightarrow> collectRunSourceIndices runs
   | _ \<Rightarrow> []) cellBlocks)"

record table_cell_info =
  tc_row :: nat
  tc_col :: int
  tc_colSpan :: int
  tc_rowSpan :: int
  tc_sourceIndices :: "int list"

definition span_of :: "int option \<Rightarrow> int" where
  "span_of s = (case s of Some n \<Rightarrow> if n \<ge> 1 then n else 1 | None \<Rightarrow> 1)"

fun row_cells :: "nat \<Rightarrow> int \<Rightarrow> 'x gcell list \<Rightarrow> table_cell_info list" where
  "row_cells rowIndex col [] = []"
| "row_cells rowIndex col (cell # cells) =
     \<lparr>tc_row = rowIndex, tc_col = col, tc_colSpan = span_of (gc_col_span cell),
      tc_rowSpan = span_of (gc_row_span cell), tc_sourceIndices = cellSourceIndices (gc_blocks cell)\<rparr>
     # row_cells rowIndex (col + span_of (gc_col_span cell)) cells"

definition tableCells :: "'x gcell list option list \<Rightarrow> table_cell_info list" where
  "tableCells rows = concat (map_index (\<lambda>rowIndex row.
     case row of None \<Rightarrow> [] | Some cells \<Rightarrow> row_cells rowIndex 0 cells) rows)"

definition row_width :: "'x gcell list \<Rightarrow> int" where
  "row_width cells = fold (\<lambda>cell col. col + span_of (gc_col_span cell)) cells 0"

definition tableColCount :: "'x gcell list option list \<Rightarrow> jsnum list \<Rightarrow> int" where
  "tableColCount rows colWidths =
     fold (\<lambda>row colCount. case row of None \<Rightarrow> colCount | Some cells \<Rightarrow> max colCount (row_width cells))
       rows (int (length colWidths))"

record 'x table_info =
  ti_pageNumber :: int
  ti_tableIndexOnPage :: int
  ti_addr :: block_addr
  ti_rowCount :: int
  ti_colCount :: int
  ti_frame :: "'x option"
  ti_cells :: "table_cell_info list"

definition table_info_of ::
  "int \<Rightarrow> int \<Rightarrow> block_addr \<Rightarrow> 'x gblock \<Rightarrow> 'x gcell list option list \<times> jsnum list \<Rightarrow> 'x table_info" where
  "table_info_of pageNumber tableIndexOnPage addr b body = (case body of (rows, colWidths) \<Rightarrow>
     \<lparr>ti_pageNumber = pageNumber, ti_tableIndexOnPage = tableIndexOnPage, ti_addr = addr,
      ti_rowCount = int (length rows), ti_colCount = tableColCount rows colWidths,
      ti_frame = gb_frame b, ti_cells = tableCells rows\<rparr>)"

text \<open>The loop over the blocks of a page carries the table index, the loops over sections and
  pages carry the page number.\<close>

fun page_tables :: "int \<Rightarrow> nat \<Rightarrow> nat \<Rightarrow> nat \<Rightarrow> int \<Rightarrow> 'x gblock option list \<Rightarrow> 'x table_info list" where
  "page_tables pageNumber s p i tableIndexOnPage [] = []"
| "page_tables pageNumber s p i tableIndexOnPage (b # blocks) =
     (case Option.bind b tableBody of
        None \<Rightarrow> page_tables pageNumber s p (Suc i) tableIndexOnPage blocks
      | Some body \<Rightarrow> table_info_of pageNumber tableIndexOnPage (s, p, i) (the b) body
          # page_tables pageNumber s p (Suc i) (tableIndexOnPage + 1) blocks)"

fun section_tables :: "int \<Rightarrow> nat \<Rightarrow> nat \<Rightarrow> 'x gblock option list list \<Rightarrow> 'x table_info list" where
  "section_tables pageNumber s p [] = []"
| "section_tables pageNumber s p (page # pages) =
     page_tables (pageNumber + 1) s p 0 0 page @ section_tables (pageNumber + 1) s (Suc p) pages"

fun model_tables :: "int \<Rightarrow> nat \<Rightarrow> 'x gmodel \<Rightarrow> 'x table_info list" where
  "model_tables pageNumber s [] = []"
| "model_tables pageNumber s (section # sections) =
     section_tables pageNumber s 0 section
     @ model_tables (pageNumber + int (length section)) (Suc s) sections"

definition listTablesInModel :: "'x gmodel \<Rightarrow> 'x table_info list" where
  "listTablesInModel model = model_tables 0 0 model"

definition listPdfTables ::
  "('b, 'd) engine \<Rightarrow> ('d, 'b, 'x) model_api \<Rightarrow> 'b \<Rightarrow> ('d, 'x table_info list) eff" where
  "listPdfTables E M bytes =
     eff_bind (open_doc E Plain_error bytes) (\<lambda>k. eff_finally
       (eff_bind (call_doc k (ma_toModel M)) (\<lambda>model. eff_return (listTablesInModel model)))
       (close_doc k))"

lemma balanced_listPdfTables: "balanced (listPdfTables E M bytes)"
  unfolding listPdfTables_def by (intro balanced_open uses_only_bind uses_only_basic)

text \<open>The cells of a row tile it from the left, inside the columns the table reports.\<close>

lemma span_of_pos: "1 \<le> span_of s"
  by (simp add: span_of_def split: option.split)

lemma fold_span: "fold (\<lambda>cell col. col + span_of (gc_col_span cell)) cells c =
    c + sum_list (map (\<lambda>cell. span_of (gc_col_span cell)) cells)"
  by (induction cells arbitrary: c) simp_all

lemma row_width_sum: "row_width cells = sum_list (map (\<lambda>cell. span_of (gc_col_span cell)) cells)"
  by (simp add: row_width_def fold_span)

lemma row_cells_nth:
  "j < length cells \<Longrightarrow> row_cells r c cells ! j =
    \<lparr>tc_row = r, tc_col = c + row_width (take j cells), tc_colSpan = span_of (gc_col_span (cells ! j)),
     tc_rowSpan = span_of (gc_row_span (cells ! j)), tc_sourceIndices = cellSourceIndices (gc_blocks (cells ! j))\<rparr>"
  by (induction cells arbitrary: c j) (auto simp: nth_Cons' take_Cons' row_width_sum)

lemma length_row_cells: "length (row_cells r c cells) = length cells"
  by (induction cells arbitrary: c) simp_all

lemma row_width_take: "j \<le> length cells \<Longrightarrow> row_width (take j cells) \<le> row_width cells"
proof -
  have "0 \<le> sum_list (map (\<lambda>cell. span_of (gc_col_span cell)) (drop j cells))"
    by (rule sum_list_nonneg) (auto intro: order_trans [OF _ span_of_pos])
  then show ?thesis
    unfolding row_width_sum
    by (metis append_take_drop_id le_add_same_cancel1 map_append sum_list_append)
qed

lemma row_width_nonneg: "0 \<le> row_width cells"
  using row_width_take [of 0 cells] by (simp add: row_width_sum)

lemma row_width_take_Suc:
  "j < length cells \<Longrightarrow> row_width (take (Suc j) cells) = row_width (take j cells) + span_of (gc_col_span (cells ! j))"
  by (simp add: take_Suc_conv_app_nth row_width_sum)

lemma tableColCount_bound:
  "int (length ws) \<le> tableColCount rows ws \<and> (Some cells \<in> set rows \<longrightarrow> row_width cells \<le> tableColCount rows ws)"
proof -
  have "c \<le> fold (\<lambda>row colCount. case row of None \<Rightarrow> colCount | Some cells \<Rightarrow> max colCount (row_width cells)) rows c
    \<and> (Some cells \<in> set rows \<longrightarrow> row_width cells \<le>
        fold (\<lambda>row colCount. case row of None \<Rightarrow> colCount | Some cells \<Rightarrow> max colCount (row_width cells)) rows c)" for c
  proof (induction rows arbitrary: c)
    case (Cons r rows)
    show ?case
      using Cons [of "case r of None \<Rightarrow> c | Some cells \<Rightarrow> max c (row_width cells)"]
      by (auto split: option.splits)
  qed simp
  then show ?thesis
    by (simp add: tableColCount_def)
qed

lemma in_tableCells:
  "ci \<in> set (tableCells rows) \<longleftrightarrow> (\<exists>r<length rows. \<exists>cells. rows ! r = Some cells \<and>
     (\<exists>j<length cells. ci = row_cells r 0 cells ! j))"
  unfolding tableCells_def in_concat_map_index
  by (auto simp: in_set_conv_nth length_row_cells split: option.splits) (metis length_row_cells)+

text \<open>Every cell the enumeration reports lies in its table: its row is below the row count, it
  spans at least one row and one column, and its span ends within the column count; the cells of one
  row are adjacent and disjoint, in order. The row span is taken from the model as it is.\<close>

lemma table_cells_in_grid:
  assumes "t = table_info_of pn ti a b (rows, ws)"
  shows "(\<forall>ci\<in>set (ti_cells t). int (tc_row ci) < ti_rowCount t \<and> 0 \<le> tc_col ci \<and> 1 \<le> tc_colSpan ci
        \<and> 1 \<le> tc_rowSpan ci \<and> tc_col ci + tc_colSpan ci \<le> ti_colCount t)
    \<and> (\<forall>r<length rows. \<forall>cells. rows ! r = Some cells \<longrightarrow> (\<forall>j. Suc j < length cells \<longrightarrow>
         tc_col (row_cells r 0 cells ! Suc j) = tc_col (row_cells r 0 cells ! j) + tc_colSpan (row_cells r 0 cells ! j)))"
proof (intro conjI ballI)
  fix ci assume "ci \<in> set (ti_cells t)"
  then obtain r cells j where c: "r < length rows" "rows ! r = Some cells" "j < length cells"
    "ci = row_cells r 0 cells ! j"
    using assms by (auto simp: table_info_of_def in_tableCells)
  have ci: "tc_row ci = r" "tc_col ci = row_width (take j cells)"
    "tc_colSpan ci = span_of (gc_col_span (cells ! j))" "tc_rowSpan ci = span_of (gc_row_span (cells ! j))"
    using c by (simp_all add: row_cells_nth)
  show "int (tc_row ci) < ti_rowCount t"
    using c assms ci by (simp add: table_info_of_def)
  show "0 \<le> tc_col ci" "1 \<le> tc_colSpan ci" "1 \<le> tc_rowSpan ci"
    by (simp_all add: ci row_width_nonneg span_of_pos)
  have "tc_col ci + tc_colSpan ci = row_width (take (Suc j) cells)"
    using c(1-3) by (simp add: ci row_width_take_Suc)
  also have "\<dots> \<le> row_width cells"
    using c by (simp add: row_width_take)
  also have "\<dots> \<le> tableColCount rows ws"
    using tableColCount_bound c nth_mem by metis
  finally show "tc_col ci + tc_colSpan ci \<le> ti_colCount t"
    using assms by (simp add: table_info_of_def)
qed (auto simp: row_cells_nth row_width_take_Suc)

definition ops_table :: "string gblock" where
  "ops_table = Gblock (Some ''f'') (Table_kind (Some
     [Some [Gcell [Gblock None (Para_kind [Run_inline (Some 1) None])] (Some 2) None,
            Gcell [Gblock None (Para_kind [Run_inline (Some 2) None])] None (Some 0)],
      None, Some [Gcell [] None None]]) [10, 20])"

lemma table_cells_in_grid_witness:
  "ti_colCount (table_info_of 1 0 (0, 0, 0) ops_table (the (tableBody ops_table))) = 3
   \<and> list_all (\<lambda>ci. tc_col ci + tc_colSpan ci \<le> 3)
        (ti_cells (table_info_of 1 0 (0, 0, 0) ops_table (the (tableBody ops_table))))"
proof -
  have "ti_colCount (table_info_of 1 0 (0, 0, 0) ops_table (the (tableBody ops_table))) = 3"
    by code_simp
  then show ?thesis
    using table_cells_in_grid [of "table_info_of 1 0 (0, 0, 0) ops_table (the (tableBody ops_table))" 1 0
        "(0, 0, 0)" ops_table "fst (the (tableBody ops_table))" "snd (the (tableBody ops_table))"]
    by (simp add: list_all_iff)
qed

section \<open>Table handles\<close>

text \<open>What the pair \<open>(pageNumber, tableIndexOnPage)\<close> stands for: the page in the flattened
  sequence, from 1, and how many tables precede on it.\<close>

definition is_table :: "'x gblock option \<Rightarrow> bool" where
  "is_table b = (Option.bind b tableBody \<noteq> None)"

definition flat_page :: "'x gmodel \<Rightarrow> block_addr \<Rightarrow> int" where
  "flat_page m a = (case a of (s, p, i) \<Rightarrow> int (sum_list (map length (take s m)) + p + 1))"

definition table_rank :: "'x gmodel \<Rightarrow> block_addr \<Rightarrow> int" where
  "table_rank m a = (case a of (s, p, i) \<Rightarrow> int (length (filter is_table (take i (m ! s ! p)))))"

lemma ex_less_Suc2: "(\<exists>j<Suc n. P j) \<longleftrightarrow> P 0 \<or> (\<exists>j<n. P (Suc j))"
  using less_Suc_eq_0_disj by auto

lemma in_page_tables:
  "t \<in> set (page_tables pn s p i ti blocks) \<longleftrightarrow> (\<exists>j<length blocks. \<exists>b body. blocks ! j = Some b
     \<and> tableBody b = Some body
     \<and> t = table_info_of pn (ti + int (length (filter is_table (take j blocks)))) (s, p, i + j) b body)"
proof (induction blocks arbitrary: i ti)
  case Nil
  then show ?case by simp
next
  case (Cons x blocks)
  show ?case
  proof (cases "Option.bind x tableBody")
    case None
    then show ?thesis
      by (auto simp: Cons.IH ex_less_Suc2 is_table_def)
  next
    case (Some body)
    then obtain b where "x = Some b" "tableBody b = Some body"
      by (cases x) auto
    then show ?thesis
      by (cases body) (simp add: Cons.IH ex_less_Suc2 is_table_def algebra_simps)
  qed
qed

lemma in_section_tables:
  "t \<in> set (section_tables pn s p pages) \<longleftrightarrow>
     (\<exists>q<length pages. t \<in> set (page_tables (pn + int q + 1) s (p + q) 0 0 (pages ! q)))"
proof (induction pages arbitrary: pn p)
  case (Cons x pages)
  show ?case
    by (simp add: Cons.IH ex_less_Suc2 algebra_simps)
qed simp

lemma in_model_tables:
  "t \<in> set (model_tables pn s m) \<longleftrightarrow>
     (\<exists>r<length m. t \<in> set (section_tables (pn + int (sum_list (map length (take r m)))) (s + r) 0 (m ! r)))"
proof (induction m arbitrary: pn s)
  case (Cons x m)
  show ?case
    by (simp add: Cons.IH ex_less_Suc2 algebra_simps)
qed simp

lemma in_listTables:
  "t \<in> set (listTablesInModel m) \<longleftrightarrow> (\<exists>a b body. block_at m a = Some b \<and> tableBody b = Some body
     \<and> t = table_info_of (flat_page m a) (table_rank m a) a b body)"
proof -
  have "t \<in> set (listTablesInModel m) \<longleftrightarrow> (\<exists>s<length m. \<exists>p<length (m ! s). \<exists>i<length (m ! s ! p). \<exists>b body.
     m ! s ! p ! i = Some b \<and> tableBody b = Some body
     \<and> t = table_info_of (flat_page m (s, p, i)) (table_rank m (s, p, i)) (s, p, i) b body)"
    unfolding listTablesInModel_def in_model_tables in_section_tables in_page_tables flat_page_def
      table_rank_def by (simp add: add.commute add.left_commute)
  also have "\<dots> \<longleftrightarrow> (\<exists>s p i b body. block_at m (s, p, i) = Some b \<and> tableBody b = Some body
     \<and> t = table_info_of (flat_page m (s, p, i)) (table_rank m (s, p, i)) (s, p, i) b body)"
    unfolding block_at_def prod.case by (metis option.distinct(1))
  also have "\<dots> \<longleftrightarrow> (\<exists>a b body. block_at m a = Some b \<and> tableBody b = Some body
     \<and> t = table_info_of (flat_page m a) (table_rank m a) a b body)"
    by (metis prod_cases3)
  finally show ?thesis .
qed

text \<open>The handle determines the block.\<close>

lemma flat_page_inj:
  assumes "s < length m" "p < length (m ! s)" "s' < length m" "p' < length (m ! s')"
    and "sum_list (map length (take s m)) + p = sum_list (map length (take s' m)) + p'"
  shows "s = s' \<and> p = p'"
  using assms
proof (induction m arbitrary: s s')
  case (Cons x m)
  show ?case
  proof (cases s)
    case 0
    then show ?thesis
      using Cons.prems by (cases s') auto
  next
    case (Suc r)
    then obtain r' where r': "s' = Suc r'"
      using Cons.prems by (cases s') auto
    have "r = r' \<and> p = p'"
      using Cons.prems by (intro Cons.IH) (simp_all add: Suc r')
    then show ?thesis
      by (simp add: Suc r')
  qed
qed simp

lemma rank_strict:
  assumes "i < j" "j \<le> length bs" "is_table (bs ! i)"
  shows "length (filter is_table (take i bs)) < length (filter is_table (take j bs))"
proof -
  have "length (filter is_table (take (Suc i) bs)) \<le> length (filter is_table (take j bs))"
    using assms by (metis Suc_leI filter_append le_add1 length_append take_add le_Suc_ex)
  then show ?thesis
    using assms by (simp add: take_Suc_conv_app_nth)
qed

lemma handle_inj:
  assumes "block_at m a = Some b" "tableBody b \<noteq> None" "block_at m a' = Some b'" "tableBody b' \<noteq> None"
    and "flat_page m a = flat_page m a'" "table_rank m a = table_rank m a'"
  shows "a = a'"
proof -
  obtain s p i where a: "a = (s, p, i)" by (cases a)
  obtain s' p' i' where a': "a' = (s', p', i')" by (cases a')
  have same: "s = s' \<and> p = p'"
    using assms by (intro flat_page_inj [of s m p s' p'])
      (auto simp: a a' block_at_def flat_page_def split: if_splits)
  have "is_table (m ! s ! p ! i)" "is_table (m ! s ! p ! i')" "i < length (m ! s ! p)" "i' < length (m ! s ! p)"
    using assms same by (auto simp: a a' block_at_def is_table_def split: if_splits)
  then show ?thesis
    using rank_strict [of i i' "m ! s ! p"] rank_strict [of i' i "m ! s ! p"] assms(6) same
    by (cases i i' rule: linorder_cases) (auto simp: a a' table_rank_def)
qed

section \<open>The table batch\<close>

record table_handle =
  th_pageNumber :: int
  th_tableIndexOnPage :: int

datatype 'x table_edit =
    Te_insertRow (te_handle: table_handle) int
  | Te_deleteRow (te_handle: table_handle) int
  | Te_insertColumn (te_handle: table_handle) int
  | Te_deleteColumn (te_handle: table_handle) int
  | Te_setCellSpan (te_handle: table_handle) int int int int
  | Te_setCellShading (te_handle: table_handle) int int "'x option"
  | Te_setRowHeight (te_handle: table_handle) int jsnum
  | Te_setColWidth (te_handle: table_handle) int jsnum
  | Te_setTableBorder (te_handle: table_handle) 'x

definition tableKey :: "int \<Rightarrow> int \<Rightarrow> string" where
  "tableKey pageNumber tableIndexOnPage = int_str pageNumber @ '':'' @ int_str tableIndexOnPage"

fun tableEditToOp :: "'x table_edit \<Rightarrow> block_addr \<Rightarrow> 'x model_op" where
  "tableEditToOp (Te_insertRow h pos) addr = InsertTableRow addr pos"
| "tableEditToOp (Te_deleteRow h pos) addr = DeleteTableRow addr pos"
| "tableEditToOp (Te_insertColumn h pos) addr = InsertTableColumn addr pos"
| "tableEditToOp (Te_deleteColumn h pos) addr = DeleteTableColumn addr pos"
| "tableEditToOp (Te_setCellSpan h row col colSpan rowSpan) addr = SetCellSpan addr row col colSpan rowSpan"
| "tableEditToOp (Te_setCellShading h row col color) addr = SetCellShading addr row col color"
| "tableEditToOp (Te_setRowHeight h row height) addr = SetRowHeight addr row height"
| "tableEditToOp (Te_setColWidth h col width) addr = SetColWidth addr col width"
| "tableEditToOp (Te_setTableBorder h border) addr = SetTableBorder addr border"

definition tables_by_key :: "'x gmodel \<Rightarrow> (string, block_addr) jsmap" where
  "tables_by_key model = fold (\<lambda>t m.
     (let key = tableKey (ti_pageNumber t) (ti_tableIndexOnPage t) in
      if map_has m key then m else AList.update key (ti_addr t) m)) (listTablesInModel model) []"

definition table_step ::
  "(string, block_addr) jsmap \<Rightarrow> 'x table_edit \<Rightarrow> 'x table_edit list \<times> 'x model_op list
    \<Rightarrow> 'x table_edit list \<times> 'x model_op list" where
  "table_step tablesByKey edit acc = (case acc of (unresolved, ops) \<Rightarrow>
     case map_get tablesByKey (tableKey (th_pageNumber (te_handle edit)) (th_tableIndexOnPage (te_handle edit))) of
       None \<Rightarrow> (unresolved @ [edit], ops)
     | Some addr \<Rightarrow> (unresolved, ops @ [tableEditToOp edit addr]))"

definition table_batch :: "'x gmodel \<Rightarrow> 'x table_edit list \<Rightarrow> 'x table_edit list \<times> 'x model_op list" where
  "table_batch model edits = fold (table_step (tables_by_key model)) edits ([], [])"

record ('b, 'x) table_ops_result =
  to_bytes :: 'b
  to_resolved :: nat
  to_unresolved :: "'x table_edit list"

definition applyTableOps ::
  "('b, 'd) engine \<Rightarrow> ('d, 'b, 'x) model_api \<Rightarrow> 'b \<Rightarrow> 'x table_edit list
    \<Rightarrow> ('d, ('b, 'x) table_ops_result) eff" where
  "applyTableOps E M bytes edits =
     eff_bind (open_doc E Plain_error bytes) (\<lambda>k. eff_finally
       (eff_bind (call_doc k (ma_toModel M)) (\<lambda>model.
          let (unresolved, ops) = table_batch model edits in
          eff_bind (bake_ops M model ops) (\<lambda>out.
            eff_return \<lparr>to_bytes = out, to_resolved = length ops, to_unresolved = unresolved\<rparr>)))
       (close_doc k))"

lemma balanced_applyTableOps: "balanced (applyTableOps E M bytes edits)"
  unfolding applyTableOps_def Let_def
  by (intro balanced_open uses_only_bind uses_only_basic)
    (auto split: prod.split intro!: uses_only_bind uses_only_basic uses_only_bake_ops)

lemma int_str_no_colon: "CHR '':'' \<notin> set (int_str i)"
  by (simp add: int_str_def nat_str_no_colon [simplified])

lemma int_str_inj: "int_str a = int_str b \<Longrightarrow> a = b"
proof -
  have minus: "hd (nat_str 10 n) \<noteq> CHR ''-'' \<and> nat_str 10 n \<noteq> []" for n
    using nat_str_digits [of 10 n] not_space_digit by (cases "nat_str 10 n") auto
  then have "nat_str 10 n \<noteq> CHR ''-'' # xs" for n xs
    by (metis list.sel(1))
  then show "int_str a = int_str b \<Longrightarrow> a = b"
    by (auto simp: int_str_def split: if_splits dest!: nat_str_inj) (metis+)?
qed

lemma tableKey_inj: "tableKey p t = tableKey p' t' \<longleftrightarrow> p = p' \<and> t = t'"
proof
  assume "tableKey p t = tableKey p' t'"
  then have "int_str p = int_str p' \<and> int_str t = int_str t'"
    by (intro split_at_colon [of _ "CHR '':''"] int_str_no_colon) (simp add: tableKey_def)
  then show "p = p' \<and> t = t'"
    by (simp add: int_str_inj)
qed simp

text \<open>The table a handle names, if the page has that many.\<close>

definition handle_names :: "'x gmodel \<Rightarrow> table_handle \<Rightarrow> block_addr \<Rightarrow> bool" where
  "handle_names m h a \<longleftrightarrow> (\<exists>b. block_at m a = Some b \<and> tableBody b \<noteq> None)
     \<and> th_pageNumber h = flat_page m a \<and> th_tableIndexOnPage h = table_rank m a"

lemma handle_names_unique: "handle_names m h a \<Longrightarrow> handle_names m h a' \<Longrightarrow> a = a'"
  unfolding handle_names_def by (metis handle_inj)

lemma get_fold_first:
  "map_get (fold (\<lambda>t m. let key = f t in if map_has m key then m else AList.update key (g t) m) ts m) k =
    (case map_get m k of Some v \<Rightarrow> Some v | None \<Rightarrow> map_option g (find (\<lambda>t. f t = k) ts))"
  unfolding Let_def
proof (induction ts arbitrary: m)
  case Nil
  then show ?case by (simp split: option.split)
next
  case (Cons t ts)
  have "map_has m (f t) \<longleftrightarrow> (\<exists>v. map_get m (f t) = Some v)"
    by (auto simp: map_has_def)
  then show ?case
    by (cases "map_has m (f t)") (auto simp: Cons.IH js_simps split: option.split)
qed

lemma tables_by_key_iff:
  "map_get (tables_by_key m) (tableKey (th_pageNumber h) (th_tableIndexOnPage h)) = Some a \<longleftrightarrow> handle_names m h a"
proof -
  let ?P = "\<lambda>t. tableKey (ti_pageNumber t) (ti_tableIndexOnPage t)
    = tableKey (th_pageNumber h) (th_tableIndexOnPage h)"
  have lookup: "map_get (tables_by_key m) (tableKey (th_pageNumber h) (th_tableIndexOnPage h))
      = map_option ti_addr (find ?P (listTablesInModel m))"
    by (simp add: tables_by_key_def get_fold_first [where f = "\<lambda>t. tableKey (ti_pageNumber t) (ti_tableIndexOnPage t)"])
  have names: "handle_names m h (ti_addr t)" if "t \<in> set (listTablesInModel m)" "?P t" for t
    using that by (auto simp: in_listTables table_info_of_def tableKey_inj handle_names_def)
  have there: "\<exists>t\<in>set (listTablesInModel m). ?P t" if "handle_names m h a'" for a'
  proof -
    obtain b body where b: "block_at m a' = Some b" "tableBody b = Some body"
      using \<open>handle_names m h a'\<close> by (auto simp: handle_names_def)
    have "table_info_of (flat_page m a') (table_rank m a') a' b body \<in> set (listTablesInModel m)"
      unfolding in_listTables using b by blast
    then show ?thesis
      by (rule rev_bexI) (use that in \<open>auto simp: table_info_of_def handle_names_def split: prod.split\<close>)
  qed
  show ?thesis
  proof (cases "find ?P (listTablesInModel m)")
    case None
    then show ?thesis
      using there None [unfolded find_none_iff] unfolding lookup None by blast
  next
    case (Some t)
    then have "handle_names m h (ti_addr t)"
      using names find_Some_in [OF Some] by simp
    then show ?thesis
      using handle_names_unique unfolding lookup Some option.map option.inject by blast
  qed
qed

lemma op_addr_tableEditToOp [simp]: "op_addr (tableEditToOp e a) = a"
  by (cases e) simp_all

lemma table_step_eq:
  "table_step (tables_by_key m) e (un, ops) =
    (un @ filter (\<lambda>e. \<forall>a. \<not> handle_names m (te_handle e) a) [e],
     ops @ (case map_get (tables_by_key m)
         (tableKey (th_pageNumber (te_handle e)) (th_tableIndexOnPage (te_handle e))) of
       None \<Rightarrow> [] | Some a \<Rightarrow> [tableEditToOp e a]))"
  using tables_by_key_iff [of m "te_handle e"]
  by (cases "map_get (tables_by_key m) (tableKey (th_pageNumber (te_handle e)) (th_tableIndexOnPage (te_handle e)))")
    (auto simp: table_step_def simp del: split_paired_All split_paired_Ex)

lemma table_step_fold:
  "fold (table_step (tables_by_key m)) es (un, ops) =
    (un @ filter (\<lambda>e. \<forall>a. \<not> handle_names m (te_handle e) a) es,
     ops @ concat (map (\<lambda>e. case map_get (tables_by_key m)
         (tableKey (th_pageNumber (te_handle e)) (th_tableIndexOnPage (te_handle e))) of
       None \<Rightarrow> [] | Some a \<Rightarrow> [tableEditToOp e a]) es))"
  by (induction es arbitrary: un ops) (simp_all add: table_step_eq)

lemma table_batch_eq:
  "table_batch m es = (filter (\<lambda>e. \<forall>a. \<not> handle_names m (te_handle e) a) es,
     concat (map (\<lambda>e. case map_get (tables_by_key m)
         (tableKey (th_pageNumber (te_handle e)) (th_tableIndexOnPage (te_handle e))) of
       None \<Rightarrow> [] | Some a \<Rightarrow> [tableEditToOp e a]) es))"
  by (simp add: table_batch_def table_step_fold)

text \<open>Every edit of a table batch either names the Nth table of a page of the flattened sequence,
  and then its operation addresses exactly the block that table is, or names none and is returned
  unresolved; a handle names at most one table, every table has one, and the order of the edits is
  kept, one operation each.\<close>

lemma table_batch_correct:
  assumes batch: "table_batch m es = (un, ops)"
  shows "un = filter (\<lambda>e. \<forall>a. \<not> handle_names m (te_handle e) a) es
    \<and> list_all2 (\<lambda>e op. handle_names m (te_handle e) (op_addr op) \<and> op = tableEditToOp e (op_addr op))
        (filter (\<lambda>e. \<exists>a. handle_names m (te_handle e) a) es) ops
    \<and> (\<forall>h a a'. handle_names m h a \<longrightarrow> handle_names m h a' \<longrightarrow> a = a')
    \<and> (\<forall>a b. block_at m a = Some b \<and> tableBody b \<noteq> None \<longrightarrow>
         (\<exists>t\<in>set (listTablesInModel m). ti_addr t = a
            \<and> handle_names m \<lparr>th_pageNumber = ti_pageNumber t, th_tableIndexOnPage = ti_tableIndexOnPage t\<rparr> a))"
proof (intro conjI)
  show "un = filter (\<lambda>e. \<forall>a. \<not> handle_names m (te_handle e) a) es"
    using batch by (simp add: table_batch_eq)
  let ?get = "\<lambda>e. map_get (tables_by_key m) (tableKey (th_pageNumber (te_handle e)) (th_tableIndexOnPage (te_handle e)))"
  have ops: "ops = concat (map (\<lambda>e. case ?get e of None \<Rightarrow> [] | Some a \<Rightarrow> [tableEditToOp e a]) es)"
    using batch by (simp add: table_batch_eq)
  have "list_all2 (\<lambda>e op. handle_names m (te_handle e) (op_addr op) \<and> op = tableEditToOp e (op_addr op))
      (filter (\<lambda>e. \<exists>a. handle_names m (te_handle e) a) es)
      (concat (map (\<lambda>e. case ?get e of None \<Rightarrow> [] | Some a \<Rightarrow> [tableEditToOp e a]) es))"
  proof (induction es)
    case (Cons e es)
    show ?case
    proof (cases "?get e")
      case None
      then have "\<not> (\<exists>a. handle_names m (te_handle e) a)"
        using tables_by_key_iff [of m "te_handle e"] by simp
      then show ?thesis
        using Cons.IH None by simp
    next
      case (Some a)
      then have "handle_names m (te_handle e) a"
        using tables_by_key_iff [of m "te_handle e"] by simp
      then show ?thesis
        using Cons.IH Some by (auto simp del: split_paired_All split_paired_Ex)
    qed
  qed simp
  then show "list_all2 (\<lambda>e op. handle_names m (te_handle e) (op_addr op) \<and> op = tableEditToOp e (op_addr op))
      (filter (\<lambda>e. \<exists>a. handle_names m (te_handle e) a) es) ops"
    by (simp only: ops)
  show "\<forall>h a a'. handle_names m h a \<longrightarrow> handle_names m h a' \<longrightarrow> a = a'"
    using handle_names_unique by blast
  show "\<forall>a b. block_at m a = Some b \<and> tableBody b \<noteq> None \<longrightarrow>
      (\<exists>t\<in>set (listTablesInModel m). ti_addr t = a
        \<and> handle_names m \<lparr>th_pageNumber = ti_pageNumber t, th_tableIndexOnPage = ti_tableIndexOnPage t\<rparr> a)"
  proof (intro allI impI)
    fix a b assume "block_at m a = Some b \<and> tableBody b \<noteq> None"
    then obtain body where b: "block_at m a = Some b" "tableBody b = Some body" by auto
    let ?t = "table_info_of (flat_page m a) (table_rank m a) a b body"
    have "?t \<in> set (listTablesInModel m)"
      unfolding in_listTables using b by blast
    moreover have "ti_addr ?t = a \<and> handle_names m \<lparr>th_pageNumber = ti_pageNumber ?t,
        th_tableIndexOnPage = ti_tableIndexOnPage ?t\<rparr> a"
      using b by (simp add: handle_names_def table_info_of_def split: prod.split)
    ultimately show "\<exists>t\<in>set (listTablesInModel m). ti_addr t = a
        \<and> handle_names m \<lparr>th_pageNumber = ti_pageNumber t, th_tableIndexOnPage = ti_tableIndexOnPage t\<rparr> a"
      by blast
  qed
qed

lemma table_batch_correct_witness:
  "table_batch [[[]], [[None, Some ops_table, Some (Gblock None Other_kind), Some ops_table]]]
     [Te_deleteRow \<lparr>th_pageNumber = 2, th_tableIndexOnPage = 1\<rparr> 0,
      Te_setRowHeight \<lparr>th_pageNumber = 1, th_tableIndexOnPage = 0\<rparr> 0 7]
   = ([Te_setRowHeight \<lparr>th_pageNumber = 1, th_tableIndexOnPage = 0\<rparr> 0 7], [DeleteTableRow (1, 0, 3) 0])
   \<and> (\<exists>t\<in>set (listTablesInModel [[[]], [[None, Some ops_table, Some (Gblock None Other_kind), Some ops_table]]]).
        ti_addr t = (1, 0, 3))"
proof -
  let ?m = "[[[]], [[None, Some ops_table, Some (Gblock None Other_kind), Some ops_table]]]"
  have r: "table_batch ?m
     [Te_deleteRow \<lparr>th_pageNumber = 2, th_tableIndexOnPage = 1\<rparr> 0,
      Te_setRowHeight \<lparr>th_pageNumber = 1, th_tableIndexOnPage = 0\<rparr> 0 7]
   = ([Te_setRowHeight \<lparr>th_pageNumber = 1, th_tableIndexOnPage = 0\<rparr> 0 7], [DeleteTableRow (1, 0, 3) 0])"
    by code_simp
  have "block_at ?m (1, 0, 3) = Some ops_table \<and> tableBody ops_table \<noteq> None"
    by (simp add: block_at_def ops_table_def tableBody_def)
  then show ?thesis
    using table_batch_correct [OF r] r by blast
qed

end
