(* ===== verification/Table_Edit.thy ===== *)
theory Table_Edit
  imports Model_Ops Coordinates
begin

text \<open>
  Table editing in the editor: \<open>apps/web/.../editor/lib/table-edit.ts\<close> (from a toolbar action to
  the engine's positional edit, and from a clicked run to its cell), the handlers of
  \<open>editor/[id]/page.tsx\<close> up to the edit they send, the actions of the style menu and the overlay
  geometry of \<open>table-edit-overlay.tsx\<close>. The edit then goes through \<open>Model_Ops.table_batch\<close>.
\<close>

section \<open>From an action to an edit\<close>

datatype table_edit_action =
    InsertRowAbove | InsertRowBelow | InsertColumnLeft | InsertColumnRight | DeleteRow | DeleteColumn

record active_cell =
  ac_row :: int
  ac_col :: int

record table_edit_target =
  tt_handle :: table_handle
  tt_rowCount :: int
  tt_colCount :: int
  tt_activeCell :: "active_cell option"

definition actionToTableEdit :: "table_edit_target \<Rightarrow> table_edit_action \<Rightarrow> 'x table_edit option" where
  "actionToTableEdit target action =
     (let row = map_option ac_row (tt_activeCell target);
          col = map_option ac_col (tt_activeCell target);
          base = tt_handle target in
      case action of
        InsertRowAbove \<Rightarrow> Some (Te_insertRow base (case row of None \<Rightarrow> 0 | Some r \<Rightarrow> r))
      | InsertRowBelow \<Rightarrow>
          Some (Te_insertRow base (case row of Some r \<Rightarrow> r + 1 | None \<Rightarrow> max 0 (tt_rowCount target)))
      | InsertColumnLeft \<Rightarrow> Some (Te_insertColumn base (case col of None \<Rightarrow> 0 | Some c \<Rightarrow> c))
      | InsertColumnRight \<Rightarrow>
          Some (Te_insertColumn base (case col of Some c \<Rightarrow> c + 1 | None \<Rightarrow> max 0 (tt_colCount target)))
      | DeleteRow \<Rightarrow> (if tt_rowCount target \<le> 1 then None
          else Some (Te_deleteRow base (case row of None \<Rightarrow> tt_rowCount target - 1 | Some r \<Rightarrow> r)))
      | DeleteColumn \<Rightarrow> (if tt_colCount target \<le> 1 then None
          else Some (Te_deleteColumn base (case col of None \<Rightarrow> tt_colCount target - 1 | Some c \<Rightarrow> c))))"

datatype 'x table_style_action =
    Ts_cellShading int int "'x option"
  | Ts_rowHeight int jsnum
  | Ts_colWidth int jsnum
  | Ts_tableBorder 'x
  | Ts_cellSpan int int int int

fun styleActionToTableEdit :: "table_handle \<Rightarrow> 'x table_style_action \<Rightarrow> 'x table_edit" where
  "styleActionToTableEdit base (Ts_cellShading row col color) = Te_setCellShading base row col color"
| "styleActionToTableEdit base (Ts_rowHeight row height) = Te_setRowHeight base row height"
| "styleActionToTableEdit base (Ts_colWidth col width) = Te_setColWidth base col width"
| "styleActionToTableEdit base (Ts_tableBorder border) = Te_setTableBorder base border"
| "styleActionToTableEdit base (Ts_cellSpan row col colSpan rowSpan) = Te_setCellSpan base row col colSpan rowSpan"

section \<open>From a run to its cell\<close>

record cell_location =
  cl_tableIndexOnPage :: int
  cl_row :: int
  cl_col :: int

definition cell_entries :: "'x table_info list \<Rightarrow> (int \<times> cell_location) list" where
  "cell_entries tables = concat (map (\<lambda>table. concat (map (\<lambda>cell. map (\<lambda>sourceIndex. (sourceIndex,
     \<lparr>cl_tableIndexOnPage = ti_tableIndexOnPage table, cl_row = int (tc_row cell), cl_col = tc_col cell\<rparr>))
     (tc_sourceIndices cell)) (ti_cells table))) tables)"

definition buildSourceIndexToCellMap :: "'x table_info list \<Rightarrow> (int, cell_location) jsmap" where
  "buildSourceIndexToCellMap tables =
     fold (\<lambda>(sourceIndex, loc) m. if map_has m sourceIndex then m else AList.update sourceIndex loc m)
       (cell_entries tables) []"

section \<open>The handlers\<close>

definition currentPageTables :: "int \<Rightarrow> 'x table_info list \<Rightarrow> 'x table_info list" where
  "currentPageTables effectivePageIndex documentTables =
     filter (\<lambda>t. ti_pageNumber t = effectivePageIndex + 1) documentTables"

text \<open>The selected elements as pairs of a type and a run index.\<close>

definition activeTableCell ::
  "bool \<Rightarrow> (string \<times> int option) list \<Rightarrow> (int, cell_location) jsmap \<Rightarrow> cell_location option" where
  "activeTableCell showTableEdit selectedElements sourceIndexToCell =
     (if \<not> showTableEdit then None
      else case selectedElements of
        [(ty, idx)] \<Rightarrow>
          (if ty \<noteq> ''text'' then None
           else case idx of None \<Rightarrow> None
            | Some i \<Rightarrow> if i < 0 then None else map_get sourceIndexToCell i)
      | _ \<Rightarrow> None)"

definition cell_of :: "cell_location \<Rightarrow> active_cell" where
  "cell_of loc = \<lparr>ac_row = cl_row loc, ac_col = cl_col loc\<rparr>"

definition handleTableEditAction ::
  "bool \<Rightarrow> int \<Rightarrow> 'x table_info list \<Rightarrow> cell_location option \<Rightarrow> int \<Rightarrow> table_edit_action
    \<Rightarrow> 'x table_edit option" where
  "handleTableEditAction tableEditBusy effectivePageIndex documentTables active tableIndexOnPage action =
     (if tableEditBusy then None
      else let pageNumber = effectivePageIndex + 1 in
        case find (\<lambda>t. ti_pageNumber t = pageNumber \<and> ti_tableIndexOnPage t = tableIndexOnPage) documentTables of
          None \<Rightarrow> None
        | Some target \<Rightarrow>
            (let activeCell = (case active of
                   Some loc \<Rightarrow> if cl_tableIndexOnPage loc = tableIndexOnPage then Some (cell_of loc) else None
                 | None \<Rightarrow> None)
             in actionToTableEdit
                 \<lparr>tt_handle = \<lparr>th_pageNumber = pageNumber, th_tableIndexOnPage = tableIndexOnPage\<rparr>,
                  tt_rowCount = ti_rowCount target, tt_colCount = ti_colCount target,
                  tt_activeCell = activeCell\<rparr> action))"

text \<open>The style handler does not look at the table the active cell belongs to.\<close>

definition handleTableStyleAction ::
  "bool \<Rightarrow> int \<Rightarrow> int \<Rightarrow> 'x table_style_action \<Rightarrow> 'x table_edit option" where
  "handleTableStyleAction tableEditBusy effectivePageIndex tableIndexOnPage action =
     (if tableEditBusy then None
      else Some (styleActionToTableEdit
        \<lparr>th_pageNumber = effectivePageIndex + 1, th_tableIndexOnPage = tableIndexOnPage\<rparr> action))"

text \<open>What the style menu fires for the active cell it is given.\<close>

definition fireCellShading :: "active_cell option \<Rightarrow> 'x option \<Rightarrow> 'x table_style_action option" where
  "fireCellShading activeCell color =
     map_option (\<lambda>c. Ts_cellShading (ac_row c) (ac_col c) color) activeCell"

definition fireMergeCells :: "active_cell option \<Rightarrow> int \<Rightarrow> 'x table_style_action option" where
  "fireMergeCells activeCell colCount = (case activeCell of None \<Rightarrow> None
     | Some c \<Rightarrow> if ac_col c < colCount - 1 then Some (Ts_cellSpan (ac_row c) (ac_col c) 2 1) else None)"

section \<open>The overlay\<close>

definition frameToScreenRect ::
  "bounds option \<Rightarrow> jsnum \<Rightarrow> jsnum \<Rightarrow> page_rotation \<Rightarrow> jsnum \<Rightarrow> bounds option" where
  "frameToScreenRect frame pageWidthPts pageHeightPts rotation zoom = (case frame of None \<Rightarrow> None
     | Some f \<Rightarrow>
        (let (left, top) =
           (if rotation = R90 \<or> rotation = R270 then (b_x f, pageWidthPts - b_y f - b_height f)
            else if rotation = R180 then (pageHeightPts - b_x f - b_width f, b_y f)
            else (b_x f, pageHeightPts - b_y f - b_height f))
         in Some \<lparr>b_x = left * zoom, b_y = top * zoom, b_width = b_width f * zoom, b_height = b_height f * zoom\<rparr>))"

definition TOOLBAR_HEIGHT :: jsnum where
  "TOOLBAR_HEIGHT = 36"

definition toolbarTop :: "bounds \<Rightarrow> jsnum" where
  "toolbarTop rect = (if b_y rect < TOOLBAR_HEIGHT + 8 then b_y rect + b_height rect + 6
     else b_y rect - TOOLBAR_HEIGHT - 6)"

text \<open>The overlay is the inverse of the conversion an edit goes through, for every rotation.\<close>

lemma overlay_round_trip:
  assumes "zoom \<noteq> 0" "frameToScreenRect (Some f) W H rot zoom = Some r"
  shows "(let s = scaleRect r (1 / zoom) in webToPdf (b_x s) (b_y s) (b_width s) (b_height s) H (Some W) (Some rot)) = f"
  using assms by (auto simp: frameToScreenRect_def webToPdf_def scaleRect_def Let_def split: if_splits)

lemma toolbar_beside_table:
  assumes "0 \<le> b_height r" "0 \<le> b_y r"
  shows "0 \<le> toolbarTop r \<and> (toolbarTop r + TOOLBAR_HEIGHT \<le> b_y r \<or> b_y r + b_height r \<le> toolbarTop r)"
  using assms by (auto simp: toolbarTop_def TOOLBAR_HEIGHT_def)

section \<open>Lemmas\<close>

lemma get_fold_entries:
  "map_get (fold (\<lambda>(i, l) m. if map_has m i then m else AList.update i l m) es m) idx =
    (case map_get m idx of Some l \<Rightarrow> Some l | None \<Rightarrow> map_of es idx)"
proof (induction es arbitrary: m)
  case Nil
  then show ?case by (simp split: option.split)
next
  case (Cons e es)
  obtain i l where e: "e = (i, l)" by (cases e)
  have "map_has m i \<longleftrightarrow> (\<exists>v. map_get m i = Some v)"
    by (auto simp: map_has_def)
  then show ?case
    by (cases "map_has m i") (auto simp: e Cons.IH js_simps split: option.split)
qed

lemma cell_map_entry:
  assumes "map_get (buildSourceIndexToCellMap tables) idx = Some loc"
  shows "\<exists>t\<in>set tables. \<exists>c\<in>set (ti_cells t). idx \<in> set (tc_sourceIndices c)
    \<and> loc = \<lparr>cl_tableIndexOnPage = ti_tableIndexOnPage t, cl_row = int (tc_row c), cl_col = tc_col c\<rparr>"
proof -
  have "(idx, loc) \<in> set (cell_entries tables)"
    using assms by (auto simp: buildSourceIndexToCellMap_def get_fold_entries dest: map_of_SomeD)
  then show ?thesis
    by (auto simp: cell_entries_def)
qed

text \<open>What a location on a page stands for.\<close>

definition cell_at ::
  "'x gmodel \<Rightarrow> int \<Rightarrow> cell_location \<Rightarrow> block_addr \<Rightarrow> 'x gcell list \<Rightarrow> nat \<Rightarrow> bool" where
  "cell_at m pageIndex loc a cells j \<longleftrightarrow> (\<exists>b rows ws r. block_at m a = Some b \<and> tableBody b = Some (rows, ws)
     \<and> flat_page m a = pageIndex + 1 \<and> table_rank m a = cl_tableIndexOnPage loc
     \<and> r < length rows \<and> cl_row loc = int r \<and> rows ! r = Some cells \<and> j < length cells
     \<and> cl_col loc = row_width (take j cells)
     \<and> row_width (take (Suc j) cells) \<le> tableColCount rows ws)"

lemma clicked_cell:
  assumes "activeTableCell True [(''text'', Some idx)]
      (buildSourceIndexToCellMap (currentPageTables pageIndex (listTablesInModel m))) = Some loc"
  shows "\<exists>a cells j. cell_at m pageIndex loc a cells j \<and> idx \<in> set (cellSourceIndices (gc_blocks (cells ! j)))"
proof -
  have "map_get (buildSourceIndexToCellMap (currentPageTables pageIndex (listTablesInModel m))) idx = Some loc"
    using assms by (auto simp: activeTableCell_def split: if_splits)
  from cell_map_entry [OF this] obtain t c where t: "t \<in> set (listTablesInModel m)" "ti_pageNumber t = pageIndex + 1"
    and c: "c \<in> set (ti_cells t)" "idx \<in> set (tc_sourceIndices c)"
    and loc: "loc = \<lparr>cl_tableIndexOnPage = ti_tableIndexOnPage t, cl_row = int (tc_row c), cl_col = tc_col c\<rparr>"
    by (auto simp: currentPageTables_def)
  obtain a b rows ws where b: "block_at m a = Some b" "tableBody b = Some (rows, ws)"
    and ti: "t = table_info_of (flat_page m a) (table_rank m a) a b (rows, ws)"
    using t(1) unfolding in_listTables by (metis surj_pair)
  obtain r cells j where r: "r < length rows" "rows ! r = Some cells" "j < length cells" "c = row_cells r 0 cells ! j"
    using c(1) by (auto simp: ti table_info_of_def in_tableCells)
  have "row_width (take (Suc j) cells) \<le> row_width cells"
    using r by (simp add: row_width_take)
  also have "\<dots> \<le> tableColCount rows ws"
    using tableColCount_bound r nth_mem by metis
  finally have "cell_at m pageIndex loc a cells j"
    unfolding cell_at_def
    using b r t(2) by (intro exI [of _ b] exI [of _ rows] exI [of _ ws] exI [of _ r])
      (simp add: loc ti table_info_of_def row_cells_nth)
  moreover have "idx \<in> set (cellSourceIndices (gc_blocks (cells ! j)))"
    using c(2) r by (simp add: row_cells_nth)
  ultimately show ?thesis by blast
qed

lemma row_width_length:
  "int (length cells) \<le> row_width cells
   \<and> (row_width cells = int (length cells) \<longleftrightarrow> (\<forall>c\<in>set cells. span_of (gc_col_span c) = 1))"
proof (induction cells)
  case (Cons c cells)
  then show ?case
    using span_of_pos [of "gc_col_span c"] by (auto simp: row_width_sum)
qed (simp add: row_width_sum)

lemma cell_at_handle:
  assumes "cell_at m pageIndex loc a cells j"
  shows "handle_names m \<lparr>th_pageNumber = pageIndex + 1, th_tableIndexOnPage = cl_tableIndexOnPage loc\<rparr> a"
  using assms by (auto simp: cell_at_def handle_names_def)

lemma batch_of_one:
  assumes "handle_names m (te_handle e) a"
  shows "table_batch m [e] = ([], [tableEditToOp e a])"
  using assms tables_by_key_iff [of m "te_handle e" a] by (auto simp: table_batch_eq simp del: split_paired_All split_paired_Ex)

text \<open>Shading (or merging) the cell whose text is selected sends one operation, to the block the
  cell's table is, at the cell's row; its column is the grid column of the cell, while the engine's
  operation counts the cells of the row: the two agree exactly when no earlier cell of the row spans
  several columns. After a merged cell the operation names a later cell, or none.\<close>

lemma shading_targets_cell:
  assumes "activeTableCell True [(''text'', Some idx)]
      (buildSourceIndexToCellMap (currentPageTables pageIndex (listTablesInModel m))) = Some loc"
    and "fireCellShading (Some (cell_of loc)) color = Some act"
    and "handleTableStyleAction False pageIndex (cl_tableIndexOnPage loc) act = Some edit"
  shows "\<exists>a cells j. cell_at m pageIndex loc a cells j \<and> idx \<in> set (cellSourceIndices (gc_blocks (cells ! j)))
    \<and> table_batch m [edit] = ([], [SetCellShading a (cl_row loc) (cl_col loc) color])
    \<and> int j \<le> cl_col loc
    \<and> (cl_col loc = int j \<longleftrightarrow> (\<forall>i<j. span_of (gc_col_span (cells ! i)) = 1))"
proof -
  obtain a cells j where c: "cell_at m pageIndex loc a cells j" "idx \<in> set (cellSourceIndices (gc_blocks (cells ! j)))"
    using clicked_cell [OF assms(1)] by blast
  have edit: "edit = Te_setCellShading \<lparr>th_pageNumber = pageIndex + 1,
      th_tableIndexOnPage = cl_tableIndexOnPage loc\<rparr> (cl_row loc) (cl_col loc) color"
    using assms(2,3) by (auto simp: fireCellShading_def handleTableStyleAction_def cell_of_def)
  have batch: "table_batch m [edit] = ([], [SetCellShading a (cl_row loc) (cl_col loc) color])"
    using batch_of_one [of m edit a] cell_at_handle [OF c(1)] by (simp add: edit)
  have col: "cl_col loc = row_width (take j cells)" "j < length cells"
    using c(1) by (auto simp: cell_at_def)
  have "(\<forall>c\<in>set (take j cells). span_of (gc_col_span c) = 1) \<longleftrightarrow> (\<forall>i<j. span_of (gc_col_span (cells ! i)) = 1)"
    using col(2) by (simp add: all_set_conv_all_nth)
  then have "int j \<le> cl_col loc" "cl_col loc = int j \<longleftrightarrow> (\<forall>i<j. span_of (gc_col_span (cells ! i)) = 1)"
    using row_width_length [of "take j cells"] col by simp_all
  then show ?thesis
    using c batch by blast
qed

text \<open>The second cell of the first row, after a cell that spans two columns: the operation names
  index 2 of a row of two cells.\<close>

lemma shading_targets_cell_witness:
  "\<exists>a cells j. cell_at [[[Some ops_table]]] 0 \<lparr>cl_tableIndexOnPage = 0, cl_row = 0, cl_col = 2\<rparr> a cells j
    \<and> table_batch [[[Some ops_table]]]
        [Te_setCellShading \<lparr>th_pageNumber = 1, th_tableIndexOnPage = 0\<rparr> 0 2 (Some ''red'')]
        = ([], [SetCellShading a 0 2 (Some ''red'')])
    \<and> int j \<noteq> 2"
proof -
  let ?loc = "\<lparr>cl_tableIndexOnPage = 0, cl_row = 0, cl_col = 2\<rparr>"
  have a: "activeTableCell True [(''text'', Some 2)]
      (buildSourceIndexToCellMap (currentPageTables 0 (listTablesInModel [[[Some ops_table]]]))) = Some ?loc"
    by code_simp
  have f: "fireCellShading (Some (cell_of ?loc)) (Some ''red'') = Some (Ts_cellShading 0 2 (Some ''red''))"
    by (simp add: fireCellShading_def cell_of_def)
  have h: "handleTableStyleAction False 0 (cl_tableIndexOnPage ?loc) (Ts_cellShading 0 2 (Some ''red''))
      = Some (Te_setCellShading \<lparr>th_pageNumber = 1, th_tableIndexOnPage = 0\<rparr> 0 2 (Some ''red''))"
    by (simp add: handleTableStyleAction_def)
  obtain a cells j where c: "cell_at [[[Some ops_table]]] 0 ?loc a cells j"
    "2 \<in> set (cellSourceIndices (gc_blocks (cells ! j)))"
    "table_batch [[[Some ops_table]]]
        [Te_setCellShading \<lparr>th_pageNumber = 1, th_tableIndexOnPage = 0\<rparr> 0 2 (Some ''red'')]
        = ([], [SetCellShading a 0 2 (Some ''red'')])"
    "cl_col ?loc = int j \<longleftrightarrow> (\<forall>i<j. span_of (gc_col_span (cells ! i)) = 1)"
    using shading_targets_cell [OF a f h] by (elim exE conjE) (rule that, simp_all)
  obtain b rows ws where b: "block_at [[[Some ops_table]]] a = Some b" "tableBody b = Some (rows, ws)"
    "rows ! 0 = Some cells" "j < length cells"
    using c(1) by (auto simp: cell_at_def)
  have "b = ops_table"
    using b(1) by (cases a) (auto simp: block_at_def split: if_splits)
  then have "j < 2"
    using b(2-4) by (auto simp: ops_table_def tableBody_def)
  then show ?thesis
    using c by (intro exI [of _ a] exI [of _ cells] exI [of _ j]) auto
qed

text \<open>The position an edit carries, against the table it edits.\<close>

fun edit_in_range :: "'x table_info \<Rightarrow> 'x table_edit \<Rightarrow> bool" where
  "edit_in_range t (Te_insertRow h p) = (0 \<le> p \<and> p \<le> ti_rowCount t)"
| "edit_in_range t (Te_deleteRow h p) = (0 \<le> p \<and> p < ti_rowCount t \<and> 1 < ti_rowCount t)"
| "edit_in_range t (Te_insertColumn h p) = (0 \<le> p \<and> p \<le> ti_colCount t)"
| "edit_in_range t (Te_deleteColumn h p) = (0 \<le> p \<and> p < ti_colCount t \<and> 1 < ti_colCount t)"
| "edit_in_range t e = False"

lemma action_in_range:
  assumes "actionToTableEdit target action = Some e"
    and "0 \<le> tt_rowCount target" "0 \<le> tt_colCount target"
    and "ti_rowCount t = tt_rowCount target" "ti_colCount t = tt_colCount target"
    and "case tt_activeCell target of None \<Rightarrow> True | Some c \<Rightarrow> 0 \<le> ac_row c \<and> ac_row c < tt_rowCount target
        \<and> 0 \<le> ac_col c \<and> ac_col c < tt_colCount target"
  shows "edit_in_range t e \<and> te_handle e = tt_handle target"
  using assms by (cases action) (auto simp: actionToTableEdit_def Let_def split: option.splits if_splits)

text \<open>Whatever is selected, an insert or delete action on a table the editor lists carries a
  position inside the table as listed (an insert at most at the end, a delete at an existing row or
  column, never the last one), and becomes exactly one operation, addressed to that table's block.\<close>

lemma table_action_in_range:
  assumes "handleTableEditAction busy pageIndex (listTablesInModel m)
      (activeTableCell showing selected
        (buildSourceIndexToCellMap (currentPageTables pageIndex (listTablesInModel m))))
      tableIndex action = Some e"
  shows "\<exists>t\<in>set (listTablesInModel m). ti_pageNumber t = pageIndex + 1 \<and> ti_tableIndexOnPage t = tableIndex
    \<and> edit_in_range t e \<and> table_batch m [e] = ([], [tableEditToOp e (ti_addr t)])"
proof -
  let ?active = "activeTableCell showing selected
        (buildSourceIndexToCellMap (currentPageTables pageIndex (listTablesInModel m)))"
  let ?ac = "case ?active of
      Some loc \<Rightarrow> if cl_tableIndexOnPage loc = tableIndex then Some (cell_of loc) else None | None \<Rightarrow> None"
  define ac where "ac = ?ac"
  obtain t where f: "find (\<lambda>t. ti_pageNumber t = pageIndex + 1 \<and> ti_tableIndexOnPage t = tableIndex)
      (listTablesInModel m) = Some t"
    and e: "actionToTableEdit \<lparr>tt_handle = \<lparr>th_pageNumber = pageIndex + 1, th_tableIndexOnPage = tableIndex\<rparr>,
        tt_rowCount = ti_rowCount t, tt_colCount = ti_colCount t, tt_activeCell = ac\<rparr> action = Some e"
    using assms by (auto simp: ac_def handleTableEditAction_def Let_def split: if_splits option.splits)
  have t: "t \<in> set (listTablesInModel m)" "ti_pageNumber t = pageIndex + 1" "ti_tableIndexOnPage t = tableIndex"
    using find_Some_in [OF f] by auto
  then obtain a b rows ws where b: "block_at m a = Some b" "tableBody b = Some (rows, ws)"
    and ti: "t = table_info_of (flat_page m a) (table_rank m a) a b (rows, ws)"
    unfolding in_listTables by (metis surj_pair)
  have range: "case ac of None \<Rightarrow> True | Some c \<Rightarrow> 0 \<le> ac_row c \<and> ac_row c < ti_rowCount t
      \<and> 0 \<le> ac_col c \<and> ac_col c < ti_colCount t"
  proof (cases ac)
    case (Some c)
    then obtain loc where loc: "?active = Some loc" "cl_tableIndexOnPage loc = tableIndex" "c = cell_of loc"
      by (auto simp: ac_def split: option.splits if_splits)
    then obtain idx where "showing" "selected = [(''text'', Some idx)]"
      by (auto simp: activeTableCell_def split: if_splits list.splits option.splits)
    then obtain a' cells j where c: "cell_at m pageIndex loc a' cells j"
      using clicked_cell [of idx pageIndex m loc] loc(1) by auto
    obtain b' rows' ws' r where b': "block_at m a' = Some b'" "tableBody b' = Some (rows', ws')"
      "flat_page m a' = pageIndex + 1" "table_rank m a' = tableIndex" "r < length rows'" "cl_row loc = int r"
      "j < length cells" "cl_col loc = row_width (take j cells)" "row_width (take (Suc j) cells) \<le> tableColCount rows' ws'"
      using c loc(2) unfolding cell_at_def by blast
    have "a' = a"
      using handle_inj [OF b'(1) _ b(1)] b b' t ti by (simp add: table_info_of_def)
    then have "rows' = rows" "ws' = ws"
      using b b' by auto
    then show ?thesis
      using b' Some loc(3) span_of_pos [of "gc_col_span (cells ! j)"]
      by (simp add: ti table_info_of_def cell_of_def row_width_nonneg row_width_take_Suc)
  qed simp
  have counts: "0 \<le> ti_rowCount t" "0 \<le> ti_colCount t"
    using tableColCount_bound [of ws rows, THEN conjunct1] by (auto simp: ti table_info_of_def)
  have r: "edit_in_range t e \<and> te_handle e = \<lparr>th_pageNumber = pageIndex + 1, th_tableIndexOnPage = tableIndex\<rparr>"
    using action_in_range [OF e, of t] range counts by (cases ac) simp_all
  have "handle_names m (te_handle e) (ti_addr t)"
    using r b t ti by (simp add: handle_names_def table_info_of_def)
  then show ?thesis
    using t r batch_of_one by blast
qed

lemma table_action_in_range_witness:
  "\<exists>t\<in>set (listTablesInModel [[[Some ops_table]]]). edit_in_range t
      (Te_insertColumn \<lparr>th_pageNumber = 1, th_tableIndexOnPage = 0\<rparr> 3)
    \<and> table_batch [[[Some ops_table]]] [Te_insertColumn \<lparr>th_pageNumber = 1, th_tableIndexOnPage = 0\<rparr> 3]
        = ([], [InsertTableColumn (ti_addr t) 3])"
proof -
  have "handleTableEditAction False 0 (listTablesInModel [[[Some ops_table]]])
      (activeTableCell True [(''text'', Some 2)]
        (buildSourceIndexToCellMap (currentPageTables 0 (listTablesInModel [[[Some ops_table]]]))))
      0 InsertColumnRight = Some (Te_insertColumn \<lparr>th_pageNumber = 1, th_tableIndexOnPage = 0\<rparr> 3)"
    by code_simp
  from table_action_in_range [OF this] show ?thesis by auto
qed

text \<open>A cell of the first table stays active while the user selects another table by its frame:
  the style action then names that other table with the position of the cell of the first.\<close>

lemma style_action_other_table:
  assumes "fireCellShading (Some (cell_of loc)) color = Some act"
    and "handleTableStyleAction False pageIndex other act = Some edit" and "other \<noteq> cl_tableIndexOnPage loc"
  shows "th_tableIndexOnPage (te_handle edit) \<noteq> cl_tableIndexOnPage loc
    \<and> edit = Te_setCellShading (te_handle edit) (cl_row loc) (cl_col loc) color"
  using assms by (auto simp: fireCellShading_def handleTableStyleAction_def cell_of_def)

end
