(* ===== verification/Text_Runs.thy ===== *)
theory Text_Runs
  imports Elements Js_Strings
begin

text \<open>
  \<open>apps/web/.../editor/lib/text-runs.ts\<close>: the flat style runs of a text element against the
  canvas library's per-character styles, a map from the line to a map from the position in the
  line. A string is a list of UTF-16 code units here. A missing field is \<open>None\<close>; the two objects
  of styles have integer keys, which are visited in any order: the results do not depend on it.
\<close>

type_synonym units = "nat list"

definition units :: "string \<Rightarrow> units" where
  "units s = map code_unit s"

text \<open>White space of the regular expressions and of \<open>trimStart\<close>.\<close>

definition js_ws :: "nat \<Rightarrow> bool" where
  "js_ws c \<longleftrightarrow> c \<in> {9, 10, 11, 12, 13, 32, 160, 5760, 8232, 8233, 8239, 8287, 12288, 65279} \<or> (8192 \<le> c \<and> c \<le> 8202)"

section \<open>Styles\<close>

record partial_style =
  ps_fontWeight :: "font_weight option"
  ps_fontStyle :: "font_slant option"
  ps_underline :: "bool option"
  ps_strikethrough :: "bool option"
  ps_color :: "string option"
  ps_fontSize :: "jsnum option"
  ps_fontFamily :: "string option"

text \<open>The canvas may hold a weight as a word, a numeral or a number.\<close>

datatype fabric_weight = Weight_text string | Weight_number jsnum

record fabric_char =
  fc_fontWeight :: "fabric_weight option"
  fc_fontStyle :: "string option"
  fc_underline :: "bool option"
  fc_linethrough :: "bool option"
  fc_fill :: "string option"
  fc_fontSize :: "jsnum option"
  fc_fontFamily :: "string option"

record style_run =
  sr_start :: int
  sr_end :: int
  sr_style :: partial_style

type_synonym line_styles = "(int, fabric_char) jsmap"
type_synonym fabric_styles = "(int, line_styles) jsmap"

definition no_style :: partial_style where
  "no_style = \<lparr>ps_fontWeight = None, ps_fontStyle = None, ps_underline = None, ps_strikethrough = None,
     ps_color = None, ps_fontSize = None, ps_fontFamily = None\<rparr>"

definition no_char :: fabric_char where
  "no_char = \<lparr>fc_fontWeight = None, fc_fontStyle = None, fc_underline = None, fc_linethrough = None,
     fc_fill = None, fc_fontSize = None, fc_fontFamily = None\<rparr>"

definition hasCharStyle :: "partial_style \<Rightarrow> bool" where
  "hasCharStyle s \<longleftrightarrow> ps_fontWeight s \<noteq> None \<or> ps_fontStyle s \<noteq> None \<or> ps_underline s \<noteq> None
     \<or> ps_strikethrough s \<noteq> None \<or> ps_color s \<noteq> None \<or> ps_fontSize s \<noteq> None \<or> ps_fontFamily s \<noteq> None"

fun weight_word :: "font_weight \<Rightarrow> string" where
  "weight_word Normal_Weight = ''normal''"
| "weight_word Bold_Weight = ''bold''"

fun slant_word :: "font_slant \<Rightarrow> string" where
  "slant_word Normal_Slant = ''normal''"
| "slant_word Italic_Slant = ''italic''"

definition modelStyleToFabricChar :: "partial_style \<Rightarrow> fabric_char" where
  "modelStyleToFabricChar s =
     \<lparr>fc_fontWeight = map_option (\<lambda>w. Weight_text (weight_word w)) (ps_fontWeight s),
      fc_fontStyle = map_option slant_word (ps_fontStyle s), fc_underline = ps_underline s,
      fc_linethrough = ps_strikethrough s, fc_fill = ps_color s, fc_fontSize = ps_fontSize s,
      fc_fontFamily = ps_fontFamily s\<rparr>"

fun isBold :: "fabric_weight \<Rightarrow> bool" where
  "isBold (Weight_text w) = (w = ''bold'' \<or> w = ''bolder''
     \<or> (w \<noteq> [] \<and> list_all (is_digit 10) w \<and> digits_value 10 w \<ge> 600))"
| "isBold (Weight_number n) = (n \<ge> 600)"

definition fabricCharToModelStyle :: "fabric_char \<Rightarrow> partial_style" where
  "fabricCharToModelStyle c =
     \<lparr>ps_fontWeight = map_option (\<lambda>w. if isBold w then Bold_Weight else Normal_Weight) (fc_fontWeight c),
      ps_fontStyle = map_option (\<lambda>s. if s = ''italic'' then Italic_Slant else Normal_Slant) (fc_fontStyle c),
      ps_underline = fc_underline c, ps_strikethrough = fc_linethrough c, ps_color = fc_fill c,
      ps_fontSize = fc_fontSize c, ps_fontFamily = fc_fontFamily c\<rparr>"

text \<open>\<open>JSON.stringify\<close> tells the seven values apart, so the key is their tuple.\<close>

definition charStyleKey :: "partial_style \<Rightarrow> _" where
  "charStyleKey s = (ps_fontWeight s, ps_fontStyle s, ps_underline s, ps_strikethrough s, ps_color s,
     ps_fontSize s, ps_fontFamily s)"

text \<open>\<open>{ ...a, ...b }\<close> on optional fields, of both kinds of style.\<close>

definition over :: "'a option \<Rightarrow> 'a option \<Rightarrow> 'a option" where
  "over a b = (case b of None \<Rightarrow> a | Some v \<Rightarrow> Some v)"

definition spread_char :: "fabric_char \<Rightarrow> fabric_char \<Rightarrow> fabric_char" where
  "spread_char a b =
     \<lparr>fc_fontWeight = over (fc_fontWeight a) (fc_fontWeight b), fc_fontStyle = over (fc_fontStyle a) (fc_fontStyle b),
      fc_underline = over (fc_underline a) (fc_underline b), fc_linethrough = over (fc_linethrough a) (fc_linethrough b),
      fc_fill = over (fc_fill a) (fc_fill b), fc_fontSize = over (fc_fontSize a) (fc_fontSize b),
      fc_fontFamily = over (fc_fontFamily a) (fc_fontFamily b)\<rparr>"

definition spread_style :: "partial_style \<Rightarrow> partial_style \<Rightarrow> partial_style" where
  "spread_style a b =
     \<lparr>ps_fontWeight = over (ps_fontWeight a) (ps_fontWeight b), ps_fontStyle = over (ps_fontStyle a) (ps_fontStyle b),
      ps_underline = over (ps_underline a) (ps_underline b), ps_strikethrough = over (ps_strikethrough a) (ps_strikethrough b),
      ps_color = over (ps_color a) (ps_color b), ps_fontSize = over (ps_fontSize a) (ps_fontSize b),
      ps_fontFamily = over (ps_fontFamily a) (ps_fontFamily b)\<rparr>"

lemma style_round_trip: "fabricCharToModelStyle (modelStyleToFabricChar s) = s"
proof -
  have "(if isBold (Weight_text (weight_word w)) then Bold_Weight else Normal_Weight) = w" for w
    by (cases w) (simp_all add: is_digit_def digit_val_def code_unit_def)
  moreover have "(if slant_word v = ''italic'' then Italic_Slant else Normal_Slant) = v" for v
    by (cases v) simp_all
  ultimately show ?thesis
    by (cases s) (simp add: fabricCharToModelStyle_def modelStyleToFabricChar_def option.map_comp comp_def option.map_ident)
qed

lemma spread_to_model:
  "fabricCharToModelStyle (spread_char a b) = spread_style (fabricCharToModelStyle a) (fabricCharToModelStyle b)"
  by (simp add: fabricCharToModelStyle_def spread_char_def spread_style_def over_def split: option.split)

lemma spread_no_style [simp]: "spread_style no_style s = s" "spread_style s no_style = s"
  by (simp_all add: spread_style_def no_style_def over_def split: option.split)

lemma hasCharStyle_no: "hasCharStyle s \<longleftrightarrow> s \<noteq> no_style"
  by (cases s) (auto simp: hasCharStyle_def no_style_def)

lemma spread_has: "hasCharStyle b \<Longrightarrow> hasCharStyle (spread_style a b)"
  by (auto simp: hasCharStyle_def spread_style_def over_def)

lemma charStyleKey_eq [simp]: "charStyleKey a = charStyleKey b \<longleftrightarrow> a = b"
  by (cases a; cases b) (simp add: charStyleKey_def)

section \<open>Lines\<close>

text \<open>\<open>content.split('\n').map(l => l.length)\<close>\<close>

fun split_lines :: "units \<Rightarrow> units list" where
  "split_lines [] = [[]]"
| "split_lines (x # xs) = (if x = 10 then [] # split_lines xs
     else case split_lines xs of [] \<Rightarrow> [[x]] | l # ls \<Rightarrow> (x # l) # ls)"

definition lineLengths :: "units \<Rightarrow> nat list" where
  "lineLengths content = map length (split_lines content)"

text \<open>The flat index of a position in a line.\<close>

definition flat_index :: "nat list \<Rightarrow> nat \<Rightarrow> nat \<Rightarrow> nat" where
  "flat_index lens l c = sum_list (map Suc (take l lens)) + c"

lemma flat_index_simps [simp]:
  "flat_index lens 0 c = c" "flat_index (len # lens) (Suc k) c = Suc (len + flat_index lens k c)"
  by (simp_all add: flat_index_def)

definition is_text :: "units \<Rightarrow> nat \<Rightarrow> bool" where
  "is_text content i \<longleftrightarrow> i < length content \<and> content ! i \<noteq> 10"

lemma split_lines_ne: "split_lines xs \<noteq> []"
  by (induction xs) (auto split: list.split)

lemma lineLengths_simps:
  "lineLengths [] = [0]" "lineLengths (10 # xs) = 0 # lineLengths xs"
  "x \<noteq> 10 \<Longrightarrow> lineLengths (x # xs) = Suc (hd (lineLengths xs)) # tl (lineLengths xs)"
  using split_lines_ne [of xs] by (auto simp: lineLengths_def split: list.split)

lemma lineLengths_ne: "lineLengths xs \<noteq> []"
  by (simp add: lineLengths_def split_lines_ne)

text \<open>The positions of the lines are exactly the characters that are not newlines.\<close>

lemma ex_less_Suc_split: "(\<exists>l<Suc n. P l) \<longleftrightarrow> P 0 \<or> (\<exists>l<n. P (Suc l))"
  using less_Suc_eq_0_disj by auto

lemma flat_index_text:
  "(\<exists>l<length (lineLengths xs). \<exists>c<lineLengths xs ! l. i = flat_index (lineLengths xs) l c) \<longleftrightarrow> is_text xs i"
proof (induction xs arbitrary: i)
  case Nil
  then show ?case by (simp add: lineLengths_simps is_text_def)
next
  case (Cons x xs)
  show ?case
  proof (cases "x = 10")
    case True
    have "(\<exists>l<length (lineLengths (x # xs)). \<exists>c<lineLengths (x # xs) ! l. i = flat_index (lineLengths (x # xs)) l c)
      \<longleftrightarrow> (\<exists>l<length (lineLengths xs). \<exists>c<lineLengths xs ! l. i = Suc (flat_index (lineLengths xs) l c))"
      by (simp add: True lineLengths_simps ex_less_Suc_split)
    also have "\<dots> \<longleftrightarrow> (\<exists>j. i = Suc j \<and> is_text xs j)"
      using Cons.IH by blast
    also have "\<dots> \<longleftrightarrow> is_text (x # xs) i"
      by (cases i) (simp_all add: is_text_def True)
    finally show ?thesis .
  next
    case False
    obtain n ns where ls: "lineLengths xs = n # ns"
      using lineLengths_ne [of xs] by (cases "lineLengths xs") auto
    have "(\<exists>l<length (lineLengths (x # xs)). \<exists>c<lineLengths (x # xs) ! l. i = flat_index (lineLengths (x # xs)) l c)
      \<longleftrightarrow> i = 0 \<or> (\<exists>l<length (lineLengths xs). \<exists>c<lineLengths xs ! l. i = Suc (flat_index (lineLengths xs) l c))"
      by (simp add: False lineLengths_simps ls ex_less_Suc_split)
    also have "\<dots> \<longleftrightarrow> i = 0 \<or> (\<exists>j. i = Suc j \<and> is_text xs j)"
      using Cons.IH by blast
    also have "\<dots> \<longleftrightarrow> is_text (x # xs) i"
      using False by (cases i) (simp_all add: is_text_def)
    finally show ?thesis .
  qed
qed

lemma flat_index_mono:
  assumes "l < l'" "l' < length lens" "c < lens ! l"
  shows "flat_index lens l c < flat_index lens l' c'"
proof -
  have "sum_list (map Suc (take (Suc l) lens)) \<le> sum_list (map Suc (take l' lens))"
    using assms(1) by (metis Suc_leI le_add1 le_Suc_ex map_append sum_list_append take_add)
  then show ?thesis
    using assms by (simp add: flat_index_def take_Suc_conv_app_nth)
qed

lemma flat_index_inj:
  assumes "flat_index lens l c = flat_index lens l' c'" "l < length lens" "l' < length lens"
    "c < lens ! l" "c' < lens ! l'"
  shows "l = l' \<and> c = c'"
proof (cases l l' rule: linorder_cases)
  case less
  then show ?thesis
    using flat_index_mono [of l l' lens c c'] assms by simp
next
  case greater
  then show ?thesis
    using flat_index_mono [of l' l lens c' c] assms by simp
qed (use assms in \<open>simp add: flat_index_def\<close>)

section \<open>From runs to the canvas\<close>

text \<open>The loop over the lines for one run; it stops once the run has ended.\<close>

definition scatter_line ::
  "fabric_char \<Rightarrow> int \<Rightarrow> int \<Rightarrow> int \<Rightarrow> int \<Rightarrow> fabric_styles \<Rightarrow> fabric_styles" where
  "scatter_line fabricStyle from to lineStart line m =
     (if from < to then
        AList.update line
          (fold (\<lambda>i lineMap. AList.update (i - lineStart)
              (spread_char (case map_get lineMap (i - lineStart) of None \<Rightarrow> no_char | Some old \<Rightarrow> old) fabricStyle)
              lineMap)
            [from..to - 1] (case map_get m line of None \<Rightarrow> [] | Some lineMap \<Rightarrow> lineMap)) m
      else m)"

fun scatter_run ::
  "fabric_char \<Rightarrow> int \<Rightarrow> int \<Rightarrow> nat list \<Rightarrow> int \<Rightarrow> int \<Rightarrow> fabric_styles \<Rightarrow> fabric_styles" where
  "scatter_run fabricStyle first stop [] line flat m = m"
| "scatter_run fabricStyle first stop (len # lens) line flat m =
     (let lineStart = flat; lineEnd = flat + int len;
          from = max first lineStart; to = min stop lineEnd;
          m = scatter_line fabricStyle from to lineStart line m;
          flat = lineEnd + 1
      in if flat > stop then m else scatter_run fabricStyle first stop lens (line + 1) flat m)"

definition run_step :: "nat list \<Rightarrow> style_run \<Rightarrow> fabric_styles \<Rightarrow> fabric_styles" where
  "run_step lens run m =
     (if \<not> hasCharStyle (sr_style run) then m
      else let first = max 0 (sr_start run); stop = max first (sr_end run)
           in scatter_run (modelStyleToFabricChar (sr_style run)) first stop lens 0 0 m)"

definition runsToFabricStyles :: "units \<Rightarrow> style_run list option \<Rightarrow> fabric_styles" where
  "runsToFabricStyles content runs = (case runs of None \<Rightarrow> []
     | Some rs \<Rightarrow> if rs = [] then [] else fold (run_step (lineLengths content)) rs [])"

section \<open>From the canvas to runs\<close>

definition line_entries :: "nat \<Rightarrow> int \<Rightarrow> line_styles \<Rightarrow> (int, partial_style) jsmap \<Rightarrow> (int, partial_style) jsmap" where
  "line_entries len flat lineMap flatStyles = fold (\<lambda>(charIndex, fabricStyle) m.
     if charIndex < 0 \<or> charIndex \<ge> int len then m
     else let modelStyle = fabricCharToModelStyle fabricStyle in
       if hasCharStyle modelStyle then AList.update (flat + charIndex) modelStyle m else m) lineMap flatStyles"

fun flatten_styles ::
  "nat list \<Rightarrow> int \<Rightarrow> int \<Rightarrow> fabric_styles \<Rightarrow> (int, partial_style) jsmap \<Rightarrow> (int, partial_style) jsmap" where
  "flatten_styles [] line flat styles flatStyles = flatStyles"
| "flatten_styles (len # lens) line flat styles flatStyles =
     flatten_styles lens (line + 1) (flat + int len + 1) styles
       (case map_get styles line of None \<Rightarrow> flatStyles | Some lineMap \<Rightarrow> line_entries len flat lineMap flatStyles)"

fun coalesce :: "int \<Rightarrow> int \<Rightarrow> partial_style \<Rightarrow> (int \<times> partial_style) list \<Rightarrow> style_run list" where
  "coalesce runStart prevIndex prevStyle [] =
     [\<lparr>sr_start = runStart, sr_end = prevIndex + 1, sr_style = prevStyle\<rparr>]"
| "coalesce runStart prevIndex prevStyle ((idx, style) # rest) =
     (if idx = prevIndex + 1 \<and> charStyleKey style = charStyleKey prevStyle
      then coalesce runStart idx prevStyle rest
      else \<lparr>sr_start = runStart, sr_end = prevIndex + 1, sr_style = prevStyle\<rparr> # coalesce idx idx style rest)"

definition fabricStylesToRuns :: "units \<Rightarrow> fabric_styles option \<Rightarrow> style_run list option" where
  "fabricStylesToRuns content styles = (case styles of None \<Rightarrow> None
     | Some st \<Rightarrow>
        (let flatStyles = flatten_styles (lineLengths content) 0 0 st [] in
         if flatStyles = [] then None
         else let sorted = map (\<lambda>i. (i, the (map_get flatStyles i))) (sort (map fst flatStyles))
              in case sorted of [] \<Rightarrow> None
                 | (i, style) # rest \<Rightarrow> Some (coalesce i i style rest)))"

section \<open>What the runs mean\<close>

text \<open>The style of a character: the runs that cover it, one over the other.\<close>

definition covers :: "style_run \<Rightarrow> int \<Rightarrow> bool" where
  "covers r i \<longleftrightarrow> sr_start r \<le> i \<and> i < sr_end r"

definition style_at :: "style_run list \<Rightarrow> int \<Rightarrow> partial_style" where
  "style_at runs i = fold (\<lambda>r s. if covers r i then spread_style s (sr_style r) else s) runs no_style"

definition runs_of :: "style_run list option \<Rightarrow> style_run list" where
  "runs_of runs = (case runs of None \<Rightarrow> [] | Some rs \<Rightarrow> rs)"

definition char_at :: "fabric_styles \<Rightarrow> int \<Rightarrow> int \<Rightarrow> fabric_char option" where
  "char_at m line c = Option.bind (map_get m line) (\<lambda>lm. map_get lm c)"

definition char_or_none :: "fabric_styles \<Rightarrow> int \<Rightarrow> int \<Rightarrow> fabric_char" where
  "char_or_none m line c = (case char_at m line c of None \<Rightarrow> no_char | Some s \<Rightarrow> s)"

text \<open>Well-formed style objects have distinct keys.\<close>

definition wf_styles :: "fabric_styles \<Rightarrow> bool" where
  "wf_styles m \<longleftrightarrow> wf_map m \<and> (\<forall>(line, lm)\<in>set m. wf_map lm)"

lemma no_char_model [simp]: "fabricCharToModelStyle no_char = no_style"
  by (simp add: fabricCharToModelStyle_def no_char_def no_style_def)

lemma get_scatter_fold:
  fixes ls :: int
  shows "map_get (fold (\<lambda>i lm. AList.update (i - ls)
      (spread_char (case map_get lm (i - ls) of None \<Rightarrow> no_char | Some old \<Rightarrow> old) st) lm) is lm) c =
   (if distinct is then
      (if c + ls \<in> set is then Some (spread_char (case map_get lm c of None \<Rightarrow> no_char | Some old \<Rightarrow> old) st)
       else map_get lm c)
    else map_get (fold (\<lambda>i lm. AList.update (i - ls)
      (spread_char (case map_get lm (i - ls) of None \<Rightarrow> no_char | Some old \<Rightarrow> old) st) lm) is lm) c)"
  by (induction "is" arbitrary: lm) (auto simp: js_simps)

lemma char_at_scatter_line:
  "char_at (scatter_line st from to ls line m) l c =
    (if l = line \<and> from \<le> c + ls \<and> c + ls < to then Some (spread_char (char_or_none m l c) st) else char_at m l c)"
  by (auto simp: scatter_line_def char_at_def char_or_none_def js_simps get_scatter_fold split: option.split)

lemma char_at_scatter_run:
  assumes "0 \<le> c" "first \<le> stop"
  shows "char_at (scatter_run st first stop lens line flat m) l c =
    (if line \<le> l \<and> nat (l - line) < length lens \<and> c < int (lens ! nat (l - line))
        \<and> first \<le> flat + int (flat_index lens (nat (l - line)) (nat c))
        \<and> flat + int (flat_index lens (nat (l - line)) (nat c)) < stop
     then Some (spread_char (char_or_none m l c) st) else char_at m l c)"
proof (induction lens arbitrary: line flat m)
  case Nil
  then show ?case by simp
next
  case (Cons len lens)
  define m' where "m' = scatter_line st (max first flat) (min stop (flat + int len)) flat line m"
  have here: "char_at m' l' c =
    (if l' = line \<and> c < int len \<and> first \<le> flat + c \<and> flat + c < stop
     then Some (spread_char (char_or_none m l' c) st) else char_at m l' c)" for l'
    using assms by (auto simp: char_at_scatter_line m'_def)
  have run: "scatter_run st first stop (len # lens) line flat m =
    (if flat + int len + 1 > stop then m' else scatter_run st first stop lens (line + 1) (flat + int len + 1) m')"
    by (simp add: Let_def m'_def)
  show ?case
  proof (cases "l \<le> line")
    case True
    then have "nat (l - line) = 0" by simp
    then show ?thesis
      unfolding run using True assms by (auto simp: here Cons.IH)
  next
    case False
    define k where "k = nat (l - (line + 1))"
    have k: "nat (l - line) = Suc k"
      using False by (simp add: k_def)
    have keep: "char_or_none m' l c = char_or_none m l c" "char_at m' l c = char_at m l c"
      using False by (auto simp: here char_or_none_def)
    have idx: "flat + int (flat_index (len # lens) (Suc k) (nat c)) = flat + int len + 1 + int (flat_index lens k (nat c))"
      by simp
    show ?thesis
    proof (cases "flat + int len + 1 > stop")
      case True
      then have "\<not> flat + int (flat_index (len # lens) (Suc k) (nat c)) < stop"
        unfolding idx by linarith
      then show ?thesis
        unfolding run k using True False by (simp add: keep)
    next
      case False2: False
      show ?thesis
        unfolding run k idx using False False2
        by (simp add: Cons.IH keep k_def [symmetric])
    qed
  qed
qed

section \<open>Reading the canvas back\<close>

abbreviation model_at :: "fabric_styles \<Rightarrow> int \<Rightarrow> int \<Rightarrow> partial_style" where
  "model_at m line c \<equiv> fabricCharToModelStyle (char_or_none m line c)"

lemma model_at_run_step:
  assumes "l < length lens" "c < lens ! l"
  shows "model_at (run_step lens r m) (int l) (int c) =
    (if covers r (int (flat_index lens l c)) then spread_style (model_at m (int l) (int c)) (sr_style r)
     else model_at m (int l) (int c))"
proof (cases "hasCharStyle (sr_style r)")
  case True
  have "char_at (run_step lens r m) (int l) (int c) =
    (if covers r (int (flat_index lens l c))
     then Some (spread_char (char_or_none m (int l) (int c)) (modelStyleToFabricChar (sr_style r)))
     else char_at m (int l) (int c))"
    using assms True by (auto simp: run_step_def Let_def char_at_scatter_run covers_def)
  then show ?thesis
    by (auto simp: char_or_none_def spread_to_model style_round_trip)
next
  case False
  then show ?thesis
    by (simp add: run_step_def hasCharStyle_no)
qed

lemma model_at_runs:
  assumes "l < length lens" "c < lens ! l"
  shows "model_at (fold (run_step lens) rs m) (int l) (int c) =
    fold (\<lambda>r s. if covers r (int (flat_index lens l c)) then spread_style s (sr_style r) else s) rs
      (model_at m (int l) (int c))"
  by (induction rs arbitrary: m) (simp_all add: model_at_run_step [OF assms])

lemma model_at_runsToFabric:
  assumes "l < length (lineLengths content)" "c < lineLengths content ! l"
  shows "model_at (runsToFabricStyles content runs) (int l) (int c) =
    style_at (runs_of runs) (int (flat_index (lineLengths content) l c))"
proof -
  have "model_at [] (int l) (int c) = no_style"
    by (simp add: char_or_none_def char_at_def)
  then show ?thesis
    using model_at_runs [OF assms]
    by (cases runs) (simp_all add: runsToFabricStyles_def runs_of_def style_at_def)
qed

lemma wf_map_fold_update: "wf_map lm \<Longrightarrow> wf_map (fold (\<lambda>i lm. AList.update (f i) (g i lm) lm) is lm)"
  by (induction "is" arbitrary: lm) (simp_all add: js_simps)

lemma wf_styles_line:
  assumes "wf_styles m" "map_get m line = Some lm"
  shows "wf_map lm"
  using assms by (auto simp: wf_styles_def dest!: map_of_SomeD)

lemma set_update: "set (AList.update k v m) \<subseteq> insert (k, v) (set m)"
  by (induction m) auto

lemma wf_styles_update:
  assumes "wf_styles m" "wf_map lm"
  shows "wf_styles (AList.update line lm m)"
  using assms set_update [of line lm m] by (auto simp: wf_styles_def js_simps)

lemma wf_scatter_line: "wf_styles m \<Longrightarrow> wf_styles (scatter_line st from to ls line m)"
  by (auto simp: scatter_line_def intro!: wf_styles_update wf_map_fold_update
      dest: wf_styles_line split: option.split)

lemma wf_scatter_run: "wf_styles m \<Longrightarrow> wf_styles (scatter_run st first stop lens line flat m)"
  by (induction lens arbitrary: line flat m) (auto simp: Let_def wf_scatter_line)

lemma wf_run_step: "wf_styles m \<Longrightarrow> wf_styles (run_step lens r m)"
  by (simp add: run_step_def Let_def wf_scatter_run)

lemma wf_runsToFabricStyles: "wf_styles (runsToFabricStyles content runs)"
proof -
  have "wf_styles m \<Longrightarrow> wf_styles (fold (run_step lens) rs m)" for lens rs m
    by (induction rs arbitrary: m) (simp_all add: wf_run_step)
  moreover have "wf_styles []"
    by (simp add: wf_styles_def)
  ultimately show ?thesis
    by (simp add: runsToFabricStyles_def split: option.split)
qed

text \<open>Flattening: the style of every position of the lines that has one, at its flat index.\<close>

lemma get_line_entries:
  assumes "wf_map lm"
  shows "map_get (line_entries len flat lm acc) i =
    (let c = i - flat; s = fabricCharToModelStyle (case map_get lm c of None \<Rightarrow> no_char | Some s \<Rightarrow> s) in
     if 0 \<le> c \<and> c < int len \<and> hasCharStyle s then Some s else map_get acc i)"
  using assms unfolding line_entries_def
proof (induction lm arbitrary: acc)
  case Nil
  then show ?case by (simp add: Let_def hasCharStyle_no)
next
  case (Cons e lm)
  obtain k fs where e: "e = (k, fs)" by (cases e)
  have wf: "wf_map lm" and k: "map_get lm k = None"
    using Cons.prems by (auto simp: e wf_map_def map_of_eq_None_iff)
  show ?case
    using k by (auto simp: e Cons.IH [OF wf] Let_def js_simps hasCharStyle_no)
qed

lemma get_flatten_other:
  assumes "wf_styles st" "i < flat"
  shows "map_get (flatten_styles lens line flat st acc) i = map_get acc i"
  using assms
proof (induction lens arbitrary: line flat acc)
  case (Cons len lens)
  then show ?case
    by (auto simp: get_line_entries [OF wf_styles_line] Let_def split: option.split)
qed simp

lemma get_flatten:
  assumes "wf_styles st" "l < length lens" "c < lens ! l"
  shows "map_get (flatten_styles lens line flat st acc) (flat + int (flat_index lens l c)) =
    (let s = model_at st (line + int l) (int c) in
     if hasCharStyle s then Some s else map_get acc (flat + int (flat_index lens l c)))"
  using assms(2,3)
proof (induction lens arbitrary: line flat acc l)
  case (Cons len lens)
  let ?acc = "case map_get st line of None \<Rightarrow> acc | Some lm \<Rightarrow> line_entries len flat lm acc"
  show ?case
  proof (cases l)
    case 0
    have "map_get ?acc (flat + int c) = (let s = model_at st line (int c) in
        if hasCharStyle s then Some s else map_get acc (flat + int c))"
      using Cons.prems 0 assms(1)
      by (auto simp: get_line_entries [OF wf_styles_line [OF assms(1)]] Let_def char_or_none_def char_at_def
          hasCharStyle_no split: option.split)
    then show ?thesis
      using Cons.prems unfolding 0 by (simp add: get_flatten_other [OF assms(1)] Let_def)
  next
    case (Suc k)
    have idx: "flat + int (flat_index (len # lens) (Suc k) c) = flat + int len + 1 + int (flat_index lens k c)"
      by simp
    have "map_get ?acc (flat + int len + 1 + int (flat_index lens k c))
        = map_get acc (flat + int len + 1 + int (flat_index lens k c))"
      by (auto simp: get_line_entries [OF wf_styles_line [OF assms(1)]] Let_def split: option.split)
    then show ?thesis
      unfolding Suc idx using Cons.prems Suc
        Cons.IH [where l = k and line = "line + 1" and flat = "flat + int len + 1" and acc = ?acc]
      by (simp add: Let_def add.assoc)
  qed
qed simp

lemma get_flatten_outside:
  assumes "wf_styles st" "\<And>l c. l < length lens \<Longrightarrow> c < lens ! l \<Longrightarrow> i \<noteq> flat + int (flat_index lens l c)"
  shows "map_get (flatten_styles lens line flat st acc) i = map_get acc i"
  using assms(2)
proof (induction lens arbitrary: line flat acc)
  case (Cons len lens)
  let ?acc = "case map_get st line of None \<Rightarrow> acc | Some lm \<Rightarrow> line_entries len flat lm acc"
  have "i \<noteq> flat + int c" if "c < len" for c
    using Cons.prems [of 0 c] that by simp
  then have "\<not> (0 \<le> i - flat \<and> i - flat < int len)"
    by (metis add_diff_cancel_left' add.commute diff_add_cancel int_nat_eq nat_less_iff of_nat_0_le_iff zle_int
        of_nat_less_iff nat_0_le)
  then have "map_get ?acc i = map_get acc i"
    by (auto simp: get_line_entries [OF wf_styles_line [OF assms(1)]] Let_def split: option.split)
  moreover have "map_get (flatten_styles lens (line + 1) (flat + int len + 1) st ?acc) i = map_get ?acc i"
  proof (rule Cons.IH)
    fix l c assume "l < length lens" "c < lens ! l"
    then show "i \<noteq> flat + int len + 1 + int (flat_index lens l c)"
      using Cons.prems [of "Suc l" c] by (simp add: algebra_simps)
  qed
  ultimately show ?case by simp
qed simp

lemma wf_line_entries: "wf_map acc \<Longrightarrow> wf_map (line_entries len flat lm acc)"
  unfolding line_entries_def by (induction lm arbitrary: acc) (auto simp: js_simps Let_def)

lemma wf_flatten: "wf_map acc \<Longrightarrow> wf_map (flatten_styles lens line flat st acc)"
  by (induction lens arbitrary: line flat acc) (auto simp: wf_line_entries split: option.split)

lemma flat_styles:
  assumes wf: "wf_styles st"
    and model: "\<And>l c. l < length (lineLengths content) \<Longrightarrow> c < lineLengths content ! l \<Longrightarrow>
      model_at st (int l) (int c) = g (flat_index (lineLengths content) l c)"
  shows "map_get (flatten_styles (lineLengths content) 0 0 st []) i =
    (if 0 \<le> i \<and> is_text content (nat i) \<and> g (nat i) \<noteq> no_style then Some (g (nat i)) else None)"
proof (cases "0 \<le> i \<and> is_text content (nat i)")
  case True
  then obtain l c where lc: "l < length (lineLengths content)" "c < lineLengths content ! l"
    "nat i = flat_index (lineLengths content) l c"
    using flat_index_text [where xs = content and i = "nat i"] by blast
  then have "i = 0 + int (flat_index (lineLengths content) l c)"
    using True by (metis add_0 nat_0_le)
  then show ?thesis
    using get_flatten [OF wf lc(1,2), where line = 0 and flat = 0 and acc = "[]"] True model [OF lc(1,2)] lc(3)
    by (simp add: Let_def hasCharStyle_no)
next
  case False
  then have "map_get (flatten_styles (lineLengths content) 0 0 st []) i = map_get [] i"
    using flat_index_text [where xs = content and i = "nat i"]
    by (intro get_flatten_outside wf) fastforce
  then show ?thesis
    using False by auto
qed

section \<open>Coalescing\<close>

abbreviation style_from :: "style_run list \<Rightarrow> int \<Rightarrow> partial_style \<Rightarrow> partial_style" where
  "style_from runs i s \<equiv> fold (\<lambda>r s. if covers r i then spread_style s (sr_style r) else s) runs s"

lemma coalesce_before:
  "i < runStart \<Longrightarrow> sorted_wrt (<) (runStart # map fst xs) \<Longrightarrow> style_from (coalesce runStart prev ps xs) i s = s"
proof (induction runStart prev ps xs arbitrary: s rule: coalesce.induct)
  case (2 runStart prev ps idx st rest)
  then show ?case
    by (auto simp: covers_def)
qed (simp add: covers_def)

lemma style_at_coalesce:
  assumes "sorted_wrt (<) (prev # map fst xs)" "runStart \<le> prev" "distinct (map fst xs)"
  shows "style_at (coalesce runStart prev ps xs) i =
    (if runStart \<le> i \<and> i \<le> prev then ps else case map_of xs i of Some s \<Rightarrow> s | None \<Rightarrow> no_style)"
  using assms
proof (induction runStart prev ps xs rule: coalesce.induct)
  case (1 runStart prev ps)
  then show ?case by (auto simp: style_at_def covers_def)
next
  case (2 runStart prev ps idx st rest)
  show ?case
  proof (cases "idx = prev + 1 \<and> st = ps")
    case True
    then show ?thesis
      using 2 by (auto simp: map_of_eq_None_iff split: option.split)
  next
    case False
    have tail: "style_at (coalesce idx idx st rest) i =
        (if idx \<le> i \<and> i \<le> idx then st else case map_of rest i of Some s \<Rightarrow> s | None \<Rightarrow> no_style)"
      using 2 False by simp
    show ?thesis
    proof (cases "i \<le> prev")
      case True
      have "style_from (coalesce idx idx st rest) i s = s" for s
        using 2(3) True by (intro coalesce_before) auto
      moreover have "map_of ((idx, st) # rest) i = None"
        using 2(3) True by (auto simp: map_of_eq_None_iff dest: bspec)
      ultimately show ?thesis
        using False True by (auto simp: style_at_def covers_def)
    next
      case Later: False
      then have "style_at (coalesce runStart prev ps ((idx, st) # rest)) i = style_at (coalesce idx idx st rest) i"
        using False by (auto simp: style_at_def covers_def)
      then show ?thesis
        using Later tail by auto
    qed
  qed
qed

text \<open>Runs as the serialiser writes them: not empty, styled, in order, apart or of different styles.\<close>

definition canonical :: "style_run list \<Rightarrow> bool" where
  "canonical rs \<longleftrightarrow> (\<forall>r\<in>set rs. sr_start r < sr_end r \<and> hasCharStyle (sr_style r))
     \<and> successively (\<lambda>r r'. sr_end r < sr_start r' \<or> (sr_end r = sr_start r' \<and> sr_style r \<noteq> sr_style r')) rs"

lemma coalesce_hd: "\<exists>e rest. coalesce runStart prev ps xs = \<lparr>sr_start = runStart, sr_end = e, sr_style = ps\<rparr> # rest"
  by (induction runStart prev ps xs rule: coalesce.induct) auto

lemma canonical_coalesce:
  assumes "sorted_wrt (<) (prev # map fst xs)" "runStart \<le> prev" "hasCharStyle ps"
    "\<forall>x\<in>set xs. hasCharStyle (snd x)"
  shows "canonical (coalesce runStart prev ps xs)"
  using assms
proof (induction runStart prev ps xs rule: coalesce.induct)
  case (1 runStart prev ps)
  then show ?case by (simp add: canonical_def)
next
  case (2 runStart prev ps idx st rest)
  show ?case
  proof (cases "idx = prev + 1 \<and> st = ps")
    case True
    then show ?thesis
      using 2 by simp
  next
    case False
    have "canonical (coalesce idx idx st rest)"
      using 2 False by simp
    moreover obtain e rest' where "coalesce idx idx st rest = \<lparr>sr_start = idx, sr_end = e, sr_style = st\<rparr> # rest'"
      using coalesce_hd by blast
    ultimately show ?thesis
      using 2(3-5) False by (auto simp: canonical_def)
  qed
qed

lemma runs_from_styles:
  assumes wf: "wf_styles st"
    and model: "\<And>l c. l < length (lineLengths content) \<Longrightarrow> c < lineLengths content ! l \<Longrightarrow>
      model_at st (int l) (int c) = g (flat_index (lineLengths content) l c)"
  shows "canonical (runs_of (fabricStylesToRuns content (Some st)))
   \<and> (\<forall>i. style_at (runs_of (fabricStylesToRuns content (Some st))) (int i) =
        (if is_text content i then g i else no_style))"
proof -
  let ?flat = "flatten_styles (lineLengths content) 0 0 st []"
  let ?f = "\<lambda>i. (i, the (map_get ?flat i))"
  let ?is = "sort (map fst ?flat)"
  have d: "distinct ?is"
    using wf_flatten [of "[]" "lineLengths content" 0 0] by (simp add: wf_map_def)
  have sorted: "sorted_wrt (<) ?is"
    using d sorted_sort strict_sorted_iff by blast
  have mem: "i \<in> set ?is \<longleftrightarrow> map_get ?flat i \<noteq> None" for i
    by (simp add: map_of_eq_None_iff)
  have styled: "hasCharStyle (the (map_get ?flat i))" if "i \<in> set ?is" for i
    using that mem [of i] flat_styles [OF wf model, of i] by (auto simp: hasCharStyle_no split: if_splits)
  have look: "(case map_get ?flat (int i) of Some s \<Rightarrow> s | None \<Rightarrow> no_style) =
      (if is_text content i then g i else no_style)" for i
    by (simp add: flat_styles [OF wf model])
  show ?thesis
  proof (cases ?is)
    case Nil
    then have "?flat = []"
      by (metis list.map_disc_iff set_empty set_sort)
    then show ?thesis
      using look by (auto simp: fabricStylesToRuns_def runs_of_def canonical_def style_at_def)
  next
    case (Cons j js)
    then have ne: "?flat \<noteq> []" by auto
    have rs: "runs_of (fabricStylesToRuns content (Some st))
        = coalesce j j (the (map_get ?flat j)) (map ?f js)"
      using ne by (simp add: fabricStylesToRuns_def Let_def runs_of_def Cons)
    have fst: "map fst (map ?f js) = js"
      by (simp add: comp_def)
    have mo: "map_of (map ?f js) i = (if i \<in> set js then map_get ?flat i else None)" for i
      using mem [of i] unfolding Cons by (auto simp: map_of_map_restrict restrict_map_def)
    have "canonical (coalesce j j (the (map_get ?flat j)) (map ?f js))"
      by (rule canonical_coalesce) (use sorted styled in \<open>auto simp: Cons fst comp_def\<close>)
    moreover have "style_at (coalesce j j (the (map_get ?flat j)) (map ?f js)) i =
        (case map_get ?flat i of Some s \<Rightarrow> s | None \<Rightarrow> no_style)" for i
    proof -
      have "style_at (coalesce j j (the (map_get ?flat j)) (map ?f js)) i =
        (if j \<le> i \<and> i \<le> j then the (map_get ?flat j)
         else case map_of (map ?f js) i of Some s \<Rightarrow> s | None \<Rightarrow> no_style)"
        by (rule style_at_coalesce) (use sorted d in \<open>auto simp: Cons fst comp_def\<close>)
      then show ?thesis
        using mem [of i] unfolding mo Cons by (auto split: option.split)
    qed
    ultimately show ?thesis
      by (simp add: rs look)
  qed
qed

text \<open>C37: What the canvas shows is what the serialiser writes back: the runs read from the character
  styles the runs were turned into give every character of the text the same style as the original
  runs (overlapping runs are resolved, newlines carry no style), and they are canonical: not empty,
  in order, disjoint and maximal.\<close>

theorem runs_round_trip:
  "canonical (runs_of (fabricStylesToRuns content (Some (runsToFabricStyles content runs))))
   \<and> (\<forall>i. style_at (runs_of (fabricStylesToRuns content (Some (runsToFabricStyles content runs)))) (int i) =
        (if is_text content i then style_at (runs_of runs) (int i) else no_style))"
  using wf_runsToFabricStyles model_at_runsToFabric by (rule runs_from_styles)

text \<open>Two lines, two overlapping runs and one over the newline.\<close>

lemma runs_round_trip_example:
  "let content = [97, 98, 10, 99]; bold = no_style\<lparr>ps_fontWeight := Some Bold_Weight\<rparr>;
     big = no_style\<lparr>ps_fontSize := Some 20\<rparr>;
     runs = [\<lparr>sr_start = 0, sr_end = 2, sr_style = bold\<rparr>, \<lparr>sr_start = 1, sr_end = 9, sr_style = big\<rparr>]
   in fabricStylesToRuns content (Some (runsToFabricStyles content (Some runs))) =
     Some [\<lparr>sr_start = 0, sr_end = 1, sr_style = bold\<rparr>,
           \<lparr>sr_start = 1, sr_end = 2, sr_style = bold\<lparr>ps_fontSize := Some 20\<rparr>\<rparr>,
           \<lparr>sr_start = 3, sr_end = 4, sr_style = big\<rparr>]"
  by code_simp

end
