(* ===== verification/List_Format.thy ===== *)
theory List_Format
  imports Text_Runs
begin

text \<open>
  \<open>apps/web/.../editor/lib/list-format.ts\<close>: list markers as a decoration of the displayed text.
  The marker is put before the text and the character styles of the first line move behind it;
  both are undone when the element is read back. Strings are lists of UTF-16 code units.
\<close>

section \<open>Markers\<close>

datatype list_type = Bullet_list | Number_list | Lettered_list | Roman_list

record list_style =
  li_type :: list_type
  li_level :: int

definition INDENT_STEP_PT :: jsnum where
  "INDENT_STEP_PT = 18"

definition BULLET_GLYPHS :: "units list" where
  "BULLET_GLYPHS = [[8226], [9702], [9642]]"

definition MARKER_SEPARATOR :: units where
  "MARKER_SEPARATOR = [9]"

function alpha_loop :: "nat \<Rightarrow> units \<Rightarrow> units" where
  "alpha_loop v out = (if v > 0 then alpha_loop ((v - 1) div 26) ((97 + (v - 1) mod 26) # out) else out)"
  by auto
termination by (relation "measure fst") (auto intro: le_less_trans [OF div_le_dividend])

declare alpha_loop.simps [simp del]

definition toLowerAlpha :: "nat \<Rightarrow> units" where
  "toLowerAlpha n = (let out = alpha_loop n [] in if out = [] then [97] else out)"

definition roman_table :: "(nat \<times> string) list" where
  "roman_table = [(1000, ''m''), (900, ''cm''), (500, ''d''), (400, ''cd''), (100, ''c''), (90, ''xc''),
     (50, ''l''), (40, ''xl''), (10, ''x''), (9, ''ix''), (5, ''v''), (4, ''iv''), (1, ''i'')]"

function roman_while :: "nat \<Rightarrow> units \<Rightarrow> nat \<Rightarrow> units \<Rightarrow> nat \<times> units" where
  "roman_while amount symbol v out =
     (if amount > 0 \<and> v \<ge> amount then roman_while amount symbol (v - amount) (out @ symbol) else (v, out))"
  by auto
termination by (relation "measure (\<lambda>(amount, symbol, v, out). v)") auto

declare roman_while.simps [simp del]

definition toLowerRoman :: "nat \<Rightarrow> units" where
  "toLowerRoman n = (if n = 0 then units ''i''
     else snd (fold (\<lambda>(amount, symbol) (v, out). roman_while amount (units symbol) v out) roman_table (n, [])))"

text \<open>The ordinal is a number; one that is absent, not finite (\<open>None\<close>) or not positive counts as 1.\<close>

definition ordinal_of :: "jsnum option \<Rightarrow> nat" where
  "ordinal_of ordinal = (case ordinal of Some x \<Rightarrow> if x > 0 then nat \<lfloor>x\<rfloor> else 1 | None \<Rightarrow> 1)"

definition listMarkerGlyph :: "list_style \<Rightarrow> jsnum option \<Rightarrow> units" where
  "listMarkerGlyph l ordinal =
     (let n = ordinal_of ordinal in
      case li_type l of
        Bullet_list \<Rightarrow> BULLET_GLYPHS ! (nat (max 0 (li_level l)) mod length BULLET_GLYPHS)
      | Number_list \<Rightarrow> units (nat_str 10 n) @ units ''.''
      | Lettered_list \<Rightarrow> toLowerAlpha n @ units ''.''
      | Roman_list \<Rightarrow> toLowerRoman n @ units ''.'')"

definition listMarkerPrefix :: "list_style \<Rightarrow> jsnum option \<Rightarrow> units" where
  "listMarkerPrefix l ordinal = listMarkerGlyph l ordinal @ MARKER_SEPARATOR"

definition leftIndentOffset :: "jsnum option \<Rightarrow> list_style option \<Rightarrow> jsnum" where
  "leftIndentOffset indentLeft ls =
     (let explicit = max 0 (case indentLeft of None \<Rightarrow> 0 | Some x \<Rightarrow> x);
          listLevels = (case ls of None \<Rightarrow> 0 | Some l \<Rightarrow> max 0 (li_level l) + 1)
      in explicit + of_int listLevels * INDENT_STEP_PT)"

definition composeDisplayText :: "units \<Rightarrow> list_style option \<Rightarrow> jsnum option \<Rightarrow> units \<times> nat" where
  "composeDisplayText content ls ordinal = (case ls of None \<Rightarrow> (content, 0)
     | Some l \<Rightarrow> let prefix = listMarkerPrefix l ordinal in (prefix @ content, length prefix))"

definition starts_with :: "units \<Rightarrow> units \<Rightarrow> bool" where
  "starts_with s prefix \<longleftrightarrow> take (length prefix) s = prefix"

definition stripDisplayText :: "units \<Rightarrow> list_style option \<Rightarrow> jsnum option \<Rightarrow> units \<times> nat" where
  "stripDisplayText display ls ordinal = (case ls of None \<Rightarrow> (display, 0)
     | Some l \<Rightarrow> let prefix = listMarkerPrefix l ordinal in
         if starts_with display prefix then (drop (length prefix) display, length prefix) else (display, 0))"

section \<open>Styles behind the marker\<close>

definition shift_line :: "int \<Rightarrow> int \<Rightarrow> line_styles \<Rightarrow> line_styles" where
  "shift_line prefixLen line lineMap =
     fold (\<lambda>(ch, style) m. AList.update (if line = 0 then ch + prefixLen else ch) style m) lineMap []"

definition shiftStylesForMarker :: "fabric_styles \<Rightarrow> int \<Rightarrow> fabric_styles" where
  "shiftStylesForMarker styles prefixLen = (if prefixLen \<le> 0 then styles
     else fold (\<lambda>(line, lineMap) out. AList.update line (shift_line prefixLen line lineMap) out) styles [])"

definition unshift_line :: "int \<Rightarrow> int \<Rightarrow> line_styles \<Rightarrow> line_styles" where
  "unshift_line prefixLen line lineMap = fold (\<lambda>(ch, style) m.
     if line = 0 then
       (let target = ch - prefixLen in if target < 0 then m else AList.update target style m)
     else AList.update ch style m) lineMap []"

definition unshiftStylesForMarker :: "fabric_styles \<Rightarrow> int \<Rightarrow> fabric_styles" where
  "unshiftStylesForMarker styles prefixLen = (if prefixLen \<le> 0 then styles
     else fold (\<lambda>(line, lineMap) out.
       let shifted = unshift_line prefixLen line lineMap in
       if shifted \<noteq> [] then AList.update line shifted out else out) styles [])"

section \<open>Lemmas\<close>

text \<open>Moving right and back leaves every character of a position from zero on as it was.\<close>

lemma get_shift_line:
  assumes "wf_map lm"
  shows "map_get (shift_line n line lm) c = map_get lm (if line = 0 then c - n else c)"
proof -
  have "map_get (fold (\<lambda>(ch, style) m. AList.update (if line = 0 then ch + n else ch) style m) lm acc) c =
    (case map_get lm (if line = 0 then c - n else c) of Some s \<Rightarrow> Some s | None \<Rightarrow> map_get acc c)" for acc
    using assms unfolding Let_def
  proof (induction lm arbitrary: acc)
    case Nil
    then show ?case by simp
  next
    case (Cons e lm)
    obtain k v where e: "e = (k, v)" by (cases e)
    have wf: "wf_map lm" and k: "map_get lm k = None"
      using Cons.prems by (auto simp: e wf_map_def map_of_eq_None_iff)
    show ?case
      unfolding e fold.simps comp_apply prod.case Cons.IH [OF wf]
      using k by (auto simp: js_simps split: option.split)
  qed
  then show ?thesis
    unfolding shift_line_def by (auto split: option.split)
qed

lemma wf_fold_update: "wf_map acc \<Longrightarrow> wf_map (fold (\<lambda>(k, v) m. AList.update (f k) (g k v) m) es acc)"
  by (induction es arbitrary: acc) (auto simp: js_simps)

lemma wf_shift_line: "wf_map (shift_line n line lm)"
  unfolding shift_line_def
  by (rule wf_fold_update [where g = "\<lambda>_ v. v" and f = "\<lambda>ch. if line = 0 then ch + n else ch"]) simp

lemma get_shift:
  assumes "wf_styles st" "0 < n"
  shows "map_get (shiftStylesForMarker st n) l = map_option (shift_line n l) (map_get st l)"
proof -
  have "map_get (fold (\<lambda>(line, lm) out. AList.update line (shift_line n line lm) out) st acc) l =
    (case map_get st l of Some lm \<Rightarrow> Some (shift_line n l lm) | None \<Rightarrow> map_get acc l)" if "wf_map st" for st acc
    using that
  proof (induction st arbitrary: acc)
    case Nil
    then show ?case by simp
  next
    case (Cons e st)
    obtain k v where e: "e = (k, v)" by (cases e)
    have wf: "wf_map st" and k: "map_get st k = None"
      using Cons.prems by (auto simp: e wf_map_def map_of_eq_None_iff)
    show ?case
      using k by (auto simp: e Cons.IH [OF wf] js_simps split: option.split)
  qed
  then show ?thesis
    using assms by (auto simp: shiftStylesForMarker_def wf_styles_def split: option.split)
qed

lemma char_at_shift:
  assumes "wf_styles st" "0 \<le> n"
  shows "char_at (shiftStylesForMarker st n) l c = char_at st l (if l = 0 then c - n else c)"
proof (cases "n = 0")
  case True
  then show ?thesis by (simp add: shiftStylesForMarker_def)
next
  case False
  show ?thesis
  proof (cases "map_get st l")
    case None
    then show ?thesis
      using False assms by (simp add: char_at_def get_shift)
  next
    case (Some lm)
    then show ?thesis
      using False assms wf_styles_line [OF assms(1) Some]
      by (simp add: char_at_def get_shift get_shift_line)
  qed
qed

lemma wf_fold_lines:
  "(\<And>k v. wf_map (g k v)) \<Longrightarrow> wf_styles acc \<Longrightarrow>
     wf_styles (fold (\<lambda>(k, v) m. if P k v then AList.update k (g k v) m else m) es acc)"
  by (induction es arbitrary: acc) (auto simp: wf_styles_update)

lemma wf_shift: "wf_styles st \<Longrightarrow> wf_styles (shiftStylesForMarker st n)"
  using wf_fold_lines [of "\<lambda>l lm. shift_line n l lm" "[]" "\<lambda>_ _. True" st] wf_shift_line
  by (simp add: shiftStylesForMarker_def wf_styles_def)

lemma wf_unshift_line: "wf_map (unshift_line n line lm)"
proof -
  have "wf_map acc \<Longrightarrow> wf_map (fold (\<lambda>(ch, style) m. if line = 0 then
       (let target = ch - n in if target < 0 then m else AList.update target style m)
     else AList.update ch style m) lm acc)" for acc
    by (induction lm arbitrary: acc) (auto simp: js_simps Let_def)
  then show ?thesis
    by (simp add: unshift_line_def)
qed

lemma get_unshift_line:
  assumes "wf_map lm"
  shows "map_get (unshift_line n line lm) c =
    (if line = 0 then if c < 0 then None else map_get lm (c + n) else map_get lm c)"
proof -
  have "map_get (fold (\<lambda>(ch, style) m. if line = 0 then
       (let target = ch - n in if target < 0 then m else AList.update target style m)
     else AList.update ch style m) lm acc) c =
    (case (if line = 0 then if c < 0 then None else map_get lm (c + n) else map_get lm c) of
       Some s \<Rightarrow> Some s | None \<Rightarrow> map_get acc c)" for acc
    using assms unfolding Let_def
  proof (induction lm arbitrary: acc)
    case Nil
    then show ?case by simp
  next
    case (Cons e lm)
    obtain k v where e: "e = (k, v)" by (cases e)
    have wf: "wf_map lm" and k: "map_get lm k = None"
      using Cons.prems by (auto simp: e wf_map_def map_of_eq_None_iff)
    have k0: "map_get lm (c + n) = None" if "c = k - n"
      using k that by simp
    show ?case
      unfolding e fold.simps comp_apply prod.case Cons.IH [OF wf]
      using k k0 by (auto simp: js_simps split: option.split)
  qed
  then show ?thesis
    unfolding unshift_line_def by (auto split: option.split)
qed

lemma get_unshift:
  assumes "wf_map st" "0 < n"
  shows "map_get (unshiftStylesForMarker st n) l =
    (case map_get st l of None \<Rightarrow> None
     | Some lm \<Rightarrow> if unshift_line n l lm = [] then None else Some (unshift_line n l lm))"
proof -
  have "map_get (fold (\<lambda>(line, lineMap) out. let shifted = unshift_line n line lineMap in
      if shifted \<noteq> [] then AList.update line shifted out else out) st acc) l =
    (case map_get st l of None \<Rightarrow> map_get acc l
     | Some lm \<Rightarrow> if unshift_line n l lm = [] then map_get acc l else Some (unshift_line n l lm))" for acc
    using assms(1) unfolding Let_def
  proof (induction st arbitrary: acc)
    case Nil
    then show ?case by simp
  next
    case (Cons e st)
    obtain k v where e: "e = (k, v)" by (cases e)
    have wf: "wf_map st" and k: "map_get st k = None"
      using Cons.prems by (auto simp: e wf_map_def map_of_eq_None_iff)
    show ?case
      using k by (auto simp: e Cons.IH [OF wf] js_simps split: option.split)
  qed
  then show ?thesis
    using assms(2) by (simp add: unshiftStylesForMarker_def split: option.split)
qed

lemma char_at_unshift:
  assumes "wf_styles st" "0 \<le> n" "0 \<le> c"
  shows "char_at (unshiftStylesForMarker st n) l c = char_at st l (if l = 0 then c + n else c)"
proof (cases "n = 0")
  case True
  then show ?thesis by (simp add: unshiftStylesForMarker_def)
next
  case False
  have wf: "wf_map st"
    using assms(1) by (simp add: wf_styles_def)
  show ?thesis
  proof (cases "map_get st l")
    case None
    then show ?thesis
      using False assms wf by (simp add: char_at_def get_unshift)
  next
    case (Some lm)
    have "map_get (unshift_line n l lm) c = map_get lm (if l = 0 then c + n else c)"
      using assms wf_styles_line [OF assms(1) Some] by (simp add: get_unshift_line)
    then show ?thesis
      using False assms wf Some by (auto simp: char_at_def get_unshift)
  qed
qed

lemma wf_unshift: "wf_styles st \<Longrightarrow> wf_styles (unshiftStylesForMarker st n)"
  using wf_fold_lines [of "\<lambda>l lm. unshift_line n l lm" "[]" "\<lambda>l lm. unshift_line n l lm \<noteq> []" st] wf_unshift_line
  by (simp add: unshiftStylesForMarker_def wf_styles_def Let_def)

text \<open>The marker in front of the first line only lengthens that line.\<close>

lemma lineLengths_append:
  "10 \<notin> set p \<Longrightarrow> lineLengths (p @ c) = (length p + hd (lineLengths c)) # tl (lineLengths c)"
  using lineLengths_ne [of c] by (induction p) (auto simp: lineLengths_simps)

lemma strip_compose:
  "composeDisplayText content ls ord = (display, k) \<Longrightarrow> stripDisplayText display ls ord = (content, k)"
  by (auto simp: composeDisplayText_def stripDisplayText_def Let_def starts_with_def split: option.splits)

section \<open>What a marker says\<close>

definition alpha_value :: "units \<Rightarrow> nat" where
  "alpha_value s = fold (\<lambda>c v. v * 26 + (c - 96)) s 0"

lemma alpha_fold_from:
  "fold (\<lambda>c v. v * 26 + (c - 96)) s (a::nat) = a * 26 ^ length s + fold (\<lambda>c v. v * 26 + (c - 96)) s 0"
proof (induction s arbitrary: a)
  case (Cons c s)
  show ?case
    unfolding fold.simps comp_apply
    using Cons [of "a * 26 + (c - 96)"] Cons [of "0 * 26 + (c - 96)"] by (simp add: algebra_simps)
qed simp

lemma alpha_fold: "fold (\<lambda>c v. v * 26 + (c - 96)) s a = a * 26 ^ length s + alpha_value s"
  unfolding alpha_value_def by (rule alpha_fold_from)

lemma alpha_loop_0: "alpha_loop 0 out = out"
  by (subst alpha_loop.simps) simp

lemma alpha_loop_value:
  "alpha_value (alpha_loop v out) = v * 26 ^ length out + alpha_value out
   \<and> (set (alpha_loop v out) \<subseteq> set out \<union> {97..122}) \<and> (v > 0 \<or> out \<noteq> [] \<longrightarrow> alpha_loop v out \<noteq> [])"
proof (induction v out rule: alpha_loop.induct)
  case (1 v out)
  show ?case
  proof (cases "v > 0")
    case True
    let ?c = "97 + (v - 1) mod 26" and ?v = "(v - 1) div 26"
    have IH: "alpha_value (alpha_loop ?v (?c # out)) = ?v * 26 ^ Suc (length out) + alpha_value (?c # out)"
      "set (alpha_loop ?v (?c # out)) \<subseteq> set (?c # out) \<union> {97..122}" "alpha_loop ?v (?c # out) \<noteq> []"
      using 1 [OF True] by simp_all
    have "alpha_value (?c # out) = Suc ((v - 1) mod 26) * 26 ^ length out + alpha_value out"
      using alpha_fold [of out "?c - 96"] by (simp add: alpha_value_def)
    moreover have "?v * 26 + Suc ((v - 1) mod 26) = v"
      using True by simp
    ultimately have "alpha_value (alpha_loop ?v (?c # out)) = v * 26 ^ length out + alpha_value out"
      using IH(1) by (metis (no_types, lifting) add.assoc add_mult_distrib mult.assoc power_Suc)
    moreover have "?c \<in> {97..122}"
      by (auto simp: less_Suc_eq_le [symmetric])
    ultimately show ?thesis
      using IH(2,3) True by (subst alpha_loop.simps, simp) (auto simp: alpha_loop.simps [of v])
  qed (simp add: alpha_loop_0)
qed

lemma toLowerAlpha_value:
  assumes "n > 0"
  shows "alpha_value (toLowerAlpha n) = n" "set (toLowerAlpha n) \<subseteq> {97..122}"
  using assms alpha_loop_value [of n "[]"] by (auto simp: toLowerAlpha_def Let_def alpha_value_def)

text \<open>Reading a roman numeral: a symbol before a larger one counts negative.\<close>

definition roman_digit :: "nat \<Rightarrow> int" where
  "roman_digit c = (if c = 109 then 1000 else if c = 100 then 500 else if c = 99 then 100
     else if c = 108 then 50 else if c = 120 then 10 else if c = 118 then 5 else if c = 105 then 1 else 0)"

fun roman_value :: "units \<Rightarrow> int" where
  "roman_value [] = 0"
| "roman_value [c] = roman_digit c"
| "roman_value (c # d # s) =
     (if roman_digit c < roman_digit d then roman_value (d # s) - roman_digit c
      else roman_digit c + roman_value (d # s))"

lemma roman_value_append:
  "u = [] \<or> w = [] \<or> roman_digit (hd w) \<le> roman_digit (last u) \<Longrightarrow> roman_value (u @ w) = roman_value u + roman_value w"
proof (induction u rule: roman_value.induct)
  case (2 c)
  then show ?case by (cases w) auto
qed auto

lemma roman_while_eq:
  assumes "0 < amount"
  shows "roman_while amount symbol v out = (v mod amount, out @ concat (replicate (v div amount) symbol))"
  using assms
proof (induction amount symbol v out rule: roman_while.induct)
  case (1 amount symbol v out)
  show ?case
  proof (cases "v \<ge> amount")
    case True
    then have "v div amount = Suc ((v - amount) div amount)" "(v - amount) mod amount = v mod amount"
      using "1.prems" by (simp_all add: le_div_geq le_mod_geq)
    then show ?thesis
      using 1 True by (subst roman_while.simps) simp
  next
    case False
    then show ?thesis
      by (subst roman_while.simps) simp
  qed
qed

text \<open>The symbols of the table, in order: none is larger than the last of the symbols before it.\<close>

fun table_ok :: "(nat \<times> units) list \<Rightarrow> bool" where
  "table_ok [] = True"
| "table_ok ((amount, symbol) # rest) = (0 < amount \<and> symbol \<noteq> [] \<and> roman_value symbol = int amount
     \<and> list_all (\<lambda>c. roman_digit c \<le> roman_digit (last symbol)) (symbol @ concat (map snd rest)) \<and> table_ok rest)"

lemma replicate_roman:
  assumes "symbol \<noteq> []" "\<forall>c\<in>set symbol. roman_digit c \<le> roman_digit (last symbol)"
  shows "roman_value (concat (replicate k symbol)) = int k * roman_value symbol"
proof (induction k)
  case (Suc k)
  have "roman_value (symbol @ concat (replicate k symbol)) = roman_value symbol + roman_value (concat (replicate k symbol))"
    using assms by (intro roman_value_append) (cases k; auto)
  then show ?case
    using Suc by (simp add: algebra_simps)
qed simp

lemma last_replicate_concat: "0 < k \<Longrightarrow> xs \<noteq> [] \<Longrightarrow> last (concat (replicate k xs)) = last xs"
  by (induction k) (auto simp: last_append)

lemma roman_fold:
  assumes "table_ok t"
  shows "\<exists>w v'. fold (\<lambda>(amount, symbol) (v, out). roman_while amount symbol v out) t (v, out) = (v', out @ w)
    \<and> roman_value w + int v' = int v \<and> set w \<subseteq> set (concat (map snd t))
    \<and> (t \<noteq> [] \<longrightarrow> v' < fst (last t))"
  using assms
proof (induction t arbitrary: v out)
  case Nil
  then show ?case by simp
next
  case (Cons e t)
  obtain a sy where e: "e = (a, sy)" by (cases e)
  have ok: "0 < a" "sy \<noteq> []" "roman_value sy = int a" "table_ok t"
    "\<forall>c\<in>set sy \<union> set (concat (map snd t)). roman_digit c \<le> roman_digit (last sy)"
    using Cons.prems by (auto simp: e list_all_iff)
  let ?u = "concat (replicate (v div a) sy)"
  obtain w v' where w: "fold (\<lambda>(amount, symbol) (v, out). roman_while amount symbol v out) t (v mod a, out @ ?u) = (v', (out @ ?u) @ w)"
    "roman_value w + int v' = int (v mod a)" "set w \<subseteq> set (concat (map snd t))" "t \<noteq> [] \<longrightarrow> v' < fst (last t)"
    using Cons.IH [OF ok(4), of "v mod a" "out @ ?u"] by blast
  have "last ?u = last sy" if "?u \<noteq> []"
    using that ok(2) by (intro last_replicate_concat) auto
  then have "roman_value (?u @ w) = roman_value ?u + roman_value w"
    using w(3) ok(5) by (intro roman_value_append) (auto simp: hd_in_set subset_iff)
  moreover have "roman_value ?u = int (v div a) * int a"
    using replicate_roman ok by auto
  moreover have "int (v div a) * int a + int (v mod a) = int v"
    by (metis div_mult_mod_eq of_nat_add of_nat_mult)
  ultimately have "roman_value (?u @ w) + int v' = int v"
    using w(2) by simp
  moreover have "set (?u @ w) \<subseteq> set (concat (map snd (e # t)))"
    using w(3) by (auto simp: e)
  moreover have "v' < fst (last (e # t))"
  proof (cases "t = []")
    case True
    then show ?thesis
      using w(1,2) mod_less_divisor [OF ok(1), of v] by (auto simp: e)
  qed (use w(4) in simp)
  ultimately show ?case
    using w(1) by (intro exI [of _ "?u @ w"] exI [of _ v']) (simp add: e roman_while_eq [OF ok(1)])
qed

lemma roman_table_ok: "table_ok (map (\<lambda>(a, symbol). (a, units symbol)) roman_table)"
  by code_simp

lemma toLowerRoman_value:
  assumes "n > 0"
  shows "roman_value (toLowerRoman n) = int n" "10 \<notin> set (toLowerRoman n)"
proof -
  let ?t = "map (\<lambda>(a, symbol). (a, units symbol)) roman_table"
  have "fold (\<lambda>(amount, symbol) (v, out). roman_while amount (units symbol) v out) roman_table p
      = fold (\<lambda>(amount, symbol) (v, out). roman_while amount symbol v out) ?t p" for p
    by (simp add: roman_table_def)
  then have f: "toLowerRoman n = snd (fold (\<lambda>(amount, symbol) (v, out). roman_while amount symbol v out) ?t (n, []))"
    using assms by (simp add: toLowerRoman_def)
  obtain w v' where w: "fold (\<lambda>(amount, symbol) (v, out). roman_while amount symbol v out) ?t (n, []) = (v', [] @ w)"
    "roman_value w + int v' = int n" "set w \<subseteq> set (concat (map snd ?t))" "v' < fst (last ?t)"
    using roman_fold [OF roman_table_ok, of n "[]"] by (auto simp: roman_table_def)
  have "v' = 0"
    using w(4) by (simp add: roman_table_def)
  then show "roman_value (toLowerRoman n) = int n"
    using w(1,2) f by simp
  have "10 \<notin> set (concat (map snd ?t))"
    by code_simp
  then show "10 \<notin> set (toLowerRoman n)"
    using w(1,3) f by auto
qed

lemma units_no_newline: "CHR 0x0A \<notin> set s \<Longrightarrow> 10 \<notin> set (units s)"
proof
  assume n: "CHR 0x0A \<notin> set s" and "10 \<in> set (units s)"
  then obtain c where "c \<in> set s" "code_unit c = 10"
    by (auto simp: units_def)
  moreover have "code_unit (CHR 0x0A) = 10"
    by (simp add: code_unit_def)
  ultimately have "c = CHR 0x0A"
    by (metis code_unit_def of_char_eq_iff)
  then show False
    using n \<open>c \<in> set s\<close> by simp
qed

lemma prefix_one_line: "10 \<notin> set (listMarkerPrefix l ord)"
proof -
  have b: "10 \<notin> set (BULLET_GLYPHS ! i)" if "i < 3" for i
    using that by (auto simp: BULLET_GLYPHS_def less_Suc_eq numeral_3_eq_3)
  have a: "10 \<notin> set (toLowerAlpha (ordinal_of ord))"
    using toLowerAlpha_value(2) [of "ordinal_of ord"]
    by (cases "ordinal_of ord > 0") (auto simp: toLowerAlpha_def alpha_loop_0)
  have r: "10 \<notin> set (toLowerRoman (ordinal_of ord))"
    using toLowerRoman_value(2) [of "ordinal_of ord"] units_no_newline [of "''i''"]
    by (cases "ordinal_of ord > 0") (auto simp: toLowerRoman_def)
  have dot: "units ''.'' = [46]"
    by code_simp
  show ?thesis
    using a r units_no_newline [OF nat_str_no_newline] b
    by (cases "li_type l") (auto simp: listMarkerPrefix_def MARKER_SEPARATOR_def listMarkerGlyph_def Let_def dot
        BULLET_GLYPHS_def simp del: nth_Cons_numeral)
qed

text \<open>C38: The marker of an ordered list says the ordinal, for every ordinal from 1: a numbered marker
  is its decimal, a lettered one reads as the ordinal in bijective base 26, a roman one as the
  ordinal under the usual rule for roman numerals; so two items never share a marker.\<close>

theorem markers_say_ordinals:
  assumes "ordinal_of ord > 0"
  shows "(li_type l = Number_list \<longrightarrow> listMarkerGlyph l ord = units (nat_str 10 (ordinal_of ord)) @ units ''.'')
    \<and> (li_type l = Lettered_list \<longrightarrow> alpha_value (butlast (listMarkerGlyph l ord)) = ordinal_of ord)
    \<and> (li_type l = Roman_list \<longrightarrow> roman_value (butlast (listMarkerGlyph l ord)) = int (ordinal_of ord))
    \<and> (\<forall>ord'. ordinal_of ord' > 0 \<and> li_type l \<noteq> Bullet_list \<and> listMarkerGlyph l ord = listMarkerGlyph l ord' \<longrightarrow>
         ordinal_of ord = ordinal_of ord')"
proof -
  have dot: "units ''.'' = [46]"
    by code_simp
  have inj: "units s = units t \<Longrightarrow> s = t" for s t
    unfolding units_def code_unit_def using inj_of_char by (metis (no_types, lifting) map_injective injI injD)
  have lettered: "alpha_value (butlast (listMarkerGlyph l o')) = ordinal_of o'"
    if "li_type l = Lettered_list" "ordinal_of o' > 0" for o'
    using that toLowerAlpha_value by (simp add: listMarkerGlyph_def Let_def dot butlast_append)
  have roman: "roman_value (butlast (listMarkerGlyph l o')) = int (ordinal_of o')"
    if "li_type l = Roman_list" "ordinal_of o' > 0" for o'
    using that toLowerRoman_value by (simp add: listMarkerGlyph_def Let_def dot butlast_append)
  have number: "listMarkerGlyph l o' = units (nat_str 10 (ordinal_of o')) @ units ''.''"
    if "li_type l = Number_list" for o'
    using that by (simp add: listMarkerGlyph_def Let_def)
  have "ordinal_of ord = ordinal_of ord'"
    if "ordinal_of ord' > 0" "li_type l \<noteq> Bullet_list" "listMarkerGlyph l ord = listMarkerGlyph l ord'" for ord'
  proof (cases "li_type l")
    case Number_list
    then show ?thesis
      using that number nat_str_inj inj by (metis append_same_eq)
  next
    case Lettered_list
    then show ?thesis
      using that assms lettered by metis
  next
    case Roman_list
    then show ?thesis
      using that assms roman by (metis of_nat_eq_iff)
  qed (use that in simp)
  then show ?thesis
    using assms lettered roman number by blast
qed

lemma markers_say_ordinals_witness:
  "roman_value (butlast (listMarkerGlyph \<lparr>li_type = Roman_list, li_level = 0\<rparr> (Some 4))) = 4
   \<and> listMarkerGlyph \<lparr>li_type = Roman_list, li_level = 0\<rparr> (Some 4) = units ''iv.''"
proof -
  have "ordinal_of (Some 4) = 4"
    by (simp add: ordinal_of_def)
  moreover have "listMarkerGlyph \<lparr>li_type = Roman_list, li_level = 0\<rparr> (Some 4) = units ''iv.''"
    by code_simp
  ultimately show ?thesis
    using markers_say_ordinals [of "Some 4" "\<lparr>li_type = Roman_list, li_level = 0\<rparr>"] by simp
qed

lemma wf_styles_char:
  "wf_styles st \<Longrightarrow> 0 \<le> n \<Longrightarrow> 0 \<le> c \<Longrightarrow>
     char_or_none (unshiftStylesForMarker (shiftStylesForMarker st n) n) l c = char_or_none st l c"
  by (simp add: char_or_none_def char_at_unshift wf_shift char_at_shift)

lemma char_at_runs_nonneg:
  assumes "char_at (runsToFabricStyles content runs) l c \<noteq> None"
  shows "0 \<le> c"
proof -
  have line: "\<forall>lm l c. (\<forall>l c. char_at m l c \<noteq> None \<longrightarrow> 0 \<le> c) \<longrightarrow> ls \<le> lo \<longrightarrow>
      char_at (scatter_line st lo to ls line m) l c \<noteq> None \<longrightarrow> 0 \<le> c" for st lo to ls line m
    by (auto simp: char_at_scatter_line)
  have run: "(\<forall>l c. char_at m l c \<noteq> None \<longrightarrow> 0 \<le> c) \<Longrightarrow>
      char_at (scatter_run st first stop lens line flat m) l c \<noteq> None \<Longrightarrow> 0 \<le> c" for st first stop lens line flat m l c
  proof (induction lens arbitrary: line flat m)
    case (Cons len lens)
    have "\<forall>l c. char_at (scatter_line st (max first flat) (min stop (flat + int len)) flat line m) l c \<noteq> None \<longrightarrow> 0 \<le> c"
      using line [of m flat "max first flat"] Cons.prems(1) by (metis max.cobounded2)
    then show ?case
      using Cons by (auto simp: Let_def split: if_splits)
  qed auto
  have "(\<forall>l c. char_at m l c \<noteq> None \<longrightarrow> 0 \<le> c) \<Longrightarrow>
      char_at (fold (run_step lens) rs m) l c \<noteq> None \<Longrightarrow> 0 \<le> c" for lens rs m l c
  proof (induction rs arbitrary: m)
    case (Cons r rs)
    have "\<forall>l c. char_at (run_step lens r m) l c \<noteq> None \<longrightarrow> 0 \<le> c"
      using run Cons.prems(1) by (auto simp: run_step_def Let_def)
    then show ?case
      using Cons by simp
  qed auto
  from this [of "[]"] show ?thesis
    using assms by (cases runs) (auto simp: runsToFabricStyles_def char_at_def split: if_splits)
qed

text \<open>An element shown with its marker and read back has the content and the character styles it
  had: the marker is stripped, whatever its kind, level and ordinal, and the styles return to the
  characters they belong to. On the canvas the marker is unstyled and every other character has its
  own style, although the marker moved the first line.\<close>

lemma marker_round_trip:
  "let (display, k) = composeDisplayText content ls ord;
       shown = shiftStylesForMarker (runsToFabricStyles content runs) (int k);
       (content', k') = stripDisplayText display ls ord;
       reread = runs_of (fabricStylesToRuns content' (Some (unshiftStylesForMarker shown (int k'))))
   in content' = content \<and> canonical reread
    \<and> (\<forall>i. style_at reread (int i) = (if is_text content i then style_at (runs_of runs) (int i) else no_style))
    \<and> (\<forall>l < length (lineLengths display). \<forall>c < lineLengths display ! l.
         let i = flat_index (lineLengths display) l c in
         model_at shown (int l) (int c) = (if i < k then no_style else style_at (runs_of runs) (int i - int k)))"
proof -
  obtain display k where d: "composeDisplayText content ls ord = (display, k)"
    by fastforce
  let ?st = "runsToFabricStyles content runs"
  let ?shown = "shiftStylesForMarker ?st (int k)"
  have strip: "stripDisplayText display ls ord = (content, k)"
    by (rule strip_compose [OF d])
  have wf: "wf_styles ?st"
    by (rule wf_runsToFabricStyles)
  have again: "canonical (runs_of (fabricStylesToRuns content (Some (unshiftStylesForMarker ?shown (int k)))))
    \<and> (\<forall>i. style_at (runs_of (fabricStylesToRuns content (Some (unshiftStylesForMarker ?shown (int k))))) (int i)
        = (if is_text content i then style_at (runs_of runs) (int i) else no_style))"
    by (rule runs_from_styles) (simp_all add: wf wf_shift wf_unshift wf_styles_char model_at_runsToFabric)
  obtain p where p: "display = p @ content" "length p = k" "10 \<notin> set p"
    using d prefix_one_line by (cases ls) (auto simp: composeDisplayText_def Let_def)
  let ?L = "lineLengths content"
  have L: "lineLengths display = (k + hd ?L) # tl ?L" "?L = hd ?L # tl ?L"
    using lineLengths_append [OF p(3), of content] lineLengths_ne [of content] by (simp_all add: p)
  have shown: "model_at ?shown (int l) (int c) =
      (if flat_index (lineLengths display) l c < k then no_style
       else style_at (runs_of runs) (int (flat_index (lineLengths display) l c) - int k))"
    if lc: "l < length (lineLengths display)" "c < lineLengths display ! l" for l c
  proof (cases l)
    case 0
    show ?thesis
    proof (cases "c < k")
      case True
      have "char_at ?st 0 (int c - int k) = None"
        using char_at_runs_nonneg [of content runs 0 "int c - int k"] True by (cases "char_at ?st 0 (int c - int k)") auto
      then show ?thesis
        using True 0 by (simp add: char_or_none_def char_at_shift [OF wf])
    next
      case False
      then have "c - k < ?L ! 0" "0 < length ?L"
        using lc 0 L lineLengths_ne [of content] by (auto simp: hd_conv_nth)
      then have "model_at ?st (int 0) (int (c - k)) = style_at (runs_of runs) (int (c - k))"
        using model_at_runsToFabric [of 0 content "c - k" runs] by simp
      then show ?thesis
        using False 0 by (simp add: char_or_none_def char_at_shift [OF wf] of_nat_diff)
    qed
  next
    case (Suc m)
    have c: "Suc m < length ?L" "c < ?L ! Suc m"
      using lc Suc L by (metis length_Cons Suc_less_eq nth_Cons_Suc)+
    have "flat_index (lineLengths display) (Suc m) c = k + flat_index ?L (Suc m) c"
      using L by (metis add.assoc add_Suc_right flat_index_simps(2))
    then show ?thesis
      using model_at_runsToFabric [OF c, of runs] Suc by (simp add: char_or_none_def char_at_shift [OF wf])
  qed
  show ?thesis
    using again shown by (simp add: d strip Let_def)
qed

end
