(* ===== verification/Page_Layout.thy ===== *)
theory Page_Layout
  imports Elements
begin

text \<open>
  \<open>apps/web/.../editor/lib/page-layout.ts\<close>: the vertical slots of the pages in the continuous
  view, in CSS pixels, and the page at a scroll position, found by binary search. The distance
  \<open>Infinity\<close> is \<open>None\<close>.
\<close>

section \<open>The layout\<close>

definition PAGE_GAP_PX :: jsnum where
  "PAGE_GAP_PX = 24"

definition PAGE_V_PADDING_PX :: jsnum where
  "PAGE_V_PADDING_PX = 16"

record layout_input =
  li_width :: jsnum
  li_height :: jsnum
  li_rotation :: page_rotation

record page_slot =
  sl_top :: jsnum
  sl_height :: jsnum
  sl_width :: jsnum

record page_layout =
  pl_slots :: "page_slot list"
  pl_totalHeight :: jsnum
  pl_contentWidth :: jsnum

definition effectivePagePoints :: "layout_input \<Rightarrow> jsnum \<times> jsnum" where
  "effectivePagePoints p = (let swap = (li_rotation p = R90 \<or> li_rotation p = R270) in
     (if swap then li_height p else li_width p, if swap then li_width p else li_height p))"

definition layout_step ::
  "jsnum \<Rightarrow> layout_input \<Rightarrow> page_slot list \<times> jsnum \<times> jsnum \<Rightarrow> page_slot list \<times> jsnum \<times> jsnum" where
  "layout_step scale page acc = (case acc of (slots, cursor, contentWidth) \<Rightarrow>
     (let (w, h) = effectivePagePoints page; width = w * scale; height = h * scale in
      (slots @ [\<lparr>sl_top = cursor, sl_height = height, sl_width = width\<rparr>],
       cursor + (height + PAGE_GAP_PX),
       if width > contentWidth then width else contentWidth)))"

definition computePageLayout :: "layout_input list \<Rightarrow> jsnum \<Rightarrow> page_layout" where
  "computePageLayout pages zoom =
     (let scale = (if zoom > 0 then zoom else 1);
          (slots, cursor, contentWidth) = fold (layout_step scale) pages ([], PAGE_V_PADDING_PX, 0)
      in \<lparr>pl_slots = slots,
          pl_totalHeight = (if length slots > 0 then cursor - PAGE_GAP_PX + PAGE_V_PADDING_PX
            else PAGE_V_PADDING_PX * 2),
          pl_contentWidth = contentWidth\<rparr>)"

section \<open>The page at a scroll position\<close>

definition centreOf :: "page_slot \<Rightarrow> jsnum" where
  "centreOf slot = sl_top slot + sl_height slot / 2"

function page_search ::
  "page_slot list \<Rightarrow> jsnum \<Rightarrow> int \<Rightarrow> int \<Rightarrow> nat \<Rightarrow> jsnum option \<Rightarrow> nat" where
  "page_search slots target lo hi best bestDist =
     (if lo \<le> hi then
        (let mid = (lo + hi) div 2 in
         case js_nth slots mid of
           None \<Rightarrow> best
         | Some slot \<Rightarrow>
            (let centre = centreOf slot; dist = \<bar>centre - target\<bar>;
                 closer = (case bestDist of None \<Rightarrow> True | Some d \<Rightarrow> dist < d);
                 bestDist' = (if closer then Some dist else bestDist);
                 best' = (if closer then nat mid else best)
             in if centre = target then nat mid
                else if centre < target then page_search slots target (mid + 1) hi best' bestDist'
                else page_search slots target lo (mid - 1) best' bestDist'))
      else best)"
  by auto
termination
  by (relation "measure (\<lambda>(slots, target, lo, hi, best, bestDist). nat (hi + 1 - lo))") auto

declare page_search.simps [simp del]

definition pageIndexAtScroll :: "page_slot list \<Rightarrow> jsnum \<Rightarrow> jsnum \<Rightarrow> nat" where
  "pageIndexAtScroll slots scrollTop viewportH =
     (if length slots = 0 then 0
      else page_search slots (scrollTop + viewportH / 2) 0 (int (length slots) - 1) 0 None)"

section \<open>Stacking\<close>

text \<open>A page box is not negative.\<close>

definition page_box_ok :: "layout_input \<Rightarrow> bool" where
  "page_box_ok p \<longleftrightarrow> 0 \<le> li_width p \<and> 0 \<le> li_height p"

fun stacked :: "jsnum \<Rightarrow> page_slot list \<Rightarrow> jsnum \<Rightarrow> bool" where
  "stacked cursor [] end_cursor = (end_cursor = cursor)"
| "stacked cursor (s # ss) end_cursor =
     (sl_top s = cursor \<and> stacked (cursor + sl_height s + PAGE_GAP_PX) ss end_cursor)"

lemma stacked_snoc:
  "stacked t ss e \<Longrightarrow> sl_top s = e \<Longrightarrow> stacked t (ss @ [s]) (e + sl_height s + PAGE_GAP_PX)"
  by (induction t ss e rule: stacked.induct) auto

lemma layout_fold:
  assumes "fold (layout_step k) ps (ss, c, w) = (ss', c', w')" "stacked t ss c"
  shows "stacked t ss' c'
    \<and> map (\<lambda>s. (sl_width s, sl_height s)) ss' = map (\<lambda>s. (sl_width s, sl_height s)) ss
        @ map (\<lambda>p. (fst (effectivePagePoints p) * k, snd (effectivePagePoints p) * k)) ps
    \<and> w \<le> w' \<and> (\<forall>p\<in>set ps. fst (effectivePagePoints p) * k \<le> w')
    \<and> (w' = w \<or> (\<exists>p\<in>set ps. w' = fst (effectivePagePoints p) * k))"
  using assms
proof (induction ps arbitrary: ss c w)
  case Nil
  then show ?case by simp
next
  case (Cons p ps)
  obtain pw ph where e: "effectivePagePoints p = (pw, ph)" by fastforce
  let ?s = "\<lparr>sl_top = c, sl_height = ph * k, sl_width = pw * k\<rparr>"
  have s: "layout_step k p (ss, c, w) = (ss @ [?s], c + (ph * k + PAGE_GAP_PX), max w (pw * k))"
    by (auto simp: layout_step_def e Let_def)
  have "stacked t (ss @ [?s]) (c + (ph * k + PAGE_GAP_PX))"
    using stacked_snoc [OF Cons.prems(2), of ?s] by (simp add: add.assoc)
  from Cons.IH [OF _ this, of "max w (pw * k)"] show ?case
    using Cons.prems(1) by (auto simp: s e max_def split: if_splits)
qed

text \<open>The pages are stacked without overlap and without loss: one slot for each page with the
  page's size at the zoom, turned pages swapped; the first starts at the padding and each next one a
  gap below the last; the content ends a padding below the last page and is as wide as the widest.\<close>

lemma layout_stacks_pages:
  fixes pages :: "layout_input list" and zoom :: jsnum
  shows "let L = computePageLayout pages zoom; k = (if zoom > 0 then zoom else 1) in
    map (\<lambda>s. (sl_width s, sl_height s)) (pl_slots L)
      = map (\<lambda>p. if li_rotation p = R90 \<or> li_rotation p = R270 then (li_height p * k, li_width p * k)
                 else (li_width p * k, li_height p * k)) pages
    \<and> stacked PAGE_V_PADDING_PX (pl_slots L)
        (if pages = [] then PAGE_V_PADDING_PX else pl_totalHeight L - PAGE_V_PADDING_PX + PAGE_GAP_PX)
    \<and> (pages = [] \<longrightarrow> pl_totalHeight L = 2 * PAGE_V_PADDING_PX)
    \<and> (\<forall>s\<in>set (pl_slots L). sl_width s \<le> pl_contentWidth L)
    \<and> (pl_contentWidth L = 0 \<or> (\<exists>s\<in>set (pl_slots L). sl_width s = pl_contentWidth L))"
proof -
  let ?k = "if zoom > 0 then zoom else 1"
  obtain ss c w where f: "fold (layout_step ?k) pages ([], PAGE_V_PADDING_PX, 0) = (ss, c, w)"
    using prod_cases3 by blast
  have "stacked PAGE_V_PADDING_PX [] PAGE_V_PADDING_PX" by simp
  note L = layout_fold [OF f this]
  have m: "map (\<lambda>s. (sl_width s, sl_height s)) ss
      = map (\<lambda>p. (fst (effectivePagePoints p) * ?k, snd (effectivePagePoints p) * ?k)) pages"
    using L by simp
  have len: "length ss = length pages"
    by (rule map_eq_imp_length_eq [OF m])
  have widths: "sl_width ` set ss = (\<lambda>p. fst (effectivePagePoints p) * ?k) ` set pages"
    using arg_cong [OF m, of "\<lambda>l. fst ` set l"] by (simp add: image_image)
  have "\<forall>x\<in>sl_width ` set ss. x \<le> w" and wex: "w = 0 \<or> w \<in> sl_width ` set ss"
    unfolding widths using L by auto
  then have wle: "\<forall>s\<in>set ss. sl_width s \<le> w" by simp
  have st: "stacked PAGE_V_PADDING_PX ss c"
    using L by simp
  have e: "map (\<lambda>p. (fst (effectivePagePoints p) * ?k, snd (effectivePagePoints p) * ?k)) pages =
      map (\<lambda>p. if li_rotation p = R90 \<or> li_rotation p = R270 then (li_height p * ?k, li_width p * ?k)
       else (li_width p * ?k, li_height p * ?k)) pages"
    by (simp add: effectivePagePoints_def)
  have c: "computePageLayout pages zoom = \<lparr>pl_slots = ss,
      pl_totalHeight = (if pages \<noteq> [] then c - PAGE_GAP_PX + PAGE_V_PADDING_PX else PAGE_V_PADDING_PX * 2),
      pl_contentWidth = w\<rparr>"
    using f len by (cases "pages = []") (auto simp: computePageLayout_def)
  have "pages = [] \<Longrightarrow> c = PAGE_V_PADDING_PX"
    using st len by simp
  then show ?thesis
    unfolding Let_def c using m [unfolded e] wle wex st by (cases "pages = []") auto
qed

section \<open>The nearest centre\<close>

lemma stacked_centres:
  assumes "stacked t ss e" "\<forall>s\<in>set ss. 0 \<le> sl_height s"
  shows "sorted_wrt (<) (map centreOf ss) \<and> (\<forall>s\<in>set ss. t \<le> centreOf s)"
  using assms
proof (induction t ss e rule: stacked.induct)
  case (2 t s ss e)
  then have "sorted_wrt (<) (map centreOf ss)" "\<forall>s'\<in>set ss. t + sl_height s + PAGE_GAP_PX \<le> centreOf s'"
    by auto
  moreover have "centreOf s < t + sl_height s + PAGE_GAP_PX" "t \<le> centreOf s"
    "t \<le> t + sl_height s + PAGE_GAP_PX"
    using 2 by (auto simp: centreOf_def PAGE_GAP_PX_def)
  ultimately show ?case
    by (auto intro: less_le_trans order_trans)
qed auto

definition dist_at :: "page_slot list \<Rightarrow> jsnum \<Rightarrow> nat \<Rightarrow> jsnum" where
  "dist_at ss target i = \<bar>centreOf (ss ! i) - target\<bar>"

lemma dist_below:
  assumes "sorted_wrt (<) (map centreOf ss)" "i \<le> j" "j < length ss" "centreOf (ss ! j) \<le> target"
  shows "dist_at ss target j \<le> dist_at ss target i"
proof -
  have "centreOf (ss ! i) \<le> centreOf (ss ! j)"
    using assms sorted_wrt_nth_less [OF assms(1), of i j] by (cases "i = j") auto
  then show ?thesis
    using assms(4) by (simp add: dist_at_def)
qed

lemma dist_above:
  assumes "sorted_wrt (<) (map centreOf ss)" "j \<le> i" "i < length ss" "target \<le> centreOf (ss ! j)"
  shows "dist_at ss target j \<le> dist_at ss target i"
proof -
  have "centreOf (ss ! j) \<le> centreOf (ss ! i)"
    using assms sorted_wrt_nth_less [OF assms(1), of j i] by (cases "i = j") auto
  then show ?thesis
    using assms(4) by (simp add: dist_at_def)
qed

text \<open>What the loop keeps: everything outside the window is at least as far as the best.\<close>

definition bounds_distance :: "jsnum option \<Rightarrow> jsnum \<Rightarrow> bool" where
  "bounds_distance bd d \<longleftrightarrow> (\<exists>b. bd = Some b \<and> b \<le> d)"

definition search_ok :: "page_slot list \<Rightarrow> jsnum \<Rightarrow> int \<Rightarrow> int \<Rightarrow> nat \<Rightarrow> jsnum option \<Rightarrow> bool" where
  "search_ok ss target lo hi best bd \<longleftrightarrow> 0 \<le> lo \<and> hi < int (length ss) \<and> lo \<le> hi + 1
     \<and> (\<forall>i<length ss. int i < lo \<or> int i > hi \<longrightarrow> bounds_distance bd (dist_at ss target i))
     \<and> (case bd of None \<Rightarrow> lo \<le> hi | Some d \<Rightarrow> best < length ss \<and> d = dist_at ss target best)"

lemma search_ok_step:
  assumes ok: "search_ok ss target lo hi best bd" and le: "lo \<le> hi" and mid: "mid = (lo + hi) div 2"
    and bd': "bd' = (if closer then Some (dist_at ss target (nat mid)) else bd)"
    and best': "best' = (if closer then nat mid else best)"
    and closer: "closer = (case bd of None \<Rightarrow> True | Some d \<Rightarrow> dist_at ss target (nat mid) < d)"
    and sorted: "sorted_wrt (<) (map centreOf ss)"
  shows "centreOf (ss ! nat mid) < target \<Longrightarrow> search_ok ss target (mid + 1) hi best' bd'"
    and "\<not> centreOf (ss ! nat mid) < target \<Longrightarrow> search_ok ss target lo (mid - 1) best' bd'"
proof -
  have m: "lo \<le> mid" "mid \<le> hi" "0 \<le> mid" "nat mid < length ss"
    using le ok by (auto simp: mid search_ok_def)
  have near: "bounds_distance bd' (dist_at ss target (nat mid))"
    by (auto simp: bd' closer bounds_distance_def split: option.split)
  have keep: "bounds_distance bd' d" if "bounds_distance bd d" for d
    using that by (auto simp: bd' closer bounds_distance_def split: option.splits)
  have fin: "\<exists>d. bd' = Some d \<and> best' < length ss \<and> d = dist_at ss target best'"
    using ok m by (auto simp: bd' best' closer search_ok_def split: option.splits)
  have trans: "bounds_distance bd' x \<Longrightarrow> x \<le> y \<Longrightarrow> bounds_distance bd' y" for x y
    by (auto simp: bounds_distance_def)
  have out: "bounds_distance bd' (dist_at ss target i)" if "i < length ss" "int i < lo \<or> int i > hi" for i
    using ok that keep by (auto simp: search_ok_def)
  show "search_ok ss target (mid + 1) hi best' bd'" if c: "centreOf (ss ! nat mid) < target"
  proof -
    have "bounds_distance bd' (dist_at ss target i)" if "i < length ss" "int i < mid + 1 \<or> int i > hi" for i
    proof (cases "int i > hi")
      case False
      then have "i \<le> nat mid" using that by linarith
      then show ?thesis
        using trans [OF near] dist_below [OF sorted _ m(4), of i target] c by simp
    qed (use out that in blast)
    then show ?thesis
      using ok m fin by (auto simp: search_ok_def)
  qed
  show "search_ok ss target lo (mid - 1) best' bd'" if c: "\<not> centreOf (ss ! nat mid) < target"
  proof -
    have "bounds_distance bd' (dist_at ss target i)" if "i < length ss" "int i < lo \<or> int i > mid - 1" for i
    proof (cases "int i < lo")
      case False
      then have "nat mid \<le> i" using that by linarith
      then show ?thesis
        using trans [OF near] dist_above [OF sorted _ that(1), of "nat mid" target] c by simp
    qed (use out that in blast)
    then show ?thesis
      using ok m fin by (auto simp: search_ok_def)
  qed
qed

lemma page_search_nearest:
  assumes "search_ok ss target lo hi best bd" "sorted_wrt (<) (map centreOf ss)"
  shows "page_search ss target lo hi best bd < length ss
    \<and> (\<forall>i<length ss. dist_at ss target (page_search ss target lo hi best bd) \<le> dist_at ss target i)"
  using assms
proof (induction ss target lo hi best bd rule: page_search.induct)
  case (1 ss target lo hi best bd)
  show ?case
  proof (cases "lo \<le> hi")
    case False
    then have "\<forall>i<length ss. bounds_distance bd (dist_at ss target i)" "best < length ss" "bd = Some (dist_at ss target best)"
      using "1.prems"(1) by (auto simp: search_ok_def split: option.splits)
    then show ?thesis
      using False by (auto simp: page_search.simps [of ss] bounds_distance_def)
  next
    case True
    define mid where "mid = (lo + hi) div 2"
    define closer where "closer = (case bd of None \<Rightarrow> True | Some d \<Rightarrow> \<bar>centreOf (ss ! nat mid) - target\<bar> < d)"
    define bd' where "bd' = (if closer then Some \<bar>centreOf (ss ! nat mid) - target\<bar> else bd)"
    define best' where "best' = (if closer then nat mid else best)"
    have m: "0 \<le> mid" "nat mid < length ss"
      using True "1.prems"(1) by (auto simp: mid_def search_ok_def)
    have slot: "js_nth ss mid = Some (ss ! nat mid)"
      using m by (simp add: js_nth_def)
    have eq: "page_search ss target lo hi best bd =
        (if centreOf (ss ! nat mid) = target then nat mid
         else if centreOf (ss ! nat mid) < target then page_search ss target (mid + 1) hi best' bd'
         else page_search ss target lo (mid - 1) best' bd')"
      using True slot by (subst page_search.simps)
        (simp add: Let_def mid_def [symmetric] bd'_def best'_def closer_def)
    have step: "centreOf (ss ! nat mid) < target \<Longrightarrow> search_ok ss target (mid + 1) hi best' bd'"
      "\<not> centreOf (ss ! nat mid) < target \<Longrightarrow> search_ok ss target lo (mid - 1) best' bd'"
      using search_ok_step [OF "1.prems"(1) True mid_def bd'_def [folded dist_at_def] best'_def
          closer_def [folded dist_at_def] "1.prems"(2)] by blast+
    note IH = "1.IH" [OF True mid_def slot refl refl closer_def bd'_def best'_def]
    show ?thesis
    proof (cases "centreOf (ss ! nat mid) = target")
      case True
      then show ?thesis
        using m by (simp add: eq dist_at_def)
    next
      case False
      then show ?thesis
        using IH step "1.prems"(2) by (auto simp: eq)
    qed
  qed
qed

text \<open>C39: At every scroll position the search returns a page of the document, and no page's centre is
  nearer to the centre of the viewport: the binary search agrees with looking at every page.\<close>

theorem page_at_scroll_nearest:
  fixes zoom :: jsnum
  assumes "pages \<noteq> []" "\<forall>p\<in>set pages. page_box_ok p"
  defines "slots \<equiv> pl_slots (computePageLayout pages zoom)"
  shows "pageIndexAtScroll slots scrollTop viewportH < length pages
    \<and> (\<forall>i<length pages. \<bar>centreOf (slots ! pageIndexAtScroll slots scrollTop viewportH) - (scrollTop + viewportH / 2)\<bar>
         \<le> \<bar>centreOf (slots ! i) - (scrollTop + viewportH / 2)\<bar>)"
proof -
  let ?k = "if zoom > 0 then zoom else 1"
  obtain ss c w where f: "fold (layout_step ?k) pages ([], PAGE_V_PADDING_PX, 0) = (ss, c, w)"
    using prod_cases3 by blast
  have "stacked PAGE_V_PADDING_PX [] PAGE_V_PADDING_PX" by simp
  note L = layout_fold [OF f this]
  have slots: "slots = ss"
    by (simp add: slots_def computePageLayout_def Let_def f)
  have m: "map (\<lambda>s. (sl_width s, sl_height s)) ss
      = map (\<lambda>p. (fst (effectivePagePoints p) * ?k, snd (effectivePagePoints p) * ?k)) pages"
    using L by simp
  have len: "length ss = length pages"
    by (rule map_eq_imp_length_eq [OF m])
  have "sl_height ` set ss = (\<lambda>p. snd (effectivePagePoints p) * ?k) ` set pages"
    using arg_cong [OF m, of "\<lambda>l. snd ` set l"] by (simp add: image_image)
  moreover have "0 \<le> snd (effectivePagePoints p) * ?k" if "p \<in> set pages" for p
    using assms(2) that by (auto simp: effectivePagePoints_def page_box_ok_def Let_def)
  ultimately have "\<forall>h\<in>sl_height ` set ss. 0 \<le> h"
    by auto
  then have "\<forall>s\<in>set ss. 0 \<le> sl_height s"
    by simp
  then have sorted: "sorted_wrt (<) (map centreOf ss)"
    using L stacked_centres by blast
  have "search_ok ss (scrollTop + viewportH / 2) 0 (int (length ss) - 1) 0 None"
    using assms(1) len by (cases pages) (auto simp: search_ok_def)
  from page_search_nearest [OF this sorted] show ?thesis
    using assms(1) len by (simp add: pageIndexAtScroll_def slots dist_at_def)
qed

lemma page_at_scroll_nearest_witness:
  "let slots = pl_slots (computePageLayout [\<lparr>li_width = 600, li_height = 800, li_rotation = R0\<rparr>,
       \<lparr>li_width = 600, li_height = 800, li_rotation = R90\<rparr>] 1) in
   pageIndexAtScroll slots 700 200 = 1
   \<and> \<bar>centreOf (slots ! 1) - (700 + 200 / 2)\<bar> \<le> \<bar>centreOf (slots ! 0) - (700 + 200 / 2)\<bar>"
proof -
  let ?ps = "[\<lparr>li_width = 600, li_height = 800, li_rotation = R0\<rparr>, \<lparr>li_width = 600, li_height = 800, li_rotation = R90\<rparr>]"
  have ok: "?ps \<noteq> []" "\<forall>p\<in>set ?ps. page_box_ok p"
    by (simp_all add: page_box_ok_def)
  have "pageIndexAtScroll (pl_slots (computePageLayout ?ps 1)) 700 200 = 1"
    by code_simp
  then show ?thesis
    using page_at_scroll_nearest [OF ok, of 1 700 200] by (simp add: Let_def)
qed

end
