(* ===== verification/Table_Layout.thy ===== *)
theory Table_Layout
  imports List_Format
begin

text \<open>
  \<open>packages/editor/src/lib/table-layout.ts\<close>: what the insert menu builds. A new table is a flat
  list of elements, one text box for each cell and one line for each border; a list is the text
  with a marker before each line that is not blank. A new element has no id yet.
\<close>

section \<open>Tables\<close>

datatype new_body =
    New_text units (nt_fontSize: jsnum)
  | New_line "(jsnum \<times> jsnum) list" string jsnum

record new_element =
  ne_bounds :: bounds
  ne_transform :: transform
  ne_layerId :: "uuid option"
  ne_locked :: bool
  ne_visible :: bool
  ne_body :: new_body

definition IDENTITY_TRANSFORM :: transform where
  "IDENTITY_TRANSFORM = \<lparr>t_rotation = 0, t_scaleX = 1, t_scaleY = 1, t_skewX = 0, t_skewY = 0\<rparr>"

definition lineElement ::
  "jsnum \<Rightarrow> jsnum \<Rightarrow> jsnum \<Rightarrow> jsnum \<Rightarrow> string \<Rightarrow> jsnum \<Rightarrow> new_element" where
  "lineElement x1 y1 x2 y2 color width =
     \<lparr>ne_bounds = \<lparr>b_x = min x1 x2, b_y = min y1 y2, b_width = max \<bar>x2 - x1\<bar> 1, b_height = max \<bar>y2 - y1\<bar> 1\<rparr>,
      ne_transform = IDENTITY_TRANSFORM, ne_layerId = None, ne_locked = False, ne_visible = True,
      ne_body = New_line [(x1, y1), (x2, y2)] color width\<rparr>"

definition cellElement :: "bounds \<Rightarrow> jsnum \<Rightarrow> new_element" where
  "cellElement b fontSize =
     \<lparr>ne_bounds = b, ne_transform = IDENTITY_TRANSFORM, ne_layerId = None, ne_locked = False,
      ne_visible = True, ne_body = New_text [] fontSize\<rparr>"

record build_table_options =
  bt_rows :: int
  bt_cols :: int
  bt_area :: bounds
  bt_borderColor :: "string option"
  bt_borderWidth :: "jsnum option"
  bt_cellPadding :: "jsnum option"
  bt_fontSize :: "jsnum option"

definition cell_bounds :: "jsnum \<Rightarrow> jsnum \<Rightarrow> jsnum \<Rightarrow> jsnum \<Rightarrow> jsnum \<Rightarrow> nat \<Rightarrow> nat \<Rightarrow> bounds" where
  "cell_bounds left upper cellW cellH cellPadding r c =
     (let pad = min cellPadding (min (cellW / 2 - 1) (cellH / 2 - 1)); safePad = max pad 0 in
      \<lparr>b_x = left + of_nat c * cellW + safePad, b_y = upper + of_nat r * cellH + safePad,
       b_width = max (cellW - safePad * 2) 1, b_height = max (cellH - safePad * 2) 1\<rparr>)"

definition buildTableElements :: "build_table_options \<Rightarrow> string + new_element list" where
  "buildTableElements options =
     (let rows = bt_rows options; cols = bt_cols options; area = bt_area options;
          borderColor = (case bt_borderColor options of None \<Rightarrow> ''#9ca3af'' | Some c \<Rightarrow> c);
          borderWidth = (case bt_borderWidth options of None \<Rightarrow> 1 | Some w \<Rightarrow> w);
          cellPadding = (case bt_cellPadding options of None \<Rightarrow> 4 | Some p \<Rightarrow> p);
          fontSize = (case bt_fontSize options of None \<Rightarrow> 12 | Some f \<Rightarrow> f)
      in if rows < 1 \<or> cols < 1 then Inl ''buildTableElements: rows and cols must both be >= 1''
         else let cellW = b_width area / of_int cols; cellH = b_height area / of_int rows;
                  left = b_x area; upper = b_y area;
                  right = b_x area + b_width area; bottom = b_y area + b_height area
              in Inr (concat (map (\<lambda>r. map (\<lambda>c.
                        cellElement (cell_bounds left upper cellW cellH cellPadding r c) fontSize)
                        [0..<nat cols]) [0..<nat rows])
                   @ map (\<lambda>r. let y = upper + of_nat r * cellH in
                        lineElement left y right y borderColor borderWidth) [0..<nat rows + 1]
                   @ map (\<lambda>c. let x = left + of_nat c * cellW in
                        lineElement x upper x bottom borderColor borderWidth) [0..<nat cols + 1]))"

text \<open>A rectangle inside another.\<close>

definition inside :: "bounds \<Rightarrow> bounds \<Rightarrow> bool" where
  "inside b a \<longleftrightarrow> b_x a \<le> b_x b \<and> b_y a \<le> b_y b
     \<and> b_x b + b_width b \<le> b_x a + b_width a \<and> b_y b + b_height b \<le> b_y a + b_height a"

definition grid_cell :: "bounds \<Rightarrow> int \<Rightarrow> int \<Rightarrow> nat \<Rightarrow> nat \<Rightarrow> bounds" where
  "grid_cell area rows cols r c =
     \<lparr>b_x = b_x area + of_nat c * (b_width area / of_int cols), b_y = b_y area + of_nat r * (b_height area / of_int rows),
      b_width = b_width area / of_int cols, b_height = b_height area / of_int rows\<rparr>"

lemma grid_cell_inside:
  assumes "0 < rows" "0 < cols" "int r < rows" "int c < cols" "0 \<le> b_width area" "0 \<le> b_height area"
  shows "inside (grid_cell area rows cols r c) area"
proof -
  have k: "of_nat k * (w / of_int n) + w / of_int n \<le> w" if "0 < n" "int k < n" "0 \<le> w" for k n and w :: jsnum
  proof -
    have "of_nat k * (w / of_int n) + w / of_int n = of_int (int k + 1) * (w / of_int n)"
      by (simp add: algebra_simps add_divide_distrib)
    also have "\<dots> \<le> of_int n * (w / of_int n)"
      using that by (intro mult_right_mono) (simp_all only: of_int_le_iff, auto)
    finally show ?thesis using that by simp
  qed
  show ?thesis
    using assms k [of cols c "b_width area"] k [of rows r "b_height area"]
    by (simp add: inside_def grid_cell_def add.assoc)
qed

lemma cell_in_grid_cell:
  assumes "1 \<le> b_width area / of_int cols" "1 \<le> b_height area / of_int rows"
  shows "inside (cell_bounds (b_x area) (b_y area) (b_width area / of_int cols) (b_height area / of_int rows) p r c)
    (grid_cell area rows cols r c)"
  using assms by (auto simp: inside_def grid_cell_def cell_bounds_def Let_def max_def min_def)

lemma concat_rows_nth:
  "r < m \<Longrightarrow> c < n \<Longrightarrow> concat (map (\<lambda>r. map (f r) [0..<n]) [0..<m]) ! (r * n + c) = f r c"
proof (induction m)
  case (Suc m)
  have len: "length (concat (map (\<lambda>r. map (f r) [0..<n]) [0..<m])) = m * n"
    by (induction m) auto
  show ?case
  proof (cases "r = m")
    case True
    then show ?thesis
      using Suc.prems by (simp add: nth_append len)
  next
    case False
    then have "r < m"
      using Suc.prems by simp
    then have "Suc r * n \<le> m * n"
      by (intro mult_le_mono1) simp
    then have "r * n + c < m * n"
      using Suc.prems by simp
    then show ?thesis
      using Suc.IH [OF \<open>r < m\<close>] Suc.prems by (simp add: nth_append len)
  qed
qed simp

lemma length_rows: "length (concat (map (\<lambda>r. map (f r) [0..<n]) [0..<m])) = m * n"
  by (induction m) auto

text \<open>A table of r rows and c columns is r * c text boxes in row order and r + 1 + c + 1 lines; each
  text box lies in its own grid cell and in the area, whatever the padding; no box is smaller than
  a point. Only a table without a row or a column is refused.\<close>

lemma table_elements_in_area:
  assumes "1 \<le> b_width (bt_area options) / of_int (bt_cols options)"
    and "1 \<le> b_height (bt_area options) / of_int (bt_rows options)"
  shows "case buildTableElements options of
      Inl _ \<Rightarrow> bt_rows options < 1 \<or> bt_cols options < 1
    | Inr es \<Rightarrow> 1 \<le> bt_rows options \<and> 1 \<le> bt_cols options
        \<and> int (length es) = bt_rows options * bt_cols options + bt_rows options + bt_cols options + 2
        \<and> (\<forall>e\<in>set es. 1 \<le> b_width (ne_bounds e) \<and> 1 \<le> b_height (ne_bounds e))
        \<and> (\<forall>r c. int r < bt_rows options \<longrightarrow> int c < bt_cols options \<longrightarrow>
             (let e = es ! (r * nat (bt_cols options) + c); cell = grid_cell (bt_area options) (bt_rows options) (bt_cols options) r c in
              (\<exists>size. ne_body e = New_text [] size) \<and> inside (ne_bounds e) cell \<and> inside cell (bt_area options)))"
proof (cases "bt_rows options < 1 \<or> bt_cols options < 1")
  case True
  then show ?thesis
    by (auto simp: buildTableElements_def Let_def)
next
  case False
  define area rows cols where "area = bt_area options" and "rows = bt_rows options" and "cols = bt_cols options"
  define f where "f r c = cellElement (cell_bounds (b_x area) (b_y area) (b_width area / of_int cols)
      (b_height area / of_int rows) (case bt_cellPadding options of None \<Rightarrow> 4 | Some p \<Rightarrow> p) r c)
      (case bt_fontSize options of None \<Rightarrow> 12 | Some f \<Rightarrow> f)" for r c
  define cells where "cells = concat (map (\<lambda>r. map (f r) [0..<nat cols]) [0..<nat rows])"
  have n: "1 \<le> rows" "1 \<le> cols"
    using False by (simp_all add: rows_def cols_def)
  obtain hs vs where es: "buildTableElements options = Inr (cells @ hs @ vs)"
    and lens: "length hs = nat rows + 1" "length vs = nat cols + 1"
    and lines: "\<forall>e\<in>set (hs @ vs). 1 \<le> b_width (ne_bounds e) \<and> 1 \<le> b_height (ne_bounds e)"
  proof
    show "buildTableElements options = Inr (cells
        @ map (\<lambda>r. lineElement (b_x area) (b_y area + of_nat r * (b_height area / of_int rows)) (b_x area + b_width area)
            (b_y area + of_nat r * (b_height area / of_int rows)) (case bt_borderColor options of None \<Rightarrow> ''#9ca3af'' | Some c \<Rightarrow> c)
            (case bt_borderWidth options of None \<Rightarrow> 1 | Some w \<Rightarrow> w)) [0..<nat rows + 1]
        @ map (\<lambda>c. lineElement (b_x area + of_nat c * (b_width area / of_int cols)) (b_y area)
            (b_x area + of_nat c * (b_width area / of_int cols)) (b_y area + b_height area)
            (case bt_borderColor options of None \<Rightarrow> ''#9ca3af'' | Some c \<Rightarrow> c)
            (case bt_borderWidth options of None \<Rightarrow> 1 | Some w \<Rightarrow> w)) [0..<nat cols + 1])"
      unfolding buildTableElements_def Let_def cells_def f_def area_def rows_def cols_def
      using False by (simp only: if_False)
  qed (auto simp: lineElement_def)
  have len: "length cells = nat rows * nat cols"
    by (simp add: cells_def length_rows)
  have size: "1 \<le> b_width (ne_bounds (f r c)) \<and> 1 \<le> b_height (ne_bounds (f r c))" for r c
    by (simp add: f_def cellElement_def cell_bounds_def Let_def)
  have w: "0 \<le> b_width area" "0 \<le> b_height area"
    using assms n by (auto simp: area_def rows_def [symmetric] cols_def [symmetric] field_simps)
  have cell: "(\<exists>sz. ne_body ((cells @ hs @ vs) ! (r * nat cols + c)) = New_text [] sz)
      \<and> inside (ne_bounds ((cells @ hs @ vs) ! (r * nat cols + c))) (grid_cell area rows cols r c)
      \<and> inside (grid_cell area rows cols r c) area" if rc: "int r < rows" "int c < cols" for r c
  proof -
    have lt: "r < nat rows" "c < nat cols"
      using rc by linarith+
    have "Suc r * nat cols \<le> nat rows * nat cols"
      using lt by (intro mult_le_mono1) simp
    then have "r * nat cols + c < length cells"
      using lt by (simp add: len)
    then have e: "(cells @ hs @ vs) ! (r * nat cols + c) = f r c"
      using concat_rows_nth [OF lt, of f] by (simp add: nth_append cells_def)
    have "inside (ne_bounds (f r c)) (grid_cell area rows cols r c)"
      using cell_in_grid_cell assms by (simp add: f_def cellElement_def area_def rows_def cols_def)
    then show ?thesis
      using grid_cell_inside [of rows cols r c area] rc n w by (simp add: e f_def cellElement_def)
  qed
  have "int (length (cells @ hs @ vs)) = rows * cols + rows + cols + 2"
    using n by (simp add: len lens)
  then show ?thesis
    using es n lines size cell by (auto simp: area_def rows_def cols_def Let_def cells_def)
qed

lemma table_elements_in_area_witness:
  "\<exists>es. buildTableElements \<lparr>bt_rows = 2, bt_cols = 3, bt_area = \<lparr>b_x = 10, b_y = 20, b_width = 300, b_height = 100\<rparr>,
      bt_borderColor = None, bt_borderWidth = None, bt_cellPadding = Some 400, bt_fontSize = None\<rparr> = Inr es
    \<and> length es = 13 \<and> inside (ne_bounds (es ! 5)) \<lparr>b_x = 210, b_y = 70, b_width = 100, b_height = 50\<rparr>"
proof -
  let ?o = "\<lparr>bt_rows = 2, bt_cols = 3, bt_area = \<lparr>b_x = 10, b_y = 20, b_width = 300, b_height = 100\<rparr>,
      bt_borderColor = None, bt_borderWidth = None, bt_cellPadding = Some 400, bt_fontSize = None\<rparr>"
  obtain es where es: "buildTableElements ?o = Inr es"
    by (simp add: buildTableElements_def Let_def)
  have "1 \<le> b_width (bt_area ?o) / of_int (bt_cols ?o)" "1 \<le> b_height (bt_area ?o) / of_int (bt_rows ?o)"
    by simp_all
  from table_elements_in_area [OF this] have t: "int (length es) = 13"
    "\<forall>r c. int r < 2 \<longrightarrow> int c < 3 \<longrightarrow> inside (ne_bounds (es ! (r * nat 3 + c))) (grid_cell (bt_area ?o) 2 3 r c)"
    by (simp_all add: es Let_def)
  have "inside (ne_bounds (es ! (1 * nat 3 + 2))) (grid_cell (bt_area ?o) 2 3 1 2)"
    using t(2) [rule_format, of 1 2] by simp
  then show ?thesis
    using es t(1) by (auto simp: grid_cell_def)
qed

section \<open>Lists\<close>

definition digit_unit :: "nat \<Rightarrow> bool" where
  "digit_unit c \<longleftrightarrow> 48 \<le> c \<and> c \<le> 57"

definition trim_start :: "units \<Rightarrow> units" where
  "trim_start s = dropWhile js_ws s"

text \<open>\<open>s.replace(/^\d+\.\s+/, '')\<close>: digits, a dot and white space in front, all of it.\<close>

definition strip_number :: "units \<Rightarrow> units" where
  "strip_number s = (let rest = dropWhile digit_unit s in
     case rest of
       d # w # ws \<Rightarrow> if d = 46 \<and> takeWhile digit_unit s \<noteq> [] \<and> js_ws w then dropWhile js_ws (w # ws) else s
     | _ \<Rightarrow> s)"

datatype list_kind = Bulleted | Numbered

definition bullet_prefix :: units where
  "bullet_prefix = [8226, 32]"

definition number_prefix :: "nat \<Rightarrow> units" where
  "number_prefix n = units (nat_str 10 n) @ [46, 32]"

fun list_lines :: "list_kind \<Rightarrow> nat \<Rightarrow> units list \<Rightarrow> units list" where
  "list_lines kind ordinal [] = []"
| "list_lines kind ordinal (line # lines) =
     (let trimmed = trim_start line in
      if trimmed = [] then line # list_lines kind ordinal lines
      else if kind = Bulleted then
        (if starts_with trimmed bullet_prefix then line else bullet_prefix @ trimmed) # list_lines kind ordinal lines
      else (number_prefix (ordinal + 1) @ strip_number trimmed) # list_lines kind (ordinal + 1) lines)"

fun join_lines :: "units list \<Rightarrow> units" where
  "join_lines [] = []"
| "join_lines [l] = l"
| "join_lines (l # m # ls) = l @ 10 # join_lines (m # ls)"

definition buildListContent :: "units \<Rightarrow> list_kind \<Rightarrow> units" where
  "buildListContent content kind = join_lines (list_lines kind 0 (split_lines content))"

lemma split_join_lines: "ls \<noteq> [] \<Longrightarrow> \<forall>l\<in>set ls. 10 \<notin> set l \<Longrightarrow> split_lines (join_lines ls) = ls"
proof (induction ls rule: join_lines.induct)
  case (2 l)
  then show ?case by (induction l) auto
next
  case (3 l m ls)
  have "split_lines (l @ 10 # s) = l # split_lines s" if "10 \<notin> set l" for l s
    using that by (induction l) auto
  then show ?case
    using 3 by simp
qed simp

lemma split_no_newline: "l \<in> set (split_lines s) \<Longrightarrow> 10 \<notin> set l"
proof (induction s arbitrary: l)
  case (Cons x s)
  show ?case
  proof (cases "split_lines s")
    case Nil
    then show ?thesis using split_lines_ne by blast
  next
    case (Cons m ms)
    then show ?thesis
      using Cons.prems Cons.IH by (auto split: if_splits)
  qed
qed simp

lemma trim_start_idem: "trim_start (trim_start s) = trim_start s"
  by (simp add: trim_start_def dropWhile_idem)

lemma hd_trim: "trim_start s \<noteq> [] \<Longrightarrow> \<not> js_ws (hd (trim_start s))"
  by (simp add: trim_start_def hd_dropWhile)

lemma trim_start_id: "s = [] \<or> \<not> js_ws (hd s) \<Longrightarrow> trim_start s = s"
  by (cases s) (auto simp: trim_start_def)

lemma units_digits: "c \<in> set (units (nat_str 10 n)) \<Longrightarrow> digit_unit c"
proof -
  assume "c \<in> set (units (nat_str 10 n))"
  then obtain d where "d \<in> set (nat_str 10 n)" "c = code_unit d"
    by (auto simp: units_def)
  then show "digit_unit c"
    using nat_str_chars [of d n] by (auto simp: is_digit_def digit_val_def digit_unit_def Let_def split: if_splits)
qed

lemma number_strip: "w = [] \<or> \<not> js_ws (hd w) \<Longrightarrow> strip_number (number_prefix n @ w) = w"
proof -
  assume w: "w = [] \<or> \<not> js_ws (hd w)"
  let ?d = "units (nat_str 10 n)"
  have "?d \<noteq> []"
    using nat_str_digits [of 10 n] by (simp add: units_def)
  moreover have "\<forall>c\<in>set ?d. digit_unit c"
    using units_digits by blast
  ultimately show ?thesis
    using w by (cases w) (auto simp: strip_number_def number_prefix_def takeWhile_append2 dropWhile_append2 digit_unit_def
        js_ws_def Let_def)
qed

lemma hd_kept: "x \<in> set xs \<Longrightarrow> \<not> P x \<Longrightarrow> P (hd (dropWhile P xs)) \<Longrightarrow> False"
  by (induction xs) (auto split: if_splits)

lemma hd_strip_number: "s \<noteq> [] \<Longrightarrow> \<not> js_ws (hd s) \<Longrightarrow> strip_number s = [] \<or> \<not> js_ws (hd (strip_number s))"
  by (auto simp: strip_number_def Let_def split: list.splits dest: hd_kept)

lemma list_lines_idem: "list_lines kind n (list_lines kind n ls) = list_lines kind n ls"
proof (induction kind n ls rule: list_lines.induct)
  case (2 kind n line lines)
  let ?t = "trim_start line"
  consider "?t = []" | "?t \<noteq> []" "kind = Bulleted" | "?t \<noteq> []" "kind = Numbered"
    by (cases kind) auto
  then show ?case
  proof cases
    case 1
    then show ?thesis using 2 by (simp add: Let_def)
  next
    case 2
    have "trim_start (bullet_prefix @ ?t) = bullet_prefix @ ?t" "starts_with (bullet_prefix @ ?t) bullet_prefix"
      by (simp_all add: trim_start_def bullet_prefix_def js_ws_def starts_with_def)
    then show ?thesis
      using 2 "2.IH"(2) [OF refl 2(1)] by (simp add: Let_def bullet_prefix_def)
  next
    case 3
    let ?l = "number_prefix (n + 1) @ strip_number ?t"
    have s: "strip_number ?t = [] \<or> \<not> js_ws (hd (strip_number ?t))"
      using hd_strip_number [OF 3(1) hd_trim [OF 3(1)]] .
    have ne: "units (nat_str 10 (n + 1)) \<noteq> []"
      using nat_str_digits [of 10 "n + 1"] by (simp add: units_def)
    then have "digit_unit (hd ?l)"
      using units_digits [of "hd (units (nat_str 10 (n + 1)))" "n + 1"] by (simp add: number_prefix_def)
    then have "trim_start ?l = ?l" "?l \<noteq> []" "number_prefix (n + 1) \<noteq> []"
      using ne by (auto intro!: trim_start_id simp: digit_unit_def js_ws_def number_prefix_def)
    then show ?thesis
      using 3 "2.IH"(3) [OF refl 3(1)] number_strip [OF s, of "n + 1"] by (simp add: Let_def)
  qed
qed simp

lemma list_lines_no_newline:
  "\<forall>l\<in>set ls. 10 \<notin> set l \<Longrightarrow> \<forall>l\<in>set (list_lines kind n ls). 10 \<notin> set l"
proof (induction kind n ls rule: list_lines.induct)
  case (2 kind n line lines)
  have t: "10 \<notin> set (trim_start line)"
    using "2.prems" by (auto simp: trim_start_def dest: set_dropWhileD)
  have "set (strip_number s) \<subseteq> set s" for s
    by (auto simp: strip_number_def Let_def split: list.splits dest!: set_dropWhileD)
      (metis list.set_intros set_dropWhileD)+
  then have "10 \<notin> set (strip_number (trim_start line))"
    using t by blast
  moreover have "10 \<notin> set (number_prefix m)" for m
    using units_digits [of 10 m] by (auto simp: number_prefix_def digit_unit_def)
  ultimately show ?case
    using 2 t by (auto simp: Let_def bullet_prefix_def)
qed simp

lemma list_lines_ne: "ls \<noteq> [] \<Longrightarrow> list_lines kind n ls \<noteq> []"
  by (cases ls) (auto simp: Let_def)

text \<open>Making a text a list twice is making it a list once, for bullets and for numbers, whatever
  markers, digits and white space the text starts with; and the lines stay where they are.\<close>

lemma list_content_idempotent:
  "buildListContent (buildListContent content kind) kind = buildListContent content kind
   \<and> length (split_lines (buildListContent content kind)) = length (split_lines content)"
proof -
  let ?ls = "split_lines content"
  have ls: "split_lines (buildListContent content kind) = list_lines kind 0 ?ls"
    unfolding buildListContent_def
    using list_lines_no_newline split_no_newline by (intro split_join_lines list_lines_ne split_lines_ne) blast
  have "length (list_lines kind n ls) = length ls" for n ls
    by (induction ls arbitrary: n; cases kind) (simp_all add: Let_def)
  moreover have "buildListContent (buildListContent content kind) kind = join_lines (list_lines kind 0 ?ls)"
    unfolding buildListContent_def [of "buildListContent content kind"] ls list_lines_idem ..
  ultimately show ?thesis
    unfolding ls by (simp add: buildListContent_def)
qed

end
