(* ===== verification/Header_Footer.thy ===== *)
theory Header_Footer
  imports Text_Runs Color
begin

text \<open>
  Running headers and footers: \<open>apps/web/.../editor/lib/running-header-footer.ts\<close>, the bands of
  \<open>header-footer-zone.tsx\<close> and the handlers of \<open>editor/[id]/page.tsx\<close> as steps of a session.
  The engine draws the bands from the definition. Fields of an item that this code only copies
  are one opaque string.
\<close>

section \<open>Tokens\<close>

record hf_token_context =
  tk_page :: int
  tk_pages :: int
  tk_date :: "units option"
  tk_title :: "units option"

datatype hf_token = Tok_page | Tok_pages | Tok_date | Tok_title

fun token_name :: "hf_token \<Rightarrow> string" where
  "token_name Tok_page = ''page''"
| "token_name Tok_pages = ''pages''"
| "token_name Tok_date = ''date''"
| "token_name Tok_title = ''title''"

fun token_value :: "hf_token_context \<Rightarrow> hf_token \<Rightarrow> units" where
  "token_value ctx Tok_page = units (int_str (tk_page ctx))"
| "token_value ctx Tok_pages = units (int_str (tk_pages ctx))"
| "token_value ctx Tok_date = (case tk_date ctx of None \<Rightarrow> [] | Some d \<Rightarrow> d)"
| "token_value ctx Tok_title = (case tk_title ctx of None \<Rightarrow> [] | Some t \<Rightarrow> t)"

fun drop_prefix :: "units \<Rightarrow> units \<Rightarrow> units option" where
  "drop_prefix [] s = Some s"
| "drop_prefix (p # ps) [] = None"
| "drop_prefix (p # ps) (c # s) = (if c = p then drop_prefix ps s else None)"

text \<open>\<open>/\{\{\s*(page|pages|date|title)\s*\}\}/\<close> at the start: the first alternative after
  which the rest of the pattern matches, and what is left.\<close>

fun first_token :: "hf_token list \<Rightarrow> units \<Rightarrow> (hf_token \<times> units) option" where
  "first_token [] s = None"
| "first_token (t # ts) s =
     (case Option.bind (drop_prefix (units (token_name t)) s) (\<lambda>r. drop_prefix [125, 125] (dropWhile js_ws r)) of
        Some rest \<Rightarrow> Some (t, rest)
      | None \<Rightarrow> first_token ts s)"

definition match_token :: "units \<Rightarrow> (hf_token \<times> units) option" where
  "match_token s = Option.bind (drop_prefix [123, 123] s)
     (\<lambda>r. first_token [Tok_page, Tok_pages, Tok_date, Tok_title] (dropWhile js_ws r))"

lemma drop_prefix_Some: "drop_prefix p s = Some r \<longleftrightarrow> s = p @ r"
  by (induction p s rule: drop_prefix.induct) auto

lemma first_token_length: "first_token ts s = Some (t, rest) \<Longrightarrow> length rest < length s"
proof (induction ts)
  case (Cons u us)
  have "length rest < length s" if "s = p @ r" "dropWhile js_ws r = [125, 125] @ rest" for p r
  proof -
    have "length (dropWhile js_ws r) \<le> length r"
      by (rule length_dropWhile_le)
    then show ?thesis using that by simp
  qed
  then show ?case
    using Cons by (auto simp: drop_prefix_Some bind_eq_Some_conv split: option.splits)
qed simp

lemma match_token_length:
  assumes "match_token s = Some (t, rest)"
  shows "length rest < length s"
proof -
  obtain r where r: "s = [123, 123] @ r"
    "first_token [Tok_page, Tok_pages, Tok_date, Tok_title] (dropWhile js_ws r) = Some (t, rest)"
    using assms by (auto simp: match_token_def drop_prefix_Some bind_eq_Some_conv)
  then have "length rest < length (dropWhile js_ws r)"
    using first_token_length by blast
  then show ?thesis
    using length_dropWhile_le [of js_ws r] r(1) by simp
qed

text \<open>\<open>template.replace(TOKEN_RE, f)\<close> from left to right.\<close>

function substituteHFTokens :: "hf_token_context \<Rightarrow> units \<Rightarrow> units" where
  "substituteHFTokens ctx s = (case match_token s of
      Some (t, rest) \<Rightarrow> token_value ctx t @ substituteHFTokens ctx rest
    | None \<Rightarrow> (case s of [] \<Rightarrow> [] | c # s' \<Rightarrow> c # substituteHFTokens ctx s'))"
  by auto
termination
  by (relation "measure (\<lambda>(ctx, s). length s)") (auto dest: match_token_length)

declare substituteHFTokens.simps [simp del]

definition appendTokenToText :: "units \<Rightarrow> hf_token \<Rightarrow> units" where
  "appendTokenToText body token =
     (let tok = [123, 123] @ units (token_name token) @ [125, 125] in
      if body = [] then tok else if js_ws (last body) then body @ tok else body @ [32] @ tok)"

section \<open>Definitions, zones and items\<close>

datatype hf_align = Al_left | Al_center | Al_right

record hf_text_item =
  ht_text :: units
  ht_anchor :: "hf_align option"
  ht_size :: "jsnum option"
  ht_bold :: "bool option"
  ht_italic :: "bool option"
  ht_color :: "(jsnum \<times> jsnum \<times> jsnum) option"
  ht_rest :: string

record hf_image_item =
  hi_imageId :: nat
  hi_w :: jsnum
  hi_h :: jsnum
  hi_anchor :: "hf_align option"
  hi_rest :: string

datatype hf_item = HF_text hf_text_item | HF_image hf_image_item

record hf_zone =
  zn_header :: "hf_item list"
  zn_footer :: "hf_item list"

record hf_def =
  hd_default :: hf_zone
  hd_firstPage :: "hf_zone option"
  hd_evenPage :: "hf_zone option"
  hd_oddPage :: "hf_zone option"
  hd_headerBand :: "jsnum option"
  hd_footerBand :: "jsnum option"
  hd_differentFirstPage :: bool
  hd_differentOddEven :: bool

datatype hf_band = Header_band | Footer_band
datatype hf_zone_key = Zk_default | Zk_firstPage | Zk_evenPage | Zk_oddPage

definition DEFAULT_HF_FONT_SIZE :: jsnum where
  "DEFAULT_HF_FONT_SIZE = 10"

definition emptyHFZone :: hf_zone where
  "emptyHFZone = \<lparr>zn_header = [], zn_footer = []\<rparr>"

definition emptyRunningHeaderFooter :: hf_def where
  "emptyRunningHeaderFooter = \<lparr>hd_default = emptyHFZone, hd_firstPage = None, hd_evenPage = None,
     hd_oddPage = None, hd_headerBand = Some 36, hd_footerBand = Some 36, hd_differentFirstPage = False,
     hd_differentOddEven = False\<rparr>"

definition isRunningHeaderFooterEmpty :: "hf_def option \<Rightarrow> bool" where
  "isRunningHeaderFooterEmpty d = (case d of None \<Rightarrow> True
     | Some d \<Rightarrow> list_all (\<lambda>z. case z of None \<Rightarrow> True | Some z \<Rightarrow> length (zn_header z) = 0 \<and> length (zn_footer z) = 0)
         [Some (hd_default d), hd_firstPage d, hd_evenPage d, hd_oddPage d])"

definition zone_or :: "hf_zone option \<Rightarrow> hf_zone \<Rightarrow> hf_zone" where
  "zone_or z d = (case z of None \<Rightarrow> d | Some z \<Rightarrow> z)"

definition selectZoneForPage :: "hf_def \<Rightarrow> int \<Rightarrow> hf_zone" where
  "selectZoneForPage d pageNumber =
     (if hd_differentFirstPage d \<and> pageNumber = 1 then zone_or (hd_firstPage d) (hd_default d)
      else if hd_differentOddEven d then
        zone_or (if pageNumber mod 2 = 0 then hd_evenPage d else hd_oddPage d) (hd_default d)
      else hd_default d)"

definition resolveZoneKeyForPage :: "hf_def \<Rightarrow> int \<Rightarrow> hf_zone_key" where
  "resolveZoneKeyForPage d pageNumber =
     (if hd_differentFirstPage d \<and> pageNumber = 1 then Zk_firstPage
      else if hd_differentOddEven d then if pageNumber mod 2 = 0 then Zk_evenPage else Zk_oddPage
      else Zk_default)"

fun slot_of :: "hf_def \<Rightarrow> hf_zone_key \<Rightarrow> hf_zone option" where
  "slot_of d Zk_default = Some (hd_default d)"
| "slot_of d Zk_firstPage = hd_firstPage d"
| "slot_of d Zk_evenPage = hd_evenPage d"
| "slot_of d Zk_oddPage = hd_oddPage d"

definition zoneForKey :: "hf_def \<Rightarrow> hf_zone_key \<Rightarrow> hf_zone" where
  "zoneForKey d key = (if key = Zk_default then hd_default d else zone_or (slot_of d key) emptyHFZone)"

fun withZone :: "hf_def \<Rightarrow> hf_zone_key \<Rightarrow> hf_zone \<Rightarrow> hf_def" where
  "withZone d Zk_default zone = d\<lparr>hd_default := zone\<rparr>"
| "withZone d Zk_firstPage zone = d\<lparr>hd_firstPage := Some zone\<rparr>"
| "withZone d Zk_evenPage zone = d\<lparr>hd_evenPage := Some zone\<rparr>"
| "withZone d Zk_oddPage zone = d\<lparr>hd_oddPage := Some zone\<rparr>"

definition ensureZone :: "hf_def \<Rightarrow> hf_zone_key \<Rightarrow> hf_def" where
  "ensureZone d key =
     (if key = Zk_default then d
      else if slot_of d key \<noteq> None then d
      else withZone d key \<lparr>zn_header = zn_header (hd_default d), zn_footer = zn_footer (hd_default d)\<rparr>)"

definition band_items :: "hf_zone \<Rightarrow> hf_band \<Rightarrow> hf_item list" where
  "band_items zone band = (if band = Header_band then zn_header zone else zn_footer zone)"

definition with_band :: "hf_zone \<Rightarrow> hf_band \<Rightarrow> hf_item list \<Rightarrow> hf_zone" where
  "with_band zone band items =
     \<lparr>zn_header = (if band = Header_band then items else zn_header zone),
      zn_footer = (if band = Footer_band then items else zn_footer zone)\<rparr>"

definition appendItemToZone :: "hf_def \<Rightarrow> hf_zone_key \<Rightarrow> hf_band \<Rightarrow> hf_item \<Rightarrow> hf_def" where
  "appendItemToZone d key band item =
     (let zone = zoneForKey d key in withZone d key (with_band zone band (band_items zone band @ [item])))"

text \<open>The patch is the function \<open>it => ({ ...it, ...patch })\<close>.\<close>

definition updateItemInZone :: "hf_def \<Rightarrow> hf_zone_key \<Rightarrow> hf_band \<Rightarrow> int \<Rightarrow> (hf_item \<Rightarrow> hf_item) \<Rightarrow> hf_def" where
  "updateItemInZone d key band index patch =
     (let zone = zoneForKey d key; items = band_items zone band in
      if index < 0 \<or> index \<ge> int (length items) then d
      else withZone d key (with_band zone band (map_index (\<lambda>i it. if int i = index then patch it else it) items)))"

definition removeItemFromZone :: "hf_def \<Rightarrow> hf_zone_key \<Rightarrow> hf_band \<Rightarrow> int \<Rightarrow> hf_def" where
  "removeItemFromZone d key band index =
     (let zone = zoneForKey d key; items = band_items zone band in
      if index < 0 \<or> index \<ge> int (length items) then d
      else withZone d key (with_band zone band
        (concat (map_index (\<lambda>i it. if int i \<noteq> index then [it] else []) items))))"

definition makeTextItem :: "units \<Rightarrow> hf_text_item" where
  "makeTextItem body = \<lparr>ht_text = body, ht_anchor = Some Al_left, ht_size = Some DEFAULT_HF_FONT_SIZE,
     ht_bold = None, ht_italic = None, ht_color = None, ht_rest = []\<rparr>"

definition makeImageItem :: "nat \<Rightarrow> jsnum \<Rightarrow> jsnum \<Rightarrow> hf_align option \<Rightarrow> hf_image_item" where
  "makeImageItem imageId w h anchor = \<lparr>hi_imageId = imageId, hi_w = w, hi_h = h,
     hi_anchor = Some (case anchor of None \<Rightarrow> Al_left | Some a \<Rightarrow> a), hi_rest = []\<rparr>"

definition resolveAnchorLeftPx :: "hf_align \<Rightarrow> jsnum \<Rightarrow> jsnum \<Rightarrow> jsnum \<Rightarrow> jsnum \<Rightarrow> jsnum" where
  "resolveAnchorLeftPx anchor dxPts bandWidthPx itemWidthPx pxPerPt =
     (case anchor of Al_center \<Rightarrow> (bandWidthPx - itemWidthPx) / 2
      | Al_right \<Rightarrow> bandWidthPx - itemWidthPx | Al_left \<Rightarrow> 0) + dxPts * pxPerPt"

definition resolveAnchorTopPx :: "hf_band \<Rightarrow> jsnum \<Rightarrow> jsnum \<Rightarrow> jsnum \<Rightarrow> jsnum \<Rightarrow> jsnum" where
  "resolveAnchorTopPx band dyPts bandHeightPx itemHeightPx pxPerPt =
     (let dyPx = dyPts * pxPerPt in
      if band = Header_band then 0 - dyPx else bandHeightPx - itemHeightPx - dyPx)"

section \<open>Styles\<close>

definition hf_hex :: "jsnum \<Rightarrow> string" where
  "hf_hex n = pad_start 2 CHR ''0'' (nat_str 16 (nat (max 0 (min 255 (js_round n)))))"

definition hfColorToHex :: "(jsnum \<times> jsnum \<times> jsnum) option \<Rightarrow> string" where
  "hfColorToHex color = (case (case color of None \<Rightarrow> (0, 0, 0) | Some c \<Rightarrow> c) of
     (r, g, b) \<Rightarrow> ''#'' @ hf_hex r @ hf_hex g @ hf_hex b)"

text \<open>\<open>/^#?([0-9a-f]{6})$/i\<close> on the trimmed text; the shifts and masks are divisions.\<close>

definition hexToHfColor :: "string \<Rightarrow> jsnum \<times> jsnum \<times> jsnum" where
  "hexToHfColor hex =
     (let t = js_trim hex; m = (case t of [] \<Rightarrow> t | c # cs \<Rightarrow> if c = CHR ''#'' then cs else t) in
      if length m = 6 \<and> list_all (is_digit 16) m
      then let n = digits_value 16 m in
        (of_nat (n div 65536), of_nat (n div 256 mod 256), of_nat (n mod 256))
      else (0, 0, 0))"

definition anchorFromTextAlign :: "text_align \<Rightarrow> hf_align" where
  "anchorFromTextAlign align = (case align of Align_Center \<Rightarrow> Al_center | Align_Right \<Rightarrow> Al_right | _ \<Rightarrow> Al_left)"

definition textAlignFromAnchor :: "hf_align option \<Rightarrow> text_align" where
  "textAlignFromAnchor anchor = (case anchor of Some Al_center \<Rightarrow> Align_Center
     | Some Al_right \<Rightarrow> Align_Right | _ \<Rightarrow> Align_Left)"

record hf_style_patch =
  hp_fontWeight :: "font_weight option"
  hp_fontStyle :: "font_slant option"
  hp_color :: "string option"
  hp_fontSize :: "jsnum option"
  hp_textAlign :: "text_align option"

definition applyTextStylePatch :: "hf_text_item \<Rightarrow> hf_style_patch \<Rightarrow> hf_text_item" where
  "applyTextStylePatch item patch = item\<lparr>
     ht_bold := over (ht_bold item) (map_option (\<lambda>w. w = Bold_Weight) (hp_fontWeight patch)),
     ht_italic := over (ht_italic item) (map_option (\<lambda>s. s = Italic_Slant) (hp_fontStyle patch)),
     ht_color := over (ht_color item) (map_option hexToHfColor (hp_color patch)),
     ht_size := over (ht_size item) (hp_fontSize patch),
     ht_anchor := over (ht_anchor item) (map_option anchorFromTextAlign (hp_textAlign patch))\<rparr>"

text \<open>\<open>{ ...it, text }\<close> and \<open>{ ...it, ...nextItem }\<close>. A text put over an image item leaves the
  discriminant alone; a whole text item replaces it.\<close>

fun spread_body :: "units \<Rightarrow> hf_item \<Rightarrow> hf_item" where
  "spread_body t (HF_text it) = HF_text (it\<lparr>ht_text := t\<rparr>)"
| "spread_body t (HF_image im) = HF_image im"

fun spread_item :: "hf_text_item \<Rightarrow> hf_item \<Rightarrow> hf_item" where
  "spread_item next_item (HF_text it) = HF_text \<lparr>ht_text = ht_text next_item, ht_anchor = over (ht_anchor it) (ht_anchor next_item),
     ht_size = over (ht_size it) (ht_size next_item), ht_bold = over (ht_bold it) (ht_bold next_item),
     ht_italic = over (ht_italic it) (ht_italic next_item), ht_color = over (ht_color it) (ht_color next_item),
     ht_rest = ht_rest next_item\<rparr>"
| "spread_item next_item (HF_image im) = HF_text (next_item\<lparr>ht_anchor := over (hi_anchor im) (ht_anchor next_item)\<rparr>)"

section \<open>The image registry\<close>

record 'img hf_registry =
  rg_map :: "(nat, 'img) jsmap"
  rg_nextId :: nat

definition empty_registry :: "'img hf_registry" where
  "empty_registry = \<lparr>rg_map = [], rg_nextId = 1\<rparr>"

definition registry_add :: "'img \<Rightarrow> 'img hf_registry \<Rightarrow> nat \<times> 'img hf_registry" where
  "registry_add bytes r = (rg_nextId r,
     r\<lparr>rg_nextId := rg_nextId r + 1, rg_map := AList.update (rg_nextId r) bytes (rg_map r)\<rparr>)"

definition registry_get :: "'img hf_registry \<Rightarrow> nat \<Rightarrow> 'img option" where
  "registry_get r imageId = map_get (rg_map r) imageId"

definition registry_has :: "'img hf_registry \<Rightarrow> nat \<Rightarrow> bool" where
  "registry_has r imageId = map_has (rg_map r) imageId"

definition registry_size :: "'img hf_registry \<Rightarrow> nat" where
  "registry_size r = length (rg_map r)"

definition registry_toMap :: "'img hf_registry \<Rightarrow> (nat, 'img) jsmap" where
  "registry_toMap r = rg_map r"

definition registry_ok :: "'img hf_registry \<Rightarrow> bool" where
  "registry_ok r \<longleftrightarrow> wf_map (rg_map r) \<and> (\<forall>i. registry_has r i \<longrightarrow> 1 \<le> i \<and> i < rg_nextId r) \<and> 1 \<le> rg_nextId r"

lemma registry_ok_empty: "registry_ok empty_registry"
  by (simp add: registry_ok_def empty_registry_def registry_has_def map_has_def)

lemma registry_add_fresh:
  assumes "registry_ok r" "registry_add bytes r = (i, r')"
  shows "registry_ok r' \<and> \<not> registry_has r i \<and> registry_get r' i = Some bytes
    \<and> (\<forall>j. j \<noteq> i \<longrightarrow> registry_get r' j = registry_get r j) \<and> registry_size r' = Suc (registry_size r)"
proof -
  have i: "i = rg_nextId r" "r' = r\<lparr>rg_nextId := rg_nextId r + 1, rg_map := AList.update (rg_nextId r) bytes (rg_map r)\<rparr>"
    using assms(2) by (auto simp: registry_add_def)
  have fresh: "\<not> registry_has r i"
    using assms(1) by (auto simp: registry_ok_def i)
  then have "i \<notin> fst ` set (rg_map r)"
    by (simp add: registry_has_def map_has_def map_of_eq_None_iff)
  then have "length (AList.update i bytes m) = Suc (length m)" if "i \<notin> fst ` set m" for m
    using that by (induction m) auto
  then show ?thesis
    using assms(1) fresh \<open>i \<notin> fst ` set (rg_map r)\<close>
    by (auto simp: registry_ok_def i registry_get_def registry_has_def registry_size_def map_has_def js_simps less_Suc_eq
        split: if_splits)
qed

section \<open>A session of the bands\<close>

record hf_focus =
  fo_band :: hf_band
  fo_index :: int
  fo_item :: hf_text_item

record 'img hf_session =
  se_def :: hf_def
  se_focus :: "hf_focus option"
  se_registry :: "'img hf_registry"
  se_editMode :: bool
  se_pending :: "(hf_def \<times> hf_focus option \<times> int \<times> 'img) list"
  se_baked :: "hf_def list"

text \<open>\<open>handleHfDefChange\<close>: the state and its mirror, and a bake of this definition after the delay.\<close>

definition def_change :: "hf_def \<Rightarrow> 'img hf_session \<Rightarrow> 'img hf_session" where
  "def_change d s = s\<lparr>se_def := d, se_baked := se_baked s @ [d]\<rparr>"

definition toggleDifferentFirstPage :: "'img hf_session \<Rightarrow> 'img hf_session" where
  "toggleDifferentFirstPage s =
     (let d = se_def s; nextOn = (\<not> hd_differentFirstPage d); d' = d\<lparr>hd_differentFirstPage := nextOn\<rparr> in
      def_change (if nextOn then ensureZone d' Zk_firstPage else d') s)"

definition toggleDifferentOddEven :: "'img hf_session \<Rightarrow> 'img hf_session" where
  "toggleDifferentOddEven s =
     (let d = se_def s; nextOn = (\<not> hd_differentOddEven d); d' = d\<lparr>hd_differentOddEven := nextOn\<rparr> in
      def_change (if nextOn then ensureZone (ensureZone d' Zk_evenPage) Zk_oddPage else d') s)"

text \<open>\<open>setFocus\<close> of the bands reports the item as it is at that moment.\<close>

definition focus_item :: "int \<Rightarrow> hf_band \<Rightarrow> int \<Rightarrow> 'img hf_session \<Rightarrow> 'img hf_session" where
  "focus_item page band index s =
     (let zone = zoneForKey (se_def s) (resolveZoneKeyForPage (se_def s) page) in
      s\<lparr>se_focus := (case js_nth (band_items zone band) index of
          Some (HF_text it) \<Rightarrow> Some \<lparr>fo_band = band, fo_index = index, fo_item = it\<rparr>
        | _ \<Rightarrow> None)\<rparr>)"

definition blur_item :: "'img hf_session \<Rightarrow> 'img hf_session" where
  "blur_item s = s\<lparr>se_focus := None\<rparr>"

definition add_text_item :: "int \<Rightarrow> hf_band \<Rightarrow> 'img hf_session \<Rightarrow> 'img hf_session" where
  "add_text_item page band s =
     (let key = resolveZoneKeyForPage (se_def s) page; item = makeTextItem [];
          n = length (band_items (zoneForKey (se_def s) key) band) in
      (def_change (appendItemToZone (se_def s) key band (HF_text item)) s)\<lparr>se_focus :=
         Some \<lparr>fo_band = band, fo_index = int n, fo_item = item\<rparr>\<rparr>)"

definition type_text :: "int \<Rightarrow> hf_band \<Rightarrow> int \<Rightarrow> units \<Rightarrow> 'img hf_session \<Rightarrow> 'img hf_session" where
  "type_text page band index t s = def_change
     (updateItemInZone (se_def s) (resolveZoneKeyForPage (se_def s) page) band index (spread_body t)) s"

definition delete_image_item :: "int \<Rightarrow> hf_band \<Rightarrow> int \<Rightarrow> 'img hf_session \<Rightarrow> 'img hf_session" where
  "delete_image_item page band index s = def_change
     (removeItemFromZone (se_def s) (resolveZoneKeyForPage (se_def s) page) band index) s"

definition insert_token :: "int \<Rightarrow> hf_token \<Rightarrow> 'img hf_session \<Rightarrow> 'img hf_session" where
  "insert_token page token s = (case se_focus s of None \<Rightarrow> s
     | Some f \<Rightarrow> def_change (updateItemInZone (se_def s) (resolveZoneKeyForPage (se_def s) page) (fo_band f) (fo_index f)
         (spread_body (appendTokenToText (ht_text (fo_item f)) token))) s)"

definition style_item :: "int \<Rightarrow> hf_style_patch \<Rightarrow> 'img hf_session \<Rightarrow> 'img hf_session" where
  "style_item page patch s = (case se_focus s of None \<Rightarrow> s
     | Some f \<Rightarrow> def_change (updateItemInZone (se_def s) (resolveZoneKeyForPage (se_def s) page) (fo_band f) (fo_index f)
         (spread_item (applyTextStylePatch (fo_item f) patch))) s)"

text \<open>Inserting an image reads the file first: the definition and the focus are those of the moment
  the file was chosen, the registry is the current one.\<close>

definition insert_image_end ::
  "hf_def \<Rightarrow> hf_focus option \<Rightarrow> int \<Rightarrow> 'img \<Rightarrow> 'img hf_session \<Rightarrow> 'img hf_session" where
  "insert_image_end d focus page bytes s =
     (let (i, r) = registry_add bytes (se_registry s);
          band = (case focus of None \<Rightarrow> Header_band | Some f \<Rightarrow> fo_band f)
      in def_change (appendItemToZone d (resolveZoneKeyForPage d page) band
           (HF_image (makeImageItem i 80 24 (Some Al_left)))) (s\<lparr>se_registry := r\<rparr>))"

definition choose_image :: "int \<Rightarrow> 'img \<Rightarrow> 'img hf_session \<Rightarrow> 'img hf_session" where
  "choose_image page bytes s = s\<lparr>se_pending := se_pending s @ [(se_def s, se_focus s, page, bytes)]\<rparr>"

definition image_read :: "nat \<Rightarrow> 'img hf_session \<Rightarrow> 'img hf_session" where
  "image_read n s = (if n < length (se_pending s) then
     (case se_pending s ! n of (d, focus, page, bytes) \<Rightarrow>
        insert_image_end d focus page bytes (s\<lparr>se_pending := splice_del n (se_pending s)\<rparr>)) else s)"

definition toggle_zones :: "'img hf_session \<Rightarrow> 'img hf_session" where
  "toggle_zones s = (if \<not> se_editMode s then s\<lparr>se_editMode := True\<rparr>
     else s\<lparr>se_editMode := False, se_focus := None\<rparr>)"

text \<open>Opening a document takes the recorded definition, or an empty one; the registry stays empty.\<close>

definition open_session :: "hf_def option \<Rightarrow> 'img hf_session" where
  "open_session recorded = \<lparr>se_def = (case recorded of None \<Rightarrow> emptyRunningHeaderFooter | Some d \<Rightarrow> d),
     se_focus = None, se_registry = empty_registry, se_editMode = False,
     se_pending = [], se_baked = []\<rparr>"

datatype 'img hf_event =
    Ev_toggle_first | Ev_toggle_odd_even | Ev_toggle_zones
  | Ev_focus int hf_band int | Ev_blur
  | Ev_add_text int hf_band | Ev_type int hf_band int units | Ev_delete int hf_band int
  | Ev_token int hf_token | Ev_style int hf_style_patch
  | Ev_choose_image int 'img | Ev_image_read nat

fun hf_step :: "'img hf_event \<Rightarrow> 'img hf_session \<Rightarrow> 'img hf_session" where
  "hf_step Ev_toggle_first s = toggleDifferentFirstPage s"
| "hf_step Ev_toggle_odd_even s = toggleDifferentOddEven s"
| "hf_step Ev_toggle_zones s = toggle_zones s"
| "hf_step (Ev_focus page band i) s = focus_item page band i s"
| "hf_step Ev_blur s = blur_item s"
| "hf_step (Ev_add_text page band) s = add_text_item page band s"
| "hf_step (Ev_type page band i t) s = type_text page band i t s"
| "hf_step (Ev_delete page band i) s = delete_image_item page band i s"
| "hf_step (Ev_token page token) s = insert_token page token s"
| "hf_step (Ev_style page patch) s = style_item page patch s"
| "hf_step (Ev_choose_image page bytes) s = choose_image page bytes s"
| "hf_step (Ev_image_read n) s = image_read n s"

section \<open>What is shown is what is drawn\<close>

text \<open>Every override that a flag asks for is there.\<close>

definition zones_ok :: "hf_def \<Rightarrow> bool" where
  "zones_ok d \<longleftrightarrow> (hd_differentFirstPage d \<longrightarrow> hd_firstPage d \<noteq> None)
     \<and> (hd_differentOddEven d \<longrightarrow> hd_evenPage d \<noteq> None \<and> hd_oddPage d \<noteq> None)"

definition shown_zone :: "hf_def \<Rightarrow> int \<Rightarrow> hf_zone" where
  "shown_zone d page = zoneForKey d (resolveZoneKeyForPage d page)"

lemma shown_is_drawn: "zones_ok d \<Longrightarrow> shown_zone d page = selectZoneForPage d page"
  by (auto simp: shown_zone_def zoneForKey_def resolveZoneKeyForPage_def selectZoneForPage_def zones_ok_def zone_or_def)

lemma withZone_flags [simp]:
  "hd_differentFirstPage (withZone d key z) = hd_differentFirstPage d"
  "hd_differentOddEven (withZone d key z) = hd_differentOddEven d"
  by (cases key; simp)+

lemma slot_withZone: "slot_of (withZone d key z) key' = (if key' = key then Some z else slot_of d key')"
  by (cases key; cases key') simp_all

definition has_slot :: "hf_def \<Rightarrow> hf_zone_key \<Rightarrow> bool" where
  "has_slot d key = (slot_of d key \<noteq> None)"

lemma zones_ok_slots:
  "zones_ok d \<longleftrightarrow> (hd_differentFirstPage d \<longrightarrow> has_slot d Zk_firstPage)
     \<and> (hd_differentOddEven d \<longrightarrow> has_slot d Zk_evenPage \<and> has_slot d Zk_oddPage)"
  by (simp add: zones_ok_def has_slot_def)

lemma has_slot_simps [simp]:
  "has_slot (withZone d key z) key' \<longleftrightarrow> key' = key \<or> has_slot d key'"
  "has_slot (d\<lparr>hd_differentFirstPage := b\<rparr>) key' = has_slot d key'"
  "has_slot (d\<lparr>hd_differentOddEven := b\<rparr>) key' = has_slot d key'"
  by (simp add: has_slot_def slot_withZone) (cases key'; simp add: has_slot_def)+

lemma has_slot_default [simp]: "has_slot d Zk_default"
  by (simp add: has_slot_def)

lemma has_slot_ensure [simp]: "has_slot (ensureZone d key) key' \<longleftrightarrow> key' = key \<or> has_slot d key'"
  by (auto simp: ensureZone_def has_slot_def slot_withZone)

lemma zones_ok_withZone [inv_intros]: "zones_ok d \<Longrightarrow> zones_ok (withZone d key z)"
  by (simp add: zones_ok_slots)

lemma zones_ok_edits [inv_intros]:
  "zones_ok d \<Longrightarrow> zones_ok (appendItemToZone d key band it)"
  "zones_ok d \<Longrightarrow> zones_ok (updateItemInZone d key band i f)"
  "zones_ok d \<Longrightarrow> zones_ok (removeItemFromZone d key band i)"
  by (simp_all add: appendItemToZone_def updateItemInZone_def removeItemFromZone_def Let_def zones_ok_withZone)

lemma ensure_flags [simp]:
  "hd_differentFirstPage (ensureZone d key) = hd_differentFirstPage d"
  "hd_differentOddEven (ensureZone d key) = hd_differentOddEven d"
  by (simp_all add: ensureZone_def)

lemma zones_ok_toggles:
  assumes "zones_ok (se_def s)"
  shows "zones_ok (se_def (toggleDifferentFirstPage s))" "zones_ok (se_def (toggleDifferentOddEven s))"
  using assms
  by (simp_all add: toggleDifferentFirstPage_def toggleDifferentOddEven_def def_change_def Let_def zones_ok_slots)

definition session_ok :: "'img hf_session \<Rightarrow> bool" where
  "session_ok s \<longleftrightarrow> zones_ok (se_def s) \<and> registry_ok (se_registry s)
     \<and> (\<forall>(d, f, p, b)\<in>set (se_pending s). zones_ok d)
     \<and> (\<forall>d\<in>set (se_baked s). zones_ok d) \<and> (se_baked s \<noteq> [] \<longrightarrow> last (se_baked s) = se_def s)"

lemma session_ok_change:
  "session_ok s \<Longrightarrow> zones_ok d \<Longrightarrow> session_ok (def_change d s)"
  by (auto simp: session_ok_def def_change_def)

lemma session_ok_focus [simp]: "session_ok (s\<lparr>se_focus := f\<rparr>) = session_ok s"
  by (simp add: session_ok_def)

lemma session_ok_step:
  assumes ok: "session_ok s"
  shows "session_ok (hf_step e s)"
proof (cases e)
  case Ev_toggle_first
  have "zones_ok (se_def (toggleDifferentFirstPage s))"
    using ok by (simp add: session_ok_def zones_ok_toggles)
  then show ?thesis
    using session_ok_change [OF ok] Ev_toggle_first by (simp add: toggleDifferentFirstPage_def Let_def def_change_def)
next
  case Ev_toggle_odd_even
  have "zones_ok (se_def (toggleDifferentOddEven s))"
    using ok by (simp add: session_ok_def zones_ok_toggles)
  then show ?thesis
    using session_ok_change [OF ok] Ev_toggle_odd_even by (simp add: toggleDifferentOddEven_def Let_def def_change_def)
next
  case (Ev_choose_image page bytes)
  show ?thesis
    using ok Ev_choose_image by (auto simp: choose_image_def session_ok_def)
next
  case (Ev_image_read n)
  show ?thesis
  proof (cases "n < length (se_pending s)")
    case True
    obtain d f p b where p: "se_pending s ! n = (d, f, p, b)" by (cases "se_pending s ! n")
    obtain i r where r: "registry_add b (se_registry s) = (i, r)" by fastforce
    have "(d, f, p, b) \<in> set (se_pending s)"
      using True p nth_mem by metis
    then have d: "zones_ok d"
      using ok by (auto simp: session_ok_def)
    have "session_ok (s\<lparr>se_pending := splice_del n (se_pending s), se_registry := r\<rparr>)"
      using ok registry_add_fresh [OF _ r] set_splice_del [of n "se_pending s"] by (auto simp: session_ok_def)
    then show ?thesis
      using True p r d by (simp add: Ev_image_read image_read_def insert_image_end_def Let_def session_ok_change zones_ok_edits)
  qed (use ok in \<open>simp add: Ev_image_read image_read_def\<close>)
qed (use ok in \<open>auto simp: toggle_zones_def focus_item_def blur_item_def add_text_item_def type_text_def
    delete_image_item_def insert_token_def style_item_def Let_def session_ok_def def_change_def zones_ok_edits
    split: option.split\<close>)



section \<open>The scope of an edit\<close>

lemma key_withZone [simp]: "resolveZoneKeyForPage (withZone d key z) p = resolveZoneKeyForPage d p"
  by (simp add: resolveZoneKeyForPage_def)

lemma zoneForKey_withZone: "zoneForKey (withZone d key z) k = (if k = key then z else zoneForKey d k)"
  by (cases key; cases k) (simp_all add: zoneForKey_def zone_or_def)

lemma shown_withZone:
  "shown_zone (withZone d key z) q = (if resolveZoneKeyForPage d q = key then z else shown_zone d q)"
  by (simp add: shown_zone_def zoneForKey_withZone)

lemma band_with_band [simp]:
  "band_items (with_band z b xs) b' = (if b' = b then xs else band_items z b')"
  by (cases b; cases b') (simp_all add: band_items_def with_band_def)

text \<open>The pages that share the zone of a page: with a different first page, that page alone; with
  different odd and even pages, those of the same parity; otherwise all.\<close>

definition same_scope :: "hf_def \<Rightarrow> int \<Rightarrow> int \<Rightarrow> bool" where
  "same_scope d p q \<longleftrightarrow> (if hd_differentFirstPage d \<and> (p = 1 \<or> q = 1) then p = q
     else if hd_differentOddEven d then p mod 2 = q mod 2 else True)"

lemma same_scope_key: "resolveZoneKeyForPage d q = resolveZoneKeyForPage d p \<longleftrightarrow> same_scope d p q"
  by (auto simp: resolveZoneKeyForPage_def same_scope_def)

lemma same_scope_refl [simp]: "same_scope d p p"
  by (simp add: same_scope_def)

lemma shown_band_append:
  "band_items (shown_zone (appendItemToZone d (resolveZoneKeyForPage d p) band it) q) b =
    band_items (shown_zone d q) b @ (if same_scope d p q \<and> b = band then [it] else [])"
  by (auto simp: appendItemToZone_def Let_def shown_withZone same_scope_key) (auto simp: shown_zone_def same_scope_key [symmetric])

lemma shown_band_update:
  "band_items (shown_zone (updateItemInZone d (resolveZoneKeyForPage d p) band i f) q) b =
    (let xs = band_items (shown_zone d q) b in
     if same_scope d p q \<and> b = band \<and> 0 \<le> i \<and> i < int (length xs) then xs[nat i := f (xs ! nat i)] else xs)"
proof -
  have "map_index (\<lambda>j it. if int j = i then f it else it) xs = xs[nat i := f (xs ! nat i)]"
    if "0 \<le> i" "i < int (length xs)" for xs
    using that by (intro nth_equalityI) (auto simp: js_simps nth_list_update)
  then show ?thesis
    by (auto simp: updateItemInZone_def Let_def shown_withZone same_scope_key) (auto simp: shown_zone_def same_scope_key [symmetric])
qed

lemma shown_band_remove:
  "band_items (shown_zone (removeItemFromZone d (resolveZoneKeyForPage d p) band i) q) b =
    (let xs = band_items (shown_zone d q) b in
     if same_scope d p q \<and> b = band \<and> 0 \<le> i \<and> i < int (length xs) then splice_del (nat i) xs else xs)"
proof -
  have drop: "concat (map_index (\<lambda>j it. if int j \<noteq> i then [it] else []) xs) = splice_del (nat i) xs"
    if "0 \<le> i" "i < int (length xs)" for xs :: "hf_item list"
    using that
  proof (induction xs rule: rev_induct)
    case (snoc x xs)
    have app: "map_index g (xs @ [x]) = map_index g xs @ [g (length xs) x]" for g :: "nat \<Rightarrow> hf_item \<Rightarrow> hf_item list"
      by (simp add: map_index_def)
    have all: "concat (map_index (\<lambda>j it. if int j \<noteq> int (length xs) then [it] else []) xs) = xs"
    proof -
      have "map_index (\<lambda>j it. if int j \<noteq> int (length xs) then [it] else []) xs = map (\<lambda>x. [x]) xs"
        by (rule nth_equalityI) (auto simp: js_simps)
      then show ?thesis by (simp add: concat_map_singleton)
    qed
    show ?case
    proof (cases "i = int (length xs)")
      case True
      then show ?thesis
        using all by (simp add: app splice_del_def)
    next
      case False
      then show ?thesis
        using snoc by (simp add: app splice_del_def)
    qed
  qed simp
  then show ?thesis
    by (auto simp: removeItemFromZone_def Let_def shown_withZone same_scope_key) (auto simp: shown_zone_def same_scope_key [symmetric])
qed

text \<open>Switching an override on copies the default zone, so no page changes.\<close>

lemma shown_ensure_same:
  assumes "\<not> has_slot d Zk_firstPage" "\<not> hd_differentFirstPage d"
  shows "shown_zone (ensureZone (d\<lparr>hd_differentFirstPage := True\<rparr>) Zk_firstPage) 1 =
    \<lparr>zn_header = zn_header (hd_default d), zn_footer = zn_footer (hd_default d)\<rparr>"
  using assms by (simp add: shown_zone_def resolveZoneKeyForPage_def ensureZone_def has_slot_def zoneForKey_def zone_or_def)

text \<open>An edit of a band on a page changes exactly that band of the pages that share its zone: it
  appends one item, replaces the item at the index, or removes it there; every other band and every
  page of another scope shows what it showed.\<close>

lemma band_edit_scoped:
  "band_items (shown_zone (appendItemToZone d (resolveZoneKeyForPage d p) band it) q) b =
     (let xs = band_items (shown_zone d q) b in if same_scope d p q \<and> b = band then xs @ [it] else xs)
   \<and> band_items (shown_zone (updateItemInZone d (resolveZoneKeyForPage d p) band i f) q) b =
     (let xs = band_items (shown_zone d q) b in
      if same_scope d p q \<and> b = band \<and> 0 \<le> i \<and> i < int (length xs) then xs[nat i := f (xs ! nat i)] else xs)
   \<and> band_items (shown_zone (removeItemFromZone d (resolveZoneKeyForPage d p) band i) q) b =
     (let xs = band_items (shown_zone d q) b in
      if same_scope d p q \<and> b = band \<and> 0 \<le> i \<and> i < int (length xs) then splice_del (nat i) xs else xs)"
  using shown_band_append shown_band_update shown_band_remove by (simp add: Let_def)

section \<open>Templates\<close>

text \<open>A template as its author means it: text without a brace, and tokens with spaces inside.\<close>

datatype piece = Literal units | Token hf_token units units

fun render :: "piece \<Rightarrow> units" where
  "render (Literal s) = s"
| "render (Token t a b) = [123, 123] @ a @ units (token_name t) @ b @ [125, 125]"

fun piece_value :: "hf_token_context \<Rightarrow> piece \<Rightarrow> units" where
  "piece_value ctx (Literal s) = s"
| "piece_value ctx (Token t a b) = token_value ctx t"

fun piece_ok :: "piece \<Rightarrow> bool" where
  "piece_ok (Literal s) = (123 \<notin> set s)"
| "piece_ok (Token t a b) = (list_all js_ws a \<and> list_all js_ws b)"

lemma drop_ws: "list_all js_ws a \<Longrightarrow> dropWhile js_ws (a @ s) = dropWhile js_ws s"
  by (induction a) auto

lemma token_units:
  "units (token_name Tok_page) = [112, 97, 103, 101]" "units (token_name Tok_pages) = [112, 97, 103, 101, 115]"
  "units (token_name Tok_date) = [100, 97, 116, 101]" "units (token_name Tok_title) = [116, 105, 116, 108, 101]"
  by (simp_all add: units_def code_unit_def)

lemma match_token_render:
  assumes "list_all js_ws a" "list_all js_ws b"
  shows "match_token (render (Token t a b) @ s) = Some (t, s)"
proof -
  have b: "dropWhile js_ws (b @ [125, 125] @ s) = [125, 125] @ s"
    using drop_ws [OF assms(2)] by (simp add: js_ws_def)
  have no_s: "\<not> (\<exists>r. dropWhile js_ws (115 # r) = 125 # 125 # x)" for x
    by (simp add: js_ws_def)
  have a: "dropWhile js_ws (a @ units (token_name t) @ b @ [125, 125] @ s) = units (token_name t) @ b @ [125, 125] @ s"
    using drop_ws [OF assms(1)] by (cases t) (simp_all only: token_units, simp_all add: js_ws_def)
  show ?thesis
    unfolding match_token_def render.simps append.assoc
    by (cases t) (use a b in \<open>simp_all add: token_units js_ws_def del: token_name.simps\<close>)
qed

lemma substitute_literal:
  assumes "123 \<notin> set s"
  shows "substituteHFTokens ctx (s @ t) = s @ substituteHFTokens ctx t"
  using assms
proof (induction s)
  case (Cons c s)
  then have "match_token ((c # s) @ t) = None"
    by (auto simp: match_token_def)
  then show ?case
    using Cons by (subst substituteHFTokens.simps) simp
qed simp

text \<open>Drawing a template replaces every token, with any white space inside its braces, by its
  value and leaves everything else as it is.\<close>

lemma template_drawn:
  assumes "\<forall>p\<in>set ps. piece_ok p"
  shows "substituteHFTokens ctx (concat (map render ps)) = concat (map (piece_value ctx) ps)"
  using assms
proof (induction ps)
  case Nil
  then show ?case
    by (subst substituteHFTokens.simps) (simp add: match_token_def)
next
  case (Cons p ps)
  show ?case
  proof (cases p)
    case (Literal s)
    then show ?thesis
      using Cons by (simp add: substitute_literal)
  next
    case (Token t a b)
    then have "match_token (render p @ concat (map render ps)) = Some (t, concat (map render ps))"
      using Cons.prems match_token_render by simp
    then show ?thesis
      using Cons Token by (subst substituteHFTokens.simps) simp
  qed
qed

section \<open>Where a session loses an edit\<close>

text \<open>The toolbar works on the item as it was when it got the focus: a token inserted after typing
  puts the token behind the old text, and what was typed is gone.\<close>

lemma token_after_typing:
  assumes "js_nth (band_items (shown_zone (se_def s) page) band) index = Some (HF_text it)"
  shows "js_nth (band_items (shown_zone (se_def (insert_token page token (type_text page band index t
      (focus_item page band index s)))) page) band) index
    = Some (HF_text (it\<lparr>ht_text := appendTokenToText (ht_text it) token\<rparr>))"
proof -
  let ?xs = "band_items (shown_zone (se_def s) page) band"
  have i: "0 \<le> index" "nat index < length ?xs" "?xs ! nat index = HF_text it" "index < int (length ?xs)"
    using assms by (auto simp: js_nth_Some)
  have f: "focus_item page band index s = s\<lparr>se_focus := Some \<lparr>fo_band = band, fo_index = index, fo_item = it\<rparr>\<rparr>"
    using assms by (simp add: focus_item_def Let_def shown_zone_def)
  let ?d1 = "updateItemInZone (se_def s) (resolveZoneKeyForPage (se_def s) page) band index (spread_body t)"
  have d1: "band_items (shown_zone ?d1 page) band = ?xs[nat index := HF_text (it\<lparr>ht_text := t\<rparr>)]"
    using i by (simp add: shown_band_update Let_def)
  then show ?thesis
    using i by (simp add: f type_text_def def_change_def insert_token_def shown_band_update Let_def js_nth_def)
qed

text \<open>The image handler reads the file before it edits: what changed in between is undone.\<close>

lemma image_undoes_typing:
  fixes s :: "'img hf_session"
  assumes "se_pending s = []"
  shows "\<exists>i. se_def (image_read 0 (type_text page band index t (choose_image page bytes s))) =
    appendItemToZone (se_def s) (resolveZoneKeyForPage (se_def s) page)
      (case se_focus s of None \<Rightarrow> Header_band | Some f \<Rightarrow> fo_band f)
      (HF_image (makeImageItem i 80 24 (Some Al_left)))"
  by (rule exI [of _ "rg_nextId (se_registry s)"]) (simp add: assms choose_image_def type_text_def def_change_def
      image_read_def insert_image_end_def Let_def registry_add_def)

text \<open>A recorded definition may hold images, but the registry of the session starts empty: the first
  new image takes number 1 whether the definition uses it or not.\<close>

lemma image_number_reused:
  fixes s :: "'img hf_session"
  assumes "s = open_session (Some d)"
  shows "se_def (image_read 0 (choose_image page bytes s)) =
    appendItemToZone d (resolveZoneKeyForPage d page) Header_band (HF_image (makeImageItem 1 80 24 (Some Al_left)))"
  using assms by (simp add: choose_image_def def_change_def image_read_def insert_image_end_def Let_def
      registry_add_def open_session_def empty_registry_def)

text \<open>A recorded definition with a flag but without its zone: the page shows empty bands while the
  engine draws the default zone.\<close>

lemma missing_override_shown_empty:
  assumes "hd_differentFirstPage d" "hd_firstPage d = None"
  shows "shown_zone d 1 = emptyHFZone \<and> selectZoneForPage d 1 = hd_default d"
  using assms by (simp add: shown_zone_def resolveZoneKeyForPage_def zoneForKey_def zone_or_def selectZoneForPage_def)

lemma template_drawn_witness:
  "substituteHFTokens \<lparr>tk_page = 2, tk_pages = 9, tk_date = None, tk_title = None\<rparr>
     (units ''p. {{ page }}/{{pages}}'') = units ''p. 2/9''"
proof -
  let ?ps = "[Literal (units ''p. ''), Token Tok_page [32] [32], Literal (units ''/''), Token Tok_pages [] []]"
  have "\<forall>p\<in>set ?ps. piece_ok p"
    by (simp add: units_def code_unit_def js_ws_def)
  moreover have "concat (map render ?ps) = units ''p. {{ page }}/{{pages}}''"
    by (simp add: units_def code_unit_def)
  moreover have "concat (map (piece_value \<lparr>tk_page = 2, tk_pages = 9, tk_date = None, tk_title = None\<rparr>) ?ps) = units ''p. 2/9''"
    by (simp add: units_def int_str_def nat_str.simps [of 10 2] nat_str.simps [of 10 9] digit_char_def code_unit_def)
  ultimately show ?thesis
    using template_drawn [of ?ps "\<lparr>tk_page = 2, tk_pages = 9, tk_date = None, tk_title = None\<rparr>"] by simp
qed

section \<open>Colours\<close>

lemma hf_hex_byte: "k < 256 \<Longrightarrow> hf_hex (of_nat k) = [digit_char (k div 16), digit_char (k mod 16)]"
proof -
  assume k: "k < 256"
  have "js_round (of_nat k) = int k"
    using js_round_int [of "int k"] by simp
  moreover have "max 0 (min 255 (int k)) = int k"
    using k by simp
  ultimately have "hf_hex (of_nat k) = toHex (of_nat k / 255)"
    using k clamp255_byte [of "int k"] by (simp only: hf_hex_def toHex_def) simp
  then show ?thesis
    using k by (simp add: toHex_byte)
qed

text \<open>A colour of byte channels is read back from the hex text the toolbar shows.\<close>

lemma hf_colour_round_trip:
  assumes "r < 256" "g < 256" "b < 256"
  shows "hexToHfColor (hfColorToHex (Some (of_nat r, of_nat g, of_nat b))) = (of_nat r, of_nat g, of_nat b)"
proof -
  let ?d = "\<lambda>k. [digit_char (k div 16), digit_char (k mod 16)]"
  have dig: "is_digit 16 (digit_char (k div 16))" "is_digit 16 (digit_char (k mod 16))" if "k < 256" for k
    using that by (auto intro!: is_digit_char)
  have val: "the (digit_val (digit_char d)) = d" if "d < 16" for d
    using that by (simp add: digit_val_char)
  have ns: "\<not> js_space c" if "is_digit 16 c" for c
    using not_space_digit [OF that] by simp
  have hash: "\<not> js_space CHR ''#''"
    by (simp add: js_space_def code_unit_def)
  have h: "hfColorToHex (Some (of_nat r, of_nat g, of_nat b)) = CHR ''#'' # ?d r @ ?d g @ ?d b"
    using assms by (simp add: hfColorToHex_def hf_hex_byte)
  have trim: "js_trim (CHR ''#'' # ?d r @ ?d g @ ?d b) = CHR ''#'' # ?d r @ ?d g @ ?d b"
    using ns [OF dig(2) [OF assms(3)]] hash by (simp add: js_trim_def)
  have two: "digits_value 16 (s @ ?d k) = digits_value 16 s * 256 + k" if "k < 256" for s k
  proof -
    have "digits_value 16 (s @ ?d k) = (digits_value 16 s * 16 + k div 16) * 16 + k mod 16"
      using digits_value_append [of 16 "s @ [digit_char (k div 16)]" "digit_char (k mod 16)"]
        digits_value_append [of 16 s "digit_char (k div 16)"] val [of "k div 16"] val [of "k mod 16"] that by simp
    also have "\<dots> = digits_value 16 s * 256 + (k div 16 * 16 + k mod 16)"
      by simp
    finally show ?thesis
      by (simp only: div_mult_mod_eq)
  qed
  have "digits_value 16 (?d r @ ?d g @ ?d b) = r * 65536 + g * 256 + b"
    using two [OF assms(3), of "?d r @ ?d g"] two [OF assms(2), of "?d r"] two [OF assms(1), of "[]"]
    by (simp add: digits_value_def)
  moreover have "(r * 65536 + g * 256 + b) div 65536 = r" "(r * 65536 + g * 256 + b) div 256 mod 256 = g"
    "(r * 65536 + g * 256 + b) mod 256 = b"
  proof -
    have n: "r * 65536 + g * 256 + b = b + (g + r * 256) * 256"
      by simp
    have d: "(r * 65536 + g * 256 + b) div 256 = g + r * 256"
      unfolding n using assms(3) by (subst div_mult_self1) simp_all
    show "(r * 65536 + g * 256 + b) mod 256 = b"
      unfolding n using assms(3) by (subst mod_mult_self1) simp
    show "(r * 65536 + g * 256 + b) div 256 mod 256 = g"
      unfolding d using assms(2) by (subst mod_mult_self1) simp
    have "(r * 65536 + g * 256 + b) div 65536 = (r * 65536 + g * 256 + b) div 256 div 256"
      by (simp add: div_mult2_eq [symmetric])
    also have "\<dots> = r"
      unfolding d using assms(2) by (subst div_mult_self1) simp_all
    finally show "(r * 65536 + g * 256 + b) div 65536 = r" .
  qed
  ultimately show ?thesis
    using dig assms unfolding hexToHfColor_def h trim Let_def list.case by simp
qed

end
