(* ===== verification/Outline_Edit.thy ===== *)
theory Outline_Edit
  imports Engine Color
begin

text \<open>
  The outline of a document (its bookmarks): the flat list the panel of the editor works on and the
  tree it is saved as (\<open>editor/lib/outline-edit.ts\<close>), the panel itself (\<open>toc-panel.tsx\<close>), the writing
  of a tree into the PDF (\<open>outline-bake.ts\<close>), its reading (\<open>parse/bookmark-extractor.ts\<close>) and the
  detection of chapters (\<open>api/pdf/structure/extract-chapters.ts\<close>). A reference to a node of a tree
  under construction is its path: the positions to follow from the roots. The random ids are an
  argument; page numbers are integers.
\<close>

section \<open>Trees and flat lists\<close>

record bookmark_style =
  bs_bold :: bool
  bs_italic :: bool
  bs_color :: string

datatype bookmark_zoom = Zoom_factor jsnum | Zoom_fit | Zoom_fit_width | Zoom_fit_height

record bookmark_dest =
  bd_pageNumber :: int
  bd_position :: "(jsnum \<times> jsnum) option"
  bd_zoom :: "bookmark_zoom option"

datatype bookmark = Bookmark (bk_id: string) (bk_title: "string option") (bk_dest: "bookmark_dest option")
  (bk_style: bookmark_style) (bk_children: "bookmark list")

record flat_bookmark =
  fb_id :: string
  fb_title :: string
  fb_page :: int
  fb_level :: int

definition plain_entry_style :: bookmark_style where
  "plain_entry_style = \<lparr>bs_bold = False, bs_italic = False, bs_color = ''#000000''\<rparr>"

definition plain_dest :: "int \<Rightarrow> bookmark_dest" where
  "plain_dest page = \<lparr>bd_pageNumber = page, bd_position = None, bd_zoom = None\<rparr>"

text \<open>The counter of synthetic ids, with the clock as a function of the count.\<close>

definition nextId :: "(nat \<Rightarrow> string) \<Rightarrow> nat \<Rightarrow> string \<times> nat" where
  "nextId clock c = (''new-'' @ nat_str 10 (Suc c) @ ''-'' @ clock (Suc c), Suc c)"

definition title_of :: "string option \<Rightarrow> string" where
  "title_of t = (case t of None \<Rightarrow> [] | Some s \<Rightarrow> s)"

fun treeToFlat :: "(nat \<Rightarrow> string) \<Rightarrow> bookmark list \<Rightarrow> int \<Rightarrow> nat \<Rightarrow> flat_bookmark list \<times> nat" where
  "treeToFlat clock [] level c = ([], c)"
| "treeToFlat clock (Bookmark i t d s children # nodes) level c =
     (let (ident, c1) = (if i \<noteq> [] then (i, c) else nextId clock c);
          item = \<lparr>fb_id = ident, fb_title = title_of t,
                  fb_page = (case d of None \<Rightarrow> 1 | Some dest \<Rightarrow> bd_pageNumber dest), fb_level = level\<rparr>;
          (below, c2) = treeToFlat clock children (level + 1) c1;
          (after, c3) = treeToFlat clock nodes level c2
      in (item # below @ after, c3))"

text \<open>The node a path leads to, by its children; the empty path stands for the roots.\<close>

fun children_at :: "nat list \<Rightarrow> bookmark list \<Rightarrow> bookmark list" where
  "children_at [] bs = bs"
| "children_at (i # p) bs = children_at p (bk_children (bs ! i))"

fun with_children :: "bookmark \<Rightarrow> bookmark list \<Rightarrow> bookmark" where
  "with_children (Bookmark i t d s ch) ch' = Bookmark i t d s ch'"

text \<open>\<open>node.children.push(child)\<close> for the node at a path.\<close>

fun add_child :: "nat list \<Rightarrow> bookmark \<Rightarrow> bookmark list \<Rightarrow> bookmark list" where
  "add_child [] n bs = bs @ [n]"
| "add_child (i # p) n bs = bs[i := with_children (bs ! i) (add_child p n (bk_children (bs ! i)))]"

definition flat_node :: "flat_bookmark \<Rightarrow> bookmark" where
  "flat_node item = Bookmark (fb_id item) (Some (fb_title item)) (Some (plain_dest (fb_page item))) plain_entry_style []"

text \<open>One round of \<open>flatToTree\<close>: the roots and the stack of open nodes with their levels.\<close>

definition flat_step ::
  "flat_bookmark \<Rightarrow> bookmark list \<times> (nat list \<times> int) list \<Rightarrow> bookmark list \<times> (nat list \<times> int) list" where
  "flat_step item acc = (case acc of (roots, stack) \<Rightarrow>
     let level = max 0 (fb_level item); node = flat_node item;
         open_nodes = dropWhile (\<lambda>(p, l). l \<ge> level) stack
     in case open_nodes of
          [] \<Rightarrow> (roots @ [node], [([length roots], 0)])
        | (p, l) # rest \<Rightarrow> (add_child p node roots, (p @ [length (children_at p roots)], l + 1) # open_nodes))"

definition flatToTree :: "flat_bookmark list \<Rightarrow> bookmark list" where
  "flatToTree flat = fst (fold flat_step flat ([], []))"

section \<open>Edits of the flat list\<close>

definition insertBookmark ::
  "(nat \<Rightarrow> string) \<Rightarrow> flat_bookmark list \<Rightarrow> int \<Rightarrow> string \<Rightarrow> int option \<Rightarrow> nat \<Rightarrow> flat_bookmark list \<times> nat" where
  "insertBookmark clock flat page title index c =
     (let (ident, c') = nextId clock c;
          item = \<lparr>fb_id = ident, fb_title = title, fb_page = page, fb_level = 0\<rparr>;
          pos = (case index of None \<Rightarrow> length flat | Some i \<Rightarrow> nat (max 0 (min i (int (length flat)))))
      in (splice_ins pos item flat, c'))"

definition removeBookmark :: "flat_bookmark list \<Rightarrow> string \<Rightarrow> flat_bookmark list" where
  "removeBookmark flat i = filter (\<lambda>b. fb_id b \<noteq> i) flat"

definition renameBookmark :: "flat_bookmark list \<Rightarrow> string \<Rightarrow> string \<Rightarrow> flat_bookmark list" where
  "renameBookmark flat i title = map (\<lambda>b. if fb_id b = i then b\<lparr>fb_title := title\<rparr> else b) flat"

definition moveBookmark :: "flat_bookmark list \<Rightarrow> string \<Rightarrow> int \<Rightarrow> flat_bookmark list" where
  "moveBookmark flat i dir =
     (case find_index (\<lambda>b. fb_id b = i) flat of
        None \<Rightarrow> flat
      | Some idx \<Rightarrow> (let dest = int idx + dir in
          if dest < 0 \<or> dest \<ge> int (length flat) then flat
          else splice_ins (nat dest) (flat ! idx) (splice_del idx flat)))"

definition reindentBookmark :: "flat_bookmark list \<Rightarrow> string \<Rightarrow> int \<Rightarrow> flat_bookmark list" where
  "reindentBookmark flat i delta =
     (case find_index (\<lambda>b. fb_id b = i) flat of
        None \<Rightarrow> flat
      | Some idx \<Rightarrow> (let current = flat ! idx in
          if delta = 1 then
            (if idx = 0 then flat
             else if fb_level current \<ge> fb_level (flat ! (idx - 1)) + 1 then flat
             else map (\<lambda>b. if fb_id b = i then b\<lparr>fb_level := fb_level b + 1\<rparr> else b) flat)
          else if fb_level current = 0 then flat
          else map (\<lambda>b. if fb_id b = i then b\<lparr>fb_level := fb_level b - 1\<rparr> else b) flat))"

section \<open>The panel\<close>

text \<open>The state of the editor of the panel is the flat list and the counter of ids. The number the
  user types is \<open>None\<close> when it is no number.\<close>

definition clampPage :: "int option \<Rightarrow> int \<Rightarrow> int" where
  "clampPage pageCount page =
     (let upper = (case pageCount of Some n \<Rightarrow> if n > 0 then n else 9007199254740991 | None \<Rightarrow> 9007199254740991)
      in max 1 (min page upper))"

definition setPage :: "int option \<Rightarrow> flat_bookmark list \<Rightarrow> string \<Rightarrow> int option \<Rightarrow> flat_bookmark list" where
  "setPage pageCount flat i raw =
     (let page = clampPage pageCount (case raw of None \<Rightarrow> 1 | Some n \<Rightarrow> if n = 0 then 1 else n)
      in map (\<lambda>b. if fb_id b = i then b\<lparr>fb_page := page\<rparr> else b) flat)"

datatype toc_event =
    Toc_add "int option"
  | Toc_rename string string
  | Toc_set_page string "int option"
  | Toc_outdent string
  | Toc_indent string
  | Toc_up string
  | Toc_down string
  | Toc_remove string

fun toc_step ::
  "(nat \<Rightarrow> string) \<Rightarrow> int option \<Rightarrow> string \<Rightarrow> toc_event \<Rightarrow> flat_bookmark list \<times> nat \<Rightarrow> flat_bookmark list \<times> nat" where
  "toc_step clock pageCount new_title (Toc_add currentPageIndex) (flat, c) =
     insertBookmark clock flat
       (clampPage pageCount ((case currentPageIndex of None \<Rightarrow> 0 | Some k \<Rightarrow> k) + 1)) new_title None c"
| "toc_step clock pageCount new_title (Toc_rename i title) (flat, c) = (renameBookmark flat i title, c)"
| "toc_step clock pageCount new_title (Toc_set_page i raw) (flat, c) = (setPage pageCount flat i raw, c)"
| "toc_step clock pageCount new_title (Toc_outdent i) (flat, c) = (reindentBookmark flat i (-1), c)"
| "toc_step clock pageCount new_title (Toc_indent i) (flat, c) = (reindentBookmark flat i 1, c)"
| "toc_step clock pageCount new_title (Toc_up i) (flat, c) = (moveBookmark flat i (-1), c)"
| "toc_step clock pageCount new_title (Toc_down i) (flat, c) = (moveBookmark flat i 1, c)"
| "toc_step clock pageCount new_title (Toc_remove i) (flat, c) = (removeBookmark flat i, c)"

record bookmark_input =
  bi_title :: string
  bi_level :: int
  bi_page :: int

text \<open>What the panel hands to \<open>onApplyOutline\<close> and to \<open>onApplyBookmarks\<close>.\<close>

definition handleSave :: "flat_bookmark list \<Rightarrow> bookmark list \<times> bookmark_input list" where
  "handleSave flat = (flatToTree flat,
     map (\<lambda>b. \<lparr>bi_title = fb_title b, bi_level = fb_level b, bi_page = fb_page b\<rparr>) flat)"

definition handleSaveDetected :: "bookmark_input list \<Rightarrow> (bookmark list \<times> bookmark_input list) option" where
  "handleSaveDetected detected =
     (if detected = [] then None
      else Some (flatToTree (map_index (\<lambda>i c. \<lparr>fb_id = ''detected-'' @ nat_str 10 i, fb_title = bi_title c,
              fb_page = bi_page c, fb_level = bi_level c\<rparr>) detected), detected))"

fun countBookmarks :: "bookmark list \<Rightarrow> nat" where
  "countBookmarks [] = 0"
| "countBookmarks (Bookmark i t d s children # nodes) = 1 + countBookmarks children + countBookmarks nodes"

section \<open>Writing and reading\<close>

fun flattenOutline :: "bookmark list \<Rightarrow> nat \<Rightarrow> outline_entry list" where
  "flattenOutline [] level = []"
| "flattenOutline (Bookmark i t d s children # nodes) level =
     \<lparr>ol_level = level, ol_title = title_of t,
      ol_page = (case d of None \<Rightarrow> None
         | Some dest \<Rightarrow> if bd_pageNumber dest > 0 then Some (bd_pageNumber dest) else None)\<rparr>
     # flattenOutline children (Suc level) @ flattenOutline nodes level"

definition bakeOutline :: "('b, 'd) engine \<Rightarrow> 'b \<Rightarrow> bookmark list \<Rightarrow> ('d, 'b \<times> nat) eff" where
  "bakeOutline E source outline =
     (let flat = flattenOutline outline 0 in
      eff_bind (open_doc E Plain_error source) (\<lambda>k.
        eff_finally
          (eff_bind (mutate_doc k (\<lambda>d. Inr (en_setOutline E flat d))) (\<lambda>_.
           eff_bind (call_doc k (en_saveCompressed E)) (\<lambda>bytes.
           eff_return (bytes, length flat))))
          (close_doc k)))"

text \<open>The file the editor goes on with; a failed bake is reported and keeps the old one.\<close>

definition handleApplyOutline :: "('b, 'd) engine \<Rightarrow> 'b option \<Rightarrow> bookmark list \<Rightarrow> ('d, 'b option) eff" where
  "handleApplyOutline E file outline w =
     (case file of None \<Rightarrow> (Inr None, w)
      | Some b \<Rightarrow> (case bakeOutline E b outline w of
           (Inl e, w') \<Rightarrow> (Inr (Some b), w')
         | (Inr (bytes, n), w') \<Rightarrow> (Inr (Some bytes), w')))"

text \<open>An entry as the engine reads it: with the kind of its destination and its style.\<close>

record outline_item = outline_entry +
  oi_destKind :: string
  oi_x :: "jsnum option"
  oi_y :: "jsnum option"
  oi_zoom :: "jsnum option"
  oi_bold :: "bool option"
  oi_italic :: "bool option"
  oi_color :: "(jsnum \<times> jsnum \<times> jsnum) option"

definition mapZoom :: "outline_item \<Rightarrow> bookmark_zoom option" where
  "mapZoom e =
     (if oi_destKind e = ''xyz'' then
        (case oi_zoom e of Some z \<Rightarrow> if z > 0 then Some (Zoom_factor z) else None | None \<Rightarrow> None)
      else if oi_destKind e \<in> {''fit'', ''fitb''} then Some Zoom_fit
      else if oi_destKind e \<in> {''fith'', ''fitbh''} then Some Zoom_fit_width
      else if oi_destKind e \<in> {''fitv'', ''fitbv''} then Some Zoom_fit_height
      else None)"

definition mapEntry :: "string \<Rightarrow> outline_item \<Rightarrow> bookmark" where
  "mapEntry uuid e = Bookmark uuid (Some (ol_title e))
     (Some \<lparr>bd_pageNumber = (case ol_page e of None \<Rightarrow> 1 | Some p \<Rightarrow> p),
            bd_position = (if oi_destKind e = ''xyz'' then
                (case (oi_x e, oi_y e) of (Some x, Some y) \<Rightarrow> Some (x, y) | _ \<Rightarrow> None) else None),
            bd_zoom = mapZoom e\<rparr>)
     \<lparr>bs_bold = (case oi_bold e of None \<Rightarrow> False | Some b \<Rightarrow> b),
      bs_italic = (case oi_italic e of None \<Rightarrow> False | Some b \<Rightarrow> b),
      bs_color = (case oi_color e of None \<Rightarrow> ''#000000'' | Some (r, g, b) \<Rightarrow> rgbToHex r g b)\<rparr> []"

text \<open>\<open>parents[level] = node; parents.length = level + 1\<close>, with the holes a jump leaves.\<close>

definition set_parent :: "nat \<Rightarrow> nat list \<Rightarrow> nat list option list \<Rightarrow> nat list option list" where
  "set_parent level p parents =
     map (\<lambda>i. if i < length parents then parents ! i else None) [0..<level] @ [Some p]"

definition extract_step ::
  "string \<times> outline_item \<Rightarrow> bookmark list \<times> nat list option list \<Rightarrow> bookmark list \<times> nat list option list" where
  "extract_step entry acc = (case acc of (roots, parents) \<Rightarrow>
     let node = mapEntry (fst entry) (snd entry); level = ol_level (snd entry);
         parent = (if level > 0 \<and> level - 1 < length parents then parents ! (level - 1) else None)
     in case parent of
          Some p \<Rightarrow> (add_child p node roots, set_parent level (p @ [length (children_at p roots)]) parents)
        | None \<Rightarrow> (roots @ [node], set_parent level [length roots] parents))"

definition extract_tree :: "(nat \<Rightarrow> string) \<Rightarrow> outline_item list \<Rightarrow> bookmark list" where
  "extract_tree uuid entries = fst (fold extract_step (map_index (\<lambda>i e. (uuid i, e)) entries) ([], []))"

text \<open>The reader of the full entries is an argument; every error gives no bookmarks.\<close>

definition extractBookmarks ::
  "('b, 'd) engine \<Rightarrow> ('d \<Rightarrow> outline_item list) \<Rightarrow> (nat \<Rightarrow> string) \<Rightarrow> 'b \<Rightarrow> ('d, bookmark list) eff" where
  "extractBookmarks E outline uuid b w =
     (case eff_bind (open_doc E Plain_error b)
        (\<lambda>k. eff_finally (read_doc k (\<lambda>d. extract_tree uuid (outline d))) (close_doc k)) w of
        (Inl e, w') \<Rightarrow> (Inr [], w')
      | (Inr bs, w') \<Rightarrow> (Inr bs, w'))"

section \<open>Trees and their rows\<close>

text \<open>The nodes of a tree in preorder, each with its depth and without its children.\<close>

fun preorder :: "nat \<Rightarrow> bookmark list \<Rightarrow> (nat \<times> bookmark) list" where
  "preorder l [] = []"
| "preorder l (Bookmark i t d s ch # bs) = (l, Bookmark i t d s []) # preorder (Suc l) ch @ preorder l bs"

lemma preorder_append: "preorder l (bs @ cs) = preorder l bs @ preorder l cs"
  by (induction l bs rule: preorder.induct) auto

text \<open>A path along the right edge of the tree under construction.\<close>

fun right_edge :: "nat list \<Rightarrow> bookmark list \<Rightarrow> bool" where
  "right_edge [] bs = True"
| "right_edge (i # p) bs = (bs \<noteq> [] \<and> i = length bs - 1 \<and> right_edge p (bk_children (bs ! i)))"

lemma bk_children_with [simp]: "bk_children (with_children b ch) = ch"
  by (cases b) auto

lemma preorder_with: "preorder l [with_children b ch] = (l, with_children b []) # preorder (Suc l) ch"
  by (cases b) auto

lemma with_own_children [simp]: "with_children b (bk_children b) = b"
  by (cases b) auto

lemma preorder_add_child:
  "right_edge p bs \<Longrightarrow> preorder l (add_child p n bs) = preorder l bs @ preorder (l + length p) [n]"
proof (induction p arbitrary: l bs)
  case (Cons i p)
  obtain as b where bs: "bs = as @ [b]"
    using Cons.prems by (cases bs rule: rev_cases) auto
  then have i: "i = length as" and e: "right_edge p (bk_children b)"
    using Cons.prems by auto
  have "preorder l [with_children b (add_child p n (bk_children b))] = preorder l [b] @ preorder (l + length (i # p)) [n]"
    using Cons.IH [OF e, of "Suc l"] preorder_with [of l b "bk_children b"] by (simp add: preorder_with)
  then show ?case
    by (simp add: bs i preorder_append)
qed (simp add: preorder_append)

lemma add_child_path:
  assumes "right_edge p bs"
  shows "right_edge (p @ [length (children_at p bs)]) (add_child p n bs)"
    and "children_at p (add_child p n bs) = children_at p bs @ [n]"
    and "children_at (p @ [length (children_at p bs)]) (add_child p n bs) = bk_children n"
  using assms by (induction p arbitrary: bs) auto

lemma right_edge_take: "right_edge q bs \<Longrightarrow> right_edge (take k q) bs"
  by (induction q arbitrary: bs k) (auto simp: take_Cons split: nat.split)

text \<open>Hanging a node below the open node of a level, or as deep as possible.\<close>

definition attach :: "nat \<Rightarrow> bookmark \<Rightarrow> bookmark list \<times> nat list \<Rightarrow> bookmark list \<times> nat list" where
  "attach l n acc = (case acc of (bs, q) \<Rightarrow> let p = take l q in
     (add_child p n bs, p @ [length (children_at p bs)]))"

definition attach_all :: "(nat \<times> bookmark) list \<Rightarrow> bookmark list \<times> nat list \<Rightarrow> bookmark list \<times> nat list" where
  "attach_all rows = fold (\<lambda>(l, n). attach l n) rows"

lemma attach_all_simps [simp]:
  "attach_all [] acc = acc" "attach_all ((l, n) # rows) acc = attach_all rows (attach l n acc)"
  "attach_all (rows @ rows') acc = attach_all rows' (attach_all rows acc)"
  by (simp_all add: attach_all_def)

definition add_children :: "nat list \<Rightarrow> bookmark list \<Rightarrow> bookmark list \<Rightarrow> bookmark list" where
  "add_children p ns bs = fold (add_child p) ns bs"

lemma add_child_twice:
  "right_edge p bs \<Longrightarrow>
   add_child (p @ [length (children_at p bs)]) c (add_child p n bs) = add_child p (with_children n (bk_children n @ [c])) bs"
proof (induction p arbitrary: bs)
  case (Cons i p)
  obtain as b where bs: "bs = as @ [b]"
    using Cons.prems by (cases bs rule: rev_cases) auto
  then show ?case using Cons by (cases b) auto
qed (cases n, auto)

lemma add_children_below:
  assumes "right_edge p bs"
  shows "add_children (p @ [length (children_at p bs)]) cs (add_child p (with_children n ds) bs)
    = add_child p (with_children n (ds @ cs)) bs"
proof (induction cs arbitrary: ds)
  case (Cons c cs)
  have [simp]: "with_children (with_children n ds) x = with_children n x" for x
    by (cases n) auto
  show ?case
    using Cons.IH [of "ds @ [c]"] assms by (simp add: add_children_def add_child_twice)
qed (simp add: add_children_def)

lemma attach_preorder:
  "right_edge q bs \<Longrightarrow> l \<le> length q \<Longrightarrow>
   \<exists>q'. attach_all (preorder l ns) (bs, q) = (add_children (take l q) ns bs, q')
     \<and> take l q' = take l q \<and> l \<le> length q' \<and> right_edge q' (add_children (take l q) ns bs)"
proof (induction l ns arbitrary: bs q rule: preorder.induct)
  case (2 l i t d s ch ns)
  let ?n = "Bookmark i t d s []" and ?p = "take l q"
  let ?q1 = "?p @ [length (children_at ?p bs)]" and ?b1 = "add_child ?p ?n bs"
  have e: "right_edge ?p bs"
    using "2.prems" right_edge_take by blast
  have "right_edge ?q1 ?b1" "Suc l \<le> length ?q1"
    using add_child_path(1) [OF e] "2.prems"(2) by auto
  then obtain q2 where q2: "attach_all (preorder (Suc l) ch) (?b1, ?q1) = (add_children (take (Suc l) ?q1) ch ?b1, q2)"
    "take (Suc l) q2 = take (Suc l) ?q1" "Suc l \<le> length q2"
    "right_edge q2 (add_children (take (Suc l) ?q1) ch ?b1)"
    using "2.IH"(1) by blast
  have t1: "take (Suc l) ?q1 = ?q1"
    using "2.prems"(2) by simp
  have b2: "add_children ?q1 ch ?b1 = add_child ?p (Bookmark i t d s ch) bs"
    using add_children_below [OF e, of ch ?n "[]"] by simp
  have tl: "take l q2 = ?p"
  proof -
    have "take l q2 = take l (take (Suc l) q2)" by simp
    also have "\<dots> = ?p" using q2(2) t1 "2.prems"(2) by (simp add: min_def)
    finally show ?thesis .
  qed
  have "right_edge q2 (add_child ?p (Bookmark i t d s ch) bs)" "l \<le> length q2"
    using q2(3,4) t1 b2 by auto
  from "2.IH"(2) [OF this] obtain q3 where
    "attach_all (preorder l ns) (add_child ?p (Bookmark i t d s ch) bs, q2)
       = (add_children ?p ns (add_child ?p (Bookmark i t d s ch) bs), q3)"
    "take l q3 = ?p" "l \<le> length q3" "right_edge q3 (add_children ?p ns (add_child ?p (Bookmark i t d s ch) bs))"
    using tl by auto
  then show ?case
    using q2(1) t1 b2 by (simp add: attach_def add_children_def Let_def)
qed (simp add: add_children_def)

lemma fold_add_roots: "fold (add_child []) ns bs = bs @ ns"
  by (induction ns arbitrary: bs) auto

lemma rebuild_tree: "fst (attach_all (preorder 0 bs) ([], [])) = bs"
  using attach_preorder [of "[]" "[]" 0 bs] by (auto simp: add_children_def fold_add_roots)

lemma preorder_inj: "preorder 0 bs = preorder 0 cs \<longleftrightarrow> bs = cs"
  using rebuild_tree by metis


section \<open>Both builders attach\<close>

definition stack_of :: "nat list \<Rightarrow> (nat list \<times> int) list" where
  "stack_of q = map (\<lambda>k. (take (Suc k) q, int k)) (rev [0..<length q])"

definition parents_of :: "nat list \<Rightarrow> nat list option list" where
  "parents_of q = map (\<lambda>k. Some (take (Suc k) q)) [0..<length q]"

lemma stack_of_Nil [simp]: "stack_of [] = []"
  by (simp add: stack_of_def)

lemma stack_of_snoc [simp]: "stack_of (q @ [i]) = (q @ [i], int (length q)) # stack_of q"
  by (simp add: stack_of_def)

lemma popped_stack:
  "dropWhile (\<lambda>(p, l). l \<ge> level) (stack_of q) = stack_of (take (nat level) q)"
proof (induction q rule: rev_induct)
  case (snoc i q)
  show ?case
  proof (cases "level \<le> int (length q)")
    case True
    then show ?thesis using snoc by simp
  next
    case False
    then have "take (nat level) (q @ [i]) = q @ [i]" by simp
    then show ?thesis using False by simp
  qed
qed simp

lemma flat_step_attach:
  "flat_step item (bs, stack_of q) =
     (let (bs', q') = attach (nat (fb_level item)) (flat_node item) (bs, q) in (bs', stack_of q'))"
proof -
  have n: "nat (max 0 (fb_level item)) = nat (fb_level item)" by simp
  let ?p = "take (nat (fb_level item)) q"
  show ?thesis
  proof (cases ?p rule: rev_cases)
    case Nil
    have "stack_of [j] = [([j], 0)]" for j
      by (simp add: stack_of_def)
    then show ?thesis
      unfolding flat_step_def attach_def popped_stack n Let_def prod.case
      by (simp add: Nil)
  next
    case (snoc p i)
    have "stack_of (?p @ [j]) = (?p @ [j], int (length p) + 1) # stack_of ?p" for j
      using stack_of_snoc [of ?p j] by (simp only: snoc length_append) simp
    then show ?thesis
      unfolding flat_step_def attach_def popped_stack n Let_def prod.case
      by (simp add: snoc)
  qed
qed

lemma fold_flat_step:
  "fold flat_step flat (bs, stack_of q) =
     (let (bs', q') = attach_all (map (\<lambda>b. (nat (fb_level b), flat_node b)) flat) (bs, q) in (bs', stack_of q'))"
  by (induction flat arbitrary: bs q) (auto simp: flat_step_attach split: prod.split)

lemma flatToTree_attach:
  "flatToTree flat = fst (attach_all (map (\<lambda>b. (nat (fb_level b), flat_node b)) flat) ([], []))"
  using fold_flat_step [of flat "[]" "[]"] by (simp add: flatToTree_def split: prod.split)

text \<open>The levels a builder gives: at most one deeper than the node before.\<close>

fun clamp_levels :: "int \<Rightarrow> flat_bookmark list \<Rightarrow> flat_bookmark list" where
  "clamp_levels deepest [] = []"
| "clamp_levels deepest (b # bs) = (let l = max 0 (min (fb_level b) deepest) in
     b\<lparr>fb_level := l\<rparr> # clamp_levels (l + 1) bs)"

fun legal_rows :: "nat \<Rightarrow> (nat \<times> 'a) list \<Rightarrow> bool" where
  "legal_rows deepest [] = True"
| "legal_rows deepest ((l, x) # rows) = (l \<le> deepest \<and> legal_rows (Suc l) rows)"

lemma preorder_attach_all:
  assumes "right_edge q bs" "\<forall>(l, n)\<in>set rows. bk_children n = []" "legal_rows (length q) rows"
  shows "preorder 0 (fst (attach_all rows (bs, q))) = preorder 0 bs @ rows"
  using assms
proof (induction rows arbitrary: bs q)
  case (Cons r rows)
  obtain l n where r: "r = (l, n)" by (cases r)
  let ?p = "take l q"
  have e: "right_edge ?p bs" using Cons.prems(1) right_edge_take by blast
  have len: "length ?p = l" using Cons.prems(3) by (simp add: r)
  have n: "preorder l [n] = [(l, n)]"
    using Cons.prems(2) by (cases n) (auto simp: r)
  have "preorder 0 (fst (attach_all rows (add_child ?p n bs, ?p @ [length (children_at ?p bs)])))
      = preorder 0 (add_child ?p n bs) @ rows"
    using Cons.prems add_child_path(1) [OF e] len by (intro Cons.IH) (auto simp: r)
  then show ?case
    using preorder_add_child [OF e, of 0 n] len n by (simp add: r attach_def Let_def)
qed simp

lemma attach_take: "attach l n (bs, q) = attach (min l (length q)) n (bs, q)"
  by (simp add: attach_def min_def)

lemma length_attach: "length (snd (attach l n (bs, q))) = Suc (min l (length q))"
  by (simp add: attach_def Let_def)

lemma attach_clamped:
  "attach_all (map (\<lambda>b. (nat (fb_level b), flat_node b)) flat) (bs, q) =
   attach_all (map (\<lambda>b. (nat (fb_level b), flat_node b)) (clamp_levels (int (length q)) flat)) (bs, q)"
proof (induction flat arbitrary: bs q)
  case (Cons b flat)
  let ?l = "max 0 (min (fb_level b) (int (length q)))"
  obtain bs' q' where a: "attach (nat (fb_level b)) (flat_node b) (bs, q) = (bs', q')" by fastforce
  have l: "min (nat (fb_level b)) (length q) = nat ?l" by simp
  have a': "attach (nat ?l) (flat_node (b\<lparr>fb_level := ?l\<rparr>)) (bs, q) = (bs', q')"
    using a attach_take [of "nat (fb_level b)" "flat_node b" bs q] by (simp add: l flat_node_def)
  have "int (length q') = ?l + 1"
    using a length_attach [of "nat (fb_level b)" "flat_node b" bs q] by (simp add: l)
  then show ?case
    using Cons.IH [of bs' q'] by (simp add: a a' Let_def)
qed simp

lemma legal_clamped:
  "legal_rows n (map (\<lambda>b. (nat (fb_level b), f b)) (clamp_levels (int n) flat))"
proof (induction flat arbitrary: n)
  case (Cons b flat)
  let ?l = "max 0 (min (fb_level b) (int n))"
  show ?case using Cons [of "Suc (nat ?l)"] by (simp add: Let_def add.commute)
qed simp

lemma preorder_flatToTree:
  "preorder 0 (flatToTree flat) = map (\<lambda>b. (nat (fb_level b), flat_node b)) (clamp_levels 0 flat)"
proof -
  have "flatToTree flat = fst (attach_all (map (\<lambda>b. (nat (fb_level b), flat_node b)) (clamp_levels 0 flat)) ([], []))"
    using attach_clamped [of flat "[]" "[]"] by (simp add: flatToTree_attach)
  then show ?thesis
    using preorder_attach_all [of "[]" "[]" "map (\<lambda>b. (nat (fb_level b), flat_node b)) (clamp_levels 0 flat)"]
      legal_clamped [of 0 flat_node flat] by (auto simp: flat_node_def)
qed

section \<open>Round trips\<close>

definition has_ids :: "bookmark list \<Rightarrow> bool" where
  "has_ids bs = list_all (\<lambda>(l, b). bk_id b \<noteq> []) (preorder 0 bs)"

definition page_of :: "bookmark_dest option \<Rightarrow> int" where
  "page_of d = (case d of None \<Rightarrow> 1 | Some dest \<Rightarrow> bd_pageNumber dest)"

definition row_flat :: "nat \<times> bookmark \<Rightarrow> flat_bookmark" where
  "row_flat r = \<lparr>fb_id = bk_id (snd r), fb_title = title_of (bk_title (snd r)),
     fb_page = page_of (bk_dest (snd r)), fb_level = int (fst r)\<rparr>"

text \<open>What the flat list does not carry is reset.\<close>

fun plain_nodes :: "bookmark list \<Rightarrow> bookmark list" where
  "plain_nodes [] = []"
| "plain_nodes (Bookmark i t d s ch # bs) =
     Bookmark i (Some (title_of t)) (Some (plain_dest (page_of d))) plain_entry_style (plain_nodes ch) # plain_nodes bs"

lemma treeToFlat_preorder:
  "list_all (\<lambda>(l, b). bk_id b \<noteq> []) (preorder l bs) \<Longrightarrow>
   treeToFlat clock bs (int l) c = (map row_flat (preorder l bs), c)"
proof (induction l bs rule: preorder.induct)
  case (2 l i t d s ch bs)
  then have "treeToFlat clock ch (int l + 1) c = (map row_flat (preorder (Suc l) ch), c)"
    by (simp add: add.commute)
  with 2 show ?case by (simp add: row_flat_def page_of_def)
qed simp

lemma preorder_plain: "preorder l (plain_nodes bs) = map (\<lambda>(l, b). (l, flat_node (row_flat (l, b)))) (preorder l bs)"
  by (induction l bs rule: preorder.induct) (auto simp: flat_node_def row_flat_def)

lemma clamp_fixed:
  "legal_rows n (map (\<lambda>b. (nat (fb_level b), b)) flat) \<Longrightarrow> \<forall>b\<in>set flat. 0 \<le> fb_level b \<Longrightarrow>
   clamp_levels (int n) flat = flat"
proof (induction flat arbitrary: n)
  case (Cons b flat)
  then have l: "max 0 (min (fb_level b) (int n)) = fb_level b" by auto
  have s: "fb_level b + 1 = int (Suc (nat (fb_level b)))" using Cons.prems by simp
  show ?case
    using Cons.IH [of "Suc (nat (fb_level b))"] Cons.prems by (simp add: l s del: of_nat_Suc)
qed simp

lemma legal_preorder: "l \<le> n \<Longrightarrow> (\<And>m. m \<ge> l \<Longrightarrow> legal_rows m rows) \<Longrightarrow> legal_rows n (map (\<lambda>(k, b). (k, f k b)) (preorder l bs) @ rows)"
proof (induction l bs arbitrary: n rows rule: preorder.induct)
  case (2 l i t d s ch bs)
  have "legal_rows m (map (\<lambda>(k, b). (k, f k b)) (preorder l bs) @ rows)" if "l \<le> m" for m
    using 2 that by blast
  then show ?case using "2.IH"(1) [of "Suc l"] "2.prems"(1) by simp
qed simp

lemma flat_rows_legal:
  "legal_rows 0 (map (\<lambda>b. (nat (fb_level b), b)) (map row_flat (preorder 0 bs)))"
proof -
  have e: "map (\<lambda>b. (nat (fb_level b), b)) (map row_flat rs) = map (\<lambda>(k, b). (k, row_flat (k, b))) rs" for rs
    by (auto simp: row_flat_def)
  show ?thesis
    unfolding e using legal_preorder [of 0 0 "[]" "\<lambda>k b. row_flat (k, b)" bs] by simp
qed

lemma set_clamp_levels: "b \<in> set (clamp_levels n flat) \<Longrightarrow> \<exists>b'\<in>set flat. \<exists>l. b = b'\<lparr>fb_level := l\<rparr> \<and> 0 \<le> l"
  by (induction n flat rule: clamp_levels.induct) (auto simp: Let_def)

lemma row_flat_node: "0 \<le> fb_level b \<Longrightarrow> row_flat (nat (fb_level b), flat_node b) = b"
  by (simp add: row_flat_def flat_node_def title_of_def page_of_def plain_dest_def)

text \<open>The list of the outline panel and the tree it is saved as correspond. Building the tree of
  any list whose ids are not empty and flattening it again gives the list with its levels limited to
  one more than the level before (and the first to 0); so a list with such levels comes back as it
  is. Flattening any tree and building it again gives the tree, except that positions, zooms and
  styles, which the list does not carry, are reset.\<close>

lemma outline_round_trip:
  assumes "\<forall>b\<in>set flat. fb_id b \<noteq> []" and "has_ids tree"
  shows "treeToFlat clock (flatToTree flat) 0 c = (clamp_levels 0 flat, c)
    \<and> (legal_rows 0 (map (\<lambda>b. (nat (fb_level b), b)) flat) \<longrightarrow> (\<forall>b\<in>set flat. 0 \<le> fb_level b) \<longrightarrow>
        treeToFlat clock (flatToTree flat) 0 c = (flat, c))
    \<and> flatToTree (fst (treeToFlat clock tree 0 c)) = plain_nodes tree"
proof -
  have ids: "\<forall>b\<in>set (clamp_levels 0 flat). fb_id b \<noteq> [] \<and> 0 \<le> fb_level b"
    using assms(1) set_clamp_levels [of _ 0 flat] by fastforce
  have "list_all (\<lambda>(l, b). bk_id b \<noteq> []) (preorder 0 (flatToTree flat))"
    using ids by (auto simp: preorder_flatToTree list_all_iff flat_node_def)
  then have "treeToFlat clock (flatToTree flat) 0 c = (map row_flat (preorder 0 (flatToTree flat)), c)"
    using treeToFlat_preorder [of 0] by simp
  moreover have "map row_flat (preorder 0 (flatToTree flat)) = clamp_levels 0 flat"
    using ids by (simp add: preorder_flatToTree row_flat_node map_idI)
  ultimately have fwd: "treeToFlat clock (flatToTree flat) 0 c = (clamp_levels 0 flat, c)"
    by simp
  let ?fl = "map row_flat (preorder 0 tree)"
  have t: "fst (treeToFlat clock tree 0 c) = ?fl"
    using assms(2) treeToFlat_preorder [of 0 tree] by (simp add: has_ids_def)
  have "clamp_levels (int 0) ?fl = ?fl"
    by (rule clamp_fixed [OF flat_rows_legal]) (auto simp: row_flat_def)
  then have "preorder 0 (flatToTree ?fl) = preorder 0 (plain_nodes tree)"
    by (auto simp: preorder_flatToTree preorder_plain row_flat_def split: prod.split)
  then have "flatToTree ?fl = plain_nodes tree"
    by (simp add: preorder_inj)
  then show ?thesis
    using fwd t clamp_fixed [of 0 flat] by simp
qed


definition toc_flat :: "flat_bookmark list" where
  "toc_flat = [\<lparr>fb_id = ''a'', fb_title = ''One'', fb_page = 1, fb_level = 0\<rparr>,
     \<lparr>fb_id = ''b'', fb_title = ''Two'', fb_page = 3, fb_level = 2\<rparr>,
     \<lparr>fb_id = ''c'', fb_title = ''Three'', fb_page = 5, fb_level = 1\<rparr>]"

lemma outline_round_trip_witness:
  "map fb_level (fst (treeToFlat (\<lambda>k. []) (flatToTree toc_flat) 0 0)) = [0, 1, 1]
   \<and> flatToTree (fst (treeToFlat (\<lambda>k. []) (flatToTree toc_flat) 0 0)) = flatToTree toc_flat"
proof -
  have a: "\<forall>b\<in>set toc_flat. fb_id b \<noteq> []" by (simp add: toc_flat_def)
  have b: "has_ids (flatToTree toc_flat)" by code_simp
  have c: "map fb_level (clamp_levels 0 toc_flat) = [0, 1, 1]" by code_simp
  have d: "plain_nodes (flatToTree toc_flat) = flatToTree toc_flat" by code_simp
  have r: "treeToFlat (\<lambda>k. []) (flatToTree toc_flat) 0 0 = (clamp_levels 0 toc_flat, 0)"
    "flatToTree (fst (treeToFlat (\<lambda>k. []) (flatToTree toc_flat) 0 0)) = plain_nodes (flatToTree toc_flat)"
    using outline_round_trip [OF a b, of "\<lambda>k. []" 0] by blast+
  have "map fb_level (fst (treeToFlat (\<lambda>k. []) (flatToTree toc_flat) 0 0)) = [0, 1, 1]"
    by (simp add: r(1) c)
  then show ?thesis
    by (rule conjI) (rule trans [OF r(2) d])
qed

section \<open>What is written is read back\<close>

lemma flattenOutline_preorder:
  "flattenOutline bs l = map (\<lambda>(k, b). \<lparr>ol_level = k, ol_title = title_of (bk_title b),
     ol_page = (if page_of (bk_dest b) > 0 \<and> bk_dest b \<noteq> None then Some (page_of (bk_dest b)) else None)\<rparr>) (preorder l bs)"
  by (induction bs l rule: flattenOutline.induct) (auto simp: page_of_def split: option.splits)

lemma extract_step_attach:
  assumes "ol_level e \<le> length q"
  shows "extract_step (u, e) (bs, parents_of q) =
    (let (bs', q') = attach (ol_level e) (mapEntry u e) (bs, q) in (bs', parents_of q'))"
proof (cases "ol_level e")
  case 0
  then show ?thesis
    by (simp add: extract_step_def attach_def set_parent_def parents_of_def Let_def)
next
  case (Suc m)
  then have m: "m < length q" using assms by simp
  have par: "m < length (parents_of q)" "parents_of q ! m = Some (take (Suc m) q)"
    using m by (simp_all add: parents_of_def)
  have "set_parent (Suc m) (take (Suc m) q @ [i]) (parents_of q) = parents_of (take (Suc m) q @ [i])" for i
    unfolding set_parent_def parents_of_def
    by (rule nth_equalityI) (use m in \<open>auto simp: nth_append min_def less_Suc_eq simp del: upt_Suc\<close>)
  then show ?thesis
    using par by (simp add: extract_step_def attach_def Suc Let_def)
qed

lemma fold_extract_step:
  "legal_rows (length q) (map (\<lambda>(u, e). (ol_level e, mapEntry u e)) es) \<Longrightarrow>
   fst (fold extract_step es (bs, parents_of q)) = fst (attach_all (map (\<lambda>(u, e). (ol_level e, mapEntry u e)) es) (bs, q))"
proof (induction es arbitrary: bs q)
  case (Cons x es)
  obtain u e where x: "x = (u, e)" by (cases x)
  obtain bs' q' where a: "attach (ol_level e) (mapEntry u e) (bs, q) = (bs', q')" by fastforce
  have "length q' = Suc (ol_level e)"
    using length_attach [of "ol_level e" "mapEntry u e" bs q] a Cons.prems by (simp add: x)
  then show ?case
    using Cons a by (simp add: x extract_step_attach)
qed simp

lemma map_map_index_snd: "map (\<lambda>(u, e). f e) (map_index (\<lambda>i e. (g i, e)) es) = map f es"
  by (rule map_map_index) simp

lemma legal_rows_map: "legal_rows n (map (\<lambda>x. (l x, f x)) xs) = legal_rows n (map (\<lambda>x. (l x, g x)) xs)"
  by (induction xs arbitrary: n) auto

lemma preorder_extract_tree:
  assumes "legal_rows 0 (map (\<lambda>e. (ol_level e, e)) es)"
  shows "preorder 0 (extract_tree uuid es) = map_index (\<lambda>i e. (ol_level e, mapEntry (uuid i) e)) es"
proof -
  let ?rows = "map (\<lambda>(u, e). (ol_level e, mapEntry u e)) (map_index (\<lambda>i e. (uuid i, e)) es)"
  have r: "?rows = map_index (\<lambda>i e. (ol_level e, mapEntry (uuid i) e)) es"
    by (intro nth_equalityI) (simp_all add: js_simps)
  have c: "case_prod f = (\<lambda>x. f (fst x) (snd x))" for f :: "string \<Rightarrow> outline_item \<Rightarrow> 'c"
    by auto
  have "map (\<lambda>x. (ol_level (snd x), ())) (map_index (\<lambda>i e. (uuid i, e)) es) = map (\<lambda>e. (ol_level e, ())) es"
    using map_map_index_snd [of "\<lambda>e. (ol_level e, ())" uuid es] by (simp add: case_prod_unfold)
  then have legal: "legal_rows 0 ?rows"
    using assms legal_rows_map [of 0 "\<lambda>x. ol_level (snd x)" "\<lambda>x. mapEntry (fst x) (snd x)" _ "\<lambda>x. ()"]
      legal_rows_map [of 0 ol_level "\<lambda>e. e" es "\<lambda>x. ()"] by (simp add: case_prod_unfold)
  have "extract_tree uuid es = fst (attach_all ?rows ([], []))"
    using fold_extract_step [of "[]" "map_index (\<lambda>i e. (uuid i, e)) es" "[]"] legal
    by (simp add: extract_tree_def parents_of_def)
  moreover have "\<forall>(l, n)\<in>set ?rows. bk_children n = []"
    by (auto simp: mapEntry_def)
  ultimately show ?thesis
    using preorder_attach_all [of "[]" "[]" ?rows] legal by (simp add: r)
qed

text \<open>The rows of a tree: depth, title and page of every node, in preorder. They determine its shape.\<close>

definition outline_rows :: "bookmark list \<Rightarrow> (int \<times> string \<times> int) list" where
  "outline_rows bs = map (\<lambda>(l, b). (int l, title_of (bk_title b), page_of (bk_dest b))) (preorder 0 bs)"

text \<open>Neither leaks a document nor frees one twice.\<close>

lemma balanced_bakeOutline: "balanced (bakeOutline E source outline)"
  unfolding bakeOutline_def Let_def
  by (intro balanced_open uses_only_bind uses_only_basic uses_only_mutate)

lemma balanced_snd: "balanced m \<Longrightarrow> (\<And>w. snd (m' w) = snd (m w)) \<Longrightarrow> balanced m'"
  by (simp add: balanced_def)

lemma balanced_extractBookmarks: "balanced (extractBookmarks E outline uuid b)"
proof (rule balanced_snd)
  show "balanced (eff_bind (open_doc E Plain_error b)
      (\<lambda>k. eff_finally (read_doc k (\<lambda>d. extract_tree uuid (outline d))) (close_doc k)))"
    by (intro balanced_open uses_only_basic)
qed (simp add: extractBookmarks_def split: prod.split sum.split)

text \<open>The entry a row of the panel becomes.\<close>

definition entry_of :: "flat_bookmark \<Rightarrow> outline_entry" where
  "entry_of b = \<lparr>ol_level = nat (fb_level b), ol_title = fb_title b,
     ol_page = (if 0 < fb_page b then Some (fb_page b) else None)\<rparr>"

lemma flattenOutline_flatToTree: "flattenOutline (flatToTree flat) 0 = map entry_of (clamp_levels 0 flat)"
  by (simp add: flattenOutline_preorder preorder_flatToTree entry_of_def flat_node_def title_of_def
      page_of_def plain_dest_def)

lemma length_clamp_levels [simp]: "length (clamp_levels n flat) = length flat"
  by (induction n flat rule: clamp_levels.induct) (auto simp: Let_def)

lemma legal_rows_levels: "map fst rows = map fst rows' \<Longrightarrow> legal_rows n rows = legal_rows n rows'"
proof (induction rows arbitrary: n rows')
  case (Cons r rows)
  then obtain r' rows'' where "rows' = r' # rows''" "fst r = fst r'" "map fst rows = map fst rows''" by auto
  then show ?case using Cons.IH [of rows''] by (cases r; cases r') auto
qed simp

text \<open>C35: The way of an edited outline through the file: the list of the panel is saved, the tree is
  written into the PDF, and reading the PDF gives bookmarks whose depths, titles and pages are, in
  order, those of the list with its levels limited to one more than the level before. The engine is
  assumed to keep the outline it is given and to open what it saved.\<close>

theorem edited_outline_read_back:
  assumes "engine_outline E bol" and "\<forall>d. map outline_entry.truncate (outline d) = en_outline E d"
    and "bakeOutline E source (fst (handleSave flat)) w = (Inr (bytes, n), w1)"
    and "en_open E bytes = Inr d" and "extractBookmarks E outline uuid bytes w1 = (Inr bs, w2)"
  shows "n = length flat \<and> bol bytes = map entry_of (clamp_levels 0 flat)
    \<and> outline_rows bs = map (\<lambda>b. (fb_level b, fb_title b, if 0 < fb_page b then fb_page b else 1)) (clamp_levels 0 flat)"
proof -
  have "n = length (flattenOutline (flatToTree flat) 0) \<and> bol bytes = flattenOutline (flatToTree flat) 0"
    using assms(1,3) by (auto simp: bakeOutline_def handleSave_def Let_def eff_bind_Inr open_doc_def eff_lift_def
        alloc_doc_def eff_finally_def mutate_doc_def call_doc_def engine_outline_def js_simps
        split: sum.splits option.splits prod.splits if_splits)
  then have n: "n = length flat" and bol: "bol bytes = map entry_of (clamp_levels 0 flat)"
    by (auto simp: flattenOutline_flatToTree)
  have "map outline_entry.truncate (outline d) = map entry_of (clamp_levels 0 flat)"
    using assms(1,2,4) bol by (auto simp: engine_outline_def)
  then have es: "map f (map outline_entry.truncate (outline d)) = map f (map entry_of (clamp_levels 0 flat))" for f :: "outline_entry \<Rightarrow> 'c"
    by simp
  have "map (\<lambda>e. ol_level e) (outline d) = map (\<lambda>b. nat (fb_level b)) (clamp_levels 0 flat)"
    using es [of ol_level] by (simp add: outline_entry.defs o_def entry_of_def)
  then have "legal_rows 0 (map (\<lambda>e. (ol_level e, e)) (outline d))"
    using legal_clamped [of 0 "\<lambda>b. ()" flat]
      legal_rows_levels [of "map (\<lambda>e. (ol_level e, e)) (outline d)"
        "map (\<lambda>b. (nat (fb_level b), b)) (clamp_levels 0 flat)"]
      legal_rows_levels [of "map (\<lambda>b. (nat (fb_level b), b)) (clamp_levels 0 flat)"
        "map (\<lambda>b. (nat (fb_level b), ())) (clamp_levels 0 flat)"] by (simp add: o_def)
  from preorder_extract_tree [OF this, of uuid]
  have "outline_rows (extract_tree uuid (outline d))
      = map (\<lambda>e. (int (ol_level e), ol_title e, case ol_page e of None \<Rightarrow> 1 | Some p \<Rightarrow> p)) (outline d)"
    by (simp add: outline_rows_def mapEntry_def title_of_def page_of_def map_map_index)
  also have "\<dots> = map (\<lambda>b. (int (nat (fb_level b)), fb_title b, if 0 < fb_page b then fb_page b else 1)) (clamp_levels 0 flat)"
    using es [of "\<lambda>e. (int (ol_level e), ol_title e, case ol_page e of None \<Rightarrow> 1 | Some p \<Rightarrow> p)"]
    by (simp add: outline_entry.defs o_def entry_of_def if_distrib cong: if_cong)
  also have "\<dots> = map (\<lambda>b. (fb_level b, fb_title b, if 0 < fb_page b then fb_page b else 1)) (clamp_levels 0 flat)"
    using set_clamp_levels [of _ 0 flat] by fastforce
  finally have rows: "outline_rows (extract_tree uuid (outline d)) = \<dots>" .
  have "bs = extract_tree uuid (outline d)"
    using assms(4,5) by (auto simp: extractBookmarks_def eff_bind_def open_doc_def eff_lift_def alloc_doc_def
        eff_finally_def read_doc_def js_simps split: sum.splits option.splits prod.splits)
  with n bol rows show ?thesis by simp
qed


text \<open>The entries of the list-backed engine, as plain ones.\<close>

definition plain_item :: "outline_entry \<Rightarrow> outline_item" where
  "plain_item e = outline_entry.extend e (outline_item.fields ''fit'' None None None None None None)"

lemma edited_outline_read_back_witness:
  "\<exists>bytes n w1 bs w2.
     bakeOutline list_engine (list_doc_of [1, 2] []) (fst (handleSave toc_flat)) empty_world = (Inr (bytes, n), w1)
   \<and> extractBookmarks list_engine (\<lambda>d. map plain_item (ld_outline d)) (\<lambda>k. ''x'') bytes w1 = (Inr bs, w2)
   \<and> outline_rows bs = [(0, ''One'', 1), (1, ''Two'', 3), (1, ''Three'', 5)]"
proof -
  have "succeeds (bakeOutline list_engine (list_doc_of [1, 2] []) (fst (handleSave toc_flat)) empty_world)
     (\<lambda>(bytes, n) w1. en_open list_engine bytes = Inr bytes \<and>
        (case fst (extractBookmarks list_engine (\<lambda>d. map plain_item (ld_outline d)) (\<lambda>k. ''x'') bytes w1)
           of Inl e \<Rightarrow> False | Inr bs \<Rightarrow> True))"
    by code_simp
  from succeedsD [OF this] obtain bytes n w1 where b: "bakeOutline list_engine (list_doc_of [1, 2] [])
      (fst (handleSave toc_flat)) empty_world = (Inr (bytes, n), w1)" "en_open list_engine bytes = Inr bytes"
    and c: "case fst (extractBookmarks list_engine (\<lambda>d. map plain_item (ld_outline d)) (\<lambda>k. ''x'') bytes w1)
      of Inl e \<Rightarrow> False | Inr bs \<Rightarrow> True" by auto
  from c obtain bs where "fst (extractBookmarks list_engine (\<lambda>d. map plain_item (ld_outline d)) (\<lambda>k. ''x'') bytes w1) = Inr bs"
    by (auto split: sum.splits)
  then obtain w2 where e: "extractBookmarks list_engine (\<lambda>d. map plain_item (ld_outline d)) (\<lambda>k. ''x'') bytes w1 = (Inr bs, w2)"
    by (metis prod.collapse)
  have law: "\<forall>d. map outline_entry.truncate (map plain_item (ld_outline d)) = en_outline list_engine d"
    by (simp add: list_engine_def plain_item_def outline_entry.defs outline_item.defs map_idI)
  have "map (\<lambda>b. (fb_level b, fb_title b, if 0 < fb_page b then fb_page b else 1)) (clamp_levels 0 toc_flat)
      = [(0, ''One'', 1), (1, ''Two'', 3), (1, ''Three'', 5)]"
    by code_simp
  then show ?thesis
    using edited_outline_read_back [OF list_engine_outline law b(1,2) e] b(1) e by auto
qed

section \<open>A session of the panel\<close>

text \<open>
  Ids stay distinct and not empty, levels are not negative, pages are pages of the document. An id
  with a number the counter has not reached is not in use.
\<close>

definition fresh_id :: "(nat \<Rightarrow> string) \<Rightarrow> nat \<Rightarrow> string" where
  "fresh_id clock k = fst (nextId clock k)"

definition toc_ok :: "(nat \<Rightarrow> string) \<Rightarrow> int \<Rightarrow> flat_bookmark list \<times> nat \<Rightarrow> bool" where
  "toc_ok clock pages s \<longleftrightarrow> distinct (map fb_id (fst s))
   \<and> (\<forall>b\<in>set (fst s). fb_id b \<noteq> [] \<and> 0 \<le> fb_level b \<and> 1 \<le> fb_page b \<and> fb_page b \<le> pages
        \<and> (\<forall>k\<ge>snd s. fb_id b \<noteq> fresh_id clock k))"

lemma nat_str_no_dash: "CHR ''-'' \<notin> set (nat_str 10 a)"
  using nat_str_chars not_space_digit by blast

lemma fresh_id_inj: "fresh_id clock j = fresh_id clock k \<longleftrightarrow> j = k"
  using split_at_colon [of "nat_str 10 (Suc j)" "CHR ''-''" "clock (Suc j)" "nat_str 10 (Suc k)" "clock (Suc k)"]
    nat_str_no_dash nat_str_inj [of "Suc j" "Suc k"]
  by (auto simp: fresh_id_def nextId_def simp del: nat_str.simps)

lemma clampPage_bounds: "0 < pages \<Longrightarrow> 1 \<le> clampPage (Some pages) p \<and> clampPage (Some pages) p \<le> pages"
  by (auto simp: clampPage_def Let_def)

lemma toc_ok_map:
  assumes "toc_ok clock pages (flat, c)"
    and "\<And>b. b \<in> set flat \<Longrightarrow> fb_id (f b) = fb_id b \<and> 0 \<le> fb_level (f b) \<and> 1 \<le> fb_page (f b) \<and> fb_page (f b) \<le> pages"
  shows "toc_ok clock pages (map f flat, c)"
proof -
  have "map fb_id (map f flat) = map fb_id flat"
    using assms(2) by simp
  then show ?thesis
    using assms unfolding toc_ok_def fst_conv snd_conv by (metis (no_types, lifting) image_iff set_map)
qed

lemma toc_ok_reorder:
  "toc_ok clock pages (flat, c) \<Longrightarrow> mset flat' = mset flat \<Longrightarrow> toc_ok clock pages (flat', c)"
  unfolding toc_ok_def fst_conv snd_conv
  by (metis mset_map mset_eq_setD distinct_count_atmost_1 mset_eq_imp_distinct_iff)

lemma mset_moveBookmark: "mset (moveBookmark flat i dir) = mset flat"
proof (cases "find_index (\<lambda>b. fb_id b = i) flat")
  case (Some idx)
  then have i: "idx < length flat" by (rule find_index_less)
  show ?thesis
    using i mset_splice_del [OF i] by (auto simp: moveBookmark_def Some Let_def mset_splice_ins js_simps)
qed (simp add: moveBookmark_def)

lemma toc_ok_reindent:
  assumes ok: "toc_ok clock pages (flat, c)"
  shows "toc_ok clock pages (reindentBookmark flat i delta, c)"
proof (cases "find_index (\<lambda>b. fb_id b = i) flat")
  case (Some idx)
  then have i: "idx < length flat" "fb_id (flat ! idx) = i" by (auto simp: find_index_Some)
  have only: "b = flat ! idx" if "b \<in> set flat" "fb_id b = i" for b
    using ok i that by (auto simp: toc_ok_def in_set_conv_nth distinct_conv_nth)
  have b: "fb_level b \<ge> 0" "1 \<le> fb_page b" "fb_page b \<le> pages" if "b \<in> set flat" for b
    using ok that by (auto simp: toc_ok_def)
  have up: "toc_ok clock pages (map (\<lambda>b. if fb_id b = i then b\<lparr>fb_level := fb_level b + 1\<rparr> else b) flat, c)"
    using b by (intro toc_ok_map [OF ok]) auto
  have down: "toc_ok clock pages (map (\<lambda>b. if fb_id b = i then b\<lparr>fb_level := fb_level b - 1\<rparr> else b) flat, c)"
    if "fb_level (flat ! idx) \<noteq> 0"
  proof (rule toc_ok_map [OF ok])
    fix x assume x: "x \<in> set flat"
    show "fb_id (if fb_id x = i then x\<lparr>fb_level := fb_level x - 1\<rparr> else x) = fb_id x
        \<and> 0 \<le> fb_level (if fb_id x = i then x\<lparr>fb_level := fb_level x - 1\<rparr> else x)
        \<and> 1 \<le> fb_page (if fb_id x = i then x\<lparr>fb_level := fb_level x - 1\<rparr> else x)
        \<and> fb_page (if fb_id x = i then x\<lparr>fb_level := fb_level x - 1\<rparr> else x) \<le> pages"
      using b [OF x] only [OF x] that by (cases "fb_id x = i") auto
  qed
  show ?thesis
    using ok up down by (auto simp: reindentBookmark_def Some Let_def)
qed (simp add: reindentBookmark_def ok)

lemma toc_ok_step:
  assumes ok: "toc_ok clock pages s" and pages: "0 < pages"
  shows "toc_ok clock pages (toc_step clock (Some pages) title ev s)"
proof -
  obtain flat c where s: "s = (flat, c)" by (cases s)
  have ok': "toc_ok clock pages (flat, c)" using ok s by simp
  have p: "1 \<le> clampPage (Some pages) x" "clampPage (Some pages) x \<le> pages" for x
    using clampPage_bounds [OF pages] by auto
  have add: "toc_ok clock pages (insertBookmark clock flat (clampPage (Some pages) x) title None c)" for x
  proof -
    have "\<forall>x\<in>set flat. fb_id x \<noteq> fresh_id clock c \<and> fresh_id clock c \<noteq> fb_id x"
      using ok' unfolding toc_ok_def fst_conv snd_conv by (metis order_refl)
    moreover have "fresh_id clock c \<noteq> []"
      by (simp add: fresh_id_def nextId_def)
    moreover have "nextId clock c = (fresh_id clock c, Suc c)"
      by (simp add: fresh_id_def nextId_def)
    ultimately show ?thesis
      using ok' p fresh_id_inj [of clock c]
      by (auto simp: insertBookmark_def toc_ok_def splice_ins_def)
  qed
  show ?thesis
  proof (cases ev)
    case (Toc_rename i t)
    show ?thesis
      using ok' unfolding s Toc_rename toc_step.simps renameBookmark_def
      by (intro toc_ok_map) (auto simp: toc_ok_def)
  next
    case (Toc_set_page i raw)
    show ?thesis
      using ok' p unfolding s Toc_set_page toc_step.simps setPage_def Let_def
      by (intro toc_ok_map) (auto simp: toc_ok_def)
  next
    case (Toc_remove i)
    show ?thesis
      using ok' by (auto simp: s Toc_remove removeBookmark_def toc_ok_def distinct_map_filter)
  qed (use ok' add in \<open>auto simp: s intro: toc_ok_reindent toc_ok_reorder [OF _ mset_moveBookmark]\<close>)
qed

lemma toc_ok_steps:
  "toc_ok clock pages s \<Longrightarrow> 0 < pages \<Longrightarrow> toc_ok clock pages (fold (toc_step clock (Some pages) title) evs s)"
  by (induction evs arbitrary: s) (simp_all add: toc_ok_step)

lemma countBookmarks_preorder: "countBookmarks bs = length (preorder l bs)"
  by (induction l bs rule: preorder.induct) simp_all

text \<open>A session of the outline panel, over any sequence of its buttons and inputs, on a document
  with a known number of pages: when the rows it starts with have distinct ids and destinations
  inside the document, so have the rows it ends with, levels are never negative, and what is written
  into the PDF is one entry per row, each with a destination inside the document.\<close>

lemma toc_session:
  assumes "toc_ok clock pages (treeToFlat clock outlines 0 c)" and "0 < pages"
    and "fold (toc_step clock (Some pages) title) evs (treeToFlat clock outlines 0 c) = (flat, c')"
  shows "distinct (map fb_id flat) \<and> list_all (\<lambda>b. 0 \<le> fb_level b) flat
    \<and> countBookmarks (fst (handleSave flat)) = length flat
    \<and> map ol_title (flattenOutline (fst (handleSave flat)) 0) = map fb_title flat
    \<and> map ol_page (flattenOutline (fst (handleSave flat)) 0) = map (\<lambda>b. Some (fb_page b)) flat
    \<and> list_all (\<lambda>b. 1 \<le> fb_page b \<and> fb_page b \<le> pages) flat"
proof -
  have ok: "toc_ok clock pages (flat, c')"
    using toc_ok_steps [OF assms(1,2)] assms(3) by metis
  then have facts: "distinct (map fb_id flat)" "\<forall>b\<in>set flat. 0 \<le> fb_level b \<and> 1 \<le> fb_page b \<and> fb_page b \<le> pages"
    by (auto simp: toc_ok_def)
  have same: "map f (clamp_levels 0 flat) = map f flat" if "\<And>b l. f (b\<lparr>fb_level := l\<rparr>) = f b" for f :: "flat_bookmark \<Rightarrow> 'c"
  proof -
    have "map f (clamp_levels n flat) = map f flat" for n
      by (induction n flat rule: clamp_levels.induct) (simp_all add: that Let_def)
    then show ?thesis .
  qed
  have "map ol_title (map entry_of (clamp_levels 0 flat)) = map fb_title flat"
    using same [of "\<lambda>b. fb_title b"] by (simp add: entry_of_def o_def)
  moreover have "map ol_page (map entry_of (clamp_levels 0 flat)) = map (\<lambda>b. Some (fb_page b)) flat"
  proof -
    have "\<forall>b\<in>set flat. 0 < fb_page b" using facts(2) by force
    then show ?thesis
      using same [of "\<lambda>b. ol_page (entry_of b)"] by (simp add: entry_of_def o_def)
  qed
  moreover have "countBookmarks (flatToTree flat) = length flat"
    using countBookmarks_preorder [of "flatToTree flat" 0] by (simp add: preorder_flatToTree)
  ultimately show ?thesis
    using facts by (simp add: handleSave_def flattenOutline_flatToTree list_all_iff)
qed

lemma toc_session_witness:
  "let (flat, c) = fold (toc_step (\<lambda>k. ''t'') (Some 9) ''New'')
       [Toc_add (Some 20), Toc_up ''new-1-t'', Toc_indent ''c'', Toc_indent ''c'', Toc_set_page ''a'' None, Toc_remove ''b'']
       (treeToFlat (\<lambda>k. ''t'') (flatToTree toc_flat) 0 0)
   in map ol_title (flattenOutline (fst (handleSave flat)) 0) = [''One'', ''New'', ''Three'']
    \<and> list_all (\<lambda>b. 1 \<le> fb_page b \<and> fb_page b \<le> 9) flat"
proof -
  let ?s = "treeToFlat (\<lambda>k. ''t'') (flatToTree toc_flat) 0 0"
  let ?evs = "[Toc_add (Some 20), Toc_up ''new-1-t'', Toc_indent ''c'', Toc_indent ''c'', Toc_set_page ''a'' None, Toc_remove ''b'']"
  have s: "?s = (clamp_levels 0 toc_flat, 0)" by code_simp
  have "fresh_id (\<lambda>k. ''t'') k = CHR ''n'' # tl (fresh_id (\<lambda>k. ''t'') k)" for k
    by (simp add: fresh_id_def nextId_def)
  then have f: "x \<noteq> fresh_id (\<lambda>k. ''t'') k" if "hd x \<noteq> CHR ''n''" for x k
    using that by (metis list.sel(1))
  have ok: "toc_ok (\<lambda>k. ''t'') 9 ?s"
    unfolding s toc_ok_def using f by (auto simp: toc_flat_def)
  obtain flat c where r: "fold (toc_step (\<lambda>k. ''t'') (Some 9) ''New'') ?evs ?s = (flat, c)"
    by (cases "fold (toc_step (\<lambda>k. ''t'') (Some 9) ''New'') ?evs ?s")
  have "map fb_title (fst (fold (toc_step (\<lambda>k. ''t'') (Some 9) ''New'') ?evs ?s)) = [''One'', ''New'', ''Three'']"
    by code_simp
  then show ?thesis
    using toc_session [OF ok _ r] r by simp
qed

text \<open>Indenting a row puts it at most one level below the row before; moving a row down and up again
  changes nothing.\<close>

lemma indent_below_previous:
  assumes "distinct (map fb_id flat)" "Suc k < length flat" "fb_level (flat ! Suc k) \<le> fb_level (flat ! k) + 1"
  shows "fb_level (reindentBookmark flat (fb_id (flat ! Suc k)) 1 ! Suc k) \<le> fb_level (flat ! k) + 1"
proof -
  have "find_index (\<lambda>b. fb_id b = fb_id (flat ! Suc k)) flat = Some (Suc k)"
    using assms(1,2) by (auto simp: find_index_Some distinct_conv_nth)
  then show ?thesis
    using assms by (simp add: reindentBookmark_def Let_def)
qed

lemma move_down_up:
  assumes "distinct (map fb_id flat)" "Suc k < length flat"
  shows "moveBookmark (moveBookmark flat (fb_id (flat ! k)) 1) (fb_id (flat ! k)) (-1) = flat"
proof -
  have i: "find_index (\<lambda>b. fb_id b = fb_id (flat ! k)) flat = Some k"
    using assms by (auto simp: find_index_Some distinct_conv_nth)
  let ?m = "splice_ins (Suc k) (flat ! k) (splice_del k flat)"
  have m: "moveBookmark flat (fb_id (flat ! k)) 1 = ?m"
    using assms(2) by (simp add: moveBookmark_def i Let_def nat_add_distrib)
  have len: "length ?m = length flat"
    using assms(2) by (simp add: js_simps)
  have "Suc k \<le> length (splice_del k flat)"
    using assms(2) by (simp add: js_simps)
  then have at: "?m ! Suc k = flat ! k" and del: "splice_del (Suc k) ?m = splice_del k flat"
    by (simp_all add: nth_splice_ins splice_del_ins)
  have ids: "map fb_id ?m ! j \<noteq> fb_id (flat ! k)" if "j < Suc k" for j
  proof -
    have "mset ?m = mset flat"
      using mset_moveBookmark [of flat "fb_id (flat ! k)" 1] m by simp
    then have "mset (map fb_id ?m) = mset (map fb_id flat)"
      by simp
    then have "distinct (map fb_id ?m)"
      using assms(1) mset_eq_imp_distinct_iff by blast
    then have "map fb_id ?m ! j \<noteq> map fb_id ?m ! Suc k"
      using that len assms(2) by (simp add: distinct_conv_nth)
    then show ?thesis using at len assms(2) by simp
  qed
  have "find_index (\<lambda>b. fb_id b = fb_id (flat ! k)) ?m = Some (Suc k)"
    using ids at len assms(2) by (auto simp: find_index_Some)
  then have "moveBookmark ?m (fb_id (flat ! k)) (-1) = splice_ins k (flat ! k) (splice_del k flat)"
    using assms(2) len by (simp add: moveBookmark_def Let_def at del)
  then show ?thesis
    using assms(2) by (simp add: m splice_ins_del)
qed

text \<open>After an outdent the list handed to \<open>onApplyBookmarks\<close> can have a jump of two levels, where the
  tree handed to \<open>onApplyOutline\<close> has none.\<close>

lemma bookmarks_differ_from_outline:
  "let flat = reindentBookmark [\<lparr>fb_id = ''a'', fb_title = ''A'', fb_page = 1, fb_level = 0\<rparr>,
       \<lparr>fb_id = ''b'', fb_title = ''B'', fb_page = 2, fb_level = 1\<rparr>,
       \<lparr>fb_id = ''c'', fb_title = ''C'', fb_page = 3, fb_level = 2\<rparr>] ''b'' (-1);
     (outline, bookmarks) = handleSave flat
   in map bi_level bookmarks = [0, 0, 2] \<and> map ol_level (flattenOutline outline 0) = [0, 0, 1]"
  by code_simp

text \<open>An outline whose levels jump is read in another order than it is stored: the entry of the jump
  becomes a root, the next one goes below the first.\<close>

lemma jump_read_in_other_order:
  "map (\<lambda>r. fst (snd r)) (outline_rows (extract_tree (\<lambda>k. ''x'') (map plain_item
     [\<lparr>ol_level = 0, ol_title = ''A'', ol_page = Some 1\<rparr>, \<lparr>ol_level = 2, ol_title = ''B'', ol_page = Some 2\<rparr>,
      \<lparr>ol_level = 1, ol_title = ''C'', ol_page = Some 3\<rparr>]))) = [''A'', ''C'', ''B'']"
  by code_simp

end
