(* ===== verification/Pdf_Routes.thy ===== *)
theory Pdf_Routes
  imports Document_Handle Http_Header
begin

text \<open>
  What the routes under \<open>apps/web/src/app/api/pdf\<close> share: the multipart form, its validation
  (\<open>lib/request-validation.ts\<close>), untrusted JSON, \<open>Number\<close> of a form field, and the frame of a
  handler, which opens the uploaded file, calls the engine and answers with JSON or a PDF. The
  session is a flag; \<open>JSON.parse\<close> gives a value of the datatype \<open>json\<close> and is an argument of the
  handlers. A number that is not finite is \<open>None\<close>.
\<close>

section \<open>Numbers and JSON\<close>

definition radix_of :: "char \<Rightarrow> nat option" where
  "radix_of c = (if c \<in> {CHR ''x'', CHR ''X''} then Some 16 else if c \<in> {CHR ''o'', CHR ''O''} then Some 8
     else if c \<in> {CHR ''b'', CHR ''B''} then Some 2 else None)"

definition digits_only :: "nat \<Rightarrow> string \<Rightarrow> nat option" where
  "digits_only r ds = (if ds \<noteq> [] \<and> list_all (is_digit r) ds then Some (digits_value r ds) else None)"

definition with_sign :: "(string \<Rightarrow> 'a option) \<Rightarrow> ('a \<Rightarrow> 'a) \<Rightarrow> string \<Rightarrow> 'a option" where
  "with_sign f neg s = (case s of [] \<Rightarrow> None
     | c # t \<Rightarrow> if c = CHR ''-'' then map_option neg (f t) else if c = CHR ''+'' then f t else f s)"

definition decimal_literal :: "string \<Rightarrow> jsnum option" where
  "decimal_literal s =
     (let whole = takeWhile (is_digit 10) s; r1 = dropWhile (is_digit 10) s;
          dotted = (r1 \<noteq> [] \<and> hd r1 = CHR ''.'');
          frac = (if dotted then takeWhile (is_digit 10) (tl r1) else []);
          r2 = (if dotted then dropWhile (is_digit 10) (tl r1) else r1);
          mantissa = of_nat (digits_value 10 (whole @ frac)) / 10 ^ length frac
      in if whole @ frac = [] then None
         else case r2 of [] \<Rightarrow> Some mantissa
           | c # t \<Rightarrow> if c \<noteq> CHR ''e'' \<and> c \<noteq> CHR ''E'' then None
               else map_option (\<lambda>e. if 0 \<le> e then mantissa * 10 ^ nat e else mantissa / 10 ^ nat (- e))
                 (with_sign (map_option int \<circ> digits_only 10) uminus t))"

text \<open>\<open>Number(s)\<close>, without the rounding to a double.\<close>

definition js_number :: "string \<Rightarrow> jsnum option" where
  "js_number s = (let t = js_trim s in
     if t = [] then Some 0
     else case (case t of c # p # ds \<Rightarrow> if c = CHR ''0'' then map_option (\<lambda>r. digits_only r ds) (radix_of p) else None
                | _ \<Rightarrow> None) of
          Some n \<Rightarrow> map_option of_nat n
        | None \<Rightarrow> with_sign decimal_literal uminus t)"

datatype json =
    J_null
  | J_bool bool
  | J_num "jsnum option"
  | J_str string
  | J_arr "json list"
  | J_obj "(string \<times> json) list"

text \<open>\<open>isFiniteInRange\<close> and \<open>isIntInRange\<close> with the value they let through.\<close>

definition finiteInRange :: "json option \<Rightarrow> jsnum \<Rightarrow> jsnum \<Rightarrow> jsnum option" where
  "finiteInRange v lo hi = (case v of
       Some (J_num (Some x)) \<Rightarrow> if lo \<le> x \<and> x \<le> hi then Some x else None
     | _ \<Rightarrow> None)"

definition intInRange :: "json option \<Rightarrow> int \<Rightarrow> int \<Rightarrow> int option" where
  "intInRange v lo hi = (case v of
       Some (J_num (Some x)) \<Rightarrow> if of_int \<lfloor>x\<rfloor> = x \<and> of_int lo \<le> x \<and> x \<le> of_int hi then Some \<lfloor>x\<rfloor> else None
     | _ \<Rightarrow> None)"

lemma finiteInRange_Some: "finiteInRange v lo hi = Some x \<Longrightarrow> lo \<le> x \<and> x \<le> hi"
  by (auto simp: finiteInRange_def split: option.splits json.splits if_splits)

lemma intInRange_Some: "intInRange v lo hi = Some n \<Longrightarrow> lo \<le> n \<and> n \<le> hi"
  by (auto simp: intInRange_def le_floor_iff floor_le_iff split: option.splits json.splits if_splits)

lemma intInRange_of_int: "intInRange (Some (J_num (Some (of_int n)))) lo hi = (if lo \<le> n \<and> n \<le> hi then Some n else None)"
  by (simp add: intInRange_def)

section \<open>The form\<close>

record 'b form_file =
  ff_size :: nat
  ff_name :: string
  ff_type :: string
  ff_bytes :: 'b

text \<open>A field of the form is a file or a text.\<close>

datatype 'b form_entry = Form_file "'b form_file" | Form_text string

type_synonym 'b form = "(string, 'b form_entry) jsmap"

definition form_text :: "'b form \<Rightarrow> string \<Rightarrow> string option" where
  "form_text form name = (case map_get form name of Some (Form_text s) \<Rightarrow> Some s | _ \<Rightarrow> None)"

definition MAX_FILE_SIZE_BYTES :: nat where
  "MAX_FILE_SIZE_BYTES = 250 * 1024 * 1024"

datatype ('b, 'j) route_reply =
    Unauthenticated \<comment> \<open>401\<close>
  | Error_json nat string \<comment> \<open>status, \<open>error\<close>\<close>
  | Data_json 'j
  | Pdf_binary string 'b \<comment> \<open>\<open>Content-Disposition\<close>, body\<close>

definition file_invalid :: "string \<Rightarrow> 'b form_entry option \<Rightarrow> (nat \<times> string) option" where
  "file_invalid what v = (case v of
       Some (Form_file f) \<Rightarrow>
         if ff_size f = 0 then Some (400, what @ '' is empty.'')
         else if ff_size f > MAX_FILE_SIZE_BYTES
         then Some (413, what @ '' exceeds the '' @ nat_str 10 (MAX_FILE_SIZE_BYTES div 1024 div 1024) @ '' MB size limit.'')
         else None
     | _ \<Rightarrow> Some (400, what @ '' field missing or invalid.''))"

definition validatePdfFile :: "'b form_entry option \<Rightarrow> bool \<Rightarrow> (nat \<times> string) + 'b form_file" where
  "validatePdfFile v requireMimePdf = (case file_invalid ''File'' v of
       Some err \<Rightarrow> Inl err
     | None \<Rightarrow> (case v of
          Some (Form_file f) \<Rightarrow>
            if requireMimePdf \<and> ff_type f \<noteq> [] \<and> ff_type f \<noteq> ''application/pdf''
            then Inl (415, ''Expected Content-Type application/pdf.'') else Inr f
        | _ \<Rightarrow> Inl (400, [])))"

definition validateImageFile :: "'b form_entry option \<Rightarrow> (nat \<times> string) + 'b form_file" where
  "validateImageFile v = (case file_invalid ''Image file'' v of
       Some err \<Rightarrow> Inl err
     | None \<Rightarrow> (case v of Some (Form_file f) \<Rightarrow> Inr f | _ \<Rightarrow> Inl (400, [])))"

text \<open>What passes is a file of the form, not empty and within the limit.\<close>

lemma validatePdfFile_Inr:
  "validatePdfFile v req = Inr f \<Longrightarrow> v = Some (Form_file f) \<and> 0 < ff_size f \<and> ff_size f \<le> 262144000
     \<and> (req \<longrightarrow> ff_type f \<in> {[], ''application/pdf''})"
  by (auto simp: validatePdfFile_def file_invalid_def MAX_FILE_SIZE_BYTES_def
      split: option.splits form_entry.splits if_splits)

section \<open>The frame of a handler\<close>

text \<open>A call of the engine that answers with a value (a flag, mostly) and may change the document.\<close>

definition flag_doc :: "nat \<Rightarrow> ('d \<Rightarrow> string + 'a \<times> 'd) \<Rightarrow> ('d, 'a) eff" where
  "flag_doc k f w = (case map_get (wd_docs w) k of None \<Rightarrow> trap w
     | Some d \<Rightarrow> (case f d of Inl msg \<Rightarrow> (Inl (Plain_error msg), w)
        | Inr (ok, d') \<Rightarrow> (Inr ok, w\<lparr>wd_docs := AList.update k d' (wd_docs w)\<rparr>)))"

definition pdf_reply :: "'b form_file \<Rightarrow> 'b \<Rightarrow> ('b, 'j) route_reply" where
  "pdf_reply file bytes = Pdf_binary (content_disposition (ff_name file) ''attachment'') bytes"

text \<open>Change, then save; a refusal of the engine is an error of its own.\<close>

definition change_and_save ::
  "('b, 'd) engine \<Rightarrow> 'b form_file \<Rightarrow> pdf_handle \<Rightarrow> ('d \<Rightarrow> string + bool \<times> 'd) \<Rightarrow> nat \<times> string
    \<Rightarrow> ('d, ('b, 'j) route_reply) eff" where
  "change_and_save E file h f refused =
     eff_bind (flag_doc (ph_doc h) f) (\<lambda>ok.
       if \<not> ok then eff_return (Error_json (fst refused) (snd refused))
       else eff_bind (saveDocument E h None) (\<lambda>bytes. eff_return (pdf_reply file bytes)))"

definition catch_errors ::
  "string \<Rightarrow> ('d, ('b, 'j) route_reply) eff \<Rightarrow> ('d, ('b, 'j) route_reply) eff" where
  "catch_errors message m w = (case m w of
       (Inl (Corrupted_error msg), w') \<Rightarrow> (Inr (Error_json 422 ''PDF file is corrupted.''), w')
     | (Inl e, w') \<Rightarrow> (Inr (Error_json 500 message), w')
     | (Inr r, w') \<Rightarrow> (Inr r, w'))"

definition pdf_route ::
  "('b, 'd) engine \<Rightarrow> uuid \<Rightarrow> bool \<Rightarrow> string list \<Rightarrow> string \<Rightarrow> string \<Rightarrow> 'b form
   \<Rightarrow> (string \<Rightarrow> 'b form_file \<Rightarrow> pdf_handle \<Rightarrow> int \<Rightarrow> ('d, ('b, 'j) route_reply) eff)
   \<Rightarrow> ('d, ('b, 'j) route_reply) eff" where
  "pdf_route E fresh session actions unknown failed form body =
     (if \<not> session then eff_return Unauthenticated
      else catch_errors failed
        (case validatePdfFile (map_get form ''file'') False of
           Inl (status, message) \<Rightarrow> eff_return (Error_json status message)
         | Inr file \<Rightarrow> (case form_text form ''action'' of
              None \<Rightarrow> eff_return (Error_json 400 unknown)
            | Some action \<Rightarrow>
                if action \<notin> set actions then eff_return (Error_json 400 unknown)
                else eff_bind (openDocument E fresh (ff_bytes file) None) (\<lambda>h.
                     eff_bind (read_doc (ph_doc h) (en_pageCount E)) (\<lambda>n. body action file h n)))))"


section \<open>The document of a request\<close>

lemma snd_catch [simp]: "snd (catch_errors message m w) = snd (m w)"
  by (auto simp: catch_errors_def split: prod.split sum.split pdf_error.split)

lemma uses_only_flag: "uses_only k (flag_doc k f)"
  by (auto simp: uses_only_def flag_doc_def map_has_def Let_def world_ok_def js_simps
      delete_update_same split: sum.splits if_splits prod.splits)

lemma uses_only_save: "uses_only (ph_doc h) (saveDocument E h opt)"
  unfolding saveDocument_def
  by (intro uses_only_bind) (auto simp: uses_only_def set_dirty_def world_ok_def call_doc_def map_has_def Let_def
      split: sum.splits)

lemma uses_only_change_and_save: "uses_only (ph_doc h) (change_and_save E file h f refused)"
  unfolding change_and_save_def
  by (intro uses_only_bind uses_only_flag) (auto intro!: uses_only_bind uses_only_save uses_only_basic)

lemma open_live:
  assumes "world_ok w" "openDocument E fresh data pw w = (Inr h, w1)"
  shows "world_ok w1 \<and> map_has (wd_docs w1) (ph_doc h) \<and> \<not> map_has (wd_docs w) (ph_doc h)"
proof -
  obtain k d where h: "ph_doc h = k" "k = wd_next w" and w1: "w1 = set_dirty k False
      (w\<lparr>wd_docs := AList.update k d (wd_docs w), wd_next := Suc k\<rparr>)"
    using assms(2) by (auto simp: openDocument_def Let_def eff_bind_Inr open_doc_def eff_lift_def alloc_doc_def
        split: if_splits sum.splits option.splits)
  show ?thesis
    using assms(1) unfolding h w1
    by (auto simp: world_ok_def set_dirty_def map_has_def js_simps less_Suc_eq split: if_splits)
qed

text \<open>A request that gets as far as opening its file leaves the document in the heap of the engine:
  the frame has no \<open>closeDocument\<close>.\<close>

lemma route_keeps_document:
  assumes "world_ok w" "session" "validatePdfFile (map_get form ''file'') False = Inr file"
    and "form_text form ''action'' = Some action" "action \<in> set actions"
    and "openDocument E fresh (ff_bytes file) None w = (Inr h, w1)"
    and "\<And>n. uses_only (ph_doc h) (body action file h n)"
    and "pdf_route E fresh session actions unknown failed form body w = (r, w')"
  shows "map_has (wd_docs w') (ph_doc h) \<and> \<not> map_has (wd_docs w) (ph_doc h)"
proof -
  have o: "world_ok w1" "map_has (wd_docs w1) (ph_doc h)" "\<not> map_has (wd_docs w) (ph_doc h)"
    using open_live [OF assms(1,6)] by auto
  have "uses_only (ph_doc h) (eff_bind (read_doc (ph_doc h) (en_pageCount E)) (\<lambda>n. body action file h n))"
    by (intro uses_only_bind uses_only_basic assms(7))
  then have live: "map_has (wd_docs (snd (eff_bind (read_doc (ph_doc h) (en_pageCount E)) (\<lambda>n. body action file h n) w1))) (ph_doc h)"
    using o unfolding uses_only_def Let_def by blast
  have "w' = snd (pdf_route E fresh session actions unknown failed form body w)"
    using assms(8) by simp
  also have "\<dots> = snd (eff_bind (openDocument E fresh (ff_bytes file) None)
      (\<lambda>h. eff_bind (read_doc (ph_doc h) (en_pageCount E)) (\<lambda>n. body action file h n)) w)"
    using assms(2-5) by (simp add: pdf_route_def)
  also have "\<dots> = snd (eff_bind (read_doc (ph_doc h) (en_pageCount E)) (\<lambda>n. body action file h n) w1)"
    by (simp add: eff_bind_def [of "openDocument E fresh (ff_bytes file) None"] assms(6))
  finally show ?thesis
    using live o(3) by simp
qed

end
