(* ===== verification/Structure_Route.thy ===== *)
theory Structure_Route
  imports Pdf_Routes Outline_Edit
begin

text \<open>
  Detection of chapters and their baking into bookmarks: \<open>api/pdf/structure/extract-chapters.ts\<close> and
  the route \<open>api/pdf/structure/route.ts\<close> above it. The engine's reader of the blocks of a page and
  its writer of bookmarks are parameters. White space is that of ECMA-262 below 256.
\<close>

section \<open>Chapters from blocks\<close>

datatype chapter_inline =
    Run_text string
  | Line_break
  | Link_runs "chapter_inline list"
  | Inline_image

text \<open>The level of a heading is \<open>None\<close> when it is not finite.\<close>

datatype chapter_block = Heading_block "chapter_inline list" "jsnum option" | Plain_block

record chapter_page =
  pb_page :: int
  pb_blocks :: "chapter_block list"

definition DEFAULT_MAX_CHAPTERS :: int where "DEFAULT_MAX_CHAPTERS = 5000"
definition MIN_HEADING_LEVEL :: int where "MIN_HEADING_LEVEL = 1"
definition MAX_HEADING_LEVEL :: int where "MAX_HEADING_LEVEL = 6"
definition MAX_NEST_LEVEL :: int where "MAX_NEST_LEVEL = 32"

record raw_heading =
  rh_title :: string
  rh_rawLevel :: int
  rh_page :: int

fun inlineRunsToText :: "chapter_inline list \<Rightarrow> string" where
  "inlineRunsToText [] = []"
| "inlineRunsToText (Run_text s # runs) = s @ inlineRunsToText runs"
| "inlineRunsToText (Line_break # runs) = '' '' @ inlineRunsToText runs"
| "inlineRunsToText (Link_runs children # runs) = inlineRunsToText children @ inlineRunsToText runs"
| "inlineRunsToText (Inline_image # runs) = inlineRunsToText runs"

text \<open>\<open>replace(/\s+/g, ' ')\<close>\<close>

function collapse_space :: "string \<Rightarrow> string" where
  "collapse_space s = (case s of [] \<Rightarrow> []
     | c # t \<Rightarrow> if js_space c then CHR '' '' # collapse_space (dropWhile js_space t) else c # collapse_space t)"
  by auto
termination
  by (relation "measure length") (auto intro: le_less_trans [OF length_dropWhile_le])

declare collapse_space.simps [simp del]

definition normaliseTitle :: "string \<Rightarrow> string" where
  "normaliseTitle raw = js_trim (collapse_space raw)"

definition js_trunc :: "jsnum \<Rightarrow> int" where
  "js_trunc x = (if 0 \<le> x then \<lfloor>x\<rfloor> else \<lceil>x\<rceil>)"

definition clampHeadingLevel :: "jsnum option \<Rightarrow> int" where
  "clampHeadingLevel level = (case level of None \<Rightarrow> MIN_HEADING_LEVEL
     | Some x \<Rightarrow> min (max (js_trunc x) MIN_HEADING_LEVEL) MAX_HEADING_LEVEL)"

text \<open>The two loops with their early exits.\<close>

fun collect_blocks :: "int \<Rightarrow> int \<Rightarrow> raw_heading list \<Rightarrow> chapter_block list \<Rightarrow> raw_heading list" where
  "collect_blocks maxChapters page raw [] = raw"
| "collect_blocks maxChapters page raw (Plain_block # blocks) = collect_blocks maxChapters page raw blocks"
| "collect_blocks maxChapters page raw (Heading_block runs level # blocks) =
     (let title = normaliseTitle (inlineRunsToText runs) in
      if length title = 0 then collect_blocks maxChapters page raw blocks
      else let raw' = raw @ [\<lparr>rh_title = title, rh_rawLevel = clampHeadingLevel level, rh_page = page\<rparr>] in
        if int (length raw') \<ge> maxChapters then raw' else collect_blocks maxChapters page raw' blocks)"

fun collect_pages :: "int \<Rightarrow> raw_heading list \<Rightarrow> chapter_page list \<Rightarrow> raw_heading list" where
  "collect_pages maxChapters raw [] = raw"
| "collect_pages maxChapters raw (p # ps) =
     (let raw' = collect_blocks maxChapters (pb_page p) raw (pb_blocks p) in
      if int (length raw') \<ge> maxChapters then raw' else collect_pages maxChapters raw' ps)"

definition extractChaptersFromPages :: "chapter_page list \<Rightarrow> int option \<Rightarrow> bookmark_input list" where
  "extractChaptersFromPages pages max_option =
     (let maxChapters = (case max_option of None \<Rightarrow> DEFAULT_MAX_CHAPTERS | Some m \<Rightarrow> m);
          raw = collect_pages maxChapters [] pages in
      if length raw = 0 then []
      else let minLevel = fold (\<lambda>h m. min m (rh_rawLevel h)) raw MAX_HEADING_LEVEL in
        map (\<lambda>h. \<lparr>bi_title = rh_title h, bi_level = min (rh_rawLevel h - minLevel) MAX_NEST_LEVEL,
                  bi_page = rh_page h\<rparr>) raw)"

section \<open>The route\<close>

definition MAX_CHAPTERS :: int where "MAX_CHAPTERS = 5000"
definition MAX_LEVEL :: int where "MAX_LEVEL = 32"

text \<open>A bookmark as the engine takes it: title, level and the page of a GoTo destination.\<close>

record engine_bookmark =
  eb_title :: string
  eb_level :: int
  eb_page :: "int option"

definition chapter_error :: "nat \<Rightarrow> string \<Rightarrow> string" where
  "chapter_error i rest = ''chapters['' @ nat_str 10 i @ '']'' @ rest"

fun parse_chapter :: "int \<Rightarrow> nat \<Rightarrow> json \<Rightarrow> string + engine_bookmark" where
  "parse_chapter pageCount i (J_obj src) =
     (case map_get src ''title'' of
        Some (J_str title) \<Rightarrow>
          if length (js_trim title) = 0 then Inl (chapter_error i ''.title must be a non-empty string.'')
          else (case intInRange (map_get src ''level'') 0 MAX_LEVEL of
            None \<Rightarrow> Inl (chapter_error i (''.level must be an integer between 0 and '' @ int_str MAX_LEVEL @ ''.''))
          | Some level \<Rightarrow> (case intInRange (map_get src ''page'') 1 pageCount of
              None \<Rightarrow> Inl (chapter_error i (''.page must be an integer between 1 and '' @ int_str pageCount @ ''.''))
            | Some page \<Rightarrow> Inr \<lparr>eb_title = title, eb_level = level, eb_page = Some page\<rparr>))
      | _ \<Rightarrow> Inl (chapter_error i ''.title must be a non-empty string.''))"
| "parse_chapter pageCount i _ = Inl (chapter_error i '' must be an object.'')"

fun parse_all :: "(nat \<Rightarrow> json \<Rightarrow> string + 'a) \<Rightarrow> nat \<Rightarrow> json list \<Rightarrow> string + 'a list" where
  "parse_all f i [] = Inr []"
| "parse_all f i (e # es) = (case f i e of Inl err \<Rightarrow> Inl err
     | Inr b \<Rightarrow> (case parse_all f (Suc i) es of Inl err \<Rightarrow> Inl err | Inr bs \<Rightarrow> Inr (b # bs)))"

definition parseChapters :: "(string \<Rightarrow> json option) \<Rightarrow> string \<Rightarrow> int \<Rightarrow> string + engine_bookmark list" where
  "parseChapters parse rawJson pageCount = (case parse rawJson of
       None \<Rightarrow> Inl ''chapters must be valid JSON.''
     | Some (J_arr entries) \<Rightarrow>
         if int (length entries) > MAX_CHAPTERS
         then Inl (''chapters must contain at most '' @ int_str MAX_CHAPTERS @ '' entries.'')
         else parse_all (parse_chapter pageCount) 0 entries
     | Some _ \<Rightarrow> Inl ''chapters must be a JSON array.'')"

text \<open>What the route calls of the engine.\<close>

record 'd structure_api =
  sa_pageBlocks :: "int \<Rightarrow> 'd \<Rightarrow> string + chapter_block list"
  sa_setBookmarks :: "engine_bookmark list \<Rightarrow> 'd \<Rightarrow> string + bool \<times> 'd"

fun read_blocks :: "'d structure_api \<Rightarrow> nat \<Rightarrow> int list \<Rightarrow> ('d, chapter_page list) eff" where
  "read_blocks A k [] = eff_return []"
| "read_blocks A k (page # rest) =
     eff_bind (call_doc k (sa_pageBlocks A page)) (\<lambda>blocks.
       eff_bind (read_blocks A k rest) (\<lambda>pages. eff_return (\<lparr>pb_page = page, pb_blocks = blocks\<rparr> # pages)))"

definition detect_action ::
  "'d structure_api \<Rightarrow> pdf_handle \<Rightarrow> int \<Rightarrow> ('d, ('b, bookmark_input list \<times> int) route_reply) eff" where
  "detect_action A h pageCount =
     eff_bind (read_blocks A (ph_doc h) [1..pageCount]) (\<lambda>pages.
       eff_return (Data_json (extractChaptersFromPages pages (Some MAX_CHAPTERS), pageCount)))"

definition bake_action ::
  "('b, 'd) engine \<Rightarrow> 'd structure_api \<Rightarrow> (string \<Rightarrow> json option) \<Rightarrow> 'b form \<Rightarrow> 'b form_file \<Rightarrow> pdf_handle \<Rightarrow> int
   \<Rightarrow> ('d, ('b, bookmark_input list \<times> int) route_reply) eff" where
  "bake_action E A parse form file h pageCount = (case form_text form ''chapters'' of
       None \<Rightarrow> eff_return (Error_json 400 ''chapters is required for bake.'')
     | Some raw \<Rightarrow> (case parseChapters parse raw pageCount of
          Inl err \<Rightarrow> eff_return (Error_json 400 err)
        | Inr bookmarks \<Rightarrow> change_and_save E file h (sa_setBookmarks A bookmarks)
            (422, ''Could not bake the chapters into bookmarks.'')))"

definition structure_POST ::
  "('b, 'd) engine \<Rightarrow> 'd structure_api \<Rightarrow> (string \<Rightarrow> json option) \<Rightarrow> uuid \<Rightarrow> bool \<Rightarrow> 'b form
   \<Rightarrow> ('d, ('b, bookmark_input list \<times> int) route_reply) eff" where
  "structure_POST E A parse fresh session form =
     pdf_route E fresh session [''detect'', ''bake''] ''action must be one of: detect, bake.''
       ''Failed to process structure operation.'' form
       (\<lambda>action file h n. if action = ''detect'' then detect_action A h n else bake_action E A parse form file h n)"

section \<open>What the detection finds\<close>

text \<open>Every heading of the blocks that has a title, in reading order.\<close>

fun heading_row :: "int \<Rightarrow> chapter_block \<Rightarrow> raw_heading list" where
  "heading_row page Plain_block = []"
| "heading_row page (Heading_block runs level) = (if normaliseTitle (inlineRunsToText runs) = [] then []
     else [\<lparr>rh_title = normaliseTitle (inlineRunsToText runs), rh_rawLevel = clampHeadingLevel level, rh_page = page\<rparr>])"

definition block_headings :: "int \<Rightarrow> chapter_block list \<Rightarrow> raw_heading list" where
  "block_headings page blocks = concat (map (heading_row page) blocks)"

definition all_headings :: "chapter_page list \<Rightarrow> raw_heading list" where
  "all_headings pages = concat (map (\<lambda>p. block_headings (pb_page p) (pb_blocks p)) pages)"

lemma collect_blocks_take:
  "int (length raw) < m \<Longrightarrow> collect_blocks m page raw bs = take (nat m) (raw @ block_headings page bs)"
proof (induction m page raw bs rule: collect_blocks.induct)
  case (3 m page raw runs level blocks)
  show ?case
  proof (cases "m \<le> 1 + int (length raw)")
    case True
    then have "nat m - length raw = 1" using "3.prems" by simp
    then show ?thesis using 3 True by (simp add: Let_def block_headings_def)
  next
    case False
    then have "nat m - length raw = Suc (nat m - Suc (length raw))" by simp
    then show ?thesis using 3 False by (simp add: Let_def block_headings_def)
  qed
qed (simp_all add: block_headings_def)

lemma collect_pages_take:
  "int (length raw) < m \<Longrightarrow> collect_pages m raw ps = take (nat m) (raw @ all_headings ps)"
proof (induction m raw ps rule: collect_pages.induct)
  case (2 m raw p ps)
  show ?case
    using 2 by (auto simp: collect_blocks_take all_headings_def Let_def)
qed (simp add: all_headings_def)


lemma in_all_headings:
  "h \<in> set (all_headings pages) \<longleftrightarrow> (\<exists>p\<in>set pages. \<exists>b\<in>set (pb_blocks p). h \<in> set (heading_row (pb_page p) b))"
  by (auto simp: all_headings_def block_headings_def)

lemma extract_chapters_eq:
  "extractChaptersFromPages pages (Some MAX_CHAPTERS) =
     (let raw = take 5000 (all_headings pages) in
      map (\<lambda>h. \<lparr>bi_title = rh_title h,
        bi_level = rh_rawLevel h - Min (insert 6 (rh_rawLevel ` set raw)), bi_page = rh_page h\<rparr>) raw)"
proof -
  let ?raw = "take 5000 (all_headings pages)"
  have raw: "collect_pages MAX_CHAPTERS [] pages = ?raw"
    using collect_pages_take [of "[]" MAX_CHAPTERS pages] by (simp add: MAX_CHAPTERS_def)
  have mins: "fold (\<lambda>h m. min m (rh_rawLevel h)) hs m = Min (insert m (rh_rawLevel ` set hs))" for hs m
  proof (induction hs arbitrary: m)
    case (Cons h hs)
    have "Min (insert (min m (rh_rawLevel h)) (rh_rawLevel ` set hs)) = Min (insert m (insert (rh_rawLevel h) (rh_rawLevel ` set hs)))"
      by (cases "set hs = {}") (auto simp: min.assoc)
    then show ?case using Cons by simp
  qed simp
  have lev: "1 \<le> rh_rawLevel h \<and> rh_rawLevel h \<le> 6" if h: "h \<in> set ?raw" for h
  proof -
    obtain p :: chapter_page and b where "h \<in> set (heading_row (pb_page p) b)"
      using in_set_takeD [OF h] by (auto simp: in_all_headings)
    then show ?thesis
      by (cases b) (auto simp: clampHeadingLevel_def MIN_HEADING_LEVEL_def MAX_HEADING_LEVEL_def
          split: if_splits option.splits)
  qed
  define low where "low = Min (insert 6 (rh_rawLevel ` set ?raw))"
  have low: "fold (\<lambda>h m. min m (rh_rawLevel h)) ?raw MAX_HEADING_LEVEL = low"
    by (simp only: mins low_def MAX_HEADING_LEVEL_def)
  have "1 \<le> low"
    unfolding low_def using lev by (intro Min.boundedI) auto
  then have cap: "min (rh_rawLevel h - low) MAX_NEST_LEVEL = rh_rawLevel h - low" if "h \<in> set ?raw" for h
    using lev [OF that] by (simp add: MAX_NEST_LEVEL_def)
  show ?thesis
    unfolding extractChaptersFromPages_def option.case raw Let_def low low_def [symmetric] length_0_conv
    using cap by simp
qed

text \<open>The JSON a client sends back for a chapter it was given.\<close>

definition chapter_json :: "bookmark_input \<Rightarrow> json" where
  "chapter_json c = J_obj [(''title'', J_str (bi_title c)), (''level'', J_num (Some (of_int (bi_level c)))),
     (''page'', J_num (Some (of_int (bi_page c))))]"

lemma trim_ends:
  assumes "js_trim s \<noteq> []"
  shows "\<not> js_space (hd (js_trim s)) \<and> \<not> js_space (last (js_trim s))"
proof -
  define t where "t = dropWhile js_space s"
  define v where "v = dropWhile js_space (rev t)"
  have trim: "js_trim s = rev v" by (simp add: js_trim_def t_def v_def)
  then have v: "v \<noteq> []" using assms by simp
  then have "\<not> js_space (hd v)" unfolding v_def by (rule hd_dropWhile)
  moreover have "rev t = takeWhile js_space (rev t) @ v" by (simp add: v_def)
  then have t: "t = rev v @ rev (takeWhile js_space (rev t))" by (metis rev_append rev_rev_ident)
  then have "t \<noteq> []" using v by (metis append_is_Nil_conv rev_is_Nil_conv)
  then have "\<not> js_space (hd t)" unfolding t_def by (rule hd_dropWhile)
  moreover have "hd t = hd (rev v)" using v by (subst t) simp
  ultimately show ?thesis using v by (simp add: trim last_rev)
qed

lemma js_trim_idem: "js_trim (js_trim s) = js_trim s"
  using trim_ends js_trim_id by blast

lemma heading_in_pages:
  assumes "h \<in> set (all_headings pages)"
  shows "(\<exists>p\<in>set pages. rh_page h = pb_page p) \<and> rh_title h \<noteq> [] \<and> js_trim (rh_title h) = rh_title h
    \<and> 1 \<le> rh_rawLevel h \<and> rh_rawLevel h \<le> 6"
proof -
  obtain p :: chapter_page and b where "p \<in> set pages" "h \<in> set (heading_row (pb_page p) b)"
    using assms by (auto simp: in_all_headings)
  then show ?thesis
    by (cases b) (auto simp: normaliseTitle_def js_trim_idem clampHeadingLevel_def MIN_HEADING_LEVEL_def
        MAX_HEADING_LEVEL_def split: if_splits option.splits)
qed

lemma parse_all_map:
  "(\<And>i c. c \<in> set cs \<Longrightarrow> f i (g c) = Inr (h c)) \<Longrightarrow> parse_all f i (map g cs) = Inr (map h cs)"
  by (induction cs arbitrary: i) auto

text \<open>What the detection finds is the headings with a title in reading order, at most 5000 of
  them, each with its page and its level less the smallest level, so between 0 and 5 and 0 for the
  shallowest; sending it back to be baked is never refused: the parser of the second request accepts
  it and gives one bookmark per chapter with the same title, level and page.\<close>

lemma detected_chapters_accepted:
  assumes "\<forall>p\<in>set pages. 1 \<le> pb_page p \<and> pb_page p \<le> n"
    and "parse raw = Some (J_arr (map chapter_json (extractChaptersFromPages pages (Some MAX_CHAPTERS))))"
  shows "map (\<lambda>c. (bi_title c, bi_page c)) (extractChaptersFromPages pages (Some MAX_CHAPTERS))
      = map (\<lambda>h. (rh_title h, rh_page h)) (take 5000 (all_headings pages))
    \<and> (all_headings pages \<noteq> [] \<longrightarrow> Min (bi_level ` set (extractChaptersFromPages pages (Some MAX_CHAPTERS))) = 0)
    \<and> list_all (\<lambda>c. 0 \<le> bi_level c \<and> bi_level c \<le> 5) (extractChaptersFromPages pages (Some MAX_CHAPTERS))
    \<and> parseChapters parse raw n = Inr (map (\<lambda>c. \<lparr>eb_title = bi_title c, eb_level = bi_level c, eb_page = Some (bi_page c)\<rparr>)
        (extractChaptersFromPages pages (Some MAX_CHAPTERS)))"
proof -
  let ?raw = "take 5000 (all_headings pages)" and ?cs = "extractChaptersFromPages pages (Some MAX_CHAPTERS)"
  define low where "low = Min (insert 6 (rh_rawLevel ` set ?raw))"
  have cs: "?cs = map (\<lambda>h. \<lparr>bi_title = rh_title h, bi_level = rh_rawLevel h - low, bi_page = rh_page h\<rparr>) ?raw"
    using extract_chapters_eq [of pages] by (simp add: Let_def low_def)
  have h: "1 \<le> rh_page h \<and> rh_page h \<le> n" "rh_title h \<noteq> []" "js_trim (rh_title h) = rh_title h"
      "1 \<le> rh_rawLevel h" "rh_rawLevel h \<le> 6" if "h \<in> set ?raw" for h
    using heading_in_pages [of h pages] in_set_takeD [OF that] assms(1) by auto
  have low: "1 \<le> low" "low \<le> rh_rawLevel h" if "h \<in> set ?raw" for h
    using h that unfolding low_def by (auto intro: Min.boundedI)
  have levels: "0 \<le> bi_level c \<and> bi_level c \<le> 5" if c: "c \<in> set ?cs" for c
  proof -
    obtain h where "h \<in> set ?raw" "bi_level c = rh_rawLevel h - low"
      using c unfolding cs by auto
    then show ?thesis using h low by force
  qed
  have least: "Min (bi_level ` set ?cs) = 0" if ne: "all_headings pages \<noteq> []"
  proof -
    have ne': "?raw \<noteq> []" using ne by simp
    then obtain h0 where "h0 \<in> set ?raw" by (meson last_in_set)
    then have "low \<in> rh_rawLevel ` set ?raw"
      using Min_in [of "rh_rawLevel ` set ?raw"] h(5) ne' unfolding low_def
      by (auto simp: Min_insert min_def intro: Min.coboundedI antisym)
    then have "0 \<in> bi_level ` set ?cs" unfolding cs by (auto simp: image_iff)
    then show ?thesis
      using levels by (intro Min_eqI) auto
  qed
  have parsed: "parse_chapter n i (chapter_json c) = Inr \<lparr>eb_title = bi_title c, eb_level = bi_level c, eb_page = Some (bi_page c)\<rparr>"
    if c: "c \<in> set ?cs" for i c
  proof -
    obtain hd where "hd \<in> set ?raw" "bi_title c = rh_title hd" "bi_page c = rh_page hd"
      using c unfolding cs by auto
    then have "js_trim (bi_title c) \<noteq> []" "1 \<le> bi_page c" "bi_page c \<le> n"
      using h by auto
    then show ?thesis
      using levels [OF c] by (simp add: chapter_json_def intInRange_of_int MAX_LEVEL_def)
  qed
  have "length ?cs \<le> 5000" unfolding cs by simp
  then have "int (length ?cs) \<le> MAX_CHAPTERS" unfolding MAX_CHAPTERS_def by linarith
  then have "parseChapters parse raw n = Inr (map (\<lambda>c. \<lparr>eb_title = bi_title c, eb_level = bi_level c, eb_page = Some (bi_page c)\<rparr>) ?cs)"
    using assms(2) parse_all_map [of ?cs "parse_chapter n" chapter_json, OF parsed] by (simp add: parseChapters_def)
  then show ?thesis
    using levels least by (simp add: cs list_all_iff o_def)
qed


definition demo_chapter_pages :: "chapter_page list" where
  "demo_chapter_pages = [\<lparr>pb_page = 1, pb_blocks = [Heading_block [Run_text ''  Part'', Line_break, Run_text '' One''] (Some 2), Plain_block]\<rparr>,
     \<lparr>pb_page = 2, pb_blocks = [Heading_block [Run_text ''  ''] (Some 1), Heading_block [Link_runs [Run_text ''Sub'']] (Some 9)]\<rparr>]"

lemma demo_chapters:
  "extractChaptersFromPages demo_chapter_pages (Some MAX_CHAPTERS) =
     [\<lparr>bi_title = ''Part One'', bi_level = 0, bi_page = 1\<rparr>, \<lparr>bi_title = ''Sub'', bi_level = 4, bi_page = 2\<rparr>]"
  by code_simp

lemma detected_chapters_accepted_witness:
  "parseChapters (\<lambda>s. Some (J_arr (map chapter_json (extractChaptersFromPages demo_chapter_pages (Some MAX_CHAPTERS))))) ''..'' 2
   = Inr [\<lparr>eb_title = ''Part One'', eb_level = 0, eb_page = Some 1\<rparr>, \<lparr>eb_title = ''Sub'', eb_level = 4, eb_page = Some 2\<rparr>]"
proof -
  have "\<forall>p\<in>set demo_chapter_pages. 1 \<le> pb_page p \<and> pb_page p \<le> 2"
    by (simp add: demo_chapter_pages_def)
  from detected_chapters_accepted [OF this,
      of "\<lambda>s. Some (J_arr (map chapter_json (extractChaptersFromPages demo_chapter_pages (Some MAX_CHAPTERS))))" "''..''"]
  show ?thesis by (simp add: demo_chapters)
qed

section \<open>The document of a request\<close>

lemma uses_only_read_blocks: "uses_only k (read_blocks A k pages)"
  by (induction pages) (auto intro!: uses_only_bind uses_only_basic)

lemma uses_only_actions:
  "uses_only (ph_doc h) (detect_action A h n)" "uses_only (ph_doc h) (bake_action E A parse form file h n)"
  unfolding detect_action_def bake_action_def
  by (auto intro!: uses_only_bind uses_only_read_blocks uses_only_basic uses_only_change_and_save
      split: option.split sum.split)

text \<open>No request of the structure route frees the document it opened: when a signed-in user sends
  a file the engine opens, with either action, the handle of that document is live after the reply,
  whatever the reply is, although it was not before.\<close>

lemma structure_request_leaks:
  assumes "world_ok w" and "validatePdfFile (map_get form ''file'') False = Inr file"
    and "form_text form ''action'' = Some action" and "action \<in> {''detect'', ''bake''}"
    and "openDocument E fresh (ff_bytes file) None w = (Inr h, w1)"
    and "structure_POST E A parse fresh True form w = (r, w')"
  shows "map_has (wd_docs w') (ph_doc h) \<and> \<not> map_has (wd_docs w) (ph_doc h)"
  by (rule route_keeps_document [OF assms(1) TrueI assms(2,3) _ assms(5) _ assms(6) [unfolded structure_POST_def]])
    (use assms(4) in \<open>auto intro: uses_only_actions\<close>)

definition demo_form :: "string \<Rightarrow> list_doc form" where
  "demo_form action = [(''file'', Form_file \<lparr>ff_size = 9, ff_name = ''a.pdf'', ff_type = [],
     ff_bytes = list_doc_of [7] []\<rparr>), (''action'', Form_text action)]"

lemma demo_form_ok:
  "validatePdfFile (map_get (demo_form action) ''file'') False = Inr \<lparr>ff_size = 9, ff_name = ''a.pdf'', ff_type = [],
     ff_bytes = list_doc_of [7] []\<rparr>"
  "form_text (demo_form action) ''action'' = Some action"
  by (simp_all add: demo_form_def validatePdfFile_def file_invalid_def MAX_FILE_SIZE_BYTES_def form_text_def)

lemma demo_open:
  "\<exists>w1. openDocument list_engine ''id'' (list_doc_of [7] []) None empty_world
     = (Inr \<lparr>ph_id = ''id'', ph_wasEncrypted = False, ph_doc = 0\<rparr>, w1)"
  by (simp add: openDocument_def detect_encrypted_def list_engine_def list_doc_of_def open_doc_def eff_bind_def
      eff_lift_def alloc_doc_def empty_world_def Let_def)

lemma structure_request_leaks_witness:
  "map_has (wd_docs (snd (structure_POST list_engine
     \<lparr>sa_pageBlocks = (\<lambda>p d. Inr []), sa_setBookmarks = (\<lambda>bs d. Inr (True, d))\<rparr>
     (\<lambda>s. None) ''id'' True (demo_form ''detect'') empty_world))) 0"
proof -
  let ?r = "structure_POST list_engine \<lparr>sa_pageBlocks = (\<lambda>p d. Inr []), sa_setBookmarks = (\<lambda>bs d. Inr (True, d))\<rparr>
     (\<lambda>s. None) ''id'' True (demo_form ''detect'') empty_world"
  obtain w1 where o: "openDocument list_engine ''id'' (list_doc_of [7] []) None empty_world
     = (Inr \<lparr>ph_id = ''id'', ph_wasEncrypted = False, ph_doc = 0\<rparr>, w1)"
    using demo_open by blast
  show ?thesis
    using structure_request_leaks [OF world_ok_empty demo_form_ok, of "''detect''", of list_engine "''id''", unfolded form_file.simps,
        OF _ o prod.collapse [of ?r, symmetric]] by simp
qed

end
