(* ===== verification/Links_Route.thy ===== *)
theory Links_Route
  imports Structure_Route Js_Regex
begin

text \<open>
  The route \<open>POST /api/pdf/links\<close> (\<open>apps/web/src/app/api/pdf/links/route.ts\<close>): hyperlinks, bookmarks,
  named destinations and the open action of a document, from untrusted form fields and JSON. Every
  mutating action is a call of the engine, checked first; the calls are data, so what reaches the
  engine can be stated. The engine's functions are a parameter. A file sent in a field that should be
  text counts as missing (the code refuses it too, as invalid JSON or with a \<open>TypeError\<close>).
\<close>

section \<open>What the engine is asked\<close>

record link_rect =
  lr_x :: jsnum
  lr_y :: jsnum
  lr_w :: jsnum
  lr_h :: jsnum

datatype destination =
    Dest_named string
  | Dest_xyz int "jsnum option" "jsnum option" "jsnum option" \<comment> \<open>page, left, top, zoom\<close>
  | Dest_fit int
  | Dest_fitB int
  | Dest_fitH int "jsnum option"
  | Dest_fitBH int "jsnum option"
  | Dest_fitV int "jsnum option"
  | Dest_fitBV int "jsnum option"
  | Dest_fitR int "jsnum list"

datatype link_action = Act_goto destination | Act_uri string | Act_named string

datatype link_call =
    Add_link int link_rect link_action
  | Remove_link int int
  | Set_bookmarks "engine_bookmark list"
  | Add_named_dest string int
  | Add_goto_named int jsnum jsnum jsnum jsnum string
  | Set_open_action link_action

record ('d, 'x, 'n) links_api =
  la_links :: "int \<Rightarrow> 'd \<Rightarrow> string + 'x list"
  la_namedDests :: "'d \<Rightarrow> string + 'n"
  la_addLink :: "int \<Rightarrow> link_rect \<Rightarrow> link_action \<Rightarrow> 'd \<Rightarrow> string + bool \<times> 'd"
  la_removeLink :: "int \<Rightarrow> int \<Rightarrow> 'd \<Rightarrow> string + bool \<times> 'd"
  la_setBookmarks :: "engine_bookmark list \<Rightarrow> 'd \<Rightarrow> string + bool \<times> 'd"
  la_addNamedDest :: "string \<Rightarrow> int \<Rightarrow> 'd \<Rightarrow> string + bool \<times> 'd"
  la_addGotoLinkNamed :: "int \<Rightarrow> jsnum \<Rightarrow> jsnum \<Rightarrow> jsnum \<Rightarrow> jsnum \<Rightarrow> string \<Rightarrow> 'd \<Rightarrow> string + bool \<times> 'd"
  la_setOpenAction :: "link_action \<Rightarrow> 'd \<Rightarrow> string + bool \<times> 'd"

fun run_call :: "('d, 'x, 'n) links_api \<Rightarrow> link_call \<Rightarrow> 'd \<Rightarrow> string + bool \<times> 'd" where
  "run_call A (Add_link page rect act) = la_addLink A page rect act"
| "run_call A (Remove_link page i) = la_removeLink A page i"
| "run_call A (Set_bookmarks bs) = la_setBookmarks A bs"
| "run_call A (Add_named_dest name page) = la_addNamedDest A name page"
| "run_call A (Add_goto_named page x0 y0 x1 y1 name) = la_addGotoLinkNamed A page x0 y0 x1 y1 name"
| "run_call A (Set_open_action act) = la_setOpenAction A act"

text \<open>The reply when the engine refuses.\<close>

fun refused :: "link_call \<Rightarrow> nat \<times> string" where
  "refused (Add_link page rect act) = (422, ''Could not add the link.'')"
| "refused (Remove_link page i) = (404, ''No link found at the given index on that page.'')"
| "refused (Set_bookmarks bs) = (422, ''Could not set the bookmarks.'')"
| "refused (Add_named_dest name page) = (422, ''Could not create the named destination.'')"
| "refused (Add_goto_named page x0 y0 x1 y1 name) = (422, ''Could not add the named GoTo link.'')"
| "refused (Set_open_action act) = (422, ''Could not set the open action.'')"

section \<open>Parsing\<close>

definition MAX_BOOKMARKS :: int where "MAX_BOOKMARKS = 5000"
definition MAX_COORD :: jsnum where "MAX_COORD = 1000000"
definition MAX_NAME_LENGTH :: nat where "MAX_NAME_LENGTH = 256"
definition MIN_VALUE :: jsnum where "MIN_VALUE = 1 / 2 ^ 1074"
definition MAX_LINK_INDEX :: int where "MAX_LINK_INDEX = 9007199254740991"

definition SAFE_URI_SCHEME :: regex where
  "SAFE_URI_SCHEME = Alts [Cat [Chars ''http'', Alts [Chars ''s'', Chars []], Chars '':''], Chars ''mailto:'', Chars ''tel:'']"

definition NAMED_ACTIONS :: "string list" where
  "NAMED_ACTIONS = [''nextPage'', ''prevPage'', ''firstPage'', ''lastPage'']"

definition parseRect :: "(string \<Rightarrow> json option) \<Rightarrow> string \<Rightarrow> string + link_rect" where
  "parseRect parse rawJson = (case parse rawJson of
       None \<Rightarrow> Inl ''rect must be valid JSON.''
     | Some (J_obj r) \<Rightarrow>
         (case (finiteInRange (map_get r ''x'') (- MAX_COORD) MAX_COORD, finiteInRange (map_get r ''y'') (- MAX_COORD) MAX_COORD) of
            (Some x, Some y) \<Rightarrow>
              (case (finiteInRange (map_get r ''w'') MIN_VALUE MAX_COORD, finiteInRange (map_get r ''h'') MIN_VALUE MAX_COORD) of
                 (Some width, Some height) \<Rightarrow> Inr \<lparr>lr_x = x, lr_y = y, lr_w = width, lr_h = height\<rparr>
               | _ \<Rightarrow> Inl ''rect.w and rect.h must be positive numbers.'')
          | _ \<Rightarrow> Inl ''rect.x and rect.y must be finite numbers.'')
     | Some _ \<Rightarrow> Inl ''rect must be an object { x, y, w, h }.'')"

definition bookmark_error :: "nat \<Rightarrow> string \<Rightarrow> string" where
  "bookmark_error i rest = ''bookmarks['' @ nat_str 10 i @ '']'' @ rest"

fun parse_bookmark :: "int \<Rightarrow> nat \<Rightarrow> json \<Rightarrow> string + engine_bookmark" where
  "parse_bookmark pageCount i (J_obj src) =
     (case map_get src ''title'' of
        Some (J_str title) \<Rightarrow>
          (case intInRange (map_get src ''level'') 0 MAX_LEVEL of
             None \<Rightarrow> Inl (bookmark_error i (''.level must be an integer between 0 and '' @ int_str MAX_LEVEL @ ''.''))
           | Some level \<Rightarrow>
               if map_get src ''page'' = None \<or> map_get src ''page'' = Some J_null
               then Inr \<lparr>eb_title = title, eb_level = level, eb_page = None\<rparr>
               else (case intInRange (map_get src ''page'') 1 pageCount of
                  None \<Rightarrow> Inl (bookmark_error i (''.page must be an integer between 1 and '' @ int_str pageCount @ ''.''))
                | Some page \<Rightarrow> Inr \<lparr>eb_title = title, eb_level = level, eb_page = Some page\<rparr>))
      | _ \<Rightarrow> Inl (bookmark_error i ''.title must be a string.''))"
| "parse_bookmark pageCount i _ = Inl (bookmark_error i '' must be an object.'')"

definition parseBookmarks :: "(string \<Rightarrow> json option) \<Rightarrow> string \<Rightarrow> int \<Rightarrow> string + engine_bookmark list" where
  "parseBookmarks parse rawJson pageCount = (case parse rawJson of
       None \<Rightarrow> Inl ''bookmarks must be valid JSON.''
     | Some (J_arr entries) \<Rightarrow>
         if int (length entries) > MAX_BOOKMARKS
         then Inl (''bookmarks must contain at most '' @ int_str MAX_BOOKMARKS @ '' entries.'')
         else parse_all (parse_bookmark pageCount) 0 entries
     | Some _ \<Rightarrow> Inl ''bookmarks must be a JSON array.'')"

definition coord :: "(string \<times> json) list \<Rightarrow> string \<Rightarrow> jsnum option" where
  "coord src key = finiteInRange (map_get src key) (- MAX_COORD) MAX_COORD"

definition parse_quad :: "json option \<Rightarrow> jsnum list option" where
  "parse_quad v = (case v of
       Some (J_arr ns) \<Rightarrow>
         (let xs = map (\<lambda>n. finiteInRange (Some n) (- MAX_COORD) MAX_COORD) ns in
          if length ns \<noteq> 4 \<or> None \<in> set xs then None else Some (map the xs))
     | _ \<Rightarrow> None)"

definition parseDestination :: "(string \<times> json) list \<Rightarrow> int \<Rightarrow> string + destination" where
  "parseDestination src pageCount =
     (let fit = map_get src ''fit'' in
      if fit = Some (J_str ''named'') then
        (case map_get src ''name'' of
           Some (J_str name) \<Rightarrow> if length name = 0
             then Inl ''dest.name must be a non-empty string for a named destination.'' else Inr (Dest_named name)
         | _ \<Rightarrow> Inl ''dest.name must be a non-empty string for a named destination.'')
      else case intInRange (map_get src ''page'') 1 pageCount of
          None \<Rightarrow> Inl (''dest.page must be an integer between 1 and '' @ int_str pageCount @ ''.'')
        | Some page \<Rightarrow>
            (let upper = coord src ''top''; left = coord src ''left'' in
             if fit = Some (J_str ''xyz'')
               then Inr (Dest_xyz page left upper (finiteInRange (map_get src ''zoom'') 0 MAX_COORD))
             else if fit = Some (J_str ''fit'') then Inr (Dest_fit page)
             else if fit = Some (J_str ''fitB'') then Inr (Dest_fitB page)
             else if fit = Some (J_str ''fitH'') then Inr (Dest_fitH page upper)
             else if fit = Some (J_str ''fitBH'') then Inr (Dest_fitBH page upper)
             else if fit = Some (J_str ''fitV'') then Inr (Dest_fitV page left)
             else if fit = Some (J_str ''fitBV'') then Inr (Dest_fitBV page left)
             else if fit = Some (J_str ''fitR'') then
               (case parse_quad (map_get src ''rect'') of
                  None \<Rightarrow> Inl ''dest.rect must be [x0, y0, x1, y1] for a fitR destination.''
                | Some rect \<Rightarrow> Inr (Dest_fitR page rect))
             else Inl ''dest.fit is not a recognised fit mode.''))"

definition goto_action :: "(string \<times> json) list \<Rightarrow> int \<Rightarrow> string + link_action" where
  "goto_action src pageCount = (case map_get src ''dest'' of
       Some (J_obj d) \<Rightarrow> map_sum id Act_goto (parseDestination d pageCount)
     | _ \<Rightarrow> Inl ''action.dest must be an object for a goto action.'')"

definition uri_action :: "(string \<times> json) list \<Rightarrow> string + link_action" where
  "uri_action src = (case map_get src ''uri'' of
       Some (J_str uri) \<Rightarrow> if re_test_i SAFE_URI_SCHEME (js_trim uri) then Inr (Act_uri (js_trim uri))
         else Inl ''action.uri must be an http(s), mailto or tel URI.''
     | _ \<Rightarrow> Inl ''action.uri must be an http(s), mailto or tel URI.'')"

definition named_action :: "(string \<times> json) list \<Rightarrow> string + link_action" where
  "named_action src = (let wrong = ''action.action must be one of: '' @ js_join '', '' NAMED_ACTIONS @ ''.'' in
     case map_get src ''action'' of
       Some (J_str a) \<Rightarrow> if a \<in> set NAMED_ACTIONS then Inr (Act_named a) else Inl wrong
     | _ \<Rightarrow> Inl wrong)"

definition parseOpenAction :: "(string \<Rightarrow> json option) \<Rightarrow> string \<Rightarrow> int \<Rightarrow> string + link_action" where
  "parseOpenAction parse rawJson pageCount = (case parse rawJson of
       None \<Rightarrow> Inl ''action must be valid JSON.''
     | Some (J_obj src) \<Rightarrow>
         (let t = map_get src ''type'' in
          if t = Some (J_str ''goto'') then goto_action src pageCount
          else if t = Some (J_str ''uri'') then uri_action src
          else if t = Some (J_str ''named'') then named_action src
          else Inl ''action.type must be one of: goto, uri, named.'')
     | Some _ \<Rightarrow> Inl ''action must be an object.'')"

section \<open>The route\<close>

text \<open>\<open>Number(formData.get(name))\<close> as an integer in a range; a missing field is refused.\<close>

definition form_int :: "'b form \<Rightarrow> string \<Rightarrow> int \<Rightarrow> int \<Rightarrow> int option" where
  "form_int form name lo hi = (case form_text form name of None \<Rightarrow> None
     | Some raw \<Rightarrow> intInRange (Some (J_num (js_number raw))) lo hi)"

definition page_error :: "string \<Rightarrow> int \<Rightarrow> nat \<times> string" where
  "page_error what n = (400, what @ '' must be an integer between 1 and '' @ int_str n @ ''.'')"

definition name_error :: "nat \<times> string" where
  "name_error = (400, ''name must be a non-empty string of at most '' @ nat_str 10 MAX_NAME_LENGTH @ '' characters.'')"

definition form_name :: "'b form \<Rightarrow> string option" where
  "form_name form = (case form_text form ''name'' of None \<Rightarrow> None
     | Some raw \<Rightarrow> (let name = js_trim raw in
         if name = [] \<or> length name > MAX_NAME_LENGTH then None else Some name))"

definition form_rect ::
  "(string \<Rightarrow> json option) \<Rightarrow> 'b form \<Rightarrow> string \<Rightarrow> (nat \<times> string) + link_rect" where
  "form_rect parse form action = (case form_text form ''rect'' of
       None \<Rightarrow> Inl (400, ''rect is required for '' @ action @ ''.'')
     | Some raw \<Rightarrow> map_sum (Pair 400) id (parseRect parse raw))"

definition link_target :: "'b form \<Rightarrow> int \<Rightarrow> (nat \<times> string) + link_action" where
  "link_target form n =
     (let uriRaw = form_text form ''uri''; internalRaw = form_text form ''internalPage'';
          hasUri = (case uriRaw of None \<Rightarrow> False | Some u \<Rightarrow> js_trim u \<noteq> []);
          hasInternal = (internalRaw \<noteq> None \<and> internalRaw \<noteq> Some [])
      in if hasUri = hasInternal
         then Inl (400, ''addLink requires exactly one target: uri OR internalPage.'')
         else if hasUri then
           (let uri = js_trim (the uriRaw) in
            if re_test_i SAFE_URI_SCHEME uri then Inr (Act_uri uri)
            else Inl (400, ''uri must be an http(s), mailto or tel URI.''))
         else case form_int form ''internalPage'' 1 n of
             None \<Rightarrow> Inl (page_error ''internalPage'' n)
           | Some page \<Rightarrow> Inr (Act_goto (Dest_xyz page None None None)))"

text \<open>The call a mutating action asks for, or the reply that refuses it.\<close>

definition need_page :: "'b form \<Rightarrow> int \<Rightarrow> (int \<Rightarrow> (nat \<times> string) + 'a) \<Rightarrow> (nat \<times> string) + 'a" where
  "need_page form n f = (case form_int form ''page'' 1 n of None \<Rightarrow> Inl (page_error ''page'' n) | Some page \<Rightarrow> f page)"

definition need_name :: "'b form \<Rightarrow> (string \<Rightarrow> (nat \<times> string) + 'a) \<Rightarrow> (nat \<times> string) + 'a" where
  "need_name form f = (case form_name form of None \<Rightarrow> Inl name_error | Some name \<Rightarrow> f name)"

definition need_rect ::
  "(string \<Rightarrow> json option) \<Rightarrow> 'b form \<Rightarrow> string \<Rightarrow> (link_rect \<Rightarrow> (nat \<times> string) + 'a) \<Rightarrow> (nat \<times> string) + 'a" where
  "need_rect parse form action f = (case form_rect parse form action of Inl e \<Rightarrow> Inl e | Inr rect \<Rightarrow> f rect)"

definition link_request ::
  "(string \<Rightarrow> json option) \<Rightarrow> string \<Rightarrow> 'b form \<Rightarrow> int \<Rightarrow> (nat \<times> string) + link_call" where
  "link_request parse action form n =
     (if action = ''addLink'' then
        need_page form n (\<lambda>page. need_rect parse form action (\<lambda>rect.
          map_sum id (Add_link page rect) (link_target form n)))
      else if action = ''removeLink'' then
        need_page form n (\<lambda>page. case form_int form ''linkIndex'' 0 MAX_LINK_INDEX of
            None \<Rightarrow> Inl (400, ''linkIndex must be an integer >= 0.'')
          | Some i \<Rightarrow> Inr (Remove_link page i))
      else if action = ''setBookmarks'' then
        (case form_text form ''bookmarks'' of None \<Rightarrow> Inl (400, ''bookmarks is required for setBookmarks.'')
         | Some raw \<Rightarrow> map_sum (Pair 400) Set_bookmarks (parseBookmarks parse raw n))
      else if action = ''addNamedDest'' then
        need_name form (\<lambda>name. need_page form n (\<lambda>page. Inr (Add_named_dest name page)))
      else if action = ''addGotoLinkNamed'' then
        need_page form n (\<lambda>page. need_rect parse form action (\<lambda>rect. need_name form (\<lambda>name.
          Inr (Add_goto_named page (lr_x rect) (lr_y rect) (lr_x rect + lr_w rect) (lr_y rect + lr_h rect) name))))
      else
        (case form_text form ''action_payload'' of None \<Rightarrow> Inl (400, ''action_payload is required for setOpenAction.'')
         | Some raw \<Rightarrow> map_sum (Pair 400) Set_open_action (parseOpenAction parse raw n)))"

fun read_links :: "('d, 'x, 'n) links_api \<Rightarrow> nat \<Rightarrow> int list \<Rightarrow> ('d, ('x \<times> int) list) eff" where
  "read_links A k [] = eff_return []"
| "read_links A k (page # rest) =
     eff_bind (call_doc k (la_links A page)) (\<lambda>links.
       eff_bind (read_links A k rest) (\<lambda>more. eff_return (map (\<lambda>l. (l, page)) links @ more)))"

definition get_action ::
  "('b, 'd) engine \<Rightarrow> ('d, 'x, 'n) links_api \<Rightarrow> pdf_handle \<Rightarrow> int
   \<Rightarrow> ('d, ('b, ('x \<times> int) list \<times> outline_entry list \<times> 'n \<times> int) route_reply) eff" where
  "get_action E A h n =
     eff_bind (read_links A (ph_doc h) [1..n]) (\<lambda>links.
     eff_bind (read_doc (ph_doc h) (en_outline E)) (\<lambda>outline.
     eff_bind (call_doc (ph_doc h) (la_namedDests A)) (\<lambda>named.
       eff_return (Data_json (links, outline, named, n)))))"

definition links_POST ::
  "('b, 'd) engine \<Rightarrow> ('d, 'x, 'n) links_api \<Rightarrow> (string \<Rightarrow> json option) \<Rightarrow> uuid \<Rightarrow> bool \<Rightarrow> 'b form
   \<Rightarrow> ('d, ('b, ('x \<times> int) list \<times> outline_entry list \<times> 'n \<times> int) route_reply) eff" where
  "links_POST E A parse fresh session form =
     pdf_route E fresh session
       [''get'', ''addLink'', ''removeLink'', ''setBookmarks'', ''setOpenAction'', ''addNamedDest'', ''addGotoLinkNamed'']
       ''action must be one of: get, addLink, removeLink, setBookmarks, setOpenAction, addNamedDest, addGotoLinkNamed.''
       ''Failed to process links operation.'' form
       (\<lambda>action file h n.
          if action = ''get'' then get_action E A h n
          else case link_request parse action form n of
              Inl (status, message) \<Rightarrow> eff_return (Error_json status message)
            | Inr call \<Rightarrow> change_and_save E file h (run_call A call) (refused call))"

section \<open>What reaches the engine\<close>

text \<open>A URI that opens in a browser, a mail program or a dialler, and nothing that runs code.\<close>

definition safe_uri :: "string \<Rightarrow> bool" where
  "safe_uri u \<longleftrightarrow> (\<exists>s\<in>set [''http:'', ''https:'', ''mailto:'', ''tel:'']. js_lower (take (length s) u) = s)"

fun safe_dest :: "int \<Rightarrow> destination \<Rightarrow> bool" where
  "safe_dest n (Dest_named name) = (name \<noteq> [])"
| "safe_dest n (Dest_fitR page rect) = (1 \<le> page \<and> page \<le> n \<and> length rect = 4 \<and> list_all (\<lambda>x. \<bar>x\<bar> \<le> 1000000) rect)"
| "safe_dest n (Dest_xyz page left upper zoom) = (1 \<le> page \<and> page \<le> n
     \<and> pred_option (\<lambda>x. \<bar>x\<bar> \<le> 1000000) left \<and> pred_option (\<lambda>x. \<bar>x\<bar> \<le> 1000000) upper \<and> pred_option (\<lambda>z. 0 \<le> z) zoom)"
| "safe_dest n (Dest_fit page) = (1 \<le> page \<and> page \<le> n)"
| "safe_dest n (Dest_fitB page) = (1 \<le> page \<and> page \<le> n)"
| "safe_dest n (Dest_fitH page x) = (1 \<le> page \<and> page \<le> n \<and> pred_option (\<lambda>x. \<bar>x\<bar> \<le> 1000000) x)"
| "safe_dest n (Dest_fitBH page x) = (1 \<le> page \<and> page \<le> n \<and> pred_option (\<lambda>x. \<bar>x\<bar> \<le> 1000000) x)"
| "safe_dest n (Dest_fitV page x) = (1 \<le> page \<and> page \<le> n \<and> pred_option (\<lambda>x. \<bar>x\<bar> \<le> 1000000) x)"
| "safe_dest n (Dest_fitBV page x) = (1 \<le> page \<and> page \<le> n \<and> pred_option (\<lambda>x. \<bar>x\<bar> \<le> 1000000) x)"

fun safe_action :: "int \<Rightarrow> link_action \<Rightarrow> bool" where
  "safe_action n (Act_goto d) = safe_dest n d"
| "safe_action n (Act_uri u) = safe_uri u"
| "safe_action n (Act_named a) = (a \<in> set NAMED_ACTIONS)"

fun safe_call :: "int \<Rightarrow> link_call \<Rightarrow> bool" where
  "safe_call n (Add_link page rect act) = (1 \<le> page \<and> page \<le> n \<and> 0 < lr_w rect \<and> 0 < lr_h rect
     \<and> list_all (\<lambda>x. \<bar>x\<bar> \<le> 1000000) [lr_x rect, lr_y rect, lr_w rect, lr_h rect] \<and> safe_action n act)"
| "safe_call n (Remove_link page i) = (1 \<le> page \<and> page \<le> n \<and> 0 \<le> i)"
| "safe_call n (Set_bookmarks bs) = (length bs \<le> 5000
     \<and> list_all (\<lambda>b. 0 \<le> eb_level b \<and> eb_level b \<le> 32 \<and> pred_option (\<lambda>p. 1 \<le> p \<and> p \<le> n) (eb_page b)) bs)"
| "safe_call n (Add_named_dest name page) = (1 \<le> page \<and> page \<le> n \<and> 0 < length name \<and> length name \<le> 256)"
| "safe_call n (Add_goto_named page x0 y0 x1 y1 name) = (1 \<le> page \<and> page \<le> n \<and> x0 < x1 \<and> y0 < y1
     \<and> 0 < length name \<and> length name \<le> 256)"
| "safe_call n (Set_open_action act) = safe_action n act"

lemma finite_coord: "finiteInRange v (- MAX_COORD) MAX_COORD = Some x \<Longrightarrow> \<bar>x\<bar> \<le> 1000000"
  using finiteInRange_Some [of v "- MAX_COORD" MAX_COORD x] by (auto simp: MAX_COORD_def)

lemma coord_ok: "pred_option (\<lambda>x. \<bar>x\<bar> \<le> 1000000) (coord src key)"
  by (auto simp: coord_def pred_option_def dest: finite_coord split: option.splits)

lemma take_lower: "take k (js_lower s) = js_lower (take k s)"
  by (simp add: js_lower_def take_map)

lemma in_rests_Chars: "t \<in> set (rests (Chars p) s) \<longleftrightarrow> s = p @ t"
  by (cases "strip_prefix p s") (auto simp flip: strip_prefix_Some)

lemma scheme_safe: "re_test_i SAFE_URI_SCHEME u \<Longrightarrow> safe_uri u"
proof -
  assume "re_test_i SAFE_URI_SCHEME u"
  then obtain t where "t \<in> set (rests SAFE_URI_SCHEME (js_lower u))"
    unfolding re_test_i_def re_test_def using last_in_set by blast
  then have "\<exists>t. js_lower u = ''http'' @ ''s'' @ '':'' @ t \<or> js_lower u = ''http'' @ '':'' @ t
      \<or> js_lower u = ''mailto:'' @ t \<or> js_lower u = ''tel:'' @ t"
    by (auto simp: SAFE_URI_SCHEME_def in_rests_Chars simp del: rests.simps(1))
  then show ?thesis
    unfolding safe_uri_def take_lower [symmetric] by fastforce
qed


lemma parseRect_ok:
  "parseRect parse raw = Inr r \<Longrightarrow> 0 < lr_w r \<and> 0 < lr_h r
     \<and> list_all (\<lambda>x. \<bar>x\<bar> \<le> 1000000) [lr_x r, lr_y r, lr_w r, lr_h r]"
proof -
  have size: "0 < x \<and> \<bar>x\<bar> \<le> 1000000" if "finiteInRange v MIN_VALUE MAX_COORD = Some x" for v x
  proof -
    have "0 < MIN_VALUE" by (simp add: MIN_VALUE_def)
    then show ?thesis using finiteInRange_Some [OF that] by (auto simp: MAX_COORD_def)
  qed
  show "parseRect parse raw = Inr r \<Longrightarrow> ?thesis"
    by (auto simp: parseRect_def dest: size finite_coord split: option.splits json.splits)
qed

lemma parse_all_each: "parse_all f i es = Inr bs \<Longrightarrow> (\<And>j e b. f j e = Inr b \<Longrightarrow> P b) \<Longrightarrow> length bs = length es \<and> list_all P bs"
  by (induction es arbitrary: i bs) (auto split: sum.splits)

lemma parse_bookmark_ok:
  "parse_bookmark n i e = Inr b \<Longrightarrow>
   0 \<le> eb_level b \<and> eb_level b \<le> 32 \<and> pred_option (\<lambda>p. 1 \<le> p \<and> p \<le> n) (eb_page b)"
  by (cases e) (auto simp: MAX_LEVEL_def dest!: intInRange_Some split: option.splits json.splits if_splits)

lemma parseBookmarks_ok: "parseBookmarks parse raw n = Inr bs \<Longrightarrow> safe_call n (Set_bookmarks bs)"
proof -
  assume "parseBookmarks parse raw n = Inr bs"
  then obtain es where es: "\<not> 5000 < length es" "parse_all (parse_bookmark n) 0 es = Inr bs"
    by (auto simp: parseBookmarks_def MAX_BOOKMARKS_def split: option.splits json.splits if_splits)
  show ?thesis
    using parse_all_each [OF es(2) parse_bookmark_ok] es(1) by simp
qed

lemma parse_quad_ok: "parse_quad v = Some rect \<Longrightarrow> length rect = 4 \<and> list_all (\<lambda>x. \<bar>x\<bar> \<le> 1000000) rect"
proof -
  let ?f = "\<lambda>n. finiteInRange (Some n) (- MAX_COORD) MAX_COORD"
  assume "parse_quad v = Some rect"
  then obtain ns where ns: "length ns = 4" "None \<notin> set (map ?f ns)" "rect = map the (map ?f ns)"
    by (auto simp: parse_quad_def Let_def split: option.splits json.splits if_splits)
  have "\<bar>the (?f n)\<bar> \<le> 1000000" if "n \<in> set ns" for n
  proof -
    from ns(2) that have "?f n \<noteq> None" by force
    then obtain x where "?f n = Some x" by blast
    then show ?thesis using finite_coord by simp
  qed
  then show ?thesis using ns(1,3) by (simp add: list_all_iff)
qed

lemma zoom_ok: "pred_option (\<lambda>z. 0 \<le> z) (finiteInRange v 0 MAX_COORD)"
  using finiteInRange_Some [of v 0 MAX_COORD] by (cases "finiteInRange v 0 MAX_COORD") auto

lemma parseDestination_ok: "parseDestination src n = Inr d \<Longrightarrow> safe_dest n d"
proof (cases "map_get src ''fit'' = Some (J_str ''named'')")
  case True
  then show "parseDestination src n = Inr d \<Longrightarrow> ?thesis"
    by (auto simp: parseDestination_def split: option.splits json.splits if_splits)
next
  case False
  assume d: "parseDestination src n = Inr d"
  then obtain page where page: "intInRange (map_get src ''page'') 1 n = Some page"
    using False by (cases "intInRange (map_get src ''page'') 1 n") (auto simp: parseDestination_def)
  have "1 \<le> page \<and> page \<le> n" using intInRange_Some [OF page] .
  moreover have "d \<in> {Dest_xyz page (coord src ''left'') (coord src ''top'') (finiteInRange (map_get src ''zoom'') 0 MAX_COORD),
      Dest_fit page, Dest_fitB page, Dest_fitH page (coord src ''top''), Dest_fitBH page (coord src ''top''),
      Dest_fitV page (coord src ''left''), Dest_fitBV page (coord src ''left'')}
    \<or> (\<exists>rect. parse_quad (map_get src ''rect'') = Some rect \<and> d = Dest_fitR page rect)"
    using d False unfolding parseDestination_def Let_def page
    by (simp split: if_splits option.splits)
  ultimately show ?thesis
    using coord_ok [of src] zoom_ok [of "map_get src ''zoom''"] parse_quad_ok [of "map_get src ''rect''"] by force
qed

lemma map_sum_Inr: "map_sum f g x = Inr c \<longleftrightarrow> (\<exists>b. x = Inr b \<and> c = g b)"
  by (cases x) auto

lemma goto_ok: "goto_action src n = Inr a \<Longrightarrow> safe_action n a"
  by (auto simp: goto_action_def map_sum_Inr dest: parseDestination_ok split: option.splits json.splits)

lemma uri_ok: "uri_action src = Inr a \<Longrightarrow> safe_action n a"
  by (auto simp: uri_action_def dest: scheme_safe split: option.splits json.splits if_splits)

lemma named_ok: "named_action src = Inr a \<Longrightarrow> safe_action n a"
  by (auto simp: named_action_def Let_def split: option.splits json.splits if_splits)

lemma parseOpenAction_ok: "parseOpenAction parse raw n = Inr a \<Longrightarrow> safe_action n a"
  using goto_ok uri_ok named_ok
  by (fastforce simp: parseOpenAction_def Let_def split: option.splits json.splits if_splits)

lemma form_int_Some: "form_int form name lo hi = Some k \<Longrightarrow> lo \<le> k \<and> k \<le> hi"
  by (auto simp: form_int_def dest: intInRange_Some split: option.splits)

lemma form_name_Some: "form_name form = Some name \<Longrightarrow> 0 < length name \<and> length name \<le> 256"
  by (auto simp: form_name_def Let_def MAX_NAME_LENGTH_def split: option.splits if_splits)

lemma link_target_ok: "link_target form n = Inr a \<Longrightarrow> safe_action n a"
  unfolding link_target_def Let_def
  by (auto dest: scheme_safe form_int_Some split: option.splits if_splits)

definition rect_ok :: "link_rect \<Rightarrow> bool" where
  "rect_ok r \<longleftrightarrow> 0 < lr_w r \<and> 0 < lr_h r \<and> list_all (\<lambda>x. \<bar>x\<bar> \<le> 1000000) [lr_x r, lr_y r, lr_w r, lr_h r]"

lemma need_simps:
  "need_page form n f = Inr c \<longleftrightarrow> (\<exists>page. form_int form ''page'' 1 n = Some page \<and> f page = Inr c)"
  "need_name form g = Inr c \<longleftrightarrow> (\<exists>name. form_name form = Some name \<and> g name = Inr c)"
  "need_rect parse form action h = Inr c \<longleftrightarrow> (\<exists>r. form_rect parse form action = Inr r \<and> h r = Inr c)"
  by (auto simp: need_page_def need_name_def need_rect_def split: option.splits sum.splits)

lemma form_rect_ok: "form_rect parse form action = Inr r \<Longrightarrow> rect_ok r"
  unfolding form_rect_def rect_ok_def
  by (cases "form_text form ''rect''") (simp_all only: option.case map_sum_Inr id_apply, blast?, metis parseRect_ok)

lemma link_request_safe:
  assumes r: "link_request parse action form n = Inr call"
  shows "safe_call n call"
proof -
  consider "action = ''addLink''" | "action = ''removeLink''" | "action = ''setBookmarks''" | "action = ''addNamedDest''"
    | "action = ''addGotoLinkNamed''" | "action \<notin> {''addLink'', ''removeLink'', ''setBookmarks'', ''addNamedDest'', ''addGotoLinkNamed''}"
    by blast
  then show ?thesis
  proof cases
    case 1
    then obtain page rect a where "form_int form ''page'' 1 n = Some page" "form_rect parse form action = Inr rect"
      "link_target form n = Inr a" "call = Add_link page rect a"
      using r by (auto simp: link_request_def need_simps map_sum_Inr)
    then show ?thesis
      using form_int_Some [of form "''page''" 1 n] form_rect_ok link_target_ok by (auto simp: rect_ok_def)
  next
    case 2
    then obtain page i where "form_int form ''page'' 1 n = Some page"
      "form_int form ''linkIndex'' 0 MAX_LINK_INDEX = Some i" "call = Remove_link page i"
      using r by (auto simp: link_request_def need_simps split: option.splits)
    then show ?thesis
      by (auto dest!: form_int_Some)
  next
    case 3
    then show ?thesis
      using r parseBookmarks_ok by (fastforce simp: link_request_def map_sum_Inr split: option.splits)
  next
    case 4
    then show ?thesis
      using r by (auto simp: link_request_def need_simps dest!: form_int_Some form_name_Some)
  next
    case 5
    then show ?thesis
      using r by (auto simp: link_request_def need_simps rect_ok_def dest!: form_int_Some form_name_Some form_rect_ok)
  next
    case 6
    then obtain raw a where "parseOpenAction parse raw n = Inr a" "call = Set_open_action a"
      using r by (auto simp: link_request_def map_sum_Inr split: option.splits)
    then show ?thesis
      using parseOpenAction_ok by simp
  qed
qed

lemma change_and_save_Pdf:
  assumes "change_and_save E file h f refusal w = (Inr (Pdf_binary disp bytes), w')"
  shows "\<exists>d d'. map_get (wd_docs w) (ph_doc h) = Some d \<and> f d = Inr (True, d') \<and> en_saveCompressed E d' = Inr bytes"
proof -
  obtain w1 where "flag_doc (ph_doc h) f w = (Inr True, w1)" and s: "saveDocument E h None w1 = (Inr bytes, w')"
    using assms by (auto simp: change_and_save_def eff_bind_Inr pdf_reply_def split: if_splits)
  then obtain d d' where d: "map_get (wd_docs w) (ph_doc h) = Some d" "f d = Inr (True, d')"
    "w1 = w\<lparr>wd_docs := AList.update (ph_doc h) d' (wd_docs w)\<rparr>"
    by (auto simp: flag_doc_def trap_def split: option.splits sum.splits)
  then have "map_get (wd_docs w1) (ph_doc h) = Some d'" by (simp add: js_simps)
  then have "en_saveCompressed E d' = Inr bytes"
    using s by (auto simp: saveDocument_def eff_bind_Inr call_doc_def split: sum.splits)
  with d show ?thesis by blast
qed

lemma catch_Pdf:
  "catch_errors m e w = (Inr (Pdf_binary disp bytes), w') \<longleftrightarrow> e w = (Inr (Pdf_binary disp bytes), w')"
  by (auto simp: catch_errors_def split: prod.split sum.split pdf_error.split)

lemma pdf_route_Pdf:
  assumes "pdf_route E fresh session actions unknown failed form body w = (Inr (Pdf_binary disp bytes), w')"
  shows "\<exists>file action h w1 d. session \<and> validatePdfFile (map_get form ''file'') False = Inr file
    \<and> form_text form ''action'' = Some action \<and> action \<in> set actions
    \<and> openDocument E fresh (ff_bytes file) None w = (Inr h, w1) \<and> map_get (wd_docs w1) (ph_doc h) = Some d
    \<and> body action file h (en_pageCount E d) w1 = (Inr (Pdf_binary disp bytes), w')"
proof -
  show ?thesis
    using assms unfolding pdf_route_def
    by (auto simp: catch_Pdf eff_bind_Inr read_doc_def trap_def split: if_splits sum.splits option.splits)
qed

lemma get_action_reply: "get_action E A h n w = (Inr r, w') \<Longrightarrow> \<exists>j. r = Data_json j"
  by (auto simp: get_action_def eff_bind_Inr)


definition demo_api :: "(list_doc, unit, unit) links_api" where
  "demo_api = \<lparr>la_links = (\<lambda>p d. Inr []), la_namedDests = (\<lambda>d. Inr ()), la_addLink = (\<lambda>p r a d. Inr (True, d)),
     la_removeLink = (\<lambda>p i d. Inr (False, d)), la_setBookmarks = (\<lambda>bs d. Inr (True, d)),
     la_addNamedDest = (\<lambda>name p d. Inr (True, d\<lparr>ld_meta := [(name, [])]\<rparr>)),
     la_addGotoLinkNamed = (\<lambda>p x0 y0 x1 y1 name d. Inr (True, d)), la_setOpenAction = (\<lambda>a d. Inr (True, d))\<rparr>"

definition named_form :: "list_doc form" where
  "named_form = demo_form ''addNamedDest'' @ [(''name'', Form_text '' intro ''), (''page'', Form_text ''1.0'')]"

lemma named_form_ok:
  "validatePdfFile (map_get named_form ''file'') False = Inr \<lparr>ff_size = 9, ff_name = ''a.pdf'', ff_type = [],
     ff_bytes = list_doc_of [7] []\<rparr>"
  "form_text named_form ''action'' = Some ''addNamedDest''"
  using demo_form_ok [of "''addNamedDest''"] by (simp_all add: named_form_def demo_form_def form_text_def)

lemma page_number: "js_number ''1.0'' = Some 1"
proof -
  have "js_trim ''1.0'' = ''1.0''" "is_digit 10 CHR ''1''" "\<not> is_digit 10 CHR ''.''" "is_digit 10 CHR ''0''"
    "digits_value 10 ''10'' = 10" by code_simp+
  then show ?thesis by (simp add: js_number_def radix_of_def with_sign_def decimal_literal_def)
qed

lemma named_request: "link_request (\<lambda>s. None) ''addNamedDest'' named_form 1 = Inr (Add_named_dest ''intro'' 1)"
proof -
  have "js_trim '' intro '' = ''intro''" by code_simp
  then have "form_name named_form = Some ''intro''"
    by (simp add: form_name_def named_form_def demo_form_def form_text_def MAX_NAME_LENGTH_def)
  moreover have "form_int named_form ''page'' 1 1 = Some 1"
    using page_number intInRange_of_int [of 1 1 1]
    by (simp add: form_int_def named_form_def demo_form_def form_text_def)
  ultimately show ?thesis by (simp add: link_request_def need_name_def need_page_def)
qed

lemma demo_POST:
  "\<exists>disp bytes w'. links_POST list_engine demo_api (\<lambda>s. None) ''id'' True named_form empty_world
     = (Inr (Pdf_binary disp bytes), w') \<and> ld_meta bytes = [(''intro'', [])]"
proof -
  define w1 where "w1 = snd (openDocument list_engine ''id'' (list_doc_of [7] []) None empty_world)"
  have o: "openDocument list_engine ''id'' (list_doc_of [7] []) None empty_world
     = (Inr \<lparr>ph_id = ''id'', ph_wasEncrypted = False, ph_doc = 0\<rparr>, w1)" and w1: "map_get (wd_docs w1) 0 = Some (list_doc_of [7] [])"
    unfolding w1_def
    by (simp_all add: openDocument_def detect_encrypted_def list_engine_def list_doc_of_def open_doc_def eff_bind_def
      eff_lift_def alloc_doc_def empty_world_def set_dirty_def Let_def js_simps)
  have n: "en_pageCount list_engine (list_doc_of [7] []) = 1"
    by (simp add: list_engine_def list_doc_of_def)
  show ?thesis
    unfolding links_POST_def pdf_route_def named_form_ok 
    apply (simp add: o w1 n eff_bind_def read_doc_def named_request catch_errors_def change_and_save_def)
    apply (simp add: flag_doc_def w1 demo_api_def saveDocument_def eff_bind_def call_doc_def js_simps list_engine_def pdf_reply_def eff_return_def)
    done
qed


text \<open>An unencrypted upload that the engine cannot open is answered 500 with the route's generic
  message, never the 422 for a corrupted PDF: \<open>openDocument\<close> rejects it with an error that the
  route does not recognise.\<close>

lemma damaged_upload_is_500:
  assumes "session" "validatePdfFile (map_get form ''file'') False = Inr file"
    and "form_text form ''action'' = Some action"
    and "action \<in> set [''get'', ''addLink'', ''removeLink'', ''setBookmarks'', ''setOpenAction'', ''addNamedDest'', ''addGotoLinkNamed'']"
    and "\<not> detect_encrypted E (ff_bytes file)" "en_open E (ff_bytes file) = Inl msg"
  shows "fst (links_POST E A parse fresh session form w) = Inr (Error_json 500 ''Failed to process links operation.'')"
  using assms(1,2,3,5,6) assms(4)
  by (simp add: links_POST_def pdf_route_def catch_errors_def eff_bind_def openDocument_def open_doc_def eff_lift_def open_error_def eff_throw_def)

lemma damaged_upload_is_500_witness:
  "fst (links_POST list_engine demo_api (\<lambda>s. None) ''id'' True
      [(''file'', Form_file \<lparr>ff_size = 9, ff_name = ''a.pdf'', ff_type = [], ff_bytes = list_doc_of [] []\<rparr>),
       (''action'', Form_text ''get'')] empty_world)
   = Inr (Error_json 500 ''Failed to process links operation.'')"
proof -
  let ?f = "\<lparr>ff_size = 9, ff_name = ''a.pdf'', ff_type = [], ff_bytes = list_doc_of [] []\<rparr>"
  let ?form = "[(''file'', Form_file ?f), (''action'', Form_text ''get'')]"
  have v: "validatePdfFile (map_get ?form ''file'') False = Inr ?f" "form_text ?form ''action'' = Some ''get''"
    by (simp_all add: validatePdfFile_def file_invalid_def MAX_FILE_SIZE_BYTES_def form_text_def)
  have "\<not> detect_encrypted list_engine (ff_bytes ?f)" "en_open list_engine (ff_bytes ?f) = Inl ''empty''"
    by (simp_all add: detect_encrypted_def list_engine_def list_doc_of_def)
  then show ?thesis
    using damaged_upload_is_500 [OF TrueI v] by simp
qed

end
