(* ===== verification/Api_Client.thy ===== *)
theory Api_Client
  imports Prelude
begin

text \<open>
  The HTTP client of \<open>packages/api/src/client.ts\<close>: the interceptor that signs requests, the one that
  refreshes the access token after a 401 and lets the other requests wait, and the errors it makes.
  axios, the server and the host application are the events of a run; a request is a number. The
  methods of the token storage are those of \<open>defaultTokenStorage\<close> in a browser; the details of an
  error (a copy of the answer's data) are left out.
\<close>

section \<open>Errors\<close>

record api_error =
  ae_message :: string
  ae_status :: "int option"
  ae_code :: "string option"

text \<open>How a call fails: an error answer with the fields of its data, no answer at all, or a request
  that could not be made.\<close>

datatype failure =
    Error_answer int "string option" "string option" "string option" \<comment> \<open>status, message, detail, code\<close>
  | No_answer
  | Not_made string

text \<open>\<open>||\<close> on strings: the empty string and a missing one give way.\<close>

definition or_message :: "string option \<Rightarrow> string \<Rightarrow> string" where
  "or_message a b = (case a of None \<Rightarrow> b | Some s \<Rightarrow> if s = [] then b else s)"

definition truthy :: "string option \<Rightarrow> bool" where
  "truthy a \<longleftrightarrow> a \<noteq> None \<and> a \<noteq> Some []"

fun to_api_error :: "failure \<Rightarrow> api_error" where
  "to_api_error (Error_answer status message detail code) =
     \<lparr>ae_message = or_message message (or_message detail ''An error occurred''), ae_status = Some status, ae_code = code\<rparr>"
| "to_api_error No_answer =
     \<lparr>ae_message = ''No response received from server'', ae_status = None, ae_code = Some ''NO_RESPONSE''\<rparr>"
| "to_api_error (Not_made message) =
     \<lparr>ae_message = or_message (Some message) ''Request failed'', ae_status = None, ae_code = Some ''REQUEST_FAILED''\<rparr>"

datatype 'a call_outcome = Resolved 'a | Rejected api_error

definition NO_REFRESH_TOKEN :: api_error where
  "NO_REFRESH_TOKEN = \<lparr>ae_message = ''No refresh token available'', ae_status = Some 401, ae_code = Some ''NO_REFRESH_TOKEN''\<rparr>"

definition REFRESH_FAILED :: api_error where
  "REFRESH_FAILED = \<lparr>ae_message = ''Token refresh failed'', ae_status = Some 401, ae_code = Some ''REFRESH_FAILED''\<rparr>"

section \<open>State and steps\<close>

text \<open>Where a request is: on its way to the server, waiting in \<open>failedQueue\<close>, being the one whose
  handler waits for \<open>/auth/refresh\<close>, or settled. \<open>cl_retried\<close> are the requests with \<open>_retry\<close>,
  \<open>cl_headers\<close> their \<open>Authorization\<close>, \<open>cl_logouts\<close> counts the calls of \<open>onUnauthorized\<close>.\<close>

type_synonym request = nat

record 'a client =
  cl_access :: "string option"
  cl_refresh :: "string option"
  cl_refreshing :: bool
  cl_queue :: "request list"
  cl_refresher :: "request option"
  cl_retried :: "request list"
  cl_headers :: "(request, string) jsmap"
  cl_inflight :: "request list"
  cl_settled :: "(request \<times> 'a call_outcome) list"
  cl_logouts :: nat

definition new_client :: "'a client" where
  "new_client = \<lparr>cl_access = None, cl_refresh = None, cl_refreshing = False, cl_queue = [], cl_refresher = None,
     cl_retried = [], cl_headers = [], cl_inflight = [], cl_settled = [], cl_logouts = 0\<rparr>"

definition setTokens :: "string \<Rightarrow> string \<Rightarrow> 'a client \<Rightarrow> 'a client" where
  "setTokens accessToken refreshToken s = s\<lparr>cl_access := Some accessToken, cl_refresh := Some refreshToken\<rparr>"

definition clearTokens :: "'a client \<Rightarrow> 'a client" where
  "clearTokens s = s\<lparr>cl_access := None, cl_refresh := None\<rparr>"

text \<open>\<open>client(config)\<close>: the request interceptor, then the request leaves.\<close>

definition send :: "request \<Rightarrow> 'a client \<Rightarrow> 'a client" where
  "send r s = s\<lparr>cl_headers := (if truthy (cl_access s)
       then AList.update r (''Bearer '' @ the (cl_access s)) (cl_headers s) else cl_headers s),
     cl_inflight := cl_inflight s @ [r]\<rparr>"

definition settle :: "request \<Rightarrow> 'a call_outcome \<Rightarrow> 'a client \<Rightarrow> 'a client" where
  "settle r oc s = s\<lparr>cl_settled := cl_settled s @ [(r, oc)]\<rparr>"

definition logout :: "'a client \<Rightarrow> 'a client" where
  "logout s = (clearTokens s)\<lparr>cl_logouts := Suc (cl_logouts s)\<rparr>"

text \<open>The response interceptor. A request whose refresh cannot start is rejected at once; note that
  the flag \<open>isRefreshing\<close> has been set by then.\<close>

definition on_401 :: "request \<Rightarrow> 'a client \<Rightarrow> 'a client" where
  "on_401 r s =
     (if cl_refreshing s then s\<lparr>cl_queue := cl_queue s @ [r]\<rparr>
      else let s1 = s\<lparr>cl_retried := set_add r (cl_retried s), cl_refreshing := True\<rparr> in
        if \<not> truthy (cl_refresh s1) then settle r (Rejected NO_REFRESH_TOKEN) (logout s1)
        else s1\<lparr>cl_refresher := Some r\<rparr>)"

definition is_401 :: "failure \<Rightarrow> bool" where
  "is_401 f = (case f of Error_answer status m d c \<Rightarrow> status = 401 | _ \<Rightarrow> False)"

definition on_answer :: "request \<Rightarrow> failure + 'a \<Rightarrow> 'a client \<Rightarrow> 'a client" where
  "on_answer r a s =
     (let s1 = s\<lparr>cl_inflight := remove1 r (cl_inflight s)\<rparr> in
      case a of
        Inr x \<Rightarrow> settle r (Resolved x) s1
      | Inl f \<Rightarrow> if is_401 f \<and> r \<notin> set (cl_retried s1) then on_401 r s1
             else settle r (Rejected (to_api_error f)) s1)"

text \<open>\<open>processQueue\<close>: with a token every waiting request is sent again, with an error it is rejected
  with that error. The continuations run after the handler, so behind its own retry.\<close>

definition processQueue :: "api_error option \<Rightarrow> request list \<Rightarrow> 'a client \<Rightarrow> 'a client" where
  "processQueue err waiting s =
     fold (\<lambda>r. case err of None \<Rightarrow> send r | Some e \<Rightarrow> settle r (Rejected e)) waiting s"

definition on_refreshed :: "request \<Rightarrow> string \<Rightarrow> string \<Rightarrow> 'a client \<Rightarrow> 'a client" where
  "on_refreshed r access_token newRefreshToken s =
     (let s1 = setTokens access_token newRefreshToken s;
          s2 = s1\<lparr>cl_headers := AList.update r (''Bearer '' @ access_token) (cl_headers s1)\<rparr>;
          waiting = cl_queue s2
      in processQueue None waiting
           (send r (s2\<lparr>cl_queue := [], cl_refreshing := False, cl_refresher := None\<rparr>)))"

definition on_refresh_error :: "request \<Rightarrow> api_error \<Rightarrow> 'a client \<Rightarrow> 'a client" where
  "on_refresh_error r err s =
     (let waiting = cl_queue s;
          s1 = logout (s\<lparr>cl_queue := [], cl_refreshing := False, cl_refresher := None\<rparr>)
      in processQueue (Some err) waiting (settle r (Rejected REFRESH_FAILED) s1))"

text \<open>What can happen: a new call, an answer to a request on its way, the end of the refresh, and
  the host application storing or clearing tokens.\<close>

datatype 'a net_event =
    Ev_call request
  | Ev_answer request "failure + 'a"
  | Ev_refreshed string string
  | Ev_refresh_error api_error
  | Ev_login string string
  | Ev_logout

definition places :: "'a client \<Rightarrow> request list" where
  "places s = cl_inflight s @ cl_queue s @ (case cl_refresher s of None \<Rightarrow> [] | Some r \<Rightarrow> [r]) @ map fst (cl_settled s)"

fun client_step :: "'a net_event \<Rightarrow> 'a client \<Rightarrow> 'a client" where
  "client_step (Ev_call r) s = (if r \<in> set (places s) then s else send r s)"
| "client_step (Ev_answer r a) s = (if r \<in> set (cl_inflight s) then on_answer r a s else s)"
| "client_step (Ev_refreshed tok rt) s =
     (case cl_refresher s of None \<Rightarrow> s | Some r \<Rightarrow> on_refreshed r tok rt s)"
| "client_step (Ev_refresh_error err) s =
     (case cl_refresher s of None \<Rightarrow> s | Some r \<Rightarrow> on_refresh_error r err s)"
| "client_step (Ev_login tok rt) s = setTokens tok rt s"
| "client_step Ev_logout s = clearTokens s"

definition client_run :: "'a net_event list \<Rightarrow> 'a client \<Rightarrow> 'a client" where
  "client_run evs s = fold client_step evs s"

section \<open>No request is lost\<close>

named_theorems client_defs

lemmas [client_defs] = send_def settle_def logout_def clearTokens_def setTokens_def on_401_def on_answer_def
  on_refreshed_def on_refresh_error_def

text \<open>Each request that was made is in one place; the queue is only used during a refresh.\<close>

definition client_ok :: "request list \<Rightarrow> 'a client \<Rightarrow> bool" where
  "client_ok made s \<longleftrightarrow> mset (places s) = mset made \<and> distinct made
     \<and> (cl_queue s \<noteq> [] \<longrightarrow> cl_refreshing s) \<and> (cl_refresher s \<noteq> None \<longrightarrow> cl_refreshing s)"

text \<open>The requests of the events, in order, each once.\<close>

definition calls :: "'a net_event list \<Rightarrow> request list" where
  "calls evs = fold (\<lambda>ev made. case ev of Ev_call r \<Rightarrow> set_add r made | _ \<Rightarrow> made) evs []"

lemma processQueue_fields:
  "cl_inflight (processQueue err ws s) = cl_inflight s @ (if err = None then ws else [])"
  "cl_settled (processQueue err ws s) = cl_settled s @ (case err of None \<Rightarrow> [] | Some e \<Rightarrow> map (\<lambda>r. (r, Rejected e)) ws)"
  "cl_queue (processQueue err ws s) = cl_queue s"
  "cl_refresher (processQueue err ws s) = cl_refresher s"
  "cl_refreshing (processQueue err ws s) = cl_refreshing s"
  "cl_access (processQueue err ws s) = cl_access s"
  "cl_refresh (processQueue err ws s) = cl_refresh s"
  by (induction ws arbitrary: s) (auto simp: processQueue_def send_def settle_def split: option.splits)

lemma client_ok_step:
  assumes "client_ok made s"
  shows "client_ok (case ev of Ev_call r \<Rightarrow> set_add r made | _ \<Rightarrow> made) (client_step ev s)"
proof (cases ev)
  case (Ev_call r)
  have "set (places s) = set made" using assms by (metis client_ok_def mset_eq_setD)
  then show ?thesis
    using assms by (auto simp: Ev_call client_ok_def places_def client_defs set_add_def)
next
  case (Ev_answer r a)
  show ?thesis
  proof (cases "r \<in> set (cl_inflight s)")
    case True
    then obtain xs ys where i: "cl_inflight s = xs @ r # ys" "r \<notin> set xs"
      by (meson split_list_first)
    then have "remove1 r (cl_inflight s) = xs @ ys" by (simp add: remove1_append)
    then show ?thesis
      using assms i by (auto simp: ac_simps Ev_answer client_ok_def places_def client_defs Let_def split: sum.splits option.splits)
  qed (use assms in \<open>simp add: Ev_answer\<close>)
next
  case (Ev_refreshed tok rt)
  then show ?thesis
    using assms by (auto simp: ac_simps client_ok_def places_def client_defs Let_def processQueue_fields split: option.splits)
next
  case (Ev_refresh_error err)
  then show ?thesis
    using assms by (auto simp: client_ok_def places_def client_defs Let_def processQueue_fields ac_simps multiset.map_comp o_def split: option.splits)
qed (use assms in \<open>auto simp: client_ok_def places_def client_defs\<close>)

lemma client_ok_run: "client_ok made s \<Longrightarrow> client_ok (fold (\<lambda>ev made. case ev of Ev_call r \<Rightarrow> set_add r made | _ \<Rightarrow> made) evs made) (client_run evs s)"
  unfolding client_run_def
  by (induction evs arbitrary: made s) (auto dest: client_ok_step)


lemma calls_new: "fold (\<lambda>ev made. case ev of Ev_call r \<Rightarrow> set_add r made | _ \<Rightarrow> made) evs [] = calls evs"
  by (simp add: calls_def)

lemma client_ok_new: "client_ok [] new_client"
  by (simp add: client_ok_def new_client_def places_def)

lemma client_ok_reached: "client_ok (calls evs) (client_run evs new_client)"
  using client_ok_run [OF client_ok_new] by (simp add: calls_new)

text \<open>Without a refresh token the flag stays set for ever.\<close>

definition stuck :: "'a client \<Rightarrow> bool" where
  "stuck s \<longleftrightarrow> cl_refreshing s \<and> cl_refresher s = None"

lemma stuck_step:
  assumes "stuck s"
  shows "stuck (client_step ev s) \<and> cl_retried (client_step ev s) = cl_retried s
    \<and> (\<exists>more. cl_queue (client_step ev s) = cl_queue s @ more)"
  using assms by (cases ev) (auto simp: stuck_def client_defs Let_def split: sum.splits)

lemma stuck_run:
  "stuck s \<Longrightarrow> stuck (client_run evs s) \<and> cl_retried (client_run evs s) = cl_retried s
    \<and> (\<exists>more. cl_queue (client_run evs s) = cl_queue s @ more)"
proof (induction evs arbitrary: s)
  case (Cons ev evs)
  obtain more where m: "stuck (client_step ev s)" "cl_retried (client_step ev s) = cl_retried s"
    "cl_queue (client_step ev s) = cl_queue s @ more"
    using stuck_step [OF Cons.prems, of ev] by blast
  have "client_run (ev # evs) s = client_run evs (client_step ev s)" by (simp add: client_run_def)
  then show ?case
    using Cons.IH [OF m(1)] m(2,3) by auto
qed (simp add: client_run_def)

lemma stuck_401:
  "stuck s \<Longrightarrow> r \<in> set (cl_inflight s) \<Longrightarrow> r \<notin> set (cl_retried s) \<Longrightarrow>
   cl_queue (client_step (Ev_answer r (Inl (Error_answer 401 m d c))) s) = cl_queue s @ [r]"
  by (simp add: stuck_def client_defs Let_def is_401_def)

lemma settled_stay: "set (cl_settled s) \<subseteq> set (cl_settled (client_run evs s))"
proof (induction evs arbitrary: s)
  case (Cons ev evs)
  have "set (cl_settled s) \<subseteq> set (cl_settled (client_step ev s))"
    by (cases ev) (auto simp: client_defs Let_def processQueue_fields split: sum.splits option.splits)
  moreover have "client_run (ev # evs) s = client_run evs (client_step ev s)" by (simp add: client_run_def)
  ultimately show ?case using Cons.IH [of "client_step ev s"] by auto
qed (simp add: client_run_def)

lemma client_run_append: "client_run (evs @ evs') s = client_run evs' (client_run evs s)"
  by (simp add: client_run_def)

lemma client_run_Cons: "client_run (ev # evs) s = client_run evs (client_step ev s)"
  by (simp add: client_run_def)

lemma processQueue_headers:
  "truthy (cl_access s) \<Longrightarrow> map_get (cl_headers (processQueue None ws s)) q
     = (if q \<in> set ws then Some (''Bearer '' @ the (cl_access s)) else map_get (cl_headers s) q)"
proof (induction ws arbitrary: s)
  case (Cons w ws)
  then show ?case
    using Cons.IH [of "send w s"] by (auto simp: processQueue_def send_def update_conv')
qed (simp add: processQueue_def)


definition demo_401 :: "request \<Rightarrow> unit net_event" where
  "demo_401 r = Ev_answer r (Inl (Error_answer 401 None None None))"


text \<open>A 401 that arrives while no refresh token is stored blocks the client for ever: the request
  is rejected, but the flag of a running refresh stays set, so whatever happens later (a login
  included), the next request that gets a 401 is put in the queue and stays there; its promise is
  never settled. The editor never stores a refresh token (\<open>providers.tsx\<close> keeps the session's token
  in memory), so the first expired session does this.\<close>

lemma missing_refresh_token_hangs:
  fixes evs before between after :: "'a net_event list" and r r' :: request and m d c m' d' c' :: "string option"
  defines "first \<equiv> Ev_answer r (Inl (Error_answer 401 m d c))" and "second \<equiv> Ev_answer r' (Inl (Error_answer 401 m' d' c'))"
  defines "s0 \<equiv> client_run before new_client"
  defines "s1 \<equiv> client_run between (client_step first s0)"
  defines "s2 \<equiv> client_run after (client_step second s1)"
  assumes "r \<in> set (cl_inflight s0)" "r \<notin> set (cl_retried s0)" "\<not> cl_refreshing s0" "\<not> truthy (cl_refresh s0)"
    and "r' \<in> set (cl_inflight s1)" "r' \<notin> set (cl_retried s1)"
  shows "(r, Rejected NO_REFRESH_TOKEN) \<in> set (cl_settled s2) \<and> cl_refreshing s2
    \<and> r' \<in> set (cl_queue s2) \<and> r' \<notin> fst ` set (cl_settled s2)"
proof -
  have "cl_refresher s0 = None"
    using client_ok_reached [of before] assms(8) by (auto simp: client_ok_def s0_def)
  then have a: "stuck (client_step first s0)" "(r, Rejected NO_REFRESH_TOKEN) \<in> set (cl_settled (client_step first s0))"
    using assms(6-9) by (auto simp: first_def stuck_def client_defs Let_def is_401_def)
  then have s1: "stuck s1" using stuck_run s1_def by blast
  then have q: "r' \<in> set (cl_queue (client_step second s1))" and s1': "stuck (client_step second s1)"
    using stuck_401 assms(10,11) stuck_step unfolding second_def by fastforce+
  have "stuck s2" "r' \<in> set (cl_queue s2)"
    using stuck_run [OF s1', of after] q by (auto simp: s2_def)
  moreover have "s2 = client_run (before @ first # between @ second # after) new_client"
    by (simp add: s2_def s1_def s0_def client_run_append client_run_Cons)
  then have "distinct (places s2)"
    using client_ok_reached [of "before @ first # between @ second # after"] by (metis client_ok_def mset_eq_imp_distinct_iff)
  ultimately have "r' \<notin> fst ` set (cl_settled s2)"
    by (auto simp: places_def)
  moreover have "(r, Rejected NO_REFRESH_TOKEN) \<in> set (cl_settled s2)"
    using a(2) settled_stay [of "client_step first s0" between] settled_stay [of "client_step second s1" after]
      settled_stay [of s1 "[second]"] by (auto simp: s1_def s2_def client_run_def)
  ultimately show ?thesis
    using \<open>stuck s2\<close> \<open>r' \<in> set (cl_queue s2)\<close> by (simp add: stuck_def)
qed

lemma missing_refresh_token_hangs_witness:
  "3 \<in> set (cl_queue (client_run [Ev_refreshed ''x'' ''y'', Ev_call 4] (client_step (demo_401 3)
     (client_run [Ev_login ''a'' ''b'', Ev_call 3] (client_step (demo_401 1) (client_run [Ev_call 1] new_client))))))"
proof -
  let ?s0 = "client_run [Ev_call 1] new_client :: unit client"
  let ?s1 = "client_run [Ev_login ''a'' ''b'', Ev_call 3] (client_step (demo_401 1) ?s0)"
  have a: "1 \<in> set (cl_inflight ?s0)" "1 \<notin> set (cl_retried ?s0)" "\<not> cl_refreshing ?s0" "\<not> truthy (cl_refresh ?s0)"
    and b: "3 \<in> set (cl_inflight ?s1)" "3 \<notin> set (cl_retried ?s1)" by code_simp+
  show ?thesis
    using missing_refresh_token_hangs [OF a b [unfolded demo_401_def], of "[Ev_refreshed ''x'' ''y'', Ev_call 4]" None None None, folded demo_401_def]
    by (elim conjE)
qed

end
