(* ===== verification/Socket_Client.thy ===== *)
theory Socket_Client
  imports Prelude
begin

text \<open>
  The WebSocket client of \<open>packages/api/src/websocket/client.ts\<close> and the presence of
  \<open>useDocumentCollaboration\<close> (\<open>hooks.ts\<close>). A socket of socket.io, which is not part of the repository,
  is the list of the calls made on it; which callbacks are bound after some calls is a function that
  the theorems take as an argument, with the documented laws of an emitter. \<open>on\<close> registers the
  wrapper of a callback that filters echoes; the wrappers are memoised, so wrapper and callback share
  a number.
\<close>

section \<open>The client\<close>

type_synonym socket_payload = "(string, string) jsmap"

text \<open>What is called on a socket; a payload that is no object is \<open>None\<close>.\<close>

datatype socket_call =
    So_on string nat
  | So_off string nat
  | So_emit string "socket_payload option"
  | So_disconnect

record socket =
  so_calls :: "socket_call list"
  so_connected :: bool

text \<open>Every socket \<open>io()\<close> has made, the one in use, and the listeners by event.\<close>

record socket_client =
  sk_clientId :: string
  sk_sockets :: "socket list"
  sk_current :: "nat option"
  sk_listeners :: "(string, nat list) jsmap"

definition new_socket_client :: "string \<Rightarrow> socket_client" where
  "new_socket_client cid = \<lparr>sk_clientId = cid, sk_sockets = [], sk_current = None, sk_listeners = []\<rparr>"

definition isOwnEcho :: "socket_client \<Rightarrow> socket_payload option \<Rightarrow> bool" where
  "isOwnEcho s data = (case data of None \<Rightarrow> False | Some p \<Rightarrow> map_get p ''client_id'' = Some (sk_clientId s))"

text \<open>The callbacks that run when an event arrives for bound wrappers.\<close>

definition deliver :: "socket_client \<Rightarrow> nat list \<Rightarrow> socket_payload option \<Rightarrow> nat list" where
  "deliver s wrapped data = filter (\<lambda>cb. \<not> isOwnEcho s data) wrapped"

definition isConnected :: "socket_client \<Rightarrow> bool" where
  "isConnected s = (case sk_current s of None \<Rightarrow> False | Some k \<Rightarrow> so_connected (sk_sockets s ! k))"

definition on_socket :: "nat \<Rightarrow> (socket \<Rightarrow> socket) \<Rightarrow> socket_client \<Rightarrow> socket_client" where
  "on_socket k f s = s\<lparr>sk_sockets := (sk_sockets s)[k := f (sk_sockets s ! k)]\<rparr>"

text \<open>\<open>this.socket?.m(...)\<close>\<close>

definition call_socket :: "socket_call \<Rightarrow> socket_client \<Rightarrow> socket_client" where
  "call_socket c s = (case sk_current s of None \<Rightarrow> s
     | Some k \<Rightarrow> on_socket k (\<lambda>so. so\<lparr>so_calls := so_calls so @ [c]\<rparr>) s)"

definition connect_client :: "socket_client \<Rightarrow> socket_client" where
  "connect_client s =
     (if isConnected s then s
      else s\<lparr>sk_sockets := sk_sockets s @ [\<lparr>so_calls = [], so_connected = False\<rparr>],
             sk_current := Some (length (sk_sockets s))\<rparr>)"

text \<open>The handler of \<open>connect\<close>: every listener is unbound and bound again, on the socket in use then.\<close>

definition rebind :: "string \<times> nat list \<Rightarrow> socket_client \<Rightarrow> socket_client" where
  "rebind entry s = (case entry of (event, cbs) \<Rightarrow>
     fold (\<lambda>cb s. call_socket (So_on event cb) (call_socket (So_off event cb) s)) cbs s)"

definition socket_up :: "nat \<Rightarrow> socket_client \<Rightarrow> socket_client" where
  "socket_up k s = (if k < length (sk_sockets s) \<and> So_disconnect \<notin> set (so_calls (sk_sockets s ! k))
     then let s1 = on_socket k (\<lambda>so. so\<lparr>so_connected := True\<rparr>) s in fold rebind (sk_listeners s1) s1
     else s)"

definition socket_down :: "nat \<Rightarrow> socket_client \<Rightarrow> socket_client" where
  "socket_down k s = (if k < length (sk_sockets s) then on_socket k (\<lambda>so. so\<lparr>so_connected := False\<rparr>) s else s)"

definition disconnect_client :: "socket_client \<Rightarrow> socket_client" where
  "disconnect_client s = (case sk_current s of None \<Rightarrow> s
     | Some k \<Rightarrow> (on_socket k (\<lambda>so. so\<lparr>so_connected := False\<rparr>) (call_socket So_disconnect s))\<lparr>sk_current := None\<rparr>)"

definition joinDocument :: "string \<Rightarrow> socket_client \<Rightarrow> socket_client" where
  "joinDocument did s = call_socket (So_emit ''document:join'' (Some [(''document_id'', did)]))
     (if \<not> isConnected s then connect_client s else s)"

definition leaveDocument :: "string \<Rightarrow> socket_client \<Rightarrow> socket_client" where
  "leaveDocument did s = call_socket (So_emit ''document:leave'' (Some [(''document_id'', did)])) s"

definition listeners_of :: "socket_client \<Rightarrow> string \<Rightarrow> nat list" where
  "listeners_of s event = (case map_get (sk_listeners s) event of None \<Rightarrow> [] | Some cbs \<Rightarrow> cbs)"

definition client_on :: "string \<Rightarrow> nat \<Rightarrow> socket_client \<Rightarrow> socket_client" where
  "client_on event cb s =
     (let s1 = s\<lparr>sk_listeners := AList.update event (set_add cb (listeners_of s event)) (sk_listeners s)\<rparr>
      in if isConnected s1 then call_socket (So_on event cb) s1 else s1)"

definition client_off :: "string \<Rightarrow> nat \<Rightarrow> socket_client \<Rightarrow> socket_client" where
  "client_off event cb s =
     (let rest = remove1 cb (listeners_of s event);
          s1 = s\<lparr>sk_listeners := (if \<not> map_has (sk_listeners s) event then sk_listeners s
             else if rest = [] then AList.delete event (sk_listeners s) else AList.update event rest (sk_listeners s))\<rparr>
      in if isConnected s1 then call_socket (So_off event cb) s1 else s1)"

text \<open>\<open>{ client_id, ...data }\<close>: an id of the caller's own wins.\<close>

definition stamp :: "string \<Rightarrow> socket_payload \<Rightarrow> socket_payload" where
  "stamp cid data = fold (\<lambda>(k, v). AList.update k v) data [(''client_id'', cid)]"

definition client_emit :: "string \<Rightarrow> socket_payload option \<Rightarrow> socket_client \<Rightarrow> socket_client" where
  "client_emit event data s =
     (let s1 = (if \<not> isConnected s then connect_client s else s)
      in call_socket (So_emit event (map_option (stamp (sk_clientId s)) data)) s1)"

definition sendCursorPosition :: "string \<Rightarrow> string \<Rightarrow> socket_client \<Rightarrow> socket_client" where
  "sendCursorPosition did position s =
     call_socket (So_emit ''cursor:move'' (Some [(''document_id'', did), (''position'', position)])) s"

datatype socket_event =
    Sc_connect
  | Sc_disconnect
  | Sc_join string
  | Sc_leave string
  | Sc_on string nat
  | Sc_off string nat
  | Sc_emit string "socket_payload option"
  | Sc_up nat
  | Sc_down nat

fun socket_step :: "socket_event \<Rightarrow> socket_client \<Rightarrow> socket_client" where
  "socket_step Sc_connect s = connect_client s"
| "socket_step Sc_disconnect s = disconnect_client s"
| "socket_step (Sc_join d) s = joinDocument d s"
| "socket_step (Sc_leave d) s = leaveDocument d s"
| "socket_step (Sc_on e cb) s = client_on e cb s"
| "socket_step (Sc_off e cb) s = client_off e cb s"
| "socket_step (Sc_emit e data) s = client_emit e data s"
| "socket_step (Sc_up k) s = socket_up k s"
| "socket_step (Sc_down k) s = socket_down k s"

section \<open>Presence\<close>

record active_user =
  au_id :: string
  au_name :: string
  au_avatar :: "string option"

record presence =
  pr_users :: "active_user list"
  pr_cursors :: "(string, string) jsmap"

datatype presence_event =
    User_join string active_user
  | User_leave string string
  | Cursor_move string string string

fun presence_step :: "string option \<Rightarrow> presence_event \<Rightarrow> presence \<Rightarrow> presence" where
  "presence_step did (User_join d u) p =
     (if Some d \<noteq> did \<or> list_ex (\<lambda>v. au_id v = au_id u) (pr_users p) then p
      else p\<lparr>pr_users := pr_users p @ [u]\<rparr>)"
| "presence_step did (User_leave d uid) p =
     (if Some d \<noteq> did then p
      else p\<lparr>pr_users := filter (\<lambda>u. au_id u \<noteq> uid) (pr_users p), pr_cursors := AList.delete uid (pr_cursors p)\<rparr>)"
| "presence_step did (Cursor_move d uid position) p =
     (if Some d \<noteq> did then p else p\<lparr>pr_cursors := AList.update uid position (pr_cursors p)\<rparr>)"

section \<open>Every listener is bound once\<close>

text \<open>What an emitter documents: \<open>on\<close> appends, \<open>off\<close> removes one registration.\<close>

definition emitter_laws :: "(socket_call list \<Rightarrow> string \<Rightarrow> nat list) \<Rightarrow> bool" where
  "emitter_laws bound \<longleftrightarrow> (\<forall>e. bound [] e = [])
     \<and> (\<forall>cs e cb e'. bound (cs @ [So_on e cb]) e' = (if e' = e then bound cs e @ [cb] else bound cs e'))
     \<and> (\<forall>cs e cb e'. bound (cs @ [So_off e cb]) e' = (if e' = e then remove1 cb (bound cs e) else bound cs e'))
     \<and> (\<forall>cs e data e'. bound (cs @ [So_emit e data]) e' = bound cs e')"

definition bound_now :: "(socket_call list \<Rightarrow> string \<Rightarrow> nat list) \<Rightarrow> socket_client \<Rightarrow> string \<Rightarrow> nat list" where
  "bound_now bound s e = (case sk_current s of None \<Rightarrow> [] | Some k \<Rightarrow> bound (so_calls (sk_sockets s ! k)) e)"

definition socket_ok :: "(socket_call list \<Rightarrow> string \<Rightarrow> nat list) \<Rightarrow> socket_client \<Rightarrow> bool" where
  "socket_ok bound s \<longleftrightarrow> wf_map (sk_listeners s) \<and> (\<forall>e. distinct (listeners_of s e))
     \<and> (case sk_current s of None \<Rightarrow> True | Some k \<Rightarrow> k < length (sk_sockets s))
     \<and> (\<forall>e. distinct (bound_now bound s e) \<and> set (bound_now bound s e) \<subseteq> set (listeners_of s e)
          \<and> (isConnected s \<longrightarrow> set (bound_now bound s e) = set (listeners_of s e)))"

text \<open>Callers do not register a callback twice, and do not remove one while the connection is down
  that is bound to the socket in use.\<close>

definition careful :: "(socket_call list \<Rightarrow> string \<Rightarrow> nat list) \<Rightarrow> socket_event \<Rightarrow> socket_client \<Rightarrow> bool" where
  "careful bound ev s = (case ev of
       Sc_on e cb \<Rightarrow> cb \<notin> set (listeners_of s e)
     | Sc_off e cb \<Rightarrow> isConnected s \<or> cb \<notin> set (bound_now bound s e)
     | _ \<Rightarrow> True)"

fun careful_run :: "(socket_call list \<Rightarrow> string \<Rightarrow> nat list) \<Rightarrow> socket_event list \<Rightarrow> socket_client \<Rightarrow> bool" where
  "careful_run bound [] s = True"
| "careful_run bound (ev # evs) s = (careful bound ev s \<and> careful_run bound evs (socket_step ev s))"

lemma call_socket_fields [simp]:
  "sk_current (call_socket c s) = sk_current s" "sk_listeners (call_socket c s) = sk_listeners s"
  "sk_clientId (call_socket c s) = sk_clientId s" "length (sk_sockets (call_socket c s)) = length (sk_sockets s)"
  "listeners_of (call_socket c s) = listeners_of s"
  by (auto simp: call_socket_def on_socket_def listeners_of_def fun_eq_iff split: option.splits)

lemma isConnected_call [simp]: "isConnected (call_socket c s) = isConnected s"
proof (cases "sk_current s")
  case (Some k)
  then show ?thesis
    by (cases "k < length (sk_sockets s)") (simp_all add: isConnected_def call_socket_def on_socket_def list_update_beyond)
qed (simp add: call_socket_def)

lemma bound_call:
  assumes "sk_current s = Some k" "k < length (sk_sockets s)"
  shows "bound_now bound (call_socket c s) e = bound (so_calls (sk_sockets s ! k) @ [c]) e"
  using assms by (simp add: bound_now_def call_socket_def on_socket_def)

lemma rebind_ok:
  assumes laws: "emitter_laws bound" and k: "sk_current s = Some k" "k < length (sk_sockets s)"
    and d: "\<And>e. distinct (bound_now bound s e)"
  shows "sk_current (rebind (ev, cbs) s) = Some k \<and> k < length (sk_sockets (rebind (ev, cbs) s))
    \<and> sk_listeners (rebind (ev, cbs) s) = sk_listeners s \<and> isConnected (rebind (ev, cbs) s) = isConnected s
    \<and> (\<forall>e. distinct (bound_now bound (rebind (ev, cbs) s) e)
        \<and> set (bound_now bound (rebind (ev, cbs) s) e) = set (bound_now bound s e) \<union> (if e = ev then set cbs else {}))"
  using k d
proof (induction cbs arbitrary: s)
  case (Cons cb cbs)
  let ?s1 = "call_socket (So_off ev cb) s" and ?s2 = "call_socket (So_on ev cb) (call_socket (So_off ev cb) s)"
  have c1: "sk_current ?s1 = Some k" "k < length (sk_sockets ?s1)" and c2: "sk_current ?s2 = Some k" "k < length (sk_sockets ?s2)"
    using Cons.prems by simp_all
  have b0: "bound (so_calls (sk_sockets s ! k)) e = bound_now bound s e" for e
    using Cons.prems(1) by (simp add: bound_now_def)
  have b1: "bound_now bound ?s1 e = (if e = ev then remove1 cb (bound_now bound s e) else bound_now bound s e)" for e
    using laws by (auto simp: bound_call [OF Cons.prems(1,2)] b0 emitter_laws_def)
  have "bound (so_calls (sk_sockets ?s1 ! k)) e = bound_now bound ?s1 e" for e
    using c1(1) by (simp add: bound_now_def)
  then have b2: "bound_now bound ?s2 e = (if e = ev then remove1 cb (bound_now bound s e) @ [cb] else bound_now bound s e)" for e
    using laws by (simp add: bound_call [OF c1] emitter_laws_def b1)
  have "distinct (bound_now bound ?s2 e)" for e
    using Cons.prems(3) [of e] by (auto simp: b2 distinct_remove1 set_remove1_eq)
  note ih = Cons.IH [OF c2 this]
  have "rebind (ev, cb # cbs) s = rebind (ev, cbs) ?s2" by (simp add: rebind_def)
  then show ?case
    using ih Cons.prems(3) by (auto simp: b2 set_remove1_eq)
qed (simp add: rebind_def)

lemma rebind_all:
  assumes laws: "emitter_laws bound" and k: "sk_current s = Some k" "k < length (sk_sockets s)"
    and d: "\<And>e. distinct (bound_now bound s e)"
  shows "sk_current (fold rebind entries s) = Some k \<and> k < length (sk_sockets (fold rebind entries s))
    \<and> sk_listeners (fold rebind entries s) = sk_listeners s \<and> isConnected (fold rebind entries s) = isConnected s
    \<and> (\<forall>e. distinct (bound_now bound (fold rebind entries s) e)
        \<and> set (bound_now bound (fold rebind entries s) e) = set (bound_now bound s e) \<union> \<Union> (set ` snd ` {x \<in> set entries. fst x = e}))"
  using k d
proof (induction entries arbitrary: s)
  case (Cons x entries)
  obtain ev cbs where x: "x = (ev, cbs)" by (cases x)
  note r = rebind_ok [OF laws Cons.prems, of ev cbs]
  have ih: "sk_current (fold rebind entries (rebind x s)) = Some k \<and> k < length (sk_sockets (fold rebind entries (rebind x s)))
    \<and> sk_listeners (fold rebind entries (rebind x s)) = sk_listeners (rebind x s) \<and> isConnected (fold rebind entries (rebind x s)) = isConnected (rebind x s)
    \<and> (\<forall>e. distinct (bound_now bound (fold rebind entries (rebind x s)) e)
        \<and> set (bound_now bound (fold rebind entries (rebind x s)) e) = set (bound_now bound (rebind x s) e) \<union> \<Union> (set ` snd ` {x \<in> set entries. fst x = e}))"
    using r unfolding x by (intro Cons.IH) auto
  then show ?case using r unfolding x by auto
qed simp


lemma socket_okI:
  assumes "socket_ok bound s" "sk_listeners s' = sk_listeners s"
    "sk_current s' = Some k" "k < length (sk_sockets s')" "\<And>e. distinct (bound_now bound s' e)"
    "\<And>e. set (bound_now bound s' e) \<subseteq> set (listeners_of s e)"
    "\<And>e. isConnected s' \<Longrightarrow> set (bound_now bound s' e) = set (listeners_of s e)"
  shows "socket_ok bound s'"
  using assms by (simp add: socket_ok_def listeners_of_def)

lemma ok_connect:
  assumes "emitter_laws bound" "socket_ok bound s"
  shows "socket_ok bound (connect_client s)"
proof (cases "isConnected s")
  case False
  then show ?thesis
    using assms by (intro socket_okI [OF assms(2), of _ "length (sk_sockets s)"])
      (simp_all add: connect_client_def bound_now_def emitter_laws_def isConnected_def)
qed (simp add: connect_client_def assms)

lemma ok_emit:
  assumes "emitter_laws bound" "socket_ok bound s"
  shows "socket_ok bound (call_socket (So_emit e data) s)"
proof (cases "sk_current s")
  case (Some k)
  then have k: "k < length (sk_sockets s)" using assms(2) by (simp add: socket_ok_def)
  have b: "bound_now bound (call_socket (So_emit e data) s) e' = bound_now bound s e'" for e'
    using assms(1) by (simp add: bound_call [OF Some k] emitter_laws_def) (simp add: bound_now_def Some)
  show ?thesis using assms(2) Some k by (simp add: socket_ok_def b)
qed (use assms in \<open>simp add: call_socket_def\<close>)

lemma ok_disconnect:
  assumes "emitter_laws bound" "socket_ok bound s"
  shows "socket_ok bound (disconnect_client s)"
  using assms by (cases "sk_current s")
    (simp_all add: disconnect_client_def socket_ok_def bound_now_def isConnected_def on_socket_def listeners_of_def)

lemma ok_down:
  assumes "socket_ok bound s"
  shows "socket_ok bound (socket_down k s)"
proof -
  have "sk_current (socket_down k s) = sk_current s" "length (sk_sockets (socket_down k s)) = length (sk_sockets s)"
    "sk_listeners (socket_down k s) = sk_listeners s"
    by (simp_all add: socket_down_def on_socket_def)
  moreover have "bound_now bound (socket_down k s) e = bound_now bound s e" for e
    by (cases "sk_current s"; cases "the (sk_current s) = k"; cases "k < length (sk_sockets s)")
      (simp_all add: bound_now_def socket_down_def on_socket_def)
  moreover have "isConnected (socket_down k s) \<longrightarrow> isConnected s"
    by (cases "sk_current s"; cases "the (sk_current s) = k"; cases "k < length (sk_sockets s)")
      (simp_all add: isConnected_def socket_down_def on_socket_def)
  ultimately show ?thesis
    using assms by (cases "sk_current s") (simp_all add: socket_ok_def listeners_of_def)
qed

lemma ok_up:
  assumes laws: "emitter_laws bound" and ok: "socket_ok bound s"
  shows "socket_ok bound (socket_up k s)"
proof (cases "k < length (sk_sockets s) \<and> So_disconnect \<notin> set (so_calls (sk_sockets s ! k))")
  case True
  define s1 where "s1 = on_socket k (\<lambda>so. so\<lparr>so_connected := True\<rparr>) s"
  have s1: "sk_current s1 = sk_current s" "sk_listeners s1 = sk_listeners s" "length (sk_sockets s1) = length (sk_sockets s)"
    "bound_now bound s1 = bound_now bound s"
    using True by (auto simp: s1_def on_socket_def bound_now_def fun_eq_iff nth_list_update split: option.splits)
  have up: "socket_up k s = fold rebind (sk_listeners s) s1" using True by (simp add: socket_up_def s1_def on_socket_def)
  show ?thesis
  proof (cases "sk_current s")
    case None
    have "fold rebind m s' = s'" if "sk_current s' = None" for m s'
    proof -
      have "rebind x s' = s'" for x
      proof -
        have "fold (\<lambda>cb s. call_socket (So_on ev cb) (call_socket (So_off ev cb) s)) cbs s' = s'" for ev cbs
          by (induction cbs) (simp_all add: call_socket_def that)
        then show ?thesis by (cases x) (simp add: rebind_def)
      qed
      then show ?thesis by (induction m) simp_all
    qed
    then have "socket_up k s = s1" using None s1(1) by (simp add: up)
    then show ?thesis using ok s1 None by (simp add: socket_ok_def isConnected_def listeners_of_def)
  next
    case (Some c)
    have c: "sk_current s1 = Some c" "c < length (sk_sockets s1)" using ok Some s1 by (simp_all add: socket_ok_def)
    have d: "distinct (bound_now bound s1 e)" for e using ok s1 by (simp add: socket_ok_def)
    note r = rebind_all [OF laws c d, of "sk_listeners s"]
    have u: "\<Union> (set ` snd ` {x \<in> set (sk_listeners s). fst x = e}) = set (listeners_of s e)" for e
    proof (cases "map_get (sk_listeners s) e")
      case None
      then have "{x \<in> set (sk_listeners s). fst x = e} = {}" by (auto simp: map_of_eq_None_iff image_iff)
      then show ?thesis by (simp only: listeners_of_def None) simp
    next
      case (Some cbs)
      have "{x \<in> set (sk_listeners s). fst x = e} = {(e, cbs)}"
        using Some ok by (auto simp: socket_ok_def wf_map_def dest: map_of_SomeD eq_key_imp_eq_value)
      then show ?thesis using Some by (simp add: listeners_of_def)
    qed
    show ?thesis
      using r ok s1 unfolding up u
      by (intro socket_okI [OF ok, of _ c]) (auto simp: socket_ok_def)
  qed
next
  case False
  then show ?thesis using ok by (simp only: socket_up_def if_False)
qed


lemma listeners_of_simps [simp]:
  "listeners_of (s\<lparr>sk_listeners := AList.update e l (sk_listeners s)\<rparr>) e' = (if e' = e then l else listeners_of s e')"
  "listeners_of (s\<lparr>sk_listeners := AList.delete e (sk_listeners s)\<rparr>) e' = (if e' = e then [] else listeners_of s e')"
  by (simp_all add: listeners_of_def js_simps)

lemma with_listeners [simp]:
  "isConnected (s\<lparr>sk_listeners := m\<rparr>) = isConnected s" "bound_now bound (s\<lparr>sk_listeners := m\<rparr>) = bound_now bound s"
  by (auto simp: isConnected_def bound_now_def fun_eq_iff split: option.splits)

lemma ok_on:
  assumes laws: "emitter_laws bound" and ok: "socket_ok bound s" and new: "cb \<notin> set (listeners_of s e)"
  shows "socket_ok bound (client_on e cb s)"
proof -
  define s1 where "s1 = s\<lparr>sk_listeners := AList.update e (listeners_of s e @ [cb]) (sk_listeners s)\<rparr>"
  have s1: "sk_current s1 = sk_current s" "sk_sockets s1 = sk_sockets s" "isConnected s1 = isConnected s"
    "bound_now bound s1 = bound_now bound s" "wf_map (sk_listeners s1)"
    "listeners_of s1 e' = (if e' = e then listeners_of s e @ [cb] else listeners_of s e')" for e'
    using ok by (simp_all add: s1_def socket_ok_def wf_map_set)
  have on: "client_on e cb s = (if isConnected s then call_socket (So_on e cb) s1 else s1)"
    using new by (simp add: client_on_def set_add_def s1_def)
  show ?thesis
  proof (cases "isConnected s")
    case False
    then show ?thesis using ok new s1 by (cases "sk_current s") (auto simp: on socket_ok_def)
  next
    case True
    then obtain k where k: "sk_current s1 = Some k" "k < length (sk_sockets s1)"
      using ok s1 by (auto simp: isConnected_def socket_ok_def split: option.splits)
    have "bound_now bound (call_socket (So_on e cb) s1) e' = (if e' = e then bound_now bound s e @ [cb] else bound_now bound s e')" for e'
      using laws k s1(1,2) by (simp add: bound_call [OF k] emitter_laws_def) (simp add: bound_now_def)
    then show ?thesis using ok new s1 True k by (cases "sk_current s") (auto simp: on socket_ok_def)
  qed
qed

lemma ok_off:
  assumes laws: "emitter_laws bound" and ok: "socket_ok bound s" and safe: "isConnected s \<or> cb \<notin> set (bound_now bound s e)"
  shows "socket_ok bound (client_off e cb s)"
proof -
  define m where "m = (if \<not> map_has (sk_listeners s) e then sk_listeners s
    else if remove1 cb (listeners_of s e) = [] then AList.delete e (sk_listeners s)
    else AList.update e (remove1 cb (listeners_of s e)) (sk_listeners s))"
  define s1 where "s1 = s\<lparr>sk_listeners := m\<rparr>"
  have "listeners_of s e = []" if "\<not> map_has (sk_listeners s) e"
    using that by (simp add: map_has_def listeners_of_def)
  then have l: "listeners_of s1 e' = (if e' = e then remove1 cb (listeners_of s e) else listeners_of s e')" for e'
    by (simp add: s1_def m_def)
  have s1: "sk_current s1 = sk_current s" "sk_sockets s1 = sk_sockets s" "isConnected s1 = isConnected s"
    "bound_now bound s1 = bound_now bound s" "wf_map (sk_listeners s1)"
    using ok by (simp_all add: s1_def m_def socket_ok_def wf_map_set wf_map_delete)
  have off: "client_off e cb s = (if isConnected s then call_socket (So_off e cb) s1 else s1)"
    by (simp add: client_off_def Let_def s1_def m_def)
  have d: "distinct (listeners_of s e')" "distinct (bound_now bound s e')"
    "set (bound_now bound s e') \<subseteq> set (listeners_of s e')" for e' using ok by (simp_all add: socket_ok_def)
  show ?thesis
  proof (cases "isConnected s")
    case False
    then show ?thesis using ok d safe s1 by (cases "sk_current s") (auto simp: off socket_ok_def l set_remove1_eq distinct_remove1)
  next
    case True
    then obtain k where k: "sk_current s1 = Some k" "k < length (sk_sockets s1)"
      using ok s1 by (auto simp: isConnected_def socket_ok_def split: option.splits)
    have b: "bound_now bound (call_socket (So_off e cb) s1) e' = (if e' = e then remove1 cb (bound_now bound s e) else bound_now bound s e')" for e'
      using laws k s1(1,2) by (simp add: bound_call [OF k] emitter_laws_def) (simp add: bound_now_def)
    show ?thesis using ok d s1 True k by (cases "sk_current s") (auto simp: off socket_ok_def b l set_remove1_eq distinct_remove1)
  qed
qed

lemma ok_step:
  assumes "emitter_laws bound" "socket_ok bound s" "careful bound ev s"
  shows "socket_ok bound (socket_step ev s)"
  using assms by (cases ev) (simp_all add: careful_def joinDocument_def leaveDocument_def client_emit_def ok_connect
    ok_disconnect ok_emit ok_on ok_off ok_up ok_down)

lemma ok_run:
  assumes "emitter_laws bound"
  shows "socket_ok bound s \<Longrightarrow> careful_run bound evs s \<Longrightarrow> socket_ok bound (fold socket_step evs s)"
  by (induction evs arbitrary: s) (simp_all add: ok_step assms)

lemma ok_new: "socket_ok bound (new_socket_client cid)"
  by (simp add: socket_ok_def new_socket_client_def listeners_of_def bound_now_def isConnected_def)

text \<open>After any calls on the client and any connections and losses of its sockets, while the
  socket in use is connected every listener is bound to it exactly once and nothing else is, provided
  callers do not register a callback twice or remove a bound one while the connection is down: the
  unbinding and binding of every listener on \<open>connect\<close> makes up for what \<open>on\<close> skipped before.\<close>

lemma listeners_bound_once:
  assumes "emitter_laws bound" "careful_run bound evs (new_socket_client cid)"
    "isConnected (fold socket_step evs (new_socket_client cid))"
  shows "mset (bound_now bound (fold socket_step evs (new_socket_client cid)) e)
    = mset (listeners_of (fold socket_step evs (new_socket_client cid)) e)"
  using ok_run [OF assms(1) ok_new assms(2)] assms(3)
  by (meson socket_ok_def set_eq_iff_mset_eq_distinct)

text \<open>An emitter, to run examples with.\<close>

fun emitter_call :: "string \<Rightarrow> socket_call \<Rightarrow> nat list \<Rightarrow> nat list" where
  "emitter_call e (So_on e' cb) cbs = (if e = e' then cbs @ [cb] else cbs)"
| "emitter_call e (So_off e' cb) cbs = (if e = e' then remove1 cb cbs else cbs)"
| "emitter_call e c cbs = cbs"

definition emitter :: "socket_call list \<Rightarrow> string \<Rightarrow> nat list" where
  "emitter cs e = fold (emitter_call e) cs []"

lemma emitter_ok: "emitter_laws emitter"
  by (simp add: emitter_laws_def emitter_def)

definition demo_session :: "socket_event list" where
  "demo_session = [Sc_join ''d1'', Sc_on ''user:join'' 1, Sc_on ''cursor:move'' 2, Sc_up 0,
     Sc_on ''user:leave'' 3, Sc_down 0, Sc_on ''user:join'' 4, Sc_up 0, Sc_off ''cursor:move'' 2]"

lemma listeners_bound_once_witness:
  "mset (bound_now emitter (fold socket_step demo_session (new_socket_client ''me'')) ''user:join'')
    = mset (listeners_of (fold socket_step demo_session (new_socket_client ''me'')) ''user:join'')"
proof (rule listeners_bound_once [OF emitter_ok])
  show "careful_run emitter demo_session (new_socket_client ''me'')" by code_simp
  show "isConnected (fold socket_step demo_session (new_socket_client ''me''))" by code_simp
qed

lemma demo_session_bound:
  "bound_now emitter (fold socket_step demo_session (new_socket_client ''me'')) ''user:join'' = [1, 4]"
  by code_simp

section \<open>Echoes, rooms and presence\<close>

lemma stamp_get: "wf_map data \<Longrightarrow> map_get (stamp cid data) k =
    (case map_get data k of None \<Rightarrow> if k = ''client_id'' then Some cid else None | Some v \<Rightarrow> Some v)"
proof -
  have "map_get (fold (\<lambda>(k, v). AList.update k v) d m) k = (case map_get d k of None \<Rightarrow> map_get m k | Some v \<Rightarrow> Some v)"
    if "wf_map d" for d m :: socket_payload using that
  proof (induction d arbitrary: m)
    case (Cons x d)
    have "map_get d (fst x) = None" using Cons.prems by (simp add: wf_map_def map_of_eq_None_iff)
    then show ?case using Cons by (cases x) (auto simp: js_simps wf_map_def split: option.splits)
  qed simp
  then show "wf_map data \<Longrightarrow> ?thesis" by (simp add: stamp_def split: option.splits)
qed

text \<open>A client never reacts to what it sent, and always to what another client sent.\<close>

lemma own_echo_dropped:
  assumes "wf_map data" "map_get data ''client_id'' = None"
  shows "deliver s wrapped (Some (stamp (sk_clientId s) data)) = []"
    and "sk_clientId s' \<noteq> sk_clientId s \<Longrightarrow> deliver s' wrapped (Some (stamp (sk_clientId s) data)) = wrapped"
  using assms by (simp_all add: deliver_def isOwnEcho_def stamp_get)

text \<open>An emit while the connection is being made opens a second socket and leaves the room's join on
  the first, which is no longer the one in use: the client then listens outside the room.\<close>

lemma join_left_behind:
  "\<exists>s. s = fold socket_step [Sc_join ''d1'', Sc_emit ''element_lock'' (Some []), Sc_up 0, Sc_up 1] (new_socket_client ''me'')
     \<and> isConnected s \<and> sk_current s = Some 1 \<and> length (sk_sockets s) = 2
     \<and> list_all (\<lambda>c. c \<noteq> So_emit ''document:join'' (Some [(''document_id'', ''d1'')])) (so_calls (sk_sockets s ! 1))"
  by (rule exI, rule conjI, rule refl) code_simp

text \<open>A reconnection binds the listeners again and emits nothing, so no room is joined again.\<close>

lemma no_rejoin:
  "filter (\<lambda>c. case c of So_emit e d \<Rightarrow> True | _ \<Rightarrow> False)
     (so_calls (sk_sockets (fold socket_step [Sc_join ''d1'', Sc_up 0, Sc_down 0, Sc_up 0] (new_socket_client ''me'')) ! 0))
   = [So_emit ''document:join'' (Some [(''document_id'', ''d1'')])]"
  by code_simp

text \<open>A callback removed while the connection is down stays bound when it comes back.\<close>

lemma removed_while_down:
  "\<exists>s. s = fold socket_step [Sc_connect, Sc_on ''user:join'' 1, Sc_up 0, Sc_down 0, Sc_off ''user:join'' 1, Sc_up 0] (new_socket_client ''me'')
     \<and> listeners_of s ''user:join'' = [] \<and> bound_now emitter s ''user:join'' = [1]"
  by (rule exI, rule conjI, rule refl) code_simp

lemma presence_distinct:
  assumes "distinct (map au_id (pr_users p))" "wf_map (pr_cursors p)"
  shows "distinct (map au_id (pr_users (presence_step did ev p))) \<and> wf_map (pr_cursors (presence_step did ev p))"
  using assms by (cases ev) (auto simp: list_ex_iff wf_map_set wf_map_delete distinct_map_filter)

end
