(* ===== verification/Persistence.thy ===== *)
theory Persistence
  imports Document_Store History_Store
begin

text \<open>
  \<open>packages/editor/src/middleware/persistence-middleware.ts\<close>: the automatic save of the document
  store, with its debounce timer and the save every five minutes, and the copy in the browser's
  storage. The save callback is the host's: a save is started and ends later, well or not; timers
  have one delay, so they fire in the order they were set. JSON text is what it parses to; times are
  arguments. A listener runs when an action changes the state.
\<close>

section \<open>The automatic save\<close>

record save_data =
  sd_documentId :: "uuid option"
  sd_title :: string
  sd_pages :: "page list"
  sd_layers :: "layer list"
  sd_version :: int

definition save_data_of :: "document_state \<Rightarrow> save_data" where
  "save_data_of s = \<lparr>sd_documentId = ds_documentId s, sd_title = ds_title s, sd_pages = ds_pages s,
     sd_layers = ds_layers s, sd_version = ds_version s\<rparr>"

text \<open>The store, the variables of the module, the active timers with the state they captured, the saves
  that are running (and whether a timer started them) and, as a record of the run, everything that was
  handed to the callback.\<close>

record autosave =
  au_doc :: document_state
  au_saveTimeout :: "nat option"
  au_lastSaveTime :: int
  au_timers :: "(nat \<times> document_state) list"
  au_next :: nat
  au_running :: "bool list"
  au_sent :: "save_data list"
  au_subscribed :: bool

definition has_document :: "document_state \<Rightarrow> bool" where
  "has_document s \<longleftrightarrow> ds_documentId s \<noteq> None \<and> ds_documentId s \<noteq> Some []"

definition clear_timeout :: "autosave \<Rightarrow> autosave" where
  "clear_timeout s = (case au_saveTimeout s of None \<Rightarrow> s
     | Some i \<Rightarrow> s\<lparr>au_timers := filter (\<lambda>t. fst t \<noteq> i) (au_timers s)\<rparr>)"

definition on_change :: "autosave \<Rightarrow> autosave" where
  "on_change s =
     (if \<not> has_document (au_doc s) \<or> \<not> ds_isDirty (au_doc s) then s
      else let s1 = clear_timeout s in
        s1\<lparr>au_timers := au_timers s1 @ [(au_next s1, au_doc s1)], au_saveTimeout := Some (au_next s1),
           au_next := Suc (au_next s1)\<rparr>)"

definition set_store :: "(document_state \<Rightarrow> document_state) \<Rightarrow> autosave \<Rightarrow> autosave" where
  "set_store f s =
     (if f (au_doc s) = au_doc s then s
      else let s1 = s\<lparr>au_doc := f (au_doc s)\<rparr> in if au_subscribed s1 then on_change s1 else s1)"

text \<open>\<open>performSave\<close> up to its wait, and after it.\<close>

definition start_save :: "bool \<Rightarrow> document_state \<Rightarrow> autosave \<Rightarrow> autosave" where
  "start_save debounced state s = s\<lparr>au_running := au_running s @ [debounced], au_sent := au_sent s @ [save_data_of state]\<rparr>"

definition finish_save :: "nat \<Rightarrow> (int + string) \<Rightarrow> autosave \<Rightarrow> autosave" where
  "finish_save k result s =
     (if k < length (au_running s) then
        let debounced = au_running s ! k; s1 = s\<lparr>au_running := splice_del k (au_running s)\<rparr>;
            s2 = (case result of
                Inl now \<Rightarrow> (set_store (markSaved now) s1)\<lparr>au_lastSaveTime := now\<rparr>
              | Inr message \<Rightarrow> set_store (setError (Some message)) s1)
        in if debounced then s2\<lparr>au_saveTimeout := None\<rparr> else s2
      else s)"

datatype autosave_event =
    Au_set "document_state \<Rightarrow> document_state"
  | Au_timer
  | Au_finish nat "int + string" \<comment> \<open>which of the running saves; the time, or the message of the error\<close>
  | Au_tick int
  | Au_manual

fun save_step :: "autosave_event \<Rightarrow> autosave \<Rightarrow> autosave" where
  "save_step (Au_set f) s = set_store f s"
| "save_step Au_timer s = (case au_timers s of [] \<Rightarrow> s
     | t # ts \<Rightarrow> start_save True (snd t) (s\<lparr>au_timers := ts\<rparr>))"
| "save_step (Au_finish k result) s = finish_save k result s"
| "save_step (Au_tick now) s =
     (if au_subscribed s \<and> has_document (au_doc s) \<and> ds_isDirty (au_doc s) \<and> now - au_lastSaveTime s > 300000
      then start_save False (au_doc s) s else s)"
| "save_step Au_manual s = (if has_document (au_doc s) then start_save False (au_doc s) s else s)"

definition initPersistenceMiddleware :: "document_state \<Rightarrow> bool \<Rightarrow> autosave" where
  "initPersistenceMiddleware doc enabled = \<lparr>au_doc = doc, au_saveTimeout = None, au_lastSaveTime = 0, au_timers = [],
     au_next = 0, au_running = [], au_sent = [], au_subscribed = enabled\<rparr>"

definition stop_persistence :: "autosave \<Rightarrow> autosave" where
  "stop_persistence s = (clear_timeout s)\<lparr>au_subscribed := False\<rparr>"

definition createSaveSnapshot :: "uuid \<Rightarrow> int \<Rightarrow> string option \<Rightarrow> document_state \<Rightarrow> history \<Rightarrow> history" where
  "createSaveSnapshot fresh now description doc h = pushSnapshot fresh now (ds_pages doc) (ds_version doc)
     (case description of None \<Rightarrow> ''Manual save'' | Some d \<Rightarrow> d) h"

section \<open>The copy in the browser\<close>

datatype stored = Stored save_data | Garbage

type_synonym local_storage = "(string, stored) jsmap"

definition storage_key :: "string option \<Rightarrow> string" where
  "storage_key key = (case key of None \<Rightarrow> ''giga-pdf-autosave'' | Some k \<Rightarrow> if k = [] then ''giga-pdf-autosave'' else k)"

definition saveToLocalStorage :: "string option \<Rightarrow> document_state \<Rightarrow> local_storage \<Rightarrow> local_storage" where
  "saveToLocalStorage key s st = (if \<not> has_document s then st
     else AList.update (storage_key key) (Stored (save_data_of s)) st)"

definition load_data :: "save_data \<Rightarrow> document_state \<Rightarrow> document_state" where
  "load_data d s = setVersion (sd_version d) (setLayers (sd_layers d)
     ((setDocument [] (sd_title d) (sd_pages d) s)\<lparr>ds_documentId := sd_documentId d\<rparr>))"

definition loadFromLocalStorage :: "string option \<Rightarrow> local_storage \<Rightarrow> document_state \<Rightarrow> bool \<times> document_state" where
  "loadFromLocalStorage key st s = (case map_get st (storage_key key) of
       Some (Stored d) \<Rightarrow> (True, load_data d s)
     | _ \<Rightarrow> (False, s))"

definition clearLocalStorage :: "string option \<Rightarrow> local_storage \<Rightarrow> local_storage" where
  "clearLocalStorage key st = AList.delete (storage_key key) st"

definition hasLocalStorageData :: "string option \<Rightarrow> local_storage \<Rightarrow> bool" where
  "hasLocalStorageData key st = map_has st (storage_key key)"

definition exportDocumentState :: "document_state \<Rightarrow> stored" where
  "exportDocumentState s = Stored (save_data_of s)"

definition importDocumentState :: "stored \<Rightarrow> document_state \<Rightarrow> bool \<times> document_state" where
  "importDocumentState json s = (case json of Garbage \<Rightarrow> (False, s) | Stored d \<Rightarrow> (True, load_data d s))"

section \<open>Every edit is handed over\<close>

text \<open>An update that changes what is saved marks the document dirty and keeps its id.\<close>

definition honest :: "(document_state \<Rightarrow> document_state) \<Rightarrow> bool" where
  "honest f \<longleftrightarrow> (\<forall>s. has_document s \<longrightarrow> has_document (f s) \<and> (save_data_of (f s) \<noteq> save_data_of s \<longrightarrow> ds_isDirty (f s)))"

lemma honest_actions:
  "honest (updateTitle t)" "honest (setPages ps)" "honest (ds_addPage p i)" "honest (ds_removePage pid)"
  "honest (updatePage pid upd)" "honest (ds_reorderPages a b)" "honest (deleteLayer lid)" "honest (renameLayer lid n)"
  "honest (setLayerVisible lid v)" "honest (setLayerLocked lid v)" "honest (setLoading ld)" "honest (setError e)" "honest (markSaved now)"
  by (auto simp: honest_def has_document_def save_data_of_def updateTitle_def setPages_def ds_addPage_def ds_removePage_def
      updatePage_def ds_reorderPages_def deleteLayer_def renameLayer_def setLayerVisible_def setLayerLocked_def
      setLoading_def setError_def markSaved_def Let_def split: option.splits)

definition handed_or_armed :: "autosave \<Rightarrow> save_data list" where
  "handed_or_armed s = au_sent s @ map (\<lambda>t. save_data_of (snd t)) (au_timers s)"

definition covered :: "save_data \<Rightarrow> autosave \<Rightarrow> bool" where
  "covered start s \<longleftrightarrow> au_subscribed s \<and> has_document (au_doc s)
     \<and> (save_data_of (au_doc s) = start \<and> handed_or_armed s = [] \<or> handed_or_armed s \<noteq> [] \<and> last (handed_or_armed s) = save_data_of (au_doc s))"

lemma covered_set:
  assumes "covered start s" "honest f"
  shows "covered start (set_store f s)"
proof (cases "f (au_doc s) = au_doc s")
  case False
  let ?s1 = "s\<lparr>au_doc := f (au_doc s)\<rparr>"
  have id: "has_document (f (au_doc s))" and ch: "save_data_of (f (au_doc s)) \<noteq> save_data_of (au_doc s) \<Longrightarrow> ds_isDirty (f (au_doc s))"
    using assms by (auto simp: covered_def honest_def)
  have set: "set_store f s = on_change ?s1"
    using assms(1) False by (simp add: set_store_def covered_def Let_def)
  show ?thesis
  proof (cases "ds_isDirty (f (au_doc s))")
    case True
    then show ?thesis
      using assms(1) id by (auto simp: set on_change_def covered_def handed_or_armed_def clear_timeout_def Let_def split: option.splits)
  next
    case clean: False
    then show ?thesis
      using assms(1) id ch by (auto simp: set on_change_def covered_def handed_or_armed_def)
  qed
qed (use assms in \<open>simp add: set_store_def\<close>)

lemma covered_step:
  assumes "covered start s" "\<And>f. ev = Au_set f \<Longrightarrow> honest f"
  shows "covered start (save_step ev s)"
proof (cases ev)
  case (Au_finish k result)
  have other: "covered start (s\<lparr>au_running := r\<rparr>)" for r
    using assms(1) by (simp add: covered_def handed_or_armed_def)
  have "covered start (set_store f (s\<lparr>au_running := r\<rparr>))" if "honest f" for f r
    by (rule covered_set [OF other that])
  then show ?thesis
    using assms(1) honest_actions(12,13)
    by (auto simp: Au_finish finish_save_def Let_def covered_def handed_or_armed_def split: sum.split)
qed (use assms covered_set in \<open>auto simp: start_save_def covered_def handed_or_armed_def split: list.split\<close>)

lemma covered_run:
  "covered start s \<Longrightarrow> (\<And>f. Au_set f \<in> set evs \<Longrightarrow> honest f) \<Longrightarrow> covered start (fold save_step evs s)"
proof (induction evs arbitrary: s)
  case (Cons ev evs)
  have "covered start (save_step ev s)"
    using Cons.prems by (intro covered_step) auto
  then show ?case using Cons by simp
qed simp

text \<open>The automatic save hands over every edit. In every run of edits, timers, ends of saves (well or
  not, in any order), ticks and manual saves, the document as it stands is what is handed to the save
  callback last, counting the timers that are still to fire; so when no timer is left, the last data
  given to the callback is the current document, unless it never changed.\<close>

lemma autosave_hands_over_latest:
  assumes "has_document doc" and "\<forall>f. Au_set f \<in> set evs \<longrightarrow> honest f"
    and "s = fold save_step evs (initPersistenceMiddleware doc True)" and "au_timers s = []"
    and "save_data_of (au_doc s) \<noteq> save_data_of doc"
  shows "au_sent s \<noteq> [] \<and> last (au_sent s) = save_data_of (au_doc s)"
proof -
  have "covered (save_data_of doc) (initPersistenceMiddleware doc True)"
    using assms(1) by (simp add: covered_def handed_or_armed_def initPersistenceMiddleware_def)
  then have "covered (save_data_of doc) s"
    using covered_run assms(2,3) by blast
  then show ?thesis
    using assms(4,5) by (auto simp: covered_def handed_or_armed_def)
qed

definition demo_unsaved :: document_state where
  "demo_unsaved = initial_document\<lparr>ds_documentId := Some ''d''\<rparr>"

lemma autosave_hands_over_latest_witness:
  "last (au_sent (fold save_step [Au_set (updateTitle ''A''), Au_timer, Au_set (updateTitle ''B''), Au_finish 0 (Inl 1),
      Au_set (updateTitle ''C''), Au_timer, Au_timer] (initPersistenceMiddleware demo_unsaved True)))
   = save_data_of (demo_unsaved\<lparr>ds_title := ''C''\<rparr>)"
proof -
  let ?evs = "[Au_set (updateTitle ''A''), Au_timer, Au_set (updateTitle ''B''), Au_finish 0 (Inl 1),
      Au_set (updateTitle ''C''), Au_timer, Au_timer]"
  let ?s = "fold save_step ?evs (initPersistenceMiddleware demo_unsaved True)"
  have h: "\<forall>f. Au_set f \<in> set ?evs \<longrightarrow> honest f" by (auto intro: honest_actions)
  have t: "au_timers ?s = []" "save_data_of (au_doc ?s) = save_data_of (demo_unsaved\<lparr>ds_title := ''C''\<rparr>)"
    by code_simp+
  moreover have "has_document demo_unsaved" "save_data_of (demo_unsaved\<lparr>ds_title := ''C''\<rparr>) \<noteq> save_data_of demo_unsaved"
    by (simp_all add: has_document_def demo_unsaved_def save_data_of_def initial_document_def)
  ultimately show ?thesis
    using autosave_hands_over_latest [of demo_unsaved ?evs ?s] h by simp
qed

text \<open>What goes wrong: a save that ends marks the document clean although it has changed since, so
  when the save of that change fails, nothing retries it: no timer, nothing running, not dirty.\<close>

lemma failed_save_forgotten:
  "let s = fold save_step [Au_set (updateTitle ''A''), Au_timer, Au_set (updateTitle ''B''), Au_timer,
      Au_finish 0 (Inl 1), Au_finish 0 (Inr ''offline'')] (initPersistenceMiddleware demo_unsaved True)
   in ds_title (au_doc s) = ''B'' \<and> \<not> ds_isDirty (au_doc s) \<and> au_timers s = [] \<and> au_running s = []
      \<and> save_step (Au_tick 999999) s = s"
  by code_simp

text \<open>A second failure with the same message changes nothing in the store, so no timer is set.\<close>

lemma retries_once:
  "let s = fold save_step [Au_set (updateTitle ''A''), Au_timer, Au_finish 0 (Inr ''offline''), Au_timer, Au_finish 0 (Inr ''offline'')]
      (initPersistenceMiddleware demo_unsaved True)
   in ds_isDirty (au_doc s) \<and> au_timers s = [] \<and> length (au_sent s) = 2"
  by code_simp

text \<open>A timer set during a save is forgotten when the save ends, so the next edit does not replace it
  and it fires even after the middleware was stopped.\<close>

lemma orphan_timer:
  "let s = fold save_step [Au_set (updateTitle ''A''), Au_timer, Au_set (updateTitle ''B''), Au_finish 0 (Inl 1),
      Au_set (updateTitle ''C'')] (initPersistenceMiddleware demo_unsaved True)
   in map (\<lambda>t. ds_title (snd t)) (au_timers s) = [''B'', ''C'']
      \<and> map (\<lambda>t. ds_title (snd t)) (au_timers (stop_persistence s)) = [''B'']"
  by code_simp

text \<open>The copy in the browser and the exported file give the document back.\<close>

lemma local_copy_round_trip:
  assumes "has_document s"
  shows "fst (loadFromLocalStorage key (saveToLocalStorage key s st) s')
    \<and> save_data_of (snd (loadFromLocalStorage key (saveToLocalStorage key s st) s')) = save_data_of s
    \<and> \<not> ds_isDirty (snd (loadFromLocalStorage key (saveToLocalStorage key s st) s'))
    \<and> hasLocalStorageData key (saveToLocalStorage key s st)
    \<and> \<not> hasLocalStorageData key (clearLocalStorage key (saveToLocalStorage key s st))
    \<and> save_data_of (snd (importDocumentState (exportDocumentState s) s')) = save_data_of s"
  using assms
  by (simp add: loadFromLocalStorage_def saveToLocalStorage_def hasLocalStorageData_def clearLocalStorage_def
      importDocumentState_def exportDocumentState_def load_data_def save_data_of_def setVersion_def setLayers_def
      setDocument_def map_has_def js_simps)

end
