(* ===== verification/Ocr_Geometry.thy ===== *)
theory Ocr_Geometry
  imports Document_Handle
begin

text \<open>
  The geometry of recognised text (\<open>packages/pdf-engine/src/parse/ocr-blocks.ts\<close>,
  \<open>ocr-searchable.ts\<close>, \<open>ocr-editable.ts\<close>): words come in pixels of the rendered page (origin at the
  top left, y down, after the page's rotation) and are placed in PDF user space (points, origin at
  the bottom left, y up, before it). Coordinates are rationals.
\<close>

section \<open>Boxes and placements\<close>

text \<open>A pixel rectangle (\<open>OcrWordBox\<close>, \<open>ImageRect\<close>) and a box in points.\<close>

record px_rect =
  px_left :: jsnum
  px_top :: jsnum
  px_width :: jsnum
  px_height :: jsnum

record pt_box =
  pt_x :: jsnum
  pt_y :: jsnum
  pt_w :: jsnum
  pt_h :: jsnum

record placement_context =
  pc_imageWidth :: jsnum
  pc_imageHeight :: jsnum
  pc_pageWidth :: jsnum
  pc_pageHeight :: jsnum
  pc_rotation :: int

record word_placement =
  wp_x :: jsnum
  wp_y :: jsnum
  wp_fontSize :: jsnum
  wp_rotation :: int

definition ocr_rotation :: "int \<Rightarrow> int" where
  "ocr_rotation angle =
     (let wrapped = js_imod (js_imod (js_round (of_int angle / 90) * 90) 360 + 360) 360
      in if wrapped = 90 \<or> wrapped = 180 \<or> wrapped = 270 then wrapped else 0)"

definition displayedWidth :: "placement_context \<Rightarrow> jsnum" where
  "displayedWidth ctx = (if pc_rotation ctx = 90 \<or> pc_rotation ctx = 270 then pc_pageHeight ctx else pc_pageWidth ctx)"

definition ocrWordToPdfPlacement :: "px_rect \<Rightarrow> placement_context \<Rightarrow> word_placement" where
  "ocrWordToPdfPlacement word ctx =
     (let scale = displayedWidth ctx / pc_imageWidth ctx;
          fontSize = px_height word * scale * (9 / 10);
          bottomPx = px_top word + px_height word
      in if pc_rotation ctx = 90 then
           \<lparr>wp_x = bottomPx * scale, wp_y = px_left word * scale, wp_fontSize = fontSize, wp_rotation = 90\<rparr>
         else if pc_rotation ctx = 180 then
           \<lparr>wp_x = pc_pageWidth ctx - px_left word * scale, wp_y = bottomPx * scale, wp_fontSize = fontSize,
            wp_rotation = 180\<rparr>
         else if pc_rotation ctx = 270 then
           \<lparr>wp_x = pc_pageWidth ctx - bottomPx * scale, wp_y = pc_pageHeight ctx - px_left word * scale,
            wp_fontSize = fontSize, wp_rotation = 270\<rparr>
         else
           \<lparr>wp_x = px_left word * scale, wp_y = pc_pageHeight ctx - bottomPx * scale, wp_fontSize = fontSize,
            wp_rotation = 0\<rparr>)"

definition toUser :: "placement_context \<Rightarrow> jsnum \<Rightarrow> jsnum \<times> jsnum \<Rightarrow> jsnum \<times> jsnum" where
  "toUser ctx scale p = (case p of (px, py) \<Rightarrow>
     if pc_rotation ctx = 90 then (py * scale, px * scale)
     else if pc_rotation ctx = 180 then (pc_pageWidth ctx - px * scale, py * scale)
     else if pc_rotation ctx = 270 then (pc_pageWidth ctx - py * scale, pc_pageHeight ctx - px * scale)
     else (px * scale, pc_pageHeight ctx - py * scale))"

definition ocrWordToPdfBox :: "px_rect \<Rightarrow> placement_context \<Rightarrow> pt_box" where
  "ocrWordToPdfBox word ctx =
     (let scale = displayedWidth ctx / pc_imageWidth ctx;
          leftPx = px_left word; rightPx = px_left word + px_width word;
          topPx = px_top word; bottomPx = px_top word + px_height word;
          corners = map (toUser ctx scale) [(leftPx, topPx), (rightPx, topPx), (rightPx, bottomPx), (leftPx, bottomPx)];
          xs = map fst corners; ys = map snd corners
      in \<lparr>pt_x = js_min xs, pt_y = js_min ys, pt_w = js_max xs - js_min xs, pt_h = js_max ys - js_min ys\<rparr>)"

definition toImage :: "placement_context \<Rightarrow> jsnum \<Rightarrow> jsnum \<times> jsnum \<Rightarrow> jsnum \<times> jsnum" where
  "toImage ctx pxPerPt u = (case u of (ux, uy) \<Rightarrow>
     if pc_rotation ctx = 90 then (uy * pxPerPt, ux * pxPerPt)
     else if pc_rotation ctx = 180 then ((pc_pageWidth ctx - ux) * pxPerPt, uy * pxPerPt)
     else if pc_rotation ctx = 270 then ((pc_pageHeight ctx - uy) * pxPerPt, (pc_pageWidth ctx - ux) * pxPerPt)
     else (ux * pxPerPt, (pc_pageHeight ctx - uy) * pxPerPt))"

definition pdfBoxToImageRect :: "pt_box \<Rightarrow> placement_context \<Rightarrow> px_rect" where
  "pdfBoxToImageRect box ctx =
     (let pxPerPt = pc_imageWidth ctx / displayedWidth ctx;
          corners = map (toImage ctx pxPerPt) [(pt_x box, pt_y box), (pt_x box + pt_w box, pt_y box),
            (pt_x box + pt_w box, pt_y box + pt_h box), (pt_x box, pt_y box + pt_h box)];
          pxs = map fst corners; pys = map snd corners
      in \<lparr>px_left = js_min pxs, px_top = js_min pys, px_width = js_max pxs - js_min pxs,
          px_height = js_max pys - js_min pys\<rparr>)"

section \<open>Lines\<close>

record ocr_word =
  ow_text :: string
  ow_x :: jsnum
  ow_y :: jsnum
  ow_w :: jsnum
  ow_h :: jsnum
  ow_confidence :: "jsnum option"

record ocr_block =
  ob_page :: int
  ob_text :: string
  ob_bbox :: pt_box
  ob_confidence :: "jsnum option"

definition averageConfidence :: "ocr_word list \<Rightarrow> jsnum option" where
  "averageConfidence ws = (let values = List.map_filter ow_confidence ws in
     if length values = 0 then None else Some (fold (\<lambda>c s. s + c) values 0 / of_nat (length values)))"

definition centreY :: "ocr_word \<Rightarrow> jsnum" where
  "centreY w = ow_y w + ow_h w / 2"

text \<open>\<open>lines.find(...)\<close> with the push it is followed by.\<close>

fun add_to_line :: "jsnum \<Rightarrow> ocr_word \<Rightarrow> ocr_word list list \<Rightarrow> ocr_word list list" where
  "add_to_line tol w [] = [[w]]"
| "add_to_line tol w (line # rest) =
     (if \<bar>centreY w - centreY (last line)\<bar> \<le> tol then (line @ [w]) # rest else line # add_to_line tol w rest)"

definition blank :: "string \<Rightarrow> bool" where
  "blank s \<longleftrightarrow> length (js_trim s) = 0"

definition line_tolerance :: "ocr_word list \<Rightarrow> jsnum" where
  "line_tolerance ws = max (sort (map ow_h ws) ! (length ws div 2) * (6 / 10)) 1"

text \<open>The stable sort by \<open>y\<close> and then \<open>x\<close> is two stable sorts.\<close>

definition groupWords :: "ocr_word list \<Rightarrow> ocr_word list list" where
  "groupWords ws =
     (let nonEmpty = filter (\<lambda>w. \<not> blank (ow_text w)) ws in
      if nonEmpty = [] then []
      else let sorted = sort_key ow_y (sort_key ow_x nonEmpty) in
        map (sort_key ow_x) (fold (add_to_line (line_tolerance nonEmpty)) sorted []))"

definition unionWordBox :: "ocr_word list \<Rightarrow> px_rect" where
  "unionWordBox line =
     (let left = js_min (map ow_x line); upper = js_min (map ow_y line);
          right = js_max (map (\<lambda>w. ow_x w + ow_w w) line); bottom = js_max (map (\<lambda>w. ow_y w + ow_h w) line)
      in \<lparr>px_left = left, px_top = upper, px_width = right - left, px_height = bottom - upper\<rparr>)"

definition word_rect :: "ocr_word \<Rightarrow> px_rect" where
  "word_rect w = \<lparr>px_left = ow_x w, px_top = ow_y w, px_width = ow_w w, px_height = ow_h w\<rparr>"

definition too_small :: "pt_box \<Rightarrow> bool" where
  "too_small b \<longleftrightarrow> pt_w b < 1 / 2 \<or> pt_h b < 1 / 2"

definition line_block :: "placement_context \<Rightarrow> int \<Rightarrow> ocr_word list \<Rightarrow> ocr_block list" where
  "line_block ctx page ordered =
     (let content = js_join '' '' (filter (\<lambda>s. s \<noteq> []) (map (\<lambda>w. js_trim (ow_text w)) ordered)) in
      if length content = 0 then []
      else let bbox = ocrWordToPdfBox (unionWordBox ordered) ctx in
        if too_small bbox then []
        else [\<lparr>ob_page = page, ob_text = content, ob_bbox = bbox, ob_confidence = averageConfidence ordered\<rparr>])"

definition groupWordsIntoLines :: "ocr_word list \<Rightarrow> placement_context \<Rightarrow> int \<Rightarrow> ocr_block list" where
  "groupWordsIntoLines ws ctx page = concat (map (line_block ctx page) (groupWords ws))"

definition wordsToBlocks :: "ocr_word list \<Rightarrow> placement_context \<Rightarrow> int \<Rightarrow> ocr_block list" where
  "wordsToBlocks ws ctx page = concat (map (\<lambda>w.
     let content = js_trim (ow_text w) in
     if length content = 0 then []
     else let bbox = ocrWordToPdfBox (word_rect w) ctx in
       if too_small bbox then []
       else [\<lparr>ob_page = page, ob_text = content, ob_bbox = bbox, ob_confidence = ow_confidence w\<rparr>]) ws)"

section \<open>The two directions\<close>

definition ctx_ok :: "placement_context \<Rightarrow> bool" where
  "ctx_ok ctx \<longleftrightarrow> pc_rotation ctx \<in> {0, 90, 180, 270} \<and> 0 < pc_imageWidth ctx \<and> 0 < pc_pageWidth ctx \<and> 0 < pc_pageHeight ctx"

lemma displayed_pos: "ctx_ok ctx \<Longrightarrow> 0 < displayedWidth ctx"
  by (auto simp: ctx_ok_def displayedWidth_def)

text \<open>The box of a word, by rotation.\<close>

lemma box_cases:
  assumes "ctx_ok ctx" "0 \<le> px_width r" "0 \<le> px_height r"
  defines "s \<equiv> displayedWidth ctx / pc_imageWidth ctx"
  shows "ocrWordToPdfBox r ctx =
     (if pc_rotation ctx = 90 then \<lparr>pt_x = px_top r * s, pt_y = px_left r * s, pt_w = px_height r * s, pt_h = px_width r * s\<rparr>
      else if pc_rotation ctx = 180 then \<lparr>pt_x = pc_pageWidth ctx - (px_left r + px_width r) * s, pt_y = px_top r * s,
        pt_w = px_width r * s, pt_h = px_height r * s\<rparr>
      else if pc_rotation ctx = 270 then \<lparr>pt_x = pc_pageWidth ctx - (px_top r + px_height r) * s,
        pt_y = pc_pageHeight ctx - (px_left r + px_width r) * s, pt_w = px_height r * s, pt_h = px_width r * s\<rparr>
      else \<lparr>pt_x = px_left r * s, pt_y = pc_pageHeight ctx - (px_top r + px_height r) * s,
        pt_w = px_width r * s, pt_h = px_height r * s\<rparr>)"
proof -
  have "0 < s" using assms displayed_pos by (simp add: ctx_ok_def)
  then have "0 \<le> px_width r * s" "0 \<le> px_height r * s" using assms(2,3) by (simp_all only: mult_nonneg_nonneg less_imp_le)
  then show ?thesis
    unfolding ocrWordToPdfBox_def Let_def s_def [symmetric]
    by (auto simp: toUser_def js_min_def js_max_def distrib_right min_def max_def)
qed

lemma image_cases:
  assumes "ctx_ok ctx" "0 \<le> pt_w b" "0 \<le> pt_h b"
  defines "s \<equiv> pc_imageWidth ctx / displayedWidth ctx"
  shows "pdfBoxToImageRect b ctx =
     (if pc_rotation ctx = 90 then \<lparr>px_left = pt_y b * s, px_top = pt_x b * s, px_width = pt_h b * s, px_height = pt_w b * s\<rparr>
      else if pc_rotation ctx = 180 then \<lparr>px_left = (pc_pageWidth ctx - pt_x b - pt_w b) * s, px_top = pt_y b * s,
        px_width = pt_w b * s, px_height = pt_h b * s\<rparr>
      else if pc_rotation ctx = 270 then \<lparr>px_left = (pc_pageHeight ctx - pt_y b - pt_h b) * s,
        px_top = (pc_pageWidth ctx - pt_x b - pt_w b) * s, px_width = pt_h b * s, px_height = pt_w b * s\<rparr>
      else \<lparr>px_left = pt_x b * s, px_top = (pc_pageHeight ctx - pt_y b - pt_h b) * s,
        px_width = pt_w b * s, px_height = pt_h b * s\<rparr>)"
proof -
  have "0 < s" using assms displayed_pos by (simp add: ctx_ok_def)
  then have "0 \<le> pt_w b * s" "0 \<le> pt_h b * s" using assms(2,3) by (simp_all only: mult_nonneg_nonneg less_imp_le)
  then show ?thesis
    unfolding pdfBoxToImageRect_def Let_def s_def [symmetric]
    by (auto simp: toImage_def js_min_def js_max_def algebra_simps min_def max_def)
qed

text \<open>Where a text of a given length and height stands that is drawn at a placement: along the direction
  of its rotation from the anchor, and upwards from its baseline.\<close>

definition direction :: "int \<Rightarrow> jsnum \<times> jsnum" where
  "direction rot = (if rot = 90 then (0, 1) else if rot = 180 then (-1, 0) else if rot = 270 then (0, -1) else (1, 0))"

definition text_area :: "word_placement \<Rightarrow> jsnum \<Rightarrow> jsnum \<Rightarrow> pt_box" where
  "text_area p len height = (case direction (wp_rotation p) of (dx, dy) \<Rightarrow>
     let xs = [wp_x p, wp_x p + len * dx, wp_x p + len * dx - height * dy, wp_x p - height * dy];
         ys = [wp_y p, wp_y p + len * dy, wp_y p + len * dy + height * dx, wp_y p + height * dx]
     in \<lparr>pt_x = js_min xs, pt_y = js_min ys, pt_w = js_max xs - js_min xs, pt_h = js_max ys - js_min ys\<rparr>)"

definition box_in :: "pt_box \<Rightarrow> jsnum \<Rightarrow> jsnum \<Rightarrow> bool" where
  "box_in b w h \<longleftrightarrow> 0 \<le> pt_x b \<and> pt_x b + pt_w b \<le> w \<and> 0 \<le> pt_y b \<and> pt_y b + pt_h b \<le> h"

lemma placement_area:
  assumes "ctx_ok ctx" "0 \<le> px_width r" "0 \<le> px_height r"
  defines "s \<equiv> displayedWidth ctx / pc_imageWidth ctx"
  shows "text_area (ocrWordToPdfPlacement r ctx) (px_width r * s) (px_height r * s) = ocrWordToPdfBox r ctx"
proof -
  have "0 < s" using assms displayed_pos by (simp add: ctx_ok_def)
  then have "0 \<le> px_width r * s" "0 \<le> px_height r * s" using assms(2,3) by (simp_all only: mult_nonneg_nonneg less_imp_le)
  then show ?thesis
    unfolding box_cases [OF assms(1-3), folded s_def] ocrWordToPdfPlacement_def Let_def s_def [symmetric]
    using assms(1) by (auto simp: ctx_ok_def text_area_def direction_def js_min_def js_max_def distrib_right min_def max_def)
qed


definition demo_ctx :: placement_context where
  "demo_ctx = \<lparr>pc_imageWidth = 1684, pc_imageHeight = 1190, pc_pageWidth = 595, pc_pageHeight = 842, pc_rotation = 90\<rparr>"


section \<open>Every word in one line\<close>

definition pt_in :: "pt_box \<Rightarrow> pt_box \<Rightarrow> bool" where
  "pt_in a b \<longleftrightarrow> pt_x b \<le> pt_x a \<and> pt_x a + pt_w a \<le> pt_x b + pt_w b
     \<and> pt_y b \<le> pt_y a \<and> pt_y a + pt_h a \<le> pt_y b + pt_h b"

text \<open>Neighbours of the chain in which a line was put together are about on one height.\<close>

definition chained :: "jsnum \<Rightarrow> ocr_word list \<Rightarrow> bool" where
  "chained tol ws \<longleftrightarrow> ws \<noteq> [] \<and> successively (\<lambda>a b. \<bar>centreY b - centreY a\<bar> \<le> tol) ws"

lemma add_to_line_ok:
  assumes "list_all (chained tol) ls"
  shows "list_all (chained tol) (add_to_line tol w ls) \<and> mset (concat (add_to_line tol w ls)) = add_mset w (mset (concat ls))"
  using assms by (induction tol w ls rule: add_to_line.induct) (auto simp: chained_def successively_append_iff)

lemma fold_lines_ok:
  "list_all (chained tol) ls \<Longrightarrow> list_all (chained tol) (fold (add_to_line tol) ws ls)
     \<and> mset (concat (fold (add_to_line tol) ws ls)) = mset ws + mset (concat ls)"
proof (induction ws arbitrary: ls)
  case (Cons w ws)
  show ?case
    using Cons.IH [of "add_to_line tol w ls"] add_to_line_ok [OF Cons.prems, of w] by simp
qed simp

lemma mset_concat_sort: "mset (concat (map (sort_key f) ls)) = mset (concat ls)"
  by (induction ls) simp_all

lemma groupWords_ok:
  "mset (concat (groupWords ws)) = mset (filter (\<lambda>w. \<not> blank (ow_text w)) ws)
   \<and> list_all (\<lambda>line. sorted (map ow_x line) \<and> (\<exists>chain. mset chain = mset line
        \<and> chained (line_tolerance (filter (\<lambda>w. \<not> blank (ow_text w)) ws)) chain)) (groupWords ws)"
proof (cases "filter (\<lambda>w. \<not> blank (ow_text w)) ws = []")
  case False
  let ?ne = "filter (\<lambda>w. \<not> blank (ow_text w)) ws"
  let ?lines = "fold (add_to_line (line_tolerance ?ne)) (sort_key ow_y (sort_key ow_x ?ne)) []"
  have g: "groupWords ws = map (sort_key ow_x) ?lines"
    using False by (simp only: groupWords_def Let_def if_False)
  have "list_all (chained (line_tolerance ?ne)) ?lines" "mset (concat ?lines) = mset ?ne"
    using fold_lines_ok [of "line_tolerance ?ne" "[]"] by simp_all
  then show ?thesis
    by (auto simp: g mset_concat_sort list_all_iff intro!: exI)
qed (simp add: groupWords_def)

lemma box_mono:
  assumes "ctx_ok ctx" "0 \<le> px_width a" "0 \<le> px_height a" "0 \<le> px_width b" "0 \<le> px_height b"
    and "px_left b \<le> px_left a" "px_left a + px_width a \<le> px_left b + px_width b"
      "px_top b \<le> px_top a" "px_top a + px_height a \<le> px_top b + px_height b"
  shows "pt_in (ocrWordToPdfBox a ctx) (ocrWordToPdfBox b ctx)"
proof -
  define s where "s = displayedWidth ctx / pc_imageWidth ctx"
  have "0 < s" using assms(1) displayed_pos by (simp add: ctx_ok_def s_def)
  then have "px_left b * s \<le> px_left a * s" "(px_left a + px_width a) * s \<le> (px_left b + px_width b) * s"
    "px_top b * s \<le> px_top a * s" "(px_top a + px_height a) * s \<le> (px_top b + px_height b) * s"
    using assms(6-9) by (simp_all add: mult_right_mono)
  then show ?thesis
    unfolding box_cases [OF assms(1-3), folded s_def] box_cases [OF assms(1,4,5), folded s_def]
    by (auto simp: pt_in_def distrib_right)
qed

lemma word_in_line:
  assumes "ctx_ok ctx" "w \<in> set line" "\<And>v. v \<in> set line \<Longrightarrow> 0 \<le> ow_w v \<and> 0 \<le> ow_h v"
  shows "pt_in (ocrWordToPdfBox (word_rect w) ctx) (ocrWordToPdfBox (unionWordBox line) ctx)"
proof -
  have le: "js_min (map ow_x line) \<le> ow_x w" "js_min (map ow_y line) \<le> ow_y w"
    "ow_x w + ow_w w \<le> js_max (map (\<lambda>w. ow_x w + ow_w w) line)"
    "ow_y w + ow_h w \<le> js_max (map (\<lambda>w. ow_y w + ow_h w) line)"
    using assms(2) by (auto intro!: js_min_le js_max_ge)
  show ?thesis
    using le assms(3) [OF assms(2)]
    by (intro box_mono [OF assms(1)]) (simp_all add: word_rect_def unionWordBox_def Let_def)
qed

text \<open>Grouping recognised words into lines keeps every word that is not blank, each in exactly one
  line, from left to right; a line is a chain of words whose centres differ by at most the tolerance.
  Each line whose box is at least half a point wide and high becomes one block with the trimmed words
  joined by spaces, and its box contains the box of every word of the line.\<close>

lemma ocr_lines_complete:
  assumes "ctx_ok ctx" and "\<forall>w\<in>set ws. 0 \<le> ow_w w \<and> 0 \<le> ow_h w"
  shows "mset (concat (groupWords ws)) = mset (filter (\<lambda>w. \<not> blank (ow_text w)) ws)
    \<and> list_all (\<lambda>line. sorted (map ow_x line) \<and> (\<exists>chain. mset chain = mset line
        \<and> chained (line_tolerance (filter (\<lambda>w. \<not> blank (ow_text w)) ws)) chain)
        \<and> list_all (\<lambda>w. pt_in (ocrWordToPdfBox (word_rect w) ctx) (ocrWordToPdfBox (unionWordBox line) ctx)) line) (groupWords ws)
    \<and> groupWordsIntoLines ws ctx page = map (\<lambda>line. \<lparr>ob_page = page, ob_text = js_join '' '' (map (\<lambda>w. js_trim (ow_text w)) line),
         ob_bbox = ocrWordToPdfBox (unionWordBox line) ctx, ob_confidence = averageConfidence line\<rparr>)
       (filter (\<lambda>line. \<not> too_small (ocrWordToPdfBox (unionWordBox line) ctx)) (groupWords ws))"
proof -
  have words: "w \<in> set ws \<and> js_trim (ow_text w) \<noteq> []" if "line \<in> set (groupWords ws)" "w \<in> set line" for line w
  proof -
    have "w \<in># mset (concat (groupWords ws))" using that by auto
    then show ?thesis by (auto simp: groupWords_ok [of ws, THEN conjunct1] blank_def)
  qed
  have ne: "line \<noteq> []" if "line \<in> set (groupWords ws)" for line
    using groupWords_ok [of ws] that by (fastforce simp: list_all_iff chained_def)
  have blk: "line_block ctx page line = (if too_small (ocrWordToPdfBox (unionWordBox line) ctx) then []
      else [\<lparr>ob_page = page, ob_text = js_join '' '' (map (\<lambda>w. js_trim (ow_text w)) line),
         ob_bbox = ocrWordToPdfBox (unionWordBox line) ctx, ob_confidence = averageConfidence line\<rparr>])"
    if "line \<in> set (groupWords ws)" for line
  proof -
    have f: "filter (\<lambda>s. s \<noteq> []) (map (\<lambda>w. js_trim (ow_text w)) line) = map (\<lambda>w. js_trim (ow_text w)) line"
      using words [OF that] by (auto simp: filter_id_conv)
    have "line \<noteq> []" by (rule ne [OF that])
    then obtain w rest where "line = w # rest" by (cases line) auto
    then have "js_join '' '' (map (\<lambda>w. js_trim (ow_text w)) line) \<noteq> []"
      using words [OF that, of w] by (cases rest) auto
    then show ?thesis by (simp add: line_block_def f Let_def)
  qed
  have "groupWordsIntoLines ws ctx page = concat (map (\<lambda>line. if too_small (ocrWordToPdfBox (unionWordBox line) ctx) then []
      else [\<lparr>ob_page = page, ob_text = js_join '' '' (map (\<lambda>w. js_trim (ow_text w)) line),
         ob_bbox = ocrWordToPdfBox (unionWordBox line) ctx, ob_confidence = averageConfidence line\<rparr>]) (groupWords ws))"
    unfolding groupWordsIntoLines_def using blk by (simp cong: map_cong)
  moreover have "concat (map (\<lambda>x. if P x then [] else [f x]) xs) = map f (filter (\<lambda>x. \<not> P x) xs)" for P and f :: "'c \<Rightarrow> 'e" and xs
    by (induction xs) auto
  moreover have "list_all (\<lambda>w. pt_in (ocrWordToPdfBox (word_rect w) ctx) (ocrWordToPdfBox (unionWordBox line) ctx)) line"
    if "line \<in> set (groupWords ws)" for line
    unfolding list_all_iff using words [OF that] assms(2) by (auto intro!: word_in_line [OF assms(1)])
  ultimately show ?thesis
    using groupWords_ok [of ws] by (auto simp: list_all_iff)
qed

definition demo_words :: "ocr_word list" where
  "demo_words = [\<lparr>ow_text = ''world '', ow_x = 60, ow_y = 12, ow_w = 40, ow_h = 10, ow_confidence = Some (1 / 2)\<rparr>,
     \<lparr>ow_text = '' '', ow_x = 5, ow_y = 5, ow_w = 1, ow_h = 1, ow_confidence = None\<rparr>,
     \<lparr>ow_text = ''Hello'', ow_x = 10, ow_y = 10, ow_w = 40, ow_h = 10, ow_confidence = Some 1\<rparr>,
     \<lparr>ow_text = ''Next'', ow_x = 10, ow_y = 40, ow_w = 30, ow_h = 10, ow_confidence = None\<rparr>]"

lemma ocr_lines_complete_witness:
  "map ob_text (groupWordsIntoLines demo_words demo_ctx 1) = [''Hello world'', ''Next'']
   \<and> sum_mset (image_mset ow_x (mset (concat (groupWords demo_words)))) = 80"
proof -
  have c: "ctx_ok demo_ctx" by (simp add: demo_ctx_def ctx_ok_def)
  have w: "\<forall>w\<in>set demo_words. 0 \<le> ow_w w \<and> 0 \<le> ow_h w" by (simp add: demo_words_def)
  have t: "map (\<lambda>l. js_join '' '' (map (\<lambda>w. js_trim (ow_text w)) l))
      (filter (\<lambda>line. \<not> too_small (ocrWordToPdfBox (unionWordBox line) demo_ctx)) (groupWords demo_words)) = [''Hello world'', ''Next'']"
    by code_simp
  have f: "map ow_x (filter (\<lambda>w. \<not> blank (ow_text w)) demo_words) = [60, 10, 10]"
    by code_simp
  then have "image_mset ow_x (mset (filter (\<lambda>w. \<not> blank (ow_text w)) demo_words)) = {#60, 10, 10#}"
    by (metis mset.simps mset_map)
  then show ?thesis
    using ocr_lines_complete [OF c w, of 1] t by (simp add: o_def)
qed

end
