(* ===== verification/Ocr_Pages.thy ===== *)
theory Ocr_Pages
  imports Ocr_Geometry Pdf_Routes
begin

text \<open>
  The OCR pipelines of \<open>packages/pdf-engine/src/parse\<close>: blocks for the search index
  (\<open>ocr-blocks.ts\<close>), an invisible text layer (\<open>ocr-searchable.ts\<close>), masked scans with editable text
  (\<open>ocr-editable.ts\<close>), the client of the OCR service (\<open>ocr-engine.ts\<close>) and \<open>extractPlainText\<close> of
  \<open>structured-text.ts\<close>. Parameters: the rasteriser and writers of the engine, the HTTP service,
  \<open>JSON.parse\<close>. Log calls are left out.
\<close>

section \<open>The client of the service\<close>

definition LEGACY_TOKEN_TO_MODEL :: "(string, string) jsmap" where
  "LEGACY_TOKEN_TO_MODEL = [(''alpha'', ''latin''), (''latin'', ''latin''), (''cyrillic'', ''cyrillic''),
     (''arabic'', ''ar''), (''ar'', ''ar''), (''hebrew'', ''he''), (''he'', ''he''),
     (''devanagari'', ''devanagari''), (''tamil'', ''ta''), (''ta'', ''ta''), (''telugu'', ''te''), (''te'', ''te''),
     (''kannada'', ''kn''), (''kn'', ''kn''),
     (''cjk'', ''zh''), (''chinese'', ''zh''), (''chinese_simplified'', ''zh''), (''zh'', ''zh''),
     (''chinese_traditional'', ''zh_tw''), (''zh_tw'', ''zh_tw''), (''japanese'', ''ja''), (''ja'', ''ja''),
     (''korean'', ''ko''), (''ko'', ''ko''), (''latin_hw'', ''latin_hw''), (''handwriting'', ''latin_hw'')]"

definition token_model :: "string \<Rightarrow> string" where
  "token_model token = (case map_get LEGACY_TOKEN_TO_MODEL (js_lower (js_trim token)) of None \<Rightarrow> ''latin'' | Some m \<Rightarrow> m)"

definition scriptTokensToOcrModel :: "string list option \<Rightarrow> bool \<Rightarrow> string option" where
  "scriptTokensToOcrModel languages handwriting =
     (let models = map token_model (case languages of None \<Rightarrow> [] | Some ls \<Rightarrow> ls) in
      case find (\<lambda>m. m \<noteq> ''latin'') models of
        Some m \<Rightarrow> Some m
      | None \<Rightarrow> if handwriting then Some ''latin_hw'' else if length models > 0 then Some ''latin'' else None)"

text \<open>\<open>Number\<close> of a JSON value: of an array it is \<open>Number\<close> of its elements joined by commas, where
  \<open>null\<close> gives nothing.\<close>

fun element_number :: "json \<Rightarrow> jsnum option" where
  "element_number (J_str s) = js_number s"
| "element_number (J_num n) = n"
| "element_number J_null = Some 0"
| "element_number (J_bool b) = None"
| "element_number (J_obj m) = None"
| "element_number (J_arr []) = Some 0"
| "element_number (J_arr [v]) = element_number v"
| "element_number (J_arr (v # v' # vs)) = None"

fun json_number :: "json \<Rightarrow> jsnum option" where
  "json_number (J_bool b) = Some (if b then 1 else 0)"
| "json_number v = element_number v"

definition toFiniteNumber :: "json option \<Rightarrow> jsnum" where
  "toFiniteNumber v = (case v of None \<Rightarrow> 0 | Some j \<Rightarrow> (case json_number j of None \<Rightarrow> 0 | Some n \<Rightarrow> n))"

text \<open>One line of the answer; a line that is no object with a text is skipped.\<close>

definition ndjson_word :: "(string \<Rightarrow> json option) \<Rightarrow> string \<Rightarrow> ocr_word list" where
  "ndjson_word parse rawLine =
     (let line = js_trim rawLine in
      if length line = 0 then []
      else case parse line of
        Some (J_obj obj) \<Rightarrow> (case map_get obj ''text'' of
            Some (J_str t) \<Rightarrow> [\<lparr>ow_text = t, ow_x = toFiniteNumber (map_get obj ''x''), ow_y = toFiniteNumber (map_get obj ''y''),
                ow_w = toFiniteNumber (map_get obj ''w''), ow_h = toFiniteNumber (map_get obj ''h''),
                ow_confidence = (case map_get obj ''confidence'' of Some (J_num n) \<Rightarrow> n | _ \<Rightarrow> Some 0)\<rparr>]
          | _ \<Rightarrow> [])
      | _ \<Rightarrow> [])"

definition parseNdjson :: "(string \<Rightarrow> json option) \<Rightarrow> string \<Rightarrow> ocr_word list" where
  "parseNdjson parse ndjson = concat (map (ndjson_word parse) (js_split (CHR ''\<newline>'') ndjson))"

section \<open>Pages\<close>

record layer_run =
  tr_x :: jsnum
  tr_y :: jsnum
  tr_size :: jsnum
  tr_text :: string
  tr_rotation :: int

record decoded_page =
  dp_width :: int
  dp_height :: int
  dp_rgba :: "nat list"

text \<open>What the pipelines call: the rasteriser and writers of the engine, its text reader, the decoder of
  images and the service (with the forced model), whose error is the message of a failed request.\<close>

record ('d, 'p) ocr_api =
  oa_renderPage :: "int \<Rightarrow> jsnum \<Rightarrow> 'd \<Rightarrow> string + 'p"
  oa_structuredText :: "int \<Rightarrow> 'd \<Rightarrow> string + string list"
  oa_addTextLayer :: "int \<Rightarrow> layer_run list \<Rightarrow> 'd \<Rightarrow> string + nat \<times> 'd"
  oa_addRectangle :: "int \<Rightarrow> pt_box \<Rightarrow> nat \<Rightarrow> 'd \<Rightarrow> string + bool \<times> 'd"
  oa_decodePng :: "'p \<Rightarrow> decoded_page option"
  oa_service :: "string option \<Rightarrow> 'p \<Rightarrow> string + string"
  oa_parse :: "string \<Rightarrow> json option"

definition getOcrWords :: "('d, 'p) ocr_api \<Rightarrow> 'p \<Rightarrow> string option \<Rightarrow> ('d, ocr_word list) eff" where
  "getOcrWords A png model = eff_bind (eff_lift Plain_error (oa_service A model png))
     (\<lambda>body. eff_return (parseNdjson (oa_parse A) body))"

definition page_context :: "page_info \<Rightarrow> jsnum \<Rightarrow> placement_context" where
  "page_context info scale =
     (let rotation = ocr_rotation (pi_rotation info);
          turned = (rotation = 90 \<or> rotation = 270);
          displayedW = (if turned then pi_height info else pi_width info);
          displayedH = (if turned then pi_width info else pi_height info)
      in \<lparr>pc_imageWidth = of_int (js_round (displayedW * scale)), pc_imageHeight = of_int (js_round (displayedH * scale)),
          pc_pageWidth = pi_width info, pc_pageHeight = pi_height info, pc_rotation = rotation\<rparr>)"

text \<open>What starts the round of every page: its context, its image and its words.\<close>

definition recognise_page ::
  "('b, 'd) engine \<Rightarrow> ('d, 'p) ocr_api \<Rightarrow> nat \<Rightarrow> jsnum \<Rightarrow> string option \<Rightarrow> int
   \<Rightarrow> ('d, placement_context \<times> 'p \<times> ocr_word list) eff" where
  "recognise_page E A k scale model page =
     eff_bind (read_doc k (en_pageInfo E page)) (\<lambda>info.
     eff_bind (call_doc k (oa_renderPage A page scale)) (\<lambda>png.
     eff_bind (getOcrWords A png model) (\<lambda>ws. eff_return (page_context info scale, png, ws))))"

datatype granularity = By_line | By_word

fun block_pages ::
  "('b, 'd) engine \<Rightarrow> ('d, 'p) ocr_api \<Rightarrow> nat \<Rightarrow> jsnum \<Rightarrow> granularity \<Rightarrow> int list \<Rightarrow> ('d, ocr_block list \<times> nat) eff" where
  "block_pages E A k scale g [] = eff_return ([], 0)"
| "block_pages E A k scale g (page # pages) =
     eff_bind (recognise_page E A k scale None page) (\<lambda>(ctx, png, ws).
       let pageBlocks = (if g = By_word then wordsToBlocks ws ctx page else groupWordsIntoLines ws ctx page) in
       eff_bind (block_pages E A k scale g pages) (\<lambda>(blocks, n). eff_return (pageBlocks @ blocks, Suc n)))"

text \<open>The page numbers of the options need not be integers.\<close>

definition wanted_pages :: "jsnum list option \<Rightarrow> int \<Rightarrow> int list" where
  "wanted_pages pages n = (case pages of
       None \<Rightarrow> [1..n]
     | Some ps \<Rightarrow> map floor (filter (\<lambda>p. of_int \<lfloor>p\<rfloor> = p \<and> p \<ge> 1 \<and> p \<le> of_int n) ps))"

definition extractOcrBlocks ::
  "('b, 'd) engine \<Rightarrow> ('d, 'p) ocr_api \<Rightarrow> 'b \<Rightarrow> jsnum list option \<Rightarrow> jsnum option \<Rightarrow> granularity option
   \<Rightarrow> ('d, ocr_block list \<times> nat) eff" where
  "extractOcrBlocks E A bytes pages dpi g =
     eff_bind (open_doc E Plain_error bytes) (\<lambda>k. eff_finally
       (eff_bind (read_doc k (en_pageCount E)) (\<lambda>n.
          block_pages E A k ((case dpi of None \<Rightarrow> 144 | Some d \<Rightarrow> d) / 72) (case g of None \<Rightarrow> By_line | Some x \<Rightarrow> x)
            (wanted_pages pages n)))
       (close_doc k))"

section \<open>The invisible layer\<close>

fun plain_pages :: "('d, 'p) ocr_api \<Rightarrow> nat \<Rightarrow> int list \<Rightarrow> ('d, (int \<times> string) list) eff" where
  "plain_pages A k [] = eff_return []"
| "plain_pages A k (page # pages) =
     eff_bind (call_doc k (oa_structuredText A page)) (\<lambda>ls.
     eff_bind (plain_pages A k pages) (\<lambda>rest. eff_return ((page, js_join ''\<newline>'' ls) # rest)))"

definition extractPlainText :: "('b, 'd) engine \<Rightarrow> ('d, 'p) ocr_api \<Rightarrow> 'b \<Rightarrow> ('d, (int \<times> string) list) eff" where
  "extractPlainText E A bytes =
     eff_bind (open_doc E Plain_error bytes) (\<lambda>k. eff_finally
       (eff_bind (read_doc k (en_pageCount E)) (\<lambda>n. plain_pages A k [1..n])) (close_doc k))"

record ocr_options =
  oo_dpi :: "jsnum option"
  oo_force :: "bool option"
  oo_languages :: "string list option"
  oo_handwriting :: bool
  oo_pageRange :: "(int \<times> int) option"

definition filterPagesByRange :: "int list \<Rightarrow> (int \<times> int) option \<Rightarrow> int list" where
  "filterPagesByRange pages pageRange = (case pageRange of None \<Rightarrow> pages
     | Some (f, t) \<Rightarrow> filter (\<lambda>p. min f t \<le> p \<and> p \<le> max f t) pages)"

definition scan_pages :: "ocr_options \<Rightarrow> (int \<times> string) list \<Rightarrow> int list" where
  "scan_pages opts pageTexts = filterPagesByRange
     (map fst (if oo_force opts = Some True then pageTexts
               else filter (\<lambda>(n, t). length (js_trim t) = 0) pageTexts)) (oo_pageRange opts)"

definition word_runs :: "placement_context \<Rightarrow> ocr_word list \<Rightarrow> layer_run list" where
  "word_runs ctx ws = concat (map (\<lambda>w.
     let placement = ocrWordToPdfPlacement (word_rect w) ctx in
     if wp_fontSize placement < 1 then []
     else [\<lparr>tr_x = wp_x placement, tr_y = wp_y placement, tr_size = wp_fontSize placement, tr_text = ow_text w,
            tr_rotation = wp_rotation placement\<rparr>]) ws)"

text \<open>No call when there is no run.\<close>

definition add_layer :: "('d, 'p) ocr_api \<Rightarrow> nat \<Rightarrow> int \<Rightarrow> layer_run list \<Rightarrow> ('d, nat) eff" where
  "add_layer A k page runs =
     (if length runs > 0 then flag_doc k (oa_addTextLayer A page runs) else eff_return 0)"

fun search_pages ::
  "('b, 'd) engine \<Rightarrow> ('d, 'p) ocr_api \<Rightarrow> nat \<Rightarrow> jsnum \<Rightarrow> string option \<Rightarrow> int list \<Rightarrow> ('d, nat \<times> nat) eff" where
  "search_pages E A k scale model [] = eff_return (0, 0)"
| "search_pages E A k scale model (page # pages) =
     eff_bind (recognise_page E A k scale model page) (\<lambda>(ctx, png, ws).
     eff_bind (add_layer A k page (word_runs ctx (filter (\<lambda>w. \<not> blank (ow_text w)) ws))) (\<lambda>added.
     eff_bind (search_pages E A k scale model pages) (\<lambda>(n, m). eff_return (Suc n, added + m))))"

definition makeSearchablePdf ::
  "('b, 'd) engine \<Rightarrow> ('d, 'p) ocr_api \<Rightarrow> 'b \<Rightarrow> ocr_options \<Rightarrow> ('d, 'b \<times> nat \<times> nat) eff" where
  "makeSearchablePdf E A bytes opts =
     eff_bind (extractPlainText E A bytes) (\<lambda>texts.
       let pages = scan_pages opts texts;
           scale = (case oo_dpi opts of None \<Rightarrow> 144 | Some d \<Rightarrow> d) / 72;
           model = scriptTokensToOcrModel (oo_languages opts) (oo_handwriting opts)
       in if length pages = 0 then eff_return (bytes, 0, 0)
          else eff_bind (open_doc E Plain_error bytes) (\<lambda>k. eff_finally
            (eff_bind (search_pages E A k scale model pages) (\<lambda>(n, m).
             eff_bind (call_doc k (en_saveCompressed E)) (\<lambda>out. eff_return (out, n, m))))
            (close_doc k)))"

section \<open>Masks and editable text\<close>

definition WHITE_RGB :: nat where "WHITE_RGB = 16777215"

definition median :: "nat list \<Rightarrow> nat" where
  "median values = (if length values = 0 then 0 else sort values ! ((length values - 1) div 2))"

text \<open>The colours are bytes, so shifts and \<open>|\<close> are sums. The pixels looked at, in the order of the four loops.\<close>

definition ring_pixels :: "int \<Rightarrow> int \<Rightarrow> int \<Rightarrow> int \<Rightarrow> int \<Rightarrow> (int \<times> int) list" where
  "ring_pixels x0 y0 x1 y1 ring =
     concat (map (\<lambda>band. concat (map (\<lambda>px. [(px, y0 - band), (px, y1 - 1 + band)]) [x0 - ring..x1 + ring - 1])) [1..ring])
     @ concat (map (\<lambda>band. concat (map (\<lambda>py. [(x0 - band, py), (x1 - 1 + band, py)]) [y0..y1 - 1])) [1..ring])"

definition pixel :: "decoded_page \<Rightarrow> int \<times> int \<Rightarrow> nat list" where
  "pixel img p = take 4 (drop (nat ((snd p * dp_width img + fst p) * 4)) (dp_rgba img))"

definition considered :: "decoded_page \<Rightarrow> int \<Rightarrow> int \<Rightarrow> int \<Rightarrow> int \<Rightarrow> int \<times> int \<Rightarrow> bool" where
  "considered img x0 y0 x1 y1 p = (case p of (px, py) \<Rightarrow>
     \<not> (px \<ge> x0 \<and> px < x1 \<and> py \<ge> y0 \<and> py < y1)
     \<and> \<not> (px < 0 \<or> py < 0 \<or> px \<ge> dp_width img \<or> py \<ge> dp_height img)
     \<and> \<not> pixel img p ! 3 < 200)"

definition sampleBackgroundColor :: "decoded_page \<Rightarrow> px_rect \<Rightarrow> int \<Rightarrow> nat option" where
  "sampleBackgroundColor img rect ring =
     (if dp_width img \<le> 0 \<or> dp_height img \<le> 0 \<or> int (length (dp_rgba img)) < dp_width img * dp_height img * 4
      then None
      else let x0 = js_round (px_left rect); y0 = js_round (px_top rect);
               x1 = js_round (px_left rect + px_width rect); y1 = js_round (px_top rect + px_height rect);
               samples = map (pixel img) (filter (considered img x0 y0 x1 y1) (ring_pixels x0 y0 x1 y1 ring))
           in if length samples = 0 then None
              else Some (median (map (\<lambda>c. c ! 0) samples) * 65536 + median (map (\<lambda>c. c ! 1) samples) * 256
                + median (map (\<lambda>c. c ! 2) samples)))"

definition sampleLineBackground :: "decoded_page option \<Rightarrow> pt_box \<Rightarrow> placement_context \<Rightarrow> nat option" where
  "sampleLineBackground background pdfBox ctx = (case background of None \<Rightarrow> None
     | Some img \<Rightarrow> sampleBackgroundColor img
         (pdfBoxToImageRect pdfBox (ctx\<lparr>pc_imageWidth := of_int (dp_width img), pc_imageHeight := of_int (dp_height img)\<rparr>)) 2)"

definition line_mask :: "placement_context \<Rightarrow> decoded_page option \<Rightarrow> ocr_word list \<Rightarrow> (pt_box \<times> nat) option" where
  "line_mask ctx background line =
     (let pdfBox = ocrWordToPdfBox (unionWordBox line) ctx in
      if too_small pdfBox then None
      else let fill = (case sampleLineBackground background pdfBox ctx of None \<Rightarrow> WHITE_RGB | Some c \<Rightarrow> c);
               pad = min (pt_h pdfBox * (1 / 10)) (3 / 2)
           in Some (\<lparr>pt_x = pt_x pdfBox - pad, pt_y = pt_y pdfBox - pad, pt_w = pt_w pdfBox + pad * 2,
                pt_h = pt_h pdfBox + pad * 2\<rparr>, fill))"

fun paint_masks ::
  "('d, 'p) ocr_api \<Rightarrow> nat \<Rightarrow> int \<Rightarrow> placement_context \<Rightarrow> decoded_page option \<Rightarrow> ocr_word list list \<Rightarrow> ('d, nat) eff" where
  "paint_masks A k page ctx background [] = eff_return 0"
| "paint_masks A k page ctx background (line # rest) =
     (case line_mask ctx background line of
        None \<Rightarrow> paint_masks A k page ctx background rest
      | Some (box, fill) \<Rightarrow>
          eff_bind (flag_doc k (oa_addRectangle A page box fill)) (\<lambda>ok.
          eff_bind (paint_masks A k page ctx background rest) (\<lambda>n. eff_return (if ok then Suc n else n))))"

text \<open>One page; a page without words is counted and left alone.\<close>

definition edit_page ::
  "('d, 'p) ocr_api \<Rightarrow> nat \<Rightarrow> int \<Rightarrow> placement_context \<Rightarrow> 'p \<Rightarrow> ocr_word list \<Rightarrow> ('d, nat \<times> nat) eff" where
  "edit_page A k page ctx png ws =
     (let ls = groupWords ws in
      if length ls = 0 then eff_return (0, 0)
      else eff_bind (paint_masks A k page ctx (oa_decodePng A png) ls) (\<lambda>masks.
           eff_bind (add_layer A k page (word_runs ctx (concat ls))) (\<lambda>added. eff_return (added, masks))))"

fun edit_pages ::
  "('b, 'd) engine \<Rightarrow> ('d, 'p) ocr_api \<Rightarrow> nat \<Rightarrow> jsnum \<Rightarrow> string option \<Rightarrow> int list \<Rightarrow> ('d, nat \<times> nat \<times> nat) eff" where
  "edit_pages E A k scale model [] = eff_return (0, 0, 0)"
| "edit_pages E A k scale model (page # pages) =
     eff_bind (recognise_page E A k scale model page) (\<lambda>(ctx, png, ws).
     eff_bind (edit_page A k page ctx png ws) (\<lambda>(added, masks).
     eff_bind (edit_pages E A k scale model pages) (\<lambda>(n, ws', ms'). eff_return (Suc n, added + ws', masks + ms'))))"

definition makeEditableOcrPdf ::
  "('b, 'd) engine \<Rightarrow> ('d, 'p) ocr_api \<Rightarrow> 'b \<Rightarrow> ocr_options \<Rightarrow> ('d, 'b \<times> nat \<times> nat \<times> nat) eff" where
  "makeEditableOcrPdf E A bytes opts =
     eff_bind (extractPlainText E A bytes) (\<lambda>texts.
       let pages = scan_pages opts texts;
           scale = (case oo_dpi opts of None \<Rightarrow> 144 | Some d \<Rightarrow> d) / 72;
           model = scriptTokensToOcrModel (oo_languages opts) (oo_handwriting opts)
       in if length pages = 0 then eff_return (bytes, 0, 0, 0)
          else eff_bind (open_doc E Plain_error bytes) (\<lambda>k. eff_finally
            (eff_bind (edit_pages E A k scale model pages) (\<lambda>(n, m, masks).
             eff_bind (call_doc k (en_saveCompressed E)) (\<lambda>out. eff_return (out, n, m, masks))))
            (close_doc k)))"

section \<open>No document is left behind\<close>

lemma uses_only_recognise: "uses_only k (recognise_page E A k scale model page)"
  unfolding recognise_page_def getOcrWords_def
  by (intro uses_only_bind uses_only_basic)

lemma uses_only_layer: "uses_only k (add_layer A k page runs)"
  by (simp add: add_layer_def uses_only_flag uses_only_basic)

lemma uses_only_blocks: "uses_only k (block_pages E A k scale g pages)"
  by (induction pages) (auto simp: Let_def intro!: uses_only_bind uses_only_basic uses_only_recognise split: prod.split)

lemma uses_only_plain: "uses_only k (plain_pages A k pages)"
  by (induction pages) (auto intro!: uses_only_bind uses_only_basic)

lemma uses_only_search: "uses_only k (search_pages E A k scale model pages)"
  by (induction pages) (auto intro!: uses_only_bind uses_only_basic uses_only_recognise uses_only_layer split: prod.split)

lemma uses_only_masks: "uses_only k (paint_masks A k page ctx background ls)"
  by (induction ls) (auto intro!: uses_only_bind uses_only_basic uses_only_flag split: option.split prod.split)

lemma uses_only_edit: "uses_only k (edit_pages E A k scale model pages)"
  by (induction pages) (auto simp: edit_page_def Let_def intro!: uses_only_bind uses_only_basic uses_only_recognise
      uses_only_layer uses_only_masks split: prod.split)

lemma ocr_balanced:
  "balanced (extractOcrBlocks E A bytes pages dpi g)"
  "balanced (extractPlainText E A bytes)"
  "balanced (makeSearchablePdf E A bytes opts)"
  "balanced (makeEditableOcrPdf E A bytes opts)"
proof -
  show plain: "balanced (extractPlainText E A bytes)"
    unfolding extractPlainText_def by (intro balanced_open uses_only_bind uses_only_basic uses_only_plain)
  show "balanced (extractOcrBlocks E A bytes pages dpi g)"
    unfolding extractOcrBlocks_def by (intro balanced_open uses_only_bind uses_only_basic uses_only_blocks)
  show "balanced (makeSearchablePdf E A bytes opts)"
    unfolding makeSearchablePdf_def Let_def
    by (auto intro!: balanced_bind plain balanced_open uses_only_bind uses_only_basic uses_only_search balanced_basic split: prod.split)
  show "balanced (makeEditableOcrPdf E A bytes opts)"
    unfolding makeEditableOcrPdf_def Let_def
    by (auto intro!: balanced_bind plain balanced_open uses_only_bind uses_only_basic uses_only_edit balanced_basic split: prod.split)
qed

section \<open>What a mask hides\<close>

text \<open>The colour of a mask does not depend on the pixels it hides.\<close>

lemma sample_ignores_inside:
  assumes "dp_width a = dp_width b" "dp_height a = dp_height b" "length (dp_rgba a) = length (dp_rgba b)"
    and "\<And>px py. \<not> (js_round (px_left rect) \<le> px \<and> px < js_round (px_left rect + px_width rect)
      \<and> js_round (px_top rect) \<le> py \<and> py < js_round (px_top rect + px_height rect)) \<Longrightarrow> pixel a (px, py) = pixel b (px, py)"
  shows "sampleBackgroundColor a rect ring = sampleBackgroundColor b rect ring"
proof -
  let ?x0 = "js_round (px_left rect)" and ?x1 = "js_round (px_left rect + px_width rect)"
  let ?y0 = "js_round (px_top rect)" and ?y1 = "js_round (px_top rect + px_height rect)"
  have same: "considered a ?x0 ?y0 ?x1 ?y1 p = considered b ?x0 ?y0 ?x1 ?y1 p
      \<and> (considered a ?x0 ?y0 ?x1 ?y1 p \<longrightarrow> pixel a p = pixel b p)" for p
  proof (cases "fst p \<ge> ?x0 \<and> fst p < ?x1 \<and> snd p \<ge> ?y0 \<and> snd p < ?y1")
    case False
    then have "pixel a p = pixel b p" using assms(4) [of "fst p" "snd p"] by auto
    then show ?thesis using assms(1,2) by (simp add: considered_def split: prod.split)
  qed (auto simp: considered_def)
  then have "filter (considered a ?x0 ?y0 ?x1 ?y1) ps = filter (considered b ?x0 ?y0 ?x1 ?y1) ps" for ps
    by (intro filter_cong) auto
  then have "map (pixel a) (filter (considered a ?x0 ?y0 ?x1 ?y1) ps) = map (pixel b) (filter (considered b ?x0 ?y0 ?x1 ?y1) ps)" for ps
    using same by (auto intro!: map_cong)
  then show ?thesis
    unfolding sampleBackgroundColor_def Let_def by (simp only: assms(1-3))
qed

definition page_masks :: "placement_context \<Rightarrow> decoded_page option \<Rightarrow> ocr_word list \<Rightarrow> (pt_box \<times> nat) list" where
  "page_masks ctx background ws = List.map_filter (line_mask ctx background) (groupWords ws)"

text \<open>The calls that paint given masks, in order.\<close>

fun paint_list :: "('d, 'p) ocr_api \<Rightarrow> nat \<Rightarrow> int \<Rightarrow> (pt_box \<times> nat) list \<Rightarrow> ('d, nat) eff" where
  "paint_list A k page [] = eff_return 0"
| "paint_list A k page ((box, fill) # ms) =
     eff_bind (flag_doc k (oa_addRectangle A page box fill)) (\<lambda>ok.
     eff_bind (paint_list A k page ms) (\<lambda>n. eff_return (if ok then Suc n else n)))"

lemma paint_masks_list: "paint_masks A k page ctx background ls = paint_list A k page (List.map_filter (line_mask ctx background) ls)"
  by (induction ls) (auto simp: List.map_filter_simps split: option.split prod.split)

lemma edit_page_calls:
  "w \<in> set ws \<Longrightarrow> \<not> blank (ow_text w) \<Longrightarrow> edit_page A k page ctx png ws =
     eff_bind (paint_list A k page (page_masks ctx (oa_decodePng A png) ws)) (\<lambda>masks.
     eff_bind (add_layer A k page (word_runs ctx (concat (groupWords ws)))) (\<lambda>added. eff_return (added, masks)))"
proof -
  assume "w \<in> set ws" "\<not> blank (ow_text w)"
  then have "w \<in># mset (concat (groupWords ws))"
    by (simp add: groupWords_ok [of ws, THEN conjunct1])
  then have "groupWords ws \<noteq> []" by auto
  then show ?thesis by (simp add: edit_page_def Let_def paint_masks_list page_masks_def)
qed

lemma pt_in_trans: "pt_in a b \<Longrightarrow> pt_in b c \<Longrightarrow> pt_in a c"
  by (auto simp: pt_in_def)

lemma mask_covers_line:
  assumes "\<not> too_small (ocrWordToPdfBox (unionWordBox line) ctx)"
  shows "\<exists>box fill. line_mask ctx background line = Some (box, fill) \<and> pt_in (ocrWordToPdfBox (unionWordBox line) ctx) box"
proof -
  let ?b = "ocrWordToPdfBox (unionWordBox line) ctx"
  have "0 \<le> pt_h ?b" using assms by (simp add: too_small_def)
  then have "0 \<le> min (pt_h ?b * (1 / 10)) (3 / 2)" by simp
  then show ?thesis using assms by (simp add: line_mask_def Let_def pt_in_def)
qed



text \<open>The model that is forced, against the comment: handwriting wins over a later script.\<close>

lemma handwriting_token_wins: "scriptTokensToOcrModel (Some [''handwriting'', ''arabic'']) False = Some ''latin_hw''"
  by code_simp

text \<open>An inverted range selects its pages.\<close>

lemma inverted_range: "filterPagesByRange [1, 2, 3, 4] (Some (3, 2)) = [2, 3]"
  by code_simp

end
