(* ===== verification/Pdf_To_Xlsx.thy ===== *)
theory Pdf_To_Xlsx
  imports Document_Handle Elements
begin

text \<open>
  Exports of a PDF: the spreadsheet grid of \<open>packages/pdf-engine/src/convert/pdf-to-xlsx.ts\<close> and the
  text formats of \<open>pdf-to-text-formats.ts\<close>. Parameters: the writers of the engine, the reader of text
  blocks, and the array sort (whose result is unspecified for the comparison used here, which is not
  transitive). The dash of the note on an empty page is an argument, because it is outside the
  characters modelled.
\<close>

section \<open>Rows and columns\<close>

record text_block =
  tb_id :: string
  tb_page :: int
  tb_content :: string
  tb_bounds :: bounds
  tb_style :: string

definition line_part :: "text_block \<Rightarrow> nat \<Rightarrow> string \<Rightarrow> text_block" where
  "line_part block i line = block\<lparr>tb_content := line, tb_id := tb_id block @ ''-line'' @ nat_str 10 i,
     tb_bounds := (tb_bounds block)\<lparr>b_y := b_y (tb_bounds block) + of_nat i * b_height (tb_bounds block)\<rparr>\<rparr>"

definition expandMultilineBlocks :: "text_block list \<Rightarrow> text_block list" where
  "expandMultilineBlocks blocks = concat (map (\<lambda>block.
     let ls = js_split (CHR ''\<newline>'') (tb_content block) in
     if length ls \<le> 1 then [block] else map_index (line_part block) ls) blocks)"

definition bx :: "text_block \<Rightarrow> jsnum" where "bx b = b_x (tb_bounds b)"
definition by' :: "text_block \<Rightarrow> jsnum" where "by' b = b_y (tb_bounds b)"

text \<open>The band of a row starts at its first block.\<close>

fun rows_loop :: "jsnum \<Rightarrow> text_block list \<Rightarrow> jsnum \<Rightarrow> text_block list \<Rightarrow> text_block list list" where
  "rows_loop yTolerance currentRow bandY [] = [currentRow]"
| "rows_loop yTolerance currentRow bandY (block # blocks) =
     (if \<bar>by' block - bandY\<bar> \<le> yTolerance then rows_loop yTolerance (currentRow @ [block]) bandY blocks
      else currentRow # rows_loop yTolerance [block] (by' block) blocks)"

definition groupIntoRows :: "text_block list \<Rightarrow> jsnum \<Rightarrow> text_block list list" where
  "groupIntoRows blocks yTolerance = (case blocks of [] \<Rightarrow> []
     | b # bs \<Rightarrow> rows_loop yTolerance [b] (by' b) bs)"

definition findCloseAnchor :: "jsnum list \<Rightarrow> jsnum \<Rightarrow> jsnum \<Rightarrow> nat option" where
  "findCloseAnchor anchors x xTolerance = find_index (\<lambda>a. \<bar>a - x\<bar> \<le> xTolerance) anchors"

text \<open>The binary search for the place of an anchor.\<close>

function anchor_search :: "jsnum list \<Rightarrow> jsnum \<Rightarrow> nat \<Rightarrow> nat \<Rightarrow> nat" where
  "anchor_search arr x lo hi =
     (if lo < hi then let mid = (lo + hi) div 2 in
        if arr ! mid < x then anchor_search arr x (mid + 1) hi else anchor_search arr x lo mid
      else lo)"
  by auto
termination
  by (relation "measure (\<lambda>(arr, x, lo, hi). hi - lo)") auto

declare anchor_search.simps [simp del]

definition insertSorted :: "jsnum list \<Rightarrow> jsnum \<Rightarrow> jsnum list" where
  "insertSorted arr x = splice_ins (anchor_search arr x 0 (length arr)) x arr"

definition add_anchor :: "jsnum \<Rightarrow> text_block \<Rightarrow> jsnum list \<Rightarrow> jsnum list" where
  "add_anchor xTolerance block anchors =
     (if findCloseAnchor anchors (bx block) xTolerance = None then insertSorted anchors (bx block) else anchors)"

definition buildColumnAnchors :: "text_block list list \<Rightarrow> jsnum \<Rightarrow> jsnum list" where
  "buildColumnAnchors rows xTolerance = fold (\<lambda>row. fold (add_anchor xTolerance) row) rows []"

fun nearest_loop :: "jsnum \<Rightarrow> nat \<Rightarrow> jsnum \<Rightarrow> nat \<Rightarrow> jsnum list \<Rightarrow> nat" where
  "nearest_loop x bestIdx bestDist i [] = bestIdx"
| "nearest_loop x bestIdx bestDist i (a # as) =
     (if \<bar>a - x\<bar> < bestDist then nearest_loop x i \<bar>a - x\<bar> (Suc i) as else nearest_loop x bestIdx bestDist (Suc i) as)"

definition nearestAnchorIndex :: "jsnum list \<Rightarrow> jsnum \<Rightarrow> nat option" where
  "nearestAnchorIndex anchors x = (case anchors of [] \<Rightarrow> None
     | a # as \<Rightarrow> Some (nearest_loop x 0 \<bar>a - x\<bar> 1 as))"

definition put_cell :: "jsnum list \<Rightarrow> text_block \<Rightarrow> string list \<Rightarrow> string list" where
  "put_cell anchors block cells = (case nearestAnchorIndex anchors (bx block) of
       None \<Rightarrow> cells
     | Some c \<Rightarrow> (let existing = cells ! c in
         cells[c := (if length existing > 0 then existing @ '' '' @ js_trim (tb_content block) else js_trim (tb_content block))]))"

definition compare_blocks :: "jsnum \<Rightarrow> text_block \<Rightarrow> text_block \<Rightarrow> jsnum" where
  "compare_blocks yTolerance a b = (let dy = by' a - by' b in if \<bar>dy\<bar> > yTolerance then dy else bx a - bx b)"

type_synonym array_sort = "(text_block \<Rightarrow> text_block \<Rightarrow> jsnum) \<Rightarrow> text_block list \<Rightarrow> text_block list"

definition sorted_blocks :: "array_sort \<Rightarrow> text_block list \<Rightarrow> jsnum \<Rightarrow> text_block list" where
  "sorted_blocks sort_by blocks yTolerance = sort_by (compare_blocks yTolerance)
     (filter (\<lambda>b. length (js_trim (tb_content b)) > 0) (expandMultilineBlocks blocks))"

definition buildMatrix :: "array_sort \<Rightarrow> text_block list \<Rightarrow> jsnum \<Rightarrow> jsnum \<Rightarrow> string list list" where
  "buildMatrix sort_by blocks yTolerance xTolerance =
     (let sorted = sorted_blocks sort_by blocks yTolerance in
      if length sorted = 0 then []
      else let rows = groupIntoRows sorted yTolerance; anchors = buildColumnAnchors rows xTolerance in
        if length anchors = 0 then []
        else map (\<lambda>row. fold (put_cell anchors) row (replicate (length anchors) [])) rows)"

section \<open>The exports\<close>

record xlsx_options =
  xo_pages :: "int list option"
  xo_yTolerance :: "jsnum option"
  xo_xTolerance :: "jsnum option"
  xo_separateSheets :: "bool option"

record ('b, 'd) xlsx_api =
  xa_toXlsx :: "'d \<Rightarrow> string + 'b"
  xa_gridsToXlsx :: "string list list list \<Rightarrow> string list \<Rightarrow> string + 'b"
  xa_textBlocks :: "'b \<Rightarrow> string + text_block list"
  xa_sort :: array_sort
  xa_dash :: string

definition with_doc :: "('b, 'd) engine \<Rightarrow> (string \<Rightarrow> pdf_error) \<Rightarrow> 'b \<Rightarrow> (nat \<Rightarrow> ('d, 'a) eff) \<Rightarrow> ('d, 'a) eff" where
  "with_doc E wrap bytes f = eff_bind (open_doc E wrap bytes) (\<lambda>k. eff_finally (f k) (close_doc k))"

definition page_blocks_of :: "text_block list \<Rightarrow> int \<Rightarrow> text_block list" where
  "page_blocks_of blocks page = filter (\<lambda>b. tb_page b = page) blocks"

definition page_grid :: "array_sort \<Rightarrow> jsnum \<Rightarrow> jsnum \<Rightarrow> string \<Rightarrow> text_block list \<Rightarrow> string list list" where
  "page_grid sort_by yTolerance xTolerance note pageBlocks =
     (if length pageBlocks = 0 then [[note]] else buildMatrix sort_by pageBlocks yTolerance xTolerance)"

definition sheets :: "array_sort \<Rightarrow> jsnum \<Rightarrow> jsnum \<Rightarrow> text_block list \<Rightarrow> int list \<Rightarrow> string list list list \<times> string list" where
  "sheets sort_by yTolerance xTolerance blocks pages =
     (map (\<lambda>p. page_grid sort_by yTolerance xTolerance (''No text extracted from page '' @ int_str p) (page_blocks_of blocks p)) pages,
      map (\<lambda>p. ''Page '' @ int_str p) pages)"

definition one_sheet :: "array_sort \<Rightarrow> string \<Rightarrow> jsnum \<Rightarrow> jsnum \<Rightarrow> text_block list \<Rightarrow> int list \<Rightarrow> string list list" where
  "one_sheet sort_by dash yTolerance xTolerance blocks pages =
     concat (map (\<lambda>p. page_grid sort_by yTolerance xTolerance
         (dash @ '' Page '' @ int_str p @ '': No text extracted '' @ dash) (page_blocks_of blocks p)
       @ (if p \<noteq> last pages then [[]] else [])) pages)"

definition requested_pages :: "int list option \<Rightarrow> int \<Rightarrow> int list" where
  "requested_pages pages n = (case pages of
       Some ps \<Rightarrow> if length ps > 0 then filter (\<lambda>p. p \<ge> 1 \<and> p \<le> n) ps else [1..n]
     | None \<Rightarrow> [1..n])"

definition tuned :: "xlsx_options option \<Rightarrow> bool" where
  "tuned options = (case options of None \<Rightarrow> False
     | Some o' \<Rightarrow> xo_pages o' \<noteq> None \<or> xo_yTolerance o' \<noteq> None \<or> xo_xTolerance o' \<noteq> None \<or> xo_separateSheets o' \<noteq> None)"

definition or_default :: "'a option \<Rightarrow> 'a \<Rightarrow> 'a" where
  "or_default v d = (case v of None \<Rightarrow> d | Some x \<Rightarrow> x)"

definition convertPdfToXlsx :: "('b, 'd) engine \<Rightarrow> ('b, 'd) xlsx_api \<Rightarrow> 'b \<Rightarrow> xlsx_options option \<Rightarrow> ('d, 'b) eff" where
  "convertPdfToXlsx E X bytes options =
     (if \<not> tuned options then with_doc E Plain_error bytes (\<lambda>k. call_doc k (xa_toXlsx X))
      else let o' = the options; yTol = or_default (xo_yTolerance o') 3; xTol = or_default (xo_xTolerance o') 5 in
        eff_bind (with_doc E Plain_error bytes (\<lambda>k. read_doc k (en_pageCount E))) (\<lambda>n.
        eff_bind (eff_lift Plain_error (xa_textBlocks X bytes)) (\<lambda>blocks.
          let pages = requested_pages (xo_pages o') n in
          eff_lift Plain_error
            (if or_default (xo_separateSheets o') True
             then (case sheets (xa_sort X) yTol xTol blocks pages of (grids, names) \<Rightarrow> xa_gridsToXlsx X grids names)
             else xa_gridsToXlsx X [one_sheet (xa_sort X) (xa_dash X) yTol xTol blocks pages] [''Sheet1'']))))"

text \<open>The text formats: one through the model, one through the document, and the binary ones, whose
  empty result is an error.\<close>

definition PARSE_FAILED :: pdf_error where
  "PARSE_FAILED = Engine_error ''could not parse the source PDF'' ''PDF_PARSE_FAILED''"

definition lowerPdfDoc :: "('b, 'd) engine \<Rightarrow> 'b \<Rightarrow> ('d \<Rightarrow> string + 'a) \<Rightarrow> ('d, 'a) eff" where
  "lowerPdfDoc E bytes lower = with_doc E (\<lambda>msg. PARSE_FAILED) bytes (\<lambda>k. call_doc k lower)"

definition lowerPdfModel :: "('b, 'd) engine \<Rightarrow> ('d \<Rightarrow> string + 'm) \<Rightarrow> 'b \<Rightarrow> ('m \<Rightarrow> string + 'a) \<Rightarrow> ('d, 'a) eff" where
  "lowerPdfModel E toModel bytes lower =
     with_doc E (\<lambda>msg. PARSE_FAILED) bytes (\<lambda>k. eff_bind (call_doc k toModel) (\<lambda>m. eff_lift Plain_error (lower m)))"

definition non_empty :: "string \<Rightarrow> string \<Rightarrow> ('d, 'e list) eff \<Rightarrow> ('d, 'e list) eff" where
  "non_empty message code m = eff_bind m (\<lambda>out.
     if length out = 0 then eff_throw (Engine_error message code) else eff_return out)"

definition exportPdfToEpub :: "('b, 'd) engine \<Rightarrow> ('d \<Rightarrow> string + 'm) \<Rightarrow> ('m \<Rightarrow> string + 'e list) \<Rightarrow> 'b \<Rightarrow> ('d, 'e list) eff" where
  "exportPdfToEpub E toModel modelToEpub bytes =
     non_empty ''could not export PDF to EPUB (empty result)'' ''PDF_EPUB_EXPORT_FAILED'' (lowerPdfModel E toModel bytes modelToEpub)"

definition exportPdfToOds :: "('b, 'd) engine \<Rightarrow> ('d \<Rightarrow> string + 'e list) \<Rightarrow> 'b \<Rightarrow> ('d, 'e list) eff" where
  "exportPdfToOds E toOds bytes =
     non_empty ''could not export PDF to ODS (empty result)'' ''PDF_ODS_EXPORT_FAILED'' (lowerPdfDoc E bytes toOds)"

lemma balanced_with_doc: "(\<And>k. uses_only k (f k)) \<Longrightarrow> balanced (with_doc E wrap bytes f)"
  unfolding with_doc_def by (rule balanced_open)

lemma balanced_lower: "balanced (lowerPdfDoc E bytes lower)" "balanced (lowerPdfModel E toModel bytes lower')"
  unfolding lowerPdfDoc_def lowerPdfModel_def by (intro balanced_with_doc uses_only_bind uses_only_basic)+

lemma balanced_exports:
  "balanced (convertPdfToXlsx E X bytes options)" "balanced (exportPdfToEpub E toModel toEpub bytes)"
  "balanced (exportPdfToOds E toOds bytes)"
  unfolding convertPdfToXlsx_def exportPdfToEpub_def exportPdfToOds_def non_empty_def Let_def
  by (auto intro!: balanced_with_doc balanced_bind balanced_basic uses_only_basic balanced_lower)

section \<open>The grid keeps every block\<close>

definition gapped :: "jsnum \<Rightarrow> jsnum list \<Rightarrow> bool" where
  "gapped tol xs \<longleftrightarrow> sorted_wrt (\<lambda>a b. a + tol < b) xs"

text \<open>The binary search ends at the number of smaller anchors, so the insertion is \<open>insort\<close>.\<close>

lemma anchor_search_place:
  assumes "sorted arr" "lo \<le> hi" "hi \<le> length arr" "\<forall>i<lo. arr ! i < x" "\<forall>i. hi \<le> i \<and> i < length arr \<longrightarrow> x \<le> arr ! i"
  shows "anchor_search arr x lo hi \<le> length arr \<and> (\<forall>i<anchor_search arr x lo hi. arr ! i < x)
    \<and> (\<forall>i. anchor_search arr x lo hi \<le> i \<and> i < length arr \<longrightarrow> x \<le> arr ! i)"
  using assms
proof (induction arr x lo hi rule: anchor_search.induct)
  case (1 arr x lo hi)
  show ?case
  proof (cases "lo < hi")
    case True
    let ?mid = "(lo + hi) div 2"
    have mid: "lo \<le> ?mid" "?mid < hi" using True by auto
    have s: "arr ! i \<le> arr ! j" if "i \<le> j" "j < length arr" for i j
      using that "1.prems"(1) by (simp add: sorted_iff_nth_mono)
    show ?thesis
    proof (cases "arr ! ?mid < x")
      case less: True
      have "\<forall>i<?mid + 1. arr ! i < x"
      proof (intro allI impI)
        fix i assume "i < ?mid + 1"
        then show "arr ! i < x" using s [of i ?mid] less mid "1.prems"(3) by linarith
      qed
      moreover have "anchor_search arr x lo hi = anchor_search arr x (?mid + 1) hi"
        by (subst anchor_search.simps) (simp add: True less Let_def)
      moreover have "?mid + 1 \<le> hi" using mid by simp
      ultimately show ?thesis
        using "1.IH"(1) [OF True refl less "1.prems"(1) _ "1.prems"(3) _ "1.prems"(5)] by simp
    next
      case ge: False
      have "\<forall>i. ?mid \<le> i \<and> i < length arr \<longrightarrow> x \<le> arr ! i"
      proof (intro allI impI)
        fix i assume "?mid \<le> i \<and> i < length arr"
        then show "x \<le> arr ! i" using s [of ?mid i] ge by linarith
      qed
      moreover have "anchor_search arr x lo hi = anchor_search arr x lo ?mid"
        by (subst anchor_search.simps) (simp add: True ge Let_def)
      moreover have "?mid \<le> length arr" using mid "1.prems"(3) by simp
      ultimately show ?thesis
        using "1.IH"(2) [OF True refl ge "1.prems"(1) mid(1) _ "1.prems"(4)] by simp
    qed
  next
    case False
    then show ?thesis using "1.prems" by (simp add: anchor_search.simps)
  qed
qed

lemma gapped_sorted: "0 \<le> tol \<Longrightarrow> gapped tol xs \<Longrightarrow> sorted xs"
  unfolding gapped_def by (erule sorted_wrt_mono_rel [rotated]) simp

lemma insertSorted_gapped:
  assumes "0 \<le> tol" "gapped tol xs" "\<And>a. a \<in> set xs \<Longrightarrow> tol < \<bar>a - x\<bar>"
  shows "gapped tol (insertSorted xs x)" and "set (insertSorted xs x) = insert x (set xs)"
proof -
  let ?p = "anchor_search xs x 0 (length xs)"
  have p: "?p \<le> length xs" "\<And>i. i < ?p \<Longrightarrow> xs ! i < x" "\<And>i. ?p \<le> i \<Longrightarrow> i < length xs \<Longrightarrow> x \<le> xs ! i"
    using anchor_search_place [OF gapped_sorted [OF assms(1,2)], of 0 "length xs" x] by auto
  have lo: "a + tol < x" if a: "a \<in> set (take ?p xs)" for a
  proof -
    obtain i where "i < length (take ?p xs)" "take ?p xs ! i = a" using a by (meson in_set_conv_nth)
    then have "i < ?p" "a = xs ! i" using p(1) by simp_all
    then show ?thesis using p(2) [of i] p(1) assms(3) [of a] by (simp add: abs_if split: if_splits)
  qed
  have hi: "x + tol < a" if a: "a \<in> set (drop ?p xs)" for a
  proof -
    obtain i where "i < length (drop ?p xs)" "drop ?p xs ! i = a" using a by (meson in_set_conv_nth)
    then have "?p + i < length xs" "a = xs ! (?p + i)" using p(1) by simp_all
    then show ?thesis using p(3) [of "?p + i"] assms(3) [of a] by (simp add: abs_if split: if_splits)
  qed
  have "sorted_wrt (\<lambda>a b. a + tol < b) (take ?p xs)" "sorted_wrt (\<lambda>a b. a + tol < b) (drop ?p xs)"
    using assms(2) by (simp_all add: gapped_def sorted_wrt_take sorted_wrt_drop)
  moreover have "a + tol < b" if "a \<in> set (take ?p xs)" "b \<in> set (drop ?p xs)" for a b
    using lo [OF that(1)] hi [OF that(2)] assms(1) by linarith
  ultimately show "gapped tol (insertSorted xs x)"
    using lo hi by (simp add: gapped_def insertSorted_def splice_ins_def sorted_wrt_append)
  show "set (insertSorted xs x) = insert x (set xs)"
    by (simp add: insertSorted_def set_splice_ins)
qed

lemma add_anchor_ok:
  assumes "0 \<le> tol" "gapped tol xs"
  shows "gapped tol (add_anchor tol b xs) \<and> set xs \<subseteq> set (add_anchor tol b xs)
    \<and> (\<exists>a\<in>set (add_anchor tol b xs). \<bar>a - bx b\<bar> \<le> tol)"
proof (cases "findCloseAnchor xs (bx b) tol")
  case None
  then have "\<And>a. a \<in> set xs \<Longrightarrow> tol < \<bar>a - bx b\<bar>"
    by (auto simp: findCloseAnchor_def find_index_None not_le)
  from insertSorted_gapped [OF assms this] show ?thesis
    using assms(1) by (auto simp: add_anchor_def None)
next
  case (Some i)
  then have "\<bar>xs ! i - bx b\<bar> \<le> tol" "xs ! i \<in> set xs"
    by (simp_all add: findCloseAnchor_def find_index_Some)
  then show ?thesis
    using assms by (auto simp: add_anchor_def Some)
qed

lemma anchors_ok:
  assumes "0 \<le> tol"
  shows "gapped tol (buildColumnAnchors rows tol) \<and> (\<forall>row\<in>set rows. \<forall>b\<in>set row. \<exists>a\<in>set (buildColumnAnchors rows tol). \<bar>a - bx b\<bar> \<le> tol)"
proof -
  have row: "gapped tol xs \<Longrightarrow> gapped tol (fold (add_anchor tol) bs xs) \<and> set xs \<subseteq> set (fold (add_anchor tol) bs xs)
      \<and> (\<forall>b\<in>set bs. \<exists>a\<in>set (fold (add_anchor tol) bs xs). \<bar>a - bx b\<bar> \<le> tol)" for bs xs
  proof (induction bs arbitrary: xs)
    case (Cons b bs)
    show ?case
      using add_anchor_ok [OF assms Cons.prems, of b] Cons.IH [of "add_anchor tol b xs"] by auto
  qed simp
  have "gapped tol xs \<Longrightarrow> gapped tol (fold (\<lambda>r. fold (add_anchor tol) r) rows xs)
      \<and> set xs \<subseteq> set (fold (\<lambda>r. fold (add_anchor tol) r) rows xs)
      \<and> (\<forall>row\<in>set rows. \<forall>b\<in>set row. \<exists>a\<in>set (fold (\<lambda>r. fold (add_anchor tol) r) rows xs). \<bar>a - bx b\<bar> \<le> tol)" for xs
  proof (induction rows arbitrary: xs)
    case (Cons r rows)
    show ?case
      using row [OF Cons.prems, of r] Cons.IH [of "fold (add_anchor tol) r xs"] by auto blast
  qed simp
  from this [of "[]"] show ?thesis
    by (simp add: buildColumnAnchors_def gapped_def)
qed

lemma nearest_ok:
  assumes "nearestAnchorIndex anchors x = Some c"
  shows "c < length anchors \<and> (\<forall>a\<in>set anchors. \<bar>anchors ! c - x\<bar> \<le> \<bar>a - x\<bar>)"
proof -
  have loop: "best < i \<Longrightarrow> length pre = i \<Longrightarrow> \<bar>(pre @ as) ! best - x\<bar> = d \<Longrightarrow> \<forall>a\<in>set pre. d \<le> \<bar>a - x\<bar> \<Longrightarrow>
      nearest_loop x best d i as < length (pre @ as)
      \<and> (\<forall>a\<in>set (pre @ as). \<bar>(pre @ as) ! nearest_loop x best d i as - x\<bar> \<le> \<bar>a - x\<bar>)" for best d i pre as
  proof (induction x best d i as arbitrary: pre rule: nearest_loop.induct)
    case (2 x best d i a as)
    have e: "pre @ a # as = (pre @ [a]) @ as" by simp
    show ?case
    proof (cases "\<bar>a - x\<bar> < d")
      case True
      have "\<bar>((pre @ [a]) @ as) ! i - x\<bar> = \<bar>a - x\<bar>" using 2(4) by (auto simp: nth_append)
      moreover have "\<forall>y\<in>set (pre @ [a]). \<bar>a - x\<bar> \<le> \<bar>y - x\<bar>" using 2(6) True by auto
      ultimately show ?thesis
        using 2(1) [OF True, of "pre @ [a]"] 2(4) True unfolding e by simp
    next
      case False
      then show ?thesis
        using 2(2) [OF False, of "pre @ [a]"] 2(3-6) unfolding e by auto
    qed
  qed auto
  obtain a as where "anchors = a # as" "c = nearest_loop x 0 \<bar>a - x\<bar> 1 as"
    using assms by (cases anchors) (auto simp: nearestAnchorIndex_def)
  then show ?thesis using loop [of 0 1 "[a]" as "\<bar>a - x\<bar>"] by simp
qed

lemma rows_loop_ok:
  assumes "cur \<noteq> []" "y = by' (hd cur)" "\<forall>b\<in>set cur. \<bar>by' b - y\<bar> \<le> tol"
  shows "concat (rows_loop tol cur y bs) = cur @ bs
    \<and> (\<forall>r\<in>set (rows_loop tol cur y bs). r \<noteq> [] \<and> (\<forall>b\<in>set r. \<bar>by' b - by' (hd r)\<bar> \<le> tol))"
  using assms
proof (induction tol cur y bs rule: rows_loop.induct)
  case (2 tol cur y b bs)
  show ?case
  proof (cases "\<bar>by' b - y\<bar> \<le> tol")
    case True
    have "y = by' (hd (cur @ [b]))" "\<forall>c\<in>set (cur @ [b]). \<bar>by' c - y\<bar> \<le> tol"
      using 2(3-5) True by auto
    from 2(1) [OF True _ this] show ?thesis by (simp only: rows_loop.simps True if_True) auto
  next
    case False
    obtain c where "c \<in> set cur" using 2(3) by (meson ex_in_conv set_empty)
    then have "0 \<le> tol" using 2(5) by (meson abs_ge_zero order_trans)
    then have "concat (rows_loop tol [b] (by' b) bs) = [b] @ bs"
      "\<forall>r\<in>set (rows_loop tol [b] (by' b) bs). r \<noteq> [] \<and> (\<forall>b\<in>set r. \<bar>by' b - by' (hd r)\<bar> \<le> tol)"
      using 2(2) [OF False] by simp_all
    moreover have "rows_loop tol cur y (b # bs) = cur # rows_loop tol [b] (by' b) bs" using False by simp
    ultimately show ?thesis using 2(3) 2(5) [unfolded 2(4)] by (simp only: concat.simps) auto
  qed
qed auto

lemma groupIntoRows_ok:
  assumes "0 \<le> tol"
  shows "concat (groupIntoRows bs tol) = bs
    \<and> (\<forall>r\<in>set (groupIntoRows bs tol). r \<noteq> [] \<and> (\<forall>b\<in>set r. \<bar>by' b - by' (hd r)\<bar> \<le> tol))"
  using rows_loop_ok [of "[hd bs]" "by' (hd bs)" tol "tl bs"] assms by (cases bs) (auto simp: groupIntoRows_def)

lemma js_join_snoc: "js_join sep (xs @ [x]) = (if xs = [] then x else js_join sep xs @ sep @ x)"
  by (induction sep xs rule: js_join.induct) auto

definition cell_text :: "jsnum list \<Rightarrow> text_block list \<Rightarrow> nat \<Rightarrow> string" where
  "cell_text anchors row c = js_join '' '' (map (\<lambda>b. js_trim (tb_content b))
     (filter (\<lambda>b. nearestAnchorIndex anchors (bx b) = Some c) row))"

lemma fold_put_cell:
  assumes "\<forall>b\<in>set row. js_trim (tb_content b) \<noteq> []" "anchors \<noteq> []"
  shows "fold (put_cell anchors) row (replicate (length anchors) []) = map (cell_text anchors row) [0..<length anchors]"
  using assms(1)
proof (induction row rule: rev_induct)
  case Nil
  show ?case by (simp add: cell_text_def map_replicate_const)
next
  case (snoc b row)
  obtain c where c: "nearestAnchorIndex anchors (bx b) = Some c"
    using assms(2) by (cases anchors) (auto simp: nearestAnchorIndex_def)
  then have len: "c < length anchors" using nearest_ok by blast
  have empty: "cell_text anchors row c = [] \<longleftrightarrow> filter (\<lambda>b. nearestAnchorIndex anchors (bx b) = Some c) row = []"
  proof (cases "filter (\<lambda>b. nearestAnchorIndex anchors (bx b) = Some c) row" rule: rev_cases)
    case (snoc bs b')
    then have "b' \<in> set row" by (metis in_set_conv_decomp filter_is_subset subsetD)
    then show ?thesis using snoc snoc.prems by (simp add: cell_text_def js_join_snoc)
  qed (simp add: cell_text_def)
  have "fold (put_cell anchors) (row @ [b]) (replicate (length anchors) [])
      = put_cell anchors b (map (cell_text anchors row) [0..<length anchors])"
    using snoc by simp
  also have "\<dots> = map (cell_text anchors (row @ [b])) [0..<length anchors]"
    using len empty by (intro nth_equalityI) (auto simp: put_cell_def c nth_list_update cell_text_def js_join_snoc)
  finally show ?case .
qed


definition demo_block :: "string \<Rightarrow> jsnum \<Rightarrow> jsnum \<Rightarrow> text_block" where
  "demo_block s x y = \<lparr>tb_id = ''t'', tb_page = 1, tb_content = s,
     tb_bounds = \<lparr>b_x = x, b_y = y, b_width = 50, b_height = 12\<rparr>, tb_style = []\<rparr>"

definition demo_xlsx :: "(list_doc, list_doc) xlsx_api" where
  "demo_xlsx = \<lparr>xa_toXlsx = Inr, xa_gridsToXlsx = (\<lambda>gs ns. Inl []), xa_textBlocks = (\<lambda>b. Inr []),
     xa_sort = insertion_sort, xa_dash = ''-''\<rparr>"

definition demo_blocks :: "text_block list" where
  "demo_blocks = [demo_block ''Total'' 12 40, demo_block ''7\<newline>8'' 100 11, demo_block ''Name'' 10 10, demo_block '' '' 300 9,
     demo_block ''full'' 14 12]"


end
