(* ===== verification/Block_Extractor.thy ===== *)
theory Block_Extractor
  imports Pdf_Routes Elements
begin

text \<open>
  The structure of a page for block editing: \<open>parse/block-extractor.ts\<close> and
  \<open>apps/web/src/lib/pdf-block-groups.ts\<close>. The blocks of the engine are untyped values that the code
  reads defensively, so they are \<open>json\<close> here; a property of \<open>null\<close> is a \<open>TypeError\<close>, which is the
  left of a sum where the code can meet one. Numbers in blocks are finite. Two of the kinds of a group
  carry data the editor reads; the bullet of a list without a marker is an argument.
\<close>

section \<open>Reading a block\<close>

text \<open>A property of a value that is not \<open>null\<close>.\<close>

fun jprop :: "json \<Rightarrow> string \<Rightarrow> json option" where
  "jprop (J_obj fs) name = map_of fs name"
| "jprop _ name = None"

fun jprop_of :: "json option \<Rightarrow> string \<Rightarrow> json option" where
  "jprop_of None name = None"
| "jprop_of (Some j) name = jprop j name"

fun is_object :: "json option \<Rightarrow> bool" where
  "is_object (Some (J_obj fs)) = True"
| "is_object (Some (J_arr xs)) = True"
| "is_object _ = False"

fun number_of :: "json option \<Rightarrow> jsnum option" where
  "number_of (Some (J_num n)) = n"
| "number_of _ = None"

fun array_of :: "json option \<Rightarrow> json list option" where
  "array_of (Some (J_arr xs)) = Some xs"
| "array_of _ = None"

definition is_str :: "json option \<Rightarrow> string \<Rightarrow> bool" where
  "is_str j s \<longleftrightarrow> j = Some (J_str s)"

definition block_v :: "json \<Rightarrow> json option" where
  "block_v block = jprop_of (jprop block ''kind'') ''v''"

definition block_t :: "json \<Rightarrow> json option" where
  "block_t block = jprop_of (jprop block ''kind'') ''t''"

definition paragraphBody :: "json \<Rightarrow> json option" where
  "paragraphBody block = (let v = block_v block in
     if \<not> is_object v then None
     else if is_str (block_t block) ''heading'' \<and> is_object (jprop_of v ''para'') then jprop_of v ''para'' else v)"

definition blockRuns :: "json \<Rightarrow> json list" where
  "blockRuns block = (case array_of (jprop_of (paragraphBody block) ''runs'') of None \<Rightarrow> [] | Some runs \<Rightarrow> runs)"

definition source_number :: "json option \<Rightarrow> jsnum list" where
  "source_number j = (case number_of j of Some n \<Rightarrow> if n \<ge> 0 then [n] else [] | None \<Rightarrow> [])"

definition inlineRunIndices :: "json \<Rightarrow> jsnum list" where
  "inlineRunIndices inline =
     (if \<not> is_object (Some inline) \<or> \<not> is_str (jprop inline ''t'') ''run'' then []
      else let body = (if is_object (jprop inline ''v'') then the (jprop inline ''v'') else inline);
               multi = (case array_of (jprop body ''source_indices'') of
                   Some xs \<Rightarrow> concat (map (\<lambda>x. source_number (Some x)) xs) | None \<Rightarrow> [])
        in if length multi > 0 then multi else source_number (jprop body ''source_index''))"

section \<open>Lines and style of a paragraph\<close>

definition close_line :: "jsnum list list \<Rightarrow> jsnum list \<Rightarrow> jsnum list list" where
  "close_line ls current = (if length current > 0 then ls @ [current] else ls)"

fun line_step :: "json \<Rightarrow> jsnum list list \<times> jsnum list \<times> jsnum list \<Rightarrow> jsnum list list \<times> jsnum list \<times> jsnum list" where
  "line_step inline (ls, flat, current) =
     (if \<not> is_object (Some inline) then (ls, flat, current)
      else if is_str (jprop inline ''t'') ''br'' then (close_line ls current, flat, [])
      else if is_str (jprop inline ''t'') ''run''
      then (ls, flat @ inlineRunIndices inline, current @ inlineRunIndices inline)
      else if is_str (jprop inline ''t'') ''link''
      then (case array_of (jprop inline ''children'') of
          None \<Rightarrow> (ls, flat, current)
        | Some children \<Rightarrow> let is = concat (map inlineRunIndices children) in (ls, flat @ is, current @ is))
      else (ls, flat, current))"

definition paragraphLines :: "json \<Rightarrow> jsnum list list \<times> jsnum list" where
  "paragraphLines block = (case fold line_step (blockRuns block) ([], [], []) of
     (ls, flat, current) \<Rightarrow> (close_line ls current, flat))"

record group_style =
  gs_align :: "text_align option"
  gs_lineHeightMultiple :: "jsnum option"
  gs_frame :: "bounds option"
  gs_firstLineIndentPt :: "jsnum option"
  gs_indentLeftPt :: "jsnum option"
  gs_spaceBeforePt :: "jsnum option"
  gs_spaceAfterPt :: "jsnum option"
  gs_softBreaks :: "bool list option"
  gs_direction :: "string option"

definition align_of :: "json option \<Rightarrow> text_align option" where
  "align_of j = (if is_str j ''left'' then Some Align_Left else if is_str j ''center'' then Some Align_Center
     else if is_str j ''right'' then Some Align_Right else if is_str j ''justify'' then Some Align_Justify else None)"

definition non_zero :: "json option \<Rightarrow> jsnum option" where
  "non_zero j = (case number_of j of Some n \<Rightarrow> if n \<noteq> 0 then Some n else None | None \<Rightarrow> None)"

fun bools_of :: "json list \<Rightarrow> bool list option" where
  "bools_of [] = Some []"
| "bools_of (J_bool b # xs) = map_option (Cons b) (bools_of xs)"
| "bools_of (_ # xs) = None"

definition soft_breaks :: "json option \<Rightarrow> bool list option" where
  "soft_breaks j = (case array_of j of Some xs \<Rightarrow> if length xs > 0 then bools_of xs else None | None \<Rightarrow> None)"

definition line_height_multiple :: "json option \<Rightarrow> jsnum option" where
  "line_height_multiple lh = (if is_str (jprop_of lh ''t'') ''multiple''
     then (case number_of (jprop_of lh ''v'') of Some n \<Rightarrow> if n > 0 then Some n else None | None \<Rightarrow> None) else None)"

definition frame_of :: "json option \<Rightarrow> bounds option" where
  "frame_of frame = (case (number_of (jprop_of frame ''x''), number_of (jprop_of frame ''y''),
        number_of (jprop_of frame ''w''), number_of (jprop_of frame ''h'')) of
       (Some x, Some y, Some w, Some h) \<Rightarrow>
         if w > 0 \<and> h > 0 then Some \<lparr>b_x = x, b_y = y, b_width = w, b_height = h\<rparr> else None
     | _ \<Rightarrow> None)"

definition paragraphGroupStyle :: "json \<Rightarrow> group_style" where
  "paragraphGroupStyle block =
     (let s = jprop_of (paragraphBody block) ''style''; style = (if is_object s then s else None) in
      \<lparr>gs_align = align_of (jprop_of style ''align''),
       gs_lineHeightMultiple = line_height_multiple (jprop_of style ''line_height''),
       gs_frame = frame_of (jprop block ''frame''),
       gs_firstLineIndentPt = non_zero (jprop_of style ''first_line_pt''),
       gs_indentLeftPt = non_zero (jprop_of style ''indent_left_pt''),
       gs_spaceBeforePt = non_zero (jprop_of style ''space_before_pt''),
       gs_spaceAfterPt = non_zero (jprop_of style ''space_after_pt''),
       gs_softBreaks = soft_breaks (jprop_of style ''soft_breaks''),
       gs_direction = (if is_str (jprop_of style ''direction'') ''rtl'' then Some ''rtl''
         else if is_str (jprop_of style ''direction'') ''ltr'' then Some ''ltr'' else None)\<rparr>)"

section \<open>Tables and lists\<close>

definition nestedBlockRuns :: "json \<Rightarrow> json list" where
  "nestedBlockRuns block =
     (if \<not> is_object (block_v block) then []
      else let body = (if is_str (block_t block) ''heading'' then jprop_of (block_v block) ''para'' else block_v block)
        in (case array_of (jprop_of body ''runs'') of None \<Rightarrow> [] | Some runs \<Rightarrow> runs))"

definition nestedSourceIndices :: "json option \<Rightarrow> jsnum list" where
  "nestedSourceIndices blocks = (case array_of blocks of None \<Rightarrow> []
     | Some bs \<Rightarrow> concat (map (\<lambda>b. concat (map inlineRunIndices (nestedBlockRuns b))) bs))"

record table_cell =
  tc_row :: nat
  tc_col :: jsnum
  tc_colSpan :: jsnum
  tc_rowSpan :: jsnum
  tc_sourceIndices :: "jsnum list"

record block_table =
  bt_rowCount :: nat
  bt_colCount :: jsnum
  bt_colWidths :: "jsnum list"
  bt_rowHeights :: "jsnum list"
  bt_cells :: "table_cell list"

record list_item =
  bi_level :: jsnum
  bi_sourceIndices :: "jsnum list"

record block_list =
  bl_ordered :: bool
  bl_marker :: string
  bl_items :: "list_item list"

definition cell_span :: "json option \<Rightarrow> jsnum" where
  "cell_span j = (case number_of j of Some n \<Rightarrow> if n \<ge> 1 then n else 1 | None \<Rightarrow> 1)"

definition number_or_0 :: "json option \<Rightarrow> jsnum" where
  "number_or_0 j = (case number_of j of Some n \<Rightarrow> n | None \<Rightarrow> 0)"

fun cells_of_row :: "nat \<Rightarrow> jsnum \<Rightarrow> json list \<Rightarrow> string + table_cell list \<times> jsnum" where
  "cells_of_row rowIndex col [] = Inr ([], col)"
| "cells_of_row rowIndex col (cell # rest) =
     (if cell = J_null then Inl ''TypeError''
      else let colSpan = cell_span (jprop cell ''col_span'') in
        case cells_of_row rowIndex (col + colSpan) rest of
          Inl e \<Rightarrow> Inl e
        | Inr (cells, end_col) \<Rightarrow>
            Inr (\<lparr>tc_row = rowIndex, tc_col = col, tc_colSpan = colSpan, tc_rowSpan = cell_span (jprop cell ''row_span''),
              tc_sourceIndices = nestedSourceIndices (jprop cell ''blocks'')\<rparr> # cells, end_col))"

fun table_rows :: "nat \<Rightarrow> jsnum \<Rightarrow> json list \<Rightarrow> string + table_cell list \<times> jsnum list \<times> jsnum" where
  "table_rows rowIndex colCount [] = Inr ([], [], colCount)"
| "table_rows rowIndex colCount (row # rest) =
     (case cells_of_row rowIndex 0 (case array_of (jprop row ''cells'') of None \<Rightarrow> [] | Some cs \<Rightarrow> cs) of
        Inl e \<Rightarrow> Inl e
      | Inr (cells, col) \<Rightarrow> (case table_rows (Suc rowIndex) (max colCount col) rest of
            Inl e \<Rightarrow> Inl e
          | Inr (cells2, heights, n) \<Rightarrow> Inr (cells @ cells2, number_or_0 (jprop row ''height'') # heights, n)))"

definition tableStructure :: "json \<Rightarrow> string + block_table option" where
  "tableStructure block = (let v = block_v block in case array_of (jprop_of v ''rows'') of
       None \<Rightarrow> Inr None
     | Some rows \<Rightarrow>
         let colWidths = (case array_of (jprop_of v ''col_widths'') of
               Some ws \<Rightarrow> map (\<lambda>w. number_or_0 (Some w)) ws | None \<Rightarrow> []) in
         case table_rows 0 (of_nat (length colWidths)) rows of
           Inl e \<Rightarrow> Inl e
         | Inr (cells, rowHeights, colCount) \<Rightarrow>
             Inr (Some \<lparr>bt_rowCount = length rows, bt_colCount = colCount, bt_colWidths = colWidths,
               bt_rowHeights = rowHeights, bt_cells = cells\<rparr>))"

definition listStructure :: "string \<Rightarrow> json \<Rightarrow> block_list option" where
  "listStructure bullet block = (let v = block_v block in case array_of (jprop_of v ''items'') of
       None \<Rightarrow> None
     | Some items \<Rightarrow> Some
         \<lparr>bl_ordered = (jprop_of v ''ordered'' = Some (J_bool True)),
          bl_marker = (case jprop_of (jprop_of v ''marker'') ''v'' of Some (J_str s) \<Rightarrow> s | _ \<Rightarrow> bullet),
          bl_items = map (\<lambda>item. \<lparr>bi_level = number_or_0 (jprop item ''level''),
            bi_sourceIndices = nestedSourceIndices (jprop item ''blocks'')\<rparr>) items\<rparr>)"

definition tableResolvableRunCount :: "block_table \<Rightarrow> nat" where
  "tableResolvableRunCount t = sum_list (map (\<lambda>c. length (tc_sourceIndices c)) (bt_cells t))"

definition listResolvableRunCount :: "block_list \<Rightarrow> nat" where
  "listResolvableRunCount l = sum_list (map (\<lambda>i. length (bi_sourceIndices i)) (bl_items l))"

section \<open>The groups of a page and of a document\<close>

datatype block_group =
    Text_group (bg_heading: bool) (bg_sourceIndices: "jsnum list") (bg_lines: "jsnum list list option") (bg_style: group_style)
  | Table_group block_table
  | List_group block_list
  | Other_group

definition block_group_of :: "string \<Rightarrow> json \<Rightarrow> string + block_group option" where
  "block_group_of bullet block =
     (if block = J_null then Inl ''TypeError''
      else let kind = block_t block in
        if is_str kind ''paragraph'' \<or> is_str kind ''heading''
        then (case paragraphLines block of (ls, sourceIndices) \<Rightarrow>
          Inr (if length sourceIndices < 2 then None
               else Some (Text_group (is_str kind ''heading'') sourceIndices (Some ls) (paragraphGroupStyle block))))
        else if is_str kind ''table''
        then (case tableStructure block of
            Inl e \<Rightarrow> Inl e
          | Inr None \<Rightarrow> Inr None
          | Inr (Some t) \<Rightarrow> Inr (if tableResolvableRunCount t = 0 then None else Some (Table_group t)))
        else if is_str kind ''list''
        then Inr (case listStructure bullet block of
            None \<Rightarrow> None
          | Some l \<Rightarrow> if listResolvableRunCount l = 0 then None else Some (List_group l))
        else Inr None)"

fun gigaBlocksToPageBlockGroups :: "string \<Rightarrow> json list \<Rightarrow> string + block_group list" where
  "gigaBlocksToPageBlockGroups bullet [] = Inr []"
| "gigaBlocksToPageBlockGroups bullet (block # rest) = (case block_group_of bullet block of
       Inl e \<Rightarrow> Inl e
     | Inr g \<Rightarrow> (case gigaBlocksToPageBlockGroups bullet rest of
          Inl e \<Rightarrow> Inl e
        | Inr gs \<Rightarrow> Inr ((case g of None \<Rightarrow> [] | Some g \<Rightarrow> [g]) @ gs)))"

type_synonym 'd block_reader = "int \<Rightarrow> 'd \<Rightarrow> string + json list"

text \<open>The map is filled page by page; an exception ends the loop and leaves the map as it is then.\<close>

fun group_pages_loop ::
  "'d block_reader \<Rightarrow> string \<Rightarrow> nat \<Rightarrow> (int, block_group list) jsmap \<Rightarrow> int list \<Rightarrow> ('d, (int, block_group list) jsmap) eff" where
  "group_pages_loop pageBlocks bullet k byPage [] = eff_return byPage"
| "group_pages_loop pageBlocks bullet k byPage (pageNumber # rest) =
     eff_bind (eff_try (eff_bind (call_doc k (pageBlocks pageNumber)) (\<lambda>blocks.
         eff_bind (eff_lift Plain_error (gigaBlocksToPageBlockGroups bullet blocks)) (\<lambda>groups. eff_return (Some groups))))
       (\<lambda>_. eff_return None)) (\<lambda>r. case r of
         None \<Rightarrow> eff_return byPage
       | Some groups \<Rightarrow> group_pages_loop pageBlocks bullet k
           (if length groups > 0 then AList.update pageNumber groups byPage else byPage) rest)"

definition extractPageBlockGroupsByPage ::
  "('b, 'd) engine \<Rightarrow> 'd block_reader \<Rightarrow> string \<Rightarrow> 'b \<Rightarrow> ('d, (int, block_group list) jsmap) eff" where
  "extractPageBlockGroupsByPage E pageBlocks bullet bytes =
     eff_try (eff_bind (open_doc E Plain_error bytes) (\<lambda>k. eff_finally
         (eff_bind (read_doc k (en_pageCount E)) (\<lambda>n. group_pages_loop pageBlocks bullet k [] [1..n]))
         (close_doc k)))
       (\<lambda>_. eff_return [])"

definition extractPageBlockGroups ::
  "('b, 'd) engine \<Rightarrow> 'd block_reader \<Rightarrow> string \<Rightarrow> 'b \<Rightarrow> int \<Rightarrow> ('d, block_group list) eff" where
  "extractPageBlockGroups E pageBlocks bullet bytes pageNumber =
     eff_bind (extractPageBlockGroupsByPage E pageBlocks bullet bytes) (\<lambda>m.
       eff_return (case map_get m pageNumber of None \<Rightarrow> [] | Some gs \<Rightarrow> gs))"

text \<open>What the routes attach to the parsed pages: a page is its number and its groups.\<close>

definition attachPageBlockGroups ::
  "(int, block_group list) jsmap \<Rightarrow> (int \<times> block_group list option) list \<Rightarrow> (int \<times> block_group list option) list" where
  "attachPageBlockGroups m pages =
     (if length m = 0 then pages
      else map (\<lambda>(n, old). case map_get m n of
        Some groups \<Rightarrow> if length groups > 0 then (n, Some groups) else (n, old) | None \<Rightarrow> (n, old)) pages)"

section \<open>What the groups promise\<close>

definition lines_ok :: "jsnum list list \<Rightarrow> jsnum list \<Rightarrow> bool" where
  "lines_ok ls flat \<longleftrightarrow> concat ls = flat \<and> [] \<notin> set ls"

lemma line_steps:
  "fold line_step runs (ls, flat, current) = (ls', flat', current') \<Longrightarrow>
   [] \<notin> set ls \<Longrightarrow> concat ls @ current = flat \<Longrightarrow> [] \<notin> set ls' \<and> concat ls' @ current' = flat'"
proof (induction runs arbitrary: ls flat current)
  case (Cons r runs)
  obtain ls1 flat1 current1 where s: "line_step r (ls, flat, current) = (ls1, flat1, current1)"
    by (cases "line_step r (ls, flat, current)")
  then have "[] \<notin> set ls1 \<and> concat ls1 @ current1 = flat1"
    using Cons.prems(2,3) by (auto simp: close_line_def Let_def split: if_splits option.splits)
  then show ?case using Cons.IH [of ls1 flat1 current1] Cons.prems(1) s by simp
qed simp

lemma paragraphLines_ok: "lines_ok (fst (paragraphLines block)) (snd (paragraphLines block))"
proof -
  obtain ls flat current where f: "fold line_step (blockRuns block) ([], [], []) = (ls, flat, current)"
    by (cases "fold line_step (blockRuns block) ([], [], [])")
  show ?thesis
    using line_steps [OF f] by (auto simp: paragraphLines_def f lines_ok_def close_line_def)
qed

lemma cell_span_ge [simp]: "1 \<le> cell_span j"
  by (auto simp: cell_span_def split: option.splits)

text \<open>The cells of a row follow one another without a gap, from column 0 to its end.\<close>

fun cells_from :: "nat \<Rightarrow> jsnum \<Rightarrow> table_cell list \<Rightarrow> jsnum \<Rightarrow> bool" where
  "cells_from r c [] e \<longleftrightarrow> c = e"
| "cells_from r c (x # xs) e \<longleftrightarrow> tc_row x = r \<and> tc_col x = c \<and> tc_colSpan x \<ge> 1 \<and> tc_rowSpan x \<ge> 1
     \<and> cells_from r (c + tc_colSpan x) xs e"

lemma cells_of_row_ok: "cells_of_row r c cells = Inr (cs, e) \<Longrightarrow> cells_from r c cs e"
  by (induction r c cells arbitrary: cs e rule: cells_of_row.induct) (auto simp: Let_def split: if_splits sum.splits)

lemma cells_from_le: "cells_from r c cs e \<Longrightarrow> c \<le> e"
  by (induction r c cs e rule: cells_from.induct) auto

lemma cells_from_in:
  "cells_from r c cs e \<Longrightarrow> x \<in> set cs \<Longrightarrow> tc_row x = r \<and> c \<le> tc_col x \<and> tc_col x + tc_colSpan x \<le> e"
  by (induction r c cs e rule: cells_from.induct) (auto dest: cells_from_le)

definition in_grid :: "nat \<Rightarrow> nat \<Rightarrow> jsnum \<Rightarrow> table_cell \<Rightarrow> bool" where
  "in_grid lo hi n x \<longleftrightarrow> lo \<le> tc_row x \<and> tc_row x < hi \<and> 0 \<le> tc_col x \<and> tc_col x + tc_colSpan x \<le> n"

lemma table_rows_ok:
  "table_rows r n rows = Inr (cells, heights, n') \<Longrightarrow>
   length heights = length rows \<and> n \<le> n' \<and> (\<forall>x\<in>set cells. in_grid r (r + length rows) n' x)"
proof (induction r n rows arbitrary: cells heights n' rule: table_rows.induct)
  case (2 r n row rest)
  obtain cs col where c: "cells_of_row r 0 (case array_of (jprop row ''cells'') of None \<Rightarrow> [] | Some cs \<Rightarrow> cs) = Inr (cs, col)"
    using 2(2) by (cases "cells_of_row r 0 (case array_of (jprop row ''cells'') of None \<Rightarrow> [] | Some cs \<Rightarrow> cs)") auto
  obtain cells2 hs where t: "table_rows (Suc r) (max n col) rest = Inr (cells2, hs, n')" "cells = cs @ cells2"
      "heights = number_or_0 (jprop row ''height'') # hs"
    using 2(2) c by (cases "table_rows (Suc r) (max n col) rest") auto
  have ih: "length hs = length rest \<and> max n col \<le> n' \<and> (\<forall>x\<in>set cells2. in_grid (Suc r) (Suc r + length rest) n' x)"
    by (rule 2(1) [OF c refl t(1)])
  have "in_grid r (r + length (row # rest)) n' x" if "x \<in> set cs" for x
    using cells_from_in [OF cells_of_row_ok [OF c] that] ih by (auto simp: in_grid_def)
  moreover have "in_grid r (r + length (row # rest)) n' x" if "x \<in> set cells2" for x
    using ih that by (auto simp: in_grid_def)
  ultimately show ?case using ih t by auto
qed simp

definition group_ok :: "block_group \<Rightarrow> bool" where
  "group_ok g = (case g of
       Text_group h is ls s \<Rightarrow> 2 \<le> length is \<and> (case ls of None \<Rightarrow> True | Some ls \<Rightarrow> lines_ok ls is)
     | Table_group t \<Rightarrow> length (bt_rowHeights t) = bt_rowCount t \<and> of_nat (length (bt_colWidths t)) \<le> bt_colCount t
         \<and> list_all (in_grid 0 (bt_rowCount t) (bt_colCount t)) (bt_cells t)
         \<and> list_ex (\<lambda>c. tc_sourceIndices c \<noteq> []) (bt_cells t)
     | List_group l \<Rightarrow> list_ex (\<lambda>i. bi_sourceIndices i \<noteq> []) (bl_items l)
     | Other_group \<Rightarrow> False)"

lemma tableStructure_ok:
  assumes "tableStructure block = Inr (Some t)"
  shows "length (bt_rowHeights t) = bt_rowCount t \<and> of_nat (length (bt_colWidths t)) \<le> bt_colCount t
    \<and> list_all (in_grid 0 (bt_rowCount t) (bt_colCount t)) (bt_cells t)"
proof -
  obtain rows where rows: "array_of (jprop_of (block_v block) ''rows'') = Some rows"
    using assms by (auto simp: tableStructure_def Let_def split: option.splits)
  define ws where "ws = (case array_of (jprop_of (block_v block) ''col_widths'') of
      Some ws \<Rightarrow> map (\<lambda>w. number_or_0 (Some w)) ws | None \<Rightarrow> [])"
  obtain cells hs n where t: "table_rows 0 (of_nat (length ws)) rows = Inr (cells, hs, n)"
    and "t = \<lparr>bt_rowCount = length rows, bt_colCount = n, bt_colWidths = ws, bt_rowHeights = hs, bt_cells = cells\<rparr>"
    using assms by (auto simp: tableStructure_def Let_def rows ws_def [symmetric] split: sum.splits)
  then show ?thesis using table_rows_ok [OF t] by (simp add: list_all_iff)
qed

lemma block_group_ok: "block_group_of bullet block = Inr (Some g) \<Longrightarrow> group_ok g"
proof -
  assume a: "block_group_of bullet block = Inr (Some g)"
  have p: "paragraphLines block = (ls, is) \<Longrightarrow> lines_ok ls is" for ls "is"
    using paragraphLines_ok [of block] by simp
  show ?thesis
    using a unfolding block_group_of_def Let_def
    by (auto simp: group_ok_def tableResolvableRunCount_def listResolvableRunCount_def list_ex_iff
        dest: p dest!: tableStructure_ok split: if_splits prod.splits sum.splits option.splits)
qed

lemma giga_groups_ok: "gigaBlocksToPageBlockGroups bullet blocks = Inr gs \<Longrightarrow> list_all group_ok gs"
  by (induction bullet blocks arbitrary: gs rule: gigaBlocksToPageBlockGroups.induct)
    (auto dest: block_group_ok split: sum.splits option.splits)


lemma uses_only_try:
  fixes m :: "('d, 'a) eff" and h :: "pdf_error \<Rightarrow> ('d, 'a) eff"
  assumes "uses_only k m" "\<And>e. uses_only k (h e)"
  shows "uses_only k (eff_try m h)"
  unfolding uses_only_def Let_def
proof (intro allI impI)
  fix w :: "'d world" assume w: "world_ok w" "map_has (wd_docs w) k"
  obtain r w1 where m: "m w = (r, w1)" by fastforce
  then have 1: "world_ok w1" "map_has (wd_docs w1) k" "wd_trapped w1 = wd_trapped w"
    "AList.delete k (wd_docs w1) = AList.delete k (wd_docs w)"
    using assms(1) w by (auto simp: uses_only_def Let_def dest!: spec [of _ w])
  then show "world_ok (snd (eff_try m h w)) \<and> map_has (wd_docs (snd (eff_try m h w))) k
    \<and> wd_trapped (snd (eff_try m h w)) = wd_trapped w
    \<and> AList.delete k (wd_docs (snd (eff_try m h w))) = AList.delete k (wd_docs w)"
    using m assms(2) by (cases r) (auto simp: eff_try_def uses_only_def Let_def dest!: spec [of _ w1])
qed

lemma balanced_try:
  fixes m :: "('d, 'a) eff" and h :: "pdf_error \<Rightarrow> ('d, 'a) eff"
  assumes "balanced m" "\<And>e. balanced (h e)"
  shows "balanced (eff_try m h)"
  unfolding balanced_def Let_def
proof (intro allI impI)
  fix w :: "'d world" assume w: "world_ok w"
  obtain r w1 where m: "m w = (r, w1)" by fastforce
  then have 1: "world_ok w1" "wd_trapped w1 = wd_trapped w" "wd_docs w1 = wd_docs w"
    using assms(1) w by (auto simp: balanced_def Let_def dest!: spec [of _ w])
  then show "world_ok (snd (eff_try m h w)) \<and> wd_trapped (snd (eff_try m h w)) = wd_trapped w
    \<and> wd_docs (snd (eff_try m h w)) = wd_docs w"
    using m assms(2) by (cases r) (auto simp: eff_try_def balanced_def Let_def dest!: spec [of _ w1])
qed

lemma uses_only_group_loop: "uses_only k (group_pages_loop pageBlocks bullet k byPage ps)"
  by (induction ps arbitrary: byPage)
    (auto intro!: uses_only_basic uses_only_bind uses_only_try split: option.split)

text \<open>The document is closed however reading its blocks ends, and the extraction never throws.\<close>

lemma extract_groups_closes: "balanced (extractPageBlockGroupsByPage E pageBlocks bullet bytes)"
  unfolding extractPageBlockGroupsByPage_def
  by (intro balanced_try balanced_open balanced_basic uses_only_bind uses_only_basic uses_only_group_loop)

definition returns :: "(pdf_error + 'a) \<times> 'd world \<Rightarrow> ('a \<Rightarrow> bool) \<Rightarrow> bool" where
  "returns r P = (case fst r of Inl e \<Rightarrow> False | Inr a \<Rightarrow> P a)"

definition page_map_ok :: "(int, block_group list) jsmap \<Rightarrow> bool" where
  "page_map_ok m \<longleftrightarrow> wf_map m \<and> list_all (\<lambda>(n, gs). gs \<noteq> [] \<and> list_all group_ok gs) m"

lemma page_map_update:
  assumes "page_map_ok m" "gs \<noteq> []" "list_all group_ok gs"
  shows "page_map_ok (AList.update n gs m)"
proof -
  have "x = (n, gs) \<or> x \<in> set m" if "x \<in> set (AList.update n gs m)" for x
    using that by (induction m) (auto split: if_splits)
  then have "list_all (\<lambda>(n, gs). gs \<noteq> [] \<and> list_all group_ok gs) (AList.update n gs m)"
    using assms unfolding page_map_ok_def list_all_iff by fast
  then show ?thesis
    using assms(1) by (simp add: page_map_ok_def wf_map_set)
qed

lemma eff_finally_Inr: "eff_finally m f w = (Inr a, w1) \<Longrightarrow> \<exists>w2. m w = (Inr a, w2)"
  by (auto simp: eff_finally_def split: prod.splits)

lemma group_loop_returns:
  "page_map_ok byPage \<Longrightarrow> returns (group_pages_loop pageBlocks bullet k byPage ps w) page_map_ok"
proof (induction ps arbitrary: byPage w)
  case Nil
  then show ?case by (simp add: returns_def eff_return_def)
next
  case (Cons p ps)
  let ?read = "eff_bind (call_doc k (pageBlocks p)) (\<lambda>blocks.
    eff_bind (eff_lift Plain_error (gigaBlocksToPageBlockGroups bullet blocks)) (\<lambda>groups. eff_return (Some groups)))"
  obtain r w1 where r: "?read w = (r, w1)" by fastforce
  show ?case
  proof (cases r)
    case (Inl e)
    then show ?thesis using r Cons.prems by (simp add: eff_bind_def eff_try_def eff_return_def returns_def)
  next
    case (Inr g)
    then obtain gs blocks where g: "g = Some gs" "gigaBlocksToPageBlockGroups bullet blocks = Inr gs"
      using r by (auto simp: eff_bind_def eff_lift_def eff_return_def split: prod.splits sum.splits)
    have "page_map_ok (if length gs > 0 then AList.update p gs byPage else byPage)"
      using Cons.prems giga_groups_ok [OF g(2)] by (simp add: page_map_update)
    then show ?thesis
      using r Inr g(1) Cons.IH by (simp add: eff_bind_def eff_try_def)
  qed
qed

lemma eff_try_returns:
  "(\<And>e w. returns (h e w) P) \<Longrightarrow> (\<And>a w1. m w = (Inr a, w1) \<Longrightarrow> P a) \<Longrightarrow> returns (eff_try m h w) P"
  by (cases "m w"; cases "fst (m w)") (auto simp: eff_try_def returns_def)

text \<open>Reading the blocks of a document never throws and always closes it. Every group it gives the
  editor is usable: a paragraph has at least two runs, and the lines it gives are not empty and hold its
  runs in their order; the cells of a table lie inside the grid of its rows and columns, and some cell
  has a run; some item of a list has a run.\<close>

lemma block_groups_usable:
  shows "balanced (extractPageBlockGroupsByPage E pageBlocks bullet bytes)
    \<and> returns (extractPageBlockGroupsByPage E pageBlocks bullet bytes w) page_map_ok"
proof -
  have ok: "page_map_ok []" by (simp add: page_map_ok_def)
  have "returns (extractPageBlockGroupsByPage E pageBlocks bullet bytes w) page_map_ok"
    unfolding extractPageBlockGroupsByPage_def
  proof (rule eff_try_returns)
    fix a w1
    assume a: "eff_bind (open_doc E Plain_error bytes) (\<lambda>k. eff_finally
         (eff_bind (read_doc k (en_pageCount E)) (\<lambda>n. group_pages_loop pageBlocks bullet k [] [1..n]))
         (close_doc k)) w = (Inr a, w1)"
    then obtain k n w2 w3 where "group_pages_loop pageBlocks bullet k [] [1..n] w2 = (Inr a, w3)"
      by (auto simp: eff_bind_Inr dest!: eff_finally_Inr)
    then show "page_map_ok a"
      using group_loop_returns [OF ok, of pageBlocks bullet k "[1..n]" w2] by (simp add: returns_def)
  qed (simp add: returns_def eff_return_def ok)
  then show ?thesis by (simp add: extract_groups_closes)
qed

section \<open>Where the code departs from its comments\<close>

definition demo_inline :: "nat \<Rightarrow> json" where
  "demo_inline i = J_obj [(''t'', J_str ''run''), (''v'', J_obj [(''source_index'', J_num (Some (of_nat i)))])]"

definition demo_br :: json where
  "demo_br = J_obj [(''t'', J_str ''br'')]"

definition demo_page_block :: "string \<Rightarrow> (string \<times> json) list \<Rightarrow> json" where
  "demo_page_block t v = J_obj [(''kind'', J_obj [(''t'', J_str t), (''v'', J_obj v)])]"

text \<open>The lines of a group leave out what two breaks in a row enclose, the flags of the breaks do not,
  so they are not aligned.\<close>

lemma soft_breaks_shift:
  "(case block_group_of [] (demo_page_block ''paragraph''
       [(''runs'', J_arr [demo_inline 0, demo_br, demo_br, demo_inline 1, demo_br, demo_inline 2]),
        (''style'', J_obj [(''soft_breaks'', J_arr [J_bool False, J_bool False, J_bool True])])]) of
      Inr (Some g) \<Rightarrow> bg_lines g = Some [[0], [1], [2]] \<and> gs_softBreaks (bg_style g) = Some [False, False, True]
    | _ \<Rightarrow> False)"
  by code_simp

text \<open>The widths of a table can be fewer than its columns.\<close>

lemma fewer_widths_than_columns:
  "(case tableStructure (demo_page_block ''table'' [(''rows'', J_arr [J_obj [(''cells'', J_arr [J_obj [], J_obj []])]]),
      (''col_widths'', J_arr [J_num (Some 50)])]) of
      Inr (Some t) \<Rightarrow> bt_colCount t = 2 \<and> bt_colWidths t = [50] | _ \<Rightarrow> False)"
  by code_simp

text \<open>A page that cannot be read ends the extraction, but what the earlier pages gave is kept.\<close>

lemma partial_groups_kept:
  assumes "en_open E bytes = Inr d" "en_pageCount E d = 2" "pageBlocks 1 d = Inr [demo_page_block ''paragraph''
     [(''runs'', J_arr [demo_inline 0, demo_inline 1])]]" "pageBlocks 2 d = Inl e"
  shows "\<exists>g. fst (extractPageBlockGroupsByPage E pageBlocks bullet bytes empty_world) = Inr [(1, [g])]"
proof -
  have g: "\<exists>g. gigaBlocksToPageBlockGroups bullet [demo_page_block ''paragraph'' [(''runs'', J_arr [demo_inline 0, demo_inline 1])]] = Inr [g]"
    by (simp add: block_group_of_def paragraphLines_def demo_page_block_def demo_inline_def block_t_def blockRuns_def block_v_def
        paragraphBody_def is_str_def Let_def inlineRunIndices_def source_number_def close_line_def)
  have n: "[1..2] = [1, 2::int]" by (simp add: upto.simps)
  show ?thesis
    using g assms by (auto simp: extractPageBlockGroupsByPage_def eff_try_def eff_bind_def open_doc_def eff_lift_def
        alloc_doc_def empty_world_def eff_finally_def read_doc_def call_doc_def n eff_return_def split: option.splits)
qed

end
