(* ===== verification/Paragraph_Groups.thy ===== *)
theory Paragraph_Groups
  imports Block_Extractor
begin

text \<open>
  The grouping of the text runs of a page into blocks: the pure helpers of
  \<open>components/editor/render-elements.ts\<close> (lines 559 to 1231) with the selection of the runs that
  \<open>renderElementsOverlay\<close> hands to them. A run is an element of the scene graph with the fields only
  this code reads. A JavaScript object has an identity: where the code keeps a set of runs, the model
  keeps a set of their positions in the list of all runs.
\<close>

section \<open>Runs and their style\<close>

record text_element =
  te_element :: element
  te_linkUrl :: "string option"
  te_linkPage :: "int option"
  te_rtl :: bool
  te_segments :: nat

definition text_typed :: "text_element \<Rightarrow> bool" where
  "text_typed t \<longleftrightarrow> body_type (el_body (te_element t)) = Ty_text"

definition te_style :: "text_element \<Rightarrow> text_style" where
  "te_style t = tx_style (el_body (te_element t))"

definition te_content :: "text_element \<Rightarrow> string" where
  "te_content t = tx_content (el_body (te_element t))"

definition te_x :: "text_element \<Rightarrow> jsnum" where "te_x t = b_x (el_bounds (te_element t))"
definition te_y :: "text_element \<Rightarrow> jsnum" where "te_y t = b_y (el_bounds (te_element t))"
definition te_width :: "text_element \<Rightarrow> jsnum" where "te_width t = b_width (el_bounds (te_element t))"

text \<open>\<open>size || 12\<close>\<close>

definition size_or_12 :: "text_element \<Rightarrow> jsnum" where
  "size_or_12 t = (if ts_fontSize (te_style t) = 0 then 12 else ts_fontSize (te_style t))"

definition colourKeyOf :: "text_element \<Rightarrow> string" where
  "colourKeyOf t = js_lower (js_trim (if ts_color (te_style t) = [] then ''#000000'' else ts_color (te_style t)))"

definition stripSubsetPrefix :: "string \<Rightarrow> string" where
  "stripSubsetPrefix name =
     (if length name > 6 \<and> list_all (\<lambda>c. 65 \<le> code_unit c \<and> code_unit c \<le> 90) (take 6 name) \<and> name ! 6 = CHR ''+''
      then drop 7 name else name)"

definition font_name :: "text_element \<Rightarrow> string" where
  "font_name t = (case ts_originalFont (te_style t) of None \<Rightarrow> [] | Some n \<Rightarrow> n)"

definition sameParagraphStyle :: "text_element \<Rightarrow> text_element \<Rightarrow> bool" where
  "sameParagraphStyle a b =
     (let fsA = ts_fontSize (te_style a); fsB = ts_fontSize (te_style b) in
      if fsA \<le> 0 \<or> fsB \<le> 0 then False
      else let ratio = (if fsA > fsB then fsA / fsB else fsB / fsA) in
        if ratio > 11 / 10 then False
        else if ts_fontFamily (te_style a) \<noteq> ts_fontFamily (te_style b) then False
        else if stripSubsetPrefix (font_name a) \<noteq> stripSubsetPrefix (font_name b) then False
        else if colourKeyOf a \<noteq> colourKeyOf b then False
        else if ts_fontWeight (te_style a) \<noteq> ts_fontWeight (te_style b) then False
        else if ts_fontStyle (te_style a) \<noteq> ts_fontStyle (te_style b) then False
        else ts_textAlign (te_style a) = ts_textAlign (te_style b))"

definition horizontallyOverlap :: "text_element \<Rightarrow> text_element \<Rightarrow> jsnum \<Rightarrow> bool" where
  "horizontallyOverlap a b minOverlap \<longleftrightarrow>
     min (te_x a + te_width a) (te_x b + te_width b) - max (te_x a) (te_x b) \<ge> minOverlap"

definition line_height_or :: "text_element \<Rightarrow> jsnum" where
  "line_height_or t = (if ts_lineHeight (te_style t) > 0 then ts_lineHeight (te_style t) else 6 / 5)"

definition continuesParagraph :: "text_element \<Rightarrow> text_element \<Rightarrow> bool" where
  "continuesParagraph prev nxt =
     (if \<not> sameParagraphStyle prev nxt then False
      else let fontSize = size_or_12 prev; lineHeight = line_height_or prev;
               xTol = max 2 (fontSize * (1 / 2)); gap = te_y nxt - te_y prev;
               minGap = fontSize * (4 / 5); maxGap = fontSize * lineHeight * (9 / 5);
               minOverlap = min (te_width prev) (te_width nxt) * (2 / 5) in
        if \<bar>te_x nxt - te_x prev\<bar> > xTol then False
        else if gap < minGap \<or> gap > maxGap then False
        else horizontallyOverlap prev nxt (max 1 minOverlap))"

definition isUngroupableRun :: "text_element \<Rightarrow> bool" where
  "isUngroupableRun t =
     (if te_linkUrl t \<notin> {None, Some []} \<or> te_linkPage t \<notin> {None, Some 0} then True
      else if te_rtl t then True
      else te_content t = [] \<or> CHR ''\<newline>'' \<in> set (te_content t))"

section \<open>Measures of a candidate\<close>

definition lower_median :: "jsnum list \<Rightarrow> jsnum" where
  "lower_median xs = sort xs ! ((length xs - 1) div 2)"

definition differences :: "jsnum list \<Rightarrow> jsnum list" where
  "differences ys = map2 (\<lambda>b a. b - a) (tl ys) ys"

definition measuredLineHeightMultiple :: "text_element list \<Rightarrow> jsnum \<Rightarrow> jsnum" where
  "measuredLineHeightMultiple runs fontSize =
     (if fontSize \<le> 0 \<or> length runs < 2 then 6 / 5
      else let gaps = filter (\<lambda>g. g > 1 / 2) (differences (sort (map te_y runs))) in
        if length gaps = 0 then 6 / 5 else min 3 (max (4 / 5) (lower_median gaps / fontSize)))"

definition hasUniformLineAdvance :: "text_element list \<Rightarrow> bool" where
  "hasUniformLineAdvance runs =
     (if length runs < 3 then True
      else let gaps = filter (\<lambda>g. g > 1 / 2) (differences (sort (map te_y runs))) in
        if length gaps < 2 then True
        else let m = lower_median gaps in
          if m \<le> 0 then True else list_all (\<lambda>g. g \<ge> m * (7 / 10) \<and> g \<le> m * (13 / 10)) gaps)"

definition or_12 :: "jsnum \<Rightarrow> jsnum" where "or_12 x = (if x = 0 then 12 else x)"

definition isCoherentCoalescedBlock :: "text_element list \<Rightarrow> bool" where
  "isCoherentCoalescedBlock runs =
     (if length runs < 2 then True
      else if list_ex (\<lambda>r. te_segments r > 0) runs then False
      else let fs = or_12 (lower_median (map size_or_12 runs)) in
        if list_ex (\<lambda>g. g < fs * (2 / 5) \<or> g > fs * (5 / 2)) (differences (sort (map te_y runs))) then False
        else \<not> js_max (map te_x runs) - js_min (map te_x runs) > fs * 3)"

definition lineSpanOf :: "text_element list \<Rightarrow> jsnum \<times> jsnum" where
  "lineSpanOf line = (js_min (map te_x line), js_max (map (\<lambda>r. te_x r + te_width r) line))"

definition line_top :: "text_element list \<Rightarrow> jsnum" where
  "line_top line = js_min (map te_y line)"

definition share_column :: "text_element list \<Rightarrow> text_element list \<Rightarrow> bool" where
  "share_column upper lower = (case (lineSpanOf upper, lineSpanOf lower) of ((al, ar), (bl, br)) \<Rightarrow>
     \<not> min ar br - max al bl < max 1 (min (ar - al) (br - bl)) * (1 / 5))"

definition isCoherentLineGroup :: "text_element list list \<Rightarrow> bool" where
  "isCoherentLineGroup ls =
     (let nonEmpty = filter (\<lambda>l. length l > 0) ls; runs = concat nonEmpty in
      if length nonEmpty = 0 then False
      else if length runs < 2 then True
      else if length nonEmpty = 1 then True
      else let fs = or_12 (lower_median (map size_or_12 runs));
               gaps = differences (sort (map line_top nonEmpty)) in
        if list_ex (\<lambda>g. g \<le> 1 / 2) gaps then False
        else let leading = lower_median gaps in
          if leading > fs * 3 then False
          else if list_ex (\<lambda>g. g < leading * (2 / 5) \<or> g > leading * (5 / 2)) gaps then False
          else let byTop = sort_key line_top nonEmpty in list_all2 share_column (butlast byTop) (tl byTop))"

section \<open>The positional heuristic\<close>

text \<open>A group over any representation of runs.\<close>

record 'r paragraph_group =
  gr_runs :: "'r list"
  gr_lines :: "'r list list option"
  gr_align :: "text_align option"
  gr_lineHeightMultiple :: "jsnum option"
  gr_frame :: "bounds option"

definition plain_group :: "'r list \<Rightarrow> 'r list list \<Rightarrow> 'r paragraph_group" where
  "plain_group runs ls = \<lparr>gr_runs = runs, gr_lines = Some ls, gr_align = None, gr_lineHeightMultiple = None, gr_frame = None\<rparr>"

definition linesOfGroup :: "'r paragraph_group \<Rightarrow> 'r list list" where
  "linesOfGroup g = (case gr_lines g of
       Some ls \<Rightarrow> if length ls > 0 then ls else map (\<lambda>r. [r]) (gr_runs g)
     | None \<Rightarrow> map (\<lambda>r. [r]) (gr_runs g))"

text \<open>What is consumed leaves the list: the runs of the group, and the runs that stay for later.\<close>

fun extend_group :: "text_element \<Rightarrow> text_element list \<Rightarrow> text_element list \<times> text_element list" where
  "extend_group prev [] = ([], [])"
| "extend_group prev (cand # rest) =
     (if isUngroupableRun cand then (case extend_group prev rest of (g, r) \<Rightarrow> (g, cand # r))
      else if continuesParagraph prev cand then (case extend_group cand rest of (g, r) \<Rightarrow> (cand # g, r))
      else if te_y cand - te_y prev > size_or_12 prev
          * (if ts_lineHeight (te_style prev) = 0 then 6 / 5 else ts_lineHeight (te_style prev)) * (9 / 5)
      then ([], cand # rest)
      else (case extend_group prev rest of (g, r) \<Rightarrow> (g, cand # r)))"

lemma mset_extend_group: "mset (fst (extend_group p rs)) + mset (snd (extend_group p rs)) = mset rs"
proof (induction rs arbitrary: p)
  case (Cons c rs)
  obtain g r where p: "extend_group p rs = (g, r)" by fastforce
  obtain g' r' where c: "extend_group c rs = (g', r')" by fastforce
  show ?case using Cons.IH [of p] Cons.IH [of c] by (simp add: p c)
qed simp

lemma length_extend_group: "length (snd (extend_group p rs)) \<le> length rs"
proof -
  have "size (mset (fst (extend_group p rs)) + mset (snd (extend_group p rs))) = size (mset rs)"
    by (simp only: mset_extend_group)
  then show ?thesis by simp
qed

lemma extend_group_shorter: "(g, r) = extend_group p rs \<Longrightarrow> length r < Suc (length rs)"
  using length_extend_group [of p rs] by (simp add: less_Suc_eq_le flip: eq_snd_iff) (metis snd_conv)

function group_loop :: "text_element list \<Rightarrow> text_element paragraph_group list \<times> text_element list" where
  "group_loop [] = ([], [])"
| "group_loop (start # rest) =
     (if isUngroupableRun start then (case group_loop rest of (ps, st) \<Rightarrow> (ps, start # st))
      else (case extend_group start rest of (g, rest') \<Rightarrow>
        (case group_loop rest' of (ps, st) \<Rightarrow>
          if length (start # g) \<ge> 2
          then (plain_group (start # g) (map (\<lambda>r. [r]) (start # g)) # ps, st)
          else (ps, start # st))))"
  by pat_completeness auto
termination
  by (relation "measure length") (auto dest: extend_group_shorter)

section \<open>The groups of the engine\<close>

text \<open>The first run with an index is found under it.\<close>

definition runByIndex :: "text_element list \<Rightarrow> (jsnum, nat) jsmap" where
  "runByIndex runs = fold (\<lambda>(i, r) m. case el_index (te_element r) of
       None \<Rightarrow> m
     | Some k \<Rightarrow> if k \<ge> 0 \<and> \<not> map_has m (of_int k) then AList.update (of_int k) i m else m) (enumerate 0 runs) []"

definition claimable :: "text_element list \<Rightarrow> nat list \<Rightarrow> jsnum \<Rightarrow> nat option" where
  "claimable runs consumed sourceIndex = (case map_get (runByIndex runs) sourceIndex of
       None \<Rightarrow> None
     | Some i \<Rightarrow> if i \<in> set consumed \<or> isUngroupableRun (runs ! i) then None else Some i)"

fun claim_runs :: "text_element list \<Rightarrow> nat list \<Rightarrow> jsnum list \<Rightarrow> nat list \<times> nat list" where
  "claim_runs runs consumed [] = ([], consumed)"
| "claim_runs runs consumed (sourceIndex # rest) = (case claimable runs consumed sourceIndex of
       None \<Rightarrow> claim_runs runs consumed rest
     | Some i \<Rightarrow> (case claim_runs runs (consumed @ [i]) rest of (claimed, c) \<Rightarrow> (i # claimed, c)))"

fun claim_lines :: "text_element list \<Rightarrow> nat list \<Rightarrow> jsnum list list \<Rightarrow> nat list list \<times> nat list" where
  "claim_lines runs consumed [] = ([], consumed)"
| "claim_lines runs consumed (line # rest) = (case claim_runs runs consumed line of
     (lineRuns, c1) \<Rightarrow> (case claim_lines runs c1 rest of
       (ls, c2) \<Rightarrow> (if length lineRuns > 0 then lineRuns # ls else ls, c2)))"

type_synonym grouping = "nat paragraph_group list \<times> nat list"

text \<open>A group of one run is given back.\<close>

definition finish_group :: "nat paragraph_group \<Rightarrow> nat list \<Rightarrow> nat list \<Rightarrow> nat paragraph_group list \<Rightarrow> grouping" where
  "finish_group g claimed consumed ps =
     (if length claimed \<ge> 2 then (ps @ [g], consumed) else (ps, filter (\<lambda>i. i \<notin> set claimed) consumed))"

fun text_group_step :: "text_element list \<Rightarrow> block_group \<Rightarrow> grouping \<Rightarrow> grouping" where
  "text_group_step runs (Text_group h sourceIndices ls style) (ps, consumed) =
     (let indexLines = (case ls of Some ls \<Rightarrow> if length ls > 0 then ls else map (\<lambda>i. [i]) sourceIndices
            | None \<Rightarrow> map (\<lambda>i. [i]) sourceIndices) in
      case claim_lines runs consumed indexLines of
        (lns, c) \<Rightarrow> finish_group \<lparr>gr_runs = concat lns, gr_lines = Some lns, gr_align = gs_align style,
            gr_lineHeightMultiple = gs_lineHeightMultiple style, gr_frame = gs_frame style\<rparr> (concat lns) c ps)"
| "text_group_step runs _ st = st"

definition left_over :: "text_element list \<Rightarrow> grouping \<Rightarrow> grouping" where
  "left_over runs st = (fst st, filter (\<lambda>i. i \<notin> set (snd st)) [0..<length runs])"

definition pageBlockGroupsToParagraphs :: "text_element list \<Rightarrow> block_group list \<Rightarrow> grouping" where
  "pageBlockGroupsToParagraphs elements blockGroups =
     (let runs = filter text_typed elements in left_over runs (fold (text_group_step runs) blockGroups ([], [])))"

text \<open>Tables and lists: the runs of a cell or an item are put into visual lines.\<close>

fun band_loop :: "('r \<Rightarrow> text_element) \<Rightarrow> 'r list \<Rightarrow> jsnum \<Rightarrow> jsnum \<Rightarrow> 'r list \<Rightarrow> 'r list list" where
  "band_loop at_run current anchorTop anchorTol [] = (if length current > 0 then [current] else [])"
| "band_loop at_run current anchorTop anchorTol (run # rest) =
     (if length current > 0 \<and> \<bar>te_y (at_run run) - anchorTop\<bar> \<le> anchorTol
      then band_loop at_run (current @ [run]) anchorTop anchorTol rest
      else (if length current > 0 then [current] else [])
        @ band_loop at_run [run] (te_y (at_run run)) (size_or_12 (at_run run) * (1 / 2)) rest)"

definition bandRunsIntoVisualLines :: "('r \<Rightarrow> text_element) \<Rightarrow> 'r list \<Rightarrow> 'r list list" where
  "bandRunsIntoVisualLines at_run runs =
     map (sort_key (\<lambda>r. te_x (at_run r)))
       (band_loop at_run [] 0 0 (sort_key (\<lambda>r. te_y (at_run r)) (sort_key (\<lambda>r. te_x (at_run r)) runs)))"

definition foldUnit :: "text_element list \<Rightarrow> jsnum list \<Rightarrow> grouping \<Rightarrow> grouping" where
  "foldUnit runs sourceIndices st = (case st of (ps, consumed) \<Rightarrow> (case claim_runs runs consumed sourceIndices of
     (claimed, c) \<Rightarrow> let ls = bandRunsIntoVisualLines (\<lambda>i. runs ! i) claimed in
       finish_group (plain_group (concat ls) ls) claimed c ps))"

fun unit_group_step :: "text_element list \<Rightarrow> block_group \<Rightarrow> grouping \<Rightarrow> grouping" where
  "unit_group_step runs (Table_group t) st = fold (\<lambda>c. foldUnit runs (tc_sourceIndices c)) (bt_cells t) st"
| "unit_group_step runs (List_group l) st = fold (\<lambda>i. foldUnit runs (bi_sourceIndices i)) (bl_items l) st"
| "unit_group_step runs _ st = st"

definition pageBlockGroupsToTablesAndLists :: "text_element list \<Rightarrow> block_group list \<Rightarrow> grouping" where
  "pageBlockGroupsToTablesAndLists elements blockGroups =
     (let runs = filter text_typed elements in left_over runs (fold (unit_group_step runs) blockGroups ([], [])))"

definition at_runs :: "text_element list \<Rightarrow> nat paragraph_group \<Rightarrow> text_element paragraph_group" where
  "at_runs runs g = \<lparr>gr_runs = map (\<lambda>i. runs ! i) (gr_runs g), gr_lines = map_option (map (map (\<lambda>i. runs ! i))) (gr_lines g),
     gr_align = gr_align g, gr_lineHeightMultiple = gr_lineHeightMultiple g, gr_frame = gr_frame g\<rparr>"

text \<open>The sort of the heuristic compares with a tolerance, which is no order: it is a parameter.\<close>

type_synonym run_sort = "(text_element \<Rightarrow> text_element \<Rightarrow> jsnum) \<Rightarrow> text_element list \<Rightarrow> text_element list"

definition compare_runs :: "text_element \<Rightarrow> text_element \<Rightarrow> jsnum" where
  "compare_runs a b = (let dy = te_y a - te_y b in if \<bar>dy\<bar> > 1 / 2 then dy else te_x a - te_x b)"

definition groupTextRunsIntoParagraphs :: "run_sort \<Rightarrow> text_element list \<Rightarrow> text_element paragraph_group list \<times> text_element list" where
  "groupTextRunsIntoParagraphs sort_by elements = group_loop (sort_by compare_runs (filter text_typed elements))"

section \<open>What the overlay groups\<close>

definition layerRank :: "text_element \<Rightarrow> nat" where
  "layerRank t = (case body_type (el_body (te_element t)) of
     Ty_shape \<Rightarrow> 0 | Ty_image \<Rightarrow> 1 | Ty_text \<Rightarrow> 3 | Ty_annotation \<Rightarrow> 4 | Ty_form_field \<Rightarrow> 5)"

type_synonym signature = "string \<times> int \<times> string"

definition text_signature :: "text_element \<Rightarrow> signature" where
  "text_signature t = (te_content t, js_round (ts_fontSize (te_style t)),
     js_lower (if ts_color (te_style t) = [] then ''#000000'' else ts_color (te_style t)))"

definition near :: "jsnum \<times> jsnum \<Rightarrow> jsnum \<times> jsnum \<Rightarrow> bool" where
  "near p here \<longleftrightarrow> \<bar>fst p - fst here\<bar> \<le> 2 \<and> \<bar>snd p - snd here\<bar> \<le> 2"

fun dedupe :: "(signature, (jsnum \<times> jsnum) list) jsmap \<Rightarrow> text_element list \<Rightarrow> text_element list" where
  "dedupe seen [] = []"
| "dedupe seen (t # rest) =
     (if \<not> text_typed t then t # dedupe seen rest
      else let sig = text_signature t; here = (te_x t, te_y t) in
        case map_get seen sig of
          None \<Rightarrow> t # dedupe (AList.update sig [here] seen) rest
        | Some positions \<Rightarrow>
            if list_ex (\<lambda>p. near p here) positions then dedupe seen rest
            else t # dedupe (AList.update sig (positions @ [here]) seen) rest)"

definition dedupedElements :: "text_element list \<Rightarrow> text_element list" where
  "dedupedElements elements = dedupe [] (sort_key layerRank elements)"

definition allCoalescedGroups ::
  "run_sort \<Rightarrow> bool \<Rightarrow> block_group list option \<Rightarrow> text_element list \<Rightarrow> text_element paragraph_group list" where
  "allCoalescedGroups sort_by groupParagraphs blockGroups elements =
     (let deduped = dedupedElements elements; runs = filter text_typed deduped;
          supplied = (case blockGroups of Some gs \<Rightarrow> length gs > 0 | None \<Rightarrow> False);
          paragraphGroups = (if \<not> groupParagraphs then []
            else if supplied then map (at_runs runs) (fst (pageBlockGroupsToParagraphs deduped (the blockGroups)))
            else fst (groupTextRunsIntoParagraphs sort_by deduped));
          tableListGroups = (if groupParagraphs \<and> supplied
            then map (at_runs runs) (fst (pageBlockGroupsToTablesAndLists deduped (the blockGroups))) else [])
      in paragraphGroups @ tableListGroups)"

text \<open>The tags on the objects of the canvas: the descriptor of a group and whether it may be edited as a whole.\<close>

record group_tag =
  gt_groupId :: string
  gt_lines :: "text_element list list"
  gt_align :: "text_align option"
  gt_lineHeightMultiple :: "jsnum option"
  gt_frame :: "bounds option"
  gt_sessionable :: bool

definition group_descriptor :: "text_element paragraph_group \<Rightarrow> group_tag" where
  "group_descriptor g = \<lparr>gt_groupId = ''pg:'' @ el_id (te_element (hd (gr_runs g))), gt_lines = linesOfGroup g,
     gt_align = gr_align g, gt_lineHeightMultiple = gr_lineHeightMultiple g, gt_frame = gr_frame g,
     gt_sessionable = isCoherentLineGroup (linesOfGroup g)\<rparr>"

text \<open>An object is the id of its element with its tag.\<close>

definition tag_groups :: "text_element paragraph_group list \<Rightarrow> (uuid \<times> group_tag option) list \<Rightarrow> (uuid \<times> group_tag option) list" where
  "tag_groups gs objects = fold (\<lambda>g. map (\<lambda>(i, t). (i,
     if i \<in> set (map (\<lambda>r. el_id (te_element r)) (gr_runs g)) then Some (group_descriptor g) else t))) gs objects"


section \<open>Every run once\<close>

definition group_shape :: "('r \<Rightarrow> text_element) \<Rightarrow> 'r paragraph_group \<Rightarrow> bool" where
  "group_shape at_run g \<longleftrightarrow> 2 \<le> length (gr_runs g) \<and> concat (linesOfGroup g) = gr_runs g \<and> [] \<notin> set (linesOfGroup g)
     \<and> list_all (\<lambda>r. \<not> isUngroupableRun (at_run r)) (gr_runs g)"

definition all_once :: "('r \<Rightarrow> text_element) \<Rightarrow> 'r list \<Rightarrow> 'r paragraph_group list \<times> 'r list \<Rightarrow> bool" where
  "all_once at_run runs r \<longleftrightarrow> mset (concat (map gr_runs (fst r)) @ snd r) = mset runs \<and> list_all (group_shape at_run) (fst r)"

lemma concat_map_single [simp]: "concat (map (\<lambda>r. [r]) xs) = xs"
  by (induction xs) auto

lemma linesOfGroup_Some [simp]: "gr_lines g = Some ls \<Longrightarrow> concat ls = gr_runs g \<Longrightarrow> concat (linesOfGroup g) = gr_runs g"
  by (simp add: linesOfGroup_def)

lemma group_shapeI:
  assumes "gr_lines g = Some ls" "concat ls = gr_runs g" "[] \<notin> set ls" "2 \<le> length (gr_runs g)"
    "\<And>r. r \<in> set (gr_runs g) \<Longrightarrow> \<not> isUngroupableRun (at_run r)"
  shows "group_shape at_run g"
  using assms by (auto simp: group_shape_def linesOfGroup_def list_all_iff)

lemma extend_group_groupable: "x \<in> set (fst (extend_group p rs)) \<Longrightarrow> \<not> isUngroupableRun x"
  by (induction p rs rule: extend_group.induct) (auto split: prod.splits if_splits)

lemma group_loop_once: "all_once (\<lambda>r. r) rs (group_loop rs)"
proof (induction rs rule: group_loop.induct)
  case (2 start rest)
  show ?case
  proof (cases "isUngroupableRun start")
    case True
    then show ?thesis using 2(1) [OF True] by (auto simp: all_once_def split: prod.splits)
  next
    case False
    obtain g rest' where e: "extend_group start rest = (g, rest')" by fastforce
    obtain ps st where l: "group_loop rest' = (ps, st)" by fastforce
    have m: "mset g + mset rest' = mset rest" using mset_extend_group [of start rest] by (simp add: e)
    have once: "all_once (\<lambda>r. r) rest' (ps, st)" using 2(2) [OF False e [symmetric]] by (simp add: l)
    then have ps: "mset (concat (map gr_runs ps)) + mset st = mset rest'" "list_all (group_shape (\<lambda>r. r)) ps"
      by (simp_all add: all_once_def)
    have "group_shape (\<lambda>r. r) (plain_group (start # g) (map (\<lambda>r. [r]) (start # g)))" if "1 \<le> length g"
      by (rule group_shapeI [where ls = "map (\<lambda>r. [r]) (start # g)"])
        (use that False extend_group_groupable [of _ start rest] in \<open>auto simp: plain_group_def e Suc_le_eq\<close>)
    then show ?thesis
      using False ps m by (cases g) (auto simp: all_once_def e l plain_group_def)
  qed
qed (simp add: all_once_def)

lemma runByIndex_less: "map_get (runByIndex runs) k = Some i \<Longrightarrow> i < length runs"
proof -
  have "map_get (fold (\<lambda>(i, r) m. case el_index (te_element r) of None \<Rightarrow> m
       | Some k \<Rightarrow> if k \<ge> 0 \<and> \<not> map_has m (of_int k) then AList.update (of_int k) i m else m) xs m) k = Some i
     \<Longrightarrow> (\<And>k i. map_get m k = Some i \<Longrightarrow> i < n) \<Longrightarrow> (\<And>x. x \<in> set xs \<Longrightarrow> fst x < n) \<Longrightarrow> i < n"
    for n m and xs :: "(nat \<times> text_element) list"
  proof (induction xs arbitrary: m)
    case (Cons x xs)
    obtain j r where x: "x = (j, r)" by fastforce
    have "j < n" using Cons.prems(3) [of x] x by simp
    then show ?case
      by (intro Cons.IH [OF Cons.prems(1) [unfolded fold_simps(2)]])
        (use Cons.prems(2,3) x in \<open>auto simp: js_simps split: option.splits if_splits\<close>)
  qed auto
  from this [of "enumerate 0 runs" "[]" "length runs"]
  show "map_get (runByIndex runs) k = Some i \<Longrightarrow> i < length runs"
    by (auto simp: runByIndex_def in_set_enumerate_eq)
qed

definition valid :: "text_element list \<Rightarrow> nat list \<Rightarrow> bool" where
  "valid runs is \<longleftrightarrow> distinct is \<and> (\<forall>i\<in>set is. i < length runs \<and> \<not> isUngroupableRun (runs ! i))"

lemma claim_runs_ok:
  "claim_runs runs c is = (cl, c') \<Longrightarrow> c' = c @ cl \<and> (valid runs c \<longrightarrow> valid runs c')"
proof (induction runs c "is" arbitrary: cl c' rule: claim_runs.induct)
  case (2 runs c i "is")
  show ?case
  proof (cases "claimable runs c i")
    case None
    then have "claim_runs runs c is = (cl, c')" using 2(3) by simp
    then show ?thesis by (rule 2(1) [OF None])
  next
    case (Some k)
    obtain cl1 where r: "claim_runs runs (c @ [k]) is = (cl1, c')" "cl = k # cl1"
      using 2(3) Some by (auto split: prod.splits)
    have "k < length runs" "k \<notin> set c" "\<not> isUngroupableRun (runs ! k)"
      using Some runByIndex_less [of runs i k] by (auto simp: claimable_def split: option.splits if_splits)
    then have "valid runs c \<longrightarrow> valid runs (c @ [k])" by (auto simp: valid_def)
    then show ?thesis using 2(2) [OF Some r(1)] r(2) by auto
  qed
qed (simp add: valid_def)

lemma claim_lines_ok:
  "claim_lines runs c lns = (ls, c') \<Longrightarrow> c' = c @ concat ls \<and> [] \<notin> set ls \<and> (valid runs c \<longrightarrow> valid runs c')"
proof (induction runs c lns arbitrary: ls c' rule: claim_lines.induct)
  case (2 runs c line lns)
  obtain cl c1 where l: "claim_runs runs c line = (cl, c1)" by fastforce
  obtain ls1 where r: "claim_lines runs c1 lns = (ls1, c')" "ls = (if length cl > 0 then cl # ls1 else ls1)"
    using 2(2) l by (auto split: prod.splits)
  show ?case using claim_runs_ok [OF l] 2(1) [OF l [symmetric] r(1)] r(2) by auto
qed simp

definition groups_ok :: "text_element list \<Rightarrow> grouping \<Rightarrow> bool" where
  "groups_ok runs st \<longleftrightarrow> valid runs (snd st) \<and> mset (snd st) = mset (concat (map gr_runs (fst st)))
     \<and> list_all (group_shape (\<lambda>i. runs ! i)) (fst st)"

lemma finish_group_ok:
  assumes ok: "groups_ok runs (ps, c)" and v: "valid runs (c @ claimed)"
    and g: "gr_lines g = Some ls" "concat ls = gr_runs g" "[] \<notin> set ls" "mset (gr_runs g) = mset claimed"
  shows "groups_ok runs (finish_group g claimed (c @ claimed) ps)"
proof (cases "2 \<le> length claimed")
  case True
  have e: "length (gr_runs g) = length claimed" "set (gr_runs g) = set claimed"
    using g(4) by (auto dest: mset_eq_length mset_eq_setD)
  have "group_shape (\<lambda>i. runs ! i) g"
    by (rule group_shapeI [OF g(1-3)]) (use True e v in \<open>auto simp: valid_def\<close>)
  then show ?thesis using True ok v g(4) by (simp add: finish_group_def groups_ok_def)
next
  case False
  have "filter (\<lambda>i. i \<notin> set claimed) (c @ claimed) = c"
    using v by (auto simp: valid_def filter_id_conv)
  then show ?thesis using False ok by (simp add: finish_group_def)
qed

lemma text_group_step_ok: "groups_ok runs st \<Longrightarrow> groups_ok runs (text_group_step runs g st)"
proof (cases g)
  case (Text_group h "is" ls style)
  assume ok: "groups_ok runs st"
  obtain ps c where st: "st = (ps, c)" by fastforce
  let ?ix = "case ls of Some ls \<Rightarrow> if length ls > 0 then ls else map (\<lambda>i. [i]) is | None \<Rightarrow> map (\<lambda>i. [i]) is"
  obtain lns c' where l: "claim_lines runs c ?ix = (lns, c')" by fastforce
  have v: "valid runs c" using ok st by (simp add: groups_ok_def)
  note k = claim_lines_ok [OF l]
  have "groups_ok runs (finish_group \<lparr>gr_runs = concat lns, gr_lines = Some lns, gr_align = gs_align style,
      gr_lineHeightMultiple = gs_lineHeightMultiple style, gr_frame = gs_frame style\<rparr> (concat lns) (c @ concat lns) ps)"
    by (rule finish_group_ok) (use ok st k v in auto)
  then show ?thesis using k by (simp only: Text_group st text_group_step.simps Let_def l prod.case)
qed auto

lemma band_loop_ok:
  "mset (concat (band_loop f cur t l rs)) = mset cur + mset rs \<and> [] \<notin> set (band_loop f cur t l rs)"
  by (induction f cur t l rs rule: band_loop.induct) auto

lemma mset_map_sort_lines: "mset (concat (map (sort_key f) ls)) = mset (concat ls)"
  by (induction ls) auto

lemma bands_ok:
  "mset (concat (bandRunsIntoVisualLines f rs)) = mset rs" "[] \<notin> set (bandRunsIntoVisualLines f rs)"
proof -
  show "mset (concat (bandRunsIntoVisualLines f rs)) = mset rs"
    by (simp add: bandRunsIntoVisualLines_def mset_map_sort_lines band_loop_ok)
  have e: "sort_key g l = [] \<Longrightarrow> l = []" for g :: "'a \<Rightarrow> jsnum" and l
    by (metis length_0_conv length_sort)
  let ?ls = "band_loop f [] 0 0 (sort_key (\<lambda>r. te_y (f r)) (sort_key (\<lambda>r. te_x (f r)) rs))"
  have "[] \<notin> set ?ls" by (simp add: band_loop_ok)
  then show "[] \<notin> set (bandRunsIntoVisualLines f rs)"
    unfolding bandRunsIntoVisualLines_def set_map by (auto dest!: e [OF sym])
qed

lemma foldUnit_ok: "groups_ok runs st \<Longrightarrow> groups_ok runs (foldUnit runs is st)"
proof -
  assume ok: "groups_ok runs st"
  obtain ps c where st: "st = (ps, c)" by fastforce
  obtain cl c' where l: "claim_runs runs c is = (cl, c')" by fastforce
  have v: "valid runs c" using ok st by (simp add: groups_ok_def)
  note k = claim_runs_ok [OF l]
  let ?ls = "bandRunsIntoVisualLines (\<lambda>i. runs ! i) cl"
  have "groups_ok runs (finish_group (plain_group (concat ?ls) ?ls) cl (c @ cl) ps)"
    by (rule finish_group_ok) (use ok st k v in \<open>auto simp: plain_group_def bands_ok\<close>)
  then show ?thesis using k by (simp only: foldUnit_def st l prod.case Let_def)
qed

lemma fold_keeps: "(\<And>x st. P st \<Longrightarrow> P (f x st)) \<Longrightarrow> P st \<Longrightarrow> P (fold f xs st)"
  by (induction xs arbitrary: st) auto

lemma unit_group_step_ok: "groups_ok runs st \<Longrightarrow> groups_ok runs (unit_group_step runs g st)"
  by (cases g) (auto intro!: fold_keeps [of "groups_ok runs"] foldUnit_ok)

lemma left_over_once:
  assumes "groups_ok runs st"
  shows "all_once (\<lambda>i. runs ! i) [0..<length runs] (left_over runs st)"
proof -
  have d: "distinct (snd st)" "set (snd st) \<subseteq> {0..<length runs}"
    using assms by (auto simp: groups_ok_def valid_def)
  have "mset (snd st) + mset (filter (\<lambda>i. i \<notin> set (snd st)) [0..<length runs]) = mset [0..<length runs]"
    unfolding mset_append [symmetric]
    by (rule set_eq_iff_mset_eq_distinct [THEN iffD1]) (use d in auto)
  then show ?thesis using assms by (simp add: all_once_def left_over_def groups_ok_def)
qed

lemma groups_ok_start: "groups_ok runs ([], [])"
  by (simp add: groups_ok_def valid_def)

text \<open>C23: Grouping loses no text run and doubles none. Whether the groups come from the structure the
  engine gives (paragraphs and headings, or the cells of tables and the items of lists) or from the
  positions of the runs, every text run of the page is in exactly one group or left standing alone; a
  group has at least two runs, it is the concatenation of its lines, no line is empty, and no link,
  right-to-left or multi-line run is in it.\<close>

theorem every_run_once:
  assumes "\<And>cmp xs. mset (sort_by cmp xs) = mset xs"
  shows "all_once (\<lambda>i. filter text_typed elements ! i) [0..<length (filter text_typed elements)]
      (pageBlockGroupsToParagraphs elements blockGroups)
    \<and> all_once (\<lambda>i. filter text_typed elements ! i) [0..<length (filter text_typed elements)]
      (pageBlockGroupsToTablesAndLists elements blockGroups)
    \<and> all_once (\<lambda>r. r) (filter text_typed elements) (groupTextRunsIntoParagraphs sort_by elements)"
proof -
  have "all_once (\<lambda>r. r) (filter text_typed elements) (groupTextRunsIntoParagraphs sort_by elements)"
    using group_loop_once [of "sort_by compare_runs (filter text_typed elements)"]
    by (simp add: groupTextRunsIntoParagraphs_def all_once_def assms)
  moreover have "groups_ok (filter text_typed elements) (fold (text_group_step (filter text_typed elements)) blockGroups ([], []))"
    by (rule fold_keeps [of "groups_ok (filter text_typed elements)"]) (simp_all add: text_group_step_ok groups_ok_start)
  moreover have "groups_ok (filter text_typed elements) (fold (unit_group_step (filter text_typed elements)) blockGroups ([], []))"
    by (rule fold_keeps [of "groups_ok (filter text_typed elements)"]) (simp_all add: unit_group_step_ok groups_ok_start)
  ultimately show ?thesis
    by (simp add: pageBlockGroupsToParagraphs_def pageBlockGroupsToTablesAndLists_def Let_def left_over_once)
qed


text \<open>A page of five runs: two lines of a paragraph, the cell of a table with two runs on one line,
  and a link.\<close>

definition demo_run_element :: "uuid \<Rightarrow> int \<Rightarrow> jsnum \<Rightarrow> jsnum \<Rightarrow> string \<Rightarrow> text_element" where
  "demo_run_element i k x y content = \<lparr>te_element = \<lparr>el_id = i,
       el_bounds = \<lparr>b_x = x, b_y = y, b_width = 100, b_height = 10\<rparr>,
       el_transform = \<lparr>t_rotation = 0, t_scaleX = 1, t_scaleY = 1, t_skewX = 0, t_skewY = 0\<rparr>,
       el_layerId = None, el_locked = False, el_visible = True,
       el_body = Text_Body content \<lparr>ts_fontFamily = ''Arial'', ts_fontSize = 10, ts_fontWeight = Normal_Weight,
         ts_fontStyle = Normal_Slant, ts_color = [], ts_opacity = 1, ts_textAlign = Align_Left, ts_lineHeight = 0,
         ts_letterSpacing = 0, ts_underline = False, ts_strikethrough = False, ts_originalFont = None, ts_optional = []\<rparr>,
       el_index = Some k, el_rest = []\<rparr>,
     te_linkUrl = (if content = ''link'' then Some ''https://x'' else None), te_linkPage = None, te_rtl = False, te_segments = 0\<rparr>"

definition demo_runs :: "text_element list" where
  "demo_runs = [demo_run_element ''a'' 0 50 100 ''first line'', demo_run_element ''b'' 1 50 112 ''second line'',
     demo_run_element ''c'' 2 50 300 ''Name:'', demo_run_element ''d'' 3 160 301 ''DUPONT'', demo_run_element ''e'' 4 50 124 ''link'']"

definition demo_groups :: "block_group list" where
  "demo_groups = [Text_group False [0, 1, 4] (Some [[0], [1, 4]])
       \<lparr>gs_align = None, gs_lineHeightMultiple = None, gs_frame = None, gs_firstLineIndentPt = None,
        gs_indentLeftPt = None, gs_spaceBeforePt = None, gs_spaceAfterPt = None, gs_softBreaks = None, gs_direction = None\<rparr>,
     List_group \<lparr>bl_ordered = False, bl_marker = ''-'', bl_items = [\<lparr>bi_level = 0, bi_sourceIndices = [2, 3]\<rparr>]\<rparr>]"

theorem every_run_once_witness:
  "all_once (\<lambda>i. filter text_typed demo_runs ! i) [0..<length (filter text_typed demo_runs)]
      (pageBlockGroupsToParagraphs demo_runs demo_groups)
    \<and> map gr_runs (fst (pageBlockGroupsToParagraphs demo_runs demo_groups)) = [[0, 1]]
    \<and> map gr_lines (fst (pageBlockGroupsToTablesAndLists demo_runs demo_groups)) = [Some [[2, 3]]]
    \<and> map (\<lambda>g. map (\<lambda>r. el_id (te_element r)) (gr_runs g)) (fst (groupTextRunsIntoParagraphs insertion_sort demo_runs)) = [[''a'', ''b'']]"
proof -
  have "map gr_runs (fst (pageBlockGroupsToParagraphs demo_runs demo_groups)) = [[0, 1]]"
    "map gr_lines (fst (pageBlockGroupsToTablesAndLists demo_runs demo_groups)) = [Some [[2, 3]]]"
    "map (\<lambda>g. map (\<lambda>r. el_id (te_element r)) (gr_runs g)) (fst (groupTextRunsIntoParagraphs insertion_sort demo_runs)) = [[''a'', ''b'']]"
    by code_simp+
  then show ?thesis
    using every_run_once [of insertion_sort demo_runs demo_groups, OF mset_insertion_sort] by simp
qed

text \<open>Two lines of a group found by position are never on the same height.\<close>

lemma continues_below: "continuesParagraph p c \<Longrightarrow> te_y p < te_y c"
proof -
  assume c: "continuesParagraph p c"
  then have "0 < ts_fontSize (te_style p)"
    by (auto simp: continuesParagraph_def sameParagraphStyle_def Let_def split: if_splits)
  moreover have "size_or_12 p * (4 / 5) \<le> te_y c - te_y p"
    using c by (auto simp: continuesParagraph_def Let_def not_less split: if_splits)
  ultimately show ?thesis by (simp add: size_or_12_def split: if_splits)
qed

lemma extend_group_descends: "sorted_wrt (<) (map te_y (p # fst (extend_group p rs)))"
proof (induction rs arbitrary: p)
  case (Cons c rs)
  obtain g r where p: "extend_group p rs = (g, r)" by fastforce
  obtain g' r' where c: "extend_group c rs = (g', r')" by fastforce
  show ?case
    using Cons.IH [of p] Cons.IH [of c] continues_below [of p c] by (auto simp: p c intro: less_trans)
qed simp

lemma heuristic_lines_descend:
  assumes "g \<in> set (fst (group_loop rs))"
  shows "sorted_wrt (<) (map te_y (gr_runs g))"
  using assms
proof (induction rs rule: group_loop.induct)
  case (2 start rest)
  show ?case
    using 2 extend_group_descends [of start rest]
    by (auto simp: plain_group_def split: prod.splits if_splits)
qed simp

text \<open>What the removal of doubled text keeps has no twins in it, and what it drops has a twin that stays.\<close>

definition twins :: "text_element \<Rightarrow> text_element \<Rightarrow> bool" where
  "twins a b \<longleftrightarrow> text_typed a \<and> text_typed b \<and> text_signature a = text_signature b \<and> near (te_x a, te_y a) (te_x b, te_y b)"

definition seen_of :: "(signature, (jsnum \<times> jsnum) list) jsmap \<Rightarrow> text_element list \<Rightarrow> bool" where
  "seen_of seen kept \<longleftrightarrow> (\<forall>sig. (case map_get seen sig of None \<Rightarrow> {} | Some ps \<Rightarrow> set ps)
     = {(te_x t, te_y t) | t. t \<in> set kept \<and> text_typed t \<and> text_signature t = sig})"

lemma dedupe_ok:
  "seen_of seen kept \<Longrightarrow> sorted_wrt (\<lambda>a b. \<not> twins a b) kept \<Longrightarrow>
   sorted_wrt (\<lambda>a b. \<not> twins a b) (kept @ dedupe seen rest)
   \<and> (\<forall>t\<in>set rest. t \<in> set (dedupe seen rest) \<or> (\<exists>k\<in>set (kept @ dedupe seen rest). twins k t))"
proof (induction seen rest arbitrary: kept rule: dedupe.induct)
  case (2 seen t rest)
  let ?sig = "text_signature t" and ?here = "(te_x t, te_y t)"
  let ?ps = "case map_get seen ?sig of None \<Rightarrow> [] | Some ps \<Rightarrow> ps"
  have ps: "set ?ps = {(te_x k, te_y k) | k. k \<in> set kept \<and> text_typed k \<and> text_signature k = ?sig}"
    using 2(5) [unfolded seen_of_def, rule_format, of ?sig] by (cases "map_get seen ?sig") auto
  consider (other) "\<not> text_typed t" | (twin) "text_typed t" "list_ex (\<lambda>p. near p ?here) ?ps"
    | (new) "text_typed t" "\<not> list_ex (\<lambda>p. near p ?here) ?ps" by blast
  then show ?case
  proof cases
    case other
    have "seen_of seen (kept @ [t])" using 2(5) other by (auto simp: seen_of_def)
    moreover have "sorted_wrt (\<lambda>a b. \<not> twins a b) (kept @ [t])"
      using 2(6) other by (auto simp: sorted_wrt_append twins_def)
    ultimately show ?thesis using 2(1) [OF other, of "kept @ [t]"] other by auto
  next
    case twin
    then obtain k where k: "k \<in> set kept" "twins k t"
      using ps by (auto simp: list_ex_iff twins_def)
    have d: "dedupe seen (t # rest) = dedupe seen rest"
      using twin by (auto simp: Let_def split: option.splits)
    obtain qs where q: "map_get seen ?sig = Some qs" using twin by (cases "map_get seen ?sig") auto
    have "sorted_wrt (\<lambda>a b. \<not> twins a b) (kept @ dedupe seen rest)
      \<and> (\<forall>t\<in>set rest. t \<in> set (dedupe seen rest) \<or> (\<exists>k\<in>set (kept @ dedupe seen rest). twins k t))"
      using twin q 2(3) [OF _ refl refl q] 2(5,6) by auto
    then show ?thesis unfolding d using k by auto
  next
    case new
    let ?seen = "AList.update ?sig (?ps @ [?here]) seen"
    have d: "dedupe seen (t # rest) = t # dedupe ?seen rest"
      using new by (auto simp: Let_def split: option.splits)
    have "seen_of ?seen (kept @ [t])"
      unfolding seen_of_def
    proof (intro allI)
      fix sig
      show "(case map_get ?seen sig of None \<Rightarrow> {} | Some ps \<Rightarrow> set ps)
        = {(te_x k, te_y k) | k. k \<in> set (kept @ [t]) \<and> text_typed k \<and> text_signature k = sig}"
      proof (cases "sig = ?sig")
        case True
        then show ?thesis using ps new(1) by (auto simp: js_simps)
      next
        case False
        have "(case map_get seen sig of None \<Rightarrow> {} | Some ps \<Rightarrow> set ps)
          = {(te_x k, te_y k) | k. k \<in> set kept \<and> text_typed k \<and> text_signature k = sig}"
          using 2(5) unfolding seen_of_def by blast
        with False show ?thesis by (auto simp: js_simps)
      qed
    qed
    moreover have "\<not> twins k t" if "k \<in> set kept" for k
      using that new ps by (auto simp: twins_def list_ex_iff)
    then have "sorted_wrt (\<lambda>a b. \<not> twins a b) (kept @ [t])"
      using 2(6) by (simp add: sorted_wrt_append)
    moreover have "seen_of ?seen (kept @ [t]) \<Longrightarrow> sorted_wrt (\<lambda>a b. \<not> twins a b) (kept @ [t]) \<Longrightarrow>
      sorted_wrt (\<lambda>a b. \<not> twins a b) ((kept @ [t]) @ dedupe ?seen rest)
      \<and> (\<forall>u\<in>set rest. u \<in> set (dedupe ?seen rest) \<or> (\<exists>k\<in>set ((kept @ [t]) @ dedupe ?seen rest). twins k u))"
      using 2(2) [where kept = "kept @ [t]", OF _ refl refl] 2(4) [where kept = "kept @ [t]", OF _ refl refl] new
      by (cases "map_get seen ?sig") auto
    ultimately show ?thesis unfolding d by auto
  qed
qed auto

lemma overlay_has_no_twins:
  "sorted_wrt (\<lambda>a b. \<not> twins a b) (dedupedElements elements)
   \<and> (\<forall>t\<in>set elements. t \<in> set (dedupedElements elements) \<or> (\<exists>k\<in>set (dedupedElements elements). twins k t))"
  using dedupe_ok [of "[]" "[]" "sort_key layerRank elements"] by (simp add: dedupedElements_def seen_of_def)

text \<open>A group that may be edited as one block does not span unrelated parts of a page: between its
  topmost and its lowest line there are at most seven and a half font sizes per line.\<close>

lemma sum_differences:
  "xs \<noteq> [] \<Longrightarrow> sum_list (differences xs) = last xs - hd xs"
  unfolding differences_def by (induction xs rule: induct_list012) auto

lemma length_differences: "length (differences xs) = length xs - 1"
  by (simp add: differences_def)

lemma sorted_span:
  assumes "sorted xs" "x \<in> set xs" "y \<in> set xs"
  shows "y - x \<le> last xs - hd (xs :: jsnum list)"
proof -
  have "hd xs \<le> x" using assms(1,2) by (cases xs) auto
  moreover have "y \<le> last xs"
    using assms(1,3) by (cases xs rule: rev_cases) (auto simp: sorted_append)
  ultimately show ?thesis by simp
qed

lemma coherent_group_extent:
  assumes "isCoherentLineGroup ls" and two: "2 \<le> length (filter (\<lambda>l. length l > 0) ls)"
    and l: "a \<in> set ls" "b \<in> set ls" "a \<noteq> []" "b \<noteq> []"
  shows "line_top b - line_top a \<le> of_nat (length (filter (\<lambda>l. length l > 0) ls) - 1)
    * (15 / 2 * or_12 (lower_median (map size_or_12 (concat ls))))"
proof -
  let ?ne = "filter (\<lambda>l. length l > 0) ls"
  let ?tops = "sort (map line_top ?ne)" and ?fs = "or_12 (lower_median (map size_or_12 (concat ls)))"
  have c: "concat ?ne = concat ls" by (induction ls) auto
  have "2 \<le> length (concat ls)"
  proof -
    obtain x y zs where e: "?ne = x # y # zs" using two by (cases ?ne; cases "tl ?ne") auto
    then have "x \<in> set ?ne" "y \<in> set ?ne" by simp_all
    then have "x \<noteq> []" "y \<noteq> []" by auto
    then have "2 \<le> length (concat ?ne)" unfolding e by (cases x; cases y) auto
    then show ?thesis by (simp only: c)
  qed
  then have "\<not> length (concat ls) < 2" "length ?ne \<noteq> 0" "length ?ne \<noteq> 1" using two by auto
  then have "list_all (\<lambda>g. g \<le> lower_median (differences ?tops) * (5 / 2)) (differences ?tops)"
    "lower_median (differences ?tops) \<le> ?fs * 3"
    using assms(1) unfolding isCoherentLineGroup_def Let_def c
    by (auto simp: list_ex_iff list_all_iff not_less split: if_splits)
  then have "\<forall>g\<in>set (differences ?tops). g \<le> 15 / 2 * ?fs"
    by (auto simp: list_all_iff)
  then have "sum_list (differences ?tops) \<le> of_nat (length (differences ?tops)) * (15 / 2 * ?fs)"
    using sum_list_mono [of "differences ?tops" "\<lambda>g. g" "\<lambda>_. 15 / 2 * ?fs"]
    by (simp add: sum_list_triv)
  moreover have "line_top b - line_top a \<le> last ?tops - hd ?tops"
    by (rule sorted_span) (use l in auto)
  moreover have "?tops \<noteq> []" using two by (metis length_0_conv length_map length_sort not_numeral_le_zero)
  ultimately show ?thesis by (simp add: sum_differences length_differences)
qed

end
