(* ===== verification/Paragraph_Session.thy ===== *)
theory Paragraph_Session
  imports Paragraph_Groups Text_Runs "HOL-Library.Sublist"
begin

text \<open>
  The edit session of a paragraph: a double click on a member of a group swaps the objects of the
  group for one text box (\<open>beginParagraphEditSession\<close> of \<open>components/editor/render-elements.ts\<close>), and
  leaving it maps the text of the box back onto the runs (\<open>commitParagraphSession\<close> of
  \<open>components/editor/lib/fabric-element-io.ts\<close>), with the handler of \<open>editor-canvas.tsx\<close>. The fonts a
  style resolves to, the way the canvas library breaks the text of a box into lines, the ids of new
  elements and the font id in the optional part of a style are arguments. An object of the canvas has
  an identity, a number here.
\<close>

section \<open>Joining the runs of a line\<close>

definition needs_space :: "string \<Rightarrow> string \<Rightarrow> bool" where
  "needs_space out piece \<longleftrightarrow> length out > 0 \<and> \<not> js_space (last out) \<and> \<not> js_space (hd piece)"

definition spaced :: "string \<Rightarrow> string \<Rightarrow> string" where
  "spaced out piece = (if needs_space out piece then out @ '' '' else out)"

definition join_step :: "string \<Rightarrow> string \<Rightarrow> string" where
  "join_step piece out = (if length piece = 0 then out else spaced out piece @ piece)"

definition joinLineRunContents :: "string list \<Rightarrow> string" where
  "joinLineRunContents pieces = fold join_step pieces []"

text \<open>Where the pieces lie in the joined line.\<close>

fun char_ranges :: "string \<Rightarrow> string list \<Rightarrow> (nat \<times> nat) option list" where
  "char_ranges out [] = []"
| "char_ranges out (piece # pieces) =
     (if length piece = 0 then None # char_ranges out pieces
      else Some (length (spaced out piece), length (spaced out piece) + length piece)
        # char_ranges (spaced out piece @ piece) pieces)"

section \<open>Runs, fonts and the text box\<close>

record paragraph_run =
  pu_elementId :: uuid
  pu_index :: "int option"
  pu_bounds :: bounds
  pu_content :: string

record session_line_run = paragraph_run +
  lu_style :: "text_style option"

record session_char = fabric_char +
  fc_charSpacing :: "jsnum option"

type_synonym session_styles = "(nat, (nat, session_char) jsmap) jsmap"

record resolved_font =
  rf_fontFamily :: string
  rf_fontWeight :: fabric_weight
  rf_fontStyle :: string

text \<open>The live text box with the data the session keeps on it.\<close>

record session_box =
  sx_left :: jsnum
  sx_top :: jsnum
  sx_width :: jsnum
  sx_scaleX :: jsnum
  sx_angle :: jsnum
  sx_skewX :: jsnum
  sx_skewY :: jsnum
  sx_selectable :: bool
  sx_visible :: bool
  sx_text :: string
  sx_textLines :: "string list option"
  sx_styles :: "session_styles option"
  sx_styleMap :: "(nat, nat \<times> nat) jsmap option"
  sx_fontSize :: jsnum
  sx_fontFamily :: string
  sx_fontWeight :: fabric_weight
  sx_fontStyle :: string
  sx_fill :: string
  sx_opacity :: jsnum
  sx_textAlign :: text_align
  sx_lineHeight :: jsnum
  sx_charSpacing :: jsnum
  sx_underline :: bool
  sx_linethrough :: bool
  sx_elementId :: uuid
  sx_index :: "int option"
  sx_originalFont :: "string option"
  sx_fontId :: "string option"
  sx_groupId :: string
  sx_paragraphRuns :: "paragraph_run list option"
  sx_lineRuns :: "session_line_run list list option"
  sx_sessionLineTexts :: "string list option"
  sx_sessionOriginalText :: "string option"
  sx_sessionOrigin :: "(jsnum \<times> jsnum) option"

text \<open>What is not in the repository: the fonts, the line breaking and the part of a style that travels unread.\<close>

record text_services =
  sv_resolveTextFont :: "text_style \<Rightarrow> string \<Rightarrow> resolved_font"
  sv_initDimensions :: "session_box \<Rightarrow> string list \<times> (nat, nat \<times> nat) jsmap"
  sv_fontId :: "text_style \<Rightarrow> string option"
  sv_optional :: "string option \<Rightarrow> string"

section \<open>The canvas\<close>

datatype canvas_object =
    Plain_object (object_ref: nat) "group_tag option"
  | Session_object (object_ref: nat) session_box

record session_canvas =
  cn_objects :: "canvas_object list"
  cn_restore :: "(nat, (canvas_object \<times> nat) list) jsmap"
  cn_active :: "nat option"

definition canvas_remove :: "canvas_object \<Rightarrow> canvas_object list \<Rightarrow> canvas_object list" where
  "canvas_remove ob obs = filter (\<lambda>x. object_ref x \<noteq> object_ref ob) obs"

fun is_member :: "string \<Rightarrow> canvas_object \<Rightarrow> bool" where
  "is_member groupId (Plain_object r (Some tag)) = (gt_groupId tag = groupId)"
| "is_member groupId _ = False"

definition members_of :: "string \<Rightarrow> canvas_object list \<Rightarrow> (canvas_object \<times> nat) list" where
  "members_of groupId obs = filter (\<lambda>m. is_member groupId (fst m)) (zip obs [0..<length obs])"

section \<open>Opening a session\<close>

definition text_colour :: "text_style \<Rightarrow> string \<Rightarrow> string" where
  "text_colour style fallback = (if ts_color style = [] then fallback else ts_color style)"

definition session_line_height :: "group_tag \<Rightarrow> text_element list list \<Rightarrow> jsnum \<Rightarrow> jsnum" where
  "session_line_height tag ls baseFontSize =
     (let gaps = filter (\<lambda>g. g > 1 / 2) (differences (sort (map line_top ls))) in
      if length gaps > 0 \<and> baseFontSize > 0 then min 3 (max (4 / 5) (lower_median gaps / baseFontSize))
      else case gt_lineHeightMultiple tag of Some m \<Rightarrow> m | None \<Rightarrow> 6 / 5)"

definition char_style :: "text_services \<Rightarrow> string \<Rightarrow> text_element \<Rightarrow> session_char" where
  "char_style sv textColour run =
     (let resolved = sv_resolveTextFont sv (te_style run) (te_content run) in
      \<lparr>fc_fontWeight = Some (rf_fontWeight resolved), fc_fontStyle = Some (rf_fontStyle resolved),
       fc_underline = Some (ts_underline (te_style run)), fc_linethrough = Some (ts_strikethrough (te_style run)),
       fc_fill = Some (text_colour (te_style run) textColour), fc_fontSize = Some (ts_fontSize (te_style run)),
       fc_fontFamily = Some (rf_fontFamily resolved), fc_charSpacing = None\<rparr>)"

text \<open>The styles of one line: every character of a run has the style of the run, a joining space has none.\<close>

fun line_char_styles :: "text_services \<Rightarrow> string \<Rightarrow> string \<Rightarrow> text_element list \<Rightarrow> (nat, session_char) jsmap" where
  "line_char_styles sv textColour out [] = []"
| "line_char_styles sv textColour out (run # runs) =
     (let piece = te_content run; out' = spaced out piece in
      if length piece = 0 then line_char_styles sv textColour out runs
      else map (\<lambda>k. (length out' + k, char_style sv textColour run)) [0..<length piece]
        @ line_char_styles sv textColour (out' @ piece) runs)"

definition all_char_styles :: "text_services \<Rightarrow> string \<Rightarrow> text_element list list \<Rightarrow> session_styles" where
  "all_char_styles sv textColour ls =
     filter (\<lambda>(li, cs). length cs > 0) (map_index (\<lambda>li line. (li, line_char_styles sv textColour [] line)) ls)"

text \<open>The box is widened, at most twelve times, until no line of the source wraps.\<close>

definition initDimensions :: "text_services \<Rightarrow> session_box \<Rightarrow> session_box" where
  "initDimensions sv b = b\<lparr>sx_textLines := Some (fst (sv_initDimensions sv b)),
     sx_styleMap := Some (snd (sv_initDimensions sv b))\<rparr>"

definition line_count :: "session_box \<Rightarrow> nat \<Rightarrow> nat" where
  "line_count b expected = (case sx_textLines b of Some ls \<Rightarrow> length ls | None \<Rightarrow> expected)"

fun widen :: "text_services \<Rightarrow> nat \<Rightarrow> nat \<Rightarrow> session_box \<Rightarrow> session_box" where
  "widen sv expected 0 b = b"
| "widen sv expected (Suc n) b =
     (if line_count b expected > expected
      then widen sv expected n (initDimensions sv (b\<lparr>sx_width := sx_width b * (27 / 25)\<rparr>)) else b)"

definition line_run_of :: "text_element \<Rightarrow> session_line_run" where
  "line_run_of r = \<lparr>pu_elementId = el_id (te_element r), pu_index = el_index (te_element r),
     pu_bounds = el_bounds (te_element r), pu_content = te_content r, lu_style = Some (te_style r)\<rparr>"

definition session_box_of :: "text_services \<Rightarrow> group_tag \<Rightarrow> text_element list list \<Rightarrow> session_box" where
  "session_box_of sv tag ls =
     (let r0 = hd (hd ls); style = te_style r0; allRuns = concat ls;
          textColour = text_colour style ''#000000'';
          lineTexts = map (\<lambda>l. joinLineRunContents (map te_content l)) ls;
          content = js_join ''\<newline>'' lineTexts;
          baseFont = sv_resolveTextFont sv style content;
          unionLeft = js_min (map te_x allRuns);
          unionRight = js_max (map (\<lambda>r. te_x r + te_width r) allRuns);
          left = (case gt_frame tag of Some f \<Rightarrow> b_x f | None \<Rightarrow> unionLeft);
          upper = (case gt_frame tag of Some f \<Rightarrow> b_y f | None \<Rightarrow> js_min (map te_y allRuns));
          styles = all_char_styles sv textColour ls; lineRuns = map (map line_run_of) ls
      in widen sv (length lineTexts) 12 (initDimensions sv
       \<lparr>sx_left = left, sx_top = upper,
        sx_width = max 1 (case gt_frame tag of Some f \<Rightarrow> b_width f | None \<Rightarrow> unionRight - unionLeft),
        sx_scaleX = 1, sx_angle = t_rotation (el_transform (te_element r0)), sx_skewX = 0, sx_skewY = 0,
        sx_selectable = True, sx_visible = True, sx_text = content, sx_textLines = None,
        sx_styles = Some styles, sx_styleMap = None,
        sx_fontSize = ts_fontSize style, sx_fontFamily = rf_fontFamily baseFont,
        sx_fontWeight = rf_fontWeight baseFont, sx_fontStyle = rf_fontStyle baseFont, sx_fill = textColour,
        sx_opacity = ts_opacity style,
        sx_textAlign = (case gt_align tag of Some a \<Rightarrow> a | None \<Rightarrow> ts_textAlign style),
        sx_lineHeight = session_line_height tag ls (ts_fontSize style),
        sx_charSpacing = ts_letterSpacing style * 10, sx_underline = ts_underline style,
        sx_linethrough = ts_strikethrough style, sx_elementId = el_id (te_element r0),
        sx_index = el_index (te_element r0), sx_originalFont = ts_originalFont style,
        sx_fontId = sv_fontId sv style, sx_groupId = gt_groupId tag,
        sx_paragraphRuns = Some (map paragraph_run.truncate (concat lineRuns)), sx_lineRuns = Some lineRuns,
        sx_sessionLineTexts = Some lineTexts, sx_sessionOriginalText = Some content,
        sx_sessionOrigin = Some (left, upper)\<rparr>))"

text \<open>The clicked object is a member of a group that may be edited as a whole; the new box has the number \<open>ref\<close>.\<close>

definition beginParagraphEditSession ::
  "text_services \<Rightarrow> nat \<Rightarrow> group_tag option \<Rightarrow> session_canvas \<Rightarrow> session_canvas \<times> session_box option" where
  "beginParagraphEditSession sv ref clicked c =
     (case clicked of None \<Rightarrow> (c, None)
      | Some tag \<Rightarrow>
        if \<not> gt_sessionable tag then (c, None)
        else let ls = filter (\<lambda>l. length l > 0) (gt_lines tag); members = members_of (gt_groupId tag) (cn_objects c) in
          if length ls = 0 \<or> length members = 0 then (c, None)
          else let box = session_box_of sv tag ls in
            (c\<lparr>cn_objects := fold (\<lambda>m. canvas_remove (fst m)) members (cn_objects c) @ [Session_object ref box],
               cn_restore := AList.update ref members (cn_restore c), cn_active := Some ref\<rparr>, Some box))"

section \<open>Leaving a session unchanged\<close>

definition insert_at :: "canvas_object \<times> nat \<Rightarrow> canvas_object list \<Rightarrow> canvas_object list" where
  "insert_at m obs = splice_ins (min (snd m) (length obs)) (fst m) obs"

definition restoreParagraphEditSession :: "canvas_object \<Rightarrow> session_canvas \<Rightarrow> session_canvas \<times> bool" where
  "restoreParagraphEditSession sessionObj c =
     (case map_get (cn_restore c) (object_ref sessionObj) of
        None \<Rightarrow> (c, False)
      | Some members \<Rightarrow>
        (c\<lparr>cn_restore := AList.delete (object_ref sessionObj) (cn_restore c),
           cn_objects := fold insert_at (sort_key snd members) (canvas_remove sessionObj (cn_objects c)),
           cn_active := None\<rparr>, True))"

definition sealParagraphEditSession :: "canvas_object \<Rightarrow> session_canvas \<Rightarrow> session_canvas" where
  "sealParagraphEditSession sessionObj c = c\<lparr>cn_restore := AList.delete (object_ref sessionObj) (cn_restore c)\<rparr>"

section \<open>Mapping an edited line onto its runs\<close>

fun common_prefix :: "'a list \<Rightarrow> 'a list \<Rightarrow> nat" where
  "common_prefix (x # xs) (y # ys) = (if x = y then Suc (common_prefix xs ys) else 0)"
| "common_prefix _ _ = 0"

definition lineRunCharRanges :: "session_line_run list \<Rightarrow> (nat \<times> nat) option list" where
  "lineRunCharRanges line = char_ranges [] (map pu_content line)"

definition range_such :: "(nat \<Rightarrow> nat \<Rightarrow> bool) \<Rightarrow> (nat \<times> nat) option list \<Rightarrow> nat option" where
  "range_such P ranges = find_index (\<lambda>r. case r of Some (a, b) \<Rightarrow> P a b | None \<Rightarrow> False) ranges"

definition target_run :: "(nat \<times> nat) option list \<Rightarrow> nat \<Rightarrow> nat \<Rightarrow> nat option" where
  "target_run ranges p oldEnd =
     (if oldEnd > p then range_such (\<lambda>a b. a \<le> p \<and> oldEnd \<le> b) ranges
      else case range_such (\<lambda>a b. a < p \<and> p < b) ranges of
          Some k \<Rightarrow> Some k
        | None \<Rightarrow> (case range_such (\<lambda>a b. b = p) ranges of
              Some k \<Rightarrow> Some k
            | None \<Rightarrow> range_such (\<lambda>a b. a = p) ranges))"

definition mapLineEditToSingleRun :: "session_line_run list \<Rightarrow> string \<Rightarrow> string \<Rightarrow> (nat \<times> string) option" where
  "mapLineEditToSingleRun line oldText newText =
     (if length line = 0 \<or> oldText = newText then None
      else if joinLineRunContents (map pu_content line) \<noteq> oldText then None
      else let ranges = lineRunCharRanges line; p = common_prefix oldText newText;
               maxS = min (length oldText) (length newText) - p;
               s = min maxS (common_prefix (rev oldText) (rev newText));
               oldEnd = length oldText - s; newEnd = length newText - s in
        case target_run ranges p oldEnd of
          None \<Rightarrow> None
        | Some k \<Rightarrow> (case ranges ! k of
              None \<Rightarrow> None
            | Some (a, b) \<Rightarrow> let piece = pu_content (line ! k) in
                Some (k, take (p - a) piece @ take (newEnd - p) (drop p newText) @ drop (oldEnd - a) piece)))"

section \<open>The elements of a commit\<close>

definition isBoldFontWeight :: "fabric_weight \<Rightarrow> bool" where
  "isBoldFontWeight w = (case w of
     Weight_number n \<Rightarrow> n \<ge> 600
   | Weight_text t \<Rightarrow> (if t = [] then False else if t = ''bold'' \<or> t = ''bolder'' then True
       else case js_parse_int 10 t of None \<Rightarrow> False | Some n \<Rightarrow> n \<ge> 600))"

definition box_family :: "session_box \<Rightarrow> string" where
  "box_family tb = (let f = (case sx_originalFont tb of Some f \<Rightarrow> f | None \<Rightarrow> sx_fontFamily tb) in if f = [] then ''Arial'' else f)"

definition or_number :: "jsnum \<Rightarrow> jsnum \<Rightarrow> jsnum" where
  "or_number x fallback = (if x = 0 then fallback else x)"

definition box_colour :: "session_box \<Rightarrow> string" where
  "box_colour tb = (if sx_fill tb = [] then ''#000000'' else sx_fill tb)"

text \<open>The style of the box itself; the font id counts when it is not empty.\<close>

definition box_style :: "text_services \<Rightarrow> session_box \<Rightarrow> string \<Rightarrow> jsnum \<Rightarrow> text_style" where
  "box_style sv tb family fontSize =
     \<lparr>ts_fontFamily = family, ts_fontSize = fontSize,
      ts_fontWeight = (if isBoldFontWeight (sx_fontWeight tb) then Bold_Weight else Normal_Weight),
      ts_fontStyle = (if sx_fontStyle tb = ''italic'' then Italic_Slant else Normal_Slant),
      ts_color = box_colour tb, ts_opacity = sx_opacity tb, ts_textAlign = sx_textAlign tb,
      ts_lineHeight = or_number (sx_lineHeight tb) (6 / 5), ts_letterSpacing = sx_charSpacing tb,
      ts_underline = sx_underline tb, ts_strikethrough = sx_linethrough tb, ts_originalFont = sx_originalFont tb,
      ts_optional = sv_optional sv (if sx_fontId tb = Some [] then None else sx_fontId tb)\<rparr>"

definition text_box_element :: "session_box \<Rightarrow> uuid \<Rightarrow> bounds \<Rightarrow> bool \<Rightarrow> string \<Rightarrow> text_style \<Rightarrow> int option \<Rightarrow> element" where
  "text_box_element tb i b locked content style ix = \<lparr>el_id = i, el_bounds = b,
     el_transform = \<lparr>t_rotation = sx_angle tb, t_scaleX = 1, t_scaleY = 1, t_skewX = sx_skewX tb, t_skewY = sx_skewY tb\<rparr>,
     el_layerId = None, el_locked = locked, el_visible = sx_visible tb, el_body = Text_Body content style,
     el_index = ix, el_rest = []\<rparr>"

definition shift_bounds :: "jsnum \<Rightarrow> jsnum \<Rightarrow> bounds \<Rightarrow> bounds" where
  "shift_bounds dx dy b = b\<lparr>b_x := b_x b + dx, b_y := b_y b + dy\<rparr>"

definition sessionRunToElement ::
  "text_services \<Rightarrow> session_box \<Rightarrow> session_line_run \<Rightarrow> string \<Rightarrow> jsnum \<Rightarrow> jsnum \<Rightarrow> element" where
  "sessionRunToElement sv tb run content dx dy =
     text_box_element tb (pu_elementId run) (shift_bounds dx dy (pu_bounds run)) False content
       (case lu_style run of Some s \<Rightarrow> s | None \<Rightarrow> box_style sv tb (box_family tb) (sx_fontSize tb)) (pu_index run)"

datatype session_commit = Unchanged | Update "element list" | Reflow "uuid list" "element list"

definition line_elements :: "text_services \<Rightarrow> session_box \<Rightarrow> bool \<Rightarrow> jsnum \<Rightarrow> jsnum \<Rightarrow> session_line_run list
    \<Rightarrow> string option \<Rightarrow> string option \<Rightarrow> element list" where
  "line_elements sv tb moved dx dy line old new =
     (let text_of = (\<lambda>t. case t of Some s \<Rightarrow> s | None \<Rightarrow> []);
          kept = (\<lambda>run. sessionRunToElement sv tb run (pu_content run) dx dy) in
      if length line = 0 then []
      else if new = old \<and> \<not> moved then []
      else if new \<noteq> old then
        (case mapLineEditToSingleRun line (text_of old) (text_of new) of
           Some (k, content) \<Rightarrow> concat (map_index (\<lambda>j run.
               if j = k then [sessionRunToElement sv tb run content dx dy]
               else if moved then [kept run] else []) line)
         | None \<Rightarrow> sessionRunToElement sv tb (hd line) (text_of new) dx dy
             # map (\<lambda>run. sessionRunToElement sv tb run [] dx dy) (tl line))
      else map kept line)"

section \<open>Reflow\<close>

text \<open>The style of one character as the reflow groups by it. The key the code joins from the fields with a
  bar is the tuple of the fields; a missing font id counts as an empty one.\<close>

record char_snapshot =
  cs_fontFamily :: string
  cs_fontSize :: jsnum
  cs_fontWeight :: font_weight
  cs_fontStyle :: font_slant
  cs_fill :: string
  cs_underline :: bool
  cs_linethrough :: bool
  cs_charSpacing :: jsnum
  cs_fontId :: "string option"

type_synonym style_key = "string \<times> jsnum \<times> font_weight \<times> font_slant \<times> string \<times> bool \<times> bool \<times> jsnum \<times> string"

definition sessionStyleKey :: "char_snapshot \<Rightarrow> style_key" where
  "sessionStyleKey c = (cs_fontFamily c, cs_fontSize c, cs_fontWeight c, cs_fontStyle c, cs_fill c, cs_underline c,
     cs_linethrough c, cs_charSpacing c, case cs_fontId c of Some i \<Rightarrow> i | None \<Rightarrow> [])"

definition run_style_key :: "text_services \<Rightarrow> text_style \<Rightarrow> style_key" where
  "run_style_key sv t = (ts_fontFamily t, ts_fontSize t, ts_fontWeight t, ts_fontStyle t, ts_color t, ts_underline t,
     ts_strikethrough t, ts_letterSpacing t, case sv_fontId sv t of Some i \<Rightarrow> i | None \<Rightarrow> [])"

definition weight_of :: "fabric_weight \<Rightarrow> font_weight" where
  "weight_of w = (if isBoldFontWeight w then Bold_Weight else Normal_Weight)"

definition slant_of :: "string \<Rightarrow> font_slant" where
  "slant_of t = (if t = ''italic'' then Italic_Slant else Normal_Slant)"

definition or_base :: "'a option \<Rightarrow> 'a \<Rightarrow> 'a" where
  "or_base p base = (case p of Some x \<Rightarrow> x | None \<Rightarrow> base)"

definition snapshot_of :: "session_box \<Rightarrow> session_char option \<Rightarrow> char_snapshot" where
  "snapshot_of tb override =
     (\<lparr>cs_fontFamily = box_family tb,
       cs_fontSize = or_base (case override of Some c \<Rightarrow> fc_fontSize c | None \<Rightarrow> None) (or_number (sx_fontSize tb) 12),
       cs_fontWeight = weight_of (or_base (case override of Some c \<Rightarrow> fc_fontWeight c | None \<Rightarrow> None) (sx_fontWeight tb)),
       cs_fontStyle = slant_of (or_base (case override of Some c \<Rightarrow> fc_fontStyle c | None \<Rightarrow> None) (sx_fontStyle tb)),
       cs_fill = or_base (case override of Some c \<Rightarrow> fc_fill c | None \<Rightarrow> None) (box_colour tb),
       cs_underline = or_base (case override of Some c \<Rightarrow> fc_underline c | None \<Rightarrow> None) (sx_underline tb),
       cs_linethrough = or_base (case override of Some c \<Rightarrow> fc_linethrough c | None \<Rightarrow> None) (sx_linethrough tb),
       cs_charSpacing = or_base (case override of Some c \<Rightarrow> fc_charSpacing c | None \<Rightarrow> None) (sx_charSpacing tb),
       cs_fontId = (if sx_fontId tb = Some [] then None else sx_fontId tb)\<rparr>)"

text \<open>Where a visual line lies in the lines of the text, and the styles recorded there.\<close>

definition map_entry :: "session_box \<Rightarrow> nat \<Rightarrow> nat \<times> nat" where
  "map_entry tb i = (case sx_styleMap tb of None \<Rightarrow> (i, 0)
     | Some m \<Rightarrow> (case map_get m i of Some e \<Rightarrow> e | None \<Rightarrow> (i, 0)))"

definition line_styles_at :: "session_box \<Rightarrow> nat \<Rightarrow> (nat, session_char) jsmap option" where
  "line_styles_at tb i = (case sx_styles tb of None \<Rightarrow> None | Some styles \<Rightarrow> map_get styles (fst (map_entry tb i)))"

definition extractVisualLineCharStyles :: "session_box \<Rightarrow> nat \<Rightarrow> nat \<Rightarrow> char_snapshot list option" where
  "extractVisualLineCharStyles tb i len =
     (if len = 0 then None
      else case line_styles_at tb i of None \<Rightarrow> None
        | Some styles \<Rightarrow> let overrides = map (\<lambda>c. map_get styles (snd (map_entry tb i) + c)) [0..<len] in
            if list_all (\<lambda>v. v = None) overrides then None else Some (map (snapshot_of tb) overrides))"

type_synonym style_vote = "jsnum option \<times> string option \<times> fabric_weight option \<times> string option"

definition vote_of :: "session_char \<Rightarrow> style_vote" where
  "vote_of c = (fc_fontSize c, fc_fill c, fc_fontWeight c, fc_fontStyle c)"

fun count_votes :: "session_char option list \<Rightarrow> (style_vote, nat \<times> session_char) jsmap \<Rightarrow> (style_vote, nat \<times> session_char) jsmap" where
  "count_votes [] votes = votes"
| "count_votes (None # cs) votes = count_votes cs votes"
| "count_votes (Some c # cs) votes = (case map_get votes (vote_of c) of
     Some (n, first) \<Rightarrow> count_votes cs (AList.update (vote_of c) (n + 1, first) votes)
   | None \<Rightarrow> count_votes cs (AList.update (vote_of c) (1, c) votes))"

definition dominantSessionLineStyle :: "text_services \<Rightarrow> session_box \<Rightarrow> nat \<Rightarrow> nat \<Rightarrow> text_style" where
  "dominantSessionLineStyle sv tb i len =
     (let base = box_style sv tb (box_family tb) (or_number (sx_fontSize tb) 12) in
      if len = 0 then base
      else case line_styles_at tb i of None \<Rightarrow> base
        | Some styles \<Rightarrow>
          let votes = count_votes (map (\<lambda>c. map_get styles (snd (map_entry tb i) + c)) [0..<len]) [] in
          if length votes = 0 then base
          else case hd (sort_key (\<lambda>v. - int (fst v)) (map snd votes)) of (n, c) \<Rightarrow>
            if 2 * n \<le> len then base
            else base\<lparr>ts_fontSize := or_base (fc_fontSize c) (ts_fontSize base),
                 ts_color := or_base (fc_fill c) (ts_color base),
                 ts_fontWeight := (case fc_fontWeight c of Some w \<Rightarrow> weight_of w | None \<Rightarrow> ts_fontWeight base),
                 ts_fontStyle := (case fc_fontStyle c of Some t \<Rightarrow> slant_of t | None \<Rightarrow> ts_fontStyle base)\<rparr>)"

text \<open>The parts of a line with one key: the loop of the grouping from position \<open>c\<close> on.\<close>

fun key_slices :: "nat \<Rightarrow> 'k \<Rightarrow> nat \<Rightarrow> 'k list \<Rightarrow> (nat \<times> nat) list" where
  "key_slices runStart currentKey c [] = [(runStart, c)]"
| "key_slices runStart currentKey c (k # ks) =
     (if k \<noteq> currentKey then (runStart, c) # key_slices c k (Suc c) ks else key_slices runStart currentKey (Suc c) ks)"

definition sourceStyleByKey :: "text_services \<Rightarrow> session_line_run list list \<Rightarrow> (style_key, uuid) jsmap" where
  "sourceStyleByKey sv lineRuns = fold (\<lambda>run m. case lu_style run of None \<Rightarrow> m
     | Some t \<Rightarrow> if map_has m (run_style_key sv t) then m else AList.update (run_style_key sv t) (pu_elementId run) m)
     (concat lineRuns) []"

text \<open>The pieces of a visual line: its styled parts, each with the id it reuses, or the line as a whole.\<close>

record reflow_piece =
  rp_reused :: "uuid option"
  rp_text :: string
  rp_style :: text_style

definition slice_style :: "text_services \<Rightarrow> session_box \<Rightarrow> char_snapshot \<Rightarrow> text_style" where
  "slice_style sv tb c =
     \<lparr>ts_fontFamily = cs_fontFamily c, ts_fontSize = cs_fontSize c, ts_fontWeight = cs_fontWeight c,
      ts_fontStyle = cs_fontStyle c, ts_color = cs_fill c, ts_opacity = sx_opacity tb, ts_textAlign = sx_textAlign tb,
      ts_lineHeight = or_number (sx_lineHeight tb) (6 / 5), ts_letterSpacing = cs_charSpacing c,
      ts_underline = cs_underline c, ts_strikethrough = cs_linethrough c, ts_originalFont = sx_originalFont tb,
      ts_optional = sv_optional sv (cs_fontId c)\<rparr>"

definition line_pieces :: "text_services \<Rightarrow> session_box \<Rightarrow> (style_key, uuid) jsmap \<Rightarrow> nat \<Rightarrow> string \<Rightarrow> reflow_piece list" where
  "line_pieces sv tb sources i line =
     (if length line = 0 then []
      else case extractVisualLineCharStyles tb i (length line) of
        None \<Rightarrow> [\<lparr>rp_reused = None, rp_text = line, rp_style = dominantSessionLineStyle sv tb i (length line)\<rparr>]
      | Some cs \<Rightarrow> map (\<lambda>(a, b). \<lparr>rp_reused = map_get sources (sessionStyleKey (cs ! a)),
            rp_text = take (b - a) (drop a line), rp_style = slice_style sv tb (cs ! a)\<rparr>)
          (case map sessionStyleKey cs of [] \<Rightarrow> [] | k # ks \<Rightarrow> key_slices 0 k 1 ks))"

definition piece_height :: "session_box \<Rightarrow> nat \<Rightarrow> string \<Rightarrow> reflow_piece \<Rightarrow> jsnum" where
  "piece_height tb i line piece =
     (if extractVisualLineCharStyles tb i (length line) = None then or_number (sx_fontSize tb) 12
      else ts_fontSize (rp_style piece))"

definition reflow_pieces :: "text_services \<Rightarrow> session_box \<Rightarrow> session_line_run list list \<Rightarrow> string list \<Rightarrow> (bounds \<times> reflow_piece) list" where
  "reflow_pieces sv tb lineRuns visualLines =
     (let baseFontSize = or_number (sx_fontSize tb) 12;
          lineHeight = (if sx_lineHeight tb > 0 then sx_lineHeight tb else 6 / 5);
          lineStep = baseFontSize * lineHeight;
          firstWidth = (case hd lineRuns of [] \<Rightarrow> 0 | r # _ \<Rightarrow> b_width (pu_bounds r));
          blockWidth = or_number (or_number (sx_width tb) firstWidth) 100 * sx_scaleX tb;
          sources = sourceStyleByKey sv lineRuns
      in concat (map_index (\<lambda>i line. map (\<lambda>piece.
           (\<lparr>b_x = sx_left tb, b_y = sx_top tb + of_nat i * lineStep, b_width = blockWidth,
             b_height = piece_height tb i line piece\<rparr>, piece)) (line_pieces sv tb sources i line)) visualLines))"

text \<open>The elements of the pieces; \<open>newId k\<close> is the id generated for the k-th of them.\<close>

definition reflow_elements :: "session_box \<Rightarrow> (nat \<Rightarrow> uuid) \<Rightarrow> (bounds \<times> reflow_piece) list \<Rightarrow> element list" where
  "reflow_elements tb newId pieces = map_index (\<lambda>k (b, piece).
     text_box_element tb (case rp_reused piece of Some i \<Rightarrow> i | None \<Rightarrow> newId k) b False (rp_text piece) (rp_style piece) None) pieces"

section \<open>The commit\<close>

definition session_baseline :: "session_box \<Rightarrow> session_line_run list list \<Rightarrow> string list" where
  "session_baseline tb lineRuns = (case sx_sessionLineTexts tb of Some ts \<Rightarrow> ts
     | None \<Rightarrow> (case sx_sessionOriginalText tb of Some t \<Rightarrow> js_split CHR ''\<newline>'' t
         | None \<Rightarrow> map (\<lambda>line. js_join '' '' (map pu_content line)) lineRuns))"

definition session_shift :: "session_box \<Rightarrow> jsnum \<times> jsnum" where
  "session_shift tb = (case sx_sessionOrigin tb of Some (l, t) \<Rightarrow> (sx_left tb - l, sx_top tb - t) | None \<Rightarrow> (0, 0))"

definition session_moved :: "session_box \<Rightarrow> bool" where
  "session_moved tb \<longleftrightarrow> \<bar>fst (session_shift tb)\<bar> > 1 / 100 \<or> \<bar>snd (session_shift tb)\<bar> > 1 / 100"

definition logical_lines :: "session_box \<Rightarrow> string list" where
  "logical_lines tb = js_split CHR ''\<newline>'' (sx_text tb)"

definition visual_lines :: "session_box \<Rightarrow> string list" where
  "visual_lines tb = (case sx_textLines tb of Some ls \<Rightarrow> if length ls > 0 then ls else logical_lines tb
     | None \<Rightarrow> logical_lines tb)"

definition no_reflow :: "session_box \<Rightarrow> session_line_run list list \<Rightarrow> bool" where
  "no_reflow tb lineRuns \<longleftrightarrow> length (logical_lines tb) = length lineRuns
     \<and> length (visual_lines tb) = length (logical_lines tb)"

definition commitParagraphSession :: "text_services \<Rightarrow> (nat \<Rightarrow> uuid) \<Rightarrow> session_box \<Rightarrow> session_commit" where
  "commitParagraphSession sv newId tb =
     (case sx_lineRuns tb of None \<Rightarrow> Unchanged
      | Some lineRuns \<Rightarrow>
        if length lineRuns = 0 then Unchanged
        else let baseline = session_baseline tb lineRuns; moved = session_moved tb;
                 dx = fst (session_shift tb); dy = snd (session_shift tb); logical = logical_lines tb in
          if logical = baseline \<and> \<not> moved then Unchanged
          else if no_reflow tb lineRuns then
            Update (concat (map_index (\<lambda>i line. line_elements sv tb moved dx dy line
               (js_nth baseline (int i)) (js_nth logical (int i))) lineRuns))
          else Reflow (map pu_elementId (concat lineRuns))
               (reflow_elements tb newId (reflow_pieces sv tb lineRuns (visual_lines tb))))"

section \<open>After a commit\<close>

definition refresh_line :: "string option \<Rightarrow> string option \<Rightarrow> session_line_run list \<Rightarrow> session_line_run list" where
  "refresh_line old new line =
     (case new of None \<Rightarrow> line
      | Some newText \<Rightarrow>
        if old = Some newText then line
        else case mapLineEditToSingleRun line (case old of Some t \<Rightarrow> t | None \<Rightarrow> []) newText of
          Some (k, content) \<Rightarrow> line[k := (line ! k)\<lparr>pu_content := content\<rparr>]
        | None \<Rightarrow> (case line of [] \<Rightarrow> []
            | run # rest \<Rightarrow> run\<lparr>pu_content := newText\<rparr> # map (\<lambda>r. r\<lparr>pu_content := []\<rparr>) rest))"

fun added_run :: "element \<Rightarrow> session_line_run option" where
  "added_run e = (case el_body e of
     Text_Body content style \<Rightarrow> Some \<lparr>pu_elementId = el_id e, pu_index = None, pu_bounds = el_bounds e,
       pu_content = content, lu_style = Some style\<rparr>
   | _ \<Rightarrow> None)"

definition refreshParagraphSessionAfterCommit :: "session_commit \<Rightarrow> session_box \<Rightarrow> session_box" where
  "refreshParagraphSessionAfterCommit commit tb =
     (let logical = logical_lines tb;
          tb1 = (case commit of
              Update es \<Rightarrow> (case sx_lineRuns tb of None \<Rightarrow> tb
                | Some lineRuns \<Rightarrow> let baseline = (case sx_sessionLineTexts tb of Some ts \<Rightarrow> ts | None \<Rightarrow> []) in
                    tb\<lparr>sx_lineRuns := Some (map_index (\<lambda>i line.
                      refresh_line (js_nth baseline (int i)) (js_nth logical (int i)) line) lineRuns)\<rparr>)
            | Reflow removed added \<Rightarrow> let runs = List.map_filter added_run added in
                tb\<lparr>sx_lineRuns := Some (map (\<lambda>r. [r]) runs),
                   sx_paragraphRuns := Some (map paragraph_run.truncate runs)\<rparr>
            | Unchanged \<Rightarrow> tb)
      in tb1\<lparr>sx_sessionLineTexts := Some logical, sx_sessionOriginalText := Some (sx_text tb),
           sx_sessionOrigin := Some (sx_left tb, sx_top tb)\<rparr>)"

text \<open>What leaving the box tells the editor page, with the bounds the canvas remembers per element.\<close>

datatype exit_event = Modified element "bounds option" | Removed uuid | Added element

fun exit_updates :: "element list \<Rightarrow> (uuid, bounds) jsmap \<Rightarrow> (uuid, bounds) jsmap \<times> exit_event list" where
  "exit_updates [] known = (known, [])"
| "exit_updates (e # es) known = (case exit_updates es (AList.update (el_id e) (el_bounds e) known) of
     (known', evs) \<Rightarrow> (known', Modified e (map_get known (el_id e)) # evs))"

definition replace_box :: "nat \<Rightarrow> session_box \<Rightarrow> canvas_object list \<Rightarrow> canvas_object list" where
  "replace_box ref b obs = map (\<lambda>x. if object_ref x = ref then Session_object ref b else x) obs"

definition exit_session :: "text_services \<Rightarrow> (nat \<Rightarrow> uuid) \<Rightarrow> nat \<Rightarrow> session_box \<Rightarrow> session_canvas \<Rightarrow> (uuid, bounds) jsmap
    \<Rightarrow> session_canvas \<times> (uuid, bounds) jsmap \<times> exit_event list" where
  "exit_session sv newId ref tb c known =
     (let sealed = (\<lambda>commit. (sealParagraphEditSession (Session_object ref tb) c)
            \<lparr>cn_objects := replace_box ref (refreshParagraphSessionAfterCommit commit tb) (cn_objects c)\<rparr>);
          commit = commitParagraphSession sv newId tb in
      case commit of
        Unchanged \<Rightarrow> (fst (restoreParagraphEditSession (Session_object ref tb) c), known, [])
      | Update es \<Rightarrow> (case exit_updates es known of (known', evs) \<Rightarrow> (sealed commit, known', evs))
      | Reflow removed added \<Rightarrow> (sealed commit,
          fold (\<lambda>e. AList.update (el_id e) (el_bounds e)) added known, map Removed removed @ map Added added))"

section \<open>Saving a paragraph box\<close>

definition lineToTextElement ::
  "text_services \<Rightarrow> uuid \<Rightarrow> session_box \<Rightarrow> string \<Rightarrow> paragraph_run option \<Rightarrow> bounds \<Rightarrow> jsnum \<Rightarrow> jsnum \<Rightarrow> element" where
  "lineToTextElement sv freshId tb content source fallbackBounds dx dy =
     (let sourceHeight = (case source of Some r \<Rightarrow> b_height (pu_bounds r) | None \<Rightarrow> 0);
          fontSize = or_number (or_number (sx_fontSize tb) sourceHeight) 12;
          original = (case sx_originalFont tb of Some f \<Rightarrow> f | None \<Rightarrow> []);
          family = (if original \<noteq> [] then original else if sx_fontFamily tb \<noteq> [] then sx_fontFamily tb else ''Arial'') in
      text_box_element tb (case source of Some r \<Rightarrow> if pu_elementId r = [] then freshId else pu_elementId r | None \<Rightarrow> freshId)
        (case source of Some r \<Rightarrow> (shift_bounds dx dy (pu_bounds r))\<lparr>b_height := fontSize\<rparr> | None \<Rightarrow> fallbackBounds)
        (\<not> sx_selectable tb) content (box_style sv tb family fontSize)
        (case source of Some r \<Rightarrow> pu_index r | None \<Rightarrow> None))"

definition decompose_paragraph :: "text_services \<Rightarrow> (nat \<Rightarrow> uuid) \<Rightarrow> session_box \<Rightarrow> paragraph_run list \<Rightarrow> element list" where
  "decompose_paragraph sv newId tb runs =
     (let editedLines = logical_lines tb;
          dx = sx_left tb - js_min (map (\<lambda>r. b_x (pu_bounds r)) runs);
          dy = sx_top tb - js_min (map (\<lambda>r. b_y (pu_bounds r)) runs);
          fontSize = or_number (or_number (sx_fontSize tb) (b_height (pu_bounds (hd runs)))) 12;
          lineHeight = (if sx_lineHeight tb > 0 then sx_lineHeight tb else 6 / 5);
          lineStep = fontSize * lineHeight;
          blockWidth = or_number (sx_width tb) (b_width (pu_bounds (hd runs))) * sx_scaleX tb;
          lastSource = pu_bounds (last runs)
      in map_index (\<lambda>i line. lineToTextElement sv (newId i) tb line (js_nth runs (int i))
            \<lparr>b_x = b_x lastSource + dx,
             b_y = b_y lastSource + dy + of_int (int i - int (length runs - 1)) * lineStep,
             b_width = blockWidth, b_height = fontSize\<rparr> dx dy) editedLines
        @ map (\<lambda>r. lineToTextElement sv (newId 0) tb [] (Some r)
            \<lparr>b_x = b_x (pu_bounds r) + dx, b_y = b_y (pu_bounds r) + dy, b_width = b_width (pu_bounds r),
             b_height = fontSize\<rparr> dx dy) (drop (length editedLines) runs))"

text \<open>\<open>fabricObjectToElements\<close> of the box of a paragraph: through its session while that needs no reflow,
  else line by line; \<open>single\<close> is the serialiser of one object.\<close>

definition fabricObjectToElements ::
  "text_services \<Rightarrow> (nat \<Rightarrow> uuid) \<Rightarrow> (session_box \<Rightarrow> element option) \<Rightarrow> session_box \<Rightarrow> element list" where
  "fabricObjectToElements sv newId single tb =
     (let legacy = (case sx_paragraphRuns tb of
            Some runs \<Rightarrow> if length runs = 0 then (case single tb of Some e \<Rightarrow> [e] | None \<Rightarrow> [])
              else decompose_paragraph sv newId tb runs
          | None \<Rightarrow> (case single tb of Some e \<Rightarrow> [e] | None \<Rightarrow> [])) in
      case sx_lineRuns tb of None \<Rightarrow> legacy
      | Some lineRuns \<Rightarrow> (case commitParagraphSession sv newId tb of
            Unchanged \<Rightarrow> []
          | Update es \<Rightarrow> es
          | Reflow _ _ \<Rightarrow> legacy))"

section \<open>Where the runs of a line lie\<close>

lemma join_step_simps [simp]: "join_step [] out = out" "p \<noteq> [] \<Longrightarrow> join_step p out = spaced out p @ p"
  by (simp_all add: join_step_def)

lemma spaced_prefix: "\<exists>s. spaced out p = out @ s"
  by (auto simp: spaced_def)

lemma join_step_prefix: "\<exists>suf. fold join_step pieces out = out @ suf"
proof (induction pieces arbitrary: out)
  case (Cons p ps)
  obtain suf where "fold join_step ps (join_step p out) = join_step p out @ suf" using Cons by blast
  then show ?case using spaced_prefix [of out p] by (cases "p = []") auto
qed simp

lemma length_char_ranges [simp]: "length (char_ranges out pieces) = length pieces"
  by (induction out pieces rule: char_ranges.induct) auto

lemma char_ranges_Some:
  "k < length pieces \<Longrightarrow> char_ranges out pieces ! k = Some (a, b) \<Longrightarrow>
   \<exists>pre suf. fold join_step pieces out = pre @ pieces ! k @ suf \<and> a = length pre \<and> b = length pre + length (pieces ! k)
     \<and> pieces ! k \<noteq> []"
proof (induction out pieces arbitrary: k rule: char_ranges.induct)
  case (2 out piece pieces)
  show ?case
  proof (cases k)
    case 0
    have "piece \<noteq> []" using 2 0 by auto
    moreover obtain suf where "fold join_step pieces (spaced out piece @ piece) = (spaced out piece @ piece) @ suf"
      using join_step_prefix by blast
    ultimately show ?thesis using 2 0 by (intro exI [of _ "spaced out piece"] exI [of _ suf]) auto
  next
    case (Suc j)
    show ?thesis using 2(1,2) [of j] 2(3,4) Suc by (cases "piece = []") auto
  qed
qed simp

lemma range_such_Some:
  "range_such P ranges = Some k \<Longrightarrow> k < length ranges \<and> (\<exists>a b. ranges ! k = Some (a, b) \<and> P a b)"
  unfolding range_such_def by (drule find_index_Some [THEN iffD1]) (auto split: option.splits)

lemma target_run_Some:
  "target_run ranges p oldEnd = Some k \<Longrightarrow> p \<le> oldEnd \<Longrightarrow>
   k < length ranges \<and> (\<exists>a b. ranges ! k = Some (a, b) \<and> (a < b \<longrightarrow> a \<le> p \<and> oldEnd \<le> b))"
  by (auto simp: target_run_def dest!: range_such_Some split: if_splits option.splits)

lemma common_prefix_take:
  "common_prefix xs ys \<le> length xs \<and> common_prefix xs ys \<le> length ys
   \<and> (n \<le> common_prefix xs ys \<longrightarrow> take n xs = take n ys)"
proof (induction xs ys arbitrary: n rule: common_prefix.induct)
  case (1 x xs y ys)
  then show ?case by (cases n) auto
qed auto

lemma common_suffix_drop:
  assumes "s \<le> common_prefix (rev xs) (rev ys)"
  shows "drop (length xs - s) xs = drop (length ys - s) ys"
proof -
  have "take s (rev xs) = take s (rev ys)" using assms common_prefix_take by blast
  then have "rev (take s (rev xs)) = rev (take s (rev ys))" by simp
  then show ?thesis by (simp add: rev_take)
qed

lemma split_window: "p \<le> e \<Longrightarrow> xs = take p xs @ take (e - p) (drop p xs) @ drop e xs"
proof -
  assume "p \<le> e"
  then have "drop e xs = drop (e - p) (drop p xs)" by simp
  then show ?thesis by (simp only: append_take_drop_id)
qed

text \<open>An edit that is mapped onto one run replaces the text of that run inside the line.\<close>

lemma cut_window:
  assumes "old = take p old @ wo @ rest" "new = take p old @ wn @ rest" "length (take p old) = p"
    "old = pre @ piece @ suf" "length pre \<le> p" "p + length wo \<le> length pre + length piece"
  shows "new = pre @ (take (p - length pre) piece @ wn @ drop (p + length wo - length pre) piece) @ suf"
proof -
  have "take p old = pre @ take (p - length pre) piece"
    by (subst assms(4)) (use assms(5,6) in simp)
  moreover have "rest = drop (p + length wo - length pre) piece @ suf"
  proof -
    have "rest = drop (p + length wo) old" by (subst assms(1)) (use assms(3) in simp)
    also have "\<dots> = drop (p + length wo - length pre) piece @ suf"
      by (subst assms(4)) (use assms(5,6) in simp)
    finally show ?thesis .
  qed
  ultimately show ?thesis using assms(2) by simp
qed

lemma line_edit_mapped:
  assumes "mapLineEditToSingleRun line old new = Some (k, content)"
  shows "k < length line \<and> (\<exists>a b pre suf. lineRunCharRanges line ! k = Some (a, b) \<and> a = length pre
    \<and> old = pre @ pu_content (line ! k) @ suf \<and> new = pre @ content @ suf \<and> pu_content (line ! k) \<noteq> [])"
proof -
  let ?ranges = "lineRunCharRanges line" and ?p = "common_prefix old new"
  define s where "s = min (min (length old) (length new) - ?p) (common_prefix (rev old) (rev new))"
  have old: "joinLineRunContents (map pu_content line) = old"
    using assms by (auto simp: mapLineEditToSingleRun_def split: if_splits)
  obtain a b where k: "target_run ?ranges ?p (length old - s) = Some k" "?ranges ! k = Some (a, b)"
    and c: "content = take (?p - a) (pu_content (line ! k)) @ take (length new - s - ?p) (drop ?p new)
      @ drop (length old - s - a) (pu_content (line ! k))"
    using assms by (auto simp: mapLineEditToSingleRun_def Let_def s_def split: if_splits option.splits)
  have p: "?p \<le> length old - s" "?p \<le> length new - s" "?p \<le> length old" "s \<le> length old" "s \<le> length new"
  proof -
    have "?p \<le> length old" "?p \<le> length new" using common_prefix_take by blast+
    moreover have "s \<le> length old - ?p" "s \<le> length new - ?p" by (simp_all add: s_def min_le_iff_disj diff_le_mono)
    ultimately show "?p \<le> length old - s" "?p \<le> length new - s" "?p \<le> length old" "s \<le> length old" "s \<le> length new"
      by linarith+
  qed
  have kl: "k < length line" and ab: "a < b \<Longrightarrow> a \<le> ?p \<and> length old - s \<le> b"
    using target_run_Some [OF k(1) p(1)] k(2) by (auto simp: lineRunCharRanges_def)
  obtain pre suf where ps: "old = pre @ pu_content (line ! k) @ suf" "a = length pre" "b = length pre + length (pu_content (line ! k))"
    and ne: "pu_content (line ! k) \<noteq> []"
    using char_ranges_Some [of k "map pu_content line" "[]" a b] k(2) kl old
    by (auto simp: lineRunCharRanges_def joinLineRunContents_def)
  have t: "take ?p old = take ?p new" and d: "drop (length old - s) old = drop (length new - s) new"
    using common_prefix_take [of old new ?p] common_suffix_drop [of s old new] by (auto simp: s_def)
  have "old = take ?p old @ take (length old - s - ?p) (drop ?p old) @ drop (length old - s) old"
    by (rule split_window) (rule p)
  moreover have "new = take ?p old @ take (length new - s - ?p) (drop ?p new) @ drop (length old - s) old"
    by (subst t, subst d) (rule split_window [OF p(2)])
  ultimately have "new = pre @ (take (?p - length pre) (pu_content (line ! k)) @ take (length new - s - ?p) (drop ?p new)
      @ drop (?p + length (take (length old - s - ?p) (drop ?p old)) - length pre) (pu_content (line ! k))) @ suf"
    by (rule cut_window) (use ps ab ne p in auto)
  moreover have "?p + length (take (length old - s - ?p) (drop ?p old)) = length old - s"
    using p by (simp add: min_def) linarith
  ultimately have "new = pre @ content @ suf" by (simp only: c ps(2))
  then show ?thesis using kl k(2) ps ne by blast
qed

section \<open>What a commit does to the runs\<close>

definition content_of :: "element \<Rightarrow> string" where
  "content_of e = tx_content (el_body e)"

text \<open>The contents of the runs of a line after the elements of a commit were applied, found by their ids.\<close>

definition contents_after :: "element list \<Rightarrow> session_line_run list \<Rightarrow> string list" where
  "contents_after es line = map (\<lambda>r. case find (\<lambda>e. el_id e = pu_elementId r) es of
     Some e \<Rightarrow> content_of e | None \<Rightarrow> pu_content r) line"

text \<open>The element of a run: its own id, index and style, its bounds moved with the box.\<close>

definition for_run :: "jsnum \<Rightarrow> jsnum \<Rightarrow> session_line_run \<Rightarrow> element \<Rightarrow> bool" where
  "for_run dx dy r e \<longleftrightarrow> el_id e = pu_elementId r \<and> el_index e = pu_index r \<and> el_bounds e = shift_bounds dx dy (pu_bounds r)
     \<and> (case lu_style r of Some t \<Rightarrow> el_body e = Text_Body (content_of e) t | None \<Rightarrow> body_type (el_body e) = Ty_text)"

text \<open>A line was rewritten: inside one of its runs, where that run lies in the line, or as a whole in the first.\<close>

definition rewritten :: "session_line_run list \<Rightarrow> string \<Rightarrow> string \<Rightarrow> string list \<Rightarrow> bool" where
  "rewritten line old new contents \<longleftrightarrow>
     (\<exists>k content a b pre suf. k < length line \<and> lineRunCharRanges line ! k = Some (a, b) \<and> a = length pre
        \<and> old = pre @ pu_content (line ! k) @ suf \<and> new = pre @ content @ suf \<and> contents = (map pu_content line)[k := content])
     \<or> contents = new # replicate (length line - 1) []"

lemma session_run_simps [simp]:
  "el_id (sessionRunToElement sv tb r c dx dy) = pu_elementId r"
  "content_of (sessionRunToElement sv tb r c dx dy) = c"
  "for_run dx dy r (sessionRunToElement sv tb r c dx dy)"
  by (simp_all add: sessionRunToElement_def text_box_element_def content_of_def for_run_def box_style_def split: option.split)

text \<open>The part of a line in a commit as the new content of every run that is written.\<close>

definition line_patch :: "bool \<Rightarrow> session_line_run list \<Rightarrow> string option \<Rightarrow> string option \<Rightarrow> string option list" where
  "line_patch moved line old new =
     (let text_of = (\<lambda>t. case t of Some s \<Rightarrow> s | None \<Rightarrow> []) in
      if new = old then map (\<lambda>r. if moved then Some (pu_content r) else None) line
      else case mapLineEditToSingleRun line (text_of old) (text_of new) of
          Some (k, content) \<Rightarrow> (map (\<lambda>r. if moved then Some (pu_content r) else None) line)[k := Some content]
        | None \<Rightarrow> (case line of [] \<Rightarrow> [] | r # rs \<Rightarrow> Some (text_of new) # map (\<lambda>r. Some []) rs))"

fun emit :: "('r \<Rightarrow> 'c \<Rightarrow> 'e) \<Rightarrow> 'r list \<Rightarrow> 'c option list \<Rightarrow> 'e list" where
  "emit mk (r # rs) (Some c # cs) = mk r c # emit mk rs cs"
| "emit mk (r # rs) (None # cs) = emit mk rs cs"
| "emit mk _ _ = []"

definition patched :: "session_line_run list \<Rightarrow> string option list \<Rightarrow> string list" where
  "patched line p = map2 (\<lambda>r c. or_base c (pu_content r)) line p"

lemma length_line_patch [simp]: "length (line_patch moved line old new) = length line"
  by (auto simp: line_patch_def Let_def split: option.split list.split)

lemma map_index_Cons: "map_index f (x # xs) = f 0 x # map_index (\<lambda>i. f (Suc i)) xs"
  by (rule nth_equalityI) (auto simp: js_simps nth_Cons split: nat.split)

lemma map_index_Nil [simp]: "map_index f [] = []"
  by (simp add: map_index_def)

lemma concat_emit:
  "length p = length line \<Longrightarrow>
   (\<And>j. j < length line \<Longrightarrow> f j (line ! j) = (case p ! j of Some c \<Rightarrow> [mk (line ! j) c] | None \<Rightarrow> [])) \<Longrightarrow>
   concat (map_index f line) = emit mk line p"
proof (induction line arbitrary: p f)
  case (Cons r line)
  obtain c p' where p: "p = c # p'" using Cons.prems(1) by (cases p) auto
  have "concat (map_index (\<lambda>i. f (Suc i)) line) = emit mk line p'"
  proof (rule Cons.IH)
    show "f (Suc j) (line ! j) = (case p' ! j of Some c \<Rightarrow> [mk (line ! j) c] | None \<Rightarrow> [])" if "j < length line" for j
      using Cons.prems(2) [of "Suc j"] that p by (simp split: option.splits)
  qed (use Cons.prems(1) p in simp)
  then show ?case using Cons.prems(2) [of 0] by (cases c) (auto simp: p map_index_Cons)
qed simp

lemma emit_all: "emit mk line (map (\<lambda>r. Some (g r)) line) = map (\<lambda>r. mk r (g r)) line"
  by (induction line) auto

lemma emit_none: "emit mk line (map (\<lambda>r. None) line) = []"
  by (induction line) auto

lemma line_elements_emit:
  "line_elements sv tb moved dx dy line old new
    = emit (\<lambda>r c. sessionRunToElement sv tb r c dx dy) line (line_patch moved line old new)"
proof (cases "new = old \<or> line = []")
  case True
  then show ?thesis
    by (auto simp: line_elements_def line_patch_def Let_def emit_all emit_none mapLineEditToSingleRun_def)
next
  case False
  let ?text = "\<lambda>t. case t of Some s \<Rightarrow> s | None \<Rightarrow> ([] :: string)"
  let ?mk = "\<lambda>r c. sessionRunToElement sv tb r c dx dy"
  show ?thesis
  proof (cases "mapLineEditToSingleRun line (?text old) (?text new)")
    case None
    obtain r rs where "line = r # rs" using False by (cases line) auto
    then show ?thesis using False None
      by (simp add: line_elements_def line_patch_def Let_def emit_all [of ?mk _ "\<lambda>r. []"])
  next
    case (Some kc)
    obtain k c where kc: "kc = (k, c)" by (cases kc)
    have k: "k < length line" using line_edit_mapped Some kc by blast
    have "concat (map_index (\<lambda>j run. if j = k then [?mk run c] else if moved then [?mk run (pu_content run)] else []) line)
        = emit ?mk line ((map (\<lambda>r. if moved then Some (pu_content r) else None) line)[k := Some c])"
      by (rule concat_emit) (auto simp: nth_list_update k)
    then show ?thesis using False Some by (simp add: line_elements_def line_patch_def Let_def kc)
  qed
qed

text \<open>What is emitted: in order, one element per run at most, each for its run.\<close>

lemma emit_append:
  "length p = length xs \<Longrightarrow> emit mk (xs @ ys) (p @ q) = emit mk xs p @ emit mk ys q"
  by (induction mk xs p rule: emit.induct) auto

lemma emit_concat:
  "length ps = length ls \<Longrightarrow> (\<And>i. i < length ls \<Longrightarrow> length (ps ! i) = length (ls ! i)) \<Longrightarrow>
   concat (map2 (emit mk) ls ps) = emit mk (concat ls) (concat ps)"
proof (induction ls arbitrary: ps)
  case (Cons l ls)
  obtain p ps' where p: "ps = p # ps'" using Cons.prems(1) by (cases ps) auto
  have "concat (map2 (emit mk) ls ps') = emit mk (concat ls) (concat ps')"
    by (rule Cons.IH) (use Cons.prems(1) Cons.prems(2) [of "Suc i" for i] p in auto)
  then show ?case using Cons.prems(2) [of 0] by (simp add: p emit_append)
qed simp

lemma emit_in: "e \<in> set (emit mk rs cs) \<Longrightarrow> \<exists>r\<in>set rs. \<exists>c. e = mk r c"
  by (induction mk rs cs rule: emit.induct) auto

lemma emit_subseq: "(\<And>r c. g (mk r c) = h r) \<Longrightarrow> subseq (map g (emit mk rs cs)) (map h rs)"
  by (induction mk rs cs rule: emit.induct) auto

lemma emit_full:
  "(\<And>r c. g (mk r c) = h r) \<Longrightarrow> length cs = length rs \<Longrightarrow> None \<notin> set cs \<Longrightarrow> map g (emit mk rs cs) = map h rs"
  by (induction mk rs cs rule: emit.induct) auto

lemma find_emit_notin:
  "(\<And>r c. g (mk r c) = h r) \<Longrightarrow> i \<notin> h ` set rs \<Longrightarrow> find (\<lambda>e. g e = i) (emit mk rs cs) = None"
  by (induction mk rs cs rule: emit.induct) auto

lemma contents_after_emit:
  "distinct (map pu_elementId rs) \<Longrightarrow> length cs = length rs \<Longrightarrow>
   contents_after (emit (\<lambda>r c. sessionRunToElement sv tb r c dx dy) rs cs) rs = patched rs cs"
proof (induction rs arbitrary: cs)
  case (Cons r rs)
  let ?mk = "\<lambda>r c. sessionRunToElement sv tb r c dx dy"
  obtain c cs' where cs: "cs = c # cs'" using Cons.prems(2) by (cases cs) auto
  have ih: "contents_after (emit ?mk rs cs') rs = patched rs cs'" using Cons by (simp add: cs)
  have n: "find (\<lambda>e. el_id e = pu_elementId r) (emit ?mk rs cs') = None"
    by (rule find_emit_notin [where h = pu_elementId]) (use Cons.prems(1) in auto)
  show ?case
  proof (cases c)
    case None
    then show ?thesis using ih n by (simp add: cs contents_after_def patched_def or_base_def)
  next
    case (Some d)
    have "contents_after (?mk r d # emit ?mk rs cs') rs = contents_after (emit ?mk rs cs') rs"
      unfolding contents_after_def by (rule map_cong) (use Cons.prems(1) in auto)
    moreover have "contents_after (?mk r d # emit ?mk rs cs') (r # rs)
        = d # contents_after (?mk r d # emit ?mk rs cs') rs" by (simp add: contents_after_def)
    ultimately show ?thesis using ih Some by (simp add: cs patched_def or_base_def)
  qed
qed (simp add: contents_after_def patched_def)

lemma or_base_Some [simp]: "or_base (Some x) b = x" and or_base_None [simp]: "or_base None b = b"
  by (simp_all add: or_base_def)

lemma patched_all: "patched line (map (\<lambda>r. if moved then Some (pu_content r) else None) line) = map pu_content line"
  by (induction line) (auto simp: patched_def)

lemma patched_update:
  "k < length line \<Longrightarrow> length p = length line \<Longrightarrow> patched line (p[k := Some c]) = (patched line p)[k := c]"
  by (rule nth_equalityI) (auto simp: patched_def nth_list_update)

lemma patched_line:
  "patched line (line_patch moved line same same) = map pu_content line"
  "line \<noteq> [] \<Longrightarrow> old \<noteq> new \<Longrightarrow> rewritten line old new (patched line (line_patch moved line (Some old) (Some new)))"
proof -
  show "patched line (line_patch moved line same same) = map pu_content line"
    by (simp add: line_patch_def patched_all)
  assume line: "line \<noteq> []" and new: "old \<noteq> new"
  show "rewritten line old new (patched line (line_patch moved line (Some old) (Some new)))"
  proof (cases "mapLineEditToSingleRun line old new")
    case None
    obtain r rs where rs: "line = r # rs" using line by (cases line) auto
    have "patched rs (map (\<lambda>r. Some []) rs) = replicate (length rs) []"
      by (rule nth_equalityI) (auto simp: patched_def)
    then have "patched line (line_patch moved line (Some old) (Some new)) = new # replicate (length line - 1) []"
      using new None by (simp add: line_patch_def Let_def rs) (simp add: patched_def)
    then show ?thesis by (simp add: rewritten_def)
  next
    case (Some kc)
    obtain k c where kc: "mapLineEditToSingleRun line old new = Some (k, c)" using Some by (cases kc) auto
    then have "k < length line" using line_edit_mapped by blast
    then have "patched line (line_patch moved line (Some old) (Some new)) = (map pu_content line)[k := c]"
      using new kc by (simp add: line_patch_def Let_def patched_update patched_all)
    then show ?thesis using line_edit_mapped [OF kc] unfolding rewritten_def by blast
  qed
qed

lemma refresh_line_patched:
  "map pu_content (refresh_line old (Some new) line) = patched line (line_patch moved line old (Some new))"
proof (cases "old = Some new")
  case True
  then show ?thesis by (simp add: refresh_line_def patched_line)
next
  case False
  let ?old = "case old of Some t \<Rightarrow> t | None \<Rightarrow> []"
  show ?thesis
  proof (cases "mapLineEditToSingleRun line ?old new")
    case None
    have "patched rs (map (\<lambda>r. Some []) rs) = replicate (length rs) []" for rs
      by (rule nth_equalityI) (auto simp: patched_def)
    then have "patched (r # rs) (Some new # map (\<lambda>r. Some []) rs) = new # replicate (length rs) []" for r rs
      by (simp add: patched_def)
    moreover have "map pu_content (map (\<lambda>r. r\<lparr>pu_content := []\<rparr>) rs) = replicate (length rs) []" for rs :: "session_line_run list"
      by (rule nth_equalityI) auto
    ultimately show ?thesis using False None
      by (cases line) (auto simp: refresh_line_def line_patch_def Let_def, simp add: patched_def)
  next
    case (Some kc)
    obtain k c where kc: "mapLineEditToSingleRun line ?old new = Some (k, c)" using Some by (cases kc) auto
    then have "k < length line" using line_edit_mapped by blast
    then show ?thesis using False kc
      by (auto simp: refresh_line_def line_patch_def Let_def patched_update patched_all map_update)
  qed
qed

text \<open>The parts of a reflowed line are its text.\<close>

lemma take_drop_join: "a \<le> c \<Longrightarrow> c \<le> e \<Longrightarrow> take (c - a) (drop a xs) @ take (e - c) (drop c xs) = take (e - a) (drop a xs)"
proof -
  assume "a \<le> c" "c \<le> e"
  then have "take (e - a) (drop a xs) = take ((c - a) + (e - c)) (drop a xs)" by simp
  also have "\<dots> = take (c - a) (drop a xs) @ take (e - c) (drop c xs)"
    unfolding take_add using \<open>a \<le> c\<close> by simp
  finally show ?thesis by simp
qed

lemma key_slices_text:
  "a \<le> c \<Longrightarrow> concat (map (\<lambda>(x, y). take (y - x) (drop x xs)) (key_slices a k c ks)) = take (c + length ks - a) (drop a xs)"
proof (induction a k c ks rule: key_slices.induct)
  case (2 a k c k' ks)
  show ?case
  proof (cases "k' = k")
    case False
    then show ?thesis
      using 2 take_drop_join [of a c "Suc (c + length ks)" xs] by (simp add: Suc_diff_le)
  qed (use 2 in simp)
qed simp

lemma line_pieces_text: "concat (map rp_text (line_pieces sv tb sources i line)) = line"
proof (cases "extractVisualLineCharStyles tb i (length line)")
  case None
  then show ?thesis by (simp add: line_pieces_def)
next
  case (Some cs)
  then have "length cs = length line"
    by (auto simp: extractVisualLineCharStyles_def Let_def split: if_splits option.splits)
  then show ?thesis
    using Some key_slices_text [of 0 1 line "sessionStyleKey (hd cs)" "map sessionStyleKey (tl cs)"]
    by (cases cs) (auto simp: line_pieces_def o_def case_prod_beta')
qed

lemma reflow_text:
  "concat (map content_of (reflow_elements tb newId (reflow_pieces sv tb lineRuns ls))) = concat ls"
proof -
  have "map content_of (reflow_elements tb newId ps) = map (\<lambda>p. rp_text (snd p)) ps" for ps
    unfolding reflow_elements_def
    by (rule map_map_index) (simp add: text_box_element_def content_of_def split_def)
  moreover have "concat (map (\<lambda>p. rp_text (snd p)) (concat (map_index f ls))) = concat ls"
    if "\<And>i line. concat (map (\<lambda>p. rp_text (snd p)) (f i line)) = line" for f :: "nat \<Rightarrow> string \<Rightarrow> (bounds \<times> reflow_piece) list"
    using that
  proof (induction ls arbitrary: f)
    case (Cons l ls)
    have "concat (map (\<lambda>p. rp_text (snd p)) (concat (map_index (\<lambda>i. f (Suc i)) ls))) = concat ls"
      by (rule Cons.IH) (rule Cons.prems)
    then show ?case using Cons.prems [of 0 l] by (simp add: map_index_Cons)
  qed simp
  ultimately show ?thesis
    by (simp add: reflow_pieces_def Let_def o_def line_pieces_text)
qed

definition paragraph_session_ok :: "session_box \<Rightarrow> session_line_run list list \<Rightarrow> bool" where
  "paragraph_session_ok tb lineRuns \<longleftrightarrow> sx_lineRuns tb = Some lineRuns \<and> lineRuns \<noteq> [] \<and> [] \<notin> set lineRuns
     \<and> distinct (map pu_elementId (concat lineRuns))
     \<and> (case sx_sessionLineTexts tb of Some ts \<Rightarrow> length ts = length lineRuns | None \<Rightarrow> False)"

lemma js_nth_less: "i < length xs \<Longrightarrow> js_nth xs (int i) = Some (xs ! i)"
  by (simp add: js_nth_Some)

lemma in_map_index: "x \<in> set (map_index f xs) \<Longrightarrow> \<exists>i<length xs. x = f i (xs ! i)"
  by (metis in_set_conv_nth length_map_index nth_map_index)

lemma moved_patch_full: "None \<notin> set (line_patch True line old new)"
  by (auto simp: line_patch_def Let_def dest!: set_update_subset_insert [THEN subsetD] split: option.splits list.splits)

lemma committed_elements:
  assumes ok: "paragraph_session_ok tb lineRuns" and u: "commitParagraphSession sv newId tb = Update es"
  shows "es = emit (\<lambda>r c. sessionRunToElement sv tb r c (fst (session_shift tb)) (snd (session_shift tb))) (concat lineRuns)
      (concat (map_index (\<lambda>i line. line_patch (session_moved tb) line (js_nth (session_baseline tb lineRuns) (int i))
        (js_nth (logical_lines tb) (int i))) lineRuns))"
proof -
  let ?mk = "\<lambda>r c. sessionRunToElement sv tb r c (fst (session_shift tb)) (snd (session_shift tb))"
  let ?patch = "\<lambda>i line. line_patch (session_moved tb) line (js_nth (session_baseline tb lineRuns) (int i)) (js_nth (logical_lines tb) (int i))"
  have "es = concat (map_index (\<lambda>i line. emit ?mk line (?patch i line)) lineRuns)"
    using ok u by (auto simp: commitParagraphSession_def paragraph_session_ok_def Let_def line_elements_emit split: if_splits)
  also have "map_index (\<lambda>i line. emit ?mk line (?patch i line)) lineRuns = map2 (emit ?mk) lineRuns (map_index ?patch lineRuns)"
    by (rule nth_equalityI) (simp_all add: js_simps)
  also have "concat \<dots> = emit ?mk (concat lineRuns) (concat (map_index ?patch lineRuns))"
    by (rule emit_concat) (simp_all add: js_simps)
  finally show ?thesis .
qed

lemma map2_concat:
  "length ys = length xs \<Longrightarrow> (\<And>i. i < length xs \<Longrightarrow> length (ys ! i) = length (xs ! i)) \<Longrightarrow>
   map2 f (concat xs) (concat ys) = concat (map2 (map2 f) xs ys)"
proof (induction xs arbitrary: ys)
  case (Cons x xs)
  obtain y ys' where y: "ys = y # ys'" using Cons.prems(1) by (cases ys) auto
  have "map2 f (concat xs) (concat ys') = concat (map2 (map2 f) xs ys')"
    by (rule Cons.IH) (use Cons.prems(1) Cons.prems(2) [of "Suc i" for i] y in auto)
  then show ?case using Cons.prems(2) [of 0] by (simp add: y)
qed simp

lemma contents_after_lines:
  assumes ok: "paragraph_session_ok tb lineRuns" and u: "commitParagraphSession sv newId tb = Update es" and i: "i < length lineRuns"
  shows "contents_after es (lineRuns ! i) = patched (lineRuns ! i) (line_patch (session_moved tb) (lineRuns ! i)
    (js_nth (session_baseline tb lineRuns) (int i)) (js_nth (logical_lines tb) (int i)))"
proof -
  let ?patch = "\<lambda>i line. line_patch (session_moved tb) line (js_nth (session_baseline tb lineRuns) (int i)) (js_nth (logical_lines tb) (int i))"
  let ?ps = "map_index ?patch lineRuns"
  have l: "length (concat ?ps) = length (concat lineRuns)"
    by (simp add: length_concat map_map_index o_def)
  have "concat (map (contents_after es) lineRuns) = contents_after es (concat lineRuns)"
    by (simp add: contents_after_def [abs_def] map_concat)
  also have "\<dots> = patched (concat lineRuns) (concat ?ps)"
    unfolding committed_elements [OF ok u] by (rule contents_after_emit) (use ok l in \<open>simp_all add: paragraph_session_ok_def\<close>)
  also have "\<dots> = concat (map2 patched lineRuns ?ps)"
    unfolding patched_def [abs_def] by (rule map2_concat) (simp_all add: js_simps)
  finally have "map (contents_after es) lineRuns = map2 patched lineRuns ?ps"
    by (subst (asm) concat_eq_concat_iff) (auto simp: js_simps set_zip contents_after_def patched_def)
  then have "map (contents_after es) lineRuns ! i = map2 patched lineRuns ?ps ! i" by simp
  then show ?thesis using i by (simp add: js_simps)
qed


section \<open>Opening and leaving\<close>

text \<open>Putting the lifted objects back at their places, in ascending order, undoes the lifting.\<close>

lemma members_of_snoc:
  "members_of g (obs @ [x]) = members_of g obs @ (if is_member g x then [(x, length obs)] else [])"
  by (simp add: members_of_def)

lemma insert_members_back:
  "fold insert_at (members_of g obs) (filter (\<lambda>x. \<not> is_member g x) obs @ rest) = obs @ rest"
proof (induction obs arbitrary: rest rule: rev_induct)
  case (snoc x obs)
  show ?case
    using snoc [of rest] snoc [of "x # rest"] by (simp add: members_of_snoc insert_at_def splice_ins_def)
qed (simp add: members_of_def)

lemma remove_members:
  "distinct (map object_ref obs) \<Longrightarrow>
   fold (\<lambda>m. canvas_remove (fst m)) (members_of g obs) obs = filter (\<lambda>x. \<not> is_member g x) obs"
proof -
  assume d: "distinct (map object_ref obs)"
  have "fold (\<lambda>m. canvas_remove (fst m)) ms obs = filter (\<lambda>x. object_ref x \<notin> (object_ref \<circ> fst) ` set ms) obs"
    for ms :: "(canvas_object \<times> nat) list"
  proof (induction ms arbitrary: obs)
    case (Cons m ms)
    show ?case unfolding fold_simps o_def [of _ "\<lambda>m. canvas_remove (fst m)"] comp_apply
      by (subst Cons) (auto simp: canvas_remove_def intro!: filter_cong)
  qed simp
  moreover have "filter (\<lambda>x. object_ref x \<notin> (object_ref \<circ> fst) ` set (members_of g obs)) obs = filter (\<lambda>x. \<not> is_member g x) obs"
  proof (rule filter_cong [OF refl])
    fix x assume x: "x \<in> set obs"
    have "fst ` set (members_of g obs) = {x \<in> set obs. is_member g x}"
      by (force simp: members_of_def in_set_zip in_set_conv_nth)
    then have "(object_ref \<circ> fst) ` set (members_of g obs) = object_ref ` {x \<in> set obs. is_member g x}"
      by (metis image_comp)
    then show "(object_ref x \<notin> (object_ref \<circ> fst) ` set (members_of g obs)) = (\<not> is_member g x)"
      using d x by (auto simp: distinct_map dest: inj_onD)
  qed
  ultimately show ?thesis by simp
qed

lemma sorted_members: "sort_key snd (members_of g obs) = members_of g obs"
  by (rule sort_key_id_if_sorted) (simp add: members_of_def sorted_filter)

text \<open>Widening changes the width and the line breaks only.\<close>

lemma widen_fields:
  "sx_text (widen sv n k b) = sx_text b \<and> sx_left (widen sv n k b) = sx_left b \<and> sx_top (widen sv n k b) = sx_top b
   \<and> sx_lineRuns (widen sv n k b) = sx_lineRuns b \<and> sx_sessionLineTexts (widen sv n k b) = sx_sessionLineTexts b
   \<and> sx_sessionOrigin (widen sv n k b) = sx_sessionOrigin b"
  by (induction sv n k b rule: widen.induct) (auto simp: initDimensions_def)

lemma joined_chars: "set (fold join_step pieces out) \<subseteq> set out \<union> {CHR '' ''} \<union> \<Union> (set ` set pieces)"
proof (induction pieces arbitrary: out)
  case (Cons p ps)
  then show ?case using Cons [of "join_step p out"] by (cases "p = []") (auto simp: spaced_def split: if_splits)
qed auto

lemma session_box_fields:
  assumes "b = session_box_of sv tag ls"
  shows "sx_text b = js_join ''\<newline>'' (map (\<lambda>l. joinLineRunContents (map te_content l)) ls)"
    "sx_lineRuns b = Some (map (map line_run_of) ls)"
    "sx_sessionLineTexts b = Some (map (\<lambda>l. joinLineRunContents (map te_content l)) ls)"
    "sx_sessionOrigin b = Some (sx_left b, sx_top b)"
  using assms by (simp_all add: session_box_of_def Let_def widen_fields initDimensions_def)

lemma untouched_is_unchanged:
  assumes "list_all (list_all (\<lambda>r. CHR ''\<newline>'' \<notin> set (te_content r))) ls"
  shows "commitParagraphSession sv newId (session_box_of sv tag ls) = Unchanged"
proof (cases "ls = []")
  case False
  let ?b = "session_box_of sv tag ls" and ?texts = "map (\<lambda>l. joinLineRunContents (map te_content l)) ls"
  have "CHR ''\<newline>'' \<notin> set t" if "t \<in> set ?texts" for t
    using that assms joined_chars [of _ "[]"] by (fastforce simp: joinLineRunContents_def list_all_iff)
  then have "logical_lines ?b = ?texts"
    unfolding logical_lines_def session_box_fields [OF refl] by (intro split_join) (use False in auto)
  moreover have "session_baseline ?b lr = ?texts" for lr
    by (simp add: session_baseline_def session_box_fields [OF refl])
  moreover have "\<not> session_moved ?b"
    by (simp add: session_moved_def session_shift_def session_box_fields(4) [OF refl])
  ultimately show ?thesis by (simp add: commitParagraphSession_def Let_def split: option.split)
qed (simp add: commitParagraphSession_def session_box_fields [OF refl])

text \<open>C9: Opening the session of a paragraph and leaving it without an edit changes nothing: the objects of the
  canvas are the same, in the same order, no element is written, removed or added, the bounds the canvas
  remembers stay, and the session is closed. While it is open, the box stands for the members of the group.\<close>

theorem session_untouched_restores:
  assumes "distinct (map object_ref (cn_objects c))" "ref \<notin> object_ref ` set (cn_objects c)"
    "beginParagraphEditSession sv ref (Some tag) c = (c1, Some box)"
    "list_all (list_all (\<lambda>r. CHR ''\<newline>'' \<notin> set (te_content r))) (gt_lines tag)"
  shows "cn_objects c1 = filter (\<lambda>x. \<not> is_member (gt_groupId tag) x) (cn_objects c) @ [Session_object ref box]
    \<and> (case exit_session sv newId ref box c1 known of (c2, known', evs) \<Rightarrow>
         cn_objects c2 = cn_objects c \<and> known' = known \<and> evs = [] \<and> map_get (cn_restore c2) ref = None)"
proof -
  let ?ls = "filter (\<lambda>l. length l > 0) (gt_lines tag)" and ?members = "members_of (gt_groupId tag) (cn_objects c)"
  let ?rest = "filter (\<lambda>x. \<not> is_member (gt_groupId tag) x) (cn_objects c)"
  have c1: "box = session_box_of sv tag ?ls" "cn_objects c1 = ?rest @ [Session_object ref box]"
    "cn_restore c1 = AList.update ref ?members (cn_restore c)"
    using assms(3) remove_members [OF assms(1)]
    by (auto simp: beginParagraphEditSession_def Let_def split: if_splits)
  have "commitParagraphSession sv newId box = Unchanged"
    unfolding c1(1) by (rule untouched_is_unchanged) (use assms(4) in \<open>auto simp: list_all_iff\<close>)
  moreover have "canvas_remove (Session_object ref box) (cn_objects c1) = ?rest"
    by (simp add: c1(2) canvas_remove_def) (rule filter_cong [OF refl], use assms(2) in auto)
  moreover have "fold insert_at ?members ?rest = cn_objects c"
    using insert_members_back [of "gt_groupId tag" "cn_objects c" "[]"] by simp
  ultimately show ?thesis
    using c1 by (simp add: exit_session_def restoreParagraphEditSession_def js_simps sorted_members)
qed

section \<open>The line by line decomposition\<close>

lemma line_to_text_simps [simp]:
  "pu_elementId r \<noteq> [] \<Longrightarrow> el_id (lineToTextElement sv i tb t (Some r) b dx dy) = pu_elementId r"
  "content_of (lineToTextElement sv i tb t src b dx dy) = t"
  "el_index (lineToTextElement sv i tb t (Some r) b dx dy) = pu_index r"
  "el_index (lineToTextElement sv i tb t None b dx dy) = None"
  by (simp_all add: lineToTextElement_def Let_def text_box_element_def content_of_def)

text \<open>Without a session every run of the paragraph is written once, in order; the lines are written in order,
  the runs behind the last line become empty, and lines behind the last run are new elements.\<close>

lemma decompose_ids:
  assumes "list_all (\<lambda>r. pu_elementId r \<noteq> []) runs"
  shows "map el_id (take (length runs) (decompose_paragraph sv newId tb runs)) = map pu_elementId runs"
    "map content_of (decompose_paragraph sv newId tb runs)
        = logical_lines tb @ replicate (length runs - length (logical_lines tb)) []"
    "list_all (\<lambda>e. el_index e = None) (drop (length runs) (decompose_paragraph sv newId tb runs))"
proof -
  note d = decompose_paragraph_def Let_def
  show "map el_id (take (length runs) (decompose_paragraph sv newId tb runs)) = map pu_elementId runs"
    by (rule nth_equalityI)
      (use assms in \<open>auto simp: d js_simps js_nth_less nth_append list_all_length min_def\<close>)
  show "map content_of (decompose_paragraph sv newId tb runs)
        = logical_lines tb @ replicate (length runs - length (logical_lines tb)) []"
    by (rule nth_equalityI) (auto simp: d js_simps nth_append)
  have "js_nth runs (int (length runs) + int n) = None" for n
    by (simp add: js_nth_def)
  then show "list_all (\<lambda>e. el_index e = None) (drop (length runs) (decompose_paragraph sv newId tb runs))"
    by (auto simp: d js_simps list_all_length nth_append)
qed

section \<open>Examples\<close>

text \<open>A paragraph of two lines, the first with a bold word, and services without fonts: every style has one
  family, and a line breaks where its text does.\<close>

definition demo_run :: "uuid \<Rightarrow> int \<Rightarrow> jsnum \<Rightarrow> jsnum \<Rightarrow> font_weight \<Rightarrow> string \<Rightarrow> text_element" where
  "demo_run i k x y w content = \<lparr>te_element = \<lparr>el_id = i,
       el_bounds = \<lparr>b_x = x, b_y = y, b_width = 40, b_height = 10\<rparr>,
       el_transform = \<lparr>t_rotation = 0, t_scaleX = 1, t_scaleY = 1, t_skewX = 0, t_skewY = 0\<rparr>,
       el_layerId = None, el_locked = False, el_visible = True,
       el_body = Text_Body content \<lparr>ts_fontFamily = ''F'', ts_fontSize = 10, ts_fontWeight = w,
         ts_fontStyle = Normal_Slant, ts_color = ''c'', ts_opacity = 1, ts_textAlign = Align_Left, ts_lineHeight = 1,
         ts_letterSpacing = 0, ts_underline = False, ts_strikethrough = False, ts_originalFont = Some ''F'', ts_optional = []\<rparr>,
       el_index = Some k, el_rest = []\<rparr>,
     te_linkUrl = None, te_linkPage = None, te_rtl = False, te_segments = 0\<rparr>"

definition demo_services :: text_services where
  "demo_services = \<lparr>sv_resolveTextFont = (\<lambda>style t. \<lparr>rf_fontFamily = ''F'',
       rf_fontWeight = Weight_text (weight_word (ts_fontWeight style)), rf_fontStyle = ''normal''\<rparr>),
     sv_initDimensions = (\<lambda>b. (js_split CHR ''\<newline>'' (sx_text b), [])), sv_fontId = (\<lambda>style. None), sv_optional = (\<lambda>i. [])\<rparr>"

definition demo_tag :: group_tag where
  "demo_tag = \<lparr>gt_groupId = ''g'', gt_lines = [[demo_run ''a'' 0 0 0 Normal_Weight ''see'', demo_run ''b'' 1 40 0 Bold_Weight ''me''],
       [demo_run ''c'' 2 0 12 Normal_Weight ''now'']], gt_align = None, gt_lineHeightMultiple = None, gt_frame = None,
     gt_sessionable = True\<rparr>"

definition demo_canvas :: session_canvas where
  "demo_canvas = \<lparr>cn_objects = [Plain_object 1 (Some demo_tag), Plain_object 2 None, Plain_object 3 (Some demo_tag),
     Plain_object 4 (Some demo_tag), Plain_object 5 None], cn_restore = [], cn_active = None\<rparr>"

definition demo_box :: session_box where
  "demo_box = session_box_of demo_services demo_tag (gt_lines demo_tag)"

text \<open>Typing in the box: the new text with the lines the library breaks it into.\<close>

definition typed :: "string \<Rightarrow> session_box \<Rightarrow> session_box" where
  "typed t b = initDimensions demo_services (b\<lparr>sx_text := t\<rparr>)"

definition demo_lineRuns :: "session_line_run list list" where
  "demo_lineRuns = map (map line_run_of) (gt_lines demo_tag)"

definition commit_contents :: "session_commit \<Rightarrow> (uuid \<times> string) list" where
  "commit_contents commit = (case commit of Unchanged \<Rightarrow> [] | Update es \<Rightarrow> map (\<lambda>e. (el_id e, content_of e)) es
     | Reflow removed added \<Rightarrow> map (\<lambda>e. (el_id e, content_of e)) added)"


theorem session_untouched_restores_witness:
  "fst (beginParagraphEditSession demo_services 9 (Some demo_tag) demo_canvas) \<noteq> demo_canvas
   \<and> (case exit_session demo_services (\<lambda>k. ''n'') 9 demo_box (fst (beginParagraphEditSession demo_services 9 (Some demo_tag) demo_canvas)) [] of
       (c2, known', evs) \<Rightarrow> cn_objects c2 = cn_objects demo_canvas \<and> evs = [])"
proof -
  let ?r = "beginParagraphEditSession demo_services 9 (Some demo_tag) demo_canvas"
  have b: "map object_ref (cn_objects (fst ?r)) = [2, 5, 9]" "snd ?r \<noteq> None" by code_simp+
  then have r: "?r = (fst ?r, Some demo_box)"
    by (auto simp: beginParagraphEditSession_def demo_box_def demo_tag_def Let_def prod_eq_iff split: if_splits)
  have "list_all (list_all (\<lambda>r. CHR ''\<newline>'' \<notin> set (te_content r))) (gt_lines demo_tag)"
    "distinct (map object_ref (cn_objects demo_canvas))" "9 \<notin> object_ref ` set (cn_objects demo_canvas)" by code_simp+
  from session_untouched_restores [OF this(2,3) r this(1), where newId = "\<lambda>k. ''n''" and known = "[]"]
  show ?thesis using b by (auto simp: demo_canvas_def)
qed

section \<open>Where the session fails\<close>

text \<open>A reflow reuses the id of the first run with the same style for every part with that style, so two new
  elements have one id; and all parts of a line lie at the same place.\<close>

lemma reflow_ids_repeat:
  "commit_contents (commitParagraphSession demo_services (\<lambda>k. ''n'') (typed ''see me\<newline>now\<newline>then'' demo_box))
    = [(''a'', ''see ''), (''b'', ''me''), (''a'', ''now''), (''n'', ''then'')]"
  by code_simp

lemma reflow_parts_overlap:
  "set (map (\<lambda>(b, part). (b_x b, b_y b)) (reflow_pieces sv tb lineRuns [line])) \<subseteq> {(sx_left tb, sx_top tb)}"
  by (auto simp: reflow_pieces_def Let_def map_index_Cons)

text \<open>The snapshot after an update keeps the old bounds of the runs but the new place of the box: the next
  edit puts a moved paragraph back.\<close>

definition commit_lefts :: "session_commit \<Rightarrow> jsnum list" where
  "commit_lefts commit = (case commit of Update es \<Rightarrow> map (\<lambda>e. b_x (el_bounds e)) es | _ \<Rightarrow> [])"

lemma second_edit_moves_back:
  "let b1 = demo_box\<lparr>sx_left := 5\<rparr>; c1 = commitParagraphSession demo_services (\<lambda>k. ''n'') b1;
       b2 = typed ''see me\<newline>now!'' (refreshParagraphSessionAfterCommit c1 b1);
       c2 = commitParagraphSession demo_services (\<lambda>k. ''n'') b2
   in commit_lefts c1 = [5, 45, 5] \<and> commit_contents c2 = [(''c'', ''now!'')] \<and> commit_lefts c2 = [0]"
  by code_simp

text \<open>After a reflow the snapshot has one line per new element, which need not be the lines of the text: here an
  empty line and a line with two styles balance, and the next edit doubles a word.\<close>

lemma edit_after_reflow_doubles:
  "let b1 = typed ''see me\<newline>\<newline>now'' demo_box; c1 = commitParagraphSession demo_services (\<lambda>k. ''n'') b1;
       b2 = typed ''see mex\<newline>\<newline>now'' (refreshParagraphSessionAfterCommit c1 b1);
       c2 = commitParagraphSession demo_services (\<lambda>k. ''n'') b2
   in commit_contents c1 = [(''a'', ''see ''), (''b'', ''me''), (''n'', ''now'')]
      \<and> commit_contents c2 = [(''a'', ''see mex'')]"
  by code_simp

text \<open>The spacing of letters is multiplied by ten on the way into the box and not divided on the way back.\<close>

lemma letter_spacing_tenfold:
  "ts_letterSpacing (box_style sv (session_box_of sv tag ls) family fontSize) = 10 * ts_letterSpacing (te_style (hd (hd ls)))"
proof -
  have "sx_charSpacing (widen sv n k b) = sx_charSpacing b" for n k b
    by (induction sv n k b rule: widen.induct) (auto simp: initDimensions_def)
  then show ?thesis by (simp add: box_style_def session_box_of_def Let_def initDimensions_def)
qed
end
