(* ===== verification/Spec2Isabelle.thy ===== *)
theory Spec2Isabelle
  imports History_Store Document_Store Selection_Store Canvas_Store View_Store Layout_Store
    Collaboration_Store Ui_Store Operations_Store Editor_Actions Page_Range Color Coordinates Permissions
    Engine Merge_Split Document_Handle Page_Ops Encryption Form_Filler Apply_Classify Apply_In_Place
    Apply_Operations Save_Flow Use_Document Load_Progress Offline_Queue Document_Save Sync_Middleware
    Edit_Tools Ssrf Http_Header Html_To_Pdf Convert_Route With_Retry Render_Pool Background_Cache
    Model_Ops Table_Edit Text_Runs List_Format Page_Layout Table_Layout Header_Footer
    Outline_Edit Pdf_Routes Structure_Route Links_Route Api_Client Socket_Client Persistence
    Ocr_Geometry Ocr_Pages Pdf_To_Xlsx Block_Extractor Paragraph_Groups
    Paragraph_Session
begin

text \<open>
  GigaPDF is a web editor for PDF files. This development models the parts of its TypeScript that
  carry the editing logic and shows what keeps a document intact from the user's click to the
  bytes of the saved file.

  \<^bold>\<open>The program.\<close> The browser holds the scene graph (pages, elements, user layers), filled at load
  from a parse of the PDF merged with the elements of the session
  (\<open>apps/web/src/hooks/use-document.ts\<close>); \<open>packages/editor/src/stores\<close> and \<open>actions\<close> hold the
  Zustand stores of the editor package with its undo history. Every edit is queued in
  \<open>operations-store.ts\<close>; the save drains the queue into \<open>api/pdf/apply-elements\<close>, whose
  \<open>applyOperations\<close> (\<open>packages/pdf-engine/src/render/apply-operations.ts\<close>) bakes it into the PDF:
  in-place edits first, then redaction of what the rest replaces, then the new content, then form
  values. The hook \<open>use-document-save.ts\<close> decides when that happens and uploads the result; saves that
  do not reach the server wait in \<open>apps/web/src/lib/offline-queue.ts\<close>. What the flat elements cannot
  express (paragraph formats, lists, tables) goes through the block tree of the engine
  (\<open>packages/pdf-engine/src/model-ops\<close>), and running headers and footers are recorded in the file. With
  other editors of the document the stores exchange changes over a socket
  (\<open>middleware/sync-middleware.ts\<close>). The outline of a document is edited as
  a flat list and baked into the file (\<open>editor/lib/outline-edit.ts\<close>, \<open>outline-bake.ts\<close>); routes detect
  chapters and change links and bookmarks of an uploaded file. Scans are recognised by a service and get
  a text layer or editable text (\<open>parse/ocr-searchable.ts\<close>, \<open>ocr-editable.ts\<close>); the text of a page is
  exported as a spreadsheet (\<open>convert/pdf-to-xlsx.ts\<close>). The structure the engine finds on a page
  (\<open>parse/block-extractor.ts\<close>) tells the editor which text runs form a paragraph, a table or a list
  (\<open>components/editor/render-elements.ts\<close>); a double click opens one text box for a paragraph, whose text
  goes back to the runs when it is left (\<open>editor/lib/fabric-element-io.ts\<close>). The packages reach the server through
  \<open>packages/api/src/client.ts\<close> and the socket of \<open>websocket/client.ts\<close>. Another route converts HTML and web
  pages to PDF, with guards against requests into the private network. The
  rest of \<open>packages/pdf-engine\<close> serves page operations, merge and split, and encryption. All PDF
  work is done by the WASM engine \<open>@qrcommunication/gigapdf-lib\<close>, which is not in the repository.

  \<^bold>\<open>Theories and sources.\<close>
  \<^item> \<open>Prelude\<close>: JavaScript arrays, sets and maps (insertion order), \<open>Math.round\<close>, \<open>%\<close>; the interface
    \<open>keyed_store\<close>. \<open>Js_Strings\<close>: \<open>trim\<close>, \<open>split\<close>, \<open>parseInt\<close>, \<open>toString\<close>, \<open>padStart\<close>.
    \<open>Elements\<close>: the data of \<open>packages/types/src/models\<close>.
  \<^item> \<open>History_Store\<close>, \<open>Document_Store\<close>, \<open>Selection_Store\<close>, \<open>Canvas_Store\<close>, \<open>View_Store\<close>,
    \<open>Layout_Store\<close>, \<open>Collaboration_Store\<close>, \<open>Ui_Store\<close>, \<open>Operations_Store\<close>: one theory per store of
    \<open>packages/editor/src/stores\<close>, its state as a record and one definition per action, with the
    store's invariant and its preservation by every action. \<open>document-store.ts\<close> calls itself
    deprecated in favour of \<open>use-document.ts\<close>; the actions still build on it.
  \<^item> \<open>Editor_Actions\<close>: \<open>packages/editor/src/actions\<close>, which change several stores at once.
  \<^item> \<open>Use_Document\<close>, \<open>Load_Progress\<close>: the hook \<open>use-document.ts\<close>, its pure operations and the state
    machine of its loading bar.
  \<^item> \<open>Page_Range\<close>, \<open>Color\<close>, \<open>Coordinates\<close>: \<open>packages/pdf-engine/src/utils\<close>.
  \<^item> \<open>Engine\<close>: the interface of the WASM engine, the heap of its live documents, effects, and the
    laws \<open>engine_pages\<close>, \<open>engine_tree\<close>, \<open>engine_outline\<close> the callers rely on, with a list-backed
    instance of them. \<open>Document_Handle\<close>, \<open>Page_Ops\<close>: \<open>packages/pdf-engine/src/engine\<close>.
    \<open>Merge_Split\<close>: \<open>merge-split\<close>. \<open>Permissions\<close>, \<open>Encryption\<close>: \<open>encrypt\<close>.
  \<^item> \<open>Apply_Classify\<close>, \<open>Apply_In_Place\<close>, \<open>Form_Filler\<close>, \<open>Apply_Operations\<close>: the pipeline of
    \<open>apply-operations.ts\<close> with \<open>engine-redact.ts\<close> and \<open>forms/filler.ts\<close>. \<open>Save_Flow\<close>: from the
    editor's queue to that pipeline.
  \<^item> \<open>Offline_Queue\<close>: \<open>offline-queue.ts\<close>, with the interface \<open>waiting_queue\<close> and its interpretations on
    the memory queue, the store and the whole queue. \<open>Document_Save\<close>: \<open>use-document-save.ts\<close> and the
    part of the editor page it calls, as steps between which the user edits. \<open>With_Retry\<close>:
    \<open>lib/with-retry.ts\<close>.
  \<^item> \<open>Sync_Middleware\<close>: detection and exchange of changes. \<open>Edit_Tools\<close>: find, replace, paste and the
    format painter of \<open>packages/editor/src/lib/edit-tools.ts\<close>.
  \<^item> \<open>Js_Regex\<close>: the regular expressions the guards use, as executable matchers. \<open>Ssrf\<close>:
    \<open>lib/security/url-validation.ts\<close>. \<open>Html_To_Pdf\<close>, \<open>Convert_Route\<close>: \<open>convert/html-to-pdf.ts\<close> and
    the route above it. \<open>Http_Header\<close>: \<open>lib/content-disposition.ts\<close>.
  \<^item> \<open>Render_Pool\<close>, \<open>Background_Cache\<close>: the two classes of \<open>editor/lib/page-render-pool.ts\<close>, with their
    asynchronous operations split at the points where others can run.
  \<^item> \<open>Model_Ops\<close>: \<open>model-ops/index.ts\<close>. \<open>Table_Edit\<close>: \<open>editor/lib/table-edit.ts\<close>, the actions of
    \<open>table-edit-overlay.tsx\<close> and their handlers in the editor page. \<open>Table_Layout\<close>:
    \<open>packages/editor/src/lib/table-layout.ts\<close>.
  \<^item> \<open>Text_Runs\<close>, \<open>List_Format\<close>, \<open>Page_Layout\<close>, \<open>Header_Footer\<close>: \<open>text-runs.ts\<close>, \<open>list-format.ts\<close>,
    \<open>page-layout.ts\<close> and \<open>running-header-footer.ts\<close> of \<open>apps/web/src/components/editor/lib\<close>, the
    last one with the handlers that change a definition.
  \<^item> \<open>Outline_Edit\<close>: \<open>outline-edit.ts\<close>, the panel \<open>toc-panel.tsx\<close>, \<open>outline-bake.ts\<close> and
    \<open>parse/bookmark-extractor.ts\<close>. \<open>Pdf_Routes\<close>: \<open>lib/request-validation.ts\<close> and the frame of the
    routes under \<open>api/pdf\<close>. \<open>Structure_Route\<close>, \<open>Links_Route\<close>: \<open>api/pdf/structure\<close> and
    \<open>api/pdf/links\<close>.
  \<^item> \<open>Api_Client\<close>: the interceptors of \<open>packages/api/src/client.ts\<close>, the refresh of the token and the
    requests waiting for it. \<open>Socket_Client\<close>: \<open>websocket/client.ts\<close> and the presence of
    \<open>websocket/hooks.ts\<close>. \<open>Persistence\<close>: \<open>persistence-middleware.ts\<close> over \<open>Document_Store\<close>.
  \<^item> \<open>Ocr_Geometry\<close>, \<open>Ocr_Pages\<close>: \<open>ocr-engine.ts\<close> and \<open>ocr-blocks.ts\<close>, \<open>ocr-searchable.ts\<close>,
    \<open>ocr-editable.ts\<close> of \<open>parse\<close>, first the geometry and the lines of words, then the passes over a
    document. \<open>Pdf_To_Xlsx\<close>: \<open>convert/pdf-to-xlsx.ts\<close> and \<open>pdf-to-text-formats.ts\<close>.
  \<^item> \<open>Block_Extractor\<close>: \<open>parse/block-extractor.ts\<close> and \<open>lib/pdf-block-groups.ts\<close>.
    \<open>Paragraph_Groups\<close>: the selection and grouping of text runs in \<open>render-elements.ts\<close>.
    \<open>Paragraph_Session\<close>: the edit session of a paragraph in \<open>render-elements.ts\<close>,
    \<open>fabric-element-io.ts\<close> and the handler of \<open>editor-canvas.tsx\<close> that leaves it.

  \<^bold>\<open>Reading the model.\<close> A TypeScript \<open>number\<close> is a rational (\<open>jsnum\<close>) or an integer: NaN, infinities
  and rounding are not modelled, so statements on geometry are about exact arithmetic. Permission
  flags are 32-bit words, because their bits matter. \<open>null\<close> and \<open>undefined\<close> are \<open>None\<close>; an
  exception is the left of a sum; immer drafts and object spreads are record updates. Random ids,
  the clock and everything the engine, the network or a renderer answers are arguments; the engine's
  readers of a page (runs, images, paths, geometry) are total functions, so an operation on a page
  the document does not have, for which the engine may throw, is outside the model. Fields no
  modelled operation reads travel in one opaque string of their record. Text whose UTF-16 units
  matter (runs, list markers, tokens, the name in a header) is a list of code units, other strings are HOL
  strings (code units below 256); \<open>toLowerCase\<close> in a search is a parameter, since beyond those it may change the
  length of a text. The requests of the font download are not among those listed for a conversion. The
  URL parser, \<open>JSON.parse\<close>, the DNS, \<open>fetch\<close>, the layout engine and the font download, the model calls and the writers of
  the engine, the OCR service, fonts and line breaking, the text blocks of a file, \<open>Array.sort\<close> with a comparator that is no order
  and the emitter of a socket are parameters. Effects on the engine
  are functions from a world, which holds the live documents and remembers a trap.

  \<^bold>\<open>What is shown.\<close> The loss of nothing and the doubling of nothing where data moves: the merge at
  reload, the coalescing of the queue, the routing of operations, what a successful save has cleared, drawn
  and filled, the in-place batch (equal to all edits at once on the original indices), the flush of
  the offline queue, merge, split and page operations as list operations on pages, with bookmarks.
  Edits of paragraphs, lists and tables reach the block they name. Styles of
  characters survive the way to Fabric and back, list markers name their ordinals. The page shown
  at a scroll position is the nearest one. A conversion only requests what its guards let through.
  An outline survives the way from the panel into the file and back, and what the links route asks
  of the engine is safe. Every request of the API client is answered or still under way, whatever the
  order of answers; the automatic save hands over every edit; a connected socket has every listener
  bound once. Recognised words stay inside their page, and are masked before they are drawn over; the
  grid of an exported page keeps all its text. Every text run of a page is in one group or stands
  alone, and the groups read from the engine are usable; leaving the edit session of a paragraph
  writes exactly the edit, or nothing.
  Invariants over all sequences of user actions for the stores, the hooks, the pool of canvases
  and the cache of backgrounds. No leak and no double
  free of engine documents in merge, split, redaction and the save pipeline. A collaborator who
  leaves holds no lock. Round trips for
  colours, page ranges, coordinates, permission flags and the names of downloads. Where the code deviates from
  what it means to do, a theorem states the deviation: redo restores the state before the edit,
  removing a page can leave the current index outside, a move through \<open>moveElement\<close> collapses
  the element, rotated pages are mirrored in the wrong extent, queued deletions are never applied
  in place, reorders of one page use stale indices, a rejected batch leaks a handle, and an
  operation that IndexedDB refuses is never replayed; edits made during a bake are lost, a remote
  change reverts a page and of several on one page only the last survives, the private address ranges are not
  those the comments name, the cell of a merged row is missed by a shading, the two routes never close
  their document, a reflowed paragraph
  repeats ids and overlaps itself, a 401 without a refresh token blocks the client, a room is not joined again after a
  reconnection.

  \<^bold>\<open>Bounds.\<close> No definition needs fuel: recursions are structural, or on the number of waiting
  operations (\<open>flush_from\<close>), or on a measure: the value of a number (\<open>nat_str\<close>, the loops of the
  list markers), the attempts left (\<open>retry_loop\<close>), the redirects left (\<open>fetch_loop\<close>, at most six
  requests), the text left (\<open>replace_loop\<close>, \<open>substituteHFTokens\<close>), the distance of the bounds of
  the binary searches (\<open>page_search\<close>, \<open>anchor_search\<close>).

  \<^bold>\<open>Not modelled.\<close> Rendering to the canvas and to PDF content (Fabric, React and engine calls with
  little logic of their own), the parsing of elements (it reads nearly every value from the
  engine) apart from the blocks of a page,
  the functions that send one request each, authentication, billing, storage, the Python backend,
  signing and accessibility helpers.
\<close>

end
